(* ===== verification/Creme_Prelude.thy ===== *)
theory Creme_Prelude
  imports Main
begin

text \<open>
  What every component of the development shares: the two ways a C function of icecreme can
  fail to return (an explicit call of \<open>creme_abort\<close>, or an access the C language leaves
  undefined), the result type that carries them, its bind, and the list lemmas the component
  proofs use.

  \<^item> \<open>Abort msg\<close> is a call of \<open>creme_abort\<close> (vm.c); \<open>msg\<close> is the formatted text.
  \<^item> \<open>Undef\<close> is an access the C code does not guard and the language leaves undefined: an
    array read out of its bounds, a child of a node that has none.  A theorem that a function
    returns \<open>Inr\<close> therefore also says that no such access happens.
\<close>

named_theorems res_simps \<open>equations of the result type and its bind\<close>

text \<open>C's \<open>char\<close> and \<open>unsigned char\<close> are both a byte here; a byte string is a list of them.\<close>

type_synonym bytes = "char list"

datatype fault = Undef | Abort bytes

type_synonym 'a res = "fault + 'a"

definition rbind :: "'a res \<Rightarrow> ('a \<Rightarrow> 'b res) \<Rightarrow> 'b res" where
  "rbind m f = (case m of Inl e \<Rightarrow> Inl e | Inr x \<Rightarrow> f x)"

lemma rbind_simps [simp, res_simps]:
  "rbind (Inl e) f = Inl e"
  "rbind (Inr x) f = f x"
  by (simp_all add: rbind_def)

lemma rbind_cong [fundef_cong]:
  "m = m' \<Longrightarrow> (\<And>x. m' = Inr x \<Longrightarrow> f x = g x) \<Longrightarrow> rbind m f = rbind m' g"
  by (cases m') (simp_all add: rbind_def)

lemma rbind_eq_Inr [res_simps]:
  "rbind m f = Inr y \<longleftrightarrow> (\<exists>x. m = Inr x \<and> f x = Inr y)"
  by (cases m) simp_all

lemma rbind_eq_Inl [res_simps]:
  "rbind m f = Inl e \<longleftrightarrow> m = Inl e \<or> (\<exists>x. m = Inr x \<and> f x = Inl e)"
  by (cases m) simp_all

lemma rbind_assoc: "rbind (rbind m f) g = rbind m (\<lambda>x. rbind (f x) g)"
  by (cases m) simp_all

lemma rbind_Inr_right [simp]: "rbind m Inr = m"
  by (cases m) simp_all

text \<open>A guard of the C code, \<open>if (b) creme_abort(...);\<close>, in front of the rest.\<close>

definition abort_if :: "bool \<Rightarrow> bytes \<Rightarrow> unit res" where
  "abort_if b msg = (if b then Inl (Abort msg) else Inr ())"

lemma abort_if_simps [simp]:
  "abort_if True msg = Inl (Abort msg)"
  "abort_if False msg = Inr ()"
  by (simp_all add: abort_if_def)

lemma abort_if_eq_Inr [res_simps]: "abort_if b msg = Inr u \<longleftrightarrow> \<not> b"
  by (cases b) simp_all

text \<open>The \<open>%d\<close> conversion of the C formatter, for the messages that carry a number.\<close>

function dec_nat :: "nat \<Rightarrow> bytes" where
  "dec_nat n = (if n < 10 then [char_of (48 + n)] else dec_nat (n div 10) @ [char_of (48 + n mod 10)])"
  by pat_completeness auto
termination by (relation "measure id") auto

declare dec_nat.simps [simp del]

definition dec :: "int \<Rightarrow> bytes" where
  "dec i = (if i < 0 then ''-'' @ dec_nat (nat (- i)) else dec_nat (nat i))"

text \<open>Decimal digits and the number they spell, C's \<open>isdigit\<close> on an \<open>unsigned char\<close>.\<close>

definition is_digit :: "char \<Rightarrow> bool" where
  "is_digit c \<longleftrightarrow> 48 \<le> (of_char c :: nat) \<and> (of_char c :: nat) \<le> 57"

fun digits_val :: "nat \<Rightarrow> bytes \<Rightarrow> nat" where
  "digits_val acc [] = acc"
| "digits_val acc (c # cs) = digits_val (10 * acc + (of_char c - 48)) cs"

lemma digits_val_append: "digits_val acc (xs @ ys) = digits_val (digits_val acc xs) ys"
  by (induction xs arbitrary: acc) simp_all

lemma of_char_digit: "n < 10 \<Longrightarrow> (of_char (char_of (48 + n) :: char) :: nat) = 48 + n"
  by (simp add: of_char_of)

lemma dec_nat_digits: "list_all is_digit (dec_nat n) \<and> dec_nat n \<noteq> [] \<and> digits_val 0 (dec_nat n) = n"
proof (induction n rule: dec_nat.induct)
  case (1 n)
  show ?case
  proof (cases "n < 10")
    case True
    then show ?thesis by (subst (1 2 3) dec_nat.simps) (simp add: is_digit_def of_char_digit)
  next
    case False
    with 1 have IH: "list_all is_digit (dec_nat (n div 10)) \<and> digits_val 0 (dec_nat (n div 10)) = n div 10" by simp
    have c: "(of_char (char_of (48 + n mod 10) :: char) :: nat) = 48 + n mod 10" by (rule of_char_digit) simp
    have "dec_nat n = dec_nat (n div 10) @ [char_of (48 + n mod 10)]" using False by (subst dec_nat.simps) simp
    moreover have "is_digit (char_of (48 + n mod 10))" unfolding is_digit_def c using mod_less_divisor [of 10 n] by simp
    ultimately show ?thesis using IH c by (simp add: digits_val_append)
  qed
qed

text \<open>Running a fallible step over an array, left to right.\<close>

fun rmap :: "('a \<Rightarrow> 'b res) \<Rightarrow> 'a list \<Rightarrow> 'b list res" where
  "rmap f [] = Inr []"
| "rmap f (x # xs) = rbind (f x) (\<lambda>y. rbind (rmap f xs) (\<lambda>ys. Inr (y # ys)))"

lemma rmap_cong [fundef_cong]:
  "xs = ys \<Longrightarrow> (\<And>x. x \<in> set ys \<Longrightarrow> f x = g x) \<Longrightarrow> rmap f xs = rmap g ys"
proof (induction ys arbitrary: xs)
  case Nil
  then show ?case by simp
next
  case (Cons y ys)
  then have "rmap f ys = rmap g ys" by simp
  with Cons.prems show ?case by simp
qed

lemma rmap_Inr: "(\<And>x. x \<in> set xs \<Longrightarrow> f x = Inr (g x)) \<Longrightarrow> rmap f xs = Inr (map g xs)"
  by (induction xs) simp_all

lemma rmap_exists:
  assumes "\<And>x. x \<in> set xs \<Longrightarrow> \<exists>y. f x = Inr y \<and> P x y"
  shows "\<exists>ys. rmap f xs = Inr ys \<and> list_all2 P xs ys"
  using assms
proof (induction xs)
  case Nil
  then show ?case by simp
next
  case (Cons x xs)
  then obtain y where y: "f x = Inr y" "P x y" by auto
  from Cons obtain ys where "rmap f xs = Inr ys" "list_all2 P xs ys" by auto
  with y show ?case by auto
qed

text \<open>List lemmas.\<close>

lemma last_conv_butlast: "xs \<noteq> [] \<Longrightarrow> xs = butlast xs @ [last xs]"
  by simp

lemma concat_map_butlast_last:
  "xs \<noteq> [] \<Longrightarrow> concat (map f xs) = concat (map f (butlast xs)) @ f (last xs)"
proof -
  assume "xs \<noteq> []"
  then obtain ys y where "xs = ys @ [y]" by (cases xs rule: rev_cases) auto
  then show ?thesis by simp
qed

lemma concat_map_hd_tl:
  "xs \<noteq> [] \<Longrightarrow> concat (map f xs) = f (hd xs) @ concat (map f (tl xs))"
  by (cases xs) simp_all

lemma concat_map_concat_map:
  "concat (map f (concat (map g xs))) = concat (map (\<lambda>x. concat (map f (g x))) xs)"
  by (induction xs) simp_all

lemma in_set_butlast_tl:
  "x \<in> set (tl xs) \<Longrightarrow> x \<in> set xs"
  by (cases xs) simp_all

text \<open>Cumulative sums, the size table of a relaxed radix balanced branch.\<close>

fun cumul :: "nat \<Rightarrow> nat list \<Rightarrow> nat list" where
  "cumul acc [] = []"
| "cumul acc (n # ns) = (acc + n) # cumul (acc + n) ns"

lemma length_cumul [simp]: "length (cumul acc ns) = length ns"
  by (induction ns arbitrary: acc) simp_all

lemma cumul_nth: "i < length ns \<Longrightarrow> cumul acc ns ! i = acc + sum_list (take (Suc i) ns)"
  by (induction ns arbitrary: acc i) (auto simp: nth_Cons split: nat.splits)

lemma cumul_Nil_iff [simp]: "cumul acc ns = [] \<longleftrightarrow> ns = []"
  by (cases ns) simp_all

lemma last_cumul: "ns \<noteq> [] \<Longrightarrow> last (cumul acc ns) = acc + sum_list ns"
proof (induction ns arbitrary: acc)
  case Nil
  then show ?case by simp
next
  case (Cons n ns)
  show ?case
  proof (cases "ns = []")
    case True
    then show ?thesis by simp
  next
    case False
    with Cons.IH [OF this, of "acc + n"] show ?thesis by simp
  qed
qed

lemma cumul_append:
  "cumul acc (ms @ ns) = cumul acc ms @ cumul (acc + sum_list ms) ns"
  by (induction ms arbitrary: acc) (simp_all add: add.assoc)

lemma cumul_add: "cumul (Suc acc) ns = map Suc (cumul acc ns)"
proof (induction ns arbitrary: acc)
  case Nil
  then show ?case by simp
next
  case (Cons n ns)
  from Cons.IH [of "acc + n"] show ?case by simp
qed

end
