(* ===== verification/Treelist_Core.thy ===== *)
theory Treelist_Core
  imports Creme_Prelude
begin

text \<open>
  The relaxed radix balanced (RRB) tree engine of icecreme/treelist.c: nodes, their
  construction, indexed read and write, the two fast appends, chunking, rebalancing,
  concatenation, slicing and bulk load, and the tree-level operations on top of them.
  The builtins that take and return Scheme values are in \<open>Treelist_Builtins\<close>.

  A leaf is a C node with \<open>is_branch == 0\<close>; its \<open>height\<close> is 0 and its \<open>size\<close> and \<open>n_items\<close> are
  the length of \<open>items\<close> (\<open>rrb_make_leaf\<close> is the only place that builds one).  A branch keeps its
  stored \<open>height\<close>, \<open>size\<close>, \<open>children\<close> and cumulative \<open>sizes\<close>.  Nodes are never written after
  they are built, so a tree is a value; the C \<open>int\<close> fields are naturals, exact while a tree has
  at most \<open>INT_MAX\<close> elements (lemma \<open>wf_node_fields_le\<close>: no stored number exceeds the element
  count).
\<close>

subsection \<open>Nodes\<close>

definition RRB_WIDTH :: nat where
  "RRB_WIDTH = 32"

datatype 'a rrb =
    Leaf (leaf_items: "'a list")
  | Branch (branch_height: nat) (branch_size: nat) (branch_children: "'a rrb list")
      (branch_sizes: "nat list")

fun is_branch :: "'a rrb \<Rightarrow> bool" where
  "is_branch (Leaf xs) = False"
| "is_branch (Branch h s cs ss) = True"

fun node_size :: "'a rrb \<Rightarrow> nat" where
  "node_size (Leaf xs) = length xs"
| "node_size (Branch h s cs ss) = s"

text \<open>The fields \<open>items\<close>/\<open>n_items\<close> and \<open>children\<close>/\<open>n_children\<close>: \<open>GC_MALLOC\<close> zeroes a node, so the
  fields of the other kind read as an empty array.\<close>

fun node_items :: "'a rrb \<Rightarrow> 'a list" where
  "node_items (Leaf xs) = xs"
| "node_items (Branch h s cs ss) = []"

fun node_children :: "'a rrb \<Rightarrow> 'a rrb list" where
  "node_children (Leaf xs) = []"
| "node_children (Branch h s cs ss) = cs"

fun rrb_height_of :: "'a rrb \<Rightarrow> nat" where
  "rrb_height_of (Leaf xs) = 0"
| "rrb_height_of (Branch h s cs ss) = h"

definition rrb_make_leaf :: "'a list \<Rightarrow> 'a rrb" where
  "rrb_make_leaf xs = Leaf xs"

definition rrb_empty_leaf :: "'a rrb" where
  "rrb_empty_leaf = rrb_make_leaf []"

definition rrb_as_branch :: "'a rrb \<Rightarrow> 'a rrb res" where
  "rrb_as_branch n =
     rbind (abort_if (\<not> is_branch n) ''RRB: expected a branch node'') (\<lambda>_. Inr n)"

text \<open>\<open>rrb_mk_branch\<close> reads \<open>children[0]\<close>, so it needs a child.\<close>

definition rrb_mk_branch :: "'a rrb list \<Rightarrow> 'a rrb res" where
  "rrb_mk_branch cs =
     (if cs = [] then Inl Undef
      else (let ss = cumul 0 (map node_size cs)
            in Inr (Branch (rrb_height_of (hd cs) + 1) (last ss) cs ss)))"

lemma size_child_less [termination_simp]:
  "c \<in> set cs \<Longrightarrow> size c < Suc (size_list size cs + n)"
  by (induction cs) auto

lemma size_nth_child [termination_simp]: "i < length cs \<Longrightarrow> size (cs ! i) < Suc (size_list size cs)"
  using size_child_less [of "cs ! i" cs 0] by simp

lemma size_end_child [termination_simp]:
  "cs \<noteq> [] \<Longrightarrow> size (last cs) < Suc (size_list size cs)"
  "cs \<noteq> [] \<Longrightarrow> size (hd cs) < Suc (size_list size cs)"
  using size_child_less [of "last cs" cs 0] size_child_less [of "hd cs" cs 0] by simp_all

subsection \<open>Indexed read and write\<close>

text \<open>The scan \<open>while (sizes[i] <= index) i++\<close>, from slot \<open>i\<close>; running past the table is
  undefined.\<close>

fun find_slot :: "nat list \<Rightarrow> nat \<Rightarrow> nat \<Rightarrow> nat res" where
  "find_slot [] idx i = Inl Undef"
| "find_slot (s # ss) idx i = (if s \<le> idx then find_slot ss idx (i + 1) else Inr i)"

function rrb_node_ref :: "'a rrb \<Rightarrow> nat \<Rightarrow> 'a res" where
  "rrb_node_ref (Leaf xs) idx = (if idx < length xs then Inr (xs ! idx) else Inl Undef)"
| "rrb_node_ref (Branch h s cs ss) idx =
     rbind (find_slot ss idx 0)
       (\<lambda>i. if i < length cs
            then rrb_node_ref (cs ! i) (if i > 0 then idx - ss ! (i - 1) else idx)
            else Inl Undef)"
  by pat_completeness auto
termination
  by (relation "measure (\<lambda>(n, idx). size n)") (auto simp: size_nth_child size_end_child)

function rrb_node_set :: "'a rrb \<Rightarrow> nat \<Rightarrow> 'a \<Rightarrow> 'a rrb res" where
  "rrb_node_set (Leaf xs) idx v =
     (if idx < length xs then Inr (rrb_make_leaf (xs[idx := v])) else Inl Undef)"
| "rrb_node_set (Branch h s cs ss) idx v =
     rbind (find_slot ss idx 0)
       (\<lambda>i. let prev = (if i > 0 then ss ! (i - 1) else 0)
            in if i < length cs
               then rbind (rrb_node_set (cs ! i) (idx - prev) v)
                      (\<lambda>c. Inr (Branch h s (cs[i := c]) ss))
               else Inl Undef)"
  by pat_completeness auto
termination
  by (relation "measure (\<lambda>(n, idx, v). size n)") (auto simp: size_nth_child size_end_child)

subsection \<open>The two fast appends; \<open>None\<close> is the C \<open>NULL\<close>\<close>

function rrb_fast_push :: "'a rrb \<Rightarrow> 'a \<Rightarrow> 'a rrb option res" where
  "rrb_fast_push (Leaf xs) v =
     (if length xs \<ge> RRB_WIDTH then Inr None else Inr (Some (rrb_make_leaf (xs @ [v]))))"
| "rrb_fast_push (Branch h s cs ss) v =
     (if cs = [] then Inl Undef
      else rbind (rrb_fast_push (last cs) v)
        (\<lambda>r. case r of
               None \<Rightarrow> Inr None
             | Some child \<Rightarrow>
                 (let n = length cs - 1
                  in Inr (Some (Branch h (s + 1) (cs[n := child]) (ss[n := ss ! n + 1]))))))"
  by pat_completeness auto
termination
  by (relation "measure (\<lambda>(n, v). size n)") (auto simp: size_nth_child size_end_child)

function rrb_fast_cons :: "'a rrb \<Rightarrow> 'a \<Rightarrow> 'a rrb option res" where
  "rrb_fast_cons (Leaf xs) v =
     (if length xs \<ge> RRB_WIDTH then Inr None else Inr (Some (rrb_make_leaf (v # xs))))"
| "rrb_fast_cons (Branch h s cs ss) v =
     (if cs = [] then Inl Undef
      else rbind (rrb_fast_cons (hd cs) v)
        (\<lambda>r. case r of
               None \<Rightarrow> Inr None
             | Some child \<Rightarrow>
                 Inr (Some (Branch h (s + 1) (cs[0 := child]) (map Suc ss)))))"
  by pat_completeness auto
termination
  by (relation "measure (\<lambda>(n, v). size n)") (auto simp: size_nth_child size_end_child)

subsection \<open>Chunking and rebalancing\<close>

text \<open>The loop of \<open>rrb_chunk_leaves\<close> and \<open>rrb_chunk_branches\<close>: groups of \<open>RRB_WIDTH\<close>, the last
  one shorter.\<close>

function chunk_groups :: "'b list \<Rightarrow> 'b list list" where
  "chunk_groups xs =
     (if xs = [] then [] else take RRB_WIDTH xs # chunk_groups (drop RRB_WIDTH xs))"
  by pat_completeness auto
termination
  by (relation "measure length") (auto simp: RRB_WIDTH_def)

declare chunk_groups.simps [simp del]

definition rrb_chunk_leaves :: "'a list \<Rightarrow> 'a rrb list" where
  "rrb_chunk_leaves xs = map rrb_make_leaf (chunk_groups xs)"

definition rrb_chunk_branches :: "'a rrb list \<Rightarrow> 'a rrb list res" where
  "rrb_chunk_branches kids = rmap rrb_mk_branch (chunk_groups kids)"

definition rrb_rebalance :: "'a rrb list \<Rightarrow> nat \<Rightarrow> 'a rrb res" where
  "rrb_rebalance merged ml =
     rbind (if ml = 0 then Inr (rrb_chunk_leaves (concat (map node_items merged)))
            else rrb_chunk_branches (concat (map node_children merged)))
       (\<lambda>new_nodes.
          if length new_nodes \<le> RRB_WIDTH
          then rbind (rrb_mk_branch new_nodes) (\<lambda>inner. rrb_mk_branch [inner])
          else rbind (rrb_mk_branch (take RRB_WIDTH new_nodes))
                 (\<lambda>a. rbind (rrb_mk_branch (drop RRB_WIDTH new_nodes))
                   (\<lambda>b. rrb_mk_branch [a, b])))"

subsection \<open>Concatenation\<close>

definition concat_leaves :: "'a list \<Rightarrow> 'a list \<Rightarrow> 'a rrb res" where
  "concat_leaves xs ys =
     (let combined = xs @ ys; total = length xs + length ys
      in if total \<le> RRB_WIDTH then rrb_mk_branch [rrb_make_leaf combined]
         else rrb_mk_branch [rrb_make_leaf (take RRB_WIDTH combined),
                rrb_make_leaf (drop RRB_WIDTH combined)])"

lemma rrb_as_branch_Inr [simp]: "rrb_as_branch n = Inr m \<longleftrightarrow> is_branch n \<and> m = n"
  by (cases n) (auto simp: rrb_as_branch_def)

lemma size_last_child [termination_simp]:
  "is_branch n \<Longrightarrow> node_children n \<noteq> [] \<Longrightarrow> size (last (node_children n)) < size n"
  by (cases n) (simp_all add: size_end_child)

lemma size_hd_child [termination_simp]:
  "is_branch n \<Longrightarrow> node_children n \<noteq> [] \<Longrightarrow> size (hd (node_children n)) < size n"
  by (cases n) (simp_all add: size_end_child)

function rrb_concat_sub :: "'a rrb \<Rightarrow> 'a rrb \<Rightarrow> 'a rrb res" where
  "rrb_concat_sub left right =
     (let hl = rrb_height_of left; hr = rrb_height_of right in
      if hl = hr then
        (if \<not> is_branch left \<and> \<not> is_branch right
         then concat_leaves (node_items left) (node_items right)
         else rbind (rrb_as_branch left) (\<lambda>lb. rbind (rrb_as_branch right) (\<lambda>rb.
           if node_children lb = [] \<or> node_children rb = [] then Inl Undef
           else rbind (rrb_concat_sub (last (node_children lb)) (hd (node_children rb)))
             (\<lambda>mid. rrb_rebalance
                (butlast (node_children lb) @ node_children mid @ tl (node_children rb))
                (hl - 1)))))
      else if hl > hr then
        rbind (rrb_as_branch left) (\<lambda>lb.
          if node_children lb = [] then Inl Undef
          else rbind (rrb_concat_sub (last (node_children lb)) right)
            (\<lambda>mid. rrb_rebalance (butlast (node_children lb) @ node_children mid) (hl - 1)))
      else
        rbind (rrb_as_branch right) (\<lambda>rb.
          if node_children rb = [] then Inl Undef
          else rbind (rrb_concat_sub left (hd (node_children rb)))
            (\<lambda>mid. rrb_rebalance (node_children mid @ tl (node_children rb)) (hr - 1))))"
  by pat_completeness auto
termination
proof (relation "measure (\<lambda>(l, r). size l + size r)", goal_cases)
  case 1
  show ?case by simp
next
  case (2 left right hl hr lb rb)
  then have "size (last (node_children left)) < size left"
    "size (hd (node_children right)) < size right"
    by (simp_all add: size_last_child size_hd_child)
  with 2 show ?case by simp
next
  case (3 left right hl hr lb)
  then show ?case by (simp add: size_last_child)
next
  case (4 left right hl hr rb)
  then show ?case by (simp add: size_hd_child)
qed

declare rrb_concat_sub.simps [simp del]

definition rrb_concat_roots :: "'a rrb \<Rightarrow> 'a rrb \<Rightarrow> 'a rrb res" where
  "rrb_concat_roots left right =
     rbind (rrb_concat_sub left right)
       (\<lambda>top. if length (node_children top) = 1 then Inr (node_children top ! 0) else Inr top)"

subsection \<open>Slicing and bulk load\<close>

fun rrb_canonical :: "'a rrb \<Rightarrow> 'a rrb" where
  "rrb_canonical (Branch h s [c] ss) = rrb_canonical c"
| "rrb_canonical n = n"

text \<open>The loop over the children of a branch: \<open>lo\<close> is the number of elements before child \<open>c\<close>;
  the loop breaks once \<open>lo >= to\<close>.\<close>

fun rrb_slice_node :: "'a rrb \<Rightarrow> nat \<Rightarrow> nat \<Rightarrow> 'a rrb res"
  and slice_children :: "'a rrb list \<Rightarrow> nat \<Rightarrow> nat \<Rightarrow> nat \<Rightarrow> 'a rrb list res" where
  "rrb_slice_node (Leaf xs) from to =
     (if from \<le> to \<and> to \<le> length xs
      then Inr (rrb_make_leaf (take (to - from) (drop from xs))) else Inl Undef)"
| "rrb_slice_node (Branch h s cs ss) from to =
     rbind (slice_children cs 0 from to) rrb_mk_branch"
| "slice_children [] lo from to = Inr []"
| "slice_children (c # cs) lo from to =
     (let hi = lo + node_size c;
          a = (if from > lo then from else lo);
          b = (if to < hi then to else hi)
      in rbind (if a < b
                then (if a = lo \<and> b = hi then Inr [c]
                      else rbind (rrb_slice_node c (a - lo) (b - lo)) (\<lambda>c'. Inr [c']))
                else Inr [])
           (\<lambda>here. if hi \<ge> to then Inr here
                   else rbind (slice_children cs hi from to) (\<lambda>rest. Inr (here @ rest))))"

lemma length_chunk_groups: "length (chunk_groups xs) = (length xs + 31) div 32"
proof (induction xs rule: chunk_groups.induct)
  case (1 xs)
  show ?case
  proof (cases "xs = []")
    case True
    then show ?thesis by (simp add: chunk_groups.simps)
  next
    case False
    have "length (chunk_groups xs) = Suc ((length xs - 32 + 31) div 32)"
      using False 1 by (subst chunk_groups.simps) (simp add: RRB_WIDTH_def)
    also have "\<dots> = (length xs + 31) div 32"
    proof (cases "length xs < 32")
      case True
      moreover have "1 \<le> length xs" using False by (cases xs) simp_all
      ultimately have "(length xs + 31) div 32 = 1" by (intro div_nat_eqI) simp_all
      with True show ?thesis by simp
    next
      case False
      then have "length xs + 31 = (length xs - 32 + 31) + 32" by simp
      then show ?thesis by (simp only: div_add_self2)
    qed
    finally show ?thesis .
  qed
qed

function from_nodes :: "'a rrb list \<Rightarrow> 'a rrb res" where
  "from_nodes nodes =
     (if length nodes > 1 then rbind (rrb_chunk_branches nodes) from_nodes
      else case nodes of [] \<Rightarrow> Inl Undef | n # _ \<Rightarrow> Inr n)"
  by pat_completeness auto

lemma length_rmap: "rmap f xs = Inr ys \<Longrightarrow> length ys = length xs"
  by (induction xs arbitrary: ys) (auto simp: res_simps)

termination from_nodes
proof (relation "measure length", goal_cases)
  case 1
  show ?case by simp
next
  case (2 nodes ys)
  then have "length ys = (length nodes + 31) div 32"
    by (auto simp: rrb_chunk_branches_def length_chunk_groups dest: length_rmap)
  with 2 show ?case by simp
qed

declare from_nodes.simps [simp del]

definition rrb_from_array :: "'a list \<Rightarrow> 'a rrb res" where
  "rrb_from_array xs =
     (if length xs = 0 then Inr rrb_empty_leaf else from_nodes (rrb_chunk_leaves xs))"

text \<open>\<open>rrb_collect\<close> appends a node's elements to the output array.\<close>

fun rrb_collect :: "'a rrb \<Rightarrow> 'a list" where
  "rrb_collect (Leaf xs) = xs"
| "rrb_collect (Branch h s cs ss) = concat (map rrb_collect cs)"

text \<open>The output array of \<open>rrb_to_array\<close> has \<open>root->size\<close> slots; a tree that holds another number
  of elements would write past it or leave slots unset.\<close>

definition rrb_to_array :: "'a rrb \<Rightarrow> 'a list res" where
  "rrb_to_array root =
     (let xs = rrb_collect root in if length xs = node_size root then Inr xs else Inl Undef)"

subsection \<open>Tree-level operations\<close>

definition tree_add :: "'a rrb \<Rightarrow> 'a \<Rightarrow> 'a rrb res" where
  "tree_add root v =
     rbind (rrb_fast_push root v)
       (\<lambda>nr. case nr of Some t \<Rightarrow> Inr t | None \<Rightarrow> rrb_concat_roots root (rrb_make_leaf [v]))"

definition tree_cons :: "'a rrb \<Rightarrow> 'a \<Rightarrow> 'a rrb res" where
  "tree_cons root v =
     rbind (rrb_fast_cons root v)
       (\<lambda>nr. case nr of Some t \<Rightarrow> Inr t | None \<Rightarrow> rrb_concat_roots (rrb_make_leaf [v]) root)"

definition tree_concat :: "'a rrb \<Rightarrow> 'a rrb \<Rightarrow> 'a rrb res" where
  "tree_concat a b =
     (if node_size a = 0 then Inr b
      else if node_size b = 0 then Inr a
      else rrb_concat_roots a b)"

definition tree_take :: "'a rrb \<Rightarrow> int \<Rightarrow> 'a rrb res" where
  "tree_take root n =
     (if n \<le> 0 then Inr rrb_empty_leaf
      else if n \<ge> int (node_size root) then Inr root
      else rbind (rrb_slice_node root 0 (nat n)) (\<lambda>t. Inr (rrb_canonical t)))"

definition tree_drop :: "'a rrb \<Rightarrow> int \<Rightarrow> 'a rrb res" where
  "tree_drop root n =
     (if n \<le> 0 then Inr root
      else if n \<ge> int (node_size root) then Inr rrb_empty_leaf
      else rbind (rrb_slice_node root (nat n) (node_size root)) (\<lambda>t. Inr (rrb_canonical t)))"

definition tree_sublist :: "'a rrb \<Rightarrow> int \<Rightarrow> int \<Rightarrow> 'a rrb res" where
  "tree_sublist root from to = rbind (tree_take root to) (\<lambda>t. tree_drop t from)"

definition tree_insert :: "'a rrb \<Rightarrow> int \<Rightarrow> 'a \<Rightarrow> 'a rrb res" where
  "tree_insert root i v =
     (if i \<le> 0 then tree_cons root v
      else if i \<ge> int (node_size root) then tree_add root v
      else rbind (tree_take root i) (\<lambda>l.
           rbind (tree_concat l (rrb_make_leaf [v])) (\<lambda>lm.
           rbind (tree_drop root i) (\<lambda>r. tree_concat lm r))))"

definition tree_delete :: "'a rrb \<Rightarrow> int \<Rightarrow> 'a rrb res" where
  "tree_delete root i =
     rbind (tree_take root i) (\<lambda>l. rbind (tree_drop root (i + 1)) (\<lambda>r. tree_concat l r))"

definition tree_reverse :: "'a rrb \<Rightarrow> 'a rrb res" where
  "tree_reverse root = rbind (rrb_to_array root) (\<lambda>arr. rrb_from_array (rev arr))"

end
