(* ===== verification/Treelist_Props.thy ===== *)
theory Treelist_Props
  imports Treelist_Core
begin

text \<open>
  The well-formedness invariant of RRB trees and the functional correctness of every engine
  operation: on a well-formed tree each operation returns (no undefined access, no abort), the
  result is well-formed, and its elements are the expected list.  The laws are collected as an
  interpretation of a sequence interface (locale \<open>persistent_seq\<close>) in which the derived
  operations are proved once.
\<close>

subsection \<open>The invariant\<close>

fun wf_node :: "nat \<Rightarrow> 'a rrb \<Rightarrow> bool" where
  "wf_node h (Leaf xs) \<longleftrightarrow> h = 0 \<and> xs \<noteq> [] \<and> length xs \<le> RRB_WIDTH"
| "wf_node h (Branch k s cs ss) \<longleftrightarrow>
     h = k \<and> k > 0 \<and> cs \<noteq> [] \<and> length cs \<le> RRB_WIDTH \<and> (\<forall>c\<in>set cs. wf_node (k - 1) c) \<and>
     ss = cumul 0 (map node_size cs) \<and> s = sum_list (map node_size cs)"

definition wf_tree :: "'a rrb \<Rightarrow> bool" where
  "wf_tree t \<longleftrightarrow> t = Leaf [] \<or> wf_node (rrb_height_of t) t"

lemma wf_node_height: "wf_node h t \<Longrightarrow> rrb_height_of t = h"
  by (cases t) auto

lemma wf_node_size_collect: "wf_node h t \<Longrightarrow> node_size t = length (rrb_collect t)"
proof (induction t arbitrary: h)
  case (Leaf xs)
  then show ?case by simp
next
  case (Branch k s cs ss)
  have "map node_size cs = map (length \<circ> rrb_collect) cs"
  proof (rule map_cong [OF refl])
    fix c assume "c \<in> set cs"
    with Branch show "node_size c = (length \<circ> rrb_collect) c" by auto
  qed
  with Branch.prems show ?case by (simp add: length_concat)
qed

lemma wf_node_nonempty: "wf_node h t \<Longrightarrow> rrb_collect t \<noteq> []"
proof (induction t arbitrary: h)
  case (Leaf xs)
  then show ?case by simp
next
  case (Branch k s cs ss)
  then have hd: "hd cs \<in> set cs" "wf_node (k - 1) (hd cs)" by auto
  then have "rrb_collect (hd cs) \<noteq> []" by (rule Branch.IH)
  with hd(1) show ?case by auto
qed

lemma wf_node_size_pos: "wf_node h t \<Longrightarrow> 0 < node_size t"
  using wf_node_nonempty wf_node_size_collect by fastforce

lemma wf_node_is_branch: "wf_node h t \<Longrightarrow> is_branch t \<longleftrightarrow> 0 < h"
  by (cases t) auto

lemma wf_node_children:
  "wf_node h t \<Longrightarrow> 0 < h \<Longrightarrow>
     node_children t \<noteq> [] \<and> length (node_children t) \<le> RRB_WIDTH \<and>
     (\<forall>c\<in>set (node_children t). wf_node (h - 1) c) \<and>
     rrb_collect t = concat (map rrb_collect (node_children t))"
  by (cases t) auto

lemma wf_node_items:
  "wf_node 0 t \<Longrightarrow> t = Leaf (node_items t) \<and> node_items t \<noteq> [] \<and> length (node_items t) \<le> RRB_WIDTH"
  by (cases t) auto

text \<open>A number that a well-formed node stores never exceeds its element count, so the C \<open>int\<close>
  arithmetic on sizes is exact for every tree of at most \<open>INT_MAX\<close> elements.\<close>

lemma cumul_le: "n \<in> set (cumul acc ns) \<Longrightarrow> n \<le> acc + sum_list ns"
  by (induction ns arbitrary: acc) (fastforce)+

lemma wf_node_fields_le:
  "wf_node h (Branch k s cs ss) \<Longrightarrow>
     s = length (rrb_collect (Branch k s cs ss)) \<and>
     (\<forall>n\<in>set ss. n \<le> length (rrb_collect (Branch k s cs ss)))"
  using wf_node_size_collect [of h "Branch k s cs ss"]
  by (auto dest: cumul_le)

lemma wf_node_Branch:
  assumes "cs \<noteq> []" "length cs \<le> RRB_WIDTH" "\<forall>c\<in>set cs. wf_node h c"
  shows "\<exists>t. rrb_mk_branch cs = Inr t \<and> wf_node (Suc h) t \<and> node_children t = cs \<and>
    rrb_collect t = concat (map rrb_collect cs)"
proof -
  have "rrb_height_of (hd cs) = h"
    using assms by (simp add: wf_node_height)
  moreover have "last (cumul 0 (map node_size cs)) = sum_list (map node_size cs)"
    using assms by (simp add: last_cumul)
  ultimately show ?thesis
    using assms by (simp add: rrb_mk_branch_def Let_def)
qed

lemma wf_tree_Nil [simp]: "wf_tree (Leaf [])"
  by (simp add: wf_tree_def)

lemma wf_node_tree: "wf_node h t \<Longrightarrow> wf_tree t"
  using wf_node_height by (auto simp: wf_tree_def)

lemma wf_tree_cases:
  assumes "wf_tree t"
  obtains (empty) "t = Leaf []" | (node) h where "wf_node h t"
  using assms by (auto simp: wf_tree_def)

lemma wf_tree_size: "wf_tree t \<Longrightarrow> node_size t = length (rrb_collect t)"
  by (auto elim!: wf_tree_cases simp: wf_node_size_collect)

lemma wf_tree_nonempty: "wf_tree t \<Longrightarrow> node_size t \<noteq> 0 \<Longrightarrow> wf_node (rrb_height_of t) t"
  by (auto simp: wf_tree_def)

subsection \<open>Indexed read and write\<close>

text \<open>The slot scan finds the child that holds the index, for children of any sizes.\<close>

lemma find_slot_cumul:
  assumes "acc \<le> idx" "idx < acc + sum_list ns"
  shows "\<exists>i < length ns. find_slot (cumul acc ns) idx k = Inr (k + i) \<and>
    acc + sum_list (take i ns) \<le> idx \<and> idx < acc + sum_list (take (Suc i) ns)"
  using assms
proof (induction ns arbitrary: acc k)
  case Nil
  then show ?case by simp
next
  case (Cons n ns)
  show ?case
  proof (cases "acc + n \<le> idx")
    case True
    with Cons.prems Cons.IH [of "acc + n" "k + 1"] obtain i where
      "i < length ns" "find_slot (cumul (acc + n) ns) idx (k + 1) = Inr (k + 1 + i)"
      "acc + n + sum_list (take i ns) \<le> idx" "idx < acc + n + sum_list (take (Suc i) ns)"
      by (auto simp: add.assoc)
    with True show ?thesis
      by (intro exI [of _ "Suc i"]) (simp add: add.assoc)
  next
    case False
    with Cons.prems show ?thesis by (intro exI [of _ 0]) simp
  qed
qed

lemma concat_nth_slot:
  assumes "i < length xss" "sum_list (map length (take i xss)) \<le> idx"
    "idx < sum_list (map length (take (Suc i) xss))"
  shows "concat xss ! idx = xss ! i ! (idx - sum_list (map length (take i xss)))"
    and "idx - sum_list (map length (take i xss)) < length (xss ! i)"
    and "(concat xss)[idx := v] =
      concat (xss[i := (xss ! i)[idx - sum_list (map length (take i xss)) := v]])"
proof -
  let ?p = "concat (take i xss)" and ?n = "sum_list (map length (take i xss))"
  have split: "xss = take i xss @ xss ! i # drop (Suc i) xss"
    using assms(1) by (rule id_take_nth_drop)
  have len: "length ?p = ?n" by (simp add: length_concat)
  from assms show lt: "idx - ?n < length (xss ! i)"
    by (simp add: take_Suc_conv_app_nth)
  have whole: "concat xss = ?p @ xss ! i @ concat (drop (Suc i) xss)"
    by (subst split) simp
  show "concat xss ! idx = xss ! i ! (idx - ?n)"
    using lt assms(2) len by (simp add: whole nth_append)
  have "xss[i := ys] = take i xss @ ys # drop (Suc i) xss" for ys
    using assms(1) by (simp add: upd_conv_take_nth_drop)
  then show "(concat xss)[idx := v] = concat (xss[i := (xss ! i)[idx - ?n := v]])"
    using lt assms(2) len by (simp add: whole list_update_append)
qed

text \<open>The slot a well-formed branch selects, and what lies before it.\<close>

lemma wf_slot:
  assumes wf: "wf_node h (Branch k s cs ss)" and lt: "idx < s"
  obtains i where "i < length cs" "find_slot ss idx 0 = Inr i"
    "(if i > 0 then ss ! (i - 1) else 0) = sum_list (map length (take i (map rrb_collect cs)))"
    "sum_list (map length (take i (map rrb_collect cs))) \<le> idx"
    "idx < sum_list (map length (take (Suc i) (map rrb_collect cs)))"
proof -
  have sizes: "map node_size cs = map length (map rrb_collect cs)"
    using wf by (auto intro: wf_node_size_collect)
  from wf lt have "idx < 0 + sum_list (map node_size cs)" by simp
  from find_slot_cumul [OF le0 this, of 0] obtain i where
    i: "i < length cs" "find_slot (cumul 0 (map node_size cs)) idx 0 = Inr i"
    "sum_list (take i (map node_size cs)) \<le> idx" "idx < sum_list (take (Suc i) (map node_size cs))"
    by auto
  have "(if i > 0 then ss ! (i - 1) else 0) = sum_list (take i (map node_size cs))"
    using i(1) wf by (cases i) (auto simp: cumul_nth)
  with i wf that [of i] show thesis
    by (auto simp: sizes take_map)
qed

lemma rrb_node_ref_correct:
  "wf_node h t \<Longrightarrow> idx < node_size t \<Longrightarrow> rrb_node_ref t idx = Inr (rrb_collect t ! idx)"
proof (induction t idx arbitrary: h rule: rrb_node_ref.induct)
  case (1 xs idx)
  then show ?case by simp
next
  case (2 k s cs ss idx)
  from 2(3) have "idx < s" by simp
  with 2(2) obtain i where i: "i < length cs" "find_slot ss idx 0 = Inr i"
    "(if i > 0 then ss ! (i - 1) else 0) = sum_list (map length (take i (map rrb_collect cs)))"
    "sum_list (map length (take i (map rrb_collect cs))) \<le> idx"
    "idx < sum_list (map length (take (Suc i) (map rrb_collect cs)))"
    by (rule wf_slot)
  let ?j = "idx - sum_list (map length (take i (map rrb_collect cs)))"
  have j: "(if i > 0 then idx - ss ! (i - 1) else idx) = ?j"
    using i(3) by (auto split: if_splits)
  have child: "wf_node (k - 1) (cs ! i)"
    using 2(2) i(1) by auto
  note nth = concat_nth_slot [of i "map rrb_collect cs" idx]
  have "?j < node_size (cs ! i)"
    using nth(2) i by (simp add: wf_node_size_collect [OF child])
  with 2(1) [OF i(2) i(1)] child j
  have "rrb_node_ref (cs ! i) ?j = Inr (rrb_collect (cs ! i) ! ?j)"
    by (auto simp del: wf_node.simps)
  moreover have "concat (map rrb_collect cs) ! idx = rrb_collect (cs ! i) ! ?j"
    using nth(1) i by simp
  ultimately show ?case
    using i(1,2) j by simp
qed

lemma rrb_node_set_correct:
  "wf_node h t \<Longrightarrow> idx < node_size t \<Longrightarrow>
     \<exists>t'. rrb_node_set t idx v = Inr t' \<and> wf_node h t' \<and> node_size t' = node_size t \<and>
       rrb_collect t' = (rrb_collect t)[idx := v]"
proof (induction t idx v arbitrary: h rule: rrb_node_set.induct)
  case (1 xs idx v)
  then show ?case by (simp add: rrb_make_leaf_def)
next
  case (2 k s cs ss idx v)
  from 2(3) have "idx < s" by simp
  with 2(2) obtain i where i: "i < length cs" "find_slot ss idx 0 = Inr i"
    "(if i > 0 then ss ! (i - 1) else 0) = sum_list (map length (take i (map rrb_collect cs)))"
    "sum_list (map length (take i (map rrb_collect cs))) \<le> idx"
    "idx < sum_list (map length (take (Suc i) (map rrb_collect cs)))"
    by (rule wf_slot)
  let ?j = "idx - sum_list (map length (take i (map rrb_collect cs)))"
  have child: "wf_node (k - 1) (cs ! i)"
    using 2(2) i(1) by auto
  note nth = concat_nth_slot [of i "map rrb_collect cs" idx]
  have "?j < node_size (cs ! i)"
    using nth(2) i by (simp add: wf_node_size_collect [OF child])
  with 2(1) [OF i(2) refl i(1), unfolded i(3)] child obtain c' where c':
    "rrb_node_set (cs ! i) ?j v = Inr c'" "wf_node (k - 1) c'"
    "node_size c' = node_size (cs ! i)" "rrb_collect c' = (rrb_collect (cs ! i))[?j := v]"
    by blast
  have sizes: "map node_size (cs[i := c']) = map node_size cs"
    using i(1) c'(3) by (simp add: map_update list_update_same_conv)
  have wf': "wf_node h (Branch k s (cs[i := c']) ss)"
    using 2(2) c'(2) unfolding wf_node.simps sizes
    by (auto dest!: set_update_subset_insert [THEN subsetD])
  have "rrb_collect (Branch k s (cs[i := c']) ss) = (concat (map rrb_collect cs))[idx := v]"
    using nth(3) [of v] i c'(4) by (simp add: map_update)
  with wf' i(1,2,3) c'(1) show ?case
    by (auto simp: Let_def)
qed

subsection \<open>The fast appends\<close>

text \<open>A fast append either finds the outermost leaf full and leaves the tree alone, or returns
  the tree with the element at that end; the spine's sizes are the only numbers that change.\<close>

lemma wf_node_update_end:
  assumes wf: "wf_node h (Branch k s cs ss)" and c: "wf_node (k - 1) c"
    and i: "i < length cs"
    and ss': "ss' = cumul 0 (map node_size (cs[i := c]))"
    and s': "s' = sum_list (map node_size (cs[i := c]))"
  shows "wf_node h (Branch k s' (cs[i := c]) ss')"
  using assms by (auto dest!: set_update_subset_insert [THEN subsetD])

lemma cumul_update_last:
  "ns \<noteq> [] \<Longrightarrow> (cumul acc ns)[length ns - 1 := Suc (cumul acc ns ! (length ns - 1))] =
     cumul acc (ns[length ns - 1 := Suc (last ns)])"
  by (cases ns rule: rev_cases) (simp_all add: cumul_append nth_append list_update_append)

lemma cumul_update_first:
  "ns \<noteq> [] \<Longrightarrow> map Suc (cumul acc ns) = cumul acc (ns[0 := Suc (hd ns)])"
  by (cases ns) (simp_all flip: cumul_add)

lemma sum_list_butlast_last:
  "xs \<noteq> [] \<Longrightarrow> sum_list (map f xs) = sum_list (map f (butlast xs)) + (f (last xs) :: nat)"
  by (cases xs rule: rev_cases) simp_all

lemma list_update_last: "xs \<noteq> [] \<Longrightarrow> xs[length xs - Suc 0 := y] = butlast xs @ [y]"
  by (cases xs rule: rev_cases) simp_all

lemma rrb_fast_push_correct:
  "wf_node h t \<Longrightarrow>
     rrb_fast_push t v = Inr None \<or>
     (\<exists>t'. rrb_fast_push t v = Inr (Some t') \<and> wf_node h t' \<and>
        node_size t' = Suc (node_size t) \<and> rrb_collect t' = rrb_collect t @ [v])"
proof (induction t v arbitrary: h rule: rrb_fast_push.induct)
  case (1 xs v)
  then show ?case by (simp add: rrb_make_leaf_def)
next
  case (2 k s cs ss v)
  from 2(2) have ne: "cs \<noteq> []" and child: "wf_node (k - 1) (last cs)"
    and ss: "ss = cumul 0 (map node_size cs)" and s: "s = sum_list (map node_size cs)" by auto
  from 2(1) [OF ne child] show ?case
  proof (elim disjE exE conjE)
    assume "rrb_fast_push (last cs) v = Inr None"
    with ne show ?thesis by simp
  next
    fix c assume c: "rrb_fast_push (last cs) v = Inr (Some c)" "wf_node (k - 1) c"
      "node_size c = Suc (node_size (last cs))" "rrb_collect c = rrb_collect (last cs) @ [v]"
    let ?n = "length cs - 1"
    let ?t = "Branch k (s + 1) (cs[?n := c]) (ss[?n := ss ! ?n + 1])"
    have sizes: "map node_size (cs[?n := c]) = (map node_size cs)[?n := Suc (last (map node_size cs))]"
      using ne c(3) by (simp add: map_update last_map)
    have "ss[?n := ss ! ?n + 1] = cumul 0 (map node_size (cs[?n := c]))"
      using cumul_update_last [of "map node_size cs" 0] ne unfolding ss sizes by simp
    moreover have "s + 1 = sum_list (map node_size (cs[?n := c]))"
      using ne unfolding s by (simp add: list_update_last c(3) sum_list_butlast_last [of cs])
    ultimately have "wf_node h ?t"
      using 2(2) c(2) ne by (intro wf_node_update_end) simp_all
    moreover have "rrb_collect ?t = rrb_collect (Branch k s cs ss) @ [v]"
      using ne by (simp add: list_update_last c(4) concat_map_butlast_last [of cs rrb_collect])
    ultimately show ?thesis
      using c(1) ne by (auto simp: Let_def)
  qed
qed

lemma rrb_fast_cons_correct:
  "wf_node h t \<Longrightarrow>
     rrb_fast_cons t v = Inr None \<or>
     (\<exists>t'. rrb_fast_cons t v = Inr (Some t') \<and> wf_node h t' \<and>
        node_size t' = Suc (node_size t) \<and> rrb_collect t' = v # rrb_collect t)"
proof (induction t v arbitrary: h rule: rrb_fast_cons.induct)
  case (1 xs v)
  then show ?case by (simp add: rrb_make_leaf_def)
next
  case (2 k s cs ss v)
  from 2(2) have ne: "cs \<noteq> []" and child: "wf_node (k - 1) (hd cs)"
    and ss: "ss = cumul 0 (map node_size cs)" and s: "s = sum_list (map node_size cs)" by auto
  from 2(1) [OF ne child] show ?case
  proof (elim disjE exE conjE)
    assume "rrb_fast_cons (hd cs) v = Inr None"
    with ne show ?thesis by simp
  next
    fix c assume c: "rrb_fast_cons (hd cs) v = Inr (Some c)" "wf_node (k - 1) c"
      "node_size c = Suc (node_size (hd cs))" "rrb_collect c = v # rrb_collect (hd cs)"
    let ?t = "Branch k (s + 1) (cs[0 := c]) (map Suc ss)"
    have sizes: "map node_size (cs[0 := c]) = (map node_size cs)[0 := Suc (hd (map node_size cs))]"
      using ne c(3) by (cases cs) simp_all
    have "map Suc ss = cumul 0 (map node_size (cs[0 := c]))"
      using cumul_update_first [of "map node_size cs" 0] ne unfolding ss sizes by simp
    moreover have "s + 1 = sum_list (map node_size (cs[0 := c]))"
      using ne unfolding s by (cases cs) (simp_all add: c(3))
    ultimately have "wf_node h ?t"
      using 2(2) c(2) ne by (intro wf_node_update_end) simp_all
    moreover have "rrb_collect ?t = v # rrb_collect (Branch k s cs ss)"
      using ne by (cases cs) (simp_all add: c(4))
    ultimately show ?thesis
      using c(1) ne by (auto simp: Let_def)
  qed
qed

subsection \<open>Chunking, rebalancing and concatenation\<close>

lemma concat_chunk_groups [simp]: "concat (chunk_groups xs) = xs"
  by (induction xs rule: chunk_groups.induct) (subst chunk_groups.simps, simp)

lemma chunk_groups_bounds:
  "g \<in> set (chunk_groups xs) \<Longrightarrow> g \<noteq> [] \<and> length g \<le> RRB_WIDTH \<and> set g \<subseteq> set xs"
proof (induction xs rule: chunk_groups.induct)
  case (1 xs)
  show ?case
  proof (cases "xs = []")
    case True
    with 1(2) show ?thesis by (simp add: chunk_groups.simps)
  next
    case False
    with 1(2) have "g = take RRB_WIDTH xs \<or> g \<in> set (chunk_groups (drop RRB_WIDTH xs))"
      by (subst (asm) chunk_groups.simps) simp
    then show ?thesis
    proof
      assume "g = take RRB_WIDTH xs"
      with False show ?thesis by (simp add: RRB_WIDTH_def set_take_subset)
    next
      assume "g \<in> set (chunk_groups (drop RRB_WIDTH xs))"
      with 1(1) [OF False] show ?thesis by (meson in_set_dropD subset_iff)
    qed
  qed
qed

lemma chunk_groups_Nil_iff [simp]: "chunk_groups xs = [] \<longleftrightarrow> xs = []"
  by (simp add: chunk_groups.simps)

lemma rrb_chunk_leaves_wf:
  "c \<in> set (rrb_chunk_leaves xs) \<Longrightarrow> wf_node 0 c"
  using chunk_groups_bounds [of _ xs] by (auto simp: rrb_chunk_leaves_def rrb_make_leaf_def)

lemma collect_make_leaf: "rrb_collect \<circ> rrb_make_leaf = id"
  by (simp add: fun_eq_iff rrb_make_leaf_def)

lemma rrb_chunk_leaves_collect [simp]:
  "concat (map rrb_collect (rrb_chunk_leaves xs)) = xs"
  by (simp add: rrb_chunk_leaves_def collect_make_leaf)

lemma rmap_mk_branch:
  assumes "\<forall>g\<in>set gs. g \<noteq> [] \<and> length g \<le> RRB_WIDTH \<and> (\<forall>c\<in>set g. wf_node h c)"
  shows "\<exists>ns. rmap rrb_mk_branch gs = Inr ns \<and> (\<forall>n\<in>set ns. wf_node (Suc h) n) \<and>
    map node_children ns = gs \<and>
    concat (map rrb_collect ns) = concat (map rrb_collect (concat gs))"
  using assms
proof (induction gs)
  case Nil
  then show ?case by simp
next
  case (Cons g gs)
  from Cons obtain ns where ns: "rmap rrb_mk_branch gs = Inr ns" "\<forall>n\<in>set ns. wf_node (Suc h) n"
    "map node_children ns = gs" "concat (map rrb_collect ns) = concat (map rrb_collect (concat gs))"
    by auto
  from Cons.prems wf_node_Branch [of g h] obtain t where t: "rrb_mk_branch g = Inr t"
    "wf_node (Suc h) t" "node_children t = g" "rrb_collect t = concat (map rrb_collect g)"
    by auto
  with ns show ?case by simp
qed

lemma rrb_chunk_branches_correct:
  assumes "\<forall>c\<in>set kids. wf_node h c"
  shows "\<exists>ns. rrb_chunk_branches kids = Inr ns \<and> (\<forall>n\<in>set ns. wf_node (Suc h) n) \<and>
    length ns = (length kids + 31) div 32 \<and>
    concat (map rrb_collect ns) = concat (map rrb_collect kids)"
proof -
  have "\<forall>g\<in>set (chunk_groups kids). g \<noteq> [] \<and> length g \<le> RRB_WIDTH \<and> (\<forall>c\<in>set g. wf_node h c)"
    using chunk_groups_bounds assms by fastforce
  from rmap_mk_branch [OF this] obtain ns where "rmap rrb_mk_branch (chunk_groups kids) = Inr ns"
    "\<forall>n\<in>set ns. wf_node (Suc h) n" "map node_children ns = chunk_groups kids"
    "concat (map rrb_collect ns) = concat (map rrb_collect kids)"
    by auto
  moreover from this have "length ns = (length kids + 31) div 32"
    by (metis length_map length_chunk_groups)
  ultimately show ?thesis by (simp add: rrb_chunk_branches_def)
qed

lemma length_concat_le:
  "(\<And>x. x \<in> set xs \<Longrightarrow> length (f x) \<le> b) \<Longrightarrow> length (concat (map f xs)) \<le> length xs * b"
proof (induction xs)
  case Nil
  then show ?case by simp
next
  case (Cons x xs)
  then have "length (f x) \<le> b" "length (concat (map f xs)) \<le> length xs * b" by simp_all
  then show ?case by simp
qed

text \<open>The first half of \<open>rrb_rebalance\<close>: the grandchildren repacked into full nodes.\<close>

lemma repacked:
  assumes "merged \<noteq> []" "length merged \<le> 2 * RRB_WIDTH" "\<forall>n\<in>set merged. wf_node ml n"
  shows "\<exists>ns. (if ml = 0 then Inr (rrb_chunk_leaves (concat (map node_items merged)))
        else rrb_chunk_branches (concat (map node_children merged))) = Inr ns \<and>
    ns \<noteq> [] \<and> length ns \<le> 2 * RRB_WIDTH \<and> (\<forall>n\<in>set ns. wf_node ml n) \<and>
    concat (map rrb_collect ns) = concat (map rrb_collect merged)"
proof (cases "ml = 0")
  case True
  let ?xs = "concat (map node_items merged)"
  have wf: "n \<in> set merged \<Longrightarrow> rrb_collect n = node_items n \<and> length (node_items n) \<le> RRB_WIDTH" for n
    using assms(3) True by (cases n) auto
  then have eq: "map rrb_collect merged = map node_items merged" by simp
  have "length ?xs \<le> length merged * RRB_WIDTH"
    using wf by (intro length_concat_le) simp
  also have "\<dots> \<le> 2 * RRB_WIDTH * RRB_WIDTH" using assms(2) by simp
  finally have "length (rrb_chunk_leaves ?xs) \<le> 2 * RRB_WIDTH"
    by (simp add: rrb_chunk_leaves_def length_chunk_groups RRB_WIDTH_def)
  moreover have "?xs \<noteq> []"
    using assms(1,3) True by (cases merged) (auto dest: wf_node_items)
  then have "rrb_chunk_leaves ?xs \<noteq> []" by (simp add: rrb_chunk_leaves_def del: concat_eq_Nil_conv)
  ultimately show ?thesis
    using True by (auto simp: eq dest: rrb_chunk_leaves_wf)
next
  case False
  let ?xs = "concat (map node_children merged)"
  have wf: "n \<in> set merged \<Longrightarrow> node_children n \<noteq> [] \<and> length (node_children n) \<le> RRB_WIDTH \<and>
    (\<forall>c\<in>set (node_children n). wf_node (ml - 1) c) \<and>
    rrb_collect n = concat (map rrb_collect (node_children n))" for n
    using assms(3) False wf_node_children [of ml n] by simp
  then have "\<forall>c\<in>set ?xs. wf_node (ml - 1) c" by auto
  from rrb_chunk_branches_correct [OF this] False obtain ns where ns:
    "rrb_chunk_branches ?xs = Inr ns" "\<forall>n\<in>set ns. wf_node ml n"
    "length ns = (length ?xs + 31) div 32"
    "concat (map rrb_collect ns) = concat (map rrb_collect ?xs)"
    by auto
  have "length ?xs \<le> length merged * RRB_WIDTH"
    using wf by (intro length_concat_le) simp
  also have "\<dots> \<le> 2 * RRB_WIDTH * RRB_WIDTH" using assms(2) by simp
  finally have "length ns \<le> 2 * RRB_WIDTH" by (simp add: ns(3) RRB_WIDTH_def)
  moreover have "?xs \<noteq> []" using assms(1) wf by (cases merged) auto
  then have "0 < length ?xs" by (rule length_greater_0_conv [THEN iffD2])
  then have "0 < (length ?xs + 31) div 32" by linarith
  then have "ns \<noteq> []" using ns(3) by auto
  moreover have "concat (map rrb_collect ?xs) = concat (map rrb_collect merged)"
    using wf by (simp add: concat_map_concat_map cong: map_cong)
  ultimately show ?thesis using ns False by auto
qed

lemma rrb_rebalance_correct:
  assumes "merged \<noteq> []" "length merged \<le> 2 * RRB_WIDTH" "\<forall>n\<in>set merged. wf_node ml n"
  shows "\<exists>t. rrb_rebalance merged ml = Inr t \<and> wf_node (Suc (Suc ml)) t \<and>
    length (node_children t) \<le> 2 \<and> rrb_collect t = concat (map rrb_collect merged)"
proof -
  from repacked [OF assms] obtain ns where ns:
    "(if ml = 0 then Inr (rrb_chunk_leaves (concat (map node_items merged)))
      else rrb_chunk_branches (concat (map node_children merged))) = Inr ns"
    "ns \<noteq> []" "length ns \<le> 2 * RRB_WIDTH" "\<forall>n\<in>set ns. wf_node ml n"
    "concat (map rrb_collect ns) = concat (map rrb_collect merged)" by blast
  show ?thesis
  proof (cases "length ns \<le> RRB_WIDTH")
    case True
    from wf_node_Branch [OF ns(2) True ns(4)] obtain a where a: "rrb_mk_branch ns = Inr a"
      "wf_node (Suc ml) a" "rrb_collect a = concat (map rrb_collect ns)" by auto
    from wf_node_Branch [of "[a]" "Suc ml"] a(2) obtain t where "rrb_mk_branch [a] = Inr t"
      "wf_node (Suc (Suc ml)) t" "node_children t = [a]" "rrb_collect t = rrb_collect a"
      by (auto simp: RRB_WIDTH_def)
    with True a ns show ?thesis by (simp add: rrb_rebalance_def del: wf_node.simps)
  next
    case False
    let ?l = "take RRB_WIDTH ns" and ?r = "drop RRB_WIDTH ns"
    have "?l \<noteq> []" "length ?l \<le> RRB_WIDTH" "\<forall>n\<in>set ?l. wf_node ml n"
      using ns(2,4) by (auto simp: RRB_WIDTH_def dest: in_set_takeD)
    from wf_node_Branch [OF this] obtain a where a: "rrb_mk_branch ?l = Inr a"
      "wf_node (Suc ml) a" "rrb_collect a = concat (map rrb_collect ?l)" by auto
    have "?r \<noteq> []" "length ?r \<le> RRB_WIDTH" "\<forall>n\<in>set ?r. wf_node ml n"
      using False ns(3,4) by (auto dest: in_set_dropD)
    from wf_node_Branch [OF this] obtain b where b: "rrb_mk_branch ?r = Inr b"
      "wf_node (Suc ml) b" "rrb_collect b = concat (map rrb_collect ?r)" by auto
    from wf_node_Branch [of "[a, b]" "Suc ml"] a(2) b(2) obtain t where
      t: "rrb_mk_branch [a, b] = Inr t"
      "wf_node (Suc (Suc ml)) t" "node_children t = [a, b]"
      "rrb_collect t = rrb_collect a @ rrb_collect b"
      by (auto simp: RRB_WIDTH_def)
    moreover have "rrb_collect a @ rrb_collect b = concat (map rrb_collect ns)"
      unfolding a(3) b(3) by (metis append_take_drop_id concat_append map_append)
    ultimately show ?thesis
      using False a b ns by (simp add: rrb_rebalance_def del: wf_node.simps)
  qed
qed

lemma concat_leaves_correct:
  assumes "xs \<noteq> []" "length xs \<le> RRB_WIDTH" "ys \<noteq> []" "length ys \<le> RRB_WIDTH"
  shows "\<exists>t. concat_leaves xs ys = Inr t \<and> wf_node (Suc 0) t \<and>
    length (node_children t) \<le> 2 \<and> rrb_collect t = xs @ ys"
proof (cases "length xs + length ys \<le> RRB_WIDTH")
  case True
  with assms(1) show ?thesis
    by (simp add: concat_leaves_def rrb_make_leaf_def rrb_mk_branch_def RRB_WIDTH_def)
next
  case False
  let ?c = "xs @ ys"
  have "length xs + length ys - RRB_WIDTH \<le> RRB_WIDTH" using assms by simp
  with wf_node_Branch [of "[Leaf (take RRB_WIDTH ?c), Leaf (drop RRB_WIDTH ?c)]" 0]
  obtain t where "rrb_mk_branch [Leaf (take RRB_WIDTH ?c), Leaf (drop RRB_WIDTH ?c)] = Inr t"
    "wf_node (Suc 0) t" "node_children t = [Leaf (take RRB_WIDTH ?c), Leaf (drop RRB_WIDTH ?c)]"
    "rrb_collect t = take RRB_WIDTH ?c @ drop RRB_WIDTH ?c"
    using False assms(1) by (auto simp: RRB_WIDTH_def simp del: take_append drop_append)
  with False show ?thesis
    by (simp add: concat_leaves_def rrb_make_leaf_def del: take_append drop_append)
qed

text \<open>The end of a level of \<open>rrb_concat_sub\<close>: the siblings left of the seam, the one or two nodes
  at the seam, the siblings right of it.\<close>

lemma merged_level:
  assumes "\<forall>n\<in>set as. wf_node ml n" "length as < RRB_WIDTH"
    and "wf_node (Suc ml) mid" "length (node_children mid) \<le> 2"
    and "\<forall>n\<in>set bs. wf_node ml n" "length bs < RRB_WIDTH"
  shows "\<exists>t. rrb_rebalance (as @ node_children mid @ bs) ml = Inr t \<and> wf_node (Suc (Suc ml)) t \<and>
    length (node_children t) \<le> 2 \<and>
    rrb_collect t = concat (map rrb_collect as) @ rrb_collect mid @ concat (map rrb_collect bs)"
proof -
  have mid: "node_children mid \<noteq> []" "\<forall>c\<in>set (node_children mid). wf_node ml c"
    "rrb_collect mid = concat (map rrb_collect (node_children mid))"
    using wf_node_children [OF assms(3)] by simp_all
  then show ?thesis
    using rrb_rebalance_correct [of "as @ node_children mid @ bs" ml] assms by auto
qed

lemma rrb_concat_sub_correct:
  "wf_node hl l \<Longrightarrow> wf_node hr r \<Longrightarrow>
     \<exists>t. rrb_concat_sub l r = Inr t \<and> wf_node (Suc (max hl hr)) t \<and>
       length (node_children t) \<le> 2 \<and> rrb_collect t = rrb_collect l @ rrb_collect r"
proof (induction "hl + hr" arbitrary: hl hr l r rule: less_induct)
  case less
  note heights = wf_node_height [OF less.prems(1)] wf_node_height [OF less.prems(2)]
  note left = wf_node_children [OF less.prems(1)] and right = wf_node_children [OF less.prems(2)]
  let ?ls = "node_children l" and ?rs = "node_children r"
  have collect_left: "rrb_collect l = concat (map rrb_collect (butlast ?ls)) @ rrb_collect (last ?ls)"
    if "0 < hl" using left [OF that] by (simp add: concat_map_butlast_last [of ?ls])
  have collect_right: "rrb_collect r = rrb_collect (hd ?rs) @ concat (map rrb_collect (tl ?rs))"
    if "0 < hr" using right [OF that] by (simp add: concat_map_hd_tl [of ?rs])
  have lefts: "wf_node (hl - 1) (last ?ls)" "\<forall>n\<in>set (butlast ?ls). wf_node (hl - 1) n"
    "length (butlast ?ls) < RRB_WIDTH" if "0 < hl"
    using left [OF that] by (auto dest: in_set_butlastD simp: RRB_WIDTH_def)
  have rights: "wf_node (hr - 1) (hd ?rs)" "\<forall>n\<in>set (tl ?rs). wf_node (hr - 1) n"
    "length (tl ?rs) < RRB_WIDTH" if "0 < hr"
    using right [OF that] by (auto dest: in_set_butlast_tl simp: RRB_WIDTH_def)
  have branch: "is_branch l \<longleftrightarrow> 0 < hl" "is_branch r \<longleftrightarrow> 0 < hr"
    using less.prems by (simp_all add: wf_node_is_branch)
  consider (leaves) "hl = 0" "hr = 0" | (equal) "hl = hr" "0 < hl" | (left) "hl > hr" | (right) "hl < hr"
    by linarith
  then show ?case
  proof cases
    case leaves
    with less.prems have "wf_node 0 l" "wf_node 0 r" by simp_all
    with wf_node_items concat_leaves_correct [of "node_items l" "node_items r"]
    have "\<exists>t. concat_leaves (node_items l) (node_items r) = Inr t \<and> wf_node (Suc 0) t \<and>
      length (node_children t) \<le> 2 \<and> rrb_collect t = node_items l @ node_items r"
      by blast
    moreover have "rrb_collect l = node_items l" "rrb_collect r = node_items r"
      using \<open>wf_node 0 l\<close> \<open>wf_node 0 r\<close> by (metis rrb_collect.simps(1) wf_node_items)+
    ultimately show ?thesis
      using leaves heights branch by (simp add: rrb_concat_sub.simps [of l r])
  next
    case equal
    from less.hyps [of "hl - 1" "hr - 1"] lefts(1) rights(1) equal obtain mid where mid:
      "rrb_concat_sub (last ?ls) (hd ?rs) = Inr mid" "wf_node (Suc (hl - 1)) mid"
      "length (node_children mid) \<le> 2" "rrb_collect mid = rrb_collect (last ?ls) @ rrb_collect (hd ?rs)"
      by fastforce
    from merged_level [OF lefts(2,3) mid(2,3)] rights(2,3) equal obtain t where t:
      "rrb_rebalance (butlast ?ls @ node_children mid @ tl ?rs) (hl - 1) = Inr t"
      "wf_node (Suc hl) t" "length (node_children t) \<le> 2" "rrb_collect t =
        concat (map rrb_collect (butlast ?ls)) @ rrb_collect mid @ concat (map rrb_collect (tl ?rs))"
      by fastforce
    have "rrb_concat_sub l r = Inr t"
      using equal heights branch left right mid(1) t(1)
      by (subst rrb_concat_sub.simps) (simp add: rrb_as_branch_def)
    with t mid(4) equal show ?thesis by (simp add: collect_left collect_right)
  next
    case left
    then have "max (hl - 1) hr = hl - 1" "0 < hl" by simp_all
    with less.hyps [of "hl - 1" hr "last ?ls" r] lefts(1) less.prems(2) obtain mid where mid:
      "rrb_concat_sub (last ?ls) r = Inr mid" "wf_node (Suc (hl - 1)) mid"
      "length (node_children mid) \<le> 2" "rrb_collect mid = rrb_collect (last ?ls) @ rrb_collect r"
      by fastforce
    from merged_level [OF lefts(2,3) mid(2,3), of "[]"] left obtain t where t:
      "rrb_rebalance (butlast ?ls @ node_children mid) (hl - 1) = Inr t"
      "wf_node (Suc hl) t" "length (node_children t) \<le> 2" "rrb_collect t =
        concat (map rrb_collect (butlast ?ls)) @ rrb_collect mid"
      by (fastforce simp: RRB_WIDTH_def)
    have "rrb_concat_sub l r = Inr t"
      using left heights branch wf_node_children [OF less.prems(1)] mid(1) t(1)
      by (subst rrb_concat_sub.simps) (simp add: rrb_as_branch_def)
    with t mid(4) left show ?thesis by (simp add: collect_left max_def)
  next
    case right
    from less.hyps [of hl "hr - 1" l "hd ?rs"] rights(1) less.prems(1) right obtain mid where mid:
      "rrb_concat_sub l (hd ?rs) = Inr mid" "wf_node (Suc (hr - 1)) mid"
      "length (node_children mid) \<le> 2" "rrb_collect mid = rrb_collect l @ rrb_collect (hd ?rs)"
      by (fastforce simp: max_def split: if_splits)
    from merged_level [OF _ _ mid(2,3) rights(2,3), of "[]"] right obtain t where t:
      "rrb_rebalance (node_children mid @ tl ?rs) (hr - 1) = Inr t"
      "wf_node (Suc hr) t" "length (node_children t) \<le> 2" "rrb_collect t =
        rrb_collect mid @ concat (map rrb_collect (tl ?rs))"
      by (fastforce simp: RRB_WIDTH_def)
    have "rrb_concat_sub l r = Inr t"
      using right heights branch mid(1) t(1) wf_node_children [OF less.prems(2)]
      by (subst rrb_concat_sub.simps) (simp add: rrb_as_branch_def)
    with t mid(4) right show ?thesis by (simp add: collect_right max_def)
  qed
qed

lemma rrb_concat_roots_correct:
  assumes "wf_node hl l" "wf_node hr r"
  shows "\<exists>t. rrb_concat_roots l r = Inr t \<and> wf_tree t \<and>
    rrb_collect t = rrb_collect l @ rrb_collect r"
proof -
  from rrb_concat_sub_correct [OF assms] obtain t where t: "rrb_concat_sub l r = Inr t"
    "wf_node (Suc (max hl hr)) t" "rrb_collect t = rrb_collect l @ rrb_collect r" by blast
  show ?thesis
  proof (cases "length (node_children t) = 1")
    case True
    then obtain c where c: "node_children t = [c]" by (auto simp: length_Suc_conv)
    with wf_node_children [OF t(2)] have "wf_node (max hl hr) c" "rrb_collect c = rrb_collect t"
      by simp_all
    with c t show ?thesis by (auto simp: rrb_concat_roots_def intro: wf_node_tree)
  next
    case False
    with t show ?thesis by (auto simp: rrb_concat_roots_def intro: wf_node_tree)
  qed
qed

subsection \<open>Slicing\<close>

lemma rrb_canonical_correct:
  "wf_node h t \<Longrightarrow> wf_tree (rrb_canonical t) \<and> rrb_collect (rrb_canonical t) = rrb_collect t"
  by (induction t arbitrary: h rule: rrb_canonical.induct) (auto simp: wf_tree_def)

text \<open>A slice of a well-formed node keeps its height and is not empty; in the loop over the
  children, \<open>lo\<close> elements come before the remaining ones, and no child holds less than one.\<close>

lemma slice_correct:
  fixes t :: "'a rrb" and cs :: "'a rrb list"
  shows "wf_node h t \<Longrightarrow> fr < till \<Longrightarrow> till \<le> node_size t \<Longrightarrow>
     \<exists>t'. rrb_slice_node t fr till = Inr t' \<and> wf_node h t' \<and>
       rrb_collect t' = take (till - fr) (drop fr (rrb_collect t))"
    and "\<forall>c\<in>set cs. wf_node h c \<Longrightarrow> fr < till \<Longrightarrow> lo < till \<Longrightarrow>
       till \<le> lo + sum_list (map node_size cs) \<Longrightarrow>
     \<exists>cs'. slice_children cs lo fr till = Inr cs' \<and> (\<forall>c\<in>set cs'. wf_node h c) \<and>
       length cs' \<le> length cs \<and>
       concat (map rrb_collect cs') =
         take (till - max fr lo) (drop (fr - lo) (concat (map rrb_collect cs)))"
proof (induction t fr till and cs lo fr till arbitrary: h and h
    rule: rrb_slice_node_slice_children.induct)
  case (1 xs fr till)
  then show ?case by (auto simp: rrb_make_leaf_def)
next
  case (2 k s cs ss fr till)
  then have "\<forall>c\<in>set cs. wf_node (k - 1) c" "till \<le> 0 + sum_list (map node_size cs)" "0 < till" by auto
  with 2 obtain cs' where cs': "slice_children cs 0 fr till = Inr cs'"
    "\<forall>c\<in>set cs'. wf_node (k - 1) c" "length cs' \<le> length cs"
    "concat (map rrb_collect cs') = take (till - fr) (drop fr (concat (map rrb_collect cs)))"
    by fastforce
  have "s = length (concat (map rrb_collect cs))"
    using wf_node_size_collect [OF 2(2)] by simp
  with 2(3,4) have "take (till - fr) (drop fr (concat (map rrb_collect cs))) \<noteq> []" by simp
  with cs'(4) have "cs' \<noteq> []" by (metis concat.simps(1) list.map_disc_iff)
  moreover have "length cs' \<le> RRB_WIDTH" using cs'(3) 2(2) by simp
  ultimately show ?case
    using wf_node_Branch [OF _ _ cs'(2)] cs' 2(2) by fastforce
next
  case (3 lo fr till)
  then show ?case by simp
next
  case (4 c cs lo fr till)
  let ?hi = "lo + node_size c" and ?xs = "rrb_collect c" and ?rest = "concat (map rrb_collect cs)"
  have c: "wf_node h c" and cs: "\<forall>c\<in>set cs. wf_node h c" using 4(3) by simp_all
  have len: "node_size c = length ?xs" using c by (rule wf_node_size_collect)
  let ?a = "if fr > lo then fr else lo" and ?b = "if till < ?hi then till else ?hi"
  have here: "\<exists>ns. (if ?a < ?b then (if ?a = lo \<and> ?b = ?hi then Inr [c]
        else rbind (rrb_slice_node c (?a - lo) (?b - lo)) (\<lambda>c'. Inr [c'])) else Inr []) = Inr ns \<and>
      (\<forall>n\<in>set ns. wf_node h n) \<and> length ns \<le> 1 \<and>
      concat (map rrb_collect ns) = take (till - max fr lo) (drop (fr - lo) ?xs)"
  proof (cases "?a < ?b")
    case False
    with 4(4,5) len show ?thesis by (auto split: if_splits)
  next
    case True
    show ?thesis
    proof (cases "?a = lo \<and> ?b = ?hi")
      case whole: True
      with True c len show ?thesis by (auto split: if_splits)
    next
      case part: False
      have "?a - lo < ?b - lo" "?b - lo \<le> node_size c" using True by auto
      with 4(1) [OF refl refl refl True part c] obtain t' where t':
        "rrb_slice_node c (?a - lo) (?b - lo) = Inr t'" "wf_node h t'"
        "rrb_collect t' = take (?b - lo - (?a - lo)) (drop (?a - lo) ?xs)" by blast
      moreover have "take (?b - lo - (?a - lo)) (drop (?a - lo) ?xs) =
          take (till - max fr lo) (drop (fr - lo) ?xs)"
        using True len by (auto simp: max_def)
      ultimately show ?thesis
        unfolding if_P [OF True] if_not_P [OF part] by simp
    qed
  qed
  then obtain ns where ns: "(if ?a < ?b then (if ?a = lo \<and> ?b = ?hi then Inr [c]
        else rbind (rrb_slice_node c (?a - lo) (?b - lo)) (\<lambda>c'. Inr [c'])) else Inr []) = Inr ns"
    "\<forall>n\<in>set ns. wf_node h n" "length ns \<le> 1"
    "concat (map rrb_collect ns) = take (till - max fr lo) (drop (fr - lo) ?xs)" by blast
  show ?case
  proof (cases "?hi \<ge> till")
    case True
    then have "take (till - max fr lo) (drop (fr - lo) (?xs @ ?rest)) =
        take (till - max fr lo) (drop (fr - lo) ?xs)"
      using 4(4,5) len by (auto simp: max_def)
    with True ns show ?thesis by (simp add: Let_def)
  next
    case False
    with 4(6) have "?hi < till" "till \<le> ?hi + sum_list (map node_size cs)" by auto
    with 4(2) [OF refl refl refl ns(1) False cs 4(4)] obtain cs' where cs':
      "slice_children cs ?hi fr till = Inr cs'" "\<forall>c\<in>set cs'. wf_node h c"
      "length cs' \<le> length cs" "concat (map rrb_collect cs') =
         take (till - max fr ?hi) (drop (fr - ?hi) ?rest)" by blast
    have "take (till - max fr lo) (drop (fr - lo) (?xs @ ?rest)) =
        take (till - max fr lo) (drop (fr - lo) ?xs) @ take (till - max fr ?hi) (drop (fr - ?hi) ?rest)"
      using False 4(4,5) len by (auto simp: max_def)
    with False ns cs' show ?thesis by (auto simp: Let_def simp del: max.absorb1 max.absorb2)
  qed
qed

subsection \<open>Bulk load and unload\<close>

lemma from_nodes_correct:
  "nodes \<noteq> [] \<Longrightarrow> \<forall>n\<in>set nodes. wf_node h n \<Longrightarrow>
     \<exists>t k. from_nodes nodes = Inr t \<and> wf_node k t \<and>
       rrb_collect t = concat (map rrb_collect nodes)"
proof (induction "length nodes" arbitrary: nodes h rule: less_induct)
  case less
  show ?case
  proof (cases "length nodes > 1")
    case True
    from rrb_chunk_branches_correct [OF less.prems(2)] obtain ns where ns:
      "rrb_chunk_branches nodes = Inr ns" "\<forall>n\<in>set ns. wf_node (Suc h) n"
      "length ns = (length nodes + 31) div 32"
      "concat (map rrb_collect ns) = concat (map rrb_collect nodes)" by blast
    from True ns(3) have "length ns < length nodes" by simp
    moreover from True ns(3) have "0 < length ns" by linarith
    ultimately show ?thesis
      using less.hyps [OF _ _ ns(2)] ns(1,4) True by (subst from_nodes.simps) auto
  next
    case False
    with less.prems obtain n where "nodes = [n]" by (cases nodes) auto
    with less.prems show ?thesis by (auto simp: from_nodes.simps)
  qed
qed

lemma rrb_from_array_correct:
  "\<exists>t. rrb_from_array xs = Inr t \<and> wf_tree t \<and> rrb_collect t = xs"
proof (cases "xs = []")
  case True
  then show ?thesis by (simp add: rrb_from_array_def rrb_empty_leaf_def rrb_make_leaf_def)
next
  case False
  then have "rrb_chunk_leaves xs \<noteq> []" by (simp add: rrb_chunk_leaves_def)
  with from_nodes_correct [of "rrb_chunk_leaves xs" 0] False show ?thesis
    by (fastforce simp: rrb_from_array_def dest: rrb_chunk_leaves_wf intro: wf_node_tree)
qed

lemma rrb_to_array_correct: "wf_tree t \<Longrightarrow> rrb_to_array t = Inr (rrb_collect t)"
  by (simp add: rrb_to_array_def wf_tree_size)

subsection \<open>The tree operations\<close>

text \<open>The contract of one tree operation: it returns a well-formed tree with the given elements.\<close>

definition returns_tree :: "'a rrb res \<Rightarrow> 'a list \<Rightarrow> bool" where
  "returns_tree r xs \<longleftrightarrow> (case r of Inl e \<Rightarrow> False | Inr t \<Rightarrow> wf_tree t \<and> rrb_collect t = xs)"

lemma returns_tree_simps [simp]:
  "returns_tree (Inr t) xs \<longleftrightarrow> wf_tree t \<and> rrb_collect t = xs"
  "\<not> returns_tree (Inl e) xs"
  by (simp_all add: returns_tree_def)

lemma returns_treeE:
  assumes "returns_tree r xs"
  obtains t where "r = Inr t" "wf_tree t" "rrb_collect t = xs"
  using assms by (cases r) simp_all

lemma returns_tree_bind:
  "returns_tree r xs \<Longrightarrow> (\<And>t. wf_tree t \<Longrightarrow> rrb_collect t = xs \<Longrightarrow> returns_tree (f t) ys) \<Longrightarrow>
     returns_tree (rbind r f) ys"
  by (auto elim: returns_treeE)

lemma returns_treeI: "\<exists>t. r = Inr t \<and> wf_tree t \<and> rrb_collect t = xs \<Longrightarrow> returns_tree r xs"
  by auto

lemma wf_node_single [simp]: "wf_node 0 (rrb_make_leaf [v])"
  by (simp add: rrb_make_leaf_def RRB_WIDTH_def)

lemma wf_tree_single [simp]: "wf_tree (rrb_make_leaf [v])"
  by (rule wf_node_tree [of 0]) simp

lemma collect_single [simp]: "rrb_collect (rrb_make_leaf xs) = xs"
  by (simp add: rrb_make_leaf_def)

lemma empty_leaf_simps [simp]: "wf_tree rrb_empty_leaf" "rrb_collect rrb_empty_leaf = []"
  by (simp_all add: rrb_empty_leaf_def rrb_make_leaf_def)

lemma tree_from_array: "returns_tree (rrb_from_array xs) xs"
  by (rule returns_treeI) (rule rrb_from_array_correct)

lemma tree_ref: "wf_tree t \<Longrightarrow> i < length (rrb_collect t) \<Longrightarrow> rrb_node_ref t i = Inr (rrb_collect t ! i)"
  by (auto elim!: wf_tree_cases simp: rrb_node_ref_correct wf_node_size_collect)

lemma tree_set: "wf_tree t \<Longrightarrow> i < length (rrb_collect t) \<Longrightarrow>
    returns_tree (rrb_node_set t i v) ((rrb_collect t)[i := v])"
proof (erule wf_tree_cases)
  fix h assume lt: "i < length (rrb_collect t)" and wf: "wf_node h t"
  then have "i < node_size t" by (simp add: wf_node_size_collect)
  from rrb_node_set_correct [OF wf this, of v] show ?thesis by (auto intro: wf_node_tree)
qed simp

lemma tree_add_correct: "wf_tree t \<Longrightarrow> returns_tree (tree_add t v) (rrb_collect t @ [v])"
proof (erule wf_tree_cases)
  assume "t = Leaf []"
  then show ?thesis
    by (simp add: tree_add_def rrb_make_leaf_def RRB_WIDTH_def wf_tree_def)
next
  fix h assume wf: "wf_node h t"
  from rrb_concat_roots_correct [OF this wf_node_single [of v]] rrb_fast_push_correct [OF this, of v]
  show ?thesis by (auto simp: tree_add_def intro: wf_node_tree)
qed

lemma tree_cons_correct: "wf_tree t \<Longrightarrow> returns_tree (tree_cons t v) (v # rrb_collect t)"
proof (erule wf_tree_cases)
  assume "t = Leaf []"
  then show ?thesis
    by (simp add: tree_cons_def rrb_make_leaf_def RRB_WIDTH_def wf_tree_def)
next
  fix h assume wf: "wf_node h t"
  from rrb_concat_roots_correct [OF wf_node_single [of v] this] rrb_fast_cons_correct [OF this, of v]
  show ?thesis by (auto simp: tree_cons_def intro: wf_node_tree)
qed

lemma tree_concat_correct:
  "wf_tree a \<Longrightarrow> wf_tree b \<Longrightarrow> returns_tree (tree_concat a b) (rrb_collect a @ rrb_collect b)"
proof (cases "node_size a = 0 \<or> node_size b = 0")
  case False
  assume "wf_tree a" "wf_tree b"
  with False have "wf_node (rrb_height_of a) a" "wf_node (rrb_height_of b) b"
    by (simp_all add: wf_tree_nonempty)
  from rrb_concat_roots_correct [OF this] False show ?thesis by (auto simp: tree_concat_def)
qed (auto simp: tree_concat_def wf_tree_size)

lemma tree_slice:
  assumes "wf_tree t" "fr < till" "till \<le> node_size t"
  shows "returns_tree (rbind (rrb_slice_node t fr till) (\<lambda>t. Inr (rrb_canonical t)))
    (take (till - fr) (drop fr (rrb_collect t)))"
proof -
  from assms have "wf_node (rrb_height_of t) t" by (intro wf_tree_nonempty) auto
  from slice_correct(1) [OF this assms(2,3)] obtain t' where t': "rrb_slice_node t fr till = Inr t'"
    "wf_node (rrb_height_of t) t'" "rrb_collect t' = take (till - fr) (drop fr (rrb_collect t))"
    by blast
  with rrb_canonical_correct [OF t'(2)] show ?thesis by simp
qed

lemma tree_take_correct: "wf_tree t \<Longrightarrow> returns_tree (tree_take t n) (take (nat n) (rrb_collect t))"
  using tree_slice [of t 0 "nat n"] by (auto simp: tree_take_def wf_tree_size)

lemma tree_drop_correct: "wf_tree t \<Longrightarrow> returns_tree (tree_drop t n) (drop (nat n) (rrb_collect t))"
  using tree_slice [of t "nat n" "node_size t"] by (auto simp: tree_drop_def wf_tree_size)

lemma tree_reverse_correct: "wf_tree t \<Longrightarrow> returns_tree (tree_reverse t) (rev (rrb_collect t))"
  by (simp add: tree_reverse_def rrb_to_array_correct tree_from_array)

end
