(* ===== verification/Treelist_Seq.thy ===== *)
theory Treelist_Seq
  imports Treelist_Props
begin

text \<open>
  The sequence interface between the tree engine and its clients.  \<open>persistent_seq\<close> names the
  three operations that the composed ones (\<open>tree_sublist\<close>, \<open>tree_insert\<close>, \<open>tree_delete\<close> of
  treelist.c) are written with, and the laws the engine promises; \<open>persistent_deque\<close> adds the two
  appends.  Every law says that the operation returns, so a client proof by these laws also shows
  that the composition has no undefined access.
\<close>

locale persistent_seq =
  fixes ok :: "'t \<Rightarrow> bool"
    and elems :: "'t \<Rightarrow> 'a list"
    and unit_seq :: "'a \<Rightarrow> 't"
    and cat :: "'t \<Rightarrow> 't \<Rightarrow> 't res"
    and front :: "'t \<Rightarrow> int \<Rightarrow> 't res"
    and rest :: "'t \<Rightarrow> int \<Rightarrow> 't res"
  assumes unit_ok: "ok (unit_seq v)"
    and elems_unit: "elems (unit_seq v) = [v]"
    and cat_law: "ok a \<Longrightarrow> ok b \<Longrightarrow> \<exists>t. cat a b = Inr t \<and> ok t \<and> elems t = elems a @ elems b"
    and front_law: "ok a \<Longrightarrow> \<exists>t. front a n = Inr t \<and> ok t \<and> elems t = take (nat n) (elems a)"
    and rest_law: "ok a \<Longrightarrow> \<exists>t. rest a n = Inr t \<and> ok t \<and> elems t = drop (nat n) (elems a)"
begin

lemma window:
  assumes "ok a"
  shows "\<exists>t. rbind (front a e) (\<lambda>t. rest t f) = Inr t \<and> ok t \<and>
    elems t = drop (nat f) (take (nat e) (elems a))"
proof -
  from front_law [OF assms, of e] obtain t where t: "front a e = Inr t" "ok t"
    "elems t = take (nat e) (elems a)" by blast
  from rest_law [OF t(2), of f] t show ?thesis by auto
qed

lemma splice:
  assumes "ok a"
  shows "\<exists>t. rbind (front a i) (\<lambda>l. rbind (cat l (unit_seq v)) (\<lambda>lm.
      rbind (rest a i) (\<lambda>r. cat lm r))) = Inr t \<and> ok t \<and>
    elems t = take (nat i) (elems a) @ v # drop (nat i) (elems a)"
proof -
  from front_law [OF assms, of i] obtain l where l: "front a i = Inr l" "ok l"
    "elems l = take (nat i) (elems a)" by blast
  from cat_law [OF l(2) unit_ok, of v] obtain lm where lm: "cat l (unit_seq v) = Inr lm" "ok lm"
    "elems lm = elems l @ [v]" by (auto simp: elems_unit)
  from rest_law [OF assms, of i] obtain r where r: "rest a i = Inr r" "ok r"
    "elems r = drop (nat i) (elems a)" by blast
  from cat_law [OF lm(2) r(2)] l lm r show ?thesis by auto
qed

lemma cut:
  assumes "ok a"
  shows "\<exists>t. rbind (front a i) (\<lambda>l. rbind (rest a j) (\<lambda>r. cat l r)) = Inr t \<and> ok t \<and>
    elems t = take (nat i) (elems a) @ drop (nat j) (elems a)"
proof -
  from front_law [OF assms, of i] obtain l where l: "front a i = Inr l" "ok l"
    "elems l = take (nat i) (elems a)" by blast
  from rest_law [OF assms, of j] obtain r where r: "rest a j = Inr r" "ok r"
    "elems r = drop (nat j) (elems a)" by blast
  from cat_law [OF l(2) r(2)] l r show ?thesis by auto
qed

end

locale persistent_deque = persistent_seq ok elems unit_seq cat front rest
  for ok :: "'t \<Rightarrow> bool" and elems :: "'t \<Rightarrow> 'a list" and unit_seq cat front rest +
  fixes push :: "'t \<Rightarrow> 'a \<Rightarrow> 't res" and unshift :: "'t \<Rightarrow> 'a \<Rightarrow> 't res"
  assumes push_law: "ok a \<Longrightarrow> \<exists>t. push a v = Inr t \<and> ok t \<and> elems t = elems a @ [v]"
    and unshift_law: "ok a \<Longrightarrow> \<exists>t. unshift a v = Inr t \<and> ok t \<and> elems t = v # elems a"
begin

text \<open>Insertion at any integer position, clamped to the ends as \<open>tree_insert\<close> does.\<close>

lemma insert_clamped:
  assumes "ok a"
  shows "\<exists>t. (if i \<le> 0 then unshift a v else if i \<ge> int (length (elems a)) then push a v
      else rbind (front a i) (\<lambda>l. rbind (cat l (unit_seq v)) (\<lambda>lm.
        rbind (rest a i) (\<lambda>r. cat lm r)))) = Inr t \<and> ok t \<and>
    elems t = take (nat i) (elems a) @ v # drop (nat i) (elems a)"
proof -
  consider "i \<le> 0" | "0 < i" "i \<ge> int (length (elems a))"
    | "0 < i" "i < int (length (elems a))" by linarith
  then show ?thesis
  proof cases
    case 1
    with unshift_law [OF assms, of v] show ?thesis by simp
  next
    case 2
    moreover from 2 have "length (elems a) \<le> nat i" by simp
    ultimately show ?thesis using push_law [OF assms, of v] by simp
  next
    case 3
    with splice [OF assms, of i v] show ?thesis by simp
  qed
qed

end

interpretation rrb: persistent_deque wf_tree rrb_collect "\<lambda>v. rrb_make_leaf [v]"
  tree_concat tree_take tree_drop tree_add tree_cons
proof unfold_locales
  show "wf_tree (rrb_make_leaf [v])" for v :: 'a by simp
  show "rrb_collect (rrb_make_leaf [v]) = [v]" for v :: 'a by simp
  show "wf_tree a \<Longrightarrow> wf_tree b \<Longrightarrow>
      \<exists>t. tree_concat a b = Inr t \<and> wf_tree t \<and> rrb_collect t = rrb_collect a @ rrb_collect b"
    for a b :: "'a rrb" using tree_concat_correct [of a b] by (auto elim: returns_treeE)
  show "wf_tree a \<Longrightarrow> \<exists>t. tree_take a n = Inr t \<and> wf_tree t \<and> rrb_collect t = take (nat n) (rrb_collect a)"
    for a :: "'a rrb" and n using tree_take_correct [of a n] by (auto elim: returns_treeE)
  show "wf_tree a \<Longrightarrow> \<exists>t. tree_drop a n = Inr t \<and> wf_tree t \<and> rrb_collect t = drop (nat n) (rrb_collect a)"
    for a :: "'a rrb" and n using tree_drop_correct [of a n] by (auto elim: returns_treeE)
  show "wf_tree a \<Longrightarrow> \<exists>t. tree_add a v = Inr t \<and> wf_tree t \<and> rrb_collect t = rrb_collect a @ [v]"
    for a :: "'a rrb" and v using tree_add_correct [of a v] by (auto elim: returns_treeE)
  show "wf_tree a \<Longrightarrow> \<exists>t. tree_cons a v = Inr t \<and> wf_tree t \<and> rrb_collect t = v # rrb_collect a"
    for a :: "'a rrb" and v using tree_cons_correct [of a v] by (auto elim: returns_treeE)
qed

subsection \<open>The composed operations of the engine, by the interface\<close>

lemma tree_sublist_correct:
  "wf_tree t \<Longrightarrow> returns_tree (tree_sublist t f e) (drop (nat f) (take (nat e) (rrb_collect t)))"
  by (rule returns_treeI) (simp add: tree_sublist_def rrb.window)

lemma tree_insert_correct:
  "wf_tree t \<Longrightarrow> returns_tree (tree_insert t i v)
     (take (nat i) (rrb_collect t) @ v # drop (nat i) (rrb_collect t))"
  by (rule returns_treeI) (simp only: tree_insert_def wf_tree_size rrb.insert_clamped)

lemma tree_delete_correct:
  "wf_tree t \<Longrightarrow> returns_tree (tree_delete t i)
     (take (nat i) (rrb_collect t) @ drop (nat (i + 1)) (rrb_collect t))"
  by (rule returns_treeI) (simp add: tree_delete_def rrb.cut)

end
