(* ===== verification/Treelist_Spec.thy ===== *)
theory Treelist_Spec
  imports Treelist_Seq
begin

text \<open>
  The properties of the RRB tree engine of icecreme/treelist.c, each with a witness at a concrete
  input where it has a hypothesis.  They rest on the lemmas of \<open>Treelist_Props\<close> and on the
  interpretation \<open>rrb\<close> of \<open>Treelist_Seq\<close>.
\<close>

text \<open>A tree of 40 elements, two leaves under a branch, for the witnesses.\<close>

definition sample_tree :: "nat rrb" where
  "sample_tree = Branch 1 40 [Leaf [0..<32], Leaf [32..<40]] [32, 40]"

lemma sample_tree_wf: "wf_tree sample_tree"
  by (simp add: sample_tree_def wf_tree_def RRB_WIDTH_def)

lemma sample_tree_collect: "rrb_collect sample_tree = [0..<40]"
  by (simp add: sample_tree_def upt_rec)

lemma sample_tree_size: "node_size sample_tree = 40"
  by (simp add: sample_tree_def)

text \<open>C6.  The tree operations implement the list operations.  On well-formed trees each of them
  returns (no access out of an array, no abort), the result is well-formed, and its elements in
  order are those of the corresponding list operation; positions and counts outside the sequence
  are clamped the way the code clamps them.\<close>

theorem tree_ops_refine_lists:
  assumes "wf_tree t" and "wf_tree u"
  shows "returns_tree (tree_add t v) (rrb_collect t @ [v]) \<and>
    returns_tree (tree_cons t v) (v # rrb_collect t) \<and>
    returns_tree (tree_concat t u) (rrb_collect t @ rrb_collect u) \<and>
    returns_tree (tree_take t n) (take (nat n) (rrb_collect t)) \<and>
    returns_tree (tree_drop t n) (drop (nat n) (rrb_collect t)) \<and>
    returns_tree (tree_sublist t f e) (drop (nat f) (take (nat e) (rrb_collect t))) \<and>
    returns_tree (tree_insert t i v) (take (nat i) (rrb_collect t) @ v # drop (nat i) (rrb_collect t)) \<and>
    returns_tree (tree_delete t i) (take (nat i) (rrb_collect t) @ drop (nat (i + 1)) (rrb_collect t)) \<and>
    returns_tree (tree_reverse t) (rev (rrb_collect t))"
  using assms
  by (intro conjI tree_add_correct tree_cons_correct tree_concat_correct tree_take_correct
      tree_drop_correct tree_sublist_correct tree_insert_correct tree_delete_correct
      tree_reverse_correct)

theorem tree_ops_refine_lists_witness:
  "returns_tree (tree_insert sample_tree 35 7)
     (take 35 [0..<40] @ 7 # drop 35 [0..<40])"
  using tree_ops_refine_lists [OF sample_tree_wf sample_tree_wf, of _ _ _ _ 35]
  by (simp add: sample_tree_collect)

text \<open> Indexed read and write.  Inside the bounds that the builtins check, the descent by the
  size tables finds the element of that position, and a write returns a well-formed tree that
  differs exactly there; the number of elements and so every later bound check is unchanged.\<close>

theorem tree_ref_set:
  assumes "wf_tree t" and "i < node_size t"
  shows "rrb_node_ref t i = Inr (rrb_collect t ! i) \<and>
    returns_tree (rrb_node_set t i v) ((rrb_collect t)[i := v])"
  using assms by (simp add: wf_tree_size tree_ref tree_set)

theorem tree_ref_set_witness:
  "rrb_node_ref sample_tree 33 = Inr 33 \<and>
   returns_tree (rrb_node_set sample_tree 33 7) ([0..<40][33 := 7])"
  using tree_ref_set [OF sample_tree_wf, of 33 7]
  by (simp add: sample_tree_collect sample_tree_size)

text \<open> Bulk load and unload are inverse: loading an array of any length gives a well-formed
  tree of that size, and reading it back gives the array.\<close>

theorem from_array_to_array:
  "\<exists>t. rrb_from_array xs = Inr t \<and> wf_tree t \<and> node_size t = length xs \<and> rrb_to_array t = Inr xs"
  using rrb_from_array_correct [of xs] by (auto simp: wf_tree_size rrb_to_array_correct)

text \<open> The output buffers of the two chunk loops, sized \<open>(n + 31) / 32\<close>, are filled exactly:
  neither loop writes past its buffer.\<close>

theorem chunk_buffers_exact:
  assumes "\<forall>c\<in>set kids. wf_node h c"
  shows "length (rrb_chunk_leaves xs) = (length xs + 31) div 32 \<and>
    (\<exists>ns. rrb_chunk_branches kids = Inr ns \<and> length ns = (length kids + 31) div 32)"
  using rrb_chunk_branches_correct [OF assms]
  by (auto simp: rrb_chunk_leaves_def length_chunk_groups)

theorem chunk_buffers_exact_witness:
  "\<exists>ns. rrb_chunk_branches [Leaf [1::nat], Leaf [2, 3]] = Inr ns \<and> length ns = 1"
  using chunk_buffers_exact [of "[Leaf [1::nat], Leaf [2, 3]]" 0 "[]"]
  by (auto simp: RRB_WIDTH_def)

text \<open> The shape \<open>rrb_concat_sub\<close> promises its callers: a branch exactly one level above the
  higher operand, with one or two children, that holds the elements of both in order.  So a
  concatenation raises the height by at most one.\<close>

theorem concat_shape:
  assumes "wf_node hl l" and "wf_node hr r"
  shows "\<exists>t. rrb_concat_sub l r = Inr t \<and> is_branch t \<and> rrb_height_of t = Suc (max hl hr) \<and>
    length (node_children t) \<in> {1, 2} \<and> rrb_collect t = rrb_collect l @ rrb_collect r"
proof -
  from rrb_concat_sub_correct [OF assms] obtain t where t: "rrb_concat_sub l r = Inr t"
    "wf_node (Suc (max hl hr)) t" "length (node_children t) \<le> 2"
    "rrb_collect t = rrb_collect l @ rrb_collect r" by blast
  moreover have "node_children t \<noteq> []" using wf_node_children [OF t(2)] by simp
  then have "length (node_children t) \<noteq> 0" by simp
  with t(3) have "length (node_children t) = 1 \<or> length (node_children t) = 2" by linarith
  ultimately show ?thesis
    using wf_node_height [OF t(2)] wf_node_is_branch [OF t(2)] by auto
qed

theorem concat_shape_witness:
  "\<exists>t. rrb_concat_sub (Leaf [1::nat]) (Leaf [2]) = Inr t \<and> is_branch t \<and> rrb_height_of t = 1"
  using concat_shape [of 0 "Leaf [1::nat]" 0 "Leaf [2]"] by (auto simp: RRB_WIDTH_def)

end
