(* ===== verification/Radix_Core.thy ===== *)
theory Radix_Core
  imports Creme_Prelude
begin

text \<open>
  The byte-radix trie of icecreme/radix.c: nodes, splitting, insertion of a tokenised pattern and
  the backtracking lookup.  A node is mutated in place by the code; here the functions return the
  new node, and \<open>insert_token\<close>, which the code has return a pointer to the node it reached, takes
  what the caller does with that node as the argument \<open>k\<close>.  The payload pointer is \<open>None\<close> for the
  C \<open>NULL\<close>; \<open>cap_children\<close> is the growth of an array and has no counterpart.
\<close>

datatype radix_kind = RADIX_NORMAL | RADIX_NAMED | RADIX_GLOB

datatype 'p radix_node = RadixNode (rn_key: bytes) (rn_kind: radix_kind) (rn_payload: "'p option")
  (rn_children: "'p radix_node list")

record 'p radix_tree =
  rt_root :: "'p radix_node"
  rt_count :: int

record radix_param =
  rp_name :: bytes
  rp_value :: bytes

definition new_node :: "bytes \<Rightarrow> radix_kind \<Rightarrow> 'p radix_node" where
  "new_node key kind = RadixNode key kind None []"

definition append_child :: "'p radix_node \<Rightarrow> 'p radix_node \<Rightarrow> 'p radix_node" where
  "append_child parent child =
     RadixNode (rn_key parent) (rn_kind parent) (rn_payload parent) (rn_children parent @ [child])"

fun child_rank :: "radix_kind \<Rightarrow> nat" where
  "child_rank RADIX_NORMAL = 0"
| "child_rank RADIX_NAMED = 1"
| "child_rank RADIX_GLOB = 2"

text \<open>The insertion sort of \<open>sort_children\<close>.  \<open>sift_back\<close> is its inner loop: \<open>cur\<close> moves left past
  every element of a higher rank at the end of the prefix, given here reversed.\<close>

fun sift_back :: "'p radix_node \<Rightarrow> 'p radix_node list \<Rightarrow> 'p radix_node list" where
  "sift_back cur [] = [cur]"
| "sift_back cur (c # cs) =
     (if child_rank (rn_kind c) > child_rank (rn_kind cur) then c # sift_back cur cs
      else cur # c # cs)"

definition sort_list :: "'p radix_node list \<Rightarrow> 'p radix_node list" where
  "sort_list cs = rev (fold sift_back cs [])"

definition sort_children :: "'p radix_node \<Rightarrow> 'p radix_node" where
  "sort_children parent =
     RadixNode (rn_key parent) (rn_kind parent) (rn_payload parent) (sort_list (rn_children parent))"

definition split_node :: "'p radix_node \<Rightarrow> nat \<Rightarrow> 'p radix_node" where
  "split_node child common =
     (let tail = RadixNode (drop common (rn_key child)) RADIX_NORMAL (rn_payload child)
            (rn_children child)
      in append_child (RadixNode (take common (rn_key child)) (rn_kind child) None []) tail)"

text \<open>Length of the common prefix, the loop at the end of \<open>node_common\<close>.\<close>

fun common_prefix :: "bytes \<Rightarrow> bytes \<Rightarrow> nat" where
  "common_prefix (x # xs) (y # ys) = (if x = y then Suc (common_prefix xs ys) else 0)"
| "common_prefix xs ys = 0"

definition node_common :: "'p radix_node \<Rightarrow> bytes \<Rightarrow> radix_kind \<Rightarrow> nat" where
  "node_common child key kind =
     (if rn_kind child \<noteq> RADIX_NORMAL \<or> kind \<noteq> RADIX_NORMAL
      then (if rn_kind child = kind \<and> rn_key child = key then length key else 0)
      else common_prefix (rn_key child) key)"

text \<open>What a caller does with a node, on a list of children at one position.\<close>

definition with_children :: "'p radix_node \<Rightarrow> 'p radix_node list \<Rightarrow> 'p radix_node" where
  "with_children node cs = RadixNode (rn_key node) (rn_kind node) (rn_payload node) cs"

text \<open>\<open>insert_token\<close>: \<open>insert_children\<close> is its loop over the children, with the ones already
  passed over in \<open>done\<close>; a recursive call happens only below a child.\<close>

function insert_token :: "'p radix_node \<Rightarrow> bytes \<Rightarrow> radix_kind \<Rightarrow> ('p radix_node \<Rightarrow> 'p radix_node)
    \<Rightarrow> 'p radix_node"
  and insert_children :: "'p radix_node list \<Rightarrow> bytes \<Rightarrow> radix_kind
    \<Rightarrow> ('p radix_node \<Rightarrow> 'p radix_node) \<Rightarrow> 'p radix_node list option" where
  "insert_token (RadixNode nkey nkind pl cs) key kind k =
     (case insert_children cs key kind k of
        Some cs' \<Rightarrow> RadixNode nkey nkind pl cs'
      | None \<Rightarrow> sort_children (append_child (RadixNode nkey nkind pl cs) (k (new_node key kind))))"
| "insert_children [] key kind k = None"
| "insert_children (child # cs) key kind k =
     (let common = node_common child key kind in
      if common = 0 then map_option (\<lambda>cs'. child # cs') (insert_children cs key kind k)
      else if common = length (rn_key child) \<and> common = length key then Some (k child # cs)
      else if common = length (rn_key child)
        then Some (insert_token child (drop common key) kind k # cs)
      else if common = length key then Some (k (split_node child common) # cs)
      else Some (sort_children (append_child (split_node child common)
             (k (new_node (drop common key) kind))) # cs))"
  by pat_completeness auto
termination
  by (relation "measure (\<lambda>x. case x of Inl (n, _) \<Rightarrow> size n | Inr (cs, _) \<Rightarrow> size_list size cs)")
    auto

text \<open>The tokenizer loop of \<open>radix_tree_add\<close>: one token and the rest of the key.\<close>

definition next_token :: "bytes \<Rightarrow> radix_kind \<times> bytes \<times> bytes" where
  "next_token key =
     (case key of [] \<Rightarrow> (RADIX_NORMAL, [], [])
      | c # rest \<Rightarrow>
        if c = CHR '':'' then
          (RADIX_NAMED, c # takeWhile (\<lambda>x. x \<noteq> CHR ''/'') rest, dropWhile (\<lambda>x. x \<noteq> CHR ''/'') rest)
        else if c = CHR ''*'' then (RADIX_GLOB, c # rest, [])
        else (RADIX_NORMAL, c # takeWhile (\<lambda>x. x \<noteq> CHR '':'' \<and> x \<noteq> CHR ''*'') rest,
               dropWhile (\<lambda>x. x \<noteq> CHR '':'' \<and> x \<noteq> CHR ''*'') rest))"

lemma next_token_shorter: "key \<noteq> [] \<Longrightarrow> length (snd (snd (next_token key))) < length key"
proof -
  assume "key \<noteq> []"
  then obtain c rest where key: "key = c # rest" by (cases key) auto
  have "length (dropWhile P rest) < Suc (length rest)" for P
    by (simp add: length_dropWhile_le less_Suc_eq_le)
  with key show ?thesis by (simp add: next_token_def)
qed

lemma next_token_rest:
  "next_token key = (kind, tok, rest) \<Longrightarrow> key \<noteq> [] \<Longrightarrow> length rest < length key"
  "(kind, tok, rest) = next_token key \<Longrightarrow> key \<noteq> [] \<Longrightarrow> length rest < length key"
  using next_token_shorter [of key] by (metis snd_conv)+

function tokens :: "bytes \<Rightarrow> (radix_kind \<times> bytes) list" where
  "tokens key =
     (if key = [] then []
      else (case next_token key of (kind, tok, rest) \<Rightarrow> (kind, tok) # tokens rest))"
  by pat_completeness auto
termination
  by (relation "measure length") (auto dest: next_token_rest)

declare tokens.simps [simp del]

text \<open>The loop over the tokens: each is inserted under the node the previous one reached; the
  node reached last gets the payload.\<close>

definition set_payload :: "'p \<Rightarrow> 'p radix_node \<Rightarrow> 'p radix_node" where
  "set_payload v node = RadixNode (rn_key node) (rn_kind node) (Some v) (rn_children node)"

fun add_tokens :: "(radix_kind \<times> bytes) list \<Rightarrow> 'p \<Rightarrow> 'p radix_node \<Rightarrow> 'p radix_node" where
  "add_tokens [] v node = set_payload v node"
| "add_tokens ((kind, tok) # ts) v node = insert_token node tok kind (add_tokens ts v)"

text \<open>The payload of the node the tokens reach, which the code tests before it counts: the walk
  that \<open>insert_token\<close> does, \<open>None\<close> where it would build a new node (its payload is \<open>NULL\<close>).\<close>

function find_token :: "'p radix_node \<Rightarrow> bytes \<Rightarrow> radix_kind \<Rightarrow> 'p radix_node option"
  and find_children :: "'p radix_node list \<Rightarrow> bytes \<Rightarrow> radix_kind \<Rightarrow> 'p radix_node option" where
  "find_token (RadixNode nkey nkind pl cs) key kind = find_children cs key kind"
| "find_children [] key kind = None"
| "find_children (child # cs) key kind =
     (let common = node_common child key kind in
      if common = 0 then find_children cs key kind
      else if common = length (rn_key child) \<and> common = length key then Some child
      else if common = length (rn_key child) then find_token child (drop common key) kind
      else None)"
  by pat_completeness auto
termination
  by (relation "measure (\<lambda>x. case x of Inl (n, _) \<Rightarrow> size n | Inr (cs, _) \<Rightarrow> size_list size cs)")
    auto

fun find_tokens :: "(radix_kind \<times> bytes) list \<Rightarrow> 'p radix_node \<Rightarrow> 'p option" where
  "find_tokens [] node = rn_payload node"
| "find_tokens ((kind, tok) # ts) node =
     (case find_token node tok kind of None \<Rightarrow> None | Some n \<Rightarrow> find_tokens ts n)"

definition radix_tree_new :: "'p radix_tree" where
  "radix_tree_new = \<lparr> rt_root = new_node [] RADIX_NORMAL, rt_count = 0 \<rparr>"

definition radix_tree_add :: "'p radix_tree \<Rightarrow> bytes \<Rightarrow> 'p \<Rightarrow> 'p radix_tree" where
  "radix_tree_add t key v =
     \<lparr> rt_root = add_tokens (tokens key) v (rt_root t),
       rt_count = (if find_tokens (tokens key) (rt_root t) = None then rt_count t + 1
                   else rt_count t) \<rparr>"

text \<open>The lookup.  \<open>ps\<close> are the parameters written so far (the first \<open>*n\<close> slots of
  \<open>out_params\<close>); a capture past \<open>max_params\<close> is dropped.  A failed attempt returns \<open>None\<close>, and the
  caller goes on with the \<open>ps\<close> it had, the code's \<open>*n = saved_n\<close>.  The recursion ends because the
  child is a smaller tree.\<close>

definition push_param :: "nat \<Rightarrow> radix_param list \<Rightarrow> bytes \<Rightarrow> bytes \<Rightarrow> radix_param list" where
  "push_param max_params ps name val =
     (if length ps < max_params then ps @ [\<lparr> rp_name = name, rp_value = val \<rparr>] else ps)"

fun find_rec :: "nat \<Rightarrow> 'p radix_node \<Rightarrow> bytes \<Rightarrow> radix_param list \<Rightarrow> ('p \<times> radix_param list) option"
  and find_rec_children :: "nat \<Rightarrow> 'p radix_node list \<Rightarrow> bytes \<Rightarrow> radix_param list
    \<Rightarrow> ('p \<times> radix_param list) option" where
  "find_rec mx (RadixNode key kind pl cs) path ps =
     (if path = [] then map_option (\<lambda>v. (v, ps)) pl else find_rec_children mx cs path ps)"
| "find_rec_children mx [] path ps = None"
| "find_rec_children mx (child # cs) path ps =
     (case (case rn_kind child of
              RADIX_NORMAL \<Rightarrow>
                if length (rn_key child) \<le> length path \<and> take (length (rn_key child)) path = rn_key child
                then find_rec mx child (drop (length (rn_key child)) path) ps else None
            | RADIX_NAMED \<Rightarrow>
                find_rec mx child (dropWhile (\<lambda>c. c \<noteq> CHR ''/'') path)
                  (push_param mx ps (tl (rn_key child)) (takeWhile (\<lambda>c. c \<noteq> CHR ''/'') path))
            | RADIX_GLOB \<Rightarrow>
                find_rec mx child [] (push_param mx ps (tl (rn_key child)) path)) of
        Some r \<Rightarrow> Some r
      | None \<Rightarrow> find_rec_children mx cs path ps)"

definition radix_tree_find :: "'p radix_tree \<Rightarrow> bytes \<Rightarrow> nat \<Rightarrow> ('p \<times> radix_param list) option" where
  "radix_tree_find t path mx = find_rec mx (rt_root t) path []"

end
