(* ===== verification/Value_Model.thy ===== *)
theory Value_Model
  imports Treelist_Core Radix_Core "HOL-Library.Word"
begin

text \<open>
  The value model of icecreme/val.h and the state of icecreme/vm.h: values, heap objects,
  bytecode chunks, call frames, guard handlers, pending unwind actions, and the VM that holds them;
  the way a C function of the VM can leave (\<open>run\<close>); \<open>creme_abort\<close> and conditions (vm.c); and
  the comparison \<open>creme_eqv\<close> (vm.c).

  \<^item> A pointer to a heap object is its index in the list of objects of its kind (\<open>heap\<close>);
    \<open>GC_MALLOC\<close> appends, nothing is freed (the collector only frees what cannot be reached).
    Dereferencing an index that is not there is \<open>Stuck\<close>.
  \<^item> \<open>T_INT\<close> carries an \<open>int64_t\<close>: an \<open>int\<close> whose range \<open>int64\<close> is an invariant; the overflow
    checks of the code are written out.  \<open>T_FLOAT\<close> is its 64 bits.  \<open>T_SYM\<close> is immutable and
    compared by content, so it is its bytes; \<open>T_STR\<close> is a mutable buffer of fixed length in the
    heap.  A GMP number is its mathematical value.
  \<^item> The fixed-capacity arrays of the VM (registers, frames, globals, handlers, unwind actions,
    installed exception handlers) are functions of the index; an access outside the capacity is
    \<open>Stuck\<close>.
  \<^item> A \<open>jmp_buf\<close> is identified by the C activation that ran \<open>setjmp\<close>: \<open>vm_next_act\<close> numbers
    the activations of \<open>creme_dispatch\<close> and \<open>bi_call_cc\<close>.  \<open>Longjmp b\<close> is a \<open>longjmp\<close> to the
    activation \<open>b\<close>; it passes through every other activation, and if \<open>b\<close> is no longer on the C
    stack it passes through all of them, which is the C undefined behaviour.
\<close>

subsection \<open>Values\<close>

datatype val =
    VNil
  | VBool bool
  | VInt int
  | VFloat "64 word"
  | VSym bytes
  | VStr nat
  | VChar int
  | VPair nat
  | VVector nat
  | VBytevector nat
  | VPromise nat
  | VValues nat
  | VPort nat
  | VClosure nat
  | VCaseClosure nat
  | VRecordType nat
  | VRecord nat
  | VRecordCallable nat
  | VBuiltin bytes
  | VParameter nat
  | VBox int nat
  | VMacro nat
  | VContinuation nat
  | VBigint int
  | VRational int int
  | VComplex "val" "val"

text \<open>The numbers of the enum \<open>Tag\<close>, in its order.\<close>

fun tag_of :: "val \<Rightarrow> int" where
  "tag_of VNil = 0"
| "tag_of (VBool b) = 1"
| "tag_of (VInt i) = 2"
| "tag_of (VFloat w) = 3"
| "tag_of (VSym s) = 4"
| "tag_of (VStr a) = 5"
| "tag_of (VChar c) = 6"
| "tag_of (VPair a) = 7"
| "tag_of (VVector a) = 8"
| "tag_of (VBytevector a) = 9"
| "tag_of (VPromise a) = 10"
| "tag_of (VValues a) = 11"
| "tag_of (VPort a) = 12"
| "tag_of (VClosure a) = 13"
| "tag_of (VCaseClosure a) = 14"
| "tag_of (VRecordType a) = 15"
| "tag_of (VRecord a) = 16"
| "tag_of (VRecordCallable a) = 17"
| "tag_of (VBuiltin f) = 18"
| "tag_of (VParameter a) = 19"
| "tag_of (VBox k a) = 20"
| "tag_of (VMacro a) = 21"
| "tag_of (VContinuation a) = 22"
| "tag_of (VBigint z) = 23"
| "tag_of (VRational n d) = 24"
| "tag_of (VComplex re im) = 25"

definition v_falsy :: "val \<Rightarrow> bool" where
  "v_falsy v = (v = VBool False)"

definition INT64_MIN :: int where
  "INT64_MIN = - 9223372036854775808"

definition INT64_MAX :: int where
  "INT64_MAX = 9223372036854775807"

definition INT_MAX :: int where
  "INT_MAX = 2147483647"

definition int64 :: "int \<Rightarrow> bool" where
  "int64 i \<longleftrightarrow> INT64_MIN \<le> i \<and> i \<le> INT64_MAX"

definition BOX_KIND_HASHTABLE :: int where "BOX_KIND_HASHTABLE = 1"
definition BOX_KIND_EOF :: int where "BOX_KIND_EOF = 6"
definition BOX_KIND_TREELIST :: int where "BOX_KIND_TREELIST = 9"
definition BOX_KIND_MUTABLE_TREELIST :: int where "BOX_KIND_MUTABLE_TREELIST = 10"
definition BOX_KIND_ACTOR_REF :: int where "BOX_KIND_ACTOR_REF = 11"
definition BOX_KIND_ACTOR_NODE :: int where "BOX_KIND_ACTOR_NODE = 12"
definition BOX_KIND_BIGDECIMAL :: int where "BOX_KIND_BIGDECIMAL = 13"
definition BOX_KIND_CSV_READER :: int where "BOX_KIND_CSV_READER = 7"
definition BOX_KIND_CSV_WRITER :: int where "BOX_KIND_CSV_WRITER = 8"
definition BOX_KIND_RADIX_TREE :: int where "BOX_KIND_RADIX_TREE = 21"

text \<open>\<open>CremeHashTable\<close> (hashtable.c): the index map from a key to the number of its slot plus one, the slots,
  the capacity of the two arrays and the count of live slots.  The map is a table of the Verstable
  library, whose state is the list of its entries.\<close>

record hash_table =
  ht_map :: "(val \<times> int) list"
  ht_slots :: "(val \<times> val) list"
  ht_cap_values :: nat
  ht_n_live :: int

text \<open>\<open>ActorRef\<close> (actor.c): with a local context the reference is the pointer, without one it is the address of a peer.\<close>

datatype actor_addr = ADDR_NONE | ADDR_TCP bytes int | ADDR_UNIX bytes

record actor_ref =
  ar_id :: bytes
  ar_local_ctx :: "nat option"
  ar_addr :: actor_addr

text \<open>What a \<open>T_BOX\<close> pointer points at, for the kinds this development models; the other kinds are
  handles of foreign libraries.\<close>

datatype box =
    BoxTreelist "val rrb"
  | BoxMutableTreelist "val rrb"
  | BoxRadixTree "val radix_tree"
  | BoxHashTable hash_table
  | BoxBigDecimal int nat
  | BoxCsvReader nat char char
  | BoxCsvWriter nat char char int
  | BoxActorRef actor_ref
  | BoxActorNode nat
  | BoxForeign

definition RC_CTOR :: int where "RC_CTOR = 1"
definition RC_PRED :: int where "RC_PRED = 2"
definition RC_ACCESSOR :: int where "RC_ACCESSOR = 3"
definition RC_MUTATOR :: int where "RC_MUTATOR = 4"

text \<open>\<open>Port\<close>.  A string or bytevector port has its buffer and, for input, the position in it.  The \<open>FILE *\<close> of the
  other kinds is the stream's contents: what has been written, or the whole input with the position reached.\<close>

datatype port_kind =
    PORT_KIND_STDOUT
  | PORT_KIND_STDIN
  | PORT_KIND_OUTPUT_STRING
  | PORT_KIND_INPUT_STRING
  | PORT_KIND_INPUT_FILE
  | PORT_KIND_OUTPUT_FILE
  | PORT_KIND_FILTER

record port =
  po_kind :: port_kind
  po_buf :: bytes
  po_pos :: nat
  po_closed :: bool
  po_binary :: bool
  po_filter_input :: bool

record promise =
  pr_thunk :: "val"
  pr_forced :: bool
  pr_cached :: "val"

record record_type =
  rty_name :: "val"
  rty_field_names :: "val list"

record scheme_record =
  rec_type :: nat
  rec_fields :: "val list"

record record_callable =
  rc_type :: nat
  rc_kind :: int
  rc_ctor_field_indices :: "nat list"
  rc_field_index :: nat

record parameter =
  pm_value :: "val"
  pm_converter :: "val"
  pm_has_converter :: bool

record continuation =
  k_buf :: nat
  k_depth :: nat
  k_unwind_mark :: nat
  k_result :: "val"

text \<open>An upvalue: the index of its register while it is open, then its own copy.\<close>

record upvalue =
  uv_slot :: "nat option"
  uv_closed :: "val"

record closure =
  cl_chunk :: nat
  cl_upvalues :: "nat list"

subsection \<open>Bytecode\<close>

record instruction =
  ins_op :: int
  ins_a :: int
  ins_b :: int
  ins_c :: int
  ins_d :: int

record upval_desc =
  ud_from_parent_local :: bool
  ud_index :: int

datatype qq_template =
    QQConst "val"
  | QQHole
  | QQSplice
  | QQList "qq_template list" qq_template
  | QQVector "qq_template list"

datatype case_key = CDKInt int | CDKChar int | CDKSym bytes | CDKBool int | CDKNil

record case_table =
  ct_entries :: "(case_key \<times> int) list"
  ct_default :: int

record chunk =
  ch_instrs :: "instruction list"
  ch_consts :: "val list"
  ch_protos :: "nat list"
  ch_upvalues :: "upval_desc list"
  ch_param_count :: int
  ch_has_rest :: bool
  ch_num_registers :: int
  ch_name :: bytes
  ch_qq_templates :: "qq_template list"
  ch_case_tables :: "case_table list"

subsection \<open>The VM\<close>

record frame =
  fr_chunk :: nat
  fr_base :: int
  fr_closure :: "nat option"
  fr_ip :: int
  fr_return_reg :: int
  fr_opened :: "nat list"

record global_cell =
  gc_name :: bytes
  gc_value :: "val"
  gc_bound :: bool

record guard_handler =
  gh_buf :: nat
  gh_depth :: nat
  gh_unwind_mark :: nat
  gh_condition_reg :: int
  gh_resume_ip :: int

datatype unwind_action =
    UnwindParams "(nat \<times> val) list"
  | UnwindDynamicWind "val"
  | UnwindExcHandler nat

text \<open>The actors of a process (actor.c).  A system's linked lists of contexts, names and monitors (watcher and
  target) are lists from the head on; \<open>cn_sent\<close> is what has been written to a connection.  A \<open>spawned\<close> is a thread that has been
  created and has not run yet: its context, its thunk, and what its VM has of its own.\<close>

record mailbox =
  mb_buf :: "val list"
  mb_head :: nat
  mb_tail :: nat
  mb_count :: nat

record actor_context =
  ac_id :: bytes
  ac_mailbox :: mailbox
  ac_system :: nat

record connection =
  cn_key :: bytes
  cn_open :: bool
  cn_sent :: bytes

record actor_system =
  as_actors :: "nat list"
  as_names :: "(bytes \<times> bytes) list"
  as_monitors :: "(bytes \<times> bytes) list"
  as_next_actor_id :: int
  as_node_name :: "bytes option"
  as_cookie :: "bytes option"
  as_tcp_host :: "bytes option"
  as_tcp_port :: int
  as_unix_path :: "bytes option"
  as_listening :: bool
  as_connections :: "nat list"

record spawned =
  sp_ctx :: nat
  sp_thunk :: "val"
  sp_stack_cap :: nat
  sp_frames_cap :: nat
  sp_globals :: "nat \<Rightarrow> global_cell"
  sp_n_globals :: nat
  sp_output_param :: "nat option"
  sp_input_param :: "nat option"
  sp_next_act :: nat

record heap =
  h_pairs :: "(val \<times> val) list"
  h_strs :: "bytes list"
  h_vecs :: "val list list"
  h_bvs :: "bytes list"
  h_promises :: "promise list"
  h_values :: "val list list"
  h_closures :: "closure list"
  h_case_closures :: "nat list list"
  h_record_types :: "record_type list"
  h_records :: "scheme_record list"
  h_record_callables :: "record_callable list"
  h_parameters :: "parameter list"
  h_boxes :: "box list"
  h_ports :: "port list"
  h_conts :: "continuation list"
  h_upvalues :: "upvalue list"
  h_chunks :: "chunk list"
  h_rng_state :: "64 word"
  h_gensym_counter :: int
  h_actors :: "actor_context list"
  h_systems :: "actor_system list"
  h_local_nodes :: "nat list"
  h_down_type :: "nat option"
  h_connections :: "connection list"
  h_threads :: "spawned list"
  h_os_calls :: nat

record vm = heap +
  vm_stack :: "nat \<Rightarrow> val"
  vm_stack_cap :: nat
  vm_frames :: "nat \<Rightarrow> frame"
  vm_frames_cap :: nat
  vm_depth :: nat
  vm_globals :: "nat \<Rightarrow> global_cell"
  vm_n_globals :: nat
  vm_handlers :: "nat \<Rightarrow> guard_handler"
  vm_n_handlers :: nat
  vm_unwind_stack :: "nat \<Rightarrow> unwind_action"
  vm_n_unwind :: nat
  vm_exc_handlers :: "nat \<Rightarrow> val"
  vm_n_exc_handlers :: nat
  vm_pending_condition :: "val"
  vm_pending_handler_idx :: nat
  vm_condition_type :: "nat option"
  vm_current_output_param :: "nat option"
  vm_current_input_param :: "nat option"
  vm_has_actor_unwind :: bool
  vm_next_act :: nat
  vm_current_actor :: "nat option"

definition CREME_DEFAULT_STACK_CAP :: nat where "CREME_DEFAULT_STACK_CAP = 1048576"
definition CREME_DEFAULT_FRAMES_CAP :: nat where "CREME_DEFAULT_FRAMES_CAP = 8192"
definition CREME_GLOBALS_CAP :: nat where "CREME_GLOBALS_CAP = 4096"
definition CREME_HANDLERS_CAP :: nat where "CREME_HANDLERS_CAP = 256"
definition CREME_UNWIND_CAP :: nat where "CREME_UNWIND_CAP = 1024"
definition CREME_EXC_HANDLERS_CAP :: nat where "CREME_EXC_HANDLERS_CAP = 256"

end
