(* ===== verification/Externals.thy ===== *)
theory Externals
  imports Creme_Prelude Complex_Main "HOL-Library.Word" "HOL-Library.Signed_Division"
begin

text \<open>
  The code icecreme calls that is not part of the repository, the record \<open>arith\<close>: the GMP functions of its exact
  arithmetic (roots and the conversions in a base included), the double arithmetic of the machine, the functions of libm by their
  names, the \<open>%.17g\<close> conversion of printf, and \<open>strtod\<close>, which returns the number and the text it does not
  use.  All are parameters of the model; an \<open>mpz_t\<close> is an integer, an \<open>mpq_t\<close> a numerator and a denominator, a double
  its 64 bits.  The locale \<open>gmp_spec\<close> states what the GMP manual documents of these functions and
  the code relies on; \<open>reference_arith\<close> is an instance that meets it, used by the witnesses.  The
  double operations have no law: no property depends on their results.
\<close>

type_synonym mpq = "int \<times> int"
type_synonym double = "64 word"

text \<open>The digits of a number in a base up to 36, in lower case, as \<open>mpz_get_str\<close> prints them.\<close>

definition base_digit :: "nat \<Rightarrow> char" where
  "base_digit d = (if d < 10 then char_of (48 + d) else char_of (87 + d))"

fun base_digits :: "nat \<Rightarrow> nat \<Rightarrow> bytes" where
  "base_digits b n = (if b \<le> 1 \<or> n < b then [base_digit n] else base_digits b (n div b) @ [base_digit (n mod b)])"

declare base_digits.simps [simp del]

text \<open>The value of a digit or letter as a digit.\<close>

definition digit_value :: "char \<Rightarrow> nat option" where
  "digit_value c =
     (let n = of_char c :: nat in
      if 48 \<le> n \<and> n \<le> 57 then Some (n - 48)
      else if 97 \<le> n \<and> n \<le> 122 then Some (n - 87)
      else if 65 \<le> n \<and> n \<le> 90 then Some (n - 55)
      else None)"

definition is_digit_in :: "nat \<Rightarrow> char \<Rightarrow> bool" where
  "is_digit_in base c \<longleftrightarrow> (case digit_value c of None \<Rightarrow> False | Some d \<Rightarrow> d < base)"

fun radix_val :: "nat \<Rightarrow> nat \<Rightarrow> bytes \<Rightarrow> nat" where
  "radix_val base acc [] = acc"
| "radix_val base acc (c # cs) = radix_val base (base * acc + the (digit_value c)) cs"

fun isqrt :: "nat \<Rightarrow> nat" where
  "isqrt n = (if n = 0 then 0 else let r = 2 * isqrt (n div 4) in if Suc r * Suc r \<le> n then Suc r else r)"

declare isqrt.simps [simp del]

lemma isqrt_bounds: "isqrt n * isqrt n \<le> n \<and> n < Suc (isqrt n) * Suc (isqrt n)"
proof (induction n rule: isqrt.induct)
  case (1 n)
  show ?case
  proof (cases "n = 0")
    case False
    define r where "r = isqrt (n div 4)"
    have "r * r \<le> n div 4" "n div 4 < Suc r * Suc r" using 1 False unfolding r_def by auto
    then have r: "2 * r * (2 * r) \<le> n" "n < Suc (Suc (2 * r)) * Suc (Suc (2 * r))" by (auto simp: algebra_simps)
    show ?thesis
    proof (cases "Suc (2 * r) * Suc (2 * r) \<le> n")
      case True
      then have "isqrt n = Suc (2 * r)" using False by (subst isqrt.simps) (simp add: r_def Let_def)
      then show ?thesis using True r(2) by simp
    next
      case f: False
      then have "isqrt n = 2 * r" using False by (subst isqrt.simps) (simp add: r_def Let_def)
      then show ?thesis using f r(1) by simp
    qed
  qed (simp add: isqrt.simps)
qed

record arith =
  mpq_canonicalize :: "mpq \<Rightarrow> mpq"
  mpq_add :: "mpq \<Rightarrow> mpq \<Rightarrow> mpq"
  mpq_sub :: "mpq \<Rightarrow> mpq \<Rightarrow> mpq"
  mpq_mul :: "mpq \<Rightarrow> mpq \<Rightarrow> mpq"
  mpq_div :: "mpq \<Rightarrow> mpq \<Rightarrow> mpq"
  mpq_cmp :: "mpq \<Rightarrow> mpq \<Rightarrow> int"
  mpq_equal :: "mpq \<Rightarrow> mpq \<Rightarrow> bool"
  mpq_sgn :: "mpq \<Rightarrow> int"
  mpq_get_d :: "mpq \<Rightarrow> double"
  mpz_fits_slong_p :: "int \<Rightarrow> bool"
  mpz_get_si :: "int \<Rightarrow> int"
  mpz_get_d :: "int \<Rightarrow> double"
  mpz_cmp :: "int \<Rightarrow> int \<Rightarrow> int"
  mpz_sgn :: "int \<Rightarrow> int"
  mpz_tdiv_q :: "int \<Rightarrow> int \<Rightarrow> int"
  mpz_tdiv_r :: "int \<Rightarrow> int \<Rightarrow> int"
  mpz_fdiv_q :: "int \<Rightarrow> int \<Rightarrow> int"
  mpz_fdiv_r :: "int \<Rightarrow> int \<Rightarrow> int"
  mpz_gcd :: "int \<Rightarrow> int \<Rightarrow> int"
  mpz_mul :: "int \<Rightarrow> int \<Rightarrow> int"
  mpz_divexact :: "int \<Rightarrow> int \<Rightarrow> int"
  mpz_abs :: "int \<Rightarrow> int"
  mpz_add :: "int \<Rightarrow> int \<Rightarrow> int"
  mpz_sub :: "int \<Rightarrow> int \<Rightarrow> int"
  mpz_neg :: "int \<Rightarrow> int"
  mpz_ui_pow_ui :: "nat \<Rightarrow> nat \<Rightarrow> int"
  mpz_get_str :: "int \<Rightarrow> bytes"
  mpz_set_str :: "bytes \<Rightarrow> int option"
  mpz_get_str_base :: "nat \<Rightarrow> int \<Rightarrow> bytes"
  mpz_set_str_base :: "nat \<Rightarrow> bytes \<Rightarrow> int option"
  mpz_sqrtrem :: "int \<Rightarrow> int \<times> int"
  mpz_cdiv_q :: "int \<Rightarrow> int \<Rightarrow> int"
  mpz_pow_ui :: "int \<Rightarrow> nat \<Rightarrow> int"
  mpq_neg :: "mpq \<Rightarrow> mpq"
  mpq_inv :: "mpq \<Rightarrow> mpq"
  fp_add :: "double \<Rightarrow> double \<Rightarrow> double"
  fp_sub :: "double \<Rightarrow> double \<Rightarrow> double"
  fp_mul :: "double \<Rightarrow> double \<Rightarrow> double"
  fp_div :: "double \<Rightarrow> double \<Rightarrow> double"
  fp_lt :: "double \<Rightarrow> double \<Rightarrow> bool"
  fp_le :: "double \<Rightarrow> double \<Rightarrow> bool"
  fp_eq :: "double \<Rightarrow> double \<Rightarrow> bool"
  fp_of_int64 :: "int \<Rightarrow> double"
  fp_to_int64 :: "double \<Rightarrow> int"
  fp_abs :: "double \<Rightarrow> double"
  fp_isnan :: "double \<Rightarrow> bool"
  fp_isinf :: "double \<Rightarrow> bool"
  printf_17g :: "double \<Rightarrow> bytes"
  strtod :: "bytes \<Rightarrow> double \<times> bytes"
  libm :: "bytes \<Rightarrow> double list \<Rightarrow> double"

definition mpq_canonical :: "mpq \<Rightarrow> bool" where
  "mpq_canonical q \<longleftrightarrow> snd q > 0 \<and> coprime (fst q) (snd q)"

definition mpq_val :: "mpq \<Rightarrow> rat" where
  "mpq_val q = of_int (fst q) / of_int (snd q)"

locale gmp_spec =
  fixes A :: arith
  assumes canonicalize_law: "snd q \<noteq> 0 \<Longrightarrow>
      mpq_canonical (mpq_canonicalize A q) \<and> mpq_val (mpq_canonicalize A q) = mpq_val q"
    and add_law: "mpq_canonical p \<Longrightarrow> mpq_canonical q \<Longrightarrow>
      mpq_canonical (mpq_add A p q) \<and> mpq_val (mpq_add A p q) = mpq_val p + mpq_val q"
    and sub_law: "mpq_canonical p \<Longrightarrow> mpq_canonical q \<Longrightarrow>
      mpq_canonical (mpq_sub A p q) \<and> mpq_val (mpq_sub A p q) = mpq_val p - mpq_val q"
    and mul_law: "mpq_canonical p \<Longrightarrow> mpq_canonical q \<Longrightarrow>
      mpq_canonical (mpq_mul A p q) \<and> mpq_val (mpq_mul A p q) = mpq_val p * mpq_val q"
    and div_law: "mpq_canonical p \<Longrightarrow> mpq_canonical q \<Longrightarrow> fst q \<noteq> 0 \<Longrightarrow>
      mpq_canonical (mpq_div A p q) \<and> mpq_val (mpq_div A p q) = mpq_val p / mpq_val q"
    and cmp_law: "mpq_canonical p \<Longrightarrow> mpq_canonical q \<Longrightarrow>
      (mpq_cmp A p q < 0 \<longleftrightarrow> mpq_val p < mpq_val q) \<and> (mpq_cmp A p q = 0 \<longleftrightarrow> mpq_val p = mpq_val q)"
    and equal_law: "mpq_canonical p \<Longrightarrow> mpq_canonical q \<Longrightarrow> mpq_equal A p q \<longleftrightarrow> mpq_val p = mpq_val q"
    and sgn_law: "mpq_canonical q \<Longrightarrow> mpq_sgn A q = sgn (fst q)"
    and fits_law: "mpz_fits_slong_p A z \<longleftrightarrow> - (2 ^ 63) \<le> z \<and> z < 2 ^ 63"
    and get_si_law: "- (2 ^ 63) \<le> z \<Longrightarrow> z < 2 ^ 63 \<Longrightarrow> mpz_get_si A z = z"
    and zcmp_law: "(mpz_cmp A y z < 0 \<longleftrightarrow> y < z) \<and> (mpz_cmp A y z = 0 \<longleftrightarrow> y = z)"
    and zsgn_law: "mpz_sgn A z = sgn z"
    and tdiv_law: "z \<noteq> 0 \<Longrightarrow> mpz_tdiv_q A y z = y sdiv z \<and> mpz_tdiv_r A y z = y smod z"
    and fdiv_law: "z \<noteq> 0 \<Longrightarrow> mpz_fdiv_q A y z = y div z \<and> mpz_fdiv_r A y z = y mod z"
    and gcd_law: "mpz_gcd A y z = gcd y z"
    and zmul_law: "mpz_mul A y z = y * z"
    and divexact_law: "z \<noteq> 0 \<Longrightarrow> z dvd y \<Longrightarrow> mpz_divexact A y z = y div z"
    and zabs_law: "mpz_abs A z = \<bar>z\<bar>"
    and zadd_law: "mpz_add A y z = y + z"
    and zsub_law: "mpz_sub A y z = y - z"
    and zneg_law: "mpz_neg A z = - z"
    and pow_law: "mpz_ui_pow_ui A b e = int b ^ e"
    and get_str_law: "mpz_get_str A z = dec z"
    and set_str_law: "ds \<noteq> [] \<Longrightarrow> list_all is_digit ds \<Longrightarrow>
      mpz_set_str A ds = Some (int (digits_val 0 ds)) \<and> mpz_set_str A (CHR ''-'' # ds) = Some (- int (digits_val 0 ds))"
begin

lemma cmp_cases:
  assumes "mpq_canonical p" "mpq_canonical q"
  shows "mpq_cmp A p q < 0 \<longleftrightarrow> mpq_val p < mpq_val q"
    and "mpq_cmp A p q \<le> 0 \<longleftrightarrow> mpq_val p \<le> mpq_val q"
    and "mpq_cmp A p q > 0 \<longleftrightarrow> mpq_val p > mpq_val q"
    and "mpq_cmp A p q \<ge> 0 \<longleftrightarrow> mpq_val p \<ge> mpq_val q"
  using cmp_law [OF assms] by linarith+

end

lemma mpq_val_integer [simp]: "mpq_val (n, 1) = of_int n"
  by (simp add: mpq_val_def)

lemma mpq_canonical_integer [simp]: "mpq_canonical (n, 1)"
  by (simp add: mpq_canonical_def)

lemma mpq_val_zero_iff: "mpq_canonical q \<Longrightarrow> mpq_val q = 0 \<longleftrightarrow> fst q = 0"
  by (auto simp: mpq_canonical_def mpq_val_def)

text \<open>A canonical quotient is determined by its value.\<close>

lemma mpq_val_inject:
  assumes "mpq_canonical p" "mpq_canonical q" "mpq_val p = mpq_val q"
  shows "p = q"
proof -
  have "Fract (fst p) (snd p) = Fract (fst q) (snd q)"
    using assms(3) by (simp add: mpq_val_def Fract_of_int_quotient)
  then have "quotient_of (Fract (fst p) (snd p)) = quotient_of (Fract (fst q) (snd q))" by simp
  moreover have "Rat.normalize p = p" "Rat.normalize q = q"
    using assms(1,2) normalize_stable [of "snd p" "fst p"] normalize_stable [of "snd q" "fst q"]
    by (simp_all add: mpq_canonical_def)
  ultimately show ?thesis by (simp add: quotient_of_Fract)
qed

subsection \<open>An instance\<close>

definition reference_arith :: arith where
  "reference_arith =
    \<lparr> mpq_canonicalize = Rat.normalize,
      mpq_add = (\<lambda>p q. Rat.normalize (fst p * snd q + fst q * snd p, snd p * snd q)),
      mpq_sub = (\<lambda>p q. Rat.normalize (fst p * snd q - fst q * snd p, snd p * snd q)),
      mpq_mul = (\<lambda>p q. Rat.normalize (fst p * fst q, snd p * snd q)),
      mpq_div = (\<lambda>p q. Rat.normalize (fst p * snd q, snd p * fst q)),
      mpq_cmp = (\<lambda>p q. sgn (fst p * snd q - fst q * snd p)),
      mpq_equal = (\<lambda>p q. p = q),
      mpq_sgn = (\<lambda>q. sgn (fst q)),
      mpq_get_d = (\<lambda>q. word_of_int (fst q)),
      mpz_fits_slong_p = (\<lambda>z. - (2 ^ 63) \<le> z \<and> z < 2 ^ 63),
      mpz_get_si = (\<lambda>z. z),
      mpz_get_d = word_of_int,
      mpz_cmp = (\<lambda>y z. sgn (y - z)),
      mpz_sgn = sgn,
      mpz_tdiv_q = (\<lambda>y z. y sdiv z),
      mpz_tdiv_r = (\<lambda>y z. y smod z),
      mpz_fdiv_q = (\<lambda>y z. y div z),
      mpz_fdiv_r = (\<lambda>y z. y mod z),
      mpz_gcd = gcd,
      mpz_mul = (*),
      mpz_divexact = (div),
      mpz_abs = abs,
      mpz_add = (+),
      mpz_sub = (-),
      mpz_neg = uminus,
      mpz_ui_pow_ui = (\<lambda>b e. int b ^ e),
      mpz_get_str = dec,
      mpz_set_str = (\<lambda>s. case s of [] \<Rightarrow> None | c # cs \<Rightarrow>
        if c = CHR ''-'' then (if cs \<noteq> [] \<and> list_all is_digit cs then Some (- int (digits_val 0 cs)) else None)
        else if list_all is_digit s then Some (int (digits_val 0 s)) else None),
      mpz_get_str_base = (\<lambda>b z. (if z < 0 then ''-'' else []) @ base_digits b (nat \<bar>z\<bar>)),
      mpz_set_str_base = (\<lambda>b s. let neg = s \<noteq> [] \<and> hd s = CHR ''-''; ds = (if neg then tl s else s) in
        if ds \<noteq> [] \<and> list_all (is_digit_in b) ds then Some (if neg then - int (radix_val b 0 ds) else int (radix_val b 0 ds)) else None),
      mpz_sqrtrem = (\<lambda>z. let r = int (isqrt (nat z)) in (r, z - r * r)),
      mpz_cdiv_q = (\<lambda>y z. - (- y div z)),
      mpz_pow_ui = (\<lambda>z e. z ^ e),
      mpq_neg = (\<lambda>q. (- fst q, snd q)),
      mpq_inv = (\<lambda>q. if fst q < 0 then (- snd q, - fst q) else (snd q, fst q)),
      fp_add = (+),
      fp_sub = (-),
      fp_mul = (*),
      fp_div = (div),
      fp_lt = (<),
      fp_le = (\<le>),
      fp_eq = (=),
      fp_of_int64 = word_of_int,
      fp_to_int64 = sint,
      fp_abs = (\<lambda>x. x),
      fp_isnan = (\<lambda>x. False),
      fp_isinf = (\<lambda>x. False),
      printf_17g = (\<lambda>x. []),
      strtod = (\<lambda>s. (0, s)),
      libm = (\<lambda>f xs. 0) \<rparr>"

lemma mpq_val_Fract: "mpq_val q = Fract (fst q) (snd q)"
  by (simp add: mpq_val_def Fract_of_int_quotient)

lemma normalize_props:
  "mpq_canonical (Rat.normalize q) \<and> (snd q \<noteq> 0 \<longrightarrow> mpq_val (Rat.normalize q) = mpq_val q)"
proof -
  obtain a b where ab: "Rat.normalize q = (a, b)" by fastforce
  from normalize_denom_pos [OF ab] normalize_coprime [OF ab] have "mpq_canonical (a, b)"
    by (simp add: mpq_canonical_def)
  moreover have "Fract (fst q) (snd q) = Fract a b" if "snd q \<noteq> 0"
    using normalize_eq [of "fst q" "snd q" a b] ab by simp
  ultimately show ?thesis by (auto simp: ab mpq_val_Fract)
qed

interpretation ref: gmp_spec reference_arith
proof unfold_locales
  fix p q :: mpq and y z :: int
  note defs = reference_arith_def
  show "snd q \<noteq> 0 \<Longrightarrow> mpq_canonical (mpq_canonicalize reference_arith q) \<and>
      mpq_val (mpq_canonicalize reference_arith q) = mpq_val q"
    using normalize_props [of q] by (simp add: defs)
  show "ds \<noteq> [] \<Longrightarrow> list_all is_digit ds \<Longrightarrow> mpz_set_str reference_arith ds = Some (int (digits_val 0 ds)) \<and>
      mpz_set_str reference_arith (CHR ''-'' # ds) = Some (- int (digits_val 0 ds))" for ds
    by (cases ds) (auto simp: defs is_digit_def)
  assume p: "mpq_canonical p" and q: "mpq_canonical q"
  then have pos: "snd p > 0" "snd q > 0" by (simp_all add: mpq_canonical_def)
  show "mpq_canonical (mpq_add reference_arith p q) \<and>
      mpq_val (mpq_add reference_arith p q) = mpq_val p + mpq_val q"
    using normalize_props [of "(fst p * snd q + fst q * snd p, snd p * snd q)"] pos
    by (simp add: defs mpq_val_def field_simps)
  show "mpq_canonical (mpq_sub reference_arith p q) \<and>
      mpq_val (mpq_sub reference_arith p q) = mpq_val p - mpq_val q"
    using normalize_props [of "(fst p * snd q - fst q * snd p, snd p * snd q)"] pos
    by (simp add: defs mpq_val_def field_simps)
  show "mpq_canonical (mpq_mul reference_arith p q) \<and>
      mpq_val (mpq_mul reference_arith p q) = mpq_val p * mpq_val q"
    using normalize_props [of "(fst p * fst q, snd p * snd q)"] pos
    by (simp add: defs mpq_val_def)
  show "fst q \<noteq> 0 \<Longrightarrow> mpq_canonical (mpq_div reference_arith p q) \<and>
      mpq_val (mpq_div reference_arith p q) = mpq_val p / mpq_val q"
    using normalize_props [of "(fst p * snd q, snd p * fst q)"] pos
    by (simp add: defs mpq_val_def)
  have less: "mpq_val p < mpq_val q \<longleftrightarrow> fst p * snd q < fst q * snd p"
    using pos by (simp add: mpq_val_def field_simps flip: of_int_mult)
  have eq: "mpq_val p = mpq_val q \<longleftrightarrow> fst p * snd q = fst q * snd p"
    using pos by (simp add: mpq_val_def field_simps flip: of_int_mult)
  show "(mpq_cmp reference_arith p q < 0 \<longleftrightarrow> mpq_val p < mpq_val q) \<and>
      (mpq_cmp reference_arith p q = 0 \<longleftrightarrow> mpq_val p = mpq_val q)"
    unfolding less eq by (simp add: defs sgn_if)
  show "mpq_equal reference_arith p q \<longleftrightarrow> mpq_val p = mpq_val q"
    using mpq_val_inject [OF p q] by (auto simp: defs)
qed (auto simp: reference_arith_def sgn_if)

end
