(* ===== verification/VM_Monad.thy ===== *)
theory VM_Monad
  imports Value_Model Externals
begin

text \<open>
  How a C function of the VM runs: it takes the state and either returns a value (\<open>Done\<close>), leaves
  by \<open>longjmp\<close>, ends the process (\<open>Exit\<close>, the message on stderr and status 1), ends its actor
  thread (\<open>ActorExit\<close>), does something the language leaves undefined (\<open>Stuck\<close>), or uses up the
  fuel of the model (\<open>Timeout\<close>).  \<open>bindM\<close> is sequencing.  Below it: checked access to heap objects,
  registers and instructions, allocation, conditions and \<open>creme_abort\<close>, and \<open>creme_eqv\<close>.
\<close>

named_theorems run_simps \<open>evaluation of a C function of the VM\<close>

datatype 'a run =
    Done 'a vm
  | Longjmp nat vm
  | Exit bytes vm
  | ActorExit bytes vm
  | Stuck
  | Timeout

type_synonym 'a M = "vm \<Rightarrow> 'a run"

definition retM :: "'a \<Rightarrow> 'a M" where
  "retM x = (\<lambda>s. Done x s)"

definition bindM :: "'a M \<Rightarrow> ('a \<Rightarrow> 'b M) \<Rightarrow> 'b M" where
  "bindM m f = (\<lambda>s. case m s of
     Done x s' \<Rightarrow> f x s'
   | Longjmp b s' \<Rightarrow> Longjmp b s'
   | Exit msg s' \<Rightarrow> Exit msg s'
   | ActorExit msg s' \<Rightarrow> ActorExit msg s'
   | Stuck \<Rightarrow> Stuck
   | Timeout \<Rightarrow> Timeout)"

definition stuckM :: "'a M" where
  "stuckM = (\<lambda>s. Stuck)"

definition getM :: "(vm \<Rightarrow> 'a) \<Rightarrow> 'a M" where
  "getM f = (\<lambda>s. Done (f s) s)"

definition modM :: "(vm \<Rightarrow> vm) \<Rightarrow> unit M" where
  "modM f = (\<lambda>s. Done () (f s))"

text \<open>In the simplifier's normal form a plain return is the constructor itself.\<close>

lemma retM_Done [simp, run_simps]: "retM = Done"
  by (rule ext, rule ext) (simp add: retM_def)

lemma run_basic [simp, run_simps]:
  "stuckM s = Stuck"
  "getM f s = Done (f s) s"
  "modM g s = Done () (g s)"
  by (simp_all add: stuckM_def getM_def modM_def)

lemma bindM_run [simp, run_simps]:
  "m s = Done x s' \<Longrightarrow> bindM m f s = f x s'"
  "m s = Longjmp b s' \<Longrightarrow> bindM m f s = Longjmp b s'"
  "m s = Exit msg s' \<Longrightarrow> bindM m f s = Exit msg s'"
  "m s = ActorExit msg s' \<Longrightarrow> bindM m f s = ActorExit msg s'"
  "m s = Stuck \<Longrightarrow> bindM m f s = Stuck"
  "m s = Timeout \<Longrightarrow> bindM m f s = Timeout"
  by (simp_all add: bindM_def)

lemma bindM_basic [simp, run_simps]:
  "bindM (Done x) f = f x"
  "bindM stuckM f = stuckM"
  "bindM (getM g) f s = f (g s) s"
  "bindM (modM h) f' s = f' () (h s)"
  by (simp_all add: bindM_def stuckM_def getM_def modM_def)

lemma bindM_assoc: "bindM (bindM m f) g = bindM m (\<lambda>x. bindM (f x) g)"
  by (rule ext) (simp add: bindM_def split: run.split)

lemma bindM_retM: "bindM (retM x) f = f x"
  by simp

lemma bindM_ret [simp]: "bindM m Done = m"
  by (rule ext) (simp add: bindM_def split: run.split)

lemma bindM_Done_iff:
  "bindM m f s = Done y s'' \<longleftrightarrow> (\<exists>x s'. m s = Done x s' \<and> f x s' = Done y s'')"
  by (simp add: bindM_def split: run.split)

text \<open>Running an action over an array, left to right.\<close>

fun forM :: "'a list \<Rightarrow> ('a \<Rightarrow> unit M) \<Rightarrow> unit M" where
  "forM [] f = retM ()"
| "forM (x # xs) f = bindM (f x) (\<lambda>_. forM xs f)"

fun mapM :: "('a \<Rightarrow> 'b M) \<Rightarrow> 'a list \<Rightarrow> 'b list M" where
  "mapM f [] = retM []"
| "mapM f (x # xs) = bindM (f x) (\<lambda>y. bindM (mapM f xs) (\<lambda>ys. retM (y # ys)))"

subsection \<open>Checked access\<close>

definition indexM :: "'a list \<Rightarrow> int \<Rightarrow> 'a M" where
  "indexM xs i = (if 0 \<le> i \<and> nat i < length xs then retM (xs ! nat i) else stuckM)"

definition derefM :: "(vm \<Rightarrow> 'a list) \<Rightarrow> nat \<Rightarrow> 'a M" where
  "derefM sel a = (\<lambda>s. if a < length (sel s) then Done (sel s ! a) s else Stuck)"

lemma indexM_run [simp, run_simps]:
  "0 \<le> i \<Longrightarrow> nat i < length xs \<Longrightarrow> indexM xs i = retM (xs ! nat i)"
  by (simp add: indexM_def)

lemma derefM_run [simp, run_simps]:
  "a < length (sel s) \<Longrightarrow> derefM sel a s = Done (sel s ! a) s"
  by (simp add: derefM_def)

definition get_stack :: "int \<Rightarrow> val M" where
  "get_stack i = (\<lambda>s. if 0 \<le> i \<and> i < int (vm_stack_cap s) then Done (vm_stack s (nat i)) s else Stuck)"

definition set_stack :: "int \<Rightarrow> val \<Rightarrow> unit M" where
  "set_stack i v = (\<lambda>s. if 0 \<le> i \<and> i < int (vm_stack_cap s)
     then Done () (s\<lparr>vm_stack := (vm_stack s)(nat i := v)\<rparr>) else Stuck)"

lemma stack_run [simp, run_simps]:
  "0 \<le> i \<Longrightarrow> i < int (vm_stack_cap s) \<Longrightarrow> get_stack i s = Done (vm_stack s (nat i)) s"
  "0 \<le> i \<Longrightarrow> i < int (vm_stack_cap s) \<Longrightarrow>
     set_stack i v s = Done () (s\<lparr>vm_stack := (vm_stack s)(nat i := v)\<rparr>)"
  by (simp_all add: get_stack_def set_stack_def)

text \<open>The topmost frame, \<open>&vm->frames[vm->depth - 1]\<close>, and an update of it.\<close>

definition top_frame :: "frame M" where
  "top_frame = (\<lambda>s. if 0 < vm_depth s \<and> vm_depth s \<le> vm_frames_cap s
     then Done (vm_frames s (vm_depth s - 1)) s else Stuck)"

definition upd_frame :: "nat \<Rightarrow> (frame \<Rightarrow> frame) \<Rightarrow> vm \<Rightarrow> vm" where
  "upd_frame i f s = s\<lparr>vm_frames := (vm_frames s)(i := f (vm_frames s i))\<rparr>"

definition mod_top :: "(frame \<Rightarrow> frame) \<Rightarrow> unit M" where
  "mod_top f = (\<lambda>s. if 0 < vm_depth s \<and> vm_depth s \<le> vm_frames_cap s
     then Done () (upd_frame (vm_depth s - 1) f s) else Stuck)"

lemma top_run [simp, run_simps]:
  "0 < vm_depth s \<Longrightarrow> vm_depth s \<le> vm_frames_cap s \<Longrightarrow> top_frame s = Done (vm_frames s (vm_depth s - 1)) s"
  "0 < vm_depth s \<Longrightarrow> vm_depth s \<le> vm_frames_cap s \<Longrightarrow>
     mod_top f s = Done () (upd_frame (vm_depth s - 1) f s)"
  by (simp_all add: top_frame_def mod_top_def)

definition get_global :: "int \<Rightarrow> global_cell M" where
  "get_global i = (\<lambda>s. if 0 \<le> i \<and> i < int CREME_GLOBALS_CAP then Done (vm_globals s (nat i)) s else Stuck)"

definition set_global :: "int \<Rightarrow> global_cell \<Rightarrow> unit M" where
  "set_global i c = (\<lambda>s. if 0 \<le> i \<and> i < int CREME_GLOBALS_CAP
     then Done () (s\<lparr>vm_globals := (vm_globals s)(nat i := c)\<rparr>) else Stuck)"

lemma global_run [simp, run_simps]:
  "0 \<le> i \<Longrightarrow> i < int CREME_GLOBALS_CAP \<Longrightarrow> get_global i s = Done (vm_globals s (nat i)) s"
  "0 \<le> i \<Longrightarrow> i < int CREME_GLOBALS_CAP \<Longrightarrow>
     set_global i c s = Done () (s\<lparr>vm_globals := (vm_globals s)(nat i := c)\<rparr>)"
  by (simp_all add: get_global_def set_global_def)

subsection \<open>Allocation\<close>

definition creme_cons :: "val \<Rightarrow> val \<Rightarrow> val M" where
  "creme_cons car cdr = (\<lambda>s. Done (VPair (length (h_pairs s))) (s\<lparr>h_pairs := h_pairs s @ [(car, cdr)]\<rparr>))"

definition new_str :: "bytes \<Rightarrow> val M" where
  "new_str bs = (\<lambda>s. Done (VStr (length (h_strs s))) (s\<lparr>h_strs := h_strs s @ [bs]\<rparr>))"

definition new_vector :: "val list \<Rightarrow> val M" where
  "new_vector vs = (\<lambda>s. Done (VVector (length (h_vecs s))) (s\<lparr>h_vecs := h_vecs s @ [vs]\<rparr>))"

definition new_record :: "nat \<Rightarrow> val list \<Rightarrow> val M" where
  "new_record ty fs = (\<lambda>s. Done (VRecord (length (h_records s)))
     (s\<lparr>h_records := h_records s @ [\<lparr> rec_type = ty, rec_fields = fs \<rparr>]\<rparr>))"

definition new_values :: "val list \<Rightarrow> val M" where
  "new_values vs = (\<lambda>s. Done (VValues (length (h_values s))) (s\<lparr>h_values := h_values s @ [vs]\<rparr>))"

definition v_box :: "box \<Rightarrow> int \<Rightarrow> val M" where
  "v_box b kind = (\<lambda>s. Done (VBox kind (length (h_boxes s))) (s\<lparr>h_boxes := h_boxes s @ [b]\<rparr>))"

text \<open>The backward loops that build a list from an array.\<close>

fun cons_list :: "val list \<Rightarrow> val \<Rightarrow> val M" where
  "cons_list [] tail = retM tail"
| "cons_list (v # vs) tail = bindM (cons_list vs tail) (\<lambda>r. creme_cons v r)"

lemma alloc_run [simp, run_simps]:
  "creme_cons a d s = Done (VPair (length (h_pairs s))) (s\<lparr>h_pairs := h_pairs s @ [(a, d)]\<rparr>)"
  "new_str bs s = Done (VStr (length (h_strs s))) (s\<lparr>h_strs := h_strs s @ [bs]\<rparr>)"
  "new_vector vs s = Done (VVector (length (h_vecs s))) (s\<lparr>h_vecs := h_vecs s @ [vs]\<rparr>)"
  "new_record ty fs s = Done (VRecord (length (h_records s)))
     (s\<lparr>h_records := h_records s @ [\<lparr> rec_type = ty, rec_fields = fs \<rparr>]\<rparr>)"
  "new_values vs s = Done (VValues (length (h_values s))) (s\<lparr>h_values := h_values s @ [vs]\<rparr>)"
  "v_box b kind s = Done (VBox kind (length (h_boxes s))) (s\<lparr>h_boxes := h_boxes s @ [b]\<rparr>)"
  by (simp_all add: creme_cons_def new_str_def new_vector_def new_record_def new_values_def v_box_def)

subsection \<open>Conditions and \<open>creme_abort\<close>\<close>

definition get_condition_type :: "nat M" where
  "get_condition_type = (\<lambda>s. case vm_condition_type s of
     Some a \<Rightarrow> Done a s
   | None \<Rightarrow> (let a = length (h_record_types s) in
       Done a (s\<lparr>h_record_types := h_record_types s @
           [\<lparr> rty_name = VSym ''condition'', rty_field_names = [VSym ''message'', VSym ''irritants''] \<rparr>],
         vm_condition_type := Some a\<rparr>)))"

definition creme_make_condition :: "bytes \<Rightarrow> val \<Rightarrow> val M" where
  "creme_make_condition msg irritants =
     bindM get_condition_type (\<lambda>ty.
     bindM (new_str msg) (\<lambda>m.
     new_record ty [m, irritants]))"

definition creme_is_condition :: "val \<Rightarrow> bool M" where
  "creme_is_condition v =
     (case v of
        VRecord a \<Rightarrow> bindM (derefM h_records a) (\<lambda>r.
          bindM get_condition_type (\<lambda>ty. retM (rec_type r = ty)))
      | _ \<Rightarrow> retM False)"

text \<open>\<open>--vm->n_handlers\<close> with no handler installed would index before the array.\<close>

definition creme_raise_condition :: "val \<Rightarrow> 'a M" where
  "creme_raise_condition condition = (\<lambda>s.
     if vm_n_handlers s = 0 then Stuck
     else (let idx = vm_n_handlers s - 1 in
       Longjmp (gh_buf (vm_handlers s idx))
         (s\<lparr>vm_n_handlers := idx, vm_pending_condition := condition, vm_pending_handler_idx := idx\<rparr>)))"

definition creme_abort :: "bytes \<Rightarrow> 'a M" where
  "creme_abort msg = (\<lambda>s.
     let buf = take 1023 msg in
     if vm_n_handlers s > 0 then bindM (creme_make_condition buf VNil) creme_raise_condition s
     else if vm_has_actor_unwind s then ActorExit buf s
     else Exit buf s)"

text \<open>A pure computation that may call \<open>creme_abort\<close>, run in the VM.\<close>

definition liftR :: "'a res \<Rightarrow> 'a M" where
  "liftR r = (case r of Inr x \<Rightarrow> retM x | Inl (Abort msg) \<Rightarrow> creme_abort msg | Inl Undef \<Rightarrow> stuckM)"

lemma liftR_simps [simp, run_simps]:
  "liftR (Inr x) = retM x"
  "liftR (Inl (Abort msg)) = creme_abort msg"
  "liftR (Inl Undef) = stuckM"
  by (simp_all add: liftR_def)

definition guardM :: "bool \<Rightarrow> bytes \<Rightarrow> unit M" where
  "guardM b msg = (if b then creme_abort msg else retM ())"

lemma guardM_simps [simp, run_simps]:
  "guardM False msg = retM ()"
  "guardM True msg = creme_abort msg"
  by (simp_all add: guardM_def)

text \<open>The arity checks of embed.h.\<close>

definition creme_check_min_args :: "int \<Rightarrow> int \<Rightarrow> bytes \<Rightarrow> unit M" where
  "creme_check_min_args nargs mn who =
     guardM (nargs < mn) (who @ '': expected at least '' @ dec mn @ '' argument'' @
       (if mn = 1 then '''' else ''s'') @ '', got '' @ dec nargs)"

definition creme_check_exact_args :: "int \<Rightarrow> int \<Rightarrow> bytes \<Rightarrow> unit M" where
  "creme_check_exact_args nargs exact who =
     guardM (nargs \<noteq> exact) (who @ '': expected exactly '' @ dec exact @ '' argument'' @
       (if exact = 1 then '''' else ''s'') @ '', got '' @ dec nargs)"

lemma check_min_ok [simp, run_simps]: "mn \<le> nargs \<Longrightarrow> creme_check_min_args nargs mn who = retM ()"
  by (simp add: creme_check_min_args_def)

lemma check_exact_ok [simp, run_simps]: "creme_check_exact_args nargs nargs who = retM ()"
  by (simp add: creme_check_exact_args_def)

subsection \<open>\<open>creme_eqv\<close>\<close>

text \<open>The switch has no case for \<open>T_MACRO\<close> and \<open>T_CONTINUATION\<close>: its default is 0.\<close>

primrec creme_eqv :: "arith \<Rightarrow> val \<Rightarrow> val \<Rightarrow> bool M" where
  "creme_eqv A VNil v = retM (v = VNil)"
| "creme_eqv A (VBool x) v = retM (v = VBool x)"
| "creme_eqv A (VInt i) v = retM (v = VInt i)"
| "creme_eqv A (VFloat w) v = retM (v = VFloat w)"
| "creme_eqv A (VSym s) v = retM (v = VSym s)"
| "creme_eqv A (VStr p) v =
     (case v of
        VStr q \<Rightarrow> bindM (derefM h_strs p) (\<lambda>x. bindM (derefM h_strs q) (\<lambda>y.
          retM (length x = length y \<and> x = y)))
      | _ \<Rightarrow> retM False)"
| "creme_eqv A (VChar c) v = retM (v = VChar c)"
| "creme_eqv A (VPair p) v = retM (v = VPair p)"
| "creme_eqv A (VVector p) v = retM (v = VVector p)"
| "creme_eqv A (VBytevector p) v = retM (v = VBytevector p)"
| "creme_eqv A (VPromise p) v = retM (v = VPromise p)"
| "creme_eqv A (VValues p) v = retM (v = VValues p)"
| "creme_eqv A (VPort p) v = retM (v = VPort p)"
| "creme_eqv A (VClosure p) v = retM (v = VClosure p)"
| "creme_eqv A (VCaseClosure p) v = retM (v = VCaseClosure p)"
| "creme_eqv A (VRecordType p) v = retM (v = VRecordType p)"
| "creme_eqv A (VRecord p) v = retM (v = VRecord p)"
| "creme_eqv A (VRecordCallable p) v = retM (v = VRecordCallable p)"
| "creme_eqv A (VBuiltin f) v = retM (v = VBuiltin f)"
| "creme_eqv A (VParameter p) v = retM (v = VParameter p)"
| "creme_eqv A (VBox k p) v = (case v of VBox l q \<Rightarrow> retM (p = q) | _ \<Rightarrow> retM False)"
| "creme_eqv A (VMacro p) v = retM False"
| "creme_eqv A (VContinuation p) v = retM False"
| "creme_eqv A (VBigint z) v = (case v of VBigint y \<Rightarrow> retM (mpz_cmp A z y = 0) | _ \<Rightarrow> retM False)"
| "creme_eqv A (VRational n d) v =
     (case v of VRational n' d' \<Rightarrow> retM (mpq_equal A (n, d) (n', d')) | _ \<Rightarrow> retM False)"
| "creme_eqv A (VComplex re im) v =
     (case v of
        VComplex re' im' \<Rightarrow> bindM (creme_eqv A re re') (\<lambda>x.
          if x then creme_eqv A im im' else retM False)
      | _ \<Rightarrow> retM False)"

end
