(* ===== verification/Numeric.thy ===== *)
theory Numeric
  imports VM_Monad
begin

text \<open>
  The numeric tower of icecreme/vm.c (\<open>as_double\<close> to \<open>fast_eq\<close>) and the integer builtins of
  icecreme/builtins.c.  Every function is pure but for \<open>creme_abort\<close>, so it returns a \<open>res\<close>;
  \<open>Inl Undef\<close> is C arithmetic the language leaves undefined (division by zero, and
  \<open>INT64_MIN / -1\<close>, whose quotient does not fit).  The components of a \<open>T_COMPLEX\<close> are real
  (value.h); \<open>num_div\<close> of two complex numbers divides two such components, \<open>real_div\<close>.
\<close>

subsection \<open>Representation\<close>

fun as_double :: "arith \<Rightarrow> val \<Rightarrow> bytes \<Rightarrow> double res" where
  "as_double A (VInt i) who = Inr (fp_of_int64 A i)"
| "as_double A (VFloat f) who = Inr f"
| "as_double A (VBigint z) who = Inr (mpz_get_d A z)"
| "as_double A (VRational n d) who = Inr (mpq_get_d A (n, d))"
| "as_double A v who = Inl (Abort (who @ '': not a real number''))"

fun is_exact_real :: "val \<Rightarrow> bool" where
  "is_exact_real (VInt i) = True"
| "is_exact_real (VBigint z) = True"
| "is_exact_real (VRational n d) = True"
| "is_exact_real v = False"

fun is_int :: "val \<Rightarrow> bool" where
  "is_int (VInt i) = True"
| "is_int v = False"

fun is_float :: "val \<Rightarrow> bool" where
  "is_float (VFloat f) = True"
| "is_float v = False"

fun is_complex :: "val \<Rightarrow> bool" where
  "is_complex (VComplex re im) = True"
| "is_complex v = False"

fun int_of :: "val \<Rightarrow> int" where
  "int_of (VInt i) = i"
| "int_of v = 0"

fun value_to_mpq :: "val \<Rightarrow> mpq res" where
  "value_to_mpq (VInt i) = Inr (i, 1)"
| "value_to_mpq (VBigint z) = Inr (z, 1)"
| "value_to_mpq (VRational n d) = Inr (n, d)"
| "value_to_mpq v =
     Inl (Abort ''icecreme: value_to_mpq called on a non-exact value (internal dispatch bug)'')"

definition make_bigint_from_mpz :: "arith \<Rightarrow> int \<Rightarrow> val" where
  "make_bigint_from_mpz A z = (if mpz_fits_slong_p A z then VInt (mpz_get_si A z) else VBigint z)"

definition make_rational_from_mpq :: "arith \<Rightarrow> mpq \<Rightarrow> val" where
  "make_rational_from_mpq A q0 =
     (let q = mpq_canonicalize A q0 in
      if mpz_cmp A (snd q) 1 = 0 then make_bigint_from_mpz A (fst q)
      else VRational (fst q) (snd q))"

definition make_complex :: "val \<Rightarrow> val \<Rightarrow> val" where
  "make_complex re im = (if im = VInt 0 then re else VComplex re im)"

fun to_complex_value :: "val \<Rightarrow> val" where
  "to_complex_value (VComplex re im) = VComplex re im"
| "to_complex_value v = VComplex v (VInt 0)"

fun cplx_real :: "val \<Rightarrow> val" where
  "cplx_real (VComplex re im) = re"
| "cplx_real v = v"

fun cplx_imag :: "val \<Rightarrow> val" where
  "cplx_imag (VComplex re im) = im"
| "cplx_imag v = VInt 0"

lemma cplx_to_complex [simp]:
  "cplx_real (to_complex_value v) = cplx_real v"
  "cplx_imag (to_complex_value v) = cplx_imag v"
  by (cases v; simp)+

lemma size_cplx [termination_simp]:
  "is_complex v \<Longrightarrow> size (cplx_real v) < size v" "is_complex v \<Longrightarrow> size (cplx_imag v) < size v"
  "size (cplx_real v) \<le> size v" "size (cplx_imag v) \<le> size v"
  by (cases v; simp)+

text \<open>\<open>__builtin_add_overflow\<close> and its kind: the result, or \<open>None\<close> when it does not fit.\<close>

definition fit64 :: "int \<Rightarrow> int option" where
  "fit64 r = (if int64 r then Some r else None)"

subsection \<open>Addition, subtraction, multiplication\<close>

text \<open>The exact path the three share: two quotients through one GMP operation.\<close>

definition exact_op :: "arith \<Rightarrow> (mpq \<Rightarrow> mpq \<Rightarrow> mpq) \<Rightarrow> val \<Rightarrow> val \<Rightarrow> val res" where
  "exact_op A f x y = rbind (value_to_mpq x) (\<lambda>qx. rbind (value_to_mpq y) (\<lambda>qy.
     Inr (make_rational_from_mpq A (f qx qy))))"

definition float_op :: "arith \<Rightarrow> (double \<Rightarrow> double \<Rightarrow> double) \<Rightarrow> bytes \<Rightarrow> val \<Rightarrow> val \<Rightarrow> val res" where
  "float_op A f who x y = rbind (as_double A x who) (\<lambda>dx. rbind (as_double A y who) (\<lambda>dy.
     Inr (VFloat (f dx dy))))"

function num_add :: "arith \<Rightarrow> val \<Rightarrow> val \<Rightarrow> val res" where
  "num_add A x y =
     (case (if is_int x \<and> is_int y then fit64 (int_of x + int_of y) else None) of
        Some r \<Rightarrow> Inr (VInt r)
      | None \<Rightarrow>
          if is_complex x \<or> is_complex y then
            rbind (num_add A (cplx_real x) (cplx_real y)) (\<lambda>re.
            rbind (num_add A (cplx_imag x) (cplx_imag y)) (\<lambda>im. Inr (make_complex re im)))
          else if is_float x \<or> is_float y then float_op A (fp_add A) ''+'' x y
          else if is_exact_real x \<and> is_exact_real y then exact_op A (mpq_add A) x y
          else float_op A (fp_add A) ''+'' x y)"
  by pat_completeness auto

text \<open>A component of a number is never larger, and smaller when the number is complex.\<close>

lemma size_cplx_pairs:
  assumes "is_complex x \<or> is_complex y" "f \<in> {cplx_real, cplx_imag}" "g \<in> {cplx_real, cplx_imag}"
  shows "size (f x) + size (g y) < size x + size y"
  using assms by (cases x; cases y) auto

termination num_add
  by (relation "measure (\<lambda>(A, x, y). size x + size y)")
    (auto simp: size_cplx_pairs split: if_splits)

declare num_add.simps [simp del]

function num_sub :: "arith \<Rightarrow> val \<Rightarrow> val \<Rightarrow> val res" where
  "num_sub A x y =
     (case (if is_int x \<and> is_int y then fit64 (int_of x - int_of y) else None) of
        Some r \<Rightarrow> Inr (VInt r)
      | None \<Rightarrow>
          if is_complex x \<or> is_complex y then
            rbind (num_sub A (cplx_real x) (cplx_real y)) (\<lambda>re.
            rbind (num_sub A (cplx_imag x) (cplx_imag y)) (\<lambda>im. Inr (make_complex re im)))
          else if is_float x \<or> is_float y then float_op A (fp_sub A) ''-'' x y
          else if is_exact_real x \<and> is_exact_real y then exact_op A (mpq_sub A) x y
          else float_op A (fp_sub A) ''-'' x y)"
  by pat_completeness auto
termination
  by (relation "measure (\<lambda>(A, x, y). size x + size y)")
    (auto simp: size_cplx_pairs split: if_splits)

declare num_sub.simps [simp del]

function num_mul :: "arith \<Rightarrow> val \<Rightarrow> val \<Rightarrow> val res" where
  "num_mul A x y =
     (case (if is_int x \<and> is_int y then fit64 (int_of x * int_of y) else None) of
        Some r \<Rightarrow> Inr (VInt r)
      | None \<Rightarrow>
          if is_complex x \<or> is_complex y then
            rbind (num_mul A (cplx_real x) (cplx_real y)) (\<lambda>rr.
            rbind (num_mul A (cplx_imag x) (cplx_imag y)) (\<lambda>ii.
            rbind (num_sub A rr ii) (\<lambda>re.
            rbind (num_mul A (cplx_real x) (cplx_imag y)) (\<lambda>ri.
            rbind (num_mul A (cplx_imag x) (cplx_real y)) (\<lambda>ir.
            rbind (num_add A ri ir) (\<lambda>im. Inr (make_complex re im)))))))
          else if is_float x \<or> is_float y then float_op A (fp_mul A) ''*'' x y
          else if is_exact_real x \<and> is_exact_real y then exact_op A (mpq_mul A) x y
          else float_op A (fp_mul A) ''*'' x y)"
  by pat_completeness auto
termination
  by (relation "measure (\<lambda>(A, x, y). size x + size y)")
    (auto simp: size_cplx_pairs split: if_splits)

declare num_mul.simps [simp del]

subsection \<open>Division\<close>

text \<open>\<open>num_div\<close> below its test for a complex operand.\<close>

definition real_div :: "arith \<Rightarrow> val \<Rightarrow> val \<Rightarrow> val res" where
  "real_div A x y =
     (if is_exact_real x \<and> is_exact_real y then
        rbind (value_to_mpq x) (\<lambda>qx. rbind (value_to_mpq y) (\<lambda>qy.
        rbind (abort_if (mpq_sgn A qy = 0) ''/: division by zero'') (\<lambda>_.
        Inr (make_rational_from_mpq A (mpq_div A qx qy)))))
      else
        rbind (as_double A x ''/'') (\<lambda>dx. rbind (as_double A y ''/'') (\<lambda>dy.
        rbind (abort_if (fp_eq A dy 0) ''/: division by zero'') (\<lambda>_.
        Inr (VFloat (fp_div A dx dy))))))"

definition complex_div :: "arith \<Rightarrow> val \<Rightarrow> val \<Rightarrow> val res" where
  "complex_div A a b =
     (let ar = cplx_real a; ai = cplx_imag a; br = cplx_real b; bi = cplx_imag b in
      rbind (num_mul A br br) (\<lambda>brbr. rbind (num_mul A bi bi) (\<lambda>bibi.
      rbind (num_add A brbr bibi) (\<lambda>denom.
      rbind (as_double A denom ''/'') (\<lambda>dd.
      rbind (abort_if (fp_eq A dd 0) ''/: division by zero'') (\<lambda>_.
      rbind (num_mul A ar br) (\<lambda>arbr. rbind (num_mul A ai bi) (\<lambda>aibi.
      rbind (num_add A arbr aibi) (\<lambda>re.
      rbind (num_mul A ai br) (\<lambda>aibr. rbind (num_mul A ar bi) (\<lambda>arbi.
      rbind (num_sub A aibr arbi) (\<lambda>im.
      rbind (real_div A re denom) (\<lambda>qre. rbind (real_div A im denom) (\<lambda>qim.
      Inr (make_complex qre qim)))))))))))))))"

definition num_div :: "arith \<Rightarrow> val \<Rightarrow> val \<Rightarrow> val res" where
  "num_div A x y = (if is_complex x \<or> is_complex y then complex_div A x y else real_div A x y)"

subsection \<open>Comparison\<close>

definition real_cmp :: "arith \<Rightarrow> (int \<Rightarrow> int \<Rightarrow> bool) \<Rightarrow> (double \<Rightarrow> double \<Rightarrow> bool) \<Rightarrow> bytes
    \<Rightarrow> val \<Rightarrow> val \<Rightarrow> bool res" where
  "real_cmp A ord ford who x y =
     (if is_int x \<and> is_int y then Inr (ord (int_of x) (int_of y))
      else if is_exact_real x \<and> is_exact_real y then
        rbind (value_to_mpq x) (\<lambda>qx. rbind (value_to_mpq y) (\<lambda>qy. Inr (ord (mpq_cmp A qx qy) 0)))
      else rbind (as_double A x who) (\<lambda>dx. rbind (as_double A y who) (\<lambda>dy. Inr (ford dx dy))))"

definition num_lt :: "arith \<Rightarrow> val \<Rightarrow> val \<Rightarrow> bool res" where
  "num_lt A = real_cmp A (<) (fp_lt A) ''<''"

definition num_le :: "arith \<Rightarrow> val \<Rightarrow> val \<Rightarrow> bool res" where
  "num_le A = real_cmp A (\<le>) (fp_le A) ''<=''"

definition num_gt :: "arith \<Rightarrow> val \<Rightarrow> val \<Rightarrow> bool res" where
  "num_gt A = real_cmp A (>) (\<lambda>x y. fp_lt A y x) ''>''"

definition num_ge :: "arith \<Rightarrow> val \<Rightarrow> val \<Rightarrow> bool res" where
  "num_ge A = real_cmp A (\<ge>) (\<lambda>x y. fp_le A y x) ''>=''"

text \<open>The two component comparisons are joined by \<open>&&\<close>: the second runs only if the first holds.\<close>

function num_eq :: "arith \<Rightarrow> val \<Rightarrow> val \<Rightarrow> bool res" where
  "num_eq A x y =
     (if is_int x \<and> is_int y then Inr (int_of x = int_of y)
      else if is_complex x \<or> is_complex y then
        rbind (num_eq A (cplx_real x) (cplx_real y)) (\<lambda>r.
          if r then num_eq A (cplx_imag x) (cplx_imag y) else Inr False)
      else if is_exact_real x \<and> is_exact_real y then
        rbind (value_to_mpq x) (\<lambda>qx. rbind (value_to_mpq y) (\<lambda>qy. Inr (mpq_equal A qx qy)))
      else rbind (as_double A x ''='') (\<lambda>dx. rbind (as_double A y ''='') (\<lambda>dy. Inr (fp_eq A dx dy))))"
  by pat_completeness auto
termination
  by (relation "measure (\<lambda>(A, x, y). size x + size y)")
    (auto simp: size_cplx_pairs split: if_splits)

declare num_eq.simps [simp del]

subsection \<open>The inlined fast paths\<close>

definition fast_add :: "arith \<Rightarrow> val \<Rightarrow> val \<Rightarrow> val res" where
  "fast_add A x y =
     (case (if is_int x \<and> is_int y then fit64 (int_of x + int_of y) else None) of
        Some r \<Rightarrow> Inr (VInt r) | None \<Rightarrow> num_add A x y)"

definition fast_sub :: "arith \<Rightarrow> val \<Rightarrow> val \<Rightarrow> val res" where
  "fast_sub A x y =
     (case (if is_int x \<and> is_int y then fit64 (int_of x - int_of y) else None) of
        Some r \<Rightarrow> Inr (VInt r) | None \<Rightarrow> num_sub A x y)"

definition fast_mul :: "arith \<Rightarrow> val \<Rightarrow> val \<Rightarrow> val res" where
  "fast_mul A x y =
     (case (if is_int x \<and> is_int y then fit64 (int_of x * int_of y) else None) of
        Some r \<Rightarrow> Inr (VInt r) | None \<Rightarrow> num_mul A x y)"

definition fast_lt :: "arith \<Rightarrow> val \<Rightarrow> val \<Rightarrow> bool res" where
  "fast_lt A x y = (if is_int x \<and> is_int y then Inr (int_of x < int_of y) else num_lt A x y)"

definition fast_le :: "arith \<Rightarrow> val \<Rightarrow> val \<Rightarrow> bool res" where
  "fast_le A x y = (if is_int x \<and> is_int y then Inr (int_of x \<le> int_of y) else num_le A x y)"

definition fast_gt :: "arith \<Rightarrow> val \<Rightarrow> val \<Rightarrow> bool res" where
  "fast_gt A x y = (if is_int x \<and> is_int y then Inr (int_of x > int_of y) else num_gt A x y)"

definition fast_ge :: "arith \<Rightarrow> val \<Rightarrow> val \<Rightarrow> bool res" where
  "fast_ge A x y = (if is_int x \<and> is_int y then Inr (int_of x \<ge> int_of y) else num_ge A x y)"

definition fast_eq :: "arith \<Rightarrow> val \<Rightarrow> val \<Rightarrow> bool res" where
  "fast_eq A x y = (if is_int x \<and> is_int y then Inr (int_of x = int_of y) else num_eq A x y)"

end
