(* ===== verification/Num_Builtins.thy ===== *)
theory Num_Builtins
  imports Numeric
begin

text \<open>
  The arithmetic builtins of icecreme/builtins.c: the folds of \<open>+ - * /\<close> and the comparison chains
  over the numeric tower, and the integer division family with its GMP path.  A builtin takes the
  array of its arguments; \<open>nargs\<close> is its length.  C division truncates (\<open>sdiv\<close>, \<open>smod\<close>), and
  is undefined for a zero divisor and for \<open>INT64_MIN / -1\<close>.
\<close>

definition i64_div :: "int \<Rightarrow> int \<Rightarrow> int res" where
  "i64_div a b = (if b = 0 \<or> (a = INT64_MIN \<and> b = -1) then Inl Undef else Inr (a sdiv b))"

definition i64_mod :: "int \<Rightarrow> int \<Rightarrow> int res" where
  "i64_mod a b = (if b = 0 \<or> (a = INT64_MIN \<and> b = -1) then Inl Undef else Inr (a smod b))"

definition i64_neg :: "int \<Rightarrow> int res" where
  "i64_neg a = (if a = INT64_MIN then Inl Undef else Inr (- a))"

subsection \<open>Folds and comparison chains\<close>

fun fold_op :: "(val \<Rightarrow> val \<Rightarrow> val res) \<Rightarrow> val \<Rightarrow> val list \<Rightarrow> val res" where
  "fold_op f acc [] = Inr acc"
| "fold_op f acc (v # vs) = rbind (f acc v) (\<lambda>r. fold_op f r vs)"

fun chain_op :: "(val \<Rightarrow> val \<Rightarrow> bool res) \<Rightarrow> val list \<Rightarrow> val res" where
  "chain_op f (x # y # vs) = rbind (f x y) (\<lambda>ok. if ok then chain_op f (y # vs) else Inr (VBool False))"
| "chain_op f vs = Inr (VBool True)"

definition nargs_of :: "val list \<Rightarrow> int" where
  "nargs_of args = int (length args)"

definition bi_plus :: "arith \<Rightarrow> val list \<Rightarrow> val M" where
  "bi_plus A args = liftR (fold_op (num_add A) (VInt 0) args)"

definition bi_minus :: "arith \<Rightarrow> val list \<Rightarrow> val M" where
  "bi_minus A args =
     bindM (creme_check_min_args (nargs_of args) 1 ''-'') (\<lambda>_.
     if length args = 1 then liftR (num_sub A (VInt 0) (hd args))
     else liftR (fold_op (num_sub A) (hd args) (tl args)))"

definition bi_star :: "arith \<Rightarrow> val list \<Rightarrow> val M" where
  "bi_star A args = liftR (fold_op (num_mul A) (VInt 1) args)"

definition bi_slash :: "arith \<Rightarrow> val list \<Rightarrow> val M" where
  "bi_slash A args =
     bindM (creme_check_min_args (nargs_of args) 1 ''/'') (\<lambda>_.
     if length args = 1 then liftR (num_div A (VInt 1) (hd args))
     else liftR (fold_op (num_div A) (hd args) (tl args)))"

definition bi_num_lt :: "arith \<Rightarrow> val list \<Rightarrow> val M" where
  "bi_num_lt A args =
     bindM (creme_check_min_args (nargs_of args) 1 ''<'') (\<lambda>_. liftR (chain_op (num_lt A) args))"

definition bi_num_gt :: "arith \<Rightarrow> val list \<Rightarrow> val M" where
  "bi_num_gt A args =
     bindM (creme_check_min_args (nargs_of args) 1 ''>'') (\<lambda>_. liftR (chain_op (num_gt A) args))"

definition bi_num_le :: "arith \<Rightarrow> val list \<Rightarrow> val M" where
  "bi_num_le A args =
     bindM (creme_check_min_args (nargs_of args) 1 ''<='') (\<lambda>_. liftR (chain_op (num_le A) args))"

definition bi_num_ge :: "arith \<Rightarrow> val list \<Rightarrow> val M" where
  "bi_num_ge A args =
     bindM (creme_check_min_args (nargs_of args) 1 ''>='') (\<lambda>_. liftR (chain_op (num_ge A) args))"

definition bi_num_eq :: "arith \<Rightarrow> val list \<Rightarrow> val M" where
  "bi_num_eq A args =
     bindM (creme_check_min_args (nargs_of args) 1 ''='') (\<lambda>_. liftR (chain_op (num_eq A) args))"

subsection \<open>Integer division\<close>

fun value_to_mpz :: "val \<Rightarrow> bytes \<Rightarrow> int res" where
  "value_to_mpz (VInt i) who = Inr i"
| "value_to_mpz (VBigint z) who = Inr z"
| "value_to_mpz v who = Inl (Abort (who @ '': expected an integer, got a non-integer value''))"

text \<open>What the four division builtins share: two integers, the \<open>int64_t\<close> computation when both
  are fixnums, one GMP function otherwise.\<close>

definition int_division :: "arith \<Rightarrow> bytes \<Rightarrow> (int \<Rightarrow> int \<Rightarrow> int res) \<Rightarrow> (int \<Rightarrow> int \<Rightarrow> int)
    \<Rightarrow> val list \<Rightarrow> val res" where
  "int_division A who small big args =
     rbind (abort_if (length args \<noteq> 2) (who @ '': expected two integers'')) (\<lambda>_.
     let x = args ! 0; y = args ! 1 in
     if is_int x \<and> is_int y then
       rbind (abort_if (int_of y = 0) (who @ '': division by zero'')) (\<lambda>_.
       rbind (small (int_of x) (int_of y)) (\<lambda>r. Inr (VInt r)))
     else
       rbind (value_to_mpz x who) (\<lambda>a. rbind (value_to_mpz y who) (\<lambda>b.
       rbind (abort_if (mpz_sgn A b = 0) (who @ '': division by zero'')) (\<lambda>_.
       Inr (make_bigint_from_mpz A (big a b))))))"

definition quotient_res :: "arith \<Rightarrow> val list \<Rightarrow> val res" where
  "quotient_res A = int_division A ''quotient'' i64_div (mpz_tdiv_q A)"

definition remainder_res :: "arith \<Rightarrow> val list \<Rightarrow> val res" where
  "remainder_res A = int_division A ''remainder'' i64_mod (mpz_tdiv_r A)"

text \<open>The correction of the truncated remainder to the sign of the divisor.\<close>

definition floor_mod :: "int \<Rightarrow> int \<Rightarrow> int res" where
  "floor_mod a b = rbind (i64_mod a b) (\<lambda>r.
     Inr (if r \<noteq> 0 \<and> ((r < 0) \<noteq> (b < 0)) then r + b else r))"

definition modulo_res :: "arith \<Rightarrow> val list \<Rightarrow> val res" where
  "modulo_res A = int_division A ''modulo'' floor_mod (mpz_fdiv_r A)"

definition floor_div :: "int \<Rightarrow> int \<Rightarrow> int res" where
  "floor_div a b = rbind (i64_div a b) (\<lambda>q. rbind (i64_mod a b) (\<lambda>r.
     Inr (if r \<noteq> 0 \<and> ((r < 0) \<noteq> (b < 0)) then q - 1 else q)))"

definition floor_quotient_res :: "arith \<Rightarrow> val list \<Rightarrow> val res" where
  "floor_quotient_res A = int_division A ''floor-quotient'' floor_div (mpz_fdiv_q A)"

definition bi_quotient :: "arith \<Rightarrow> val list \<Rightarrow> val M" where
  "bi_quotient A args = liftR (quotient_res A args)"

definition bi_remainder :: "arith \<Rightarrow> val list \<Rightarrow> val M" where
  "bi_remainder A args = liftR (remainder_res A args)"

definition bi_modulo :: "arith \<Rightarrow> val list \<Rightarrow> val M" where
  "bi_modulo A args = liftR (modulo_res A args)"

definition bi_floor_quotient :: "arith \<Rightarrow> val list \<Rightarrow> val M" where
  "bi_floor_quotient A args = liftR (floor_quotient_res A args)"

definition make_values2 :: "val \<Rightarrow> val \<Rightarrow> val M" where
  "make_values2 x y = new_values [x, y]"

definition bi_truncate_slash :: "arith \<Rightarrow> val list \<Rightarrow> val M" where
  "bi_truncate_slash A args =
     bindM (bi_quotient A args) (\<lambda>q. bindM (bi_remainder A args) (\<lambda>r. make_values2 q r))"

definition bi_floor_slash :: "arith \<Rightarrow> val list \<Rightarrow> val M" where
  "bi_floor_slash A args =
     bindM (bi_floor_quotient A args) (\<lambda>q. bindM (bi_modulo A args) (\<lambda>r. make_values2 q r))"

subsection \<open>\<open>gcd\<close> and \<open>lcm\<close>\<close>

function gcd_loop :: "int \<Rightarrow> int \<Rightarrow> int res" where
  "gcd_loop a b = (if b = 0 then Inr a else rbind (i64_mod a b) (\<lambda>r. gcd_loop b r))"
  by pat_completeness auto
termination
proof (relation "measure (\<lambda>(a, b). nat \<bar>b\<bar>)", goal_cases)
  case 1
  show ?case by simp
next
  case (2 a b r)
  then have "r = a smod b" by (simp add: i64_mod_def split: if_splits)
  moreover have "\<bar>a smod b\<bar> < \<bar>b\<bar>"
    using smod_int_range [OF 2(1), of a] by auto
  ultimately show ?case using 2(1) by simp
qed

declare gcd_loop.simps [simp del]

definition i64_gcd :: "int \<Rightarrow> int \<Rightarrow> int res" where
  "i64_gcd a b =
     rbind (if a < 0 then i64_neg a else Inr a) (\<lambda>a'.
     rbind (if b < 0 then i64_neg b else Inr b) (\<lambda>b'. gcd_loop a' b'))"

text \<open>The loop of \<open>bi_gcd\<close>.  \<open>big\<close> is \<open>bacc\<close> once \<open>is_big\<close> is set.\<close>

fun gcd_args :: "arith \<Rightarrow> int \<Rightarrow> int option \<Rightarrow> val list \<Rightarrow> val res" where
  "gcd_args A acc big [] =
     (case big of None \<Rightarrow> Inr (VInt acc) | Some z \<Rightarrow> Inr (make_bigint_from_mpz A z))"
| "gcd_args A acc big (v # vs) =
     (if big = None \<and> is_int v \<and> int_of v \<noteq> INT64_MIN \<and> acc \<noteq> INT64_MIN then
        rbind (i64_gcd acc (int_of v)) (\<lambda>g. gcd_args A g None vs)
      else
        rbind (abort_if (\<not> is_int v \<and> (case v of VBigint z \<Rightarrow> False | _ \<Rightarrow> True))
          ''gcd: expected an integer'') (\<lambda>_.
        rbind (value_to_mpz v ''gcd'') (\<lambda>b.
        gcd_args A acc (Some (mpz_gcd A (case big of None \<Rightarrow> acc | Some z \<Rightarrow> z) b)) vs)))"

definition bi_gcd :: "arith \<Rightarrow> val list \<Rightarrow> val M" where
  "bi_gcd A args = liftR (gcd_args A 0 None args)"

text \<open>One step of the small path of \<open>bi_lcm\<close>: \<open>None\<close> when the product overflows.\<close>

definition lcm_small :: "int \<Rightarrow> int \<Rightarrow> int option res" where
  "lcm_small acc i =
     (let vv = (if i < 0 then - i else i) in
      if vv = 0 then Inr (Some 0)
      else rbind (i64_gcd acc vv) (\<lambda>g. rbind (i64_div acc g) (\<lambda>q. Inr (fit64 (q * vv)))))"

definition lcm_big :: "arith \<Rightarrow> int \<Rightarrow> int \<Rightarrow> int" where
  "lcm_big A z b =
     (if mpz_sgn A b = 0 then 0
      else mpz_mul A (mpz_divexact A z (mpz_gcd A z b)) b)"

fun lcm_args :: "arith \<Rightarrow> int \<Rightarrow> int option \<Rightarrow> val list \<Rightarrow> val res" where
  "lcm_args A acc big [] =
     (case big of
        None \<Rightarrow> rbind (if acc < 0 then i64_neg acc else Inr acc) (\<lambda>r. Inr (VInt r))
      | Some z \<Rightarrow> Inr (make_bigint_from_mpz A (mpz_abs A z)))"
| "lcm_args A acc big (v # vs) =
     rbind (abort_if (\<not> is_int v \<and> (case v of VBigint z \<Rightarrow> False | _ \<Rightarrow> True))
       ''lcm: expected an integer'') (\<lambda>_.
     rbind (if big = None \<and> is_int v \<and> int_of v \<noteq> INT64_MIN \<and> acc \<noteq> INT64_MIN
            then lcm_small acc (int_of v) else Inr None) (\<lambda>r.
     case r of
       Some acc' \<Rightarrow> lcm_args A acc' None vs
     | None \<Rightarrow> rbind (value_to_mpz v ''lcm'') (\<lambda>b.
         lcm_args A acc (Some (lcm_big A (case big of None \<Rightarrow> acc | Some z \<Rightarrow> z) b)) vs)))"

definition bi_lcm :: "arith \<Rightarrow> val list \<Rightarrow> val M" where
  "bi_lcm A args = liftR (lcm_args A 1 None args)"

end
