(* ===== verification/Numeric_Props.thy ===== *)
theory Numeric_Props
  imports Num_Builtins
begin

text \<open>
  Correctness of the numeric tower: what number an exact value denotes (\<open>exact_val\<close>), the
  canonical form the code keeps exact numbers in (\<open>wf_exact\<close>), and the proofs that the arithmetic
  of \<open>Numeric\<close> and the integer builtins of \<open>Num_Builtins\<close> compute the operations of the rational
  numbers, of the Gaussian rationals and of the integers in that form.  What is relied on of GMP is the
  locale \<open>gmp_spec\<close>.
\<close>

subsection \<open>Denotation and canonical form\<close>

fun exact_val :: "val \<Rightarrow> rat" where
  "exact_val (VInt i) = of_int i"
| "exact_val (VBigint z) = of_int z"
| "exact_val (VRational n d) = of_int n / of_int d"
| "exact_val v = 0"

fun wf_exact :: "val \<Rightarrow> bool" where
  "wf_exact (VInt i) = int64 i"
| "wf_exact (VBigint z) = (\<not> int64 z)"
| "wf_exact (VRational n d) = (1 < d \<and> coprime n d)"
| "wf_exact v = False"

text \<open>An exact real, or a complex number with exact components and a nonzero imaginary part.\<close>

definition wf_gauss :: "val \<Rightarrow> bool" where
  "wf_gauss v \<longleftrightarrow> wf_exact (cplx_real v) \<and> wf_exact (cplx_imag v) \<and>
     (is_complex v \<longrightarrow> cplx_imag v \<noteq> VInt 0)"

definition re_val :: "val \<Rightarrow> rat" where
  "re_val v = exact_val (cplx_real v)"

definition im_val :: "val \<Rightarrow> rat" where
  "im_val v = exact_val (cplx_imag v)"

lemma int64_iff: "int64 z \<longleftrightarrow> - (2 ^ 63) \<le> z \<and> z < 2 ^ 63"
  by (auto simp: int64_def INT64_MIN_def INT64_MAX_def)

lemma int64_small [simp]: "int64 0" "int64 1"
  by (simp_all add: int64_def INT64_MIN_def INT64_MAX_def)

lemma int64_numeral [simp]:
  "int64 (numeral n) \<longleftrightarrow> numeral n \<le> (9223372036854775807::int)"
  "int64 (- numeral n) \<longleftrightarrow> numeral n \<le> (9223372036854775808::int)"
  "int64 (- 1)" "int64 INT64_MIN"
  by (simp_all add: int64_def INT64_MIN_def INT64_MAX_def)

lemma wf_exact_kind: "wf_exact v \<Longrightarrow> is_exact_real v \<and> \<not> is_complex v \<and> \<not> is_float v"
  by (cases v) simp_all

lemma wf_exact_mpq:
  "wf_exact v \<Longrightarrow> \<exists>q. value_to_mpq v = Inr q \<and> mpq_canonical q \<and> mpq_val q = exact_val v"
  by (cases v) (auto simp: mpq_canonical_def mpq_val_def)

text \<open>A value in canonical form is determined by the number it denotes.\<close>

lemma wf_exact_as_mpq:
  "wf_exact v \<Longrightarrow> value_to_mpq v = Inr q \<Longrightarrow>
     v = (if snd q = 1 then (if int64 (fst q) then VInt (fst q) else VBigint (fst q))
          else VRational (fst q) (snd q))"
  by (cases v) auto

lemma wf_exact_inject:
  assumes "wf_exact x" "wf_exact y" "exact_val x = exact_val y"
  shows "x = y"
proof -
  obtain p where p: "value_to_mpq x = Inr p" "mpq_canonical p" "mpq_val p = exact_val x"
    using wf_exact_mpq [OF assms(1)] by blast
  obtain q where q: "value_to_mpq y = Inr q" "mpq_canonical q" "mpq_val q = exact_val y"
    using wf_exact_mpq [OF assms(2)] by blast
  have "p = q" using mpq_val_inject [OF p(2) q(2)] p(3) q(3) assms(3) by simp
  then show ?thesis
    using wf_exact_as_mpq [OF assms(1) p(1)] wf_exact_as_mpq [OF assms(2) q(1)] by simp
qed

lemma exact_val_zero: "wf_exact v \<Longrightarrow> exact_val v = 0 \<longleftrightarrow> v = VInt 0"
  using wf_exact_inject [of v "VInt 0"] by auto

lemma wf_gauss_real: "wf_exact v \<Longrightarrow> wf_gauss v"
  using wf_exact_kind [of v] by (cases v) (simp_all add: wf_gauss_def)

lemma cplx_of_exact [simp]:
  "wf_exact v \<Longrightarrow> cplx_real v = v" "wf_exact v \<Longrightarrow> cplx_imag v = VInt 0"
  by (cases v; simp)+

lemma wf_gauss_cases: "wf_gauss v \<Longrightarrow> \<not> is_complex v \<Longrightarrow> wf_exact v"
  by (cases v) (simp_all add: wf_gauss_def)

lemma make_complex_gauss:
  assumes "wf_exact re" "wf_exact im"
  shows "wf_gauss (make_complex re im)"
    and "re_val (make_complex re im) = exact_val re"
    and "im_val (make_complex re im) = exact_val im"
  using assms wf_gauss_real [OF assms(1)]
  by (auto simp: make_complex_def wf_gauss_def re_val_def im_val_def)

lemma is_int_exact_val: "is_int v \<Longrightarrow> exact_val v = of_int (int_of v)"
  by (cases v) simp_all

lemma fit64_eq: "fit64 r = (if int64 r then Some r else None)"
  by (simp add: fit64_def)

subsection \<open>The inlined fast paths\<close>

lemma fast_arith: "fast_add A x y = num_add A x y" "fast_sub A x y = num_sub A x y" "fast_mul A x y = num_mul A x y"
  by (simp_all add: fast_add_def fast_sub_def fast_mul_def num_add.simps [of A x y]
      num_sub.simps [of A x y] num_mul.simps [of A x y] split: option.split)

lemma fast_compare: "fast_lt A x y = num_lt A x y" "fast_le A x y = num_le A x y" "fast_gt A x y = num_gt A x y"
  "fast_ge A x y = num_ge A x y" "fast_eq A x y = num_eq A x y"
  by (simp_all add: fast_lt_def fast_le_def fast_gt_def fast_ge_def fast_eq_def num_lt_def num_le_def
      num_gt_def num_ge_def real_cmp_def num_eq.simps [of A x y])

subsection \<open>Addition, subtraction, multiplication, division\<close>

text \<open>A quotient of complex numbers: \<open>x / y\<close> has the components of
  \<open>x * conj y / |y|\<^sup>2\<close>.  The code tests \<open>|y|\<^sup>2\<close> for zero as a double.\<close>

definition norm2 :: "val \<Rightarrow> rat" where
  "norm2 v = re_val v * re_val v + im_val v * im_val v"

lemma norm2_zero: "norm2 v = 0 \<longleftrightarrow> re_val v = 0 \<and> im_val v = 0"
  by (simp add: norm2_def sum_squares_eq_zero_iff)

lemma as_double_exact: "wf_exact v \<Longrightarrow> \<exists>d. as_double A' v who = Inr d"
  by (cases v) simp_all

text \<open>The complex branch of each operation.\<close>

lemma complex_not_ints: "is_complex x \<or> is_complex y \<Longrightarrow> (is_int x \<and> is_int y) = False"
  by (cases x; cases y) auto

lemma num_add_complex:
  "is_complex x \<or> is_complex y \<Longrightarrow> num_add A x y =
     rbind (num_add A (cplx_real x) (cplx_real y)) (\<lambda>re.
     rbind (num_add A (cplx_imag x) (cplx_imag y)) (\<lambda>im. Inr (make_complex re im)))"
  by (subst num_add.simps) (simp only: complex_not_ints if_True if_False option.case)

lemma num_sub_complex:
  "is_complex x \<or> is_complex y \<Longrightarrow> num_sub A x y =
     rbind (num_sub A (cplx_real x) (cplx_real y)) (\<lambda>re.
     rbind (num_sub A (cplx_imag x) (cplx_imag y)) (\<lambda>im. Inr (make_complex re im)))"
  by (subst num_sub.simps) (simp only: complex_not_ints if_True if_False option.case)

lemma num_mul_complex:
  "is_complex x \<or> is_complex y \<Longrightarrow> num_mul A x y =
     rbind (num_mul A (cplx_real x) (cplx_real y)) (\<lambda>rr.
     rbind (num_mul A (cplx_imag x) (cplx_imag y)) (\<lambda>ii.
     rbind (num_sub A rr ii) (\<lambda>re.
     rbind (num_mul A (cplx_real x) (cplx_imag y)) (\<lambda>ri.
     rbind (num_mul A (cplx_imag x) (cplx_real y)) (\<lambda>ir.
     rbind (num_add A ri ir) (\<lambda>im. Inr (make_complex re im)))))))"
  by (subst num_mul.simps) (simp only: complex_not_ints if_True if_False option.case)

context gmp_spec
begin

lemma make_bigint_props:
  "wf_exact (make_bigint_from_mpz A z)" "exact_val (make_bigint_from_mpz A z) = of_int z"
  using fits_law [of z] get_si_law [of z]
  by (auto simp: make_bigint_from_mpz_def int64_iff simp del: get_si_law)

lemma make_bigint_int: "make_bigint_from_mpz A z = (if int64 z then VInt z else VBigint z)"
  using fits_law [of z] get_si_law [of z] by (simp add: make_bigint_from_mpz_def int64_iff)

lemma make_rational_props:
  assumes "snd q \<noteq> 0"
  shows "wf_exact (make_rational_from_mpq A q)" "exact_val (make_rational_from_mpq A q) = mpq_val q"
proof -
  define p where "p = mpq_canonicalize A q"
  have p: "mpq_canonical p" "mpq_val p = mpq_val q"
    using canonicalize_law [OF assms] by (simp_all add: p_def)
  have eq: "make_rational_from_mpq A q =
      (if snd p = 1 then make_bigint_from_mpz A (fst p) else VRational (fst p) (snd p))"
    using zcmp_law [of "snd p" 1] by (simp add: make_rational_from_mpq_def p_def Let_def)
  from p(1) have "snd p > 0" "coprime (fst p) (snd p)" by (simp_all add: mpq_canonical_def)
  then show "wf_exact (make_rational_from_mpq A q)" "exact_val (make_rational_from_mpq A q) = mpq_val q"
    unfolding eq p(2) [symmetric] by (auto simp: make_bigint_props mpq_val_def)
qed

lemma make_rational_canonical:
  assumes "mpq_canonical q"
  shows "wf_exact (make_rational_from_mpq A q)" "exact_val (make_rational_from_mpq A q) = mpq_val q"
  using make_rational_props [of q] assms by (auto simp: mpq_canonical_def)

lemma exact_op_ok:
  assumes "wf_exact x" "wf_exact y"
    and law: "\<And>p q. mpq_canonical p \<Longrightarrow> mpq_canonical q \<Longrightarrow>
      mpq_canonical (f p q) \<and> mpq_val (f p q) = g (mpq_val p) (mpq_val q)"
  shows "\<exists>r. exact_op A f x y = Inr r \<and> wf_exact r \<and> exact_val r = g (exact_val x) (exact_val y)"
proof -
  obtain p q where "value_to_mpq x = Inr p" "mpq_canonical p" "mpq_val p = exact_val x"
    "value_to_mpq y = Inr q" "mpq_canonical q" "mpq_val q = exact_val y"
    using wf_exact_mpq [OF assms(1)] wf_exact_mpq [OF assms(2)] by blast
  with law [of p q] make_rational_canonical [of "f p q"] show ?thesis by (simp add: exact_op_def)
qed

text \<open>The shape the three operations share: the fixnum attempt, then the exact path.\<close>

lemma fixnum_or_exact:
  assumes "wf_exact x" "wf_exact y"
    and law: "\<And>p q. mpq_canonical p \<Longrightarrow> mpq_canonical q \<Longrightarrow>
      mpq_canonical (f p q) \<and> mpq_val (f p q) = g (mpq_val p) (mpq_val q)"
    and hom: "\<And>i j. of_int (h i j) = g (of_int i) (of_int j)"
    and eq: "op x y = (case (if is_int x \<and> is_int y then fit64 (h (int_of x) (int_of y)) else None) of
        Some r \<Rightarrow> Inr (VInt r)
      | None \<Rightarrow> if is_complex x \<or> is_complex y then c
                else if is_float x \<or> is_float y then d
                else if is_exact_real x \<and> is_exact_real y then exact_op A f x y else d)"
  shows "\<exists>r. op x y = Inr r \<and> wf_exact r \<and> exact_val r = g (exact_val x) (exact_val y)"
proof (cases "is_int x \<and> is_int y \<and> int64 (h (int_of x) (int_of y))")
  case True
  then have "op x y = Inr (VInt (h (int_of x) (int_of y)))" by (simp add: eq fit64_eq)
  moreover have "exact_val x = of_int (int_of x)" "exact_val y = of_int (int_of y)"
    using True by (simp_all add: is_int_exact_val)
  ultimately show ?thesis using True by (simp add: hom)
next
  case False
  with assms(1,2) [THEN wf_exact_kind] have "op x y = exact_op A f x y"
    by (auto simp: eq fit64_eq)
  with exact_op_ok [OF assms(1,2), of f g] law show ?thesis by simp
qed

lemma num_add_exact:
  "wf_exact x \<Longrightarrow> wf_exact y \<Longrightarrow>
     \<exists>r. num_add A x y = Inr r \<and> wf_exact r \<and> exact_val r = exact_val x + exact_val y"
  by (rule fixnum_or_exact [where f = "mpq_add A" and h = "(+)", OF _ _ add_law _ num_add.simps]) auto

lemma num_sub_exact:
  "wf_exact x \<Longrightarrow> wf_exact y \<Longrightarrow>
     \<exists>r. num_sub A x y = Inr r \<and> wf_exact r \<and> exact_val r = exact_val x - exact_val y"
  by (rule fixnum_or_exact [where f = "mpq_sub A" and h = "(-)", OF _ _ sub_law _ num_sub.simps]) auto

lemma num_mul_exact:
  "wf_exact x \<Longrightarrow> wf_exact y \<Longrightarrow>
     \<exists>r. num_mul A x y = Inr r \<and> wf_exact r \<and> exact_val r = exact_val x * exact_val y"
  by (rule fixnum_or_exact [where f = "mpq_mul A" and h = "(*)", OF _ _ mul_law _ num_mul.simps]) auto

lemma real_div_exact:
  assumes "wf_exact x" "wf_exact y"
  shows "if exact_val y = 0 then real_div A x y = Inl (Abort ''/: division by zero'')
    else \<exists>r. real_div A x y = Inr r \<and> wf_exact r \<and> exact_val r = exact_val x / exact_val y"
proof -
  obtain p q where pq: "value_to_mpq x = Inr p" "mpq_canonical p" "mpq_val p = exact_val x"
    "value_to_mpq y = Inr q" "mpq_canonical q" "mpq_val q = exact_val y"
    using wf_exact_mpq [OF assms(1)] wf_exact_mpq [OF assms(2)] by blast
  have sgn: "mpq_sgn A q = 0 \<longleftrightarrow> exact_val y = 0"
    using sgn_law [OF pq(5)] mpq_val_zero_iff [OF pq(5)] pq(6) by (simp add: sgn_0_0)
  show ?thesis
  proof (cases "exact_val y = 0")
    case True
    with pq sgn wf_exact_kind [OF assms(1)] wf_exact_kind [OF assms(2)] show ?thesis
      by (simp add: real_div_def)
  next
    case False
    then have nz: "fst q \<noteq> 0" using mpq_val_zero_iff [OF pq(5)] pq(6) by simp
    from div_law [OF pq(2,5) nz] make_rational_canonical [of "mpq_div A p q"] pq sgn False
      wf_exact_kind [OF assms(1)] wf_exact_kind [OF assms(2)]
    show ?thesis by (simp add: real_div_def)
  qed
qed

subsubsection \<open>Gaussian rationals\<close>

lemma wf_gauss_parts:
  "wf_gauss v \<Longrightarrow> wf_exact (cplx_real v)" "wf_gauss v \<Longrightarrow> wf_exact (cplx_imag v)"
  by (simp_all add: wf_gauss_def)

lemma componentwise_gauss:
  assumes "wf_gauss x" "wf_gauss y"
    and exact: "\<And>v w. wf_exact v \<Longrightarrow> wf_exact w \<Longrightarrow>
      \<exists>r. op v w = Inr r \<and> wf_exact r \<and> exact_val r = g (exact_val v) (exact_val w)"
    and complex: "is_complex x \<or> is_complex y \<Longrightarrow> op x y =
      rbind (op (cplx_real x) (cplx_real y)) (\<lambda>re. rbind (op (cplx_imag x) (cplx_imag y)) (\<lambda>im.
        Inr (make_complex re im)))"
    and zero: "g 0 0 = 0"
  shows "\<exists>r. op x y = Inr r \<and> wf_gauss r \<and> re_val r = g (re_val x) (re_val y) \<and>
    im_val r = g (im_val x) (im_val y)"
proof (cases "is_complex x \<or> is_complex y")
  case True
  from exact [of "cplx_real x" "cplx_real y"] exact [of "cplx_imag x" "cplx_imag y"]
    wf_gauss_parts [OF assms(1)] wf_gauss_parts [OF assms(2)]
  obtain re im where ri: "op (cplx_real x) (cplx_real y) = Inr re" "wf_exact re"
    "exact_val re = g (re_val x) (re_val y)"
    "op (cplx_imag x) (cplx_imag y) = Inr im" "wf_exact im" "exact_val im = g (im_val x) (im_val y)"
    by (auto simp: re_val_def im_val_def)
  with complex [OF True] make_complex_gauss [OF ri(2,5)] show ?thesis by simp
next
  case False
  with assms(1,2) have w: "wf_exact x" "wf_exact y" using wf_gauss_cases by blast+
  with exact [OF w] zero show ?thesis by (auto simp: re_val_def im_val_def wf_gauss_real)
qed

lemma num_add_gauss:
  "wf_gauss x \<Longrightarrow> wf_gauss y \<Longrightarrow>
     \<exists>r. num_add A x y = Inr r \<and> wf_gauss r \<and> re_val r = re_val x + re_val y \<and> im_val r = im_val x + im_val y"
  by (rule componentwise_gauss [where op = "num_add A" and g = "(+)", OF _ _ num_add_exact num_add_complex]) auto

lemma num_sub_gauss:
  "wf_gauss x \<Longrightarrow> wf_gauss y \<Longrightarrow>
     \<exists>r. num_sub A x y = Inr r \<and> wf_gauss r \<and> re_val r = re_val x - re_val y \<and> im_val r = im_val x - im_val y"
  by (rule componentwise_gauss [where op = "num_sub A" and g = "(-)", OF _ _ num_sub_exact num_sub_complex]) auto

text \<open>The four products of components, each with its denotation.\<close>

lemma component_product:
  assumes "wf_gauss x" "wf_gauss y" "f \<in> {cplx_real, cplx_imag}" "g \<in> {cplx_real, cplx_imag}"
  shows "\<exists>r. num_mul A (f x) (g y) = Inr r \<and> wf_exact r \<and> exact_val r = exact_val (f x) * exact_val (g y)"
proof (rule num_mul_exact)
  show "wf_exact (f x)" "wf_exact (g y)" using assms wf_gauss_parts by blast+
qed

lemma num_mul_gauss:
  assumes "wf_gauss x" "wf_gauss y"
  shows "\<exists>r. num_mul A x y = Inr r \<and> wf_gauss r \<and>
    re_val r = re_val x * re_val y - im_val x * im_val y \<and>
    im_val r = re_val x * im_val y + im_val x * re_val y"
proof (cases "is_complex x \<or> is_complex y")
  case True
  note prod = component_product [OF assms]
  obtain rr where rr: "num_mul A (cplx_real x) (cplx_real y) = Inr rr" "wf_exact rr"
    "exact_val rr = re_val x * re_val y" using prod [of cplx_real cplx_real] by (auto simp: re_val_def)
  obtain ii where ii: "num_mul A (cplx_imag x) (cplx_imag y) = Inr ii" "wf_exact ii"
    "exact_val ii = im_val x * im_val y" using prod [of cplx_imag cplx_imag] by (auto simp: im_val_def)
  obtain ri where ri: "num_mul A (cplx_real x) (cplx_imag y) = Inr ri" "wf_exact ri"
    "exact_val ri = re_val x * im_val y"
    using prod [of cplx_real cplx_imag] by (auto simp: re_val_def im_val_def)
  obtain ir where ir: "num_mul A (cplx_imag x) (cplx_real y) = Inr ir" "wf_exact ir"
    "exact_val ir = im_val x * re_val y"
    using prod [of cplx_imag cplx_real] by (auto simp: re_val_def im_val_def)
  from num_sub_exact [OF rr(2) ii(2)] num_add_exact [OF ri(2) ir(2)]
  obtain re im where c: "num_sub A rr ii = Inr re" "wf_exact re"
    "exact_val re = re_val x * re_val y - im_val x * im_val y"
    "num_add A ri ir = Inr im" "wf_exact im" "exact_val im = re_val x * im_val y + im_val x * re_val y"
    using rr(3) ii(3) ri(3) ir(3) by auto
  from rr(1) ii(1) ri(1) ir(1) c(1,4) have "num_mul A x y = Inr (make_complex re im)"
    by (simp add: num_mul_complex [OF True])
  with make_complex_gauss [OF c(2,5)] c(3,6) show ?thesis by simp
next
  case False
  with assms num_mul_exact [of x y] show ?thesis
    using wf_gauss_cases [OF assms(1)] wf_gauss_cases [OF assms(2)]
    by (auto simp: re_val_def im_val_def wf_gauss_real)
qed

lemma complex_div_gauss:
  assumes "wf_gauss x" "wf_gauss y"
  shows "\<exists>denom d. wf_exact denom \<and> exact_val denom = norm2 y \<and> as_double A denom ''/'' = Inr d \<and>
    (if fp_eq A d 0 \<or> norm2 y = 0 then complex_div A x y = Inl (Abort ''/: division by zero'')
     else \<exists>r. complex_div A x y = Inr r \<and> wf_gauss r \<and>
       re_val r = (re_val x * re_val y + im_val x * im_val y) / norm2 y \<and>
       im_val r = (im_val x * re_val y - re_val x * im_val y) / norm2 y)"
proof -
  note xy = component_product [OF assms] and yy = component_product [OF assms(2,2)]
  obtain brbr where brbr: "num_mul A (cplx_real y) (cplx_real y) = Inr brbr" "wf_exact brbr"
    "exact_val brbr = re_val y * re_val y" using yy [of cplx_real cplx_real] by (auto simp: re_val_def)
  obtain bibi where bibi: "num_mul A (cplx_imag y) (cplx_imag y) = Inr bibi" "wf_exact bibi"
    "exact_val bibi = im_val y * im_val y" using yy [of cplx_imag cplx_imag] by (auto simp: im_val_def)
  obtain denom where denom: "num_add A brbr bibi = Inr denom" "wf_exact denom" "exact_val denom = norm2 y"
    using num_add_exact [OF brbr(2) bibi(2)] brbr(3) bibi(3) by (auto simp: norm2_def)
  obtain d where d: "as_double A denom ''/'' = Inr d" using as_double_exact [OF denom(2)] by blast
  obtain rr where rr: "num_mul A (cplx_real x) (cplx_real y) = Inr rr" "wf_exact rr"
    "exact_val rr = re_val x * re_val y" using xy [of cplx_real cplx_real] by (auto simp: re_val_def)
  obtain ii where ii: "num_mul A (cplx_imag x) (cplx_imag y) = Inr ii" "wf_exact ii"
    "exact_val ii = im_val x * im_val y" using xy [of cplx_imag cplx_imag] by (auto simp: im_val_def)
  obtain ir where ir: "num_mul A (cplx_imag x) (cplx_real y) = Inr ir" "wf_exact ir"
    "exact_val ir = im_val x * re_val y"
    using xy [of cplx_imag cplx_real] by (auto simp: re_val_def im_val_def)
  obtain ri where ri: "num_mul A (cplx_real x) (cplx_imag y) = Inr ri" "wf_exact ri"
    "exact_val ri = re_val x * im_val y"
    using xy [of cplx_real cplx_imag] by (auto simp: re_val_def im_val_def)
  obtain re where re: "num_add A rr ii = Inr re" "wf_exact re"
    "exact_val re = re_val x * re_val y + im_val x * im_val y"
    using num_add_exact [OF rr(2) ii(2)] rr(3) ii(3) by auto
  obtain im where im: "num_sub A ir ri = Inr im" "wf_exact im"
    "exact_val im = im_val x * re_val y - re_val x * im_val y"
    using num_sub_exact [OF ir(2) ri(2)] ir(3) ri(3) by auto
  note run = brbr(1) bibi(1) denom(1) d rr(1) ii(1) re(1) ir(1) ri(1) im(1)
  show ?thesis
  proof (intro exI conjI)
    show "wf_exact denom" "exact_val denom = norm2 y" "as_double A denom ''/'' = Inr d"
      using denom d by simp_all
    consider (zero) "fp_eq A d 0" | (tiny) "\<not> fp_eq A d 0" "norm2 y = 0" | (ok) "\<not> fp_eq A d 0" "norm2 y \<noteq> 0"
      by blast
    then show "if fp_eq A d 0 \<or> norm2 y = 0 then complex_div A x y = Inl (Abort ''/: division by zero'')
     else \<exists>r. complex_div A x y = Inr r \<and> wf_gauss r \<and>
       re_val r = (re_val x * re_val y + im_val x * im_val y) / norm2 y \<and>
       im_val r = (im_val x * re_val y - re_val x * im_val y) / norm2 y"
    proof cases
      case zero
      then show ?thesis by (simp add: complex_div_def Let_def run)
    next
      case tiny
      then show ?thesis using real_div_exact [OF re(2) denom(2)] denom(3)
        by (simp add: complex_div_def Let_def run)
    next
      case ok
      obtain qre where qre: "real_div A re denom = Inr qre" "wf_exact qre" "exact_val qre = exact_val re / norm2 y"
        using real_div_exact [OF re(2) denom(2)] denom(3) ok by auto
      obtain qim where qim: "real_div A im denom = Inr qim" "wf_exact qim" "exact_val qim = exact_val im / norm2 y"
        using real_div_exact [OF im(2) denom(2)] denom(3) ok by auto
      have "complex_div A x y = Inr (make_complex qre qim)"
        using ok by (simp add: complex_div_def Let_def run qre(1) qim(1))
      with make_complex_gauss [OF qre(2) qim(2)] qre(3) qim(3) re(3) im(3) ok show ?thesis by simp
    qed
  qed
qed

subsection \<open>Comparison\<close>

lemma real_cmp_exact:
  assumes "wf_exact x" "wf_exact y"
    and int: "\<And>i j. ord i j \<longleftrightarrow> rord (of_int i) (of_int j)"
    and cmp: "\<And>p q. mpq_canonical p \<Longrightarrow> mpq_canonical q \<Longrightarrow>
      ord (mpq_cmp A p q) 0 \<longleftrightarrow> rord (mpq_val p) (mpq_val q)"
  shows "real_cmp A ord ford who x y = Inr (rord (exact_val x) (exact_val y))"
proof -
  obtain p q where "value_to_mpq x = Inr p" "mpq_canonical p" "mpq_val p = exact_val x"
    "value_to_mpq y = Inr q" "mpq_canonical q" "mpq_val q = exact_val y"
    using wf_exact_mpq [OF assms(1)] wf_exact_mpq [OF assms(2)] by blast
  with wf_exact_kind [OF assms(1)] wf_exact_kind [OF assms(2)] show ?thesis
    using int [of "int_of x" "int_of y"] cmp [of p q] by (auto simp: real_cmp_def is_int_exact_val)
qed

lemma num_cmp_exact:
  assumes "wf_exact x" "wf_exact y"
  shows "num_lt A x y = Inr (exact_val x < exact_val y)" "num_le A x y = Inr (exact_val x \<le> exact_val y)"
    "num_gt A x y = Inr (exact_val x > exact_val y)" "num_ge A x y = Inr (exact_val x \<ge> exact_val y)"
  unfolding num_lt_def num_le_def num_gt_def num_ge_def
  by (rule real_cmp_exact [OF assms]; simp add: cmp_cases)+

lemma num_eq_exact:
  assumes "wf_exact x" "wf_exact y"
  shows "num_eq A x y = Inr (exact_val x = exact_val y)"
proof -
  obtain p q where "value_to_mpq x = Inr p" "mpq_canonical p" "mpq_val p = exact_val x"
    "value_to_mpq y = Inr q" "mpq_canonical q" "mpq_val q = exact_val y"
    using wf_exact_mpq [OF assms(1)] wf_exact_mpq [OF assms(2)] by blast
  with wf_exact_kind [OF assms(1)] wf_exact_kind [OF assms(2)] equal_law [of p q] show ?thesis
    by (subst num_eq.simps) (auto simp: is_int_exact_val)
qed

lemma num_eq_gauss:
  assumes "wf_gauss x" "wf_gauss y"
  shows "num_eq A x y = Inr (re_val x = re_val y \<and> im_val x = im_val y)"
proof (cases "is_complex x \<or> is_complex y")
  case True
  have "num_eq A x y = rbind (num_eq A (cplx_real x) (cplx_real y)) (\<lambda>r.
      if r then num_eq A (cplx_imag x) (cplx_imag y) else Inr False)"
    by (subst num_eq.simps) (simp only: complex_not_ints [OF True] True if_True if_False)
  with num_eq_exact wf_gauss_parts [OF assms(1)] wf_gauss_parts [OF assms(2)] show ?thesis
    by (simp add: re_val_def im_val_def)
next
  case False
  with assms have w: "wf_exact x" "wf_exact y" using wf_gauss_cases by blast+
  with num_eq_exact [OF w] show ?thesis by (simp add: re_val_def im_val_def)
qed

end

end
