(* ===== verification/Int_Props.thy ===== *)
theory Int_Props
  imports Numeric_Props
begin

text \<open>
  The integer builtins compute the integer operations: \<open>quotient\<close> and \<open>remainder\<close> truncate, \<open>modulo\<close> and
  \<open>floor-quotient\<close> round down, \<open>gcd\<close> and \<open>lcm\<close> are the greatest common divisor and the least common
  multiple of all the arguments, whichever of the \<open>int64_t\<close> and the GMP path each step takes.  The one
  input the division family does not survive is \<open>INT64_MIN\<close> and \<open>-1\<close>.
\<close>

text \<open>The value of an integer, a fixnum where it fits; the integer of such a value.\<close>

definition int_value :: "int \<Rightarrow> val" where
  "int_value z = (if int64 z then VInt z else VBigint z)"

fun ival :: "val \<Rightarrow> int" where
  "ival (VInt i) = i"
| "ival (VBigint z) = z"
| "ival v = 0"

definition wf_integer :: "val \<Rightarrow> bool" where
  "wf_integer v \<longleftrightarrow> v = int_value (ival v)"

lemma wf_integer_int_value [simp]: "wf_integer (int_value z)" "ival (int_value z) = z"
  by (simp_all add: wf_integer_def int_value_def)

lemma wf_integer_cases:
  assumes "wf_integer v"
  obtains (small) i where "v = VInt i" "int64 i" | (big) z where "v = VBigint z" "\<not> int64 z"
  using assms by (cases "int64 (ival v)") (auto simp: wf_integer_def int_value_def)

lemma wf_integer_exact: "wf_integer v \<Longrightarrow> wf_exact v \<and> exact_val v = of_int (ival v)"
  by (elim wf_integer_cases) simp_all

lemma wf_integer_mpz: "wf_integer v \<Longrightarrow> value_to_mpz v who = Inr (ival v)"
  by (elim wf_integer_cases) simp_all

lemma wf_integer_small: "wf_integer v \<Longrightarrow> is_int v \<Longrightarrow> v = VInt (ival v) \<and> int_of v = ival v \<and> int64 (ival v)"
  by (elim wf_integer_cases) simp_all

lemma int_value_eq_iff: "wf_integer v \<Longrightarrow> v = VInt i \<longleftrightarrow> ival v = i \<and> int64 i"
  by (elim wf_integer_cases) auto

subsection \<open>Truncating and rounding down\<close>

text \<open>The pair that makes the truncated division overflow.\<close>

definition overflow_pair :: "int \<Rightarrow> int \<Rightarrow> bool" where
  "overflow_pair a b \<longleftrightarrow> a = INT64_MIN \<and> b = -1"

lemma smod_bounds:
  assumes "(b::int) \<noteq> 0"
  shows "\<bar>a smod b\<bar> < \<bar>b\<bar>" "a smod b > 0 \<Longrightarrow> a > 0" "a smod b < 0 \<Longrightarrow> a < 0"
proof -
  define m where "m = \<bar>a\<bar> mod \<bar>b\<bar>"
  have m: "0 \<le> m" "m < \<bar>b\<bar>" using assms by (simp_all add: m_def)
  have eq: "a smod b = sgn a * m" by (simp add: signed_modulo_int_def m_def)
  show "\<bar>a smod b\<bar> < \<bar>b\<bar>" "a smod b > 0 \<Longrightarrow> a > 0" "a smod b < 0 \<Longrightarrow> a < 0"
    using m by (auto simp: eq sgn_if split: if_splits)
qed

lemma int64_abs_le: "int64 a \<Longrightarrow> \<bar>r\<bar> < \<bar>a\<bar> \<Longrightarrow> int64 r"
  by (auto simp: int64_def INT64_MIN_def INT64_MAX_def)

lemma floor_mod_ok:
  assumes "b \<noteq> 0" "\<not> overflow_pair a b"
  shows "floor_mod a b = Inr (a mod b)"
proof -
  define r where "r = a smod b"
  have r: "\<bar>r\<bar> < \<bar>b\<bar>" using smod_bounds(1) [OF assms(1)] by (simp add: r_def)
  have a: "a = b * (a sdiv b) + r" by (simp add: r_def mult_sdiv_smod_eq)
  have *: "a mod b = (if r \<noteq> 0 \<and> ((r < 0) \<noteq> (b < 0)) then r + b else r)"
  proof (cases "b > 0")
    case True
    then show ?thesis using r a
        int_mod_pos_eq [of a b "a sdiv b" r] int_mod_pos_eq [of a b "a sdiv b - 1" "r + b"]
      by (auto simp: algebra_simps)
  next
    case False
    with assms(1) have "b < 0" by simp
    then show ?thesis using r a
        int_mod_neg_eq [of a b "a sdiv b" r] int_mod_neg_eq [of a b "a sdiv b - 1" "r + b"]
      by (auto simp: algebra_simps)
  qed
  have "i64_mod a b = Inr r" using assms by (simp add: i64_mod_def overflow_pair_def r_def)
  with * show ?thesis by (simp add: floor_mod_def)
qed

lemma floor_div_ok:
  assumes "b \<noteq> 0" "\<not> overflow_pair a b"
  shows "floor_div a b = Inr (a div b)"
proof -
  define r where "r = a smod b"
  have r: "\<bar>r\<bar> < \<bar>b\<bar>" using smod_bounds(1) [OF assms(1)] by (simp add: r_def)
  have a: "a = b * (a sdiv b) + r" by (simp add: r_def mult_sdiv_smod_eq)
  have *: "a div b = (if r \<noteq> 0 \<and> ((r < 0) \<noteq> (b < 0)) then a sdiv b - 1 else a sdiv b)"
  proof (cases "b > 0")
    case True
    then show ?thesis using r a
        int_div_pos_eq [of a b "a sdiv b" r] int_div_pos_eq [of a b "a sdiv b - 1" "r + b"]
      by (auto simp: algebra_simps)
  next
    case False
    with assms(1) have "b < 0" by simp
    then show ?thesis using r a
        int_div_neg_eq [of a b "a sdiv b" r] int_div_neg_eq [of a b "a sdiv b - 1" "r + b"]
      by (auto simp: algebra_simps)
  qed
  have "i64_mod a b = Inr r" "i64_div a b = Inr (a sdiv b)"
    using assms by (simp_all add: i64_mod_def i64_div_def overflow_pair_def r_def)
  with * show ?thesis by (simp add: floor_div_def)
qed

text \<open>The results that are kept as fixnums fit.\<close>

lemma int64_results:
  assumes "int64 a" "int64 b" "b \<noteq> 0" "\<not> overflow_pair a b"
  shows "int64 (a sdiv b)" "int64 (a smod b)" "int64 (a div b)" "int64 (a mod b)"
proof -
  show "int64 (a smod b)" using smod_bounds(1) [OF assms(3)] int64_abs_le [OF assms(2)] by blast
  have "\<bar>a mod b\<bar> < \<bar>b\<bar>" using assms(3) by (cases "b > 0") (auto simp: abs_mod_less)
  then show "int64 (a mod b)" using int64_abs_le [OF assms(2)] by blast
  have eq: "a sdiv b = sgn a * sgn b * (\<bar>a\<bar> div \<bar>b\<bar>)" by (simp add: signed_divide_int_def)
  consider "b = 1" | "b = -1" | "2 \<le> \<bar>b\<bar>" using assms(3) by linarith
  then have "int64 (a sdiv b) \<and> int64 (a div b)"
  proof cases
    case 1
    then show ?thesis using assms(1) by simp
  next
    case 2
    then have "int64 (- a)" using assms(1,4)
      by (auto simp: int64_def INT64_MIN_def INT64_MAX_def overflow_pair_def)
    with 2 show ?thesis by simp
  next
    case 3
    have "\<bar>a\<bar> div \<bar>b\<bar> \<le> \<bar>a\<bar> div 2" using 3 zdiv_mono2 [of "\<bar>a\<bar>" 2 "\<bar>b\<bar>"] by simp
    also have "\<dots> \<le> 2 ^ 62"
    proof -
      have "\<bar>a\<bar> \<le> 9223372036854775808" using assms(1) by (auto simp: int64_def INT64_MIN_def INT64_MAX_def)
      then show ?thesis by simp
    qed
    finally have le: "\<bar>a\<bar> div \<bar>b\<bar> \<le> 2 ^ 62" .
    have "0 \<le> \<bar>a\<bar> div \<bar>b\<bar>" using 3 by (simp add: pos_imp_zdiv_nonneg_iff)
    with le have b: "\<bar>a sdiv b\<bar> \<le> 2 ^ 62" by (auto simp: eq abs_mult sgn_if)
    have "a div b = a sdiv b \<or> a div b = a sdiv b - 1"
      by (cases "b \<noteq> 0 \<and> sgn a \<noteq> sgn b \<and> \<not> b dvd a") (auto simp: divide_int_eq_signed_divide_int)
    with b show ?thesis by (auto simp: int64_def INT64_MIN_def INT64_MAX_def)
  qed
  then show "int64 (a sdiv b)" "int64 (a div b)" by simp_all
qed

subsection \<open>The division builtins\<close>

context gmp_spec
begin

lemma make_bigint_int_value: "make_bigint_from_mpz A z = int_value z"
  by (simp add: make_bigint_int int_value_def)

lemma int_division_ok:
  assumes x: "wf_integer x" and y: "wf_integer y"
    and small: "\<And>a b. b \<noteq> 0 \<Longrightarrow> small a b = (if overflow_pair a b then Inl Undef else Inr (f a b))"
    and fits: "\<And>a b. int64 a \<Longrightarrow> int64 b \<Longrightarrow> b \<noteq> 0 \<Longrightarrow> \<not> overflow_pair a b \<Longrightarrow> int64 (f a b)"
    and big: "\<And>a b. b \<noteq> 0 \<Longrightarrow> big a b = f a b"
  shows "int_division A who small big [x, y] =
    (if ival y = 0 then Inl (Abort (who @ '': division by zero''))
     else if overflow_pair (ival x) (ival y) then Inl Undef
     else Inr (int_value (f (ival x) (ival y))))"
proof (cases "is_int x \<and> is_int y")
  case True
  note xs = wf_integer_small [OF x] and ys = wf_integer_small [OF y]
  from True xs ys small [of "ival y" "ival x"] fits [of "ival x" "ival y"] show ?thesis
    by (auto simp: int_division_def int_value_def)
next
  case False
  have "ival y = 0 \<Longrightarrow> is_int y" using y by (elim wf_integer_cases) auto
  moreover have "\<not> overflow_pair (ival x) (ival y)"
    using False x y by (elim wf_integer_cases) (auto simp: overflow_pair_def int64_def INT64_MIN_def INT64_MAX_def)
  ultimately show ?thesis using False zsgn_law [of "ival y"] big [of "ival y" "ival x"]
    by (auto simp: int_division_def wf_integer_mpz [OF x] wf_integer_mpz [OF y] make_bigint_int_value sgn_0_0)
qed

lemma division_by_zero:
  assumes "wf_integer x" "wf_integer y" "ival y = 0"
  shows "quotient_res A [x, y] = Inl (Abort ''quotient: division by zero'')"
    and "remainder_res A [x, y] = Inl (Abort ''remainder: division by zero'')"
    and "modulo_res A [x, y] = Inl (Abort ''modulo: division by zero'')"
    and "floor_quotient_res A [x, y] = Inl (Abort ''floor-quotient: division by zero'')"
proof -
  have "int_division A who small big [x, y] = Inl (Abort (who @ '': division by zero''))" for who small big
    using assms(2,3) wf_integer_mpz [OF assms(1)] wf_integer_mpz [OF assms(2)] zsgn_law [of 0]
    by (elim wf_integer_cases) (auto simp: int_division_def Let_def)
  then show "quotient_res A [x, y] = Inl (Abort ''quotient: division by zero'')"
    "remainder_res A [x, y] = Inl (Abort ''remainder: division by zero'')"
    "modulo_res A [x, y] = Inl (Abort ''modulo: division by zero'')"
    "floor_quotient_res A [x, y] = Inl (Abort ''floor-quotient: division by zero'')"
    by (simp_all add: quotient_res_def remainder_res_def modulo_res_def floor_quotient_res_def)
qed

lemma division_builtins:
  assumes "wf_integer x" "wf_integer y" "ival y \<noteq> 0"
  shows "quotient_res A [x, y] = (if overflow_pair (ival x) (ival y) then Inl Undef
      else Inr (int_value (ival x sdiv ival y)))"
    and "remainder_res A [x, y] = (if overflow_pair (ival x) (ival y) then Inl Undef
      else Inr (int_value (ival x smod ival y)))"
    and "modulo_res A [x, y] = (if overflow_pair (ival x) (ival y) then Inl Undef
      else Inr (int_value (ival x mod ival y)))"
    and "floor_quotient_res A [x, y] = (if overflow_pair (ival x) (ival y) then Inl Undef
      else Inr (int_value (ival x div ival y)))"
proof -
  note ok = int_division_ok [OF assms(1,2)]
  have u: "floor_mod a b = (if overflow_pair a b then Inl Undef else Inr (a mod b))"
    "floor_div a b = (if overflow_pair a b then Inl Undef else Inr (a div b))" if "b \<noteq> 0" for a b
    using that floor_mod_ok [of b a] floor_div_ok [of b a]
    by (auto simp: floor_mod_def floor_div_def i64_mod_def i64_div_def overflow_pair_def)
  show "quotient_res A [x, y] = (if overflow_pair (ival x) (ival y) then Inl Undef
      else Inr (int_value (ival x sdiv ival y)))"
    unfolding quotient_res_def
    by (subst ok [where f = "(sdiv)"]) (use assms(3) in \<open>auto simp: i64_div_def overflow_pair_def tdiv_law int64_results\<close>)
  show "remainder_res A [x, y] = (if overflow_pair (ival x) (ival y) then Inl Undef
      else Inr (int_value (ival x smod ival y)))"
    unfolding remainder_res_def
    by (subst ok [where f = "(smod)"]) (use assms(3) in \<open>auto simp: i64_mod_def overflow_pair_def tdiv_law int64_results\<close>)
  show "modulo_res A [x, y] = (if overflow_pair (ival x) (ival y) then Inl Undef
      else Inr (int_value (ival x mod ival y)))"
    unfolding modulo_res_def
    by (subst ok [where f = "(mod)", OF u(1)]) (use assms(3) in \<open>auto simp: fdiv_law int64_results\<close>)
  show "floor_quotient_res A [x, y] = (if overflow_pair (ival x) (ival y) then Inl Undef
      else Inr (int_value (ival x div ival y)))"
    unfolding floor_quotient_res_def
    by (subst ok [where f = "(div)", OF u(2)]) (use assms(3) in \<open>auto simp: fdiv_law int64_results\<close>)
qed

subsection \<open>\<open>gcd\<close> and \<open>lcm\<close>\<close>

lemma gcd_loop_ok:
  "0 \<le> a \<Longrightarrow> 0 \<le> b \<Longrightarrow> gcd_loop a b = Inr (gcd a b)"
proof (induction "nat b" arbitrary: a b rule: less_induct)
  case less
  show ?case
  proof (cases "b = 0")
    case True
    then show ?thesis using less.prems by (simp add: gcd_loop.simps)
  next
    case False
    have mod: "i64_mod a b = Inr (a mod b)"
      using False less.prems by (simp add: i64_mod_def signed_modulo_int_def sgn_if)
    have "gcd_loop b (a mod b) = Inr (gcd b (a mod b))"
      using less.hyps [of "a mod b" b] less.prems False by simp
    then show ?thesis using False mod
      by (subst gcd_loop.simps) (simp add: gcd.commute flip: gcd_red_int)
  qed
qed

lemma i64_gcd_ok:
  "a \<noteq> INT64_MIN \<Longrightarrow> b \<noteq> INT64_MIN \<Longrightarrow> i64_gcd a b = Inr (gcd a b)"
  using gcd_loop_ok [of "\<bar>a\<bar>" "\<bar>b\<bar>"] by (auto simp: i64_gcd_def i64_neg_def abs_if split: if_splits)

lemma int64_gcd:
  assumes "int64 a" "int64 b" "a \<noteq> INT64_MIN" "b \<noteq> INT64_MIN"
  shows "int64 (gcd a b) \<and> gcd a b \<noteq> INT64_MIN"
proof (cases "a = 0")
  case True
  then show ?thesis using assms by (auto simp: int64_def INT64_MIN_def INT64_MAX_def)
next
  case False
  then have "gcd a b \<le> \<bar>a\<bar>" using gcd_le1_int [of "\<bar>a\<bar>" b] by simp
  moreover have "0 \<le> gcd a b" by simp
  ultimately show ?thesis using assms unfolding int64_def INT64_MIN_def INT64_MAX_def by linarith
qed

text \<open>The accumulator of the loop: a fixnum, or the GMP integer once it has switched.\<close>

fun acc_val :: "int \<Rightarrow> int option \<Rightarrow> int" where
  "acc_val acc None = acc"
| "acc_val acc (Some z) = z"

lemma integer_guard:
  "wf_integer v \<Longrightarrow> (\<not> is_int v \<and> (case v of VBigint z \<Rightarrow> False | _ \<Rightarrow> True)) = False"
  by (elim wf_integer_cases) simp_all

lemma gcd_args_ok:
  assumes "\<forall>v\<in>set vs. wf_integer v" "0 \<le> acc_val acc big" "int64 acc"
  shows "gcd_args A acc big vs = Inr (int_value (gcd (acc_val acc big) (Gcd (ival ` set vs))))"
  using assms
proof (induction vs arbitrary: acc big)
  case Nil
  then show ?case by (cases big) (simp_all add: int_value_def make_bigint_int_value)
next
  case (Cons v vs)
  have v: "wf_integer v" using Cons.prems by simp
  have set: "gcd (gcd a (ival v)) (Gcd (ival ` set vs)) = gcd a (Gcd (ival ` set (v # vs)))" for a
    by (simp add: gcd.assoc)
  show ?case
  proof (cases "big = None \<and> is_int v \<and> int_of v \<noteq> INT64_MIN \<and> acc \<noteq> INT64_MIN")
    case True
    with wf_integer_small [OF v] have i: "int_of v = ival v" "int64 (ival v)" "ival v \<noteq> INT64_MIN" by auto
    have "gcd_args A (gcd acc (ival v)) None vs =
        Inr (int_value (gcd (gcd acc (ival v)) (Gcd (ival ` set vs))))"
      using Cons.IH [where acc = "gcd acc (ival v)" and big = None] Cons.prems True i
        int64_gcd [of acc "ival v"] by simp
    with True i i64_gcd_ok [of acc "ival v"] set show ?thesis by simp
  next
    case False
    have "gcd_args A acc (Some (gcd (acc_val acc big) (ival v))) vs =
        Inr (int_value (gcd (gcd (acc_val acc big) (ival v)) (Gcd (ival ` set vs))))"
      using Cons.IH [where big = "Some (gcd (acc_val acc big) (ival v))" and acc = acc] Cons.prems by simp
    moreover have "gcd_args A acc big (v # vs) = gcd_args A acc (Some (gcd (acc_val acc big) (ival v))) vs"
      using False integer_guard [OF v]
      by (cases big) (auto simp: wf_integer_mpz [OF v] gcd_law)
    ultimately show ?thesis using set by simp
  qed
qed

lemma div_abs_gcd: "\<bar>a * b div gcd a b\<bar> = \<bar>a * b\<bar> div gcd a b" for a b :: int
  by (simp add: abs_div)

lemma lcm_small_ok:
  assumes "0 \<le> acc" "i \<noteq> INT64_MIN" "int64 acc" "int64 i"
  shows "lcm_small acc i = Inr (fit64 (lcm acc i))"
proof (cases "i = 0")
  case True
  then show ?thesis by (simp add: lcm_small_def fit64_def)
next
  case False
  have neq: "acc \<noteq> INT64_MIN" "\<bar>i\<bar> \<noteq> INT64_MIN" using assms(1) by (auto simp: INT64_MIN_def)
  have g: "gcd acc i > 0" using False by (simp add: gcd_pos_int)
  then have "i64_div acc (gcd acc i) = Inr (acc div gcd acc i)"
    using assms(1) neq by (simp add: i64_div_def signed_divide_int_def sgn_if)
  moreover have "acc div gcd acc i * \<bar>i\<bar> = lcm acc i"
    using assms(1) by (simp add: lcm_gcd dvd_div_mult abs_mult div_abs_gcd)
  moreover have "(if i < 0 then - i else i) = \<bar>i\<bar>" by simp
  ultimately show ?thesis using False i64_gcd_ok [OF neq]
    by (simp only: lcm_small_def Let_def) simp
qed

lemma lcm_big_ok: "\<bar>lcm_big A z b\<bar> = lcm z b"
proof (cases "b = 0")
  case True
  then show ?thesis by (simp add: lcm_big_def zsgn_law)
next
  case False
  then have "gcd z b \<noteq> 0" by simp
  then have "lcm_big A z b = z div gcd z b * b"
    using False by (simp add: lcm_big_def zsgn_law gcd_law zmul_law divexact_law sgn_0_0)
  moreover have "\<bar>z div gcd z b * b\<bar> = lcm z b"
    by (simp add: lcm_gcd dvd_div_mult)
  ultimately show ?thesis by simp
qed

lemma lcm_args_ok:
  assumes "\<forall>v\<in>set vs. wf_integer v" "big = None \<Longrightarrow> 0 \<le> acc" "int64 acc"
  shows "lcm_args A acc big vs = Inr (int_value (lcm (acc_val acc big) (Lcm (ival ` set vs))))"
  using assms
proof (induction vs arbitrary: acc big)
  case Nil
  then show ?case by (cases big) (simp_all add: int_value_def make_bigint_int_value zabs_law)
next
  case (Cons v vs)
  have v: "wf_integer v" using Cons.prems by simp
  have set: "lcm (lcm a (ival v)) (Lcm (ival ` set vs)) = lcm a (Lcm (ival ` set (v # vs)))" for a
    by (simp add: lcm.assoc)
  have big_step: "lcm_args A acc big (v # vs) = Inr (int_value (lcm (acc_val acc big) (Lcm (ival ` set (v # vs)))))"
    if "lcm_args A acc big (v # vs) = lcm_args A acc (Some (lcm_big A (acc_val acc big) (ival v))) vs"
  proof -
    have "lcm (lcm_big A (acc_val acc big) (ival v)) y = lcm (lcm (acc_val acc big) (ival v)) y" for y
      using lcm_big_ok [of "acc_val acc big" "ival v"] by (metis abs_lcm_int lcm_abs1_int)
    with Cons.IH [where big = "Some (lcm_big A (acc_val acc big) (ival v))" and acc = acc] Cons.prems that set
    show ?thesis by simp
  qed
  show ?case
  proof (cases "big = None \<and> is_int v \<and> int_of v \<noteq> INT64_MIN \<and> acc \<noteq> INT64_MIN")
    case True
    with wf_integer_small [OF v] have i: "int_of v = ival v" "int64 (ival v)" "ival v \<noteq> INT64_MIN" by auto
    note small = lcm_small_ok [of acc "ival v", OF _ i(3) Cons.prems(3) i(2)]
    show ?thesis
    proof (cases "int64 (lcm acc (ival v))")
      case True
      have "lcm_args A acc big (v # vs) = lcm_args A (lcm acc (ival v)) None vs"
        using \<open>big = None \<and> _\<close> integer_guard [OF v] small Cons.prems(2) True i by (simp add: fit64_def)
      with Cons.IH [where acc = "lcm acc (ival v)" and big = None] Cons.prems True set
        \<open>big = None \<and> _\<close> show ?thesis by simp
    next
      case False
      have "lcm_args A acc big (v # vs) = lcm_args A acc (Some (lcm_big A (acc_val acc big) (ival v))) vs"
        using \<open>big = None \<and> _\<close> integer_guard [OF v] small Cons.prems(2) False i
        by (simp add: fit64_def wf_integer_mpz [OF v])
      then show ?thesis by (rule big_step)
    qed
  next
    case False
    then have "lcm_args A acc big (v # vs) = lcm_args A acc (Some (lcm_big A (acc_val acc big) (ival v))) vs"
      using integer_guard [OF v] by (cases big) (auto simp: wf_integer_mpz [OF v])
    then show ?thesis by (rule big_step)
  qed
qed

end

end
