(* ===== verification/Num_Spec.thy ===== *)
theory Num_Spec
  imports Int_Props
begin

text \<open>
  The numeric tower and the integer builtins against the operations of the rational numbers, the
  Gaussian rationals and the integers.
\<close>

text \<open>C4. Exact real arithmetic.  On two exact numbers in canonical form, \<open>num_add\<close>, \<open>num_sub\<close> and
  \<open>num_mul\<close> return (never abort, never overflow) the canonical representation of the rational sum,
  difference and product, and so does \<open>num_div\<close> for the quotient unless the divisor is zero, when
  it aborts.\<close>

theorem exact_arithmetic:
  assumes "gmp_spec A" "wf_exact x" "wf_exact y"
  shows "(\<exists>r. num_add A x y = Inr r \<and> wf_exact r \<and> exact_val r = exact_val x + exact_val y) \<and>
    (\<exists>r. num_sub A x y = Inr r \<and> wf_exact r \<and> exact_val r = exact_val x - exact_val y) \<and>
    (\<exists>r. num_mul A x y = Inr r \<and> wf_exact r \<and> exact_val r = exact_val x * exact_val y) \<and>
    (if exact_val y = 0 then num_div A x y = Inl (Abort ''/: division by zero'')
     else \<exists>r. num_div A x y = Inr r \<and> wf_exact r \<and> exact_val r = exact_val x / exact_val y)"
  using gmp_spec.num_add_exact [OF assms] gmp_spec.num_sub_exact [OF assms]
    gmp_spec.num_mul_exact [OF assms] gmp_spec.real_div_exact [OF assms]
    wf_exact_kind [OF assms(2)] wf_exact_kind [OF assms(3)]
  by (simp add: num_div_def)

text \<open>\<open>9223372036854775807 + 1\<close> leaves the fixnums; \<open>1/2 * 2\<close> comes back to them.\<close>

theorem exact_arithmetic_witness:
  "(\<exists>r. num_add reference_arith (VInt 9223372036854775807) (VInt 1) = Inr r \<and> wf_exact r \<and>
      exact_val r = 9223372036854775808) \<and>
   (\<exists>r. num_mul reference_arith (VRational 1 2) (VInt 2) = Inr r \<and> wf_exact r \<and> exact_val r = 1) \<and>
   num_div reference_arith (VRational 1 2) (VInt 0) = Inl (Abort ''/: division by zero'')"
proof -
  have wf: "wf_exact (VInt 9223372036854775807)" "wf_exact (VInt 1)" "wf_exact (VInt 2)"
    "wf_exact (VInt 0)" "wf_exact (VRational 1 2)"
    by (simp_all add: int64_def INT64_MIN_def INT64_MAX_def)
  note ok = exact_arithmetic [OF ref.gmp_spec_axioms]
  show ?thesis using ok [OF wf(1,2)] ok [OF wf(5,3)] ok [OF wf(5,4)] by auto
qed

text \<open>Exact complex arithmetic.  On numbers whose components are exact, \<open>num_add\<close>, \<open>num_sub\<close> and
  \<open>num_mul\<close> are the operations of the Gaussian rationals, with a result that is again in canonical
  form: a complex number only if its imaginary part is not zero.\<close>

theorem complex_arithmetic:
  assumes "gmp_spec A" "wf_gauss x" "wf_gauss y"
  shows "\<exists>s d p. num_add A x y = Inr s \<and> num_sub A x y = Inr d \<and> num_mul A x y = Inr p \<and>
    wf_gauss s \<and> re_val s = re_val x + re_val y \<and> im_val s = im_val x + im_val y \<and>
    wf_gauss d \<and> re_val d = re_val x - re_val y \<and> im_val d = im_val x - im_val y \<and>
    wf_gauss p \<and> re_val p = re_val x * re_val y - im_val x * im_val y \<and>
    im_val p = re_val x * im_val y + im_val x * re_val y"
  using gmp_spec.num_add_gauss [OF assms] gmp_spec.num_sub_gauss [OF assms]
    gmp_spec.num_mul_gauss [OF assms] by blast

theorem complex_arithmetic_witness:
  "\<exists>p. num_mul reference_arith (VComplex (VInt 1) (VInt 2)) (VComplex (VInt 1) (VInt (-2))) = Inr p \<and>
     wf_gauss p \<and> re_val p = 5 \<and> im_val p = 0"
  using complex_arithmetic [OF ref.gmp_spec_axioms,
      of "VComplex (VInt 1) (VInt 2)" "VComplex (VInt 1) (VInt (-2))"]
  by (auto simp: wf_gauss_def re_val_def im_val_def int64_def INT64_MIN_def INT64_MAX_def)

text \<open>Complex division.  \<open>x / y\<close> is the quotient of the Gaussian rationals unless the double the
  code converts \<open>|y|\<^sup>2\<close> to compares equal to zero or \<open>y\<close> is zero; then it aborts.\<close>

theorem complex_division:
  assumes "gmp_spec A" "wf_gauss x" "wf_gauss y" "is_complex x \<or> is_complex y"
  shows "\<exists>denom d. wf_exact denom \<and> exact_val denom = norm2 y \<and> as_double A denom ''/'' = Inr d \<and>
    (if fp_eq A d 0 \<or> norm2 y = 0 then num_div A x y = Inl (Abort ''/: division by zero'')
     else \<exists>r. num_div A x y = Inr r \<and> wf_gauss r \<and>
       re_val r = (re_val x * re_val y + im_val x * im_val y) / norm2 y \<and>
       im_val r = (im_val x * re_val y - re_val x * im_val y) / norm2 y)"
  using gmp_spec.complex_div_gauss [OF assms(1-3)] assms(4)
  unfolding num_div_def by simp

theorem complex_division_witness:
  "\<exists>r. num_div reference_arith (VInt 5) (VComplex (VInt 1) (VInt 2)) = Inr r \<and> wf_gauss r \<and>
     re_val r = 1 \<and> im_val r = -2"
proof -
  let ?y = "VComplex (VInt 1) (VInt 2)"
  have wf: "wf_gauss (VInt 5)" "wf_gauss ?y" "is_complex (VInt 5) \<or> is_complex ?y"
    by (simp_all add: wf_gauss_def int64_def INT64_MIN_def INT64_MAX_def)
  have n: "norm2 ?y = 5" "re_val (VInt 5) = 5" "im_val (VInt 5) = 0" "re_val ?y = 1" "im_val ?y = 2"
    by (simp_all add: norm2_def re_val_def im_val_def)
  from complex_division [OF ref.gmp_spec_axioms wf]
  obtain denom d where *: "wf_exact denom" "exact_val denom = 5"
    "as_double reference_arith denom ''/'' = Inr d"
    "if fp_eq reference_arith d 0 \<or> (5::rat) = 0
     then num_div reference_arith (VInt 5) ?y = Inl (Abort ''/: division by zero'')
     else \<exists>r. num_div reference_arith (VInt 5) ?y = Inr r \<and> wf_gauss r \<and>
       re_val r = (5 * 1 + 0 * 2) / 5 \<and> im_val r = (0 * 1 - 5 * 2) / 5"
    unfolding n by blast
  have "denom = VInt 5" using wf_exact_inject [of denom "VInt 5"] *(1,2) by simp
  with *(3) have "\<not> fp_eq reference_arith d 0" by (auto simp: reference_arith_def)
  with *(4) show ?thesis by simp
qed

text \<open>Exact comparison.  The five comparisons of exact reals are those of the rational numbers, and
  \<open>num_eq\<close> on numbers with exact components compares both components.\<close>

theorem exact_comparison:
  assumes "gmp_spec A" "wf_exact x" "wf_exact y" "wf_gauss u" "wf_gauss v"
  shows "num_lt A x y = Inr (exact_val x < exact_val y) \<and> num_le A x y = Inr (exact_val x \<le> exact_val y) \<and>
    num_gt A x y = Inr (exact_val x > exact_val y) \<and> num_ge A x y = Inr (exact_val x \<ge> exact_val y) \<and>
    num_eq A u v = Inr (re_val u = re_val v \<and> im_val u = im_val v)"
  using gmp_spec.num_cmp_exact [OF assms(1-3)] gmp_spec.num_eq_gauss [OF assms(1,4,5)] by simp

theorem exact_comparison_witness:
  "num_lt reference_arith (VRational 1 3) (VRational 1 2) = Inr True \<and>
   num_eq reference_arith (VComplex (VInt 1) (VInt 2)) (VInt 1) = Inr False"
  using exact_comparison [OF ref.gmp_spec_axioms, of "VRational 1 3" "VRational 1 2"
      "VComplex (VInt 1) (VInt 2)" "VInt 1"]
  by (simp add: wf_gauss_def re_val_def im_val_def)

text \<open>The inlined fast paths of the dispatch loop are the functions of the tower they replace.\<close>

theorem fast_paths_agree:
  "fast_add A x y = num_add A x y \<and> fast_sub A x y = num_sub A x y \<and> fast_mul A x y = num_mul A x y \<and>
   fast_lt A x y = num_lt A x y \<and> fast_le A x y = num_le A x y \<and> fast_gt A x y = num_gt A x y \<and>
   fast_ge A x y = num_ge A x y \<and> fast_eq A x y = num_eq A x y"
  by (simp add: fast_arith fast_compare)

text \<open>C7. Integer division.  On two integers of any size with a nonzero divisor, \<open>quotient\<close> and
  \<open>remainder\<close> are the truncated pair and \<open>floor-quotient\<close> and \<open>modulo\<close> the rounded-down pair, the
  result a fixnum where it fits; only \<open>INT64_MIN\<close> by \<open>-1\<close> has no result (the C division overflows).
  A zero divisor aborts.\<close>

theorem integer_division:
  assumes "gmp_spec A" "wf_integer x" "wf_integer y"
  shows "if ival y = 0 then
      quotient_res A [x, y] = Inl (Abort ''quotient: division by zero'') \<and>
      remainder_res A [x, y] = Inl (Abort ''remainder: division by zero'') \<and>
      modulo_res A [x, y] = Inl (Abort ''modulo: division by zero'') \<and>
      floor_quotient_res A [x, y] = Inl (Abort ''floor-quotient: division by zero'')
    else if overflow_pair (ival x) (ival y) then
      quotient_res A [x, y] = Inl Undef \<and> remainder_res A [x, y] = Inl Undef \<and>
      modulo_res A [x, y] = Inl Undef \<and> floor_quotient_res A [x, y] = Inl Undef
    else
      quotient_res A [x, y] = Inr (int_value (ival x sdiv ival y)) \<and>
      remainder_res A [x, y] = Inr (int_value (ival x smod ival y)) \<and>
      modulo_res A [x, y] = Inr (int_value (ival x mod ival y)) \<and>
      floor_quotient_res A [x, y] = Inr (int_value (ival x div ival y))"
  using gmp_spec.division_builtins [OF assms] gmp_spec.division_by_zero [OF assms]
  by simp

theorem integer_division_witness:
  "quotient_res reference_arith [VInt (-7), VInt 2] = Inr (VInt (-3)) \<and>
   modulo_res reference_arith [VInt (-7), VInt 2] = Inr (VInt 1) \<and>
   quotient_res reference_arith [VInt INT64_MIN, VInt (-1)] = Inl Undef"
proof -
  have wf: "wf_integer (VInt (-7))" "wf_integer (VInt 2)" "wf_integer (VInt INT64_MIN)" "wf_integer (VInt (-1))"
    by (simp_all add: wf_integer_def int_value_def int64_def INT64_MIN_def INT64_MAX_def)
  note ok = integer_division [OF ref.gmp_spec_axioms]
  show ?thesis using ok [OF wf(1,2)] ok [OF wf(3,4)]
    by (simp add: overflow_pair_def int_value_def int64_def INT64_MIN_def INT64_MAX_def signed_divide_int_def)
qed

text \<open>C13. \<open>gcd\<close> and \<open>lcm\<close> of any number of integers of any size are the greatest common divisor and
  the least common multiple of all of them, a fixnum where it fits; the loops never abort and never
  overflow, whether they stay in \<open>int64_t\<close> or move to GMP on the way.\<close>

theorem gcd_lcm_correct:
  assumes "gmp_spec A" "\<forall>v\<in>set args. wf_integer v"
  shows "bi_gcd A args = retM (int_value (Gcd (ival ` set args))) \<and>
    bi_lcm A args = retM (int_value (Lcm (ival ` set args)))"
  using gmp_spec.gcd_args_ok [OF assms, of 0 None] gmp_spec.lcm_args_ok [OF assms, of None 1]
  by (simp add: bi_gcd_def bi_lcm_def)

theorem gcd_lcm_correct_witness:
  "bi_gcd reference_arith [VInt 12, VInt (-18)] = retM (VInt 6) \<and>
   bi_lcm reference_arith [VInt 4611686018427387904, VInt 3] = retM (VBigint 13835058055282163712)"
proof -
  have wf: "\<forall>v\<in>set [VInt 12, VInt (-18)]. wf_integer v"
    "\<forall>v\<in>set [VInt 4611686018427387904, VInt 3]. wf_integer v"
    by (simp_all add: wf_integer_def int_value_def int64_def INT64_MIN_def INT64_MAX_def)
  have "gcd (12::int) 18 = 6" "lcm (4611686018427387904::int) 3 = 13835058055282163712" by code_simp+
  then show ?thesis
    using gcd_lcm_correct [OF ref.gmp_spec_axioms wf(1)] gcd_lcm_correct [OF ref.gmp_spec_axioms wf(2)]
    by (simp add: int_value_def int64_def INT64_MIN_def INT64_MAX_def)
qed

end
