(* ===== verification/VM_Core.thy ===== *)
theory VM_Core
  imports Num_Builtins
begin

text \<open>
  The parts of icecreme/vm.c the dispatch loop is made of: the global table, upvalues and closures,
  unwind actions and continuations, record types and their callables, \<open>car\<close>/\<open>cdr\<close> chains,
  quasiquote templates, \<open>case\<close> tables, and the call machinery.

  \<^item> \<open>ap\<close> is \<open>creme_apply\<close> and \<open>bt\<close> the functions behind the \<open>T_BUILTIN\<close> pointers; both are tied
    to the dispatch loop in \<open>VM_Step\<close>.
  \<^item> A frame pointer is the index of the frame.  The array a builtin gets, \<open>&vm->stack[arg_base]\<close>,
    is read when the call is made.
  \<^item> A C loop that follows \<open>cdr\<close> pointers is a walk with one unit of fuel for every pair of the
    heap and one more: a longer walk meets a pair twice, where the C loop does not end, and is
    \<open>Timeout\<close>.
\<close>

subsection \<open>Globals\<close>

definition cstrlen :: "bytes \<Rightarrow> nat" where
  "cstrlen s = length (takeWhile (\<lambda>c. c \<noteq> CHR 0x00) s)"

definition creme_global_intern :: "bytes \<Rightarrow> int M" where
  "creme_global_intern name = (\<lambda>s.
     case find (\<lambda>i. cstrlen (gc_name (vm_globals s i)) = length name \<and>
                 take (length name) (gc_name (vm_globals s i)) = name) [0..<vm_n_globals s] of
       Some i \<Rightarrow> Done (int i) s
     | None \<Rightarrow>
        if vm_n_globals s \<ge> CREME_GLOBALS_CAP
        then creme_abort (''icecreme: global table full (CREME_GLOBALS_CAP='' @
               dec (int CREME_GLOBALS_CAP) @ '')'') s
        else (let slot = vm_n_globals s in
          Done (int slot) (s\<lparr>vm_globals := (vm_globals s)(slot :=
              \<lparr> gc_name = name, gc_value = VNil, gc_bound = False \<rparr>),
            vm_n_globals := slot + 1\<rparr>)))"

definition bind_global :: "bytes \<Rightarrow> val \<Rightarrow> unit M" where
  "bind_global name v =
     bindM (creme_global_intern name) (\<lambda>slot.
     bindM (get_global slot) (\<lambda>cell.
     set_global slot (cell\<lparr>gc_value := v, gc_bound := True\<rparr>)))"

definition creme_register_builtin :: "bytes \<Rightarrow> bytes \<Rightarrow> unit M" where
  "creme_register_builtin name fn = bind_global name (VBuiltin fn)"

definition bound_global :: "int \<Rightarrow> val M" where
  "bound_global slot =
     bindM (get_global slot) (\<lambda>cell.
     bindM (guardM (\<not> gc_bound cell) (''unbound variable: '' @ gc_name cell)) (\<lambda>_.
     retM (gc_value cell)))"

definition global_is_current_closure :: "int \<Rightarrow> frame \<Rightarrow> bool M" where
  "global_is_current_closure slot fr =
     bindM (get_global slot) (\<lambda>cell.
     retM (gc_bound cell \<and> (case gc_value cell of VClosure c \<Rightarrow> fr_closure fr = Some c | _ \<Rightarrow> False)))"

subsection \<open>Upvalues and closures\<close>

definition upvalue_get :: "nat \<Rightarrow> val M" where
  "upvalue_get p =
     bindM (derefM h_upvalues p) (\<lambda>u.
     case uv_slot u of Some i \<Rightarrow> get_stack (int i) | None \<Rightarrow> retM (uv_closed u))"

definition set_upvalue :: "nat \<Rightarrow> upvalue \<Rightarrow> unit M" where
  "set_upvalue p u = modM (\<lambda>s. s\<lparr>h_upvalues := (h_upvalues s)[p := u]\<rparr>)"

definition upvalue_close :: "nat \<Rightarrow> unit M" where
  "upvalue_close p =
     bindM (derefM h_upvalues p) (\<lambda>u.
     case uv_slot u of
       Some i \<Rightarrow> bindM (get_stack (int i)) (\<lambda>v.
         set_upvalue p \<lparr> uv_slot = None, uv_closed = v \<rparr>)
     | None \<Rightarrow> retM ())"

definition frame_add_opened :: "nat \<Rightarrow> nat \<Rightarrow> unit M" where
  "frame_add_opened i p = modM (upd_frame i (\<lambda>f. f\<lparr>fr_opened := fr_opened f @ [p]\<rparr>))"

definition close_upvalues :: "nat \<Rightarrow> unit M" where
  "close_upvalues i =
     bindM (getM (\<lambda>s. fr_opened (vm_frames s i))) (\<lambda>ps.
     bindM (forM ps upvalue_close) (\<lambda>_.
     modM (upd_frame i (\<lambda>f. f\<lparr>fr_opened := []\<rparr>))))"

text \<open>\<open>frame->closure->upvalues[i]\<close>; a top-level frame has no closure.\<close>

definition frame_upvalue :: "frame \<Rightarrow> int \<Rightarrow> nat M" where
  "frame_upvalue fr i =
     (case fr_closure fr of
        None \<Rightarrow> stuckM
      | Some c \<Rightarrow> bindM (derefM h_closures c) (\<lambda>cl. indexM (cl_upvalues cl) i))"

definition capture_upvalue :: "nat \<Rightarrow> upval_desc \<Rightarrow> nat M" where
  "capture_upvalue i d =
     bindM (getM (\<lambda>s. vm_frames s i)) (\<lambda>fr.
     if ud_from_parent_local d then
       (\<lambda>s. let slot = fr_base fr + ud_index d; p = length (h_upvalues s) in
          if 0 \<le> slot \<and> slot < int (vm_stack_cap s)
          then bindM (frame_add_opened i p) (\<lambda>_. retM p)
            (s\<lparr>h_upvalues := h_upvalues s @ [\<lparr> uv_slot = Some (nat slot), uv_closed = VNil \<rparr>]\<rparr>)
          else Stuck)
     else frame_upvalue fr (ud_index d))"

definition make_closure :: "nat \<Rightarrow> int \<Rightarrow> nat M" where
  "make_closure i proto_idx =
     bindM (getM (\<lambda>s. vm_frames s i)) (\<lambda>fr.
     bindM (derefM h_chunks (fr_chunk fr)) (\<lambda>ch.
     bindM (indexM (ch_protos ch) proto_idx) (\<lambda>proto.
     bindM (derefM h_chunks proto) (\<lambda>pch.
     bindM (mapM (capture_upvalue i) (ch_upvalues pch)) (\<lambda>ups.
     (\<lambda>s. Done (length (h_closures s))
        (s\<lparr>h_closures := h_closures s @ [\<lparr> cl_chunk = proto, cl_upvalues = ups \<rparr>]\<rparr>)))))))"

subsection \<open>Unwind actions and continuations\<close>

definition set_parameter :: "nat \<Rightarrow> val \<Rightarrow> unit M" where
  "set_parameter p v =
     bindM (derefM h_parameters p) (\<lambda>pm.
     modM (\<lambda>s. s\<lparr>h_parameters := (h_parameters s)[p := pm\<lparr>pm_value := v\<rparr>]\<rparr>))"

definition run_unwind_action :: "(val \<Rightarrow> val list \<Rightarrow> val M) \<Rightarrow> unwind_action \<Rightarrow> unit M" where
  "run_unwind_action ap act =
     (case act of
        UnwindDynamicWind after \<Rightarrow> bindM (ap after []) (\<lambda>_. retM ())
      | UnwindExcHandler mark \<Rightarrow> modM (\<lambda>s. s\<lparr>vm_n_exc_handlers := mark\<rparr>)
      | UnwindParams ps \<Rightarrow> forM ps (\<lambda>(p, v). set_parameter p v))"

definition pop_unwind :: "unwind_action M" where
  "pop_unwind = (\<lambda>s. if vm_n_unwind s = 0 then Stuck
     else Done (vm_unwind_stack s (vm_n_unwind s - 1)) (s\<lparr>vm_n_unwind := vm_n_unwind s - 1\<rparr>))"

definition push_unwind :: "unwind_action \<Rightarrow> unit M" where
  "push_unwind act = (\<lambda>s.
     if vm_n_unwind s \<ge> CREME_UNWIND_CAP
     then creme_abort (''icecreme: parameterize/dynamic-wind unwind stack full (CREME_UNWIND_CAP='' @
            dec (int CREME_UNWIND_CAP) @ '')'') s
     else Done () (s\<lparr>vm_unwind_stack := (vm_unwind_stack s)(vm_n_unwind s := act),
            vm_n_unwind := vm_n_unwind s + 1\<rparr>))"

text \<open>\<open>while (vm->n_unwind > mark)\<close>: an action may push and pop others, so the loop has fuel.\<close>

primrec drain_unwind :: "nat \<Rightarrow> (val \<Rightarrow> val list \<Rightarrow> val M) \<Rightarrow> nat \<Rightarrow> unit M" where
  "drain_unwind 0 ap mark = (\<lambda>s. if vm_n_unwind s > mark then Timeout else Done () s)"
| "drain_unwind (Suc n) ap mark = (\<lambda>s.
     if vm_n_unwind s > mark
     then bindM pop_unwind (\<lambda>act. bindM (run_unwind_action ap act) (\<lambda>_. drain_unwind n ap mark)) s
     else Done () s)"

definition close_frames :: "nat \<Rightarrow> unit M" where
  "close_frames d = (\<lambda>s. forM [d..<vm_depth s] close_upvalues s)"

definition invoke_continuation :: "nat \<Rightarrow> (val \<Rightarrow> val list \<Rightarrow> val M) \<Rightarrow> nat \<Rightarrow> val \<Rightarrow> 'a M" where
  "invoke_continuation fuel ap k arg =
     bindM (derefM h_conts k) (\<lambda>c.
     bindM (close_frames (k_depth c)) (\<lambda>_.
     bindM (drain_unwind fuel ap (k_unwind_mark c)) (\<lambda>_.
     (\<lambda>s. Longjmp (k_buf c)
        (s\<lparr>vm_depth := k_depth c, h_conts := (h_conts s)[k := c\<lparr>k_result := arg\<rparr>]\<rparr>)))))"

subsection \<open>Records\<close>

primrec list_walk :: "nat \<Rightarrow> val \<Rightarrow> (val list \<times> val) M" where
  "list_walk 0 v = (\<lambda>s. Timeout)"
| "list_walk (Suc n) v =
     (case v of
        VPair p \<Rightarrow> bindM (derefM h_pairs p) (\<lambda>c. bindM (list_walk n (snd c)) (\<lambda>(vs, tail).
          retM (fst c # vs, tail)))
      | _ \<Rightarrow> retM ([], v))"

definition list_items :: "val \<Rightarrow> (val list \<times> val) M" where
  "list_items v = (\<lambda>s. list_walk (Suc (length (h_pairs s))) v s)"

definition list_len :: "val \<Rightarrow> nat M" where
  "list_len v = bindM (list_items v) (\<lambda>(vs, tail). retM (length vs))"

primrec list_ref :: "nat \<Rightarrow> val \<Rightarrow> val M" where
  "list_ref 0 v =
     (case v of VPair p \<Rightarrow> bindM (derefM h_pairs p) (\<lambda>c. retM (fst c))
      | _ \<Rightarrow> creme_abort ''define-record-type: malformed form'')"
| "list_ref (Suc i) v =
     (case v of VPair p \<Rightarrow> bindM (derefM h_pairs p) (\<lambda>c. list_ref i (snd c))
      | _ \<Rightarrow> creme_abort ''define-record-type: malformed form'')"

definition sym_arg :: "val \<Rightarrow> bytes \<Rightarrow> bytes M" where
  "sym_arg v msg = (case v of VSym s \<Rightarrow> retM s | _ \<Rightarrow> creme_abort msg)"

text \<open>One field spec: name, accessor, and the mutator if there is one.\<close>

definition field_spec :: "val \<Rightarrow> (bytes \<times> bytes \<times> bytes option) M" where
  "field_spec spec =
     bindM (list_len spec) (\<lambda>n.
     bindM (guardM (n \<noteq> 2 \<and> n \<noteq> 3) ''define-record-type: bad field spec'') (\<lambda>_.
     bindM (list_ref 0 spec) (\<lambda>f.
     bindM (sym_arg f ''define-record-type: field name must be a symbol'') (\<lambda>fname.
     bindM (list_ref 1 spec) (\<lambda>a.
     bindM (sym_arg a ''define-record-type: accessor name must be a symbol'') (\<lambda>acc.
     if n = 3 then bindM (list_ref 2 spec) (\<lambda>m.
       bindM (sym_arg m ''define-record-type: mutator name must be a symbol'') (\<lambda>mut.
       retM (fname, acc, Some mut)))
     else retM (fname, acc, None)))))))"

definition find_index_of :: "'a \<Rightarrow> 'a list \<Rightarrow> nat" where
  "find_index_of x xs = length (takeWhile (\<lambda>y. y \<noteq> x) xs)"

definition new_record_callable :: "record_callable \<Rightarrow> val M" where
  "new_record_callable rc = (\<lambda>s. Done (VRecordCallable (length (h_record_callables s)))
     (s\<lparr>h_record_callables := h_record_callables s @ [rc]\<rparr>))"

text \<open>The accessor and mutator of field \<open>i\<close>, with their names.\<close>

definition field_callables :: "nat \<Rightarrow> nat \<times> bytes \<times> bytes \<times> bytes option \<Rightarrow> (bytes \<times> val) list M" where
  "field_callables ty = (\<lambda>(i, fname, acc, mut).
     bindM (new_record_callable \<lparr> rc_type = ty, rc_kind = RC_ACCESSOR,
       rc_ctor_field_indices = [], rc_field_index = i \<rparr>) (\<lambda>a.
     case mut of
       None \<Rightarrow> retM [(acc, a)]
     | Some m \<Rightarrow> bindM (new_record_callable \<lparr> rc_type = ty, rc_kind = RC_MUTATOR,
         rc_ctor_field_indices = [], rc_field_index = i \<rparr>) (\<lambda>mv. retM [(acc, a), (m, mv)])))"

definition build_record_bindings :: "val \<Rightarrow> (bytes \<times> val) list M" where
  "build_record_bindings form =
     (case form of
        VPair p \<Rightarrow>
          bindM (derefM h_pairs p) (\<lambda>fc. let parts = snd fc in
          bindM (list_items parts) (\<lambda>(items, rest).
          bindM (guardM (length items < 3) ''define-record-type: malformed'') (\<lambda>_.
          bindM (list_ref 0 parts) (\<lambda>ty.
          bindM (sym_arg ty ''define-record-type: type name must be a symbol'') (\<lambda>type_name.
          bindM (list_ref 1 parts) (\<lambda>ctor_spec.
          bindM (case ctor_spec of VPair q \<Rightarrow> derefM h_pairs q
                 | _ \<Rightarrow> creme_abort ''define-record-type: malformed constructor spec'') (\<lambda>cs.
          bindM (sym_arg (fst cs) ''define-record-type: constructor name must be a symbol'') (\<lambda>ctor_name.
          bindM (list_items (snd cs)) (\<lambda>(cfs, ctl).
          bindM (mapM (\<lambda>f. sym_arg f ''define-record-type: constructor field must be a symbol'') cfs)
            (\<lambda>ctor_fields.
          bindM (list_ref 2 parts) (\<lambda>pr.
          bindM (sym_arg pr ''define-record-type: predicate name must be a symbol'') (\<lambda>pred_name.
          bindM (mapM field_spec (drop 3 items)) (\<lambda>specs. let fields = map fst specs in
          bindM (guardM (\<not> set ctor_fields \<subseteq> set fields)
            ''define-record-type: constructor field is not a declared field'') (\<lambda>_.
          bindM (\<lambda>s. Done (length (h_record_types s)) (s\<lparr>h_record_types := h_record_types s @
              [\<lparr> rty_name = VSym type_name, rty_field_names = map VSym fields \<rparr>]\<rparr>)) (\<lambda>rt.
          bindM (new_record_callable \<lparr> rc_type = rt, rc_kind = RC_CTOR,
              rc_ctor_field_indices = map (\<lambda>f. find_index_of f fields) ctor_fields,
              rc_field_index = 0 \<rparr>) (\<lambda>ctor.
          bindM (new_record_callable \<lparr> rc_type = rt, rc_kind = RC_PRED,
              rc_ctor_field_indices = [], rc_field_index = 0 \<rparr>) (\<lambda>pred.
          bindM (mapM (field_callables rt) (zip [0..<length specs] specs)) (\<lambda>fcs.
          retM ((type_name, VRecordType rt) # (ctor_name, ctor) # (pred_name, pred) # concat fcs)))))))))))))))))))
      | _ \<Rightarrow> creme_abort ''define-record-type: malformed form'')"

fun name_bytes :: "val \<Rightarrow> bytes" where
  "name_bytes v = (case v of VSym s \<Rightarrow> s | _ \<Rightarrow> [])"

text \<open>\<open>r->fields[indices[i]] = args[i]\<close> for every constructor argument.\<close>

fun fill_fields :: "val list \<Rightarrow> nat list \<Rightarrow> val list \<Rightarrow> val list res" where
  "fill_fields fs (j # js) (v # vs) = (if j < length fs then fill_fields (fs[j := v]) js vs else Inl Undef)"
| "fill_fields fs [] vs = Inr fs"
| "fill_fields fs (j # js) [] = Inl Undef"

definition is_record_of :: "val \<Rightarrow> nat \<Rightarrow> bool M" where
  "is_record_of v ty =
     (case v of VRecord p \<Rightarrow> bindM (derefM h_records p) (\<lambda>r. retM (rec_type r = ty)) | _ \<Rightarrow> retM False)"

definition record_field :: "val \<Rightarrow> nat \<Rightarrow> val M" where
  "record_field v i =
     (case v of VRecord p \<Rightarrow> bindM (derefM h_records p) (\<lambda>r. indexM (rec_fields r) (int i)) | _ \<Rightarrow> stuckM)"

definition set_record_field :: "val \<Rightarrow> nat \<Rightarrow> val \<Rightarrow> unit M" where
  "set_record_field v i x =
     (case v of
        VRecord p \<Rightarrow> bindM (derefM h_records p) (\<lambda>r.
          if i < length (rec_fields r)
          then modM (\<lambda>s. s\<lparr>h_records := (h_records s)[p := r\<lparr>rec_fields := (rec_fields r)[i := x]\<rparr>]\<rparr>)
          else stuckM)
      | _ \<Rightarrow> stuckM)"

definition call_record_callable :: "nat \<Rightarrow> val list \<Rightarrow> val M" where
  "call_record_callable p args =
     bindM (derefM h_record_callables p) (\<lambda>rc.
     bindM (derefM h_record_types (rc_type rc)) (\<lambda>ty. let nargs = int (length args) in
     if rc_kind rc = RC_CTOR then
       bindM (guardM (nargs \<noteq> int (length (rc_ctor_field_indices rc)))
         (name_bytes (rty_name ty) @ '': expected '' @ dec (int (length (rc_ctor_field_indices rc))) @
          '' argument(s), got '' @ dec nargs)) (\<lambda>_.
       bindM (liftR (fill_fields (replicate (length (rty_field_names ty)) VNil)
                (rc_ctor_field_indices rc) args)) (\<lambda>fs.
       new_record (rc_type rc) fs))
     else if rc_kind rc = RC_PRED then
       bindM (creme_check_exact_args nargs 1 ''record predicate'') (\<lambda>_.
       bindM (is_record_of (args ! 0) (rc_type rc)) (\<lambda>b. retM (VBool b)))
     else if rc_kind rc = RC_ACCESSOR then
       bindM (creme_check_exact_args nargs 1 ''record accessor'') (\<lambda>_.
       bindM (is_record_of (args ! 0) (rc_type rc)) (\<lambda>b.
       bindM (guardM (\<not> b) (''record accessor: expected a '' @ name_bytes (rty_name ty) @ '' record'')) (\<lambda>_.
       record_field (args ! 0) (rc_field_index rc))))
     else if rc_kind rc = RC_MUTATOR then
       bindM (creme_check_exact_args nargs 2 ''record mutator'') (\<lambda>_.
       bindM (is_record_of (args ! 0) (rc_type rc)) (\<lambda>b.
       bindM (guardM (\<not> b) (''record mutator: expected a '' @ name_bytes (rty_name ty) @ '' record'')) (\<lambda>_.
       bindM (set_record_field (args ! 0) (rc_field_index rc) (args ! 1)) (\<lambda>_. retM VNil))))
     else creme_abort (''icecreme: bad RecordCallable kind '' @ dec (rc_kind rc))))"

end
