(* ===== verification/VM_Calls.thy ===== *)
theory VM_Calls
  imports VM_Core
begin

text \<open>
  \<open>car\<close>/\<open>cdr\<close> chains, quasiquote templates and \<open>case\<close> tables of icecreme/vm.c, then its call
  machinery: \<open>bind_args\<close>, \<open>deliver_return\<close>, \<open>try_self_tail_call\<close>, \<open>dispatch_call\<close>, the choice of a
  quickened opcode, and the frame \<open>creme_apply\<close> pushes.  A result \<open>Some v\<close> of a call is the C
  result 1 with \<open>*out = v\<close>: the frame this dispatch was entered for has returned.
\<close>

subsection \<open>\<open>car\<close>/\<open>cdr\<close> chains\<close>

definition cxr_abs_cmpzero_deopt_target :: "chunk \<Rightarrow> int \<Rightarrow> val M" where
  "cxr_abs_cmpzero_deopt_target ch idx =
     bindM (guardM (idx < 0 \<or> idx \<ge> int (length (ch_consts ch)))
       (''icecreme: bad deopt-target const index '' @ dec idx @ '' (n_consts='' @
        dec (int (length (ch_consts ch))) @ '')'')) (\<lambda>_.
     let c = ch_consts ch ! nat idx;
         resolve = (\<lambda>name. bindM (creme_global_intern name) (\<lambda>slot. bindM (get_global slot) (\<lambda>cell.
           bindM (guardM (\<not> gc_bound cell) (''icecreme: deopt target '' @ [CHR 0x27] @ name @
             [CHR 0x27] @ '' is not bound'')) (\<lambda>_. retM (gc_value cell)))))
     in case c of
          VBuiltin f \<Rightarrow> retM c
        | VSym name \<Rightarrow> resolve name
        | VStr p \<Rightarrow> bindM (derefM h_strs p) resolve
        | _ \<Rightarrow> creme_abort (''icecreme: bad deopt-target constant (tag '' @ dec (tag_of c) @ '')''))"

text \<open>The loop of \<open>exec_cxr\<close>; its fuel covers every halving of a 32-bit code and one visit of
  every pair (a code that is not positive never becomes 1).\<close>

primrec cxr_loop :: "nat \<Rightarrow> int \<Rightarrow> val \<Rightarrow> val option M" where
  "cxr_loop 0 code v = (if code = 1 then retM (Some v) else (\<lambda>s. Timeout))"
| "cxr_loop (Suc n) code v =
     (if code = 1 then retM (Some v)
      else case v of
        VPair p \<Rightarrow> bindM (derefM h_pairs p) (\<lambda>c.
          cxr_loop n (code div 2) (if code mod 2 = 1 then fst c else snd c))
      | _ \<Rightarrow> retM None)"

definition exec_cxr :: "(val \<Rightarrow> val list \<Rightarrow> val M) \<Rightarrow> chunk \<Rightarrow> val \<Rightarrow> int \<Rightarrow> int \<Rightarrow> val M" where
  "exec_cxr ap ch v code deopt = (\<lambda>s.
     bindM (cxr_loop (33 + length (h_pairs s)) code v) (\<lambda>r.
     case r of
       Some x \<Rightarrow> retM x
     | None \<Rightarrow> bindM (cxr_abs_cmpzero_deopt_target ch deopt) (\<lambda>f. ap f [v])) s)"

subsection \<open>Quasiquote\<close>

text \<open>The result carries the new value of \<open>*idx\<close>, the number of holes used so far.\<close>

fun creme_build_qq :: "qq_template \<Rightarrow> int \<Rightarrow> nat \<Rightarrow> (val \<times> nat) M"
  and qq_build_items :: "qq_template list \<Rightarrow> int \<Rightarrow> nat \<Rightarrow> (val list \<times> nat) M" where
  "creme_build_qq (QQConst v) hole_base idx = retM (v, idx)"
| "creme_build_qq QQHole hole_base idx =
     bindM (get_stack (hole_base + int idx)) (\<lambda>v. retM (v, idx + 1))"
| "creme_build_qq (QQList items tail) hole_base idx =
     bindM (qq_build_items items hole_base idx) (\<lambda>(buf, i).
     bindM (creme_build_qq tail hole_base i) (\<lambda>(t, j).
     bindM (cons_list buf t) (\<lambda>r. retM (r, j))))"
| "creme_build_qq (QQVector items) hole_base idx =
     bindM (qq_build_items items hole_base idx) (\<lambda>(buf, i).
     bindM (new_vector buf) (\<lambda>v. retM (v, i)))"
| "creme_build_qq QQSplice hole_base idx = retM (VNil, idx)"
| "qq_build_items [] hole_base idx = retM ([], idx)"
| "qq_build_items (item # items) hole_base idx =
     bindM (if item = QQSplice then
              bindM (get_stack (hole_base + int idx)) (\<lambda>l.
              bindM (list_items l) (\<lambda>(vs, tail).
              bindM (guardM (tail \<noteq> VNil) ''quasiquote: unquote-splicing of an improper list'') (\<lambda>_.
              retM (vs, idx + 1))))
            else bindM (creme_build_qq item hole_base idx) (\<lambda>(v, i). retM ([v], i))) (\<lambda>(vs, i).
     bindM (qq_build_items items hole_base i) (\<lambda>(rest, j). retM (vs @ rest, j)))"

subsection \<open>\<open>case\<close> dispatch\<close>

fun case_key_of :: "val \<Rightarrow> case_key option" where
  "case_key_of v = (case v of
     VInt i \<Rightarrow> Some (CDKInt i)
   | VChar c \<Rightarrow> Some (CDKChar c)
   | VSym s \<Rightarrow> Some (CDKSym s)
   | VBool b \<Rightarrow> Some (CDKBool (if b then 1 else 0))
   | VNil \<Rightarrow> Some CDKNil
   | _ \<Rightarrow> None)"

definition creme_case_dispatch :: "val \<Rightarrow> case_table \<Rightarrow> int" where
  "creme_case_dispatch key table =
     (case case_key_of key of
        None \<Rightarrow> ct_default table
      | Some k \<Rightarrow> (case find (\<lambda>e. fst e = k) (ct_entries table) of
          Some e \<Rightarrow> snd e | None \<Rightarrow> ct_default table))"

subsection \<open>Calls\<close>

text \<open>\<open>for (int i = 0; i < n; i++) stack[dst + i] = stack[src + i]\<close>.\<close>

definition copy_stack :: "int \<Rightarrow> int \<Rightarrow> int \<Rightarrow> unit M" where
  "copy_stack dst src n =
     forM [0..<nat n] (\<lambda>i. bindM (get_stack (src + int i)) (\<lambda>v. set_stack (dst + int i) v))"

definition read_stack :: "int \<Rightarrow> int \<Rightarrow> val list M" where
  "read_stack base n = mapM (\<lambda>i. get_stack (base + int i)) [0..<nat n]"

definition arity_abort :: "chunk \<Rightarrow> bytes \<Rightarrow> int \<Rightarrow> 'a M" where
  "arity_abort ch at_least nargs =
     creme_abort (ch_name ch @ '': expected '' @ at_least @ dec (ch_param_count ch) @
       '' argument(s), got '' @ dec nargs)"

definition bind_args :: "chunk \<Rightarrow> int \<Rightarrow> int \<Rightarrow> int \<Rightarrow> unit M" where
  "bind_args callee nargs new_base arg_base =
     (let fixed = ch_param_count callee in
      if ch_has_rest callee then
        bindM (if nargs < fixed then arity_abort callee ''at least '' nargs else retM ()) (\<lambda>_.
        bindM (copy_stack new_base arg_base fixed) (\<lambda>_.
        bindM (read_stack (arg_base + fixed) (nargs - fixed)) (\<lambda>vs.
        bindM (cons_list vs VNil) (\<lambda>rest.
        set_stack (new_base + fixed) rest))))
      else
        bindM (if nargs \<noteq> fixed then arity_abort callee '''' nargs else retM ()) (\<lambda>_.
        copy_stack new_base arg_base fixed))"

definition deliver_return :: "val \<Rightarrow> nat \<Rightarrow> val option M" where
  "deliver_return v target_depth =
     bindM top_frame (\<lambda>finished.
     bindM (\<lambda>s. close_upvalues (vm_depth s - 1) s) (\<lambda>_.
     bindM (modM (\<lambda>s. s\<lparr>vm_depth := vm_depth s - 1\<rparr>)) (\<lambda>_.
     bindM (getM vm_depth) (\<lambda>d.
     if d = target_depth then retM (Some v)
     else bindM top_frame (\<lambda>caller.
       bindM (set_stack (fr_base caller + fr_return_reg finished) v) (\<lambda>_. retM None))))))"

definition try_self_tail_call :: "instruction \<Rightarrow> val \<Rightarrow> bool M" where
  "try_self_tail_call ins callee =
     bindM top_frame (\<lambda>fr.
     case callee of
       VClosure c \<Rightarrow>
         if fr_closure fr \<noteq> Some c then retM False
         else
           bindM (if fr_opened fr = [] then retM () else (\<lambda>s. close_upvalues (vm_depth s - 1) s)) (\<lambda>_.
           bindM (derefM h_chunks (fr_chunk fr)) (\<lambda>ch.
           bindM (bind_args ch (ins_b ins) (fr_base fr) (fr_base fr + ins_a ins + 1)) (\<lambda>_.
           bindM (mod_top (\<lambda>f. f\<lparr>fr_ip := 0\<rparr>)) (\<lambda>_. retM True))))
     | _ \<Rightarrow> retM False)"

text \<open>The check of the register stack and the push of a frame, as \<open>dispatch_call\<close> and
  \<open>creme_apply\<close> do them.\<close>

definition check_stack :: "int \<Rightarrow> chunk \<Rightarrow> unit M" where
  "check_stack new_base ch = (\<lambda>s.
     guardM (new_base + ch_num_registers ch > int (vm_stack_cap s))
       (''icecreme: register stack exhausted (stack_cap='' @ dec (int (vm_stack_cap s)) @ '')'') s)"

definition push_frame :: "nat \<Rightarrow> int \<Rightarrow> nat option \<Rightarrow> int \<Rightarrow> unit M" where
  "push_frame ch base cl ret = (\<lambda>s.
     bindM (guardM (vm_depth s \<ge> vm_frames_cap s)
       (''icecreme: call depth exceeded (frames_cap='' @ dec (int (vm_frames_cap s)) @ '')'')) (\<lambda>_.
     modM (\<lambda>s. (upd_frame (vm_depth s) (\<lambda>f. \<lparr> fr_chunk = ch, fr_base = base, fr_closure = cl,
        fr_ip = 0, fr_return_reg = ret, fr_opened = [] \<rparr>) s)\<lparr>vm_depth := vm_depth s + 1\<rparr>)) s)"

text \<open>The end of every call that has its result at once.\<close>

definition return_value :: "bool \<Rightarrow> int \<Rightarrow> nat \<Rightarrow> val \<Rightarrow> val option M" where
  "return_value tail dst target_depth result =
     (if tail then deliver_return result target_depth
      else bindM (set_stack dst result) (\<lambda>_. retM None))"

definition call_closure :: "instruction \<Rightarrow> nat \<Rightarrow> bool \<Rightarrow> val option M" where
  "call_closure ins c tail =
     bindM top_frame (\<lambda>fr.
     bindM (derefM h_closures c) (\<lambda>cl.
     bindM (derefM h_chunks (fr_chunk fr)) (\<lambda>caller_ch.
     bindM (derefM h_chunks (cl_chunk cl)) (\<lambda>ch.
     let caller_base = fr_base fr;
         new_base = (if tail then caller_base else caller_base + ch_num_registers caller_ch) in
     bindM (check_stack new_base ch) (\<lambda>_.
     bindM (if tail then (\<lambda>s. close_upvalues (vm_depth s - 1) s) else retM ()) (\<lambda>_.
     bindM (bind_args ch (ins_b ins) new_base (caller_base + ins_a ins + 1)) (\<lambda>_.
     bindM (if tail then mod_top (\<lambda>f. f\<lparr>fr_chunk := cl_chunk cl, fr_closure := Some c,
               fr_base := new_base, fr_ip := 0\<rparr>)
            else push_frame (cl_chunk cl) new_base (Some c) (ins_c ins)) (\<lambda>_.
     retM None))))))))"

text \<open>The first clause of a \<open>case-lambda\<close> whose arity accepts the arguments.\<close>

fun select_clause :: "nat list \<Rightarrow> int \<Rightarrow> nat M" where
  "select_clause [] nargs =
     creme_abort (''case-lambda: no matching clause for '' @ dec nargs @ '' argument(s)'')"
| "select_clause (c # cs) nargs =
     bindM (derefM h_closures c) (\<lambda>cl. bindM (derefM h_chunks (cl_chunk cl)) (\<lambda>ch.
     if (if ch_has_rest ch then nargs \<ge> ch_param_count ch else nargs = ch_param_count ch)
     then retM c else select_clause cs nargs))"

definition dispatch_call :: "nat \<Rightarrow> (val \<Rightarrow> val list \<Rightarrow> val M) \<Rightarrow> (bytes \<Rightarrow> val list \<Rightarrow> val M)
    \<Rightarrow> instruction \<Rightarrow> val \<Rightarrow> bool \<Rightarrow> nat \<Rightarrow> val option M" where
  "dispatch_call fuel ap bt ins callee tail target_depth =
     bindM top_frame (\<lambda>fr.
     let caller_base = fr_base fr; nargs = ins_b ins; arg_base = caller_base + ins_a ins + 1;
         dst = caller_base + ins_c ins in
     case callee of
       VClosure c \<Rightarrow> call_closure ins c tail
     | VBuiltin f \<Rightarrow>
         bindM (read_stack arg_base nargs) (\<lambda>args.
         bindM (bt f args) (return_value tail dst target_depth))
     | VCaseClosure cc \<Rightarrow>
         bindM (derefM h_case_closures cc) (\<lambda>cs.
         bindM (select_clause cs nargs) (\<lambda>c. call_closure ins c tail))
     | VRecordCallable rc \<Rightarrow>
         bindM (read_stack arg_base nargs) (\<lambda>args.
         bindM (call_record_callable rc args) (return_value tail dst target_depth))
     | VContinuation k \<Rightarrow>
         bindM (guardM (nargs \<noteq> 1) (''continuation: expected exactly 1 argument, got '' @ dec nargs)) (\<lambda>_.
         bindM (get_stack arg_base) (invoke_continuation fuel ap k))
     | VParameter p \<Rightarrow>
         bindM (guardM (nargs \<noteq> 0) (''parameter: expected 0 arguments, got '' @ dec nargs)) (\<lambda>_.
         bindM (derefM h_parameters p) (\<lambda>pm. return_value tail dst target_depth (pm_value pm)))
     | _ \<Rightarrow> creme_abort ''icecreme: attempt to call a non-procedure value'')"

subsection \<open>The frame of \<open>creme_apply\<close>\<close>

text \<open>\<open>Inl v\<close>: the callee has returned \<open>v\<close>; \<open>Inr d\<close>: a frame was pushed and
  \<open>creme_dispatch(vm, d)\<close> is to run.\<close>

definition write_stack :: "int \<Rightarrow> val list \<Rightarrow> unit M" where
  "write_stack base vs =
     forM (zip [0..<length vs] vs) (\<lambda>(i, v). set_stack (base + int i) v)"

definition apply_closure :: "nat \<Rightarrow> val list \<Rightarrow> (val + nat) M" where
  "apply_closure c args =
     bindM (derefM h_closures c) (\<lambda>cl.
     bindM top_frame (\<lambda>caller.
     bindM (derefM h_chunks (fr_chunk caller)) (\<lambda>caller_ch.
     bindM (derefM h_chunks (cl_chunk cl)) (\<lambda>ch.
     let new_base = fr_base caller + ch_num_registers caller_ch;
         fixed = ch_param_count ch; nargs = int (length args) in
     bindM (check_stack new_base ch) (\<lambda>_.
     bindM (if ch_has_rest ch then
              bindM (if nargs < fixed then arity_abort ch ''at least '' nargs else retM ()) (\<lambda>_.
              bindM (write_stack new_base (take (nat fixed) args)) (\<lambda>_.
              bindM (cons_list (drop (nat fixed) args) VNil) (\<lambda>rest.
              set_stack (new_base + fixed) rest)))
            else
              bindM (if nargs \<noteq> fixed then arity_abort ch '''' nargs else retM ()) (\<lambda>_.
              write_stack new_base args)) (\<lambda>_.
     bindM (getM vm_depth) (\<lambda>target_depth.
     bindM (push_frame (cl_chunk cl) new_base (Some c) (-1)) (\<lambda>_.
     retM (Inr target_depth)))))))))"

definition apply_setup :: "nat \<Rightarrow> (val \<Rightarrow> val list \<Rightarrow> val M) \<Rightarrow> (bytes \<Rightarrow> val list \<Rightarrow> val M)
    \<Rightarrow> val \<Rightarrow> val list \<Rightarrow> (val + nat) M" where
  "apply_setup fuel ap bt fn args =
     (let nargs = int (length args) in
      case fn of
        VBuiltin f \<Rightarrow> bindM (bt f args) (\<lambda>v. retM (Inl v))
      | VRecordCallable rc \<Rightarrow> bindM (call_record_callable rc args) (\<lambda>v. retM (Inl v))
      | VParameter p \<Rightarrow>
          bindM (guardM (nargs \<noteq> 0) (''parameter: expected 0 arguments, got '' @ dec nargs)) (\<lambda>_.
          bindM (derefM h_parameters p) (\<lambda>pm. retM (Inl (pm_value pm))))
      | VContinuation k \<Rightarrow>
          bindM (guardM (nargs \<noteq> 1) (''continuation: expected exactly 1 argument, got '' @ dec nargs)) (\<lambda>_.
          invoke_continuation fuel ap k (hd args))
      | VCaseClosure cc \<Rightarrow>
          bindM (derefM h_case_closures cc) (\<lambda>cs.
          bindM (select_clause cs nargs) (\<lambda>c. apply_closure c args))
      | VClosure c \<Rightarrow> apply_closure c args
      | _ \<Rightarrow> creme_abort ''icecreme: attempt to apply a non-procedure value'')"

text \<open>The frame \<open>creme_run_loaded_chunk\<close> pushes for an already loaded program.\<close>

definition loaded_chunk_setup :: "nat \<Rightarrow> nat M" where
  "loaded_chunk_setup chunk =
     bindM top_frame (\<lambda>caller.
     bindM (derefM h_chunks (fr_chunk caller)) (\<lambda>caller_ch.
     bindM (derefM h_chunks chunk) (\<lambda>ch.
     let new_base = fr_base caller + ch_num_registers caller_ch in
     bindM (check_stack new_base ch) (\<lambda>_.
     bindM (getM vm_depth) (\<lambda>target_depth.
     bindM (push_frame chunk new_base None (-1)) (\<lambda>_. retM target_depth))))))"

end
