(* ===== verification/Opcodes.thy ===== *)
theory Opcodes
  imports Main
begin

text \<open>
  The opcode numbers of icecreme/opcodes.h.  The C enum constants are integers and the loader
  stores whatever integer it reads (below \<open>OP_COUNT\<close>), so an opcode is an \<open>int\<close> here too; the
  numbers from \<open>OP_COUNT\<close> on are the quickened forms that only the VM itself writes.
\<close>

abbreviation OP_LOADK :: int where "OP_LOADK \<equiv> 0"
abbreviation OP_LOADNIL :: int where "OP_LOADNIL \<equiv> 1"
abbreviation OP_LOADTRUE :: int where "OP_LOADTRUE \<equiv> 2"
abbreviation OP_LOADFALSE :: int where "OP_LOADFALSE \<equiv> 3"
abbreviation OP_MOVE :: int where "OP_MOVE \<equiv> 4"
abbreviation OP_GETUPVAL :: int where "OP_GETUPVAL \<equiv> 5"
abbreviation OP_SETUPVAL :: int where "OP_SETUPVAL \<equiv> 6"
abbreviation OP_GETGLOBAL :: int where "OP_GETGLOBAL \<equiv> 7"
abbreviation OP_DEFGLOBAL :: int where "OP_DEFGLOBAL \<equiv> 8"
abbreviation OP_SETGLOBAL :: int where "OP_SETGLOBAL \<equiv> 9"
abbreviation OP_ADD :: int where "OP_ADD \<equiv> 10"
abbreviation OP_SUB :: int where "OP_SUB \<equiv> 11"
abbreviation OP_MUL :: int where "OP_MUL \<equiv> 12"
abbreviation OP_NUMLT :: int where "OP_NUMLT \<equiv> 13"
abbreviation OP_NUMLE :: int where "OP_NUMLE \<equiv> 14"
abbreviation OP_NUMGT :: int where "OP_NUMGT \<equiv> 15"
abbreviation OP_NUMGE :: int where "OP_NUMGE \<equiv> 16"
abbreviation OP_NUMEQ :: int where "OP_NUMEQ \<equiv> 17"
abbreviation OP_VECREF :: int where "OP_VECREF \<equiv> 18"
abbreviation OP_VECSET :: int where "OP_VECSET \<equiv> 19"
abbreviation OP_VECLEN :: int where "OP_VECLEN \<equiv> 20"
abbreviation OP_STRREF :: int where "OP_STRREF \<equiv> 21"
abbreviation OP_STRSET :: int where "OP_STRSET \<equiv> 22"
abbreviation OP_BVREF :: int where "OP_BVREF \<equiv> 23"
abbreviation OP_BVSET :: int where "OP_BVSET \<equiv> 24"
abbreviation OP_CONS :: int where "OP_CONS \<equiv> 25"
abbreviation OP_NOT :: int where "OP_NOT \<equiv> 26"
abbreviation OP_ISNULL :: int where "OP_ISNULL \<equiv> 27"
abbreviation OP_ISPAIR :: int where "OP_ISPAIR \<equiv> 28"
abbreviation OP_ISEQ :: int where "OP_ISEQ \<equiv> 29"
abbreviation OP_CXR :: int where "OP_CXR \<equiv> 30"
abbreviation OP_ABS :: int where "OP_ABS \<equiv> 31"
abbreviation OP_CMPZERO :: int where "OP_CMPZERO \<equiv> 32"
abbreviation OP_ADDIMM :: int where "OP_ADDIMM \<equiv> 33"
abbreviation OP_SUBIMM :: int where "OP_SUBIMM \<equiv> 34"
abbreviation OP_MULIMM :: int where "OP_MULIMM \<equiv> 35"
abbreviation OP_NUMLTIMM :: int where "OP_NUMLTIMM \<equiv> 36"
abbreviation OP_NUMLEIMM :: int where "OP_NUMLEIMM \<equiv> 37"
abbreviation OP_NUMGTIMM :: int where "OP_NUMGTIMM \<equiv> 38"
abbreviation OP_NUMGEIMM :: int where "OP_NUMGEIMM \<equiv> 39"
abbreviation OP_NUMEQIMM :: int where "OP_NUMEQIMM \<equiv> 40"
abbreviation OP_ISEQIMM :: int where "OP_ISEQIMM \<equiv> 41"
abbreviation OP_ADDUP :: int where "OP_ADDUP \<equiv> 42"
abbreviation OP_SUBUP :: int where "OP_SUBUP \<equiv> 43"
abbreviation OP_MULUP :: int where "OP_MULUP \<equiv> 44"
abbreviation OP_NUMLTUP :: int where "OP_NUMLTUP \<equiv> 45"
abbreviation OP_NUMLEUP :: int where "OP_NUMLEUP \<equiv> 46"
abbreviation OP_NUMGTUP :: int where "OP_NUMGTUP \<equiv> 47"
abbreviation OP_NUMGEUP :: int where "OP_NUMGEUP \<equiv> 48"
abbreviation OP_NUMEQUP :: int where "OP_NUMEQUP \<equiv> 49"
abbreviation OP_ISEQUP :: int where "OP_ISEQUP \<equiv> 50"
abbreviation OP_VECREFIMM :: int where "OP_VECREFIMM \<equiv> 51"
abbreviation OP_STRREFIMM :: int where "OP_STRREFIMM \<equiv> 52"
abbreviation OP_BVREFIMM :: int where "OP_BVREFIMM \<equiv> 53"
abbreviation OP_VECSETIMM :: int where "OP_VECSETIMM \<equiv> 54"
abbreviation OP_STRSETIMM :: int where "OP_STRSETIMM \<equiv> 55"
abbreviation OP_BVSETIMM :: int where "OP_BVSETIMM \<equiv> 56"
abbreviation OP_VECREFUP :: int where "OP_VECREFUP \<equiv> 57"
abbreviation OP_VECSETUP :: int where "OP_VECSETUP \<equiv> 58"
abbreviation OP_VECLENUP :: int where "OP_VECLENUP \<equiv> 59"
abbreviation OP_STRREFUP :: int where "OP_STRREFUP \<equiv> 60"
abbreviation OP_STRSETUP :: int where "OP_STRSETUP \<equiv> 61"
abbreviation OP_BVREFUP :: int where "OP_BVREFUP \<equiv> 62"
abbreviation OP_BVSETUP :: int where "OP_BVSETUP \<equiv> 63"
abbreviation OP_CASEMATCH :: int where "OP_CASEMATCH \<equiv> 64"
abbreviation OP_CASEDISPATCH :: int where "OP_CASEDISPATCH \<equiv> 65"
abbreviation OP_THROW :: int where "OP_THROW \<equiv> 66"
abbreviation OP_JMP :: int where "OP_JMP \<equiv> 67"
abbreviation OP_TESTFALSE :: int where "OP_TESTFALSE \<equiv> 68"
abbreviation OP_TESTLT :: int where "OP_TESTLT \<equiv> 69"
abbreviation OP_TESTLE :: int where "OP_TESTLE \<equiv> 70"
abbreviation OP_TESTGT :: int where "OP_TESTGT \<equiv> 71"
abbreviation OP_TESTGE :: int where "OP_TESTGE \<equiv> 72"
abbreviation OP_TESTEQ :: int where "OP_TESTEQ \<equiv> 73"
abbreviation OP_TESTISEQ :: int where "OP_TESTISEQ \<equiv> 74"
abbreviation OP_TESTLTIMM :: int where "OP_TESTLTIMM \<equiv> 75"
abbreviation OP_TESTLEIMM :: int where "OP_TESTLEIMM \<equiv> 76"
abbreviation OP_TESTGTIMM :: int where "OP_TESTGTIMM \<equiv> 77"
abbreviation OP_TESTGEIMM :: int where "OP_TESTGEIMM \<equiv> 78"
abbreviation OP_TESTEQIMM :: int where "OP_TESTEQIMM \<equiv> 79"
abbreviation OP_TESTISEQIMM :: int where "OP_TESTISEQIMM \<equiv> 80"
abbreviation OP_TESTLTUP :: int where "OP_TESTLTUP \<equiv> 81"
abbreviation OP_TESTLEUP :: int where "OP_TESTLEUP \<equiv> 82"
abbreviation OP_TESTGTUP :: int where "OP_TESTGTUP \<equiv> 83"
abbreviation OP_TESTGEUP :: int where "OP_TESTGEUP \<equiv> 84"
abbreviation OP_TESTEQUP :: int where "OP_TESTEQUP \<equiv> 85"
abbreviation OP_TESTISEQUP :: int where "OP_TESTISEQUP \<equiv> 86"
abbreviation OP_CALL :: int where "OP_CALL \<equiv> 87"
abbreviation OP_TAILCALL :: int where "OP_TAILCALL \<equiv> 88"
abbreviation OP_CALLGLOBAL :: int where "OP_CALLGLOBAL \<equiv> 89"
abbreviation OP_TAILCALLGLOBAL :: int where "OP_TAILCALLGLOBAL \<equiv> 90"
abbreviation OP_CALLLOCAL :: int where "OP_CALLLOCAL \<equiv> 91"
abbreviation OP_TAILCALLLOCAL :: int where "OP_TAILCALLLOCAL \<equiv> 92"
abbreviation OP_CALLUPVAL :: int where "OP_CALLUPVAL \<equiv> 93"
abbreviation OP_TAILCALLUPVAL :: int where "OP_TAILCALLUPVAL \<equiv> 94"
abbreviation OP_RETURN :: int where "OP_RETURN \<equiv> 95"
abbreviation OP_RETURNGLOBAL :: int where "OP_RETURNGLOBAL \<equiv> 96"
abbreviation OP_RETURNUPVAL :: int where "OP_RETURNUPVAL \<equiv> 97"
abbreviation OP_ADDRETURN :: int where "OP_ADDRETURN \<equiv> 98"
abbreviation OP_SUBRETURN :: int where "OP_SUBRETURN \<equiv> 99"
abbreviation OP_MULRETURN :: int where "OP_MULRETURN \<equiv> 100"
abbreviation OP_NUMLTRETURN :: int where "OP_NUMLTRETURN \<equiv> 101"
abbreviation OP_NUMLERETURN :: int where "OP_NUMLERETURN \<equiv> 102"
abbreviation OP_NUMGTRETURN :: int where "OP_NUMGTRETURN \<equiv> 103"
abbreviation OP_NUMGERETURN :: int where "OP_NUMGERETURN \<equiv> 104"
abbreviation OP_NUMEQRETURN :: int where "OP_NUMEQRETURN \<equiv> 105"
abbreviation OP_ISEQRETURN :: int where "OP_ISEQRETURN \<equiv> 106"
abbreviation OP_CLOSURE :: int where "OP_CLOSURE \<equiv> 107"
abbreviation OP_MAKECASECLOSURE :: int where "OP_MAKECASECLOSURE \<equiv> 108"
abbreviation OP_DESTRUCTURE :: int where "OP_DESTRUCTURE \<equiv> 109"
abbreviation OP_PARAMPUSH :: int where "OP_PARAMPUSH \<equiv> 110"
abbreviation OP_PARAMPOP :: int where "OP_PARAMPOP \<equiv> 111"
abbreviation OP_PUSHHANDLER :: int where "OP_PUSHHANDLER \<equiv> 112"
abbreviation OP_POPHANDLER :: int where "OP_POPHANDLER \<equiv> 113"
abbreviation OP_GUARDRERAISE :: int where "OP_GUARDRERAISE \<equiv> 114"
abbreviation OP_QUASIQUOTE :: int where "OP_QUASIQUOTE \<equiv> 115"
abbreviation OP_MAKEPROMISE :: int where "OP_MAKEPROMISE \<equiv> 116"
abbreviation OP_HELPERFORM :: int where "OP_HELPERFORM \<equiv> 117"
abbreviation OP_HELPERFORMLOCAL :: int where "OP_HELPERFORMLOCAL \<equiv> 118"
abbreviation OP_FORPREP :: int where "OP_FORPREP \<equiv> 119"
abbreviation OP_FORLOOP :: int where "OP_FORLOOP \<equiv> 120"
abbreviation OP_FORLOOPGUARDEDINC :: int where "OP_FORLOOPGUARDEDINC \<equiv> 121"
abbreviation OP_FORLOOPGUARDEDDEC :: int where "OP_FORLOOPGUARDEDDEC \<equiv> 122"
abbreviation OP_TESTGLOBALIDENTITY :: int where "OP_TESTGLOBALIDENTITY \<equiv> 123"
abbreviation OP_COUNT :: int where "OP_COUNT \<equiv> 124"
abbreviation OP_QCALLGLOBAL_ADD2 :: int where "OP_QCALLGLOBAL_ADD2 \<equiv> 124"
abbreviation OP_QCALLGLOBAL_SUB2 :: int where "OP_QCALLGLOBAL_SUB2 \<equiv> 125"
abbreviation OP_QCALLGLOBAL_MUL2 :: int where "OP_QCALLGLOBAL_MUL2 \<equiv> 126"
abbreviation OP_QCALLGLOBAL_CONS2 :: int where "OP_QCALLGLOBAL_CONS2 \<equiv> 127"
abbreviation OP_QCALLGLOBAL_CAR1 :: int where "OP_QCALLGLOBAL_CAR1 \<equiv> 128"
abbreviation OP_QCALLGLOBAL_CDR1 :: int where "OP_QCALLGLOBAL_CDR1 \<equiv> 129"
abbreviation OP_QCALLGLOBAL_RECACC :: int where "OP_QCALLGLOBAL_RECACC \<equiv> 130"
abbreviation OP_QCALLGLOBAL_RECCTOR :: int where "OP_QCALLGLOBAL_RECCTOR \<equiv> 131"
abbreviation OP_QCALLGLOBAL_ADD3 :: int where "OP_QCALLGLOBAL_ADD3 \<equiv> 132"
abbreviation OP_QCALLGLOBAL_MOD2 :: int where "OP_QCALLGLOBAL_MOD2 \<equiv> 133"
abbreviation OP_QCALLGLOBAL_STRAPPEND2 :: int where "OP_QCALLGLOBAL_STRAPPEND2 \<equiv> 134"
abbreviation OP_QCALLGLOBAL_NUMTOSTR1 :: int where "OP_QCALLGLOBAL_NUMTOSTR1 \<equiv> 135"
abbreviation OP_QCALLGLOBAL_HASHSET :: int where "OP_QCALLGLOBAL_HASHSET \<equiv> 136"
abbreviation OP_QCALLGLOBAL_HASHREF :: int where "OP_QCALLGLOBAL_HASHREF \<equiv> 137"
abbreviation OP_QUICK_COUNT :: int where "OP_QUICK_COUNT \<equiv> 138"

end
