(* ===== verification/VM_Ops.thy ===== *)
theory VM_Ops
  imports VM_Calls Opcodes
begin

text \<open>
  The instruction bodies of \<open>creme_dispatch\<close> (icecreme/vm.c) that stay in their frame.  Each \<open>exec_*\<close> function holds a stretch of
  the instruction bodies in the order of the source and answers \<open>None\<close> for an opcode of another
  stretch; \<open>VM_Step\<close> fetches an instruction and runs its body.  \<open>fr\<close> is the frame after the fetch
  (its \<open>ip\<close> already past the instruction); \<open>rd\<close>, \<open>wr\<close> and \<open>up\<close> are \<open>stack[base + i]\<close> and the
  upvalue \<open>i\<close> of its closure.  The sampling profiler, which only counts, is left out.
\<close>

definition rd :: "frame \<Rightarrow> int \<Rightarrow> val M" where
  "rd fr i = get_stack (fr_base fr + i)"

definition wr :: "frame \<Rightarrow> int \<Rightarrow> val \<Rightarrow> unit M" where
  "wr fr i v = set_stack (fr_base fr + i) v"

definition up :: "frame \<Rightarrow> int \<Rightarrow> val M" where
  "up fr i = bindM (frame_upvalue fr i) upvalue_get"

definition jump :: "int \<Rightarrow> unit M" where
  "jump off = mod_top (\<lambda>f. f\<lparr>fr_ip := fr_ip f + off\<rparr>)"

definition const_at :: "frame \<Rightarrow> int \<Rightarrow> val M" where
  "const_at fr i = bindM (derefM h_chunks (fr_chunk fr)) (\<lambda>ch. indexM (ch_consts ch) i)"

definition cur_chunk :: "frame \<Rightarrow> chunk M" where
  "cur_chunk fr = derefM h_chunks (fr_chunk fr)"

text \<open>An arithmetic op, a comparison into a register, and a comparison that skips.\<close>

definition arith3 :: "(val \<Rightarrow> val \<Rightarrow> val res) \<Rightarrow> val M \<Rightarrow> val M \<Rightarrow> (val \<Rightarrow> unit M) \<Rightarrow> unit M" where
  "arith3 f mx my dst = bindM mx (\<lambda>x. bindM my (\<lambda>y. bindM (liftR (f x y)) dst))"

definition comp3 :: "(val \<Rightarrow> val \<Rightarrow> bool res) \<Rightarrow> val M \<Rightarrow> val M \<Rightarrow> (val \<Rightarrow> unit M) \<Rightarrow> unit M" where
  "comp3 f mx my dst = bindM mx (\<lambda>x. bindM my (\<lambda>y. bindM (liftR (f x y)) (\<lambda>b. dst (VBool b))))"

definition test3 :: "(val \<Rightarrow> val \<Rightarrow> bool res) \<Rightarrow> val M \<Rightarrow> val M \<Rightarrow> int \<Rightarrow> unit M" where
  "test3 f mx my off = bindM mx (\<lambda>x. bindM my (\<lambda>y. bindM (liftR (f x y)) (\<lambda>b.
     if b then retM () else jump off)))"

definition eqv3 :: "arith \<Rightarrow> val M \<Rightarrow> val M \<Rightarrow> bool M" where
  "eqv3 A mx my = bindM mx (\<lambda>x. bindM my (\<lambda>y. creme_eqv A x y))"

definition test_eqv :: "arith \<Rightarrow> val M \<Rightarrow> val M \<Rightarrow> int \<Rightarrow> unit M" where
  "test_eqv A mx my off = bindM (eqv3 A mx my) (\<lambda>b. if b then retM () else jump off)"

definition is_int_eq :: "val \<Rightarrow> int \<Rightarrow> bool" where
  "is_int_eq v i = (v = VInt i)"

text \<open>An instruction that stays in its frame.\<close>

definition nxt :: "unit M \<Rightarrow> val option M option" where
  "nxt m = Some (bindM m (\<lambda>_. retM None))"

subsection \<open>Loads, globals, arithmetic\<close>

definition op_mulimm :: "arith \<Rightarrow> frame \<Rightarrow> instruction \<Rightarrow> unit M" where
  "op_mulimm A fr ins =
     bindM (rd fr (ins_b ins)) (\<lambda>x.
     bindM (guardM (\<not> is_int x)
       ''*: not an integer (float/overflow fallback not implemented in this prototype)'') (\<lambda>_.
     case fit64 (int_of x * ins_c ins) of
       None \<Rightarrow> bindM (liftR (num_mul A x (VInt (ins_c ins)))) (wr fr (ins_a ins))
     | Some r \<Rightarrow> wr fr (ins_a ins) (VInt r)))"

definition exec_basic :: "arith \<Rightarrow> frame \<Rightarrow> instruction \<Rightarrow> val option M option" where
  "exec_basic A fr ins =
     (let op = ins_op ins; a = ins_a ins; b = ins_b ins; c = ins_c ins; R = rd fr; W = wr fr in
      if op = OP_LOADK then nxt (bindM (const_at fr b) (W a))
      else if op = OP_LOADNIL then nxt (W a VNil)
      else if op = OP_LOADTRUE then nxt (W a (VBool True))
      else if op = OP_LOADFALSE then nxt (W a (VBool False))
      else if op = OP_MOVE then nxt (bindM (R b) (W a))
      else if op = OP_GETUPVAL then nxt (bindM (up fr b) (W a))
      else if op = OP_GETGLOBAL then nxt (bindM (bound_global b) (W a))
      else if op = OP_DEFGLOBAL then nxt (bindM (get_global a) (\<lambda>cell. bindM (R b) (\<lambda>v.
        set_global a (cell\<lparr>gc_value := v, gc_bound := True\<rparr>))))
      else if op = OP_SETGLOBAL then nxt (bindM (bound_global a) (\<lambda>_. bindM (get_global a) (\<lambda>cell.
        bindM (R b) (\<lambda>v. set_global a (cell\<lparr>gc_value := v\<rparr>)))))
      else if op = OP_ADD then nxt (arith3 (fast_add A) (R b) (R c) (W a))
      else if op = OP_SUB then nxt (arith3 (fast_sub A) (R b) (R c) (W a))
      else if op = OP_CONS then nxt (bindM (R b) (\<lambda>x. bindM (R c) (\<lambda>y. bindM (creme_cons x y) (W a))))
      else if op = OP_ISNULL then nxt (bindM (R b) (\<lambda>v. W a (VBool (v = VNil))))
      else if op = OP_NUMEQ then nxt (comp3 (fast_eq A) (R b) (R c) (W a))
      else if op = OP_ADDIMM then nxt (arith3 (fast_add A) (R b) (retM (VInt c)) (W a))
      else if op = OP_SUBIMM then nxt (arith3 (fast_sub A) (R b) (retM (VInt c)) (W a))
      else if op = OP_MULIMM then nxt (op_mulimm A fr ins)
      else None)"

subsection \<open>Tests, jumps and loops\<close>

text \<open>The text of a string or symbol, as \<open>%.*s\<close> prints it.\<close>

definition text_of :: "val \<Rightarrow> bytes M" where
  "text_of v = (case v of
     VStr p \<Rightarrow> bindM (derefM h_strs p) (\<lambda>s. retM (takeWhile (\<lambda>c. c \<noteq> CHR 0x00) s))
   | VSym s \<Rightarrow> retM (takeWhile (\<lambda>c. c \<noteq> CHR 0x00) s)
   | _ \<Rightarrow> stuckM)"

definition op_forprep :: "arith \<Rightarrow> frame \<Rightarrow> instruction \<Rightarrow> unit M" where
  "op_forprep A fr ins =
     bindM (rd fr (ins_a ins)) (\<lambda>counter. bindM (rd fr (ins_c ins)) (\<lambda>limit.
     bindM (liftR (if ins_d ins > 0 then fast_gt A counter limit else fast_lt A counter limit)) (\<lambda>skip.
     if skip then jump (ins_b ins) else retM ())))"

definition op_forloop :: "arith \<Rightarrow> frame \<Rightarrow> instruction \<Rightarrow> unit M" where
  "op_forloop A fr ins =
     bindM (rd fr (ins_a ins)) (\<lambda>counter.
     bindM (liftR (fast_add A counter (VInt (ins_d ins)))) (\<lambda>next_val.
     bindM (wr fr (ins_a ins) next_val) (\<lambda>_.
     bindM (rd fr (ins_c ins)) (\<lambda>limit.
     bindM (liftR (if ins_d ins > 0 then fast_le A next_val limit else fast_ge A next_val limit))
       (\<lambda>in_range. if in_range then jump (ins_b ins) else retM ())))))"

definition op_forloop_guarded :: "arith \<Rightarrow> frame \<Rightarrow> instruction \<Rightarrow> unit M" where
  "op_forloop_guarded A fr ins =
     (let step = (if ins_op ins = OP_FORLOOPGUARDEDINC then 1 else -1) in
     bindM (rd fr (ins_a ins)) (\<lambda>counter.
     bindM (liftR (fast_add A counter (VInt step))) (\<lambda>next_val.
     bindM (wr fr (ins_a ins) next_val) (\<lambda>_.
     bindM (rd fr (ins_c ins)) (\<lambda>limit.
     bindM (liftR (if step > 0 then fast_le A next_val limit else fast_ge A next_val limit)) (\<lambda>in_range.
     bindM (global_is_current_closure (ins_d ins) fr) (\<lambda>still_current.
     if in_range \<and> still_current then jump (ins_b ins) else retM ())))))))"

definition exec_tests :: "arith \<Rightarrow> frame \<Rightarrow> instruction \<Rightarrow> val option M option" where
  "exec_tests A fr ins =
     (let op = ins_op ins; a = ins_a ins; b = ins_b ins; c = ins_c ins; R = rd fr; imm = retM (VInt c) in
      if op = OP_TESTLTIMM then nxt (test3 (fast_lt A) (R a) imm b)
      else if op = OP_TESTEQIMM then nxt (test3 (fast_eq A) (R a) imm b)
      else if op = OP_TESTLT then nxt (test3 (fast_lt A) (R a) (R c) b)
      else if op = OP_TESTLTUP then nxt (test3 (fast_lt A) (R a) (up fr c) b)
      else if op = OP_TESTEQUP then nxt (test3 (fast_eq A) (R a) (up fr c) b)
      else if op = OP_TESTEQ then nxt (test3 (fast_eq A) (R a) (R c) b)
      else if op = OP_TESTLEUP then nxt (test3 (fast_le A) (R a) (up fr c) b)
      else if op = OP_TESTGTUP then nxt (test3 (fast_gt A) (R a) (up fr c) b)
      else if op = OP_TESTGEUP then nxt (test3 (fast_ge A) (R a) (up fr c) b)
      else if op = OP_TESTISEQUP then nxt (test_eqv A (R a) (up fr c) b)
      else if op = OP_THROW then nxt (bindM (const_at fr a) (\<lambda>msg. bindM (text_of msg) creme_abort))
      else if op = OP_TESTFALSE then nxt (bindM (R a) (\<lambda>v. if v_falsy v then jump b else retM ()))
      else if op = OP_JMP then nxt (jump b)
      else if op = OP_FORPREP then nxt (op_forprep A fr ins)
      else if op = OP_FORLOOP then nxt (op_forloop A fr ins)
      else if op = OP_FORLOOPGUARDEDINC \<or> op = OP_FORLOOPGUARDEDDEC then nxt (op_forloop_guarded A fr ins)
      else if op = OP_TESTGLOBALIDENTITY then nxt (bindM (global_is_current_closure a fr) (\<lambda>ok.
        if ok then retM () else jump b))
      else None)"

subsection \<open>\<open>Cxr\<close>, \<open>Abs\<close>, closures, helper forms\<close>

definition op_abs :: "(val \<Rightarrow> val list \<Rightarrow> val M) \<Rightarrow> frame \<Rightarrow> instruction \<Rightarrow> unit M" where
  "op_abs ap fr ins =
     bindM (rd fr (ins_b ins)) (\<lambda>v.
     if \<not> is_int v \<or> int_of v = INT64_MIN then
       bindM (cur_chunk fr) (\<lambda>ch. bindM (cxr_abs_cmpzero_deopt_target ch (ins_d ins)) (\<lambda>f.
       bindM (ap f [v]) (wr fr (ins_a ins))))
     else wr fr (ins_a ins) (VInt (if int_of v < 0 then - int_of v else int_of v)))"

definition op_cmpzero :: "(val \<Rightarrow> val list \<Rightarrow> val M) \<Rightarrow> frame \<Rightarrow> instruction \<Rightarrow> unit M" where
  "op_cmpzero ap fr ins =
     bindM (rd fr (ins_b ins)) (\<lambda>v.
     if \<not> is_int v then
       bindM (cur_chunk fr) (\<lambda>ch. bindM (cxr_abs_cmpzero_deopt_target ch (ins_d ins)) (\<lambda>f.
       bindM (ap f [v]) (wr fr (ins_a ins))))
     else if ins_c ins = 0 then wr fr (ins_a ins) (VBool (int_of v = 0))
     else if ins_c ins = 1 then wr fr (ins_a ins) (VBool (int_of v > 0))
     else if ins_c ins = 2 then wr fr (ins_a ins) (VBool (int_of v < 0))
     else creme_abort (''icecreme: bad CmpZero test '' @ dec (ins_c ins)))"

definition op_makecaseclosure :: "frame \<Rightarrow> instruction \<Rightarrow> unit M" where
  "op_makecaseclosure fr ins =
     bindM (read_stack (fr_base fr + ins_b ins) (ins_c ins)) (\<lambda>vs.
     bindM (mapM (\<lambda>v. case v of VClosure c \<Rightarrow> retM c
              | _ \<Rightarrow> creme_abort ''icecreme: case-lambda clause is not a closure'') vs) (\<lambda>cs.
     bindM (\<lambda>s. Done (length (h_case_closures s)) (s\<lparr>h_case_closures := h_case_closures s @ [cs]\<rparr>))
       (\<lambda>p. wr fr (ins_a ins) (VCaseClosure p))))"

text \<open>\<open>define-syntax\<close> (kind 3) and \<open>defmacro\<close> (kind 4) bind the raw form as a macro.\<close>

definition bind_macro :: "bytes \<Rightarrow> val \<Rightarrow> val M" where
  "bind_macro kind form =
     (case form of
        VPair p \<Rightarrow> bindM (derefM h_pairs p) (\<lambda>fc.
          case snd fc of
            VPair q \<Rightarrow> bindM (derefM h_pairs q) (\<lambda>parts.
              case fst parts of
                VSym name \<Rightarrow> bindM (bind_global name (VMacro p)) (\<lambda>_. retM (VSym name))
              | _ \<Rightarrow> creme_abort (kind @ '': name must be a symbol''))
          | _ \<Rightarrow> creme_abort (kind @ '': malformed form''))
      | _ \<Rightarrow> creme_abort (kind @ '': malformed form''))"

definition op_helperform :: "frame \<Rightarrow> instruction \<Rightarrow> unit M" where
  "op_helperform fr ins =
     (if ins_c ins = 2 then
        bindM (const_at fr (ins_b ins)) (\<lambda>form.
        bindM (build_record_bindings form) (\<lambda>rb.
        bindM (forM rb (\<lambda>(name, v). bind_global name v)) (\<lambda>_.
        wr fr (ins_a ins) (VSym (fst (hd rb))))))
      else if ins_c ins = 3 \<or> ins_c ins = 4 then
        bindM (const_at fr (ins_b ins)) (\<lambda>form.
        bindM (bind_macro (if ins_c ins = 3 then ''define-syntax'' else ''defmacro'') form)
          (wr fr (ins_a ins)))
      else wr fr (ins_a ins) VNil)"

definition op_helperformlocal :: "frame \<Rightarrow> instruction \<Rightarrow> unit M" where
  "op_helperformlocal fr ins =
     bindM (const_at fr (ins_b ins)) (\<lambda>form.
     bindM (build_record_bindings form) (\<lambda>rb.
     write_stack (fr_base fr + ins_a ins) (map snd rb)))"

definition exec_forms :: "(val \<Rightarrow> val list \<Rightarrow> val M) \<Rightarrow> frame \<Rightarrow> instruction \<Rightarrow> val option M option" where
  "exec_forms ap fr ins =
     (let op = ins_op ins in
      if op = OP_CXR then nxt (bindM (cur_chunk fr) (\<lambda>ch. bindM (rd fr (ins_b ins)) (\<lambda>v.
        bindM (exec_cxr ap ch v (ins_c ins) (ins_d ins)) (wr fr (ins_a ins)))))
      else if op = OP_ABS then nxt (op_abs ap fr ins)
      else if op = OP_CMPZERO then nxt (op_cmpzero ap fr ins)
      else if op = OP_CLOSURE then nxt (bindM (\<lambda>s. make_closure (vm_depth s - 1) (ins_b ins) s)
        (\<lambda>c. wr fr (ins_a ins) (VClosure c)))
      else if op = OP_MAKECASECLOSURE then nxt (op_makecaseclosure fr ins)
      else if op = OP_HELPERFORM then nxt (op_helperform fr ins)
      else if op = OP_HELPERFORMLOCAL then nxt (op_helperformlocal fr ins)
      else None)"

subsection \<open>Vectors, bytevectors and strings\<close>

text \<open>The checks on an index value: an integer in \<open>[0, INT_MAX]\<close> before it is narrowed.\<close>

definition index_of :: "val \<Rightarrow> bytes \<Rightarrow> int M" where
  "index_of idxv not_int =
     (case idxv of
        VInt i \<Rightarrow> bindM (guardM (i < 0 \<or> i > INT_MAX) (''index '' @ dec i @ '' out of range'')) (\<lambda>_. retM i)
      | _ \<Rightarrow> creme_abort not_int)"

definition in_bounds :: "int \<Rightarrow> nat \<Rightarrow> bytes \<Rightarrow> unit M" where
  "in_bounds idx len who =
     guardM (idx < 0 \<or> idx \<ge> int len) (who @ '': index '' @ dec idx @ '' out of range'')"

definition vec_get :: "nat \<Rightarrow> int \<Rightarrow> val M" where
  "vec_get p idx = bindM (derefM h_vecs p) (\<lambda>vs.
     bindM (in_bounds idx (length vs) ''vector-ref'') (\<lambda>_. indexM vs idx))"

definition vec_put :: "nat \<Rightarrow> int \<Rightarrow> val M \<Rightarrow> unit M" where
  "vec_put p idx mv = bindM (derefM h_vecs p) (\<lambda>vs.
     bindM (in_bounds idx (length vs) ''vector-set!'') (\<lambda>_. bindM mv (\<lambda>v.
     modM (\<lambda>s. s\<lparr>h_vecs := (h_vecs s)[p := vs[nat idx := v]]\<rparr>))))"

definition bv_get :: "nat \<Rightarrow> int \<Rightarrow> val M" where
  "bv_get p idx = bindM (derefM h_bvs p) (\<lambda>bs.
     bindM (in_bounds idx (length bs) ''bytevector-u8-ref'') (\<lambda>_. bindM (indexM bs idx) (\<lambda>c.
     retM (VInt (of_char c)))))"

definition byte_of :: "val \<Rightarrow> char M" where
  "byte_of v = (case v of
     VInt i \<Rightarrow> if i < 0 \<or> i > 255 then creme_abort ''bytevector-u8-set!: byte out of range''
               else retM (char_of i)
   | _ \<Rightarrow> creme_abort ''bytevector-u8-set!: byte out of range'')"

definition bv_put :: "nat \<Rightarrow> int \<Rightarrow> val M \<Rightarrow> unit M" where
  "bv_put p idx mv = bindM (derefM h_bvs p) (\<lambda>bs.
     bindM (in_bounds idx (length bs) ''bytevector-u8-set!'') (\<lambda>_. bindM mv (\<lambda>v.
     bindM (byte_of v) (\<lambda>c. modM (\<lambda>s. s\<lparr>h_bvs := (h_bvs s)[p := bs[nat idx := c]]\<rparr>)))))"

definition str_get :: "nat \<Rightarrow> int \<Rightarrow> val M" where
  "str_get p idx = bindM (derefM h_strs p) (\<lambda>bs.
     bindM (in_bounds idx (length bs) ''string-ref'') (\<lambda>_. bindM (indexM bs idx) (\<lambda>c.
     retM (VChar (of_char c)))))"

text \<open>\<open>(char)ch.as.i\<close> keeps the low byte of the code point.\<close>

definition char_arg :: "val \<Rightarrow> char M" where
  "char_arg v = (case v of VChar c \<Rightarrow> retM (char_of (c mod 256))
     | _ \<Rightarrow> creme_abort ''string-set!: not a character'')"

definition str_put :: "nat \<Rightarrow> int \<Rightarrow> val M \<Rightarrow> unit M" where
  "str_put p idx mv = bindM (derefM h_strs p) (\<lambda>bs.
     bindM (in_bounds idx (length bs) ''string-set!'') (\<lambda>_. bindM mv (\<lambda>v.
     bindM (char_arg v) (\<lambda>c. modM (\<lambda>s. s\<lparr>h_strs := (h_strs s)[p := bs[nat idx := c]]\<rparr>)))))"

text \<open>The tag tests; \<open>msg\<close> is the text of the failed one.\<close>

definition as_vector :: "val \<Rightarrow> bytes \<Rightarrow> nat M" where
  "as_vector v msg = (case v of VVector p \<Rightarrow> retM p | _ \<Rightarrow> creme_abort msg)"

definition as_bytevector :: "val \<Rightarrow> bytes \<Rightarrow> nat M" where
  "as_bytevector v msg = (case v of VBytevector p \<Rightarrow> retM p | _ \<Rightarrow> creme_abort msg)"

definition as_string :: "val \<Rightarrow> bytes \<Rightarrow> nat M" where
  "as_string v msg = (case v of VStr p \<Rightarrow> retM p | _ \<Rightarrow> creme_abort msg)"

definition exec_bytes :: "frame \<Rightarrow> instruction \<Rightarrow> val option M option" where
  "exec_bytes fr ins =
     (let op = ins_op ins; a = ins_a ins; b = ins_b ins; c = ins_c ins; d = ins_d ins;
          R = rd fr; W = wr fr;
          ref_vec = ''vector-ref: bad arguments''; set_vec = ''vector-set!: bad arguments'';
          ref_bv = ''bytevector-u8-ref: not a bytevector''; set_bv = ''bytevector-u8-set!: not a bytevector'' in
      if op = OP_VECREFUP then nxt (bindM (up fr b) (\<lambda>v. bindM (R c) (\<lambda>i.
        bindM (as_vector v ref_vec) (\<lambda>p. bindM (index_of i ref_vec) (\<lambda>idx.
        bindM (vec_get p idx) (W a))))))
      else if op = OP_VECSETUP then nxt (bindM (up fr a) (\<lambda>v. bindM (R b) (\<lambda>i.
        bindM (as_vector v set_vec) (\<lambda>p. bindM (index_of i set_vec) (\<lambda>idx.
        bindM (vec_put p idx (R c)) (\<lambda>_. W d v))))))
      else if op = OP_BVREF then nxt (bindM (R b) (\<lambda>v. bindM (as_bytevector v ref_bv) (\<lambda>p.
        bindM (R c) (\<lambda>i. bindM (index_of i ''bytevector-u8-ref: not an integer index'') (\<lambda>idx.
        bindM (bv_get p idx) (W a))))))
      else if op = OP_BVSET then nxt (bindM (R a) (\<lambda>v. bindM (as_bytevector v set_bv) (\<lambda>p.
        bindM (R b) (\<lambda>i. bindM (index_of i ''bytevector-u8-set!: not an integer index'') (\<lambda>idx.
        bv_put p idx (R c))))))
      else if op = OP_BVREFIMM then nxt (bindM (R b) (\<lambda>v. bindM (as_bytevector v ref_bv) (\<lambda>p.
        bindM (bv_get p c) (W a))))
      else if op = OP_BVSETIMM then nxt (bindM (R a) (\<lambda>v. bindM (as_bytevector v set_bv) (\<lambda>p.
        bv_put p b (R c))))
      else if op = OP_BVREFUP then nxt (bindM (up fr b) (\<lambda>v. bindM (R c) (\<lambda>i.
        bindM (as_bytevector v ''bytevector-u8-ref: bad arguments'') (\<lambda>p.
        bindM (index_of i ''bytevector-u8-ref: bad arguments'') (\<lambda>idx.
        bindM (bv_get p idx) (W a))))))
      else if op = OP_BVSETUP then nxt (bindM (up fr a) (\<lambda>v. bindM (R b) (\<lambda>i.
        bindM (as_bytevector v ''bytevector-u8-set!: bad arguments'') (\<lambda>p.
        bindM (index_of i ''bytevector-u8-set!: bad arguments'') (\<lambda>idx.
        bindM (bv_put p idx (R c)) (\<lambda>_. W d v))))))
      else None)"

subsection \<open>\<open>Not\<close> to \<open>SetUpval\<close>\<close>

definition op_destructure :: "frame \<Rightarrow> instruction \<Rightarrow> unit M" where
  "op_destructure fr ins =
     bindM (rd fr (ins_a ins)) (\<lambda>src.
     bindM (case src of VValues p \<Rightarrow> derefM h_values p | _ \<Rightarrow> retM [src]) (\<lambda>vals.
     let n = int (length vals); fixed = ins_c ins; has_rest = (ins_d ins \<noteq> 0);
         dst = fr_base fr + ins_b ins in
     bindM (if has_rest
            then guardM (n < fixed) (''let-values: expected at least '' @ dec fixed @
                   '' value(s), got '' @ dec n)
            else guardM (n \<noteq> fixed) (''let-values: expected '' @ dec fixed @
                   '' value(s), got '' @ dec n)) (\<lambda>_.
     bindM (write_stack dst (take (nat fixed) vals)) (\<lambda>_.
     if has_rest then
       bindM (cons_list (drop (nat fixed) vals) VNil) (\<lambda>rest. set_stack (dst + fixed) rest)
     else retM ()))))"

definition op_setupval :: "frame \<Rightarrow> instruction \<Rightarrow> unit M" where
  "op_setupval fr ins =
     bindM (frame_upvalue fr (ins_a ins)) (\<lambda>p. bindM (rd fr (ins_b ins)) (\<lambda>v.
     bindM (derefM h_upvalues p) (\<lambda>u.
     case uv_slot u of
       Some i \<Rightarrow> set_stack (int i) v
     | None \<Rightarrow> set_upvalue p (u\<lparr>uv_closed := v\<rparr>))))"

definition exec_misc :: "arith \<Rightarrow> frame \<Rightarrow> instruction \<Rightarrow> val option M option" where
  "exec_misc A fr ins =
     (let op = ins_op ins; a = ins_a ins; b = ins_b ins; c = ins_c ins;
          R = rd fr; W = wr fr; U = up fr; imm = retM (VInt c) in
      if op = OP_NOT then nxt (bindM (R b) (\<lambda>v. W a (VBool (v_falsy v))))
      else if op = OP_QUASIQUOTE then nxt (bindM (cur_chunk fr) (\<lambda>ch.
        bindM (indexM (ch_qq_templates ch) b) (\<lambda>t.
        bindM (creme_build_qq t (fr_base fr + c) 0) (\<lambda>(v, i). W a v))))
      else if op = OP_MAKEPROMISE then nxt (bindM (R b) (\<lambda>v.
        bindM (\<lambda>s. Done (length (h_promises s)) (s\<lparr>h_promises := h_promises s @
          [\<lparr> pr_thunk = v, pr_forced = False, pr_cached = VNil \<rparr>]\<rparr>)) (\<lambda>p. W a (VPromise p))))
      else if op = OP_DESTRUCTURE then nxt (op_destructure fr ins)
      else if op = OP_MUL then nxt (arith3 (fast_mul A) (R b) (R c) (W a))
      else if op = OP_NUMLT then nxt (comp3 (fast_lt A) (R b) (R c) (W a))
      else if op = OP_NUMGE then nxt (comp3 (fast_ge A) (R b) (R c) (W a))
      else if op = OP_NUMLTIMM then nxt (comp3 (fast_lt A) (R b) imm (W a))
      else if op = OP_NUMGTIMM then nxt (comp3 (fast_gt A) (R b) imm (W a))
      else if op = OP_NUMEQIMM then nxt (comp3 (fast_eq A) (R b) imm (W a))
      else if op = OP_ADDUP then nxt (arith3 (fast_add A) (R b) (U c) (W a))
      else if op = OP_NUMGEUP then nxt (comp3 (fast_ge A) (R b) (U c) (W a))
      else if op = OP_NUMLEUP then nxt (comp3 (fast_le A) (R b) (U c) (W a))
      else if op = OP_ISPAIR then nxt (bindM (R b) (\<lambda>v. W a (VBool (case v of VPair p \<Rightarrow> True | _ \<Rightarrow> False))))
      else if op = OP_ISEQ then nxt (bindM (eqv3 A (R b) (R c)) (\<lambda>r. W a (VBool r)))
      else if op = OP_SETUPVAL then nxt (op_setupval fr ins)
      else None)"

subsection \<open>Immediate and string accesses\<close>

definition exec_access :: "frame \<Rightarrow> instruction \<Rightarrow> val option M option" where
  "exec_access fr ins =
     (let op = ins_op ins; a = ins_a ins; b = ins_b ins; c = ins_c ins; d = ins_d ins;
          R = rd fr; W = wr fr; U = up fr;
          no_ref = ''string-ref: not a string''; no_set = ''string-set!: not a string'';
          ref_idx = ''string-ref: not an integer index''; set_idx = ''string-set!: not an integer index'' in
      if op = OP_VECREFIMM then nxt (bindM (R b) (\<lambda>v. bindM (as_vector v ''vector-ref: not a vector'') (\<lambda>p.
        bindM (vec_get p c) (W a))))
      else if op = OP_VECSETIMM then nxt (bindM (R a) (\<lambda>v.
        bindM (as_vector v ''vector-set!: not a vector'') (\<lambda>p. vec_put p b (R c))))
      else if op = OP_STRREFIMM then nxt (bindM (R b) (\<lambda>v. bindM (as_string v no_ref) (\<lambda>p.
        bindM (str_get p c) (W a))))
      else if op = OP_STRREF then nxt (bindM (R b) (\<lambda>v. bindM (as_string v no_ref) (\<lambda>p.
        bindM (R c) (\<lambda>i. bindM (index_of i ref_idx) (\<lambda>idx. bindM (str_get p idx) (W a))))))
      else if op = OP_STRSET then nxt (bindM (R a) (\<lambda>v. bindM (as_string v no_set) (\<lambda>p.
        bindM (R b) (\<lambda>i. bindM (index_of i set_idx) (\<lambda>idx. str_put p idx (R c))))))
      else if op = OP_STRSETIMM then nxt (bindM (R a) (\<lambda>v. bindM (as_string v no_set) (\<lambda>p.
        str_put p b (R c))))
      else if op = OP_STRREFUP then nxt (bindM (U b) (\<lambda>v. bindM (as_string v no_ref) (\<lambda>p.
        bindM (R c) (\<lambda>i. bindM (index_of i ref_idx) (\<lambda>idx. bindM (str_get p idx) (W a))))))
      else if op = OP_STRSETUP then nxt (bindM (U a) (\<lambda>v. bindM (as_string v no_set) (\<lambda>p.
        bindM (R b) (\<lambda>i. bindM (index_of i set_idx) (\<lambda>idx.
        bindM (str_put p idx (R c)) (\<lambda>_. W d v))))))
      else None)"

subsection \<open>The remaining tests, comparisons and vector ops\<close>

text \<open>The linear scan of \<open>CaseMatch\<close>.\<close>

fun any_eqv :: "arith \<Rightarrow> val \<Rightarrow> val list \<Rightarrow> bool M" where
  "any_eqv A key [] = retM False"
| "any_eqv A key (v # vs) = bindM (creme_eqv A key v) (\<lambda>r. if r then retM True else any_eqv A key vs)"

definition op_casematch :: "arith \<Rightarrow> frame \<Rightarrow> instruction \<Rightarrow> unit M" where
  "op_casematch A fr ins =
     bindM (rd fr (ins_b ins)) (\<lambda>key. bindM (const_at fr (ins_c ins)) (\<lambda>datums.
     bindM (case datums of VVector p \<Rightarrow> bindM (derefM h_vecs p) (any_eqv A key) | _ \<Rightarrow> retM False) (\<lambda>found.
     wr fr (ins_a ins) (VBool found))))"

definition op_casedispatch :: "frame \<Rightarrow> instruction \<Rightarrow> unit M" where
  "op_casedispatch fr ins =
     bindM (rd fr (ins_a ins)) (\<lambda>key. bindM (cur_chunk fr) (\<lambda>ch.
     bindM (indexM (ch_case_tables ch) (ins_b ins)) (\<lambda>t.
     mod_top (\<lambda>f. f\<lparr>fr_ip := creme_case_dispatch key t\<rparr>))))"

definition vec_length :: "nat \<Rightarrow> val M" where
  "vec_length p = bindM (derefM h_vecs p) (\<lambda>vs. retM (VInt (int (length vs))))"

definition exec_tests2 :: "arith \<Rightarrow> frame \<Rightarrow> instruction \<Rightarrow> val option M option" where
  "exec_tests2 A fr ins =
     (let op = ins_op ins; a = ins_a ins; b = ins_b ins; c = ins_c ins;
          R = rd fr; W = wr fr; U = up fr; imm = retM (VInt c) in
      if op = OP_TESTGE then nxt (test3 (fast_ge A) (R a) (R c) b)
      else if op = OP_TESTGTIMM then nxt (test3 (fast_gt A) (R a) imm b)
      else if op = OP_TESTISEQ then nxt (test_eqv A (R a) (R c) b)
      else if op = OP_CASEDISPATCH then nxt (op_casedispatch fr ins)
      else if op = OP_CASEMATCH then nxt (op_casematch A fr ins)
      else if op = OP_NUMLE then nxt (comp3 (fast_le A) (R b) (R c) (W a))
      else if op = OP_NUMGT then nxt (comp3 (fast_gt A) (R b) (R c) (W a))
      else if op = OP_NUMLEIMM then nxt (comp3 (fast_le A) (R b) imm (W a))
      else if op = OP_NUMGEIMM then nxt (comp3 (fast_ge A) (R b) imm (W a))
      else if op = OP_SUBUP then nxt (arith3 (fast_sub A) (R b) (U c) (W a))
      else if op = OP_MULUP then nxt (arith3 (fast_mul A) (R b) (U c) (W a))
      else if op = OP_NUMLTUP then nxt (comp3 (fast_lt A) (R b) (U c) (W a))
      else if op = OP_NUMGTUP then nxt (comp3 (fast_gt A) (R b) (U c) (W a))
      else if op = OP_NUMEQUP then nxt (comp3 (fast_eq A) (R b) (U c) (W a))
      else if op = OP_ISEQIMM then nxt (bindM (R b) (\<lambda>v. W a (VBool (is_int_eq v c))))
      else if op = OP_ISEQUP then nxt (bindM (eqv3 A (R b) (U c)) (\<lambda>r. W a (VBool r)))
      else if op = OP_TESTLE then nxt (test3 (fast_le A) (R a) (R c) b)
      else if op = OP_TESTGT then nxt (test3 (fast_gt A) (R a) (R c) b)
      else if op = OP_TESTLEIMM then nxt (test3 (fast_le A) (R a) imm b)
      else if op = OP_TESTGEIMM then nxt (test3 (fast_ge A) (R a) imm b)
      else if op = OP_TESTISEQIMM then nxt (bindM (R a) (\<lambda>v. if is_int_eq v c then retM () else jump b))
      else if op = OP_VECREF then nxt (bindM (R b) (\<lambda>v. bindM (as_vector v ''vector-ref: not a vector'') (\<lambda>p.
        bindM (R c) (\<lambda>i. bindM (index_of i ''vector-ref: not an integer index'') (\<lambda>idx.
        bindM (vec_get p idx) (W a))))))
      else if op = OP_VECLEN then nxt (bindM (R b) (\<lambda>v. bindM (as_vector v ''vector-length: not a vector'')
        (\<lambda>p. bindM (vec_length p) (W a))))
      else if op = OP_VECSET then nxt (bindM (R a) (\<lambda>v. bindM (as_vector v ''vector-set!: not a vector'') (\<lambda>p.
        bindM (R b) (\<lambda>i. bindM (index_of i ''vector-set!: not an integer index'') (\<lambda>idx.
        vec_put p idx (R c))))))
      else if op = OP_VECLENUP then nxt (bindM (U b) (\<lambda>v. bindM (as_vector v ''vector-length: not a vector'')
        (\<lambda>p. bindM (vec_length p) (W a))))
      else None)"

end
