(* ===== verification/VM_Step.thy ===== *)
theory VM_Step
  imports VM_Ops
begin

text \<open>
  The rest of \<open>creme_dispatch\<close> (icecreme/vm.c): the call instructions and their quickened forms, the
  returns, \<open>parameterize\<close> and guard handlers; then the loop itself, with \<open>creme_apply\<close>, which
  re-enters it, and the two ways a program is run.

  \<open>act\<close> is the number of the C activation of \<open>creme_dispatch\<close> that executes the instruction: a
  guard handler installed by it holds its \<open>jmp_buf\<close>.  The fuel of the loop counts instructions
  along one path of activations: \<open>run_loop (Suc n)\<close> executes one instruction, whose own calls of
  \<open>creme_apply\<close> run with fuel \<open>n\<close>, and goes on with \<open>n\<close>.
\<close>

subsection \<open>Quickening\<close>

definition quicken_callglobal_op :: "val \<Rightarrow> int \<Rightarrow> int M" where
  "quicken_callglobal_op callee nargs =
     (case callee of
        VRecordCallable p \<Rightarrow> bindM (derefM h_record_callables p) (\<lambda>rc.
          retM (if nargs = 1 \<and> rc_kind rc = RC_ACCESSOR then OP_QCALLGLOBAL_RECACC
                else if rc_kind rc = RC_CTOR \<and> nargs = int (length (rc_ctor_field_indices rc))
                then OP_QCALLGLOBAL_RECCTOR else -1))
      | VBuiltin f \<Rightarrow> retM (
          if nargs = 2 then
            (if f = ''bi_plus'' then OP_QCALLGLOBAL_ADD2
             else if f = ''bi_minus'' then OP_QCALLGLOBAL_SUB2
             else if f = ''bi_star'' then OP_QCALLGLOBAL_MUL2
             else if f = ''bi_cons'' then OP_QCALLGLOBAL_CONS2
             else if f = ''bi_modulo'' then OP_QCALLGLOBAL_MOD2
             else if f = ''bi_string_append'' then OP_QCALLGLOBAL_STRAPPEND2
             else if f = ''bi_hash_table_ref'' then OP_QCALLGLOBAL_HASHREF else -1)
          else if nargs = 1 then
            (if f = ''bi_car'' then OP_QCALLGLOBAL_CAR1
             else if f = ''bi_cdr'' then OP_QCALLGLOBAL_CDR1
             else if f = ''bi_number_to_string'' then OP_QCALLGLOBAL_NUMTOSTR1 else -1)
          else if nargs = 3 then
            (if f = ''bi_plus'' then OP_QCALLGLOBAL_ADD3
             else if f = ''bi_hash_table_set'' then OP_QCALLGLOBAL_HASHSET
             else if f = ''bi_hash_table_ref'' then OP_QCALLGLOBAL_HASHREF else -1)
          else -1)
      | _ \<Rightarrow> retM (-1))"

text \<open>\<open>CREME_QUICKEN\<close>: the instruction just fetched, at \<open>ip - 1\<close> of its chunk, gets a new opcode.\<close>

definition quicken :: "frame \<Rightarrow> int \<Rightarrow> unit M" where
  "quicken fr newop =
     bindM (cur_chunk fr) (\<lambda>ch.
     bindM (indexM (ch_instrs ch) (fr_ip fr - 1)) (\<lambda>i.
     modM (\<lambda>s. s\<lparr>h_chunks := (h_chunks s)[fr_chunk fr :=
       ch\<lparr>ch_instrs := (ch_instrs ch)[nat (fr_ip fr - 1) := i\<lparr>ins_op := newop\<rparr>]\<rparr>]\<rparr>)))"

text \<open>The arguments of a call instruction are at \<open>a + 1\<close>, \<open>a + 2\<close>, \<dots>; a quickened form answers
  \<open>Some m\<close> where its check holds.  The test of the current global value:\<close>

definition is_builtin :: "global_cell \<Rightarrow> bytes \<Rightarrow> bool" where
  "is_builtin cell f \<longleftrightarrow> gc_bound cell \<and> gc_value cell = VBuiltin f"

definition arg :: "frame \<Rightarrow> instruction \<Rightarrow> int \<Rightarrow> val M" where
  "arg fr ins i = rd fr (ins_a ins + i)"

definition quick_pair :: "frame \<Rightarrow> instruction \<Rightarrow> global_cell \<Rightarrow> bytes \<Rightarrow> (val \<times> val \<Rightarrow> val) \<Rightarrow> val option M" where
  "quick_pair fr ins cell f sel =
     bindM (arg fr ins 1) (\<lambda>v.
     case v of
       VPair p \<Rightarrow> if is_builtin cell f then bindM (derefM h_pairs p) (\<lambda>c. retM (Some (sel c))) else retM None
     | _ \<Rightarrow> retM None)"

definition quick_recacc :: "frame \<Rightarrow> instruction \<Rightarrow> global_cell \<Rightarrow> val option M" where
  "quick_recacc fr ins cell =
     bindM (arg fr ins 1) (\<lambda>v.
     case (gc_bound cell, gc_value cell, v) of
       (True, VRecordCallable q, VRecord p) \<Rightarrow>
         bindM (derefM h_record_callables q) (\<lambda>rc. bindM (derefM h_records p) (\<lambda>r.
         if rc_kind rc = RC_ACCESSOR \<and> rec_type r = rc_type rc
         then bindM (indexM (rec_fields r) (int (rc_field_index rc))) (\<lambda>x. retM (Some x))
         else retM None))
     | _ \<Rightarrow> retM None)"

definition quick_recctor :: "frame \<Rightarrow> instruction \<Rightarrow> global_cell \<Rightarrow> val option M" where
  "quick_recctor fr ins cell =
     (case (gc_bound cell, gc_value cell) of
       (True, VRecordCallable q) \<Rightarrow>
         bindM (derefM h_record_callables q) (\<lambda>rc.
         if rc_kind rc = RC_CTOR \<and> ins_b ins = int (length (rc_ctor_field_indices rc)) then
           bindM (derefM h_record_types (rc_type rc)) (\<lambda>ty.
           bindM (read_stack (fr_base fr + ins_a ins + 1) (ins_b ins)) (\<lambda>args.
           bindM (liftR (fill_fields (replicate (length (rty_field_names ty)) VNil)
                    (rc_ctor_field_indices rc) args)) (\<lambda>fs.
           bindM (new_record (rc_type rc) fs) (\<lambda>r. retM (Some r)))))
         else retM None)
     | _ \<Rightarrow> retM None)"

definition quick_mod :: "frame \<Rightarrow> instruction \<Rightarrow> global_cell \<Rightarrow> val option M" where
  "quick_mod fr ins cell =
     bindM (arg fr ins 1) (\<lambda>x. bindM (arg fr ins 2) (\<lambda>y.
     if is_builtin cell ''bi_modulo'' \<and> is_int x \<and> is_int y \<and> int_of y \<noteq> 0
     then bindM (liftR (floor_mod (int_of x) (int_of y))) (\<lambda>r. retM (Some (VInt r)))
     else retM None))"

text \<open>The fast path of each quickened opcode; \<open>None\<close> is its failed check.\<close>

definition quick_path :: "arith \<Rightarrow> (bytes \<Rightarrow> val list \<Rightarrow> val M) \<Rightarrow> frame \<Rightarrow> instruction \<Rightarrow> global_cell
    \<Rightarrow> val option M option" where
  "quick_path A bt fr ins cell =
     (let op = ins_op ins; x = arg fr ins 1; y = arg fr ins 2; z = arg fr ins 3;
          some = (\<lambda>m. bindM m (\<lambda>v. retM (Some v)));
          arith2 = (\<lambda>f name. if is_builtin cell name
            then bindM x (\<lambda>v. bindM y (\<lambda>w. some (liftR (f v w)))) else retM None);
          builtin = (\<lambda>name n. if is_builtin cell name
            then bindM (read_stack (fr_base fr + ins_a ins + 1) n) (\<lambda>args. some (bt name args)) else retM None)
      in
      if op = OP_QCALLGLOBAL_ADD2 then Some (arith2 (fast_add A) ''bi_plus'')
      else if op = OP_QCALLGLOBAL_SUB2 then Some (arith2 (fast_sub A) ''bi_minus'')
      else if op = OP_QCALLGLOBAL_MUL2 then Some (arith2 (fast_mul A) ''bi_star'')
      else if op = OP_QCALLGLOBAL_CONS2 then Some (if is_builtin cell ''bi_cons''
        then bindM x (\<lambda>v. bindM y (\<lambda>w. some (creme_cons v w))) else retM None)
      else if op = OP_QCALLGLOBAL_CAR1 then Some (quick_pair fr ins cell ''bi_car'' fst)
      else if op = OP_QCALLGLOBAL_CDR1 then Some (quick_pair fr ins cell ''bi_cdr'' snd)
      else if op = OP_QCALLGLOBAL_RECACC then Some (quick_recacc fr ins cell)
      else if op = OP_QCALLGLOBAL_RECCTOR then Some (quick_recctor fr ins cell)
      else if op = OP_QCALLGLOBAL_ADD3 then Some (if is_builtin cell ''bi_plus''
        then bindM x (\<lambda>v. bindM y (\<lambda>w. bindM z (\<lambda>u.
          bindM (liftR (fast_add A v w)) (\<lambda>r. some (liftR (fast_add A r u)))))) else retM None)
      else if op = OP_QCALLGLOBAL_MOD2 then Some (quick_mod fr ins cell)
      else if op = OP_QCALLGLOBAL_STRAPPEND2 then Some (builtin ''bi_string_append'' 2)
      else if op = OP_QCALLGLOBAL_NUMTOSTR1 then Some (builtin ''bi_number_to_string'' 1)
      else if op = OP_QCALLGLOBAL_HASHSET then Some (builtin ''bi_hash_table_set'' 3)
      else if op = OP_QCALLGLOBAL_HASHREF then Some (builtin ''bi_hash_table_ref'' (ins_b ins))
      else None)"

subsection \<open>Calls\<close>

text \<open>The call functions of the loop, with what they are tied to.\<close>

type_synonym caller = "instruction \<Rightarrow> val \<Rightarrow> bool \<Rightarrow> nat \<Rightarrow> val option M"

definition exec_quick :: "arith \<Rightarrow> (bytes \<Rightarrow> val list \<Rightarrow> val M) \<Rightarrow> caller \<Rightarrow> nat \<Rightarrow> frame \<Rightarrow> instruction
    \<Rightarrow> val option M option" where
  "exec_quick A bt call td fr ins =
     (if ins_op ins < OP_COUNT \<or> ins_op ins \<ge> OP_QUICK_COUNT then None
      else Some (
        bindM (get_global (ins_d ins)) (\<lambda>cell.
        bindM (case quick_path A bt fr ins cell of None \<Rightarrow> retM None | Some m \<Rightarrow> m) (\<lambda>r.
        case r of
          Some v \<Rightarrow> bindM (wr fr (ins_c ins) v) (\<lambda>_. retM None)
        | None \<Rightarrow>
            bindM (quicken fr OP_CALLGLOBAL) (\<lambda>_.
            bindM (guardM (\<not> gc_bound cell) (''unbound variable: '' @ gc_name cell)) (\<lambda>_.
            call ins (gc_value cell) False td))))))"

text \<open>A non-tail call ignores what \<open>dispatch_call\<close> returns.\<close>

definition tail_call :: "caller \<Rightarrow> nat \<Rightarrow> instruction \<Rightarrow> val M \<Rightarrow> val option M" where
  "tail_call call td ins mcallee =
     bindM mcallee (\<lambda>callee.
     bindM (try_self_tail_call ins callee) (\<lambda>self.
     if self then retM None else call ins callee True td))"

definition exec_call :: "caller \<Rightarrow> nat \<Rightarrow> frame \<Rightarrow> instruction \<Rightarrow> val option M option" where
  "exec_call call td fr ins =
     (let op = ins_op ins; a = ins_a ins; d = ins_d ins; R = rd fr;
          plain = (\<lambda>mv. Some (bindM mv (\<lambda>callee. bindM (call ins callee False td) (\<lambda>_. retM None)))) in
      if op = OP_CALL then plain (R a)
      else if op = OP_TAILCALL then Some (tail_call call td ins (R a))
      else if op = OP_CALLGLOBAL then Some (
        bindM (bound_global d) (\<lambda>callee.
        bindM (quicken_callglobal_op callee (ins_b ins)) (\<lambda>qop.
        bindM (if qop \<ge> 0 then quicken fr qop else retM ()) (\<lambda>_.
        bindM (call ins callee False td) (\<lambda>_. retM None)))))
      else if op = OP_TAILCALLGLOBAL then Some (
        bindM (bound_global d) (\<lambda>callee. call ins callee True td))
      else if op = OP_CALLLOCAL then plain (R d)
      else if op = OP_TAILCALLLOCAL then Some (tail_call call td ins (R d))
      else if op = OP_CALLUPVAL then plain (up fr d)
      else if op = OP_TAILCALLUPVAL then Some (tail_call call td ins (up fr d))
      else None)"

subsection \<open>Returns\<close>

definition exec_return :: "arith \<Rightarrow> nat \<Rightarrow> frame \<Rightarrow> instruction \<Rightarrow> val option M option" where
  "exec_return A td fr ins =
     (let op = ins_op ins; a = ins_a ins; R = rd fr; x = R (ins_b ins); y = R (ins_c ins);
          ret = (\<lambda>v. deliver_return v td);
          store = (\<lambda>v. bindM (wr fr a v) (\<lambda>_. ret v));
          num = (\<lambda>f. Some (bindM x (\<lambda>v. bindM y (\<lambda>w. bindM (liftR (f v w)) store))));
          rel = (\<lambda>f. Some (bindM x (\<lambda>v. bindM y (\<lambda>w. bindM (liftR (f v w)) (\<lambda>b. store (VBool b))))))
      in
      if op = OP_RETURN then Some (bindM (R a) ret)
      else if op = OP_RETURNGLOBAL then Some (bindM (bound_global a) ret)
      else if op = OP_RETURNUPVAL then Some (bindM (up fr a) ret)
      else if op = OP_ADDRETURN then num (fast_add A)
      else if op = OP_SUBRETURN then num (fast_sub A)
      else if op = OP_MULRETURN then num (fast_mul A)
      else if op = OP_NUMLTRETURN then rel (fast_lt A)
      else if op = OP_NUMLERETURN then rel (fast_le A)
      else if op = OP_NUMGTRETURN then rel (fast_gt A)
      else if op = OP_NUMGERETURN then rel (fast_ge A)
      else if op = OP_NUMEQRETURN then rel (fast_eq A)
      else if op = OP_ISEQRETURN then Some (bindM (eqv3 A x y) (\<lambda>b. store (VBool b)))
      else None)"

subsection \<open>\<open>parameterize\<close> and guard handlers\<close>

text \<open>The new value of one parameter, through its converter.\<close>

definition converted :: "(val \<Rightarrow> val list \<Rightarrow> val M) \<Rightarrow> val \<times> val \<Rightarrow> (nat \<times> val) M" where
  "converted ap = (\<lambda>(pv, newval).
     case pv of
       VParameter p \<Rightarrow> bindM (derefM h_parameters p) (\<lambda>pm.
         if pm_has_converter pm
         then bindM (ap (pm_converter pm) [newval]) (\<lambda>v. retM (p, v)) else retM (p, newval))
     | _ \<Rightarrow> creme_abort ''parameterize: expected a parameter object'')"

text \<open>The second loop of \<open>ParamPush\<close>: save the current value, install the new one.\<close>

fun swap_parameters :: "(nat \<times> val) list \<Rightarrow> (nat \<times> val) list M" where
  "swap_parameters [] = retM []"
| "swap_parameters ((p, v) # ps) =
     bindM (derefM h_parameters p) (\<lambda>pm.
     bindM (set_parameter p v) (\<lambda>_.
     bindM (swap_parameters ps) (\<lambda>saved. retM ((p, pm_value pm) # saved))))"

definition op_parampush :: "(val \<Rightarrow> val list \<Rightarrow> val M) \<Rightarrow> frame \<Rightarrow> instruction \<Rightarrow> unit M" where
  "op_parampush ap fr ins =
     bindM (mapM (\<lambda>i. bindM (rd fr (ins_a ins + int i)) (\<lambda>pv. bindM (rd fr (ins_b ins + int i)) (\<lambda>nv.
        converted ap (pv, nv)))) [0..<nat (ins_c ins)]) (\<lambda>ps.
     bindM (\<lambda>s. guardM (vm_n_unwind s \<ge> CREME_UNWIND_CAP)
       (''icecreme: parameterize/dynamic-wind unwind stack full (CREME_UNWIND_CAP='' @
        dec (int CREME_UNWIND_CAP) @ '')'') s) (\<lambda>_.
     bindM (swap_parameters ps) (\<lambda>saved. push_unwind (UnwindParams saved))))"

definition op_pushhandler :: "nat \<Rightarrow> frame \<Rightarrow> instruction \<Rightarrow> unit M" where
  "op_pushhandler act fr ins = (\<lambda>s.
     if vm_n_handlers s \<ge> CREME_HANDLERS_CAP
     then creme_abort (''icecreme: guard handler stack full (CREME_HANDLERS_CAP='' @
            dec (int CREME_HANDLERS_CAP) @ '')'') s
     else Done () (s\<lparr>vm_handlers := (vm_handlers s)(vm_n_handlers s :=
              \<lparr> gh_buf = act, gh_depth = vm_depth s, gh_unwind_mark = vm_n_unwind s,
                gh_condition_reg = ins_a ins, gh_resume_ip = fr_ip fr + ins_b ins \<rparr>),
            vm_n_handlers := vm_n_handlers s + 1\<rparr>))"

text \<open>The branch \<open>setjmp\<close> takes when it returns a second time.  The C pointer \<open>h\<close> stays a pointer
  into \<open>vm->handlers\<close>, so every later read of it reads the array again.\<close>

definition handler_now :: "nat \<Rightarrow> guard_handler M" where
  "handler_now idx = getM (\<lambda>s. vm_handlers s idx)"

primrec drain_handler :: "nat \<Rightarrow> (val \<Rightarrow> val list \<Rightarrow> val M) \<Rightarrow> nat \<Rightarrow> unit M" where
  "drain_handler 0 ap idx = (\<lambda>s. if vm_n_unwind s > gh_unwind_mark (vm_handlers s idx) then Timeout else Done () s)"
| "drain_handler (Suc n) ap idx = (\<lambda>s.
     if vm_n_unwind s > gh_unwind_mark (vm_handlers s idx)
     then bindM pop_unwind (\<lambda>act. bindM (run_unwind_action ap act) (\<lambda>_. drain_handler n ap idx)) s
     else Done () s)"

definition resume_handler :: "nat \<Rightarrow> (val \<Rightarrow> val list \<Rightarrow> val M) \<Rightarrow> val option M" where
  "resume_handler fuel ap =
     bindM (getM vm_pending_handler_idx) (\<lambda>idx.
     bindM (handler_now idx) (\<lambda>h.
     bindM (close_frames (gh_depth h)) (\<lambda>_.
     bindM (drain_handler fuel ap idx) (\<lambda>_.
     bindM (handler_now idx) (\<lambda>h.
     bindM (modM (\<lambda>s. s\<lparr>vm_depth := gh_depth h\<rparr>)) (\<lambda>_.
     bindM top_frame (\<lambda>fr.
     bindM (getM vm_pending_condition) (\<lambda>c.
     bindM (wr fr (gh_condition_reg h) c) (\<lambda>_.
     bindM (mod_top (\<lambda>f. f\<lparr>fr_ip := gh_resume_ip h\<rparr>)) (\<lambda>_.
     retM None))))))))))"

definition op_guardreraise :: "val option M" where
  "op_guardreraise = (\<lambda>s.
     if vm_n_handlers s > 0 then creme_raise_condition (vm_pending_condition s) s
     else bindM (creme_is_condition (vm_pending_condition s)) (\<lambda>b.
       if b then
         (case vm_pending_condition s of
            VRecord p \<Rightarrow> bindM (derefM h_records p) (\<lambda>r. bindM (indexM (rec_fields r) 0) (\<lambda>msg.
              bindM (text_of msg) creme_abort))
          | _ \<Rightarrow> stuckM)
       else creme_abort ''icecreme: unhandled exception (re-raised, no outer guard)'') s)"

definition exec_unwind :: "(val \<Rightarrow> val list \<Rightarrow> val M) \<Rightarrow> nat \<Rightarrow> frame \<Rightarrow> instruction
    \<Rightarrow> val option M option" where
  "exec_unwind ap act fr ins =
     (let op = ins_op ins in
      if op = OP_PARAMPUSH then nxt (op_parampush ap fr ins)
      else if op = OP_PARAMPOP then nxt (bindM pop_unwind (run_unwind_action ap))
      else if op = OP_PUSHHANDLER then nxt (op_pushhandler act fr ins)
      else if op = OP_POPHANDLER then nxt (\<lambda>s. if vm_n_handlers s = 0 then Stuck
        else Done () (s\<lparr>vm_n_handlers := vm_n_handlers s - 1\<rparr>))
      else if op = OP_GUARDRERAISE then Some op_guardreraise
      else None)"

subsection \<open>The loop\<close>

definition fetch :: "instruction M" where
  "fetch =
     bindM top_frame (\<lambda>fr.
     bindM (cur_chunk fr) (\<lambda>ch.
     bindM (indexM (ch_instrs ch) (fr_ip fr)) (\<lambda>ins.
     bindM (mod_top (\<lambda>f. f\<lparr>fr_ip := fr_ip f + 1\<rparr>)) (\<lambda>_. retM ins))))"

fun first_some :: "'a option list \<Rightarrow> 'a option" where
  "first_some [] = None"
| "first_some (None # xs) = first_some xs"
| "first_some (Some x # xs) = Some x"

text \<open>An opcode outside the table has no body: \<open>goto *dispatch_table[op]\<close> reads past it.\<close>

definition exec_instruction :: "arith \<Rightarrow> (bytes \<Rightarrow> val list \<Rightarrow> val M) \<Rightarrow> (val \<Rightarrow> val list \<Rightarrow> val M)
    \<Rightarrow> nat \<Rightarrow> nat \<Rightarrow> nat \<Rightarrow> frame \<Rightarrow> instruction \<Rightarrow> val option M" where
  "exec_instruction A bt ap fuel act td fr ins =
     (let call = dispatch_call fuel ap bt in
      case first_some [exec_basic A fr ins, exec_tests A fr ins, exec_forms ap fr ins,
          exec_bytes fr ins, exec_misc A fr ins, exec_access fr ins, exec_tests2 A fr ins,
          exec_call call td fr ins, exec_quick A bt call td fr ins, exec_return A td fr ins,
          exec_unwind ap act fr ins] of
        Some m \<Rightarrow> m
      | None \<Rightarrow> stuckM)"

definition step :: "arith \<Rightarrow> (bytes \<Rightarrow> val list \<Rightarrow> val M) \<Rightarrow> (val \<Rightarrow> val list \<Rightarrow> val M)
    \<Rightarrow> nat \<Rightarrow> nat \<Rightarrow> nat \<Rightarrow> val option M" where
  "step A bt ap fuel act td =
     bindM fetch (\<lambda>ins. bindM top_frame (\<lambda>fr. exec_instruction A bt ap fuel act td fr ins))"

text \<open>What the loop does with the outcome \<open>r\<close> of an instruction: return, go on, or take a
  \<open>longjmp\<close> that is addressed to this activation.  \<open>builtins\<close> gives the function behind a
  \<open>T_BUILTIN\<close>, given the fuel of its own loops and \<open>creme_apply\<close>.\<close>

type_synonym builtins = "nat \<Rightarrow> (val \<Rightarrow> val list \<Rightarrow> val M) \<Rightarrow> bytes \<Rightarrow> val list \<Rightarrow> val M"

fun run_loop :: "nat \<Rightarrow> arith \<Rightarrow> builtins \<Rightarrow> nat \<Rightarrow> nat \<Rightarrow> val option run \<Rightarrow> val run"
  and creme_apply :: "nat \<Rightarrow> arith \<Rightarrow> builtins \<Rightarrow> val \<Rightarrow> val list \<Rightarrow> val M" where
  "run_loop n A B act td (Done (Some v) s) = Done v s"
| "run_loop 0 A B act td (Done None s) = Timeout"
| "run_loop (Suc n) A B act td (Done None s) =
     run_loop n A B act td (step A (B n (creme_apply n A B)) (creme_apply n A B) n act td s)"
| "run_loop 0 A B act td (Longjmp b s) = (if b = act then Timeout else Longjmp b s)"
| "run_loop (Suc n) A B act td (Longjmp b s) =
     (if b = act then run_loop n A B act td (resume_handler n (creme_apply n A B) s) else Longjmp b s)"
| "run_loop n A B act td (Exit msg s) = Exit msg s"
| "run_loop n A B act td (ActorExit msg s) = ActorExit msg s"
| "run_loop n A B act td Stuck = Stuck"
| "run_loop n A B act td Timeout = Timeout"
| "creme_apply 0 A B fn args s = Timeout"
| "creme_apply (Suc n) A B fn args s =
     bindM (apply_setup n (creme_apply n A B) (B n (creme_apply n A B)) fn args) (\<lambda>r.
       case r of
         Inl v \<Rightarrow> retM v
       | Inr td \<Rightarrow> (\<lambda>s'. run_loop n A B (vm_next_act s') td
           (Done None (s'\<lparr>vm_next_act := vm_next_act s' + 1\<rparr>)))) s"

definition creme_dispatch :: "nat \<Rightarrow> arith \<Rightarrow> builtins \<Rightarrow> nat \<Rightarrow> val M" where
  "creme_dispatch n A B td = (\<lambda>s. run_loop n A B (vm_next_act s) td
     (Done None (s\<lparr>vm_next_act := vm_next_act s + 1\<rparr>)))"

definition creme_run_chunk :: "nat \<Rightarrow> arith \<Rightarrow> builtins \<Rightarrow> nat \<Rightarrow> val M" where
  "creme_run_chunk n A B chunk =
     bindM (modM (\<lambda>s. (upd_frame 0 (\<lambda>f. \<lparr> fr_chunk = chunk, fr_base = 0, fr_closure = None,
       fr_ip = 0, fr_return_reg = -1, fr_opened = [] \<rparr>) s)\<lparr>vm_depth := 1\<rparr>)) (\<lambda>_.
     creme_dispatch n A B 0)"

definition creme_run_loaded_chunk :: "nat \<Rightarrow> arith \<Rightarrow> builtins \<Rightarrow> nat \<Rightarrow> val M" where
  "creme_run_loaded_chunk n A B chunk =
     bindM (loaded_chunk_setup chunk) (creme_dispatch n A B)"

end
