(* ===== verification/Heap_Lists.thy ===== *)
theory Heap_Lists
  imports VM_Core
begin

text \<open>
  Scheme lists in the heap.  \<open>chain ps v vs t\<close>: following \<open>cdr\<close> pointers through the pairs \<open>ps\<close> from \<open>v\<close>
  meets the items \<open>vs\<close> and arrives at \<open>t\<close>.  The loops of the code that follow a list return its items
  when the list ends, and building a list from an array makes a chain of fresh pairs.
\<close>

fun pair_val :: "val \<Rightarrow> bool" where
  "pair_val (VPair p) = True"
| "pair_val v = False"

primrec chain :: "(val \<times> val) list \<Rightarrow> val \<Rightarrow> val list \<Rightarrow> val \<Rightarrow> bool" where
  "chain ps v [] t \<longleftrightarrow> v = t"
| "chain ps v (x # xs) t \<longleftrightarrow>
     (case v of VPair p \<Rightarrow> p < length ps \<and> fst (ps ! p) = x \<and> chain ps (snd (ps ! p)) xs t | _ \<Rightarrow> False)"

lemma chain_Cons: "chain ps (VPair p) (x # xs) t \<longleftrightarrow> p < length ps \<and> fst (ps ! p) = x \<and> chain ps (snd (ps ! p)) xs t"
  by simp

lemma chain_not_pair: "\<not> pair_val v \<Longrightarrow> chain ps v xs t \<longleftrightarrow> xs = [] \<and> v = t"
  by (cases xs; cases v) auto

lemma chain_more: "chain ps v vs t \<Longrightarrow> chain (ps @ qs) v vs t"
  by (induction vs arbitrary: v) (auto simp: nth_append split: val.splits)

lemma chain_append: "chain ps v vs t \<Longrightarrow> chain ps t ws u \<Longrightarrow> chain ps v (vs @ ws) u"
  by (induction vs arbitrary: v) (auto split: val.splits)

lemma chain_drop: "chain ps v (vs @ ws) u \<Longrightarrow> \<exists>t. chain ps v vs t \<and> chain ps t ws u"
  by (induction vs arbitrary: v) (auto split: val.splits)

lemma chain_fun:
  "chain ps v vs t \<Longrightarrow> chain ps v ws u \<Longrightarrow> \<not> pair_val t \<Longrightarrow> \<not> pair_val u \<Longrightarrow> vs = ws \<and> t = u"
proof (induction vs arbitrary: v ws)
  case Nil
  then show ?case by (cases ws) (auto split: val.splits)
next
  case (Cons x xs)
  then show ?case by (cases ws) (auto split: val.splits)
qed

text \<open>A chain that ends meets no pair twice, so it has at most one item for every pair.\<close>

primrec addrs :: "(val \<times> val) list \<Rightarrow> val \<Rightarrow> val list \<Rightarrow> nat list" where
  "addrs ps v [] = []"
| "addrs ps v (x # xs) = (case v of VPair p \<Rightarrow> p # addrs ps (snd (ps ! p)) xs | _ \<Rightarrow> [])"

lemma addrs_in_chain:
  "chain ps v vs t \<Longrightarrow> p \<in> set (addrs ps v vs) \<Longrightarrow>
     \<exists>ws. chain ps (VPair p) ws t \<and> 0 < length ws \<and> length ws \<le> length vs"
proof (induction vs arbitrary: v)
  case Nil
  then show ?case by simp
next
  case (Cons x xs)
  then obtain q where q: "v = VPair q" "q < length ps" "fst (ps ! q) = x" "chain ps (snd (ps ! q)) xs t"
    by (auto split: val.splits)
  show ?case
  proof (cases "p = q")
    case True
    with q show ?thesis by (intro exI [of _ "x # xs"]) simp
  next
    case False
    then have "p \<in> set (addrs ps (snd (ps ! q)) xs)" using Cons.prems(2) q(1) by simp
    from Cons.IH [OF q(4) this] obtain ws where
      "chain ps (VPair p) ws t" "0 < length ws" "length ws \<le> length xs" by blast
    then show ?thesis by (intro exI [of _ ws]) simp
  qed
qed

lemma addrs_distinct:
  "chain ps v vs t \<Longrightarrow> \<not> pair_val t \<Longrightarrow>
     distinct (addrs ps v vs) \<and> length (addrs ps v vs) = length vs \<and> set (addrs ps v vs) \<subseteq> {..<length ps}"
proof (induction vs arbitrary: v)
  case Nil
  then show ?case by simp
next
  case (Cons x xs)
  then obtain q where q: "v = VPair q" "q < length ps" "fst (ps ! q) = x" "chain ps (snd (ps ! q)) xs t"
    by (auto split: val.splits)
  note IH = Cons.IH [OF q(4) Cons.prems(2)]
  have "q \<notin> set (addrs ps (snd (ps ! q)) xs)"
  proof
    assume "q \<in> set (addrs ps (snd (ps ! q)) xs)"
    from addrs_in_chain [OF q(4) this] obtain ws where
      ws: "chain ps (VPair q) ws t" "length ws \<le> length xs" by blast
    from chain_fun [OF ws(1), of "x # xs" t] q Cons.prems(2) have "ws = x # xs" by simp
    with ws(2) show False by simp
  qed
  with IH q show ?case by auto
qed

lemma chain_length:
  assumes "chain ps v vs t" "\<not> pair_val t"
  shows "length vs \<le> length ps"
proof -
  note a = addrs_distinct [OF assms]
  have "length (addrs ps v vs) = card (set (addrs ps v vs))" using a by (simp add: distinct_card)
  also have "\<dots> \<le> card {..<length ps}" using a by (intro card_mono) auto
  finally show ?thesis using a by simp
qed

subsection \<open>The loops of the code\<close>

lemma list_walk_chain:
  "chain (h_pairs s) v vs t \<Longrightarrow> \<not> pair_val t \<Longrightarrow> length vs < n \<Longrightarrow> list_walk n v s = Done (vs, t) s"
proof (induction vs arbitrary: v n)
  case Nil
  then show ?case by (cases n; cases v) auto
next
  case (Cons x xs)
  then obtain m p where "n = Suc m" "v = VPair p" by (cases n; cases v) auto
  with Cons show ?case by (simp add: bindM_def)
qed

lemma list_items_chain:
  "chain (h_pairs s) v vs t \<Longrightarrow> \<not> pair_val t \<Longrightarrow> list_items v s = Done (vs, t) s"
  using list_walk_chain [of s v vs t "Suc (length (h_pairs s))"] chain_length [of "h_pairs s" v vs t]
  by (simp add: list_items_def)

text \<open>Conversely, what a walk returns is a chain.\<close>

lemma list_walk_Done:
  "list_walk n v s = Done (vs, t) s' \<Longrightarrow> s' = s \<and> chain (h_pairs s) v vs t \<and> \<not> pair_val t"
proof (induction n arbitrary: v vs t s')
  case 0
  then show ?case by simp
next
  case (Suc n)
  show ?case
  proof (cases v)
    case (VPair p)
    with Suc.prems obtain ws where "p < length (h_pairs s)" "vs = fst (h_pairs s ! p) # ws"
      "list_walk n (snd (h_pairs s ! p)) s = Done (ws, t) s'"
      by (auto simp: bindM_Done_iff derefM_def split: if_splits)
    with Suc.IH VPair show ?thesis by simp
  qed (use Suc.prems in auto)
qed

lemma list_items_Done_iff:
  "list_items v s = Done (vs, t) s' \<longleftrightarrow> s' = s \<and> chain (h_pairs s) v vs t \<and> \<not> pair_val t"
  using list_walk_Done [of "Suc (length (h_pairs s))" v s vs t s'] list_items_chain [of s v vs t]
  by (auto simp: list_items_def)

text \<open>Building a list from an array.\<close>

definition with_pairs :: "vm \<Rightarrow> (val \<times> val) list \<Rightarrow> vm" where
  "with_pairs s ps = s\<lparr>h_pairs := h_pairs s @ ps\<rparr>"

lemma with_pairs_simps [simp]:
  "h_pairs (with_pairs s ps) = h_pairs s @ ps"
  "with_pairs (with_pairs s ps) qs = with_pairs s (ps @ qs)"
  "with_pairs s [] = s"
  by (simp_all add: with_pairs_def)

lemma cons_list_run:
  "\<exists>v new. cons_list vs t s = Done v (with_pairs s new) \<and> length new = length vs \<and>
     chain (h_pairs s @ new) v vs t"
proof (induction vs)
  case Nil
  show ?case by (intro exI [of _ t] exI [of _ "[]"]) simp
next
  case (Cons x xs)
  then obtain v new where *: "cons_list xs t s = Done v (with_pairs s new)" "length new = length xs"
    "chain (h_pairs s @ new) v xs t" by blast
  let ?new = "new @ [(x, v)]"
  have "cons_list (x # xs) t s = Done (VPair (length (h_pairs s @ new))) (with_pairs s ?new)"
    using *(1) by (simp add: bindM_def with_pairs_def)
  moreover have "chain (h_pairs s @ ?new) (VPair (length (h_pairs s @ new))) (x # xs) t"
    using chain_more [OF *(3), of "[(x, v)]"] by (simp add: nth_append)
  ultimately show ?case using *(2) by (intro exI [of _ "VPair (length (h_pairs s @ new))"] exI [of _ ?new]) simp
qed

lemma cons_list_exact:
  assumes "\<not> pair_val t"
  obtains v new where "cons_list vs t s = Done v (with_pairs s new)" "length new = length vs"
    "list_items v (with_pairs s new) = Done (vs, t) (with_pairs s new)"
proof -
  obtain v new where *: "cons_list vs t s = Done v (with_pairs s new)" "length new = length vs"
    "chain (h_pairs s @ new) v vs t" using cons_list_run by blast
  then have "list_items v (with_pairs s new) = Done (vs, t) (with_pairs s new)"
    using list_items_chain [of "with_pairs s new" v vs t] assms by simp
  with * show thesis by (intro that)
qed

end
