(* ===== verification/Call_Props.thy ===== *)
theory Call_Props
  imports VM_Step Heap_Lists
begin

text \<open>
  The call protocol of the VM.  \<open>keeps f m\<close> says that \<open>f\<close> of the state is the same after \<open>m\<close> has returned;
  its rules follow the structure of a definition.  Then: closing upvalues, binding arguments, and the
  two ways a call in tail position is made.
\<close>

named_theorems keeps_rules \<open>what a C function of the VM leaves unchanged\<close>

definition keeps :: "(vm \<Rightarrow> 'b) \<Rightarrow> 'a M \<Rightarrow> bool" where
  "keeps f m \<longleftrightarrow> (\<forall>s x s'. m s = Done x s' \<longrightarrow> f s' = f s)"

lemma keepsD: "keeps f m \<Longrightarrow> m s = Done x s' \<Longrightarrow> f s' = f s"
  by (simp add: keeps_def)

lemma keepsI: "(\<And>s x s'. m s = Done x s' \<Longrightarrow> f s' = f s) \<Longrightarrow> keeps f m"
  by (auto simp: keeps_def)

lemma keeps_bind [keeps_rules]:
  "keeps f m \<Longrightarrow> (\<And>x. keeps f (g x)) \<Longrightarrow> keeps f (bindM m g)"
  unfolding keeps_def bindM_Done_iff by metis

lemma keeps_basic [keeps_rules]:
  "keeps f (retM x)" "keeps f (Done x)" "keeps f stuckM" "keeps f (getM g)"
  by (simp_all add: keeps_def)

lemma keeps_reads [keeps_rules]:
  "keeps f (derefM sel a)" "keeps f (indexM xs i)" "keeps f (get_stack i)" "keeps f top_frame"
  "keeps f (get_global i)"
  by (auto simp: keeps_def derefM_def indexM_def get_stack_def top_frame_def get_global_def split: if_splits)

lemma keeps_if [keeps_rules]:
  "(b \<Longrightarrow> keeps f m) \<Longrightarrow> (\<not> b \<Longrightarrow> keeps f m') \<Longrightarrow> keeps f (if b then m else m')"
  by simp

lemma keeps_forM [keeps_rules]: "(\<And>x. keeps f (g x)) \<Longrightarrow> keeps f (forM xs g)"
  by (induction xs) (auto intro: keeps_rules)

lemma keeps_mapM [keeps_rules]: "(\<And>x. keeps f (g x)) \<Longrightarrow> keeps f (mapM g xs)"
  by (induction xs) (auto intro: keeps_rules)

lemma bind_state_cong:
  "(\<And>x s'. m s = Done x s' \<Longrightarrow> f x s' = g x s') \<Longrightarrow> bindM m f s = bindM m g s"
  by (simp add: bindM_def split: run.split)

text \<open>An abort and a \<open>longjmp\<close> do not return.\<close>

lemma raise_not_Done: "creme_raise_condition c s \<noteq> Done x s'"
  by (simp add: creme_raise_condition_def Let_def)

lemma abort_not_Done: "creme_abort msg s \<noteq> Done x s'"
  by (auto simp: creme_abort_def Let_def bindM_Done_iff raise_not_Done)

lemma bind_raise: "bindM (creme_raise_condition c) f = creme_raise_condition c"
  by (rule ext) (simp add: bindM_def creme_raise_condition_def Let_def)

lemma bind_abort [run_simps]: "bindM (creme_abort msg) f = creme_abort msg"
proof (rule ext)
  fix s
  have "bindM (bindM (creme_make_condition b VNil) creme_raise_condition) f s =
      bindM (creme_make_condition b VNil) creme_raise_condition s" for b
    by (simp add: bindM_assoc bind_raise)
  then show "bindM (creme_abort msg) f s = creme_abort msg s"
    by (simp add: bindM_def creme_abort_def Let_def)
qed

lemma liftR_rbind: "liftR (rbind r f) = bindM (liftR r) (\<lambda>x. liftR (f x))"
proof (cases r)
  case (Inl e)
  then show ?thesis by (cases e) (simp_all add: liftR_def bind_abort)
qed (simp add: liftR_def)

lemma keeps_abort [keeps_rules]: "keeps f (creme_abort msg)" "keeps f (creme_raise_condition c)"
  by (auto simp: keeps_def abort_not_Done raise_not_Done)

lemma keeps_guard [keeps_rules]: "keeps f (guardM b msg)"
  by (simp add: guardM_def keeps_rules)

lemma guardM_Done_iff: "guardM b msg s = Done u s' \<longleftrightarrow> \<not> b \<and> s' = s"
  by (auto simp: guardM_def abort_not_Done)

lemma keeps_liftR [keeps_rules]: "keeps f (liftR r)"
  by (simp add: liftR_def keeps_rules split: sum.split fault.split)

text \<open>What the calls read besides the registers: everything but \<open>vm_stack\<close> and the pairs.\<close>

definition control :: "vm \<Rightarrow> vm" where
  "control s = s\<lparr>vm_stack := (\<lambda>_. VNil), h_pairs := []\<rparr>"

lemma control_eq:
  assumes "control s' = control s"
  shows "vm_frames s' = vm_frames s" "vm_depth s' = vm_depth s" "vm_frames_cap s' = vm_frames_cap s"
    "vm_stack_cap s' = vm_stack_cap s" "h_chunks s' = h_chunks s" "h_closures s' = h_closures s"
    "h_upvalues s' = h_upvalues s" "vm_globals s' = vm_globals s" "vm_n_unwind s' = vm_n_unwind s"
    "vm_n_handlers s' = vm_n_handlers s" "h_parameters s' = h_parameters s"
proof -
  have "\<And>f. f (control s') = f (control s)" using assms by simp
  from this [of vm_frames] this [of vm_depth] this [of vm_frames_cap] this [of vm_stack_cap]
    this [of h_chunks] this [of h_closures] this [of h_upvalues] this [of vm_globals]
    this [of vm_n_unwind] this [of vm_n_handlers] this [of h_parameters]
  show "vm_frames s' = vm_frames s" "vm_depth s' = vm_depth s" "vm_frames_cap s' = vm_frames_cap s"
    "vm_stack_cap s' = vm_stack_cap s" "h_chunks s' = h_chunks s" "h_closures s' = h_closures s"
    "h_upvalues s' = h_upvalues s" "vm_globals s' = vm_globals s" "vm_n_unwind s' = vm_n_unwind s"
    "vm_n_handlers s' = vm_n_handlers s" "h_parameters s' = h_parameters s"
    by (simp_all add: control_def)
qed

lemma keeps_control_stack [keeps_rules]: "keeps control (set_stack i v)" "keeps control (creme_cons a d)"
  by (auto simp: keeps_def control_def set_stack_def split: if_splits)

lemma keeps_control_cons_list [keeps_rules]: "keeps control (cons_list vs t)"
  by (induction vs) (auto intro: keeps_rules)

lemma keeps_control_copy [keeps_rules]:
  "keeps control (copy_stack dst src n)" "keeps control (read_stack base n)"
  unfolding copy_stack_def read_stack_def by (auto intro!: keeps_rules)

lemma keeps_control_bind_args [keeps_rules]: "keeps control (bind_args ch nargs nb ab)"
  unfolding bind_args_def arity_abort_def Let_def by (auto intro!: keeps_rules)

subsection \<open>Closing upvalues\<close>

lemma close_upvalues_none:
  assumes "fr_opened (vm_frames s i) = []"
  shows "close_upvalues i s = Done () s"
proof -
  have "upd_frame i (\<lambda>f. f\<lparr>fr_opened := []\<rparr>) s = s"
    using assms by (cases "vm_frames s i") (auto simp: upd_frame_def fun_upd_idem)
  then show ?thesis using assms by (simp add: close_upvalues_def)
qed

text \<open>All it changes is the upvalues and the list of one frame.\<close>

definition no_upvalues :: "nat \<Rightarrow> vm \<Rightarrow> vm" where
  "no_upvalues i s = (upd_frame i (\<lambda>f. f\<lparr>fr_opened := []\<rparr>) s)\<lparr>h_upvalues := []\<rparr>"

lemma keeps_close: "keeps (no_upvalues i) (close_upvalues i)"
proof -
  have "keeps (no_upvalues i) (upvalue_close p)" for p
    unfolding upvalue_close_def set_upvalue_def
    by (intro keeps_bind keeps_reads)
      (auto simp: keeps_def no_upvalues_def upd_frame_def bindM_Done_iff get_stack_def split: option.splits if_splits)
  moreover have "keeps (no_upvalues i) (modM (upd_frame i (\<lambda>f. f\<lparr>fr_opened := []\<rparr>)))"
    by (simp add: keeps_def no_upvalues_def upd_frame_def)
  ultimately show ?thesis
    unfolding close_upvalues_def by (intro keeps_bind keeps_forM keeps_basic) auto
qed

lemma close_upvalues_result:
  assumes "close_upvalues i s = Done u s'"
  shows "vm_depth s' = vm_depth s" "vm_frames_cap s' = vm_frames_cap s" "vm_stack_cap s' = vm_stack_cap s"
    "h_chunks s' = h_chunks s" "h_closures s' = h_closures s" "vm_stack s' = vm_stack s" "h_pairs s' = h_pairs s"
    "vm_frames s' i = (vm_frames s i)\<lparr>fr_opened := []\<rparr>"
proof -
  have eq: "no_upvalues i s' = no_upvalues i s" using keepsD [OF keeps_close assms] .
  then have "\<And>f. f (no_upvalues i s') = f (no_upvalues i s)" by simp
  from this [of vm_depth] this [of vm_frames_cap] this [of vm_stack_cap] this [of h_chunks]
    this [of h_closures] this [of vm_stack] this [of h_pairs]
  show "vm_depth s' = vm_depth s" "vm_frames_cap s' = vm_frames_cap s" "vm_stack_cap s' = vm_stack_cap s"
    "h_chunks s' = h_chunks s" "h_closures s' = h_closures s" "vm_stack s' = vm_stack s" "h_pairs s' = h_pairs s"
    by (simp_all add: no_upvalues_def upd_frame_def)
  have "fr_opened (vm_frames s' i) = []"
    using assms by (auto simp: close_upvalues_def bindM_Done_iff upd_frame_def)
  moreover have "(vm_frames s' i)\<lparr>fr_opened := []\<rparr> = (vm_frames s i)\<lparr>fr_opened := []\<rparr>"
    using arg_cong [OF eq, of "\<lambda>s. vm_frames s i"] by (simp add: no_upvalues_def upd_frame_def)
  ultimately show "vm_frames s' i = (vm_frames s i)\<lparr>fr_opened := []\<rparr>"
    by (cases "vm_frames s' i") simp
qed

subsection \<open>Self tail calls\<close>

text \<open>What every frame the loop runs keeps: the chunk of its closure, and registers inside the stack.\<close>

definition frame_ok :: "vm \<Rightarrow> bool" where
  "frame_ok s \<longleftrightarrow> 0 < vm_depth s \<and> vm_depth s \<le> vm_frames_cap s \<and>
     (let fr = vm_frames s (vm_depth s - 1) in
      fr_chunk fr < length (h_chunks s) \<and> 0 \<le> fr_base fr \<and>
      fr_base fr + ch_num_registers (h_chunks s ! fr_chunk fr) \<le> int (vm_stack_cap s) \<and>
      (\<forall>c. fr_closure fr = Some c \<longrightarrow> c < length (h_closures s) \<and> cl_chunk (h_closures s ! c) = fr_chunk fr))"

lemma self_tail_call_is_call:
  assumes ok: "frame_ok s" and self: "fr_closure (vm_frames s (vm_depth s - 1)) = Some c"
  shows "bindM (try_self_tail_call ins (VClosure c)) (\<lambda>b. if b then retM None else m) s =
    dispatch_call fuel ap bt ins (VClosure c) True td s"
proof -
  define i where "i = vm_depth s - 1"
  define fr where "fr = vm_frames s i"
  define ch where "ch = h_chunks s ! fr_chunk fr"
  have d: "0 < vm_depth s" "vm_depth s \<le> vm_frames_cap s"
    and ch: "fr_chunk fr < length (h_chunks s)"
    and fits: "\<not> fr_base fr + ch_num_registers ch > int (vm_stack_cap s)"
    and cl: "c < length (h_closures s)" "cl_chunk (h_closures s ! c) = fr_chunk fr"
    and fc: "fr_closure fr = Some c"
    using ok self by (auto simp: frame_ok_def Let_def fr_def i_def ch_def)
  let ?bind = "bind_args ch (ins_b ins) (fr_base fr) (fr_base fr + ins_a ins + 1)"
  let ?close = "\<lambda>s. close_upvalues (vm_depth s - 1) s"
  let ?enter = "mod_top (\<lambda>f. f\<lparr>fr_chunk := fr_chunk fr, fr_closure := Some c, fr_base := fr_base fr, fr_ip := 0\<rparr>)"
  let ?go = "bindM ?close (\<lambda>_. bindM ?bind (\<lambda>_. bindM ?enter (\<lambda>_. retM None)))"
  have top: "bindM top_frame f s = f fr s" for f :: "frame \<Rightarrow> 'z M"
    using d by (simp add: bindM_def fr_def i_def)
  have chunk: "bindM (derefM h_chunks (fr_chunk fr)) f s = f ch s" for f :: "chunk \<Rightarrow> 'z M"
    using ch by (simp add: bindM_def ch_def)
  have closure: "bindM (derefM h_closures c) f s = f (h_closures s ! c) s" for f :: "closure \<Rightarrow> 'z M"
    using cl by (simp add: bindM_def)
  have check: "bindM (check_stack (fr_base fr) ch) f s = f () s" for f :: "unit \<Rightarrow> 'z M"
    using fits by (simp add: bindM_def check_stack_def)
  have "dispatch_call fuel ap bt ins (VClosure c) True td s = ?go s"
    by (simp add: dispatch_call_def call_closure_def Let_def top chunk closure check cl(2))
  moreover have "bindM (try_self_tail_call ins (VClosure c)) (\<lambda>b. if b then retM None else m) s = ?go s"
  proof -
    have skip: "bindM (if fr_opened fr = [] then retM () else ?close) f s = bindM ?close f s" for f :: "unit \<Rightarrow> 'z M"
      using close_upvalues_none [of s i] by (simp add: fr_def i_def bindM_def)
    have deref: "bindM ?close (\<lambda>_. bindM (derefM h_chunks (fr_chunk fr)) f) s = bindM ?close (\<lambda>_. f ch) s"
      for f :: "chunk \<Rightarrow> 'z M"
      using close_upvalues_result(4) [of i s] ch by (auto simp: bindM_def i_def ch_def split: run.split)
    have enter: "bindM ?close (\<lambda>_. bindM ?bind (\<lambda>_. bindM (mod_top (\<lambda>f. f\<lparr>fr_ip := 0\<rparr>)) f)) s =
        bindM ?close (\<lambda>_. bindM ?bind (\<lambda>_. bindM ?enter f)) s" for f :: "unit \<Rightarrow> 'z M"
    proof (rule bind_state_cong, rule bind_state_cong)
      fix u s1 v s2
      assume a: "?close s = Done u s1" "?bind s1 = Done v s2"
      have "vm_frames s1 (vm_depth s1 - 1) = fr\<lparr>fr_opened := []\<rparr>"
        using close_upvalues_result(1,8) [OF a(1)] by (simp add: fr_def i_def)
      then have "vm_frames s2 (vm_depth s2 - 1) = fr\<lparr>fr_opened := []\<rparr>"
        using control_eq [OF keepsD [OF keeps_control_bind_args a(2)]] by simp
      then have "mod_top (\<lambda>f. f\<lparr>fr_ip := 0\<rparr>) s2 = ?enter s2"
        using fc by (cases fr) (simp add: mod_top_def upd_frame_def)
      then show "bindM (mod_top (\<lambda>f. f\<lparr>fr_ip := 0\<rparr>)) f s2 = bindM ?enter f s2"
        by (simp add: bindM_def)
    qed
    show ?thesis
      by (simp add: try_self_tail_call_def bindM_assoc top fc skip deref enter del: One_nat_def)
  qed
  ultimately show ?thesis by simp
qed

subsection \<open>Arguments\<close>

lemma forM_append: "forM (xs @ ys) f = bindM (forM xs f) (\<lambda>_. forM ys f)"
  by (induction xs) (simp_all add: bindM_assoc)

text \<open>The registers after \<open>n\<close> of them have been copied from \<open>src\<close> to \<open>dst\<close>.\<close>

definition copied :: "int \<Rightarrow> int \<Rightarrow> int \<Rightarrow> (nat \<Rightarrow> val) \<Rightarrow> nat \<Rightarrow> val" where
  "copied dst src n st j = (if dst \<le> int j \<and> int j < dst + n then st (nat (src + (int j - dst))) else st j)"

lemma copy_stack_run:
  assumes "0 \<le> dst" "dst + n \<le> int (vm_stack_cap s)" "0 \<le> src" "src + n \<le> int (vm_stack_cap s)"
    and apart: "dst \<le> src \<or> src + n \<le> dst"
  shows "copy_stack dst src n s = Done () (s\<lparr>vm_stack := copied dst src n (vm_stack s)\<rparr>)"
proof (cases "0 \<le> n")
  case False
  then have "copied dst src n (vm_stack s) = vm_stack s" by (auto simp: copied_def fun_eq_iff)
  with False show ?thesis by (simp add: copy_stack_def)
next
  case True
  have "forM [0..<k] (\<lambda>i. bindM (get_stack (src + int i)) (\<lambda>v. set_stack (dst + int i) v)) s =
      Done () (s\<lparr>vm_stack := copied dst src (int k) (vm_stack s)\<rparr>)" if "int k \<le> n" for k
    using that
  proof (induction k)
    case 0
    have "copied dst src 0 (vm_stack s) = vm_stack s" by (auto simp: copied_def fun_eq_iff)
    then show ?case by simp
  next
    case (Suc k)
    let ?s = "s\<lparr>vm_stack := copied dst src (int k) (vm_stack s)\<rparr>"
    have read: "copied dst src (int k) (vm_stack s) (nat (src + int k)) = vm_stack s (nat (src + int k))"
      using apart assms(3) Suc.prems by (auto simp: copied_def)
    have "(copied dst src (int k) (vm_stack s))(nat (dst + int k) := vm_stack s (nat (src + int k))) =
        copied dst src (int (Suc k)) (vm_stack s)"
      using assms(1) by (auto simp: copied_def fun_eq_iff)
    with Suc read assms show ?case by (simp add: forM_append bindM_def)
  qed
  from this [of "nat n"] True show ?thesis by (simp add: copy_stack_def)
qed

lemma read_stack_run:
  assumes "0 \<le> base" "base + n \<le> int (vm_stack_cap s)"
  shows "read_stack base n s = Done (map (\<lambda>i. vm_stack s (nat (base + int i))) [0..<nat n]) s"
proof -
  have "mapM (\<lambda>i. get_stack (base + int i)) xs s = Done (map (\<lambda>i. vm_stack s (nat (base + int i))) xs) s"
    if "\<forall>i\<in>set xs. int i < n" for xs :: "nat list"
    using that assms by (induction xs) (simp_all add: bindM_def)
  from this [of "[0..<nat n]"] show ?thesis by (simp add: read_stack_def zless_nat_eq_int_zless)
qed

text \<open>The values a call passes: the argument registers of the caller.\<close>

definition call_args :: "vm \<Rightarrow> int \<Rightarrow> int \<Rightarrow> val list" where
  "call_args s arg_base nargs = map (\<lambda>i. vm_stack s (nat (arg_base + int i))) [0..<nat nargs]"

lemma bind_args_fixed:
  assumes "\<not> ch_has_rest ch" "nargs = ch_param_count ch"
    "0 \<le> nb" "nb + nargs \<le> int (vm_stack_cap s)" "0 \<le> ab" "ab + nargs \<le> int (vm_stack_cap s)"
    "nb \<le> ab \<or> ab + nargs \<le> nb"
  shows "bind_args ch nargs nb ab s = Done () (s\<lparr>vm_stack := copied nb ab nargs (vm_stack s)\<rparr>)"
  using assms copy_stack_run [of nb nargs s ab] by (simp add: bind_args_def Let_def)

lemma bind_args_rest:
  assumes "ch_has_rest ch" "0 \<le> ch_param_count ch" "ch_param_count ch \<le> nargs"
    "0 \<le> nb" "nb + ch_param_count ch < int (vm_stack_cap s)" "0 \<le> ab" "ab + nargs \<le> int (vm_stack_cap s)"
    "nb \<le> ab \<or> ab + nargs \<le> nb"
  shows "\<exists>rest new. chain (h_pairs s @ new) rest (drop (nat (ch_param_count ch)) (call_args s ab nargs)) VNil \<and>
    bind_args ch nargs nb ab s = Done () ((with_pairs s new)\<lparr>vm_stack :=
      (copied nb ab (ch_param_count ch) (vm_stack s))(nat (nb + ch_param_count ch) := rest)\<rparr>)"
proof -
  let ?k = "ch_param_count ch"
  let ?s = "s\<lparr>vm_stack := copied nb ab ?k (vm_stack s)\<rparr>"
  have copy: "copy_stack nb ab ?k s = Done () ?s"
    using assms by (intro copy_stack_run) auto
  have same: "copied nb ab ?k (vm_stack s) (nat (ab + ?k + int i)) = vm_stack s (nat (ab + ?k + int i))"
    if "int i < nargs - ?k" for i
    using that assms by (auto simp: copied_def)
  have "read_stack (ab + ?k) (nargs - ?k) ?s =
      Done (map (\<lambda>i. vm_stack s (nat (ab + ?k + int i))) [0..<nat (nargs - ?k)]) ?s"
    using assms same by (simp add: read_stack_run)
  also have "map (\<lambda>i. vm_stack s (nat (ab + ?k + int i))) [0..<nat (nargs - ?k)] =
      drop (nat ?k) (call_args s ab nargs)"
    using assms(2,3) by (intro nth_equalityI) (auto simp: call_args_def nat_diff_distrib add.assoc)
  finally have read: "read_stack (ab + ?k) (nargs - ?k) ?s = Done (drop (nat ?k) (call_args s ab nargs)) ?s" .
  obtain rest new where c: "cons_list (drop (nat ?k) (call_args s ab nargs)) VNil ?s = Done rest (with_pairs ?s new)"
    "chain (h_pairs s @ new) rest (drop (nat ?k) (call_args s ab nargs)) VNil"
    using cons_list_run [of "drop (nat ?k) (call_args s ab nargs)" VNil ?s] by auto
  have "bind_args ch nargs nb ab s = set_stack (nb + ?k) rest (with_pairs ?s new)"
    using assms(1,3) copy read c(1) by (simp add: bind_args_def Let_def bindM_def)
  also have "\<dots> = Done () ((with_pairs s new)\<lparr>vm_stack :=
      (copied nb ab ?k (vm_stack s))(nat (nb + ?k) := rest)\<rparr>)"
    using assms by (simp add: with_pairs_def)
  finally show ?thesis using c(2) by blast
qed

subsection \<open>Returns\<close>

lemma deliver_return_run:
  assumes d: "1 < vm_depth s" "vm_depth s \<le> vm_frames_cap s" "vm_depth s - 1 \<noteq> td"
    and open_none: "fr_opened (vm_frames s (vm_depth s - 1)) = []"
    and r: "0 \<le> fr_base (vm_frames s (vm_depth s - 2)) + fr_return_reg (vm_frames s (vm_depth s - 1))"
      "fr_base (vm_frames s (vm_depth s - 2)) + fr_return_reg (vm_frames s (vm_depth s - 1)) < int (vm_stack_cap s)"
  shows "deliver_return v td s = Done None (s\<lparr>vm_depth := vm_depth s - 1, vm_stack := (vm_stack s)
    (nat (fr_base (vm_frames s (vm_depth s - 2)) + fr_return_reg (vm_frames s (vm_depth s - 1))) := v)\<rparr>)"
proof -
  have two: "vm_depth s - Suc (Suc 0) = vm_depth s - 2" by simp
  have "close_upvalues (vm_depth s - 1) s = Done () s" using close_upvalues_none open_none by blast
  then show ?thesis using d r by (simp add: deliver_return_def bindM_def top_frame_def set_stack_def two)
qed

subsection \<open>Upvalues\<close>

text \<open>What reading an upvalue gives, and the states in which every open upvalue has its register.\<close>

definition uv_val :: "vm \<Rightarrow> nat \<Rightarrow> val" where
  "uv_val s p = (case uv_slot (h_upvalues s ! p) of Some i \<Rightarrow> vm_stack s i | None \<Rightarrow> uv_closed (h_upvalues s ! p))"

definition upvalues_ok :: "vm \<Rightarrow> bool" where
  "upvalues_ok s \<longleftrightarrow> (\<forall>u\<in>set (h_upvalues s). \<forall>i. uv_slot u = Some i \<longrightarrow> i < vm_stack_cap s)"

lemma upvalues_okD: "upvalues_ok s \<Longrightarrow> p < length (h_upvalues s) \<Longrightarrow> uv_slot (h_upvalues s ! p) = Some i \<Longrightarrow> i < vm_stack_cap s"
  by (metis nth_mem upvalues_ok_def)

lemma upvalue_get_val: "upvalues_ok s \<Longrightarrow> p < length (h_upvalues s) \<Longrightarrow> upvalue_get p s = Done (uv_val s p) s"
  by (auto simp: upvalue_get_def uv_val_def bindM_def get_stack_def upvalues_okD split: option.splits)

text \<open>The state with the upvalues \<open>ps\<close> closed.\<close>

definition closed_uv :: "vm \<Rightarrow> nat \<Rightarrow> upvalue" where
  "closed_uv s p = \<lparr> uv_slot = None, uv_closed = uv_val s p \<rparr>"

lemma upvalue_close_run:
  assumes "upvalues_ok s" "p < length (h_upvalues s)"
  shows "upvalue_close p s = Done () (s\<lparr>h_upvalues := (h_upvalues s)[p := closed_uv s p]\<rparr>)"
proof (cases "uv_slot (h_upvalues s ! p)")
  case None
  then have "closed_uv s p = h_upvalues s ! p"
    by (cases "h_upvalues s ! p") (simp add: closed_uv_def uv_val_def)
  with None assms show ?thesis by (simp add: upvalue_close_def bindM_def)
next
  case (Some i)
  then show ?thesis using assms upvalues_okD [OF assms Some]
    by (simp add: upvalue_close_def bindM_def set_upvalue_def closed_uv_def uv_val_def)
qed

lemma closed_uv_step:
  assumes "p < length (h_upvalues s)"
  defines "s' \<equiv> s\<lparr>h_upvalues := (h_upvalues s)[p := closed_uv s p]\<rparr>"
  shows "uv_val s' q = uv_val s q" "upvalues_ok s \<Longrightarrow> upvalues_ok s'"
  using assms(1) by (auto simp: s'_def uv_val_def closed_uv_def nth_list_update upvalues_ok_def
      split: option.split dest!: set_update_subset_insert [THEN subsetD])

lemma close_all_run:
  assumes "upvalues_ok s" "set ps \<subseteq> {..<length (h_upvalues s)}"
  shows "\<exists>us. forM ps upvalue_close s = Done () (s\<lparr>h_upvalues := us\<rparr>) \<and> length us = length (h_upvalues s) \<and>
    upvalues_ok (s\<lparr>h_upvalues := us\<rparr>) \<and>
    (\<forall>q. us ! q = (if q \<in> set ps then closed_uv s q else h_upvalues s ! q))"
  using assms
proof (induction ps arbitrary: s)
  case Nil
  then show ?case by (intro exI [of _ "h_upvalues s"]) simp
next
  case (Cons p ps)
  let ?s = "s\<lparr>h_upvalues := (h_upvalues s)[p := closed_uv s p]\<rparr>"
  have p: "p < length (h_upvalues s)" using Cons.prems by simp
  have val: "closed_uv ?s q = closed_uv s q" for q
    using closed_uv_step(1) [OF p] by (simp add: closed_uv_def)
  obtain us where us: "forM ps upvalue_close ?s = Done () (?s\<lparr>h_upvalues := us\<rparr>)"
    "length us = length (h_upvalues s)" "upvalues_ok (?s\<lparr>h_upvalues := us\<rparr>)"
    "\<forall>q. us ! q = (if q \<in> set ps then closed_uv ?s q else h_upvalues ?s ! q)"
    using Cons.IH [of ?s] Cons.prems closed_uv_step(2) [OF p Cons.prems(1)] by auto
  have "us ! q = (if q \<in> set (p # ps) then closed_uv s q else h_upvalues s ! q)" for q
    using us(4) val p by (auto simp: nth_list_update)
  with us upvalue_close_run [OF Cons.prems(1) p] show ?case
    by (intro exI [of _ us]) (simp add: bindM_def)
qed

lemma close_upvalues_run:
  assumes "upvalues_ok s" "set (fr_opened (vm_frames s i)) \<subseteq> {..<length (h_upvalues s)}"
  shows "\<exists>s'. close_upvalues i s = Done () s' \<and> upvalues_ok s' \<and> vm_stack s' = vm_stack s \<and>
    (\<forall>q. uv_val s' q = uv_val s q) \<and>
    (\<forall>p\<in>set (fr_opened (vm_frames s i)). uv_slot (h_upvalues s' ! p) = None) \<and>
    fr_opened (vm_frames s' i) = []"
proof -
  obtain us where us: "forM (fr_opened (vm_frames s i)) upvalue_close s = Done () (s\<lparr>h_upvalues := us\<rparr>)"
    "upvalues_ok (s\<lparr>h_upvalues := us\<rparr>)"
    "\<forall>q. us ! q = (if q \<in> set (fr_opened (vm_frames s i)) then closed_uv s q else h_upvalues s ! q)"
    using close_all_run [OF assms] by blast
  let ?s = "upd_frame i (\<lambda>f. f\<lparr>fr_opened := []\<rparr>) (s\<lparr>h_upvalues := us\<rparr>)"
  have "close_upvalues i s = Done () ?s" using us(1) by (simp add: close_upvalues_def bindM_def)
  moreover have "uv_val ?s q = uv_val s q" for q
    using us(3) by (auto simp: uv_val_def upd_frame_def closed_uv_def split: option.split)
  moreover have "\<forall>p\<in>set (fr_opened (vm_frames s i)). uv_slot (h_upvalues ?s ! p) = None"
    using us(3) by (simp add: upd_frame_def closed_uv_def)
  ultimately show ?thesis using us(2) by (intro exI [of _ ?s]) (simp add: upd_frame_def upvalues_ok_def)
qed

end
