(* ===== verification/Builtin_Lists.thy ===== *)
theory Builtin_Lists
  imports VM_Calls
begin

text \<open>
  Builtins of icecreme/builtins.c on pairs and lists, and the argument helpers of icecreme/embed.h they
  use.  A builtin gets the array of its arguments; \<open>nargs\<close> is its length.  A C function that reads
  an argument beyond \<open>nargs\<close> reads a register nobody wrote for it: \<open>Stuck\<close>.  A builtin that
  calls back into the VM takes \<open>ap\<close>, which is \<open>creme_apply\<close>; where the callee could change the list
  the loop follows, the loop has fuel of its own.
\<close>

subsection \<open>Argument helpers (embed.h)\<close>

definition argM :: "val list \<Rightarrow> nat \<Rightarrow> val M" where
  "argM args i = indexM args (int i)"

lemma argM_run [simp, run_simps]: "i < length args \<Longrightarrow> argM args i = retM (args ! i)"
  by (simp add: argM_def)

definition creme_arg_int :: "val list \<Rightarrow> nat \<Rightarrow> bytes \<Rightarrow> int M" where
  "creme_arg_int args i who =
     bindM (guardM (i \<ge> length args) (who @ '': missing argument '' @ dec (int i + 1))) (\<lambda>_.
     case args ! i of
       VInt n \<Rightarrow> retM n
     | _ \<Rightarrow> creme_abort (who @ '': argument '' @ dec (int i + 1) @ '': expected an integer''))"

definition creme_list_length :: "val \<Rightarrow> nat M" where
  "creme_list_length l = bindM (list_items l) (\<lambda>(vs, tail). retM (length vs))"

definition creme_list_to_values :: "val \<Rightarrow> nat \<Rightarrow> bytes \<Rightarrow> val list M" where
  "creme_list_to_values l mx who =
     bindM (list_items l) (\<lambda>(vs, tail).
     bindM (guardM (length vs > mx) (who @ '': list has more than '' @ dec (int mx) @ '' element(s)'')) (\<lambda>_.
     bindM (guardM (tail \<noteq> VNil) (who @ '': expected a proper (nil-terminated) list'')) (\<lambda>_.
     retM vs)))"

definition creme_list_from_values :: "val list \<Rightarrow> val M" where
  "creme_list_from_values vs = cons_list vs VNil"

subsection \<open>Pairs\<close>

definition first_pair :: "val list \<Rightarrow> nat \<Rightarrow> bytes \<Rightarrow> nat M" where
  "first_pair args n msg =
     (case args of
        VPair p # _ \<Rightarrow> if length args < n then creme_abort msg else retM p
      | _ \<Rightarrow> creme_abort msg)"

definition bi_car :: "val list \<Rightarrow> val M" where
  "bi_car args = bindM (first_pair args 1 ''car: expected a pair'') (\<lambda>p.
     bindM (derefM h_pairs p) (\<lambda>c. retM (fst c)))"

definition bi_cdr :: "val list \<Rightarrow> val M" where
  "bi_cdr args = bindM (first_pair args 1 ''cdr: expected a pair'') (\<lambda>p.
     bindM (derefM h_pairs p) (\<lambda>c. retM (snd c)))"

definition set_pair :: "nat \<Rightarrow> val \<times> val \<Rightarrow> unit M" where
  "set_pair p c = modM (\<lambda>s. s\<lparr>h_pairs := (h_pairs s)[p := c]\<rparr>)"

definition bi_set_car_bang :: "val list \<Rightarrow> val M" where
  "bi_set_car_bang args = bindM (first_pair args 2 ''set-car!: expected a pair'') (\<lambda>p.
     bindM (derefM h_pairs p) (\<lambda>c. bindM (set_pair p (args ! 1, snd c)) (\<lambda>_. retM VNil)))"

definition bi_set_cdr_bang :: "val list \<Rightarrow> val M" where
  "bi_set_cdr_bang args = bindM (first_pair args 2 ''set-cdr!: expected a pair'') (\<lambda>p.
     bindM (derefM h_pairs p) (\<lambda>c. bindM (set_pair p (fst c, args ! 1)) (\<lambda>_. retM VNil)))"

text \<open>\<open>ops\<close> is read from its right end; the argument is the reversed string.\<close>

fun cxr_ops :: "bytes \<Rightarrow> bytes \<Rightarrow> val \<Rightarrow> val M" where
  "cxr_ops name [] v = retM v"
| "cxr_ops name (c # cs) v =
     (case v of
        VPair p \<Rightarrow> bindM (derefM h_pairs p) (\<lambda>x. cxr_ops name cs (if c = CHR ''a'' then fst x else snd x))
      | _ \<Rightarrow> creme_abort (''c'' @ name @ ''r: expected a pair''))"

definition cxr_apply :: "bytes \<Rightarrow> val \<Rightarrow> val M" where
  "cxr_apply ops v = cxr_ops ops (rev ops) v"

text \<open>\<open>DEFINE_CXR(name, ops)\<close>: the builtin of the Scheme name \<open>c<ops>r\<close>.\<close>

definition define_cxr :: "bytes \<Rightarrow> val list \<Rightarrow> val M" where
  "define_cxr ops args =
     bindM (creme_check_exact_args (int (length args)) 1 (''c'' @ ops @ ''r'')) (\<lambda>_.
     cxr_apply ops (args ! 0))"

definition bi_cons :: "val list \<Rightarrow> val M" where
  "bi_cons args = bindM (creme_check_min_args (int (length args)) 2 ''cons'') (\<lambda>_.
     creme_cons (args ! 0) (args ! 1))"

subsection \<open>Lists\<close>

definition bi_list :: "val list \<Rightarrow> val M" where
  "bi_list args = cons_list args VNil"

definition bi_cons_star :: "val list \<Rightarrow> val M" where
  "bi_cons_star args = (if args = [] then retM VNil else cons_list (butlast args) (last args))"

text \<open>The loop of \<open>bi_append\<close> runs over the leading arguments from the last to the first.\<close>

fun append_loop :: "val list \<Rightarrow> val \<Rightarrow> val M" where
  "append_loop [] result = retM result"
| "append_loop (l # ls) result =
     bindM (creme_list_length l) (\<lambda>n.
     bindM (creme_list_to_values l n ''append'') (\<lambda>vs.
     bindM (cons_list vs result) (\<lambda>r. append_loop ls r)))"

definition bi_append :: "val list \<Rightarrow> val M" where
  "bi_append args = (if args = [] then retM VNil else append_loop (rev (butlast args)) (last args))"

fun reverse_onto :: "val list \<Rightarrow> val \<Rightarrow> val M" where
  "reverse_onto [] r = retM r"
| "reverse_onto (v # vs) r = bindM (creme_cons v r) (reverse_onto vs)"

definition bi_reverse :: "val list \<Rightarrow> val M" where
  "bi_reverse args =
     bindM (creme_check_min_args (int (length args)) 1 ''reverse'') (\<lambda>_.
     bindM (list_items (args ! 0)) (\<lambda>(vs, tail).
     bindM (reverse_onto vs VNil) (\<lambda>r.
     bindM (guardM (tail \<noteq> VNil) ''reverse: improper list'') (\<lambda>_. retM r))))"

definition bi_length :: "val list \<Rightarrow> val M" where
  "bi_length args =
     bindM (creme_check_min_args (int (length args)) 1 ''length'') (\<lambda>_.
     bindM (list_items (args ! 0)) (\<lambda>(vs, tail).
     bindM (guardM (tail \<noteq> VNil) ''length: improper list'') (\<lambda>_.
     retM (VInt (int (length vs))))))"

primrec walk_cdr :: "nat \<Rightarrow> bytes \<Rightarrow> val \<Rightarrow> val M" where
  "walk_cdr 0 who v = retM v"
| "walk_cdr (Suc k) who v =
     (case v of
        VPair p \<Rightarrow> bindM (derefM h_pairs p) (\<lambda>c. walk_cdr k who (snd c))
      | _ \<Rightarrow> creme_abort (who @ '': index out of range''))"

definition bi_list_tail :: "val list \<Rightarrow> val M" where
  "bi_list_tail args =
     bindM (creme_arg_int args 1 ''list-tail'') (\<lambda>k. walk_cdr (nat k) ''list-tail'' (args ! 0))"

definition pair_at :: "val \<Rightarrow> int \<Rightarrow> bytes \<Rightarrow> nat M" where
  "pair_at v k who =
     bindM (walk_cdr (nat k) who v) (\<lambda>cur.
     case cur of VPair p \<Rightarrow> retM p | _ \<Rightarrow> creme_abort (who @ '': index out of range''))"

definition bi_list_ref :: "val list \<Rightarrow> val M" where
  "bi_list_ref args =
     bindM (creme_arg_int args 1 ''list-ref'') (\<lambda>k.
     bindM (pair_at (args ! 0) k ''list-ref'') (\<lambda>p.
     bindM (derefM h_pairs p) (\<lambda>c. retM (fst c))))"

definition bi_list_set :: "val list \<Rightarrow> val M" where
  "bi_list_set args =
     bindM (creme_check_min_args (int (length args)) 3 ''list-set!'') (\<lambda>_.
     bindM (creme_arg_int args 1 ''list-set!'') (\<lambda>k.
     bindM (pair_at (args ! 0) k ''list-set!'') (\<lambda>p.
     bindM (derefM h_pairs p) (\<lambda>c.
     bindM (set_pair p (args ! 2, snd c)) (\<lambda>_. retM VNil)))))"

definition bi_make_list :: "val list \<Rightarrow> val M" where
  "bi_make_list args =
     bindM (creme_arg_int args 0 ''make-list'') (\<lambda>k.
     bindM (guardM (k < 0) (''make-list: invalid length '' @ dec k)) (\<lambda>_.
     cons_list (replicate (nat k) (if length args \<ge> 2 then args ! 1 else VBool False)) VNil))"

definition bi_list_copy :: "val list \<Rightarrow> val M" where
  "bi_list_copy args =
     bindM (creme_check_min_args (int (length args)) 1 ''list-copy'') (\<lambda>_.
     bindM (list_items (args ! 0)) (\<lambda>(vs, tail). cons_list vs tail))"

primrec last_pair_loop :: "nat \<Rightarrow> nat \<Rightarrow> val M" where
  "last_pair_loop 0 p = (\<lambda>s. Timeout)"
| "last_pair_loop (Suc n) p =
     bindM (derefM h_pairs p) (\<lambda>c. case snd c of VPair q \<Rightarrow> last_pair_loop n q | _ \<Rightarrow> retM (VPair p))"

definition bi_last_pair :: "val list \<Rightarrow> val M" where
  "bi_last_pair args =
     bindM (first_pair args 1 ''last-pair: expected a non-empty list'') (\<lambda>p.
     (\<lambda>s. last_pair_loop (Suc (length (h_pairs s))) p s))"

text \<open>\<open>list?\<close>, Floyd's tortoise and hare.  \<open>list_p_halt\<close> bounds the number of turns.\<close>

primrec list_p_loop :: "nat \<Rightarrow> val \<Rightarrow> val \<Rightarrow> val M" where
  "list_p_loop 0 slow fast = (\<lambda>s. Timeout)"
| "list_p_loop (Suc n) slow fast =
     (case fast of
        VNil \<Rightarrow> retM (VBool True)
      | VPair p \<Rightarrow> bindM (derefM h_pairs p) (\<lambda>c.
          case snd c of
            VNil \<Rightarrow> retM (VBool True)
          | VPair q \<Rightarrow> bindM (derefM h_pairs q) (\<lambda>d.
              case slow of
                VPair r \<Rightarrow> bindM (derefM h_pairs r) (\<lambda>e.
                  let fast' = snd d; slow' = snd e in
                  if (case fast' of VPair _ \<Rightarrow> fast' = slow' | _ \<Rightarrow> False)
                  then retM (VBool False) else list_p_loop n slow' fast')
              | _ \<Rightarrow> stuckM)
          | _ \<Rightarrow> retM (VBool False))
      | _ \<Rightarrow> retM (VBool False))"

definition bi_list_p :: "val list \<Rightarrow> val M" where
  "bi_list_p args =
     bindM (creme_check_min_args (int (length args)) 1 ''list?'') (\<lambda>_.
     (\<lambda>s. list_p_loop (Suc (length (h_pairs s))) (args ! 0) (args ! 0) s))"

end
