(* ===== verification/Builtin_Control.thy ===== *)
theory Builtin_Control
  imports Builtin_Lists
begin

text \<open>
  The rest of the core builtins of icecreme/builtins.c: \<open>equal?\<close> and the searches that use it, the
  higher-order procedures, \<open>dynamic-wind\<close>, \<open>call/cc\<close>, multiple values, promises and parameters.

  \<^item> \<open>n\<close> is the fuel of a loop that calls back into the VM; \<open>ap\<close> is \<open>creme_apply\<close>.
  \<^item> \<open>bi_call_cc\<close> is a C activation that runs \<open>setjmp\<close>: it takes the next activation number and
    catches exactly the \<open>longjmp\<close>s addressed to it.
\<close>

subsection \<open>\<open>equal?\<close>\<close>

text \<open>\<open>eq_items\<close> is the loop over the items of two vectors of one length.\<close>

fun eq_items :: "(val \<Rightarrow> val \<Rightarrow> bool M) \<Rightarrow> val list \<Rightarrow> val list \<Rightarrow> bool M" where
  "eq_items f (x # xs) (y # ys) = bindM (f x y) (\<lambda>b. if b then eq_items f xs ys else retM False)"
| "eq_items f xs ys = retM True"

text \<open>\<open>seen\<close> holds the pairs of pairs on the path from the root.  A recursion deeper than the fuel
  repeats a pair of vectors below the same pairs, so the C recursion has no end either.\<close>

primrec creme_equal_rec :: "nat \<Rightarrow> arith \<Rightarrow> val \<Rightarrow> val \<Rightarrow> (nat \<times> nat) list \<Rightarrow> bool M" where
  "creme_equal_rec 0 A a b seen = (\<lambda>s. Timeout)"
| "creme_equal_rec (Suc n) A a b seen =
     (case a of
        VPair p \<Rightarrow>
          (case b of
             VPair q \<Rightarrow>
               if (p, q) \<in> set seen then retM True
               else bindM (derefM h_pairs p) (\<lambda>c. bindM (derefM h_pairs q) (\<lambda>d.
                 bindM (creme_equal_rec n A (fst c) (fst d) ((p, q) # seen)) (\<lambda>ok.
                 if ok then creme_equal_rec n A (snd c) (snd d) ((p, q) # seen) else retM False)))
           | _ \<Rightarrow> retM False)
      | VVector p \<Rightarrow>
          (case b of
             VVector q \<Rightarrow> bindM (derefM h_vecs p) (\<lambda>xs. bindM (derefM h_vecs q) (\<lambda>ys.
               if length xs \<noteq> length ys then retM False
               else eq_items (\<lambda>x y. creme_equal_rec n A x y seen) xs ys))
           | _ \<Rightarrow> retM False)
      | VBytevector p \<Rightarrow>
          (case b of
             VBytevector q \<Rightarrow> bindM (derefM h_bvs p) (\<lambda>xs. bindM (derefM h_bvs q) (\<lambda>ys.
               retM (length xs = length ys \<and> xs = ys)))
           | _ \<Rightarrow> retM False)
      | _ \<Rightarrow> if tag_of a \<noteq> tag_of b then retM False else creme_eqv A a b)"

definition equal_fuel :: "vm \<Rightarrow> nat" where
  "equal_fuel s = (length (h_pairs s) ^ 2 + 1) * (length (h_vecs s) ^ 2 + 2)"

definition creme_equal :: "arith \<Rightarrow> val \<Rightarrow> val \<Rightarrow> bool M" where
  "creme_equal A a b = (\<lambda>s. creme_equal_rec (equal_fuel s) A a b [] s)"

definition bi_eq_p :: "arith \<Rightarrow> val list \<Rightarrow> val M" where
  "bi_eq_p A args = bindM (creme_check_min_args (int (length args)) 2 ''eq?'') (\<lambda>_.
     bindM (creme_eqv A (args ! 0) (args ! 1)) (\<lambda>b. retM (VBool b)))"

definition bi_eqv_p :: "arith \<Rightarrow> val list \<Rightarrow> val M" where
  "bi_eqv_p A args = bindM (creme_check_min_args (int (length args)) 2 ''eqv?'') (\<lambda>_.
     bindM (creme_eqv A (args ! 0) (args ! 1)) (\<lambda>b. retM (VBool b)))"

definition bi_equal_p :: "arith \<Rightarrow> val list \<Rightarrow> val M" where
  "bi_equal_p A args = bindM (creme_check_min_args (int (length args)) 2 ''equal?'') (\<lambda>_.
     bindM (creme_equal A (args ! 0) (args ! 1)) (\<lambda>b. retM (VBool b)))"

subsection \<open>Searches\<close>

text \<open>The match of \<open>assoc\<close> and \<open>member\<close>: the predicate if one is given, \<open>equal?\<close> otherwise.\<close>

definition matches :: "arith \<Rightarrow> (val \<Rightarrow> val list \<Rightarrow> val M) \<Rightarrow> val list \<Rightarrow> val \<Rightarrow> bool M" where
  "matches A ap args item =
     (if length args \<ge> 3
      then bindM (ap (args ! 2) [args ! 0, item]) (\<lambda>r. retM (\<not> v_falsy r))
      else creme_equal A item (args ! 0))"

primrec assoc_loop :: "nat \<Rightarrow> (val \<Rightarrow> bool M) \<Rightarrow> val \<Rightarrow> val M" where
  "assoc_loop 0 f cur = (\<lambda>s. Timeout)"
| "assoc_loop (Suc n) f cur =
     (case cur of
        VPair p \<Rightarrow> bindM (derefM h_pairs p) (\<lambda>c.
          bindM (case fst c of
                   VPair e \<Rightarrow> bindM (derefM h_pairs e) (\<lambda>entry. f (fst entry))
                 | _ \<Rightarrow> retM False) (\<lambda>hit.
          if hit then retM (fst c)
          else bindM (derefM h_pairs p) (\<lambda>c'. assoc_loop n f (snd c'))))
      | _ \<Rightarrow> retM (VBool False))"

primrec member_loop :: "nat \<Rightarrow> (val \<Rightarrow> bool M) \<Rightarrow> val \<Rightarrow> val M" where
  "member_loop 0 f cur = (\<lambda>s. Timeout)"
| "member_loop (Suc n) f cur =
     (case cur of
        VPair p \<Rightarrow> bindM (derefM h_pairs p) (\<lambda>c. bindM (f (fst c)) (\<lambda>hit.
          if hit then retM cur
          else bindM (derefM h_pairs p) (\<lambda>c'. member_loop n f (snd c'))))
      | _ \<Rightarrow> retM (VBool False))"

definition bi_assoc :: "nat \<Rightarrow> arith \<Rightarrow> (val \<Rightarrow> val list \<Rightarrow> val M) \<Rightarrow> val list \<Rightarrow> val M" where
  "bi_assoc n A ap args = bindM (creme_check_min_args (int (length args)) 2 ''assoc'') (\<lambda>_.
     assoc_loop n (matches A ap args) (args ! 1))"

definition bi_member :: "nat \<Rightarrow> arith \<Rightarrow> (val \<Rightarrow> val list \<Rightarrow> val M) \<Rightarrow> val list \<Rightarrow> val M" where
  "bi_member n A ap args = bindM (creme_check_min_args (int (length args)) 2 ''member'') (\<lambda>_.
     member_loop n (matches A ap args) (args ! 1))"

definition bi_assq :: "arith \<Rightarrow> val list \<Rightarrow> val M" where
  "bi_assq A args = bindM (creme_check_min_args (int (length args)) 2 ''assq'') (\<lambda>_.
     (\<lambda>s. assoc_loop (Suc (length (h_pairs s))) (\<lambda>x. creme_eqv A x (args ! 0)) (args ! 1) s))"

definition bi_memq :: "arith \<Rightarrow> val list \<Rightarrow> val M" where
  "bi_memq A args = bindM (creme_check_min_args (int (length args)) 2 ''memq'') (\<lambda>_.
     (\<lambda>s. member_loop (Suc (length (h_pairs s))) (\<lambda>x. creme_eqv A x (args ! 0)) (args ! 1) s))"

subsection \<open>Higher-order procedures\<close>

definition bi_apply :: "(val \<Rightarrow> val list \<Rightarrow> val M) \<Rightarrow> val list \<Rightarrow> val M" where
  "bi_apply ap args =
     bindM (creme_check_min_args (int (length args)) 2 ''apply'') (\<lambda>_.
     bindM (list_items (last args)) (\<lambda>(vs, tail).
     ap (args ! 0) (butlast (tl args) @ vs)))"

text \<open>One turn over the cursors: \<open>None\<close> when one of them has run out.\<close>

fun advance :: "val list \<Rightarrow> (val list \<times> val list) M" where
  "advance [] = retM ([], [])"
| "advance (c # cs) =
     (case c of
        VPair p \<Rightarrow> bindM (derefM h_pairs p) (\<lambda>x. bindM (advance cs) (\<lambda>(items, rest).
          retM (fst x # items, snd x # rest)))
      | _ \<Rightarrow> stuckM)"

definition is_pair :: "val \<Rightarrow> bool" where
  "is_pair v = (case v of VPair _ \<Rightarrow> True | _ \<Rightarrow> False)"

primrec map_loop :: "nat \<Rightarrow> (val \<Rightarrow> val list \<Rightarrow> val M) \<Rightarrow> val \<Rightarrow> val list \<Rightarrow> val list M" where
  "map_loop 0 ap f cursors = (\<lambda>s. Timeout)"
| "map_loop (Suc n) ap f cursors =
     (if \<not> list_all is_pair cursors then retM []
      else bindM (advance cursors) (\<lambda>(items, rest).
        bindM (ap f items) (\<lambda>r. bindM (map_loop n ap f rest) (\<lambda>rs. retM (r # rs)))))"

definition bi_map :: "nat \<Rightarrow> (val \<Rightarrow> val list \<Rightarrow> val M) \<Rightarrow> val list \<Rightarrow> val M" where
  "bi_map n ap args = bindM (creme_check_min_args (int (length args)) 2 ''map'') (\<lambda>_.
     bindM (map_loop n ap (args ! 0) (tl args)) (\<lambda>rs. cons_list rs VNil))"

definition bi_for_each :: "nat \<Rightarrow> (val \<Rightarrow> val list \<Rightarrow> val M) \<Rightarrow> val list \<Rightarrow> val M" where
  "bi_for_each n ap args = bindM (creme_check_min_args (int (length args)) 2 ''for-each'') (\<lambda>_.
     bindM (map_loop n ap (args ! 0) (tl args)) (\<lambda>rs. retM VNil))"

primrec filter_loop :: "nat \<Rightarrow> (val \<Rightarrow> val list \<Rightarrow> val M) \<Rightarrow> val \<Rightarrow> val \<Rightarrow> val list M" where
  "filter_loop 0 ap f cur = (\<lambda>s. Timeout)"
| "filter_loop (Suc n) ap f cur =
     (case cur of
        VPair p \<Rightarrow> bindM (derefM h_pairs p) (\<lambda>c.
          bindM (ap f [fst c]) (\<lambda>keep.
          bindM (derefM h_pairs p) (\<lambda>c'.
          bindM (filter_loop n ap f (snd c')) (\<lambda>rest.
          retM (if v_falsy keep then rest else fst c # rest)))))
      | _ \<Rightarrow> retM [])"

definition bi_filter :: "nat \<Rightarrow> (val \<Rightarrow> val list \<Rightarrow> val M) \<Rightarrow> val list \<Rightarrow> val M" where
  "bi_filter n ap args = bindM (creme_check_min_args (int (length args)) 2 ''filter'') (\<lambda>_.
     bindM (filter_loop n ap (args ! 0) (args ! 1)) (\<lambda>rs. cons_list rs VNil))"

subsection \<open>Control\<close>

definition bi_dynamic_wind :: "(val \<Rightarrow> val list \<Rightarrow> val M) \<Rightarrow> val list \<Rightarrow> val M" where
  "bi_dynamic_wind ap args =
     bindM (creme_check_exact_args (int (length args)) 3 ''dynamic-wind'') (\<lambda>_.
     bindM (ap (args ! 0) []) (\<lambda>_.
     bindM (push_unwind (UnwindDynamicWind (args ! 2))) (\<lambda>_.
     bindM (ap (args ! 1) []) (\<lambda>result.
     bindM pop_unwind (\<lambda>_.
     bindM (ap (args ! 2) []) (\<lambda>_. retM result))))))"

definition bi_call_cc :: "(val \<Rightarrow> val list \<Rightarrow> val M) \<Rightarrow> val list \<Rightarrow> val M" where
  "bi_call_cc ap args =
     bindM (creme_check_exact_args (int (length args)) 1 ''call/cc'') (\<lambda>_.
     (\<lambda>s. let k = length (h_conts s); b = vm_next_act s in
        case ap (args ! 0) [VContinuation k]
          (s\<lparr>h_conts := h_conts s @ [\<lparr> k_buf = b, k_depth = vm_depth s, k_unwind_mark = vm_n_unwind s,
              k_result = VNil \<rparr>], vm_next_act := b + 1\<rparr>) of
          Longjmp b' s' \<Rightarrow>
            if b' = b then bindM (derefM h_conts k) (\<lambda>c. retM (k_result c)) s' else Longjmp b' s'
        | r \<Rightarrow> r))"

definition bi_values :: "val list \<Rightarrow> val M" where
  "bi_values args = (if length args = 1 then retM (args ! 0) else new_values args)"

definition bi_call_with_values :: "(val \<Rightarrow> val list \<Rightarrow> val M) \<Rightarrow> val list \<Rightarrow> val M" where
  "bi_call_with_values ap args =
     bindM (creme_check_min_args (int (length args)) 2 ''call-with-values'') (\<lambda>_.
     bindM (ap (args ! 0) []) (\<lambda>produced.
     case produced of
       VValues p \<Rightarrow> bindM (derefM h_values p) (ap (args ! 1))
     | _ \<Rightarrow> ap (args ! 1) [produced]))"

definition set_promise :: "nat \<Rightarrow> (promise \<Rightarrow> promise) \<Rightarrow> unit M" where
  "set_promise p f = modM (\<lambda>s. s\<lparr>h_promises := (h_promises s)[p := f (h_promises s ! p)]\<rparr>)"

definition bi_force :: "(val \<Rightarrow> val list \<Rightarrow> val M) \<Rightarrow> val list \<Rightarrow> val M" where
  "bi_force ap args =
     bindM (argM args 0) (\<lambda>v.
     case v of
       VPromise p \<Rightarrow> bindM (derefM h_promises p) (\<lambda>pr.
         bindM (if pr_forced pr then retM ()
                else bindM (ap (pr_thunk pr) []) (\<lambda>r.
                  bindM (set_promise p (\<lambda>x. x\<lparr>pr_cached := r\<rparr>)) (\<lambda>_.
                  set_promise p (\<lambda>x. x\<lparr>pr_forced := True\<rparr>)))) (\<lambda>_.
         bindM (derefM h_promises p) (\<lambda>pr'. retM (pr_cached pr'))))
     | _ \<Rightarrow> retM v)"

definition bi_make_promise :: "val list \<Rightarrow> val M" where
  "bi_make_promise args =
     bindM (creme_check_min_args (int (length args)) 1 ''make-promise'') (\<lambda>_.
     case args ! 0 of
       VPromise p \<Rightarrow> retM (VPromise p)
     | v \<Rightarrow> (\<lambda>s. Done (VPromise (length (h_promises s))) (s\<lparr>h_promises := h_promises s @
         [\<lparr> pr_thunk = VNil, pr_forced = True, pr_cached = v \<rparr>]\<rparr>)))"

text \<open>The \<open>Parameter\<close> is allocated before its converter runs; nothing can see it until then.\<close>

definition bi_make_parameter :: "(val \<Rightarrow> val list \<Rightarrow> val M) \<Rightarrow> val list \<Rightarrow> val M" where
  "bi_make_parameter ap args =
     bindM (creme_check_min_args (int (length args)) 1 ''make-parameter'') (\<lambda>_.
     let has = length args \<ge> 2 in
     bindM (if has then ap (args ! 1) [args ! 0] else retM (args ! 0)) (\<lambda>v.
     (\<lambda>s. Done (VParameter (length (h_parameters s))) (s\<lparr>h_parameters := h_parameters s @
        [\<lparr> pm_value = v, pm_converter = (if has then args ! 1 else VNil), pm_has_converter = has \<rparr>]\<rparr>))))"

end
