(* ===== verification/Builtin_Errors.thy ===== *)
theory Builtin_Errors
  imports Builtin_Control
begin

text \<open>
  Printing in the \<open>display\<close> form, and the conditions and exception handlers of icecreme/builtins.c.
  \<open>print_value\<close> returns what it writes to its stream.  What an uncaught exception writes to stderr before
  \<open>exit(1)\<close> is the message of \<open>Exit\<close>, without the final newline.
\<close>

subsection \<open>\<open>print_value\<close>\<close>

definition print_float :: "arith \<Rightarrow> double \<Rightarrow> bytes" where
  "print_float A f =
     (if fp_isnan A f then ''+nan.0''
      else if fp_isinf A f then (if fp_lt A 0 f then ''+inf.0'' else ''-inf.0'')
      else if fp_lt A (fp_abs A f) 0x430C6BF526340000 \<and> fp_eq A f (fp_of_int64 A (fp_to_int64 A f))
      then dec (fp_to_int64 A f) @ ''.0''
      else printf_17g A f)"

fun separate :: "bytes \<Rightarrow> bytes list \<Rightarrow> bytes" where
  "separate sep [] = []"
| "separate sep [b] = b"
| "separate sep (b # bs) = b @ sep @ separate sep bs"

text \<open>The text of a record type's or field's name.\<close>

definition name_text :: "val \<Rightarrow> bytes M" where
  "name_text v = (case v of VSym s \<Rightarrow> retM s | VStr p \<Rightarrow> derefM h_strs p | _ \<Rightarrow> stuckM)"

primrec print_value :: "nat \<Rightarrow> arith \<Rightarrow> val \<Rightarrow> bytes M" where
  "print_value 0 A v = (\<lambda>s. Timeout)"
| "print_value (Suc n) A v =
     (case v of
        VInt i \<Rightarrow> retM (dec i)
      | VFloat f \<Rightarrow> retM (print_float A f)
      | VStr p \<Rightarrow> derefM h_strs p
      | VSym s \<Rightarrow> retM s
      | VChar c \<Rightarrow> retM [char_of c]
      | VBool b \<Rightarrow> retM (if b then ''#t'' else ''#f'')
      | VNil \<Rightarrow> retM ''()''
      | VPair p \<Rightarrow>
          bindM (list_items v) (\<lambda>(vs, tail).
          bindM (mapM (print_value n A) vs) (\<lambda>bs.
          if tail = VNil then retM (''('' @ separate '' '' bs @ '')'')
          else bindM (print_value n A tail) (\<lambda>t.
            retM (''('' @ separate '' '' bs @ '' . '' @ t @ '')''))))
      | VVector p \<Rightarrow>
          bindM (derefM h_vecs p) (\<lambda>vs. bindM (mapM (print_value n A) vs) (\<lambda>bs.
          retM (''#('' @ separate '' '' bs @ '')'')))
      | VBytevector p \<Rightarrow>
          bindM (derefM h_bvs p) (\<lambda>bs. retM (''#<blob:'' @ dec (int (length bs)) @ '' bytes>''))
      | VPromise p \<Rightarrow>
          bindM (derefM h_promises p) (\<lambda>pr.
          retM (if pr_forced pr then ''#<promise forced>'' else ''#<promise>''))
      | VClosure p \<Rightarrow> retM ''#<procedure>''
      | VCaseClosure p \<Rightarrow> retM ''#<procedure>''
      | VRecordCallable p \<Rightarrow> retM ''#<procedure>''
      | VBuiltin f \<Rightarrow> retM ''#<procedure>''
      | VParameter p \<Rightarrow> retM ''#<parameter>''
      | VRecordType p \<Rightarrow>
          bindM (derefM h_record_types p) (\<lambda>ty. bindM (name_text (rty_name ty)) (\<lambda>nm.
          retM (''#<record-type:'' @ nm @ ''>'')))
      | VRecord p \<Rightarrow>
          bindM (derefM h_records p) (\<lambda>r.
          bindM (derefM h_record_types (rec_type r)) (\<lambda>ty.
          bindM (name_text (rty_name ty)) (\<lambda>nm.
          bindM (mapM (\<lambda>i. bindM (name_text (rty_field_names ty ! i)) (\<lambda>fname.
              bindM (indexM (rec_fields r) (int i)) (\<lambda>x.
              bindM (print_value n A x) (\<lambda>b. retM ('' '' @ fname @ ''='' @ b)))))
            [0..<length (rty_field_names ty)]) (\<lambda>bs.
          retM (''#<'' @ nm @ concat bs @ ''>'')))))
      | VPort p \<Rightarrow> retM ''#<port>''
      | VBox k p \<Rightarrow> retM (if k = BOX_KIND_EOF then ''#<eof>'' else ''#<native-object>'')
      | VBigint z \<Rightarrow> retM (dec z)
      | VRational m d \<Rightarrow> retM (dec m @ ''/'' @ dec d)
      | VComplex re im \<Rightarrow>
          bindM (print_value n A re) (\<lambda>r. bindM (print_value n A im) (\<lambda>i.
          retM (r @ (if i = [] \<or> hd i \<noteq> CHR ''-'' then ''+'' else []) @ i @ ''i'')))
      | _ \<Rightarrow> creme_abort ''display: unsupported value type in this prototype'')"

text \<open>A value nested deeper than the heap has containers contains itself; printing it has no end.\<close>

definition display_text :: "arith \<Rightarrow> val \<Rightarrow> bytes M" where
  "display_text A v = (\<lambda>s.
     print_value (length (h_pairs s) + length (h_vecs s) + length (h_records s) + 3) A v s)"

subsection \<open>Conditions\<close>

definition exitM :: "bytes \<Rightarrow> 'a M" where
  "exitM msg = (\<lambda>s. Exit msg s)"

text \<open>An installed guard takes the condition; otherwise the message and the irritants are printed.\<close>

definition bi_error :: "arith \<Rightarrow> val list \<Rightarrow> val M" where
  "bi_error A args =
     bindM (creme_check_min_args (int (length args)) 1 ''error'') (\<lambda>_.
     bindM (display_text A (args ! 0)) (\<lambda>buf.
     bindM (cons_list (tl args) VNil) (\<lambda>irritants.
     bindM (creme_make_condition buf irritants) (\<lambda>cond.
     bindM (getM vm_n_handlers) (\<lambda>n.
     if n > 0 then creme_raise_condition cond
     else bindM (mapM (display_text A) (tl args)) (\<lambda>bs.
       exitM (buf @ concat (map (\<lambda>b. '' '' @ b) bs))))))))"

definition raise_uncaught_or_to_guard :: "arith \<Rightarrow> val \<Rightarrow> 'a M" where
  "raise_uncaught_or_to_guard A obj =
     bindM (getM vm_n_handlers) (\<lambda>n.
     if n > 0 then creme_raise_condition obj
     else bindM (display_text A obj) (\<lambda>b. exitM (''uncaught exception: '' @ b)))"

definition pop_exc_handler :: "val M" where
  "pop_exc_handler = (\<lambda>s. if vm_n_exc_handlers s = 0 then Stuck
     else Done (vm_exc_handlers s (vm_n_exc_handlers s - 1))
            (s\<lparr>vm_n_exc_handlers := vm_n_exc_handlers s - 1\<rparr>))"

text \<open>\<open>vm->exc_handlers[vm->n_exc_handlers++] = handler\<close>; the array is not checked here.\<close>

definition push_exc_handler :: "val \<Rightarrow> unit M" where
  "push_exc_handler h = (\<lambda>s. if vm_n_exc_handlers s \<ge> CREME_EXC_HANDLERS_CAP then Stuck
     else Done () (s\<lparr>vm_exc_handlers := (vm_exc_handlers s)(vm_n_exc_handlers s := h),
            vm_n_exc_handlers := vm_n_exc_handlers s + 1\<rparr>))"

definition bi_raise :: "arith \<Rightarrow> (val \<Rightarrow> val list \<Rightarrow> val M) \<Rightarrow> val list \<Rightarrow> val M" where
  "bi_raise A ap args =
     bindM (creme_check_exact_args (int (length args)) 1 ''raise'') (\<lambda>_.
     bindM (getM vm_n_exc_handlers) (\<lambda>n.
     bindM (if n > 0 then
              bindM pop_exc_handler (\<lambda>h. bindM (ap h args) (\<lambda>_. push_exc_handler h))
            else retM ()) (\<lambda>_.
     raise_uncaught_or_to_guard A (args ! 0))))"

definition bi_raise_continuable :: "arith \<Rightarrow> (val \<Rightarrow> val list \<Rightarrow> val M) \<Rightarrow> val list \<Rightarrow> val M" where
  "bi_raise_continuable A ap args =
     bindM (creme_check_exact_args (int (length args)) 1 ''raise-continuable'') (\<lambda>_.
     bindM (getM vm_n_exc_handlers) (\<lambda>n.
     if n > 0 then
       bindM pop_exc_handler (\<lambda>h. bindM (ap h args) (\<lambda>r. bindM (push_exc_handler h) (\<lambda>_. retM r)))
     else raise_uncaught_or_to_guard A (args ! 0)))"

definition bi_with_exception_handler :: "(val \<Rightarrow> val list \<Rightarrow> val M) \<Rightarrow> val list \<Rightarrow> val M" where
  "bi_with_exception_handler ap args =
     bindM (creme_check_exact_args (int (length args)) 2 ''with-exception-handler'') (\<lambda>_.
     bindM (getM vm_n_exc_handlers) (\<lambda>mark.
     bindM (guardM (mark \<ge> CREME_EXC_HANDLERS_CAP)
       (''with-exception-handler: handler stack full (CREME_EXC_HANDLERS_CAP='' @
        dec (int CREME_EXC_HANDLERS_CAP) @ '')'')) (\<lambda>_.
     bindM (push_exc_handler (args ! 0)) (\<lambda>_.
     bindM (push_unwind (UnwindExcHandler mark)) (\<lambda>_.
     bindM (ap (args ! 1) []) (\<lambda>result.
     bindM pop_unwind (\<lambda>_.
     bindM (modM (\<lambda>s. s\<lparr>vm_n_exc_handlers := mark\<rparr>)) (\<lambda>_. retM result))))))))"

definition bi_error_object_p :: "val list \<Rightarrow> val M" where
  "bi_error_object_p args =
     bindM (creme_check_min_args (int (length args)) 1 ''error-object?'') (\<lambda>_.
     bindM (creme_is_condition (args ! 0)) (\<lambda>b. retM (VBool b)))"

definition condition_field :: "nat \<Rightarrow> bytes \<Rightarrow> val list \<Rightarrow> val M" where
  "condition_field i who args =
     bindM (if args = [] then retM False else creme_is_condition (args ! 0)) (\<lambda>b.
     bindM (guardM (\<not> b) (who @ '': expected an error object'')) (\<lambda>_. record_field (args ! 0) i))"

definition bi_error_object_message :: "val list \<Rightarrow> val M" where
  "bi_error_object_message = condition_field 0 ''error-object-message''"

definition bi_error_object_irritants :: "val list \<Rightarrow> val M" where
  "bi_error_object_irritants = condition_field 1 ''error-object-irritants''"

end
