(* ===== verification/Embed_Args.thy ===== *)
theory Embed_Args
  imports Builtin_Lists
begin

text \<open>
  The argument helpers of icecreme/embed.h that the library builtins share: an argument of a given
  type or an abort, and fresh strings, symbols and vectors for the results.
\<close>

definition arg_present :: "val list \<Rightarrow> nat \<Rightarrow> bytes \<Rightarrow> unit M" where
  "arg_present args i who =
     guardM (i \<ge> length args) (who @ '': missing argument '' @ dec (int i + 1))"

definition arg_abort :: "nat \<Rightarrow> bytes \<Rightarrow> bytes \<Rightarrow> 'a M" where
  "arg_abort i who what = creme_abort (who @ '': argument '' @ dec (int i + 1) @ '': '' @ what)"

definition creme_arg_bool :: "val list \<Rightarrow> nat \<Rightarrow> bytes \<Rightarrow> bool M" where
  "creme_arg_bool args i who =
     bindM (arg_present args i who) (\<lambda>_.
     case args ! i of VBool b \<Rightarrow> retM b | _ \<Rightarrow> arg_abort i who ''expected a boolean'')"

text \<open>The bytes are read where they are: a string is not copied.\<close>

definition creme_arg_bytes :: "val list \<Rightarrow> nat \<Rightarrow> bytes \<Rightarrow> bytes M" where
  "creme_arg_bytes args i who =
     bindM (arg_present args i who) (\<lambda>_.
     case args ! i of VStr p \<Rightarrow> derefM h_strs p | _ \<Rightarrow> arg_abort i who ''expected a string'')"

definition creme_arg_blob :: "val list \<Rightarrow> nat \<Rightarrow> bytes \<Rightarrow> bytes M" where
  "creme_arg_blob args i who =
     bindM (arg_present args i who) (\<lambda>_.
     case args ! i of
       VStr p \<Rightarrow> derefM h_strs p
     | VBytevector p \<Rightarrow> derefM h_bvs p
     | _ \<Rightarrow> arg_abort i who ''expected a blob (string or bytevector)'')"

definition creme_arg_vector :: "val list \<Rightarrow> nat \<Rightarrow> bytes \<Rightarrow> val list M" where
  "creme_arg_vector args i who =
     bindM (arg_present args i who) (\<lambda>_.
     case args ! i of VVector p \<Rightarrow> derefM h_vecs p | _ \<Rightarrow> arg_abort i who ''expected a vector'')"

text \<open>The pointer of a box of the expected kind.\<close>

definition creme_arg_box :: "val list \<Rightarrow> nat \<Rightarrow> int \<Rightarrow> bytes \<Rightarrow> nat M" where
  "creme_arg_box args i kind who =
     bindM (arg_present args i who) (\<lambda>_.
     case args ! i of
       VBox k p \<Rightarrow> if k = kind then retM p else arg_abort i who ''unexpected type''
     | _ \<Rightarrow> arg_abort i who ''unexpected type'')"

definition set_box :: "nat \<Rightarrow> box \<Rightarrow> unit M" where
  "set_box p b = modM (\<lambda>s. s\<lparr>h_boxes := (h_boxes s)[p := b]\<rparr>)"

definition creme_bytes_value :: "bytes \<Rightarrow> val M" where
  "creme_bytes_value bs = new_str bs"

definition creme_sym_value :: "bytes \<Rightarrow> val M" where
  "creme_sym_value bs = retM (VSym bs)"

definition creme_bytevector_value :: "bytes \<Rightarrow> val M" where
  "creme_bytevector_value bs = (\<lambda>s. Done (VBytevector (length (h_bvs s))) (s\<lparr>h_bvs := h_bvs s @ [bs]\<rparr>))"

definition creme_vector_from_values :: "val list \<Rightarrow> val M" where
  "creme_vector_from_values vs = new_vector vs"

lemma arg_present_run [simp, run_simps]: "i < length args \<Longrightarrow> arg_present args i who = retM ()"
  by (simp add: arg_present_def)

lemma creme_arg_box_run [simp, run_simps]:
  "i < length args \<Longrightarrow> args ! i = VBox kind p \<Longrightarrow> creme_arg_box args i kind who = retM p"
  by (simp add: creme_arg_box_def)

lemma creme_arg_bytes_run [simp, run_simps]:
  "i < length args \<Longrightarrow> args ! i = VStr p \<Longrightarrow> creme_arg_bytes args i who = derefM h_strs p"
  by (simp add: creme_arg_bytes_def)

lemma set_box_run [simp, run_simps]:
  "set_box p b s = Done () (s\<lparr>h_boxes := (h_boxes s)[p := b]\<rparr>)"
  by (simp add: set_box_def)

end
