(* ===== verification/Builtin_Radix.thy ===== *)
theory Builtin_Radix
  imports Embed_Args
begin

text \<open>
  The builtins of (creme radix) in icecreme/radix.c, over the trie of \<open>Radix_Core\<close>.  A payload is a
  boxed Scheme value and so never the C \<open>NULL\<close>: \<open>Some v\<close>.
\<close>

definition RADIX_MAX_PARAMS :: nat where
  "RADIX_MAX_PARAMS = 64"

definition as_radix_tree :: "val \<Rightarrow> bytes \<Rightarrow> (nat \<times> val radix_tree) M" where
  "as_radix_tree v who =
     bindM (creme_arg_box [v] 0 BOX_KIND_RADIX_TREE who) (\<lambda>p.
     bindM (derefM h_boxes p) (\<lambda>b. case b of BoxRadixTree t \<Rightarrow> retM (p, t) | _ \<Rightarrow> stuckM))"

definition unbox_value :: "val option \<Rightarrow> val" where
  "unbox_value p = (case p of Some v \<Rightarrow> v | None \<Rightarrow> VBool False)"

definition bi_radix_tree :: "val list \<Rightarrow> val M" where
  "bi_radix_tree args = v_box (BoxRadixTree radix_tree_new) BOX_KIND_RADIX_TREE"

definition bi_radix_tree_p :: "val list \<Rightarrow> val M" where
  "bi_radix_tree_p args =
     bindM (creme_check_min_args (int (length args)) 1 ''radix-tree?'') (\<lambda>_.
     retM (VBool (case args ! 0 of VBox k p \<Rightarrow> k = BOX_KIND_RADIX_TREE | _ \<Rightarrow> False)))"

definition bi_radix_tree_set_bang :: "val list \<Rightarrow> val M" where
  "bi_radix_tree_set_bang args =
     bindM (creme_check_min_args (int (length args)) 3 ''radix-tree-set!'') (\<lambda>_.
     bindM (as_radix_tree (args ! 0) ''radix-tree-set!'') (\<lambda>(p, t).
     bindM (creme_arg_bytes args 1 ''radix-tree-set!'') (\<lambda>pat.
     bindM (set_box p (BoxRadixTree (radix_tree_add t pat (args ! 2)))) (\<lambda>_. retM VNil))))"

definition bi_radix_tree_ref :: "val list \<Rightarrow> val M" where
  "bi_radix_tree_ref args =
     bindM (creme_check_min_args (int (length args)) 2 ''radix-tree-ref'') (\<lambda>_.
     bindM (as_radix_tree (args ! 0) ''radix-tree-ref'') (\<lambda>(p, t).
     bindM (creme_arg_bytes args 1 ''radix-tree-ref'') (\<lambda>path.
     retM (unbox_value (map_option fst (radix_tree_find t path RADIX_MAX_PARAMS))))))"

text \<open>The loop conses each parameter in front: the alist has the captures from last to first.\<close>

fun params_alist :: "radix_param list \<Rightarrow> val \<Rightarrow> val M" where
  "params_alist [] al = retM al"
| "params_alist (c # cs) al =
     bindM (creme_bytes_value (rp_name c)) (\<lambda>name.
     bindM (creme_bytes_value (rp_value c)) (\<lambda>v.
     bindM (creme_cons name v) (\<lambda>entry.
     bindM (creme_cons entry al) (params_alist cs))))"

definition bi_radix_tree_match :: "val list \<Rightarrow> val M" where
  "bi_radix_tree_match args =
     bindM (creme_check_min_args (int (length args)) 2 ''radix-tree-match'') (\<lambda>_.
     bindM (as_radix_tree (args ! 0) ''radix-tree-match'') (\<lambda>(p, t).
     bindM (creme_arg_bytes args 1 ''radix-tree-match'') (\<lambda>path.
     case radix_tree_find t path RADIX_MAX_PARAMS of
       None \<Rightarrow> retM (VBool False)
     | Some (v, ps) \<Rightarrow> bindM (params_alist ps VNil) (creme_cons v))))"

definition bi_radix_tree_count :: "val list \<Rightarrow> val M" where
  "bi_radix_tree_count args =
     bindM (creme_check_min_args (int (length args)) 1 ''radix-tree-count'') (\<lambda>_.
     bindM (as_radix_tree (args ! 0) ''radix-tree-count'') (\<lambda>(p, t). retM (VInt (rt_count t))))"

definition radix_builtin :: "bytes \<Rightarrow> (val list \<Rightarrow> val M) option" where
  "radix_builtin = map_of
    [(''bi_radix_tree'', bi_radix_tree), (''bi_radix_tree_p'', bi_radix_tree_p),
     (''bi_radix_tree_set_bang'', bi_radix_tree_set_bang), (''bi_radix_tree_ref'', bi_radix_tree_ref),
     (''bi_radix_tree_match'', bi_radix_tree_match), (''bi_radix_tree_count'', bi_radix_tree_count)]"

end
