(* ===== verification/Builtin_Treelist.thy ===== *)
theory Builtin_Treelist
  imports Embed_Args Builtin_Control
begin

text \<open>
  The builtins of (creme treelist) in icecreme/treelist.c, over the tree engine of \<open>Treelist_Core\<close>.
  A treelist is a box of its root; a mutable treelist a box of a \<open>MutableTreelistState\<close>, whose \<open>root\<close>
  field each operation reads and replaces.

  \<^item> \<open>ap\<close> is \<open>creme_apply\<close>.  A callback may itself change the mutable treelist it is called for, so
    the places where the code reads \<open>m->root\<close> again after the callbacks do so here.
  \<^item> \<open>tl_size_arg\<close> converts an \<open>int64_t\<close> to \<open>int\<close>; a size past \<open>INT_MAX\<close> wraps, and a negative
    one asks \<open>GC_MALLOC\<close> for a wrapped-around size (undefined here).
\<close>

subsection \<open>Arguments\<close>

definition v_treelist :: "val rrb \<Rightarrow> val M" where
  "v_treelist rt = v_box (BoxTreelist rt) BOX_KIND_TREELIST"

definition v_mutable_treelist :: "val rrb \<Rightarrow> val M" where
  "v_mutable_treelist rt = v_box (BoxMutableTreelist rt) BOX_KIND_MUTABLE_TREELIST"

definition treelist_at :: "nat \<Rightarrow> val rrb M" where
  "treelist_at p = bindM (derefM h_boxes p) (\<lambda>b. case b of BoxTreelist t \<Rightarrow> retM t | _ \<Rightarrow> stuckM)"

text \<open>\<open>m->root\<close>, read and written.\<close>

definition mtl_root :: "nat \<Rightarrow> val rrb M" where
  "mtl_root m = bindM (derefM h_boxes m) (\<lambda>b. case b of BoxMutableTreelist t \<Rightarrow> retM t | _ \<Rightarrow> stuckM)"

definition set_mtl_root :: "nat \<Rightarrow> val rrb \<Rightarrow> unit M" where
  "set_mtl_root m t = set_box m (BoxMutableTreelist t)"

definition tl_arg :: "val \<Rightarrow> bytes \<Rightarrow> val rrb M" where
  "tl_arg v who = bindM (creme_arg_box [v] 0 BOX_KIND_TREELIST who) treelist_at"

definition mtl_arg :: "val \<Rightarrow> bytes \<Rightarrow> nat M" where
  "mtl_arg v who = creme_arg_box [v] 0 BOX_KIND_MUTABLE_TREELIST who"

definition any_tree_arg :: "val \<Rightarrow> bytes \<Rightarrow> val rrb M" where
  "any_tree_arg v who =
     (case v of
        VBox k p \<Rightarrow> if k = BOX_KIND_TREELIST then treelist_at p
          else if k = BOX_KIND_MUTABLE_TREELIST then mtl_root p
          else creme_abort (who @ '': expected a treelist'')
      | _ \<Rightarrow> creme_abort (who @ '': expected a treelist''))"

text \<open>The conversion of an \<open>int64_t\<close> to \<open>int\<close>.\<close>

definition to_int :: "int \<Rightarrow> int" where
  "to_int i = (i + 2147483648) mod 4294967296 - 2147483648"

definition tl_size_arg :: "val \<Rightarrow> bytes \<Rightarrow> int M" where
  "tl_size_arg v who =
     (case v of
        VInt i \<Rightarrow> if i < 0 then creme_abort (who @ '': size must be a non-negative integer'') else retM (to_int i)
      | _ \<Rightarrow> creme_abort (who @ '': size must be a non-negative integer''))"

definition tl_bounds :: "val \<Rightarrow> nat \<Rightarrow> bytes \<Rightarrow> nat M" where
  "tl_bounds v sz who =
     (case v of
        VInt i \<Rightarrow> if i < 0 \<or> i \<ge> int sz
          then creme_abort (who @ '': index out of range for treelist of length '' @ dec (int sz)) else retM (nat i)
      | _ \<Rightarrow> creme_abort (who @ '': expected an integer index''))"

definition tl_bounds_incl :: "val \<Rightarrow> nat \<Rightarrow> bytes \<Rightarrow> int M" where
  "tl_bounds_incl v sz who =
     (case v of
        VInt i \<Rightarrow> if i < 0 \<or> i > int sz
          then creme_abort (who @ '': position out of range for treelist of length '' @ dec (int sz)) else retM i
      | _ \<Rightarrow> creme_abort (who @ '': expected an integer position''))"

definition tl_count :: "val \<Rightarrow> nat \<Rightarrow> bytes \<Rightarrow> int M" where
  "tl_count v sz who =
     (case v of
        VInt i \<Rightarrow> if i < 0 \<or> i > int sz
          then creme_abort (who @ '': count out of range for treelist of length '' @ dec (int sz)) else retM i
      | _ \<Rightarrow> creme_abort (who @ '': expected an integer count''))"

text \<open>The search of \<open>find_index\<close>: \<open>-1\<close> is \<open>None\<close>.\<close>

primrec find_match :: "(val \<Rightarrow> bool M) \<Rightarrow> nat \<Rightarrow> val list \<Rightarrow> nat option M" where
  "find_match f i [] = retM None"
| "find_match f i (x # xs) = bindM (f x) (\<lambda>m. if m then retM (Some i) else find_match f (i + 1) xs)"

definition find_index :: "arith \<Rightarrow> (val \<Rightarrow> val list \<Rightarrow> val M) \<Rightarrow> val rrb \<Rightarrow> val \<Rightarrow> val option \<Rightarrow> nat option M" where
  "find_index A ap rt needle eql =
     bindM (liftR (rrb_to_array rt)) (find_match (\<lambda>x.
       case eql of
         Some f \<Rightarrow> bindM (ap f [needle, x]) (\<lambda>r. retM (\<not> v_falsy r))
       | None \<Rightarrow> creme_equal A needle x) 0)"

definition tl_eql :: "val list \<Rightarrow> val option" where
  "tl_eql args = (if length args \<ge> 3 then Some (args ! 2) else None)"

definition new_treelist :: "val rrb res \<Rightarrow> val M" where
  "new_treelist r = bindM (liftR r) v_treelist"

subsection \<open>Immutable treelists\<close>

definition bi_treelist :: "val list \<Rightarrow> val M" where
  "bi_treelist args = new_treelist (rrb_from_array args)"

definition fill_array :: "int \<Rightarrow> val \<Rightarrow> val list M" where
  "fill_array n v = (if n < 0 then stuckM else retM (replicate (nat n) v))"

definition bi_make_treelist :: "val list \<Rightarrow> val M" where
  "bi_make_treelist args =
     bindM (creme_check_min_args (int (length args)) 2 ''make-treelist'') (\<lambda>_.
     bindM (tl_size_arg (args ! 0) ''make-treelist'') (\<lambda>n.
     bindM (fill_array n (args ! 1)) (\<lambda>items. new_treelist (rrb_from_array items))))"

definition list_to_value_array :: "val \<Rightarrow> val list M" where
  "list_to_value_array l = bindM (list_items l) (\<lambda>(vs, tail). retM vs)"

definition bi_list_to_treelist :: "val list \<Rightarrow> val M" where
  "bi_list_to_treelist args =
     bindM (creme_check_min_args (int (length args)) 1 ''list->treelist'') (\<lambda>_.
     bindM (list_to_value_array (args ! 0)) (\<lambda>arr. new_treelist (rrb_from_array arr)))"

definition bi_treelist_to_list :: "val list \<Rightarrow> val M" where
  "bi_treelist_to_list args =
     bindM (creme_check_min_args (int (length args)) 1 ''treelist->list'') (\<lambda>_.
     bindM (tl_arg (args ! 0) ''treelist->list'') (\<lambda>rt.
     bindM (liftR (rrb_to_array rt)) (\<lambda>arr. cons_list arr VNil)))"

definition bi_vector_to_treelist :: "val list \<Rightarrow> val M" where
  "bi_vector_to_treelist args =
     (case args of
        VVector p # _ \<Rightarrow> bindM (derefM h_vecs p) (\<lambda>vs. new_treelist (rrb_from_array vs))
      | _ \<Rightarrow> creme_abort ''vector->treelist: expected a vector'')"

definition bi_treelist_to_vector :: "val list \<Rightarrow> val M" where
  "bi_treelist_to_vector args =
     bindM (creme_check_min_args (int (length args)) 1 ''treelist->vector'') (\<lambda>_.
     bindM (tl_arg (args ! 0) ''treelist->vector'') (\<lambda>rt.
     bindM (liftR (rrb_to_array rt)) new_vector))"

definition bi_treelist_p :: "val list \<Rightarrow> val M" where
  "bi_treelist_p args =
     bindM (creme_check_min_args (int (length args)) 1 ''treelist?'') (\<lambda>_.
     retM (VBool (case args ! 0 of VBox k p \<Rightarrow> k = BOX_KIND_TREELIST | _ \<Rightarrow> False)))"

definition bi_treelist_empty_p :: "val list \<Rightarrow> val M" where
  "bi_treelist_empty_p args =
     bindM (creme_check_min_args (int (length args)) 1 ''treelist-empty?'') (\<lambda>_.
     bindM (tl_arg (args ! 0) ''treelist-empty?'') (\<lambda>t.
     retM (VBool (node_size t = 0))))"

definition bi_treelist_length :: "val list \<Rightarrow> val M" where
  "bi_treelist_length args =
     bindM (creme_check_min_args (int (length args)) 1 ''treelist-length'') (\<lambda>_.
     bindM (tl_arg (args ! 0) ''treelist-length'') (\<lambda>t.
     retM (VInt (int (node_size t)))))"

definition bi_treelist_ref :: "val list \<Rightarrow> val M" where
  "bi_treelist_ref args =
     bindM (creme_check_min_args (int (length args)) 2 ''treelist-ref'') (\<lambda>_.
     bindM (tl_arg (args ! 0) ''treelist-ref'') (\<lambda>t.
     bindM (tl_bounds (args ! 1) (node_size t) ''treelist-ref'') (\<lambda>i.
     liftR (rrb_node_ref t i))))"

definition bi_treelist_first :: "val list \<Rightarrow> val M" where
  "bi_treelist_first args =
     bindM (creme_check_min_args (int (length args)) 1 ''treelist-first'') (\<lambda>_.
     bindM (tl_arg (args ! 0) ''treelist-first'') (\<lambda>t.
     bindM (guardM (node_size t = 0) ''treelist-first: empty treelist'') (\<lambda>_.
     liftR (rrb_node_ref t 0))))"

definition bi_treelist_last :: "val list \<Rightarrow> val M" where
  "bi_treelist_last args =
     bindM (creme_check_min_args (int (length args)) 1 ''treelist-last'') (\<lambda>_.
     bindM (tl_arg (args ! 0) ''treelist-last'') (\<lambda>t.
     bindM (guardM (node_size t = 0) ''treelist-last: empty treelist'') (\<lambda>_.
     liftR (rrb_node_ref t (node_size t - 1)))))"

definition bi_treelist_add :: "val list \<Rightarrow> val M" where
  "bi_treelist_add args =
     bindM (creme_check_min_args (int (length args)) 2 ''treelist-add'') (\<lambda>_.
     bindM (tl_arg (args ! 0) ''treelist-add'') (\<lambda>t.
     new_treelist (tree_add t (args ! 1))))"

definition bi_treelist_cons :: "val list \<Rightarrow> val M" where
  "bi_treelist_cons args =
     bindM (creme_check_min_args (int (length args)) 2 ''treelist-cons'') (\<lambda>_.
     bindM (tl_arg (args ! 0) ''treelist-cons'') (\<lambda>t.
     new_treelist (tree_cons t (args ! 1))))"

definition bi_treelist_set :: "val list \<Rightarrow> val M" where
  "bi_treelist_set args =
     bindM (creme_check_min_args (int (length args)) 3 ''treelist-set'') (\<lambda>_.
     bindM (tl_arg (args ! 0) ''treelist-set'') (\<lambda>t.
     bindM (tl_bounds (args ! 1) (node_size t) ''treelist-set'') (\<lambda>i.
     new_treelist (rrb_node_set t i (args ! 2)))))"

definition bi_treelist_insert :: "val list \<Rightarrow> val M" where
  "bi_treelist_insert args =
     bindM (creme_check_min_args (int (length args)) 3 ''treelist-insert'') (\<lambda>_.
     bindM (tl_arg (args ! 0) ''treelist-insert'') (\<lambda>t.
     bindM (tl_bounds_incl (args ! 1) (node_size t) ''treelist-insert'') (\<lambda>i.
     new_treelist (tree_insert t i (args ! 2)))))"

definition bi_treelist_delete :: "val list \<Rightarrow> val M" where
  "bi_treelist_delete args =
     bindM (creme_check_min_args (int (length args)) 2 ''treelist-delete'') (\<lambda>_.
     bindM (tl_arg (args ! 0) ''treelist-delete'') (\<lambda>t.
     bindM (tl_bounds (args ! 1) (node_size t) ''treelist-delete'') (\<lambda>i.
     new_treelist (tree_delete t (int i)))))"

definition bi_treelist_take :: "val list \<Rightarrow> val M" where
  "bi_treelist_take args =
     bindM (creme_check_min_args (int (length args)) 2 ''treelist-take'') (\<lambda>_.
     bindM (tl_arg (args ! 0) ''treelist-take'') (\<lambda>t.
     bindM (tl_count (args ! 1) (node_size t) ''treelist-take'') (\<lambda>n.
     new_treelist (tree_take t n))))"

definition bi_treelist_drop :: "val list \<Rightarrow> val M" where
  "bi_treelist_drop args =
     bindM (creme_check_min_args (int (length args)) 2 ''treelist-drop'') (\<lambda>_.
     bindM (tl_arg (args ! 0) ''treelist-drop'') (\<lambda>t.
     bindM (tl_count (args ! 1) (node_size t) ''treelist-drop'') (\<lambda>n.
     new_treelist (tree_drop t n))))"

definition bi_treelist_take_right :: "val list \<Rightarrow> val M" where
  "bi_treelist_take_right args =
     bindM (creme_check_min_args (int (length args)) 2 ''treelist-take-right'') (\<lambda>_.
     bindM (tl_arg (args ! 0) ''treelist-take-right'') (\<lambda>t.
     bindM (tl_count (args ! 1) (node_size t) ''treelist-take-right'') (\<lambda>n.
     new_treelist (tree_drop t (int (node_size t) - n)))))"

definition bi_treelist_drop_right :: "val list \<Rightarrow> val M" where
  "bi_treelist_drop_right args =
     bindM (creme_check_min_args (int (length args)) 2 ''treelist-drop-right'') (\<lambda>_.
     bindM (tl_arg (args ! 0) ''treelist-drop-right'') (\<lambda>t.
     bindM (tl_count (args ! 1) (node_size t) ''treelist-drop-right'') (\<lambda>n.
     new_treelist (tree_take t (int (node_size t) - n)))))"

definition bi_treelist_sublist :: "val list \<Rightarrow> val M" where
  "bi_treelist_sublist args =
     bindM (creme_check_min_args (int (length args)) 3 ''treelist-sublist'') (\<lambda>_.
     bindM (tl_arg (args ! 0) ''treelist-sublist'') (\<lambda>t.
     bindM (tl_count (args ! 1) (node_size t) ''treelist-sublist'') (\<lambda>from.
     bindM (tl_count (args ! 2) (node_size t) ''treelist-sublist'') (\<lambda>to.
     bindM (guardM (from > to) ''treelist-sublist: bad range'') (\<lambda>_.
     new_treelist (tree_sublist t from to))))))"

definition bi_treelist_rest :: "val list \<Rightarrow> val M" where
  "bi_treelist_rest args =
     bindM (creme_check_min_args (int (length args)) 1 ''treelist-rest'') (\<lambda>_.
     bindM (tl_arg (args ! 0) ''treelist-rest'') (\<lambda>t.
     bindM (guardM (node_size t = 0) ''treelist-rest: empty treelist'') (\<lambda>_.
     new_treelist (tree_drop t 1))))"

primrec append_trees :: "val rrb \<Rightarrow> val list \<Rightarrow> val rrb M" where
  "append_trees acc [] = retM acc"
| "append_trees acc (v # vs) = bindM (tl_arg v ''treelist-append'') (\<lambda>t.
     bindM (liftR (tree_concat acc t)) (\<lambda>acc'. append_trees acc' vs))"

definition bi_treelist_append :: "val list \<Rightarrow> val M" where
  "bi_treelist_append args = bindM (append_trees rrb_empty_leaf args) v_treelist"

definition bi_treelist_reverse :: "val list \<Rightarrow> val M" where
  "bi_treelist_reverse args =
     bindM (creme_check_min_args (int (length args)) 1 ''treelist-reverse'') (\<lambda>_.
     bindM (tl_arg (args ! 0) ''treelist-reverse'') (\<lambda>t.
     new_treelist (tree_reverse t)))"

subsection \<open>Procedures over treelists\<close>

definition bi_treelist_map :: "(val \<Rightarrow> val list \<Rightarrow> val M) \<Rightarrow> val list \<Rightarrow> val M" where
  "bi_treelist_map ap args =
     bindM (creme_check_min_args (int (length args)) 2 ''treelist-map'') (\<lambda>_.
     bindM (tl_arg (args ! 0) ''treelist-map'') (\<lambda>t.
     bindM (liftR (rrb_to_array t)) (\<lambda>arr.
     bindM (mapM (\<lambda>x. ap (args ! 1) [x]) arr) (\<lambda>mapped.
     new_treelist (rrb_from_array mapped)))))"

text \<open>The loop of \<open>bi_treelist_filter\<close>, whose procedure is the first argument.\<close>

primrec kept_items :: "(val \<Rightarrow> val M) \<Rightarrow> val list \<Rightarrow> val list M" where
  "kept_items f [] = retM []"
| "kept_items f (x # xs) = bindM (f x) (\<lambda>k. bindM (kept_items f xs) (\<lambda>r.
     retM (if v_falsy k then r else x # r)))"

definition bi_treelist_filter :: "(val \<Rightarrow> val list \<Rightarrow> val M) \<Rightarrow> val list \<Rightarrow> val M" where
  "bi_treelist_filter ap args =
     bindM (creme_check_min_args (int (length args)) 2 ''treelist-filter'') (\<lambda>_.
     bindM (tl_arg (args ! 1) ''treelist-filter'') (\<lambda>t.
     bindM (liftR (rrb_to_array t)) (\<lambda>arr.
     bindM (kept_items (\<lambda>x. ap (args ! 0) [x]) arr) (\<lambda>kept.
     new_treelist (rrb_from_array kept)))))"

definition bi_treelist_for_each :: "(val \<Rightarrow> val list \<Rightarrow> val M) \<Rightarrow> val list \<Rightarrow> val M" where
  "bi_treelist_for_each ap args =
     bindM (creme_check_min_args (int (length args)) 2 ''treelist-for-each'') (\<lambda>_.
     bindM (tl_arg (args ! 0) ''treelist-for-each'') (\<lambda>t.
     bindM (liftR (rrb_to_array t)) (\<lambda>arr.
     bindM (forM arr (\<lambda>x. bindM (ap (args ! 1) [x]) (\<lambda>_. retM ()))) (\<lambda>_.
     retM VNil))))"

text \<open>The insertion sort.  \<open>tl_sift\<close> is its inner loop: \<open>key\<close> moves left past the sorted prefix, given
  in reverse, as long as \<open>less\<close> says that it is smaller than the element there.\<close>

primrec tl_sift :: "(val \<Rightarrow> val list \<Rightarrow> val M) \<Rightarrow> val \<Rightarrow> val \<Rightarrow> val list \<Rightarrow> val list M" where
  "tl_sift ap lt key [] = retM [key]"
| "tl_sift ap lt key (x # xs) = bindM (ap lt [key, x]) (\<lambda>r.
     if v_falsy r then retM (key # x # xs) else bindM (tl_sift ap lt key xs) (\<lambda>ys. retM (x # ys)))"

primrec tl_sort_from :: "(val \<Rightarrow> val list \<Rightarrow> val M) \<Rightarrow> val \<Rightarrow> val list \<Rightarrow> val list \<Rightarrow> val list M" where
  "tl_sort_from ap lt acc [] = retM (rev acc)"
| "tl_sort_from ap lt acc (x # xs) = bindM (tl_sift ap lt x acc) (\<lambda>acc'. tl_sort_from ap lt acc' xs)"

definition tl_insertion_sort :: "(val \<Rightarrow> val list \<Rightarrow> val M) \<Rightarrow> val list \<Rightarrow> val \<Rightarrow> val list M" where
  "tl_insertion_sort ap arr lt = tl_sort_from ap lt [] arr"

definition bi_treelist_sort :: "(val \<Rightarrow> val list \<Rightarrow> val M) \<Rightarrow> val list \<Rightarrow> val M" where
  "bi_treelist_sort ap args =
     bindM (creme_check_min_args (int (length args)) 2 ''treelist-sort'') (\<lambda>_.
     bindM (tl_arg (args ! 0) ''treelist-sort'') (\<lambda>t.
     bindM (liftR (rrb_to_array t)) (\<lambda>arr.
     bindM (tl_insertion_sort ap arr (args ! 1)) (\<lambda>arr'.
     new_treelist (rrb_from_array arr')))))"

definition bi_treelist_member_p :: "arith \<Rightarrow> (val \<Rightarrow> val list \<Rightarrow> val M) \<Rightarrow> val list \<Rightarrow> val M" where
  "bi_treelist_member_p A ap args =
     bindM (creme_check_min_args (int (length args)) 2 ''treelist-member?'') (\<lambda>_.
     bindM (tl_arg (args ! 0) ''treelist-member?'') (\<lambda>t.
     bindM (find_index A ap t (args ! 1) (tl_eql args)) (\<lambda>i.
     retM (VBool (i \<noteq> None)))))"

definition bi_treelist_index_of :: "arith \<Rightarrow> (val \<Rightarrow> val list \<Rightarrow> val M) \<Rightarrow> val list \<Rightarrow> val M" where
  "bi_treelist_index_of A ap args =
     bindM (creme_check_min_args (int (length args)) 2 ''treelist-index-of'') (\<lambda>_.
     bindM (tl_arg (args ! 0) ''treelist-index-of'') (\<lambda>t.
     bindM (find_index A ap t (args ! 1) (tl_eql args)) (\<lambda>i.
     retM (case i of Some k \<Rightarrow> VInt (int k) | None \<Rightarrow> VBool False))))"

primrec find_first :: "(val \<Rightarrow> val M) \<Rightarrow> val list \<Rightarrow> val M" where
  "find_first f [] = retM (VBool False)"
| "find_first f (x # xs) = bindM (f x) (\<lambda>r. if v_falsy r then find_first f xs else retM x)"

definition bi_treelist_find :: "(val \<Rightarrow> val list \<Rightarrow> val M) \<Rightarrow> val list \<Rightarrow> val M" where
  "bi_treelist_find ap args =
     bindM (creme_check_min_args (int (length args)) 2 ''treelist-find'') (\<lambda>_.
     bindM (tl_arg (args ! 0) ''treelist-find'') (\<lambda>t.
     bindM (liftR (rrb_to_array t)) (\<lambda>arr.
     find_first (\<lambda>x. ap (args ! 1) [x]) arr)))"

subsection \<open>Mutable treelists\<close>

definition new_mutable :: "val rrb res \<Rightarrow> val M" where
  "new_mutable r = bindM (liftR r) v_mutable_treelist"

definition bi_mutable_treelist :: "val list \<Rightarrow> val M" where
  "bi_mutable_treelist args = new_mutable (rrb_from_array args)"

definition bi_make_mutable_treelist :: "val list \<Rightarrow> val M" where
  "bi_make_mutable_treelist args =
     bindM (creme_check_min_args (int (length args)) 1 ''make-mutable-treelist'') (\<lambda>_.
     bindM (tl_size_arg (args ! 0) ''make-mutable-treelist'') (\<lambda>n.
     bindM (fill_array n (if length args \<ge> 2 then args ! 1 else VBool False)) (\<lambda>items.
     new_mutable (rrb_from_array items))))"

definition bi_list_to_mutable_treelist :: "val list \<Rightarrow> val M" where
  "bi_list_to_mutable_treelist args =
     bindM (creme_check_min_args (int (length args)) 1 ''list->mutable-treelist'') (\<lambda>_.
     bindM (list_to_value_array (args ! 0)) (\<lambda>arr. new_mutable (rrb_from_array arr)))"

definition bi_vector_to_mutable_treelist :: "val list \<Rightarrow> val M" where
  "bi_vector_to_mutable_treelist args =
     (case args of
        VVector p # _ \<Rightarrow> bindM (derefM h_vecs p) (\<lambda>vs. new_mutable (rrb_from_array vs))
      | _ \<Rightarrow> creme_abort ''vector->mutable-treelist: expected a vector'')"

definition bi_treelist_copy :: "val list \<Rightarrow> val M" where
  "bi_treelist_copy args =
     bindM (creme_check_min_args (int (length args)) 1 ''treelist-copy'') (\<lambda>_.
     bindM (tl_arg (args ! 0) ''treelist-copy'') (\<lambda>t.
     v_mutable_treelist t))"

definition bi_mutable_treelist_copy :: "val list \<Rightarrow> val M" where
  "bi_mutable_treelist_copy args =
     bindM (creme_check_min_args (int (length args)) 1 ''mutable-treelist-copy'') (\<lambda>_.
     bindM (mtl_arg (args ! 0) ''mutable-treelist-copy'') (\<lambda>m.
     bindM (mtl_root m) (\<lambda>t.
     v_mutable_treelist t)))"

definition bi_mutable_treelist_snapshot :: "val list \<Rightarrow> val M" where
  "bi_mutable_treelist_snapshot args =
     bindM (creme_check_min_args (int (length args)) 1 ''mutable-treelist-snapshot'') (\<lambda>_.
     bindM (mtl_arg (args ! 0) ''mutable-treelist-snapshot'') (\<lambda>m.
     bindM (mtl_root m) (\<lambda>t.
     v_treelist t)))"

definition bi_mutable_treelist_to_list :: "val list \<Rightarrow> val M" where
  "bi_mutable_treelist_to_list args =
     bindM (creme_check_min_args (int (length args)) 1 ''mutable-treelist->list'') (\<lambda>_.
     bindM (mtl_arg (args ! 0) ''mutable-treelist->list'') (\<lambda>m.
     bindM (mtl_root m) (\<lambda>t.
     bindM (liftR (rrb_to_array t)) (\<lambda>arr.
     cons_list arr VNil))))"

definition bi_mutable_treelist_to_vector :: "val list \<Rightarrow> val M" where
  "bi_mutable_treelist_to_vector args =
     bindM (creme_check_min_args (int (length args)) 1 ''mutable-treelist->vector'') (\<lambda>_.
     bindM (mtl_arg (args ! 0) ''mutable-treelist->vector'') (\<lambda>m.
     bindM (mtl_root m) (\<lambda>t.
     bindM (liftR (rrb_to_array t)) (\<lambda>arr.
     new_vector arr))))"

definition bi_mutable_treelist_p :: "val list \<Rightarrow> val M" where
  "bi_mutable_treelist_p args =
     bindM (creme_check_min_args (int (length args)) 1 ''mutable-treelist?'') (\<lambda>_.
     retM (VBool (case args ! 0 of VBox k p \<Rightarrow> k = BOX_KIND_MUTABLE_TREELIST | _ \<Rightarrow> False)))"

definition bi_mutable_treelist_empty_p :: "val list \<Rightarrow> val M" where
  "bi_mutable_treelist_empty_p args =
     bindM (creme_check_min_args (int (length args)) 1 ''mutable-treelist-empty?'') (\<lambda>_.
     bindM (mtl_arg (args ! 0) ''mutable-treelist-empty?'') (\<lambda>m.
     bindM (mtl_root m) (\<lambda>t.
     retM (VBool (node_size t = 0)))))"

definition bi_mutable_treelist_length :: "val list \<Rightarrow> val M" where
  "bi_mutable_treelist_length args =
     bindM (creme_check_min_args (int (length args)) 1 ''mutable-treelist-length'') (\<lambda>_.
     bindM (mtl_arg (args ! 0) ''mutable-treelist-length'') (\<lambda>m.
     bindM (mtl_root m) (\<lambda>t.
     retM (VInt (int (node_size t))))))"

definition bi_mutable_treelist_ref :: "val list \<Rightarrow> val M" where
  "bi_mutable_treelist_ref args =
     bindM (creme_check_min_args (int (length args)) 2 ''mutable-treelist-ref'') (\<lambda>_.
     bindM (mtl_arg (args ! 0) ''mutable-treelist-ref'') (\<lambda>m.
     bindM (mtl_root m) (\<lambda>t.
     bindM (tl_bounds (args ! 1) (node_size t) ''mutable-treelist-ref'') (\<lambda>i.
     liftR (rrb_node_ref t i)))))"

definition bi_mutable_treelist_first :: "val list \<Rightarrow> val M" where
  "bi_mutable_treelist_first args =
     bindM (creme_check_min_args (int (length args)) 1 ''mutable-treelist-first'') (\<lambda>_.
     bindM (mtl_arg (args ! 0) ''mutable-treelist-first'') (\<lambda>m.
     bindM (mtl_root m) (\<lambda>t.
     bindM (guardM (node_size t = 0) ''mutable-treelist-first: empty treelist'') (\<lambda>_.
     liftR (rrb_node_ref t 0)))))"

definition bi_mutable_treelist_last :: "val list \<Rightarrow> val M" where
  "bi_mutable_treelist_last args =
     bindM (creme_check_min_args (int (length args)) 1 ''mutable-treelist-last'') (\<lambda>_.
     bindM (mtl_arg (args ! 0) ''mutable-treelist-last'') (\<lambda>m.
     bindM (mtl_root m) (\<lambda>t.
     bindM (guardM (node_size t = 0) ''mutable-treelist-last: empty treelist'') (\<lambda>_.
     liftR (rrb_node_ref t (node_size t - 1))))))"

text \<open>\<open>m->root = ...; return v_nil();\<close>\<close>

definition replace_root :: "nat \<Rightarrow> val rrb res \<Rightarrow> val M" where
  "replace_root m r = bindM (liftR r) (\<lambda>t. bindM (set_mtl_root m t) (\<lambda>_. retM VNil))"

definition bi_mutable_treelist_add_bang :: "val list \<Rightarrow> val M" where
  "bi_mutable_treelist_add_bang args =
     bindM (creme_check_min_args (int (length args)) 2 ''mutable-treelist-add!'') (\<lambda>_.
     bindM (mtl_arg (args ! 0) ''mutable-treelist-add!'') (\<lambda>m.
     bindM (mtl_root m) (\<lambda>t.
     replace_root m (tree_add t (args ! 1)))))"

definition bi_mutable_treelist_cons_bang :: "val list \<Rightarrow> val M" where
  "bi_mutable_treelist_cons_bang args =
     bindM (creme_check_min_args (int (length args)) 2 ''mutable-treelist-cons!'') (\<lambda>_.
     bindM (mtl_arg (args ! 0) ''mutable-treelist-cons!'') (\<lambda>m.
     bindM (mtl_root m) (\<lambda>t.
     replace_root m (tree_cons t (args ! 1)))))"

definition bi_mutable_treelist_set_bang :: "val list \<Rightarrow> val M" where
  "bi_mutable_treelist_set_bang args =
     bindM (creme_check_min_args (int (length args)) 3 ''mutable-treelist-set!'') (\<lambda>_.
     bindM (mtl_arg (args ! 0) ''mutable-treelist-set!'') (\<lambda>m.
     bindM (mtl_root m) (\<lambda>t.
     bindM (tl_bounds (args ! 1) (node_size t) ''mutable-treelist-set!'') (\<lambda>i.
     replace_root m (rrb_node_set t i (args ! 2))))))"

definition bi_mutable_treelist_insert_bang :: "val list \<Rightarrow> val M" where
  "bi_mutable_treelist_insert_bang args =
     bindM (creme_check_min_args (int (length args)) 3 ''mutable-treelist-insert!'') (\<lambda>_.
     bindM (mtl_arg (args ! 0) ''mutable-treelist-insert!'') (\<lambda>m.
     bindM (mtl_root m) (\<lambda>t.
     bindM (tl_bounds_incl (args ! 1) (node_size t) ''mutable-treelist-insert!'') (\<lambda>i.
     replace_root m (tree_insert t i (args ! 2))))))"

definition bi_mutable_treelist_delete_bang :: "val list \<Rightarrow> val M" where
  "bi_mutable_treelist_delete_bang args =
     bindM (creme_check_min_args (int (length args)) 2 ''mutable-treelist-delete!'') (\<lambda>_.
     bindM (mtl_arg (args ! 0) ''mutable-treelist-delete!'') (\<lambda>m.
     bindM (mtl_root m) (\<lambda>t.
     bindM (tl_bounds (args ! 1) (node_size t) ''mutable-treelist-delete!'') (\<lambda>i.
     replace_root m (tree_delete t (int i))))))"

definition bi_mutable_treelist_append_bang :: "val list \<Rightarrow> val M" where
  "bi_mutable_treelist_append_bang args =
     bindM (creme_check_min_args (int (length args)) 2 ''mutable-treelist-append!'') (\<lambda>_.
     bindM (mtl_arg (args ! 0) ''mutable-treelist-append!'') (\<lambda>m.
     bindM (mtl_root m) (\<lambda>t.
     bindM (any_tree_arg (args ! 1) ''mutable-treelist-append!'') (\<lambda>u.
     replace_root m (tree_concat t u)))))"

definition bi_mutable_treelist_prepend_bang :: "val list \<Rightarrow> val M" where
  "bi_mutable_treelist_prepend_bang args =
     bindM (creme_check_min_args (int (length args)) 2 ''mutable-treelist-prepend!'') (\<lambda>_.
     bindM (mtl_arg (args ! 0) ''mutable-treelist-prepend!'') (\<lambda>m.
     bindM (mtl_root m) (\<lambda>t.
     bindM (any_tree_arg (args ! 1) ''mutable-treelist-prepend!'') (\<lambda>u.
     replace_root m (tree_concat u t)))))"

definition bi_mutable_treelist_take_bang :: "val list \<Rightarrow> val M" where
  "bi_mutable_treelist_take_bang args =
     bindM (creme_check_min_args (int (length args)) 2 ''mutable-treelist-take!'') (\<lambda>_.
     bindM (mtl_arg (args ! 0) ''mutable-treelist-take!'') (\<lambda>m.
     bindM (mtl_root m) (\<lambda>t.
     bindM (tl_count (args ! 1) (node_size t) ''mutable-treelist-take!'') (\<lambda>n.
     replace_root m (tree_take t n)))))"

definition bi_mutable_treelist_drop_bang :: "val list \<Rightarrow> val M" where
  "bi_mutable_treelist_drop_bang args =
     bindM (creme_check_min_args (int (length args)) 2 ''mutable-treelist-drop!'') (\<lambda>_.
     bindM (mtl_arg (args ! 0) ''mutable-treelist-drop!'') (\<lambda>m.
     bindM (mtl_root m) (\<lambda>t.
     bindM (tl_count (args ! 1) (node_size t) ''mutable-treelist-drop!'') (\<lambda>n.
     replace_root m (tree_drop t n)))))"

definition bi_mutable_treelist_take_right_bang :: "val list \<Rightarrow> val M" where
  "bi_mutable_treelist_take_right_bang args =
     bindM (creme_check_min_args (int (length args)) 2 ''mutable-treelist-take-right!'') (\<lambda>_.
     bindM (mtl_arg (args ! 0) ''mutable-treelist-take-right!'') (\<lambda>m.
     bindM (mtl_root m) (\<lambda>t.
     bindM (tl_count (args ! 1) (node_size t) ''mutable-treelist-take-right!'') (\<lambda>n.
     replace_root m (tree_drop t (int (node_size t) - n))))))"

definition bi_mutable_treelist_drop_right_bang :: "val list \<Rightarrow> val M" where
  "bi_mutable_treelist_drop_right_bang args =
     bindM (creme_check_min_args (int (length args)) 2 ''mutable-treelist-drop-right!'') (\<lambda>_.
     bindM (mtl_arg (args ! 0) ''mutable-treelist-drop-right!'') (\<lambda>m.
     bindM (mtl_root m) (\<lambda>t.
     bindM (tl_count (args ! 1) (node_size t) ''mutable-treelist-drop-right!'') (\<lambda>n.
     replace_root m (tree_take t (int (node_size t) - n))))))"

definition bi_mutable_treelist_sublist_bang :: "val list \<Rightarrow> val M" where
  "bi_mutable_treelist_sublist_bang args =
     bindM (creme_check_min_args (int (length args)) 3 ''mutable-treelist-sublist!'') (\<lambda>_.
     bindM (mtl_arg (args ! 0) ''mutable-treelist-sublist!'') (\<lambda>m.
     bindM (mtl_root m) (\<lambda>t.
     bindM (tl_count (args ! 1) (node_size t) ''mutable-treelist-sublist!'') (\<lambda>from.
     bindM (tl_count (args ! 2) (node_size t) ''mutable-treelist-sublist!'') (\<lambda>to.
     bindM (guardM (from > to) ''mutable-treelist-sublist!: bad range'') (\<lambda>_.
     replace_root m (tree_sublist t from to)))))))"

definition bi_mutable_treelist_reverse_bang :: "val list \<Rightarrow> val M" where
  "bi_mutable_treelist_reverse_bang args =
     bindM (creme_check_min_args (int (length args)) 1 ''mutable-treelist-reverse!'') (\<lambda>_.
     bindM (mtl_arg (args ! 0) ''mutable-treelist-reverse!'') (\<lambda>m.
     bindM (mtl_root m) (\<lambda>t.
     replace_root m (tree_reverse t))))"

definition bi_mutable_treelist_map_bang :: "(val \<Rightarrow> val list \<Rightarrow> val M) \<Rightarrow> val list \<Rightarrow> val M" where
  "bi_mutable_treelist_map_bang ap args =
     bindM (creme_check_min_args (int (length args)) 2 ''mutable-treelist-map!'') (\<lambda>_.
     bindM (mtl_arg (args ! 0) ''mutable-treelist-map!'') (\<lambda>m.
     bindM (mtl_root m) (\<lambda>t.
     bindM (liftR (rrb_to_array t)) (\<lambda>arr.
     bindM (mapM (\<lambda>x. ap (args ! 1) [x]) arr) (\<lambda>mapped.
     replace_root m (rrb_from_array mapped))))))"

text \<open>\<open>mutable-treelist-sort!\<close> loads as many elements as the root has after the comparisons: an
  array shorter than that is read past its end.\<close>

definition bi_mutable_treelist_sort_bang :: "(val \<Rightarrow> val list \<Rightarrow> val M) \<Rightarrow> val list \<Rightarrow> val M" where
  "bi_mutable_treelist_sort_bang ap args =
     bindM (creme_check_min_args (int (length args)) 2 ''mutable-treelist-sort!'') (\<lambda>_.
     bindM (mtl_arg (args ! 0) ''mutable-treelist-sort!'') (\<lambda>m.
     bindM (mtl_root m) (\<lambda>t.
     bindM (liftR (rrb_to_array t)) (\<lambda>arr.
     bindM (tl_insertion_sort ap arr (args ! 1)) (\<lambda>arr'.
     bindM (mtl_root m) (\<lambda>t'.
     if node_size t' \<le> length arr' then replace_root m (rrb_from_array (take (node_size t') arr')) else stuckM))))))"

definition bi_mutable_treelist_for_each :: "(val \<Rightarrow> val list \<Rightarrow> val M) \<Rightarrow> val list \<Rightarrow> val M" where
  "bi_mutable_treelist_for_each ap args =
     bindM (creme_check_min_args (int (length args)) 2 ''mutable-treelist-for-each'') (\<lambda>_.
     bindM (mtl_arg (args ! 0) ''mutable-treelist-for-each'') (\<lambda>m.
     bindM (mtl_root m) (\<lambda>t.
     bindM (liftR (rrb_to_array t)) (\<lambda>arr.
     bindM (forM arr (\<lambda>x. bindM (ap (args ! 1) [x]) (\<lambda>_. retM ()))) (\<lambda>_.
     retM VNil)))))"

definition bi_mutable_treelist_member_p :: "arith \<Rightarrow> (val \<Rightarrow> val list \<Rightarrow> val M) \<Rightarrow> val list \<Rightarrow> val M" where
  "bi_mutable_treelist_member_p A ap args =
     bindM (creme_check_min_args (int (length args)) 2 ''mutable-treelist-member?'') (\<lambda>_.
     bindM (mtl_arg (args ! 0) ''mutable-treelist-member?'') (\<lambda>m.
     bindM (mtl_root m) (\<lambda>t.
     bindM (find_index A ap t (args ! 1) (tl_eql args)) (\<lambda>i.
     retM (VBool (i \<noteq> None))))))"

definition bi_mutable_treelist_find :: "(val \<Rightarrow> val list \<Rightarrow> val M) \<Rightarrow> val list \<Rightarrow> val M" where
  "bi_mutable_treelist_find ap args =
     bindM (creme_check_min_args (int (length args)) 2 ''mutable-treelist-find'') (\<lambda>_.
     bindM (mtl_arg (args ! 0) ''mutable-treelist-find'') (\<lambda>m.
     bindM (mtl_root m) (\<lambda>t.
     bindM (liftR (rrb_to_array t)) (\<lambda>arr.
     find_first (\<lambda>x. ap (args ! 1) [x]) arr))))"

subsection \<open>The tables\<close>

definition treelist_builtin :: "bytes \<Rightarrow> (val list \<Rightarrow> val M) option" where
  "treelist_builtin = map_of
    [(''bi_treelist'', bi_treelist), (''bi_make_treelist'', bi_make_treelist),
     (''bi_list_to_treelist'', bi_list_to_treelist), (''bi_treelist_to_list'', bi_treelist_to_list),
     (''bi_vector_to_treelist'', bi_vector_to_treelist), (''bi_treelist_to_vector'', bi_treelist_to_vector),
     (''bi_treelist_p'', bi_treelist_p), (''bi_treelist_empty_p'', bi_treelist_empty_p),
     (''bi_treelist_length'', bi_treelist_length), (''bi_treelist_ref'', bi_treelist_ref),
     (''bi_treelist_first'', bi_treelist_first), (''bi_treelist_last'', bi_treelist_last),
     (''bi_treelist_add'', bi_treelist_add), (''bi_treelist_cons'', bi_treelist_cons),
     (''bi_treelist_set'', bi_treelist_set), (''bi_treelist_insert'', bi_treelist_insert),
     (''bi_treelist_delete'', bi_treelist_delete), (''bi_treelist_take'', bi_treelist_take),
     (''bi_treelist_drop'', bi_treelist_drop), (''bi_treelist_take_right'', bi_treelist_take_right),
     (''bi_treelist_drop_right'', bi_treelist_drop_right), (''bi_treelist_sublist'', bi_treelist_sublist),
     (''bi_treelist_rest'', bi_treelist_rest), (''bi_treelist_append'', bi_treelist_append),
     (''bi_treelist_reverse'', bi_treelist_reverse), (''bi_mutable_treelist'', bi_mutable_treelist),
     (''bi_make_mutable_treelist'', bi_make_mutable_treelist),
     (''bi_list_to_mutable_treelist'', bi_list_to_mutable_treelist),
     (''bi_vector_to_mutable_treelist'', bi_vector_to_mutable_treelist), (''bi_treelist_copy'', bi_treelist_copy),
     (''bi_mutable_treelist_copy'', bi_mutable_treelist_copy),
     (''bi_mutable_treelist_snapshot'', bi_mutable_treelist_snapshot),
     (''bi_mutable_treelist_to_list'', bi_mutable_treelist_to_list),
     (''bi_mutable_treelist_to_vector'', bi_mutable_treelist_to_vector),
     (''bi_mutable_treelist_p'', bi_mutable_treelist_p),
     (''bi_mutable_treelist_empty_p'', bi_mutable_treelist_empty_p),
     (''bi_mutable_treelist_length'', bi_mutable_treelist_length),
     (''bi_mutable_treelist_ref'', bi_mutable_treelist_ref),
     (''bi_mutable_treelist_first'', bi_mutable_treelist_first),
     (''bi_mutable_treelist_last'', bi_mutable_treelist_last),
     (''bi_mutable_treelist_add_bang'', bi_mutable_treelist_add_bang),
     (''bi_mutable_treelist_cons_bang'', bi_mutable_treelist_cons_bang),
     (''bi_mutable_treelist_set_bang'', bi_mutable_treelist_set_bang),
     (''bi_mutable_treelist_insert_bang'', bi_mutable_treelist_insert_bang),
     (''bi_mutable_treelist_delete_bang'', bi_mutable_treelist_delete_bang),
     (''bi_mutable_treelist_append_bang'', bi_mutable_treelist_append_bang),
     (''bi_mutable_treelist_prepend_bang'', bi_mutable_treelist_prepend_bang),
     (''bi_mutable_treelist_take_bang'', bi_mutable_treelist_take_bang),
     (''bi_mutable_treelist_drop_bang'', bi_mutable_treelist_drop_bang),
     (''bi_mutable_treelist_take_right_bang'', bi_mutable_treelist_take_right_bang),
     (''bi_mutable_treelist_drop_right_bang'', bi_mutable_treelist_drop_right_bang),
     (''bi_mutable_treelist_sublist_bang'', bi_mutable_treelist_sublist_bang),
     (''bi_mutable_treelist_reverse_bang'', bi_mutable_treelist_reverse_bang)]"

definition treelist_calling_builtin :: "arith \<Rightarrow> (val \<Rightarrow> val list \<Rightarrow> val M) \<Rightarrow> bytes \<Rightarrow> (val list \<Rightarrow> val M) option" where
  "treelist_calling_builtin A ap = map_of
    [(''bi_treelist_map'', bi_treelist_map ap), (''bi_treelist_filter'', bi_treelist_filter ap),
     (''bi_treelist_for_each'', bi_treelist_for_each ap), (''bi_treelist_sort'', bi_treelist_sort ap),
     (''bi_treelist_member_p'', bi_treelist_member_p A ap), (''bi_treelist_index_of'', bi_treelist_index_of A ap),
     (''bi_treelist_find'', bi_treelist_find ap),
     (''bi_mutable_treelist_map_bang'', bi_mutable_treelist_map_bang ap),
     (''bi_mutable_treelist_sort_bang'', bi_mutable_treelist_sort_bang ap),
     (''bi_mutable_treelist_for_each'', bi_mutable_treelist_for_each ap),
     (''bi_mutable_treelist_member_p'', bi_mutable_treelist_member_p A ap),
     (''bi_mutable_treelist_find'', bi_mutable_treelist_find ap)]"

end
