(* ===== verification/OS_Calls.thy ===== *)
theory OS_Calls
  imports VM_Monad
begin

text \<open>
  The calls of the operating system and of OpenSSL that icecreme/actor.c makes, a parameter of the model.  What the outside world
  answers may differ from one call to the next, so an answer depends on the number of calls made before.  A connection to
  a peer is the bytes the peer will ever send on it; a peer that has sent them all has closed it.
\<close>

datatype connect_result = ConnNoHost | ConnNoSocket | ConnRefused | Connected bytes

datatype listen_result = ListenNoHost | ListenNoSocket | ListenNoBind | ListenFailed | Listening int

record os =
  os_thread :: "nat \<Rightarrow> bool"
  os_random :: "nat \<Rightarrow> bytes option"
  os_connect :: "nat \<Rightarrow> actor_addr \<Rightarrow> connect_result"
  os_write :: "nat \<Rightarrow> bool"
  os_listen :: "nat \<Rightarrow> actor_addr \<Rightarrow> listen_result"
  os_hmac :: "bytes \<Rightarrow> bytes \<Rightarrow> bytes"

definition os_call :: "(nat \<Rightarrow> 'a) \<Rightarrow> 'a M" where
  "os_call f = (\<lambda>s. Done (f (h_os_calls s)) (s\<lparr>h_os_calls := Suc (h_os_calls s)\<rparr>))"

lemma os_call_run [simp, run_simps]:
  "os_call f s = Done (f (h_os_calls s)) (s\<lparr>h_os_calls := Suc (h_os_calls s)\<rparr>)"
  by (simp add: os_call_def)

text \<open>The nonces and the digests have 32 bytes.\<close>

locale os_spec =
  fixes OS :: os
  assumes random_length: "os_random OS n = Some b \<Longrightarrow> length b = 32"
    and hmac_length: "length (os_hmac OS key msg) = 32"

text \<open>An instance in which every call succeeds.  The digest is a sum of the bytes.\<close>

definition reference_hmac :: "bytes \<Rightarrow> bytes \<Rightarrow> bytes" where
  "reference_hmac key msg =
     replicate 32 (char_of (sum_list (map of_char key) + 3 * sum_list (map of_char msg) :: nat))"

definition reference_os :: os where
  "reference_os = \<lparr> os_thread = (\<lambda>n. True), os_random = (\<lambda>n. Some (replicate 32 (char_of (n + 7)))),
     os_connect = (\<lambda>n a. ConnRefused), os_write = (\<lambda>n. True), os_listen = (\<lambda>n a. Listening 4000), os_hmac = reference_hmac \<rparr>"

interpretation ref_os: os_spec reference_os
  by unfold_locales (auto simp: reference_os_def reference_hmac_def)

end
