(* ===== verification/Builtin_Hash.thy ===== *)
theory Builtin_Hash
  imports Embed_Args Builtin_Control OS_Calls
begin

text \<open>
  \<open>creme_hash_value\<close> (icecreme/builtins.c) and the hash tables of icecreme/hashtable.c.

  \<^item> The index map is a table of the Verstable library, which is not part of the repository; neither
    are the addresses of objects.  They are the record \<open>host\<close>: an address for every value that is
    hashed by its pointer, and the operations of the map, which take the hash and the comparison they
    are instantiated with.  \<open>host_os\<close> is for the actors.
  \<^item> A hash is a \<open>uint64_t\<close>: a \<open>64 word\<close>.  \<open>seen\<close> holds the pairs on the path from the root.  A path
    longer than the fuel repeats a vector below the same pairs, so the C recursion has no end either.
  \<^item> Every operation on the map hashes its key first; that is where a key with an endless hash shows.
\<close>

unbundle bit_operations_syntax

type_synonym idx = "(val \<times> int) list"

record host =
  obj_address :: "val \<Rightarrow> 64 word"
  idx_get :: "(val \<Rightarrow> 64 word) \<Rightarrow> (val \<Rightarrow> val \<Rightarrow> bool) \<Rightarrow> idx \<Rightarrow> val \<Rightarrow> int option"
  idx_insert :: "(val \<Rightarrow> 64 word) \<Rightarrow> (val \<Rightarrow> val \<Rightarrow> bool) \<Rightarrow> idx \<Rightarrow> val \<Rightarrow> int \<Rightarrow> idx"
  idx_erase :: "(val \<Rightarrow> 64 word) \<Rightarrow> (val \<Rightarrow> val \<Rightarrow> bool) \<Rightarrow> idx \<Rightarrow> val \<Rightarrow> idx"
  host_os :: os

text \<open>The reference host keeps the map as an association list and finds a key by its hash and the
  comparison; an object's address is its index.\<close>

fun reference_address :: "val \<Rightarrow> 64 word" where
  "reference_address (VClosure p) = word_of_nat p"
| "reference_address (VPromise p) = word_of_nat p"
| "reference_address (VBox k p) = word_of_nat p"
| "reference_address (VPair p) = word_of_nat p"
| "reference_address (VVector p) = word_of_nat p"
| "reference_address (VStr p) = word_of_nat p"
| "reference_address (VBytevector p) = word_of_nat p"
| "reference_address v = 0"

definition reference_host :: host where
  "reference_host = \<lparr> obj_address = reference_address,
     idx_get = (\<lambda>h eq m k. map_option snd (find (\<lambda>e. h (fst e) = h k \<and> eq (fst e) k) m)),
     idx_insert = (\<lambda>h eq m k v. (k, v) # filter (\<lambda>e. \<not> (h (fst e) = h k \<and> eq (fst e) k)) m),
     idx_erase = (\<lambda>h eq m k. filter (\<lambda>e. \<not> (h (fst e) = h k \<and> eq (fst e) k)) m), host_os = reference_os \<rparr>"

subsection \<open>Hashing\<close>

definition hash_combine :: "64 word \<Rightarrow> 64 word \<Rightarrow> 64 word" where
  "hash_combine h x = h XOR (x + 0x9e3779b97f4a7c15 + push_bit 6 h + drop_bit 2 h)"

definition fnv1a :: "bytes \<Rightarrow> 64 word" where
  "fnv1a bs = fold (\<lambda>c h. (h XOR of_char c) * 1099511628211) bs 14695981039346656037"

definition tag_salt :: "val \<Rightarrow> 64 word" where
  "tag_salt v = (word_of_int (tag_of v) + 1) * 0x2545f4914f6cdd1d"

primrec hash_items :: "(val \<Rightarrow> 64 word M) \<Rightarrow> 64 word \<Rightarrow> val list \<Rightarrow> 64 word M" where
  "hash_items f h [] = retM h"
| "hash_items f h (v # vs) = bindM (f v) (\<lambda>x. hash_items f (hash_combine h x) vs)"

primrec creme_hash_value_rec :: "nat \<Rightarrow> arith \<Rightarrow> host \<Rightarrow> val \<Rightarrow> nat list \<Rightarrow> 64 word M" where
  "creme_hash_value_rec 0 A H v seen = (\<lambda>s. Timeout)"
| "creme_hash_value_rec (Suc n) A H v seen =
     (let salt = tag_salt v; ret = (\<lambda>h. retM (salt XOR h)) in
      case v of
        VNil \<Rightarrow> ret 0
      | VBool b \<Rightarrow> ret (if b then 1 else 0)
      | VInt i \<Rightarrow> ret (word_of_int i)
      | VChar c \<Rightarrow> ret (word_of_int c)
      | VFloat w \<Rightarrow> ret w
      | VStr p \<Rightarrow> bindM (derefM h_strs p) (\<lambda>bs. ret (fnv1a bs))
      | VSym bs \<Rightarrow> ret (fnv1a bs)
      | VPair p \<Rightarrow>
          if p \<in> set seen then retM salt
          else bindM (derefM h_pairs p) (\<lambda>c.
            bindM (creme_hash_value_rec n A H (fst c) (p # seen)) (\<lambda>x.
            bindM (creme_hash_value_rec n A H (snd c) (p # seen)) (\<lambda>y. ret (hash_combine x y))))
      | VVector p \<Rightarrow> bindM (derefM h_vecs p) (\<lambda>vs.
          bindM (hash_items (\<lambda>x. creme_hash_value_rec n A H x seen) (word_of_nat (length vs)) vs) ret)
      | VBytevector p \<Rightarrow> bindM (derefM h_bvs p) (\<lambda>bs. ret (fnv1a bs))
      | VBigint z \<Rightarrow> ret (fnv1a (mpz_get_str A z))
      | VRational num den \<Rightarrow> ret (hash_combine (fnv1a (mpz_get_str A num)) (fnv1a (mpz_get_str A den)))
      | VComplex re im \<Rightarrow>
          bindM (creme_hash_value_rec n A H re seen) (\<lambda>x.
          bindM (creme_hash_value_rec n A H im seen) (\<lambda>y. ret (hash_combine x y)))
      | _ \<Rightarrow> ret (obj_address H v))"

definition hash_fuel :: "vm \<Rightarrow> nat" where
  "hash_fuel s = (length (h_pairs s) + 1) * (length (h_vecs s) + 2) + 2"

definition creme_hash_value :: "arith \<Rightarrow> host \<Rightarrow> val \<Rightarrow> 64 word M" where
  "creme_hash_value A H v = (\<lambda>s. creme_hash_value_rec (hash_fuel s) A H v [] s)"

subsection \<open>The index map\<close>

text \<open>The hash and the comparison the map calls back, in the current heap.\<close>

definition heap_hash :: "arith \<Rightarrow> host \<Rightarrow> vm \<Rightarrow> val \<Rightarrow> 64 word" where
  "heap_hash A H s v = (case creme_hash_value A H v s of Done h _ \<Rightarrow> h | _ \<Rightarrow> 0)"

definition creme_ht_cmpr :: "arith \<Rightarrow> vm \<Rightarrow> val \<Rightarrow> val \<Rightarrow> bool" where
  "creme_ht_cmpr A s a b = (case creme_equal A a b s of Done r _ \<Rightarrow> r | _ \<Rightarrow> False)"

definition creme_ht_idx_get :: "arith \<Rightarrow> host \<Rightarrow> idx \<Rightarrow> val \<Rightarrow> int option M" where
  "creme_ht_idx_get A H m k =
     bindM (creme_hash_value A H k) (\<lambda>_. getM (\<lambda>s. idx_get H (heap_hash A H s) (creme_ht_cmpr A s) m k))"

definition creme_ht_idx_insert :: "arith \<Rightarrow> host \<Rightarrow> idx \<Rightarrow> val \<Rightarrow> int \<Rightarrow> idx M" where
  "creme_ht_idx_insert A H m k v =
     bindM (creme_hash_value A H k) (\<lambda>_. getM (\<lambda>s. idx_insert H (heap_hash A H s) (creme_ht_cmpr A s) m k v))"

definition creme_ht_idx_erase :: "arith \<Rightarrow> host \<Rightarrow> idx \<Rightarrow> val \<Rightarrow> idx M" where
  "creme_ht_idx_erase A H m k =
     bindM (creme_hash_value A H k) (\<lambda>_. getM (\<lambda>s. idx_erase H (heap_hash A H s) (creme_ht_cmpr A s) m k))"

subsection \<open>The tables\<close>

definition ht_at :: "nat \<Rightarrow> hash_table M" where
  "ht_at p = bindM (derefM h_boxes p) (\<lambda>b. case b of BoxHashTable t \<Rightarrow> retM t | _ \<Rightarrow> stuckM)"

definition as_hash_table :: "val \<Rightarrow> bytes \<Rightarrow> nat M" where
  "as_hash_table v who = creme_arg_box [v] 0 BOX_KIND_HASHTABLE who"

definition bi_make_hash_table :: "val list \<Rightarrow> val M" where
  "bi_make_hash_table args =
     v_box (BoxHashTable \<lparr> ht_map = [], ht_slots = [], ht_cap_values = 0, ht_n_live = 0 \<rparr>) BOX_KIND_HASHTABLE"

definition bi_hash_table_p :: "val list \<Rightarrow> val M" where
  "bi_hash_table_p args =
     bindM (creme_check_min_args (int (length args)) 1 ''hash-table?'') (\<lambda>_.
     retM (VBool (case args ! 0 of VBox k p \<Rightarrow> k = BOX_KIND_HASHTABLE | _ \<Rightarrow> False)))"

text \<open>The slots whose key the map sends back to them, from slot number \<open>i\<close> on, in order.\<close>

primrec live_slots :: "arith \<Rightarrow> host \<Rightarrow> idx \<Rightarrow> int \<Rightarrow> (val \<times> val) list \<Rightarrow> (val \<times> val) list M" where
  "live_slots A H m i [] = retM []"
| "live_slots A H m i (kv # kvs) =
     bindM (creme_ht_idx_get A H m (fst kv)) (\<lambda>r.
     bindM (live_slots A H m (i + 1) kvs) (\<lambda>rest.
     retM (if r = Some (i + 1) then kv # rest else rest)))"

primrec repoint :: "arith \<Rightarrow> host \<Rightarrow> idx \<Rightarrow> int \<Rightarrow> (val \<times> val) list \<Rightarrow> idx M" where
  "repoint A H m i [] = retM m"
| "repoint A H m i (kv # kvs) =
     bindM (creme_ht_idx_insert A H m (fst kv) (i + 1)) (\<lambda>m'. repoint A H m' (i + 1) kvs)"

text \<open>The new arrays have room for \<open>n_live\<close> entries; more live slots than that would be written past
  their end.\<close>

definition ht_compact :: "arith \<Rightarrow> host \<Rightarrow> hash_table \<Rightarrow> hash_table M" where
  "ht_compact A H ht =
     bindM (live_slots A H (ht_map ht) 0 (ht_slots ht)) (\<lambda>kvs.
     if int (length kvs) > ht_n_live ht then stuckM
     else bindM (repoint A H (ht_map ht) 0 kvs) (\<lambda>m.
       retM \<lparr> ht_map = m, ht_slots = kvs, ht_cap_values = nat (ht_n_live ht), ht_n_live = int (length kvs) \<rparr>))"

definition ht_maybe_compact :: "arith \<Rightarrow> host \<Rightarrow> hash_table \<Rightarrow> hash_table M" where
  "ht_maybe_compact A H ht =
     (if length (ht_slots ht) \<ge> 16 \<and> int (length (ht_slots ht)) \<ge> 2 * ht_n_live ht
      then ht_compact A H ht else retM ht)"

text \<open>The capacity after the test for a full array.\<close>

definition grown_cap :: "hash_table \<Rightarrow> nat M" where
  "grown_cap ht =
     (if length (ht_slots ht) \<ge> ht_cap_values ht then
        let c = (if ht_cap_values ht \<noteq> 0 then ht_cap_values ht * 2 else 8) in
        bindM (guardM (int c > INT_MAX) ''hash-table-set!: table too large'') (\<lambda>_. retM c)
      else retM (ht_cap_values ht))"

text \<open>The box is written back as soon as the C code has written to the struct.\<close>

definition bi_hash_table_set :: "arith \<Rightarrow> host \<Rightarrow> val list \<Rightarrow> val M" where
  "bi_hash_table_set A H args =
     bindM (creme_check_min_args (int (length args)) 3 ''hash-table-set!'') (\<lambda>_.
     bindM (as_hash_table (args ! 0) ''hash-table-set!'') (\<lambda>p.
     bindM (ht_at p) (\<lambda>ht0.
     bindM (ht_maybe_compact A H ht0) (\<lambda>ht.
     bindM (set_box p (BoxHashTable ht)) (\<lambda>_.
     bindM (creme_ht_idx_get A H (ht_map ht) (args ! 1)) (\<lambda>r.
     bindM (grown_cap ht) (\<lambda>c.
     let slots = ht_slots ht @ [(args ! 1, args ! 2)] in
     bindM (creme_ht_idx_insert A H (ht_map ht) (args ! 1) (int (length slots))) (\<lambda>m.
     bindM (set_box p (BoxHashTable \<lparr> ht_map = m, ht_slots = slots, ht_cap_values = c,
       ht_n_live = (if r = None then ht_n_live ht + 1 else ht_n_live ht) \<rparr>)) (\<lambda>_.
     retM VNil)))))))))"

definition hash_table_lookup :: "arith \<Rightarrow> host \<Rightarrow> hash_table \<Rightarrow> val \<Rightarrow> val option M" where
  "hash_table_lookup A H ht key =
     bindM (creme_ht_idx_get A H (ht_map ht) key) (\<lambda>r.
     case r of
       None \<Rightarrow> retM None
     | Some i \<Rightarrow> bindM (indexM (ht_slots ht) (i - 1)) (\<lambda>kv. retM (Some (snd kv))))"

definition bi_hash_table_contains_p :: "arith \<Rightarrow> host \<Rightarrow> val list \<Rightarrow> val M" where
  "bi_hash_table_contains_p A H args =
     bindM (creme_check_min_args (int (length args)) 2 ''hash-table-contains?'') (\<lambda>_.
     bindM (as_hash_table (args ! 0) ''hash-table-contains?'') (\<lambda>p.
     bindM (ht_at p) (\<lambda>ht.
     bindM (hash_table_lookup A H ht (args ! 1)) (\<lambda>r. retM (VBool (r \<noteq> None))))))"

text \<open>A default that is a closure or a builtin is called, any other value returned.\<close>

definition bi_hash_table_ref :: "arith \<Rightarrow> host \<Rightarrow> (val \<Rightarrow> val list \<Rightarrow> val M) \<Rightarrow> val list \<Rightarrow> val M" where
  "bi_hash_table_ref A H ap args =
     bindM (creme_check_min_args (int (length args)) 2 ''hash-table-ref'') (\<lambda>_.
     bindM (as_hash_table (args ! 0) ''hash-table-ref'') (\<lambda>p.
     bindM (ht_at p) (\<lambda>ht.
     bindM (hash_table_lookup A H ht (args ! 1)) (\<lambda>r.
     case r of
       Some v \<Rightarrow> retM v
     | None \<Rightarrow>
         if length args \<ge> 3
         then (if tag_of (args ! 2) \<in> {13, 18} then ap (args ! 2) [] else retM (args ! 2))
         else creme_abort ''hash-table-ref: key not found and no default given''))))"

text \<open>\<open>collect_live\<close>: the entry pairs of an alist are consed while the slots are walked.\<close>

datatype collect_kind = COLLECT_KEYS | COLLECT_VALUES | COLLECT_ALIST

fun collect_item :: "collect_kind \<Rightarrow> val \<times> val \<Rightarrow> val M" where
  "collect_item COLLECT_KEYS kv = retM (fst kv)"
| "collect_item COLLECT_VALUES kv = retM (snd kv)"
| "collect_item COLLECT_ALIST kv = creme_cons (fst kv) (snd kv)"

primrec collect_slots :: "arith \<Rightarrow> host \<Rightarrow> collect_kind \<Rightarrow> idx \<Rightarrow> int \<Rightarrow> (val \<times> val) list \<Rightarrow> val list M" where
  "collect_slots A H kind m i [] = retM []"
| "collect_slots A H kind m i (kv # kvs) =
     bindM (creme_ht_idx_get A H m (fst kv)) (\<lambda>r.
     if r = Some (i + 1)
     then bindM (collect_item kind kv) (\<lambda>v. bindM (collect_slots A H kind m (i + 1) kvs) (\<lambda>vs. retM (v # vs)))
     else collect_slots A H kind m (i + 1) kvs)"

definition collect_live :: "arith \<Rightarrow> host \<Rightarrow> hash_table \<Rightarrow> collect_kind \<Rightarrow> val M" where
  "collect_live A H ht kind =
     bindM (collect_slots A H kind (ht_map ht) 0 (ht_slots ht)) (\<lambda>vs. cons_list vs VNil)"

definition bi_hash_table_keys :: "arith \<Rightarrow> host \<Rightarrow> val list \<Rightarrow> val M" where
  "bi_hash_table_keys A H args =
     bindM (creme_check_min_args (int (length args)) 1 ''hash-table-keys'') (\<lambda>_.
     bindM (as_hash_table (args ! 0) ''hash-table-keys'') (\<lambda>p.
     bindM (ht_at p) (\<lambda>ht. collect_live A H ht COLLECT_KEYS)))"

definition bi_hash_table_values :: "arith \<Rightarrow> host \<Rightarrow> val list \<Rightarrow> val M" where
  "bi_hash_table_values A H args =
     bindM (creme_check_min_args (int (length args)) 1 ''hash-table-values'') (\<lambda>_.
     bindM (as_hash_table (args ! 0) ''hash-table-values'') (\<lambda>p.
     bindM (ht_at p) (\<lambda>ht. collect_live A H ht COLLECT_VALUES)))"

definition bi_hash_table_to_alist :: "arith \<Rightarrow> host \<Rightarrow> val list \<Rightarrow> val M" where
  "bi_hash_table_to_alist A H args =
     bindM (creme_check_min_args (int (length args)) 1 ''hash-table->alist'') (\<lambda>_.
     bindM (as_hash_table (args ! 0) ''hash-table->alist'') (\<lambda>p.
     bindM (ht_at p) (\<lambda>ht. collect_live A H ht COLLECT_ALIST)))"

definition bi_hash_table_delete :: "arith \<Rightarrow> host \<Rightarrow> val list \<Rightarrow> val M" where
  "bi_hash_table_delete A H args =
     bindM (creme_check_min_args (int (length args)) 2 ''hash-table-delete!'') (\<lambda>_.
     bindM (as_hash_table (args ! 0) ''hash-table-delete!'') (\<lambda>p.
     bindM (ht_at p) (\<lambda>ht.
     bindM (creme_ht_idx_get A H (ht_map ht) (args ! 1)) (\<lambda>r.
     if r = None then retM VNil
     else
       bindM (creme_ht_idx_erase A H (ht_map ht) (args ! 1)) (\<lambda>m.
       bindM (ht_maybe_compact A H (ht\<lparr>ht_map := m, ht_n_live := ht_n_live ht - 1\<rparr>)) (\<lambda>ht'.
       bindM (set_box p (BoxHashTable ht')) (\<lambda>_. retM VNil)))))))"

text \<open>The payload word of the value: an integer or character itself, otherwise its bits.  A symbol is its
  bytes here and has no address; the result for one is not modelled.\<close>

definition bi_eq_hash :: "host \<Rightarrow> val list \<Rightarrow> val M" where
  "bi_eq_hash H args =
     bindM (creme_check_exact_args (int (length args)) 1 ''eq-hash'') (\<lambda>_.
     case args ! 0 of
       VInt i \<Rightarrow> retM (VInt i)
     | VChar c \<Rightarrow> retM (VInt c)
     | VFloat w \<Rightarrow> retM (VInt (sint w))
     | VSym bs \<Rightarrow> stuckM
     | v \<Rightarrow> retM (VInt (sint (obj_address H v))))"

definition hash_builtin :: "arith \<Rightarrow> host \<Rightarrow> bytes \<Rightarrow> (val list \<Rightarrow> val M) option" where
  "hash_builtin A H = map_of
    [(''bi_eq_hash'', bi_eq_hash H), (''bi_make_hash_table'', bi_make_hash_table),
     (''bi_hash_table_p'', bi_hash_table_p), (''bi_hash_table_set'', bi_hash_table_set A H),
     (''bi_hash_table_contains_p'', bi_hash_table_contains_p A H),
     (''bi_hash_table_delete'', bi_hash_table_delete A H), (''bi_hash_table_keys'', bi_hash_table_keys A H),
     (''bi_hash_table_values'', bi_hash_table_values A H), (''bi_hash_table_to_alist'', bi_hash_table_to_alist A H)]"

definition hash_calling_builtin :: "arith \<Rightarrow> host \<Rightarrow> (val \<Rightarrow> val list \<Rightarrow> val M) \<Rightarrow> bytes \<Rightarrow> (val list \<Rightarrow> val M) option" where
  "hash_calling_builtin A H ap = map_of [(''bi_hash_table_ref'', bi_hash_table_ref A H ap)]"

end
