(* ===== verification/Ports.thy ===== *)
theory Ports
  imports Builtin_Errors Embed_Args
begin

text \<open>
  Ports (icecreme/builtins.c).  A \<open>FILE *\<close> stream is its contents (\<open>po_buf\<close>): what has been written, or the whole input
  and the position in it, so the branches of the code that go through stdio and the ones that go through a
  buffer do the same to it.  Using a stream after \<open>fclose\<close> is \<open>Stuck\<close>, and so are the filter ports,
  whose transformation is the zstd library.  Opening files is not modelled.
\<close>

definition creme_arg_port :: "val list \<Rightarrow> nat \<Rightarrow> bytes \<Rightarrow> nat M" where
  "creme_arg_port args i who =
     bindM (arg_present args i who) (\<lambda>_.
     case args ! i of VPort p \<Rightarrow> retM p | _ \<Rightarrow> arg_abort i who ''expected a port'')"

definition creme_arg_char :: "val list \<Rightarrow> nat \<Rightarrow> bytes \<Rightarrow> int M" where
  "creme_arg_char args i who =
     bindM (arg_present args i who) (\<lambda>_.
     case args ! i of VChar c \<Rightarrow> retM c | _ \<Rightarrow> arg_abort i who ''expected a char'')"

definition new_port :: "port \<Rightarrow> val M" where
  "new_port po = (\<lambda>s. Done (VPort (length (h_ports s))) (s\<lparr>h_ports := h_ports s @ [po]\<rparr>))"

definition set_port :: "nat \<Rightarrow> port \<Rightarrow> unit M" where
  "set_port p po = modM (\<lambda>s. s\<lparr>h_ports := (h_ports s)[p := po]\<rparr>)"

text \<open>The macros \<open>g_current_output_port\<close> and \<open>g_current_input_port\<close> take the pointer out of the parameter's value
  whatever that value is.\<close>

definition param_port :: "nat option \<Rightarrow> nat M" where
  "param_port pa =
     (case pa of
        None \<Rightarrow> stuckM
      | Some a \<Rightarrow> bindM (derefM h_parameters a) (\<lambda>pm. case pm_value pm of VPort p \<Rightarrow> retM p | _ \<Rightarrow> stuckM))"

definition g_current_output_port :: "nat M" where
  "g_current_output_port = bindM (getM vm_current_output_param) param_port"

definition g_current_input_port :: "nat M" where
  "g_current_input_port = bindM (getM vm_current_input_param) param_port"

subsection \<open>Output\<close>

text \<open>The capacity starts at 64 and doubles, so it cannot go beyond \<open>2 ^ 30\<close>.\<close>

definition port_buf_grow :: "bytes \<Rightarrow> bytes \<Rightarrow> unit M" where
  "port_buf_grow buf extra = guardM (int (length buf + length extra) > 2 ^ 30) ''port buffer too large''"

definition put_bytes :: "nat \<Rightarrow> bytes \<Rightarrow> bytes \<Rightarrow> unit M" where
  "put_bytes p bs wrong =
     bindM (derefM h_ports p) (\<lambda>po.
     case po_kind po of
       PORT_KIND_FILTER \<Rightarrow> stuckM
     | PORT_KIND_STDOUT \<Rightarrow> set_port p (po\<lparr>po_buf := po_buf po @ bs\<rparr>)
     | PORT_KIND_OUTPUT_FILE \<Rightarrow> if po_closed po then stuckM else set_port p (po\<lparr>po_buf := po_buf po @ bs\<rparr>)
     | PORT_KIND_OUTPUT_STRING \<Rightarrow> bindM (port_buf_grow (po_buf po) bs) (\<lambda>_. set_port p (po\<lparr>po_buf := po_buf po @ bs\<rparr>))
     | _ \<Rightarrow> creme_abort wrong)"

definition write_bytes_to_port :: "nat \<Rightarrow> bytes \<Rightarrow> bytes \<Rightarrow> unit M" where
  "write_bytes_to_port p bs who = put_bytes p bs (who @ '': expected an output port'')"

definition creme_port_write_bytes :: "nat \<Rightarrow> bytes \<Rightarrow> unit M" where
  "creme_port_write_bytes p bs = put_bytes p bs ''write: expected an output port''"

text \<open>The port argument of an output builtin, the current output port when it is not there.\<close>

definition output_port_arg :: "val list \<Rightarrow> nat \<Rightarrow> bytes \<Rightarrow> nat M" where
  "output_port_arg args i who =
     (if length args \<ge> Suc i
      then (case args ! i of VPort p \<Rightarrow> retM p | _ \<Rightarrow> creme_abort (who @ '': expected a port''))
      else g_current_output_port)"

definition bi_display :: "arith \<Rightarrow> val list \<Rightarrow> val M" where
  "bi_display A args =
     bindM (creme_check_min_args (int (length args)) 1 ''display'') (\<lambda>_.
     bindM (output_port_arg args 1 ''display'') (\<lambda>p.
     bindM (display_text A (args ! 0)) (\<lambda>buf.
     bindM (write_bytes_to_port p buf ''display'') (\<lambda>_. retM VNil))))"

definition bi_newline :: "val list \<Rightarrow> val M" where
  "bi_newline args =
     bindM (output_port_arg args 0 ''newline'') (\<lambda>p.
     bindM (write_bytes_to_port p [CHR 0x0A] ''newline'') (\<lambda>_. retM VNil))"

definition bi_write_string :: "val list \<Rightarrow> val M" where
  "bi_write_string args =
     bindM (creme_arg_bytes args 0 ''write-string'') (\<lambda>s.
     bindM (creme_arg_port args 1 ''write-string'') (\<lambda>p.
     bindM (put_bytes p s ''write-string: expected an output port'') (\<lambda>_. retM VNil)))"

definition bi_write_char :: "val list \<Rightarrow> val M" where
  "bi_write_char args =
     bindM (creme_arg_char args 0 ''write-char'') (\<lambda>ch.
     bindM (output_port_arg args 1 ''write-char'') (\<lambda>p.
     bindM (write_bytes_to_port p [char_of ch] ''write-char'') (\<lambda>_. retM VNil)))"

definition bi_write_u8 :: "val list \<Rightarrow> val M" where
  "bi_write_u8 args =
     bindM (creme_arg_int args 0 ''write-u8'') (\<lambda>b.
     bindM (creme_arg_port args 1 ''write-u8'') (\<lambda>p.
     bindM (put_bytes p [char_of b] ''write-u8: expected an output port'') (\<lambda>_. retM VNil)))"

subsection \<open>Opening, closing and asking\<close>

definition string_port :: "port_kind \<Rightarrow> bytes \<Rightarrow> bool \<Rightarrow> port" where
  "string_port k bs binary = \<lparr> po_kind = k, po_buf = bs, po_pos = 0, po_closed = False, po_binary = binary,
     po_filter_input = False \<rparr>"

definition bi_open_output_string :: "val list \<Rightarrow> val M" where
  "bi_open_output_string args = new_port (string_port PORT_KIND_OUTPUT_STRING [] False)"

definition bi_open_input_string :: "val list \<Rightarrow> val M" where
  "bi_open_input_string args =
     bindM (creme_arg_bytes args 0 ''open-input-string'') (\<lambda>s. new_port (string_port PORT_KIND_INPUT_STRING s False))"

definition bi_open_input_bytevector :: "val list \<Rightarrow> val M" where
  "bi_open_input_bytevector args =
     (case args of
        VBytevector p # _ \<Rightarrow> bindM (derefM h_bvs p) (\<lambda>bs. new_port (string_port PORT_KIND_INPUT_STRING bs True))
      | _ \<Rightarrow> creme_abort ''open-input-bytevector: expected a bytevector'')"

definition bi_open_output_bytevector :: "val list \<Rightarrow> val M" where
  "bi_open_output_bytevector args = new_port (string_port PORT_KIND_OUTPUT_STRING [] True)"

definition get_output :: "val list \<Rightarrow> bytes \<Rightarrow> bytes \<Rightarrow> bytes M" where
  "get_output args who wrong =
     bindM (creme_arg_port args 0 who) (\<lambda>p. bindM (derefM h_ports p) (\<lambda>po.
     bindM (guardM (po_kind po \<noteq> PORT_KIND_OUTPUT_STRING) (who @ wrong)) (\<lambda>_. retM (po_buf po))))"

definition bi_get_output_string :: "val list \<Rightarrow> val M" where
  "bi_get_output_string args =
     bindM (get_output args ''get-output-string'' '': expected a string output port'') creme_bytes_value"

definition bi_get_output_bytevector :: "val list \<Rightarrow> val M" where
  "bi_get_output_bytevector args =
     bindM (get_output args ''get-output-bytevector'' '': expected a bytevector output port'') creme_bytevector_value"

definition port_is_input :: "port \<Rightarrow> bool" where
  "port_is_input po \<longleftrightarrow> po_kind po \<in> {PORT_KIND_INPUT_STRING, PORT_KIND_STDIN, PORT_KIND_INPUT_FILE} \<or>
     (po_kind po = PORT_KIND_FILTER \<and> po_filter_input po)"

definition port_is_output :: "port \<Rightarrow> bool" where
  "port_is_output po \<longleftrightarrow> po_kind po \<in> {PORT_KIND_OUTPUT_STRING, PORT_KIND_STDOUT, PORT_KIND_OUTPUT_FILE} \<or>
     (po_kind po = PORT_KIND_FILTER \<and> \<not> po_filter_input po)"

definition port_close :: "nat \<Rightarrow> unit M" where
  "port_close p =
     bindM (derefM h_ports p) (\<lambda>po.
     if po_closed po then retM ()
     else if po_kind po = PORT_KIND_FILTER then stuckM
     else set_port p (po\<lparr>po_closed := True\<rparr>))"

definition port_flush :: "nat \<Rightarrow> unit M" where
  "port_flush p =
     bindM (derefM h_ports p) (\<lambda>po.
     if po_kind po = PORT_KIND_FILTER then stuckM
     else if po_kind po = PORT_KIND_OUTPUT_FILE \<and> po_closed po then stuckM
     else retM ())"

definition asks_port :: "bytes \<Rightarrow> (port \<Rightarrow> bool) \<Rightarrow> val list \<Rightarrow> val M" where
  "asks_port who f args =
     bindM (creme_check_min_args (int (length args)) 1 who) (\<lambda>_.
     case args ! 0 of VPort p \<Rightarrow> bindM (derefM h_ports p) (\<lambda>po. retM (VBool (f po))) | _ \<Rightarrow> retM (VBool False))"

definition bi_port_p :: "val list \<Rightarrow> val M" where "bi_port_p = asks_port ''port?'' (\<lambda>_. True)"
definition bi_input_port_p :: "val list \<Rightarrow> val M" where "bi_input_port_p = asks_port ''input-port?'' port_is_input"
definition bi_output_port_p :: "val list \<Rightarrow> val M" where "bi_output_port_p = asks_port ''output-port?'' port_is_output"
definition bi_binary_port_p :: "val list \<Rightarrow> val M" where "bi_binary_port_p = asks_port ''binary-port?'' po_binary"
definition bi_textual_port_p :: "val list \<Rightarrow> val M" where
  "bi_textual_port_p = asks_port ''textual-port?'' (\<lambda>po. \<not> po_binary po)"

definition open_port :: "bytes \<Rightarrow> (port \<Rightarrow> bool) \<Rightarrow> val list \<Rightarrow> val M" where
  "open_port who f args =
     bindM (creme_arg_port args 0 who) (\<lambda>p. bindM (derefM h_ports p) (\<lambda>po. retM (VBool (f po \<and> \<not> po_closed po))))"

definition bi_input_port_open_p :: "val list \<Rightarrow> val M" where
  "bi_input_port_open_p = open_port ''input-port-open?'' port_is_input"

definition bi_output_port_open_p :: "val list \<Rightarrow> val M" where
  "bi_output_port_open_p = open_port ''output-port-open?'' port_is_output"

text \<open>The end-of-file object is a box without a pointer, address 0.\<close>

definition eof_object :: val where
  "eof_object = VBox BOX_KIND_EOF 0"

definition bi_eof_object :: "val list \<Rightarrow> val M" where
  "bi_eof_object args = retM eof_object"

definition bi_eof_object_p :: "val list \<Rightarrow> val M" where
  "bi_eof_object_p args =
     bindM (creme_check_min_args (int (length args)) 1 ''eof-object?'') (\<lambda>_.
     retM (VBool (case args ! 0 of VBox k p \<Rightarrow> k = BOX_KIND_EOF | _ \<Rightarrow> False)))"

definition bi_close_port :: "val list \<Rightarrow> val M" where
  "bi_close_port args = bindM (creme_arg_port args 0 ''close-port'') (\<lambda>p. bindM (port_close p) (\<lambda>_. retM VNil))"

definition bi_flush_output_port :: "val list \<Rightarrow> val M" where
  "bi_flush_output_port args =
     bindM (output_port_arg args 0 ''flush-output-port'') (\<lambda>p. bindM (port_flush p) (\<lambda>_. retM VNil))"

definition bi_call_with_port :: "(val \<Rightarrow> val list \<Rightarrow> val M) \<Rightarrow> val list \<Rightarrow> val M" where
  "bi_call_with_port ap args =
     bindM (creme_check_min_args (int (length args)) 2 ''call-with-port'') (\<lambda>_.
     bindM (creme_arg_port args 0 ''call-with-port'') (\<lambda>p.
     bindM (ap (args ! 1) [args ! 0]) (\<lambda>r. bindM (port_close p) (\<lambda>_. retM r))))"

subsection \<open>Input\<close>

definition input_port_arg :: "val list \<Rightarrow> nat \<Rightarrow> bytes \<Rightarrow> nat M" where
  "input_port_arg args i who =
     bindM (if length args > i
            then (case args ! i of VPort p \<Rightarrow> retM p | _ \<Rightarrow> creme_abort (who @ '': expected a port''))
            else g_current_input_port) (\<lambda>p.
     bindM (derefM h_ports p) (\<lambda>po.
     bindM (guardM (\<not> port_is_input po) (who @ '': expected an input port'')) (\<lambda>_.
     bindM (guardM (po_closed po) (who @ '': port is closed'')) (\<lambda>_. retM p))))"

definition port_rest :: "port \<Rightarrow> bytes" where
  "port_rest po = drop (po_pos po) (po_buf po)"

text \<open>What is left to read of a port, and reading on so that something else is left.\<close>

definition rest_of :: "nat \<Rightarrow> bytes M" where
  "rest_of p =
     bindM (derefM h_ports p) (\<lambda>po. if po_kind po = PORT_KIND_FILTER then stuckM else retM (port_rest po))"

definition read_on :: "nat \<Rightarrow> bytes \<Rightarrow> unit M" where
  "read_on p left =
     bindM (derefM h_ports p) (\<lambda>po. set_port p (po\<lparr>po_pos := length (po_buf po) - length left\<rparr>))"

text \<open>\<open>creme_port_read_char\<close> does not ask whether the port is for input: an output string is read from its start, the other
  output ports have an empty buffer, and a closed file has no stream.\<close>

definition stream_of :: "nat \<Rightarrow> bytes M" where
  "stream_of p =
     bindM (derefM h_ports p) (\<lambda>po.
     if po_kind po \<in> {PORT_KIND_STDOUT, PORT_KIND_OUTPUT_FILE} then retM []
     else if po_kind po = PORT_KIND_INPUT_FILE \<and> po_closed po then stuckM
     else rest_of p)"

definition creme_port_read_char :: "nat \<Rightarrow> char option M" where
  "creme_port_read_char p =
     bindM (stream_of p) (\<lambda>bs. case bs of
       [] \<Rightarrow> retM None
     | c # left \<Rightarrow> bindM (read_on p left) (\<lambda>_. retM (Some c)))"

definition creme_port_peek_char :: "nat \<Rightarrow> char option M" where
  "creme_port_peek_char p = bindM (stream_of p) (\<lambda>bs. retM (if bs = [] then None else Some (hd bs)))"

definition or_eof :: "(char \<Rightarrow> val) \<Rightarrow> char option \<Rightarrow> val" where
  "or_eof f c = (case c of None \<Rightarrow> eof_object | Some c \<Rightarrow> f c)"

definition bi_read_char :: "val list \<Rightarrow> val M" where
  "bi_read_char args = bindM (input_port_arg args 0 ''read-char'') (\<lambda>p.
     bindM (creme_port_read_char p) (\<lambda>c. retM (or_eof (\<lambda>c. VChar (of_char c)) c)))"

definition bi_peek_char :: "val list \<Rightarrow> val M" where
  "bi_peek_char args = bindM (input_port_arg args 0 ''peek-char'') (\<lambda>p.
     bindM (creme_port_peek_char p) (\<lambda>c. retM (or_eof (\<lambda>c. VChar (of_char c)) c)))"

definition bi_char_ready_p :: "val list \<Rightarrow> val M" where
  "bi_char_ready_p args = retM (VBool True)"

definition bi_read_u8 :: "val list \<Rightarrow> val M" where
  "bi_read_u8 args = bindM (input_port_arg args 0 ''read-u8'') (\<lambda>p.
     bindM (creme_port_read_char p) (\<lambda>c. retM (or_eof (\<lambda>c. VInt (of_char c)) c)))"

definition bi_peek_u8 :: "val list \<Rightarrow> val M" where
  "bi_peek_u8 args = bindM (input_port_arg args 0 ''peek-u8'') (\<lambda>p.
     bindM (creme_port_peek_char p) (\<lambda>c. retM (or_eof (\<lambda>c. VInt (of_char c)) c)))"

text \<open>A line ends before its newline or where the input ends.\<close>

definition bi_read_line :: "val list \<Rightarrow> val M" where
  "bi_read_line args =
     bindM (input_port_arg args 0 ''read-line'') (\<lambda>p. bindM (rest_of p) (\<lambda>bs.
     if bs = [] then retM eof_object
     else let line = takeWhile (\<lambda>c. c \<noteq> CHR 0x0A) bs in
       bindM (creme_bytes_value line) (\<lambda>v.
       bindM (read_on p (drop (Suc (length line)) bs)) (\<lambda>_. retM v))))"

definition bi_read_string :: "val list \<Rightarrow> val M" where
  "bi_read_string args =
     bindM (creme_arg_int args 0 ''read-string'') (\<lambda>k.
     bindM (guardM (k < 0) ''read-string: count must be non-negative'') (\<lambda>_.
     bindM (input_port_arg args 1 ''read-string'') (\<lambda>p. bindM (rest_of p) (\<lambda>bs.
     let n = min (nat k) (length bs) in
     bindM (read_on p (drop n bs)) (\<lambda>_.
     if int n < k then retM eof_object else new_str (take n bs))))))"

text \<open>\<open>byte_range_args\<close>: each bound is an \<open>int64_t\<close> cut to an \<open>int\<close>.\<close>

definition c_int :: "int \<Rightarrow> int" where
  "c_int i = (i + 2147483648) mod 4294967296 - 2147483648"

definition byte_range_args :: "val list \<Rightarrow> nat \<Rightarrow> nat \<Rightarrow> (nat \<times> nat) M" where
  "byte_range_args args i len =
     (let opt = (\<lambda>j d. if length args > j then (case args ! j of VInt k \<Rightarrow> c_int k | _ \<Rightarrow> d) else d);
          first = opt i 0; last = opt (Suc i) (int len) in
      bindM (guardM (first < 0 \<or> last > int len \<or> first > last) ''byte range out of bounds'') (\<lambda>_.
      retM (nat first, nat last)))"

text \<open>The check that \<open>n\<close> items fit a destination of length \<open>len\<close> at \<open>pos\<close>, in \<open>vector-copy!\<close>, \<open>bytevector-copy!\<close> and
  \<open>string-copy!\<close>: the sum is an \<open>int64_t\<close> and may overflow.\<close>

definition dest_check :: "int \<Rightarrow> nat \<Rightarrow> nat \<Rightarrow> bytes \<Rightarrow> unit M" where
  "dest_check pos n len msg =
     (if pos < 0 then creme_abort msg
      else if \<not> int64 (pos + int n) then stuckM
      else guardM (pos + int n > int len) msg)"

definition bi_read_bytevector :: "val list \<Rightarrow> val M" where
  "bi_read_bytevector args =
     bindM (creme_arg_int args 0 ''read-bytevector'') (\<lambda>k.
     let n = c_int k in
     bindM (guardM (n < 0) ''read-bytevector: count must be non-negative'') (\<lambda>_.
     bindM (input_port_arg args 1 ''read-bytevector'') (\<lambda>p. bindM (rest_of p) (\<lambda>bs.
     let got = min (nat n) (length bs) in
     bindM (read_on p (drop got bs)) (\<lambda>_.
     if got = 0 \<and> n > 0 then retM eof_object else creme_bytevector_value (take got bs))))))"

definition bi_read_bytevector_bang :: "val list \<Rightarrow> val M" where
  "bi_read_bytevector_bang args =
     (case args of
        VBytevector b # _ \<Rightarrow>
          bindM (derefM h_bvs b) (\<lambda>old.
          bindM (input_port_arg args 1 ''read-bytevector!'') (\<lambda>p.
          bindM (byte_range_args args 2 (length old)) (\<lambda>(first, last).
          bindM (rest_of p) (\<lambda>bs.
          let got = min (last - first) (length bs) in
          bindM (modM (\<lambda>s. s\<lparr>h_bvs := (h_bvs s)[b := take first old @ take got bs @ drop (first + got) old]\<rparr>)) (\<lambda>_.
          bindM (read_on p (drop got bs)) (\<lambda>_.
          if got = 0 \<and> last - first > 0 then retM eof_object else retM (VInt (int got))))))))
      | _ \<Rightarrow> creme_abort ''read-bytevector!: expected a bytevector'')"

definition bi_write_bytevector :: "val list \<Rightarrow> val M" where
  "bi_write_bytevector args =
     (case args of
        VBytevector b # _ \<Rightarrow>
          bindM (derefM h_bvs b) (\<lambda>bs.
          bindM (creme_arg_port args 1 ''write-bytevector'') (\<lambda>p.
          bindM (byte_range_args args 2 (length bs)) (\<lambda>(first, last).
          bindM (put_bytes p (take (last - first) (drop first bs)) ''write-bytevector: expected an output port'') (\<lambda>_.
          retM VNil))))
      | _ \<Rightarrow> creme_abort ''write-bytevector: expected a bytevector'')"

end
