(* ===== verification/Big_Decimal.thy ===== *)
theory Big_Decimal
  imports Embed_Args Ports
begin

text \<open>
  The exact decimals of (creme bigdecimal), icecreme/bigdecimal.c.  A \<open>BigDecimal\<close> is a mantissa and a scale
  that is never negative: the value is the mantissa divided by ten to the scale.  The scale is a C \<open>int\<close>;
  where the code lets it, or a length computed from it, overflow the model is \<open>Stuck\<close>.
\<close>

type_synonym big_decimal = "int \<times> nat"

definition v_bigdecimal :: "big_decimal \<Rightarrow> val M" where
  "v_bigdecimal bd = v_box (BoxBigDecimal (fst bd) (snd bd)) BOX_KIND_BIGDECIMAL"

definition bigdecimal_arg :: "val \<Rightarrow> bytes \<Rightarrow> big_decimal M" where
  "bigdecimal_arg v who =
     bindM (creme_arg_box [v] 0 BOX_KIND_BIGDECIMAL who) (\<lambda>p.
     bindM (derefM h_boxes p) (\<lambda>b. case b of BoxBigDecimal m sc \<Rightarrow> retM (m, sc) | _ \<Rightarrow> stuckM))"

definition bd_parse :: "arith \<Rightarrow> bytes \<Rightarrow> big_decimal option" where
  "bd_parse A s =
     (let signed = s \<noteq> [] \<and> hd s \<in> {CHR ''+'', CHR ''-''};
          neg = signed \<and> hd s = CHR ''-'';
          rest = (if signed then tl s else s);
          int_digits = takeWhile is_digit rest;
          after = dropWhile is_digit rest;
          has_dot = after \<noteq> [] \<and> hd after = CHR ''.'';
          frac_digits = (if has_dot then takeWhile is_digit (tl after) else []);
          junk = (if has_dot then dropWhile is_digit (tl after) else after) in
      if junk \<noteq> [] then None
      else if length int_digits + length frac_digits = 0 then None
      else (case mpz_set_str A ((if neg then ''-'' else []) @ int_digits @ frac_digits) of
              None \<Rightarrow> None
            | Some m \<Rightarrow> Some (m, length frac_digits)))"

text \<open>The two mantissas at the larger of the two scales.\<close>

definition bd_align :: "arith \<Rightarrow> big_decimal \<Rightarrow> big_decimal \<Rightarrow> int \<times> int \<times> nat" where
  "bd_align A a b =
     (let scale = (if snd a > snd b then snd a else snd b) in
      (if snd a < scale then mpz_mul A (fst a) (mpz_ui_pow_ui A 10 (scale - snd a)) else fst a,
       if snd b < scale then mpz_mul A (fst b) (mpz_ui_pow_ui A 10 (scale - snd b)) else fst b,
       scale))"

definition bd_compare :: "arith \<Rightarrow> big_decimal \<Rightarrow> big_decimal \<Rightarrow> int" where
  "bd_compare A a b =
     (let (na, nb, scale) = bd_align A a b; c = mpz_cmp A na nb in
      if c < 0 then -1 else if c > 0 then 1 else 0)"

text \<open>The lengths are C \<open>int\<close>s: the result is \<open>None\<close> where one of them overflows, or where the number of digits is cut to a
  negative \<open>int\<close> and \<open>memcpy\<close> gets it as a size.\<close>

definition bd_to_string :: "arith \<Rightarrow> big_decimal \<Rightarrow> bytes option" where
  "bd_to_string A bd =
     (let mantissa_str = mpz_get_str A (fst bd);
          neg = mantissa_str \<noteq> [] \<and> hd mantissa_str = CHR ''-'';
          digits = (if neg then tl mantissa_str else mantissa_str);
          ndigits = c_int (int (length digits));
          scale = int (snd bd);
          min_digits = scale + 1;
          pad = (if min_digits > ndigits then min_digits - ndigits else 0);
          padded = replicate (nat pad) (CHR ''0'') @ take (nat ndigits) digits;
          int_len = ndigits + pad - scale;
          total = (if neg then 1 else 0) + int_len + 1 + (if scale > 0 then scale else 1) in
      if ndigits < 0 \<or> min_digits > INT_MAX \<or> total > INT_MAX then None
      else Some ((if neg then ''-'' else []) @ take (nat int_len) padded @ ''.'' @
        (if scale > 0 then drop (nat int_len) padded else ''0'')))"

definition bi_string_to_bigdecimal :: "arith \<Rightarrow> val list \<Rightarrow> val M" where
  "bi_string_to_bigdecimal A args =
     bindM (creme_check_min_args (int (length args)) 1 ''string->bigdecimal'') (\<lambda>_.
     bindM (case args ! 0 of
              VStr p \<Rightarrow> derefM h_strs p
            | VInt i \<Rightarrow> retM (dec i)
            | _ \<Rightarrow> creme_abort ''string->bigdecimal: expected string, got a non-string value'') (\<lambda>s.
     case bd_parse A s of
       None \<Rightarrow> creme_abort (''string->bigdecimal: invalid decimal '' @ [CHR 0x27] @ take (cstrlen s) s @ [CHR 0x27])
     | Some bd \<Rightarrow> v_bigdecimal bd))"

definition bi_integer_to_bigdecimal :: "arith \<Rightarrow> val list \<Rightarrow> val M" where
  "bi_integer_to_bigdecimal A args =
     bindM (creme_arg_int args 0 ''integer->bigdecimal'') (\<lambda>n.
     let mag = (if n < 0 then uint (0 - (word_of_int n :: 64 word)) else n) in
     v_bigdecimal (if n < 0 then mpz_neg A mag else mag, 0))"

definition two_bigdecimals :: "val list \<Rightarrow> bytes \<Rightarrow> (big_decimal \<Rightarrow> big_decimal \<Rightarrow> val M) \<Rightarrow> val M" where
  "two_bigdecimals args who k =
     bindM (creme_check_min_args (int (length args)) 2 who) (\<lambda>_.
     bindM (bigdecimal_arg (args ! 0) who) (\<lambda>a. bindM (bigdecimal_arg (args ! 1) who) (\<lambda>b. k a b)))"

definition bi_bigdecimal_add :: "arith \<Rightarrow> val list \<Rightarrow> val M" where
  "bi_bigdecimal_add A args = two_bigdecimals args ''bigdecimal-add'' (\<lambda>a b.
     let (na, nb, scale) = bd_align A a b in v_bigdecimal (mpz_add A na nb, scale))"

definition bi_bigdecimal_sub :: "arith \<Rightarrow> val list \<Rightarrow> val M" where
  "bi_bigdecimal_sub A args = two_bigdecimals args ''bigdecimal-sub'' (\<lambda>a b.
     let (na, nb, scale) = bd_align A a b in v_bigdecimal (mpz_sub A na nb, scale))"

definition bi_bigdecimal_mul :: "arith \<Rightarrow> val list \<Rightarrow> val M" where
  "bi_bigdecimal_mul A args = two_bigdecimals args ''bigdecimal-mul'' (\<lambda>a b.
     if int (snd a + snd b) > INT_MAX then stuckM
     else v_bigdecimal (mpz_mul A (fst a) (fst b), snd a + snd b))"

definition BD_DIV_EXTRA_DIGITS :: nat where
  "BD_DIV_EXTRA_DIGITS = 20"

text \<open>Trailing zeros go, down to scale 0.\<close>

primrec bd_trim :: "arith \<Rightarrow> int \<Rightarrow> nat \<Rightarrow> big_decimal" where
  "bd_trim A quot 0 = (quot, 0)"
| "bd_trim A quot (Suc scale) =
     (if mpz_sgn A (mpz_tdiv_r A quot 10) \<noteq> 0 then (quot, Suc scale)
      else bd_trim A (mpz_tdiv_q A quot 10) scale)"

text \<open>The quotient of the numerator and the divisor, rounded half away from zero.\<close>

definition bd_round :: "arith \<Rightarrow> int \<Rightarrow> int \<Rightarrow> int" where
  "bd_round A numer b =
     (let quot = mpz_tdiv_q A numer b; rem = mpz_tdiv_r A numer b in
      if mpz_cmp A (mpz_mul A (mpz_abs A rem) 2) (mpz_abs A b) \<ge> 0
      then (if mpz_sgn A numer * mpz_sgn A b \<ge> 0 then mpz_add A quot 1 else mpz_sub A quot 1)
      else quot)"

definition bi_bigdecimal_div :: "arith \<Rightarrow> val list \<Rightarrow> val M" where
  "bi_bigdecimal_div A args = two_bigdecimals args ''bigdecimal-div'' (\<lambda>a b.
     bindM (guardM (mpz_sgn A (fst b) = 0) ''bigdecimal-div: division by zero'') (\<lambda>_.
     let working_scale = (if snd a > snd b then snd a else snd b) + BD_DIV_EXTRA_DIGITS;
         ex = snd b + working_scale - snd a in
     if int working_scale > INT_MAX \<or> int ex > INT_MAX then stuckM
     else v_bigdecimal (bd_trim A (bd_round A (mpz_mul A (fst a) (mpz_ui_pow_ui A 10 ex)) (fst b)) working_scale)))"

definition bi_bigdecimal_neg :: "arith \<Rightarrow> val list \<Rightarrow> val M" where
  "bi_bigdecimal_neg A args =
     bindM (creme_check_min_args (int (length args)) 1 ''bigdecimal-neg'') (\<lambda>_.
     bindM (bigdecimal_arg (args ! 0) ''bigdecimal-neg'') (\<lambda>a. v_bigdecimal (mpz_neg A (fst a), snd a)))"

definition bi_bigdecimal_compare :: "arith \<Rightarrow> val list \<Rightarrow> val M" where
  "bi_bigdecimal_compare A args = two_bigdecimals args ''bigdecimal-compare'' (\<lambda>a b. retM (VInt (bd_compare A a b)))"

definition bi_bigdecimal_eq :: "arith \<Rightarrow> val list \<Rightarrow> val M" where
  "bi_bigdecimal_eq A args = two_bigdecimals args ''bigdecimal=?'' (\<lambda>a b. retM (VBool (bd_compare A a b = 0)))"

definition bi_bigdecimal_lt :: "arith \<Rightarrow> val list \<Rightarrow> val M" where
  "bi_bigdecimal_lt A args = two_bigdecimals args ''bigdecimal<?'' (\<lambda>a b. retM (VBool (bd_compare A a b < 0)))"

definition bi_bigdecimal_gt :: "arith \<Rightarrow> val list \<Rightarrow> val M" where
  "bi_bigdecimal_gt A args = two_bigdecimals args ''bigdecimal>?'' (\<lambda>a b. retM (VBool (bd_compare A a b > 0)))"

definition bi_bigdecimal_zero_p :: "arith \<Rightarrow> val list \<Rightarrow> val M" where
  "bi_bigdecimal_zero_p A args =
     bindM (creme_check_min_args (int (length args)) 1 ''bigdecimal-zero?'') (\<lambda>_.
     bindM (bigdecimal_arg (args ! 0) ''bigdecimal-zero?'') (\<lambda>a. retM (VBool (mpz_sgn A (fst a) = 0))))"

definition bi_bigdecimal_to_string :: "arith \<Rightarrow> val list \<Rightarrow> val M" where
  "bi_bigdecimal_to_string A args =
     bindM (creme_check_min_args (int (length args)) 1 ''bigdecimal->string'') (\<lambda>_.
     bindM (bigdecimal_arg (args ! 0) ''bigdecimal->string'') (\<lambda>a.
     case bd_to_string A a of None \<Rightarrow> stuckM | Some text \<Rightarrow> new_str text))"

definition bi_bigdecimal_p :: "val list \<Rightarrow> val M" where
  "bi_bigdecimal_p args =
     bindM (creme_check_min_args (int (length args)) 1 ''bigdecimal?'') (\<lambda>_.
     retM (VBool (case args ! 0 of VBox k p \<Rightarrow> k = BOX_KIND_BIGDECIMAL | _ \<Rightarrow> False)))"

definition bigdecimal_builtin :: "arith \<Rightarrow> bytes \<Rightarrow> (val list \<Rightarrow> val M) option" where
  "bigdecimal_builtin A = map_of
    [(''bi_string_to_bigdecimal'', bi_string_to_bigdecimal A), (''bi_integer_to_bigdecimal'', bi_integer_to_bigdecimal A),
     (''bi_bigdecimal_add'', bi_bigdecimal_add A), (''bi_bigdecimal_sub'', bi_bigdecimal_sub A),
     (''bi_bigdecimal_mul'', bi_bigdecimal_mul A), (''bi_bigdecimal_div'', bi_bigdecimal_div A),
     (''bi_bigdecimal_neg'', bi_bigdecimal_neg A), (''bi_bigdecimal_compare'', bi_bigdecimal_compare A),
     (''bi_bigdecimal_eq'', bi_bigdecimal_eq A), (''bi_bigdecimal_lt'', bi_bigdecimal_lt A),
     (''bi_bigdecimal_gt'', bi_bigdecimal_gt A), (''bi_bigdecimal_zero_p'', bi_bigdecimal_zero_p A),
     (''bi_bigdecimal_to_string'', bi_bigdecimal_to_string A), (''bi_bigdecimal_p'', bi_bigdecimal_p)]"

end
