(* ===== verification/C_Text.thy ===== *)
theory C_Text
  imports Externals
begin

text \<open>
  The functions of the C library on text that the readers of icecreme call, in the C locale: \<open>isspace\<close>,
  \<open>tolower\<close> and \<open>toupper\<close>, \<open>strcasecmp\<close> on equality, and \<open>strtoll\<close>, which clamps a number that does not fit
  and returns the text it does not use.
\<close>

definition c_isspace :: "char \<Rightarrow> bool" where
  "c_isspace c \<longleftrightarrow> c = CHR '' '' \<or> (9 \<le> (of_char c :: nat) \<and> (of_char c :: nat) \<le> 13)"

definition c_isupper :: "char \<Rightarrow> bool" where
  "c_isupper c \<longleftrightarrow> 65 \<le> (of_char c :: nat) \<and> (of_char c :: nat) \<le> 90"

definition c_islower :: "char \<Rightarrow> bool" where
  "c_islower c \<longleftrightarrow> 97 \<le> (of_char c :: nat) \<and> (of_char c :: nat) \<le> 122"

definition c_tolower :: "char \<Rightarrow> char" where
  "c_tolower c = (if c_isupper c then char_of ((of_char c :: nat) + 32) else c)"

definition c_toupper :: "char \<Rightarrow> char" where
  "c_toupper c = (if c_islower c then char_of ((of_char c :: nat) - 32) else c)"

definition strcaseeq :: "bytes \<Rightarrow> bytes \<Rightarrow> bool" where
  "strcaseeq a b \<longleftrightarrow> map c_tolower a = map c_tolower b"

text \<open>The integer a text starts with, as a mathematical number; \<open>None\<close> when it starts with none.\<close>

definition scan_integer :: "nat \<Rightarrow> bytes \<Rightarrow> (int \<times> bytes) option" where
  "scan_integer base s =
     (let ws = dropWhile c_isspace s;
          signed = ws \<noteq> [] \<and> hd ws \<in> {CHR ''+'', CHR ''-''};
          body = (if signed then tl ws else ws);
          hex = base = 16 \<and> length body \<ge> 3 \<and> body ! 0 = CHR ''0'' \<and> body ! 1 \<in> {CHR ''x'', CHR ''X''} \<and> is_digit_in 16 (body ! 2);
          digs = (if hex then drop 2 body else body);
          ds = takeWhile (is_digit_in base) digs;
          n = int (radix_val base 0 ds) in
      if ds = [] then None
      else Some (if signed \<and> hd ws = CHR ''-'' then - n else n, drop (length ds) digs))"

definition clamp64 :: "int \<Rightarrow> int" where
  "clamp64 z = max (- (2 ^ 63)) (min (2 ^ 63 - 1) z)"

definition strtoll :: "nat \<Rightarrow> bytes \<Rightarrow> int \<times> bytes" where
  "strtoll base s = (case scan_integer base s of None \<Rightarrow> (0, s) | Some (z, rest) \<Rightarrow> (clamp64 z, rest))"

text \<open>The digits of a decimal number.\<close>

lemma decimal_digit: "is_digit_in 10 c \<longleftrightarrow> is_digit c"
  by (auto simp: is_digit_in_def digit_value_def is_digit_def Let_def)

lemma decimal_val: "list_all is_digit ds \<Longrightarrow> radix_val 10 acc ds = digits_val acc ds"
  by (induction ds arbitrary: acc) (auto simp: digit_value_def is_digit_def Let_def)

lemma digit_not_sign: "is_digit c \<Longrightarrow> c \<noteq> CHR ''-'' \<and> c \<noteq> CHR ''+'' \<and> \<not> c_isspace c"
  by (auto simp: is_digit_def c_isspace_def)

text \<open>What \<open>dec\<close> prints is scanned back.\<close>

lemma scan_digits:
  assumes "list_all is_digit ds" "ds \<noteq> []" "rest = [] \<or> \<not> is_digit (hd rest)"
  shows "scan_integer 10 (ds @ rest) = Some (int (digits_val 0 ds), rest)"
    and "scan_integer 10 (CHR ''-'' # ds @ rest) = Some (- int (digits_val 0 ds), rest)"
proof -
  obtain c ds' where ds: "ds = c # ds'" using assms(2) by (cases ds) auto
  have c: "\<not> c_isspace c" "c \<noteq> CHR ''-''" "c \<noteq> CHR ''+''" using assms(1) ds digit_not_sign [of c] by auto
  have "takeWhile is_digit rest = []" using assms(3) by (cases rest) auto
  then have take: "takeWhile is_digit (ds @ rest) = ds" using assms(1) by (simp add: list_all_iff takeWhile_append2)
  have minus: "\<not> c_isspace (CHR ''-'')" by (simp add: c_isspace_def)
  show "scan_integer 10 (ds @ rest) = Some (int (digits_val 0 ds), rest)"
  proof -
    have "dropWhile c_isspace (ds @ rest) = ds @ rest" "hd (ds @ rest) \<notin> {CHR ''+'', CHR ''-''}" using c ds by simp_all
    then show ?thesis using assms(2) take decimal_val [OF assms(1), of 0]
      by (simp add: scan_integer_def decimal_digit [abs_def] Let_def)
  qed
  show "scan_integer 10 (CHR ''-'' # ds @ rest) = Some (- int (digits_val 0 ds), rest)"
    using minus assms(2) take decimal_val [OF assms(1)] by (simp add: scan_integer_def decimal_digit [abs_def] Let_def)
qed

lemma scan_dec:
  assumes "rest = [] \<or> \<not> is_digit (hd rest)"
  shows "scan_integer 10 (dec i @ rest) = Some (i, rest)"
proof -
  note d = dec_nat_digits [of "nat \<bar>i\<bar>"]
  show ?thesis
  proof (cases "i < 0")
    case True
    then show ?thesis using scan_digits(2) [of "dec_nat (nat (- i))" rest] d assms by (simp add: dec_def)
  next
    case False
    then show ?thesis using scan_digits(1) [of "dec_nat (nat i)" rest] d assms by (simp add: dec_def)
  qed
qed

lemma dec_nonempty [simp]: "dec i \<noteq> []"
  using dec_nat_digits [of "nat i"] by (simp add: dec_def)

end
