(* ===== verification/Reader.thy ===== *)
theory Reader
  imports Ports C_Text
begin

text \<open>
  The datum reader \<open>read\<close> of icecreme/builtins.c.  It works on a string port: \<open>rest_of\<close> is what \<open>read_peek\<close> and
  \<open>read_next\<close> see, and \<open>read_on\<close> moves the port, so that an error leaves it where the reader was.  The three
  recursive functions take a fuel; without fuel the C code has used up its stack.
\<close>

definition read_peek :: "nat \<Rightarrow> char option M" where
  "read_peek p = bindM (rest_of p) (\<lambda>bs. retM (if bs = [] then None else Some (hd bs)))"

definition read_next :: "nat \<Rightarrow> char option M" where
  "read_next p = bindM (rest_of p) (\<lambda>bs. case bs of
     [] \<Rightarrow> retM None | c # left \<Rightarrow> bindM (read_on p left) (\<lambda>_. retM (Some c)))"

definition skip :: "nat \<Rightarrow> nat \<Rightarrow> unit M" where
  "skip p n = bindM (rest_of p) (\<lambda>bs. read_on p (drop n bs))"

text \<open>\<open>read_is_delim\<close>, which also holds of the end of the input, where a scan ends anyway.\<close>

definition is_delim :: "char \<Rightarrow> bool" where
  "is_delim c \<longleftrightarrow> c \<in> {CHR ''('', CHR '')'', CHR 0x22, CHR '';'', CHR 0x27, CHR 0x60, CHR '','', CHR '' '', CHR 0x09,
     CHR 0x0A, CHR 0x0D, CHR ''|'', CHR ''['', CHR '']''}"

text \<open>A token of at most \<open>cap\<close> characters.\<close>

definition read_word :: "nat \<Rightarrow> nat \<Rightarrow> bytes M" where
  "read_word cap p =
     bindM (rest_of p) (\<lambda>bs.
     let w = take cap (takeWhile (\<lambda>c. \<not> is_delim c) bs) in
     bindM (read_on p (drop (length w) bs)) (\<lambda>_. retM w))"

subsection \<open>White space and comments\<close>

text \<open>The text after a block comment of the given depth; \<open>None\<close> when it does not end.\<close>

fun skip_block :: "nat \<Rightarrow> bytes \<Rightarrow> bytes option" where
  "skip_block 0 bs = Some bs"
| "skip_block (Suc d) [] = None"
| "skip_block (Suc d) [c] = None"
| "skip_block (Suc d) (c # c' # bs) =
     (if c = CHR ''#'' \<and> c' = CHR ''|'' then skip_block (Suc (Suc d)) bs
      else if c = CHR ''|'' \<and> c' = CHR ''#'' then skip_block d bs
      else skip_block (Suc d) (c' # bs))"

definition is_blank :: "char \<Rightarrow> bool" where
  "is_blank c \<longleftrightarrow> c \<in> {CHR '' '', CHR 0x09, CHR 0x0A, CHR 0x0D}"

definition read_skip_ws_body :: "(nat \<Rightarrow> unit M) \<Rightarrow> (nat \<Rightarrow> val M) \<Rightarrow> nat \<Rightarrow> unit M" where
  "read_skip_ws_body again datum p =
     bindM (rest_of p) (\<lambda>bs.
     case bs of
       [] \<Rightarrow> retM ()
     | c # left \<Rightarrow>
         if is_blank c then bindM (read_on p left) (\<lambda>_. again p)
         else if c = CHR '';'' then bindM (read_on p (drop 1 (dropWhile (\<lambda>d. d \<noteq> CHR 0x0A) left))) (\<lambda>_. again p)
         else if c = CHR ''#'' \<and> left \<noteq> [] \<and> hd left = CHR ''|'' then
           (case skip_block 1 (tl left) of
              None \<Rightarrow> bindM (read_on p []) (\<lambda>_. creme_abort ''read: unterminated #| block comment'')
            | Some left' \<Rightarrow> bindM (read_on p left') (\<lambda>_. again p))
         else if c = CHR ''#'' \<and> left \<noteq> [] \<and> hd left = CHR '';'' then
           bindM (read_on p (tl left)) (\<lambda>_. bindM (again p) (\<lambda>_. bindM (datum p) (\<lambda>_. again p)))
         else retM ())"

subsection \<open>Atoms\<close>

text \<open>The loop over the digits of \<open>\xHH;\<close> in a string: any character counts as a digit, and the value is a C \<open>int\<close>
  whose overflow the language leaves undefined.\<close>

definition lax_digit :: "char \<Rightarrow> int" where
  "lax_digit c = (if is_digit c then of_char c - 48 else of_char (c_tolower c) - 97 + 10)"

fun lax_hex :: "int \<Rightarrow> bytes \<Rightarrow> int option" where
  "lax_hex v [] = Some v"
| "lax_hex v (c # cs) =
     (let v' = v * 16 + lax_digit c in
      if v * 16 < - (2 ^ 31) \<or> v * 16 \<ge> 2 ^ 31 \<or> v' < - (2 ^ 31) \<or> v' \<ge> 2 ^ 31 then None else lax_hex v' cs)"

text \<open>What a string literal makes of the text after its opening quote: the characters and what follows, or an
  error; \<open>Overflow\<close> is the undefined overflow of a hexadecimal escape.\<close>

datatype literal = Literal bytes bytes | Unterminated | Overflow

fun add_char :: "char \<Rightarrow> literal \<Rightarrow> literal" where
  "add_char c (Literal cs left) = Literal (c # cs) left"
| "add_char c l = l"

definition escape_char :: "char \<Rightarrow> char" where
  "escape_char e =
     (if e = CHR ''n'' then CHR 0x0A else if e = CHR ''t'' then CHR 0x09 else if e = CHR ''r'' then CHR 0x0D
      else if e = CHR ''a'' then CHR 0x07 else if e = CHR ''b'' then CHR 0x08 else e)"

function string_body :: "bytes \<Rightarrow> literal" where
  "string_body [] = Unterminated"
| "string_body (c # cs) =
     (if c = CHR 0x22 then Literal [] cs
      else if c = CHR 0x5C then
        (case cs of
           [] \<Rightarrow> Unterminated
         | e # left \<Rightarrow>
             if e = CHR ''x'' then
               (let hex = takeWhile (\<lambda>d. d \<noteq> CHR '';'') left; after = drop (Suc (length hex)) left in
                case lax_hex 0 hex of None \<Rightarrow> Overflow | Some v \<Rightarrow> add_char (char_of v) (string_body after))
             else if e = CHR 0x0A then string_body (dropWhile (\<lambda>d. d = CHR '' '' \<or> d = CHR 0x09) left)
             else add_char (escape_char e) (string_body left))
      else add_char c (string_body cs))"
  by pat_completeness auto
termination
proof (relation "measure length", goal_cases)
  case (3 c cs e left)
  have "length (dropWhile (\<lambda>d. d = CHR '' '' \<or> d = CHR 0x09) left) \<le> length left" by (rule length_dropWhile_le)
  with 3 show ?case by simp
qed auto

definition read_string_literal :: "nat \<Rightarrow> val M" where
  "read_string_literal p =
     bindM (rest_of p) (\<lambda>bs.
     case string_body (tl bs) of
       Literal cs left \<Rightarrow> bindM (read_on p left) (\<lambda>_. new_str cs)
     | Unterminated \<Rightarrow> bindM (read_on p []) (\<lambda>_. creme_abort ''read: unterminated string literal'')
     | Overflow \<Rightarrow> stuckM)"

text \<open>The names of characters, and \<open>strtol\<close> on the digits after an \<open>x\<close>, whose value is not checked.\<close>

definition char_names :: "(bytes \<times> int) list" where
  "char_names = [(''space'', 32), (''newline'', 10), (''tab'', 9), (''return'', 13), (''null'', 0), (''nul'', 0),
     (''altmode'', 27), (''escape'', 27), (''backspace'', 8), (''delete'', 127), (''rubout'', 127)]"

definition char_literal :: "char \<Rightarrow> bytes \<Rightarrow> val M" where
  "char_literal c w =
     (if w = [] then retM (VChar (of_char c))
      else let name = take (cstrlen (c # w)) (c # w) in
        case find (\<lambda>e. strcaseeq name (fst e)) char_names of
          Some (_, n) \<Rightarrow> retM (VChar n)
        | None \<Rightarrow>
            if c \<in> {CHR ''x'', CHR ''X''} then retM (VChar (fst (strtoll 16 (tl name))))
            else creme_abort (''read: unknown char literal #'' @ [CHR 0x5C] @ name))"

definition read_char_literal :: "nat \<Rightarrow> val M" where
  "read_char_literal p =
     bindM (skip p 2) (\<lambda>_. bindM (read_next p) (\<lambda>first.
     case first of
       None \<Rightarrow> creme_abort ''read: unterminated char literal''
     | Some c \<Rightarrow> bindM (read_word 30 p) (char_literal c)))"

definition radix_letter :: "nat \<Rightarrow> char" where
  "radix_letter radix = (if radix = 16 then CHR ''x'' else if radix = 8 then CHR ''o'' else if radix = 2 then CHR ''b'' else CHR ''d'')"

definition read_radix_number :: "nat \<Rightarrow> nat \<Rightarrow> val M" where
  "read_radix_number p radix =
     bindM (read_word 127 p) (\<lambda>w.
     let buf = take (cstrlen w) w in
     case scan_integer radix buf of
       Some (z, []) \<Rightarrow> retM (VInt (clamp64 z))
     | _ \<Rightarrow> creme_abort (''read: malformed #'' @ [radix_letter radix] @ '' number literal '' @ [CHR 0x27] @ buf @ [CHR 0x27]))"

text \<open>The value of a token: an integer, a quotient, a double or a symbol.  \<open>-den\<close> overflows for one denominator.\<close>

datatype token_value = TokVal val | TokStuck

definition rational_token :: "arith \<Rightarrow> bytes \<Rightarrow> token_value option" where
  "rational_token A buf =
     (let num_text = takeWhile (\<lambda>c. c \<noteq> CHR ''/'') buf; den_text = drop (Suc (length num_text)) buf in
      if num_text = buf \<or> num_text = [] \<or> den_text = [] then None
      else (case (strtoll 10 buf, strtoll 10 den_text) of
              ((num, e1), (den, e2)) \<Rightarrow>
                if e1 = CHR ''/'' # den_text \<and> e2 = [] \<and> den \<noteq> 0 then
                  (if den = INT64_MIN then Some TokStuck
                   else Some (TokVal (make_rational_from_mpq A
                     (mpq_canonicalize A (if den < 0 then - num else num, \<bar>den\<bar>)))))
                else None))"

definition token_value :: "arith \<Rightarrow> bytes \<Rightarrow> token_value" where
  "token_value A w =
     (let buf = take (cstrlen w) w in
      case scan_integer 10 buf of
        Some (z, []) \<Rightarrow> TokVal (VInt (clamp64 z))
      | _ \<Rightarrow>
          (case rational_token A buf of
             Some t \<Rightarrow> t
           | None \<Rightarrow>
               (case strtod A buf of
                  (d, []) \<Rightarrow> if buf \<noteq> [] then TokVal (VFloat d) else TokVal (VSym w)
                | _ \<Rightarrow> TokVal (VSym w))))"

definition read_token :: "arith \<Rightarrow> nat \<Rightarrow> val M" where
  "read_token A p =
     bindM (read_word 255 p) (\<lambda>w. case token_value A w of TokVal v \<Rightarrow> retM v | TokStuck \<Rightarrow> stuckM)"

subsection \<open>Lists, vectors and data\<close>

definition starts :: "bytes \<Rightarrow> bytes \<Rightarrow> bool" where
  "starts pre bs \<longleftrightarrow> take (length pre) bs = pre"

definition read_list_at ::
  "(nat \<Rightarrow> unit M) \<Rightarrow> (nat \<Rightarrow> char \<Rightarrow> val M) \<Rightarrow> (nat \<Rightarrow> val M) \<Rightarrow> nat \<Rightarrow> char \<Rightarrow> bytes \<Rightarrow> val M" where
  "read_list_at ws lst datum p close bs =
     (case bs of
       [] \<Rightarrow> creme_abort ''read: unterminated list''
     | c # left \<Rightarrow>
         if c = close then bindM (read_on p left) (\<lambda>_. retM VNil)
         else if c = CHR ''.'' \<and> left \<noteq> [] \<and> is_delim (hd left) then
           bindM (read_on p left) (\<lambda>_. bindM (datum p) (\<lambda>tail.
           bindM (ws p) (\<lambda>_. bindM (read_peek p) (\<lambda>c'.
           if c' = Some close then bindM (read_next p) (\<lambda>_. retM tail)
           else creme_abort ''read: malformed dotted list''))))
         else bindM (datum p) (\<lambda>head. bindM (lst p close) (\<lambda>rest. creme_cons head rest)))"

definition read_list_body :: "(nat \<Rightarrow> unit M) \<Rightarrow> (nat \<Rightarrow> char \<Rightarrow> val M) \<Rightarrow> (nat \<Rightarrow> val M) \<Rightarrow> nat \<Rightarrow> char \<Rightarrow> val M" where
  "read_list_body ws lst datum p close =
     bindM (ws p) (\<lambda>_. bindM (rest_of p) (read_list_at ws lst datum p close))"

fun byte_elements :: "val list \<Rightarrow> bytes M" where
  "byte_elements [] = retM []"
| "byte_elements (v # vs) =
     (case v of
        VInt i \<Rightarrow>
          if i < 0 \<or> i > 255 then creme_abort ''read: bytevector literal element out of byte range''
          else bindM (byte_elements vs) (\<lambda>bs. retM (char_of i # bs))
      | _ \<Rightarrow> creme_abort ''read: bytevector literal element out of byte range'')"

definition read_hash_body :: "(nat \<Rightarrow> char \<Rightarrow> val M) \<Rightarrow> nat \<Rightarrow> val M" where
  "read_hash_body lst p =
     bindM (rest_of p) (\<lambda>bs0.
     let bs = tl bs0; c = (if bs = [] then CHR 0x00 else hd bs) in
     if bs = [] then bindM (skip p 1) (\<lambda>_. creme_abort (''read: unsupported '' @ [CHR 0x27] @ ''#?'' @ [CHR 0x27] @ '' syntax''))
     else if c = CHR ''t'' \<or> c = CHR ''f'' then
       bindM (read_on p (dropWhile (\<lambda>d. \<not> is_delim d) bs)) (\<lambda>_. retM (VBool (c = CHR ''t'')))
     else if c = CHR 0x5C then read_char_literal p
     else if c = CHR ''('' then
       bindM (skip p 2) (\<lambda>_. bindM (lst p (CHR '')'')) (\<lambda>l.
       bindM (creme_list_length l) (\<lambda>n. bindM (creme_list_to_values l n ''read'') new_vector)))
     else if starts ''u8('' bs then
       bindM (skip p 4) (\<lambda>_. bindM (lst p (CHR '')'')) (\<lambda>l.
       bindM (list_items l) (\<lambda>(vs, tail). bindM (byte_elements vs) creme_bytevector_value)))
     else if c \<in> {CHR ''x'', CHR ''X''} then bindM (skip p 2) (\<lambda>_. read_radix_number p 16)
     else if c \<in> {CHR ''o'', CHR ''O''} then bindM (skip p 2) (\<lambda>_. read_radix_number p 8)
     else if c \<in> {CHR ''b'', CHR ''B''} then bindM (skip p 2) (\<lambda>_. read_radix_number p 2)
     else if c \<in> {CHR ''d'', CHR ''D''} then bindM (skip p 2) (\<lambda>_. read_radix_number p 10)
     else bindM (skip p 1) (\<lambda>_. creme_abort (''read: unsupported '' @ [CHR 0x27] @ ''#'' @ [c, CHR 0x27] @ '' syntax'')))"

definition quote_form :: "bytes \<Rightarrow> val M \<Rightarrow> val M" where
  "quote_form name m = bindM m (\<lambda>v. cons_list [VSym name, v] VNil)"

definition read_datum_at :: "arith \<Rightarrow> (nat \<Rightarrow> char \<Rightarrow> val M) \<Rightarrow> (nat \<Rightarrow> val M) \<Rightarrow> nat \<Rightarrow> bytes \<Rightarrow> val M" where
  "read_datum_at A lst datum p bs =
     (case bs of
       [] \<Rightarrow> retM eof_object
     | c # left \<Rightarrow>
         if c = CHR ''('' then bindM (read_on p left) (\<lambda>_. lst p (CHR '')''))
         else if c = CHR ''['' then bindM (read_on p left) (\<lambda>_. lst p (CHR '']''))
         else if c = CHR '')'' \<or> c = CHR '']'' then creme_abort (''read: unexpected '' @ [CHR 0x27, c, CHR 0x27])
         else if c = CHR 0x22 then read_string_literal p
         else if c = CHR ''#'' then read_hash_body lst p
         else if c = CHR 0x27 then bindM (read_on p left) (\<lambda>_. quote_form ''quote'' (datum p))
         else if c = CHR 0x60 then bindM (read_on p left) (\<lambda>_. quote_form ''quasiquote'' (datum p))
         else if c = CHR '','' then
           (if left \<noteq> [] \<and> hd left = CHR ''@''
            then bindM (read_on p (tl left)) (\<lambda>_. quote_form ''unquote-splicing'' (datum p))
            else bindM (read_on p left) (\<lambda>_. quote_form ''unquote'' (datum p)))
         else read_token A p)"

definition read_datum_body ::
  "arith \<Rightarrow> (nat \<Rightarrow> unit M) \<Rightarrow> (nat \<Rightarrow> char \<Rightarrow> val M) \<Rightarrow> (nat \<Rightarrow> val M) \<Rightarrow> nat \<Rightarrow> val M" where
  "read_datum_body A ws lst datum p =
     bindM (ws p) (\<lambda>_. bindM (rest_of p) (read_datum_at A lst datum p))"

fun read_skip_ws :: "nat \<Rightarrow> arith \<Rightarrow> nat \<Rightarrow> unit M"
  and read_list :: "nat \<Rightarrow> arith \<Rightarrow> nat \<Rightarrow> char \<Rightarrow> val M"
  and read_datum_text :: "nat \<Rightarrow> arith \<Rightarrow> nat \<Rightarrow> val M" where
  "read_skip_ws 0 A p = (\<lambda>s. Timeout)"
| "read_skip_ws (Suc n) A p = read_skip_ws_body (read_skip_ws n A) (read_datum_text n A) p"
| "read_list 0 A p close = (\<lambda>s. Timeout)"
| "read_list (Suc n) A p close = read_list_body (read_skip_ws n A) (read_list n A) (read_datum_text n A) p close"
| "read_datum_text 0 A p = (\<lambda>s. Timeout)"
| "read_datum_text (Suc n) A p =
     read_datum_body A (read_skip_ws n A) (read_list n A) (read_datum_text n A) p"

text \<open>The fuel of \<open>read\<close>, enough for every text without a bar, which the reader does not get past.\<close>

definition read_fuel :: "bytes \<Rightarrow> nat" where
  "read_fuel bs = 3 * length bs + 2"

definition bi_read :: "arith \<Rightarrow> val list \<Rightarrow> val M" where
  "bi_read A args =
     bindM (input_port_arg args 0 ''read'') (\<lambda>p. bindM (derefM h_ports p) (\<lambda>po.
     bindM (guardM (po_kind po \<noteq> PORT_KIND_INPUT_STRING)
       ''read: only input-string ports are supported by this icecreme build'') (\<lambda>_.
     read_datum_text (read_fuel (port_rest po)) A p)))"

end
