(* ===== verification/Writer.thy ===== *)
theory Writer
  imports Ports
begin

text \<open>
  The writers of icecreme/builtins.c: \<open>write\<close>, and \<open>write-shared\<close> with its datum labels.  They return the text they
  write to their stream.  A value nested deeper than the heap has containers contains itself, and \<open>write\<close> of it
  has no end.
\<close>

fun string_char :: "char \<Rightarrow> bytes" where
  "string_char c =
     (if c = CHR 0x22 then [CHR 0x5C, CHR 0x22] else if c = CHR 0x5C then [CHR 0x5C, CHR 0x5C]
      else if c = CHR 0x0A then [CHR 0x5C, CHR ''n''] else if c = CHR 0x09 then [CHR 0x5C, CHR ''t'']
      else if c = CHR 0x0D then [CHR 0x5C, CHR ''r''] else [c])"

definition write_string_literal :: "bytes \<Rightarrow> bytes" where
  "write_string_literal cs = [CHR 0x22] @ concat (map string_char cs) @ [CHR 0x22]"

definition write_char_literal :: "int \<Rightarrow> bytes" where
  "write_char_literal n =
     [CHR ''#'', CHR 0x5C] @
     (if n = 32 then ''space'' else if n = 10 then ''newline'' else if n = 9 then ''tab''
      else if n = 13 then ''return'' else if n = 0 then ''null'' else [char_of n])"

definition pipe_char :: "char \<Rightarrow> bool" where
  "pipe_char c \<longleftrightarrow> c \<in> {CHR '' '', CHR 0x09, CHR 0x0A, CHR 0x0D, CHR ''('', CHR '')'', CHR ''['', CHR '']'', CHR 0x22,
     CHR '';'', CHR 0x27, CHR 0x60, CHR '','', CHR ''|'', CHR 0x5C}"

definition symbol_needs_pipe_escape :: "bytes \<Rightarrow> bool" where
  "symbol_needs_pipe_escape cs \<longleftrightarrow> cs = [] \<or> list_ex pipe_char cs"

definition write_symbol_literal :: "bytes \<Rightarrow> bytes" where
  "write_symbol_literal cs =
     (if \<not> symbol_needs_pipe_escape cs then cs
      else ''|'' @ concat (map (\<lambda>c. if c = CHR ''|'' \<or> c = CHR 0x5C then [CHR 0x5C, c] else [c]) cs) @ ''|'')"

primrec write_value :: "nat \<Rightarrow> arith \<Rightarrow> val \<Rightarrow> bytes M" where
  "write_value 0 A v = (\<lambda>s. Timeout)"
| "write_value (Suc n) A v =
     (case v of
        VStr p \<Rightarrow> bindM (derefM h_strs p) (\<lambda>cs. retM (write_string_literal cs))
      | VSym cs \<Rightarrow> retM (write_symbol_literal cs)
      | VChar c \<Rightarrow> retM (write_char_literal c)
      | VPair p \<Rightarrow>
          bindM (list_items v) (\<lambda>(vs, tail).
          bindM (mapM (write_value n A) vs) (\<lambda>bs.
          if tail = VNil then retM (''('' @ separate '' '' bs @ '')'')
          else bindM (write_value n A tail) (\<lambda>t.
            retM (''('' @ separate '' '' bs @ '' . '' @ t @ '')''))))
      | VVector p \<Rightarrow>
          bindM (derefM h_vecs p) (\<lambda>vs. bindM (mapM (write_value n A) vs) (\<lambda>bs.
          retM (''#('' @ separate '' '' bs @ '')'')))
      | VBytevector p \<Rightarrow>
          bindM (derefM h_bvs p) (\<lambda>bs.
          retM (''#u8('' @ separate '' '' (map (\<lambda>b. dec (of_char b)) bs) @ '')''))
      | _ \<Rightarrow> display_text A v)"

definition write_text :: "arith \<Rightarrow> val \<Rightarrow> bytes M" where
  "write_text A v = (\<lambda>s. write_value (length (h_pairs s) + length (h_vecs s) + 2) A v s)"

definition write_port :: "val list \<Rightarrow> bytes \<Rightarrow> bytes M \<Rightarrow> val M" where
  "write_port args who text =
     bindM (creme_check_min_args (int (length args)) 1 who) (\<lambda>_.
     bindM (guardM (length args \<ge> 2 \<and> (case args ! 1 of VPort p \<Rightarrow> False | _ \<Rightarrow> True)) (who @ '': expected a port'')) (\<lambda>_.
     bindM text (\<lambda>buf.
     bindM (output_port_arg args 1 who) (\<lambda>p.
     bindM (write_bytes_to_port p buf who) (\<lambda>_. retM VNil)))))"

definition bi_write :: "arith \<Rightarrow> val list \<Rightarrow> val M" where
  "bi_write A args = write_port args ''write'' (write_text A (args ! 0))"

subsection \<open>\<open>write-shared\<close>\<close>

text \<open>\<open>share_ptr_of\<close>: a pair or a vector is its own pointer.  The table has an entry for every pointer, in the
  order they are met; a second meeting only counts.\<close>

record share_entry =
  se_ptr :: "val"
  se_count :: nat
  se_label :: int
  se_printed :: bool

record share_table =
  st_entries :: "share_entry list"
  st_next_label :: int

definition share_lookup :: "share_entry list \<Rightarrow> val \<Rightarrow> nat option" where
  "share_lookup es v = find (\<lambda>i. se_ptr (es ! i) = v) [0..<length es]"

definition new_entry :: "val \<Rightarrow> share_entry" where
  "new_entry v = \<lparr> se_ptr = v, se_count = 1, se_label = -1, se_printed = False \<rparr>"

fun foldM :: "('a \<Rightarrow> 'b \<Rightarrow> 'a M) \<Rightarrow> 'a \<Rightarrow> 'b list \<Rightarrow> 'a M" where
  "foldM f a [] = retM a"
| "foldM f a (x # xs) = bindM (f a x) (\<lambda>a'. foldM f a' xs)"

primrec share_mark :: "nat \<Rightarrow> share_entry list \<Rightarrow> val \<Rightarrow> share_entry list M" where
  "share_mark 0 es v = (\<lambda>s. Timeout)"
| "share_mark (Suc n) es v =
     (case v of
        VPair p \<Rightarrow>
          (case share_lookup es v of
             Some i \<Rightarrow> retM (es[i := (es ! i)\<lparr>se_count := se_count (es ! i) + 1\<rparr>])
           | None \<Rightarrow> bindM (derefM h_pairs p) (\<lambda>(a, d).
               bindM (share_mark n (es @ [new_entry v]) a) (\<lambda>es'. share_mark n es' d)))
      | VVector p \<Rightarrow>
          (case share_lookup es v of
             Some i \<Rightarrow> retM (es[i := (es ! i)\<lparr>se_count := se_count (es ! i) + 1\<rparr>])
           | None \<Rightarrow> bindM (derefM h_vecs p) (\<lambda>vs. foldM (share_mark n) (es @ [new_entry v]) vs))
      | _ \<Rightarrow> retM es)"

text \<open>The prefix of a value that is printed a second time, or first among several: its text so far, the new table and
  whether that is all.\<close>

definition shared :: "share_table \<Rightarrow> val \<Rightarrow> bool" where
  "shared t v \<longleftrightarrow> (case share_lookup (st_entries t) v of Some i \<Rightarrow> se_count (st_entries t ! i) \<ge> 2 | None \<Rightarrow> False)"

definition label_prefix :: "share_table \<Rightarrow> val \<Rightarrow> bytes \<times> share_table \<times> bool" where
  "label_prefix t v =
     (case share_lookup (st_entries t) v of
        None \<Rightarrow> ([], t, False)
      | Some i \<Rightarrow>
          (let e = st_entries t ! i in
           if se_count e < 2 then ([], t, False)
           else if se_printed e then (''#'' @ dec (se_label e) @ ''#'', t, True)
           else let l = (if se_label e < 0 then st_next_label t else se_label e);
                    nl = (if se_label e < 0 then st_next_label t + 1 else st_next_label t) in
             (''#'' @ dec l @ ''='',
              \<lparr> st_entries = (st_entries t)[i := e\<lparr>se_label := l, se_printed := True\<rparr>], st_next_label = nl \<rparr>, False)))"

fun shared_items :: "(share_table \<Rightarrow> val \<Rightarrow> (bytes \<times> share_table) M) \<Rightarrow> share_table \<Rightarrow> val list \<Rightarrow> (bytes list \<times> share_table) M" where
  "shared_items f t [] = retM ([], t)"
| "shared_items f t (v # vs) =
     bindM (f t v) (\<lambda>(b, t'). bindM (shared_items f t' vs) (\<lambda>(bs, t''). retM (b # bs, t'')))"

text \<open>The rest of a list's spine: up to its end, or to a pair that has a label of its own.\<close>

primrec shared_tail :: "nat \<Rightarrow> (share_table \<Rightarrow> val \<Rightarrow> (bytes \<times> share_table) M) \<Rightarrow> share_table \<Rightarrow> val \<Rightarrow> (bytes \<times> share_table) M" where
  "shared_tail 0 f t cur = (\<lambda>s. Timeout)"
| "shared_tail (Suc n) f t cur =
     (case cur of
        VPair p \<Rightarrow>
          if shared t cur then bindM (f t cur) (\<lambda>(b, t'). retM ('' . '' @ b @ '')'', t'))
          else bindM (derefM h_pairs p) (\<lambda>(a, d).
            bindM (f t a) (\<lambda>(b, t'). bindM (shared_tail n f t' d) (\<lambda>(bs, t''). retM ('' '' @ b @ bs, t''))))
      | VNil \<Rightarrow> retM ('')'', t)
      | _ \<Rightarrow> bindM (f t cur) (\<lambda>(b, t'). retM ('' . '' @ b @ '')'', t')))"

primrec write_value_shared :: "nat \<Rightarrow> arith \<Rightarrow> share_table \<Rightarrow> val \<Rightarrow> (bytes \<times> share_table) M" where
  "write_value_shared 0 A t v = (\<lambda>s. Timeout)"
| "write_value_shared (Suc n) A t v =
     (case label_prefix t v of
        (pre, t1, True) \<Rightarrow> retM (pre, t1)
      | (pre, t1, False) \<Rightarrow>
          (case v of
             VPair p \<Rightarrow>
               bindM (derefM h_pairs p) (\<lambda>(a, d).
               bindM (write_value_shared n A t1 a) (\<lambda>(b, t2).
               bindM (getM (\<lambda>s. Suc (length (h_pairs s)))) (\<lambda>k.
               bindM (shared_tail k (write_value_shared n A) t2 d) (\<lambda>(bs, t3).
               retM (pre @ ''('' @ b @ bs, t3)))))
           | VVector p \<Rightarrow>
               bindM (derefM h_vecs p) (\<lambda>vs.
               bindM (shared_items (write_value_shared n A) t1 vs) (\<lambda>(bs, t2).
               retM (pre @ ''#('' @ separate '' '' bs @ '')'', t2)))
           | _ \<Rightarrow> bindM (write_text A v) (\<lambda>b. retM (b, t1))))"

definition write_shared_text :: "arith \<Rightarrow> val \<Rightarrow> bytes M" where
  "write_shared_text A v = (\<lambda>s.
     bindM (share_mark (length (h_pairs s) + length (h_vecs s) + 2) [] v) (\<lambda>es.
     bindM (write_value_shared (length (h_pairs s) + length (h_vecs s) + 2) A \<lparr> st_entries = es, st_next_label = 0 \<rparr> v)
       (\<lambda>(b, t). retM b)) s)"

definition bi_write_shared :: "arith \<Rightarrow> val list \<Rightarrow> val M" where
  "bi_write_shared A args = write_port args ''write-shared'' (write_shared_text A (args ! 0))"

end
