(* ===== verification/Csv.thy ===== *)
theory Csv
  imports Ports
begin

text \<open>
  The CSV library (icecreme/csv.c): the row parser, the writer with its three quoting modes, the builtins on whole texts and the
  readers and writers on ports.  A character source (\<open>CharSrc\<close>) is the text it has left: of a buffer, or of a port.
\<close>

subsection \<open>Parsing a row\<close>

definition eol :: "char \<Rightarrow> bool" where
  "eol c \<longleftrightarrow> c = CHR 0x0D \<or> c = CHR 0x0A"

definition take_eol :: "bytes \<Rightarrow> bytes" where
  "take_eol bs =
     (case bs of
        [] \<Rightarrow> []
      | c # cs \<Rightarrow> if c = CHR 0x0D \<and> cs \<noteq> [] \<and> hd cs = CHR 0x0A then tl cs else cs)"

text \<open>The rest of a cell after its opening quote, and a cell without quotes.\<close>

fun quoted_cell :: "char \<Rightarrow> bytes \<Rightarrow> bytes \<times> bytes" where
  "quoted_cell q [] = ([], [])"
| "quoted_cell q [c] = (if c = q then ([], []) else ([c], []))"
| "quoted_cell q (c # d # cs) =
     (if c = q \<and> d = q then (let (w, left) = quoted_cell q cs in (q # w, left))
      else if c = q then ([], d # cs)
      else (let (w, left) = quoted_cell q (d # cs) in (c # w, left)))"

definition plain_cell :: "char \<Rightarrow> bytes \<Rightarrow> bytes \<times> bytes" where
  "plain_cell sep bs = (let w = takeWhile (\<lambda>c. c \<noteq> sep \<and> \<not> eol c) bs in (w, drop (length w) bs))"

definition csv_cell :: "char \<Rightarrow> char \<Rightarrow> bytes \<Rightarrow> bytes \<times> bytes" where
  "csv_cell sep q bs = (if bs \<noteq> [] \<and> hd bs = q then quoted_cell q (tl bs) else plain_cell sep bs)"

lemma quoted_cell_length: "length (snd (quoted_cell q bs)) \<le> length bs"
  by (induction q bs rule: quoted_cell.induct) (auto split: prod.splits)

lemma csv_cell_length: "length (snd (csv_cell sep q bs)) \<le> length bs"
  using quoted_cell_length [of q "tl bs"] by (auto simp: csv_cell_def plain_cell_def Let_def)

function csv_cells :: "char \<Rightarrow> char \<Rightarrow> bytes \<Rightarrow> bytes list \<times> bytes" where
  "csv_cells sep q bs =
     (case csv_cell sep q bs of
        (w, []) \<Rightarrow> ([w], [])
      | (w, trm # left) \<Rightarrow>
          if trm = sep then
            (if left = [] \<or> eol (hd left) then ([w, []], take_eol left)
             else (let (ws, left') = csv_cells sep q left in (w # ws, left')))
          else if eol trm then ([w], take_eol (trm # left))
          else ([w], trm # left))"
  by pat_completeness auto
termination
proof (relation "measure (\<lambda>(sep, q, bs). length bs)", goal_cases)
  case (2 sep q bs)
  then show ?case using csv_cell_length [of sep q bs] by (cases "csv_cell sep q bs") auto
qed simp

declare csv_cells.simps [simp del]

definition csv_parse_row :: "char \<Rightarrow> char \<Rightarrow> bytes \<Rightarrow> (bytes list \<times> bytes) option" where
  "csv_parse_row sep q bs =
     (case bs of
        [] \<Rightarrow> None
      | c # _ \<Rightarrow> if eol c then Some ([], take_eol bs) else Some (csv_cells sep q bs))"

text \<open>A row takes at least one character, so the loop over the rows ends.\<close>

lemma take_eol_length: "length (take_eol bs) \<le> length bs - 1"
  by (cases bs) (auto simp: take_eol_def)

lemma csv_cells_shorter: "bs \<noteq> [] \<Longrightarrow> \<not> eol (hd bs) \<Longrightarrow> length (snd (csv_cells sep q bs)) < length bs"
proof (induction sep q bs rule: csv_cells.induct)
  case (1 sep q bs)
  obtain w left where cell: "csv_cell sep q bs = (w, left)" by fastforce
  have le: "length left \<le> length bs" using csv_cell_length [of sep q bs] cell by simp
  have shorter: "length left < length bs" if "left = [] \<or> hd left \<noteq> sep \<and> \<not> eol (hd left)"
  proof (cases "hd bs = q")
    case True
    then have "length left \<le> length (tl bs)" using cell 1(2) quoted_cell_length [of q "tl bs"] by (simp add: csv_cell_def)
    then show ?thesis using 1(2) by (cases bs) auto
  next
    case False
    then have "left = drop (length (takeWhile (\<lambda>c. c \<noteq> sep \<and> \<not> eol c) bs)) bs"
      using cell by (auto simp: csv_cell_def plain_cell_def Let_def)
    then have "left = dropWhile (\<lambda>c. c \<noteq> sep \<and> \<not> eol c) bs" by (simp add: dropWhile_eq_drop)
    then have "left = []" using that hd_dropWhile [of "\<lambda>c. c \<noteq> sep \<and> \<not> eol c" bs] by (metis dropWhile_eq_Nil_conv)
    then show ?thesis using 1(2) by simp
  qed
  show ?case
  proof (cases left)
    case Nil
    then show ?thesis using cell 1(2) by (subst csv_cells.simps) simp
  next
    case (Cons trm rest)
    have IH: "trm = sep \<Longrightarrow> rest \<noteq> [] \<Longrightarrow> \<not> eol (hd rest) \<Longrightarrow> length (snd (csv_cells sep q rest)) < length rest"
      using 1(1) cell Cons by auto
    show ?thesis
      using cell Cons le IH shorter take_eol_length [of rest] take_eol_length [of "trm # rest"]
      by (subst csv_cells.simps) (auto split: prod.splits)
  qed
qed

lemma csv_parse_row_shorter: "csv_parse_row sep q bs = Some (ws, left) \<Longrightarrow> length left < length bs"
proof -
  assume row: "csv_parse_row sep q bs = Some (ws, left)"
  then obtain c cs where bs: "bs = c # cs" by (cases bs) (auto simp: csv_parse_row_def)
  show ?thesis
    using row bs take_eol_length [of bs] csv_cells_shorter [of bs sep q] by (cases "eol c") (auto simp: csv_parse_row_def)
qed

function csv_rows :: "char \<Rightarrow> char \<Rightarrow> bytes \<Rightarrow> bytes list list" where
  "csv_rows sep q bs =
     (case csv_parse_row sep q bs of None \<Rightarrow> [] | Some (ws, left) \<Rightarrow> ws # csv_rows sep q left)"
  by pat_completeness auto
termination by (relation "measure (\<lambda>(sep, q, bs). length bs)") (auto dest: csv_parse_row_shorter)

declare csv_rows.simps [simp del]

subsection \<open>Writing a row\<close>

text \<open>The bytes of a cell, and whether it is a string or a character.\<close>

definition csv_cell_bytes :: "arith \<Rightarrow> val \<Rightarrow> bytes M" where
  "csv_cell_bytes A v =
     (case v of
        VStr p \<Rightarrow> derefM h_strs p
      | VChar c \<Rightarrow> retM [char_of c]
      | VBool b \<Rightarrow> retM (if b then ''true'' else ''false'')
      | VInt i \<Rightarrow> retM (dec i)
      | VFloat f \<Rightarrow> retM (printf_17g A f)
      | _ \<Rightarrow> creme_abort ''csv: cannot write cell'')"

definition csv_bytes_need_rfc_quote :: "bytes \<Rightarrow> char \<Rightarrow> char \<Rightarrow> bool" where
  "csv_bytes_need_rfc_quote bs sep q \<longleftrightarrow> list_ex (\<lambda>c. c = sep \<or> c = q \<or> c = CHR 0x0A) bs"

definition csv_cell_text :: "char \<Rightarrow> char \<Rightarrow> int \<Rightarrow> bool \<Rightarrow> bytes \<Rightarrow> bytes" where
  "csv_cell_text sep q mode is_str bs =
     (if mode = 2 \<or> is_str \<and> mode = 1 \<and> csv_bytes_need_rfc_quote bs sep q
      then [q] @ concat (map (\<lambda>c. if c = q then [q, c] else [c]) bs) @ [q]
      else bs)"

text \<open>\<open>dynbuf_append\<close>: the capacity doubles from 64 and must fit an \<open>int\<close>.\<close>

definition dynbuf_append :: "bytes \<Rightarrow> bytes \<Rightarrow> bytes M" where
  "dynbuf_append out bs =
     bindM (guardM (int (length out + length bs) > 2 ^ 30) ''csv: buffer too large'') (\<lambda>_. retM (out @ bs))"

fun csv_write_cells :: "arith \<Rightarrow> char \<Rightarrow> char \<Rightarrow> int \<Rightarrow> bool \<Rightarrow> bytes \<Rightarrow> val list \<Rightarrow> bytes M" where
  "csv_write_cells A sep q mode first out [] = retM out"
| "csv_write_cells A sep q mode first out (v # vs) =
     bindM (if first then retM out else dynbuf_append out [sep]) (\<lambda>out.
     bindM (csv_cell_bytes A v) (\<lambda>bs.
     bindM (dynbuf_append out (csv_cell_text sep q mode (tag_of v \<in> {5, 6}) bs)) (\<lambda>out.
     csv_write_cells A sep q mode False out vs)))"

definition csv_write_row :: "arith \<Rightarrow> char \<Rightarrow> char \<Rightarrow> int \<Rightarrow> bytes \<Rightarrow> val list \<Rightarrow> bytes M" where
  "csv_write_row A sep q mode out vs =
     bindM (csv_write_cells A sep q mode True out vs) (\<lambda>out. dynbuf_append out [CHR 0x0A])"

subsection \<open>Arguments\<close>

definition csv_char_arg :: "val list \<Rightarrow> nat \<Rightarrow> char \<Rightarrow> char M" where
  "csv_char_arg args i dflt =
     (if length args \<le> i then retM dflt
      else case args ! i of VChar c \<Rightarrow> retM (char_of c) | _ \<Rightarrow> creme_abort ''csv: expected a character'')"

definition csv_quoting_arg :: "val list \<Rightarrow> nat \<Rightarrow> int M" where
  "csv_quoting_arg args i =
     (if length args \<le> i then retM 1
      else case args ! i of
        VSym s \<Rightarrow>
          if s = ''none'' then retM 0 else if s = ''rfc'' then retM 1 else if s = ''all'' then retM 2
          else creme_abort ''csv: unknown quoting mode (expected none, rfc, or all)''
      | _ \<Rightarrow> creme_abort ''csv: expected a quoting symbol'')"

text \<open>A row is a vector or the items of a list; anything else is an empty row.\<close>

definition csv_seq_to_array :: "val \<Rightarrow> val list M" where
  "csv_seq_to_array v =
     (case v of VVector p \<Rightarrow> derefM h_vecs p | _ \<Rightarrow> bindM (list_items v) (\<lambda>(vs, tail). retM vs))"

subsection \<open>Whole texts\<close>

definition row_vector :: "bytes list \<Rightarrow> val M" where
  "row_vector ws = bindM (mapM new_str ws) new_vector"

definition bi_csv_read :: "val list \<Rightarrow> val M" where
  "bi_csv_read args =
     bindM (creme_arg_bytes args 0 ''csv-read'') (\<lambda>text.
     bindM (csv_char_arg args 1 (CHR '','')) (\<lambda>sep. bindM (csv_char_arg args 2 (CHR 0x22)) (\<lambda>q.
     bindM (mapM row_vector (csv_rows sep q text)) new_vector)))"

text \<open>A row as an association list under the headers: missing cells are empty, further ones are dropped.\<close>

fun header_alist :: "val list \<Rightarrow> val list \<Rightarrow> val M" where
  "header_alist [] cells = retM VNil"
| "header_alist (h # hs) cells =
     bindM (header_alist hs (tl cells)) (\<lambda>alist.
     bindM (if cells = [] then new_str [] else retM (hd cells)) (\<lambda>cell.
     bindM (creme_cons h cell) (\<lambda>entry. creme_cons entry alist)))"

definition bi_csv_read_headers :: "val list \<Rightarrow> val M" where
  "bi_csv_read_headers args =
     bindM (creme_arg_bytes args 0 ''csv-read-headers'') (\<lambda>text.
     bindM (csv_char_arg args 1 (CHR '','')) (\<lambda>sep. bindM (csv_char_arg args 2 (CHR 0x22)) (\<lambda>q.
     let (hs, left) = (case csv_parse_row sep q text of None \<Rightarrow> ([], []) | Some row \<Rightarrow> row) in
     bindM (mapM new_str hs) (\<lambda>headers.
     bindM (mapM (\<lambda>ws. bindM (mapM new_str ws) (header_alist headers)) (csv_rows sep q left)) new_vector))))"

fun csv_write_rows :: "arith \<Rightarrow> char \<Rightarrow> int \<Rightarrow> bytes \<Rightarrow> val list \<Rightarrow> bytes M" where
  "csv_write_rows A sep mode out [] = retM out"
| "csv_write_rows A sep mode out (r # rs) =
     bindM (csv_seq_to_array r) (\<lambda>cells.
     bindM (csv_write_row A sep (CHR 0x22) mode out cells) (\<lambda>out. csv_write_rows A sep mode out rs))"

definition bi_csv_write :: "arith \<Rightarrow> val list \<Rightarrow> val M" where
  "bi_csv_write A args =
     bindM (creme_check_min_args (int (length args)) 1 ''csv-write'') (\<lambda>_.
     bindM (csv_char_arg args 1 (CHR '','')) (\<lambda>sep. bindM (csv_quoting_arg args 2) (\<lambda>mode.
     bindM (csv_seq_to_array (args ! 0)) (\<lambda>rows.
     bindM (csv_write_rows A sep mode [] rows) new_str))))"

definition bi_csv_write_headers :: "arith \<Rightarrow> val list \<Rightarrow> val M" where
  "bi_csv_write_headers A args =
     bindM (creme_check_min_args (int (length args)) 2 ''csv-write-headers'') (\<lambda>_.
     bindM (csv_char_arg args 2 (CHR '','')) (\<lambda>sep. bindM (csv_quoting_arg args 3) (\<lambda>mode.
     bindM (csv_seq_to_array (args ! 0)) (\<lambda>headers. bindM (csv_seq_to_array (args ! 1)) (\<lambda>rows.
     bindM (csv_write_row A sep (CHR 0x22) mode [] headers) (\<lambda>out.
     bindM (csv_write_rows A sep mode out rows) new_str))))))"

subsection \<open>Readers and writers on ports\<close>

definition bi_csv_reader_open :: "val list \<Rightarrow> val M" where
  "bi_csv_reader_open args =
     bindM (creme_arg_port args 0 ''csv-reader-open'') (\<lambda>p.
     bindM (csv_char_arg args 1 (CHR '','')) (\<lambda>sep. bindM (csv_char_arg args 2 (CHR 0x22)) (\<lambda>q.
     v_box (BoxCsvReader p sep q) BOX_KIND_CSV_READER)))"

definition bi_csv_reader_p :: "val list \<Rightarrow> val M" where
  "bi_csv_reader_p args =
     bindM (creme_check_min_args (int (length args)) 1 ''csv-reader?'') (\<lambda>_.
     retM (VBool (case args ! 0 of VBox k p \<Rightarrow> k = BOX_KIND_CSV_READER | _ \<Rightarrow> False)))"

definition bi_csv_reader_read_bang :: "val list \<Rightarrow> val M" where
  "bi_csv_reader_read_bang args =
     bindM (creme_arg_box args 0 BOX_KIND_CSV_READER ''csv-reader-read!'') (\<lambda>b. bindM (derefM h_boxes b) (\<lambda>box.
     case box of
       BoxCsvReader p sep q \<Rightarrow>
         bindM (stream_of p) (\<lambda>bs.
         case csv_parse_row sep q bs of
           None \<Rightarrow> retM eof_object
         | Some (ws, left) \<Rightarrow> bindM (row_vector ws) (\<lambda>v. bindM (read_on p left) (\<lambda>_. retM v)))
     | _ \<Rightarrow> stuckM))"

definition bi_csv_writer_open :: "val list \<Rightarrow> val M" where
  "bi_csv_writer_open args =
     bindM (creme_arg_port args 0 ''csv-writer-open'') (\<lambda>p.
     bindM (csv_char_arg args 1 (CHR '','')) (\<lambda>sep. bindM (csv_quoting_arg args 2) (\<lambda>mode.
     v_box (BoxCsvWriter p sep (CHR 0x22) mode) BOX_KIND_CSV_WRITER)))"

definition bi_csv_writer_p :: "val list \<Rightarrow> val M" where
  "bi_csv_writer_p args =
     bindM (creme_check_min_args (int (length args)) 1 ''csv-writer?'') (\<lambda>_.
     retM (VBool (case args ! 0 of VBox k p \<Rightarrow> k = BOX_KIND_CSV_WRITER | _ \<Rightarrow> False)))"

definition bi_csv_writer_row_bang :: "arith \<Rightarrow> val list \<Rightarrow> val M" where
  "bi_csv_writer_row_bang A args =
     bindM (creme_arg_box args 0 BOX_KIND_CSV_WRITER ''csv-writer-row!'') (\<lambda>b. bindM (derefM h_boxes b) (\<lambda>box.
     case box of
       BoxCsvWriter p sep q mode \<Rightarrow>
         bindM (csv_write_row A sep q mode [] (tl args)) (\<lambda>out.
         bindM (creme_port_write_bytes p out) (\<lambda>_. retM VNil))
     | _ \<Rightarrow> stuckM))"

definition csv_builtin :: "arith \<Rightarrow> bytes \<Rightarrow> (val list \<Rightarrow> val M) option" where
  "csv_builtin A = map_of
    [(''bi_csv_read'', bi_csv_read), (''bi_csv_read_headers'', bi_csv_read_headers), (''bi_csv_write'', bi_csv_write A),
     (''bi_csv_write_headers'', bi_csv_write_headers A), (''bi_csv_reader_open'', bi_csv_reader_open),
     (''bi_csv_reader_read_bang'', bi_csv_reader_read_bang), (''bi_csv_reader_p'', bi_csv_reader_p),
     (''bi_csv_writer_open'', bi_csv_writer_open), (''bi_csv_writer_row_bang'', bi_csv_writer_row_bang A),
     (''bi_csv_writer_p'', bi_csv_writer_p)]"

end
