(* ===== verification/Json.thy ===== *)
theory Json
  imports C_Text Embed_Args
begin

text \<open>
  The JSON library (icecreme/json.c): a recursive-descent parser with a nesting bound, and the writer.  A reader
  (\<open>JReader\<close>) is the text it has left and the levels it may still go down; the loops over the elements of an array or
  object take the length of the text as fuel.
\<close>

text \<open>\<open>gbuf_reserve\<close>: the capacity doubles from 64 and must fit an \<open>int\<close>.\<close>

definition gbuf_puts :: "bytes \<Rightarrow> bytes \<Rightarrow> bytes res" where
  "gbuf_puts b bs = (if length b + length bs > 2 ^ 30 then Inl (Abort ''json: buffer too large'') else Inr (b @ bs))"

subsection \<open>Strings and numbers\<close>

definition json_blank :: "char \<Rightarrow> bool" where
  "json_blank c \<longleftrightarrow> c \<in> {CHR '' '', CHR 0x09, CHR 0x0A, CHR 0x0D}"

definition jr_skip_ws :: "bytes \<Rightarrow> bytes" where
  "jr_skip_ws bs = dropWhile json_blank bs"

definition invalid :: "bytes \<Rightarrow> bytes" where
  "invalid what = ''json-read: invalid json: '' @ what"

definition json_unescape :: "char \<Rightarrow> char option" where
  "json_unescape e =
     (if e \<in> {CHR 0x22, CHR 0x5C, CHR ''/''} then Some e
      else if e = CHR ''n'' then Some (CHR 0x0A) else if e = CHR ''t'' then Some (CHR 0x09)
      else if e = CHR ''r'' then Some (CHR 0x0D) else if e = CHR ''b'' then Some (CHR 0x08)
      else if e = CHR ''f'' then Some (CHR 0x0C) else None)"

definition utf8 :: "nat \<Rightarrow> bytes" where
  "utf8 cp =
     (if cp < 128 then [char_of cp]
      else if cp < 2048 then [char_of (192 + cp div 64), char_of (128 + cp mod 64)]
      else [char_of (224 + cp div 4096), char_of (128 + cp div 64 mod 64), char_of (128 + cp mod 64)])"

text \<open>The loop of \<open>json_parse_string\<close> after the opening quote: the buffer so far and the text left.\<close>

function json_string_chars :: "bytes \<Rightarrow> bytes \<Rightarrow> (bytes \<times> bytes) res" where
  "json_string_chars b [] = Inl (Abort (invalid ''unterminated string''))"
| "json_string_chars b (c # cs) =
     (if c = CHR 0x22 then Inr (b, cs)
      else if c = CHR 0x5C then
        (case cs of
           [] \<Rightarrow> Inl (Abort (invalid ''unterminated string escape''))
         | e # left \<Rightarrow>
             if e = CHR ''u'' then
               (if length left < 4 then Inl (Abort (invalid (''truncated '' @ [CHR 0x5C] @ ''u escape'')))
                else if \<not> list_all (is_digit_in 16) (take 4 left)
                then Inl (Abort (invalid ([CHR 0x5C] @ ''u escape requires 4 hex digits'')))
                else rbind (gbuf_puts b (utf8 (radix_val 16 0 (take 4 left)))) (\<lambda>b. json_string_chars b (drop 4 left)))
             else
               (case json_unescape e of
                  None \<Rightarrow> Inl (Abort (invalid (''invalid escape character '' @ [CHR 0x27, CHR 0x5C, e, CHR 0x27])))
                | Some d \<Rightarrow> rbind (gbuf_puts b [d]) (\<lambda>b. json_string_chars b left)))
      else rbind (gbuf_puts b [c]) (\<lambda>b. json_string_chars b cs))"
  by pat_completeness auto
termination by (relation "measure (\<lambda>(b, bs). length bs)") auto

definition json_parse_string :: "bytes \<Rightarrow> (val \<times> bytes) M" where
  "json_parse_string bs =
     bindM (liftR (json_string_chars [] bs)) (\<lambda>(cs, left). bindM (new_str cs) (\<lambda>v. retM (v, left)))"

text \<open>The token of a number and whether it is a float.\<close>

definition number_token :: "bytes \<Rightarrow> bytes \<times> bool" where
  "number_token bs =
     (let sign = (if bs \<noteq> [] \<and> hd bs = CHR ''-'' then [CHR ''-''] else []);
          r1 = drop (length sign) bs; ds = takeWhile is_digit r1; r2 = drop (length ds) r1;
          frac = (if r2 \<noteq> [] \<and> hd r2 = CHR ''.'' then CHR ''.'' # takeWhile is_digit (tl r2) else []);
          r3 = drop (length frac) r2;
          ex = (if r3 \<noteq> [] \<and> (hd r3 = CHR ''e'' \<or> hd r3 = CHR ''E'')
                then (let r4 = tl r3; es = (if r4 \<noteq> [] \<and> (hd r4 = CHR ''+'' \<or> hd r4 = CHR ''-'') then [hd r4] else [])
                      in hd r3 # es @ takeWhile is_digit (drop (length es) r4))
                else []) in
      (sign @ ds @ frac @ ex, frac \<noteq> [] \<or> ex \<noteq> []))"

definition json_parse_number :: "arith \<Rightarrow> bytes \<Rightarrow> (val \<times> bytes) M" where
  "json_parse_number A bs =
     (case number_token bs of (tok, float) \<Rightarrow>
        if tok = [] \<or> tok = ''-'' then creme_abort (invalid ''malformed number'')
        else let left = drop (length tok) bs in
          if float then retM (VFloat (fst (strtod A tok)), left)
          else (case scan_integer 10 tok of
                  None \<Rightarrow> retM (VInt 0, left)
                | Some (z, _) \<Rightarrow>
                    if int64 z then retM (VInt z, left) else creme_abort ''json-read: integer literal out of range''))"

subsection \<open>Arrays, objects and values\<close>

type_synonym json_reader = "bytes \<Rightarrow> (val \<times> bytes) M"

text \<open>The loops of \<open>json_parse_object\<close> and \<open>json_parse_array\<close> are the same up to the reader of one item and the closing
  bracket.\<close>

primrec json_items :: "nat \<Rightarrow> json_reader \<Rightarrow> char \<Rightarrow> bytes \<Rightarrow> bytes \<Rightarrow> (val list \<times> bytes) M" where
  "json_items 0 item close what bs = (\<lambda>s. Timeout)"
| "json_items (Suc n) item close what bs =
     bindM (item (jr_skip_ws bs)) (\<lambda>(v, bs1).
     let bs2 = jr_skip_ws bs1 in
     if bs2 \<noteq> [] \<and> hd bs2 = CHR '','' then bindM (json_items n item close what (tl bs2)) (\<lambda>(vs, left). retM (v # vs, left))
     else if bs2 \<noteq> [] \<and> hd bs2 = close then retM ([v], tl bs2)
     else creme_abort (invalid (''expected '' @ [CHR 0x27, CHR '','', CHR 0x27] @ '' or '' @
       [CHR 0x27, close, CHR 0x27] @ '' in '' @ what)))"

definition json_entry :: "json_reader \<Rightarrow> json_reader" where
  "json_entry pv bs =
     (if bs = [] \<or> hd bs \<noteq> CHR 0x22 then creme_abort (invalid ''expected a string key'')
      else bindM (json_parse_string (tl bs)) (\<lambda>(key, bs1).
        let bs2 = jr_skip_ws bs1 in
        if bs2 = [] \<or> hd bs2 \<noteq> CHR '':''
        then creme_abort (invalid (''expected '' @ [CHR 0x27, CHR '':'', CHR 0x27] @ '' after object key''))
        else bindM (pv (jr_skip_ws (tl bs2))) (\<lambda>(v, bs3). bindM (creme_cons key v) (\<lambda>entry. retM (entry, bs3)))))"

definition json_parse_object :: "json_reader \<Rightarrow> json_reader" where
  "json_parse_object pv bs0 =
     (let bs = jr_skip_ws bs0 in
      if bs \<noteq> [] \<and> hd bs = CHR ''}'' then retM (VNil, tl bs)
      else bindM (json_items (Suc (length bs)) (json_entry pv) (CHR ''}'') ''object'' bs) (\<lambda>(es, left).
        bindM (cons_list es VNil) (\<lambda>v. retM (v, left))))"

definition json_parse_array :: "json_reader \<Rightarrow> json_reader" where
  "json_parse_array pv bs0 =
     (let bs = jr_skip_ws bs0 in
      bindM (if bs \<noteq> [] \<and> hd bs = CHR '']'' then retM ([], tl bs)
             else json_items (Suc (length bs)) pv (CHR '']'') ''array'' bs) (\<lambda>(vs, left).
      bindM (new_vector vs) (\<lambda>v. retM (v, left))))"

definition json_literal :: "bytes \<Rightarrow> val \<Rightarrow> json_reader" where
  "json_literal w v bs =
     (if take (length w) bs \<noteq> w then creme_abort (invalid ''malformed literal'') else retM (v, drop (length w) bs))"

definition json_parse_value_impl :: "arith \<Rightarrow> json_reader \<Rightarrow> json_reader" where
  "json_parse_value_impl A pv bs0 =
     (let bs = jr_skip_ws bs0 in
      if bs = [] then creme_abort (invalid ''unexpected end of input'')
      else let c = hd bs in
        if c = CHR ''{'' then json_parse_object pv (tl bs)
        else if c = CHR ''['' then json_parse_array pv (tl bs)
        else if c = CHR 0x22 then json_parse_string (tl bs)
        else if c = CHR ''t'' then json_literal ''true'' (VBool True) bs
        else if c = CHR ''f'' then json_literal ''false'' (VBool False) bs
        else if c = CHR ''n'' then json_literal ''null'' VNil bs
        else if c = CHR ''-'' \<or> is_digit c then json_parse_number A bs
        else creme_abort (invalid (''unexpected character '' @ [CHR 0x27, c, CHR 0x27])))"

definition JSON_MAX_DEPTH :: nat where
  "JSON_MAX_DEPTH = 1000"

text \<open>\<open>json_parse_value\<close> with the levels it may still open.\<close>

primrec json_parse_value :: "arith \<Rightarrow> nat \<Rightarrow> json_reader" where
  "json_parse_value A 0 = (\<lambda>bs. creme_abort (''json-read: nesting too deep (max '' @ dec (int JSON_MAX_DEPTH) @ '')''))"
| "json_parse_value A (Suc d) = json_parse_value_impl A (json_parse_value A d)"

definition bi_json_read :: "arith \<Rightarrow> val list \<Rightarrow> val M" where
  "bi_json_read A args =
     bindM (creme_arg_bytes args 0 ''json-read'') (\<lambda>bs.
     bindM (json_parse_value A JSON_MAX_DEPTH bs) (\<lambda>(v, left).
     bindM (guardM (jr_skip_ws left \<noteq> []) (invalid ''unexpected trailing content'')) (\<lambda>_. retM v)))"

subsection \<open>Writing\<close>

definition json_char :: "char \<Rightarrow> bytes" where
  "json_char c =
     (if c = CHR 0x22 \<or> c = CHR 0x5C then [CHR 0x5C, c]
      else if c = CHR 0x0A then [CHR 0x5C, CHR ''n''] else if c = CHR 0x0D then [CHR 0x5C, CHR ''r'']
      else if c = CHR 0x09 then [CHR 0x5C, CHR ''t'']
      else if (of_char c :: nat) < 32
      then [CHR 0x5C, CHR ''u'', CHR ''0'', CHR ''0'', if (of_char c :: nat) < 16 then CHR ''0'' else CHR ''1'',
            let n = (of_char c :: nat) mod 16 in if n < 10 then char_of (48 + n) else char_of (87 + n)]
      else [c])"

definition json_write_string :: "bytes \<Rightarrow> bytes \<Rightarrow> bytes res" where
  "json_write_string b cs = gbuf_puts b ([CHR 0x22] @ concat (map json_char cs) @ [CHR 0x22])"

text \<open>\<open>is_json_alist\<close> on the elements of a proper list.\<close>

fun is_json_alist :: "val list \<Rightarrow> bool M" where
  "is_json_alist [] = retM True"
| "is_json_alist (v # vs) =
     (case v of
        VPair p \<Rightarrow> bindM (derefM h_pairs p) (\<lambda>(k, _). case k of VStr q \<Rightarrow> is_json_alist vs | _ \<Rightarrow> retM False)
      | _ \<Rightarrow> retM False)"

definition comma :: "bool \<Rightarrow> bytes" where
  "comma first = (if first then [] else [CHR '',''])"

fun write_elements :: "(bytes \<Rightarrow> val \<Rightarrow> bytes M) \<Rightarrow> bool \<Rightarrow> bytes \<Rightarrow> val list \<Rightarrow> bytes M" where
  "write_elements wv first b [] = retM b"
| "write_elements wv first b (v # vs) =
     bindM (liftR (gbuf_puts b (comma first))) (\<lambda>b. bindM (wv b v) (\<lambda>b. write_elements wv False b vs))"

fun write_entries :: "(bytes \<Rightarrow> val \<Rightarrow> bytes M) \<Rightarrow> bool \<Rightarrow> bytes \<Rightarrow> val list \<Rightarrow> bytes M" where
  "write_entries wv first b [] = retM b"
| "write_entries wv first b (v # vs) =
     bindM (liftR (gbuf_puts b (comma first))) (\<lambda>b.
     case v of
       VPair p \<Rightarrow>
         bindM (derefM h_pairs p) (\<lambda>(k, x).
         case k of
           VStr q \<Rightarrow>
             bindM (derefM h_strs q) (\<lambda>cs.
             bindM (liftR (json_write_string b cs)) (\<lambda>b. bindM (liftR (gbuf_puts b '':'')) (\<lambda>b.
             bindM (wv b x) (\<lambda>b. write_entries wv False b vs))))
         | _ \<Rightarrow> stuckM)
     | _ \<Rightarrow> stuckM)"

definition json_float :: "arith \<Rightarrow> double \<Rightarrow> bytes" where
  "json_float A f = (let t = printf_17g A f in if {CHR ''.'', CHR ''e'', CHR ''n''} \<inter> set t = {} then t @ ''.0'' else t)"

primrec json_write_value :: "nat \<Rightarrow> arith \<Rightarrow> bytes \<Rightarrow> val \<Rightarrow> bytes M" where
  "json_write_value 0 A b v = (\<lambda>s. Timeout)"
| "json_write_value (Suc n) A b v =
     (case v of
        VNil \<Rightarrow> liftR (gbuf_puts b ''null'')
      | VBool x \<Rightarrow> liftR (gbuf_puts b (if x then ''true'' else ''false''))
      | VInt i \<Rightarrow> liftR (gbuf_puts b (dec i))
      | VFloat f \<Rightarrow> liftR (gbuf_puts b (json_float A f))
      | VStr p \<Rightarrow> bindM (derefM h_strs p) (\<lambda>cs. liftR (json_write_string b cs))
      | VChar c \<Rightarrow> liftR (json_write_string b [char_of c])
      | VVector p \<Rightarrow>
          bindM (derefM h_vecs p) (\<lambda>vs. bindM (liftR (gbuf_puts b ''['')) (\<lambda>b.
          bindM (write_elements (json_write_value n A) True b vs) (\<lambda>b. liftR (gbuf_puts b '']''))))
      | VPair p \<Rightarrow>
          bindM (list_items v) (\<lambda>(vs, tail).
          if tail \<noteq> VNil then creme_abort ''json-write: cannot serialize improper list''
          else bindM (is_json_alist vs) (\<lambda>alist.
            if alist then bindM (liftR (gbuf_puts b ''{'')) (\<lambda>b.
              bindM (write_entries (json_write_value n A) True b vs) (\<lambda>b. liftR (gbuf_puts b ''}'')))
            else bindM (liftR (gbuf_puts b ''['')) (\<lambda>b.
              bindM (write_elements (json_write_value n A) True b vs) (\<lambda>b. liftR (gbuf_puts b '']'')))))
      | _ \<Rightarrow> creme_abort ''json-write: cannot serialize this value'')"

definition bi_json_write :: "arith \<Rightarrow> val list \<Rightarrow> val M" where
  "bi_json_write A args =
     bindM (creme_check_min_args (int (length args)) 1 ''json-write'') (\<lambda>_. bindM (getM (\<lambda>s. length (h_pairs s) + length (h_vecs s) + 2)) (\<lambda>n.
     bindM (json_write_value n A [] (args ! 0)) new_str))"

definition json_builtin :: "arith \<Rightarrow> bytes \<Rightarrow> (val list \<Rightarrow> val M) option" where
  "json_builtin A = map_of [(''bi_json_read'', bi_json_read A), (''bi_json_write'', bi_json_write A)]"

end
