(* ===== verification/Num_Functions.thy ===== *)
theory Num_Functions
  imports Num_Builtins Embed_Args
begin

text \<open>
  The numeric builtins of icecreme/builtins.c beyond the four operations: predicates, rounding, exact and inexact, powers and
  roots, the transcendental functions on real and complex numbers, rectangular and polar forms, and the random numbers.
  The functions of libm are a parameter (\<open>libm\<close>, by name), a double constant is its 64 bits, and the state of the
  generator is part of the process state.
\<close>

subsection \<open>Doubles\<close>

definition fp_0 :: double where "fp_0 = 0"
definition fp_1 :: double where "fp_1 = 0x3FF0000000000000"
definition fp_2 :: double where "fp_2 = 0x4000000000000000"
definition fp_pi :: double where "fp_pi = 0x400921FB54442D18"
definition fp_2_to_minus_53 :: double where "fp_2_to_minus_53 = 0x3CA0000000000000"

definition fp_neg :: "double \<Rightarrow> double" where
  "fp_neg x = xor x 0x8000000000000000"

definition fp_isfinite :: "arith \<Rightarrow> double \<Rightarrow> bool" where
  "fp_isfinite A x \<longleftrightarrow> \<not> fp_isnan A x \<and> \<not> fp_isinf A x"

definition creme_arg_double :: "arith \<Rightarrow> val list \<Rightarrow> nat \<Rightarrow> bytes \<Rightarrow> double M" where
  "creme_arg_double A args i who = bindM (arg_present args i who) (\<lambda>_. liftR (as_double A (args ! i) who))"

text \<open>A complex number of two doubles, \<open>CD\<close>.\<close>

type_synonym cd = "double \<times> double"

definition cd_mul :: "arith \<Rightarrow> cd \<Rightarrow> cd \<Rightarrow> cd" where
  "cd_mul A a b =
     (fp_sub A (fp_mul A (fst a) (fst b)) (fp_mul A (snd a) (snd b)),
      fp_add A (fp_mul A (fst a) (snd b)) (fp_mul A (snd a) (fst b)))"

definition cd_div :: "arith \<Rightarrow> cd \<Rightarrow> cd \<Rightarrow> cd" where
  "cd_div A a b =
     (let d = fp_add A (fp_mul A (fst b) (fst b)) (fp_mul A (snd b) (snd b)) in
      (fp_div A (fp_add A (fp_mul A (fst a) (fst b)) (fp_mul A (snd a) (snd b))) d,
       fp_div A (fp_sub A (fp_mul A (snd a) (fst b)) (fp_mul A (fst a) (snd b))) d))"

definition cd_exp :: "arith \<Rightarrow> cd \<Rightarrow> cd" where
  "cd_exp A z =
     (let e = libm A ''exp'' [fst z] in (fp_mul A e (libm A ''cos'' [snd z]), fp_mul A e (libm A ''sin'' [snd z])))"

definition cd_abs :: "arith \<Rightarrow> cd \<Rightarrow> double" where
  "cd_abs A z = libm A ''sqrt'' [fp_add A (fp_mul A (fst z) (fst z)) (fp_mul A (snd z) (snd z))]"

definition cd_log :: "arith \<Rightarrow> cd \<Rightarrow> cd" where
  "cd_log A z = (libm A ''log'' [cd_abs A z], libm A ''atan2'' [snd z, fst z])"

definition cd_sqrt :: "arith \<Rightarrow> cd \<Rightarrow> cd" where
  "cd_sqrt A z =
     (let r = cd_abs A z; sre = libm A ''sqrt'' [fp_div A (fp_add A r (fst z)) fp_2];
          sim = libm A ''sqrt'' [fp_div A (fp_sub A r (fst z)) fp_2] in
      (sre, if fp_lt A (snd z) fp_0 then fp_neg sim else sim))"

definition cd_sin :: "arith \<Rightarrow> cd \<Rightarrow> cd" where
  "cd_sin A z =
     (fp_mul A (libm A ''sin'' [fst z]) (libm A ''cosh'' [snd z]), fp_mul A (libm A ''cos'' [fst z]) (libm A ''sinh'' [snd z]))"

definition cd_cos :: "arith \<Rightarrow> cd \<Rightarrow> cd" where
  "cd_cos A z =
     (fp_mul A (libm A ''cos'' [fst z]) (libm A ''cosh'' [snd z]),
      fp_mul A (fp_neg (libm A ''sin'' [fst z])) (libm A ''sinh'' [snd z]))"

definition cd_tan :: "arith \<Rightarrow> cd \<Rightarrow> cd" where
  "cd_tan A z = cd_div A (cd_sin A z) (cd_cos A z)"

text \<open>\<open>sqrt (1 - z^2)\<close>, which the two inverse functions share.\<close>

definition cd_cosine :: "arith \<Rightarrow> cd \<Rightarrow> cd" where
  "cd_cosine A z = (let z2 = cd_mul A z z in cd_sqrt A (fp_sub A fp_1 (fst z2), fp_neg (snd z2)))"

definition cd_asin :: "arith \<Rightarrow> cd \<Rightarrow> cd" where
  "cd_asin A z =
     (let s = cd_cosine A z; l = cd_log A (fp_add A (fp_neg (snd z)) (fst s), fp_add A (fst z) (snd s)) in
      (snd l, fp_neg (fst l)))"

definition cd_acos :: "arith \<Rightarrow> cd \<Rightarrow> cd" where
  "cd_acos A z =
     (let s = cd_cosine A z; l = cd_log A (fp_sub A (fst z) (snd s), fp_add A (snd z) (fst s)) in
      (snd l, fp_neg (fst l)))"

definition cd_atan :: "arith \<Rightarrow> cd \<Rightarrow> cd" where
  "cd_atan A z =
     (let q = cd_div A (fp_add A fp_1 (snd z), fp_neg (fst z)) (fp_sub A fp_1 (snd z), fst z); l = cd_log A q in
      (fp_div A (fp_neg (snd l)) fp_2, fp_div A (fst l) fp_2))"

definition cd_pow :: "arith \<Rightarrow> cd \<Rightarrow> cd \<Rightarrow> cd" where
  "cd_pow A base ex =
     (if fp_eq A (fst base) fp_0 \<and> fp_eq A (snd base) fp_0 then (fp_0, fp_0)
      else cd_exp A (cd_mul A ex (cd_log A base)))"

fun value_to_cd :: "arith \<Rightarrow> val \<Rightarrow> bytes \<Rightarrow> cd res" where
  "value_to_cd A (VComplex re im) who =
     rbind (as_double A re who) (\<lambda>x. rbind (as_double A im who) (\<lambda>y. Inr (x, y)))"
| "value_to_cd A v who = rbind (as_double A v who) (\<lambda>x. Inr (x, fp_0))"

definition cd_to_value :: "cd \<Rightarrow> val" where
  "cd_to_value z = make_complex (VFloat (fst z)) (VFloat (snd z))"

subsection \<open>Powers and roots\<close>

fun is_integer_valued :: "arith \<Rightarrow> val \<Rightarrow> bool" where
  "is_integer_valued A (VInt i) = True"
| "is_integer_valued A (VBigint z) = True"
| "is_integer_valued A (VFloat f) = (fp_isfinite A f \<and> fp_eq A f (libm A ''floor'' [f]))"
| "is_integer_valued A v = False"

definition expt_inexact :: "arith \<Rightarrow> val \<Rightarrow> val \<Rightarrow> val res" where
  "expt_inexact A base ex =
     rbind (if is_exact_real base \<or> is_float base then rbind (as_double A base ''expt'') (\<lambda>d. Inr (fp_lt A d fp_0)) else Inr False) (\<lambda>neg.
     if is_complex base \<or> is_complex ex \<or> (neg \<and> \<not> is_integer_valued A ex) then
       rbind (value_to_cd A base ''expt'') (\<lambda>b. rbind (value_to_cd A ex ''expt'') (\<lambda>e. Inr (cd_to_value (cd_pow A b e))))
     else rbind (as_double A base ''expt'') (\<lambda>b. rbind (as_double A ex ''expt'') (\<lambda>e. Inr (VFloat (libm A ''pow'' [b, e])))))"

definition expt_exact :: "arith \<Rightarrow> int \<Rightarrow> int \<Rightarrow> val res" where
  "expt_exact A b e =
     (if e \<ge> 0 then Inr (make_bigint_from_mpz A (mpz_pow_ui A b (nat e)))
      else rbind (abort_if (mpz_sgn A b = 0) ''expt: division by zero (0 raised to a negative power)'') (\<lambda>_.
        Inr (make_rational_from_mpq A (mpq_canonicalize A (mpq_inv A (mpz_pow_ui A b (nat (mpz_abs A e)), 1))))))"

definition bi_expt :: "arith \<Rightarrow> val list \<Rightarrow> val M" where
  "bi_expt A args =
     bindM (creme_check_exact_args (nargs_of args) 2 ''expt'') (\<lambda>_.
     liftR (case (args ! 0, args ! 1) of
         (VInt b, VInt e) \<Rightarrow> expt_exact A b e
       | (VBigint b, VInt e) \<Rightarrow> expt_exact A b e
       | (base, ex) \<Rightarrow> expt_inexact A base ex))"

text \<open>The square root of an \<open>int64_t\<close>: a first guess by doubles, then two loops that correct it.  Products and sums that do
  not fit are undefined.\<close>

definition i64_ok :: "int \<Rightarrow> int res" where
  "i64_ok r = (if int64 r then Inr r else Inl Undef)"

function root_down :: "int \<Rightarrow> int \<Rightarrow> int res" where
  "root_down n r =
     (if r > 0 then (if \<not> int64 (r * r) then Inl Undef else if r * r > n then root_down n (r - 1) else Inr r) else Inr r)"
  by pat_completeness auto
termination by (relation "measure (\<lambda>(n, r). nat r)") auto

lemma square_above: "(i::int) \<le> i * i"
  by (cases "i \<le> 0") (auto simp: mult_le_cancel_left1 order_trans)

function root_up :: "int \<Rightarrow> int \<Rightarrow> int res" where
  "root_up n r =
     (if \<not> int64 (r + 1) \<or> \<not> int64 ((r + 1) * (r + 1)) then Inl Undef
      else if (r + 1) * (r + 1) \<le> n then root_up n (r + 1) else Inr r)"
  by pat_completeness auto
termination
proof (relation "measure (\<lambda>(n, r). nat (n - r))", goal_cases)
  case (2 n r)
  then have "r + 1 \<le> n" using square_above [of "r + 1"] by linarith
  then show ?case by simp
qed simp

declare root_down.simps [simp del] root_up.simps [simp del]

definition int_sqrt :: "arith \<Rightarrow> int \<Rightarrow> int res" where
  "int_sqrt A n = rbind (root_down n (fp_to_int64 A (libm A ''sqrt'' [fp_of_int64 A n]))) (root_up n)"

definition bi_exact_integer_sqrt :: "arith \<Rightarrow> val list \<Rightarrow> val M" where
  "bi_exact_integer_sqrt A args =
     bindM (creme_check_min_args (nargs_of args) 1 ''exact-integer-sqrt'') (\<lambda>_.
     case args ! 0 of
       VInt n \<Rightarrow>
         bindM (guardM (n < 0) ''exact-integer-sqrt: expected a non-negative integer'') (\<lambda>_.
         bindM (liftR (int_sqrt A n)) (\<lambda>rt. make_values2 (VInt rt) (VInt (n - rt * rt))))
     | VBigint z \<Rightarrow>
         bindM (guardM (mpz_sgn A z < 0) ''exact-integer-sqrt: expected a non-negative integer'') (\<lambda>_.
         case mpz_sqrtrem A z of (rt, rem) \<Rightarrow>
           make_values2 (make_bigint_from_mpz A rt) (make_bigint_from_mpz A rem))
     | _ \<Rightarrow> creme_abort ''exact-integer-sqrt: expected a non-negative integer'')"

definition bi_sqrt :: "arith \<Rightarrow> val list \<Rightarrow> val M" where
  "bi_sqrt A args =
     bindM (creme_check_min_args (nargs_of args) 1 ''sqrt'') (\<lambda>_.
     let v = args ! 0;
         inexact = rbind (as_double A v ''sqrt'') (\<lambda>d. Inr
           (if fp_lt A d fp_0 then make_complex (VFloat fp_0) (VFloat (libm A ''sqrt'' [fp_neg d])) else VFloat (libm A ''sqrt'' [d]))) in
     liftR (case v of
         VComplex re im \<Rightarrow> rbind (value_to_cd A v ''sqrt'') (\<lambda>z. Inr (cd_to_value (cd_sqrt A z)))
       | VInt n \<Rightarrow>
           if n \<ge> 0 then rbind (int_sqrt A n) (\<lambda>rt. Inr
             (if rt * rt = n then VInt rt else VFloat (libm A ''sqrt'' [fp_of_int64 A n])))
           else inexact
       | _ \<Rightarrow> inexact))"

subsection \<open>Transcendental functions\<close>

definition cd_builtin :: "arith \<Rightarrow> bytes \<Rightarrow> (cd \<Rightarrow> cd) \<Rightarrow> val list \<Rightarrow> val M" where
  "cd_builtin A who f args =
     bindM (creme_check_min_args (nargs_of args) 1 who) (\<lambda>_.
     if is_complex (args ! 0) then liftR (rbind (value_to_cd A (args ! 0) who) (\<lambda>z. Inr (cd_to_value (f z))))
     else bindM (creme_arg_double A args 0 who) (\<lambda>x. retM (VFloat (libm A who [x]))))"

definition bi_sin :: "arith \<Rightarrow> val list \<Rightarrow> val M" where "bi_sin A = cd_builtin A ''sin'' (cd_sin A)"
definition bi_cos :: "arith \<Rightarrow> val list \<Rightarrow> val M" where "bi_cos A = cd_builtin A ''cos'' (cd_cos A)"
definition bi_tan :: "arith \<Rightarrow> val list \<Rightarrow> val M" where "bi_tan A = cd_builtin A ''tan'' (cd_tan A)"
definition bi_atan :: "arith \<Rightarrow> val list \<Rightarrow> val M" where "bi_atan A = cd_builtin A ''atan'' (cd_atan A)"
definition bi_exp :: "arith \<Rightarrow> val list \<Rightarrow> val M" where "bi_exp A = cd_builtin A ''exp'' (cd_exp A)"

text \<open>\<open>asin\<close> and \<open>acos\<close> leave the reals outside the interval from -1 to 1.\<close>

definition arc_builtin :: "arith \<Rightarrow> bytes \<Rightarrow> (cd \<Rightarrow> cd) \<Rightarrow> val list \<Rightarrow> val M" where
  "arc_builtin A who f args =
     bindM (creme_check_min_args (nargs_of args) 1 who) (\<lambda>_.
     if is_complex (args ! 0) then liftR (rbind (value_to_cd A (args ! 0) who) (\<lambda>z. Inr (cd_to_value (f z))))
     else bindM (creme_arg_double A args 0 who) (\<lambda>x. retM
       (if fp_lt A fp_1 (fp_abs A x) then cd_to_value (f (x, fp_0)) else VFloat (libm A who [x]))))"

definition bi_asin :: "arith \<Rightarrow> val list \<Rightarrow> val M" where "bi_asin A = arc_builtin A ''asin'' (cd_asin A)"
definition bi_acos :: "arith \<Rightarrow> val list \<Rightarrow> val M" where "bi_acos A = arc_builtin A ''acos'' (cd_acos A)"

definition libm_builtin :: "arith \<Rightarrow> bytes \<Rightarrow> val list \<Rightarrow> val M" where
  "libm_builtin A who args = bindM (creme_arg_double A args 0 who) (\<lambda>x. retM (VFloat (libm A who [x])))"

definition libm_builtin2 :: "arith \<Rightarrow> bytes \<Rightarrow> val list \<Rightarrow> val M" where
  "libm_builtin2 A who args =
     bindM (creme_arg_double A args 0 who) (\<lambda>x. bindM (creme_arg_double A args 1 who) (\<lambda>y. retM (VFloat (libm A who [x, y]))))"

definition bi_log2 :: "arith \<Rightarrow> val list \<Rightarrow> val M" where "bi_log2 A = libm_builtin A ''log2''"
definition bi_log10 :: "arith \<Rightarrow> val list \<Rightarrow> val M" where "bi_log10 A = libm_builtin A ''log10''"
definition bi_atan2 :: "arith \<Rightarrow> val list \<Rightarrow> val M" where "bi_atan2 A = libm_builtin2 A ''atan2''"
definition bi_pow :: "arith \<Rightarrow> val list \<Rightarrow> val M" where "bi_pow A = libm_builtin2 A ''pow''"
definition bi_hypot :: "arith \<Rightarrow> val list \<Rightarrow> val M" where "bi_hypot A = libm_builtin2 A ''hypot''"

definition bi_log :: "arith \<Rightarrow> val list \<Rightarrow> val M" where
  "bi_log A args =
     bindM (creme_check_min_args (nargs_of args) 1 ''log'') (\<lambda>_.
     if length args = 1 then
       (if is_complex (args ! 0) then liftR (rbind (value_to_cd A (args ! 0) ''log'') (\<lambda>z. Inr (cd_to_value (cd_log A z))))
        else liftR (rbind (as_double A (args ! 0) ''log'') (\<lambda>x. Inr
          (if fp_lt A x fp_0 then cd_to_value (cd_log A (x, fp_0)) else VFloat (libm A ''log'' [x])))))
     else liftR (rbind (as_double A (args ! 0) ''log'') (\<lambda>x. rbind (as_double A (args ! 1) ''log'') (\<lambda>b.
       Inr (VFloat (fp_div A (libm A ''log'' [x]) (libm A ''log'' [b])))))))"

definition bi_flonum_to_bits :: "val list \<Rightarrow> val M" where
  "bi_flonum_to_bits args =
     (case args of VFloat f # _ \<Rightarrow> retM (VInt (sint f)) | _ \<Rightarrow> creme_abort ''flonum->bits: expected a float'')"

definition bi_bits_to_flonum :: "val list \<Rightarrow> val M" where
  "bi_bits_to_flonum args = bindM (creme_arg_int args 0 ''bits->flonum'') (\<lambda>i. retM (VFloat (word_of_int i)))"

subsection \<open>Predicates\<close>

text \<open>A predicate that looks at its first argument, which must be there.\<close>

definition number_test :: "bytes \<Rightarrow> (val \<Rightarrow> bool M) \<Rightarrow> val list \<Rightarrow> val M" where
  "number_test who p args =
     bindM (creme_check_min_args (nargs_of args) 1 who) (\<lambda>_. bindM (p (args ! 0)) (\<lambda>b. retM (VBool b)))"

definition bi_nan_p :: "arith \<Rightarrow> val list \<Rightarrow> val M" where
  "bi_nan_p A = number_test ''nan?'' (\<lambda>v. case v of VFloat f \<Rightarrow> retM (fp_isnan A f) | _ \<Rightarrow> retM False)"

definition bi_infinite_p :: "arith \<Rightarrow> val list \<Rightarrow> val M" where
  "bi_infinite_p A = number_test ''infinite?'' (\<lambda>v. case v of VFloat f \<Rightarrow> retM (fp_isinf A f) | _ \<Rightarrow> retM False)"

definition bi_finite_p :: "arith \<Rightarrow> val list \<Rightarrow> val M" where
  "bi_finite_p A = number_test ''finite?'' (\<lambda>v. case v of VFloat f \<Rightarrow> retM (fp_isfinite A f) | _ \<Rightarrow> retM True)"

definition bi_complex_p :: "val list \<Rightarrow> val M" where
  "bi_complex_p = number_test ''number?'' (\<lambda>v. retM (tag_of v \<in> {2, 23, 3, 24, 25}))"

definition bi_integer_p :: "arith \<Rightarrow> val list \<Rightarrow> val M" where
  "bi_integer_p A = number_test ''integer?'' (\<lambda>v. case v of
       VInt i \<Rightarrow> retM True | VBigint z \<Rightarrow> retM True
     | VFloat f \<Rightarrow> retM (fp_eq A f (libm A ''floor'' [f])) | _ \<Rightarrow> retM False)"

definition bi_rational_p :: "arith \<Rightarrow> val list \<Rightarrow> val M" where
  "bi_rational_p A = number_test ''rational?'' (\<lambda>v. case v of
       VInt i \<Rightarrow> retM True | VBigint z \<Rightarrow> retM True | VRational n d \<Rightarrow> retM True
     | VFloat f \<Rightarrow> retM (fp_isfinite A f) | _ \<Rightarrow> retM False)"

definition bi_zero_p :: "arith \<Rightarrow> val list \<Rightarrow> val M" where
  "bi_zero_p A = number_test ''zero?'' (\<lambda>v. case v of
       VInt i \<Rightarrow> retM (i = 0) | VFloat f \<Rightarrow> retM (fp_eq A f fp_0)
     | VBigint z \<Rightarrow> retM False | VRational n d \<Rightarrow> retM False | _ \<Rightarrow> creme_abort ''zero?: not a number'')"

definition bi_positive_p :: "arith \<Rightarrow> val list \<Rightarrow> val M" where
  "bi_positive_p A = number_test ''positive?'' (\<lambda>v. case v of
       VInt i \<Rightarrow> retM (i > 0) | VFloat f \<Rightarrow> retM (fp_lt A fp_0 f)
     | VBigint z \<Rightarrow> retM (mpz_sgn A z > 0) | VRational n d \<Rightarrow> retM (mpq_sgn A (n, d) > 0)
     | _ \<Rightarrow> creme_abort ''positive?: not a number'')"

definition bi_negative_p :: "arith \<Rightarrow> val list \<Rightarrow> val M" where
  "bi_negative_p A = number_test ''negative?'' (\<lambda>v. case v of
       VInt i \<Rightarrow> retM (i < 0) | VFloat f \<Rightarrow> retM (fp_lt A f fp_0)
     | VBigint z \<Rightarrow> retM (mpz_sgn A z < 0) | VRational n d \<Rightarrow> retM (mpq_sgn A (n, d) < 0)
     | _ \<Rightarrow> creme_abort ''negative?: not a number'')"

text \<open>\<open>mpz_odd_p\<close> and \<open>mpz_even_p\<close> are macros that look at the last bit.\<close>

definition bi_odd_p :: "val list \<Rightarrow> val M" where
  "bi_odd_p args =
     bindM (creme_check_min_args (nargs_of args) 1 ''odd?'') (\<lambda>_.
     case args ! 0 of
       VBigint z \<Rightarrow> retM (VBool (odd z))
     | _ \<Rightarrow> bindM (creme_arg_int args 0 ''odd?'') (\<lambda>i. retM (VBool (i smod 2 \<noteq> 0))))"

definition bi_even_p :: "val list \<Rightarrow> val M" where
  "bi_even_p args =
     bindM (creme_check_min_args (nargs_of args) 1 ''even?'') (\<lambda>_.
     case args ! 0 of
       VBigint z \<Rightarrow> retM (VBool (even z))
     | _ \<Rightarrow> bindM (creme_arg_int args 0 ''even?'') (\<lambda>i. retM (VBool (i smod 2 = 0))))"

subsection \<open>Absolute value, extrema and rounding\<close>

definition bi_square :: "arith \<Rightarrow> val list \<Rightarrow> val M" where
  "bi_square A args =
     bindM (creme_check_min_args (nargs_of args) 1 ''square'') (\<lambda>_. liftR (num_mul A (args ! 0) (args ! 0)))"

definition bi_abs :: "arith \<Rightarrow> val list \<Rightarrow> val M" where
  "bi_abs A args =
     bindM (creme_check_min_args (nargs_of args) 1 ''abs'') (\<lambda>_.
     case args ! 0 of
       VInt i \<Rightarrow> retM (if i = INT64_MIN then make_bigint_from_mpz A (mpz_neg A i) else VInt (if i < 0 then - i else i))
     | VFloat f \<Rightarrow> retM (VFloat (fp_abs A f))
     | VBigint z \<Rightarrow> retM (if mpz_sgn A z \<ge> 0 then VBigint z else make_bigint_from_mpz A (mpz_neg A z))
     | VRational n d \<Rightarrow> retM (if mpq_sgn A (n, d) \<ge> 0 then VRational n d else make_rational_from_mpq A (mpq_neg A (n, d)))
     | _ \<Rightarrow> creme_abort ''abs: not a number'')"

fun extremum :: "(val \<Rightarrow> val \<Rightarrow> bool res) \<Rightarrow> val \<Rightarrow> val list \<Rightarrow> val res" where
  "extremum better m [] = Inr m"
| "extremum better m (v # vs) = rbind (better v m) (\<lambda>b. extremum better (if b then v else m) vs)"

definition bi_min :: "arith \<Rightarrow> val list \<Rightarrow> val M" where
  "bi_min A args =
     bindM (creme_check_min_args (nargs_of args) 1 ''min'') (\<lambda>_. liftR (extremum (num_lt A) (hd args) (tl args)))"

definition bi_max :: "arith \<Rightarrow> val list \<Rightarrow> val M" where
  "bi_max A args =
     bindM (creme_check_min_args (nargs_of args) 1 ''max'') (\<lambda>_. liftR (extremum (num_gt A) (hd args) (tl args)))"

text \<open>What the four rounding builtins share: an exact integer is its own value.\<close>

definition rounding :: "arith \<Rightarrow> bytes \<Rightarrow> bytes \<Rightarrow> (int \<Rightarrow> int \<Rightarrow> int) \<Rightarrow> val list \<Rightarrow> val M" where
  "rounding A who fname f args =
     bindM (creme_check_min_args (nargs_of args) 1 who) (\<lambda>_.
     case args ! 0 of
       VInt i \<Rightarrow> retM (VInt i)
     | VBigint z \<Rightarrow> retM (VBigint z)
     | VFloat x \<Rightarrow> retM (VFloat (libm A fname [x]))
     | VRational n d \<Rightarrow> retM (make_bigint_from_mpz A (f n d))
     | _ \<Rightarrow> creme_abort (who @ '': not a number''))"

definition round_half_even :: "arith \<Rightarrow> int \<Rightarrow> int \<Rightarrow> int" where
  "round_half_even A n d =
     (let floor_q = mpz_fdiv_q A n d; rem2 = mpz_fdiv_r A n d; cmp = mpz_cmp A (mpz_mul A rem2 2) d in
      if cmp > 0 \<or> (cmp = 0 \<and> odd floor_q) then mpz_add A floor_q 1 else floor_q)"

definition bi_round :: "arith \<Rightarrow> val list \<Rightarrow> val M" where
  "bi_round A = rounding A ''round'' ''round'' (round_half_even A)"

definition bi_floor :: "arith \<Rightarrow> val list \<Rightarrow> val M" where
  "bi_floor A = rounding A ''floor'' ''floor'' (mpz_fdiv_q A)"

definition bi_ceiling :: "arith \<Rightarrow> val list \<Rightarrow> val M" where
  "bi_ceiling A = rounding A ''ceiling'' ''ceil'' (mpz_cdiv_q A)"

definition bi_truncate :: "arith \<Rightarrow> val list \<Rightarrow> val M" where
  "bi_truncate A = rounding A ''truncate'' ''trunc'' (mpz_tdiv_q A)"

text \<open>The conversion of a double that is not finite or does not fit is undefined.\<close>

definition bi_exact :: "arith \<Rightarrow> val list \<Rightarrow> val M" where
  "bi_exact A args =
     bindM (creme_check_min_args (nargs_of args) 1 ''exact'') (\<lambda>_.
     case args ! 0 of
       VInt i \<Rightarrow> retM (VInt i)
     | VBigint z \<Rightarrow> retM (VBigint z)
     | VRational n d \<Rightarrow> retM (VRational n d)
     | VFloat f \<Rightarrow>
         if \<not> fp_isfinite A f \<or> fp_lt A f 0xC3E0000000000000 \<or> fp_le A 0x43E0000000000000 f then stuckM
         else retM (VInt (fp_to_int64 A f))
     | _ \<Rightarrow> creme_abort ''exact: not a number'')"

definition bi_inexact :: "arith \<Rightarrow> val list \<Rightarrow> val M" where
  "bi_inexact A args =
     bindM (creme_check_min_args (nargs_of args) 1 ''inexact'') (\<lambda>_.
     case args ! 0 of
       VFloat f \<Rightarrow> retM (VFloat f)
     | VInt i \<Rightarrow> retM (VFloat (fp_of_int64 A i))
     | VBigint z \<Rightarrow> retM (VFloat (mpz_get_d A z))
     | VRational n d \<Rightarrow> retM (VFloat (mpq_get_d A (n, d)))
     | _ \<Rightarrow> creme_abort ''inexact: not a number'')"

subsection \<open>Complex numbers\<close>

definition is_real_component :: "val \<Rightarrow> bool" where
  "is_real_component v \<longleftrightarrow> is_exact_real v \<or> is_float v"

definition bi_make_rectangular :: "val list \<Rightarrow> val M" where
  "bi_make_rectangular args =
     (if length args \<noteq> 2 \<or> \<not> is_real_component (args ! 0) \<or> \<not> is_real_component (args ! 1)
      then creme_abort ''make-rectangular: expected two real numbers''
      else retM (make_complex (args ! 0) (args ! 1)))"

definition bi_make_polar :: "arith \<Rightarrow> val list \<Rightarrow> val M" where
  "bi_make_polar A args =
     bindM (creme_check_exact_args (nargs_of args) 2 ''make-polar'') (\<lambda>_.
     liftR (rbind (as_double A (args ! 0) ''make-polar'') (\<lambda>mag. rbind (as_double A (args ! 1) ''make-polar'') (\<lambda>ang.
       Inr (make_complex (VFloat (fp_mul A mag (libm A ''cos'' [ang]))) (VFloat (fp_mul A mag (libm A ''sin'' [ang]))))))))"

definition bi_real_part :: "val list \<Rightarrow> val M" where
  "bi_real_part args =
     bindM (creme_check_exact_args (nargs_of args) 1 ''real-part'') (\<lambda>_.
     case args ! 0 of
       VComplex re im \<Rightarrow> retM re
     | v \<Rightarrow> if is_real_component v then retM v else creme_abort ''real-part: not a number'')"

definition bi_imag_part :: "val list \<Rightarrow> val M" where
  "bi_imag_part args =
     bindM (creme_check_exact_args (nargs_of args) 1 ''imag-part'') (\<lambda>_.
     case args ! 0 of
       VComplex re im \<Rightarrow> retM im
     | v \<Rightarrow> if is_real_component v then retM (VInt 0) else creme_abort ''imag-part: not a number'')"

definition magnitude_of :: "arith \<Rightarrow> val \<Rightarrow> val \<Rightarrow> val res" where
  "magnitude_of A re im =
     rbind (num_mul A re re) (\<lambda>r2. rbind (num_mul A im im) (\<lambda>i2. rbind (num_add A r2 i2) (\<lambda>sumsq.
     let inexact = rbind (as_double A sumsq ''magnitude'') (\<lambda>d. Inr (VFloat (libm A ''sqrt'' [d]))) in
     case sumsq of
       VInt n \<Rightarrow>
         if n \<ge> 0 then rbind (int_sqrt A n) (\<lambda>rt. if rt * rt = n then Inr (VInt rt) else inexact)
         else inexact
     | VBigint z \<Rightarrow>
         (case mpz_sqrtrem A z of (rt, rem) \<Rightarrow>
            if mpz_sgn A rem = 0 then Inr (make_bigint_from_mpz A rt) else inexact)
     | _ \<Rightarrow> inexact)))"

definition bi_magnitude :: "arith \<Rightarrow> val list \<Rightarrow> val M" where
  "bi_magnitude A args =
     bindM (creme_check_exact_args (nargs_of args) 1 ''magnitude'') (\<lambda>_.
     case args ! 0 of VComplex re im \<Rightarrow> liftR (magnitude_of A re im) | _ \<Rightarrow> bi_abs A args)"

definition bi_angle :: "arith \<Rightarrow> val list \<Rightarrow> val M" where
  "bi_angle A args =
     bindM (creme_check_exact_args (nargs_of args) 1 ''angle'') (\<lambda>_.
     case args ! 0 of
       VComplex re im \<Rightarrow>
         liftR (rbind (as_double A im ''angle'') (\<lambda>y. rbind (as_double A re ''angle'') (\<lambda>x. Inr (VFloat (libm A ''atan2'' [y, x])))))
     | v \<Rightarrow> if is_real_component v
         then liftR (rbind (as_double A v ''angle'') (\<lambda>d. Inr (VFloat (if fp_lt A d fp_0 then fp_pi else fp_0))))
         else creme_abort ''angle: not a number'')"

subsection \<open>Random numbers\<close>

text \<open>One step of the generator: the new state and the output.\<close>

definition splitmix64 :: "64 word \<Rightarrow> 64 word \<times> 64 word" where
  "splitmix64 st =
     (let st' = st + 0x9e3779b97f4a7c15;
          z1 = xor st' (drop_bit 30 st') * 0xbf58476d1ce4e5b9;
          z2 = xor z1 (drop_bit 27 z1) * 0x94d049bb133111eb in
      (st', xor z2 (drop_bit 31 z2)))"

definition rng_next :: "64 word M" where
  "rng_next = (\<lambda>s. case splitmix64 (h_rng_state s) of (st, z) \<Rightarrow> Done z (s\<lparr>h_rng_state := st\<rparr>))"

definition bi_random_real :: "arith \<Rightarrow> val list \<Rightarrow> val M" where
  "bi_random_real A args =
     bindM rng_next (\<lambda>z. retM (VFloat (fp_mul A (fp_of_int64 A (uint (drop_bit 11 z))) fp_2_to_minus_53)))"

definition bi_random_integer :: "val list \<Rightarrow> val M" where
  "bi_random_integer args =
     bindM (creme_arg_int args 0 ''random-integer'') (\<lambda>n.
     bindM (guardM (n \<le> 0) ''random-integer: n must be positive'') (\<lambda>_.
     bindM rng_next (\<lambda>z. retM (VInt (uint z mod n)))))"

definition bi_random_seed_bang :: "val list \<Rightarrow> val M" where
  "bi_random_seed_bang args =
     bindM (creme_arg_int args 0 ''random-seed!'') (\<lambda>n.
     bindM (modM (\<lambda>s. s\<lparr>h_rng_state := word_of_int n\<rparr>)) (\<lambda>_. retM VNil))"

definition bi_random_choice :: "val list \<Rightarrow> val M" where
  "bi_random_choice args =
     bindM (creme_check_min_args (nargs_of args) 1 ''random-choice'') (\<lambda>_.
     bindM (list_items (args ! 0)) (\<lambda>(vs, tail).
     bindM (guardM (vs = []) ''random-choice: expects a non-empty list'') (\<lambda>_.
     bindM rng_next (\<lambda>z. retM (vs ! (unat z mod length vs))))))"

text \<open>The loop of the shuffle from index \<open>i\<close> down.\<close>

primrec shuffle_from :: "nat \<Rightarrow> val list \<Rightarrow> val list M" where
  "shuffle_from 0 arr = retM arr"
| "shuffle_from (Suc i) arr =
     bindM rng_next (\<lambda>z. let j = unat z mod (i + 2) in shuffle_from i (arr[Suc i := arr ! j, j := arr ! Suc i]))"

definition bi_random_shuffle :: "val list \<Rightarrow> val M" where
  "bi_random_shuffle args =
     bindM (creme_check_min_args (nargs_of args) 1 ''random-shuffle'') (\<lambda>_.
     bindM (creme_list_length (args ! 0)) (\<lambda>n.
     bindM (creme_list_to_values (args ! 0) n ''random-shuffle'') (\<lambda>arr.
     bindM (shuffle_from (n - 1) arr) (\<lambda>vs. cons_list vs VNil))))"

definition number_builtin :: "arith \<Rightarrow> bytes \<Rightarrow> (val list \<Rightarrow> val M) option" where
  "number_builtin A = map_of
    [(''bi_expt'', bi_expt A), (''bi_exact_integer_sqrt'', bi_exact_integer_sqrt A), (''bi_sqrt'', bi_sqrt A),
     (''bi_sin'', bi_sin A), (''bi_cos'', bi_cos A), (''bi_tan'', bi_tan A), (''bi_asin'', bi_asin A),
     (''bi_acos'', bi_acos A), (''bi_atan'', bi_atan A), (''bi_exp'', bi_exp A), (''bi_log'', bi_log A),
     (''bi_log2'', bi_log2 A), (''bi_log10'', bi_log10 A), (''bi_atan2'', bi_atan2 A), (''bi_pow'', bi_pow A),
     (''bi_hypot'', bi_hypot A), (''bi_flonum_to_bits'', bi_flonum_to_bits), (''bi_bits_to_flonum'', bi_bits_to_flonum),
     (''bi_nan_p'', bi_nan_p A), (''bi_infinite_p'', bi_infinite_p A), (''bi_finite_p'', bi_finite_p A),
     (''bi_complex_p'', bi_complex_p), (''bi_integer_p'', bi_integer_p A), (''bi_rational_p'', bi_rational_p A),
     (''bi_zero_p'', bi_zero_p A), (''bi_positive_p'', bi_positive_p A), (''bi_negative_p'', bi_negative_p A),
     (''bi_odd_p'', bi_odd_p), (''bi_even_p'', bi_even_p), (''bi_square'', bi_square A), (''bi_abs'', bi_abs A),
     (''bi_min'', bi_min A), (''bi_max'', bi_max A), (''bi_round'', bi_round A), (''bi_floor'', bi_floor A),
     (''bi_ceiling'', bi_ceiling A), (''bi_truncate'', bi_truncate A), (''bi_exact'', bi_exact A),
     (''bi_inexact'', bi_inexact A), (''bi_make_rectangular'', bi_make_rectangular), (''bi_make_polar'', bi_make_polar A),
     (''bi_real_part'', bi_real_part), (''bi_imag_part'', bi_imag_part), (''bi_magnitude'', bi_magnitude A),
     (''bi_angle'', bi_angle A), (''bi_random_real'', bi_random_real A), (''bi_random_integer'', bi_random_integer),
     (''bi_random_seed_bang'', bi_random_seed_bang), (''bi_random_choice'', bi_random_choice),
     (''bi_random_shuffle'', bi_random_shuffle)]"

end
