(* ===== verification/Builtin_Strings.thy ===== *)
theory Builtin_Strings
  imports Num_Builtins Ports C_Text
begin

text \<open>
  The string, character and symbol builtins of icecreme/builtins.c.  A string is a buffer of bytes in the heap, changed in
  place by \<open>string-set!\<close>, \<open>string-copy!\<close> and \<open>string-fill!\<close>; a character is an \<open>int64_t\<close>, cut to a \<open>char\<close> when it is
  put into a string.  Bounds that are read as \<open>int\<close> are cut too (\<open>c_int\<close>).
\<close>

text \<open>An optional argument that counts only when it is an integer.\<close>

definition optional_int :: "val list \<Rightarrow> nat \<Rightarrow> int \<Rightarrow> int" where
  "optional_int args i d = (if length args > i then (case args ! i of VInt k \<Rightarrow> c_int k | _ \<Rightarrow> d) else d)"

definition part_of :: "nat \<Rightarrow> nat \<Rightarrow> 'a list \<Rightarrow> 'a list" where
  "part_of lo hi xs = take (hi - lo) (drop lo xs)"

definition set_str :: "nat \<Rightarrow> bytes \<Rightarrow> unit M" where
  "set_str p bs = modM (\<lambda>s. s\<lparr>h_strs := (h_strs s)[p := bs]\<rparr>)"

text \<open>\<open>memmove\<close> of \<open>w\<close> to offset \<open>at\<close>: the bytes were read before any is written.\<close>

definition overwrite :: "nat \<Rightarrow> 'a list \<Rightarrow> 'a list \<Rightarrow> 'a list" where
  "overwrite pos w xs = take pos xs @ w @ drop (pos + length w) xs"

subsection \<open>Substrings and conversions\<close>

definition bi_string_length :: "val list \<Rightarrow> val M" where
  "bi_string_length args = bindM (creme_arg_bytes args 0 ''string-length'') (\<lambda>bs. retM (VInt (int (length bs))))"

definition bi_string_ref :: "val list \<Rightarrow> val M" where
  "bi_string_ref args =
     (case args of
        [VStr p, VInt i] \<Rightarrow>
          bindM (derefM h_strs p) (\<lambda>bs.
          bindM (guardM (i < 0 \<or> i \<ge> int (length bs)) (''string-ref: index '' @ dec i @ '' out of range'')) (\<lambda>_.
          retM (VChar (of_char (bs ! nat i)))))
      | _ \<Rightarrow> creme_abort ''string-ref: expected (string index)'')"

definition bi_string_set :: "val list \<Rightarrow> val M" where
  "bi_string_set args =
     (case args of
        [VStr p, VInt i, VChar c] \<Rightarrow>
          bindM (derefM h_strs p) (\<lambda>bs.
          bindM (guardM (i < 0 \<or> i \<ge> int (length bs)) (''string-set!: index '' @ dec i @ '' out of range'')) (\<lambda>_.
          bindM (set_str p (bs[nat i := char_of c])) (\<lambda>_. retM VNil)))
      | _ \<Rightarrow> creme_abort ''string-set!: expected (string index char)'')"

text \<open>What \<open>substring\<close> and \<open>string-copy\<close> share.\<close>

definition substring_of :: "bytes \<Rightarrow> bytes \<Rightarrow> int \<Rightarrow> int \<Rightarrow> val M" where
  "substring_of who bs start end' =
     bindM (guardM (start < 0 \<or> end' > int (length bs) \<or> start > end') (who @ '': index out of range'')) (\<lambda>_.
     creme_bytes_value (part_of (nat start) (nat end') bs))"

definition bi_substring :: "val list \<Rightarrow> val M" where
  "bi_substring args =
     bindM (creme_arg_bytes args 0 ''substring'') (\<lambda>bs.
     bindM (creme_arg_int args 1 ''substring'') (\<lambda>start.
     substring_of ''substring'' bs (c_int start) (optional_int args 2 (int (length bs)))))"

definition bi_string_copy :: "val list \<Rightarrow> val M" where
  "bi_string_copy args =
     bindM (creme_arg_bytes args 0 ''string-copy'') (\<lambda>bs.
     substring_of ''string-copy'' bs (optional_int args 1 0) (optional_int args 2 (int (length bs))))"

definition char_value :: "char \<Rightarrow> val" where
  "char_value c = VChar (of_char c)"

definition bi_string_to_list :: "val list \<Rightarrow> val M" where
  "bi_string_to_list args =
     bindM (creme_arg_bytes args 0 ''string->list'') (\<lambda>bs. cons_list (map char_value bs) VNil)"

text \<open>The bytes of values that must be characters.\<close>

definition char_bytes :: "bytes \<Rightarrow> val list \<Rightarrow> bytes M" where
  "char_bytes msg vs = mapM (\<lambda>v. case v of VChar c \<Rightarrow> retM (char_of c) | _ \<Rightarrow> creme_abort msg) vs"

definition bi_list_to_string :: "val list \<Rightarrow> val M" where
  "bi_list_to_string args =
     bindM (creme_check_min_args (nargs_of args) 1 ''list->string'') (\<lambda>_.
     bindM (list_items (args ! 0)) (\<lambda>(vs, tail).
     bindM (char_bytes ''list->string: expected a list of chars'' vs) new_str))"

definition bi_make_string :: "val list \<Rightarrow> val M" where
  "bi_make_string args =
     bindM (creme_arg_int args 0 ''make-string'') (\<lambda>n.
     bindM (guardM (n < 0 \<or> n > INT_MAX) (''make-string: invalid length '' @ dec n)) (\<lambda>_.
     let fill = (if length args \<ge> 2 then (case args ! 1 of VChar c \<Rightarrow> char_of c | _ \<Rightarrow> CHR '' '') else CHR '' '') in
     new_str (replicate (nat n) fill)))"

definition bi_string_ctor :: "val list \<Rightarrow> val M" where
  "bi_string_ctor args = bindM (char_bytes ''string: expected chars'' args) new_str"

definition bi_string_copy_bang :: "val list \<Rightarrow> val M" where
  "bi_string_copy_bang args =
     bindM (creme_arg_bytes args 0 ''string-copy!'') (\<lambda>to.
     bindM (creme_arg_int args 1 ''string-copy!'') (\<lambda>pos.
     bindM (creme_arg_bytes args 2 ''string-copy!'') (\<lambda>from.
     bindM (byte_range_args args 3 (length from)) (\<lambda>(first, last).
     bindM (dest_check pos (last - first) (length to) ''string-copy!: destination range out of bounds'') (\<lambda>_.
     case args ! 0 of
       VStr p \<Rightarrow> bindM (set_str p (overwrite (nat pos) (part_of first last from) to)) (\<lambda>_. retM VNil)
     | _ \<Rightarrow> stuckM)))))"

definition bi_string_fill_bang :: "val list \<Rightarrow> val M" where
  "bi_string_fill_bang args =
     bindM (creme_arg_bytes args 0 ''string-fill!'') (\<lambda>bs.
     bindM (creme_arg_char args 1 ''string-fill!'') (\<lambda>c.
     bindM (byte_range_args args 2 (length bs)) (\<lambda>(first, last).
     case args ! 0 of
       VStr p \<Rightarrow> bindM (set_str p (overwrite first (replicate (last - first) (char_of c)) bs)) (\<lambda>_. retM VNil)
     | _ \<Rightarrow> stuckM)))"

definition bi_string_to_vector :: "val list \<Rightarrow> val M" where
  "bi_string_to_vector args =
     bindM (creme_arg_bytes args 0 ''string->vector'') (\<lambda>bs.
     bindM (byte_range_args args 1 (length bs)) (\<lambda>(first, last).
     new_vector (map char_value (part_of first last bs))))"

definition bi_vector_to_string :: "val list \<Rightarrow> val M" where
  "bi_vector_to_string args =
     (case args of
        VVector p # _ \<Rightarrow>
          bindM (derefM h_vecs p) (\<lambda>vs.
          bindM (byte_range_args args 1 (length vs)) (\<lambda>(first, last).
          bindM (char_bytes ''vector->string: expected a vector of chars'' (part_of first last vs)) new_str))
      | _ \<Rightarrow> creme_abort ''vector->string: expected a vector'')"

subsection \<open>Comparisons\<close>

text \<open>The chains: adjacent pairs from the left, up to the first that fails.\<close>

fun compare_chain :: "bytes \<Rightarrow> (val \<Rightarrow> 'a M option) \<Rightarrow> ('a \<Rightarrow> 'a \<Rightarrow> bool) \<Rightarrow> val list \<Rightarrow> val M" where
  "compare_chain msg get ok (x # y # vs) =
     (case (get x, get y) of
        (Some mx, Some my) \<Rightarrow>
          bindM mx (\<lambda>a. bindM my (\<lambda>b. if ok a b then compare_chain msg get ok (y # vs) else retM (VBool False)))
      | _ \<Rightarrow> creme_abort msg)"
| "compare_chain msg get ok vs = retM (VBool True)"

definition string_of :: "val \<Rightarrow> bytes M option" where
  "string_of v = (case v of VStr p \<Rightarrow> Some (derefM h_strs p) | _ \<Rightarrow> None)"

definition symbol_of :: "val \<Rightarrow> bytes M option" where
  "symbol_of v = (case v of VSym cs \<Rightarrow> Some (retM cs) | _ \<Rightarrow> None)"

definition boolean_of :: "val \<Rightarrow> bool M option" where
  "boolean_of v = (case v of VBool b \<Rightarrow> Some (retM b) | _ \<Rightarrow> None)"

definition character_of :: "val \<Rightarrow> int M option" where
  "character_of v = (case v of VChar c \<Rightarrow> Some (retM c) | _ \<Rightarrow> None)"

definition equal_chain :: "bytes \<Rightarrow> bytes \<Rightarrow> (val \<Rightarrow> 'a M option) \<Rightarrow> ('a \<Rightarrow> 'a \<Rightarrow> bool) \<Rightarrow> val list \<Rightarrow> val M" where
  "equal_chain who kinds get ok args =
     bindM (creme_check_min_args (nargs_of args) 2 who) (\<lambda>_. compare_chain (who @ '': expected '' @ kinds) get ok args)"

definition bi_string_eq :: "val list \<Rightarrow> val M" where "bi_string_eq = equal_chain ''string=?'' ''strings'' string_of (=)"
definition bi_symbol_eq :: "val list \<Rightarrow> val M" where "bi_symbol_eq = equal_chain ''symbol=?'' ''symbols'' symbol_of (=)"
definition bi_boolean_eq :: "val list \<Rightarrow> val M" where "bi_boolean_eq = equal_chain ''boolean=?'' ''booleans'' boolean_of (=)"
definition bi_char_eq :: "val list \<Rightarrow> val M" where "bi_char_eq = equal_chain ''char=?'' ''chars'' character_of (=)"
definition bi_char_lt :: "val list \<Rightarrow> val M" where "bi_char_lt = equal_chain ''char<?'' ''chars'' character_of (<)"
definition bi_char_gt :: "val list \<Rightarrow> val M" where "bi_char_gt = equal_chain ''char>?'' ''chars'' character_of (>)"
definition bi_char_le :: "val list \<Rightarrow> val M" where "bi_char_le = equal_chain ''char<=?'' ''chars'' character_of (\<le>)"
definition bi_char_ge :: "val list \<Rightarrow> val M" where "bi_char_ge = equal_chain ''char>=?'' ''chars'' character_of (\<ge>)"

text \<open>A lexicographic comparison of bytes by the number \<open>f\<close> gives them; a prefix comes first.\<close>

fun lex_cmp :: "(char \<Rightarrow> int) \<Rightarrow> bytes \<Rightarrow> bytes \<Rightarrow> int" where
  "lex_cmp f [] [] = 0"
| "lex_cmp f [] (y # ys) = -1"
| "lex_cmp f (x # xs) [] = 1"
| "lex_cmp f (x # xs) (y # ys) = (if f x < f y then -1 else if f y < f x then 1 else lex_cmp f xs ys)"

definition string_pair_cmp :: "bytes \<Rightarrow> bytes \<Rightarrow> int" where
  "string_pair_cmp = lex_cmp of_char"

definition creme_ascii_lower :: "char \<Rightarrow> char" where
  "creme_ascii_lower c = (if c_isupper c then char_of ((of_char c :: int) + 32) else c)"

text \<open>A \<open>char\<close> is signed.\<close>

definition c_char :: "char \<Rightarrow> int" where
  "c_char c = (if (of_char c :: int) < 128 then of_char c else of_char c - 256)"

definition string_ci_pair_cmp :: "bytes \<Rightarrow> bytes \<Rightarrow> int" where
  "string_ci_pair_cmp = lex_cmp (\<lambda>c. c_char (creme_ascii_lower c))"

definition string_chain :: "bytes \<Rightarrow> (bytes \<Rightarrow> bytes \<Rightarrow> int) \<Rightarrow> (int \<Rightarrow> bool) \<Rightarrow> val list \<Rightarrow> val M" where
  "string_chain who cmp ok args =
     bindM (guardM (length args < 2) (who @ '': expected at least two strings'')) (\<lambda>_.
     compare_chain (who @ '': expected strings'') string_of (\<lambda>a b. ok (cmp a b)) args)"

definition bi_string_lt :: "val list \<Rightarrow> val M" where "bi_string_lt = string_chain ''string<?'' string_pair_cmp (\<lambda>c. c < 0)"
definition bi_string_gt :: "val list \<Rightarrow> val M" where "bi_string_gt = string_chain ''string>?'' string_pair_cmp (\<lambda>c. c > 0)"
definition bi_string_le :: "val list \<Rightarrow> val M" where "bi_string_le = string_chain ''string<=?'' string_pair_cmp (\<lambda>c. c \<le> 0)"
definition bi_string_ge :: "val list \<Rightarrow> val M" where "bi_string_ge = string_chain ''string>=?'' string_pair_cmp (\<lambda>c. c \<ge> 0)"
definition bi_string_ci_eq :: "val list \<Rightarrow> val M" where
  "bi_string_ci_eq = string_chain ''string-ci=?'' string_ci_pair_cmp (\<lambda>c. c = 0)"
definition bi_string_ci_lt :: "val list \<Rightarrow> val M" where
  "bi_string_ci_lt = string_chain ''string-ci<?'' string_ci_pair_cmp (\<lambda>c. c < 0)"
definition bi_string_ci_gt :: "val list \<Rightarrow> val M" where
  "bi_string_ci_gt = string_chain ''string-ci>?'' string_ci_pair_cmp (\<lambda>c. c > 0)"
definition bi_string_ci_le :: "val list \<Rightarrow> val M" where
  "bi_string_ci_le = string_chain ''string-ci<=?'' string_ci_pair_cmp (\<lambda>c. c \<le> 0)"
definition bi_string_ci_ge :: "val list \<Rightarrow> val M" where
  "bi_string_ci_ge = string_chain ''string-ci>=?'' string_ci_pair_cmp (\<lambda>c. c \<ge> 0)"

definition char_ci_chain :: "bytes \<Rightarrow> (int \<Rightarrow> int \<Rightarrow> bool) \<Rightarrow> val list \<Rightarrow> val M" where
  "char_ci_chain who cmp args =
     bindM (guardM (length args < 2) (who @ '': expected at least two chars'')) (\<lambda>_.
     compare_chain (who @ '': expected chars'') character_of
       (\<lambda>a b. cmp (c_char (creme_ascii_lower (char_of a))) (c_char (creme_ascii_lower (char_of b)))) args)"

definition bi_char_ci_eq :: "val list \<Rightarrow> val M" where "bi_char_ci_eq = char_ci_chain ''char-ci=?'' (=)"
definition bi_char_ci_lt :: "val list \<Rightarrow> val M" where "bi_char_ci_lt = char_ci_chain ''char-ci<?'' (<)"
definition bi_char_ci_gt :: "val list \<Rightarrow> val M" where "bi_char_ci_gt = char_ci_chain ''char-ci>?'' (>)"
definition bi_char_ci_le :: "val list \<Rightarrow> val M" where "bi_char_ci_le = char_ci_chain ''char-ci<=?'' (\<le>)"
definition bi_char_ci_ge :: "val list \<Rightarrow> val M" where "bi_char_ci_ge = char_ci_chain ''char-ci>=?'' (\<ge>)"

subsection \<open>Characters\<close>

definition bi_char_to_integer :: "val list \<Rightarrow> val M" where
  "bi_char_to_integer args = bindM (creme_arg_char args 0 ''char->integer'') (\<lambda>c. retM (VInt c))"

definition bi_integer_to_char :: "val list \<Rightarrow> val M" where
  "bi_integer_to_char args = bindM (creme_arg_int args 0 ''integer->char'') (\<lambda>c. retM (VChar c))"

definition bi_char_downcase :: "val list \<Rightarrow> val M" where
  "bi_char_downcase args =
     (case args of
        [VChar c] \<Rightarrow> retM (VChar (if 65 \<le> c \<and> c \<le> 90 then c - 65 + 97 else c))
      | _ \<Rightarrow> creme_abort ''char-downcase: expected a char'')"

definition bi_char_upcase :: "val list \<Rightarrow> val M" where
  "bi_char_upcase args =
     (case args of
        [VChar c] \<Rightarrow> retM (VChar (if 97 \<le> c \<and> c \<le> 122 then c - 97 + 65 else c))
      | _ \<Rightarrow> creme_abort ''char-upcase: expected a char'')"

definition bi_char_foldcase :: "val list \<Rightarrow> val M" where
  "bi_char_foldcase = bi_char_downcase"

definition bi_digit_value :: "val list \<Rightarrow> val M" where
  "bi_digit_value args =
     bindM (creme_arg_char args 0 ''digit-value'') (\<lambda>c. retM (if 48 \<le> c \<and> c \<le> 57 then VInt (c - 48) else VBool False))"

text \<open>A function of \<open>ctype.h\<close> is defined on the values of an \<open>unsigned char\<close> and \<open>EOF\<close>, -1, only.\<close>

definition ctype_test :: "bytes \<Rightarrow> (char \<Rightarrow> bool) \<Rightarrow> val list \<Rightarrow> val M" where
  "ctype_test who f args =
     bindM (creme_arg_char args 0 who) (\<lambda>c.
     let i = c_int c in
     if i < -1 \<or> i > 255 then stuckM else retM (VBool (i \<noteq> -1 \<and> f (char_of i))))"

definition bi_char_alphabetic_p :: "val list \<Rightarrow> val M" where
  "bi_char_alphabetic_p = ctype_test ''char-alphabetic?'' (\<lambda>c. c_isupper c \<or> c_islower c)"
definition bi_char_numeric_p :: "val list \<Rightarrow> val M" where "bi_char_numeric_p = ctype_test ''char-numeric?'' is_digit"
definition bi_char_whitespace_p :: "val list \<Rightarrow> val M" where "bi_char_whitespace_p = ctype_test ''char-whitespace?'' c_isspace"
definition bi_char_upper_case_p :: "val list \<Rightarrow> val M" where "bi_char_upper_case_p = ctype_test ''char-upper-case?'' c_isupper"
definition bi_char_lower_case_p :: "val list \<Rightarrow> val M" where "bi_char_lower_case_p = ctype_test ''char-lower-case?'' c_islower"

subsection \<open>Numbers and symbols\<close>

text \<open>The C functions see a string up to its first NUL byte.\<close>

definition parse_number :: "arith \<Rightarrow> nat \<Rightarrow> bytes \<Rightarrow> val" where
  "parse_number A radix buf =
     (let inexact = (if radix = 10 then (case strtod A buf of (d, rest) \<Rightarrow>
                       if rest \<noteq> buf \<and> rest = [] then VFloat d else VBool False) else VBool False) in
      case scan_integer radix buf of
        Some (z, []) \<Rightarrow>
          if int64 z then VInt z
          else (case mpz_set_str_base A radix buf of None \<Rightarrow> VBool False | Some z' \<Rightarrow> make_bigint_from_mpz A z')
      | _ \<Rightarrow> inexact)"

definition bi_string_to_number :: "arith \<Rightarrow> val list \<Rightarrow> val M" where
  "bi_string_to_number A args =
     bindM (creme_arg_bytes args 0 ''string->number'') (\<lambda>cs.
     bindM (if length args \<ge> 2 then bindM (creme_arg_int args 1 ''string->number'') (\<lambda>r. retM (c_int r)) else retM 10) (\<lambda>radix.
     bindM (guardM (radix < 2 \<or> radix > 36) (''string->number: radix must be between 2 and 36, got '' @ dec radix)) (\<lambda>_.
     retM (parse_number A (nat radix) (take (cstrlen cs) cs)))))"

definition bi_number_to_string :: "arith \<Rightarrow> val list \<Rightarrow> val M" where
  "bi_number_to_string A args =
     bindM (creme_check_min_args (nargs_of args) 1 ''number->string'') (\<lambda>_.
     bindM (if length args \<ge> 2
            then (case args ! 1 of VInt r \<Rightarrow> retM (c_int r) | _ \<Rightarrow> creme_abort ''number->string: expected an integer radix'')
            else retM 10) (\<lambda>radix.
     bindM (guardM (radix < 2 \<or> radix > 36) (''number->string: radix must be between 2 and 36, got '' @ dec radix)) (\<lambda>_.
     let based = (\<lambda>z. creme_bytes_value (mpz_get_str_base A (nat radix) z)) in
     if radix \<noteq> 10 then
       (case args ! 0 of
          VInt i \<Rightarrow> based i
        | VBigint z \<Rightarrow> based z
        | _ \<Rightarrow> creme_abort (''number->string: radix '' @ dec radix @ '' requires an exact integer''))
     else
       (case args ! 0 of
          VInt i \<Rightarrow> creme_bytes_value (dec i)
        | VBigint z \<Rightarrow> creme_bytes_value (mpz_get_str A z)
        | VFloat f \<Rightarrow> creme_bytes_value
            (if fp_lt A (fp_abs A f) 0x430C6BF526340000 \<and> fp_eq A f (fp_of_int64 A (fp_to_int64 A f))
             then dec (fp_to_int64 A f) @ ''.0'' else printf_17g A f)
        | _ \<Rightarrow> creme_abort ''number->string: not a number''))))"

definition bi_string_to_symbol :: "val list \<Rightarrow> val M" where
  "bi_string_to_symbol args = bindM (creme_arg_bytes args 0 ''string->symbol'') creme_sym_value"

definition bi_symbol_to_string :: "val list \<Rightarrow> val M" where
  "bi_symbol_to_string args =
     (case args of VSym cs # _ \<Rightarrow> creme_bytes_value cs | _ \<Rightarrow> creme_abort ''symbol->string: expected a symbol'')"

text \<open>The prefix is printed up to its first NUL byte.\<close>

definition bi_gensym :: "val list \<Rightarrow> val M" where
  "bi_gensym args =
     bindM (case args of
         [] \<Rightarrow> retM ''g''
       | VStr p # _ \<Rightarrow> derefM h_strs p
       | VSym cs # _ \<Rightarrow> retM cs
       | _ \<Rightarrow> creme_abort ''gensym: expected a string or symbol prefix'') (\<lambda>pre.
     bindM (modM (\<lambda>s. s\<lparr>h_gensym_counter := h_gensym_counter s + 1\<rparr>)) (\<lambda>_.
     bindM (getM h_gensym_counter) (\<lambda>n. retM (VSym (take (cstrlen pre) pre @ ''__'' @ dec n)))))"

subsection \<open>Procedures over strings\<close>

definition strings_of :: "bytes \<Rightarrow> val list \<Rightarrow> bytes list M" where
  "strings_of msg vs = mapM (\<lambda>v. case v of VStr p \<Rightarrow> derefM h_strs p | _ \<Rightarrow> creme_abort msg) vs"

text \<open>The characters at one index, read when the index is reached: the procedure may change the strings.\<close>

definition chars_at :: "nat \<Rightarrow> val list \<Rightarrow> val list M" where
  "chars_at i vs = mapM (\<lambda>v. case v of
     VStr p \<Rightarrow> bindM (derefM h_strs p) (\<lambda>bs. bindM (indexM bs (int i)) (\<lambda>c. retM (char_value c))) | _ \<Rightarrow> stuckM) vs"

definition bi_string_for_each :: "(val \<Rightarrow> val list \<Rightarrow> val M) \<Rightarrow> val list \<Rightarrow> val M" where
  "bi_string_for_each ap args =
     bindM (creme_check_min_args (nargs_of args) 2 ''string-for-each'') (\<lambda>_.
     bindM (strings_of ''string-for-each: expected a string'' (tl args)) (\<lambda>bss.
     bindM (forM [0..<Min (set (map length bss))] (\<lambda>i. bindM (chars_at i (tl args)) (\<lambda>cs. bindM (ap (args ! 0) cs) (\<lambda>_. retM ())))) (\<lambda>_.
     retM VNil)))"

definition bi_string_map :: "(val \<Rightarrow> val list \<Rightarrow> val M) \<Rightarrow> val list \<Rightarrow> val M" where
  "bi_string_map ap args =
     bindM (creme_check_min_args (nargs_of args) 2 ''string-map'') (\<lambda>_.
     bindM (strings_of ''string-map: expected a string'' (tl args)) (\<lambda>bss.
     bindM (mapM (\<lambda>i. bindM (chars_at i (tl args)) (\<lambda>cs. bindM (ap (args ! 0) cs) (\<lambda>r.
         case r of VChar c \<Rightarrow> retM (char_of c) | _ \<Rightarrow> creme_abort ''string-map: expected the function to return a char'')))
       [0..<Min (set (map length bss))]) new_str))"

definition string_builtin :: "arith \<Rightarrow> bytes \<Rightarrow> (val list \<Rightarrow> val M) option" where
  "string_builtin A = map_of
    [(''bi_string_length'', bi_string_length), (''bi_string_ref'', bi_string_ref), (''bi_string_set'', bi_string_set),
     (''bi_substring'', bi_substring), (''bi_string_copy'', bi_string_copy), (''bi_string_to_list'', bi_string_to_list),
     (''bi_list_to_string'', bi_list_to_string), (''bi_make_string'', bi_make_string), (''bi_string_ctor'', bi_string_ctor),
     (''bi_string_copy_bang'', bi_string_copy_bang), (''bi_string_fill_bang'', bi_string_fill_bang),
     (''bi_string_to_vector'', bi_string_to_vector), (''bi_vector_to_string'', bi_vector_to_string),
     (''bi_string_eq'', bi_string_eq), (''bi_symbol_eq'', bi_symbol_eq), (''bi_boolean_eq'', bi_boolean_eq),
     (''bi_string_lt'', bi_string_lt), (''bi_string_gt'', bi_string_gt), (''bi_string_le'', bi_string_le),
     (''bi_string_ge'', bi_string_ge), (''bi_string_ci_eq'', bi_string_ci_eq), (''bi_string_ci_lt'', bi_string_ci_lt),
     (''bi_string_ci_gt'', bi_string_ci_gt), (''bi_string_ci_le'', bi_string_ci_le), (''bi_string_ci_ge'', bi_string_ci_ge),
     (''bi_char_eq'', bi_char_eq), (''bi_char_lt'', bi_char_lt), (''bi_char_gt'', bi_char_gt), (''bi_char_le'', bi_char_le),
     (''bi_char_ge'', bi_char_ge), (''bi_char_ci_eq'', bi_char_ci_eq), (''bi_char_ci_lt'', bi_char_ci_lt),
     (''bi_char_ci_gt'', bi_char_ci_gt), (''bi_char_ci_le'', bi_char_ci_le), (''bi_char_ci_ge'', bi_char_ci_ge),
     (''bi_char_to_integer'', bi_char_to_integer), (''bi_integer_to_char'', bi_integer_to_char),
     (''bi_char_downcase'', bi_char_downcase), (''bi_char_upcase'', bi_char_upcase), (''bi_char_foldcase'', bi_char_foldcase),
     (''bi_digit_value'', bi_digit_value), (''bi_char_alphabetic_p'', bi_char_alphabetic_p),
     (''bi_char_numeric_p'', bi_char_numeric_p), (''bi_char_whitespace_p'', bi_char_whitespace_p),
     (''bi_char_upper_case_p'', bi_char_upper_case_p), (''bi_char_lower_case_p'', bi_char_lower_case_p),
     (''bi_string_to_number'', bi_string_to_number A), (''bi_number_to_string'', bi_number_to_string A),
     (''bi_string_to_symbol'', bi_string_to_symbol), (''bi_symbol_to_string'', bi_symbol_to_string), (''bi_gensym'', bi_gensym)]"

definition string_calling_builtin :: "(val \<Rightarrow> val list \<Rightarrow> val M) \<Rightarrow> bytes \<Rightarrow> (val list \<Rightarrow> val M) option" where
  "string_calling_builtin ap = map_of [(''bi_string_for_each'', bi_string_for_each ap), (''bi_string_map'', bi_string_map ap)]"

end
