(* ===== verification/String_Lib.thy ===== *)
theory String_Lib
  imports Builtin_Strings
begin

text \<open>
  The \<open>(creme string)\<close> library of icecreme/strings.c: case, trimming, splitting and joining, replacement, searching, padding
  and \<open>format\<close>.  An index that walks over a string is the text still to be read; the \<open>sds\<close> buffer is the result.
\<close>

definition is_ws :: "char \<Rightarrow> bool" where
  "is_ws c \<longleftrightarrow> c \<in> set [CHR '' '', CHR 0x09, CHR 0x0A, CHR 0x0D, CHR 0x0C, CHR 0x0B]"

lemma rest_shorter:
  "sep \<noteq> [] \<Longrightarrow> \<not> length s < length sep \<Longrightarrow> length s - Suc 0 < length s"
  "sep \<noteq> [] \<Longrightarrow> \<not> length s < length sep \<Longrightarrow> length s - length sep < length s"
  "sep \<noteq> [] \<Longrightarrow> s \<noteq> [] \<Longrightarrow> length s - length sep < length s"
  "s \<noteq> [] \<Longrightarrow> length s - Suc 0 < length s"
  by (cases s; cases sep; simp)+

text \<open>The first place where \<open>needle\<close> occurs.\<close>

function find_substring :: "bytes \<Rightarrow> bytes \<Rightarrow> int" where
  "find_substring hay needle =
     (if needle = [] then 0
      else if length hay < length needle then -1
      else if take (length needle) hay = needle then 0
      else (let i = find_substring (tl hay) needle in if i < 0 then -1 else i + 1))"
  by pat_completeness auto

termination find_substring
  by (relation "measure (\<lambda>(hay, needle). length hay)") (auto simp: rest_shorter)

declare find_substring.simps [simp del]

subsection \<open>One string to another\<close>

definition string_upcase :: "bytes \<Rightarrow> bytes" where "string_upcase = map c_toupper"
definition string_downcase :: "bytes \<Rightarrow> bytes" where "string_downcase = map c_tolower"

definition trim_ws :: "bytes \<Rightarrow> bytes" where
  "trim_ws s = rev (dropWhile is_ws (rev (dropWhile is_ws s)))"

definition bi_string_upcase :: "val list \<Rightarrow> val M" where
  "bi_string_upcase args = bindM (creme_arg_bytes args 0 ''string-upcase'') (\<lambda>s. creme_bytes_value (string_upcase s))"

definition bi_string_downcase :: "val list \<Rightarrow> val M" where
  "bi_string_downcase args = bindM (creme_arg_bytes args 0 ''string-downcase'') (\<lambda>s. creme_bytes_value (string_downcase s))"

definition bi_string_trim :: "val list \<Rightarrow> val M" where
  "bi_string_trim args = bindM (creme_arg_bytes args 0 ''string-trim'') (\<lambda>s. creme_bytes_value (trim_ws s))"

definition bi_string_reverse :: "val list \<Rightarrow> val M" where
  "bi_string_reverse args = bindM (creme_arg_bytes args 0 ''string-reverse'') (\<lambda>s. creme_bytes_value (rev s))"

subsection \<open>Splitting, joining and replacing\<close>

text \<open>\<open>part\<close> is the text since the last separator, \<open>s\<close> the text from the index on.\<close>

function split_loop :: "bytes \<Rightarrow> bytes \<Rightarrow> bytes \<Rightarrow> bytes list" where
  "split_loop sep part s =
     (if sep = [] \<or> length s < length sep then [part @ s]
      else if take (length sep) s = sep then part # split_loop sep [] (drop (length sep) s)
      else split_loop sep (part @ [hd s]) (tl s))"
  by pat_completeness auto

termination split_loop
  by (relation "measure (\<lambda>(sep, part, s). length s)") (auto simp: rest_shorter)

declare split_loop.simps [simp del]

definition bi_string_split :: "val list \<Rightarrow> val M" where
  "bi_string_split args =
     bindM (creme_arg_bytes args 0 ''string-split'') (\<lambda>s.
     bindM (creme_arg_bytes args 1 ''string-split'') (\<lambda>sep.
     bindM (mapM creme_bytes_value (split_loop sep [] s)) (\<lambda>parts. cons_list parts VNil)))"

definition joined :: "bytes \<Rightarrow> bytes list \<Rightarrow> bytes" where
  "joined sep parts = (case parts of [] \<Rightarrow> [] | p # ps \<Rightarrow> p @ concat (map (\<lambda>q. sep @ q) ps))"

definition bi_string_join :: "val list \<Rightarrow> val M" where
  "bi_string_join args =
     bindM (creme_arg_bytes args 1 ''string-join'') (\<lambda>sep.
     bindM (list_items (args ! 0)) (\<lambda>(vs, tail).
     bindM (strings_of ''string-join: expected a list of strings'' vs) (\<lambda>parts. creme_bytes_value (joined sep parts))))"

function replace_loop :: "bytes \<Rightarrow> bytes \<Rightarrow> bytes \<Rightarrow> bytes" where
  "replace_loop from to s =
     (if from = [] \<or> s = [] then s
      else if take (length from) s = from then to @ replace_loop from to (drop (length from) s)
      else hd s # replace_loop from to (tl s))"
  by pat_completeness auto

termination replace_loop
  by (relation "measure (\<lambda>(from, to, s). length s)") (auto simp: rest_shorter)

declare replace_loop.simps [simp del]

definition bi_string_replace :: "val list \<Rightarrow> val M" where
  "bi_string_replace args =
     bindM (creme_arg_bytes args 0 ''string-replace'') (\<lambda>s.
     bindM (creme_arg_bytes args 1 ''string-replace'') (\<lambda>from.
     bindM (creme_arg_bytes args 2 ''string-replace'') (\<lambda>to. creme_bytes_value (replace_loop from to s))))"

text \<open>The table is an association list of characters and strings; other entries are passed over.  The walk takes at most
  as many steps as there are pairs, or goes round a cycle.\<close>

primrec table_entry :: "nat \<Rightarrow> char \<Rightarrow> val \<Rightarrow> bytes option M" where
  "table_entry 0 c cur = (\<lambda>s. Timeout)"
| "table_entry (Suc n) c cur =
     (case cur of
        VPair p \<Rightarrow> bindM (derefM h_pairs p) (\<lambda>(entry, rest).
          bindM (case entry of VPair q \<Rightarrow> derefM h_pairs q | _ \<Rightarrow> retM (VNil, VNil)) (\<lambda>kv.
          case kv of
            (VChar k, VStr r) \<Rightarrow> if char_of k = c then bindM (derefM h_strs r) (\<lambda>bs. retM (Some bs)) else table_entry n c rest
          | _ \<Rightarrow> table_entry n c rest))
      | _ \<Rightarrow> retM None)"

definition bi_string_translate :: "val list \<Rightarrow> val M" where
  "bi_string_translate args =
     bindM (creme_check_min_args (nargs_of args) 2 ''string-translate'') (\<lambda>_.
     bindM (creme_arg_bytes args 0 ''string-translate'') (\<lambda>s.
     bindM (getM (\<lambda>st. Suc (length (h_pairs st)))) (\<lambda>n.
     bindM (mapM (\<lambda>c. bindM (table_entry n c (args ! 1)) (\<lambda>r. retM (case r of Some bs \<Rightarrow> bs | None \<Rightarrow> [c]))) s) (\<lambda>parts.
     creme_bytes_value (concat parts)))))"

subsection \<open>Searching\<close>

definition two_strings :: "bytes \<Rightarrow> val list \<Rightarrow> (bytes \<times> bytes) M" where
  "two_strings who args =
     (case args of
        VStr p # VStr q # _ \<Rightarrow> bindM (derefM h_strs p) (\<lambda>a. bindM (derefM h_strs q) (\<lambda>b. retM (a, b)))
      | _ \<Rightarrow> creme_abort (who @ '': expected two strings''))"

definition bi_string_contains_p :: "val list \<Rightarrow> val M" where
  "bi_string_contains_p args =
     bindM (two_strings ''string-contains?'' args) (\<lambda>(hay, needle). retM (VBool (find_substring hay needle \<ge> 0)))"

definition bi_string_prefix_p :: "val list \<Rightarrow> val M" where
  "bi_string_prefix_p args =
     bindM (creme_arg_bytes args 0 ''string-prefix?'') (\<lambda>hay.
     bindM (creme_arg_bytes args 1 ''string-prefix?'') (\<lambda>needle.
     retM (VBool (length hay \<ge> length needle \<and> take (length needle) hay = needle))))"

definition bi_string_suffix_p :: "val list \<Rightarrow> val M" where
  "bi_string_suffix_p args =
     bindM (creme_arg_bytes args 0 ''string-suffix?'') (\<lambda>hay.
     bindM (creme_arg_bytes args 1 ''string-suffix?'') (\<lambda>needle.
     retM (VBool (length hay \<ge> length needle \<and> drop (length hay - length needle) hay = needle))))"

definition bi_string_index_of :: "val list \<Rightarrow> val M" where
  "bi_string_index_of args =
     bindM (two_strings ''string-index-of'' args) (\<lambda>(hay, needle).
     let i = find_substring hay needle in retM (if i \<ge> 0 then VInt i else VBool False))"

subsection \<open>Repeating and padding\<close>

definition bi_string_repeat :: "val list \<Rightarrow> val M" where
  "bi_string_repeat args =
     bindM (creme_arg_bytes args 0 ''string-repeat'') (\<lambda>s.
     bindM (creme_arg_int args 1 ''string-repeat'') (\<lambda>n.
     bindM (guardM (n < 0) ''string-repeat: count must be non-negative'') (\<lambda>_.
     bindM (guardM (s \<noteq> [] \<and> n > INT_MAX div int (length s)) ''string-repeat: result string too large'') (\<lambda>_.
     creme_bytes_value (if s = [] then [] else concat (replicate (nat n) s))))))"

text \<open>What \<open>string-pad\<close> and \<open>string-pad-right\<close> share; a string that is long enough is returned itself, not a copy.\<close>

definition pad_with :: "bytes \<Rightarrow> (bytes \<Rightarrow> bytes \<Rightarrow> bytes) \<Rightarrow> val list \<Rightarrow> val M" where
  "pad_with who place args =
     bindM (creme_arg_bytes args 0 who) (\<lambda>s.
     bindM (creme_arg_int args 1 who) (\<lambda>target.
     bindM (creme_arg_bytes args 2 who) (\<lambda>pad.
     bindM (guardM (length pad \<noteq> 1) (who @ '': pad string must be exactly 1 char'')) (\<lambda>_.
     bindM (guardM (target > INT_MAX) (who @ '': result string too large'')) (\<lambda>_.
     if int (length s) \<ge> target then retM (args ! 0)
     else creme_bytes_value (place (replicate (nat target - length s) (hd pad)) s))))))"

definition bi_string_pad :: "val list \<Rightarrow> val M" where
  "bi_string_pad = pad_with ''string-pad'' (\<lambda>fill s. fill @ s)"

definition bi_string_pad_right :: "val list \<Rightarrow> val M" where
  "bi_string_pad_right = pad_with ''string-pad-right'' (\<lambda>fill s. s @ fill)"

subsection \<open>Format\<close>

definition format_write_display :: "arith \<Rightarrow> val \<Rightarrow> bytes M" where
  "format_write_display A v =
     (case v of
        VStr p \<Rightarrow> derefM h_strs p
      | VSym cs \<Rightarrow> retM cs
      | VInt i \<Rightarrow> retM (dec i)
      | VFloat f \<Rightarrow> retM
          (if fp_lt A (fp_abs A f) 0x430C6BF526340000 \<and> fp_eq A f (fp_of_int64 A (fp_to_int64 A f))
           then dec (fp_to_int64 A f) @ ''.0'' else printf_17g A f)
      | VBool b \<Rightarrow> retM (if b then ''#t'' else ''#f'')
      | VNil \<Rightarrow> retM ''()''
      | VChar c \<Rightarrow> retM [char_of c]
      | _ \<Rightarrow> retM ''#<object>'')"

text \<open>The digits, the last first, of a \<open>uint64_t\<close>.\<close>

fun digits_backward :: "nat \<Rightarrow> nat \<Rightarrow> bytes" where
  "digits_backward radix un =
     (if un = 0 \<or> radix \<le> 1 then [] else base_digit (un mod radix) # digits_backward radix (un div radix))"

declare digits_backward.simps [simp del]

definition format_int_radix :: "int \<Rightarrow> nat \<Rightarrow> nat \<Rightarrow> bytes" where
  "format_int_radix n radix cap =
     (let un = (if n < 0 then nat (- (n + 1)) + 1 else nat n);
          tmp = (if un = 0 then ''0'' else digits_backward radix un) in
      take (cap - 1) ((if n < 0 then ''-'' else []) @ rev tmp))"

text \<open>The directives; \<open>vals\<close> are the arguments not used so far.\<close>

fun format_loop :: "arith \<Rightarrow> bytes \<Rightarrow> bytes \<Rightarrow> val list \<Rightarrow> bytes M" where
  "format_loop A buf [] vals = retM buf"
| "format_loop A buf (c # cs) vals =
     (if c \<noteq> CHR ''~'' then format_loop A (buf @ [c]) cs vals
      else case cs of
        [] \<Rightarrow> creme_abort ''format: dangling '~' at end of format string''
      | directive # following \<Rightarrow>
          let lower = c_tolower directive;
              arg = (\<lambda>use. case vals of [] \<Rightarrow> creme_abort ''format: not enough arguments for format string''
                       | v # vs \<Rightarrow> bindM (use v) (\<lambda>out. format_loop A (buf @ out) following vs)) in
          if lower = CHR ''~'' then format_loop A (buf @ ''~'') following vals
          else if lower = CHR ''%'' then format_loop A (buf @ [CHR 0x0A]) following vals
          else if lower \<in> set ''as'' then arg (format_write_display A)
          else if lower = CHR ''c'' then
            arg (\<lambda>v. case v of VChar k \<Rightarrow> retM [char_of k] | _ \<Rightarrow> creme_abort ''format: ~c expected a char'')
          else if lower \<in> set ''dxob'' then
            arg (\<lambda>v. case v of
              VInt n \<Rightarrow> retM (format_int_radix n
                (if lower = CHR ''d'' then 10 else if lower = CHR ''x'' then 16 else if lower = CHR ''o'' then 8 else 2) 80)
            | _ \<Rightarrow> creme_abort ''format: expected an integer'')
          else creme_abort (''format: unknown format directive '~'' @ [directive, CHR 0x27]))"

definition bi_format :: "arith \<Rightarrow> val list \<Rightarrow> val M" where
  "bi_format A args =
     bindM (creme_arg_bool args 0 ''format'') (\<lambda>to_stdout.
     bindM (creme_arg_bytes args 1 ''format'') (\<lambda>fmt.
     bindM (format_loop A [] fmt (drop 2 args)) (\<lambda>buf.
     if \<not> to_stdout then creme_bytes_value buf
     else bindM (derefM h_ports 0) (\<lambda>po. bindM (set_port 0 (po\<lparr>po_buf := po_buf po @ buf\<rparr>)) (\<lambda>_. retM VNil)))))"

definition string_library_builtin :: "arith \<Rightarrow> bytes \<Rightarrow> (val list \<Rightarrow> val M) option" where
  "string_library_builtin A = map_of
    [(''bi_string_upcase'', bi_string_upcase), (''bi_string_downcase'', bi_string_downcase), (''bi_string_trim'', bi_string_trim),
     (''bi_string_reverse'', bi_string_reverse), (''bi_string_split'', bi_string_split), (''bi_string_join'', bi_string_join),
     (''bi_string_replace'', bi_string_replace), (''bi_string_translate'', bi_string_translate),
     (''bi_string_contains_p'', bi_string_contains_p), (''bi_string_prefix_p'', bi_string_prefix_p),
     (''bi_string_suffix_p'', bi_string_suffix_p), (''bi_string_index_of'', bi_string_index_of),
     (''bi_string_repeat'', bi_string_repeat), (''bi_string_pad'', bi_string_pad),
     (''bi_string_pad_right'', bi_string_pad_right), (''bi_format'', bi_format A)]"

end
