(* ===== verification/Loader.thy ===== *)
theory Loader
  imports Numeric VM_Core Opcodes
begin

text \<open>
  The reader of ICE bytecode files (icecreme/loader.c), for a file and for bytes in memory.

  \<^item> A \<open>reader\<close> holds the bytes from the current position on.  The depth counters of the C struct are the
    recursion arguments of the three recursive readers: a counter at its maximum is the argument 0.
  \<^item> Decompression is the zstd library, the parameter \<open>zstd\<close>.  The bytes of an opened file are an argument.
  \<^item> The source positions, which only the profiler reads, are read and dropped, like the upvalue names.
  \<^item> \<open>GC_MALLOC\<close> zeroes: a fresh pair or vector holds nil until its contents are read.
\<close>

datatype content_size = CONTENTSIZE_ERROR | CONTENTSIZE_UNKNOWN | ContentSize nat

record zstd =
  ZSTD_getFrameContentSize :: "bytes \<Rightarrow> content_size"
  ZSTD_decompress :: "nat \<Rightarrow> bytes \<Rightarrow> bytes + bytes"

record reader =
  rd_file :: bool
  rd_path :: bytes
  rd_rest :: bytes
  rd_strings :: "bytes list"
  rd_labels :: "(int \<times> val) list"

type_synonym 'a L = "reader \<Rightarrow> ('a \<times> reader) M"

definition retL :: "'a \<Rightarrow> 'a L" where
  "retL x = (\<lambda>r. retM (x, r))"

definition bindL :: "'a L \<Rightarrow> ('a \<Rightarrow> 'b L) \<Rightarrow> 'b L" where
  "bindL m f = (\<lambda>r. bindM (m r) (\<lambda>(x, r'). f x r'))"

definition liftL :: "'a M \<Rightarrow> 'a L" where
  "liftL m = (\<lambda>r. bindM m (\<lambda>x. retM (x, r)))"

definition abortL :: "(bytes \<Rightarrow> bytes) \<Rightarrow> 'a L" where
  "abortL msg = (\<lambda>r. creme_abort (msg (rd_path r)))"

definition corrupt :: "bytes \<Rightarrow> bytes \<Rightarrow> bytes" where
  "corrupt what path = ''icecreme: corrupt bytecode in '' @ path @ '': '' @ what"

primrec repeatL :: "nat \<Rightarrow> 'a L \<Rightarrow> 'a list L" where
  "repeatL 0 m = retL []"
| "repeatL (Suc n) m = bindL m (\<lambda>x. bindL (repeatL n m) (\<lambda>xs. retL (x # xs)))"

subsection \<open>Primitive reads\<close>

definition must_read :: "nat \<Rightarrow> bytes L" where
  "must_read n = (\<lambda>r.
     if length (rd_rest r) < n
     then creme_abort ((if rd_file r then ''icecreme: truncated or corrupt bytecode file ''
       else ''icecreme: truncated or corrupt bytecode in '') @ rd_path r)
     else retM (take n (rd_rest r), r\<lparr>rd_rest := drop n (rd_rest r)\<rparr>))"

primrec le_nat :: "bytes \<Rightarrow> nat" where
  "le_nat [] = 0"
| "le_nat (c # cs) = of_char c + 256 * le_nat cs"

definition read_i32 :: "int L" where
  "read_i32 = bindL (must_read 4) (\<lambda>bs. retL (sint (word_of_nat (le_nat bs) :: 32 word)))"

definition read_i64 :: "int L" where
  "read_i64 = bindL (must_read 8) (\<lambda>bs. retL (sint (word_of_nat (le_nat bs) :: 64 word)))"

definition read_f64 :: "64 word L" where
  "read_f64 = bindL (must_read 8) (\<lambda>bs. retL (word_of_nat (le_nat bs)))"

definition read_u8 :: "int L" where
  "read_u8 = bindL (must_read 1) (\<lambda>bs. retL (int (le_nat bs)))"

definition read_u24 :: "int L" where
  "read_u24 = bindL (must_read 3) (\<lambda>bs. retL (int (le_nat bs)))"

definition read_u16 :: "int L" where
  "read_u16 = bindL (must_read 2) (\<lambda>bs. retL (int (le_nat bs)))"

definition CREME_ICE_FORMAT_VERSION :: int where "CREME_ICE_FORMAT_VERSION = 1"

definition check_magic_and_version :: "unit L" where
  "check_magic_and_version =
     bindL (must_read 4) (\<lambda>magic.
     if take 3 magic \<noteq> ''ICE''
     then abortL (\<lambda>path. ''icecreme: '' @ path @ '' is not an ICE bytecode file (re-emit with `creme --emit-icecreme`?)'')
     else let version = of_char (magic ! 3) - 48 in
       if version \<noteq> CREME_ICE_FORMAT_VERSION
       then abortL (\<lambda>path. ''icecreme: '' @ path @ '' was compiled with ICE format version '' @ dec version @
         '', this icecreme only reads version '' @ dec CREME_ICE_FORMAT_VERSION @
         '' -- re-emit it with a matching `creme --emit-icecreme`'')
       else retL ())"

definition reader_decompress_body :: "zstd \<Rightarrow> unit L" where
  "reader_decompress_body Z = (\<lambda>r0.
     let comp = rd_rest r0; r = r0\<lparr>rd_file := False\<rparr> in
     case ZSTD_getFrameContentSize Z comp of
       CONTENTSIZE_ERROR \<Rightarrow>
         abortL (\<lambda>path. ''icecreme: '' @ path @ '' body is not a valid zstd frame (stale or corrupt ICE?)'') r
     | CONTENTSIZE_UNKNOWN \<Rightarrow> abortL (\<lambda>path. ''icecreme: '' @ path @ '' body has no embedded content size'') r
     | ContentSize sz \<Rightarrow>
         if int sz > INT_MAX then abortL (\<lambda>path. ''icecreme: '' @ path @ '' decompressed body too large'') r
         else (case ZSTD_decompress Z sz comp of
             Inl name \<Rightarrow> abortL (\<lambda>path. ''icecreme: '' @ path @ '' decompression failed: '' @ name) r
           | Inr body \<Rightarrow> retM ((), r\<lparr>rd_rest := body\<rparr>)))"

definition CREME_LOADER_MAX_COUNT :: int where "CREME_LOADER_MAX_COUNT = 2097152"

definition read_count :: "bytes \<Rightarrow> nat L" where
  "read_count what =
     bindL read_i32 (\<lambda>v.
     if v < 0 \<or> v > CREME_LOADER_MAX_COUNT then abortL (corrupt (''implausible '' @ what @ '' count '' @ dec v))
     else retL (nat v))"

definition read_bytes :: "int \<Rightarrow> bytes L" where
  "read_bytes len =
     (if len < 0 \<or> len > CREME_LOADER_MAX_COUNT then abortL (corrupt (''implausible byte length '' @ dec len))
      else must_read (nat len))"

definition read_string_pool :: "unit L" where
  "read_string_pool =
     bindL (read_count ''string-pool'') (\<lambda>n.
     bindL (repeatL n (bindL read_i32 read_bytes)) (\<lambda>strings.
     \<lambda>r. retM ((), r\<lparr>rd_strings := strings\<rparr>)))"

definition read_pooled_string :: "bytes L" where
  "read_pooled_string =
     bindL read_u24 (\<lambda>idx. \<lambda>r.
     if idx < 0 \<or> idx \<ge> int (length (rd_strings r))
     then abortL (corrupt (''string-pool index '' @ dec idx @ '' out of range (n_strings='' @
       dec (int (length (rd_strings r))) @ '')'')) r
     else retM (rd_strings r ! nat idx, r))"

definition resolve_builtin_const :: "bytes \<Rightarrow> val M" where
  "resolve_builtin_const name = getM (\<lambda>s.
     case find (\<lambda>i. cstrlen (gc_name (vm_globals s i)) = length name \<and>
            take (length name) (gc_name (vm_globals s i)) = name \<and> gc_bound (vm_globals s i)) [0..<vm_n_globals s] of
       Some i \<Rightarrow> gc_value (vm_globals s i) | None \<Rightarrow> VNil)"

text \<open>\<open>mpz_set_str\<close> reads up to the first NUL byte.\<close>

definition read_int_str :: "arith \<Rightarrow> int L" where
  "read_int_str A =
     bindL read_i32 (\<lambda>len. bindL (read_bytes len) (\<lambda>buf.
     let str = take (cstrlen buf) buf in
     case mpz_set_str A str of
       None \<Rightarrow> abortL (corrupt (''malformed integer constant '' @ [CHR 0x27] @ str @ [CHR 0x27]))
     | Some z \<Rightarrow> retL z))"

subsection \<open>Data\<close>

definition CREME_DATUM_LABELS_CAP :: nat where "CREME_DATUM_LABELS_CAP = 256"

definition datum_label_add :: "int \<Rightarrow> val \<Rightarrow> unit L" where
  "datum_label_add lid v = (\<lambda>r.
     if length (rd_labels r) \<ge> CREME_DATUM_LABELS_CAP
     then creme_abort (''icecreme: too many datum labels in one top-level datum (max '' @
       dec (int CREME_DATUM_LABELS_CAP) @ '') in '' @ rd_path r)
     else retM ((), r\<lparr>rd_labels := rd_labels r @ [(lid, v)]\<rparr>))"

definition datum_label_find :: "int \<Rightarrow> val option L" where
  "datum_label_find lid = (\<lambda>r. retM (map_of (rd_labels r) lid, r))"

definition CREME_LOADER_MAX_DATUM_DEPTH :: nat where "CREME_LOADER_MAX_DATUM_DEPTH = 4000"

abbreviation TAG_INT :: int where "TAG_INT \<equiv> 0"
abbreviation TAG_FLOAT :: int where "TAG_FLOAT \<equiv> 1"
abbreviation TAG_RATIONAL :: int where "TAG_RATIONAL \<equiv> 2"
abbreviation TAG_COMPLEX :: int where "TAG_COMPLEX \<equiv> 3"
abbreviation TAG_SYM :: int where "TAG_SYM \<equiv> 4"
abbreviation TAG_STR :: int where "TAG_STR \<equiv> 5"
abbreviation TAG_BOOL :: int where "TAG_BOOL \<equiv> 6"
abbreviation TAG_NIL :: int where "TAG_NIL \<equiv> 7"
abbreviation TAG_CHAR :: int where "TAG_CHAR \<equiv> 8"
abbreviation TAG_PAIR :: int where "TAG_PAIR \<equiv> 9"
abbreviation TAG_VECTOR :: int where "TAG_VECTOR \<equiv> 10"
abbreviation TAG_BLOB :: int where "TAG_BLOB \<equiv> 11"
abbreviation TAG_BUILTIN :: int where "TAG_BUILTIN \<equiv> 12"
abbreviation TAG_LABEL_DEF :: int where "TAG_LABEL_DEF \<equiv> 13"
abbreviation TAG_LABEL_REF :: int where "TAG_LABEL_REF \<equiv> 14"

text \<open>A label goes to a value of any kind but a pair or vector once it has been read.\<close>

definition label_value :: "int \<Rightarrow> val \<Rightarrow> val L" where
  "label_value def_id v = bindL (if def_id \<ge> 0 then datum_label_add def_id v else retL ()) (\<lambda>_. retL v)"

definition set_pair_car :: "nat \<Rightarrow> val \<Rightarrow> unit M" where
  "set_pair_car p v = (\<lambda>s. if p < length (h_pairs s)
     then Done () (s\<lparr>h_pairs := (h_pairs s)[p := (v, snd (h_pairs s ! p))]\<rparr>) else Stuck)"

definition set_pair_cdr :: "nat \<Rightarrow> val \<Rightarrow> unit M" where
  "set_pair_cdr p v = (\<lambda>s. if p < length (h_pairs s)
     then Done () (s\<lparr>h_pairs := (h_pairs s)[p := (fst (h_pairs s ! p), v)]\<rparr>) else Stuck)"

definition set_vec_item :: "nat \<Rightarrow> nat \<Rightarrow> val \<Rightarrow> unit M" where
  "set_vec_item p i v = (\<lambda>s. if p < length (h_vecs s) \<and> i < length (h_vecs s ! p)
     then Done () (s\<lparr>h_vecs := (h_vecs s)[p := (h_vecs s ! p)[i := v]]\<rparr>) else Stuck)"

primrec read_items :: "val L \<Rightarrow> nat \<Rightarrow> nat \<Rightarrow> nat \<Rightarrow> unit L" where
  "read_items sub p i 0 = retL ()"
| "read_items sub p i (Suc n) =
     bindL sub (\<lambda>v. bindL (liftL (set_vec_item p i v)) (\<lambda>_. read_items sub p (Suc i) n))"

definition read_pair :: "val L \<Rightarrow> int \<Rightarrow> val L" where
  "read_pair sub def_id =
     bindL (liftL (creme_cons VNil VNil)) (\<lambda>v.
     bindL (label_value def_id v) (\<lambda>_.
     case v of
       VPair p \<Rightarrow>
         bindL sub (\<lambda>a. bindL (liftL (set_pair_car p a)) (\<lambda>_.
         bindL sub (\<lambda>d. bindL (liftL (set_pair_cdr p d)) (\<lambda>_. retL v))))
     | _ \<Rightarrow> liftL stuckM))"

definition read_vector :: "val L \<Rightarrow> int \<Rightarrow> val L" where
  "read_vector sub def_id =
     bindL (read_count ''vector length'') (\<lambda>n.
     bindL (liftL (new_vector (replicate n VNil))) (\<lambda>v.
     bindL (label_value def_id v) (\<lambda>_.
     case v of VVector p \<Rightarrow> bindL (read_items sub p 0 n) (\<lambda>_. retL v) | _ \<Rightarrow> liftL stuckM)))"

definition read_rational :: "arith \<Rightarrow> val L" where
  "read_rational A =
     bindL (read_int_str A) (\<lambda>num. bindL (read_int_str A) (\<lambda>den.
     if mpz_sgn A den = 0 then abortL (corrupt ''rational constant has a zero denominator'')
     else if mpz_sgn A den < 0 then abortL (corrupt ''rational constant has a negative denominator'')
     else retL (make_rational_from_mpq A (mpq_canonicalize A (num, den)))))"

text \<open>The body of \<open>read_datum_rec_impl\<close>; \<open>sub\<close> reads a component one level deeper.\<close>

definition new_bytevector :: "bytes \<Rightarrow> val M" where
  "new_bytevector bs = (\<lambda>s. Done (VBytevector (length (h_bvs s))) (s\<lparr>h_bvs := h_bvs s @ [bs]\<rparr>))"

definition read_tagged :: "arith \<Rightarrow> val L \<Rightarrow> int \<Rightarrow> int \<Rightarrow> val L" where
  "read_tagged A sub def_id tag =
     (if tag = TAG_INT then bindL (read_int_str A) (\<lambda>z. label_value def_id (make_bigint_from_mpz A z))
      else if tag = TAG_FLOAT then bindL read_f64 (\<lambda>w. label_value def_id (VFloat w))
      else if tag = TAG_RATIONAL then bindL (read_rational A) (label_value def_id)
      else if tag = TAG_COMPLEX then bindL sub (\<lambda>re. bindL sub (\<lambda>im. label_value def_id (make_complex re im)))
      else if tag = TAG_SYM then bindL read_pooled_string (\<lambda>bs. label_value def_id (VSym bs))
      else if tag = TAG_STR then bindL read_pooled_string (\<lambda>bs. bindL (liftL (new_str bs)) (label_value def_id))
      else if tag = TAG_BOOL then bindL read_u8 (\<lambda>b. label_value def_id (VBool (b \<noteq> 0)))
      else if tag = TAG_NIL then label_value def_id VNil
      else if tag = TAG_CHAR then bindL read_i64 (\<lambda>c. label_value def_id (VChar c))
      else if tag = TAG_PAIR then read_pair sub def_id
      else if tag = TAG_VECTOR then read_vector sub def_id
      else if tag = TAG_BLOB then bindL (read_count ''bytevector length'') (\<lambda>n. bindL (must_read n) (\<lambda>bs.
        bindL (liftL (new_bytevector bs)) (label_value def_id)))
      else if tag = TAG_BUILTIN then bindL read_pooled_string (\<lambda>bs.
        bindL (liftL (resolve_builtin_const bs)) (label_value def_id))
      else abortL (\<lambda>path. ''icecreme: unknown const/datum tag '' @ dec tag @ '' in '' @ path))"

definition read_datum_rec_impl :: "arith \<Rightarrow> val L \<Rightarrow> val L" where
  "read_datum_rec_impl A sub =
     bindL read_u8 (\<lambda>tag.
     if tag = TAG_LABEL_REF
     then bindL read_i32 (\<lambda>lid. bindL (datum_label_find lid) (\<lambda>v.
       case v of Some w \<Rightarrow> retL w
       | None \<Rightarrow> abortL (\<lambda>path. ''icecreme: unknown datum label #'' @ dec lid @ ''# in '' @ path)))
     else if tag = TAG_LABEL_DEF
     then bindL read_i32 (\<lambda>def_id. bindL read_u8 (\<lambda>tag'. read_tagged A sub def_id tag'))
     else read_tagged A sub (-1) tag)"

primrec read_datum_rec :: "nat \<Rightarrow> arith \<Rightarrow> val L" where
  "read_datum_rec 0 A = abortL (corrupt (''datum nesting too deep (max '' @ dec (int CREME_LOADER_MAX_DATUM_DEPTH) @ '')''))"
| "read_datum_rec (Suc n) A = read_datum_rec_impl A (read_datum_rec n A)"

definition read_datum :: "arith \<Rightarrow> val L" where
  "read_datum A = (\<lambda>r. read_datum_rec CREME_LOADER_MAX_DATUM_DEPTH A (r\<lparr>rd_labels := []\<rparr>))"

subsection \<open>Templates and case tables\<close>

definition CREME_LOADER_MAX_QQ_DEPTH :: nat where "CREME_LOADER_MAX_QQ_DEPTH = 4000"

abbreviation QQ_CONST :: int where "QQ_CONST \<equiv> 0"
abbreviation QQ_HOLE :: int where "QQ_HOLE \<equiv> 1"
abbreviation QQ_SPLICE :: int where "QQ_SPLICE \<equiv> 2"
abbreviation QQ_LIST :: int where "QQ_LIST \<equiv> 3"
abbreviation QQ_VECTOR :: int where "QQ_VECTOR \<equiv> 4"

primrec read_qq_template :: "nat \<Rightarrow> arith \<Rightarrow> qq_template L" where
  "read_qq_template 0 A =
     abortL (corrupt (''quasiquote template nesting too deep (max '' @ dec (int CREME_LOADER_MAX_QQ_DEPTH) @ '')''))"
| "read_qq_template (Suc n) A =
     bindL read_u8 (\<lambda>tag.
     if tag = QQ_CONST then bindL (read_datum A) (\<lambda>v. retL (QQConst v))
     else if tag = QQ_HOLE then retL QQHole
     else if tag = QQ_SPLICE then retL QQSplice
     else if tag = QQ_LIST then
       bindL (read_count ''qq-template item'') (\<lambda>k. bindL (repeatL k (read_qq_template n A)) (\<lambda>items.
       bindL (read_qq_template n A) (\<lambda>tail. retL (QQList items tail))))
     else if tag = QQ_VECTOR then
       bindL (read_count ''qq-template item'') (\<lambda>k. bindL (repeatL k (read_qq_template n A)) (\<lambda>items.
       retL (QQVector items)))
     else abortL (\<lambda>path. ''icecreme: unknown QQTemplate tag '' @ dec tag @ '' in '' @ path))"

definition read_case_key :: "case_key L" where
  "read_case_key =
     bindL read_u8 (\<lambda>tag.
     if tag = 0 then bindL read_i64 (\<lambda>i. retL (CDKInt i))
     else if tag = 1 then bindL read_i64 (\<lambda>i. retL (CDKChar i))
     else if tag = 2 then bindL read_pooled_string (\<lambda>bs. retL (CDKSym bs))
     else if tag = 3 then bindL read_i64 (\<lambda>i. retL (CDKBool i))
     else if tag = 4 then retL CDKNil
     else abortL (\<lambda>path. ''icecreme: unknown CaseDispatchKey tag '' @ dec tag @ '' in '' @ path))"

definition read_case_dispatch_table :: "case_table L" where
  "read_case_dispatch_table =
     bindL read_i32 (\<lambda>default.
     bindL (read_count ''case-dispatch entry'') (\<lambda>n.
     bindL (repeatL n (bindL read_case_key (\<lambda>k. bindL read_i32 (\<lambda>target. retL (k, target))))) (\<lambda>entries.
     retL \<lparr> ct_entries = entries, ct_default = default \<rparr>)))"

subsection \<open>Chunks\<close>

definition CREME_LOADER_MAX_CHUNK_DEPTH :: nat where "CREME_LOADER_MAX_CHUNK_DEPTH = 10000"

definition read_position :: "unit L" where
  "read_position =
     bindL read_u8 (\<lambda>flag.
     if flag \<noteq> 0
     then bindL read_pooled_string (\<lambda>_. bindL read_u24 (\<lambda>_. bindL read_u16 (\<lambda>_. retL ())))
     else retL ())"

definition read_instruction :: "instruction L" where
  "read_instruction =
     bindL read_i32 (\<lambda>op. bindL read_i32 (\<lambda>a. bindL read_i32 (\<lambda>b. bindL read_i32 (\<lambda>c. bindL read_i32 (\<lambda>d.
     bindL read_position (\<lambda>_.
     if op < 0 \<or> op \<ge> OP_COUNT
     then abortL (\<lambda>path. ''icecreme: unknown opcode id '' @ dec op @ '' in '' @ path)
     else retL \<lparr> ins_op = op, ins_a = a, ins_b = b, ins_c = c, ins_d = d \<rparr>))))))"

definition read_upvalue :: "upval_desc L" where
  "read_upvalue =
     bindL read_u8 (\<lambda>l. bindL read_i32 (\<lambda>i. bindL read_pooled_string (\<lambda>_.
     retL \<lparr> ud_from_parent_local = (l \<noteq> 0), ud_index = i \<rparr>)))"

definition new_chunk :: "chunk \<Rightarrow> nat M" where
  "new_chunk c = (\<lambda>s. Done (length (h_chunks s)) (s\<lparr>h_chunks := h_chunks s @ [c]\<rparr>))"

text \<open>A chunk gets its address when it is complete: nobody sees the pointer before.\<close>

primrec read_chunk :: "nat \<Rightarrow> arith \<Rightarrow> nat L" where
  "read_chunk 0 A =
     abortL (corrupt (''chunk (proto) nesting too deep (max '' @ dec (int CREME_LOADER_MAX_CHUNK_DEPTH) @ '')''))"
| "read_chunk (Suc n) A =
     bindL (read_count ''instruction'') (\<lambda>k. bindL (repeatL k read_instruction) (\<lambda>instrs.
     bindL (read_count ''const'') (\<lambda>k. bindL (repeatL k (read_datum A)) (\<lambda>consts.
     bindL (read_count ''proto'') (\<lambda>k. bindL (repeatL k (read_chunk n A)) (\<lambda>protos.
     bindL (read_count ''upvalue'') (\<lambda>k. bindL (repeatL k read_upvalue) (\<lambda>upvalues.
     bindL read_i32 (\<lambda>params. bindL read_u8 (\<lambda>rest. bindL read_i32 (\<lambda>registers.
     bindL read_pooled_string (\<lambda>name.
     bindL (read_count ''qq-template'') (\<lambda>k.
     bindL (repeatL k (read_qq_template CREME_LOADER_MAX_QQ_DEPTH A)) (\<lambda>templates.
     bindL (read_count ''case-table'') (\<lambda>k. bindL (repeatL k read_case_dispatch_table) (\<lambda>tables.
     liftL (new_chunk \<lparr> ch_instrs = instrs, ch_consts = consts, ch_protos = protos, ch_upvalues = upvalues,
       ch_param_count = params, ch_has_rest = (rest \<noteq> 0), ch_num_registers = registers, ch_name = name,
       ch_qq_templates = templates, ch_case_tables = tables \<rparr>)))))))))))))))))"

subsection \<open>Validation\<close>

definition check_pool_index :: "int \<Rightarrow> int \<Rightarrow> bytes \<Rightarrow> bytes \<Rightarrow> unit M" where
  "check_pool_index idx count what path =
     guardM (idx < 0 \<or> idx \<ge> count)
       (corrupt (what @ '' index '' @ dec idx @ '' out of range (count='' @ dec count @ '')'') path)"

text \<open>The pool an operand of the instruction indexes: the operand, the pool's length and its name.\<close>

definition pool_operand :: "chunk \<Rightarrow> instruction \<Rightarrow> (int \<times> int \<times> bytes) option" where
  "pool_operand c ins =
     (let consts = int (length (ch_consts c)) in
      if ins_op ins \<in> {OP_LOADK, OP_HELPERFORM, OP_HELPERFORMLOCAL} then Some (ins_b ins, consts, ''const-pool'')
      else if ins_op ins = OP_THROW then Some (ins_a ins, consts, ''const-pool'')
      else if ins_op ins = OP_CASEMATCH then Some (ins_c ins, consts, ''const-pool'')
      else if ins_op ins = OP_QUASIQUOTE then Some (ins_b ins, int (length (ch_qq_templates c)), ''qq-template'')
      else if ins_op ins = OP_CASEDISPATCH then Some (ins_b ins, int (length (ch_case_tables c)), ''case-table'')
      else if ins_op ins = OP_CLOSURE then Some (ins_b ins, int (length (ch_protos c)), ''proto'')
      else None)"

primrec validate_instrs :: "chunk \<Rightarrow> bytes \<Rightarrow> int \<Rightarrow> instruction list \<Rightarrow> unit M" where
  "validate_instrs c path i [] = retM ()"
| "validate_instrs c path i (ins # is) =
     bindM (guardM (ins_op ins < 0 \<or> ins_op ins \<ge> OP_COUNT)
       (corrupt (''unknown opcode '' @ dec (ins_op ins) @ '' at instruction '' @ dec i) path)) (\<lambda>_.
     bindM (case pool_operand c ins of None \<Rightarrow> retM () | Some (x, n, what) \<Rightarrow> check_pool_index x n what path) (\<lambda>_.
     validate_instrs c path (i + 1) is))"

text \<open>The two passes over the tree of chunks; \<open>n\<close> bounds the nesting.\<close>

primrec validate_chunk :: "nat \<Rightarrow> bytes \<Rightarrow> nat \<Rightarrow> unit M" where
  "validate_chunk 0 path p = (\<lambda>s. Timeout)"
| "validate_chunk (Suc n) path p =
     bindM (derefM h_chunks p) (\<lambda>c.
     bindM (validate_instrs c path 0 (ch_instrs c)) (\<lambda>_.
     forM (ch_protos c) (validate_chunk n path)))"

definition global_name_const :: "chunk \<Rightarrow> int \<Rightarrow> bytes \<Rightarrow> bytes M" where
  "global_name_const c idx path =
     bindM (guardM (idx < 0 \<or> idx \<ge> int (length (ch_consts c)))
       (corrupt (''global-name const index '' @ dec idx @ '' out of range (n_consts='' @
         dec (int (length (ch_consts c))) @ '')'') path)) (\<lambda>_.
     case ch_consts c ! nat idx of
       VSym bs \<Rightarrow> retM bs
     | VStr p \<Rightarrow> derefM h_strs p
     | v \<Rightarrow> creme_abort (corrupt (''global-name const #'' @ dec idx @ '' is not a symbol/string (tag '' @
         dec (tag_of v) @ '')'') path))"

definition resolve_instruction :: "bytes \<Rightarrow> chunk \<Rightarrow> instruction \<Rightarrow> instruction M" where
  "resolve_instruction path c ins =
     (let slot = (\<lambda>idx k. bindM (global_name_const c idx path) (\<lambda>name. bindM (creme_global_intern name) (\<lambda>g. retM (k g)))) in
      if ins_op ins = OP_GETGLOBAL then slot (ins_b ins) (\<lambda>g. ins\<lparr>ins_b := g\<rparr>)
      else if ins_op ins \<in> {OP_DEFGLOBAL, OP_SETGLOBAL, OP_RETURNGLOBAL, OP_TESTGLOBALIDENTITY}
      then slot (ins_a ins) (\<lambda>g. ins\<lparr>ins_a := g\<rparr>)
      else if ins_op ins \<in> {OP_CALLGLOBAL, OP_TAILCALLGLOBAL, OP_FORLOOPGUARDEDINC, OP_FORLOOPGUARDEDDEC}
      then slot (ins_d ins) (\<lambda>g. ins\<lparr>ins_d := g\<rparr>)
      else retM ins)"

primrec resolve_globals :: "nat \<Rightarrow> bytes \<Rightarrow> nat \<Rightarrow> unit M" where
  "resolve_globals 0 path p = (\<lambda>s. Timeout)"
| "resolve_globals (Suc n) path p =
     bindM (derefM h_chunks p) (\<lambda>c.
     bindM (mapM (resolve_instruction path c) (ch_instrs c)) (\<lambda>is.
     bindM (modM (\<lambda>s. s\<lparr>h_chunks := (h_chunks s)[p := c\<lparr>ch_instrs := is\<rparr>]\<rparr>)) (\<lambda>_.
     forM (ch_protos c) (resolve_globals n path))))"

subsection \<open>Entry points\<close>

definition read_required_families :: "bytes list L" where
  "read_required_families =
     bindL (read_count ''required-family'') (\<lambda>n. repeatL n read_pooled_string)"

definition open_reader :: "bool \<Rightarrow> bytes \<Rightarrow> bytes \<Rightarrow> reader" where
  "open_reader file path bs =
     \<lparr> rd_file = file, rd_path = path, rd_rest = bs, rd_strings = [], rd_labels = [] \<rparr>"

definition read_header :: "zstd \<Rightarrow> bytes list L" where
  "read_header Z =
     bindL check_magic_and_version (\<lambda>_. bindL (reader_decompress_body Z) (\<lambda>_.
     bindL read_string_pool (\<lambda>_. read_required_families)))"

text \<open>What follows the magic, once decompressed: the string pool, the families and the root chunk.\<close>

definition read_body :: "arith \<Rightarrow> (nat \<times> bytes list) L" where
  "read_body A =
     bindL read_string_pool (\<lambda>_. bindL read_required_families (\<lambda>families.
     bindL (read_chunk CREME_LOADER_MAX_CHUNK_DEPTH A) (\<lambda>p. retL (p, families))))"

definition load_with :: "zstd \<Rightarrow> arith \<Rightarrow> reader \<Rightarrow> (nat \<times> bytes list) M" where
  "load_with Z A r0 =
     bindM (bindL check_magic_and_version (\<lambda>_. bindL (reader_decompress_body Z) (\<lambda>_. read_body A)) r0)
       (\<lambda>((p, families), r).
     bindM (validate_chunk CREME_LOADER_MAX_CHUNK_DEPTH (rd_path r) p) (\<lambda>_.
     bindM (resolve_globals CREME_LOADER_MAX_CHUNK_DEPTH (rd_path r) p) (\<lambda>_. retM (p, families))))"

definition creme_load_from_bytes :: "zstd \<Rightarrow> arith \<Rightarrow> bytes \<Rightarrow> (nat \<times> bytes list) M" where
  "creme_load_from_bytes Z A bs = load_with Z A (open_reader False ''<bytevector>'' bs)"

text \<open>The file is its contents, \<open>None\<close> when it cannot be opened.\<close>

definition creme_load :: "zstd \<Rightarrow> arith \<Rightarrow> bytes \<Rightarrow> bytes option \<Rightarrow> (nat \<times> bytes list) M" where
  "creme_load Z A path file =
     (case file of
        None \<Rightarrow> creme_abort (''icecreme: cannot open '' @ path)
      | Some bs \<Rightarrow> load_with Z A (open_reader True path bs))"

definition creme_peek_required_families :: "zstd \<Rightarrow> bytes \<Rightarrow> bytes option \<Rightarrow> bytes list M" where
  "creme_peek_required_families Z path file =
     (case file of
        None \<Rightarrow> creme_abort (''icecreme: cannot open '' @ path)
      | Some bs \<Rightarrow> bindM (read_header Z (open_reader True path bs)) (\<lambda>(families, r). retM families))"

end
