(* ===== verification/Builtin_Vectors.thy ===== *)
theory Builtin_Vectors
  imports Builtin_Strings Loader
begin

text \<open>
  The vector and bytevector builtins of icecreme/builtins.c.  A vector is an array of values in the heap, changed in place;
  \<open>vector-copy!\<close> moves one item after the other, from the end when source and destination are the same vector and the
  destination lies behind.  An index is compared as an \<open>int64_t\<close>; a range is cut to \<open>int\<close> first.
\<close>

definition set_bv :: "nat \<Rightarrow> bytes \<Rightarrow> unit M" where
  "set_bv p bs = modM (\<lambda>s. s\<lparr>h_bvs := (h_bvs s)[p := bs]\<rparr>)"

subsection \<open>Bytevectors\<close>

definition bi_make_bytevector :: "val list \<Rightarrow> val M" where
  "bi_make_bytevector args =
     bindM (creme_arg_int args 0 ''make-bytevector'') (\<lambda>n.
     bindM (guardM (n < 0 \<or> n > INT_MAX) (''make-bytevector: invalid length '' @ dec n)) (\<lambda>_.
     let fill = (if length args \<ge> 2 then (case args ! 1 of VInt k \<Rightarrow> k | _ \<Rightarrow> 0) else 0) in
     bindM (guardM (fill < 0 \<or> fill > 255) ''make-bytevector: fill value out of byte range'') (\<lambda>_.
     new_bytevector (replicate (nat n) (char_of fill)))))"

definition bi_bytevector :: "val list \<Rightarrow> val M" where
  "bi_bytevector args =
     bindM (mapM (\<lambda>v. case v of
         VInt k \<Rightarrow> bindM (guardM (k < 0 \<or> k > 255) ''bytevector: byte out of range'') (\<lambda>_. retM (char_of k))
       | _ \<Rightarrow> creme_abort ''bytevector: byte out of range'') args) new_bytevector"

definition bi_bytevector_length :: "val list \<Rightarrow> val M" where
  "bi_bytevector_length args =
     bindM (argM args 0) (\<lambda>v. case v of
       VBytevector p \<Rightarrow> bindM (derefM h_bvs p) (\<lambda>bs. retM (VInt (int (length bs))))
     | _ \<Rightarrow> creme_abort ''bytevector-length: not a bytevector'')"

definition bi_bytevector_p :: "val list \<Rightarrow> val M" where
  "bi_bytevector_p args = bindM (argM args 0) (\<lambda>v. retM (VBool (case v of VBytevector p \<Rightarrow> True | _ \<Rightarrow> False)))"

definition bi_bytevector_copy :: "val list \<Rightarrow> val M" where
  "bi_bytevector_copy args =
     (case args of
        VBytevector p # _ \<Rightarrow>
          bindM (derefM h_bvs p) (\<lambda>bs.
          bindM (byte_range_args args 1 (length bs)) (\<lambda>(first, last).
          creme_bytevector_value (part_of first last bs)))
      | _ \<Rightarrow> creme_abort ''bytevector-copy: expected a bytevector'')"

definition bi_bytevector_copy_bang :: "val list \<Rightarrow> val M" where
  "bi_bytevector_copy_bang args =
     (case args of
        VBytevector p # VInt pos # VBytevector q # _ \<Rightarrow>
          bindM (derefM h_bvs p) (\<lambda>to.
          bindM (derefM h_bvs q) (\<lambda>from.
          bindM (byte_range_args args 3 (length from)) (\<lambda>(first, last).
          bindM (dest_check pos (last - first) (length to) ''bytevector-copy!: destination too small'') (\<lambda>_.
          bindM (set_bv p (overwrite (nat pos) (part_of first last from) to)) (\<lambda>_. retM VNil)))))
      | _ \<Rightarrow> creme_abort ''bytevector-copy!: expected (to at from [start [end]])'')"

definition bytevectors_of :: "bytes \<Rightarrow> val list \<Rightarrow> bytes list M" where
  "bytevectors_of msg vs = mapM (\<lambda>v. case v of VBytevector p \<Rightarrow> derefM h_bvs p | _ \<Rightarrow> creme_abort msg) vs"

definition bi_bytevector_append :: "val list \<Rightarrow> val M" where
  "bi_bytevector_append args =
     bindM (bytevectors_of ''bytevector-append: expected bytevectors'' args) (\<lambda>bss.
     bindM (guardM (int (length (concat bss)) > INT_MAX) ''bytevector-append: result bytevector too large'') (\<lambda>_.
     new_bytevector (concat bss)))"

definition bi_utf8_to_string :: "val list \<Rightarrow> val M" where
  "bi_utf8_to_string args =
     (case args of
        VBytevector p # _ \<Rightarrow>
          bindM (derefM h_bvs p) (\<lambda>bs.
          bindM (byte_range_args args 1 (length bs)) (\<lambda>(first, last).
          creme_bytes_value (part_of first last bs)))
      | _ \<Rightarrow> creme_abort ''utf8->string: expected a bytevector'')"

definition bi_string_to_utf8 :: "val list \<Rightarrow> val M" where
  "bi_string_to_utf8 args =
     bindM (creme_arg_bytes args 0 ''string->utf8'') (\<lambda>bs.
     bindM (byte_range_args args 1 (length bs)) (\<lambda>(first, last).
     creme_bytevector_value (part_of first last bs)))"

definition bi_bytevector_u8_ref :: "val list \<Rightarrow> val M" where
  "bi_bytevector_u8_ref args =
     (case args of
        [VBytevector p, VInt i] \<Rightarrow>
          bindM (derefM h_bvs p) (\<lambda>bs.
          bindM (guardM (i < 0 \<or> i \<ge> int (length bs)) (''bytevector-u8-ref: index '' @ dec i @ '' out of range'')) (\<lambda>_.
          retM (VInt (of_char (bs ! nat i)))))
      | _ \<Rightarrow> creme_abort ''bytevector-u8-ref: expected (bytevector index)'')"

definition bi_bytevector_u8_set :: "val list \<Rightarrow> val M" where
  "bi_bytevector_u8_set args =
     (case args of
        [VBytevector p, VInt i, VInt k] \<Rightarrow>
          bindM (derefM h_bvs p) (\<lambda>bs.
          bindM (guardM (i < 0 \<or> i \<ge> int (length bs)) (''bytevector-u8-set!: index '' @ dec i @ '' out of range'')) (\<lambda>_.
          bindM (guardM (k < 0 \<or> k > 255) ''bytevector-u8-set!: byte out of range'') (\<lambda>_.
          bindM (set_bv p (bs[nat i := char_of k])) (\<lambda>_. retM VNil))))
      | _ \<Rightarrow> creme_abort ''bytevector-u8-set!: expected (bytevector index byte)'')"

subsection \<open>Vectors\<close>

definition bi_vector :: "val list \<Rightarrow> val M" where
  "bi_vector args = creme_vector_from_values args"

definition bi_make_vector :: "val list \<Rightarrow> val M" where
  "bi_make_vector args =
     bindM (creme_arg_int args 0 ''make-vector'') (\<lambda>n.
     bindM (guardM (n < 0 \<or> n > INT_MAX) (''make-vector: invalid length '' @ dec n)) (\<lambda>_.
     new_vector (replicate (nat n) (if length args \<ge> 2 then args ! 1 else VBool False))))"

definition bi_vector_ref :: "val list \<Rightarrow> val M" where
  "bi_vector_ref args =
     (case args of
        [VVector p, VInt i] \<Rightarrow>
          bindM (derefM h_vecs p) (\<lambda>vs.
          bindM (guardM (i < 0 \<or> i \<ge> int (length vs)) (''vector-ref: index '' @ dec i @ '' out of range'')) (\<lambda>_.
          retM (vs ! nat i)))
      | _ \<Rightarrow> creme_abort ''vector-ref: expected (vector index)'')"

definition bi_vector_set :: "val list \<Rightarrow> val M" where
  "bi_vector_set args =
     (case args of
        [VVector p, VInt i, v] \<Rightarrow>
          bindM (derefM h_vecs p) (\<lambda>vs.
          bindM (guardM (i < 0 \<or> i \<ge> int (length vs)) (''vector-set!: index '' @ dec i @ '' out of range'')) (\<lambda>_.
          bindM (set_vec_item p (nat i) v) (\<lambda>_. retM VNil)))
      | _ \<Rightarrow> creme_abort ''vector-set!: expected (vector index value)'')"

definition bi_vector_length :: "val list \<Rightarrow> val M" where
  "bi_vector_length args =
     (case args of
        [VVector p] \<Rightarrow> bindM (derefM h_vecs p) (\<lambda>vs. retM (VInt (int (length vs))))
      | _ \<Rightarrow> creme_abort ''vector-length: expected a vector'')"

definition vector_range_args :: "nat \<Rightarrow> val list \<Rightarrow> nat \<Rightarrow> (nat \<times> nat) M" where
  "vector_range_args len args i =
     (let first = optional_int args i 0; last = optional_int args (Suc i) (int len) in
      bindM (guardM (first < 0 \<or> last > int len \<or> first > last) ''vector: start/end out of range'') (\<lambda>_.
      retM (nat first, nat last)))"

definition bi_vector_copy :: "val list \<Rightarrow> val M" where
  "bi_vector_copy args =
     (case args of
        VVector p # _ \<Rightarrow>
          bindM (derefM h_vecs p) (\<lambda>vs.
          bindM (vector_range_args (length vs) args 1) (\<lambda>(first, last).
          new_vector (part_of first last vs)))
      | _ \<Rightarrow> creme_abort ''vector-copy: expected a vector'')"

text \<open>\<open>to->items[at + i] = from->items[first + i]\<close>.\<close>

definition copy_item :: "nat \<Rightarrow> nat \<Rightarrow> nat \<Rightarrow> nat \<Rightarrow> nat \<Rightarrow> unit M" where
  "copy_item to pos from first i =
     bindM (derefM h_vecs from) (\<lambda>vs. bindM (indexM vs (int (first + i))) (set_vec_item to (pos + i)))"

definition bi_vector_copy_bang :: "val list \<Rightarrow> val M" where
  "bi_vector_copy_bang args =
     (case args of
        VVector to # VInt at64 # VVector from # _ \<Rightarrow>
          bindM (derefM h_vecs to) (\<lambda>tvs.
          bindM (derefM h_vecs from) (\<lambda>fvs.
          bindM (vector_range_args (length fvs) args 3) (\<lambda>(first, last).
          let n = last - first in
          bindM (dest_check at64 n (length tvs) ''vector-copy!: destination range out of bounds'') (\<lambda>_.
          bindM (forM (if to = from \<and> nat at64 > first then rev [0..<n] else [0..<n]) (copy_item to (nat at64) from first)) (\<lambda>_.
          retM VNil)))))
      | _ \<Rightarrow> creme_abort ''vector-copy!: expected (to at from ...)'')"

definition bi_vector_fill :: "val list \<Rightarrow> val M" where
  "bi_vector_fill args =
     (case args of
        VVector p # fill # _ \<Rightarrow>
          bindM (derefM h_vecs p) (\<lambda>vs.
          bindM (vector_range_args (length vs) args 2) (\<lambda>(first, last).
          bindM (forM [first..<last] (\<lambda>i. set_vec_item p i fill)) (\<lambda>_. retM VNil)))
      | _ \<Rightarrow> creme_abort ''vector-fill!: expected a vector and a fill value'')"

definition vectors_of :: "bytes \<Rightarrow> val list \<Rightarrow> val list list M" where
  "vectors_of msg vs = mapM (\<lambda>v. case v of VVector p \<Rightarrow> derefM h_vecs p | _ \<Rightarrow> creme_abort msg) vs"

definition bi_vector_append :: "val list \<Rightarrow> val M" where
  "bi_vector_append args =
     bindM (vectors_of ''vector-append: expected a vector'' args) (\<lambda>vss.
     bindM (guardM (int (length (concat vss)) > INT_MAX) ''vector-append: result vector too large'') (\<lambda>_.
     new_vector (concat vss)))"

definition bi_vector_to_list :: "val list \<Rightarrow> val M" where
  "bi_vector_to_list args =
     (case args of
        VVector p # opts \<Rightarrow>
          bindM (derefM h_vecs p) (\<lambda>vs.
          bindM (guardM (opts \<noteq> [] \<and> tag_of (opts ! 0) \<noteq> 2) ''vector->list: start must be an integer'') (\<lambda>_.
          bindM (guardM (length opts \<ge> 2 \<and> tag_of (opts ! 1) \<noteq> 2) ''vector->list: end must be an integer'') (\<lambda>_.
          let start = (case opts of VInt i # _ \<Rightarrow> i | _ \<Rightarrow> 0);
              stop = (case opts of _ # VInt i # _ \<Rightarrow> i | _ \<Rightarrow> int (length vs)) in
          bindM (guardM (start < 0 \<or> stop > int (length vs) \<or> start > stop) ''vector->list: start/end out of range'') (\<lambda>_.
          cons_list (part_of (nat start) (nat stop) vs) VNil))))
      | _ \<Rightarrow> creme_abort ''vector->list: expected a vector'')"

definition bi_list_to_vector :: "val list \<Rightarrow> val M" where
  "bi_list_to_vector args =
     bindM (creme_check_min_args (nargs_of args) 1 ''list->vector'') (\<lambda>_.
     bindM (creme_list_length (args ! 0)) (\<lambda>n.
     bindM (creme_list_to_values (args ! 0) n ''list->vector'') creme_vector_from_values))"

text \<open>The items at one index, read when the index is reached: the procedure may change the vectors.\<close>

definition items_at :: "nat \<Rightarrow> val list \<Rightarrow> val list M" where
  "items_at i vs = mapM (\<lambda>v. case v of
     VVector p \<Rightarrow> bindM (derefM h_vecs p) (\<lambda>xs. indexM xs (int i)) | _ \<Rightarrow> stuckM) vs"

definition bi_vector_map :: "(val \<Rightarrow> val list \<Rightarrow> val M) \<Rightarrow> val list \<Rightarrow> val M" where
  "bi_vector_map ap args =
     bindM (creme_check_min_args (nargs_of args) 2 ''vector-map'') (\<lambda>_.
     bindM (vectors_of ''vector-map: expected a vector'' (tl args)) (\<lambda>vss.
     let minlen = Min (set (map length vss)) in
     bindM (new_vector (replicate minlen VNil)) (\<lambda>result.
     bindM (forM [0..<minlen] (\<lambda>i. bindM (items_at i (tl args)) (\<lambda>items. bindM (ap (args ! 0) items) (\<lambda>r.
       case result of VVector p \<Rightarrow> set_vec_item p i r | _ \<Rightarrow> stuckM)))) (\<lambda>_.
     retM result))))"

definition bi_vector_for_each :: "(val \<Rightarrow> val list \<Rightarrow> val M) \<Rightarrow> val list \<Rightarrow> val M" where
  "bi_vector_for_each ap args =
     bindM (creme_check_min_args (nargs_of args) 2 ''vector-for-each'') (\<lambda>_.
     bindM (vectors_of ''vector-for-each: expected a vector'' (tl args)) (\<lambda>vss.
     bindM (forM [0..<Min (set (map length vss))] (\<lambda>i.
       bindM (items_at i (tl args)) (\<lambda>items. bindM (ap (args ! 0) items) (\<lambda>_. retM ())))) (\<lambda>_.
     retM VNil)))"

definition vector_builtin :: "bytes \<Rightarrow> (val list \<Rightarrow> val M) option" where
  "vector_builtin = map_of
    [(''bi_make_bytevector'', bi_make_bytevector), (''bi_bytevector'', bi_bytevector),
     (''bi_bytevector_length'', bi_bytevector_length), (''bi_bytevector_p'', bi_bytevector_p),
     (''bi_bytevector_copy'', bi_bytevector_copy), (''bi_bytevector_copy_bang'', bi_bytevector_copy_bang),
     (''bi_bytevector_append'', bi_bytevector_append), (''bi_utf8_to_string'', bi_utf8_to_string),
     (''bi_string_to_utf8'', bi_string_to_utf8), (''bi_bytevector_u8_ref'', bi_bytevector_u8_ref),
     (''bi_bytevector_u8_set'', bi_bytevector_u8_set), (''bi_vector'', bi_vector), (''bi_make_vector'', bi_make_vector),
     (''bi_vector_ref'', bi_vector_ref), (''bi_vector_set'', bi_vector_set), (''bi_vector_length'', bi_vector_length),
     (''bi_vector_copy'', bi_vector_copy), (''bi_vector_copy_bang'', bi_vector_copy_bang), (''bi_vector_fill'', bi_vector_fill),
     (''bi_vector_append'', bi_vector_append), (''bi_vector_to_list'', bi_vector_to_list), (''bi_list_to_vector'', bi_list_to_vector)]"

definition vector_calling_builtin :: "(val \<Rightarrow> val list \<Rightarrow> val M) \<Rightarrow> bytes \<Rightarrow> (val list \<Rightarrow> val M) option" where
  "vector_calling_builtin ap = map_of [(''bi_vector_map'', bi_vector_map ap), (''bi_vector_for_each'', bi_vector_for_each ap)]"

end
