(* ===== verification/VM_Init.thy ===== *)
theory VM_Init
  imports VM_Core
begin

text \<open>
  How a VM comes into being (icecreme/vm.c, \<open>creme_alloc_vm\<close> to \<open>creme_new_empty_vm\<close>; the port
  parameters of builtins.c): a process has one collected heap, which every VM shares; a VM is the rest
  of the record.  \<open>GC_MALLOC\<close> zeroes what it returns, and the zero \<open>Value\<close> is \<open>nil\<close>.

  \<^item> The static \<open>g_empty_root_chunk\<close> is the chunk at address 0 of the heap a process starts with.
  \<^item> The box at address 0 stands for the pointer \<open>NULL\<close>, which only the end-of-file object has.
  \<^item> The two port sentinels are the ports 0 and 1; nothing has been written to stdout or is there to be read.
  \<^item> The C activations of all the threads of a process are numbered together, so a child goes on with
    the numbers of its parent.
  \<^item> The profiler and the record of what has been registered are not modelled.
\<close>

definition g_empty_root_chunk :: chunk where
  "g_empty_root_chunk = \<lparr> ch_instrs = [], ch_consts = [], ch_protos = [], ch_upvalues = [], ch_param_count = 0,
     ch_has_rest = False, ch_num_registers = 0, ch_name = [], ch_qq_templates = [], ch_case_tables = [] \<rparr>"

definition stdout_port_sentinel :: port where
  "stdout_port_sentinel = \<lparr> po_kind = PORT_KIND_STDOUT, po_buf = [], po_pos = 0, po_closed = False,
     po_binary = False, po_filter_input = False \<rparr>"

definition stdin_port_sentinel :: port where
  "stdin_port_sentinel = \<lparr> po_kind = PORT_KIND_STDIN, po_buf = [], po_pos = 0, po_closed = False,
     po_binary = False, po_filter_input = False \<rparr>"

text \<open>The static initializer gives the default system the port 0.\<close>

definition g_default_system :: actor_system where
  "g_default_system = \<lparr> as_actors = [], as_names = [], as_monitors = [], as_next_actor_id = 1, as_node_name = None,
     as_cookie = None, as_tcp_host = None, as_tcp_port = 0, as_unix_path = None, as_listening = False, as_connections = [] \<rparr>"

definition initial_heap :: heap where
  "initial_heap = \<lparr> h_pairs = [], h_strs = [], h_vecs = [], h_bvs = [], h_promises = [], h_values = [],
     h_closures = [], h_case_closures = [], h_record_types = [], h_records = [], h_record_callables = [],
     h_parameters = [], h_boxes = [BoxForeign],
     h_ports = [stdout_port_sentinel, stdin_port_sentinel], h_conts = [], h_upvalues = [], h_chunks = [g_empty_root_chunk],
     h_rng_state = 0x2545f4914f6cdd1d, h_gensym_counter = 0, h_actors = [], h_systems = [g_default_system],
     h_local_nodes = [], h_down_type = None, h_connections = [], h_threads = [], h_os_calls = 0 \<rparr>"

definition zero_frame :: frame where
  "zero_frame = \<lparr> fr_chunk = 0, fr_base = 0, fr_closure = None, fr_ip = 0, fr_return_reg = 0, fr_opened = [] \<rparr>"

definition creme_alloc_vm :: "heap \<Rightarrow> int \<Rightarrow> int \<Rightarrow> vm" where
  "creme_alloc_vm h stack_cap frames_cap =
     heap.extend h (vm.fields
       (\<lambda>_. VNil) (if stack_cap \<le> 0 then CREME_DEFAULT_STACK_CAP else nat stack_cap)
       (\<lambda>_. zero_frame) (if frames_cap \<le> 0 then CREME_DEFAULT_FRAMES_CAP else nat frames_cap)
       0 (\<lambda>_. \<lparr> gc_name = [], gc_value = VNil, gc_bound = False \<rparr>) 0
       (\<lambda>_. \<lparr> gh_buf = 0, gh_depth = 0, gh_unwind_mark = 0, gh_condition_reg = 0, gh_resume_ip = 0 \<rparr>) 0
       (\<lambda>_. UnwindParams []) 0 (\<lambda>_. VNil) 0 VNil 0 None None None False 0 None)"

definition creme_setup_frame0 :: "vm \<Rightarrow> vm" where
  "creme_setup_frame0 s = (upd_frame 0 (\<lambda>f. \<lparr> fr_chunk = 0, fr_base = 0, fr_closure = None, fr_ip = 0,
     fr_return_reg = -1, fr_opened = [] \<rparr>) s)\<lparr>vm_depth := 1\<rparr>"

definition creme_new_empty_vm :: "heap \<Rightarrow> vm" where
  "creme_new_empty_vm h = creme_setup_frame0 (creme_alloc_vm h 0 0)"

text \<open>The parameters \<open>current_output_param\<close> and \<open>current_input_param\<close> of the new VM.\<close>

definition creme_init_current_ports :: "(nat \<times> nat) M" where
  "creme_init_current_ports = (\<lambda>s. let out = length (h_parameters s) in
     Done (out, out + 1) (s\<lparr>vm_current_output_param := Some out, vm_current_input_param := Some (out + 1), h_parameters := h_parameters s @
       [\<lparr> pm_value = VPort 0, pm_converter = VNil, pm_has_converter = False \<rparr>,
        \<lparr> pm_value = VPort 1, pm_converter = VNil, pm_has_converter = False \<rparr>]\<rparr>))"

text \<open>The child; an intern that finds the global table full aborts, as in the code.\<close>

definition creme_new_child_vm :: "vm \<Rightarrow> unit run" where
  "creme_new_child_vm parent =
     bindM creme_init_current_ports (\<lambda>(out, inp).
     bindM (bind_global ''current-output-port'' (VParameter out)) (\<lambda>_.
     bindM (bind_global ''current-input-port'' (VParameter inp)) (\<lambda>_.
     modM creme_setup_frame0)))
       ((creme_alloc_vm (heap.truncate parent) (int (vm_stack_cap parent)) (int (vm_frames_cap parent)))
          \<lparr>vm_globals := (\<lambda>i. if i < vm_n_globals parent then vm_globals parent i
                           else \<lparr> gc_name = [], gc_value = VNil, gc_bound = False \<rparr>),
           vm_n_globals := vm_n_globals parent, vm_next_act := vm_next_act parent\<rparr>)"

lemma alloc_vm_simps [simp]:
  "vm_depth (creme_alloc_vm h sc fc) = 0" "vm_n_unwind (creme_alloc_vm h sc fc) = 0"
  "vm_n_handlers (creme_alloc_vm h sc fc) = 0" "vm_n_exc_handlers (creme_alloc_vm h sc fc) = 0"
  "vm_n_globals (creme_alloc_vm h sc fc) = 0" "vm_next_act (creme_alloc_vm h sc fc) = 0"
  "vm_stack_cap (creme_alloc_vm h sc fc) = (if sc \<le> 0 then CREME_DEFAULT_STACK_CAP else nat sc)"
  "vm_frames_cap (creme_alloc_vm h sc fc) = (if fc \<le> 0 then CREME_DEFAULT_FRAMES_CAP else nat fc)"
  "vm_stack (creme_alloc_vm h sc fc) = (\<lambda>_. VNil)"
  "vm_condition_type (creme_alloc_vm h sc fc) = None"
  "h_parameters (creme_alloc_vm h sc fc) = h_parameters h" "h_conts (creme_alloc_vm h sc fc) = h_conts h"
  "h_upvalues (creme_alloc_vm h sc fc) = h_upvalues h" "h_chunks (creme_alloc_vm h sc fc) = h_chunks h"
  "h_pairs (creme_alloc_vm h sc fc) = h_pairs h" "h_records (creme_alloc_vm h sc fc) = h_records h"
  "h_record_types (creme_alloc_vm h sc fc) = h_record_types h" "h_closures (creme_alloc_vm h sc fc) = h_closures h"
  "h_record_callables (creme_alloc_vm h sc fc) = h_record_callables h" "h_promises (creme_alloc_vm h sc fc) = h_promises h"
  by (simp_all add: creme_alloc_vm_def heap.defs vm.defs)

definition vm0 :: vm where
  "vm0 = creme_new_empty_vm initial_heap"

lemma vm0_simps [simp]:
  "vm_depth vm0 = 1" "vm_n_unwind vm0 = 0" "vm_n_handlers vm0 = 0" "vm_n_exc_handlers vm0 = 0" "vm_n_globals vm0 = 0"
  "vm_next_act vm0 = 0" "vm_stack_cap vm0 = 1048576" "vm_frames_cap vm0 = 8192" "vm_stack vm0 = (\<lambda>_. VNil)"
  "vm_condition_type vm0 = None" "h_parameters vm0 = []" "h_conts vm0 = []" "h_upvalues vm0 = []"
  "h_chunks vm0 = [g_empty_root_chunk]" "h_pairs vm0 = []" "h_records vm0 = []" "h_record_types vm0 = []"
  "h_closures vm0 = []" "h_record_callables vm0 = []" "h_promises vm0 = []"
  "vm_frames vm0 i = (if i = 0 then \<lparr> fr_chunk = 0, fr_base = 0, fr_closure = None, fr_ip = 0,
     fr_return_reg = -1, fr_opened = [] \<rparr> else zero_frame)"
  by (simp_all add: vm0_def creme_new_empty_vm_def creme_setup_frame0_def upd_frame_def initial_heap_def
      CREME_DEFAULT_STACK_CAP_def CREME_DEFAULT_FRAMES_CAP_def)
     (simp add: creme_alloc_vm_def heap.defs vm.defs)

end
