(* ===== verification/Actors.thy ===== *)
theory Actors
  imports OS_Calls Builtin_Errors Ports C_Text VM_Init
begin

text \<open>
  The actors of icecreme/actor.c within one process: mailboxes, the registries of an actor system, monitors and the builtins on
  them.  An actor is a thread with its own VM; all threads share the heap, where the contexts, the systems and the threads that
  have not yet started are kept.  \<open>vm_current_actor\<close> is the thread-local \<open>g_current_actor\<close>.  A mutex protects what the code does between
  locking and unlocking it, and the model does each such section in one step; a wait for a condition variable does not return until
  another thread signals it, so in the run of one thread it is \<open>Timeout\<close>.
\<close>

subsection \<open>Mailboxes\<close>

definition MAILBOX_CAP :: nat where
  "MAILBOX_CAP = 64"

definition mailbox_init :: mailbox where
  "mailbox_init = \<lparr> mb_buf = replicate MAILBOX_CAP VNil, mb_head = 0, mb_tail = 0, mb_count = 0 \<rparr>"

definition mailbox_put :: "mailbox \<Rightarrow> val \<Rightarrow> mailbox" where
  "mailbox_put mb v = mb\<lparr>mb_buf := (mb_buf mb)[mb_tail mb := v], mb_tail := (mb_tail mb + 1) mod MAILBOX_CAP,
     mb_count := mb_count mb + 1\<rparr>"

definition mailbox_take :: "mailbox \<Rightarrow> mailbox" where
  "mailbox_take mb = mb\<lparr>mb_head := (mb_head mb + 1) mod MAILBOX_CAP, mb_count := mb_count mb - 1\<rparr>"

definition set_actor :: "nat \<Rightarrow> actor_context \<Rightarrow> unit M" where
  "set_actor c x = modM (\<lambda>s. s\<lparr>h_actors := (h_actors s)[c := x]\<rparr>)"

definition waits :: "'a M" where
  "waits = (\<lambda>s. Timeout)"

definition mailbox_send :: "nat \<Rightarrow> val \<Rightarrow> unit M" where
  "mailbox_send c v =
     bindM (derefM h_actors c) (\<lambda>x.
     let mb = ac_mailbox x in
     if mb_count mb \<ge> MAILBOX_CAP then waits else set_actor c (x\<lparr>ac_mailbox := mailbox_put mb v\<rparr>))"

definition mailbox_receive :: "nat \<Rightarrow> val M" where
  "mailbox_receive c =
     bindM (derefM h_actors c) (\<lambda>x.
     let mb = ac_mailbox x in
     if mb_count mb = 0 then waits
     else bindM (indexM (mb_buf mb) (int (mb_head mb))) (\<lambda>v.
       bindM (set_actor c (x\<lparr>ac_mailbox := mailbox_take mb\<rparr>)) (\<lambda>_. retM v)))"

subsection \<open>Contexts and systems\<close>

definition set_system :: "nat \<Rightarrow> actor_system \<Rightarrow> unit M" where
  "set_system y x = modM (\<lambda>s. s\<lparr>h_systems := (h_systems s)[y := x]\<rparr>)"

text \<open>A C string ends at its first NUL.\<close>

definition c_str :: "bytes \<Rightarrow> bytes" where
  "c_str bs = take (cstrlen bs) bs"

definition v_actor_ref :: "bytes \<Rightarrow> nat \<Rightarrow> val M" where
  "v_actor_ref aid c = v_box (BoxActorRef \<lparr> ar_id = aid, ar_local_ctx = Some c, ar_addr = ADDR_NONE \<rparr>) BOX_KIND_ACTOR_REF"

definition v_actor_ref_tcp :: "bytes \<Rightarrow> bytes \<Rightarrow> int \<Rightarrow> val M" where
  "v_actor_ref_tcp aid host port =
     v_box (BoxActorRef \<lparr> ar_id = aid, ar_local_ctx = None, ar_addr = ADDR_TCP host port \<rparr>) BOX_KIND_ACTOR_REF"

definition v_actor_ref_unix :: "bytes \<Rightarrow> bytes \<Rightarrow> val M" where
  "v_actor_ref_unix aid path =
     v_box (BoxActorRef \<lparr> ar_id = aid, ar_local_ctx = None, ar_addr = ADDR_UNIX path \<rparr>) BOX_KIND_ACTOR_REF"

text \<open>The search of a system's list of contexts.\<close>

fun find_context :: "nat list \<Rightarrow> bytes \<Rightarrow> nat option M" where
  "find_context [] aid = retM None"
| "find_context (c # cs) aid =
     bindM (derefM h_actors c) (\<lambda>x. if ac_id x = aid then retM (Some c) else find_context cs aid)"

definition find_context_by_id_locked :: "actor_system \<Rightarrow> bytes \<Rightarrow> nat option M" where
  "find_context_by_id_locked sys aid = find_context (as_actors sys) aid"

definition find_id_by_name_locked :: "actor_system \<Rightarrow> bytes \<Rightarrow> bytes option" where
  "find_id_by_name_locked sys name = map_option snd (find (\<lambda>n. fst n = name) (as_names sys))"

text \<open>The context a name stands for.\<close>

definition find_named :: "actor_system \<Rightarrow> bytes \<Rightarrow> nat option M" where
  "find_named sys name =
     (case find_id_by_name_locked sys name of None \<Rightarrow> retM None | Some aid \<Rightarrow> find_context_by_id_locked sys aid)"

text \<open>The counter is a \<open>long\<close>, which must not overflow.\<close>

definition next_id :: "int \<Rightarrow> int M" where
  "next_id n = (if n \<ge> INT64_MAX then stuckM else retM (n + 1))"

definition new_actor_context :: "nat \<Rightarrow> nat M" where
  "new_actor_context y =
     bindM (derefM h_systems y) (\<lambda>sys.
     bindM (next_id (as_next_actor_id sys)) (\<lambda>n.
     bindM (getM (length \<circ> h_actors)) (\<lambda>c.
     bindM (modM (\<lambda>s. s\<lparr>h_actors := h_actors s @
       [\<lparr> ac_id = dec (as_next_actor_id sys), ac_mailbox = mailbox_init, ac_system = y \<rparr>]\<rparr>)) (\<lambda>_.
     bindM (set_system y (sys\<lparr>as_next_actor_id := n, as_actors := c # as_actors sys\<rparr>)) (\<lambda>_.
     retM c)))))"

definition ensure_context :: "nat M" where
  "ensure_context =
     bindM (getM vm_current_actor) (\<lambda>me.
     case me of
       Some c \<Rightarrow> retM c
     | None \<Rightarrow> bindM (new_actor_context 0) (\<lambda>c. bindM (modM (\<lambda>s. s\<lparr>vm_current_actor := Some c\<rparr>)) (\<lambda>_. retM c)))"

text \<open>The system of the calling actor.\<close>

definition my_system :: "nat M" where
  "my_system = bindM ensure_context (\<lambda>me. bindM (derefM h_actors me) (\<lambda>x. retM (ac_system x)))"

definition move_context_to_system :: "nat \<Rightarrow> nat \<Rightarrow> unit M" where
  "move_context_to_system c new =
     bindM (derefM h_actors c) (\<lambda>x.
     if ac_system x = new then retM ()
     else
       bindM (derefM h_systems (ac_system x)) (\<lambda>old_sys.
       bindM (set_system (ac_system x) (old_sys\<lparr>as_actors := filter (\<lambda>d. d \<noteq> c) (as_actors old_sys)\<rparr>)) (\<lambda>_.
       bindM (derefM h_systems new) (\<lambda>new_sys.
       let n = fst (strtoll 10 (ac_id x)) in
       bindM (if n \<ge> as_next_actor_id new_sys then next_id n else retM (as_next_actor_id new_sys)) (\<lambda>m.
       bindM (set_system new (new_sys\<lparr>as_actors := c # as_actors new_sys, as_next_actor_id := m\<rparr>)) (\<lambda>_.
       set_actor c (x\<lparr>ac_system := new\<rparr>)))))))"

definition node_address_uri :: "actor_system \<Rightarrow> bytes \<Rightarrow> bytes M" where
  "node_address_uri sys aid =
     (case as_tcp_host sys of
        Some host \<Rightarrow> retM (''tcp://'' @ c_str aid @ ''@'' @ host @ '':'' @ dec (as_tcp_port sys))
      | None \<Rightarrow>
          (case as_unix_path sys of
             Some path \<Rightarrow> retM (''unix://'' @ c_str aid @ ''@'' @ path)
           | None \<Rightarrow>
               (case as_node_name sys of
                  Some name \<Rightarrow> retM (''local://'' @ c_str aid @ ''@'' @ c_str name)
                | None \<Rightarrow> creme_abort ''actor: start-node has not been called'')))"

definition get_down_type :: "nat M" where
  "get_down_type = (\<lambda>s. case h_down_type s of
     Some a \<Rightarrow> Done a s
   | None \<Rightarrow> (let a = length (h_record_types s) in
       Done a (s\<lparr>h_record_types := h_record_types s @
           [\<lparr> rty_name = VSym ''<down>'', rty_field_names = [VSym ''ref'', VSym ''reason''] \<rparr>],
         h_down_type := Some a\<rparr>)))"

text \<open>The reference a box of the kind \<open>BOX_KIND_ACTOR_REF\<close> points at.\<close>

definition ref_at :: "nat \<Rightarrow> actor_ref M" where
  "ref_at p = bindM (derefM h_boxes p) (\<lambda>b. case b of BoxActorRef r \<Rightarrow> retM r | _ \<Rightarrow> stuckM)"

definition resolve_name :: "val \<Rightarrow> bytes \<Rightarrow> nat M" where
  "resolve_name v who =
     bindM my_system (\<lambda>y. bindM (derefM h_systems y) (\<lambda>sys. bindM (name_text v) (\<lambda>name.
     bindM (find_named sys name) (\<lambda>c.
     case c of Some c \<Rightarrow> retM c | None \<Rightarrow> creme_abort (who @ '': unknown actor name'')))))"

definition resolve_target :: "val \<Rightarrow> bytes \<Rightarrow> nat M" where
  "resolve_target v who =
     (if tag_of v = 4 \<or> tag_of v = 5 then resolve_name v who
      else case v of
        VBox k p \<Rightarrow>
          if k = BOX_KIND_ACTOR_REF
          then bindM (ref_at p) (\<lambda>r. case ar_local_ctx r of
            Some c \<Rightarrow> retM c
          | None \<Rightarrow> creme_abort (who @ '': cannot '' @ who @ '' a remote actor reference''))
          else creme_abort (who @ '': expected an actor name or ref'')
      | _ \<Rightarrow> creme_abort (who @ '': expected an actor name or ref''))"

subsection \<open>The end of an actor\<close>

text \<open>The watchers of the actor \<open>id\<close>, one for every entry, those that are still in the system.\<close>

fun watchers_of :: "actor_system \<Rightarrow> bytes \<Rightarrow> (bytes \<times> bytes) list \<Rightarrow> nat list M" where
  "watchers_of sys aid [] = retM []"
| "watchers_of sys aid (m # ms) =
     (if snd m = aid
      then bindM (find_context_by_id_locked sys (fst m)) (\<lambda>w.
        bindM (watchers_of sys aid ms) (\<lambda>ws. retM (case w of Some c \<Rightarrow> c # ws | None \<Rightarrow> ws)))
      else watchers_of sys aid ms)"

definition send_down :: "nat \<Rightarrow> val \<Rightarrow> val \<Rightarrow> nat \<Rightarrow> unit M" where
  "send_down ty self_ref reason c = bindM (new_record ty [self_ref, reason]) (mailbox_send c)"

definition notify_down :: "nat \<Rightarrow> val \<Rightarrow> unit M" where
  "notify_down c reason =
     bindM get_down_type (\<lambda>ty.
     bindM (derefM h_actors c) (\<lambda>x.
     bindM (v_actor_ref (ac_id x) c) (\<lambda>self_ref.
     bindM (derefM h_systems (ac_system x)) (\<lambda>sys.
     bindM (watchers_of sys (ac_id x) (as_monitors sys)) (\<lambda>targets.
     forM (take 64 targets) (send_down ty self_ref reason))))))"

definition unregister_actor :: "nat \<Rightarrow> unit M" where
  "unregister_actor c =
     bindM (derefM h_actors c) (\<lambda>x.
     bindM (derefM h_systems (ac_system x)) (\<lambda>sys.
     set_system (ac_system x) (sys\<lparr>as_actors := filter (\<lambda>d. d \<noteq> c) (as_actors sys),
       as_names := filter (\<lambda>n. snd n \<noteq> ac_id x) (as_names sys),
       as_monitors := filter (\<lambda>m. \<not> (fst m = ac_id x \<or> snd m = ac_id x)) (as_monitors sys)\<rparr>)))"

text \<open>The thread of an actor from \<open>setjmp\<close> on: the thunk returns, or \<open>creme_abort\<close> jumps to \<open>actor_unwind\<close>.\<close>

definition end_thread :: "nat \<Rightarrow> val \<Rightarrow> unit M" where
  "end_thread c reason = bindM (notify_down c reason) (\<lambda>_. unregister_actor c)"

definition actor_thread_main :: "(val \<Rightarrow> val list \<Rightarrow> val M) \<Rightarrow> nat \<Rightarrow> val \<Rightarrow> unit M" where
  "actor_thread_main ap c thunk = (\<lambda>s.
     case ap thunk [] (s\<lparr>vm_current_actor := Some c, vm_has_actor_unwind := True\<rparr>) of
       Done v s' \<Rightarrow> end_thread c (VSym ''normal'') s'
     | ActorExit msg s' \<Rightarrow> bindM (new_str (c_str msg)) (end_thread c) s'
     | Longjmp b s' \<Rightarrow> Longjmp b s'
     | Exit msg s' \<Rightarrow> Exit msg s'
     | Stuck \<Rightarrow> Stuck
     | Timeout \<Rightarrow> Timeout)"

subsection \<open>Starting a thread\<close>

text \<open>What a new VM has of its own, and the VM of a thread that starts with it.\<close>

definition child_part :: "vm \<Rightarrow> nat \<Rightarrow> val \<Rightarrow> spawned" where
  "child_part s c thunk = \<lparr> sp_ctx = c, sp_thunk = thunk, sp_stack_cap = vm_stack_cap s, sp_frames_cap = vm_frames_cap s,
     sp_globals = vm_globals s, sp_n_globals = vm_n_globals s, sp_output_param = vm_current_output_param s,
     sp_input_param = vm_current_input_param s, sp_next_act = vm_next_act s \<rparr>"

definition thread_vm :: "heap \<Rightarrow> spawned \<Rightarrow> vm" where
  "thread_vm h p =
     creme_setup_frame0 ((creme_alloc_vm h (int (sp_stack_cap p)) (int (sp_frames_cap p)))
       \<lparr>vm_globals := sp_globals p, vm_n_globals := sp_n_globals p, vm_current_output_param := sp_output_param p,
        vm_current_input_param := sp_input_param p, vm_next_act := sp_next_act p\<rparr>)"

text \<open>\<open>creme_new_child_vm\<close> runs in the thread of its caller, whose VM an abort belongs to.\<close>

definition new_child :: "vm M" where
  "new_child = (\<lambda>s. case creme_new_child_vm s of
     Done _ c \<Rightarrow> Done c (heap.extend (heap.truncate c) (heap.more s))
   | Exit msg c \<Rightarrow> creme_abort msg (heap.extend (heap.truncate c) (heap.more s))
   | Timeout \<Rightarrow> Timeout
   | _ \<Rightarrow> Stuck)"

definition bi_spawn :: "os \<Rightarrow> val list \<Rightarrow> val M" where
  "bi_spawn OS args =
     bindM (creme_check_min_args (int (length args)) 1 ''spawn'') (\<lambda>_.
     bindM new_child (\<lambda>child.
     bindM my_system (\<lambda>y.
     bindM (new_actor_context y) (\<lambda>c.
     bindM (os_call (os_thread OS)) (\<lambda>started.
     bindM (guardM (\<not> started) ''spawn: failed to create a thread'') (\<lambda>_.
     bindM (modM (\<lambda>s. s\<lparr>h_threads := h_threads s @ [child_part child c (args ! 0)]\<rparr>)) (\<lambda>_.
     bindM (derefM h_actors c) (\<lambda>x. v_actor_ref (ac_id x) c))))))))"

text \<open>The thread \<open>i\<close> of those that have been created runs to its end.\<close>

definition run_thread :: "(val \<Rightarrow> val list \<Rightarrow> val M) \<Rightarrow> heap \<Rightarrow> spawned \<Rightarrow> unit run" where
  "run_thread ap h p = actor_thread_main ap (sp_ctx p) (sp_thunk p) (thread_vm h p)"

subsection \<open>The builtins that stay in the process\<close>

definition bi_receive_bang :: "val list \<Rightarrow> val M" where
  "bi_receive_bang args = bindM ensure_context mailbox_receive"

definition bi_self :: "val list \<Rightarrow> val M" where
  "bi_self args = bindM ensure_context (\<lambda>c. bindM (derefM h_actors c) (\<lambda>x. v_actor_ref (ac_id x) c))"

text \<open>The section of \<open>bi_monitor\<close> under the target system's lock.\<close>

definition add_monitor :: "nat \<Rightarrow> bytes \<times> bytes \<Rightarrow> unit M" where
  "add_monitor y m = bindM (derefM h_systems y) (\<lambda>sys. set_system y (sys\<lparr>as_monitors := m # as_monitors sys\<rparr>))"

definition bi_monitor :: "val list \<Rightarrow> val M" where
  "bi_monitor args =
     bindM (creme_check_min_args (int (length args)) 1 ''monitor'') (\<lambda>_.
     bindM ensure_context (\<lambda>watcher.
     bindM (resolve_target (args ! 0) ''monitor'') (\<lambda>target.
     bindM (derefM h_actors watcher) (\<lambda>w.
     bindM (derefM h_actors target) (\<lambda>t.
     bindM (add_monitor (ac_system t) (ac_id w, ac_id t)) (\<lambda>_. retM VNil))))))"

definition add_name :: "nat \<Rightarrow> bytes \<Rightarrow> bytes \<Rightarrow> unit M" where
  "add_name y name aid =
     bindM (derefM h_systems y) (\<lambda>sys.
     set_system y (sys\<lparr>as_names := (name, aid) # filter (\<lambda>n. fst n \<noteq> name) (as_names sys)\<rparr>))"

definition bi_register_bang :: "val list \<Rightarrow> val M" where
  "bi_register_bang args =
     (let bad = creme_abort ''register!: expected (name ref)'' in
      if length args < 2 \<or> \<not> (tag_of (args ! 0) = 4 \<or> tag_of (args ! 0) = 5) then bad
      else case args ! 1 of
        VBox k p \<Rightarrow>
          if k \<noteq> BOX_KIND_ACTOR_REF then bad
          else bindM (ref_at p) (\<lambda>r. bindM (name_text (args ! 0)) (\<lambda>name.
            bindM my_system (\<lambda>y. bindM (add_name y name (ar_id r)) (\<lambda>_. retM VNil))))
      | _ \<Rightarrow> bad)"

definition bi_whereis :: "val list \<Rightarrow> val M" where
  "bi_whereis args =
     (if length args < 1 \<or> \<not> (tag_of (args ! 0) = 4 \<or> tag_of (args ! 0) = 5)
      then creme_abort ''whereis: expected a name''
      else bindM my_system (\<lambda>y. bindM (derefM h_systems y) (\<lambda>sys. bindM (name_text (args ! 0)) (\<lambda>name.
        bindM (find_named sys name) (\<lambda>c.
        case c of
          None \<Rightarrow> retM (VBool False)
        | Some c \<Rightarrow> bindM (derefM h_actors c) (\<lambda>x. v_actor_ref (ac_id x) c))))))"

definition bi_actor_ref_id :: "val list \<Rightarrow> val M" where
  "bi_actor_ref_id args =
     bindM (creme_arg_box args 0 BOX_KIND_ACTOR_REF ''actor-ref-id'') (\<lambda>p.
     bindM (ref_at p) (\<lambda>r. new_str (ar_id r)))"

text \<open>A record of the type \<open><down>\<close>, and its field.\<close>

definition is_down :: "val \<Rightarrow> bool M" where
  "is_down v =
     (case v of
        VRecord p \<Rightarrow> bindM (derefM h_records p) (\<lambda>r. bindM get_down_type (\<lambda>ty. retM (rec_type r = ty)))
      | _ \<Rightarrow> retM False)"

definition bi_down_p :: "val list \<Rightarrow> val M" where
  "bi_down_p args =
     bindM (creme_check_min_args (int (length args)) 1 ''down?'') (\<lambda>_.
     bindM (is_down (args ! 0)) (\<lambda>b. retM (VBool b)))"

definition down_field :: "bytes \<Rightarrow> nat \<Rightarrow> val list \<Rightarrow> val M" where
  "down_field who i args =
     bindM (guardM (length args < 1) (who @ '': expected a <down> record'')) (\<lambda>_.
     bindM (is_down (args ! 0)) (\<lambda>b.
     bindM (guardM (\<not> b) (who @ '': expected a <down> record'')) (\<lambda>_.
     case args ! 0 of VRecord p \<Rightarrow> bindM (derefM h_records p) (\<lambda>r. indexM (rec_fields r) (int i)) | _ \<Rightarrow> stuckM)))"

definition bi_down_ref :: "val list \<Rightarrow> val M" where
  "bi_down_ref = down_field ''down-ref'' 0"

definition bi_down_reason :: "val list \<Rightarrow> val M" where
  "bi_down_reason = down_field ''down-reason'' 1"

subsection \<open>Nodes\<close>

definition alloc_actor_system :: "nat M" where
  "alloc_actor_system = (\<lambda>s. Done (length (h_systems s)) (s\<lparr>h_systems := h_systems s @
     [\<lparr> as_actors = [], as_names = [], as_monitors = [], as_next_actor_id = 1, as_node_name = None, as_cookie = None,
        as_tcp_host = None, as_tcp_port = -1, as_unix_path = None, as_listening = False, as_connections = [] \<rparr>]\<rparr>))"

definition node_arg :: "val \<Rightarrow> bytes \<Rightarrow> nat M" where
  "node_arg v who =
     (case v of
        VBox k p \<Rightarrow>
          if k \<noteq> BOX_KIND_ACTOR_NODE then creme_abort (who @ '': expected a node handle'')
          else bindM (derefM h_boxes p) (\<lambda>b. case b of BoxActorNode y \<Rightarrow> retM y | _ \<Rightarrow> stuckM)
      | _ \<Rightarrow> creme_abort (who @ '': expected a node handle''))"

text \<open>The optional node of the node builtins: without one, the caller's own.\<close>

definition node_or_mine :: "val list \<Rightarrow> bytes \<Rightarrow> actor_system M" where
  "node_or_mine args who =
     bindM (if length args \<ge> 1 then node_arg (args ! 0) who else my_system) (derefM h_systems)"

definition bi_node_name :: "val list \<Rightarrow> val M" where
  "bi_node_name args =
     bindM (node_or_mine args ''node-name'') (\<lambda>sys.
     case as_node_name sys of
       None \<Rightarrow> creme_abort (''node-name: this node has no name (started as '' @ [CHR 0x27] @ ''tcp or '' @ [CHR 0x27] @
         ''unix, or start-node has not been called)'')
     | Some name \<Rightarrow> new_str name)"

definition bi_node_port :: "val list \<Rightarrow> val M" where
  "bi_node_port args =
     bindM (node_or_mine args ''node-port'') (\<lambda>sys.
     bindM (guardM (as_tcp_port sys < 0) (''node-port: this node has no TCP port (started as '' @ [CHR 0x27] @ ''unix or '' @
       [CHR 0x27] @ ''local, or start-node has not been called)'')) (\<lambda>_. retM (VInt (as_tcp_port sys))))"

definition bi_node_path :: "val list \<Rightarrow> val M" where
  "bi_node_path args =
     bindM (node_or_mine args ''node-path'') (\<lambda>sys.
     case as_unix_path sys of
       None \<Rightarrow> creme_abort (''node-path: this node has no socket path (started as '' @ [CHR 0x27] @ ''tcp or '' @ [CHR 0x27] @
         ''local, or start-node has not been called)'')
     | Some path \<Rightarrow> new_str path)"

definition bi_node_address :: "val list \<Rightarrow> val M" where
  "bi_node_address args =
     bindM (creme_check_min_args (int (length args)) 2 ''node-address'') (\<lambda>_.
     bindM (node_arg (args ! 0) ''node-address'') (\<lambda>y.
     let bad = creme_abort ''node-address: expected a string id or an actor ref'' in
     bindM (if tag_of (args ! 1) = 4 \<or> tag_of (args ! 1) = 5 then name_text (args ! 1)
            else case args ! 1 of
              VBox k p \<Rightarrow> if k = BOX_KIND_ACTOR_REF then bindM (ref_at p) (\<lambda>r. retM (ar_id r)) else bad
            | _ \<Rightarrow> bad) (\<lambda>aid.
     bindM (derefM h_systems y) (\<lambda>sys. bindM (node_address_uri sys aid) new_str))))"

end
