(* ===== verification/Actor_Net.thy ===== *)
theory Actor_Net
  imports Actors
begin

text \<open>
  Actors on other machines (icecreme/actor.c): the text of a message, its reader, URIs, frames, the handshake, the connections, and the
  builtins that use them.

  \<^item> The reader runs on a thread without a VM: it gives up with \<open>None\<close>, and the message is dropped; it looks the record types
    up in the VM that started the node, in whose state the model runs it.
  \<^item> A frame is a block of exactly its length.  \<open>strtoll\<close> and \<open>strtod\<close> get pointers into it, with no NUL after it: when the
    number may go on at the last byte, they read beyond the block, which is \<open>Stuck\<close>.
  \<^item> What is left to read on a socket is a list of bytes, the end of which is the peer's closing it; what has been written to a
    connection is kept in it.
\<close>

subsection \<open>Writing\<close>

text \<open>The writer's buffer grows by doubling; it is the bytes in it.\<close>

fun escaped :: "bytes \<Rightarrow> bytes" where
  "escaped [] = []"
| "escaped (c # cs) = (if c = CHR 0x22 \<or> c = CHR 0x5C then [CHR 0x5C, c] else [c]) @ escaped cs"

definition write_string_escaped :: "bytes \<Rightarrow> bytes" where
  "write_string_escaped bs = [CHR 0x22] @ escaped bs @ [CHR 0x22]"

definition wire_float :: "arith \<Rightarrow> double \<Rightarrow> bytes" where
  "wire_float A f =
     (let tmp = printf_17g A f in
      tmp @ (if CHR ''.'' \<notin> set tmp \<and> CHR ''e'' \<notin> set tmp \<and> CHR ''n'' \<notin> set tmp then ''.0'' else []))"

definition wire_char :: "int \<Rightarrow> bytes" where
  "wire_char cp =
     [CHR ''#'', CHR 0x5C] @
     (if 32 \<le> cp \<and> cp < 127 then [char_of (nat cp)] else ''x'' @ base_digits 16 (nat (cp mod 2 ^ 64)) @ '';'')"

definition ref_uri :: "actor_system \<Rightarrow> actor_ref \<Rightarrow> bytes M" where
  "ref_uri sys r =
     (case ar_local_ctx r of
        Some c \<Rightarrow> node_address_uri sys (ar_id r)
      | None \<Rightarrow>
          (case ar_addr r of
             ADDR_TCP host port \<Rightarrow> retM (''tcp://'' @ ar_id r @ ''@'' @ host @ '':'' @ dec port)
           | ADDR_UNIX path \<Rightarrow> retM (''unix://'' @ ar_id r @ ''@'' @ path)
           | ADDR_NONE \<Rightarrow> stuckM))"

text \<open>The rest of a list after its first \<open>k\<close> elements, and its end.\<close>

primrec write_spine :: "nat \<Rightarrow> (val \<Rightarrow> bytes M) \<Rightarrow> bool \<Rightarrow> val \<Rightarrow> bytes M" where
  "write_spine 0 w first cur = (\<lambda>s. Timeout)"
| "write_spine (Suc n) w first cur =
     (case cur of
        VPair p \<Rightarrow> bindM (derefM h_pairs p) (\<lambda>c. bindM (w (fst c)) (\<lambda>b. bindM (write_spine n w False (snd c)) (\<lambda>bs.
          retM ((if first then [] else '' '') @ b @ bs))))
      | VNil \<Rightarrow> retM '')''
      | _ \<Rightarrow> bindM (w cur) (\<lambda>b. retM ('' . '' @ b @ '')'')))"

primrec write_datum :: "nat \<Rightarrow> arith \<Rightarrow> actor_system \<Rightarrow> val \<Rightarrow> bytes M" where
  "write_datum 0 A sys v = (\<lambda>s. Timeout)"
| "write_datum (Suc n) A sys v =
     (case v of
        VNil \<Rightarrow> retM ''()''
      | VBool b \<Rightarrow> retM (if b then ''#t'' else ''#f'')
      | VInt i \<Rightarrow> retM (dec i)
      | VFloat f \<Rightarrow> retM (wire_float A f)
      | VChar cp \<Rightarrow> retM (wire_char cp)
      | VStr p \<Rightarrow> bindM (derefM h_strs p) (\<lambda>bs. retM (write_string_escaped bs))
      | VSym b \<Rightarrow> retM b
      | VPair p \<Rightarrow> bindM (getM (length \<circ> h_pairs)) (\<lambda>k.
          bindM (write_spine (Suc k) (write_datum n A sys) True v) (\<lambda>bs. retM (''('' @ bs)))
      | VVector p \<Rightarrow> bindM (derefM h_vecs p) (\<lambda>vs.
          bindM (mapM (write_datum n A sys) vs) (\<lambda>bs. retM (''#('' @ separate '' '' bs @ '')'')))
      | VRecord p \<Rightarrow> bindM (derefM h_records p) (\<lambda>r. bindM (derefM h_record_types (rec_type r)) (\<lambda>ty.
          bindM (name_text (rty_name ty)) (\<lambda>name.
          bindM (mapM (\<lambda>i. indexM (rec_fields r) (int i)) [0..<length (rty_field_names ty)]) (\<lambda>vs.
          bindM (mapM (write_datum n A sys) vs) (\<lambda>bs.
          retM (''('' @ separate '' '' (write_string_escaped ''@record'' # write_string_escaped name # bs) @ '')''))))))
      | VBox k p \<Rightarrow>
          if k = BOX_KIND_ACTOR_REF
          then bindM (ref_at p) (\<lambda>r. bindM (ref_uri sys r) (\<lambda>uri. retM (write_string_escaped (c_str (''@ref:'' @ uri)))))
          else creme_abort (''actor: cannot send this value over the wire (unsupported box kind '' @ dec k @ '')'')
      | _ \<Rightarrow> creme_abort ''actor: cannot send this value over the wire (unsupported value type)'')"

text \<open>Data nest at most as deep as there are objects that contain others.\<close>

definition encode_message :: "arith \<Rightarrow> actor_system \<Rightarrow> val \<Rightarrow> bytes M" where
  "encode_message A sys msg =
     (\<lambda>s. write_datum (length (h_pairs s) + length (h_vecs s) + length (h_records s) + 1) A sys msg s)"

subsection \<open>URIs\<close>

text \<open>The local node with a name.\<close>

fun find_node :: "nat list \<Rightarrow> bytes \<Rightarrow> nat option M" where
  "find_node [] name = retM None"
| "find_node (y # ys) name =
     bindM (derefM h_systems y) (\<lambda>sys. if as_node_name sys = Some name then retM (Some y) else find_node ys name)"

text \<open>\<open>memchr\<close>: what is before the first such byte, and what is after it.\<close>

definition split_first :: "char \<Rightarrow> bytes \<Rightarrow> (bytes \<times> bytes) option" where
  "split_first c bs =
     (if c \<in> set bs then Some (takeWhile (\<lambda>d. d \<noteq> c) bs, tl (dropWhile (\<lambda>d. d \<noteq> c) bs)) else None)"

definition split_last :: "char \<Rightarrow> bytes \<Rightarrow> (bytes \<times> bytes) option" where
  "split_last c bs = map_option (\<lambda>(b, a). (rev a, rev b)) (split_first c (rev bs))"

definition tcp_ref :: "bytes \<Rightarrow> bytes \<Rightarrow> bytes \<Rightarrow> (bytes + val) M" where
  "tcp_ref who aid addr =
     (case split_last (CHR '':'') addr of
        None \<Rightarrow> retM (Inl (who @ '': malformed tcp actor URI (missing port)''))
      | Some (host, port) \<Rightarrow>
          if port = [] \<or> length port \<ge> 16 then retM (Inl (who @ '': malformed tcp actor URI (bad port)''))
          else bindM (v_actor_ref_tcp aid (c_str host) (c_int (fst (strtoll 10 (c_str port))))) (\<lambda>v. retM (Inr v)))"

definition local_ref :: "bytes \<Rightarrow> bytes \<Rightarrow> bytes \<Rightarrow> (bytes + val) M" where
  "local_ref who aid addr =
     bindM (getM h_local_nodes) (\<lambda>ys. bindM (find_node ys addr) (\<lambda>y.
     let quoted = [CHR 0x27] @ c_str addr @ [CHR 0x27] in
     case y of
       None \<Rightarrow> retM (Inl (who @ '': no local node registered as '' @ quoted))
     | Some y \<Rightarrow> bindM (derefM h_systems y) (\<lambda>sys. bindM (find_context_by_id_locked sys aid) (\<lambda>c.
         case c of
           None \<Rightarrow> retM (Inl (who @ '': no such local actor '' @ [CHR 0x27] @ aid @ [CHR 0x27] @ '' on node '' @ quoted))
         | Some c \<Rightarrow> bindM (v_actor_ref aid c) (\<lambda>v. retM (Inr v))))))"

text \<open>\<open>Inl\<close> is the message of \<open>URI_FAIL\<close>, which the reader drops and \<open>remote-ref\<close> aborts with.\<close>

definition make_ref_from_uri :: "bytes \<Rightarrow> bytes \<Rightarrow> (bytes + val) M" where
  "make_ref_from_uri uri who =
     (let bad = retM (Inl (who @ '': malformed actor URI'')) in
      case split_first (CHR '':'') uri of
        None \<Rightarrow> bad
      | Some (scheme, left) \<Rightarrow>
          if length left < 2 \<or> take 2 left \<noteq> ''//'' then bad
          else (case split_first (CHR ''@'') (drop 2 left) of
            None \<Rightarrow> bad
          | Some (aid, addr) \<Rightarrow>
              if scheme = ''tcp'' then tcp_ref who (c_str aid) addr
              else if scheme = ''unix'' then bindM (v_actor_ref_unix (c_str aid) (c_str addr)) (\<lambda>v. retM (Inr v))
              else if scheme = ''local'' then local_ref who (c_str aid) addr
              else retM (Inl (who @ '': unknown actor URI scheme (expected tcp/unix/local)''))))"

definition bi_remote_ref :: "val list \<Rightarrow> val M" where
  "bi_remote_ref args =
     bindM (creme_arg_bytes args 0 ''remote-ref'') (\<lambda>uri.
     bindM (make_ref_from_uri uri ''remote-ref'') (\<lambda>r.
     case r of Inl msg \<Rightarrow> creme_abort msg | Inr v \<Rightarrow> retM v))"

subsection \<open>Reading\<close>

type_synonym 'a wire = "bytes \<Rightarrow> ('a \<times> bytes) option M"

definition failW :: "'a option M" where
  "failW = retM None"

definition bindW :: "'a option M \<Rightarrow> ('a \<Rightarrow> 'b option M) \<Rightarrow> 'b option M" where
  "bindW m f = bindM m (\<lambda>r. case r of None \<Rightarrow> retM None | Some x \<Rightarrow> f x)"

definition wire_blank :: "char \<Rightarrow> bool" where
  "wire_blank c \<longleftrightarrow> c \<in> {CHR '' '', CHR 0x09, CHR 0x0A, CHR 0x0D}"

definition preader_skip_ws :: "bytes \<Rightarrow> bytes" where
  "preader_skip_ws bs = dropWhile wire_blank bs"

text \<open>The loop of \<open>read_string\<close> after the opening quote.\<close>

fun string_loop :: "bytes \<Rightarrow> (bytes \<times> bytes) option" where
  "string_loop [] = None"
| "string_loop (c # cs) =
     (if c = CHR 0x22 then Some ([], cs)
      else if c = CHR 0x5C
      then (case cs of [] \<Rightarrow> None | d # ds \<Rightarrow> map_option (\<lambda>(str, left). (d # str, left)) (string_loop ds))
      else map_option (\<lambda>(str, left). (c # str, left)) (string_loop cs))"

definition wire_read_string :: "val wire" where
  "wire_read_string bs =
     (case string_loop bs of
        None \<Rightarrow> failW
      | Some (out, left) \<Rightarrow>
          if take 5 out = ''@ref:''
          then bindM (make_ref_from_uri (drop 5 out) ''actor'') (\<lambda>r. case r of Inl msg \<Rightarrow> failW | Inr v \<Rightarrow> retM (Some (v, left)))
          else bindM (new_str out) (\<lambda>v. retM (Some (v, left))))"

text \<open>The elements of a list with the end of it; \<open>k\<close> more fit into the array \<open>items\<close>.\<close>

definition list_turn :: "val wire \<Rightarrow> (bytes \<Rightarrow> ((val list \<times> val option) \<times> bytes) option M) \<Rightarrow> (val list \<times> val option) wire" where
  "list_turn rd element bs0 =
     (let bs = preader_skip_ws bs0 in
      if bs = [] then failW
      else if hd bs = CHR '')'' then retM (Some (([], None), tl bs))
      else if hd bs = CHR ''.'' \<and> tl bs \<noteq> [] \<and> hd (tl bs) \<in> {CHR '' '', CHR ''(''}
      then bindW (rd (preader_skip_ws (tl bs))) (\<lambda>(tail, left0).
        let left = preader_skip_ws left0 in
        if left = [] \<or> hd left \<noteq> CHR '')'' then failW else retM (Some (([], Some tail), tl left)))
      else element bs)"

primrec list_loop :: "nat \<Rightarrow> val wire \<Rightarrow> (val list \<times> val option) wire" where
  "list_loop 0 rd = list_turn rd (\<lambda>bs. failW)"
| "list_loop (Suc k) rd = list_turn rd (\<lambda>bs.
     bindW (rd bs) (\<lambda>(v, left). bindW (list_loop k rd left) (\<lambda>((vs, tail), left'). retM (Some ((v # vs, tail), left')))))"

text \<open>The record type that a global of this name holds.\<close>

definition global_record_type :: "bytes \<Rightarrow> nat option M" where
  "global_record_type name = (\<lambda>s.
     Done (case find (\<lambda>i. gc_bound (vm_globals s i) \<and> tag_of (gc_value (vm_globals s i)) = 15 \<and> gc_name (vm_globals s i) = name)
             [0..<vm_n_globals s] of
             None \<Rightarrow> None
           | Some i \<Rightarrow> (case gc_value (vm_globals s i) of VRecordType ty \<Rightarrow> Some ty | _ \<Rightarrow> None)) s)"

definition is_string :: "val \<Rightarrow> bytes \<Rightarrow> bool M" where
  "is_string v str = (case v of VStr p \<Rightarrow> bindM (derefM h_strs p) (\<lambda>bs. retM (bs = str)) | _ \<Rightarrow> retM False)"

definition read_record :: "val list \<Rightarrow> val option M" where
  "read_record items =
     (case items ! 1 of
        VStr p \<Rightarrow> bindM (derefM h_strs p) (\<lambda>name. bindM (global_record_type name) (\<lambda>ty.
          case ty of None \<Rightarrow> failW | Some ty \<Rightarrow> bindM (new_record ty (drop 2 items)) (\<lambda>v. retM (Some v))))
      | _ \<Rightarrow> failW)"

definition read_list_value :: "val list \<Rightarrow> val option \<Rightarrow> val option M" where
  "read_list_value items tail =
     bindM (if tail = None \<and> length items \<ge> 2 then is_string (items ! 0) ''@record'' else retM False) (\<lambda>r.
     if r then read_record items
     else bindM (cons_list items (case tail of None \<Rightarrow> VNil | Some t \<Rightarrow> t)) (\<lambda>v. retM (Some v)))"

text \<open>\<open>read_list\<close> after the parenthesis, with the reader of the next level.\<close>

definition wire_read_list :: "val wire \<Rightarrow> val wire" where
  "wire_read_list rd bs =
     bindW (list_loop 256 rd bs) (\<lambda>((items, tail), left).
     bindW (read_list_value items tail) (\<lambda>v. retM (Some (v, left))))"

text \<open>\<open>#(\<close> reads a list and copies what \<open>car\<close> and \<open>cdr\<close> reach.\<close>

definition wire_read_vector :: "val wire \<Rightarrow> val wire" where
  "wire_read_vector rdl bs =
     bindW (rdl bs) (\<lambda>(lst, left). bindM (list_items lst) (\<lambda>(vs, tail). bindM (new_vector vs) (\<lambda>v. retM (Some (v, left)))))"

text \<open>Whether a number that starts with this text could go on beyond its end: the conversion has to look at the next byte.\<close>

definition after_sign :: "bytes \<Rightarrow> bytes" where
  "after_sign bs =
     (let ws = dropWhile c_isspace bs in if ws \<noteq> [] \<and> hd ws \<in> {CHR ''+'', CHR ''-''} then tl ws else ws)"

definition open_integer :: "bytes \<Rightarrow> bool" where
  "open_integer bs \<longleftrightarrow> dropWhile is_digit (after_sign bs) = []"

definition open_hex :: "bytes \<Rightarrow> bool" where
  "open_hex bs \<longleftrightarrow>
     (let b = after_sign bs in
      dropWhile (is_digit_in 16) (if take 2 (map c_tolower b) = ''0x'' then drop 2 b else b) = [])"

definition open_exponent :: "char set \<Rightarrow> bytes \<Rightarrow> bool" where
  "open_exponent marks bs \<longleftrightarrow>
     bs = [] \<or> (hd bs \<in> marks \<and> dropWhile is_digit (if tl bs \<noteq> [] \<and> hd (tl bs) \<in> {CHR ''+'', CHR ''-''} then tl (tl bs) else tl bs) = [])"

definition open_mantissa :: "(char \<Rightarrow> bool) \<Rightarrow> char set \<Rightarrow> bytes \<Rightarrow> bool" where
  "open_mantissa digit marks bs \<longleftrightarrow>
     (let rest = dropWhile digit bs; frac = (if rest \<noteq> [] \<and> hd rest = CHR ''.'' then tl rest else rest) in
      if rest = frac then open_exponent (if rest = bs then {} else marks) rest
      else open_exponent (if rest = bs \<and> dropWhile digit frac = frac then {} else marks) (dropWhile digit frac))"

definition open_float :: "bytes \<Rightarrow> bool" where
  "open_float bs \<longleftrightarrow>
     (let b = after_sign bs; low = map c_tolower b in
      open_mantissa is_digit {CHR ''e'', CHR ''E''} b \<or>
      (take 2 low = ''0x'' \<and> open_mantissa (is_digit_in 16) {CHR ''p'', CHR ''P''} (drop 2 b)) \<or>
      (length low < 8 \<and> low = take (length low) ''infinity'') \<or> low \<in> {''n'', ''na'', ''nan''} \<or>
      (take 4 low = ''nan('' \<and> list_all (\<lambda>c. is_digit_in 36 c \<or> c = CHR ''_'') (drop 4 low)))"

text \<open>A character literal after \<open>#\\<close>.\<close>

definition wire_read_char :: "val wire" where
  "wire_read_char bs =
     (case bs of
        [] \<Rightarrow> failW
      | c # cs \<Rightarrow>
          if c = CHR ''x''
          then (let hex = takeWhile (\<lambda>d. d \<noteq> CHR '';'') cs; left = dropWhile (\<lambda>d. d \<noteq> CHR '';'') cs in
            if left = [] \<and> open_hex hex then stuckM else retM (Some (VChar (fst (strtoll 16 cs)), tl left)))
          else retM (Some (VChar (of_char c), cs)))"

definition token_end :: "char \<Rightarrow> bool" where
  "token_end c \<longleftrightarrow> wire_blank c \<or> c = CHR ''('' \<or> c = CHR '')''"

definition wire_read_token :: "arith \<Rightarrow> val wire" where
  "wire_read_token A bs =
     (let tok = takeWhile (\<lambda>c. \<not> token_end c) bs; left = dropWhile (\<lambda>c. \<not> token_end c) bs in
      if tok = [] then failW
      else if open_integer bs then stuckM
      else if snd (strtoll 10 bs) = left then retM (Some (VInt (fst (strtoll 10 bs)), left))
      else if open_float bs then stuckM
      else if snd (strtod A bs) = left then retM (Some (VFloat (fst (strtod A bs)), left))
      else retM (Some (VSym tok, left)))"

text \<open>\<open>read_datum\<close>, given the reader of lists.\<close>

definition read_datum_with :: "arith \<Rightarrow> val wire \<Rightarrow> val wire" where
  "read_datum_with A rdl bs0 =
     (let bs = preader_skip_ws bs0 in
      if bs = [] then failW
      else if hd bs = CHR ''('' then rdl (tl bs)
      else if hd bs = CHR 0x22 then wire_read_string (tl bs)
      else if hd bs = CHR ''#''
      then (case tl bs of
          [] \<Rightarrow> failW
        | c # cs \<Rightarrow>
            if c = CHR ''('' then wire_read_vector rdl cs
            else if c = CHR ''t'' then retM (Some (VBool True, cs))
            else if c = CHR ''f'' then retM (Some (VBool False, cs))
            else if c = CHR 0x5C then wire_read_char cs
            else failW)
      else wire_read_token A bs)"

definition CREME_ACTOR_MAX_WIRE_DEPTH :: nat where
  "CREME_ACTOR_MAX_WIRE_DEPTH = 256"

text \<open>\<open>read_datum\<close> with the levels of lists it may still open.\<close>

primrec wire_read :: "arith \<Rightarrow> nat \<Rightarrow> val wire" where
  "wire_read A 0 = read_datum_with A (\<lambda>bs. failW)"
| "wire_read A (Suc d) = read_datum_with A (wire_read_list (wire_read A d))"

definition decode_message :: "arith \<Rightarrow> bytes \<Rightarrow> val option M" where
  "decode_message A payload =
     bindW (wire_read A CREME_ACTOR_MAX_WIRE_DEPTH payload) (\<lambda>(v, left). retM (Some v))"

subsection \<open>Frames\<close>

definition FRAME_HANDSHAKE :: nat where "FRAME_HANDSHAKE = 1"
definition FRAME_DELIVER :: nat where "FRAME_DELIVER = 2"
definition FRAME_ERROR :: nat where "FRAME_ERROR = 3"
definition NONCE_SIZE :: nat where "NONCE_SIZE = 32"
definition CREME_ACTOR_MAX_FRAME :: nat where "CREME_ACTOR_MAX_FRAME = 16 * 1024 * 1024"

definition byte_at :: "nat \<Rightarrow> nat \<Rightarrow> char" where
  "byte_at k n = char_of (n div 256 ^ k)"

text \<open>The bytes that are written; the length is cut to \<open>uint32_t\<close> by its callers.\<close>

definition write_frame_fd :: "nat \<Rightarrow> bytes \<Rightarrow> bytes" where
  "write_frame_fd ty body =
     [char_of ty, byte_at 3 (length body), byte_at 2 (length body), byte_at 1 (length body), byte_at 0 (length body)] @ body"

text \<open>\<open>read_frame_fd\<close>: the type, the body and what follows.\<close>

definition read_frame_fd :: "nat \<Rightarrow> bytes \<Rightarrow> (nat \<times> bytes \<times> bytes) option" where
  "read_frame_fd max_len inc =
     (if length inc < 5 then None
      else let n = ((of_char (inc ! 1) * 256 + of_char (inc ! 2)) * 256 + of_char (inc ! 3)) * 256 + of_char (inc ! 4);
               left = drop 5 inc in
        if n > max_len \<or> length left < n then None else Some (of_char (inc ! 0), take n left, drop n left))"

subsection \<open>The handshake\<close>

text \<open>Both sides return what they have written and, when they accept the peer, what is left to read.\<close>

definition handshake_initiate :: "os \<Rightarrow> bytes \<Rightarrow> bytes \<Rightarrow> (bytes \<times> bytes option) M" where
  "handshake_initiate OS cookie inc =
     bindM (os_call (os_random OS)) (\<lambda>r.
     case r of
       None \<Rightarrow> retM ([], None)
     | Some nonce \<Rightarrow>
         let out = write_frame_fd FRAME_HANDSHAKE (nonce @ os_hmac OS cookie nonce) in
         bindM (os_call (os_write OS)) (\<lambda>written.
         retM (if \<not> written then ([], None)
           else (out, case read_frame_fd (NONCE_SIZE * 2) inc of
             None \<Rightarrow> None
           | Some (ty, body, left) \<Rightarrow>
               if ty \<noteq> FRAME_HANDSHAKE \<or> length body \<noteq> NONCE_SIZE * 2 then None
               else if drop NONCE_SIZE body = os_hmac OS cookie (nonce @ take NONCE_SIZE body) then Some left else None))))"

definition handshake_respond :: "os \<Rightarrow> bytes \<Rightarrow> bytes \<Rightarrow> (bytes \<times> bytes option) M" where
  "handshake_respond OS cookie inc =
     (case read_frame_fd (NONCE_SIZE * 2) inc of
        None \<Rightarrow> retM ([], None)
      | Some (ty, body, left) \<Rightarrow>
          if ty \<noteq> FRAME_HANDSHAKE \<or> length body \<noteq> NONCE_SIZE * 2 then retM ([], None)
          else if drop NONCE_SIZE body \<noteq> os_hmac OS cookie (take NONCE_SIZE body)
          then bindM (os_call (os_write OS)) (\<lambda>written.
            retM (if written then write_frame_fd FRAME_ERROR ''authentication failed'' else [], None))
          else bindM (os_call (os_random OS)) (\<lambda>r.
            case r of
              None \<Rightarrow> retM ([], None)
            | Some nonce \<Rightarrow> bindM (os_call (os_write OS)) (\<lambda>written.
                retM (if written
                  then (write_frame_fd FRAME_HANDSHAKE (nonce @ os_hmac OS cookie (take NONCE_SIZE body @ nonce)), Some left)
                  else ([], None)))))"

subsection \<open>Delivery\<close>

text \<open>The length of the name is written in two bytes.\<close>

definition build_deliver_body :: "bytes \<Rightarrow> bytes \<Rightarrow> bytes" where
  "build_deliver_body to payload = [byte_at 1 (length to), byte_at 0 (length to)] @ to @ payload"

definition parse_deliver_body :: "bytes \<Rightarrow> (bytes \<times> bytes) option" where
  "parse_deliver_body body =
     (if length body < 2 then None
      else let n = of_char (body ! 0) * 256 + of_char (body ! 1) in
        if 2 + n > length body then None else Some (take n (drop 2 body), drop (2 + n) body))"

text \<open>The receiver of a message: an actor by its id, or else by its name.\<close>

definition find_receiver :: "actor_system \<Rightarrow> bytes \<Rightarrow> nat option M" where
  "find_receiver sys to =
     bindM (find_context_by_id_locked sys (c_str to)) (\<lambda>c.
     case c of Some c \<Rightarrow> retM (Some c) | None \<Rightarrow> find_named sys to)"

definition deliver_frame :: "arith \<Rightarrow> nat \<Rightarrow> nat \<Rightarrow> bytes \<Rightarrow> unit M" where
  "deliver_frame A y ty body =
     (if ty \<noteq> FRAME_DELIVER then retM ()
      else case parse_deliver_body body of
        None \<Rightarrow> retM ()
      | Some (to, payload) \<Rightarrow>
          bindM (decode_message A payload) (\<lambda>msg.
          case msg of
            None \<Rightarrow> retM ()
          | Some v \<Rightarrow> bindM (derefM h_systems y) (\<lambda>sys. bindM (find_receiver sys to) (\<lambda>c.
              case c of None \<Rightarrow> retM () | Some c \<Rightarrow> mailbox_send c v))))"

text \<open>The loop over the frames; each has at least five bytes.\<close>

primrec inbound_loop :: "nat \<Rightarrow> arith \<Rightarrow> nat \<Rightarrow> bytes \<Rightarrow> unit M" where
  "inbound_loop 0 A y inc = (\<lambda>s. Timeout)"
| "inbound_loop (Suc n) A y inc =
     (case read_frame_fd CREME_ACTOR_MAX_FRAME inc of
        None \<Rightarrow> retM ()
      | Some (ty, body, left) \<Rightarrow> bindM (deliver_frame A y ty body) (\<lambda>_. inbound_loop n A y left))"

text \<open>One accepted connection; the result is what has been written to it.\<close>

definition handle_inbound_main :: "os \<Rightarrow> arith \<Rightarrow> nat \<Rightarrow> bytes \<Rightarrow> bytes M" where
  "handle_inbound_main OS A y inc =
     bindM (derefM h_systems y) (\<lambda>sys.
     case as_cookie sys of
       None \<Rightarrow> stuckM
     | Some cookie \<Rightarrow> bindM (handshake_respond OS cookie inc) (\<lambda>(out, ok).
         case ok of
           None \<Rightarrow> retM out
         | Some left \<Rightarrow> bindM (inbound_loop (Suc (length left)) A y left) (\<lambda>_. retM out)))"

subsection \<open>Connections\<close>

text \<open>A change of a system that leaves its lists of actors alone.\<close>

definition set_node :: "nat \<Rightarrow> (actor_system \<Rightarrow> actor_system) \<Rightarrow> unit M" where
  "set_node y f = bindM (derefM h_systems y) (\<lambda>sys. set_system y (f sys))"

fun find_connection :: "nat list \<Rightarrow> bytes \<Rightarrow> nat option M" where
  "find_connection [] key = retM None"
| "find_connection (k # ks) key =
     bindM (derefM h_connections k) (\<lambda>c. if cn_key c = key then retM (Some k) else find_connection ks key)"

definition find_connection_locked :: "nat \<Rightarrow> bytes \<Rightarrow> nat option M" where
  "find_connection_locked y key = bindM (derefM h_systems y) (\<lambda>sys. find_connection (as_connections sys) key)"

definition new_connection :: "bytes \<Rightarrow> nat M" where
  "new_connection sent = (\<lambda>s. Done (length (h_connections s))
     (s\<lparr>h_connections := h_connections s @ [\<lparr> cn_key = [], cn_open = True, cn_sent = sent \<rparr>]\<rparr>))"

definition dial :: "os \<Rightarrow> nat \<Rightarrow> actor_addr \<Rightarrow> nat M" where
  "dial OS y addr =
     bindM (derefM h_systems y) (\<lambda>sys.
     case as_cookie sys of
       None \<Rightarrow> creme_abort ''send!: start-node must be called before contacting a remote actor''
     | Some cookie \<Rightarrow>
         bindM (os_call (\<lambda>n. os_connect OS n addr)) (\<lambda>r.
         bindM (case r of
             Connected inc \<Rightarrow> retM inc
           | ConnNoHost \<Rightarrow> creme_abort (''send!: could not resolve host '' @ [CHR 0x27] @
               (case addr of ADDR_TCP host port \<Rightarrow> host | _ \<Rightarrow> []) @ [CHR 0x27])
           | ConnNoSocket \<Rightarrow> creme_abort ''send!: could not create a unix socket''
           | ConnRefused \<Rightarrow> creme_abort (case addr of
               ADDR_TCP host port \<Rightarrow> ''send!: connection to '' @ host @ '':'' @ dec port @ '' failed''
             | ADDR_UNIX path \<Rightarrow> ''send!: connection to unix socket '' @ [CHR 0x27] @ path @ [CHR 0x27] @ '' failed''
             | ADDR_NONE \<Rightarrow> [])) (\<lambda>inc.
         bindM (handshake_initiate OS cookie inc) (\<lambda>(out, ok).
         bindM (guardM (ok = None) ''send!: handshake failed or was rejected'') (\<lambda>_. new_connection out)))))"

definition set_connection :: "nat \<Rightarrow> connection \<Rightarrow> unit M" where
  "set_connection k c = modM (\<lambda>s. s\<lparr>h_connections := (h_connections s)[k := c]\<rparr>)"

text \<open>Dialling takes place outside the lock, so the cache is searched again.\<close>

definition connection_for :: "os \<Rightarrow> nat \<Rightarrow> bytes \<Rightarrow> actor_addr \<Rightarrow> nat M" where
  "connection_for OS y key addr =
     bindM (find_connection_locked y key) (\<lambda>existing.
     case existing of
       Some k \<Rightarrow> retM k
     | None \<Rightarrow>
         bindM (dial OS y addr) (\<lambda>fresh.
         bindM (derefM h_connections fresh) (\<lambda>c.
         bindM (set_connection fresh (c\<lparr>cn_key := key\<rparr>)) (\<lambda>_.
         bindM (find_connection_locked y key) (\<lambda>existing.
         case existing of
           Some k \<Rightarrow> bindM (set_connection fresh (c\<lparr>cn_key := key, cn_open := False\<rparr>)) (\<lambda>_. retM k)
         | None \<Rightarrow> bindM (set_node y (\<lambda>sys. sys\<lparr>as_connections := fresh # as_connections sys\<rparr>)) (\<lambda>_. retM fresh))))))"

text \<open>Writing the frame to the connection; a connection that fails is closed and leaves the cache.\<close>

definition write_connection :: "os \<Rightarrow> nat \<Rightarrow> bytes \<Rightarrow> bool M" where
  "write_connection OS k bs =
     bindM (derefM h_connections k) (\<lambda>c.
     if \<not> cn_open c then retM False
     else bindM (os_call (os_write OS)) (\<lambda>written.
       bindM (set_connection k (if written then c\<lparr>cn_sent := cn_sent c @ bs\<rparr> else c\<lparr>cn_open := False\<rparr>)) (\<lambda>_. retM written)))"

definition connection_key :: "actor_addr \<Rightarrow> bytes" where
  "connection_key addr = take 511 (case addr of
     ADDR_TCP host port \<Rightarrow> ''tcp:'' @ host @ '':'' @ dec port | ADDR_UNIX path \<Rightarrow> ''unix:'' @ path | ADDR_NONE \<Rightarrow> ''unix:'')"

definition send_remote :: "os \<Rightarrow> arith \<Rightarrow> nat \<Rightarrow> actor_ref \<Rightarrow> val \<Rightarrow> unit M" where
  "send_remote OS A y r msg =
     bindM (derefM h_systems y) (\<lambda>sys.
     bindM (encode_message A sys msg) (\<lambda>payload.
     let body = build_deliver_body (ar_id r) payload in
     bindM (connection_for OS y (connection_key (ar_addr r)) (ar_addr r)) (\<lambda>k.
     bindM (write_connection OS k (write_frame_fd FRAME_DELIVER body)) (\<lambda>ok.
     if ok then retM ()
     else bindM (set_node y (\<lambda>sys. sys\<lparr>as_connections := remove1 k (as_connections sys)\<rparr>)) (\<lambda>_.
       creme_abort (''send!: connection to '' @ ar_id r @ '' failed''))))))"

subsection \<open>The builtins\<close>

definition bi_send_bang :: "os \<Rightarrow> arith \<Rightarrow> val list \<Rightarrow> val M" where
  "bi_send_bang OS A args =
     bindM (creme_check_min_args (int (length args)) 2 ''send!'') (\<lambda>_.
     let bad = creme_abort ''send!: expected an actor reference or registered name'' in
     if tag_of (args ! 0) = 4 \<or> tag_of (args ! 0) = 5
     then bindM (resolve_target (args ! 0) ''send!'') (\<lambda>c. bindM (mailbox_send c (args ! 1)) (\<lambda>_. retM VNil))
     else case args ! 0 of
       VBox k p \<Rightarrow>
         if k \<noteq> BOX_KIND_ACTOR_REF then bad
         else bindM (ref_at p) (\<lambda>r.
           case ar_local_ctx r of
             Some c \<Rightarrow> bindM (mailbox_send c (args ! 1)) (\<lambda>_. retM VNil)
           | None \<Rightarrow> bindM my_system (\<lambda>y. bindM (send_remote OS A y r (args ! 1)) (\<lambda>_. retM VNil)))
     | _ \<Rightarrow> bad)"

text \<open>The threads that accept connections run outside of the model.\<close>

definition start_accepting :: "os \<Rightarrow> unit M" where
  "start_accepting OS =
     bindM (os_call (os_thread OS)) (\<lambda>started. guardM (\<not> started) ''start-node: failed to start the accept thread'')"

definition start_tcp_node :: "os \<Rightarrow> nat \<Rightarrow> bytes \<Rightarrow> int \<Rightarrow> bytes \<Rightarrow> unit M" where
  "start_tcp_node OS y host port cookie =
     bindM (set_node y (\<lambda>sys. sys\<lparr>as_tcp_host := Some (c_str host), as_cookie := Some cookie\<rparr>)) (\<lambda>_.
     bindM (os_call (\<lambda>n. os_listen OS n (ADDR_TCP (c_str host) port))) (\<lambda>r.
     case r of
       ListenNoHost \<Rightarrow> creme_abort (''start-node: could not resolve host '' @ [CHR 0x27] @ c_str host @ [CHR 0x27])
     | ListenFailed \<Rightarrow> creme_abort ''start-node: listen failed''
     | Listening bound \<Rightarrow>
         bindM (set_node y (\<lambda>sys. sys\<lparr>as_tcp_port := bound, as_listening := True\<rparr>)) (\<lambda>_. start_accepting OS)
     | _ \<Rightarrow> creme_abort (''start-node: could not bind '' @ c_str host @ '':'' @ dec port)))"

definition start_unix_node :: "os \<Rightarrow> nat \<Rightarrow> bytes \<Rightarrow> bytes \<Rightarrow> unit M" where
  "start_unix_node OS y path cookie =
     bindM (set_node y (\<lambda>sys. sys\<lparr>as_unix_path := Some (c_str path), as_cookie := Some cookie\<rparr>)) (\<lambda>_.
     bindM (os_call (\<lambda>n. os_listen OS n (ADDR_UNIX (c_str path)))) (\<lambda>r.
     case r of
       ListenNoBind \<Rightarrow> creme_abort (''start-node: could not bind unix socket '' @ [CHR 0x27] @ c_str path @ [CHR 0x27])
     | ListenFailed \<Rightarrow> creme_abort ''start-node: listen failed''
     | Listening bound \<Rightarrow> bindM (set_node y (\<lambda>sys. sys\<lparr>as_listening := True\<rparr>)) (\<lambda>_. start_accepting OS)
     | _ \<Rightarrow> creme_abort ''start-node: could not create a unix socket''))"

definition start_local_node :: "nat \<Rightarrow> val list \<Rightarrow> unit M" where
  "start_local_node y args =
     (let text_tag = (\<lambda>v. tag_of v = 4 \<or> tag_of v = 5) in
      if length args < 3 \<or> \<not> text_tag (args ! 1) \<or> \<not> text_tag (args ! 2)
      then creme_abort (''start-node: '' @ [CHR 0x27] @ ''local expects (name cookie)'')
      else bindM (name_text (args ! 1)) (\<lambda>name. bindM (name_text (args ! 2)) (\<lambda>cookie.
        bindM (set_node y (\<lambda>sys. sys\<lparr>as_node_name := Some name, as_cookie := Some cookie\<rparr>)) (\<lambda>_.
        modM (\<lambda>s. s\<lparr>h_local_nodes := y # h_local_nodes s\<rparr>)))))"

definition start_tagged_node :: "os \<Rightarrow> nat \<Rightarrow> bytes \<Rightarrow> val list \<Rightarrow> unit M" where
  "start_tagged_node OS y tag args =
     (if tag = ''tcp''
      then bindM (creme_arg_bytes args 1 ''start-node'') (\<lambda>host. bindM (creme_arg_int args 2 ''start-node'') (\<lambda>port.
        bindM (creme_arg_bytes args 3 ''start-node'') (\<lambda>cookie. start_tcp_node OS y host (c_int port) cookie)))
      else if tag = ''unix''
      then bindM (creme_arg_bytes args 1 ''start-node'') (\<lambda>path. bindM (creme_arg_bytes args 2 ''start-node'') (\<lambda>cookie.
        start_unix_node OS y path cookie))
      else if tag = ''local'' then start_local_node y args
      else creme_abort (''start-node: unknown transport '' @ [CHR 0x27] @ c_str tag @ [CHR 0x27] @ '', expected '' @ [CHR 0x27] @
        ''tcp, '' @ [CHR 0x27] @ ''unix, or '' @ [CHR 0x27] @ ''local''))"

definition bi_start_node :: "os \<Rightarrow> val list \<Rightarrow> val M" where
  "bi_start_node OS args =
     bindM (creme_check_min_args (int (length args)) 3 ''start-node'') (\<lambda>_.
     bindM alloc_actor_system (\<lambda>y.
     bindM (case args ! 0 of
         VSym tag \<Rightarrow> start_tagged_node OS y tag args
       | VStr p \<Rightarrow>
           (case (args ! 1, args ! 2) of
              (VInt port, VStr q) \<Rightarrow> bindM (derefM h_strs p) (\<lambda>host. bindM (derefM h_strs q) (\<lambda>cookie.
                start_tcp_node OS y host (c_int port) cookie))
            | _ \<Rightarrow> creme_abort ''start-node: expected (host port cookie)'')
       | _ \<Rightarrow> creme_abort ''start-node: expected (host port cookie)'') (\<lambda>_.
     bindM ensure_context (\<lambda>me.
     bindM (move_context_to_system me y) (\<lambda>_.
     v_box (BoxActorNode y) BOX_KIND_ACTOR_NODE)))))"

definition close_connection :: "nat \<Rightarrow> unit M" where
  "close_connection k = bindM (derefM h_connections k) (\<lambda>c. set_connection k (c\<lparr>cn_open := False\<rparr>))"

definition bi_stop_node_bang :: "val list \<Rightarrow> val M" where
  "bi_stop_node_bang args =
     bindM (if length args \<ge> 1 then node_arg (args ! 0) ''stop-node!'' else my_system) (\<lambda>y.
     bindM (derefM h_systems y) (\<lambda>sys.
     bindM (forM (as_connections sys) close_connection) (\<lambda>_.
     bindM (set_node y (\<lambda>sys. sys\<lparr>as_listening := False, as_connections := []\<rparr>)) (\<lambda>_.
     bindM (if as_node_name sys = None then retM ()
            else modM (\<lambda>s. s\<lparr>h_local_nodes := filter (\<lambda>z. z \<noteq> y) (h_local_nodes s)\<rparr>)) (\<lambda>_. retM VNil)))))"

text \<open>The table.\<close>

definition actor_builtin :: "os \<Rightarrow> arith \<Rightarrow> bytes \<Rightarrow> (val list \<Rightarrow> val M) option" where
  "actor_builtin OS A = map_of
    [(''bi_spawn'', bi_spawn OS), (''bi_send_bang'', bi_send_bang OS A), (''bi_receive_bang'', bi_receive_bang),
     (''bi_self'', bi_self), (''bi_monitor'', bi_monitor), (''bi_register_bang'', bi_register_bang), (''bi_whereis'', bi_whereis),
     (''bi_actor_ref_id'', bi_actor_ref_id), (''bi_down_p'', bi_down_p), (''bi_down_ref'', bi_down_ref),
     (''bi_down_reason'', bi_down_reason), (''bi_start_node'', bi_start_node OS), (''bi_node_name'', bi_node_name),
     (''bi_node_port'', bi_node_port), (''bi_node_path'', bi_node_path), (''bi_node_address'', bi_node_address),
     (''bi_remote_ref'', bi_remote_ref), (''bi_stop_node_bang'', bi_stop_node_bang)]"

end
