(* ===== verification/Builtin_Table.thy ===== *)
theory Builtin_Table
  imports Builtin_Errors VM_Step Builtin_Radix Builtin_Treelist Builtin_Hash Big_Decimal Reader Writer Csv Json Num_Functions String_Lib Builtin_Vectors Actor_Net
begin

text \<open>
  The functions behind the \<open>T_BUILTIN\<close> pointers: the name of the C function, to its model.  \<open>n\<close> is the
  fuel of its loops and \<open>ap\<close> is \<open>creme_apply\<close>.  A builtin that is not modelled is \<open>Stuck\<close>.
\<close>

definition predicate :: "bytes \<Rightarrow> (val \<Rightarrow> bool) \<Rightarrow> val list \<Rightarrow> val M" where
  "predicate who f args = bindM (creme_check_min_args (int (length args)) 1 who) (\<lambda>_.
     retM (VBool (f (args ! 0))))"

definition bi_not :: "val list \<Rightarrow> val M" where "bi_not = predicate ''not'' v_falsy"
definition bi_pair_p :: "val list \<Rightarrow> val M" where "bi_pair_p = predicate ''pair?'' is_pair"
definition bi_null_p :: "val list \<Rightarrow> val M" where "bi_null_p = predicate ''null?'' (\<lambda>v. v = VNil)"
definition bi_boolean_p :: "val list \<Rightarrow> val M" where "bi_boolean_p = predicate ''boolean?'' (\<lambda>v. tag_of v = 1)"
definition bi_symbol_p :: "val list \<Rightarrow> val M" where "bi_symbol_p = predicate ''symbol?'' (\<lambda>v. tag_of v = 4)"
definition bi_string_p :: "val list \<Rightarrow> val M" where "bi_string_p = predicate ''string?'' (\<lambda>v. tag_of v = 5)"
definition bi_char_p :: "val list \<Rightarrow> val M" where "bi_char_p = predicate ''char?'' (\<lambda>v. tag_of v = 6)"
definition bi_vector_p :: "val list \<Rightarrow> val M" where "bi_vector_p = predicate ''vector?'' (\<lambda>v. tag_of v = 8)"

text \<open>The tags in the order of the C condition.\<close>

definition bi_procedure_p :: "val list \<Rightarrow> val M" where
  "bi_procedure_p = predicate ''procedure?'' (\<lambda>v. tag_of v \<in> {13, 14, 17, 18, 22})"

definition bi_number_p :: "val list \<Rightarrow> val M" where
  "bi_number_p = predicate ''number?'' (\<lambda>v. tag_of v \<in> {2, 23, 3, 24, 25})"

definition bi_real_p :: "val list \<Rightarrow> val M" where
  "bi_real_p = predicate ''real?'' (\<lambda>v. tag_of v \<in> {2, 23, 3, 24})"

definition bi_exact_p :: "val list \<Rightarrow> val M" where
  "bi_exact_p = predicate ''exact?'' (\<lambda>v. tag_of v \<in> {2, 23, 24})"

definition bi_inexact_p :: "val list \<Rightarrow> val M" where
  "bi_inexact_p = predicate ''inexact?'' (\<lambda>v. tag_of v = 3)"

definition bi_exact_integer_p :: "val list \<Rightarrow> val M" where
  "bi_exact_integer_p = predicate ''exact-integer?'' (\<lambda>v. tag_of v \<in> {2, 23})"

definition bi_numerator :: "arith \<Rightarrow> val list \<Rightarrow> val M" where
  "bi_numerator A args = bindM (creme_check_min_args (int (length args)) 1 ''numerator'') (\<lambda>_.
     case args ! 0 of
       VInt i \<Rightarrow> retM (VInt i)
     | VBigint z \<Rightarrow> retM (VBigint z)
     | VRational n d \<Rightarrow> retM (make_bigint_from_mpz A n)
     | _ \<Rightarrow> creme_abort ''numerator: expected an exact rational or integer'')"

definition bi_denominator :: "arith \<Rightarrow> val list \<Rightarrow> val M" where
  "bi_denominator A args = bindM (creme_check_min_args (int (length args)) 1 ''denominator'') (\<lambda>_.
     case args ! 0 of
       VInt i \<Rightarrow> retM (VInt 1)
     | VBigint z \<Rightarrow> retM (VInt 1)
     | VRational n d \<Rightarrow> retM (make_bigint_from_mpz A d)
     | _ \<Rightarrow> creme_abort ''denominator: expected an exact rational or integer'')"

definition bi_promise_p :: "val list \<Rightarrow> val M" where
  "bi_promise_p args = bindM (argM args 0) (\<lambda>v. retM (VBool (tag_of v = 10)))"

definition bi_string_append :: "val list \<Rightarrow> val M" where
  "bi_string_append args =
     bindM (mapM (\<lambda>v. case v of VStr p \<Rightarrow> derefM h_strs p
              | _ \<Rightarrow> creme_abort ''string-append: expected a string'') args) (\<lambda>bs.
     new_str (concat bs))"

subsection \<open>The table\<close>

definition pure_builtin :: "arith \<Rightarrow> bytes \<Rightarrow> (val list \<Rightarrow> val M) option" where
  "pure_builtin A = map_of
    [(''bi_plus'', bi_plus A), (''bi_minus'', bi_minus A), (''bi_star'', bi_star A), (''bi_slash'', bi_slash A),
     (''bi_num_lt'', bi_num_lt A), (''bi_num_gt'', bi_num_gt A), (''bi_num_le'', bi_num_le A),
     (''bi_num_ge'', bi_num_ge A), (''bi_num_eq'', bi_num_eq A), (''bi_quotient'', bi_quotient A),
     (''bi_remainder'', bi_remainder A), (''bi_modulo'', bi_modulo A),
     (''bi_floor_quotient'', bi_floor_quotient A), (''bi_truncate_slash'', bi_truncate_slash A),
     (''bi_floor_slash'', bi_floor_slash A), (''bi_gcd'', bi_gcd A), (''bi_lcm'', bi_lcm A),
     (''bi_car'', bi_car), (''bi_cdr'', bi_cdr), (''bi_set_car_bang'', bi_set_car_bang),
     (''bi_set_cdr_bang'', bi_set_cdr_bang), (''bi_cons'', bi_cons), (''bi_list'', bi_list),
     (''bi_cons_star'', bi_cons_star), (''bi_append'', bi_append), (''bi_reverse'', bi_reverse),
     (''bi_length'', bi_length), (''bi_list_tail'', bi_list_tail), (''bi_list_ref'', bi_list_ref),
     (''bi_list_set'', bi_list_set), (''bi_make_list'', bi_make_list), (''bi_list_copy'', bi_list_copy),
     (''bi_last_pair'', bi_last_pair), (''bi_list_p'', bi_list_p), (''bi_eq_p'', bi_eq_p A),
     (''bi_eqv_p'', bi_eqv_p A), (''bi_equal_p'', bi_equal_p A), (''bi_assq'', bi_assq A),
     (''bi_memq'', bi_memq A), (''bi_values'', bi_values), (''bi_make_promise'', bi_make_promise),
     (''bi_promise_p'', bi_promise_p), (''bi_not'', bi_not), (''bi_pair_p'', bi_pair_p),
     (''bi_null_p'', bi_null_p), (''bi_boolean_p'', bi_boolean_p), (''bi_symbol_p'', bi_symbol_p),
     (''bi_string_p'', bi_string_p), (''bi_char_p'', bi_char_p), (''bi_vector_p'', bi_vector_p),
     (''bi_procedure_p'', bi_procedure_p), (''bi_number_p'', bi_number_p), (''bi_real_p'', bi_real_p),
     (''bi_exact_p'', bi_exact_p), (''bi_inexact_p'', bi_inexact_p),
     (''bi_exact_integer_p'', bi_exact_integer_p), (''bi_numerator'', bi_numerator A),
     (''bi_denominator'', bi_denominator A), (''bi_string_append'', bi_string_append),
     (''bi_error'', bi_error A), (''bi_error_object_p'', bi_error_object_p),
     (''bi_error_object_message'', bi_error_object_message),
     (''bi_error_object_irritants'', bi_error_object_irritants)]"

definition calling_builtin :: "arith \<Rightarrow> nat \<Rightarrow> (val \<Rightarrow> val list \<Rightarrow> val M) \<Rightarrow> bytes \<Rightarrow> (val list \<Rightarrow> val M) option" where
  "calling_builtin A n ap = map_of
    [(''bi_assoc'', bi_assoc n A ap), (''bi_member'', bi_member n A ap), (''bi_apply'', bi_apply ap),
     (''bi_map'', bi_map n ap), (''bi_for_each'', bi_for_each n ap), (''bi_filter'', bi_filter n ap),
     (''bi_dynamic_wind'', bi_dynamic_wind ap), (''bi_call_cc'', bi_call_cc ap),
     (''bi_call_with_values'', bi_call_with_values ap), (''bi_force'', bi_force ap),
     (''bi_make_parameter'', bi_make_parameter ap), (''bi_raise'', bi_raise A ap),
     (''bi_raise_continuable'', bi_raise_continuable A ap),
     (''bi_with_exception_handler'', bi_with_exception_handler ap)]"

definition port_builtin :: "arith \<Rightarrow> bytes \<Rightarrow> (val list \<Rightarrow> val M) option" where
  "port_builtin A = map_of
    [(''bi_display'', bi_display A), (''bi_write'', bi_write A), (''bi_write_shared'', bi_write_shared A),
     (''bi_read'', bi_read A), (''bi_newline'', bi_newline), (''bi_write_string'', bi_write_string),
     (''bi_write_char'', bi_write_char), (''bi_write_u8'', bi_write_u8),
     (''bi_open_output_string'', bi_open_output_string), (''bi_open_input_string'', bi_open_input_string),
     (''bi_open_input_bytevector'', bi_open_input_bytevector),
     (''bi_open_output_bytevector'', bi_open_output_bytevector), (''bi_get_output_string'', bi_get_output_string),
     (''bi_get_output_bytevector'', bi_get_output_bytevector), (''bi_port_p'', bi_port_p),
     (''bi_input_port_p'', bi_input_port_p), (''bi_output_port_p'', bi_output_port_p),
     (''bi_binary_port_p'', bi_binary_port_p), (''bi_textual_port_p'', bi_textual_port_p),
     (''bi_input_port_open_p'', bi_input_port_open_p), (''bi_output_port_open_p'', bi_output_port_open_p),
     (''bi_eof_object'', bi_eof_object), (''bi_eof_object_p'', bi_eof_object_p),
     (''bi_close_port'', bi_close_port), (''bi_flush_output_port'', bi_flush_output_port),
     (''bi_read_char'', bi_read_char), (''bi_peek_char'', bi_peek_char), (''bi_char_ready_p'', bi_char_ready_p),
     (''bi_read_u8'', bi_read_u8), (''bi_peek_u8'', bi_peek_u8), (''bi_read_line'', bi_read_line),
     (''bi_read_string'', bi_read_string), (''bi_read_bytevector'', bi_read_bytevector),
     (''bi_read_bytevector_bang'', bi_read_bytevector_bang), (''bi_write_bytevector'', bi_write_bytevector)]"

definition port_calling_builtin :: "(val \<Rightarrow> val list \<Rightarrow> val M) \<Rightarrow> bytes \<Rightarrow> (val list \<Rightarrow> val M) option" where
  "port_calling_builtin ap = map_of [(''bi_call_with_port'', bi_call_with_port ap)]"

text \<open>The families of library builtins, without and with calls back into the VM.\<close>

definition library_builtin :: "arith \<Rightarrow> host \<Rightarrow> bytes \<Rightarrow> (val list \<Rightarrow> val M) option" where
  "library_builtin A H f = first_some
     [radix_builtin f, treelist_builtin f, hash_builtin A H f, bigdecimal_builtin A f, port_builtin A f, csv_builtin A f,
      json_builtin A f, number_builtin A f, string_builtin A f, vector_builtin f, string_library_builtin A f,
      actor_builtin (host_os H) A f]"

definition library_calling_builtin :: "arith \<Rightarrow> host \<Rightarrow> (val \<Rightarrow> val list \<Rightarrow> val M) \<Rightarrow> bytes \<Rightarrow> (val list \<Rightarrow> val M) option" where
  "library_calling_builtin A H ap f = first_some
     [treelist_calling_builtin A ap f, hash_calling_builtin A H ap f, port_calling_builtin ap f, string_calling_builtin ap f,
      vector_calling_builtin ap f]"

definition creme_builtins :: "arith \<Rightarrow> host \<Rightarrow> builtins" where
  "creme_builtins A H n ap f args =
     (case first_some (map (map_option (\<lambda>m. m args))
         [pure_builtin A f, calling_builtin A n ap f, library_builtin A H f, library_calling_builtin A H ap f]) of
        Some m \<Rightarrow> m | None \<Rightarrow> stuckM)"

lemma creme_builtins_fused:
  "creme_builtins A H n ap ''bi_plus'' = bi_plus A" "creme_builtins A H n ap ''bi_minus'' = bi_minus A"
  "creme_builtins A H n ap ''bi_star'' = bi_star A" "creme_builtins A H n ap ''bi_cons'' = bi_cons"
  "creme_builtins A H n ap ''bi_car'' = bi_car" "creme_builtins A H n ap ''bi_cdr'' = bi_cdr"
  "creme_builtins A H n ap ''bi_modulo'' = bi_modulo A"
  by (simp_all add: fun_eq_iff creme_builtins_def pure_builtin_def)

end
