(* ===== verification/Unwind_Props.thy ===== *)
theory Unwind_Props
  imports Call_Props Builtin_Table
begin

text \<open>
  Parameters, unwind actions, guards and escapes.  An action is \<open>plain\<close> when it runs no Scheme code: the
  restoration of a \<open>parameterize\<close> or of the exception handlers.  Draining plain actions is the pure
  function \<open>undo_all\<close>; a guard that catches a condition, and a continuation that is invoked, drain down to
  their marks and restore the frame they were made in.
\<close>

subsection \<open>\<open>parameterize\<close>\<close>

definition put_parameter :: "nat \<Rightarrow> val \<Rightarrow> vm \<Rightarrow> vm" where
  "put_parameter p v s = s\<lparr>h_parameters := (h_parameters s)[p := (h_parameters s ! p)\<lparr>pm_value := v\<rparr>]\<rparr>"

lemma set_parameter_run: "p < length (h_parameters s) \<Longrightarrow> set_parameter p v s = Done () (put_parameter p v s)"
  by (simp add: set_parameter_def put_parameter_def bindM_def)

lemma put_parameter_simps [simp]:
  "length (h_parameters (put_parameter p v s)) = length (h_parameters s)"
  "p < length (h_parameters s) \<Longrightarrow> pm_value (h_parameters (put_parameter p v s) ! p) = v"
  "p \<noteq> q \<Longrightarrow> h_parameters (put_parameter p v s) ! q = h_parameters s ! q"
  "p < length (h_parameters s) \<Longrightarrow> put_parameter p v (put_parameter p w s) = put_parameter p v s"
  "p < length (h_parameters s) \<Longrightarrow> put_parameter p (pm_value (h_parameters s ! p)) s = s"
  "(put_parameter p v s)\<lparr>vm_n_unwind := k\<rparr> = put_parameter p v (s\<lparr>vm_n_unwind := k\<rparr>)"
  by (simp_all add: put_parameter_def)

lemma put_parameter_commute: "p \<noteq> q \<Longrightarrow> put_parameter p v (put_parameter q w s) = put_parameter q w (put_parameter p v s)"
  by (simp add: put_parameter_def list_update_swap)

definition saved_values :: "vm \<Rightarrow> (nat \<times> val) list \<Rightarrow> (nat \<times> val) list" where
  "saved_values s ps = map (\<lambda>(p, v). (p, pm_value (h_parameters s ! p))) ps"

fun put_all :: "(nat \<times> val) list \<Rightarrow> vm \<Rightarrow> vm" where
  "put_all [] s = s"
| "put_all ((p, v) # ps) s = put_all ps (put_parameter p v s)"

lemma saved_values_other [simp]: "p \<notin> fst ` set ps \<Longrightarrow> saved_values (put_parameter p v s) ps = saved_values s ps"
proof -
  assume "p \<notin> fst ` set ps"
  then have "\<And>q w. (q, w) \<in> set ps \<Longrightarrow> p \<noteq> q" by force
  then show ?thesis by (auto simp: saved_values_def)
qed

lemma put_all_length [simp]: "length (h_parameters (put_all ps s)) = length (h_parameters s)"
  by (induction ps s rule: put_all.induct) simp_all

lemma put_all_other: "q \<notin> fst ` set ps \<Longrightarrow> h_parameters (put_all ps s) ! q = h_parameters s ! q"
  by (induction ps s rule: put_all.induct) auto

lemma put_all_value:
  "distinct (map fst ps) \<Longrightarrow> (p, v) \<in> set ps \<Longrightarrow> p < length (h_parameters s) \<Longrightarrow>
     pm_value (h_parameters (put_all ps s) ! p) = v"
  by (induction ps s rule: put_all.induct) (auto simp: put_all_other)

lemma put_all_commute: "p \<notin> fst ` set ps \<Longrightarrow> put_all ps (put_parameter p v s) = put_parameter p v (put_all ps s)"
proof (induction ps s rule: put_all.induct)
  case (2 q w ps s)
  then show ?case using put_parameter_commute [of q p w v s] by auto
qed simp

lemma forM_put_all:
  "fst ` set ps \<subseteq> {..<length (h_parameters s)} \<Longrightarrow>
     forM ps (\<lambda>(p, v). set_parameter p v) s = Done () (put_all ps s)"
  by (induction ps s rule: put_all.induct) (simp_all add: set_parameter_run bindM_def)

lemma swap_parameters_run:
  "distinct (map fst ps) \<Longrightarrow> fst ` set ps \<subseteq> {..<length (h_parameters s)} \<Longrightarrow>
     swap_parameters ps s = Done (saved_values s ps) (put_all ps s)"
proof (induction ps s rule: put_all.induct)
  case (2 p v ps s)
  have "saved_values (put_parameter p v s) ps = saved_values s ps"
    using 2(2) by simp
  with 2 show ?case by (simp add: set_parameter_run bindM_def) (simp add: saved_values_def)
qed (simp add: saved_values_def)

lemma put_all_saved:
  "distinct (map fst ps) \<Longrightarrow> fst ` set ps \<subseteq> {..<length (h_parameters s)} \<Longrightarrow>
     put_all (saved_values s ps) (put_all ps s) = s"
proof (induction ps s rule: put_all.induct)
  case (2 p v ps s)
  have same: "saved_values (put_parameter p v s) ps = saved_values s ps"
    using 2(2) by simp
  have notin: "p \<notin> fst ` set ps" "p \<notin> fst ` set (saved_values s ps)"
    using 2(2) by (force simp: saved_values_def)+
  let ?old = "pm_value (h_parameters s ! p)"
  have "put_all (saved_values s ((p, v) # ps)) (put_all ((p, v) # ps) s) =
      put_all (saved_values s ps) (put_parameter p ?old (put_all ps (put_parameter p v s)))"
    by (simp add: saved_values_def)
  also have "\<dots> = put_parameter p ?old (put_all (saved_values (put_parameter p v s) ps) (put_all ps (put_parameter p v s)))"
    using put_all_commute [OF notin(2)] same by simp
  also have "\<dots> = put_parameter p ?old (put_parameter p v s)" using 2 by simp
  also have "\<dots> = s" using 2(3) by simp
  finally show ?case .
qed (simp add: saved_values_def)

subsection \<open>Plain actions\<close>

fun plain :: "vm \<Rightarrow> unwind_action \<Rightarrow> bool" where
  "plain s (UnwindParams ps) = (fst ` set ps \<subseteq> {..<length (h_parameters s)})"
| "plain s (UnwindDynamicWind v) = False"
| "plain s (UnwindExcHandler m) = True"

fun undo :: "unwind_action \<Rightarrow> vm \<Rightarrow> vm" where
  "undo (UnwindParams ps) s = put_all ps s"
| "undo (UnwindDynamicWind v) s = s"
| "undo (UnwindExcHandler m) s = s\<lparr>vm_n_exc_handlers := m\<rparr>"

text \<open>Undoing the actions at \<open>i - 1\<close>, \dots, \<open>mark\<close> of the unwind stack, in that order.\<close>

primrec undo_all :: "nat \<Rightarrow> nat \<Rightarrow> vm \<Rightarrow> vm" where
  "undo_all 0 mark s = s"
| "undo_all (Suc i) mark s = (if mark < Suc i then undo_all i mark (undo (vm_unwind_stack s i) s) else s)"

text \<open>What undoing leaves alone.\<close>

lemma put_parameter_frame [simp]:
  "vm_unwind_stack (put_parameter p v s) = vm_unwind_stack s"
  "vm_handlers (put_parameter p v s) = vm_handlers s"
  "vm_depth (put_parameter p v s) = vm_depth s"
  "vm_frames (put_parameter p v s) = vm_frames s"
  "vm_stack (put_parameter p v s) = vm_stack s"
  "h_conts (put_parameter p v s) = h_conts s"
  "vm_n_handlers (put_parameter p v s) = vm_n_handlers s"
  "vm_frames_cap (put_parameter p v s) = vm_frames_cap s"
  "vm_stack_cap (put_parameter p v s) = vm_stack_cap s"
  "vm_pending_condition (put_parameter p v s) = vm_pending_condition s"
  "vm_pending_handler_idx (put_parameter p v s) = vm_pending_handler_idx s"
  "vm_n_unwind (put_parameter p v s) = vm_n_unwind s"
  "h_upvalues (put_parameter p v s) = h_upvalues s"
  "h_chunks (put_parameter p v s) = h_chunks s"
  "vm_next_act (put_parameter p v s) = vm_next_act s"
  "h_records (put_parameter p v s) = h_records s"
  "vm_condition_type (put_parameter p v s) = vm_condition_type s"
  by (simp_all add: put_parameter_def)

lemma put_all_frame [simp]:
  "vm_unwind_stack (put_all ps s) = vm_unwind_stack s"
  "vm_handlers (put_all ps s) = vm_handlers s"
  "vm_depth (put_all ps s) = vm_depth s"
  "vm_frames (put_all ps s) = vm_frames s"
  "vm_stack (put_all ps s) = vm_stack s"
  "h_conts (put_all ps s) = h_conts s"
  "vm_n_handlers (put_all ps s) = vm_n_handlers s"
  "vm_frames_cap (put_all ps s) = vm_frames_cap s"
  "vm_stack_cap (put_all ps s) = vm_stack_cap s"
  "vm_pending_condition (put_all ps s) = vm_pending_condition s"
  "vm_pending_handler_idx (put_all ps s) = vm_pending_handler_idx s"
  "vm_n_unwind (put_all ps s) = vm_n_unwind s"
  "h_upvalues (put_all ps s) = h_upvalues s"
  "h_chunks (put_all ps s) = h_chunks s"
  "vm_next_act (put_all ps s) = vm_next_act s"
  "h_records (put_all ps s) = h_records s"
  "vm_condition_type (put_all ps s) = vm_condition_type s"
  by (induction ps s rule: put_all.induct; simp)+

lemma undo_frame [simp]:
  "vm_unwind_stack (undo act s) = vm_unwind_stack s"
  "vm_handlers (undo act s) = vm_handlers s"
  "vm_depth (undo act s) = vm_depth s"
  "vm_frames (undo act s) = vm_frames s"
  "vm_stack (undo act s) = vm_stack s"
  "h_conts (undo act s) = h_conts s"
  "vm_n_handlers (undo act s) = vm_n_handlers s"
  "vm_frames_cap (undo act s) = vm_frames_cap s"
  "vm_stack_cap (undo act s) = vm_stack_cap s"
  "vm_pending_condition (undo act s) = vm_pending_condition s"
  "vm_pending_handler_idx (undo act s) = vm_pending_handler_idx s"
  "vm_n_unwind (undo act s) = vm_n_unwind s"
  "h_upvalues (undo act s) = h_upvalues s"
  "h_chunks (undo act s) = h_chunks s"
  "vm_next_act (undo act s) = vm_next_act s"
  "h_records (undo act s) = h_records s"
  "vm_condition_type (undo act s) = vm_condition_type s"
  "length (h_parameters (undo act s)) = length (h_parameters s)"
  by (cases act; simp)+

lemma undo_all_frame [simp]:
  "vm_unwind_stack (undo_all i mark s) = vm_unwind_stack s"
  "vm_handlers (undo_all i mark s) = vm_handlers s"
  "vm_depth (undo_all i mark s) = vm_depth s"
  "vm_frames (undo_all i mark s) = vm_frames s"
  "vm_stack (undo_all i mark s) = vm_stack s"
  "h_conts (undo_all i mark s) = h_conts s"
  "vm_n_handlers (undo_all i mark s) = vm_n_handlers s"
  "vm_frames_cap (undo_all i mark s) = vm_frames_cap s"
  "vm_stack_cap (undo_all i mark s) = vm_stack_cap s"
  "vm_pending_condition (undo_all i mark s) = vm_pending_condition s"
  "vm_pending_handler_idx (undo_all i mark s) = vm_pending_handler_idx s"
  "vm_n_unwind (undo_all i mark s) = vm_n_unwind s"
  "h_upvalues (undo_all i mark s) = h_upvalues s"
  "h_chunks (undo_all i mark s) = h_chunks s"
  "vm_next_act (undo_all i mark s) = vm_next_act s"
  "h_records (undo_all i mark s) = h_records s"
  "vm_condition_type (undo_all i mark s) = vm_condition_type s"
  by (induction i arbitrary: s; simp)+

lemma run_plain: "plain s act \<Longrightarrow> run_unwind_action ap act s = Done () (undo act s)"
  by (cases act) (simp_all add: run_unwind_action_def forM_put_all)

text \<open>Actions commute with the count of the actions.\<close>

lemma put_all_count: "put_all ps (s\<lparr>vm_n_unwind := k\<rparr>) = (put_all ps s)\<lparr>vm_n_unwind := k\<rparr>"
  by (induction ps s rule: put_all.induct) simp_all

lemma undo_count: "undo act (s\<lparr>vm_n_unwind := k\<rparr>) = (undo act s)\<lparr>vm_n_unwind := k\<rparr>"
  by (cases act) (simp_all add: put_all_count)

lemma undo_all_count: "undo_all i mark (s\<lparr>vm_n_unwind := k\<rparr>) = (undo_all i mark s)\<lparr>vm_n_unwind := k\<rparr>"
  by (induction i arbitrary: s) (simp_all add: undo_count)

definition plain_above :: "vm \<Rightarrow> nat \<Rightarrow> bool" where
  "plain_above s mark \<longleftrightarrow> (\<forall>i. mark \<le> i \<longrightarrow> i < vm_n_unwind s \<longrightarrow> plain s (vm_unwind_stack s i))"

lemma plain_cong: "length (h_parameters s') = length (h_parameters s) \<Longrightarrow> plain s' act = plain s act"
  by (cases act) simp_all

text \<open>One turn of the drain loops.\<close>

lemma drain_turn:
  assumes "plain_above s mark" "mark < vm_n_unwind s"
  defines "i \<equiv> vm_n_unwind s - 1"
  defines "s' \<equiv> (undo (vm_unwind_stack s i) s)\<lparr>vm_n_unwind := i\<rparr>"
  shows "bindM pop_unwind (\<lambda>act. bindM (run_unwind_action ap act) (\<lambda>_. m)) s = m s'"
    and "plain_above s' mark" and "vm_n_unwind s' = i"
proof -
  let ?act = "vm_unwind_stack s i"
  have act: "plain (s\<lparr>vm_n_unwind := i\<rparr>) ?act"
    using assms(1,2) plain_cong [of "s\<lparr>vm_n_unwind := i\<rparr>" s ?act] by (simp add: plain_above_def i_def)
  show "bindM pop_unwind (\<lambda>act. bindM (run_unwind_action ap act) (\<lambda>_. m)) s = m s'"
    using assms(2) run_plain [OF act, of ap] by (simp add: pop_unwind_def bindM_def i_def s'_def undo_count)
  have stack: "vm_unwind_stack s' = vm_unwind_stack s" by (simp add: s'_def)
  have same: "plain s' = plain s"
    by (rule ext) (rule plain_cong, simp add: s'_def)
  show "plain_above s' mark"
    using assms(1) unfolding plain_above_def stack same by (simp add: s'_def i_def)
  show "vm_n_unwind s' = i" by (simp add: s'_def)
qed

text \<open>The state after a drain: the actions undone, the count at the mark.\<close>

definition drained :: "nat \<Rightarrow> vm \<Rightarrow> vm" where
  "drained mark s = (undo_all (vm_n_unwind s) mark s)\<lparr>vm_n_unwind := min mark (vm_n_unwind s)\<rparr>"

lemma drained_turn:
  assumes "mark < vm_n_unwind s"
  shows "drained mark ((undo (vm_unwind_stack s (vm_n_unwind s - 1)) s)\<lparr>vm_n_unwind := vm_n_unwind s - 1\<rparr>) = drained mark s"
proof -
  obtain i where i: "vm_n_unwind s = Suc i" using assms by (cases "vm_n_unwind s") auto
  with assms show ?thesis
    by (simp add: drained_def undo_all_count min_def)
qed

lemma drain_unwind_run:
  "plain_above s mark \<Longrightarrow> vm_n_unwind s \<le> mark + n \<Longrightarrow> drain_unwind n ap mark s = Done () (drained mark s)"
proof (induction n arbitrary: s)
  case 0
  then show ?case by (cases "vm_n_unwind s") (auto simp: drained_def min_def)
next
  case (Suc n)
  show ?case
  proof (cases "mark < vm_n_unwind s")
    case True
    note turn = drain_turn(2-) [OF Suc.prems(1) True] and run = drain_turn(1) [OF Suc.prems(1) True, of ap "drain_unwind n ap mark"]
    from True Suc.IH [OF turn(1)] Suc.prems(2) run turn(2) drained_turn [OF True] show ?thesis by simp
  next
    case False
    then show ?thesis by (cases "vm_n_unwind s") (auto simp: drained_def min_def)
  qed
qed

subsection \<open>Closing frames\<close>

text \<open>The open upvalues of the frames from \<open>d\<close> up are allocated, and point below the top of the registers.\<close>

definition opened_ok :: "nat \<Rightarrow> vm \<Rightarrow> bool" where
  "opened_ok d s \<longleftrightarrow> upvalues_ok s \<and>
     (\<forall>i. d \<le> i \<longrightarrow> i < vm_depth s \<longrightarrow> set (fr_opened (vm_frames s i)) \<subseteq> {..<length (h_upvalues s)})"

text \<open>\<open>s'\<close> is \<open>s\<close> with the upvalues of the frames from \<open>d\<close> up closed over the values they had.\<close>

definition closed_from :: "nat \<Rightarrow> vm \<Rightarrow> vm \<Rightarrow> bool" where
  "closed_from d s s' \<longleftrightarrow> (\<exists>us fs. s' = s\<lparr>h_upvalues := us, vm_frames := fs\<rparr> \<and> upvalues_ok s' \<and>
     (\<forall>q. uv_val s' q = uv_val s q) \<and>
     (\<forall>i p. d \<le> i \<longrightarrow> i < vm_depth s \<longrightarrow> p \<in> set (fr_opened (vm_frames s i)) \<longrightarrow> uv_slot (us ! p) = None) \<and>
     (\<forall>i. fs i = (if d \<le> i \<and> i < vm_depth s then (vm_frames s i)\<lparr>fr_opened := []\<rparr> else vm_frames s i)))"

lemma uv_val_frames [simp]: "uv_val (s\<lparr>vm_frames := fs\<rparr>) q = uv_val s q"
    "uv_val (s\<lparr>h_upvalues := us, vm_frames := fs\<rparr>) q = uv_val (s\<lparr>h_upvalues := us\<rparr>) q"
    "uv_val (s\<lparr>vm_frames := fs, h_upvalues := us\<rparr>) q = uv_val (s\<lparr>h_upvalues := us\<rparr>) q"
  by (simp_all add: uv_val_def split: option.split)

lemma close_upvalues_form:
  assumes "upvalues_ok s" "set (fr_opened (vm_frames s i)) \<subseteq> {..<length (h_upvalues s)}"
  shows "\<exists>us. close_upvalues i s =
      Done () (s\<lparr>h_upvalues := us, vm_frames := (vm_frames s)(i := (vm_frames s i)\<lparr>fr_opened := []\<rparr>)\<rparr>) \<and>
    upvalues_ok (s\<lparr>h_upvalues := us\<rparr>) \<and> length us = length (h_upvalues s) \<and>
    (\<forall>q. uv_val (s\<lparr>h_upvalues := us\<rparr>) q = uv_val s q) \<and>
    (\<forall>p. p \<in> set (fr_opened (vm_frames s i)) \<or> uv_slot (h_upvalues s ! p) = None \<longrightarrow> uv_slot (us ! p) = None)"
proof -
  obtain us where us: "forM (fr_opened (vm_frames s i)) upvalue_close s = Done () (s\<lparr>h_upvalues := us\<rparr>)"
    "length us = length (h_upvalues s)" "upvalues_ok (s\<lparr>h_upvalues := us\<rparr>)"
    "\<forall>q. us ! q = (if q \<in> set (fr_opened (vm_frames s i)) then closed_uv s q else h_upvalues s ! q)"
    using close_all_run [OF assms] by blast
  have "uv_val (s\<lparr>h_upvalues := us\<rparr>) q = uv_val s q" for q
    using us(4) by (auto simp: uv_val_def closed_uv_def split: option.split)
  moreover have "uv_slot (us ! p) = None"
    if "p \<in> set (fr_opened (vm_frames s i)) \<or> uv_slot (h_upvalues s ! p) = None" for p
    using us(4) that by (auto simp: closed_uv_def)
  ultimately show ?thesis using us(1-3)
    by (intro exI [of _ us]) (simp add: close_upvalues_def bindM_def upd_frame_def)
qed

lemma forM_close_frames:
  assumes "upvalues_ok s" "\<forall>i\<in>set is. set (fr_opened (vm_frames s i)) \<subseteq> {..<length (h_upvalues s)}"
  shows "\<exists>us fs. forM is close_upvalues s = Done () (s\<lparr>h_upvalues := us, vm_frames := fs\<rparr>) \<and>
    upvalues_ok (s\<lparr>h_upvalues := us\<rparr>) \<and> (\<forall>q. uv_val (s\<lparr>h_upvalues := us\<rparr>) q = uv_val s q) \<and>
    (\<forall>i\<in>set is. \<forall>p\<in>set (fr_opened (vm_frames s i)). uv_slot (us ! p) = None) \<and>
    (\<forall>p. uv_slot (h_upvalues s ! p) = None \<longrightarrow> uv_slot (us ! p) = None) \<and>
    (\<forall>i. fs i = (if i \<in> set is then (vm_frames s i)\<lparr>fr_opened := []\<rparr> else vm_frames s i))"
  using assms
proof (induction "is" arbitrary: s)
  case Nil
  then show ?case by (intro exI [of _ "h_upvalues s"] exI [of _ "vm_frames s"]) simp
next
  case (Cons i "is")
  obtain us where us: "close_upvalues i s =
      Done () (s\<lparr>h_upvalues := us, vm_frames := (vm_frames s)(i := (vm_frames s i)\<lparr>fr_opened := []\<rparr>)\<rparr>)"
    "upvalues_ok (s\<lparr>h_upvalues := us\<rparr>)" "length us = length (h_upvalues s)"
    "\<forall>q. uv_val (s\<lparr>h_upvalues := us\<rparr>) q = uv_val s q"
    "\<forall>p. p \<in> set (fr_opened (vm_frames s i)) \<or> uv_slot (h_upvalues s ! p) = None \<longrightarrow> uv_slot (us ! p) = None"
    using close_upvalues_form [of s i] Cons.prems by auto
  let ?s = "s\<lparr>h_upvalues := us, vm_frames := (vm_frames s)(i := (vm_frames s i)\<lparr>fr_opened := []\<rparr>)\<rparr>"
  have "upvalues_ok ?s" using us(2) by (simp add: upvalues_ok_def)
  moreover have "\<forall>j\<in>set is. set (fr_opened (vm_frames ?s j)) \<subseteq> {..<length (h_upvalues ?s)}"
    using Cons.prems us(3) by auto
  ultimately obtain us' fs where IH: "forM is close_upvalues ?s = Done () (?s\<lparr>h_upvalues := us', vm_frames := fs\<rparr>)"
    "upvalues_ok (?s\<lparr>h_upvalues := us'\<rparr>)" "\<forall>q. uv_val (?s\<lparr>h_upvalues := us'\<rparr>) q = uv_val ?s q"
    "\<forall>j\<in>set is. \<forall>p\<in>set (fr_opened (vm_frames ?s j)). uv_slot (us' ! p) = None"
    "\<forall>p. uv_slot (h_upvalues ?s ! p) = None \<longrightarrow> uv_slot (us' ! p) = None"
    "\<forall>j. fs j = (if j \<in> set is then (vm_frames ?s j)\<lparr>fr_opened := []\<rparr> else vm_frames ?s j)"
    using Cons.IH by blast
  have none: "uv_slot (us' ! p) = None" if "uv_slot (h_upvalues s ! p) = None" for p
    using IH(5) us(5) that by simp
  have opened: "uv_slot (us' ! p) = None" if j: "j \<in> set (i # is)" "p \<in> set (fr_opened (vm_frames s j))" for j p
  proof (cases "j = i")
    case True
    with us(5) IH(5) j show ?thesis by simp
  next
    case False
    then have "p \<in> set (fr_opened (vm_frames ?s j))" "j \<in> set is" using j by simp_all
    with IH(4) show ?thesis by blast
  qed
  have "uv_val (s\<lparr>h_upvalues := us'\<rparr>) q = uv_val s q" for q
    using IH(3) us(4) by simp
  moreover have "upvalues_ok (s\<lparr>h_upvalues := us'\<rparr>)" using IH(2) by (simp add: upvalues_ok_def)
  moreover have "forM (i # is) close_upvalues s = Done () (s\<lparr>h_upvalues := us', vm_frames := fs\<rparr>)"
    using us(1) IH(1) by (simp add: bindM_def)
  moreover have "\<forall>j. fs j = (if j \<in> set (i # is) then (vm_frames s j)\<lparr>fr_opened := []\<rparr> else vm_frames s j)"
    using IH(6) by simp
  ultimately show ?case using none opened by blast
qed

lemma close_frames_run:
  assumes "opened_ok d s"
  shows "\<exists>s'. close_frames d s = Done () s' \<and> closed_from d s s'"
proof -
  have ok: "upvalues_ok s" "\<forall>i\<in>set [d..<vm_depth s]. set (fr_opened (vm_frames s i)) \<subseteq> {..<length (h_upvalues s)}"
    using assms by (simp_all add: opened_ok_def)
  obtain us fs where run: "forM [d..<vm_depth s] close_upvalues s = Done () (s\<lparr>h_upvalues := us, vm_frames := fs\<rparr>)"
    "upvalues_ok (s\<lparr>h_upvalues := us\<rparr>)" "\<forall>q. uv_val (s\<lparr>h_upvalues := us\<rparr>) q = uv_val s q"
    "\<forall>i\<in>set [d..<vm_depth s]. \<forall>p\<in>set (fr_opened (vm_frames s i)). uv_slot (us ! p) = None"
    "\<forall>i. fs i = (if i \<in> set [d..<vm_depth s] then (vm_frames s i)\<lparr>fr_opened := []\<rparr> else vm_frames s i)"
    using forM_close_frames [OF ok] by blast
  let ?s = "s\<lparr>h_upvalues := us, vm_frames := fs\<rparr>"
  have none: "uv_slot (us ! p) = None"
    if "d \<le> i" "i < vm_depth s" "p \<in> set (fr_opened (vm_frames s i))" for i p
    using run(4) that by simp
  have "closed_from d s ?s"
    unfolding closed_from_def using run(2,3,5) none
    by (intro exI [of _ us] exI [of _ fs]) (simp add: upvalues_ok_def)
  with run(1) show ?thesis by (auto simp: close_frames_def)
qed

lemma closed_fromD:
  assumes "closed_from d s s'"
  shows "vm_depth s' = vm_depth s" "vm_n_unwind s' = vm_n_unwind s" "vm_unwind_stack s' = vm_unwind_stack s"
    "vm_handlers s' = vm_handlers s" "vm_n_handlers s' = vm_n_handlers s" "h_parameters s' = h_parameters s"
    "vm_stack s' = vm_stack s" "vm_stack_cap s' = vm_stack_cap s" "vm_frames_cap s' = vm_frames_cap s"
    "h_conts s' = h_conts s" "vm_pending_condition s' = vm_pending_condition s" "vm_next_act s' = vm_next_act s"
    "vm_n_exc_handlers s' = vm_n_exc_handlers s" "h_records s' = h_records s"
    "vm_pending_handler_idx s' = vm_pending_handler_idx s"
    "i < d \<Longrightarrow> vm_frames s' i = vm_frames s i"
    "d \<le> i \<Longrightarrow> i < vm_depth s \<Longrightarrow> p \<in> set (fr_opened (vm_frames s i)) \<Longrightarrow> uv_slot (h_upvalues s' ! p) = None"
    "uv_val s' q = uv_val s q"
proof -
  obtain us fs where s': "s' = s\<lparr>h_upvalues := us, vm_frames := fs\<rparr>" "\<forall>q. uv_val s' q = uv_val s q"
    "\<forall>i p. d \<le> i \<longrightarrow> i < vm_depth s \<longrightarrow> p \<in> set (fr_opened (vm_frames s i)) \<longrightarrow> uv_slot (us ! p) = None"
    "\<forall>i. fs i = (if d \<le> i \<and> i < vm_depth s then (vm_frames s i)\<lparr>fr_opened := []\<rparr> else vm_frames s i)"
    using assms unfolding closed_from_def by blast
  show "vm_depth s' = vm_depth s" "vm_n_unwind s' = vm_n_unwind s" "vm_unwind_stack s' = vm_unwind_stack s"
    "vm_handlers s' = vm_handlers s" "vm_n_handlers s' = vm_n_handlers s" "h_parameters s' = h_parameters s"
    "vm_stack s' = vm_stack s" "vm_stack_cap s' = vm_stack_cap s" "vm_frames_cap s' = vm_frames_cap s"
    "h_conts s' = h_conts s" "vm_pending_condition s' = vm_pending_condition s" "vm_next_act s' = vm_next_act s"
    "vm_n_exc_handlers s' = vm_n_exc_handlers s" "h_records s' = h_records s"
    "vm_pending_handler_idx s' = vm_pending_handler_idx s"
    by (simp_all add: s'(1))
  show "i < d \<Longrightarrow> vm_frames s' i = vm_frames s i" using s'(4) by (simp add: s'(1))
  show "d \<le> i \<Longrightarrow> i < vm_depth s \<Longrightarrow> p \<in> set (fr_opened (vm_frames s i)) \<Longrightarrow> uv_slot (h_upvalues s' ! p) = None"
    using s'(3) by (simp add: s'(1))
  show "uv_val s' q = uv_val s q" using s'(2) by blast
qed

lemma plain_above_closed: "closed_from d s s' \<Longrightarrow> plain_above s' m = plain_above s m"
proof -
  assume c: "closed_from d s s'"
  have "plain s' = plain s"
    by (rule ext) (rule plain_cong, simp add: closed_fromD(6) [OF c])
  then show ?thesis by (simp add: plain_above_def closed_fromD(2,3) [OF c])
qed

text \<open>Undoing depends on the parameters and the actions alone.\<close>

lemma put_all_cong:
  "h_parameters s' = h_parameters s \<Longrightarrow> h_parameters (put_all ps s') = h_parameters (put_all ps s)"
proof (induction ps s arbitrary: s' rule: put_all.induct)
  case (2 p v ps s)
  have "h_parameters (put_parameter p v s') = h_parameters (put_parameter p v s)"
    using 2(2) by (simp add: put_parameter_def)
  from 2(1) [OF this] show ?case by simp
qed simp

lemma undo_cong:
  "h_parameters s' = h_parameters s \<Longrightarrow> h_parameters (undo act s') = h_parameters (undo act s)"
  using put_all_cong [of s' s] by (cases act) simp_all

lemma undo_all_cong:
  "h_parameters s' = h_parameters s \<Longrightarrow> vm_unwind_stack s' = vm_unwind_stack s \<Longrightarrow>
     h_parameters (undo_all i mark s') = h_parameters (undo_all i mark s)"
proof (induction i arbitrary: s s')
  case (Suc i)
  let ?act = "vm_unwind_stack s i"
  have "h_parameters (undo_all i mark (undo ?act s')) = h_parameters (undo_all i mark (undo ?act s))"
    using Suc.IH [OF undo_cong [OF Suc.prems(1)]] Suc.prems(2) by simp
  with Suc.prems show ?case by simp
qed simp

lemma drained_frame [simp]:
  "vm_depth (drained m s) = vm_depth s" "vm_handlers (drained m s) = vm_handlers s"
  "vm_n_handlers (drained m s) = vm_n_handlers s" "vm_stack (drained m s) = vm_stack s"
  "vm_stack_cap (drained m s) = vm_stack_cap s" "vm_frames (drained m s) = vm_frames s"
  "vm_frames_cap (drained m s) = vm_frames_cap s" "h_conts (drained m s) = h_conts s"
  "h_upvalues (drained m s) = h_upvalues s" "vm_pending_condition (drained m s) = vm_pending_condition s"
  "vm_n_unwind (drained m s) = min m (vm_n_unwind s)"
  "h_parameters (drained m s) = h_parameters (undo_all (vm_n_unwind s) m s)"
  by (simp_all add: drained_def)

lemma drain_handler_run:
  "plain_above s (gh_unwind_mark (vm_handlers s idx)) \<Longrightarrow>
   vm_n_unwind s \<le> gh_unwind_mark (vm_handlers s idx) + n \<Longrightarrow>
     drain_handler n ap idx s = Done () (drained (gh_unwind_mark (vm_handlers s idx)) s)"
proof (induction n arbitrary: s)
  case 0
  then show ?case by (cases "vm_n_unwind s") (auto simp: drained_def min_def)
next
  case (Suc n)
  let ?m = "gh_unwind_mark (vm_handlers s idx)"
  show ?case
  proof (cases "?m < vm_n_unwind s")
    case True
    note turn = drain_turn(2-) [OF Suc.prems(1) True]
      and run = drain_turn(1) [OF Suc.prems(1) True, of ap "drain_handler n ap idx"]
    from True Suc.IH turn Suc.prems(2) run drained_turn [OF True] show ?thesis by simp
  next
    case False
    then show ?thesis by (cases "vm_n_unwind s") (auto simp: drained_def min_def)
  qed
qed

subsection \<open>Guards\<close>

lemma resume_handler_run:
  fixes s :: vm
  defines "h \<equiv> vm_handlers s (vm_pending_handler_idx s)"
  assumes depth: "0 < gh_depth h" "gh_depth h \<le> vm_frames_cap s"
    and mark: "gh_unwind_mark h \<le> vm_n_unwind s" "vm_n_unwind s \<le> gh_unwind_mark h + n"
    and ok: "plain_above s (gh_unwind_mark h)" "opened_ok (gh_depth h) s"
  defines "fr \<equiv> vm_frames s (gh_depth h - 1)"
  assumes reg: "0 \<le> fr_base fr + gh_condition_reg h" "fr_base fr + gh_condition_reg h < int (vm_stack_cap s)"
  shows "\<exists>s1 s'. closed_from (gh_depth h) s s1 \<and> resume_handler n ap s = Done None s' \<and>
    s' = upd_frame (gh_depth h - 1) (\<lambda>f. f\<lparr>fr_ip := gh_resume_ip h\<rparr>)
      ((drained (gh_unwind_mark h) s1)\<lparr>vm_depth := gh_depth h,
        vm_stack := (vm_stack s)(nat (fr_base fr + gh_condition_reg h) := vm_pending_condition s)\<rparr>)"
proof -
  obtain s1 where close: "close_frames (gh_depth h) s = Done () s1" and s1: "closed_from (gh_depth h) s s1"
    using close_frames_run [OF ok(2)] by blast
  note same = closed_fromD [OF s1]
  have h1: "vm_handlers s1 (vm_pending_handler_idx s) = h" by (simp add: same h_def)
  have drain: "drain_handler n ap (vm_pending_handler_idx s) s1 = Done () (drained (gh_unwind_mark h) s1)"
    using drain_handler_run [of s1 "vm_pending_handler_idx s" n ap] mark(2) ok(1) plain_above_closed [OF s1]
    unfolding h1 by (simp add: same(2))
  have fr1: "vm_frames s1 (gh_depth h - 1) = fr"
    using same(16) [of "gh_depth h - 1"] depth by (simp add: fr_def)
  have "resume_handler n ap s = Done None (upd_frame (gh_depth h - 1) (\<lambda>f. f\<lparr>fr_ip := gh_resume_ip h\<rparr>)
      ((drained (gh_unwind_mark h) s1)\<lparr>vm_depth := gh_depth h,
        vm_stack := (vm_stack s)(nat (fr_base fr + gh_condition_reg h) := vm_pending_condition s)\<rparr>))"
    using close drain depth reg h1
    by (simp add: resume_handler_def handler_now_def bindM_def h_def [symmetric] top_frame_def mod_top_def
        wr_def set_stack_def fr1 same del: One_nat_def)
  with s1 show ?thesis by blast
qed

end
