(* ===== verification/Unwind_Spec.thy ===== *)
theory Unwind_Spec
  imports Unwind_Props VM_Init
begin

text \<open>
  What \<open>parameterize\<close>, \<open>guard\<close> and \<open>call/cc\<close> promise: the dynamic state they found is there again when
  they are left, normally or by an escape.
\<close>

subsection \<open>\<open>parameterize\<close>\<close>

lemma mapM_pure:
  assumes "\<forall>x\<in>set xs. f x s = Done (g x) s"
  shows "mapM f xs s = Done (map g xs) s"
  using assms by (induction xs) (simp_all add: bindM_def)

definition param_regs :: "vm \<Rightarrow> frame \<Rightarrow> instruction \<Rightarrow> (nat \<times> val) list \<Rightarrow> bool" where
  "param_regs s fr ins ps \<longleftrightarrow>
     ins_c ins = int (length ps) \<and>
     0 \<le> fr_base fr + ins_a ins \<and> fr_base fr + ins_a ins + ins_c ins \<le> int (vm_stack_cap s) \<and>
     0 \<le> fr_base fr + ins_b ins \<and> fr_base fr + ins_b ins + ins_c ins \<le> int (vm_stack_cap s) \<and>
     (\<forall>i<length ps. vm_stack s (nat (fr_base fr + ins_a ins + int i)) = VParameter (fst (ps ! i)) \<and>
        vm_stack s (nat (fr_base fr + ins_b ins + int i)) = snd (ps ! i)) \<and>
     (\<forall>(p, v)\<in>set ps. p < length (h_parameters s) \<and> \<not> pm_has_converter (h_parameters s ! p))"

lemma parampush_run:
  assumes regs: "param_regs s fr ins ps" and dist: "distinct (map fst ps)" and cap: "vm_n_unwind s < CREME_UNWIND_CAP"
  shows "op_parampush ap fr ins s = Done () ((put_all ps s)\<lparr>vm_unwind_stack := (vm_unwind_stack s)
      (vm_n_unwind s := UnwindParams (saved_values s ps)), vm_n_unwind := vm_n_unwind s + 1\<rparr>)"
proof -
  let ?f = "\<lambda>i. bindM (rd fr (ins_a ins + int i)) (\<lambda>pv. bindM (rd fr (ins_b ins + int i)) (\<lambda>nv. converted ap (pv, nv)))"
  have n: "nat (ins_c ins) = length ps" using regs by (simp add: param_regs_def)
  have each: "?f i s = Done (ps ! i) s" if i: "i < length ps" for i
  proof -
    obtain p v where pv: "ps ! i = (p, v)" by fastforce
    then have "(p, v) \<in> set ps" using i nth_mem by force
    with regs i pv show ?thesis
      by (auto simp: param_regs_def rd_def get_stack_def bindM_def converted_def algebra_simps dest!: bspec)
  qed
  have "mapM ?f [0..<nat (ins_c ins)] s = Done (map ((!) ps) [0..<nat (ins_c ins)]) s"
    by (rule mapM_pure) (use each n in auto)
  then have reads: "mapM ?f [0..<nat (ins_c ins)] s = Done ps s" by (simp add: n map_nth)
  have sub: "fst ` set ps \<subseteq> {..<length (h_parameters s)}" using regs by (force simp: param_regs_def)
  have swap: "swap_parameters ps s = Done (saved_values s ps) (put_all ps s)"
    by (rule swap_parameters_run [OF dist sub])
  show ?thesis using reads swap cap by (simp add: op_parampush_def bindM_def push_unwind_def)
qed

text \<open>What may happen between the installation of a guard, a \<open>parameterize\<close> or a continuation, when the unwind stack had
  \<open>m\<close> actions, and its end: other parameters are bound and restored, the exception handlers are saved, new parameters are made,
  and anything else that leaves the parameters and the unwind stack alone.  No \<open>dynamic-wind\<close> is entered.\<close>

inductive param_step :: "nat \<Rightarrow> vm \<Rightarrow> vm \<Rightarrow> bool" for m where
  binds: "param_regs s fr ins ps \<Longrightarrow> distinct (map fst ps) \<Longrightarrow> vm_n_unwind s < CREME_UNWIND_CAP \<Longrightarrow> op_parampush ap fr ins s = Done () s' \<Longrightarrow>
    param_step m s s'"
| unbinds: "m < vm_n_unwind s \<Longrightarrow> bindM pop_unwind (run_unwind_action ap) s = Done () s' \<Longrightarrow> param_step m s s'"
| saves: "h_parameters s' = h_parameters s \<Longrightarrow> vm_n_unwind s' = Suc (vm_n_unwind s) \<Longrightarrow>
    vm_unwind_stack s' = (vm_unwind_stack s)(vm_n_unwind s := UnwindExcHandler k) \<Longrightarrow> param_step m s s'"
| other: "h_parameters s' = h_parameters s @ new \<Longrightarrow> vm_n_unwind s' = vm_n_unwind s \<Longrightarrow>
    (\<And>i. i < vm_n_unwind s \<Longrightarrow> vm_unwind_stack s' i = vm_unwind_stack s i) \<Longrightarrow> param_step m s s'"

lemma put_all_more:
  "h_parameters s' = h_parameters s @ new \<Longrightarrow> fst ` set ps \<subseteq> {..<length (h_parameters s)} \<Longrightarrow>
     h_parameters (put_all ps s') = h_parameters (put_all ps s) @ new"
proof (induction ps s arbitrary: s' rule: put_all.induct)
  case (2 p v ps s)
  have "h_parameters (put_parameter p v s') = h_parameters (put_parameter p v s) @ new"
    using 2(2,3) by (simp add: put_parameter_def list_update_append nth_append)
  from 2(1) [OF this] 2(3) show ?case by simp
qed simp

lemma undo_more:
  "h_parameters s' = h_parameters s @ new \<Longrightarrow> plain s act \<Longrightarrow> h_parameters (undo act s') = h_parameters (undo act s) @ new"
  using put_all_more [of s' s new] by (cases act) simp_all

lemma undo_all_more:
  "h_parameters s' = h_parameters s @ new \<Longrightarrow> (\<And>j. mark \<le> j \<Longrightarrow> j < i \<Longrightarrow> plain s (vm_unwind_stack s j)) \<Longrightarrow>
     (\<And>j. j < i \<Longrightarrow> vm_unwind_stack s' j = vm_unwind_stack s j) \<Longrightarrow>
     h_parameters (undo_all i mark s') = h_parameters (undo_all i mark s) @ new"
proof (induction i arbitrary: s s')
  case (Suc i)
  show ?case
  proof (cases "mark < Suc i")
    case True
    let ?act = "vm_unwind_stack s i"
    have "h_parameters (undo_all i mark (undo ?act s')) = h_parameters (undo_all i mark (undo ?act s)) @ new"
    proof (rule Suc.IH)
      show "h_parameters (undo ?act s') = h_parameters (undo ?act s) @ new"
        using undo_more [OF Suc.prems(1)] Suc.prems(2) [of i] True by simp
      show "plain (undo ?act s) (vm_unwind_stack (undo ?act s) j)" if "mark \<le> j" "j < i" for j
        using Suc.prems(2) [of j] that plain_cong [of "undo ?act s" s] by simp
    qed (use Suc.prems(3) in simp)
    then show ?thesis using True Suc.prems(3) by simp
  qed (use Suc.prems(1) in simp)
qed simp

text \<open>What undoing the actions above \<open>m\<close> gives back.\<close>

definition goes_back :: "nat \<Rightarrow> vm \<Rightarrow> vm \<Rightarrow> bool" where
  "goes_back m s0 s \<longleftrightarrow> m \<le> vm_n_unwind s \<and> plain_above s m \<and> (\<forall>i < m. vm_unwind_stack s i = vm_unwind_stack s0 i) \<and>
     (\<exists>new. h_parameters (undo_all (vm_n_unwind s) m s) = h_parameters s0 @ new)"

lemma goes_back_refl: "goes_back (vm_n_unwind s) s s"
  by (cases "vm_n_unwind s") (simp_all add: goes_back_def plain_above_def)

lemma goes_back_step: "param_step m s s' \<Longrightarrow> goes_back m s0 s \<Longrightarrow> goes_back m s0 s'"
proof (induction rule: param_step.induct)
  case (binds s fr ins ps ap s')
  let ?s1 = "(put_all ps s)\<lparr>vm_unwind_stack := (vm_unwind_stack s)(vm_n_unwind s := UnwindParams (saved_values s ps)),
    vm_n_unwind := vm_n_unwind s + 1\<rparr>"
  have s': "s' = ?s1" using parampush_run [OF binds(1-3), of ap] binds(4) by simp
  have sub: "fst ` set ps \<subseteq> {..<length (h_parameters s)}" using binds(1) by (force simp: param_regs_def)
  let ?act = "UnwindParams (saved_values s ps)"
  have len: "length (h_parameters ?s1) = length (h_parameters s)" by simp
  have undone: "h_parameters (undo ?act ?s1) = h_parameters s"
    using put_all_cong [of ?s1 "put_all ps s"] put_all_saved [OF binds(2) sub] by simp
  have plain: "plain_above s m" using binds(5) by (simp add: goes_back_def)
  have "h_parameters (undo_all (vm_n_unwind s) m (undo ?act ?s1)) = h_parameters (undo_all (vm_n_unwind s) m s) @ []"
    by (rule undo_all_more) (use undone plain in \<open>simp_all add: plain_above_def\<close>)
  moreover have "plain ?s1 ?act" using sub by (force simp: saved_values_def)
  then have "plain_above ?s1 m" using plain plain_cong [OF len] by (auto simp: plain_above_def less_Suc_eq)
  ultimately show ?case using binds(5) unfolding s' goes_back_def by auto
next
  case (unbinds s ap s')
  have plain: "plain_above s m" using unbinds(3) by (simp add: goes_back_def)
  note turn = drain_turn [OF plain unbinds(1)]
  have "bindM pop_unwind (run_unwind_action ap) s = bindM pop_unwind (\<lambda>act. bindM (run_unwind_action ap act) (\<lambda>_. retM ())) s"
    by (simp add: bindM_ret)
  then have s': "s' = (undo (vm_unwind_stack s (vm_n_unwind s - 1)) s)\<lparr>vm_n_unwind := vm_n_unwind s - 1\<rparr>"
    using turn(1) [of ap "retM ()"] unbinds(2) by simp
  obtain i where i: "vm_n_unwind s = Suc i" "m \<le> i" using unbinds(1) by (cases "vm_n_unwind s") auto
  have "undo_all (vm_n_unwind s) m s = undo_all i m (undo (vm_unwind_stack s i) s)" using i by simp
  then show ?case using unbinds(3) turn(2) i unfolding s' goes_back_def by (simp add: undo_all_count)
next
  case (saves s' s k)
  have plain: "plain_above s m" using saves(4) by (simp add: goes_back_def)
  have len: "length (h_parameters s') = length (h_parameters s)" using saves(1) by simp
  have "h_parameters (undo_all (vm_n_unwind s) m (undo (UnwindExcHandler k) s')) = h_parameters (undo_all (vm_n_unwind s) m s) @ []"
    by (rule undo_all_more) (use saves(1,3) plain in \<open>simp_all add: plain_above_def\<close>)
  moreover have "plain_above s' m" using plain plain_cong [OF len] saves(2,3) by (auto simp: plain_above_def less_Suc_eq)
  ultimately show ?case using saves(2-4) unfolding goes_back_def by auto
next
  case (other s' s new)
  have plain: "plain_above s m" using other(4) by (simp add: goes_back_def)
  have "h_parameters (undo_all (vm_n_unwind s) m s') = h_parameters (undo_all (vm_n_unwind s) m s) @ new"
    by (rule undo_all_more [OF other(1)]) (use plain other(3) in \<open>simp_all add: plain_above_def\<close>)
  moreover have "plain s' act" if "plain s act" for act using that other(1) by (cases act) auto
  then have "plain_above s' m" using plain other(2,3) by (auto simp: plain_above_def)
  ultimately show ?case using other(2-4) unfolding goes_back_def by auto
qed

lemma goes_back_steps: "(param_step m)\<^sup>*\<^sup>* s s' \<Longrightarrow> goes_back m s0 s \<Longrightarrow> goes_back m s0 s'"
  by (induction rule: rtranclp_induct) (auto intro: goes_back_step)

text \<open>C9. \<open>ParamPush\<close> on distinct parameters without converters gives every one its new value and touches no other.  The
  \<open>ParamPop\<close> that belongs to it gives every parameter that existed its old value back, whatever ran in between, nested
  \<open>parameterize\<close> forms included, as long as it changed parameters by \<open>ParamPush\<close> and \<open>ParamPop\<close> only and entered no
  \<open>dynamic-wind\<close>.  A parameter that is listed twice is not restored, see below.\<close>

theorem parameterize_restores:
  assumes "param_regs s fr ins ps" "distinct (map fst ps)" "vm_n_unwind s < CREME_UNWIND_CAP"
  shows "\<exists>s1. op_parampush ap fr ins s = Done () s1 \<and>
    (\<forall>(p, v)\<in>set ps. pm_value (h_parameters s1 ! p) = v) \<and>
    (\<forall>q. q \<notin> fst ` set ps \<longrightarrow> h_parameters s1 ! q = h_parameters s ! q) \<and>
    vm_n_unwind s1 = Suc (vm_n_unwind s) \<and>
    (\<forall>s2. (param_step (Suc (vm_n_unwind s)))\<^sup>*\<^sup>* s1 s2 \<longrightarrow> vm_n_unwind s2 = Suc (vm_n_unwind s) \<longrightarrow>
       (\<exists>s3. bindM pop_unwind (run_unwind_action ap') s2 = Done () s3 \<and> vm_n_unwind s3 = vm_n_unwind s \<and>
          (\<forall>p < length (h_parameters s). h_parameters s3 ! p = h_parameters s ! p)))"
proof -
  let ?act = "UnwindParams (saved_values s ps)" and ?n = "vm_n_unwind s"
  let ?s1 = "(put_all ps s)\<lparr>vm_unwind_stack := (vm_unwind_stack s)(?n := ?act), vm_n_unwind := ?n + 1\<rparr>"
  have sub: "fst ` set ps \<subseteq> {..<length (h_parameters s)}" using assms(1) by (force simp: param_regs_def)
  have undone: "h_parameters (undo ?act ?s1) = h_parameters s"
    using put_all_cong [of ?s1 "put_all ps s"] put_all_saved [OF assms(2) sub] by simp
  have pop: "\<exists>s3. bindM pop_unwind (run_unwind_action ap') s2 = Done () s3 \<and> vm_n_unwind s3 = ?n \<and>
      (\<forall>p < length (h_parameters s). h_parameters s3 ! p = h_parameters s ! p)"
    if steps: "(param_step (Suc ?n))\<^sup>*\<^sup>* ?s1 s2" and n: "vm_n_unwind s2 = Suc ?n" for s2
  proof -
    have "goes_back (Suc ?n) ?s1 s2" by (rule goes_back_steps [OF steps]) (use goes_back_refl [of ?s1] in simp)
    then obtain new where new: "h_parameters s2 = h_parameters ?s1 @ new" and top: "vm_unwind_stack s2 ?n = ?act"
      using n by (auto simp: goes_back_def)
    let ?s2 = "s2\<lparr>vm_n_unwind := ?n\<rparr>"
    have plain: "plain ?s1 ?act" using sub by (force simp: saved_values_def)
    then have "plain ?s2 ?act" using new by auto
    from run_plain [OF this, of ap'] have "bindM pop_unwind (run_unwind_action ap') s2 = Done () (undo ?act ?s2)"
      using top n by (simp add: bindM_def pop_unwind_def)
    moreover have "h_parameters (undo ?act ?s2) = h_parameters s @ new"
      using undo_more [of ?s2 ?s1 new ?act] new plain undone by simp
    ultimately show ?thesis by (intro exI [of _ "undo ?act ?s2"]) (simp add: nth_append)
  qed
  have vals: "\<forall>(p, v)\<in>set ps. pm_value (h_parameters ?s1 ! p) = v"
    using put_all_value [OF assms(2)] sub by force
  have "\<forall>q. q \<notin> fst ` set ps \<longrightarrow> h_parameters ?s1 ! q = h_parameters s ! q"
    using put_all_other by simp
  with parampush_run [OF assms] vals pop show ?thesis by (intro exI [of _ ?s1]) auto
qed

text \<open>Registers 0 and 1 hold a parameter of value 1 and its new value 2.\<close>

definition param_state :: vm where
  "param_state = vm0\<lparr>h_parameters := [\<lparr> pm_value = VInt 1, pm_converter = VNil, pm_has_converter = False \<rparr>],
     vm_stack := (\<lambda>_. VNil)(0 := VParameter 0, 1 := VInt 2)\<rparr>"

definition param_push :: instruction where
  "param_push = \<lparr>ins_op = OP_PARAMPUSH, ins_a = 0, ins_b = 1, ins_c = 1, ins_d = 0\<rparr>"

lemma param_state_regs: "param_regs param_state (vm_frames vm0 0) param_push [(0, VInt 2)]"
  by (simp add: param_regs_def param_state_def param_push_def)

lemma param_state_unwind: "vm_n_unwind param_state < CREME_UNWIND_CAP"
  by (simp add: param_state_def CREME_UNWIND_CAP_def)

lemma parameterize_restores_witness:
  "\<exists>s1 s3. op_parampush (\<lambda>_ _. stuckM) (vm_frames vm0 0) param_push param_state = Done () s1 \<and> pm_value (h_parameters s1 ! 0) = VInt 2 \<and>
     bindM pop_unwind (run_unwind_action (\<lambda>_ _. stuckM)) s1 = Done () s3 \<and> pm_value (h_parameters s3 ! 0) = VInt 1"
proof -
  from parameterize_restores [OF param_state_regs _ param_state_unwind, of "\<lambda>_ _. stuckM" "\<lambda>_ _. stuckM"]
  obtain s1 where s1: "op_parampush (\<lambda>_ _. stuckM) (vm_frames vm0 0) param_push param_state = Done () s1"
    "pm_value (h_parameters s1 ! 0) = VInt 2" "vm_n_unwind s1 = Suc (vm_n_unwind param_state)"
    and later: "\<And>s2. (param_step (Suc (vm_n_unwind param_state)))\<^sup>*\<^sup>* s1 s2 \<Longrightarrow> vm_n_unwind s2 = Suc (vm_n_unwind param_state) \<Longrightarrow>
       \<exists>s3. bindM pop_unwind (run_unwind_action (\<lambda>_ _. stuckM)) s2 = Done () s3 \<and> vm_n_unwind s3 = vm_n_unwind param_state \<and>
          (\<forall>p < length (h_parameters param_state). h_parameters s3 ! p = h_parameters param_state ! p)"
    by auto
  from later [OF rtranclp.rtrancl_refl s1(3)] obtain s3 where "bindM pop_unwind (run_unwind_action (\<lambda>_ _. stuckM)) s1 = Done () s3"
    "h_parameters s3 ! 0 = h_parameters param_state ! 0" by (auto simp: param_state_def)
  with s1(1,2) show ?thesis by (simp add: param_state_def)
qed

text \<open>A \<open>parameterize\<close> that lists one parameter twice saves the first new value as the old one of
  the second: what it restores is not what it found.\<close>

theorem parameterize_twice_leaks:
  assumes "p < length (h_parameters s)" "v \<noteq> pm_value (h_parameters s ! p)"
  shows "\<exists>saved s1 s2. swap_parameters [(p, v), (p, w)] s = Done saved s1 \<and>
    run_unwind_action ap (UnwindParams saved) s1 = Done () s2 \<and>
    pm_value (h_parameters s2 ! p) = v \<and> h_parameters s2 \<noteq> h_parameters s"
proof -
  let ?s1 = "put_parameter p w s" and ?old = "pm_value (h_parameters s ! p)"
  have swap: "swap_parameters [(p, v), (p, w)] s = Done [(p, ?old), (p, v)] ?s1"
    using assms(1) by (simp add: bindM_def set_parameter_run)
  have "run_unwind_action ap (UnwindParams [(p, ?old), (p, v)]) ?s1 = Done () (put_parameter p v s)"
    using assms(1) by (simp add: run_unwind_action_def bindM_def set_parameter_run)
  moreover have "h_parameters (put_parameter p v s) \<noteq> h_parameters s"
    using assms put_parameter_simps(2) by metis
  ultimately show ?thesis using swap assms(1) by auto
qed

lemma parameterize_twice_leaks_witness:
  "\<exists>saved s1 s2. swap_parameters [(0, VInt 2), (0, VInt 3)] param_state = Done saved s1 \<and>
    run_unwind_action (\<lambda>_ _. stuckM) (UnwindParams saved) s1 = Done () s2 \<and>
    pm_value (h_parameters s2 ! 0) = VInt 2 \<and> h_parameters s2 \<noteq> h_parameters param_state"
  by (rule parameterize_twice_leaks) (simp_all add: param_state_def)

subsection \<open>\<open>guard\<close>\<close>

text \<open>With plain actions above the guard.\<close>

lemma guard_resumes:
  fixes s s0 :: vm
  assumes push: "op_pushhandler act fr ins s0 = Done () s1"
    and same: "vm_n_handlers s = Suc (vm_n_handlers s0)" "vm_handlers s (vm_n_handlers s0) = vm_handlers s1 (vm_n_handlers s0)"
    and depth: "0 < vm_depth s0" "vm_depth s0 \<le> vm_frames_cap s"
    and frame: "fr_base (vm_frames s (vm_depth s0 - 1)) = fr_base fr"
    and mark: "vm_n_unwind s0 \<le> vm_n_unwind s" "vm_n_unwind s \<le> vm_n_unwind s0 + n"
    and ok: "plain_above s (vm_n_unwind s0)" "opened_ok (vm_depth s0) s"
    and reg: "0 \<le> fr_base fr + ins_a ins" "fr_base fr + ins_a ins < int (vm_stack_cap s)"
  shows "\<exists>s'. run_loop (Suc n) A B act td (creme_raise_condition c s) = run_loop n A B act td (Done None s') \<and>
    vm_depth s' = vm_depth s0 \<and> vm_n_unwind s' = vm_n_unwind s0 \<and> vm_n_handlers s' = vm_n_handlers s0 \<and> vm_unwind_stack s' = vm_unwind_stack s \<and>
    fr_ip (vm_frames s' (vm_depth s0 - 1)) = fr_ip fr + ins_b ins \<and>
    vm_stack s' = (vm_stack s)(nat (fr_base fr + ins_a ins) := c) \<and>
    h_parameters s' = h_parameters (undo_all (vm_n_unwind s) (vm_n_unwind s0) s) \<and>
    (\<forall>i < vm_depth s0 - 1. vm_frames s' i = vm_frames s i) \<and>
    (\<forall>i p. vm_depth s0 \<le> i \<longrightarrow> i < vm_depth s \<longrightarrow> p \<in> set (fr_opened (vm_frames s i)) \<longrightarrow>
       uv_slot (h_upvalues s' ! p) = None \<and> uv_closed (h_upvalues s' ! p) = uv_val s p)"
proof -
  let ?r = "s\<lparr>vm_n_handlers := vm_n_handlers s0, vm_pending_condition := c, vm_pending_handler_idx := vm_n_handlers s0\<rparr>"
  let ?h = "\<lparr> gh_buf = act, gh_depth = vm_depth s0, gh_unwind_mark = vm_n_unwind s0,
    gh_condition_reg = ins_a ins, gh_resume_ip = fr_ip fr + ins_b ins \<rparr>"
  have h: "vm_handlers s (vm_n_handlers s0) = ?h"
    using push same(2)
    by (cases "vm_n_handlers s0 \<ge> CREME_HANDLERS_CAP") (auto simp: op_pushhandler_def abort_not_Done)
  have ok': "plain_above ?r (vm_n_unwind s0)" "opened_ok (vm_depth s0) ?r"
    using ok by (simp_all add: plain_above_def opened_ok_def upvalues_ok_def plain_cong [of ?r s])
  obtain s2 s' where s2: "closed_from (vm_depth s0) ?r s2" and run: "resume_handler n (creme_apply n A B) ?r = Done None s'"
    and s': "s' = upd_frame (vm_depth s0 - 1) (\<lambda>f. f\<lparr>fr_ip := fr_ip fr + ins_b ins\<rparr>)
      ((drained (vm_n_unwind s0) s2)\<lparr>vm_depth := vm_depth s0,
        vm_stack := (vm_stack s)(nat (fr_base fr + ins_a ins) := c)\<rparr>)"
    using resume_handler_run [of ?r n "creme_apply n A B"] depth frame mark ok' reg by (simp add: h) blast
  note same2 = closed_fromD [OF s2]
  have raise: "creme_raise_condition c s = Longjmp act ?r" using same(1) by (simp add: creme_raise_condition_def h Let_def)
  have "run_loop (Suc n) A B act td (creme_raise_condition c s) = run_loop n A B act td (Done None s')"
    by (simp add: raise run)
  moreover have "vm_depth s' = vm_depth s0 \<and> vm_n_unwind s' = vm_n_unwind s0 \<and> vm_n_handlers s' = vm_n_handlers s0 \<and> vm_unwind_stack s' = vm_unwind_stack s"
    using mark(1) by (simp add: s' upd_frame_def same2 drained_def)
  moreover have "fr_ip (vm_frames s' (vm_depth s0 - 1)) = fr_ip fr + ins_b ins \<and>
      vm_stack s' = (vm_stack s)(nat (fr_base fr + ins_a ins) := c)"
    by (simp add: s' upd_frame_def)
  moreover have "h_parameters s' = h_parameters (undo_all (vm_n_unwind s) (vm_n_unwind s0) s)"
    using undo_all_cong [of s2 s] by (simp add: s' upd_frame_def same2)
  moreover have "\<forall>i < vm_depth s0 - 1. vm_frames s' i = vm_frames s i"
    using same2(16) by (simp add: s' upd_frame_def)
  moreover have "uv_slot (h_upvalues s' ! p) = None \<and> uv_closed (h_upvalues s' ! p) = uv_val s p"
    if "vm_depth s0 \<le> i" "i < vm_depth s" "p \<in> set (fr_opened (vm_frames s i))" for i p
  proof -
    have none: "uv_slot (h_upvalues s2 ! p) = None" using same2(17) [of i p] that by simp
    have "uv_val s2 p = uv_val s p" using same2(18) [of p] by (simp add: uv_val_def split: option.split)
    with none show ?thesis by (simp add: s' upd_frame_def uv_val_def)
  qed
  ultimately show ?thesis by blast
qed

text \<open>C1. A condition is raised below a guard, with no other handler above it, and since the guard was installed parameters were
  changed by \<open>ParamPush\<close> (distinct parameters, no converters) and \<open>ParamPop\<close> only and no \<open>dynamic-wind\<close> was entered
  (\<open>param_step\<close>).  Then the dispatch loop goes on at the guard's resume address, in the guard's frame, with the condition in its
  register and the handler gone; every parameter has the value, and the unwind stack the actions, of the time the guard was
  installed; the frames below the guard's are those at the raise, and the upvalues of the frames it leaves are closed over the
  values they had.\<close>

theorem guard_catches:
  fixes s s0 :: vm
  assumes push: "op_pushhandler act fr ins s0 = Done () s1"
    and steps: "(param_step (vm_n_unwind s0))\<^sup>*\<^sup>* s1 s"
    and same: "vm_n_handlers s = Suc (vm_n_handlers s0)" "vm_handlers s (vm_n_handlers s0) = vm_handlers s1 (vm_n_handlers s0)"
    and depth: "0 < vm_depth s0" "vm_depth s0 \<le> vm_frames_cap s"
    and frame: "fr_base (vm_frames s (vm_depth s0 - 1)) = fr_base fr"
    and fuel: "vm_n_unwind s \<le> vm_n_unwind s0 + n"
    and ok: "opened_ok (vm_depth s0) s"
    and reg: "0 \<le> fr_base fr + ins_a ins" "fr_base fr + ins_a ins < int (vm_stack_cap s)"
  shows "\<exists>s'. run_loop (Suc n) A B act td (creme_raise_condition c s) = run_loop n A B act td (Done None s') \<and>
    vm_depth s' = vm_depth s0 \<and> vm_n_handlers s' = vm_n_handlers s0 \<and>
    fr_ip (vm_frames s' (vm_depth s0 - 1)) = fr_ip fr + ins_b ins \<and>
    vm_stack s' = (vm_stack s)(nat (fr_base fr + ins_a ins) := c) \<and>
    (\<forall>p < length (h_parameters s0). h_parameters s' ! p = h_parameters s0 ! p) \<and>
    vm_n_unwind s' = vm_n_unwind s0 \<and> (\<forall>i < vm_n_unwind s0. vm_unwind_stack s' i = vm_unwind_stack s0 i) \<and>
    (\<forall>i < vm_depth s0 - 1. vm_frames s' i = vm_frames s i) \<and>
    (\<forall>i p. vm_depth s0 \<le> i \<longrightarrow> i < vm_depth s \<longrightarrow> p \<in> set (fr_opened (vm_frames s i)) \<longrightarrow>
       uv_slot (h_upvalues s' ! p) = None \<and> uv_closed (h_upvalues s' ! p) = uv_val s p)"
proof -
  have s1: "h_parameters s1 = h_parameters s0" "vm_unwind_stack s1 = vm_unwind_stack s0" "vm_n_unwind s1 = vm_n_unwind s0"
    using push by (auto simp: op_pushhandler_def abort_not_Done split: if_splits)
  have gb: "goes_back (vm_n_unwind s0) s1 s" using goes_back_steps [OF steps] goes_back_refl [of s1] s1(3) by simp
  then obtain new where gb': "vm_n_unwind s0 \<le> vm_n_unwind s" "plain_above s (vm_n_unwind s0)"
    "\<forall>i < vm_n_unwind s0. vm_unwind_stack s i = vm_unwind_stack s0 i"
    "h_parameters (undo_all (vm_n_unwind s) (vm_n_unwind s0) s) = h_parameters s0 @ new"
    by (auto simp: goes_back_def s1)
  have "(\<forall>p < length (h_parameters s0). h_parameters s' ! p = h_parameters s0 ! p) \<and>
      (\<forall>i < vm_n_unwind s0. vm_unwind_stack s' i = vm_unwind_stack s0 i)"
    if "h_parameters s' = h_parameters (undo_all (vm_n_unwind s) (vm_n_unwind s0) s)" "vm_unwind_stack s' = vm_unwind_stack s" for s' :: vm
    using that gb'(3,4) by (simp add: nth_append)
  with guard_resumes [OF push same depth frame gb'(1) fuel gb'(2) ok reg, of A B td c] show ?thesis by blast
qed

text \<open>A guard at the top level around a \<open>parameterize\<close>: the condition 7 goes to register 2 and the frame on to instruction 5, and
  the parameter is 1 again.\<close>

definition guard_push :: instruction where
  "guard_push = \<lparr>ins_op = OP_PUSHHANDLER, ins_a = 2, ins_b = 5, ins_c = 0, ins_d = 0\<rparr>"

definition guarded :: vm where
  "guarded = param_state\<lparr>vm_handlers := (vm_handlers vm0)(0 := \<lparr> gh_buf = 0, gh_depth = 1, gh_unwind_mark = 0,
     gh_condition_reg = 2, gh_resume_ip = 5 \<rparr>), vm_n_handlers := 1\<rparr>"

lemma guard_catches_witness:
  "\<exists>s s'. op_pushhandler 0 (vm_frames vm0 0) guard_push param_state = Done () guarded \<and>
     op_parampush (\<lambda>_ _. stuckM) (vm_frames vm0 0) param_push guarded = Done () s \<and> pm_value (h_parameters s ! 0) = VInt 2 \<and>
     run_loop 2 reference_arith (creme_builtins reference_arith reference_host) 0 0 (creme_raise_condition (VInt 7) s) =
       run_loop 1 reference_arith (creme_builtins reference_arith reference_host) 0 0 (Done None s') \<and>
     vm_stack s' 2 = VInt 7 \<and> fr_ip (vm_frames s' 0) = 5 \<and> vm_n_handlers s' = 0 \<and> pm_value (h_parameters s' ! 0) = VInt 1"
proof -
  have push: "op_pushhandler 0 (vm_frames vm0 0) guard_push param_state = Done () guarded"
    by (simp add: op_pushhandler_def guard_push_def guarded_def param_state_def CREME_HANDLERS_CAP_def)
  have regs: "param_regs guarded (vm_frames vm0 0) param_push [(0, VInt 2)]"
    using param_state_regs by (simp add: param_regs_def guarded_def)
  have cap: "vm_n_unwind guarded < CREME_UNWIND_CAP" using param_state_unwind by (simp add: guarded_def)
  let ?s = "(put_all [(0, VInt 2)] guarded)\<lparr>vm_unwind_stack := (vm_unwind_stack guarded)(vm_n_unwind guarded :=
    UnwindParams (saved_values guarded [(0, VInt 2)])), vm_n_unwind := vm_n_unwind guarded + 1\<rparr>"
  have bind: "op_parampush (\<lambda>_ _. stuckM) (vm_frames vm0 0) param_push guarded = Done () ?s"
    using parampush_run [OF regs _ cap] by simp
  have "param_step (vm_n_unwind param_state) guarded ?s" by (rule binds [OF regs _ cap bind]) simp
  then have steps: "(param_step (vm_n_unwind param_state))\<^sup>*\<^sup>* guarded ?s" by blast
  have small: "vm_n_unwind ?s \<le> vm_n_unwind param_state + 1" "vm_depth param_state = 1"
    by (simp_all add: guarded_def param_state_def)
  from guard_catches [OF push steps, where n = 1 and A = reference_arith and B = "creme_builtins reference_arith reference_host"
      and td = 0 and c = "VInt 7"] obtain s' where
    run: "run_loop (Suc 1) reference_arith (creme_builtins reference_arith reference_host) 0 0 (creme_raise_condition (VInt 7) ?s) =
       run_loop 1 reference_arith (creme_builtins reference_arith reference_host) 0 0 (Done None s')"
    and s': "vm_n_handlers s' = vm_n_handlers param_state" "fr_ip (vm_frames s' 0) = fr_ip (vm_frames vm0 0) + ins_b guard_push"
      "vm_stack s' = (vm_stack ?s)(nat (fr_base (vm_frames vm0 0) + ins_a guard_push) := VInt 7)"
      "h_parameters s' ! 0 = h_parameters param_state ! 0"
    using small by (auto simp: guarded_def param_state_def guard_push_def opened_ok_def upvalues_ok_def)
  have "vm_stack s' 2 = VInt 7" "fr_ip (vm_frames s' 0) = 5" "vm_n_handlers s' = 0" "pm_value (h_parameters s' ! 0) = VInt 1"
    using s' by (simp_all add: guard_push_def param_state_def)
  moreover have "pm_value (h_parameters ?s ! 0) = VInt 2" by (simp add: guarded_def param_state_def)
  ultimately show ?thesis using push bind run by (metis Suc_1)
qed

subsection \<open>\<open>call/cc\<close>\<close>

text \<open>With plain actions above the mark.\<close>

lemma escape_run:
  fixes s s0 :: vm
  defines "k \<equiv> length (h_conts s0)"
  defines "entered \<equiv> s0\<lparr>h_conts := h_conts s0 @ [\<lparr> k_buf = vm_next_act s0, k_depth = vm_depth s0,
    k_unwind_mark = vm_n_unwind s0, k_result = VNil \<rparr>], vm_next_act := vm_next_act s0 + 1\<rparr>"
  assumes call: "ap f [VContinuation k] entered = invoke_continuation n ap' k v s"
    and same: "k < length (h_conts s)" "h_conts s ! k = h_conts entered ! k"
    and mark: "vm_n_unwind s0 \<le> vm_n_unwind s" "vm_n_unwind s \<le> vm_n_unwind s0 + n"
    and ok: "plain_above s (vm_n_unwind s0)" "opened_ok (vm_depth s0) s"
  shows "\<exists>s'. bi_call_cc ap [f] s0 = Done v s' \<and>
    vm_depth s' = vm_depth s0 \<and> vm_n_unwind s' = vm_n_unwind s0 \<and> vm_stack s' = vm_stack s \<and> vm_unwind_stack s' = vm_unwind_stack s \<and>
    h_parameters s' = h_parameters (undo_all (vm_n_unwind s) (vm_n_unwind s0) s) \<and>
    (\<forall>i < vm_depth s0. vm_frames s' i = vm_frames s i) \<and>
    (\<forall>i p. vm_depth s0 \<le> i \<longrightarrow> i < vm_depth s \<longrightarrow> p \<in> set (fr_opened (vm_frames s i)) \<longrightarrow>
       uv_slot (h_upvalues s' ! p) = None \<and> uv_closed (h_upvalues s' ! p) = uv_val s p) \<and>
    vm_n_handlers s' = vm_n_handlers s"
proof -
  let ?c = "\<lparr> k_buf = vm_next_act s0, k_depth = vm_depth s0, k_unwind_mark = vm_n_unwind s0, k_result = VNil \<rparr>"
  have c: "h_conts s ! k = ?c" using same(2) by (simp add: entered_def k_def)
  obtain s1 where close: "close_frames (vm_depth s0) s = Done () s1" and s1: "closed_from (vm_depth s0) s s1"
    using close_frames_run [OF ok(2)] by blast
  note same1 = closed_fromD [OF s1]
  let ?s2 = "drained (vm_n_unwind s0) s1"
  have drain: "drain_unwind n ap' (vm_n_unwind s0) s1 = Done () ?s2"
    using drain_unwind_run [of s1 "vm_n_unwind s0" n ap'] mark(2) ok(1) plain_above_closed [OF s1]
    by (simp add: same1(2))
  let ?s' = "?s2\<lparr>vm_depth := vm_depth s0, h_conts := (h_conts ?s2)[k := ?c\<lparr>k_result := v\<rparr>]\<rparr>"
  have k: "k < length (h_conts ?s')" using same(1) by (simp add: same1)
  have "(invoke_continuation n ap' k v :: val M) s = Longjmp (vm_next_act s0) ?s'"
    using same(1) close drain by (simp add: invoke_continuation_def bindM_def c)
  then have "bi_call_cc ap [f] s0 = Done v ?s'"
    using call k by (simp add: bi_call_cc_def Let_def k_def [symmetric] entered_def bindM_def derefM_def)
  moreover have "vm_depth ?s' = vm_depth s0 \<and> vm_n_unwind ?s' = vm_n_unwind s0 \<and> vm_stack ?s' = vm_stack s \<and> vm_unwind_stack ?s' = vm_unwind_stack s \<and>
      vm_n_handlers ?s' = vm_n_handlers s"
    using mark(1) by (simp add: same1 drained_def)
  moreover have "h_parameters ?s' = h_parameters (undo_all (vm_n_unwind s) (vm_n_unwind s0) s)"
    using undo_all_cong [of s1 s] by (simp add: same1)
  moreover have "\<forall>i < vm_depth s0. vm_frames ?s' i = vm_frames s i" using same1(16) by simp
  moreover have "uv_slot (h_upvalues ?s' ! p) = None \<and> uv_closed (h_upvalues ?s' ! p) = uv_val s p"
    if "vm_depth s0 \<le> i" "i < vm_depth s" "p \<in> set (fr_opened (vm_frames s i))" for i p
    using same1(17) [of i p] that same1(18) [of p] by (simp add: uv_val_def split: option.splits)
  ultimately show ?thesis by blast
qed

text \<open>C5. A continuation is called while its \<open>call/cc\<close> is active, and since then parameters were changed by \<open>ParamPush\<close> (distinct
  parameters, no converters) and \<open>ParamPop\<close> only and no \<open>dynamic-wind\<close> was entered (\<open>param_step\<close>).  Then \<open>call/cc\<close> returns the
  argument at its own depth; every parameter has the value, and the unwind stack the actions, of the time of the \<open>call/cc\<close>; the
  registers and the frames below are those of the escaping call, and the upvalues of the frames it leaves are closed over the
  values they had.  The guard handlers of the escaping call stay: the code does not restore \<open>n_handlers\<close> here.\<close>

theorem continuation_escapes:
  fixes s s0 :: vm
  defines "k \<equiv> length (h_conts s0)"
  defines "entered \<equiv> s0\<lparr>h_conts := h_conts s0 @ [\<lparr> k_buf = vm_next_act s0, k_depth = vm_depth s0,
    k_unwind_mark = vm_n_unwind s0, k_result = VNil \<rparr>], vm_next_act := vm_next_act s0 + 1\<rparr>"
  assumes call: "ap f [VContinuation k] entered = invoke_continuation n ap' k v s"
    and steps: "(param_step (vm_n_unwind s0))\<^sup>*\<^sup>* entered s"
    and same: "k < length (h_conts s)" "h_conts s ! k = h_conts entered ! k"
    and fuel: "vm_n_unwind s \<le> vm_n_unwind s0 + n"
    and ok: "opened_ok (vm_depth s0) s"
  shows "\<exists>s'. bi_call_cc ap [f] s0 = Done v s' \<and>
    vm_depth s' = vm_depth s0 \<and> vm_stack s' = vm_stack s \<and>
    (\<forall>p < length (h_parameters s0). h_parameters s' ! p = h_parameters s0 ! p) \<and>
    vm_n_unwind s' = vm_n_unwind s0 \<and> (\<forall>i < vm_n_unwind s0. vm_unwind_stack s' i = vm_unwind_stack s0 i) \<and>
    (\<forall>i < vm_depth s0. vm_frames s' i = vm_frames s i) \<and>
    (\<forall>i p. vm_depth s0 \<le> i \<longrightarrow> i < vm_depth s \<longrightarrow> p \<in> set (fr_opened (vm_frames s i)) \<longrightarrow>
       uv_slot (h_upvalues s' ! p) = None \<and> uv_closed (h_upvalues s' ! p) = uv_val s p) \<and>
    vm_n_handlers s' = vm_n_handlers s"
proof -
  have "goes_back (vm_n_unwind s0) entered s"
    using goes_back_steps [OF steps] goes_back_refl [of entered] by (simp add: entered_def)
  then obtain new where gb: "vm_n_unwind s0 \<le> vm_n_unwind s" "plain_above s (vm_n_unwind s0)"
    "\<forall>i < vm_n_unwind s0. vm_unwind_stack s i = vm_unwind_stack s0 i"
    "h_parameters (undo_all (vm_n_unwind s) (vm_n_unwind s0) s) = h_parameters s0 @ new"
    by (auto simp: goes_back_def entered_def)
  have "(\<forall>p < length (h_parameters s0). h_parameters s' ! p = h_parameters s0 ! p) \<and>
      (\<forall>i < vm_n_unwind s0. vm_unwind_stack s' i = vm_unwind_stack s0 i)"
    if "h_parameters s' = h_parameters (undo_all (vm_n_unwind s) (vm_n_unwind s0) s)" "vm_unwind_stack s' = vm_unwind_stack s" for s' :: vm
    using that gb(3,4) by (simp add: nth_append)
  with escape_run [of ap f s0 n ap' v s, OF call [unfolded entered_def k_def] same [unfolded entered_def k_def] gb(1) fuel gb(2) ok]
  show ?thesis by blast
qed

text \<open>A continuation called at once by the procedure \<open>call/cc\<close> was given.\<close>

lemma continuation_escapes_witness:
  "\<exists>s'. bi_call_cc (\<lambda>f args. invoke_continuation 0 (\<lambda>_ _. stuckM) 0 (VInt 7)) [VNil] vm0 = Done (VInt 7) s' \<and> vm_depth s' = 1"
proof -
  let ?ap = "\<lambda>f args. invoke_continuation 0 (\<lambda>_ _. stuckM) 0 (VInt 7) :: val M"
  let ?s = "vm0\<lparr>h_conts := h_conts vm0 @ [\<lparr> k_buf = vm_next_act vm0, k_depth = vm_depth vm0,
    k_unwind_mark = vm_n_unwind vm0, k_result = VNil \<rparr>], vm_next_act := vm_next_act vm0 + 1\<rparr>"
  have "?ap VNil [VContinuation (length (h_conts vm0))] ?s =
      invoke_continuation 0 (\<lambda>_ _. stuckM) (length (h_conts vm0)) (VInt 7) ?s" by simp
  from continuation_escapes [of ?ap VNil vm0, OF this]
  show ?thesis by (simp add: opened_ok_def upvalues_ok_def) blast
qed

end
