(* ===== verification/Call_Spec.thy ===== *)
theory Call_Spec
  imports Unwind_Spec
begin

text \<open>
  What the call machinery of the dispatch loop promises: a call opens the callee's register window
  above the caller's and touches nothing below it, a wrong number of arguments is an error before
  anything changes, a return closes the upvalues of its frame, and the shortcut for a procedure that
  calls itself in tail position is the general tail call.
\<close>

subsection \<open>Tail calls\<close>

text \<open>C3. The shortcut \<open>try_self_tail_call\<close> takes for a tail call of the running closure does exactly
  what the general tail call of \<open>dispatch_call\<close> does, on success and on every error.\<close>

theorem self_tail_call_transparent:
  assumes "frame_ok s" "fr_closure (vm_frames s (vm_depth s - 1)) = Some c"
  shows "tail_call (dispatch_call fuel ap bt) td ins (retM (VClosure c)) s =
    dispatch_call fuel ap bt ins (VClosure c) True td s"
  using self_tail_call_is_call [OF assms] by (simp add: tail_call_def)

text \<open>A procedure of one parameter and two registers, running at the top level.\<close>

definition loop_chunk :: chunk where
  "loop_chunk = \<lparr> ch_instrs = [], ch_consts = [], ch_protos = [], ch_upvalues = [], ch_param_count = 1,
     ch_has_rest = False, ch_num_registers = 3, ch_name = ''loop'', ch_qq_templates = [], ch_case_tables = [] \<rparr>"

definition loop_state :: vm where
  "loop_state = vm0\<lparr>h_chunks := [g_empty_root_chunk, loop_chunk], h_closures := [\<lparr> cl_chunk = 1, cl_upvalues = [] \<rparr>],
     vm_frames := (vm_frames vm0)(0 := \<lparr> fr_chunk = 1, fr_base = 0, fr_closure = Some 0, fr_ip = 3,
       fr_return_reg = -1, fr_opened = [] \<rparr>),
     vm_stack := (\<lambda>_. VNil)(1 := VClosure 0, 2 := VInt 5)\<rparr>"

definition self_call :: instruction where
  "self_call = \<lparr>ins_op = OP_TAILCALL, ins_a = 1, ins_b = 1, ins_c = 0, ins_d = 0\<rparr>"

lemma loop_frame_ok: "frame_ok loop_state"
  by (simp add: frame_ok_def loop_state_def loop_chunk_def)

lemma self_tail_call_transparent_witness:
  "tail_call (dispatch_call 0 (\<lambda>_ _. stuckM) (\<lambda>_ _. stuckM)) 0 self_call (retM (VClosure 0)) loop_state =
    dispatch_call 0 (\<lambda>_ _. stuckM) (\<lambda>_ _. stuckM) self_call (VClosure 0) True 0 loop_state"
  by (rule self_tail_call_transparent [OF loop_frame_ok]) (simp add: loop_state_def)

subsection \<open>Calls\<close>

text \<open>The states in which the running frame calls the closure \<open>c\<close>: its arguments are in its own window, and
  there is room for the callee's registers and its frame.\<close>

definition calls :: "vm \<Rightarrow> instruction \<Rightarrow> nat \<Rightarrow> bool" where
  "calls s ins c \<longleftrightarrow> frame_ok s \<and> c < length (h_closures s) \<and> cl_chunk (h_closures s ! c) < length (h_chunks s) \<and>
     (let fr = vm_frames s (vm_depth s - 1); regs = ch_num_registers (h_chunks s ! fr_chunk fr);
          ch = h_chunks s ! cl_chunk (h_closures s ! c) in
      0 \<le> ins_a ins \<and> 0 \<le> ins_b ins \<and> ins_a ins + ins_b ins < regs \<and>
      0 \<le> ch_param_count ch \<and> ch_param_count ch + (if ch_has_rest ch then 1 else 0) \<le> ch_num_registers ch \<and>
      fr_base fr + regs + ch_num_registers ch \<le> int (vm_stack_cap s)) \<and>
     vm_depth s < vm_frames_cap s"

definition caller_frame :: "vm \<Rightarrow> frame" where
  "caller_frame s = vm_frames s (vm_depth s - 1)"

definition callee_chunk :: "vm \<Rightarrow> nat \<Rightarrow> chunk" where
  "callee_chunk s c = h_chunks s ! cl_chunk (h_closures s ! c)"

text \<open>The first register of the callee, and the arguments.\<close>

definition window_base :: "vm \<Rightarrow> int" where
  "window_base s = fr_base (caller_frame s) + ch_num_registers (h_chunks s ! fr_chunk (caller_frame s))"

definition passed :: "vm \<Rightarrow> instruction \<Rightarrow> val list" where
  "passed s ins = call_args s (fr_base (caller_frame s) + ins_a ins + 1) (ins_b ins)"

lemma call_closure_run:
  assumes c: "calls s ins c"
    and bind: "bind_args (callee_chunk s c) (ins_b ins) (window_base s) (fr_base (caller_frame s) + ins_a ins + 1) s = Done () s1"
    and same: "vm_depth s1 = vm_depth s" "vm_frames_cap s1 = vm_frames_cap s"
  shows "dispatch_call fuel ap bt ins (VClosure c) False td s = Done None
    (s1\<lparr>vm_frames := (vm_frames s1)(vm_depth s := \<lparr> fr_chunk = cl_chunk (h_closures s ! c), fr_base = window_base s,
       fr_closure = Some c, fr_ip = 0, fr_return_reg = ins_c ins, fr_opened = [] \<rparr>), vm_depth := Suc (vm_depth s)\<rparr>)"
proof -
  have facts: "0 < vm_depth s" "vm_depth s \<le> vm_frames_cap s" "vm_depth s < vm_frames_cap s"
    "fr_chunk (caller_frame s) < length (h_chunks s)" "c < length (h_closures s)"
    "cl_chunk (h_closures s ! c) < length (h_chunks s)"
    "\<not> window_base s + ch_num_registers (callee_chunk s c) > int (vm_stack_cap s)"
    using c by (auto simp: calls_def frame_ok_def Let_def caller_frame_def window_base_def callee_chunk_def)
  have top: "bindM top_frame f s = f (caller_frame s) s" for f :: "frame \<Rightarrow> 'z M"
    using facts by (simp add: bindM_def caller_frame_def)
  have chunk: "bindM (derefM h_chunks (fr_chunk (caller_frame s))) f s = f (h_chunks s ! fr_chunk (caller_frame s)) s"
    for f :: "chunk \<Rightarrow> 'z M" using facts by (simp add: bindM_def)
  have callee: "bindM (derefM h_chunks (cl_chunk (h_closures s ! c))) f s = f (callee_chunk s c) s" for f :: "chunk \<Rightarrow> 'z M"
    using facts by (simp add: bindM_def callee_chunk_def)
  have closure: "bindM (derefM h_closures c) f s = f (h_closures s ! c) s" for f :: "closure \<Rightarrow> 'z M"
    using facts by (simp add: bindM_def)
  have check: "bindM (check_stack (window_base s) (callee_chunk s c)) f s = f () s" for f :: "unit \<Rightarrow> 'z M"
    using facts by (simp add: bindM_def check_stack_def)
  have push: "push_frame k b cl r s1 = Done () (s1\<lparr>vm_frames := (vm_frames s1)(vm_depth s := \<lparr> fr_chunk = k, fr_base = b,
      fr_closure = cl, fr_ip = 0, fr_return_reg = r, fr_opened = [] \<rparr>), vm_depth := Suc (vm_depth s)\<rparr>)" for k b cl r
    using facts same by (simp add: push_frame_def bindM_def upd_frame_def)
  show ?thesis
    using bind push
    by (simp add: dispatch_call_def call_closure_def Let_def top chunk closure callee check window_base_def [symmetric])
qed

lemma calls_window:
  assumes "calls s ins c"
  shows "0 \<le> fr_base (caller_frame s)" "fr_base (caller_frame s) + ins_a ins + ins_b ins < window_base s"
    "0 \<le> ins_a ins" "0 \<le> ins_b ins" "0 \<le> ch_param_count (callee_chunk s c)"
    "window_base s + ch_param_count (callee_chunk s c) + (if ch_has_rest (callee_chunk s c) then 1 else 0)
       \<le> int (vm_stack_cap s)" "window_base s \<le> int (vm_stack_cap s)"
  using assms by (auto simp: calls_def frame_ok_def Let_def caller_frame_def window_base_def callee_chunk_def
      split: if_splits)

text \<open>C11. A call of a closure with a fixed number of parameters pushes its frame: the parameters are its
  first registers, and no register or frame below the new window changes.\<close>

theorem call_opens_window:
  assumes "calls s ins c" "\<not> ch_has_rest (callee_chunk s c)" "ins_b ins = ch_param_count (callee_chunk s c)"
  shows "\<exists>s'. dispatch_call fuel ap bt ins (VClosure c) False td s = Done None s' \<and>
    vm_depth s' = Suc (vm_depth s) \<and>
    vm_frames s' (vm_depth s) = \<lparr> fr_chunk = cl_chunk (h_closures s ! c), fr_base = window_base s,
      fr_closure = Some c, fr_ip = 0, fr_return_reg = ins_c ins, fr_opened = [] \<rparr> \<and>
    (\<forall>i < vm_depth s. vm_frames s' i = vm_frames s i) \<and>
    (\<forall>j. int j < window_base s \<longrightarrow> vm_stack s' j = vm_stack s j) \<and>
    call_args s' (window_base s) (ins_b ins) = passed s ins \<and> h_pairs s' = h_pairs s"
proof -
  note w = calls_window [OF assms(1)]
  let ?ab = "fr_base (caller_frame s) + ins_a ins + 1" and ?nb = "window_base s"
  let ?s1 = "s\<lparr>vm_stack := copied ?nb ?ab (ins_b ins) (vm_stack s)\<rparr>"
  have "bind_args (callee_chunk s c) (ins_b ins) ?nb ?ab s = Done () ?s1"
    by (rule bind_args_fixed) (use assms w in auto)
  note run = call_closure_run [OF assms(1) this]
  have "map (\<lambda>i. copied ?nb ?ab (ins_b ins) (vm_stack s) (nat (?nb + int i))) [0..<nat (ins_b ins)] =
      map (\<lambda>i. vm_stack s (nat (?ab + int i))) [0..<nat (ins_b ins)]"
    using w by (auto simp: copied_def zless_nat_eq_int_zless)
  then have args: "call_args (?s1\<lparr>vm_frames := fs, vm_depth := d\<rparr>) ?nb (ins_b ins) = passed s ins" for fs d
    by (simp add: call_args_def passed_def)
  have low: "\<forall>j. int j < ?nb \<longrightarrow> copied ?nb ?ab (ins_b ins) (vm_stack s) j = vm_stack s j"
    by (simp add: copied_def)
  from run args low show ?thesis by simp
qed

lemma loop_calls: "calls loop_state self_call 0"
  by (simp add: calls_def loop_frame_ok) (simp add: loop_state_def loop_chunk_def self_call_def)

lemma call_opens_window_witness:
  "\<exists>s'. dispatch_call 0 (\<lambda>_ _. stuckM) (\<lambda>_ _. stuckM) self_call (VClosure 0) False 0 loop_state = Done None s' \<and>
    vm_depth s' = 2 \<and> call_args s' 3 1 = [VInt 5]"
proof -
  have s: "window_base loop_state = 3" "passed loop_state self_call = [VInt 5]" "ins_b self_call = 1" "vm_depth loop_state = 1"
    "\<not> ch_has_rest (callee_chunk loop_state 0)" "ch_param_count (callee_chunk loop_state 0) = 1"
    by (simp_all add: window_base_def caller_frame_def passed_def call_args_def loop_state_def loop_chunk_def self_call_def
        callee_chunk_def)
  from call_opens_window [OF loop_calls s(5), of 0 "\<lambda>_ _. stuckM" "\<lambda>_ _. stuckM" 0] show ?thesis by (auto simp: s)
qed

text \<open>A call of a closure with a rest parameter does the same, and its last parameter is a fresh list of
  the arguments past the fixed ones.\<close>

theorem call_collects_rest:
  assumes "calls s ins c" "ch_has_rest (callee_chunk s c)" "ch_param_count (callee_chunk s c) \<le> ins_b ins"
  shows "\<exists>s' new. dispatch_call fuel ap bt ins (VClosure c) False td s = Done None s' \<and>
    vm_depth s' = Suc (vm_depth s) \<and>
    (\<forall>i < vm_depth s. vm_frames s' i = vm_frames s i) \<and>
    (\<forall>j. int j < window_base s \<longrightarrow> vm_stack s' j = vm_stack s j) \<and>
    call_args s' (window_base s) (ch_param_count (callee_chunk s c)) =
      take (nat (ch_param_count (callee_chunk s c))) (passed s ins) \<and>
    h_pairs s' = h_pairs s @ new \<and>
    chain (h_pairs s') (vm_stack s' (nat (window_base s + ch_param_count (callee_chunk s c))))
      (drop (nat (ch_param_count (callee_chunk s c))) (passed s ins)) VNil"
proof -
  note w = calls_window [OF assms(1)]
  let ?ab = "fr_base (caller_frame s) + ins_a ins + 1" and ?nb = "window_base s" and ?k = "ch_param_count (callee_chunk s c)"
  have "0 \<le> ?k" "?nb + ?k < int (vm_stack_cap s)" "0 \<le> ?nb" "0 \<le> ?ab" "?ab + ins_b ins \<le> int (vm_stack_cap s)"
    "?nb \<le> ?ab \<or> ?ab + ins_b ins \<le> ?nb"
    using w assms(2) by auto
  from bind_args_rest [OF assms(2) this(1) assms(3) this(3,2,4-6)]
  obtain rest new where list: "chain (h_pairs s @ new) rest (drop (nat ?k) (call_args s ?ab (ins_b ins))) VNil"
    and bind: "bind_args (callee_chunk s c) (ins_b ins) ?nb ?ab s = Done () ((with_pairs s new)\<lparr>vm_stack :=
      (copied ?nb ?ab ?k (vm_stack s))(nat (?nb + ?k) := rest)\<rparr>)"
    by blast
  let ?st = "(copied ?nb ?ab ?k (vm_stack s))(nat (?nb + ?k) := rest)"
  note run = call_closure_run [OF assms(1) bind]
  have low: "\<forall>j. int j < ?nb \<longrightarrow> ?st j = vm_stack s j"
    using w by (auto simp: copied_def)
  have "map (\<lambda>i. ?st (nat (?nb + int i))) [0..<nat ?k] = map (\<lambda>i. vm_stack s (nat (?ab + int i))) [0..<nat ?k]"
    using w by (auto simp: copied_def zless_nat_eq_int_zless)
  also have "\<dots> = take (nat ?k) (passed s ins)"
    using assms(3) w by (simp add: passed_def call_args_def take_map min_def nat_mono)
  finally have args: "map (\<lambda>i. ?st (nat (?nb + int i))) [0..<nat ?k] = take (nat ?k) (passed s ins)" .
  show ?thesis
  proof (intro exI conjI)
    show "dispatch_call fuel ap bt ins (VClosure c) False td s = Done None
      (((with_pairs s new)\<lparr>vm_stack := ?st\<rparr>)\<lparr>vm_frames := (vm_frames s)(vm_depth s := \<lparr> fr_chunk = cl_chunk (h_closures s ! c),
        fr_base = window_base s, fr_closure = Some c, fr_ip = 0, fr_return_reg = ins_c ins, fr_opened = [] \<rparr>),
        vm_depth := Suc (vm_depth s)\<rparr>)"
      using run by (simp add: with_pairs_def)
  qed (use low args list in \<open>simp_all add: call_args_def passed_def with_pairs_def\<close>)
qed

text \<open>The same state with a procedure that takes its arguments as a list.\<close>

definition rest_state :: vm where
  "rest_state = loop_state\<lparr>h_chunks := [g_empty_root_chunk,
     loop_chunk\<lparr>ch_param_count := 0, ch_has_rest := True\<rparr>]\<rparr>"

lemma rest_calls: "calls rest_state self_call 0"
  by (simp add: calls_def frame_ok_def) (simp add: rest_state_def loop_state_def loop_chunk_def self_call_def)

lemma call_collects_rest_witness:
  "\<exists>s'. dispatch_call 0 (\<lambda>_ _. stuckM) (\<lambda>_ _. stuckM) self_call (VClosure 0) False 0 rest_state = Done None s' \<and>
    chain (h_pairs s') (vm_stack s' 3) [VInt 5] VNil"
proof -
  have s: "window_base rest_state = 3" "passed rest_state self_call = [VInt 5]"
    "ch_param_count (callee_chunk rest_state 0) = 0" "ch_has_rest (callee_chunk rest_state 0)" "ins_b self_call = 1"
    by (simp_all add: window_base_def caller_frame_def passed_def call_args_def callee_chunk_def rest_state_def
        loop_state_def loop_chunk_def self_call_def)
  from call_collects_rest [OF rest_calls s(4), of 0 "\<lambda>_ _. stuckM" "\<lambda>_ _. stuckM" 0] show ?thesis by (simp add: s) blast
qed

text \<open>A call with a wrong number of arguments is the arity error of the callee, raised before any
  register, frame or heap object has changed.\<close>

theorem call_arity_error:
  assumes "calls s ins c"
    and "if ch_has_rest (callee_chunk s c) then ins_b ins < ch_param_count (callee_chunk s c)
      else ins_b ins \<noteq> ch_param_count (callee_chunk s c)"
  shows "dispatch_call fuel ap bt ins (VClosure c) False td s =
    creme_abort (ch_name (callee_chunk s c) @ '': expected '' @
      (if ch_has_rest (callee_chunk s c) then ''at least '' else []) @ dec (ch_param_count (callee_chunk s c)) @
      '' argument(s), got '' @ dec (ins_b ins)) s"
proof -
  have facts: "0 < vm_depth s" "vm_depth s \<le> vm_frames_cap s"
    "fr_chunk (caller_frame s) < length (h_chunks s)" "c < length (h_closures s)"
    "cl_chunk (h_closures s ! c) < length (h_chunks s)"
    "\<not> window_base s + ch_num_registers (callee_chunk s c) > int (vm_stack_cap s)"
    using assms(1) by (auto simp: calls_def frame_ok_def Let_def caller_frame_def window_base_def callee_chunk_def)
  have top: "bindM top_frame f s = f (caller_frame s) s" for f :: "frame \<Rightarrow> 'z M"
    using facts by (simp add: bindM_def caller_frame_def)
  have chunk: "bindM (derefM h_chunks (fr_chunk (caller_frame s))) f s = f (h_chunks s ! fr_chunk (caller_frame s)) s"
    for f :: "chunk \<Rightarrow> 'z M" using facts by (simp add: bindM_def)
  have callee: "bindM (derefM h_chunks (cl_chunk (h_closures s ! c))) f s = f (callee_chunk s c) s" for f :: "chunk \<Rightarrow> 'z M"
    using facts by (simp add: bindM_def callee_chunk_def)
  have closure: "bindM (derefM h_closures c) f s = f (h_closures s ! c) s" for f :: "closure \<Rightarrow> 'z M"
    using facts by (simp add: bindM_def)
  have check: "bindM (check_stack (window_base s) (callee_chunk s c)) f s = f () s" for f :: "unit \<Rightarrow> 'z M"
    using facts by (simp add: bindM_def check_stack_def)
  show ?thesis
    using assms(2)
    by (simp add: dispatch_call_def call_closure_def Let_def top chunk closure callee check window_base_def [symmetric]
        bind_args_def arity_abort_def bind_abort split: if_splits)
qed

lemma call_arity_error_witness:
  "dispatch_call 0 (\<lambda>_ _. stuckM) (\<lambda>_ _. stuckM) (self_call\<lparr>ins_b := 0\<rparr>) (VClosure 0) False 0 loop_state =
    creme_abort (''loop'' @ '': expected '' @ [] @ dec 1 @ '' argument(s), got '' @ dec 0) loop_state"
proof -
  have "calls loop_state (self_call\<lparr>ins_b := 0\<rparr>) 0"
    by (simp add: calls_def loop_frame_ok) (simp add: loop_state_def loop_chunk_def self_call_def)
  moreover have "\<not> ch_has_rest (callee_chunk loop_state 0)" "ch_param_count (callee_chunk loop_state 0) = 1"
    "ch_name (callee_chunk loop_state 0) = ''loop''" "ins_b (self_call\<lparr>ins_b := 0\<rparr>) = 0"
    by (simp_all add: callee_chunk_def loop_state_def loop_chunk_def)
  ultimately show ?thesis
    using call_arity_error [of loop_state "self_call\<lparr>ins_b := 0\<rparr>" 0 0 "\<lambda>_ _. stuckM" "\<lambda>_ _. stuckM" 0] by simp
qed

subsection \<open>Returns\<close>

text \<open>C8. A return to a frame of the same dispatch closes every upvalue the frame had open over the value
  it has then, writes the result to the register the call named, and goes on in the caller's frame.\<close>

theorem return_delivers:
  assumes d: "1 < vm_depth s" "vm_depth s \<le> vm_frames_cap s" "vm_depth s - 1 \<noteq> td"
    and up: "upvalues_ok s" "set (fr_opened (vm_frames s (vm_depth s - 1))) \<subseteq> {..<length (h_upvalues s)}"
    and r: "0 \<le> fr_base (vm_frames s (vm_depth s - 2)) + fr_return_reg (vm_frames s (vm_depth s - 1))"
      "fr_base (vm_frames s (vm_depth s - 2)) + fr_return_reg (vm_frames s (vm_depth s - 1)) < int (vm_stack_cap s)"
  shows "\<exists>s'. deliver_return v td s = Done None s' \<and> vm_depth s' = vm_depth s - 1 \<and>
    vm_stack s' = (vm_stack s)(nat (fr_base (vm_frames s (vm_depth s - 2)) + fr_return_reg (vm_frames s (vm_depth s - 1))) := v) \<and>
    (\<forall>i < vm_depth s - 1. vm_frames s' i = vm_frames s i) \<and>
    (\<forall>p\<in>set (fr_opened (vm_frames s (vm_depth s - 1))).
       uv_slot (h_upvalues s' ! p) = None \<and> uv_closed (h_upvalues s' ! p) = uv_val s p)"
proof -
  define top where "top = vm_depth s - 1"
  obtain us where us: "close_upvalues top s =
      Done () (s\<lparr>h_upvalues := us, vm_frames := (vm_frames s)(top := (vm_frames s top)\<lparr>fr_opened := []\<rparr>)\<rparr>)"
    "\<forall>q. uv_val (s\<lparr>h_upvalues := us\<rparr>) q = uv_val s q"
    "\<forall>p. p \<in> set (fr_opened (vm_frames s top)) \<or> uv_slot (h_upvalues s ! p) = None \<longrightarrow> uv_slot (us ! p) = None"
    using close_upvalues_form [of s top] up by (auto simp: top_def)
  have two: "top - 1 = vm_depth s - 2" "0 < top" "top \<le> vm_frames_cap s" and ne: "vm_depth s - 2 \<noteq> top"
    using d(1,2) by (simp_all add: top_def)
  have closed: "uv_slot (us ! p) = None \<and> uv_closed (us ! p) = uv_val s p" if "p \<in> set (fr_opened (vm_frames s top))" for p
    using us(3) us(2) [rule_format, of p] that by (simp add: uv_val_def)
  let ?r = "fr_base (vm_frames s (vm_depth s - 2)) + fr_return_reg (vm_frames s top)"
  have "deliver_return v td s = Done None (s\<lparr>h_upvalues := us, vm_frames := (vm_frames s)(top := (vm_frames s top)\<lparr>fr_opened := []\<rparr>),
      vm_depth := top, vm_stack := (vm_stack s)(nat ?r := v)\<rparr>)"
    using d r us(1) ne
    by (simp add: deliver_return_def bindM_def top_frame_def set_stack_def two top_def [symmetric] del: One_nat_def)
  with closed show ?thesis by (simp add: top_def [symmetric] del: One_nat_def)
qed

text \<open>A frame above that of \<open>loop_state\<close> with its register 3 captured, returning to register 0.\<close>

definition return_state :: vm where
  "return_state = loop_state\<lparr>vm_depth := 2, h_upvalues := [\<lparr> uv_slot = Some 3, uv_closed = VNil \<rparr>],
     vm_frames := (vm_frames loop_state)(1 := \<lparr> fr_chunk = 1, fr_base = 3, fr_closure = Some 0, fr_ip = 9,
       fr_return_reg = 0, fr_opened = [0] \<rparr>),
     vm_stack := (vm_stack loop_state)(3 := VInt 7)\<rparr>"

lemma return_delivers_witness:
  "\<exists>s'. deliver_return (VInt 9) 0 return_state = Done None s' \<and> vm_depth s' = 1 \<and> vm_stack s' 0 = VInt 9 \<and>
    uv_closed (h_upvalues s' ! 0) = VInt 7"
proof -
  have "uv_val return_state 0 = VInt 7" by (simp add: uv_val_def return_state_def)
  moreover have "\<exists>s'. deliver_return (VInt 9) 0 return_state = Done None s' \<and> vm_depth s' = vm_depth return_state - 1 \<and>
    vm_stack s' = (vm_stack return_state)(nat (fr_base (vm_frames return_state (vm_depth return_state - 2)) +
      fr_return_reg (vm_frames return_state (vm_depth return_state - 1))) := VInt 9) \<and>
    (\<forall>i < vm_depth return_state - 1. vm_frames s' i = vm_frames return_state i) \<and>
    (\<forall>p\<in>set (fr_opened (vm_frames return_state (vm_depth return_state - 1))).
       uv_slot (h_upvalues s' ! p) = None \<and> uv_closed (h_upvalues s' ! p) = uv_val return_state p)"
    by (rule return_delivers) (simp_all add: return_state_def loop_state_def upvalues_ok_def)
  ultimately show ?thesis by (auto simp: return_state_def loop_state_def)
qed

end
