(* ===== verification/Quicken_Props.thy ===== *)
theory Quicken_Props
  imports Call_Props Builtin_Table Int_Props
begin

text \<open>
  Quickening is transparent: where the check of a quickened \<open>CallGlobal\<close> holds, its fast path does what
  the generic call does, and where it fails the state is untouched and the generic call is made.
\<close>

text \<open>A builtin table that has the code's functions where the quickener looks for them.\<close>

definition fused_table :: "arith \<Rightarrow> (bytes \<Rightarrow> val list \<Rightarrow> val M) \<Rightarrow> bool" where
  "fused_table A bt \<longleftrightarrow> bt ''bi_plus'' = bi_plus A \<and> bt ''bi_minus'' = bi_minus A \<and> bt ''bi_star'' = bi_star A \<and>
     bt ''bi_cons'' = bi_cons \<and> bt ''bi_car'' = bi_car \<and> bt ''bi_cdr'' = bi_cdr \<and> bt ''bi_modulo'' = bi_modulo A"

lemma fused_creme_builtins: "fused_table A (creme_builtins A H n ap)"
  by (simp add: fused_table_def creme_builtins_fused)

subsection \<open>Neutral elements\<close>

lemma wf_gauss_inject:
  assumes "wf_gauss x" "wf_gauss y" "re_val x = re_val y" "im_val x = im_val y"
  shows "x = y"
proof -
  have c: "cplx_real x = cplx_real y" "cplx_imag x = cplx_imag y"
    using assms wf_exact_inject by (auto simp: wf_gauss_def re_val_def im_val_def)
  show ?thesis using c assms(1,2) by (cases x; cases y) (auto simp: wf_gauss_def)
qed

lemma wf_gauss_0_1: "wf_gauss (VInt 0)" "wf_gauss (VInt 1)"
  "re_val (VInt 0) = 0" "im_val (VInt 0) = 0" "re_val (VInt 1) = 1" "im_val (VInt 1) = 0"
  by (simp_all add: wf_gauss_def re_val_def im_val_def)

context gmp_spec
begin

lemma num_add_zero: "wf_gauss x \<Longrightarrow> num_add A (VInt 0) x = Inr x"
  using num_add_gauss [OF wf_gauss_0_1(1), of x] wf_gauss_inject [of _ x] by (auto simp: wf_gauss_0_1)

lemma num_mul_one: "wf_gauss x \<Longrightarrow> num_mul A (VInt 1) x = Inr x"
  using num_mul_gauss [OF wf_gauss_0_1(2), of x] wf_gauss_inject [of _ x] by (auto simp: wf_gauss_0_1)

end

subsection \<open>The generic call\<close>

lemma return_value_plain:
  "return_value False dst td = (\<lambda>v. bindM (set_stack dst v) (\<lambda>_. retM None))"
  by (rule ext) (simp add: return_value_def)

lemma dispatch_builtin:
  assumes "0 < vm_depth s" "vm_depth s \<le> vm_frames_cap s" "fr = vm_frames s (vm_depth s - 1)"
  shows "dispatch_call fuel ap bt ins (VBuiltin f) False td s =
    bindM (read_stack (fr_base fr + ins_a ins + 1) (ins_b ins)) (\<lambda>args. bindM (bt f args) (\<lambda>v.
      bindM (wr fr (ins_c ins) v) (\<lambda>_. retM None))) s"
  using assms by (simp add: dispatch_call_def return_value_plain wr_def Let_def bindM_def)

lemma dispatch_callable:
  assumes "0 < vm_depth s" "vm_depth s \<le> vm_frames_cap s" "fr = vm_frames s (vm_depth s - 1)"
  shows "dispatch_call fuel ap bt ins (VRecordCallable q) False td s =
    bindM (read_stack (fr_base fr + ins_a ins + 1) (ins_b ins)) (\<lambda>args. bindM (call_record_callable q args) (\<lambda>v.
      bindM (wr fr (ins_c ins) v) (\<lambda>_. retM None))) s"
  using assms by (simp add: dispatch_call_def return_value_plain wr_def Let_def bindM_def)

text \<open>The arguments of a call, one by one.\<close>

lemma read_stack_args:
  "read_stack (fr_base fr + ins_a ins + 1) 1 = bindM (arg fr ins 1) (\<lambda>x. retM [x])"
  "read_stack (fr_base fr + ins_a ins + 1) 2 = bindM (arg fr ins 1) (\<lambda>x. bindM (arg fr ins 2) (\<lambda>y. retM [x, y]))"
  "read_stack (fr_base fr + ins_a ins + 1) 3 =
     bindM (arg fr ins 1) (\<lambda>x. bindM (arg fr ins 2) (\<lambda>y. bindM (arg fr ins 3) (\<lambda>z. retM [x, y, z])))"
proof -
  have *: "[0..<1] = [0::nat]" "[0..<2] = [0, 1::nat]" "[0..<3] = [0, 1, 2::nat]"
    by (simp_all add: upt_rec)
  have nums: "nat 1 = 1" "nat 2 = 2" "nat 3 = 3" by simp_all
  show "read_stack (fr_base fr + ins_a ins + 1) 1 = bindM (arg fr ins 1) (\<lambda>x. retM [x])"
    "read_stack (fr_base fr + ins_a ins + 1) 2 = bindM (arg fr ins 1) (\<lambda>x. bindM (arg fr ins 2) (\<lambda>y. retM [x, y]))"
    "read_stack (fr_base fr + ins_a ins + 1) 3 =
       bindM (arg fr ins 1) (\<lambda>x. bindM (arg fr ins 2) (\<lambda>y. bindM (arg fr ins 3) (\<lambda>z. retM [x, y, z])))"
    unfolding read_stack_def nums * by (simp_all add: arg_def rd_def bindM_assoc add.assoc)
qed

lemma arg_Done: "arg fr ins i s = Done v s' \<Longrightarrow> s' = s"
  by (auto simp: arg_def rd_def get_stack_def split: if_splits)

lemma bind_arg_cong:
  "(\<And>x. arg fr ins i s = Done x s \<Longrightarrow> f x s = g x s) \<Longrightarrow> bindM (arg fr ins i) f s = bindM (arg fr ins i) g s"
  by (rule bind_state_cong) (metis arg_Done)

lemma derefM_Done: "derefM sel p s = Done x s' \<longleftrightarrow> p < length (sel s) \<and> x = sel s ! p \<and> s' = s"
  by (auto simp: derefM_def)

subsection \<open>The fast paths\<close>

text \<open>What a fast path has to do: answer \<open>None\<close> and touch nothing, or do the call.\<close>

definition transparent :: "val option M \<Rightarrow> frame \<Rightarrow> instruction \<Rightarrow> val option M \<Rightarrow> vm \<Rightarrow> bool" where
  "transparent quick fr ins generic s \<longleftrightarrow>
     quick s = Done None s \<or>
     (\<forall>m. bindM quick (\<lambda>r. case r of Some v \<Rightarrow> bindM (wr fr (ins_c ins) v) (\<lambda>_. retM None) | None \<Rightarrow> m) s = generic s)"

text \<open>The argument registers are registers; the arguments a fused sum or product is given are exact.\<close>

definition args_in :: "vm \<Rightarrow> frame \<Rightarrow> instruction \<Rightarrow> bool" where
  "args_in s fr ins \<longleftrightarrow> 0 \<le> fr_base fr + ins_a ins + 1 \<and>
     fr_base fr + ins_a ins + ins_b ins < int (vm_stack_cap s)"

definition exact_args :: "vm \<Rightarrow> frame \<Rightarrow> instruction \<Rightarrow> bool" where
  "exact_args s fr ins \<longleftrightarrow>
     (\<forall>i\<in>{1..ins_b ins}. wf_gauss (vm_stack s (nat (fr_base fr + (ins_a ins + i)))))"

text \<open>The pointers the call follows do not dangle.\<close>

definition records_in :: "vm \<Rightarrow> frame \<Rightarrow> instruction \<Rightarrow> global_cell \<Rightarrow> bool" where
  "records_in s fr ins cell \<longleftrightarrow>
     (\<forall>rc\<in>set (h_record_callables s). rc_type rc < length (h_record_types s)) \<and>
     (\<forall>q. gc_value cell = VRecordCallable q \<longrightarrow> q < length (h_record_callables s)) \<and>
     (\<forall>p. vm_stack s (nat (fr_base fr + (ins_a ins + 1))) = VRecord p \<longrightarrow> p < length (h_records s))"

lemma args_in_arg:
  "args_in s fr ins \<Longrightarrow> 1 \<le> i \<Longrightarrow> i \<le> ins_b ins \<Longrightarrow>
     arg fr ins i s = Done (vm_stack s (nat (fr_base fr + (ins_a ins + i)))) s"
  by (auto simp: args_in_def arg_def rd_def get_stack_def)

lemma exact_args_arg: "exact_args s fr ins \<Longrightarrow> 1 \<le> i \<Longrightarrow> i \<le> ins_b ins \<Longrightarrow> arg fr ins i s = Done v s \<Longrightarrow> wf_gauss v"
  by (auto simp: exact_args_def arg_def rd_def get_stack_def split: if_splits)

lemma transparent_None: "quick s = Done None s \<Longrightarrow> transparent quick fr ins generic s"
  by (simp add: transparent_def)

lemma transparent_eq:
  assumes "quick s = bindM m (\<lambda>v. retM (Some v)) s"
    and "generic s = bindM m (\<lambda>v. bindM (wr fr (ins_c ins) v) (\<lambda>_. retM None)) s"
  shows "transparent quick fr ins generic s"
  using assms by (simp add: transparent_def bindM_def split: run.split)

text \<open>The builtin behind each fused arithmetic opcode, on the arguments it is fused for.\<close>

lemma bi_plus_two: "num_add A (VInt 0) x = Inr x \<Longrightarrow> bi_plus A [x, y] = liftR (fast_add A x y)"
  by (simp add: bi_plus_def fast_arith)

lemma bi_plus_three:
  "num_add A (VInt 0) x = Inr x \<Longrightarrow> bi_plus A [x, y, z] = bindM (liftR (fast_add A x y)) (\<lambda>r. liftR (fast_add A r z))"
  by (simp add: bi_plus_def fast_arith liftR_rbind)

lemma bi_star_two: "num_mul A (VInt 1) x = Inr x \<Longrightarrow> bi_star A [x, y] = liftR (fast_mul A x y)"
  by (simp add: bi_star_def fast_arith)

lemma bi_minus_two: "bi_minus A [x, y] = liftR (fast_sub A x y)"
  by (simp add: bi_minus_def nargs_of_def fast_arith)

lemma bi_cons_two: "bi_cons [x, y] = creme_cons x y"
  by (simp add: bi_cons_def del: alloc_run)

lemma bi_modulo_two:
  assumes "is_int x" "is_int y" "int_of y \<noteq> 0"
  shows "bi_modulo A [x, y] = bindM (liftR (floor_mod (int_of x) (int_of y))) (\<lambda>r. retM (VInt r))"
  using assms by (simp add: bi_modulo_def modulo_res_def int_division_def liftR_rbind)

subsection \<open>Each opcode\<close>

lemma two_args_transparent:
  assumes top: "0 < vm_depth s" "vm_depth s \<le> vm_frames_cap s" "fr = vm_frames s (vm_depth s - 1)"
    and n: "ins_b ins = 2"
    and eq: "\<And>x y. arg fr ins 1 s = Done x s \<Longrightarrow> arg fr ins 2 s = Done y s \<Longrightarrow> g x y = bt f [x, y]"
  shows "transparent (bindM (arg fr ins 1) (\<lambda>x. bindM (arg fr ins 2) (\<lambda>y. bindM (g x y) (\<lambda>v. retM (Some v)))))
    fr ins (dispatch_call fuel ap bt ins (VBuiltin f) False td) s"
proof (rule transparent_eq [where m = "bindM (arg fr ins 1) (\<lambda>x. bindM (arg fr ins 2) (\<lambda>y. g x y))"])
  show "dispatch_call fuel ap bt ins (VBuiltin f) False td s =
      bindM (bindM (arg fr ins 1) (\<lambda>x. bindM (arg fr ins 2) (\<lambda>y. g x y)))
        (\<lambda>v. bindM (wr fr (ins_c ins) v) (\<lambda>_. retM None)) s"
    unfolding dispatch_builtin [OF top] n read_stack_args bindM_assoc bindM_retM
    by (rule bind_arg_cong, rule bind_arg_cong) (simp add: eq)
qed (simp add: bindM_assoc)

text \<open>A fast path that only reads: the pair and record accesses.\<close>

lemma one_arg_transparent:
  assumes n: "ins_b ins = 1"
    and eq: "\<And>x. arg fr ins 1 s = Done x s \<Longrightarrow> g x s = Done None s \<or>
      g x s = bindM (generic [x]) (\<lambda>v. retM (Some v)) s"
    and call: "dispatch_call fuel ap bt ins callee False td s =
      bindM (read_stack (fr_base fr + ins_a ins + 1) (ins_b ins)) (\<lambda>args. bindM (generic args) (\<lambda>v.
        bindM (wr fr (ins_c ins) v) (\<lambda>_. retM None))) s"
  shows "transparent (bindM (arg fr ins 1) g) fr ins (dispatch_call fuel ap bt ins callee False td) s"
proof (cases "arg fr ins 1 s")
  case (Done x s')
  with arg_Done have x: "arg fr ins 1 s = Done x s" by metis
  from eq [OF x] show ?thesis
  proof
    assume "g x s = Done None s"
    with x show ?thesis by (simp add: transparent_def bindM_def)
  next
    assume g: "g x s = bindM (generic [x]) (\<lambda>v. retM (Some v)) s"
    show ?thesis
      by (rule transparent_eq [where m = "generic [x]"])
        (use x g in \<open>simp_all add: call n read_stack_args bindM_def\<close>)
  qed
qed (simp_all add: transparent_def call n read_stack_args bindM_def)

lemma bi_car_pair: "bi_car [VPair p] = bindM (derefM h_pairs p) (\<lambda>c. retM (fst c))"
  and bi_cdr_pair: "bi_cdr [VPair p] = bindM (derefM h_pairs p) (\<lambda>c. retM (snd c))"
  by (simp_all add: bi_car_def bi_cdr_def first_pair_def)

lemma quick_pair_transparent:
  assumes top: "0 < vm_depth s" "vm_depth s \<le> vm_frames_cap s" "fr = vm_frames s (vm_depth s - 1)"
    and n: "ins_b ins = 1" and args: "args_in s fr ins"
    and bt: "\<And>p. bt f [VPair p] = bindM (derefM h_pairs p) (\<lambda>c. retM (sel c))"
  shows "transparent (quick_pair fr ins cell f sel) fr ins
    (dispatch_call fuel ap bt ins (gc_value cell) False td) s"
proof (cases "is_builtin cell f")
  case True
  then have cell: "gc_value cell = VBuiltin f" by (simp add: is_builtin_def)
  show ?thesis unfolding quick_pair_def cell
    by (rule one_arg_transparent [OF n _ dispatch_builtin [OF top]])
      (auto simp: True bt bindM_assoc split: val.split)
next
  case False
  have "quick_pair fr ins cell f sel s = Done None s"
    using False args_in_arg [OF args, of 1] n by (simp add: quick_pair_def bindM_def split: val.split)
  then show ?thesis by (rule transparent_None)
qed

lemma three_args_transparent:
  assumes top: "0 < vm_depth s" "vm_depth s \<le> vm_frames_cap s" "fr = vm_frames s (vm_depth s - 1)"
    and n: "ins_b ins = 3"
    and eq: "\<And>x y z. arg fr ins 1 s = Done x s \<Longrightarrow> g x y z = bt f [x, y, z]"
  shows "transparent (bindM (arg fr ins 1) (\<lambda>x. bindM (arg fr ins 2) (\<lambda>y. bindM (arg fr ins 3) (\<lambda>z.
      bindM (g x y z) (\<lambda>v. retM (Some v)))))) fr ins (dispatch_call fuel ap bt ins (VBuiltin f) False td) s"
proof (rule transparent_eq [where m = "bindM (arg fr ins 1) (\<lambda>x. bindM (arg fr ins 2) (\<lambda>y.
    bindM (arg fr ins 3) (\<lambda>z. g x y z)))"])
  show "dispatch_call fuel ap bt ins (VBuiltin f) False td s =
      bindM (bindM (arg fr ins 1) (\<lambda>x. bindM (arg fr ins 2) (\<lambda>y. bindM (arg fr ins 3) (\<lambda>z. g x y z))))
        (\<lambda>v. bindM (wr fr (ins_c ins) v) (\<lambda>_. retM None)) s"
    unfolding dispatch_builtin [OF top] n read_stack_args bindM_assoc bindM_retM
    by (rule bind_arg_cong) (simp add: eq)
qed (simp add: bindM_assoc)

lemma all_args_transparent:
  assumes top: "0 < vm_depth s" "vm_depth s \<le> vm_frames_cap s" "fr = vm_frames s (vm_depth s - 1)"
    and n: "ins_b ins = n"
  shows "transparent (bindM (read_stack (fr_base fr + ins_a ins + 1) n) (\<lambda>args.
      bindM (bt f args) (\<lambda>v. retM (Some v)))) fr ins (dispatch_call fuel ap bt ins (VBuiltin f) False td) s"
  by (rule transparent_eq [where m = "bindM (read_stack (fr_base fr + ins_a ins + 1) n) (bt f)"])
    (simp_all add: dispatch_builtin [OF top] n bindM_assoc)

text \<open>\<open>is_builtin\<close> failed: the fused form answers \<open>None\<close>.\<close>

lemma if_builtin_transparent:
  assumes "is_builtin cell f \<Longrightarrow> transparent m fr ins (dispatch_call fuel ap bt ins (VBuiltin f) False td) s"
  shows "transparent (if is_builtin cell f then m else retM None) fr ins
    (dispatch_call fuel ap bt ins (gc_value cell) False td) s"
proof (cases "is_builtin cell f")
  case True
  then have "gc_value cell = VBuiltin f" by (simp add: is_builtin_def)
  with True assms show ?thesis by simp
qed (simp add: transparent_def)

lemma quick_path_if:
  assumes "quick_path A bt fr ins cell = Some (if is_builtin cell f then m else retM None)"
    and "transparent m fr ins (dispatch_call fuel ap bt ins (VBuiltin f) False td) s"
  shows "\<exists>m. quick_path A bt fr ins cell = Some m \<and>
    transparent m fr ins (dispatch_call fuel ap bt ins (gc_value cell) False td) s"
  using assms if_builtin_transparent by blast

lemma quick_mod_transparent:
  assumes top: "0 < vm_depth s" "vm_depth s \<le> vm_frames_cap s" "fr = vm_frames s (vm_depth s - 1)"
    and n: "ins_b ins = 2" and args: "args_in s fr ins"
    and bt: "bt ''bi_modulo'' = bi_modulo A"
  shows "transparent (quick_mod fr ins cell) fr ins
    (dispatch_call fuel ap bt ins (gc_value cell) False td) s"
proof -
  let ?x = "vm_stack s (nat (fr_base fr + (ins_a ins + 1)))" and ?y = "vm_stack s (nat (fr_base fr + (ins_a ins + 2)))"
  let ?ok = "is_builtin cell ''bi_modulo'' \<and> is_int ?x \<and> is_int ?y \<and> int_of ?y \<noteq> 0"
  have xy: "arg fr ins 1 s = Done ?x s" "arg fr ins 2 s = Done ?y s"
    using args_in_arg [OF args] n by simp_all
  show ?thesis
  proof (cases ?ok)
    case True
    then have cell: "gc_value cell = VBuiltin ''bi_modulo''" by (simp add: is_builtin_def)
    show ?thesis
    proof (rule transparent_eq [where m = "bi_modulo A [?x, ?y]"])
      show "quick_mod fr ins cell s = bindM (bi_modulo A [?x, ?y]) (\<lambda>v. retM (Some v)) s"
        using True xy by (simp add: quick_mod_def bi_modulo_two bindM_assoc bindM_def split: run.split)
      show "dispatch_call fuel ap bt ins (gc_value cell) False td s =
          bindM (bi_modulo A [?x, ?y]) (\<lambda>v. bindM (wr fr (ins_c ins) v) (\<lambda>_. retM None)) s"
        unfolding cell dispatch_builtin [OF top] n read_stack_args bindM_assoc bindM_retM bt
        using xy by (simp add: bindM_def)
    qed
  next
    case False
    with xy have "quick_mod fr ins cell s = Done None s" by (auto simp: quick_mod_def bindM_def)
    then show ?thesis by (rule transparent_None)
  qed
qed

subsection \<open>Records\<close>

lemma call_accessor:
  assumes "q < length (h_record_callables s)" "p < length (h_records s)"
    "rc_type (h_record_callables s ! q) < length (h_record_types s)"
    "rc_kind (h_record_callables s ! q) = RC_ACCESSOR"
    "rec_type (h_records s ! p) = rc_type (h_record_callables s ! q)"
  shows "call_record_callable q [VRecord p] s =
    indexM (rec_fields (h_records s ! p)) (int (rc_field_index (h_record_callables s ! q))) s"
  using assms by (simp add: call_record_callable_def bindM_def Let_def is_record_of_def record_field_def
      RC_ACCESSOR_def RC_CTOR_def RC_PRED_def)

lemma call_constructor:
  assumes "q < length (h_record_callables s)"
    "rc_type (h_record_callables s ! q) < length (h_record_types s)"
    "rc_kind (h_record_callables s ! q) = RC_CTOR"
    "length args = length (rc_ctor_field_indices (h_record_callables s ! q))"
  shows "call_record_callable q args s =
    bindM (liftR (fill_fields (replicate (length (rty_field_names (h_record_types s !
        rc_type (h_record_callables s ! q)))) VNil) (rc_ctor_field_indices (h_record_callables s ! q)) args))
      (new_record (rc_type (h_record_callables s ! q))) s"
  using assms by (simp add: call_record_callable_def bindM_def Let_def)

lemma quick_recacc_transparent:
  assumes top: "0 < vm_depth s" "vm_depth s \<le> vm_frames_cap s" "fr = vm_frames s (vm_depth s - 1)"
    and n: "ins_b ins = 1" and args: "args_in s fr ins" and ok: "records_in s fr ins cell"
  shows "transparent (quick_recacc fr ins cell) fr ins
    (dispatch_call fuel ap bt ins (gc_value cell) False td) s"
proof -
  obtain x where x: "arg fr ins 1 s = Done x s" "x = vm_stack s (nat (fr_base fr + (ins_a ins + 1)))"
    using args_in_arg [OF args, of 1] n by auto
  show ?thesis
  proof (cases "\<exists>q p. gc_bound cell \<and> gc_value cell = VRecordCallable q \<and> x = VRecord p")
    case False
    with x(1) have "quick_recacc fr ins cell s = Done None s"
      by (auto simp: quick_recacc_def bindM_def split: val.split bool.split)
    then show ?thesis by (rule transparent_None)
  next
    case True
    then obtain q p where qp: "gc_bound cell" "gc_value cell = VRecordCallable q" "x = VRecord p" by blast
    with ok x(2) have in_heap: "q < length (h_record_callables s)" "p < length (h_records s)"
      "rc_type (h_record_callables s ! q) < length (h_record_types s)"
      by (auto simp: records_in_def)
    let ?rc = "h_record_callables s ! q" and ?r = "h_records s ! p"
    show ?thesis
    proof (cases "rc_kind ?rc = RC_ACCESSOR \<and> rec_type ?r = rc_type ?rc")
      case False
      with x(1) qp in_heap have "quick_recacc fr ins cell s = Done None s"
        by (auto simp: quick_recacc_def bindM_def)
      then show ?thesis by (rule transparent_None)
    next
      case True
      show ?thesis
      proof (rule transparent_eq [where m = "call_record_callable q [VRecord p]"])
        show "quick_recacc fr ins cell s = bindM (call_record_callable q [VRecord p]) (\<lambda>v. retM (Some v)) s"
          using x(1) qp in_heap True by (simp add: quick_recacc_def bindM_def call_accessor)
        show "dispatch_call fuel ap bt ins (gc_value cell) False td s =
            bindM (call_record_callable q [VRecord p]) (\<lambda>v. bindM (wr fr (ins_c ins) v) (\<lambda>_. retM None)) s"
          unfolding qp(2) dispatch_callable [OF top] n read_stack_args bindM_assoc bindM_retM
          using x(1) qp(3) by (simp add: bindM_def)
      qed
    qed
  qed
qed

lemma quick_recctor_transparent:
  assumes top: "0 < vm_depth s" "vm_depth s \<le> vm_frames_cap s" "fr = vm_frames s (vm_depth s - 1)"
    and args: "args_in s fr ins" and ok: "records_in s fr ins cell"
  shows "transparent (quick_recctor fr ins cell) fr ins
    (dispatch_call fuel ap bt ins (gc_value cell) False td) s"
proof (cases "\<exists>q. gc_bound cell \<and> gc_value cell = VRecordCallable q \<and>
    rc_kind (h_record_callables s ! q) = RC_CTOR \<and>
    ins_b ins = int (length (rc_ctor_field_indices (h_record_callables s ! q)))")
  case False
  with ok have "quick_recctor fr ins cell s = Done None s"
    by (auto simp: quick_recctor_def records_in_def bindM_def split: val.split bool.split)
  then show ?thesis by (rule transparent_None)
next
  case True
  then obtain q where q: "gc_bound cell" "gc_value cell = VRecordCallable q"
    "rc_kind (h_record_callables s ! q) = RC_CTOR"
    "ins_b ins = int (length (rc_ctor_field_indices (h_record_callables s ! q)))" by blast
  with ok have in_heap: "q < length (h_record_callables s)"
    "rc_type (h_record_callables s ! q) < length (h_record_types s)" by (auto simp: records_in_def)
  let ?ab = "fr_base fr + ins_a ins + 1"
  define vs where "vs = map (\<lambda>i. vm_stack s (nat (?ab + int i))) [0..<nat (ins_b ins)]"
  have rs: "read_stack ?ab (ins_b ins) s = Done vs s"
    using args by (auto simp: vs_def args_in_def intro!: read_stack_run)
  have len: "length vs = length (rc_ctor_field_indices (h_record_callables s ! q))"
    using q(4) by (simp add: vs_def)
  show ?thesis
  proof (rule transparent_eq [where m = "call_record_callable q vs"])
    show "quick_recctor fr ins cell s = bindM (call_record_callable q vs) (\<lambda>v. retM (Some v)) s"
      using q in_heap rs call_constructor [OF in_heap q(3) len]
      by (simp add: quick_recctor_def bindM_def split: run.split)
    show "dispatch_call fuel ap bt ins (gc_value cell) False td s =
        bindM (call_record_callable q vs) (\<lambda>v. bindM (wr fr (ins_c ins) v) (\<lambda>_. retM None)) s"
      unfolding q(2) dispatch_callable [OF top] using rs by (simp add: bindM_def)
  qed
qed

subsection \<open>Every quickened opcode\<close>

text \<open>What the quickener can have installed for a call with \<open>n\<close> arguments.\<close>

lemma quicken_cases:
  assumes "quicken_callglobal_op callee n s = Done q s'" "q \<ge> 0"
  shows "q \<in> {OP_QCALLGLOBAL_ADD2, OP_QCALLGLOBAL_SUB2, OP_QCALLGLOBAL_MUL2, OP_QCALLGLOBAL_CONS2,
      OP_QCALLGLOBAL_MOD2, OP_QCALLGLOBAL_STRAPPEND2} \<and> n = 2 \<or>
    q \<in> {OP_QCALLGLOBAL_CAR1, OP_QCALLGLOBAL_CDR1, OP_QCALLGLOBAL_NUMTOSTR1, OP_QCALLGLOBAL_RECACC} \<and> n = 1 \<or>
    q \<in> {OP_QCALLGLOBAL_ADD3, OP_QCALLGLOBAL_HASHSET} \<and> n = 3 \<or>
    q = OP_QCALLGLOBAL_HASHREF \<or> q = OP_QCALLGLOBAL_RECCTOR"
proof (cases callee)
  case (VBuiltin f)
  then show ?thesis using assms by (simp add: quicken_callglobal_op_def split: if_splits)
next
  case (VRecordCallable p)
  then show ?thesis using assms
    by (auto simp: quicken_callglobal_op_def bindM_Done_iff derefM_Done split: if_splits)
qed (use assms in \<open>simp_all add: quicken_callglobal_op_def\<close>)

lemma quick_path_transparent:
  assumes gmp: "gmp_spec A" and bt: "fused_table A bt"
    and top: "0 < vm_depth s" "vm_depth s \<le> vm_frames_cap s" "fr = vm_frames s (vm_depth s - 1)"
    and args: "args_in s fr ins" and recs: "records_in s fr ins cell"
    and quick: "quicken_callglobal_op callee0 (ins_b ins) s0 = Done (ins_op ins) s0'" "ins_op ins \<ge> 0"
    and exact: "ins_op ins \<in> {OP_QCALLGLOBAL_ADD2, OP_QCALLGLOBAL_ADD3, OP_QCALLGLOBAL_MUL2} \<Longrightarrow> exact_args s fr ins"
  shows "\<exists>m. quick_path A bt fr ins cell = Some m \<and>
    transparent m fr ins (dispatch_call fuel ap bt ins (gc_value cell) False td) s"
proof -
  note fused = bt [unfolded fused_table_def]
  have num: "num_add A (VInt 0) x = Inr x" "num_mul A (VInt 1) x = Inr x"
    if "ins_op ins \<in> {OP_QCALLGLOBAL_ADD2, OP_QCALLGLOBAL_ADD3, OP_QCALLGLOBAL_MUL2}" "1 \<le> ins_b ins"
      "arg fr ins 1 s = Done x s" for x
    using gmp_spec.num_add_zero [OF gmp] gmp_spec.num_mul_one [OF gmp] exact_args_arg [OF exact, of 1 x] that
    by auto
  note two = two_args_transparent [OF top, of ins] and three = three_args_transparent [OF top, of ins]
    and all = all_args_transparent [OF top, of ins]
  consider "ins_op ins = OP_QCALLGLOBAL_ADD2" "ins_b ins = 2" | "ins_op ins = OP_QCALLGLOBAL_SUB2" "ins_b ins = 2"
    | "ins_op ins = OP_QCALLGLOBAL_MUL2" "ins_b ins = 2" | "ins_op ins = OP_QCALLGLOBAL_CONS2" "ins_b ins = 2"
    | "ins_op ins = OP_QCALLGLOBAL_MOD2" "ins_b ins = 2" | "ins_op ins = OP_QCALLGLOBAL_STRAPPEND2" "ins_b ins = 2"
    | "ins_op ins = OP_QCALLGLOBAL_CAR1" "ins_b ins = 1" | "ins_op ins = OP_QCALLGLOBAL_CDR1" "ins_b ins = 1"
    | "ins_op ins = OP_QCALLGLOBAL_NUMTOSTR1" "ins_b ins = 1" | "ins_op ins = OP_QCALLGLOBAL_RECACC" "ins_b ins = 1"
    | "ins_op ins = OP_QCALLGLOBAL_ADD3" "ins_b ins = 3" | "ins_op ins = OP_QCALLGLOBAL_HASHSET" "ins_b ins = 3"
    | "ins_op ins = OP_QCALLGLOBAL_HASHREF" | "ins_op ins = OP_QCALLGLOBAL_RECCTOR"
    using quicken_cases [OF quick] by auto
  then show ?thesis
  proof cases
    case 1
    then show ?thesis
      by (intro quick_path_if [OF _ two [where f = "''bi_plus''" and g = "\<lambda>x y. liftR (fast_add A x y)"]])
        (use num fused in \<open>simp_all add: quick_path_def bi_plus_two\<close>)
  next
    case 2
    then show ?thesis
      by (intro quick_path_if [OF _ two [where f = "''bi_minus''" and g = "\<lambda>x y. liftR (fast_sub A x y)"]])
        (use fused in \<open>simp_all add: quick_path_def bi_minus_two\<close>)
  next
    case 3
    then show ?thesis
      by (intro quick_path_if [OF _ two [where f = "''bi_star''" and g = "\<lambda>x y. liftR (fast_mul A x y)"]])
        (use num fused in \<open>simp_all add: quick_path_def bi_star_two\<close>)
  next
    case 4
    then show ?thesis
      by (intro quick_path_if [OF _ two [where f = "''bi_cons''" and g = "creme_cons"]])
        (use fused in \<open>simp_all add: quick_path_def bi_cons_two del: alloc_run\<close>)
  next
    case 5
    then show ?thesis using quick_mod_transparent [OF top _ args] fused by (simp add: quick_path_def)
  next
    case 6
    then show ?thesis
      by (intro quick_path_if [OF _ all [where f = "''bi_string_append''"]]) (simp_all add: quick_path_def)
  next
    case 7
    then show ?thesis using quick_pair_transparent [OF top _ args] fused bi_car_pair by (simp add: quick_path_def)
  next
    case 8
    then show ?thesis using quick_pair_transparent [OF top _ args] fused bi_cdr_pair by (simp add: quick_path_def)
  next
    case 9
    then show ?thesis
      by (intro quick_path_if [OF _ all [where f = "''bi_number_to_string''"]]) (simp_all add: quick_path_def)
  next
    case 10
    then show ?thesis using quick_recacc_transparent [OF top _ args recs] by (simp add: quick_path_def)
  next
    case 11
    then show ?thesis
      by (intro quick_path_if [OF _ three [where f = "''bi_plus''" and
          g = "\<lambda>x y z. bindM (liftR (fast_add A x y)) (\<lambda>r. liftR (fast_add A r z))"]])
        (use num fused in \<open>simp_all add: quick_path_def bi_plus_three bindM_assoc\<close>)
  next
    case 12
    then show ?thesis
      by (intro quick_path_if [OF _ all [where f = "''bi_hash_table_set''"]]) (simp_all add: quick_path_def)
  next
    case 13
    then show ?thesis
      by (intro quick_path_if [OF _ all [where f = "''bi_hash_table_ref''"]]) (simp_all add: quick_path_def)
  next
    case 14
    then show ?thesis using quick_recctor_transparent [OF top args recs] by (simp add: quick_path_def)
  qed
qed

end
