(* ===== verification/Quicken_Spec.thy ===== *)
theory Quicken_Spec
  imports Quicken_Props VM_Init
begin

text \<open>
  Quickening: a call through a global that has been rewritten to a specialised opcode behaves as the
  call it replaces.
\<close>

text \<open>C2. Every opcode \<open>quicken_callglobal_op\<close> can install, executed in a state whose global is bound, whose registers are within
  the stack and whose records are allocated, does what the general call of the same callee does, or rewrites itself back to
  \<open>CallGlobal\<close> and does the general call.  For the sums of two and three arguments and the product of two this is claimed on exact
  numbers only: on floats they can differ in the sign of zero, see \<open>quickened_sum_of_negative_zeros\<close> below.\<close>

theorem quickening_transparent:
  assumes gmp: "gmp_spec A"
    and top: "0 < vm_depth s" "vm_depth s \<le> vm_frames_cap s" "fr = vm_frames s (vm_depth s - 1)"
    and args: "args_in s fr ins" and recs: "records_in s fr ins cell"
    and quick: "quicken_callglobal_op callee0 (ins_b ins) s0 = Done (ins_op ins) s0'" "ins_op ins \<ge> 0"
    and exact: "ins_op ins \<in> {OP_QCALLGLOBAL_ADD2, OP_QCALLGLOBAL_ADD3, OP_QCALLGLOBAL_MUL2} \<Longrightarrow> exact_args s fr ins"
    and cell: "get_global (ins_d ins) s = Done cell s" "gc_bound cell"
  shows "\<exists>m. exec_quick A (creme_builtins A H n ap) (dispatch_call fuel ap (creme_builtins A H n ap)) td fr ins = Some m \<and>
    (m s = dispatch_call fuel ap (creme_builtins A H n ap) ins (gc_value cell) False td s \<or>
     m s = bindM (quicken fr OP_CALLGLOBAL) (\<lambda>_. dispatch_call fuel ap (creme_builtins A H n ap) ins (gc_value cell) False td) s)"
proof -
  let ?call = "dispatch_call fuel ap (creme_builtins A H n ap)"
  obtain m where m: "quick_path A (creme_builtins A H n ap) fr ins cell = Some m"
    and t: "transparent m fr ins (?call ins (gc_value cell) False td) s"
    using quick_path_transparent [OF gmp fused_creme_builtins top args recs quick exact] by blast
  have range: "\<not> (ins_op ins < OP_COUNT \<or> ins_op ins \<ge> OP_QUICK_COUNT)"
    using quicken_cases [OF quick] by auto
  let ?m = "bindM (get_global (ins_d ins)) (\<lambda>cell.
      bindM (case quick_path A (creme_builtins A H n ap) fr ins cell of None \<Rightarrow> retM None | Some m \<Rightarrow> m) (\<lambda>r.
      case r of
        Some v \<Rightarrow> bindM (wr fr (ins_c ins) v) (\<lambda>_. retM None)
      | None \<Rightarrow>
          bindM (quicken fr OP_CALLGLOBAL) (\<lambda>_.
          bindM (guardM (\<not> gc_bound cell) (''unbound variable: '' @ gc_name cell)) (\<lambda>_.
          ?call ins (gc_value cell) False td))))"
  have exec: "exec_quick A (creme_builtins A H n ap) ?call td fr ins = Some ?m"
    unfolding exec_quick_def if_not_P [OF range] ..
  have get: "bindM (get_global (ins_d ins)) f s = f cell s" for f :: "global_cell \<Rightarrow> 'z M"
    using cell(1) by (simp add: bindM_def)
  from t consider "m s = Done None s"
    | "\<forall>k. bindM m (\<lambda>r. case r of Some v \<Rightarrow> bindM (wr fr (ins_c ins) v) (\<lambda>_. retM None) | None \<Rightarrow> k) s =
        ?call ins (gc_value cell) False td s"
    unfolding transparent_def by blast
  then show ?thesis
  proof cases
    case 1
    have "?m s = bindM (quicken fr OP_CALLGLOBAL) (\<lambda>_. ?call ins (gc_value cell) False td) s"
      using 1 m cell(2) by (simp add: get)
    with exec show ?thesis by blast
  next
    case 2
    have "?m s = ?call ins (gc_value cell) False td s"
      unfolding get m option.case by (rule 2 [rule_format])
    with exec show ?thesis by blast
  qed
qed

text \<open>A call \<open>(+ 2 3)\<close> at the top level, quickened.\<close>

definition plus_cell :: global_cell where
  "plus_cell = \<lparr> gc_name = ''+'', gc_value = VBuiltin ''bi_plus'', gc_bound = True \<rparr>"

definition plus_state :: vm where
  "plus_state = vm0\<lparr>vm_stack := (\<lambda>_. VNil)(1 := VInt 2, 2 := VInt 3), vm_globals := (vm_globals vm0)(0 := plus_cell)\<rparr>"

definition plus_call :: instruction where
  "plus_call = \<lparr>ins_op = OP_QCALLGLOBAL_ADD2, ins_a = 0, ins_b = 2, ins_c = 0, ins_d = 0\<rparr>"

lemma quickening_transparent_witness:
  "\<exists>m. exec_quick reference_arith (creme_builtins reference_arith reference_host 0 (\<lambda>_ _. stuckM))
      (dispatch_call 0 (\<lambda>_ _. stuckM) (creme_builtins reference_arith reference_host 0 (\<lambda>_ _. stuckM))) 0 (vm_frames vm0 0) plus_call = Some m \<and>
    (m plus_state = dispatch_call 0 (\<lambda>_ _. stuckM) (creme_builtins reference_arith reference_host 0 (\<lambda>_ _. stuckM)) plus_call (VBuiltin ''bi_plus'') False 0 plus_state \<or>
     m plus_state = bindM (quicken (vm_frames vm0 0) OP_CALLGLOBAL)
       (\<lambda>_. dispatch_call 0 (\<lambda>_ _. stuckM) (creme_builtins reference_arith reference_host 0 (\<lambda>_ _. stuckM)) plus_call (VBuiltin ''bi_plus'') False 0) plus_state)"
proof -
  have stack: "vm_stack plus_state (Suc 0) = VInt 2" "vm_stack plus_state 2 = VInt 3"
    by (simp_all add: plus_state_def)
  have "exact_args plus_state (vm_frames vm0 0) plus_call"
    unfolding exact_args_def
  proof
    fix i :: int
    assume "i \<in> {1..ins_b plus_call}"
    then have "i = 1 \<or> i = 2" by (auto simp: plus_call_def)
    then show "wf_gauss (vm_stack plus_state (nat (fr_base (vm_frames vm0 0) + (ins_a plus_call + i))))"
      by (auto simp: plus_call_def stack wf_gauss_def int64_def INT64_MIN_def INT64_MAX_def)
  qed
  moreover have "quicken_callglobal_op (VBuiltin ''bi_plus'') (ins_b plus_call) vm0 = Done (ins_op plus_call) vm0"
    by (simp add: quicken_callglobal_op_def plus_call_def)
  moreover have "get_global (ins_d plus_call) plus_state = Done plus_cell plus_state"
    by (simp add: get_global_def plus_call_def plus_state_def CREME_GLOBALS_CAP_def)
  ultimately show ?thesis
    using quickening_transparent [OF ref.gmp_spec_axioms, of plus_state "vm_frames vm0 0" plus_call plus_cell
        "VBuiltin ''bi_plus''" vm0 vm0 reference_host 0 "\<lambda>_ _. stuckM" 0 0]
    by (simp add: args_in_def records_in_def plus_cell_def plus_state_def plus_call_def)
qed

text \<open>On floats the quickened sum is another function than the procedure \<open>+\<close>, which adds to the exact
  0 first: where the machine has \<open>0.0 + -0.0 = 0.0\<close> and \<open>-0.0 + -0.0 = -0.0\<close>, as IEEE 754 says, the
  call answers \<open>0.0\<close> before it is quickened and \<open>-0.0\<close> after.\<close>

theorem quickened_sum_of_negative_zeros:
  fixes nz :: double
  assumes "fp_of_int64 A 0 = 0" "fp_add A 0 nz = 0" "fp_add A nz nz = nz" "nz \<noteq> 0"
  shows "bi_plus A [VFloat nz, VFloat nz] s = Done (VFloat 0) s \<and>
    liftR (fast_add A (VFloat nz) (VFloat nz)) s = Done (VFloat nz) s \<and> VFloat nz \<noteq> VFloat 0"
  using assms
  by (simp add: bi_plus_def fast_add_def float_op_def num_add.simps)

lemma quickened_sum_of_negative_zeros_witness:
  "bi_plus (reference_arith\<lparr>fp_add := min\<rparr>) [VFloat 9223372036854775808, VFloat 9223372036854775808] vm0 = Done (VFloat 0) vm0 \<and>
   liftR (fast_add (reference_arith\<lparr>fp_add := min\<rparr>) (VFloat 9223372036854775808) (VFloat 9223372036854775808)) vm0 =
     Done (VFloat 9223372036854775808) vm0"
  using quickened_sum_of_negative_zeros [of "reference_arith\<lparr>fp_add := min\<rparr>" 9223372036854775808 vm0]
  by (simp add: reference_arith_def min_def word_le_nat_alt)

end
