(* ===== verification/List_Props.thy ===== *)
theory List_Props
  imports Heap_Lists Builtin_Lists
begin

text \<open>
  The list builtins compute the list functions on the items of their arguments, and \<open>list?\<close> (Floyd's
  tortoise and hare) always ends, on circular lists too.
\<close>

subsection \<open>\<open>append\<close>, \<open>reverse\<close>, \<open>length\<close>, \<open>list-copy\<close>\<close>

lemma append_loop_run:
  "list_all2 (\<lambda>l vs. chain (h_pairs s) l vs VNil) ls vss \<Longrightarrow>
   \<exists>v new. append_loop ls r s = Done v (with_pairs s new) \<and> chain (h_pairs s @ new) v (concat (rev vss)) r"
proof (induction ls arbitrary: vss r s)
  case Nil
  then show ?case by (intro exI [of _ r] exI [of _ "[]"]) simp
next
  case (Cons l ls)
  then obtain vs wss where vss: "vss = vs # wss" and l: "chain (h_pairs s) l vs VNil"
    and ls: "list_all2 (\<lambda>l vs. chain (h_pairs s) l vs VNil) ls wss"
    by (auto simp: list_all2_Cons1)
  have items: "list_items l s = Done (vs, VNil) s" using list_items_chain [OF l] by simp
  obtain v new where v: "cons_list vs r s = Done v (with_pairs s new)" "chain (h_pairs s @ new) v vs r"
    using cons_list_run by blast
  have "list_all2 (\<lambda>l vs. chain (h_pairs (with_pairs s new)) l vs VNil) ls wss"
    using ls by (rule list_all2_mono) (simp add: chain_more)
  from Cons.IH [OF this, of v] obtain w new' where
    w: "append_loop ls v (with_pairs s new) = Done w (with_pairs s (new @ new'))"
       "chain (h_pairs s @ new @ new') w (concat (rev wss)) v" by auto
  have "append_loop (l # ls) r s = Done w (with_pairs s (new @ new'))"
    using items v(1) w(1) by (simp add: creme_list_length_def creme_list_to_values_def bindM_def)
  moreover have "chain (h_pairs s @ new @ new') w (concat (rev vss)) r"
    using chain_append [OF w(2)] chain_more [OF v(2), of new'] vss by simp
  ultimately show ?case by blast
qed

lemma bi_append_run:
  assumes "list_all2 (\<lambda>l vs. chain (h_pairs s) l vs VNil) ls vss"
  shows "\<exists>v new. bi_append (ls @ [t]) s = Done v (with_pairs s new) \<and> chain (h_pairs s @ new) v (concat vss) t"
  using append_loop_run [OF list_all2_rev [THEN iffD2, OF assms], of t] by (simp add: bi_append_def)

lemma reverse_onto_run:
  "\<exists>v new. reverse_onto vs r s = Done v (with_pairs s new) \<and> chain (h_pairs s @ new) v (rev vs) r"
proof (induction vs arbitrary: r s)
  case Nil
  then show ?case by (intro exI [of _ r] exI [of _ "[]"]) simp
next
  case (Cons x xs)
  let ?s = "with_pairs s [(x, r)]" and ?p = "VPair (length (h_pairs s))"
  obtain v new where v: "reverse_onto xs ?p ?s = Done v (with_pairs s ([(x, r)] @ new))"
    "chain (h_pairs s @ [(x, r)] @ new) v (rev xs) ?p"
    using Cons.IH [of ?p ?s] by auto
  have "chain (h_pairs s @ [(x, r)] @ new) ?p [x] r" by (simp add: nth_append)
  from chain_append [OF v(2) this] have "chain (h_pairs s @ [(x, r)] @ new) v (rev (x # xs)) r" by simp
  moreover have "reverse_onto (x # xs) r s = Done v (with_pairs s ([(x, r)] @ new))"
    using v(1) by (simp add: bindM_def with_pairs_def)
  ultimately show ?case by blast
qed

lemma bi_reverse_run:
  assumes "chain (h_pairs s) l vs VNil"
  shows "\<exists>v new. bi_reverse [l] s = Done v (with_pairs s new) \<and> chain (h_pairs s @ new) v (rev vs) VNil"
  using list_items_chain [OF assms] reverse_onto_run [of vs VNil s]
  by (auto simp: bi_reverse_def bindM_def)

lemma bi_length_run:
  "chain (h_pairs s) l vs VNil \<Longrightarrow> bi_length [l] s = Done (VInt (int (length vs))) s"
  using list_items_chain [of s l vs VNil] by (simp add: bi_length_def bindM_def)

lemma bi_list_copy_run:
  assumes "chain (h_pairs s) l vs t" "\<not> pair_val t"
  shows "\<exists>v new. bi_list_copy [l] s = Done v (with_pairs s new) \<and> length new = length vs \<and>
    chain (h_pairs s @ new) v vs t"
  using list_items_chain [OF assms] cons_list_run [of vs t s]
  by (auto simp: bi_list_copy_def bindM_def)

lemma walk_cdr_run:
  "chain (h_pairs s) l (vs @ ws) t \<Longrightarrow> \<exists>v. walk_cdr (length vs) who l s = Done v s \<and> chain (h_pairs s) v ws t"
proof (induction vs arbitrary: l)
  case Nil
  then show ?case by simp
next
  case (Cons x xs)
  then show ?case by (auto simp: bindM_def split: val.splits)
qed

lemma bi_list_ref_run:
  assumes "chain (h_pairs s) l vs t" "i < length vs"
  shows "bi_list_ref [l, VInt (int i)] s = Done (vs ! i) s"
proof -
  have "chain (h_pairs s) l (take i vs @ drop i vs) t" using assms(1) by simp
  from walk_cdr_run [OF this, of "''list-ref''"] assms(2) obtain v where
    v: "walk_cdr i ''list-ref'' l s = Done v s" "chain (h_pairs s) v (drop i vs) t" by auto
  from v(2) assms(2) obtain p where "v = VPair p" "p < length (h_pairs s)" "fst (h_pairs s ! p) = vs ! i"
    by (auto simp: Cons_nth_drop_Suc [symmetric] split: val.splits)
  with v(1) show ?thesis
    by (simp add: bi_list_ref_def creme_arg_int_def pair_at_def bindM_def)
qed

subsection \<open>\<open>list?\<close>\<close>

text \<open>A heap whose \<open>cdr\<close> pointers are pointers to pairs of it.\<close>

definition pairs_closed :: "(val \<times> val) list \<Rightarrow> bool" where
  "pairs_closed ps \<longleftrightarrow> (\<forall>c \<in> set ps. \<forall>q. snd c = VPair q \<longrightarrow> q < length ps)"

definition in_pairs :: "(val \<times> val) list \<Rightarrow> val \<Rightarrow> bool" where
  "in_pairs ps v \<longleftrightarrow> (\<forall>q. v = VPair q \<longrightarrow> q < length ps)"

fun cdr_of :: "(val \<times> val) list \<Rightarrow> val \<Rightarrow> val" where
  "cdr_of ps (VPair p) = snd (ps ! p)"
| "cdr_of ps v = v"

lemma in_pairs_cdr: "pairs_closed ps \<Longrightarrow> in_pairs ps v \<Longrightarrow> in_pairs ps (cdr_of ps v)"
  by (cases v) (auto simp: pairs_closed_def in_pairs_def)

lemma in_pairs_iter: "pairs_closed ps \<Longrightarrow> in_pairs ps v \<Longrightarrow> in_pairs ps ((cdr_of ps ^^ k) v)"
  by (induction k) (simp_all add: in_pairs_cdr)

lemma iter_chain: "chain ps v vs t \<Longrightarrow> i \<le> length vs \<Longrightarrow> chain ps ((cdr_of ps ^^ i) v) (drop i vs) t"
proof (induction vs arbitrary: v i)
  case Nil
  then show ?case by simp
next
  case (Cons x xs)
  then obtain p where p: "v = VPair p" "chain ps (snd (ps ! p)) xs t" by (auto split: val.splits)
  show ?case
  proof (cases i)
    case 0
    then show ?thesis using Cons.prems(1) by simp
  next
    case (Suc j)
    with Cons.IH [OF p(2), of j] Cons.prems(2) p(1) show ?thesis
      by (simp add: funpow_swap1)
  qed
qed

text \<open>Every walk ends in a chain or goes on for ever.\<close>

lemma chain_or_endless:
  assumes "pairs_closed ps" "in_pairs ps v"
  shows "(\<exists>vs t. chain ps v vs t \<and> \<not> pair_val t) \<or> (\<forall>k. pair_val ((cdr_of ps ^^ k) v))"
proof (rule disjCI)
  assume "\<not> (\<forall>k. pair_val ((cdr_of ps ^^ k) v))"
  then obtain k where "\<not> pair_val ((cdr_of ps ^^ k) v)" by blast
  then show "\<exists>vs t. chain ps v vs t \<and> \<not> pair_val t"
    using assms(2)
  proof (induction k arbitrary: v)
    case 0
    then show ?case by (intro exI [of _ "[]"] exI [of _ v]) simp
  next
    case (Suc k)
    show ?case
    proof (cases v)
      case (VPair p)
      have "\<not> pair_val ((cdr_of ps ^^ k) (cdr_of ps v))" using Suc.prems(1) by (simp add: funpow_swap1)
      from Suc.IH [OF this in_pairs_cdr [OF assms(1) Suc.prems(2)]]
      obtain vs t where vt: "chain ps (cdr_of ps v) vs t" "\<not> pair_val t" by blast
      have "chain ps v (fst (ps ! p) # vs) t" using vt VPair Suc.prems(2) by (simp add: in_pairs_def)
      with vt(2) show ?thesis by blast
    qed (force intro: exI [of _ "[]"])+
  qed
qed

text \<open>An endless walk: some positive turn, at most the number of pairs, meets itself at twice the
  distance.\<close>

lemma endless_meets:
  assumes "pairs_closed ps" "in_pairs ps v" "\<forall>k. pair_val ((cdr_of ps ^^ k) v)"
  shows "\<exists>i. 0 < i \<and> i \<le> length ps \<and> (cdr_of ps ^^ i) v = (cdr_of ps ^^ (2 * i)) v"
proof -
  let ?x = "\<lambda>k. (cdr_of ps ^^ k) v"
  have "?x ` {..length ps} \<subseteq> VPair ` {..<length ps}"
  proof (rule image_subsetI)
    fix k
    obtain p where "?x k = VPair p" using assms(3) [rule_format, of k] by (cases "?x k") auto
    with in_pairs_iter [OF assms(1,2), of k] show "?x k \<in> VPair ` {..<length ps}"
      by (simp add: in_pairs_def)
  qed
  then have "card (?x ` {..length ps}) \<le> card (VPair ` {..<length ps})" by (intro card_mono) auto
  also have "\<dots> \<le> length ps" by (metis card_image_le card_lessThan finite_lessThan)
  finally have "\<not> inj_on ?x {..length ps}" using pigeonhole [of ?x "{..length ps}"] by simp
  then obtain j k where jk: "j < k" "k \<le> length ps" "?x j = ?x k"
    unfolding inj_on_def by (metis atMost_iff linorder_neqE_nat)
  define d where "d = k - j"
  have d: "0 < d" "j + d \<le> length ps" using jk by (simp_all add: d_def)
  have period: "?x (m + d) = ?x m" if "j \<le> m" for m
  proof -
    have "m + d = (m - j) + k" "m = (m - j) + j" using that jk(1) by (simp_all add: d_def)
    then show ?thesis using jk(3) by (metis comp_apply funpow_add)
  qed
  have periods: "?x (m + n * d) = ?x m" if "j \<le> m" for m n
  proof (induction n)
    case (Suc n)
    have "?x (m + Suc n * d) = ?x ((m + n * d) + d)" by (simp add: algebra_simps)
    also have "\<dots> = ?x (m + n * d)" using period [of "m + n * d"] that by simp
    finally show ?case using Suc by simp
  qed simp
  define n where "n = (if j = 0 then 1 else (j + d - 1) div d)"
  have n: "0 < n * d" "j \<le> n * d" "n * d \<le> length ps"
  proof -
    have *: "j \<le> (j + d - 1) div d * d" "(j + d - 1) div d * d \<le> j + d - 1"
      using div_mult_mod_eq [of "j + d - 1" d] mod_less_divisor [OF d(1), of "j + d - 1"] by linarith+
    have "j + d - 1 \<le> length ps" using d by linarith
    then show le: "j \<le> n * d" "n * d \<le> length ps"
      using d(2) * order_trans [OF *(2)] by (auto simp: n_def)
    show "0 < n * d"
    proof (cases "j = 0")
      case True
      then show ?thesis using d(1) by (simp add: n_def)
    next
      case False
      then show ?thesis using le(1) by linarith
    qed
  qed
  have "?x (2 * (n * d)) = ?x (n * d)" using periods [OF n(2), of n] by (simp add: mult_2)
  with n show ?thesis by metis
qed

lemma iter_deref:
  assumes "pairs_closed (h_pairs s)" "in_pairs (h_pairs s) v" "pair_val ((cdr_of (h_pairs s) ^^ k) v)"
  obtains p where "(cdr_of (h_pairs s) ^^ k) v = VPair p" "p < length (h_pairs s)"
    "(cdr_of (h_pairs s) ^^ Suc k) v = snd (h_pairs s ! p)"
  using assms(3) in_pairs_iter [OF assms(1,2), of k]
  by (cases "(cdr_of (h_pairs s) ^^ k) v") (auto simp: in_pairs_def)

lemma list_p_turn:
  assumes "pairs_closed (h_pairs s)" "in_pairs (h_pairs s) v"
  defines "x \<equiv> \<lambda>k. (cdr_of (h_pairs s) ^^ k) v"
  assumes "pair_val (x i)" "pair_val (x (2 * i))" "pair_val (x (2 * i + 1))"
  shows "list_p_loop (Suc n) (x i) (x (2 * i)) s =
    (if pair_val (x (2 * i + 2)) \<and> x (2 * i + 2) = x (i + 1) then Done (VBool False) s
     else list_p_loop n (x (Suc i)) (x (2 * Suc i)) s)"
proof -
  obtain p where p: "x (2 * i) = VPair p" "p < length (h_pairs s)" "x (Suc (2 * i)) = snd (h_pairs s ! p)"
    using iter_deref [OF assms(1,2)] assms(5) unfolding x_def by metis
  obtain q where q: "x (Suc (2 * i)) = VPair q" "q < length (h_pairs s)" "x (Suc (Suc (2 * i))) = snd (h_pairs s ! q)"
    using iter_deref [OF assms(1,2)] assms(6) unfolding x_def by (metis Suc_eq_plus1)
  obtain r where r: "x i = VPair r" "r < length (h_pairs s)" "x (Suc i) = snd (h_pairs s ! r)"
    using iter_deref [OF assms(1,2)] assms(4) unfolding x_def by metis
  have d: "snd (h_pairs s ! q) = x (2 * i + 2)" "snd (h_pairs s ! r) = x (i + 1)" "snd (h_pairs s ! p) = VPair q"
    using p q r by simp_all
  show ?thesis
    using p(2) q(2) r(2) by (cases "x (2 * i + 2)") (simp_all add: p(1) r(1) d bindM_def Let_def)
qed

lemma list_p_finite:
  assumes ok: "pairs_closed (h_pairs s)" "in_pairs (h_pairs s) v"
    and c: "chain (h_pairs s) v vs t" "\<not> pair_val t"
  shows "2 * i \<le> length vs \<Longrightarrow> length vs < 2 * i + 2 * n \<Longrightarrow>
    list_p_loop n ((cdr_of (h_pairs s) ^^ i) v) ((cdr_of (h_pairs s) ^^ (2 * i)) v) s = Done (VBool (t = VNil)) s"
proof (induction n arbitrary: i)
  case 0
  then show ?case by simp
next
  case (Suc n)
  let ?x = "\<lambda>k. (cdr_of (h_pairs s) ^^ k) v"
  have at: "chain (h_pairs s) (?x k) (drop k vs) t" if "k \<le> length vs" for k
    using iter_chain [OF c(1) that] .
  have pair: "pair_val (?x k)" if "k < length vs" for k
    using at [of k] that by (cases "?x k") (auto simp: Cons_nth_drop_Suc [symmetric])
  have stop: "?x (length vs) = t" using at [of "length vs"] by simp
  consider "length vs = 2 * i" | "length vs = 2 * i + 1" | "2 * i + 2 \<le> length vs" using Suc.prems by linarith
  then show ?case
  proof cases
    case 1
    then have "?x (2 * i) = t" using stop by simp
    then show ?thesis using c(2) by (cases t) simp_all
  next
    case 2
    obtain p where p: "?x (2 * i) = VPair p" "p < length (h_pairs s)" "?x (Suc (2 * i)) = snd (h_pairs s ! p)"
      using iter_deref [OF ok pair [of "2 * i"]] 2 by auto
    then have "snd (h_pairs s ! p) = t" using stop 2 by simp
    then show ?thesis using p(1,2) c(2) by (cases t) (simp_all add: bindM_def)
  next
    case 3
    have "\<not> (pair_val (?x (2 * i + 2)) \<and> ?x (2 * i + 2) = ?x (i + 1))"
    proof
      assume a: "pair_val (?x (2 * i + 2)) \<and> ?x (2 * i + 2) = ?x (i + 1)"
      have "drop (2 * i + 2) vs = drop (i + 1) vs"
        using chain_fun [OF at [of "2 * i + 2"], of "drop (i + 1) vs" t] at [of "i + 1"] a 3 c(2) by simp
      then have "length vs - (2 * i + 2) = length vs - (i + 1)" by (metis length_drop)
      with 3 have "2 * i + 2 = i + 1 \<or> length vs = 0" by linarith
      then show False using 3 by simp
    qed
    then have "list_p_loop (Suc n) (?x i) (?x (2 * i)) s = list_p_loop n (?x (Suc i)) (?x (2 * Suc i)) s"
      using list_p_turn [OF ok pair pair pair, of i n] 3 by (simp only: if_False)
    then show ?thesis using Suc.IH [of "Suc i"] 3 Suc.prems by (simp del: funpow.simps list_p_loop.simps)
  qed
qed

lemma list_p_endless:
  assumes ok: "pairs_closed (h_pairs s)" "in_pairs (h_pairs s) v"
    and all: "\<forall>k. pair_val ((cdr_of (h_pairs s) ^^ k) v)"
    and m: "(cdr_of (h_pairs s) ^^ m) v = (cdr_of (h_pairs s) ^^ (2 * m)) v"
  shows "i < m \<Longrightarrow> m \<le> i + n \<Longrightarrow>
    list_p_loop n ((cdr_of (h_pairs s) ^^ i) v) ((cdr_of (h_pairs s) ^^ (2 * i)) v) s = Done (VBool False) s"
proof (induction n arbitrary: i)
  case 0
  then show ?case by simp
next
  case (Suc n)
  let ?x = "\<lambda>k. (cdr_of (h_pairs s) ^^ k) v"
  have turn: "list_p_loop (Suc n) (?x i) (?x (2 * i)) s =
    (if pair_val (?x (2 * i + 2)) \<and> ?x (2 * i + 2) = ?x (i + 1) then Done (VBool False) s
     else list_p_loop n (?x (Suc i)) (?x (2 * Suc i)) s)"
    by (rule list_p_turn [OF ok all [rule_format] all [rule_format] all [rule_format]])
  show ?case
  proof (cases "Suc i = m")
    case True
    then have "2 * i + 2 = 2 * m" "i + 1 = m" by simp_all
    with m have "?x (2 * i + 2) = ?x (i + 1)" by metis
    with turn all show ?thesis by (simp only: if_True simp_thms)
  next
    case False
    with Suc.prems have "Suc i < m" "m \<le> Suc i + n" by simp_all
    from Suc.IH [OF this] turn show ?thesis by (simp only: if_cancel split: if_split)
  qed
qed

lemma bi_list_p_run:
  assumes ok: "pairs_closed (h_pairs s)" "in_pairs (h_pairs s) v"
  shows "bi_list_p [v] s = Done (VBool (\<exists>vs. chain (h_pairs s) v vs VNil)) s"
proof -
  let ?n = "Suc (length (h_pairs s))"
  have start: "bi_list_p [v] s = list_p_loop ?n ((cdr_of (h_pairs s) ^^ 0) v) ((cdr_of (h_pairs s) ^^ (2 * 0)) v) s"
    by (simp add: bi_list_p_def)
  from chain_or_endless [OF ok] show ?thesis
  proof
    assume "\<exists>vs t. chain (h_pairs s) v vs t \<and> \<not> pair_val t"
    then obtain vs t where c: "chain (h_pairs s) v vs t" "\<not> pair_val t" by blast
    have "(\<exists>ws. chain (h_pairs s) v ws VNil) \<longleftrightarrow> t = VNil"
      using chain_fun [OF c(1) _ c(2), of _ VNil] c by auto
    with list_p_finite [OF ok c, of 0 ?n] chain_length [OF c] start show ?thesis by simp
  next
    assume all: "\<forall>k. pair_val ((cdr_of (h_pairs s) ^^ k) v)"
    from endless_meets [OF ok all] obtain m where m: "0 < m" "m \<le> length (h_pairs s)"
      "(cdr_of (h_pairs s) ^^ m) v = (cdr_of (h_pairs s) ^^ (2 * m)) v" by blast
    have "\<not> chain (h_pairs s) v vs VNil" for vs
      using iter_chain [of "h_pairs s" v vs VNil "length vs"] all [rule_format, of "length vs"] by auto
    with list_p_endless [OF ok all m(3), of 0 ?n] m start show ?thesis by simp
  qed
qed

end
