(* ===== verification/List_Spec.thy ===== *)
theory List_Spec
  imports List_Props VM_Init Builtin_Table Call_Props
begin

text \<open>
  The list builtins against lists: \<open>chain ps v vs t\<close> says that \<open>v\<close> is the list of the values \<open>vs\<close> with
  the final \<open>cdr\<close> \<open>t\<close>, in the pairs \<open>ps\<close> of the heap.
\<close>

subsection \<open>Construction and access\<close>

text \<open>C12. On proper lists \<open>append\<close> returns a list of the concatenated items that ends in its last
  argument, \<open>reverse\<close> one of the items in reverse order, \<open>length\<close> their number and \<open>list-ref\<close> an item; the
  only change of the state is new pairs at the end of the heap, so no existing list changes.\<close>

theorem list_builtins_refine:
  assumes "list_all2 (\<lambda>l vs. chain (h_pairs s) l vs VNil) ls vss" "chain (h_pairs s) l vs VNil" "i < length vs"
  shows "(\<exists>v new. bi_append (ls @ [t]) s = Done v (with_pairs s new) \<and> chain (h_pairs s @ new) v (concat vss) t) \<and>
    (\<exists>v new. bi_reverse [l] s = Done v (with_pairs s new) \<and> chain (h_pairs s @ new) v (rev vs) VNil) \<and>
    bi_length [l] s = Done (VInt (int (length vs))) s \<and>
    bi_list_ref [l, VInt (int i)] s = Done (vs ! i) s"
  using bi_append_run [OF assms(1)] bi_reverse_run [OF assms(2)] bi_length_run [OF assms(2)]
    bi_list_ref_run [OF assms(2,3)] by blast

text \<open>The list \<open>(1 2)\<close> at pair 0.\<close>

definition list_state :: vm where
  "list_state = vm0\<lparr>h_pairs := [(VInt 1, VPair 1), (VInt 2, VNil)]\<rparr>"

lemma list_state_chain: "chain (h_pairs list_state) (VPair 0) [VInt 1, VInt 2] VNil"
  by (simp add: list_state_def)

lemma list_builtins_refine_witness:
  "(\<exists>v new. bi_append [VPair 0, VNil] list_state = Done v (with_pairs list_state new) \<and>
      chain (h_pairs list_state @ new) v [VInt 1, VInt 2] VNil) \<and>
   (\<exists>v new. bi_reverse [VPair 0] list_state = Done v (with_pairs list_state new) \<and>
      chain (h_pairs list_state @ new) v [VInt 2, VInt 1] VNil) \<and>
   bi_length [VPair 0] list_state = Done (VInt 2) list_state \<and>
   bi_list_ref [VPair 0, VInt 1] list_state = Done (VInt 2) list_state"
  using list_builtins_refine [of list_state "[VPair 0]" "[[VInt 1, VInt 2]]", OF _ list_state_chain, of 1 VNil]
    list_state_chain by simp

text \<open>C10. \<open>list?\<close> returns on every value of a heap without dangling pointers, circular lists included, and
  answers whether the value is a proper list.\<close>

theorem list_p_decides:
  assumes "pairs_closed (h_pairs s)" "in_pairs (h_pairs s) v"
  shows "bi_list_p [v] s = Done (VBool (\<exists>vs. chain (h_pairs s) v vs VNil)) s"
  using bi_list_p_run [OF assms] .

text \<open>The circular list \<open>#0=(1 . #0#)\<close>.\<close>

definition circular_state :: vm where
  "circular_state = vm0\<lparr>h_pairs := [(VInt 1, VPair 0)]\<rparr>"

lemma circular_not_list: "\<not> chain [(VInt 1, VPair 0)] (VPair 0) vs VNil"
  by (induction vs) auto

lemma list_p_decides_witness:
  "bi_list_p [VPair 0] circular_state = Done (VBool False) circular_state"
  using list_p_decides [of circular_state "VPair 0"] circular_not_list
  by (simp add: circular_state_def pairs_closed_def in_pairs_def)

subsection \<open>Procedures over lists\<close>

text \<open>A callback that leaves the existing pairs alone.\<close>

definition extends_pairs :: "val M \<Rightarrow> bool" where
  "extends_pairs m \<longleftrightarrow> (\<forall>s r s'. m s = Done r s' \<longrightarrow> (\<exists>new. h_pairs s' = h_pairs s @ new))"

lemma map_loop_run:
  "\<forall>x\<in>set vs. extends_pairs (ap f [x]) \<Longrightarrow> chain (h_pairs s) l vs t \<Longrightarrow> \<not> pair_val t \<Longrightarrow> length vs < n \<Longrightarrow>
     map_loop n ap f [l] s = mapM (\<lambda>x. ap f [x]) vs s"
proof (induction vs arbitrary: l n s)
  case Nil
  then obtain k where "n = Suc k" by (cases n) auto
  with Nil show ?case by (cases l) (auto simp: is_pair_def)
next
  case (Cons x xs)
  obtain k where n: "n = Suc k" "length xs < k" using Cons.prems(4) by (cases n) auto
  obtain p where p: "l = VPair p" "p < length (h_pairs s)" "fst (h_pairs s ! p) = x" "chain (h_pairs s) (snd (h_pairs s ! p)) xs t"
    using Cons.prems(2) by (auto split: val.splits)
  have "bindM (map_loop k ap f [snd (h_pairs s ! p)]) (\<lambda>rs. retM (r # rs)) s' =
      bindM (mapM (\<lambda>x. ap f [x]) xs) (\<lambda>rs. retM (r # rs)) s'" if run: "ap f [x] s = Done r s'" for r s'
  proof -
    have "extends_pairs (ap f [x])" using Cons.prems(1) by simp
    then obtain new where "h_pairs s' = h_pairs s @ new" using run unfolding extends_pairs_def by blast
    then have "chain (h_pairs s') (snd (h_pairs s ! p)) xs t" using chain_more [OF p(4)] by simp
    from Cons.IH [OF _ this Cons.prems(3) n(2)] Cons.prems(1) show ?thesis by (simp add: bindM_def)
  qed
  then have "bindM (ap f [x]) (\<lambda>r. bindM (map_loop k ap f [snd (h_pairs s ! p)]) (\<lambda>rs. retM (r # rs))) s =
      bindM (ap f [x]) (\<lambda>r. bindM (mapM (\<lambda>x. ap f [x]) xs) (\<lambda>rs. retM (r # rs))) s"
    by (intro bind_state_cong) blast
  moreover have "map_loop n ap f [l] s =
      bindM (ap f [x]) (\<lambda>r. bindM (map_loop k ap f [snd (h_pairs s ! p)]) (\<lambda>rs. retM (r # rs))) s"
    using p by (simp add: n is_pair_def bindM_def)
  ultimately show ?case by simp
qed

lemma filter_loop_run:
  "\<forall>x\<in>set vs. extends_pairs (ap f [x]) \<Longrightarrow> chain (h_pairs s) l vs t \<Longrightarrow> \<not> pair_val t \<Longrightarrow> length vs < n \<Longrightarrow>
     filter_loop n ap f l s = bindM (mapM (\<lambda>x. ap f [x]) vs)
       (\<lambda>ks. retM (map fst (filter (\<lambda>(x, k). \<not> v_falsy k) (zip vs ks)))) s"
proof (induction vs arbitrary: l n s)
  case Nil
  then obtain k where "n = Suc k" by (cases n) auto
  with Nil show ?case by (cases l) auto
next
  case (Cons x xs)
  obtain k where n: "n = Suc k" "length xs < k" using Cons.prems(4) by (cases n) auto
  obtain p where p: "l = VPair p" "p < length (h_pairs s)" "fst (h_pairs s ! p) = x" "chain (h_pairs s) (snd (h_pairs s ! p)) xs t"
    using Cons.prems(2) by (auto split: val.splits)
  have ext: "extends_pairs (ap f [x])" using Cons.prems(1) by simp
  let ?rest = "\<lambda>r. bindM (mapM (\<lambda>x. ap f [x]) xs) (\<lambda>ks. retM (map fst (filter (\<lambda>(x, k). \<not> v_falsy k) (zip (x # xs) (r # ks)))))"
  have "bindM (derefM h_pairs p) (\<lambda>c'. bindM (filter_loop k ap f (snd c'))
      (\<lambda>rest. retM (if v_falsy r then rest else fst (h_pairs s ! p) # rest))) s' = ?rest r s'" if run: "ap f [x] s = Done r s'" for r s'
  proof -
    obtain new where new: "h_pairs s' = h_pairs s @ new" using ext run unfolding extends_pairs_def by blast
    have same: "h_pairs s' ! p = h_pairs s ! p" "p < length (h_pairs s')" using p(2) new by (simp_all add: nth_append)
    have "chain (h_pairs s') (snd (h_pairs s ! p)) xs t" using chain_more [OF p(4)] new by simp
    from Cons.IH [OF _ this Cons.prems(3) n(2)] Cons.prems(1)
    have IH: "filter_loop k ap f (snd (h_pairs s ! p)) s' = bindM (mapM (\<lambda>x. ap f [x]) xs)
       (\<lambda>ks. retM (map fst (filter (\<lambda>(x, k). \<not> v_falsy k) (zip xs ks)))) s'" by simp
    show ?thesis using same p(3) by (simp add: bindM_def IH split: run.split)
  qed
  then have "bindM (ap f [x]) (\<lambda>r. bindM (derefM h_pairs p) (\<lambda>c'. bindM (filter_loop k ap f (snd c'))
      (\<lambda>rest. retM (if v_falsy r then rest else fst (h_pairs s ! p) # rest)))) s = bindM (ap f [x]) ?rest s"
    by (intro bind_state_cong) blast
  moreover have "filter_loop n ap f l s = bindM (ap f [x]) (\<lambda>r. bindM (derefM h_pairs p) (\<lambda>c'. bindM (filter_loop k ap f (snd c'))
      (\<lambda>rest. retM (if v_falsy r then rest else fst (h_pairs s ! p) # rest)))) s"
    using p by (simp add: n bindM_def)
  ultimately show ?case by (simp add: bindM_assoc)
qed

text \<open>\<open>map\<close>, \<open>for-each\<close> and \<open>filter\<close> call their procedure once per item, first to last, each call in the
  state the previous one left; an error, an escape or an exit of one call ends them.  \<open>map\<close> lists the
  results, \<open>filter\<close> the items whose result is not \<open>#f\<close>.\<close>

theorem list_procedures_in_order:
  assumes "\<forall>x\<in>set vs. extends_pairs (ap f [x])" "chain (h_pairs s) l vs t" "\<not> pair_val t" "length vs < n"
  shows "bi_map n ap [f, l] s = bindM (mapM (\<lambda>x. ap f [x]) vs) (\<lambda>rs. cons_list rs VNil) s \<and>
    bi_for_each n ap [f, l] s = bindM (mapM (\<lambda>x. ap f [x]) vs) (\<lambda>rs. retM VNil) s \<and>
    bi_filter n ap [f, l] s = bindM (mapM (\<lambda>x. ap f [x]) vs)
      (\<lambda>ks. cons_list (map fst (filter (\<lambda>(x, k). \<not> v_falsy k) (zip vs ks))) VNil) s"
proof -
  note loop = map_loop_run [of vs ap f s l t n, OF assms] and floop = filter_loop_run [of vs ap f s l t n, OF assms]
  have "bi_map n ap [f, l] s = bindM (mapM (\<lambda>x. ap f [x]) vs) (\<lambda>rs. cons_list rs VNil) s"
    using loop by (simp add: bi_map_def bindM_def)
  moreover have "bi_for_each n ap [f, l] s = bindM (mapM (\<lambda>x. ap f [x]) vs) (\<lambda>rs. retM VNil) s"
    using loop by (simp add: bi_for_each_def bindM_def)
  moreover have "bi_filter n ap [f, l] s = bindM (mapM (\<lambda>x. ap f [x]) vs)
      (\<lambda>ks. cons_list (map fst (filter (\<lambda>(x, k). \<not> v_falsy k) (zip vs ks))) VNil) s"
    using floop by (simp add: bi_filter_def bindM_def split: run.split)
  ultimately show ?thesis by blast
qed

lemma list_procedures_in_order_witness:
  "bi_map 3 (\<lambda>f args. retM (hd args)) [VNil, VPair 0] list_state = cons_list [VInt 1, VInt 2] VNil list_state \<and>
   bi_filter 3 (\<lambda>f args. retM (VBool (hd args = VInt 2))) [VNil, VPair 0] list_state = cons_list [VInt 2] VNil list_state"
  using list_procedures_in_order [OF _ list_state_chain, of "\<lambda>f args. retM (hd args)" VNil 3]
    list_procedures_in_order [OF _ list_state_chain, of "\<lambda>f args. retM (VBool (hd args = VInt 2))" VNil 3]
  by (simp add: extends_pairs_def v_falsy_def bindM_def del: cons_list.simps alloc_run)

subsection \<open>Searches\<close>

lemma member_loop_run:
  "\<forall>x\<in>set vs. m x s = Done (eq x) s \<Longrightarrow> chain (h_pairs s) l vs t \<Longrightarrow> \<not> pair_val t \<Longrightarrow> length vs < n \<Longrightarrow>
     \<exists>v. member_loop n m l s = Done v s \<and>
       (if \<exists>x\<in>set vs. eq x then chain (h_pairs s) v (dropWhile (\<lambda>x. \<not> eq x) vs) t else v = VBool False)"
proof (induction vs arbitrary: l n)
  case Nil
  then obtain k where "n = Suc k" by (cases n) auto
  with Nil show ?case by (cases l) auto
next
  case (Cons x xs)
  obtain k where n: "n = Suc k" "length xs < k" using Cons.prems(4) by (cases n) auto
  obtain p where p: "l = VPair p" "p < length (h_pairs s)" "fst (h_pairs s ! p) = x" "chain (h_pairs s) (snd (h_pairs s ! p)) xs t"
    using Cons.prems(2) by (auto split: val.splits)
  have run: "member_loop n m l s = (if eq x then Done l s else member_loop k m (snd (h_pairs s ! p)) s)"
    using p Cons.prems(1) by (simp add: n bindM_def)
  show ?case
  proof (cases "eq x")
    case True
    with run Cons.prems(2) show ?thesis by simp
  next
    case False
    have "\<exists>v. member_loop k m (snd (h_pairs s ! p)) s = Done v s \<and>
       (if \<exists>x\<in>set xs. eq x then chain (h_pairs s) v (dropWhile (\<lambda>x. \<not> eq x) xs) t else v = VBool False)"
      using Cons.IH [OF _ p(4) Cons.prems(3) n(2)] Cons.prems(1) by simp
    moreover have "(\<exists>x\<in>set (x # xs). eq x) = (\<exists>x\<in>set xs. eq x)" "dropWhile (\<lambda>x. \<not> eq x) (x # xs) = dropWhile (\<lambda>x. \<not> eq x) xs"
      using False by simp_all
    ultimately show ?thesis using run False by (simp only: if_False)
  qed
qed

lemma assoc_loop_run:
  "\<forall>(e, x)\<in>set es. e < length (h_pairs s) \<and> fst (h_pairs s ! e) = x \<and> m x s = Done (eq x) s \<Longrightarrow>
   chain (h_pairs s) l (map (VPair \<circ> fst) es) t \<Longrightarrow> \<not> pair_val t \<Longrightarrow> length es < n \<Longrightarrow>
     assoc_loop n m l s = Done (case find (\<lambda>(e, x). eq x) es of Some (e, x) \<Rightarrow> VPair e | None \<Rightarrow> VBool False) s"
proof (induction es arbitrary: l n)
  case Nil
  then obtain k where "n = Suc k" by (cases n) auto
  with Nil show ?case by (cases l) auto
next
  case (Cons ex es)
  obtain e x where ex: "ex = (e, x)" by fastforce
  obtain k where n: "n = Suc k" "length es < k" using Cons.prems(4) by (cases n) auto
  obtain p where p: "l = VPair p" "p < length (h_pairs s)" "fst (h_pairs s ! p) = VPair e"
    "chain (h_pairs s) (snd (h_pairs s ! p)) (map (VPair \<circ> fst) es) t"
    using Cons.prems(2) ex by (auto simp: comp_def split: val.splits)
  have "e < length (h_pairs s)" "fst (h_pairs s ! e) = x" "m x s = Done (eq x) s" using Cons.prems(1) ex by auto
  then have run: "assoc_loop n m l s = (if eq x then Done (VPair e) s else assoc_loop k m (snd (h_pairs s ! p)) s)"
    using p by (simp add: n bindM_def)
  show ?case
    using run Cons.IH [OF _ p(4) Cons.prems(3) n(2)] Cons.prems(1) ex by auto
qed

text \<open>Where the comparison with every item answers, \<open>memq\<close> and \<open>member\<close> return the rest of the list from
  the first item that matches, and \<open>assq\<close> and \<open>assoc\<close> the first entry whose key does; \<open>#f\<close> when none does.\<close>

theorem searches_find_first:
  assumes l: "chain (h_pairs s) l vs t" "\<not> pair_val t"
    and m: "\<forall>x\<in>set vs. matches A ap [k, l] x s = Done (eq x) s" "length vs < n"
    and al: "chain (h_pairs s) al (map (VPair \<circ> fst) es) u" "\<not> pair_val u"
    and e: "\<forall>(e, x)\<in>set es. e < length (h_pairs s) \<and> fst (h_pairs s ! e) = x \<and> creme_eqv A x key s = Done (eqv x) s"
  shows "(\<exists>v. bi_member n A ap [k, l] s = Done v s \<and>
      (if \<exists>x\<in>set vs. eq x then chain (h_pairs s) v (dropWhile (\<lambda>x. \<not> eq x) vs) t else v = VBool False)) \<and>
    bi_assq A [key, al] s = Done (case find (\<lambda>(e, x). eqv x) es of Some (e, x) \<Rightarrow> VPair e | None \<Rightarrow> VBool False) s"
proof
  show "\<exists>v. bi_member n A ap [k, l] s = Done v s \<and>
      (if \<exists>x\<in>set vs. eq x then chain (h_pairs s) v (dropWhile (\<lambda>x. \<not> eq x) vs) t else v = VBool False)"
    using member_loop_run [of vs "matches A ap [k, l]" s eq l t n, OF m(1) l m(2)] by (simp add: bi_member_def)
  have "length es < Suc (length (h_pairs s))" using chain_length [OF al] by simp
  from assoc_loop_run [of es s "\<lambda>x. creme_eqv A x key" eqv al u, OF e al this]
  show "bi_assq A [key, al] s = Done (case find (\<lambda>(e, x). eqv x) es of Some (e, x) \<Rightarrow> VPair e | None \<Rightarrow> VBool False) s"
    by (simp add: bi_assq_def)
qed

text \<open>\<open>(member 2 '(1 2))\<close> and \<open>(assq 'b '((a . 1) (b . 2)))\<close>.\<close>

definition alist_state :: vm where
  "alist_state = vm0\<lparr>h_pairs := [(VInt 1, VPair 1), (VInt 2, VNil), (VPair 4, VPair 3), (VPair 5, VNil),
     (VSym ''a'', VInt 1), (VSym ''b'', VInt 2)]\<rparr>"

lemma searches_find_first_witness:
  "(\<exists>v. bi_member 9 reference_arith (\<lambda>_ _. stuckM) [VInt 2, VPair 0] alist_state = Done v alist_state \<and>
      chain (h_pairs alist_state) v [VInt 2] VNil) \<and>
   bi_assq reference_arith [VSym ''b'', VPair 2] alist_state = Done (VPair 5) alist_state"
proof -
  let ?ap = "\<lambda>_ _. stuckM :: val M"
  have l: "chain (h_pairs alist_state) (VPair 0) [VInt 1, VInt 2] VNil"
    and al: "chain (h_pairs alist_state) (VPair 2) (map (VPair \<circ> fst) [(4, VSym ''a''), (5, VSym ''b'')]) VNil"
    by (simp_all add: alist_state_def)
  have m: "\<forall>x\<in>set [VInt 1, VInt 2]. matches reference_arith ?ap [VInt 2, VPair 0] x alist_state = Done (x = VInt 2) alist_state"
    by (simp add: matches_def creme_equal_def equal_fuel_def)
  have e: "\<forall>(e, x)\<in>set [(4, VSym ''a''), (5, VSym ''b'')]. e < length (h_pairs alist_state) \<and> fst (h_pairs alist_state ! e) = x \<and>
      creme_eqv reference_arith x (VSym ''b'') alist_state = Done (x = VSym ''b'') alist_state"
    by (simp add: alist_state_def)
  have t: "\<not> pair_val VNil" and n: "length [VInt 1, VInt 2] < 9" by simp_all
  from searches_find_first [of alist_state "VPair 0" "[VInt 1, VInt 2]" VNil reference_arith ?ap "VInt 2"
      "\<lambda>x. x = VInt 2" 9, OF l t m n al t, of "VSym ''b''" "\<lambda>x. x = VSym ''b''", OF e]
  show ?thesis by (simp del: chain.simps)
qed

end
