(* ===== verification/Fuel_Props.thy ===== *)
theory Fuel_Props
  imports Builtin_Table
begin

text \<open>
  Fuel is only a bound.  \<open>m \<sqsubseteq> m'\<close>, written \<open>approx m m'\<close>: wherever \<open>m\<close> does not run out of fuel, \<open>m'\<close> does the
  same.  Every function of the VM that calls back into it is monotone in the function it calls, so the
  loop is monotone in its fuel: a result that some amount of fuel gives is given by every larger
  amount.
\<close>

named_theorems approx_rules \<open>monotonicity of the functions of the VM\<close>

definition approx :: "'a M \<Rightarrow> 'a M \<Rightarrow> bool" where
  "approx m m' \<longleftrightarrow> (\<forall>s. m s = Timeout \<or> m s = m' s)"

lemma approx_refl [approx_rules]: "approx m m"
  by (simp add: approx_def)

lemma approx_trans: "approx m m' \<Longrightarrow> approx m' m'' \<Longrightarrow> approx m m''"
  by (simp add: approx_def) metis

lemma approx_bind [approx_rules]:
  assumes "approx m m'" "\<And>x. approx (f x) (f' x)"
  shows "approx (bindM m f) (bindM m' f')"
  unfolding approx_def
proof (rule allI)
  fix s
  show "bindM m f s = Timeout \<or> bindM m f s = bindM m' f' s"
    using assms(1) [unfolded approx_def, rule_format, of s] assms(2) [unfolded approx_def]
    by (cases "m s") (auto simp: bindM_def split: run.split)
qed

lemma approx_if [approx_rules]:
  "(b \<Longrightarrow> approx m m') \<Longrightarrow> (\<not> b \<Longrightarrow> approx n n') \<Longrightarrow> approx (if b then m else n) (if b then m' else n')"
  by simp

lemma approx_state:
  "(\<And>t. approx (f t) (f' t)) \<Longrightarrow> approx (\<lambda>s. f s s) (\<lambda>s. f' s s)"
  by (auto simp: approx_def)

lemma approx_at: "approx m m' \<Longrightarrow> m s = Timeout \<or> m s = m' s"
  by (simp add: approx_def)

lemma approx_forM [approx_rules]:
  "(\<And>x. approx (f x) (f' x)) \<Longrightarrow> approx (forM xs f) (forM xs f')"
  by (induction xs) (auto intro!: approx_rules)

lemma approx_mapM [approx_rules]:
  "(\<And>x. approx (f x) (f' x)) \<Longrightarrow> approx (mapM f xs) (mapM f' xs)"
  by (induction xs) (auto intro!: approx_rules)

text \<open>\<open>ap\<close> approximates \<open>ap'\<close> on every call.\<close>

definition approx_ap :: "('b \<Rightarrow> val list \<Rightarrow> 'a M) \<Rightarrow> ('b \<Rightarrow> val list \<Rightarrow> 'a M) \<Rightarrow> bool" where
  "approx_ap ap ap' \<longleftrightarrow> (\<forall>f args. approx (ap f args) (ap' f args))"

lemma approx_apD: "approx_ap ap ap' \<Longrightarrow> approx (ap f args) (ap' f args)"
  by (simp add: approx_ap_def)

subsection \<open>The functions of the VM\<close>

lemma approx_unwind_action [approx_rules]:
  assumes ap: "approx_ap ap ap'"
  shows "approx (run_unwind_action ap act) (run_unwind_action ap' act)"
  by (cases act) (auto simp: run_unwind_action_def intro!: approx_bind approx_refl approx_apD [OF ap])

lemma approx_drain [approx_rules]:
  assumes ap: "approx_ap ap ap'"
  shows "n \<le> n' \<Longrightarrow> approx (drain_unwind n ap mark) (drain_unwind n' ap' mark)"
proof (induction n arbitrary: n')
  case 0
  then show ?case by (cases n') (auto simp: approx_def)
next
  case (Suc n)
  then obtain m where m: "n' = Suc m" "n \<le> m" by (cases n') auto
  have "approx (bindM pop_unwind (\<lambda>act. bindM (run_unwind_action ap act) (\<lambda>_. drain_unwind n ap mark)))
      (bindM pop_unwind (\<lambda>act. bindM (run_unwind_action ap' act) (\<lambda>_. drain_unwind m ap' mark)))"
    using Suc.IH [OF m(2)] ap by (intro approx_bind approx_refl approx_unwind_action)
  then show ?case by (simp add: m(1) approx_def)
qed

lemma approx_drain_handler [approx_rules]:
  assumes ap: "approx_ap ap ap'"
  shows "n \<le> n' \<Longrightarrow> approx (drain_handler n ap i) (drain_handler n' ap' i)"
proof (induction n arbitrary: n')
  case 0
  then show ?case by (cases n') (auto simp: approx_def)
next
  case (Suc n)
  then obtain m where m: "n' = Suc m" "n \<le> m" by (cases n') auto
  have "approx (bindM pop_unwind (\<lambda>act. bindM (run_unwind_action ap act) (\<lambda>_. drain_handler n ap i)))
      (bindM pop_unwind (\<lambda>act. bindM (run_unwind_action ap' act) (\<lambda>_. drain_handler m ap' i)))"
    using Suc.IH [OF m(2)] ap by (intro approx_bind approx_refl approx_unwind_action)
  then show ?case by (simp add: m(1) approx_def)
qed

lemma approx_invoke [approx_rules]:
  assumes "approx_ap ap ap'" "n \<le> n'"
  shows "approx (invoke_continuation n ap k v) (invoke_continuation n' ap' k v)"
  unfolding invoke_continuation_def by (intro approx_bind approx_refl approx_drain assms)

lemma approx_exec_cxr [approx_rules]:
  assumes "approx_ap ap ap'"
  shows "approx (exec_cxr ap ch v code d) (exec_cxr ap' ch v code d)"
  unfolding exec_cxr_def
  by (rule approx_state, rule approx_bind [OF approx_refl])
    (auto split: option.split intro!: approx_bind approx_refl approx_apD [OF assms])

lemma approx_dispatch_call [approx_rules]:
  assumes "approx_ap ap ap'" "n \<le> n'" "approx_ap bt bt'"
  shows "approx (dispatch_call n ap bt ins callee tail td) (dispatch_call n' ap' bt' ins callee tail td)"
  unfolding dispatch_call_def Let_def
  by (rule approx_bind [OF approx_refl])
    (cases callee; simp only: val.case; intro approx_bind approx_refl approx_invoke approx_apD assms)

lemma approx_apply_setup [approx_rules]:
  assumes "approx_ap ap ap'" "n \<le> n'" "approx_ap bt bt'"
  shows "approx (apply_setup n ap bt fn args) (apply_setup n' ap' bt' fn args)"
  unfolding apply_setup_def Let_def
  by (cases fn; simp only: val.case; intro approx_bind approx_refl approx_invoke approx_apD assms)

lemma approx_resume [approx_rules]:
  assumes "approx_ap ap ap'" "n \<le> n'"
  shows "approx (resume_handler n ap) (resume_handler n' ap')"
  unfolding resume_handler_def by (intro approx_bind approx_refl approx_drain_handler assms)

subsection \<open>The instructions\<close>

text \<open>The same for the bodies, which are options: both know the opcode or neither does.\<close>

definition approx_opt :: "'a M option \<Rightarrow> 'a M option \<Rightarrow> bool" where
  "approx_opt a b \<longleftrightarrow> (case a of None \<Rightarrow> b = None | Some m \<Rightarrow> (case b of None \<Rightarrow> False | Some m' \<Rightarrow> approx m m'))"

lemma approx_opt_simps [simp]:
  "approx_opt None None" "approx_opt (Some m) (Some m') = approx m m'"
  by (simp_all add: approx_opt_def)

lemma approx_opt_refl: "approx_opt a a"
  by (cases a) (simp_all add: approx_refl)

lemma approx_nxt: "approx m m' \<Longrightarrow> approx_opt (nxt m) (nxt m')"
  by (simp add: nxt_def approx_bind approx_refl)

lemma approx_opt_if:
  "(b \<Longrightarrow> approx_opt m m') \<Longrightarrow> (\<not> b \<Longrightarrow> approx_opt n n') \<Longrightarrow> approx_opt (if b then m else n) (if b then m' else n')"
  by simp

lemma approx_opt_Some: "approx m m' \<Longrightarrow> approx_opt (Some m) (Some m')"
  by simp

lemma approx_forms:
  assumes ap: "approx_ap ap ap'"
  shows "approx_opt (exec_forms ap fr ins) (exec_forms ap' fr ins)"
proof -
  have "approx (op_abs ap fr ins) (op_abs ap' fr ins)" "approx (op_cmpzero ap fr ins) (op_cmpzero ap' fr ins)"
    unfolding op_abs_def op_cmpzero_def
    by (auto intro!: approx_bind approx_refl approx_apD [OF ap] split: val.split option.split)
  then show ?thesis unfolding exec_forms_def Let_def
    by (intro approx_opt_if approx_nxt approx_opt_refl approx_bind approx_refl approx_exec_cxr ap)
qed

lemma approx_exec_unwind:
  assumes ap: "approx_ap ap ap'"
  shows "approx_opt (exec_unwind ap act fr ins) (exec_unwind ap' act fr ins)"
proof -
  have "approx (converted ap pv) (converted ap' pv)" for pv
    by (cases pv; cases "fst pv") (auto simp: converted_def intro!: approx_bind approx_refl approx_apD [OF ap])
  then have "approx (op_parampush ap fr ins) (op_parampush ap' fr ins)"
    unfolding op_parampush_def by (intro approx_bind approx_mapM approx_refl)
  then show ?thesis unfolding exec_unwind_def Let_def
    by (intro approx_opt_if approx_nxt approx_opt_refl approx_bind approx_refl approx_unwind_action ap)
qed

lemma approx_case_option:
  "approx m m' \<Longrightarrow> (\<And>v. approx (f v) (f' v)) \<Longrightarrow>
     approx (case r of None \<Rightarrow> m | Some v \<Rightarrow> f v) (case r of None \<Rightarrow> m' | Some v \<Rightarrow> f' v)"
  by (cases r) simp_all

lemma approx_opt_case:
  "approx_opt a b \<Longrightarrow> approx (case a of None \<Rightarrow> m | Some x \<Rightarrow> x) (case b of None \<Rightarrow> m | Some x \<Rightarrow> x)"
  by (auto simp: approx_opt_def approx_refl split: option.splits)

text \<open>The calls of an instruction.\<close>

definition approx_call :: "caller \<Rightarrow> caller \<Rightarrow> bool" where
  "approx_call c c' \<longleftrightarrow> (\<forall>ins v t td. approx (c ins v t td) (c' ins v t td))"

lemma approx_callD: "approx_call c c' \<Longrightarrow> approx (c ins v t td) (c' ins v t td)"
  by (simp add: approx_call_def)

lemma approx_exec_call:
  assumes c: "approx_call c c'"
  shows "approx_opt (exec_call c td fr ins) (exec_call c' td fr ins)"
  unfolding exec_call_def tail_call_def Let_def
  by (intro approx_opt_if approx_opt_Some approx_opt_refl approx_bind approx_if approx_refl approx_callD [OF c])

lemma approx_exec_quick:
  assumes c: "approx_call c c'" and bt: "approx_ap bt bt'"
  shows "approx_opt (exec_quick A bt c td fr ins) (exec_quick A bt' c' td fr ins)"
proof -
  have path: "approx_opt (quick_path A bt fr ins cell) (quick_path A bt' fr ins cell)" for cell
    unfolding quick_path_def Let_def
    by (intro approx_opt_if approx_opt_Some approx_opt_refl approx_bind approx_if approx_refl approx_apD [OF bt])
  show ?thesis unfolding exec_quick_def
    by (intro approx_opt_if approx_opt_Some approx_opt_refl approx_bind approx_case_option
        approx_opt_case path approx_refl approx_callD [OF c])
qed

lemma approx_first_some:
  "list_all2 approx_opt xs ys \<Longrightarrow> approx_opt (first_some xs) (first_some ys)"
proof (induction rule: list_all2_induct)
  case (Cons x xs y ys)
  then show ?case by (cases x; cases y) (simp_all add: approx_opt_def)
qed simp

lemma approx_step:
  assumes "approx_ap ap ap'" "n \<le> n'" "approx_ap bt bt'"
  shows "approx (step A bt ap n act td) (step A bt' ap' n' act td)"
proof -
  have c: "approx_call (dispatch_call n ap bt) (dispatch_call n' ap' bt')"
    using assms by (simp add: approx_call_def approx_dispatch_call)
  show ?thesis unfolding step_def exec_instruction_def Let_def
    by (intro approx_bind approx_refl approx_opt_case approx_first_some)
      (simp add: approx_opt_refl approx_forms [OF assms(1)] approx_exec_call [OF c]
        approx_exec_quick [OF c assms(3)] approx_exec_unwind [OF assms(1)])
qed

subsection \<open>The loop\<close>

text \<open>A builtin table that is monotone in its fuel and in the function it calls.\<close>

definition mono_builtins :: "builtins \<Rightarrow> bool" where
  "mono_builtins B \<longleftrightarrow> (\<forall>n n' ap ap'. n \<le> n' \<longrightarrow> approx_ap ap ap' \<longrightarrow> approx_ap (B n ap) (B n' ap'))"

definition approx_run :: "'a run \<Rightarrow> 'a run \<Rightarrow> bool" where
  "approx_run r r' \<longleftrightarrow> r = Timeout \<or> r = r'"

lemma approx_run_at: "approx m m' \<Longrightarrow> approx_run (m s) (m' s)"
  by (simp add: approx_def approx_run_def)

lemma approx_runI: "r \<noteq> Timeout \<Longrightarrow> r = r' \<Longrightarrow> approx_run r r'"
  by (simp add: approx_run_def)

lemma approx_run_refl [simp]: "approx_run r r"
  by (simp add: approx_run_def)

lemma approx_run_trans: "approx_run a b \<Longrightarrow> approx_run b c \<Longrightarrow> approx_run a c"
  by (auto simp: approx_run_def)

lemma run_loop_Timeout [simp]: "run_loop n A B act td Timeout = Timeout"
  by (cases n) simp_all

lemma run_loop_arg: "approx_run r r' \<Longrightarrow> approx_run (run_loop n A B act td r) (run_loop n A B act td r')"
  by (auto simp: approx_run_def)

lemma loop_mono:
  assumes B: "mono_builtins B"
  shows "n \<le> n' \<Longrightarrow> (\<forall>act td r. approx_run (run_loop n A B act td r) (run_loop n' A B act td r)) \<and>
    approx_ap (creme_apply n A B) (creme_apply n' A B)"
proof (induction n arbitrary: n')
  case 0
  have "approx_run (run_loop 0 A B act td r) (run_loop n' A B act td r)" for act td r
  proof (cases r)
    case (Done v s)
    then show ?thesis by (cases v; cases n') (simp_all add: approx_run_def)
  next
    case (Longjmp b s)
    then show ?thesis by (cases n') (simp_all add: approx_run_def)
  qed (cases n'; simp)+
  moreover have "creme_apply 0 A B f args s = Timeout" for f args s by simp
  ultimately show ?case by (simp add: approx_ap_def approx_def)
next
  case (Suc n)
  then obtain m where m: "n' = Suc m" "n \<le> m" by (cases n') auto
  from Suc.IH [OF m(2)] have loop: "approx_run (run_loop n A B act td r) (run_loop m A B act td r)"
    and ap: "approx_ap (creme_apply n A B) (creme_apply m A B)" for act td r by auto
  have bt: "approx_ap (B n (creme_apply n A B)) (B m (creme_apply m A B))"
    using B m(2) ap by (simp add: mono_builtins_def)
  have loops: "approx_run (run_loop n A B act td r) (run_loop m A B act td r')" if "approx_run r r'" for act td r r'
    using approx_run_trans [OF run_loop_arg [OF that] loop] .
  have run: "approx_run (run_loop (Suc n) A B act td r) (run_loop n' A B act td r)" for act td r
  proof (cases r)
    case (Done v s)
    then show ?thesis
      using loops [OF approx_run_at [OF approx_step [OF ap m(2) bt]], of act td A act td s]
      by (cases v) (simp_all add: m(1))
  next
    case (Longjmp b s)
    then show ?thesis
      using loops [OF approx_run_at [OF approx_resume [OF ap m(2)]], of act td s] by (simp add: m(1))
  qed (simp_all add: m(1))
  have "approx (creme_apply (Suc n) A B f args) (creme_apply n' A B f args)" for f args
    unfolding approx_def
  proof
    fix s
    let ?k = "\<lambda>n r. case r of Inl v \<Rightarrow> retM v
        | Inr td \<Rightarrow> (\<lambda>s'. run_loop n A B (vm_next_act s') td (Done None (s'\<lparr>vm_next_act := vm_next_act s' + 1\<rparr>)))"
    have "approx (?k n r) (?k m r)" for r
      using loop by (auto simp: approx_def approx_run_def split: sum.split)
    then have *: "approx (bindM (apply_setup n (creme_apply n A B) (B n (creme_apply n A B)) f args) (?k n))
        (bindM (apply_setup m (creme_apply m A B) (B m (creme_apply m A B)) f args) (?k m))"
      by (intro approx_bind approx_apply_setup ap bt m(2))
    show "creme_apply (Suc n) A B f args s = Timeout \<or>
        creme_apply (Suc n) A B f args s = creme_apply n' A B f args s"
      unfolding m(1) creme_apply.simps by (rule approx_at [OF *])
  qed
  with run show ?case by (simp add: approx_ap_def del: creme_apply.simps run_loop.simps)
qed

subsection \<open>The builtins of the model\<close>

lemma approx_loops:
  assumes ap: "approx_ap ap ap'"
  shows "n \<le> n' \<Longrightarrow> approx (map_loop n ap f cs) (map_loop n' ap' f cs)"
    and "n \<le> n' \<Longrightarrow> approx (filter_loop n ap f v) (filter_loop n' ap' f v)"
proof (induction n arbitrary: n' cs v)
  case 0
  { case 1 show ?case by (simp add: approx_def) next case 2 show ?case by (simp add: approx_def) }
next
  case (Suc n)
  { case 1
    then obtain m where m: "n' = Suc m" "n \<le> m" by (cases n') auto
    show ?case unfolding m(1) map_loop.simps
      by (auto intro!: approx_if approx_bind approx_refl approx_apD [OF ap] Suc.IH(1) [OF m(2)])
  next
    case 2
    then obtain m where m: "n' = Suc m" "n \<le> m" by (cases n') auto
    show ?case unfolding m(1) filter_loop.simps
      by (cases v; simp only: val.case;
          intro approx_bind approx_refl approx_apD [OF ap] Suc.IH(2) [OF m(2)]) }
qed

lemma approx_searches:
  assumes f: "\<And>x. approx (f x) (f' x)"
  shows "n \<le> n' \<Longrightarrow> approx (assoc_loop n f v) (assoc_loop n' f' v)"
    and "n \<le> n' \<Longrightarrow> approx (member_loop n f v) (member_loop n' f' v)"
proof (induction n arbitrary: n' v)
  case 0
  { case 1 show ?case by (simp add: approx_def) next case 2 show ?case by (simp add: approx_def) }
next
  case (Suc n)
  { case 1
    then obtain m where m: "n' = Suc m" "n \<le> m" by (cases n') auto
    have hit: "approx (case x of VPair e \<Rightarrow> bindM (derefM h_pairs e) (\<lambda>entry. f (fst entry)) | _ \<Rightarrow> retM False)
        (case x of VPair e \<Rightarrow> bindM (derefM h_pairs e) (\<lambda>entry. f' (fst entry)) | _ \<Rightarrow> retM False)" for x
      by (cases x; simp only: val.case; intro approx_bind approx_refl f)
    show ?case unfolding m(1) assoc_loop.simps
      by (cases v; simp only: val.case;
          intro approx_bind approx_if approx_refl hit Suc.IH(1) [OF m(2)])
  next
    case 2
    then obtain m where m: "n' = Suc m" "n \<le> m" by (cases n') auto
    show ?case unfolding m(1) member_loop.simps
      by (cases v; simp only: val.case;
          intro approx_bind approx_if approx_refl f Suc.IH(2) [OF m(2)]) }
qed

lemma approx_matches:
  assumes ap: "approx_ap ap ap'"
  shows "approx (matches A ap args x) (matches A ap' args x)"
  unfolding matches_def by (intro approx_if approx_bind approx_refl approx_apD [OF ap])

lemma approx_call_cc:
  assumes ap: "approx_ap ap ap'"
  shows "approx (bi_call_cc ap args) (bi_call_cc ap' args)"
  unfolding bi_call_cc_def
proof (rule approx_bind [OF approx_refl])
  show "approx (\<lambda>s. let k = length (h_conts s); b = vm_next_act s in
        case ap (args ! 0) [VContinuation k]
          (s\<lparr>h_conts := h_conts s @ [\<lparr> k_buf = b, k_depth = vm_depth s, k_unwind_mark = vm_n_unwind s,
              k_result = VNil \<rparr>], vm_next_act := b + 1\<rparr>) of
          Longjmp b' s' \<Rightarrow>
            if b' = b then bindM (derefM h_conts k) (\<lambda>c. retM (k_result c)) s' else Longjmp b' s'
        | r \<Rightarrow> r)
      (\<lambda>s. let k = length (h_conts s); b = vm_next_act s in
        case ap' (args ! 0) [VContinuation k]
          (s\<lparr>h_conts := h_conts s @ [\<lparr> k_buf = b, k_depth = vm_depth s, k_unwind_mark = vm_n_unwind s,
              k_result = VNil \<rparr>], vm_next_act := b + 1\<rparr>) of
          Longjmp b' s' \<Rightarrow>
            if b' = b then bindM (derefM h_conts k) (\<lambda>c. retM (k_result c)) s' else Longjmp b' s'
        | r \<Rightarrow> r)"
    unfolding approx_def Let_def
  proof
    fix s :: vm
    let ?s = "s\<lparr>h_conts := h_conts s @ [\<lparr> k_buf = vm_next_act s, k_depth = vm_depth s,
      k_unwind_mark = vm_n_unwind s, k_result = VNil \<rparr>], vm_next_act := vm_next_act s + 1\<rparr>"
    from approx_at [OF approx_apD [OF ap], of "args ! 0" "[VContinuation (length (h_conts s))]" ?s]
    show "(case ap (args ! 0) [VContinuation (length (h_conts s))] ?s of
          Longjmp b' s' \<Rightarrow> if b' = vm_next_act s
            then bindM (derefM h_conts (length (h_conts s))) (\<lambda>c. retM (k_result c)) s' else Longjmp b' s'
        | r \<Rightarrow> r) = Timeout \<or>
      (case ap (args ! 0) [VContinuation (length (h_conts s))] ?s of
          Longjmp b' s' \<Rightarrow> if b' = vm_next_act s
            then bindM (derefM h_conts (length (h_conts s))) (\<lambda>c. retM (k_result c)) s' else Longjmp b' s'
        | r \<Rightarrow> r) =
      (case ap' (args ! 0) [VContinuation (length (h_conts s))] ?s of
          Longjmp b' s' \<Rightarrow> if b' = vm_next_act s
            then bindM (derefM h_conts (length (h_conts s))) (\<lambda>c. retM (k_result c)) s' else Longjmp b' s'
        | r \<Rightarrow> r)"
      by (elim disjE) simp_all
  qed
qed

lemma approx_force:
  assumes ap: "approx_ap ap ap'"
  shows "approx (bi_force ap args) (bi_force ap' args)"
proof -
  have "approx (case v of VPromise p \<Rightarrow> bindM (derefM h_promises p) (\<lambda>pr.
         bindM (if pr_forced pr then retM ()
                else bindM (ap (pr_thunk pr) []) (\<lambda>r.
                  bindM (set_promise p (\<lambda>x. x\<lparr>pr_cached := r\<rparr>)) (\<lambda>_.
                  set_promise p (\<lambda>x. x\<lparr>pr_forced := True\<rparr>)))) (\<lambda>_.
         bindM (derefM h_promises p) (\<lambda>pr'. retM (pr_cached pr'))))
     | _ \<Rightarrow> retM v)
    (case v of VPromise p \<Rightarrow> bindM (derefM h_promises p) (\<lambda>pr.
         bindM (if pr_forced pr then retM ()
                else bindM (ap' (pr_thunk pr) []) (\<lambda>r.
                  bindM (set_promise p (\<lambda>x. x\<lparr>pr_cached := r\<rparr>)) (\<lambda>_.
                  set_promise p (\<lambda>x. x\<lparr>pr_forced := True\<rparr>)))) (\<lambda>_.
         bindM (derefM h_promises p) (\<lambda>pr'. retM (pr_cached pr'))))
     | _ \<Rightarrow> retM v)" for v
    by (cases v; simp only: val.case; intro approx_bind approx_if approx_refl approx_apD [OF ap])
  then show ?thesis unfolding bi_force_def by (intro approx_bind approx_refl)
qed

lemma approx_call_with_values:
  assumes ap: "approx_ap ap ap'"
  shows "approx (bi_call_with_values ap args) (bi_call_with_values ap' args)"
proof -
  have "approx (case v of VValues p \<Rightarrow> bindM (derefM h_values p) (ap (args ! 1)) | _ \<Rightarrow> ap (args ! 1) [v])
      (case v of VValues p \<Rightarrow> bindM (derefM h_values p) (ap' (args ! 1)) | _ \<Rightarrow> ap' (args ! 1) [v])" for v
    by (cases v; simp only: val.case; intro approx_bind approx_refl approx_apD [OF ap])
  then show ?thesis
    unfolding bi_call_with_values_def by (intro approx_bind approx_refl approx_apD [OF ap])
qed

lemma approx_apply:
  assumes ap: "approx_ap ap ap'"
  shows "approx (bi_apply ap args) (bi_apply ap' args)"
  unfolding bi_apply_def
  by (intro approx_bind approx_refl) (auto split: prod.split intro!: approx_apD [OF ap])

lemma approx_calling_builtins:
  assumes "n \<le> n'" and ap: "approx_ap ap ap'"
  shows "approx (bi_assoc n A ap args) (bi_assoc n' A ap' args)"
    "approx (bi_member n A ap args) (bi_member n' A ap' args)"
    "approx (bi_map n ap args) (bi_map n' ap' args)"
    "approx (bi_for_each n ap args) (bi_for_each n' ap' args)"
    "approx (bi_filter n ap args) (bi_filter n' ap' args)"
    "approx (bi_dynamic_wind ap args) (bi_dynamic_wind ap' args)"
    "approx (bi_make_parameter ap args) (bi_make_parameter ap' args)"
    "approx (bi_raise A ap args) (bi_raise A ap' args)"
    "approx (bi_raise_continuable A ap args) (bi_raise_continuable A ap' args)"
    "approx (bi_with_exception_handler ap args) (bi_with_exception_handler ap' args)"
  unfolding bi_assoc_def bi_member_def bi_map_def bi_for_each_def bi_filter_def bi_dynamic_wind_def
    bi_make_parameter_def bi_raise_def bi_raise_continuable_def bi_with_exception_handler_def Let_def
  by (intro approx_bind approx_if approx_refl approx_apD [OF ap] approx_searches approx_matches
      approx_loops assms)+

text \<open>The builtins of treelists that call back.\<close>

lemma approx_find_match: "(\<And>x. approx (f x) (f' x)) \<Longrightarrow> approx (find_match f i xs) (find_match f' i xs)"
  by (induction xs arbitrary: i) (auto intro!: approx_bind approx_if approx_refl)

lemma approx_kept_items: "(\<And>x. approx (f x) (f' x)) \<Longrightarrow> approx (kept_items f xs) (kept_items f' xs)"
  by (induction xs) (auto intro!: approx_bind approx_refl)

lemma approx_find_first: "(\<And>x. approx (f x) (f' x)) \<Longrightarrow> approx (find_first f xs) (find_first f' xs)"
  by (induction xs) (auto intro!: approx_bind approx_if approx_refl)

lemma approx_tl_sift:
  assumes ap: "approx_ap ap ap'"
  shows "approx (tl_sift ap lt key xs) (tl_sift ap' lt key xs)"
  by (induction xs) (auto intro!: approx_bind approx_if approx_refl approx_apD [OF ap])

lemma approx_tl_sort: "approx_ap ap ap' \<Longrightarrow> approx (tl_insertion_sort ap xs lt) (tl_insertion_sort ap' xs lt)"
proof -
  assume ap: "approx_ap ap ap'"
  have "approx (tl_sort_from ap lt acc xs) (tl_sort_from ap' lt acc xs)" for acc
    by (induction xs arbitrary: acc) (auto intro!: approx_bind approx_refl approx_tl_sift [OF ap])
  then show ?thesis by (simp add: tl_insertion_sort_def)
qed

lemma approx_find_index:
  assumes ap: "approx_ap ap ap'"
  shows "approx (find_index A ap t x eql) (find_index A ap' t x eql)"
  unfolding find_index_def
  by (cases eql) (auto intro!: approx_bind approx_refl approx_find_match approx_apD [OF ap])

lemma approx_treelist_builtins:
  assumes ap: "approx_ap ap ap'"
  shows
    "approx (bi_treelist_map ap args) (bi_treelist_map ap' args)"
    "approx (bi_treelist_filter ap args) (bi_treelist_filter ap' args)"
    "approx (bi_treelist_for_each ap args) (bi_treelist_for_each ap' args)"
    "approx (bi_treelist_sort ap args) (bi_treelist_sort ap' args)"
    "approx (bi_treelist_member_p A ap args) (bi_treelist_member_p A ap' args)"
    "approx (bi_treelist_index_of A ap args) (bi_treelist_index_of A ap' args)"
    "approx (bi_treelist_find ap args) (bi_treelist_find ap' args)"
    "approx (bi_mutable_treelist_map_bang ap args) (bi_mutable_treelist_map_bang ap' args)"
    "approx (bi_mutable_treelist_sort_bang ap args) (bi_mutable_treelist_sort_bang ap' args)"
    "approx (bi_mutable_treelist_for_each ap args) (bi_mutable_treelist_for_each ap' args)"
    "approx (bi_mutable_treelist_member_p A ap args) (bi_mutable_treelist_member_p A ap' args)"
    "approx (bi_mutable_treelist_find ap args) (bi_mutable_treelist_find ap' args)"
  unfolding
    bi_treelist_map_def bi_treelist_filter_def bi_treelist_for_each_def bi_treelist_sort_def
    bi_treelist_member_p_def bi_treelist_index_of_def bi_treelist_find_def
    bi_mutable_treelist_map_bang_def bi_mutable_treelist_sort_bang_def bi_mutable_treelist_for_each_def
    bi_mutable_treelist_member_p_def bi_mutable_treelist_find_def
  by (intro approx_bind approx_if approx_refl approx_forM approx_mapM approx_apD [OF ap]
      approx_find_match approx_kept_items approx_find_first approx_tl_sort [OF ap] approx_find_index [OF ap])+

lemma approx_table:
  assumes "list_all2 (\<lambda>(f, m) (f', m'). f = f' \<and> approx (m args) (m' args)) xs ys"
  shows "approx_opt (map_option (\<lambda>m. m args) (map_of xs f)) (map_option (\<lambda>m. m args) (map_of ys f))"
  using assms by (induction rule: list_all2_induct) (auto simp: approx_opt_def)

lemma approx_hash_ref:
  assumes ap: "approx_ap ap ap'"
  shows "approx (bi_hash_table_ref A H ap args) (bi_hash_table_ref A H ap' args)"
  unfolding bi_hash_table_ref_def
  by (auto intro!: approx_bind approx_if approx_refl approx_apD [OF ap] split: option.splits)

lemma approx_text_builtins:
  assumes ap: "approx_ap ap ap'"
  shows "approx (bi_string_for_each ap args) (bi_string_for_each ap' args)"
    "approx (bi_string_map ap args) (bi_string_map ap' args)"
    "approx (bi_vector_map ap args) (bi_vector_map ap' args)"
    "approx (bi_vector_for_each ap args) (bi_vector_for_each ap' args)"
  unfolding bi_string_for_each_def bi_string_map_def bi_vector_map_def bi_vector_for_each_def Let_def
  by (intro approx_bind approx_refl approx_forM approx_mapM approx_apD [OF ap])+

lemma approx_calling:
  assumes n: "n \<le> n'" and ap: "approx_ap ap ap'"
  shows "approx_opt (map_option (\<lambda>m. m args) (calling_builtin A n ap f)) (map_option (\<lambda>m. m args) (calling_builtin A n' ap' f))"
  unfolding calling_builtin_def
  by (rule approx_table) (simp add: approx_calling_builtins [OF n ap] approx_call_cc [OF ap] approx_force [OF ap]
      approx_call_with_values [OF ap] approx_apply [OF ap] approx_refl)

lemma approx_library_calling:
  assumes ap: "approx_ap ap ap'"
  shows "approx_opt (map_option (\<lambda>m. m args) (library_calling_builtin A H ap f))
    (map_option (\<lambda>m. m args) (library_calling_builtin A H ap' f))"
proof -
  have map_first: "map_option g (first_some xs) = first_some (map (map_option g) xs)"
    for g :: "(val list \<Rightarrow> val M) \<Rightarrow> val M" and xs
    by (induction xs rule: first_some.induct) simp_all
  have "approx_opt (map_option (\<lambda>m. m args) (treelist_calling_builtin A ap f))
      (map_option (\<lambda>m. m args) (treelist_calling_builtin A ap' f))"
    unfolding treelist_calling_builtin_def
    by (rule approx_table) (simp add: approx_treelist_builtins [OF ap])
  moreover have "approx_opt (map_option (\<lambda>m. m args) (hash_calling_builtin A H ap f))
      (map_option (\<lambda>m. m args) (hash_calling_builtin A H ap' f))"
    unfolding hash_calling_builtin_def
    by (rule approx_table) (simp add: approx_hash_ref [OF ap])
  moreover have "approx_opt (map_option (\<lambda>m. m args) (port_calling_builtin ap f))
      (map_option (\<lambda>m. m args) (port_calling_builtin ap' f))"
    unfolding port_calling_builtin_def
    by (rule approx_table) (simp add: bi_call_with_port_def approx_bind approx_refl approx_apD [OF ap])
  moreover have "approx_opt (map_option (\<lambda>m. m args) (string_calling_builtin ap f))
      (map_option (\<lambda>m. m args) (string_calling_builtin ap' f))"
    unfolding string_calling_builtin_def
    by (rule approx_table) (simp add: approx_text_builtins [OF ap])
  moreover have "approx_opt (map_option (\<lambda>m. m args) (vector_calling_builtin ap f))
      (map_option (\<lambda>m. m args) (vector_calling_builtin ap' f))"
    unfolding vector_calling_builtin_def
    by (rule approx_table) (simp add: approx_text_builtins [OF ap])
  ultimately show ?thesis unfolding library_calling_builtin_def map_first
    by (intro approx_first_some) simp
qed

lemma mono_creme_builtins: "mono_builtins (creme_builtins A H)"
  unfolding mono_builtins_def
proof (intro allI impI)
  fix n n' :: nat and ap ap' :: "val \<Rightarrow> val list \<Rightarrow> val M"
  assume n: "n \<le> n'" and ap: "approx_ap ap ap'"
  have "approx (creme_builtins A H n ap f args) (creme_builtins A H n' ap' f args)" for f args
    unfolding creme_builtins_def
    by (intro approx_opt_case approx_first_some)
      (simp add: approx_opt_refl approx_calling [OF n ap] approx_library_calling [OF ap])
  then show "approx_ap (creme_builtins A H n ap) (creme_builtins A H n' ap')"
    by (simp add: approx_ap_def)
qed

lemma run_chunk_mono:
  assumes "mono_builtins B" "n \<le> n'"
  shows "approx (creme_run_chunk n A B chunk) (creme_run_chunk n' A B chunk)"
proof -
  have "approx (creme_dispatch n A B td) (creme_dispatch n' A B td)" for td
    using loop_mono [OF assms] by (auto simp: creme_dispatch_def approx_def approx_run_def)
  then show ?thesis unfolding creme_run_chunk_def by (intro approx_bind approx_refl)
qed

end
