(* ===== verification/Fuel_Spec.thy ===== *)
theory Fuel_Spec
  imports Fuel_Props VM_Init
begin

text \<open>
  The fuel of the dispatch loop only decides whether the model gives an outcome: two runs that both have
  one have the same.
\<close>

text \<open>A program has at most one outcome.  If the loop reaches one (a value, an escape, an exit, an actor
  exit, undefined behaviour) with some fuel, every larger fuel reaches the same outcome in the same state.\<close>

theorem outcome_independent_of_fuel:
  assumes "creme_run_chunk n A (creme_builtins A H) chunk s \<noteq> Timeout" "n \<le> m"
  shows "creme_run_chunk m A (creme_builtins A H) chunk s = creme_run_chunk n A (creme_builtins A H) chunk s"
  using approx_at [OF run_chunk_mono [OF mono_creme_builtins assms(2)], of A A H chunk s] assms(1) by auto

text \<open>The program that returns the constant 42.\<close>

definition answer_chunk :: chunk where
  "answer_chunk = g_empty_root_chunk\<lparr>ch_instrs :=
     [\<lparr>ins_op = OP_LOADK, ins_a = 0, ins_b = 0, ins_c = 0, ins_d = 0\<rparr>,
      \<lparr>ins_op = OP_RETURN, ins_a = 0, ins_b = 0, ins_c = 0, ins_d = 0\<rparr>],
     ch_consts := [VInt 42], ch_num_registers := 1\<rparr>"

definition answer_state :: vm where
  "answer_state = vm0\<lparr>h_chunks := [g_empty_root_chunk, answer_chunk], vm_stack := (\<lambda>_. VNil)\<rparr>"

definition answer_frame :: "int \<Rightarrow> frame" where
  "answer_frame ip = \<lparr> fr_chunk = 1, fr_base = 0, fr_closure = None, fr_ip = ip, fr_return_reg = -1, fr_opened = [] \<rparr>"

text \<open>The state before instruction \<open>ip\<close> with \<open>v\<close> in register 0.\<close>

definition answer_at :: "int \<Rightarrow> val \<Rightarrow> vm" where
  "answer_at ip v = answer_state\<lparr>vm_stack := (\<lambda>_. VNil)(0 := v), vm_frames := (vm_frames vm0)(0 := answer_frame ip),
     vm_depth := 1, vm_next_act := 1\<rparr>"

lemma answer_at_simps [simp]:
  "vm_depth (answer_at ip v) = 1" "vm_frames_cap (answer_at ip v) = 8192" "vm_stack_cap (answer_at ip v) = 1048576"
  "vm_frames (answer_at ip v) 0 = answer_frame ip" "h_chunks (answer_at ip v) = [g_empty_root_chunk, answer_chunk]"
  "vm_stack (answer_at ip v) 0 = v"
  by (simp_all add: answer_at_def answer_state_def)

lemma answer_enter: "mod_top (\<lambda>f. f\<lparr>fr_ip := fr_ip f + 1\<rparr>) (answer_at ip v) = Done () (answer_at (ip + 1) v)"
  by (simp add: upd_frame_def answer_frame_def)
     (simp add: answer_at_def answer_frame_def)

lemma answer_store: "set_stack 0 w (answer_at ip v) = Done () (answer_at ip w)"
  by simp (simp add: answer_at_def)

lemma answer_chunk_at: "cur_chunk (answer_frame ip) (answer_at ip' v) = Done answer_chunk (answer_at ip' v)"
  by (simp add: cur_chunk_def answer_frame_def)

lemma answer_fetch:
  "fetch (answer_at 0 v) = Done \<lparr>ins_op = OP_LOADK, ins_a = 0, ins_b = 0, ins_c = 0, ins_d = 0\<rparr> (answer_at 1 v)"
  "fetch (answer_at 1 v) = Done \<lparr>ins_op = OP_RETURN, ins_a = 0, ins_b = 0, ins_c = 0, ins_d = 0\<rparr> (answer_at 2 v)"
  using answer_enter [of 0 v] answer_enter [of 1 v]
  by (simp_all add: fetch_def bindM_def answer_chunk_at del: top_run(2))
     (simp_all add: answer_chunk_def answer_frame_def)

lemma answer_load: "step A bt ap f act td (answer_at 0 VNil) = Done None (answer_at 1 (VInt 42))"
  by (simp add: step_def bindM_def answer_fetch exec_instruction_def exec_basic_def nxt_def const_at_def answer_chunk_at
      wr_def answer_store del: stack_run)
     (simp add: answer_chunk_def answer_frame_def wr_def answer_store del: stack_run)

lemma answer_return: "\<exists>s. step A bt ap f act 0 (answer_at 1 v) = Done (Some v) s"
proof -
  let ?i = "\<lparr>ins_op = OP_RETURN, ins_a = 0, ins_b = 0, ins_c = 0, ins_d = 0\<rparr>"
  have "exec_basic A fr ?i = None" "exec_tests A fr ?i = None" "exec_forms ap fr ?i = None" "exec_bytes fr ?i = None"
    "exec_misc A fr ?i = None" "exec_access fr ?i = None" "exec_tests2 A fr ?i = None" "exec_call c 0 fr ?i = None"
    "exec_quick A bt c 0 fr ?i = None" for fr c
    by (simp_all add: exec_basic_def exec_tests_def exec_forms_def exec_bytes_def exec_misc_def exec_access_def
        exec_tests2_def exec_call_def exec_quick_def)
  then have "exec_instruction A bt ap f act 0 fr ?i = bindM (rd fr 0) (\<lambda>v. deliver_return v 0)" for fr
    by (simp add: exec_instruction_def exec_return_def)
  then have "step A bt ap f act 0 (answer_at 1 v) = bindM (rd (answer_frame 2) 0) (\<lambda>v. deliver_return v 0) (answer_at 2 v)"
    by (simp add: step_def bindM_def answer_fetch)
  then show ?thesis
    by (simp add: bindM_def rd_def deliver_return_def close_upvalues_def answer_frame_def upd_frame_def)
qed

lemma answer_runs: "\<exists>s. creme_run_chunk 2 A B 1 answer_state = Done (VInt 42) s"
proof -
  have start: "creme_run_chunk 2 A B 1 answer_state = run_loop 2 A B 0 0 (Done None (answer_at 0 VNil))"
    by (simp add: creme_run_chunk_def creme_dispatch_def upd_frame_def)
       (simp add: answer_at_def answer_state_def answer_frame_def fun_upd_def)
  obtain s where "step A (B 0 (creme_apply 0 A B)) (creme_apply 0 A B) 0 0 0 (answer_at 1 (VInt 42)) = Done (Some (VInt 42)) s"
    using answer_return by blast
  then have "run_loop 2 A B 0 0 (Done None (answer_at 0 VNil)) = Done (VInt 42) s"
    by (simp add: answer_load numeral_2_eq_2)
  with start show ?thesis by metis
qed

lemma outcome_independent_of_fuel_witness:
  "creme_run_chunk 1000 reference_arith (creme_builtins reference_arith reference_host) 1 answer_state =
     creme_run_chunk 2 reference_arith (creme_builtins reference_arith reference_host) 1 answer_state \<and>
   (\<exists>s. creme_run_chunk 2 reference_arith (creme_builtins reference_arith reference_host) 1 answer_state = Done (VInt 42) s)"
proof -
  obtain s where "creme_run_chunk 2 reference_arith (creme_builtins reference_arith reference_host) 1 answer_state = Done (VInt 42) s"
    using answer_runs by blast
  with outcome_independent_of_fuel [of 2 reference_arith reference_host 1 answer_state 1000] show ?thesis by simp
qed

end
