(* ===== verification/Radix_Props.thy ===== *)
theory Radix_Props
  imports Radix_Core "HOL-Library.Multiset"
begin

text \<open>
  What a radix tree denotes.  A pattern is a list of symbols (a literal byte, a named or a
  catch-all capture); a node denotes the partial function \<open>node_map\<close> from patterns to payloads.
  \<open>wf_radix\<close> is the invariant the splitting keeps: no empty chunk, siblings that differ in their
  first symbol, children in the order of their rank.  Then insertion is the update of that
  function at one pattern, and the lookup returns the payload of the most specific stored pattern
  that matches the path.
\<close>

datatype sym = Lit char | Named bytes | Glob bytes

fun token_syms :: "radix_kind \<Rightarrow> bytes \<Rightarrow> sym list" where
  "token_syms RADIX_NORMAL key = map Lit key"
| "token_syms RADIX_NAMED key = [Named key]"
| "token_syms RADIX_GLOB key = [Glob key]"

definition node_syms :: "'p radix_node \<Rightarrow> sym list" where
  "node_syms c = token_syms (rn_kind c) (rn_key c)"

definition pattern :: "bytes \<Rightarrow> sym list" where
  "pattern key = concat (map (\<lambda>(kind, tok). token_syms kind tok) (tokens key))"

fun sym_rank :: "sym \<Rightarrow> nat" where
  "sym_rank (Lit c) = 0"
| "sym_rank (Named n) = 1"
| "sym_rank (Glob n) = 2"

fun node_map :: "'p radix_node \<Rightarrow> sym list \<Rightarrow> 'p option"
  and children_map :: "'p radix_node list \<Rightarrow> sym list \<Rightarrow> 'p option" where
  "node_map (RadixNode key kind pl cs) q = (if q = [] then pl else children_map cs q)"
| "children_map [] q = None"
| "children_map (c # cs) q =
     (if take (length (node_syms c)) q = node_syms c then node_map c (drop (length (node_syms c)) q)
      else children_map cs q)"

definition head_syms :: "'p radix_node list \<Rightarrow> sym list" where
  "head_syms cs = map (\<lambda>c. hd (node_syms c)) cs"

definition wf_children :: "'p radix_node list \<Rightarrow> bool" where
  "wf_children cs \<longleftrightarrow> (\<forall>c\<in>set cs. rn_key c \<noteq> []) \<and> distinct (head_syms cs) \<and>
     sorted (map (\<lambda>c. child_rank (rn_kind c)) cs)"

fun wf_radix :: "'p radix_node \<Rightarrow> bool" where
  "wf_radix (RadixNode key kind pl cs) \<longleftrightarrow> wf_children cs \<and> (\<forall>c\<in>set cs. wf_radix c)"

subsection \<open>Symbols of a node\<close>

lemma token_syms_Nil [simp]: "token_syms kind key = [] \<longleftrightarrow> kind = RADIX_NORMAL \<and> key = []"
  by (cases kind) auto

lemma node_syms_Nil: "rn_key c \<noteq> [] \<Longrightarrow> node_syms c \<noteq> []"
  by (simp add: node_syms_def)

lemma hd_node_syms: "hd (node_syms c) = (case rn_kind c of RADIX_NORMAL \<Rightarrow> Lit (hd (rn_key c))
    | RADIX_NAMED \<Rightarrow> Named (rn_key c) | RADIX_GLOB \<Rightarrow> Glob (rn_key c))" if "rn_key c \<noteq> []"
  using that by (cases "rn_kind c") (simp_all add: node_syms_def hd_map)

lemma sym_rank_node: "rn_key c \<noteq> [] \<Longrightarrow> sym_rank (hd (node_syms c)) = child_rank (rn_kind c)"
  by (simp add: hd_node_syms split: radix_kind.split)

lemma node_map_Nil [simp]: "node_map n [] = rn_payload n"
  by (cases n) simp

lemma node_map_children: "q \<noteq> [] \<Longrightarrow> node_map n q = children_map (rn_children n) q"
  by (cases n) simp

lemma wf_radix_alt: "wf_radix n \<longleftrightarrow> wf_children (rn_children n) \<and> (\<forall>c\<in>set (rn_children n). wf_radix c)"
  by (cases n) simp

text \<open>A prefix test that fails at the first symbol.\<close>

lemma take_syms_hd: "take (length (node_syms c)) q = node_syms c \<Longrightarrow> rn_key c \<noteq> [] \<Longrightarrow>
    q \<noteq> [] \<and> hd q = hd (node_syms c)"
  using node_syms_Nil [of c] by (cases q; cases "node_syms c") auto

lemma children_map_other: "\<forall>c\<in>set cs. rn_key c \<noteq> [] \<Longrightarrow> hd q \<notin> set (head_syms cs) \<Longrightarrow> children_map cs q = None"
  by (induction cs) (auto simp: head_syms_def dest: take_syms_hd)

lemma children_map_append: "children_map (as @ bs) q =
    (if \<exists>a\<in>set as. take (length (node_syms a)) q = node_syms a then children_map as q else children_map bs q)"
  by (induction as) auto

text \<open>The order of the siblings does not matter.\<close>

definition separate_heads :: "'p radix_node list \<Rightarrow> bool" where
  "separate_heads cs \<longleftrightarrow> (\<forall>c\<in>set cs. rn_key c \<noteq> []) \<and> distinct (head_syms cs)"

lemma wf_children_heads: "wf_children cs \<longleftrightarrow> separate_heads cs \<and> sorted (map (\<lambda>c. child_rank (rn_kind c)) cs)"
  by (auto simp: wf_children_def separate_heads_def)

lemma children_map_member:
  assumes "separate_heads cs" "c \<in> set cs" "take (length (node_syms c)) q = node_syms c"
  shows "children_map cs q = node_map c (drop (length (node_syms c)) q)"
  using assms
proof (induction cs)
  case (Cons a cs)
  from Cons.prems(1) have wf: "separate_heads cs" and key: "\<forall>c\<in>set (a # cs). rn_key c \<noteq> []"
    and d: "hd (node_syms a) \<notin> set (head_syms cs)"
    by (auto simp: separate_heads_def head_syms_def)
  show ?case
  proof (cases "c = a")
    case False
    with Cons.prems(2) have c: "c \<in> set cs" by simp
    then have "hd (node_syms c) \<in> set (head_syms cs)" by (auto simp: head_syms_def)
    moreover have "hd q = hd (node_syms c)" using take_syms_hd [OF Cons.prems(3)] key Cons.prems(2) by blast
    ultimately have "take (length (node_syms a)) q \<noteq> node_syms a"
      using d take_syms_hd [of a q] key by (metis list.set_intros(1))
    with Cons.IH [OF wf c Cons.prems(3)] show ?thesis by simp
  qed (use Cons.prems(3) in simp)
qed simp

lemma children_map_None: "\<forall>c\<in>set cs. take (length (node_syms c)) q \<noteq> node_syms c \<Longrightarrow> children_map cs q = None"
  by (induction cs) auto

subsection \<open>Sorting\<close>

lemma sift_back_mset: "mset (sift_back c cs) = add_mset c (mset cs)"
  by (induction cs) auto

lemma sort_list_mset: "mset (sort_list cs) = mset cs"
proof -
  have "mset (fold sift_back cs acc) = mset cs + mset acc" for acc
    by (induction cs arbitrary: acc) (auto simp: sift_back_mset)
  then show ?thesis by (simp add: sort_list_def)
qed

lemma set_sort_list [simp]: "set (sort_list cs) = set cs"
  by (metis sort_list_mset set_mset_mset)

lemma sift_back_sorted:
  assumes "sorted (map (\<lambda>c. child_rank (rn_kind c)) (rev cs))"
  shows "sorted (map (\<lambda>c. child_rank (rn_kind c)) (rev (sift_back x cs)))"
  using assms
proof (induction cs)
  case (Cons c cs)
  have "set (sift_back x cs) = insert x (set cs)"
    by (metis sift_back_mset set_mset_add_mset_insert set_mset_mset)
  with Cons show ?case by (auto simp: sorted_append)
qed simp

lemma sort_list_sorted: "sorted (map (\<lambda>c. child_rank (rn_kind c)) (sort_list cs))"
proof -
  have "sorted (map (\<lambda>c. child_rank (rn_kind c)) (rev acc)) \<Longrightarrow>
      sorted (map (\<lambda>c. child_rank (rn_kind c)) (rev (fold sift_back cs acc)))" for acc
    by (induction cs arbitrary: acc) (simp_all add: sift_back_sorted)
  then show ?thesis by (simp add: sort_list_def)
qed

lemma separate_sort [simp]: "separate_heads (sort_list cs) = separate_heads cs"
  by (simp add: separate_heads_def head_syms_def) (metis mset_eq_imp_distinct_iff mset_map sort_list_mset)

lemma wf_sort_list: "separate_heads cs \<Longrightarrow> wf_children (sort_list cs)"
  by (simp add: wf_children_heads sort_list_sorted)

lemma children_map_sort: "separate_heads cs \<Longrightarrow> children_map (sort_list cs) q = children_map cs q"
proof (cases "\<exists>c\<in>set cs. take (length (node_syms c)) q = node_syms c")
  case True
  assume "separate_heads cs"
  with True show ?thesis using children_map_member [of "sort_list cs"] children_map_member [of cs] by auto
qed (simp add: children_map_None)

subsection \<open>Descending into one child\<close>

definition via :: "'p radix_node \<Rightarrow> sym list \<Rightarrow> 'p option" where
  "via c q = (if take (length (node_syms c)) q = node_syms c then node_map c (drop (length (node_syms c)) q) else None)"

lemma separate_Cons: "separate_heads (c # cs) \<longleftrightarrow>
    rn_key c \<noteq> [] \<and> hd (node_syms c) \<notin> set (head_syms cs) \<and> separate_heads cs"
  by (auto simp: separate_heads_def head_syms_def)

lemma children_map_Cons: "separate_heads (c # cs) \<Longrightarrow> children_map (c # cs) q =
    (if q \<noteq> [] \<and> hd q = hd (node_syms c) then via c q else children_map cs q)"
  using children_map_other [of cs q] take_syms_hd [of c q] node_syms_Nil [of c]
  by (cases "q = []") (auto simp: head_syms_def via_def separate_heads_def)

lemma children_map_single: "children_map [c] q = via c q"
  by (simp add: via_def)

lemma via_append: "via c (node_syms c @ q) = node_map c q"
  by (simp add: via_def)

lemma via_iff: "via c q = (if \<exists>r. q = node_syms c @ r then node_map c (drop (length (node_syms c)) q) else None)"
  by (auto simp: via_def) (metis append_take_drop_id)

lemma via_hd: "rn_key c \<noteq> [] \<Longrightarrow> via c q \<noteq> None \<Longrightarrow> q \<noteq> [] \<and> hd q = hd (node_syms c)"
  by (auto simp: via_def dest: take_syms_hd split: if_splits)

text \<open>What a step of the insertion does to the node it is given.\<close>

definition updates :: "('p radix_node \<Rightarrow> 'p radix_node) \<Rightarrow> sym list \<Rightarrow> 'p \<Rightarrow> bool" where
  "updates k r v \<longleftrightarrow> (\<forall>m. wf_radix m \<longrightarrow> wf_radix (k m) \<and> rn_key (k m) = rn_key m \<and> rn_kind (k m) = rn_kind m \<and>
     (\<forall>q. node_map (k m) q = (if q = r then Some v else node_map m q)))"

lemma updatesD:
  assumes "updates k r v" "wf_radix m"
  shows "wf_radix (k m)" "rn_key (k m) = rn_key m" "rn_kind (k m) = rn_kind m" "node_syms (k m) = node_syms m"
    "node_map (k m) q = (if q = r then Some v else node_map m q)"
  using assms by (auto simp: updates_def node_syms_def)

lemma via_changed:
  assumes "node_syms c' = node_syms c" "\<And>q. node_map c' q = (if q = r then Some v else node_map c q)"
  shows "via c' q = (if q = node_syms c @ r then Some v else via c q)"
proof (cases "\<exists>x. q = node_syms c @ x")
  case True
  then show ?thesis by (auto simp: via_def assms)
qed (auto simp: via_iff assms(1))

lemma via_updates: "updates k r v \<Longrightarrow> wf_radix m \<Longrightarrow>
    via (k m) q = (if q = node_syms m @ r then Some v else via m q)"
  by (rule via_changed) (simp_all add: updatesD)

lemma wf_new_node [simp]: "wf_radix (new_node key kind)"
  by (simp add: new_node_def wf_children_def head_syms_def)

lemma new_node_simps [simp]: "rn_key (new_node key kind) = key" "rn_kind (new_node key kind) = kind"
  "node_syms (new_node key kind) = token_syms kind key" "node_map (new_node key kind) q = None"
  by (simp_all add: new_node_def node_syms_def)

subsection \<open>Splitting\<close>

lemma split_node_simps [simp]: "rn_key (split_node c n) = take n (rn_key c)" "rn_kind (split_node c n) = rn_kind c"
  "rn_payload (split_node c n) = None"
  by (simp_all add: split_node_def Let_def append_child_def)

lemma split_children: "rn_children (split_node c n) = [RadixNode (drop n (rn_key c)) RADIX_NORMAL (rn_payload c) (rn_children c)]"
  by (simp add: split_node_def Let_def append_child_def)

lemma via_split:
  assumes "rn_kind c = RADIX_NORMAL" "0 < n" "n < length (rn_key c)"
  shows "via (split_node c n) q = via c q"
proof -
  let ?t = "RadixNode (drop n (rn_key c)) RADIX_NORMAL (rn_payload c) (rn_children c)"
  have syms: "node_syms c = node_syms (split_node c n) @ node_syms ?t"
    using assms by (simp add: node_syms_def take_map drop_map flip: map_append)
  have ne: "node_syms ?t \<noteq> []" using assms by (simp add: node_syms_def)
  have map_t: "node_map ?t r = node_map c r" for r by (cases c) simp
  then have tail: "node_map (split_node c n) r = via ?t r" for r
    using ne by (cases "r = []") (simp_all add: via_def node_map_children split_children)
  show ?thesis
  proof (cases "\<exists>r. q = node_syms (split_node c n) @ r")
    case True
    then obtain r where r: "q = node_syms (split_node c n) @ r" by blast
    have "via c q = via ?t r"
      unfolding r via_iff [of c] via_iff [of ?t] map_t by (simp add: syms)
    then show ?thesis using r by (simp add: via_append tail)
  next
    case False
    then have "\<not> (\<exists>r. q = node_syms c @ r)" by (auto simp: syms)
    with False show ?thesis by (simp add: via_iff)
  qed
qed

lemma wf_split:
  assumes "wf_radix c" "n < length (rn_key c)"
  shows "wf_radix (split_node c n)"
  using assms by (simp add: wf_radix_alt [of "split_node c n"] split_children wf_children_def head_syms_def wf_radix_alt [of c])

lemma hd_split: "rn_kind c = RADIX_NORMAL \<Longrightarrow> 0 < n \<Longrightarrow> n < length (rn_key c) \<Longrightarrow>
    hd (node_syms (split_node c n)) = hd (node_syms c)"
  by (cases "rn_key c"; cases n) (simp_all add: node_syms_def)

subsection \<open>Insertion\<close>

lemma common_prefix_props:
  "common_prefix xs ys \<le> length xs" "common_prefix xs ys \<le> length ys"
  "take (common_prefix xs ys) xs = take (common_prefix xs ys) ys"
  "common_prefix xs ys < length xs \<Longrightarrow> common_prefix xs ys < length ys \<Longrightarrow> xs ! common_prefix xs ys \<noteq> ys ! common_prefix xs ys"
  by (induction xs ys rule: common_prefix.induct) auto

lemma node_common_zero: "rn_key c \<noteq> [] \<Longrightarrow> key \<noteq> [] \<Longrightarrow>
    node_common c key kind = 0 \<longleftrightarrow> hd (token_syms kind key) \<noteq> hd (node_syms c)"
  by (cases "rn_key c"; cases key; cases "rn_kind c"; cases kind)
    (auto simp: node_common_def node_syms_def)

lemma node_common_normal:
  assumes "node_common c key kind \<noteq> 0" "\<not> (node_common c key kind = length (rn_key c) \<and> node_common c key kind = length key)"
  shows "rn_kind c = RADIX_NORMAL" "kind = RADIX_NORMAL" "node_common c key kind = common_prefix (rn_key c) key"
  using assms by (auto simp: node_common_def split: if_splits)

lemma node_common_full:
  assumes "node_common c key kind = length (rn_key c)" "node_common c key kind = length key" "key \<noteq> []"
  shows "kind = rn_kind c" "key = rn_key c"
  using assms common_prefix_props(3) [of "rn_key c" key] by (auto simp: node_common_def split: if_splits)

text \<open>One child replaced by another that starts with the same symbol.\<close>

definition inserted :: "'p radix_node list \<Rightarrow> sym list \<Rightarrow> 'p \<Rightarrow> 'p radix_node list \<Rightarrow> bool" where
  "inserted cs p v cs' \<longleftrightarrow> separate_heads cs' \<and> head_syms cs' = head_syms cs \<and>
     map (\<lambda>c. child_rank (rn_kind c)) cs' = map (\<lambda>c. child_rank (rn_kind c)) cs \<and> (\<forall>c\<in>set cs'. wf_radix c) \<and>
     (\<forall>q. children_map cs' q = (if q = p then Some v else children_map cs q))"

lemma inserted_here:
  assumes "separate_heads (c # cs)" "\<forall>x\<in>set cs. wf_radix x"
    and "rn_key c' \<noteq> []" "hd (node_syms c') = hd (node_syms c)" "rn_kind c' = rn_kind c" "wf_radix c'"
    and "\<And>q. via c' q = (if q = p then Some v else via c q)" "p \<noteq> []" "hd p = hd (node_syms c)"
  shows "inserted (c # cs) p v (c' # cs)"
proof -
  have "separate_heads (c' # cs)" using assms(1,3,4) by (simp add: separate_Cons)
  with assms show ?thesis
    by (auto simp: inserted_def head_syms_def children_map_Cons simp del: children_map.simps)
qed

lemma inserted_later:
  assumes "separate_heads (c # cs)" "wf_radix c" "inserted cs p v cs'" "p \<noteq> []" "hd p \<noteq> hd (node_syms c)"
  shows "inserted (c # cs) p v (c # cs')"
proof -
  have "separate_heads (c # cs')" using assms(1,3) by (simp add: separate_Cons inserted_def)
  with assms show ?thesis
    by (auto simp: inserted_def head_syms_def children_map_Cons simp del: children_map.simps)
qed

lemma hd_token_append: "key \<noteq> [] \<Longrightarrow> hd (token_syms kind key @ r) = hd (token_syms kind key)"
  by (simp add: hd_append)

text \<open>The two outcomes of a partial match, below the split child.\<close>

lemma via_child_updates:
  assumes "updates k r v" "wf_radix m" "\<And>q. via m q = via c q"
  shows "via (k m) q = (if q = node_syms m @ r then Some v else via c q)"
  by (simp add: via_updates [OF assms(1,2)] assms(3))

lemma sort_children_simps [simp]: "rn_key (sort_children n) = rn_key n" "rn_kind (sort_children n) = rn_kind n"
  "rn_payload (sort_children n) = rn_payload n" "rn_children (sort_children n) = sort_list (rn_children n)"
  by (simp_all add: sort_children_def)

lemma append_child_simps [simp]: "rn_key (append_child n c) = rn_key n" "rn_kind (append_child n c) = rn_kind n"
  "rn_payload (append_child n c) = rn_payload n" "rn_children (append_child n c) = rn_children n @ [c]"
  by (simp_all add: append_child_def)

lemma head_syms_append [simp]: "head_syms (as @ bs) = head_syms as @ head_syms bs"
  by (simp add: head_syms_def)

lemma head_syms_single [simp]: "head_syms [] = []" "head_syms [c] = [hd (node_syms c)]"
  by (simp_all add: head_syms_def)

text \<open>A new child for a token that no child starts with.\<close>

lemma add_child:
  assumes n: "wf_radix n" and k: "updates k r v" and key: "key \<noteq> []"
    and new: "hd (token_syms kind key) \<notin> set (head_syms (rn_children n))"
  defines "n' \<equiv> sort_children (append_child n (k (new_node key kind)))"
  shows "wf_radix n'" "node_map n' q = (if q = token_syms kind key @ r then Some v else node_map n q)"
proof -
  let ?c = "k (new_node key kind)"
  have c: "wf_radix ?c" "rn_key ?c = key" "node_syms ?c = token_syms kind key"
    using updatesD [OF k wf_new_node, of key kind] by simp_all
  have sep: "separate_heads (rn_children n)" and kids: "\<forall>x\<in>set (rn_children n). wf_radix x"
    using n by (simp_all add: wf_radix_alt [of n] wf_children_heads)
  have sep': "separate_heads (rn_children n @ [?c])"
    using sep new key by (auto simp: separate_heads_def c)
  then show "wf_radix n'"
    using kids c(1) by (auto simp: n'_def wf_radix_alt [of "sort_children _"] wf_sort_list)
  have "via ?c q = (if q = token_syms kind key @ r then Some v else None)"
    using via_updates [OF k wf_new_node, of key kind q] by (simp add: via_def)
  moreover have "\<forall>a\<in>set (rn_children n). take (length (node_syms a)) (token_syms kind key @ r) \<noteq> node_syms a"
  proof (intro ballI notI)
    fix a assume a: "a \<in> set (rn_children n)" "take (length (node_syms a)) (token_syms kind key @ r) = node_syms a"
    have "hd (token_syms kind key) = hd (node_syms a)"
      using take_syms_hd [OF a(2)] sep a(1) by (simp add: separate_heads_def hd_token_append [OF key])
    with new a(1) show False by (auto simp: head_syms_def)
  qed
  ultimately have "children_map (rn_children n @ [?c]) q =
      (if q = token_syms kind key @ r then Some v else children_map (rn_children n) q)"
    using children_map_None [of "rn_children n" q]
    by (simp add: children_map_append children_map_single del: children_map.simps take_append) auto
  then show "node_map n' q = (if q = token_syms kind key @ r then Some v else node_map n q)"
    using key by (cases "q = []") (simp_all add: n'_def node_map_children children_map_sort [OF sep'])
qed

lemma insert_correct:
  assumes "updates k r v" "key \<noteq> []"
  shows "wf_radix n \<Longrightarrow> wf_radix (insert_token n key kind k) \<and>
      rn_key (insert_token n key kind k) = rn_key n \<and> rn_kind (insert_token n key kind k) = rn_kind n \<and>
      (\<forall>q. node_map (insert_token n key kind k) q = (if q = token_syms kind key @ r then Some v else node_map n q))"
    and "separate_heads cs \<Longrightarrow> \<forall>c\<in>set cs. wf_radix c \<Longrightarrow>
      (case insert_children cs key kind k of None \<Rightarrow> hd (token_syms kind key) \<notin> set (head_syms cs)
       | Some cs' \<Rightarrow> inserted cs (token_syms kind key @ r) v cs')"
  using assms
proof (induction n key kind k and cs key kind k rule: insert_token_insert_children.induct)
  case (1 nkey nkind pl cs key kind k)
  note k = \<open>updates k r v\<close> and key = \<open>key \<noteq> []\<close> and wf = \<open>wf_radix (RadixNode nkey nkind pl cs)\<close>
  have IH: "case insert_children cs key kind k of None \<Rightarrow> hd (token_syms kind key) \<notin> set (head_syms cs)
       | Some cs' \<Rightarrow> inserted cs (token_syms kind key @ r) v cs'"
    using 1(1) [OF _ _ k key] wf by (simp add: wf_children_heads)
  show ?case
  proof (cases "insert_children cs key kind k")
    case None
    with IH show ?thesis
      using add_child [OF wf k key, of kind] by simp
  next
    case (Some cs')
    with IH have i: "inserted cs (token_syms kind key @ r) v cs'" by simp
    with wf have "wf_children cs'" by (auto simp: wf_children_heads inserted_def)
    with i Some key show ?thesis by (auto simp: inserted_def)
  qed
next
  case (2 key kind k)
  then show ?case by (simp add: head_syms_def)
next
  case (3 c cs key kind k)
  note k = \<open>updates k r v\<close> and key = \<open>key \<noteq> []\<close>
  let ?p = "token_syms kind key @ r"
  note sep = \<open>separate_heads (c # cs)\<close>
  then have ck: "rn_key c \<noteq> []" by (simp add: separate_Cons)
  from \<open>\<forall>x\<in>set (c # cs). wf_radix x\<close> have wf: "wf_radix c" and wfs: "\<forall>x\<in>set cs. wf_radix x" by auto
  have p: "?p \<noteq> []" "hd ?p = hd (token_syms kind key)" using key by (simp_all add: hd_token_append)
  show ?case
  proof (cases "node_common c key kind = 0")
    case True
    then have ne: "hd (token_syms kind key) \<noteq> hd (node_syms c)" by (simp add: node_common_zero ck key)
    have IH: "case insert_children cs key kind k of None \<Rightarrow> hd (token_syms kind key) \<notin> set (head_syms cs)
       | Some cs' \<Rightarrow> inserted cs ?p v cs'"
      using 3(1) [OF refl True] sep wfs k key by (simp add: separate_Cons)
    show ?thesis
    proof (cases "insert_children cs key kind k")
      case None
      with IH True ne show ?thesis by (simp add: head_syms_def)
    next
      case (Some cs')
      with IH True inserted_later [OF sep wf, of ?p v cs'] p ne show ?thesis by simp
    qed
  next
    case nz: False
    then have hd: "hd ?p = hd (node_syms c)" by (simp add: p(2) node_common_zero ck key)
    note here = inserted_here [OF sep wfs _ _ _ _ _ p(1) hd]
    let ?n = "node_common c key kind"
    show ?thesis
    proof (cases "?n = length (rn_key c) \<and> ?n = length key")
      case True
      then have same: "kind = rn_kind c" "key = rn_key c" using node_common_full key by blast+
      have "inserted (c # cs) ?p v (k c # cs)"
        using here [of "k c"] updatesD [OF k wf] ck via_updates [OF k wf] by (simp add: same node_syms_def)
      with True nz show ?thesis by simp
    next
      case part: False
      note normal = node_common_normal [OF nz part]
      have pre: "take ?n (rn_key c) = take ?n key" "?n \<le> length (rn_key c)" "?n \<le> length key"
        unfolding normal(3) by (fact common_prefix_props)+
      consider (child) "?n = length (rn_key c)" "?n < length key" | (token) "?n < length (rn_key c)" "?n = length key"
        | (both) "?n < length (rn_key c)" "?n < length key"
        using pre part by linarith
      then show ?thesis
      proof cases
        case child
        let ?c = "insert_token c (drop ?n key) kind k"
        have rest: "drop ?n key \<noteq> []" using child by simp
        have IH: "wf_radix ?c" "rn_key ?c = rn_key c" "rn_kind ?c = rn_kind c"
          "\<And>q. node_map ?c q = (if q = token_syms kind (drop ?n key) @ r then Some v else node_map c q)"
          using 3(2) [OF refl nz part child(1) wf k rest] by auto
        have p': "?p = node_syms c @ token_syms kind (drop ?n key) @ r"
        proof -
          have "key = rn_key c @ drop ?n key" using pre(1) child(1) append_take_drop_id [of ?n key] by simp
          then have "map Lit key = map Lit (rn_key c) @ map Lit (drop ?n key)" by (metis map_append)
          then show ?thesis by (simp add: normal(1,2) node_syms_def)
        qed
        have syms: "node_syms ?c = node_syms c" by (simp add: node_syms_def IH)
        have "inserted (c # cs) ?p v (?c # cs)"
          by (rule here) (simp_all add: IH(1-3) ck syms p' via_changed [OF syms IH(4)])
        with child nz show ?thesis by simp
      next
        case token
        let ?s = "split_node c ?n"
        have n: "0 < ?n" "?n < length (rn_key c)" using nz token by simp_all
        note wf' = wf_split [OF wf n(2)]
        have p': "?p = node_syms ?s @ r" using pre(1) token by (simp add: normal(1,2) node_syms_def)
        have "inserted (c # cs) ?p v (k ?s # cs)"
        proof (rule here)
          show "via (k ?s) q = (if q = ?p then Some v else via c q)" for q
            using via_updates [OF k wf'] via_split [OF normal(1) n] by (simp add: p')
        qed (use updatesD [OF k wf'] hd_split [OF normal(1) n] n in \<open>simp_all add: wf' ck\<close>)
        with token nz show ?thesis by simp
      next
        case both
        let ?s = "split_node c ?n" and ?key = "drop ?n key"
        let ?c = "sort_children (append_child ?s (k (new_node ?key kind)))"
        have n: "0 < ?n" "?n < length (rn_key c)" using nz both by simp_all
        note wf' = wf_split [OF wf n(2)]
        have p': "?p = node_syms ?s @ token_syms kind ?key @ r"
        proof -
          have "key = take ?n (rn_key c) @ drop ?n key" using pre(1) append_take_drop_id [of ?n key] by simp
          then have "map Lit key = map Lit (take ?n (rn_key c)) @ map Lit (drop ?n key)" by (metis map_append)
          then show ?thesis by (simp add: normal(1,2) node_syms_def)
        qed
        have key': "?key \<noteq> []" using both by simp
        have "rn_key c ! ?n \<noteq> key ! ?n"
          using common_prefix_props(4) [of "rn_key c" key] both by (simp add: normal(3))
        then have new: "hd (token_syms kind ?key) \<notin> set (head_syms (rn_children ?s))"
          using both by (simp add: split_children normal(2) node_syms_def hd_map hd_drop_conv_nth)
        note add = add_child [OF wf' k key' new]
        have syms: "node_syms ?c = node_syms ?s" by (simp add: node_syms_def)
        have "inserted (c # cs) ?p v (?c # cs)"
        proof (rule here)
          show "via ?c q = (if q = ?p then Some v else via c q)" for q
            using via_changed [OF syms add(2)] via_split [OF normal(1) n] by (simp add: p')
        qed (use add(1) hd_split [OF normal(1) n] n in \<open>simp_all add: syms ck\<close>)
        with both nz show ?thesis by (simp add: Let_def)
      qed
    qed
  qed
qed

lemma insert_token_updates: "updates k r v \<Longrightarrow> key \<noteq> [] \<Longrightarrow>
    updates (\<lambda>n. insert_token n key kind k) (token_syms kind key @ r) v"
  by (subst updates_def) (simp add: insert_correct(1))

lemma set_payload_updates: "updates (set_payload v) [] v"
proof -
  have "wf_radix n \<Longrightarrow> wf_radix (set_payload v n)" "rn_key (set_payload v n) = rn_key n"
    "rn_kind (set_payload v n) = rn_kind n" "node_map (set_payload v n) q = (if q = [] then Some v else node_map n q)" for n q
    by (cases n; simp add: set_payload_def)+
  then show ?thesis unfolding updates_def by blast
qed

lemma add_tokens_updates:
  assumes "\<forall>(kind, tok)\<in>set ts. tok \<noteq> []"
  shows "updates (add_tokens ts v) (concat (map (\<lambda>(kind, tok). token_syms kind tok) ts)) v"
  using assms
proof (induction ts)
  case Nil
  have "add_tokens [] v = set_payload v" by (rule ext) simp
  then show ?case by (simp add: set_payload_updates)
next
  case (Cons a ts)
  obtain kind tok where a: "a = (kind, tok)" by fastforce
  have "add_tokens (a # ts) v = (\<lambda>n. insert_token n tok kind (add_tokens ts v))" by (rule ext) (simp add: a)
  with Cons show ?case by (simp add: a insert_token_updates)
qed

subsection \<open>The tokens of a pattern\<close>

lemma tokens_Nil [simp]: "tokens [] = []"
  by (simp add: tokens.simps)

lemma tokens_step: "key \<noteq> [] \<Longrightarrow> next_token key = (kind, tok, rest) \<Longrightarrow> tokens key = (kind, tok) # tokens rest"
  by (subst tokens.simps) simp

lemma next_token_props:
  assumes "key \<noteq> []" "next_token key = (kind, tok, rest)"
  shows "tok \<noteq> []" "key = tok @ rest"
    "kind = RADIX_NORMAL \<Longrightarrow> rest \<noteq> [] \<Longrightarrow> fst (next_token rest) \<noteq> RADIX_NORMAL"
proof -
  obtain c cs where key: "key = c # cs" using assms(1) by (cases key) auto
  from assms(2) show "tok \<noteq> []" "key = tok @ rest"
    by (auto simp: key next_token_def split: if_splits)
  assume "kind = RADIX_NORMAL" "rest \<noteq> []"
  with assms(2) have rest: "rest = dropWhile (\<lambda>x. x \<noteq> CHR '':'' \<and> x \<noteq> CHR ''*'') cs"
    by (auto simp: key next_token_def split: if_splits)
  with \<open>rest \<noteq> []\<close> have "hd rest = CHR '':'' \<or> hd rest = CHR ''*''"
    using hd_dropWhile [of "\<lambda>x. x \<noteq> CHR '':'' \<and> x \<noteq> CHR ''*''" cs] by auto
  with \<open>rest \<noteq> []\<close> show "fst (next_token rest) \<noteq> RADIX_NORMAL"
    by (cases rest) (auto simp: next_token_def)
qed

text \<open>No token is empty, their bytes are the key, and two literal chunks are never adjacent.\<close>

fun canonical :: "(radix_kind \<times> bytes) list \<Rightarrow> bool" where
  "canonical [] \<longleftrightarrow> True"
| "canonical ((kind, tok) # ts) \<longleftrightarrow> tok \<noteq> [] \<and> canonical ts \<and>
     (kind = RADIX_NORMAL \<longrightarrow> ts = [] \<or> fst (hd ts) \<noteq> RADIX_NORMAL)"

lemma tokens_canonical: "canonical (tokens key)"
proof (induction key rule: tokens.induct)
  case (1 key)
  show ?case
  proof (cases "key = []")
    case False
    obtain kind tok rest where n: "next_token key = (kind, tok, rest)" by (metis prod_cases3)
    note p = next_token_props [OF False n]
    have ne: "fst (hd (tokens rest)) \<noteq> RADIX_NORMAL" if "kind = RADIX_NORMAL" "rest \<noteq> []"
    proof -
      obtain k2 t2 r2 where "next_token rest = (k2, t2, r2)" by (metis prod_cases3)
      with tokens_step [OF that(2) this] p(3) [OF that] show ?thesis by simp
    qed
    show ?thesis
      unfolding tokens_step [OF False n]
      using 1 [OF False n [symmetric] refl] p(1) ne by (cases "rest = []") auto
  qed simp
qed

lemma canonical_nonempty: "canonical ts \<Longrightarrow> \<forall>(kind, tok)\<in>set ts. tok \<noteq> []"
  by (induction ts rule: canonical.induct) auto

fun sym_bytes :: "sym \<Rightarrow> bytes" where
  "sym_bytes (Lit c) = [c]"
| "sym_bytes (Named n) = n"
| "sym_bytes (Glob n) = n"

lemma token_bytes: "concat (map sym_bytes (token_syms kind tok)) = tok"
  by (cases kind) (simp_all add: comp_def)

text \<open>A pattern spells its key.\<close>

lemma pattern_bytes: "concat (map sym_bytes (pattern key)) = key"
proof (induction key rule: tokens.induct)
  case (1 key)
  show ?case
  proof (cases "key = []")
    case False
    obtain kind tok rest where n: "next_token key = (kind, tok, rest)" by (metis prod_cases3)
    from 1 [OF False n [symmetric] refl] have "concat (map sym_bytes (pattern key)) = tok @ rest"
      by (simp add: pattern_def tokens_step [OF False n] token_bytes)
    with next_token_props(2) [OF False n] show ?thesis by simp
  qed (simp add: pattern_def)
qed

lemma pattern_inject: "pattern x = pattern y \<longleftrightarrow> x = y"
  by (metis pattern_bytes)

lemma literal_pattern: "CHR '':'' \<notin> set key \<Longrightarrow> CHR ''*'' \<notin> set key \<Longrightarrow> pattern key = map Lit key"
proof (cases key)
  case (Cons c cs)
  assume a: "CHR '':'' \<notin> set key" "CHR ''*'' \<notin> set key"
  then have "next_token key = (RADIX_NORMAL, key, [])"
    by (auto simp: Cons next_token_def takeWhile_eq_all_conv dropWhile_eq_Nil_conv)
  then show ?thesis using tokens_step [of key] Cons by (simp add: pattern_def)
qed (simp add: pattern_def)

subsection \<open>The node of a pattern\<close>

definition no_lit :: "sym list \<Rightarrow> bool" where
  "no_lit r \<longleftrightarrow> (case r of Lit c # q \<Rightarrow> False | _ \<Rightarrow> True)"

lemma no_lit_take: "no_lit r \<Longrightarrow> 0 < n \<Longrightarrow> take n r \<noteq> map Lit (x # xs)"
  by (cases r; cases n) (auto simp: no_lit_def)

lemma via_long:
  assumes "no_lit r" "rn_kind c = RADIX_NORMAL" "length key < length (rn_key c)"
  shows "via c (map Lit key @ r) = None"
proof -
  have False if "map Lit key @ r = node_syms c @ q" for q
  proof -
    from that have "take (length (rn_key c)) (map Lit key @ r) = map Lit (rn_key c)"
      by (simp add: node_syms_def assms(2))
    then have "drop (length key) (take (length (rn_key c)) (map Lit key @ r)) = map Lit (drop (length key) (rn_key c))"
      by (metis drop_map)
    moreover have "drop (length key) (take (length (rn_key c)) (map Lit key @ r)) = take (length (rn_key c) - length key) r"
      by (simp only: drop_take) simp
    ultimately have "take (length (rn_key c) - length key) r = map Lit (drop (length key) (rn_key c))" by simp
    moreover obtain x xs where "drop (length key) (rn_key c) = x # xs"
      using assms(3) by (metis Cons_nth_drop_Suc)
    ultimately show False using no_lit_take [OF assms(1)] assms(3) by simp
  qed
  then show ?thesis by (auto simp: via_iff)
qed

lemma via_apart:
  assumes "rn_kind c = RADIX_NORMAL" "n < length (rn_key c)" "n < length key" "rn_key c ! n \<noteq> key ! n"
  shows "via c (map Lit key @ r) = None"
proof -
  have False if "map Lit key @ r = node_syms c @ q" for q
  proof -
    from that assms have "(map Lit key @ r) ! n = Lit (rn_key c ! n)"
      by (simp add: node_syms_def nth_append)
    then show False using assms by (simp add: nth_append)
  qed
  then show ?thesis by (auto simp: via_iff)
qed

lemma find_correct:
  fixes n :: "'p radix_node" and cs :: "'p radix_node list"
  assumes "key \<noteq> []" "kind = RADIX_NORMAL \<Longrightarrow> no_lit r"
  shows "wf_radix n \<Longrightarrow> (case find_token n key kind of
      Some m \<Rightarrow> wf_radix m \<and> node_map n (token_syms kind key @ r) = node_map m r
    | None \<Rightarrow> node_map n (token_syms kind key @ r) = None)"
    and "separate_heads cs \<Longrightarrow> \<forall>c\<in>set cs. wf_radix c \<Longrightarrow> (case find_children cs key kind of
      Some m \<Rightarrow> wf_radix m \<and> children_map cs (token_syms kind key @ r) = node_map m r
    | None \<Rightarrow> children_map cs (token_syms kind key @ r) = None)"
  using assms
proof (induction n key kind and cs key kind rule: find_token_find_children.induct)
  case (1 nkey nkind pl cs key kind)
  then have "separate_heads cs" "\<forall>c\<in>set cs. wf_radix c" by (simp_all add: wf_children_heads)
  from 1(1) [OF this 1(3,4)] 1(3) show ?case by (simp split: option.splits)
next
  case (3 c cs key kind)
  note key = \<open>key \<noteq> []\<close> and sep = \<open>separate_heads (c # cs)\<close>
  let ?p = "token_syms kind key @ r" and ?n = "node_common c key kind"
  have p: "?p \<noteq> []" "hd ?p = hd (token_syms kind key)" using key by (simp_all add: hd_token_append)
  have ck: "rn_key c \<noteq> []" using sep by (simp add: separate_Cons)
  note step = children_map_Cons [OF sep, of ?p]
  show ?case
  proof (cases "?n = 0")
    case True
    with 3(1) [OF refl True] 3(3,4,5,6) show ?thesis
      using step p node_common_zero [OF ck key, of kind]
      by (simp add: separate_Cons del: children_map.simps split: option.splits)
  next
    case nz: False
    then have via: "children_map (c # cs) ?p = via c ?p"
      using step p node_common_zero [OF ck key, of kind] by simp
    show ?thesis
    proof (cases "?n = length (rn_key c) \<and> ?n = length key")
      case True
      then have "token_syms kind key = node_syms c" using node_common_full [of c key kind] key by (simp add: node_syms_def)
      with True nz via 3(4) show ?thesis by (simp add: via_append del: children_map.simps)
    next
      case part: False
      note normal = node_common_normal [OF nz part]
      have pre: "take ?n (rn_key c) = take ?n key" "?n \<le> length (rn_key c)" "?n \<le> length key"
        unfolding normal(3) by (fact common_prefix_props)+
      show ?thesis
      proof (cases "?n = length (rn_key c)")
        case True
        then have "key = rn_key c @ drop ?n key" using pre(1) append_take_drop_id [of ?n key] by simp
        then have "map Lit key = map Lit (rn_key c) @ map Lit (drop ?n key)" by (metis map_append)
        then have p': "?p = node_syms c @ token_syms kind (drop ?n key) @ r" by (simp add: normal(1,2) node_syms_def)
        have "drop ?n key \<noteq> []" using part pre True by auto
        from 3(2) [OF refl nz part True _ this 3(6)] 3(4) show ?thesis
          using nz part True via by (simp add: p' via_append del: children_map.simps cong: option.case_cong)
      next
        case False
        have "via c ?p = None"
        proof (cases "?n = length key")
          case True
          with False pre via_long [of r c key] 3(6) normal show ?thesis by simp
        next
          case kf: False
          have "rn_key c ! ?n \<noteq> key ! ?n"
            using common_prefix_props(4) [of "rn_key c" key] False kf pre by (simp add: normal(3))
          then show ?thesis using via_apart [OF normal(1), of ?n key r] False kf pre normal(2) by simp
        qed
        with nz part False via show ?thesis by (simp add: Let_def del: children_map.simps)
      qed
    qed
  qed
qed simp

lemma canonical_no_lit: "canonical ts \<Longrightarrow> ts = [] \<or> fst (hd ts) \<noteq> RADIX_NORMAL \<Longrightarrow>
    no_lit (concat (map (\<lambda>(kind, tok). token_syms kind tok) ts))"
proof (cases ts rule: canonical.cases)
  case (2 kind tok ts')
  assume "canonical ts" "ts = [] \<or> fst (hd ts) \<noteq> RADIX_NORMAL"
  with 2 show ?thesis by (cases kind) (simp_all add: no_lit_def)
qed (simp add: no_lit_def)

lemma find_tokens_correct:
  "canonical ts \<Longrightarrow> wf_radix n \<Longrightarrow> find_tokens ts n = node_map n (concat (map (\<lambda>(kind, tok). token_syms kind tok) ts))"
proof (induction ts arbitrary: n rule: canonical.induct)
  case (2 kind tok ts)
  let ?r = "concat (map (\<lambda>(kind, tok). token_syms kind tok) ts)"
  have tok: "tok \<noteq> []" and ts: "canonical ts" using 2(2) by simp_all
  have "kind = RADIX_NORMAL \<Longrightarrow> no_lit ?r" using 2(2) canonical_no_lit by auto
  from find_correct(1) [where kind = kind and r = ?r, OF tok this 2(3)] show ?case
    by (cases "find_token n tok kind") (simp_all add: 2(1) [OF ts])
qed simp

end
