(* ===== verification/Radix_Find.thy ===== *)
theory Radix_Find
  imports Radix_Props
begin

text \<open>
  The lookup of the radix tree against its denotation.  \<open>captures\<close> says whether a pattern matches a
  path and with which bytes each capture is filled; \<open>prefers\<close> orders patterns by the kind of the
  first symbol in which they differ.
\<close>

declare children_map.simps(2) [simp del]

fun captures :: "sym list \<Rightarrow> bytes \<Rightarrow> (bytes \<times> bytes) list option" where
  "captures [] path = (if path = [] then Some [] else None)"
| "captures (s # q) path = (if path = [] then None else
     (case s of
        Lit c \<Rightarrow> if c = hd path then captures q (tl path) else None
      | Named n \<Rightarrow> map_option (Cons (tl n, takeWhile (\<lambda>c. c \<noteq> CHR ''/'') path))
          (captures q (dropWhile (\<lambda>c. c \<noteq> CHR ''/'') path))
      | Glob n \<Rightarrow> map_option (Cons (tl n, path)) (captures q [])))"

fun prefers :: "sym list \<Rightarrow> sym list \<Rightarrow> bool" where
  "prefers (x # p) (y # q) \<longleftrightarrow> (if x = y then prefers p q else sym_rank x \<le> sym_rank y)"
| "prefers p q \<longleftrightarrow> True"

definition param_of :: "bytes \<times> bytes \<Rightarrow> radix_param" where
  "param_of c = \<lparr> rp_name = fst c, rp_value = snd c \<rparr>"

lemma prefers_append [simp]: "prefers (r @ p) (r @ q) = prefers p q"
  by (induction r) auto

lemma prefers_refl [simp]: "prefers p p"
  by (induction p) auto

lemma captures_lits: "captures (map Lit w @ q) path =
    (if take (length w) path = w then captures q (drop (length w) path) else None)"
  by (induction w arbitrary: path) (auto simp: neq_Nil_conv)

lemma captures_normal: "rn_kind c = RADIX_NORMAL \<Longrightarrow> captures (node_syms c @ q) path =
    (if take (length (rn_key c)) path = rn_key c then captures q (drop (length (rn_key c)) path) else None)"
  by (simp add: node_syms_def captures_lits)

lemma push_param_take: "length ps \<le> mx \<Longrightarrow> push_param mx ps n v = take mx (ps @ [param_of (n, v)])"
  by (simp add: push_param_def param_of_def)

text \<open>What a found payload means: the pattern it is stored under, and the parameters.\<close>

definition found :: "nat \<Rightarrow> (sym list \<Rightarrow> 'p option) \<Rightarrow> bytes \<Rightarrow> radix_param list \<Rightarrow> 'p \<times> radix_param list \<Rightarrow> bool" where
  "found mx f path ps r \<longleftrightarrow> (\<exists>q cs. f q = Some (fst r) \<and> captures q path = Some cs \<and>
     snd r = take mx (ps @ map param_of cs) \<and>
     (\<forall>q'. f q' \<noteq> None \<longrightarrow> captures q' path \<noteq> None \<longrightarrow> prefers q q'))"

text \<open>Lookup below one child: the child's symbols, then the child itself.\<close>

definition try_child :: "nat \<Rightarrow> 'p radix_node \<Rightarrow> bytes \<Rightarrow> radix_param list \<Rightarrow> ('p \<times> radix_param list) option" where
  "try_child mx child path ps =
     (case rn_kind child of
        RADIX_NORMAL \<Rightarrow>
          if length (rn_key child) \<le> length path \<and> take (length (rn_key child)) path = rn_key child
          then find_rec mx child (drop (length (rn_key child)) path) ps else None
      | RADIX_NAMED \<Rightarrow>
          find_rec mx child (dropWhile (\<lambda>c. c \<noteq> CHR ''/'') path)
            (push_param mx ps (tl (rn_key child)) (takeWhile (\<lambda>c. c \<noteq> CHR ''/'') path))
      | RADIX_GLOB \<Rightarrow> find_rec mx child [] (push_param mx ps (tl (rn_key child)) path))"

lemma find_rec_children_Cons: "find_rec_children mx (child # cs) path ps =
    (case try_child mx child path ps of Some r \<Rightarrow> Some r | None \<Rightarrow> find_rec_children mx cs path ps)"
  by (simp add: try_child_def)

text \<open>The outcome of a lookup is right for a denotation \<open>f\<close>.\<close>

definition right :: "nat \<Rightarrow> (sym list \<Rightarrow> 'p option) \<Rightarrow> bytes \<Rightarrow> radix_param list \<Rightarrow> ('p \<times> radix_param list) option \<Rightarrow> bool" where
  "right mx f path ps r \<longleftrightarrow> (case r of
     Some x \<Rightarrow> found mx f path ps x
   | None \<Rightarrow> \<forall>q. f q \<noteq> None \<longrightarrow> captures q path = None)"


lemma found_cong: "(\<And>q. f q = g q) \<Longrightarrow> found mx f = found mx g"
  by (metis ext)

lemma found_via:
  assumes r: "found mx (node_map c) path' (take mx (ps @ map param_of cs)) r"
    and step: "\<And>q. captures (node_syms c @ q) path = map_option (\<lambda>ds. cs @ ds) (captures q path')"
    and len: "length ps \<le> mx"
  shows "found mx (via c) path ps r"
proof -
  from r obtain q ds where q: "node_map c q = Some (fst r)" "captures q path' = Some ds"
      "snd r = take mx (take mx (ps @ map param_of cs) @ map param_of ds)"
    and best: "\<And>q'. node_map c q' \<noteq> None \<Longrightarrow> captures q' path' \<noteq> None \<Longrightarrow> prefers q q'"
    unfolding found_def by blast
  have again: "take mx (take mx (xs @ ys) @ zs) = take mx (xs @ ys @ zs)" for xs ys zs :: "radix_param list"
    by (cases "length xs \<le> mx") (simp_all add: min_def)
  have "snd r = take mx (ps @ map param_of (cs @ ds))" by (simp only: q(3) again map_append append_assoc)
  moreover have "prefers (node_syms c @ q) q'" if "via c q' \<noteq> None" "captures q' path \<noteq> None" for q'
  proof -
    from that(1) obtain p where p: "q' = node_syms c @ p" by (auto simp: via_iff split: if_splits)
    with that best [of p] show ?thesis by (simp add: via_append step)
  qed
  moreover have "via c (node_syms c @ q) = Some (fst r)" by (simp add: via_append q)
  moreover have "captures (node_syms c @ q) path = Some (cs @ ds)" by (simp add: step q)
  ultimately show ?thesis unfolding found_def by blast
qed

lemma right_via:
  assumes r: "right mx (node_map c) path' (take mx (ps @ map param_of cs)) r"
    and step: "\<And>q. captures (node_syms c @ q) path = map_option (\<lambda>ds. cs @ ds) (captures q path')"
    and len: "length ps \<le> mx"
  shows "right mx (via c) path ps r"
proof (cases r)
  case None
  have "captures q path = None" if "via c q \<noteq> None" for q
  proof -
    from that obtain p where p: "q = node_syms c @ p" by (auto simp: via_iff split: if_splits)
    with that r None show ?thesis by (simp add: right_def via_append step)
  qed
  then show ?thesis by (simp add: right_def None)
next
  case (Some x)
  with r found_via [OF _ step len] show ?thesis by (simp add: right_def)
qed

lemma try_child_right:
  assumes key: "rn_key c \<noteq> []" and path: "path \<noteq> []" and len: "length ps \<le> mx"
    and IH: "\<And>path ps. length ps \<le> mx \<Longrightarrow> right mx (node_map c) path ps (find_rec mx c path ps)"
  shows "right mx (via c) path ps (try_child mx c path ps)"
proof (cases "rn_kind c")
  case RADIX_NORMAL
  show ?thesis
  proof (cases "take (length (rn_key c)) path = rn_key c")
    case True
    moreover from True have "length (rn_key c) \<le> length path" 
      by (metis length_take min.cobounded1)
    moreover have "right mx (via c) path ps (find_rec mx c (drop (length (rn_key c)) path) ps)"
      using IH [OF len] True len
      by (intro right_via [where cs = "[]" and path' = "drop (length (rn_key c)) path"])
        (simp_all add: captures_normal [OF RADIX_NORMAL] option.map_ident)
    ultimately show ?thesis by (simp add: try_child_def RADIX_NORMAL)
  next
    case False
    then have "via c q \<noteq> None \<Longrightarrow> captures q path = None" for q
      by (auto simp: via_iff captures_normal [OF RADIX_NORMAL] split: if_splits)
    with False show ?thesis by (simp add: try_child_def RADIX_NORMAL right_def)
  qed
next
  case RADIX_NAMED
  have "right mx (via c) path ps (find_rec mx c (dropWhile (\<lambda>c. c \<noteq> CHR ''/'') path)
      (take mx (ps @ map param_of [(tl (rn_key c), takeWhile (\<lambda>c. c \<noteq> CHR ''/'') path)])))"
    using len path by (intro right_via [OF IH]) (simp_all add: node_syms_def RADIX_NAMED comp_def)
  then show ?thesis by (simp add: try_child_def RADIX_NAMED push_param_take [OF len])
next
  case RADIX_GLOB
  have "right mx (via c) path ps (find_rec mx c [] (take mx (ps @ map param_of [(tl (rn_key c), path)])))"
    using len path by (intro right_via [OF IH]) (simp_all add: node_syms_def RADIX_GLOB comp_def)
  then show ?thesis by (simp add: try_child_def RADIX_GLOB push_param_take [OF len])
qed

text \<open>The whole lookup, by induction on the tree.\<close>

lemma right_children:
  assumes "wf_children (c # cs)"
    and c: "right mx (via c) path ps r" and cs: "right mx (children_map cs) path ps r'"
  shows "right mx (children_map (c # cs)) path ps (case r of Some x \<Rightarrow> Some x | None \<Rightarrow> r')"
proof -
  from assms(1) have sep: "separate_heads (c # cs)" by (simp add: wf_children_heads)
  then have ck: "rn_key c \<noteq> []" and keys: "\<forall>x\<in>set cs. rn_key x \<noteq> []" by (auto simp: separate_heads_def)
  have map: "children_map (c # cs) q = (if q \<noteq> [] \<and> hd q = hd (node_syms c) then via c q else children_map cs q)" for q
    by (rule children_map_Cons [OF sep])
  have head: "q \<noteq> [] \<and> hd q \<in> set (head_syms cs)" if "children_map cs q \<noteq> None" for q
  proof
    show "hd q \<in> set (head_syms cs)" using children_map_other [OF keys, of q] that by blast
    show "q \<noteq> []"
    proof
      assume "q = []"
      then have "children_map cs q = None" using keys by (intro children_map_None) (auto simp: node_syms_Nil eq_commute [of "[]"])
      with that show False by simp
    qed
  qed
  have out: "children_map (c # cs) q = children_map cs q" if "children_map cs q \<noteq> None" for q
    using head [OF that] sep map [of q] by (auto simp: separate_Cons)
  have rank: "sym_rank (hd (node_syms c)) \<le> sym_rank s" if "s \<in> set (head_syms cs)" for s
    using that assms(1) ck keys by (auto simp: wf_children_def head_syms_def sym_rank_node)
  show ?thesis
  proof (cases r)
    case None
    show ?thesis
    proof (cases r')
      case None
      with c cs \<open>r = None\<close> show ?thesis by (simp add: right_def map del: children_map.simps)
    next
      case (Some x)
      with cs obtain q ds where q: "children_map cs q = Some (fst x)" "captures q path = Some ds"
          "snd x = take mx (ps @ map param_of ds)"
        and best: "\<And>q'. children_map cs q' \<noteq> None \<Longrightarrow> captures q' path \<noteq> None \<Longrightarrow> prefers q q'"
        unfolding right_def found_def by auto
      have "prefers q q'" if "children_map (c # cs) q' \<noteq> None" "captures q' path \<noteq> None" for q'
        using that c None best by (auto simp: right_def map split: if_splits)
      with q out [of q] show ?thesis unfolding right_def found_def by (auto simp: None Some)
    qed
  next
    case (Some x)
    with c obtain q ds where q: "via c q = Some (fst x)" "captures q path = Some ds"
        "snd x = take mx (ps @ map param_of ds)"
      and best: "\<And>q'. via c q' \<noteq> None \<Longrightarrow> captures q' path \<noteq> None \<Longrightarrow> prefers q q'"
      unfolding right_def found_def by auto
    have hd: "q \<noteq> []" "hd q = hd (node_syms c)" using via_hd [OF ck, of q] q(1) by simp_all
    have "prefers q q'" if q': "children_map (c # cs) q' \<noteq> None" "captures q' path \<noteq> None" for q'
    proof (cases "q' \<noteq> [] \<and> hd q' = hd (node_syms c)")
      case True
      with q' best show ?thesis by (simp add: map)
    next
      case False
      with q' have m: "children_map cs q' \<noteq> None" by (simp add: map)
      have "hd q' \<noteq> hd q" "sym_rank (hd q) \<le> sym_rank (hd q')"
        using head [OF m] sep rank hd by (auto simp: separate_Cons)
      with hd head [OF m] show ?thesis by (cases q; cases q') auto
    qed
    moreover have "children_map (c # cs) q = Some (fst x)" using hd q(1) by (simp add: map)
    ultimately show ?thesis using q(2,3) unfolding right_def found_def by (auto simp: Some)
  qed
qed

lemma find_rec_right:
  "wf_radix n \<Longrightarrow> length ps \<le> mx \<Longrightarrow> right mx (node_map n) path ps (find_rec mx n path ps)"
proof (induction n arbitrary: path ps)
  case (RadixNode key kind pl cs)
  show ?case
  proof (cases "path = []")
    case True
    have only: "captures q [] \<noteq> None \<Longrightarrow> q = []" for q by (cases q) auto
    show ?thesis
    proof (cases pl)
      case None
      have "captures q [] = None" if "node_map (RadixNode key kind pl cs) q \<noteq> None" for q
        using that None only [of q] by (cases "q = []"; cases "captures q []") auto
      then show ?thesis by (simp add: True None right_def)
    next
      case (Some v)
      have "found mx (node_map (RadixNode key kind pl cs)) [] ps (v, ps)"
        unfolding found_def using only RadixNode.prems(2) by (intro exI [of _ "[]"]) (auto simp: Some)
      then show ?thesis by (simp add: True Some right_def del: node_map.simps)
    qed
  next
    case False
    have "wf_children ds \<Longrightarrow> set ds \<subseteq> set cs \<Longrightarrow> right mx (children_map ds) path ps (find_rec_children mx ds path ps)" for ds
    proof (induction ds)
      case (Cons c ds)
      from Cons.prems have c: "c \<in> set cs" "rn_key c \<noteq> []" and ds: "wf_children ds" "set ds \<subseteq> set cs"
        by (auto simp: wf_children_def head_syms_def)
      from c(1) RadixNode.prems(1) have wf: "wf_radix c" by simp
      have "right mx (via c) path ps (try_child mx c path ps)"
        using RadixNode.IH [OF c(1) wf] by (rule try_child_right [OF c(2) False RadixNode.prems(2)])
      with right_children [OF Cons.prems(1) _ Cons.IH [OF ds]] show ?case
        by (simp only: find_rec_children_Cons)
    qed (simp add: right_def)
    from this [of cs] RadixNode.prems(1)
    have kids: "right mx (children_map cs) path ps (find_rec_children mx cs path ps)" by simp
    have none: "captures [] path = None" using False by simp
    from kids False show ?thesis
    proof (cases "find_rec_children mx cs path ps")
      case None
      with kids False none show ?thesis by (auto simp: right_def)
    next
      case (Some x)
      with kids obtain q ds where q: "children_map cs q = Some (fst x)" "captures q path = Some ds"
          "snd x = take mx (ps @ map param_of ds)"
        and best: "\<And>q'. children_map cs q' \<noteq> None \<Longrightarrow> captures q' path \<noteq> None \<Longrightarrow> prefers q q'"
        unfolding right_def found_def by auto
      have "q \<noteq> []" using q(2) none by auto
      moreover have "prefers q q'" if "node_map (RadixNode key kind pl cs) q' \<noteq> None" "captures q' path \<noteq> None" for q'
        using that best [of q'] none by (cases "q' = []") auto
      ultimately have "found mx (node_map (RadixNode key kind pl cs)) path ps x"
        unfolding found_def using q by (intro exI [of _ q]) auto
      with Some False show ?thesis by (simp add: right_def del: node_map.simps)
    qed
  qed
qed

end
