(* ===== verification/Kv_Store.thy ===== *)
theory Kv_Store
  imports Main
begin

text \<open>
  The interface of a store that maps keys to values and counts its keys: what an update does to
  lookup and count, and what follows for any sequence of updates.
\<close>

locale kv_store =
  fixes empty :: 't
    and update :: "'t \<Rightarrow> 'k \<Rightarrow> 'v \<Rightarrow> 't"
    and lookup :: "'t \<Rightarrow> 'k \<Rightarrow> 'v option"
    and count :: "'t \<Rightarrow> int"
    and inv :: "'t \<Rightarrow> bool"
  assumes inv_empty: "inv empty"
    and inv_update: "inv t \<Longrightarrow> inv (update t k v)"
    and lookup_empty: "lookup empty k = None"
    and lookup_update: "inv t \<Longrightarrow> lookup (update t k v) k' = (if k' = k then Some v else lookup t k')"
    and count_empty: "count empty = 0"
    and count_update: "inv t \<Longrightarrow> count (update t k v) = (if lookup t k = None then count t + 1 else count t)"
begin

definition updates_of :: "('k \<times> 'v) list \<Rightarrow> 't" where
  "updates_of kvs = fold (\<lambda>(k, v) t. update t k v) kvs empty"

lemma updates_of_snoc: "updates_of (kvs @ [(k, v)]) = update (updates_of kvs) k v"
  by (simp add: updates_of_def)

lemma inv_updates: "inv (updates_of kvs)"
proof (induction kvs rule: rev_induct)
  case (snoc kv kvs)
  then show ?case by (cases kv) (simp only: updates_of_snoc inv_update)
qed (simp add: updates_of_def inv_empty)

lemma lookup_updates: "lookup (updates_of kvs) k = map_of (rev kvs) k"
proof (induction kvs rule: rev_induct)
  case (snoc kv kvs)
  then show ?case by (cases kv) (simp add: updates_of_snoc lookup_update inv_updates)
qed (simp add: updates_of_def lookup_empty)

lemma count_updates: "count (updates_of kvs) = int (card (fst ` set kvs))"
proof (induction kvs rule: rev_induct)
  case (snoc kv kvs)
  obtain k v where kv: "kv = (k, v)" by fastforce
  have "lookup (updates_of kvs) k = None \<longleftrightarrow> k \<notin> fst ` set kvs"
    by (simp add: lookup_updates map_of_eq_None_iff)
  with snoc show ?case by (simp add: kv updates_of_snoc count_update inv_updates card_insert_if)
qed (simp add: updates_of_def count_empty)

end

end
