(* ===== verification/Radix_Spec.thy ===== *)
theory Radix_Spec
  imports Radix_Find Kv_Store
begin

text \<open>
  The properties of the radix tree.  It is a store of payloads by pattern (an interpretation of
  \<open>kv_store\<close>), and its lookup matches a path against the stored patterns.
\<close>

definition radix_inv :: "'p radix_tree \<Rightarrow> bool" where
  "radix_inv t \<longleftrightarrow> wf_radix (rt_root t) \<and> (\<forall>q. node_map (rt_root t) q \<noteq> None \<longrightarrow> (\<exists>key. q = pattern key))"

definition stored :: "'p radix_tree \<Rightarrow> bytes \<Rightarrow> 'p option" where
  "stored t key = node_map (rt_root t) (pattern key)"

lemma add_updates: "updates (add_tokens (tokens key) v) (pattern key) v"
  unfolding pattern_def by (intro add_tokens_updates canonical_nonempty tokens_canonical)

lemma node_map_add: "wf_radix (rt_root t) \<Longrightarrow>
    node_map (rt_root (radix_tree_add t key v)) q = (if q = pattern key then Some v else node_map (rt_root t) q)"
  by (simp add: radix_tree_add_def updatesD [OF add_updates])

interpretation radix: kv_store radix_tree_new radix_tree_add stored rt_count radix_inv
proof
  show "radix_inv radix_tree_new" by (simp add: radix_inv_def radix_tree_new_def)
  show "radix_inv (radix_tree_add t k v)" if "radix_inv t" for t :: "'p radix_tree" and k v
    using that updatesD(1) [OF add_updates, of "rt_root t" k v]
    by (auto simp: radix_inv_def node_map_add) (simp add: radix_tree_add_def)
  show "stored (radix_tree_add t k v) k' = (if k' = k then Some v else stored t k')" if "radix_inv t"
    for t :: "'p radix_tree" and k v k'
    using that by (simp add: stored_def node_map_add pattern_inject radix_inv_def)
  show "rt_count (radix_tree_add t k v) = (if stored t k = None then rt_count t + 1 else rt_count t)" if "radix_inv t"
    for t :: "'p radix_tree" and k v
    using that find_tokens_correct [OF tokens_canonical, of "rt_root t" k]
    by (simp add: stored_def radix_tree_add_def pattern_def radix_inv_def)
qed (simp_all add: stored_def radix_tree_new_def)

text \<open>A tree after a sequence of \<open>radix_tree_add\<close>.\<close>

definition routes :: "(bytes \<times> 'p) list \<Rightarrow> 'p radix_tree" where
  "routes kvs = fold (\<lambda>(key, v) t. radix_tree_add t key v) kvs radix_tree_new"

lemma routes_updates: "routes kvs = radix.updates_of kvs"
  by (simp add: routes_def radix.updates_of_def)

lemma node_map_routes: "node_map (rt_root (routes kvs)) q \<noteq> None \<longleftrightarrow> (\<exists>key \<in> fst ` set kvs. q = pattern key)"
proof
  assume q: "node_map (rt_root (routes kvs)) q \<noteq> None"
  then obtain key where "q = pattern key"
    using radix.inv_updates [of kvs] by (auto simp: routes_updates radix_inv_def)
  with q show "\<exists>key \<in> fst ` set kvs. q = pattern key"
    using radix.lookup_updates [of kvs key] map_of_eq_None_iff [of "rev kvs" key]
    by (auto simp: routes_updates stored_def)
next
  assume "\<exists>key \<in> fst ` set kvs. q = pattern key"
  then show "node_map (rt_root (routes kvs)) q \<noteq> None"
    using radix.lookup_updates [of kvs] map_of_eq_None_iff [of "rev kvs"]
    by (fastforce simp: routes_updates stored_def)
qed

text \<open>After any sequence of registrations each pattern has the payload it was given last, and
  the count is the number of distinct patterns: splitting a chunk, adding a sibling and sorting lose
  and invent nothing.\<close>

theorem routes_store:
  "stored (routes kvs) key = map_of (rev kvs) key \<and> rt_count (routes kvs) = int (card (fst ` set kvs)) \<and>
   wf_radix (rt_root (routes kvs))"
  using radix.lookup_updates [of kvs key] radix.count_updates [of kvs] radix.inv_updates [of kvs]
  by (simp add: routes_updates radix_inv_def)

lemma routes_find:
  "case radix_tree_find (routes kvs) path mx of
     None \<Rightarrow> (\<forall>key \<in> fst ` set kvs. captures (pattern key) path = None)
   | Some (v, ps) \<Rightarrow> (\<exists>key cs. map_of (rev kvs) key = Some v \<and> captures (pattern key) path = Some cs \<and>
       ps = take mx (map param_of cs) \<and>
       (\<forall>key' \<in> fst ` set kvs. captures (pattern key') path \<noteq> None \<longrightarrow> prefers (pattern key) (pattern key')))"
proof -
  have wf: "wf_radix (rt_root (routes kvs))" using radix.inv_updates [of kvs] by (simp add: routes_updates radix_inv_def)
  have r: "right mx (node_map (rt_root (routes kvs))) path [] (radix_tree_find (routes kvs) path mx)"
    unfolding radix_tree_find_def by (rule find_rec_right [OF wf]) simp
  show ?thesis
  proof (cases "radix_tree_find (routes kvs) path mx")
    case None
    with r show ?thesis using node_map_routes [of kvs] by (auto simp: right_def)
  next
    case (Some x)
    with r obtain q cs where q: "node_map (rt_root (routes kvs)) q = Some (fst x)" "captures q path = Some cs"
        "snd x = take mx (map param_of cs)"
      and best: "\<And>q'. node_map (rt_root (routes kvs)) q' \<noteq> None \<Longrightarrow> captures q' path \<noteq> None \<Longrightarrow> prefers q q'"
      unfolding right_def found_def by auto
    from q(1) obtain key where key: "q = pattern key" using node_map_routes [of kvs q] by auto
    have "map_of (rev kvs) key = Some (fst x)"
      using q(1) radix.lookup_updates [of kvs key] by (simp add: key stored_def routes_updates)
    with q best show ?thesis
      using node_map_routes [of kvs] by (cases x) (auto simp: Some key intro!: exI [of _ key])
  qed
qed

lemma prefers_literal: "captures q path \<noteq> None \<Longrightarrow> prefers q (map Lit path) \<Longrightarrow> q = map Lit path"
proof (induction q arbitrary: path)
  case (Cons s q)
  then obtain c cs where "path = c # cs" by (cases path) auto
  with Cons show ?case by (cases s) (auto split: if_splits)
qed (simp split: if_splits)

text \<open>C20. A lookup fails only if no registered pattern matches the path.  Otherwise it returns the last
  payload of a matching pattern, with the captures of that pattern (as many as fit), and every other
  matching pattern has, at the first symbol where it differs, a symbol of the same or a higher rank.\<close>

theorem find_most_specific:
  "case radix_tree_find (routes kvs) path mx of
     None \<Rightarrow> (\<forall>key \<in> fst ` set kvs. captures (pattern key) path = None)
   | Some (v, ps) \<Rightarrow> (\<exists>key cs. map_of (rev kvs) key = Some v \<and> captures (pattern key) path = Some cs \<and>
       ps = take mx (map param_of cs) \<and>
       (\<forall>key' \<in> fst ` set kvs. captures (pattern key') path \<noteq> None \<longrightarrow> prefers (pattern key) (pattern key')))"
  by (rule routes_find)

lemma find_most_specific_witness:
  "radix_tree_find (routes [(''/u/:id'', 1), (''/u/new'', 2 :: nat)]) ''/u/new'' 8 = Some (2, []) \<and>
   prefers (pattern ''/u/new'') (pattern ''/u/:id'')"
proof -
  let ?kvs = "[(''/u/:id'', 1), (''/u/new'', 2 :: nat)]"
  have run: "radix_tree_find (routes ?kvs) ''/u/new'' 8 = Some (2, [])" by code_simp
  have match: "captures (pattern ''/u/:id'') ''/u/new'' \<noteq> None" by code_simp
  from find_most_specific [of ?kvs "''/u/new''" 8] obtain key where
    "map_of (rev ?kvs) key = Some 2" and best: "\<forall>key' \<in> fst ` set ?kvs.
      captures (pattern key') ''/u/new'' \<noteq> None \<longrightarrow> prefers (pattern key) (pattern key')"
    unfolding run by auto
  then have "key = ''/u/new''" by (simp split: if_splits)
  with best match run show ?thesis by simp
qed

text \<open>A registered literal path is found first, whatever parameter and catch-all patterns match it
  too and whatever the order of registration.\<close>

theorem literal_route_wins:
  assumes "path \<in> fst ` set kvs" "CHR '':'' \<notin> set path" "CHR ''*'' \<notin> set path"
  shows "radix_tree_find (routes kvs) path mx = map_option (\<lambda>v. (v, [])) (map_of (rev kvs) path)"
proof -
  have lit: "pattern path = map Lit path" using literal_pattern assms(2,3) by blast
  have caps: "captures (map Lit path) path = Some []" using captures_lits [of path "[]" path] by simp
  show ?thesis
  proof (cases "radix_tree_find (routes kvs) path mx")
    case None
    then have "\<forall>key \<in> fst ` set kvs. captures (pattern key) path = None" using routes_find [of kvs path mx] by simp
    with assms(1) show ?thesis by (metis lit caps option.distinct(1))
  next
    case (Some x)
    obtain v ps where x: "x = (v, ps)" by fastforce
    from routes_find [of kvs path mx] obtain key cs where
      key: "map_of (rev kvs) key = Some v" "captures (pattern key) path = Some cs" "ps = take mx (map param_of cs)"
      and best: "\<forall>key' \<in> fst ` set kvs. captures (pattern key') path \<noteq> None \<longrightarrow> prefers (pattern key) (pattern key')"
      by (auto simp: Some x)
    have "pattern key = pattern path"
      using bspec [OF best assms(1)] key(2) prefers_literal [of "pattern key" path] by (simp add: lit caps)
    then have "key = path" by (simp only: pattern_inject)
    with key caps show ?thesis by (simp add: Some x lit)
  qed
qed

lemma literal_route_wins_witness:
  "radix_tree_find (routes [(''*all'', 1), (''/u/:id'', 2), (''/u/new'', 3 :: nat)]) ''/u/new'' 8 = Some (3, [])"
  by (subst literal_route_wins) simp_all

end
