(* ===== verification/VM_Invariants.thy ===== *)
theory VM_Invariants
  imports VM_Core
begin

text \<open>
  Invariants of the VM state over every way a C function can leave.  \<open>preserves P m\<close>: after a value, an
  escape or an exit of \<open>m\<close>, \<open>P\<close> holds if it held before.  \<open>fixes_part f m\<close>: \<open>m\<close> leaves the part \<open>f\<close> of
  the state alone.
\<close>

subsection \<open>Invariants over every way to leave\<close>

named_theorems preserves_rules \<open>what a C function of the VM preserves\<close>

definition run_state :: "'a run \<Rightarrow> vm option" where
  "run_state r = (case r of Done x s \<Rightarrow> Some s | Longjmp b s \<Rightarrow> Some s | Exit msg s \<Rightarrow> Some s
     | ActorExit msg s \<Rightarrow> Some s | _ \<Rightarrow> None)"

lemma run_state_simps [simp]: "run_state (Done x s) = Some s" "run_state (Longjmp b s) = Some s"
  "run_state (Exit msg s) = Some s" "run_state (ActorExit msg s) = Some s" "run_state Stuck = None" "run_state Timeout = None"
  by (simp_all add: run_state_def)

definition preserves :: "(vm \<Rightarrow> bool) \<Rightarrow> 'a M \<Rightarrow> bool" where
  "preserves P m \<longleftrightarrow> (\<forall>s s'. P s \<longrightarrow> run_state (m s) = Some s' \<longrightarrow> P s')"

lemma preserves_bindI:
  assumes "preserves P m" "\<And>x s s'. P s \<Longrightarrow> m s = Done x s' \<Longrightarrow> preserves P (f x)"
  shows "preserves P (bindM m f)"
  unfolding preserves_def
proof (intro allI impI)
  fix s s' assume s: "P s" "run_state (bindM m f s) = Some s'"
  show "P s'"
  proof (cases "m s")
    case (Done x t)
    with assms(1) s(1) have "P t" by (auto simp: preserves_def)
    with assms(2) [OF s(1) Done] s(2) Done show ?thesis by (auto simp: preserves_def)
  qed (use assms(1) s in \<open>auto simp: preserves_def\<close>)
qed

lemma preserves_bind:
  "preserves P m \<Longrightarrow> (\<And>x. preserves P (f x)) \<Longrightarrow> preserves P (bindM m f)"
  by (rule preserves_bindI)

lemma preserves_basic: "preserves P (Done x)" "preserves P (retM x)" "preserves P stuckM"
  by (simp_all add: preserves_def)

lemma preserves_if: "(b \<Longrightarrow> preserves P m) \<Longrightarrow> (\<not> b \<Longrightarrow> preserves P n) \<Longrightarrow> preserves P (if b then m else n)"
  by simp

lemma preserves_mapM: "(\<And>x. preserves P (f x)) \<Longrightarrow> preserves P (mapM f xs)"
proof (induction xs)
  case (Cons x xs)
  note f = Cons.prems and IH = Cons.IH [OF Cons.prems]
  show ?case unfolding mapM.simps by (intro preserves_bind preserves_basic f IH)
qed (simp add: preserves_basic)

lemma preserves_forM: "(\<And>x. preserves P (f x)) \<Longrightarrow> preserves P (forM xs f)"
proof (induction xs)
  case (Cons x xs)
  note f = Cons.prems and IH = Cons.IH [OF Cons.prems]
  show ?case unfolding forM.simps by (intro preserves_bind f IH)
qed (simp add: preserves_basic)

text \<open>A function that leaves a part of the state alone preserves what depends on that part only.\<close>

definition fixes_part :: "(vm \<Rightarrow> 'b) \<Rightarrow> 'a M \<Rightarrow> bool" where
  "fixes_part f m \<longleftrightarrow> (\<forall>s s'. run_state (m s) = Some s' \<longrightarrow> f s' = f s)"

lemma preserves_part: "fixes_part f m \<Longrightarrow> (\<And>s s'. f s' = f s \<Longrightarrow> P s \<Longrightarrow> P s') \<Longrightarrow> preserves P m"
  by (auto simp: fixes_part_def preserves_def)

lemma fixes_bind: "fixes_part f m \<Longrightarrow> (\<And>x. fixes_part f (g x)) \<Longrightarrow> fixes_part f (bindM m g)"
  unfolding fixes_part_def
proof (intro allI impI)
  fix s s'
  assume m: "\<forall>s s'. run_state (m s) = Some s' \<longrightarrow> f s' = f s"
    and g: "\<And>x. \<forall>s s'. run_state (g x s) = Some s' \<longrightarrow> f s' = f s" and r: "run_state (bindM m g s) = Some s'"
  show "f s' = f s" using r m g by (cases "m s") (simp; metis run_state_simps)+
qed

lemma fixes_raise: "fixes_part h_boxes (creme_raise_condition c)"
  by (simp add: fixes_part_def creme_raise_condition_def Let_def)

lemma fixes_condition: "fixes_part h_boxes (creme_make_condition msg irr)"
  unfolding creme_make_condition_def get_condition_type_def
  by (intro fixes_bind) (auto simp: fixes_part_def Let_def split: option.splits)

lemma fixes_abort: "fixes_part h_boxes (creme_abort msg :: 'a M)"
proof -
  have "fixes_part h_boxes (bindM (creme_make_condition (take 1023 msg) VNil) creme_raise_condition :: 'a M)"
    by (rule fixes_bind) (rule fixes_condition, rule fixes_raise)
  then show ?thesis by (auto simp: fixes_part_def creme_abort_def Let_def split: if_splits)
qed

lemma fixes_guard: "fixes_part h_boxes (guardM b msg)"
  by (cases b) (simp_all add: fixes_abort, simp add: fixes_part_def)

lemma fixes_reads: "fixes_part f (Done x)" "fixes_part f (retM x)" "fixes_part f stuckM" "fixes_part f (getM g)" "fixes_part f (derefM sel a)"
  "fixes_part f (indexM xs i)"
  by (simp_all add: fixes_part_def derefM_def indexM_def)

lemma fixes_liftR: "fixes_part h_boxes (liftR r)"
proof (cases r)
  case (Inl e)
  then show ?thesis by (cases e) (simp_all add: fixes_abort fixes_reads)
qed (simp add: fixes_reads)

lemma fixes_if: "(b \<Longrightarrow> fixes_part f m) \<Longrightarrow> (\<not> b \<Longrightarrow> fixes_part f n) \<Longrightarrow> fixes_part f (if b then m else n)"
  by simp

lemma preserves_boxes: "fixes_part h_boxes m \<Longrightarrow> preserves (\<lambda>s. P (h_boxes s)) m"
  by (rule preserves_part [of h_boxes]) simp_all

end
