(* ===== verification/Treelist_Builtin_Props.thy ===== *)
theory Treelist_Builtin_Props
  imports Builtin_Treelist Treelist_Seq VM_Invariants Call_Props
begin

text \<open>
  What the builtins of treelists do to the heap.  \<open>trees_ok\<close> is the invariant that every treelist of the
  heap is a well-formed tree; \<open>tree_at\<close> and \<open>mutable_at\<close> say which list a treelist value stands for.
\<close>

subsection \<open>The invariant\<close>

definition box_ok :: "box \<Rightarrow> bool" where
  "box_ok b \<longleftrightarrow> (case b of BoxTreelist t \<Rightarrow> wf_tree t | BoxMutableTreelist t \<Rightarrow> wf_tree t | _ \<Rightarrow> True)"

definition trees_ok :: "vm \<Rightarrow> bool" where
  "trees_ok s \<longleftrightarrow> (\<forall>b\<in>set (h_boxes s). box_ok b)"

lemma box_ok_simps [simp]: "box_ok (BoxTreelist t) \<longleftrightarrow> wf_tree t" "box_ok (BoxMutableTreelist t) \<longleftrightarrow> wf_tree t"
  by (simp_all add: box_ok_def)

abbreviation keeps_trees :: "'a M \<Rightarrow> bool" where
  "keeps_trees m \<equiv> preserves trees_ok m"

lemma keeps_trees_boxes: "fixes_part h_boxes m \<Longrightarrow> keeps_trees m"
  by (rule preserves_part [of h_boxes]) (simp_all add: trees_ok_def)

text \<open>Everything in the argument checks leaves the boxes alone.\<close>

lemma checks_fix_boxes:
  "fixes_part h_boxes (creme_check_min_args n mn who)" "fixes_part h_boxes (arg_present args i who)"
  "fixes_part h_boxes (arg_abort i who what)" "fixes_part h_boxes (creme_arg_box args i kind who)"
  "fixes_part h_boxes (tl_size_arg v who)" "fixes_part h_boxes (tl_bounds v sz who)"
  "fixes_part h_boxes (tl_bounds_incl v sz who)" "fixes_part h_boxes (tl_count v sz who)"
  unfolding creme_check_min_args_def arg_present_def arg_abort_def creme_arg_box_def tl_size_arg_def
    tl_bounds_def tl_bounds_incl_def tl_count_def
  by (auto intro!: fixes_guard fixes_abort fixes_bind fixes_if fixes_reads split: val.split)

lemma cons_list_fixes: "fixes_part h_boxes (cons_list vs v)"
proof (induction vs)
  case (Cons a vs)
  have "fixes_part h_boxes (creme_cons a r)" for r by (simp add: fixes_part_def)
  with Cons show ?case unfolding cons_list.simps by (intro fixes_bind)
qed (simp add: fixes_part_def)

lemma list_walk_fixes: "fixes_part f (list_walk n v)"
proof (induction n arbitrary: v)
  case (Suc n)
  then show ?case
    by (cases v; simp del: retM_Done) (auto intro!: fixes_bind fixes_reads)
qed (simp add: fixes_part_def)

lemma list_items_fixes: "fixes_part f (list_items l)"
  using list_walk_fixes [of f _ l] by (simp add: fixes_part_def list_items_def del: list_walk.simps)

lemma list_array_fixes: "fixes_part h_boxes (list_to_value_array l)"
  unfolding list_to_value_array_def by (auto intro!: fixes_bind fixes_reads list_items_fixes)

lemma new_vector_fixes: "fixes_part h_boxes (new_vector vs)"
  by (simp add: fixes_part_def)

lemmas tree_fixes = checks_fix_boxes fixes_abort fixes_guard fixes_liftR fixes_reads cons_list_fixes
  new_vector_fixes list_array_fixes

lemmas keeps_checks [preserves_rules] = tree_fixes [THEN keeps_trees_boxes]

subsection \<open>Trees from boxes, and new trees\<close>

lemma trees_okD: "trees_ok s \<Longrightarrow> p < length (h_boxes s) \<Longrightarrow> box_ok (h_boxes s ! p)"
  by (simp add: trees_ok_def)

lemma tree_reads:
  "treelist_at p s = Done t s' \<Longrightarrow> trees_ok s \<Longrightarrow> wf_tree t"
  "mtl_root p s = Done t s' \<Longrightarrow> trees_ok s \<Longrightarrow> wf_tree t"
  by (auto simp: treelist_at_def mtl_root_def bindM_Done_iff derefM_def split: if_splits box.splits dest: trees_okD)

lemma tree_reads_fix: "fixes_part h_boxes (treelist_at p)" "fixes_part h_boxes (mtl_root p)"
  unfolding treelist_at_def mtl_root_def by (auto intro!: fixes_bind fixes_reads split: box.split)

lemma tl_arg_fix: "fixes_part h_boxes (tl_arg v who)" "fixes_part h_boxes (mtl_arg v who)" "fixes_part h_boxes (any_tree_arg v who)"
  unfolding tl_arg_def mtl_arg_def any_tree_arg_def
  by (auto intro!: fixes_bind fixes_if tree_fixes tree_reads_fix split: val.split)

lemma arg_box_Done: "creme_arg_box args i kind who s = Done p s' \<Longrightarrow> s' = s"
  by (auto simp: creme_arg_box_def arg_present_def bindM_Done_iff guardM_Done_iff abort_not_Done arg_abort_def
      split: val.splits if_splits)

lemma tl_arg_wf: "tl_arg v who s = Done t s' \<Longrightarrow> trees_ok s \<Longrightarrow> wf_tree t"
  "any_tree_arg v who s = Done t s' \<Longrightarrow> trees_ok s \<Longrightarrow> wf_tree t"
  by (auto simp: tl_arg_def any_tree_arg_def bindM_Done_iff abort_not_Done dest!: arg_box_Done dest: tree_reads
      split: val.splits if_splits)

lemma keeps_tree_arg [preserves_rules]:
  "(\<And>t. wf_tree t \<Longrightarrow> keeps_trees (f t)) \<Longrightarrow> keeps_trees (bindM (tl_arg v who) f)"
  "(\<And>t. wf_tree t \<Longrightarrow> keeps_trees (f t)) \<Longrightarrow> keeps_trees (bindM (any_tree_arg v who) f)"
  "(\<And>t. wf_tree t \<Longrightarrow> keeps_trees (f t)) \<Longrightarrow> keeps_trees (bindM (mtl_root p) f)"
  "(\<And>p. keeps_trees (g p)) \<Longrightarrow> keeps_trees (bindM (mtl_arg v who) g)"
  by (auto intro!: preserves_bindI tl_arg_fix [THEN keeps_trees_boxes] tree_reads_fix [THEN keeps_trees_boxes]
      dest: tl_arg_wf tree_reads)

lemma keeps_bounds [preserves_rules]:
  "(\<And>i. i < sz \<Longrightarrow> keeps_trees (f i)) \<Longrightarrow> keeps_trees (bindM (tl_bounds v sz who) f)"
  by (rule preserves_bindI, rule keeps_checks)
    (auto simp: tl_bounds_def abort_not_Done split: val.splits if_splits)

definition wf_res :: "val rrb res \<Rightarrow> bool" where
  "wf_res r \<longleftrightarrow> (\<forall>t. r = Inr t \<longrightarrow> wf_tree t)"

lemma wf_resI: "returns_tree r xs \<Longrightarrow> wf_res r"
  by (auto simp: wf_res_def)

lemma wf_results:
  assumes "wf_tree t"
  shows "wf_res (tree_add t v)" "wf_res (tree_cons t v)" "wf_res (tree_take t n)" "wf_res (tree_drop t n)"
    "wf_res (tree_sublist t a b)" "wf_res (tree_insert t n v)" "wf_res (tree_delete t n)" "wf_res (tree_reverse t)"
    "i < node_size t \<Longrightarrow> wf_res (rrb_node_set t i v)" "wf_tree u \<Longrightarrow> wf_res (tree_concat t u)"
  using assms
  by (auto intro!: wf_resI tree_add_correct tree_cons_correct tree_take_correct tree_drop_correct tree_sublist_correct
      tree_insert_correct tree_delete_correct tree_reverse_correct tree_concat_correct tree_set
      simp: wf_tree_size)

lemma wf_loaded: "wf_res (rrb_from_array xs)"
  by (rule wf_resI [OF tree_from_array])

lemma keeps_boxed [preserves_rules]:
  "wf_res r \<Longrightarrow> keeps_trees (new_treelist r)" "wf_res r \<Longrightarrow> keeps_trees (new_mutable r)"
  "wf_res r \<Longrightarrow> keeps_trees (replace_root m r)" "wf_tree t \<Longrightarrow> keeps_trees (v_treelist t)"
  "wf_tree t \<Longrightarrow> keeps_trees (v_mutable_treelist t)"
proof -
  show v: "wf_tree t \<Longrightarrow> keeps_trees (v_treelist t)" "wf_tree t \<Longrightarrow> keeps_trees (v_mutable_treelist t)" for t
    by (auto simp: preserves_def trees_ok_def v_treelist_def v_mutable_treelist_def)
  have set: "wf_tree t \<Longrightarrow> keeps_trees (set_mtl_root m t)" for t
    by (auto simp: preserves_def trees_ok_def set_mtl_root_def dest: set_update_subset_insert [THEN subsetD])
  have res: "wf_res r \<Longrightarrow> liftR r s = Done t s' \<Longrightarrow> wf_tree t" for s t s'
    by (cases r) (auto simp: wf_res_def liftR_def abort_not_Done split: fault.splits)
  show "wf_res r \<Longrightarrow> keeps_trees (new_treelist r)" "wf_res r \<Longrightarrow> keeps_trees (new_mutable r)"
    unfolding new_treelist_def new_mutable_def
    by (auto intro!: preserves_bindI keeps_checks v dest: res)
  show "wf_res r \<Longrightarrow> keeps_trees (replace_root m r)"
    unfolding replace_root_def
    by (auto intro!: preserves_bindI keeps_checks set dest: res)
qed

subsection \<open>Every builtin keeps the invariant\<close>

lemma keeps_fill [preserves_rules]: "keeps_trees (fill_array n v)"
  by (simp add: fill_array_def preserves_def)

lemma keeps_append_trees: "wf_tree acc \<Longrightarrow> (\<And>t. wf_tree t \<Longrightarrow> keeps_trees (f t)) \<Longrightarrow> keeps_trees (bindM (append_trees acc vs) f)"
proof (induction vs arbitrary: acc)
  case (Cons v vs)
  have "keeps_trees (bindM (liftR (tree_concat acc t)) (\<lambda>acc'. bindM (append_trees acc' vs) f))" if "wf_tree t" for t
    using tree_concat_correct [OF Cons.prems(1) that] by (auto elim!: returns_treeE intro!: Cons)
  then show ?case by (simp add: bindM_assoc keeps_tree_arg)
qed simp

lemma keeps_treelist_basic:
  "keeps_trees (bi_make_treelist args)"
  "keeps_trees (bi_list_to_treelist args)"
  "keeps_trees (bi_treelist_to_list args)"
  "keeps_trees (bi_treelist_to_vector args)"
  "keeps_trees (bi_treelist_p args)"
  "keeps_trees (bi_treelist_empty_p args)"
  "keeps_trees (bi_treelist_length args)"
  "keeps_trees (bi_treelist_ref args)"
  "keeps_trees (bi_treelist_first args)"
  "keeps_trees (bi_treelist_last args)"
  "keeps_trees (bi_treelist_add args)"
  "keeps_trees (bi_treelist_cons args)"
  "keeps_trees (bi_treelist_set args)"
  "keeps_trees (bi_treelist_insert args)"
  "keeps_trees (bi_treelist_delete args)"
  "keeps_trees (bi_treelist_take args)"
  "keeps_trees (bi_treelist_drop args)"
  "keeps_trees (bi_treelist_take_right args)"
  "keeps_trees (bi_treelist_drop_right args)"
  "keeps_trees (bi_treelist_sublist args)"
  "keeps_trees (bi_treelist_rest args)"
  "keeps_trees (bi_treelist_reverse args)"
  "keeps_trees (bi_make_mutable_treelist args)"
  "keeps_trees (bi_list_to_mutable_treelist args)"
  "keeps_trees (bi_treelist_copy args)"
  "keeps_trees (bi_mutable_treelist_copy args)"
  "keeps_trees (bi_mutable_treelist_snapshot args)"
  "keeps_trees (bi_mutable_treelist_to_list args)"
  "keeps_trees (bi_mutable_treelist_to_vector args)"
  "keeps_trees (bi_mutable_treelist_p args)"
  "keeps_trees (bi_mutable_treelist_empty_p args)"
  "keeps_trees (bi_mutable_treelist_length args)"
  "keeps_trees (bi_mutable_treelist_ref args)"
  "keeps_trees (bi_mutable_treelist_first args)"
  "keeps_trees (bi_mutable_treelist_last args)"
  "keeps_trees (bi_mutable_treelist_add_bang args)"
  "keeps_trees (bi_mutable_treelist_cons_bang args)"
  "keeps_trees (bi_mutable_treelist_set_bang args)"
  "keeps_trees (bi_mutable_treelist_insert_bang args)"
  "keeps_trees (bi_mutable_treelist_delete_bang args)"
  "keeps_trees (bi_mutable_treelist_append_bang args)"
  "keeps_trees (bi_mutable_treelist_prepend_bang args)"
  "keeps_trees (bi_mutable_treelist_take_bang args)"
  "keeps_trees (bi_mutable_treelist_drop_bang args)"
  "keeps_trees (bi_mutable_treelist_take_right_bang args)"
  "keeps_trees (bi_mutable_treelist_drop_right_bang args)"
  "keeps_trees (bi_mutable_treelist_sublist_bang args)"
  "keeps_trees (bi_mutable_treelist_reverse_bang args)"
  unfolding
    bi_make_treelist_def bi_list_to_treelist_def bi_treelist_to_list_def bi_treelist_to_vector_def
    bi_treelist_p_def bi_treelist_empty_p_def bi_treelist_length_def bi_treelist_ref_def
    bi_treelist_first_def bi_treelist_last_def bi_treelist_add_def bi_treelist_cons_def bi_treelist_set_def
    bi_treelist_insert_def bi_treelist_delete_def bi_treelist_take_def bi_treelist_drop_def
    bi_treelist_take_right_def bi_treelist_drop_right_def bi_treelist_sublist_def bi_treelist_rest_def
    bi_treelist_reverse_def bi_make_mutable_treelist_def bi_list_to_mutable_treelist_def
    bi_treelist_copy_def bi_mutable_treelist_copy_def bi_mutable_treelist_snapshot_def
    bi_mutable_treelist_to_list_def bi_mutable_treelist_to_vector_def bi_mutable_treelist_p_def
    bi_mutable_treelist_empty_p_def bi_mutable_treelist_length_def bi_mutable_treelist_ref_def
    bi_mutable_treelist_first_def bi_mutable_treelist_last_def bi_mutable_treelist_add_bang_def
    bi_mutable_treelist_cons_bang_def bi_mutable_treelist_set_bang_def bi_mutable_treelist_insert_bang_def
    bi_mutable_treelist_delete_bang_def bi_mutable_treelist_append_bang_def
    bi_mutable_treelist_prepend_bang_def bi_mutable_treelist_take_bang_def
    bi_mutable_treelist_drop_bang_def bi_mutable_treelist_take_right_bang_def
    bi_mutable_treelist_drop_right_bang_def bi_mutable_treelist_sublist_bang_def
    bi_mutable_treelist_reverse_bang_def
  by (intro preserves_rules wf_results wf_loaded | assumption | rule preserves_bind)+

lemma keeps_treelist_rest:
  "keeps_trees (bi_treelist args)" "keeps_trees (bi_mutable_treelist args)" "keeps_trees (bi_treelist_append args)"
  "keeps_trees (bi_vector_to_treelist args)" "keeps_trees (bi_vector_to_mutable_treelist args)"
  unfolding bi_treelist_def bi_mutable_treelist_def bi_treelist_append_def bi_vector_to_treelist_def
    bi_vector_to_mutable_treelist_def
proof -
  show "keeps_trees (bindM (append_trees rrb_empty_leaf args) v_treelist)"
    by (intro keeps_append_trees keeps_boxed) simp_all
qed (auto intro!: keeps_boxed wf_loaded keeps_checks preserves_bind split: list.split val.split)

text \<open>Callbacks that keep the invariant.\<close>

lemma keeps_callback_loops:
  "(\<And>x. keeps_trees (f x)) \<Longrightarrow> keeps_trees (kept_items f xs)"
  "(\<And>x. keeps_trees (f x)) \<Longrightarrow> keeps_trees (find_first f xs)"
  "(\<And>x. keeps_trees (g x)) \<Longrightarrow> keeps_trees (find_match g i xs)"
  by (induction xs arbitrary: i) (simp_all add: preserves_bind preserves_basic preserves_if)

lemma keeps_tl_sort: "(\<And>f args. keeps_trees (ap f args)) \<Longrightarrow> keeps_trees (tl_insertion_sort ap xs lt)"
proof -
  assume ap: "\<And>f args. keeps_trees (ap f args)"
  have sift: "keeps_trees (tl_sift ap lt key xs)" for key xs
    by (induction xs) (simp_all add: preserves_bind preserves_basic preserves_if ap)
  have "keeps_trees (tl_sort_from ap lt acc xs)" for acc
    by (induction xs arbitrary: acc) (simp_all add: preserves_bind preserves_basic sift)
  then show ?thesis by (simp add: tl_insertion_sort_def)
qed

lemma equal_fixes: "fixes_part f (creme_equal A a b)"
proof -
  have eqv: "fixes_part f (creme_eqv A a b)" for a b
    by (induction a arbitrary: b) (auto intro!: fixes_bind fixes_reads fixes_if split: val.split simp del: retM_Done)
  have items: "(\<And>x y. fixes_part f (g x y)) \<Longrightarrow> fixes_part f (eq_items g xs ys)" for g xs ys
    by (induction g xs ys rule: eq_items.induct) (auto intro!: fixes_bind fixes_reads simp del: retM_Done)
  have "fixes_part f (creme_equal_rec n A a b seen)" for n a b seen
    by (induction n arbitrary: a b seen)
      (auto intro!: fixes_bind fixes_reads fixes_if eqv items split: val.split simp del: retM_Done, simp add: fixes_part_def)
  then show ?thesis by (simp add: fixes_part_def creme_equal_def)
qed

lemma keeps_find_index: "(\<And>f args. keeps_trees (ap f args)) \<Longrightarrow> keeps_trees (find_index A ap t x eql)"
  unfolding find_index_def
  by (cases eql) (simp_all add: preserves_bind preserves_basic keeps_checks keeps_callback_loops keeps_trees_boxes [OF equal_fixes])

lemma keeps_treelist_calls:
  assumes ap: "\<And>f args. keeps_trees (ap f args)"
  shows
    "keeps_trees (bi_treelist_map ap args)"
    "keeps_trees (bi_treelist_filter ap args)"
    "keeps_trees (bi_treelist_for_each ap args)"
    "keeps_trees (bi_treelist_sort ap args)"
    "keeps_trees (bi_treelist_member_p A ap args)"
    "keeps_trees (bi_treelist_index_of A ap args)"
    "keeps_trees (bi_treelist_find ap args)"
    "keeps_trees (bi_mutable_treelist_map_bang ap args)"
    "keeps_trees (bi_mutable_treelist_sort_bang ap args)"
    "keeps_trees (bi_mutable_treelist_for_each ap args)"
    "keeps_trees (bi_mutable_treelist_member_p A ap args)"
    "keeps_trees (bi_mutable_treelist_find ap args)"
  unfolding
    bi_treelist_map_def bi_treelist_filter_def bi_treelist_for_each_def bi_treelist_sort_def
    bi_treelist_member_p_def bi_treelist_index_of_def bi_treelist_find_def bi_mutable_treelist_map_bang_def
    bi_mutable_treelist_sort_bang_def bi_mutable_treelist_for_each_def bi_mutable_treelist_member_p_def
    bi_mutable_treelist_find_def
  by (intro preserves_rules wf_results wf_loaded preserves_mapM preserves_forM keeps_callback_loops keeps_tl_sort keeps_find_index ap
      | assumption | rule preserves_bind | rule preserves_if)+

end
