(* ===== verification/Treelist_Builtin_Spec.thy ===== *)
theory Treelist_Builtin_Spec
  imports Treelist_Builtin_Props VM_Init "HOL-Library.Multiset"
begin

text \<open>
  The properties of the treelist builtins: the invariant of the heap, the list each immutable operation
  returns and each mutable one leaves, the bounds checks, and the sort.
\<close>

text \<open>A heap for the examples: a treelist of three numbers and a mutable one of one.\<close>

definition tree_state :: vm where
  "tree_state = vm0\<lparr>h_boxes := [BoxTreelist (Leaf [VInt 3, VInt 1, VInt 2]), BoxMutableTreelist (Leaf [VInt 5])]\<rparr>"

lemma wf_small_leaf: "0 < length xs \<Longrightarrow> length xs \<le> RRB_WIDTH \<Longrightarrow> wf_tree (Leaf xs)"
  by (simp add: wf_tree_def)

subsection \<open>The invariant\<close>

lemma keeps_table:
  "treelist_builtin g = Some m \<Longrightarrow> keeps_trees (m args)"
  "(\<And>f xs. keeps_trees (ap f xs)) \<Longrightarrow> treelist_calling_builtin A ap g = Some m \<Longrightarrow> keeps_trees (m args)"
proof -
  show "treelist_builtin g = Some m \<Longrightarrow> keeps_trees (m args)"
    unfolding treelist_builtin_def
    by (drule map_of_SomeD) (simp only: list.set insert_iff empty_iff prod.inject simp_thms;
      elim disjE conjE; simp only: keeps_treelist_basic keeps_treelist_rest)
  show "(\<And>f xs. keeps_trees (ap f xs)) \<Longrightarrow> treelist_calling_builtin A ap g = Some m \<Longrightarrow> keeps_trees (m args)"
    unfolding treelist_calling_builtin_def
    by (drule map_of_SomeD) (simp only: list.set insert_iff empty_iff prod.inject simp_thms;
      elim disjE conjE; simp only: keeps_treelist_calls)
qed

text \<open>C14. Every treelist of the heap stays a well-formed tree, whichever builtin of the family runs, on
  whichever arguments, and whichever way it leaves, if the procedures it calls keep the heap that way.\<close>

theorem treelist_builtins_keep_trees:
  assumes "trees_ok s" and "\<forall>f xs. preserves trees_ok (ap f xs)"
    and "treelist_builtin g = Some m \<or> treelist_calling_builtin A ap g = Some m"
    and "run_state (m args s) = Some s'"
  shows "trees_ok s'"
proof -
  have "preserves trees_ok (m args)"
    using assms(2,3) keeps_table(1) [of g m args] keeps_table(2) [of ap A g m args] by blast
  with assms(1,4) show ?thesis by (simp add: preserves_def)
qed

lemma treelist_builtins_keep_trees_witness:
  "trees_ok tree_state \<and> (\<exists>s'. run_state (bi_mutable_treelist_map_bang (\<lambda>f args. retM (VInt 0))
     [VBox BOX_KIND_MUTABLE_TREELIST 1, VNil] tree_state) = Some s' \<and> trees_ok s')"
proof -
  let ?ap = "\<lambda>f args. retM (VInt 0) :: val M" and ?args = "[VBox BOX_KIND_MUTABLE_TREELIST 1, VNil]"
  have wf: "trees_ok tree_state" by (simp add: trees_ok_def tree_state_def wf_small_leaf RRB_WIDTH_def)
  have ap: "\<forall>f xs. preserves trees_ok (?ap f xs)" by (simp add: preserves_def)
  have m: "treelist_calling_builtin reference_arith ?ap ''bi_mutable_treelist_map_bang'' = Some (bi_mutable_treelist_map_bang ?ap)"
    by (simp add: treelist_calling_builtin_def)
  have "\<exists>s'. run_state (bi_mutable_treelist_map_bang ?ap ?args tree_state) = Some s'"
    using rrb_from_array_correct [of "[VInt 0]"]
    by (auto simp: bi_mutable_treelist_map_bang_def mtl_arg_def mtl_root_def tree_state_def rrb_to_array_def replace_root_def
        set_mtl_root_def)
  with wf ap treelist_builtins_keep_trees [OF wf ap disjI2 [OF m]] show ?thesis by blast
qed

subsection \<open>Immutable treelists\<close>

definition tree_at :: "vm \<Rightarrow> val \<Rightarrow> val list \<Rightarrow> bool" where
  "tree_at s v xs \<longleftrightarrow> (\<exists>p t. v = VBox BOX_KIND_TREELIST p \<and> p < length (h_boxes s) \<and>
     h_boxes s ! p = BoxTreelist t \<and> wf_tree t \<and> rrb_collect t = xs)"

definition yields_tree :: "vm \<Rightarrow> val run \<Rightarrow> val list \<Rightarrow> bool" where
  "yields_tree s r xs \<longleftrightarrow> (\<exists>t. r = Done (VBox BOX_KIND_TREELIST (length (h_boxes s)))
     (s\<lparr>h_boxes := h_boxes s @ [BoxTreelist t]\<rparr>) \<and> wf_tree t \<and> rrb_collect t = xs)"

lemma tl_arg_run:
  assumes "tree_at s v xs"
  obtains t where "wf_tree t" "rrb_collect t = xs" "node_size t = length xs" "\<And>who. tl_arg v who s = Done t s"
  using assms by (auto simp: tree_at_def tl_arg_def treelist_at_def wf_tree_size)

lemma yields_new: "returns_tree r xs \<Longrightarrow> yields_tree s (new_treelist r s) xs"
  by (auto elim!: returns_treeE simp: new_treelist_def v_treelist_def yields_tree_def)

lemma bounds_run:
  "0 \<le> i \<Longrightarrow> i < int n \<Longrightarrow> tl_bounds (VInt i) n who = retM (nat i)"
  "0 \<le> i \<Longrightarrow> i \<le> int n \<Longrightarrow> tl_bounds_incl (VInt i) n who = retM i"
  "0 \<le> i \<Longrightarrow> i \<le> int n \<Longrightarrow> tl_count (VInt i) n who = retM i"
  by (simp_all add: tl_bounds_def tl_bounds_incl_def tl_count_def)

lemma bind_new_treelist: "m s = Done t s \<Longrightarrow> yields_tree s (f t s) xs \<Longrightarrow> yields_tree s (bindM m f s) xs"
  by simp

lemma append_trees_two:
  assumes "tree_at s v xs" "tree_at s w ys"
  shows "yields_tree s (bi_treelist_append [v, w] s) (xs @ ys)"
proof -
  from tl_arg_run [OF assms(1)] obtain t where t: "wf_tree t" "rrb_collect t = xs" "\<And>who. tl_arg v who s = Done t s" by metis
  from tl_arg_run [OF assms(2)] obtain u where u: "wf_tree u" "rrb_collect u = ys" "\<And>who. tl_arg w who s = Done u s" by metis
  obtain t' where t': "tree_concat rrb_empty_leaf t = Inr t'" "wf_tree t'" "rrb_collect t' = xs"
    using tree_concat_correct [OF empty_leaf_simps(1) t(1)] t(2) by (auto elim!: returns_treeE)
  obtain r where "tree_concat t' u = Inr r" "wf_tree r" "rrb_collect r = xs @ ys"
    using tree_concat_correct [OF t'(2) u(1)] t'(3) u(2) by (auto elim!: returns_treeE)
  then show ?thesis using t u t' by (auto simp: bi_treelist_append_def v_treelist_def yields_tree_def)
qed

text \<open>The tree operations at natural-number positions.\<close>

lemma tree_results:
  assumes "wf_tree t"
  shows "returns_tree (tree_add t x) (rrb_collect t @ [x])" "returns_tree (tree_cons t x) (x # rrb_collect t)"
    "i < length (rrb_collect t) \<Longrightarrow> returns_tree (rrb_node_set t i x) ((rrb_collect t)[i := x])"
    "returns_tree (tree_insert t (int k) x) (take k (rrb_collect t) @ x # drop k (rrb_collect t))"
    "returns_tree (tree_delete t (int i)) (take i (rrb_collect t) @ drop (Suc i) (rrb_collect t))"
    "returns_tree (tree_take t (int k)) (take k (rrb_collect t))" "returns_tree (tree_drop t (int k)) (drop k (rrb_collect t))"
    "returns_tree (tree_drop t (int l - int k)) (drop (l - k) (rrb_collect t))"
    "returns_tree (tree_take t (int l - int k)) (take (l - k) (rrb_collect t))"
    "returns_tree (tree_sublist t (int j) (int k)) (drop j (take k (rrb_collect t)))"
    "returns_tree (tree_drop t 1) (tl (rrb_collect t))" "returns_tree (tree_reverse t) (rev (rrb_collect t))"
proof -
  have n: "nat (int l - int k) = l - k" "nat (int i + 1) = Suc i" by simp_all
  show "returns_tree (tree_add t x) (rrb_collect t @ [x])" "returns_tree (tree_cons t x) (x # rrb_collect t)"
    "i < length (rrb_collect t) \<Longrightarrow> returns_tree (rrb_node_set t i x) ((rrb_collect t)[i := x])"
    "returns_tree (tree_insert t (int k) x) (take k (rrb_collect t) @ x # drop k (rrb_collect t))"
    "returns_tree (tree_delete t (int i)) (take i (rrb_collect t) @ drop (Suc i) (rrb_collect t))"
    "returns_tree (tree_take t (int k)) (take k (rrb_collect t))" "returns_tree (tree_drop t (int k)) (drop k (rrb_collect t))"
    "returns_tree (tree_drop t (int l - int k)) (drop (l - k) (rrb_collect t))"
    "returns_tree (tree_take t (int l - int k)) (take (l - k) (rrb_collect t))"
    "returns_tree (tree_sublist t (int j) (int k)) (drop j (take k (rrb_collect t)))"
    "returns_tree (tree_drop t 1) (tl (rrb_collect t))" "returns_tree (tree_reverse t) (rev (rrb_collect t))"
    using tree_add_correct [OF assms, of x] tree_cons_correct [OF assms, of x] tree_set [OF assms, of i x]
      tree_insert_correct [OF assms, of "int k" x] tree_delete_correct [OF assms, of "int i"]
      tree_take_correct [OF assms, of "int k"] tree_drop_correct [OF assms, of "int k"]
      tree_take_correct [OF assms, of "int l - int k"] tree_drop_correct [OF assms, of "int l - int k"]
      tree_sublist_correct [OF assms, of "int j" "int k"] tree_drop_correct [OF assms, of 1] tree_reverse_correct [OF assms]
    by (simp_all only: n nat_int nat_1 drop_Suc drop0 One_nat_def)
qed

text \<open>C15. On treelist values an operation of the immutable family, applied inside its bounds, returns the
  element, or one new box with a well-formed tree of the list operation's result; no other part of the
  state changes, so every treelist built before stays as it is.\<close>

theorem immutable_treelists_refine:
  assumes v: "tree_at s v xs" and w: "tree_at s w ys" and i: "i < length xs" and k: "k \<le> length xs" and j: "j \<le> k"
  shows "bi_treelist_length [v] s = Done (VInt (int (length xs))) s \<and>
    bi_treelist_ref [v, VInt (int i)] s = Done (xs ! i) s \<and>
    bi_treelist_first [v] s = Done (hd xs) s \<and> bi_treelist_last [v] s = Done (last xs) s \<and>
    yields_tree s (bi_treelist_add [v, x] s) (xs @ [x]) \<and>
    yields_tree s (bi_treelist_cons [v, x] s) (x # xs) \<and>
    yields_tree s (bi_treelist_set [v, VInt (int i), x] s) (xs[i := x]) \<and>
    yields_tree s (bi_treelist_insert [v, VInt (int k), x] s) (take k xs @ x # drop k xs) \<and>
    yields_tree s (bi_treelist_delete [v, VInt (int i)] s) (take i xs @ drop (Suc i) xs) \<and>
    yields_tree s (bi_treelist_take [v, VInt (int k)] s) (take k xs) \<and>
    yields_tree s (bi_treelist_drop [v, VInt (int k)] s) (drop k xs) \<and>
    yields_tree s (bi_treelist_take_right [v, VInt (int k)] s) (drop (length xs - k) xs) \<and>
    yields_tree s (bi_treelist_drop_right [v, VInt (int k)] s) (take (length xs - k) xs) \<and>
    yields_tree s (bi_treelist_sublist [v, VInt (int j), VInt (int k)] s) (drop j (take k xs)) \<and>
    yields_tree s (bi_treelist_rest [v] s) (tl xs) \<and>
    yields_tree s (bi_treelist_append [v, w] s) (xs @ ys) \<and>
    yields_tree s (bi_treelist_reverse [v] s) (rev xs)"
proof -
  obtain t where t: "wf_tree t" "rrb_collect t = xs" "node_size t = length xs" and arg: "\<And>who. tl_arg v who s = Done t s"
    using tl_arg_run [OF v] by metis
  have ne: "xs \<noteq> []" "length xs \<noteq> 0" using i by auto
  have refs: "rrb_node_ref t i = Inr (xs ! i)" "rrb_node_ref t 0 = Inr (xs ! 0)"
    "rrb_node_ref t (length xs - 1) = Inr (xs ! (length xs - 1))"
    using tree_ref [OF t(1), of i] tree_ref [OF t(1), of 0] tree_ref [OF t(1), of "length xs - 1"] i t(2) ne(2) by simp_all
  note trees = tree_results [OF t(1), unfolded t(2), THEN yields_new]
  show ?thesis
    using refs trees append_trees_two [OF v w] i k j ne
    by (simp add: bi_treelist_length_def bi_treelist_ref_def bi_treelist_first_def bi_treelist_last_def
        bi_treelist_add_def bi_treelist_cons_def bi_treelist_set_def bi_treelist_insert_def bi_treelist_delete_def
        bi_treelist_take_def bi_treelist_drop_def bi_treelist_take_right_def bi_treelist_drop_right_def
        bi_treelist_sublist_def bi_treelist_rest_def bi_treelist_reverse_def arg t bounds_run hd_conv_nth last_conv_nth)
qed

subsection \<open>Mutable treelists\<close>

definition mutable_at :: "vm \<Rightarrow> val \<Rightarrow> nat \<Rightarrow> val list \<Rightarrow> bool" where
  "mutable_at s v p xs \<longleftrightarrow> v = VBox BOX_KIND_MUTABLE_TREELIST p \<and> p < length (h_boxes s) \<and>
     (\<exists>t. h_boxes s ! p = BoxMutableTreelist t \<and> wf_tree t \<and> rrb_collect t = xs)"

definition updates_tree :: "vm \<Rightarrow> nat \<Rightarrow> val run \<Rightarrow> val list \<Rightarrow> bool" where
  "updates_tree s p r xs \<longleftrightarrow> (\<exists>t. r = Done VNil (s\<lparr>h_boxes := (h_boxes s)[p := BoxMutableTreelist t]\<rparr>) \<and>
     wf_tree t \<and> rrb_collect t = xs)"

lemma mutable_run:
  assumes "mutable_at s v p xs"
  obtains t where "wf_tree t" "rrb_collect t = xs" "node_size t = length xs" "\<And>who. mtl_arg v who s = Done p s"
    "mtl_root p s = Done t s"
  using assms by (auto simp: mutable_at_def mtl_arg_def mtl_root_def wf_tree_size)

lemma updates_new: "returns_tree r xs \<Longrightarrow> updates_tree s p (replace_root p r s) xs"
  by (auto elim!: returns_treeE simp: replace_root_def set_mtl_root_def updates_tree_def)

lemma any_tree_run:
  assumes "tree_at s w ys \<or> (\<exists>q. mutable_at s w q ys)"
  obtains u where "wf_tree u" "rrb_collect u = ys" "\<And>who. any_tree_arg w who s = Done u s"
  using assms by (auto simp: tree_at_def mutable_at_def any_tree_arg_def treelist_at_def mtl_root_def
      BOX_KIND_TREELIST_def BOX_KIND_MUTABLE_TREELIST_def)

text \<open>C16. An operation with \<open>!\<close>, inside its bounds, replaces the tree of its mutable treelist by a
  well-formed one of the list operation's result and changes no other box, not even a copy or a snapshot
  that shares the old tree.  A treelist appended to itself is doubled.\<close>

theorem mutable_treelists_update:
  assumes v: "mutable_at s v p xs" and w: "tree_at s w ys \<or> (\<exists>q. mutable_at s w q ys)"
    and i: "i < length xs" and k: "k \<le> length xs" and j: "j \<le> k"
  shows "updates_tree s p (bi_mutable_treelist_add_bang [v, x] s) (xs @ [x]) \<and>
    updates_tree s p (bi_mutable_treelist_cons_bang [v, x] s) (x # xs) \<and>
    updates_tree s p (bi_mutable_treelist_set_bang [v, VInt (int i), x] s) (xs[i := x]) \<and>
    updates_tree s p (bi_mutable_treelist_insert_bang [v, VInt (int k), x] s) (take k xs @ x # drop k xs) \<and>
    updates_tree s p (bi_mutable_treelist_delete_bang [v, VInt (int i)] s) (take i xs @ drop (Suc i) xs) \<and>
    updates_tree s p (bi_mutable_treelist_append_bang [v, w] s) (xs @ ys) \<and>
    updates_tree s p (bi_mutable_treelist_prepend_bang [v, w] s) (ys @ xs) \<and>
    updates_tree s p (bi_mutable_treelist_take_bang [v, VInt (int k)] s) (take k xs) \<and>
    updates_tree s p (bi_mutable_treelist_drop_bang [v, VInt (int k)] s) (drop k xs) \<and>
    updates_tree s p (bi_mutable_treelist_take_right_bang [v, VInt (int k)] s) (drop (length xs - k) xs) \<and>
    updates_tree s p (bi_mutable_treelist_drop_right_bang [v, VInt (int k)] s) (take (length xs - k) xs) \<and>
    updates_tree s p (bi_mutable_treelist_sublist_bang [v, VInt (int j), VInt (int k)] s) (drop j (take k xs)) \<and>
    updates_tree s p (bi_mutable_treelist_reverse_bang [v] s) (rev xs)"
proof -
  obtain t where t: "wf_tree t" "rrb_collect t = xs" "node_size t = length xs" and arg: "\<And>who. mtl_arg v who s = Done p s"
    "mtl_root p s = Done t s"
    using mutable_run [OF v] by metis
  obtain u where u: "wf_tree u" "rrb_collect u = ys" "\<And>who. any_tree_arg w who s = Done u s"
    using any_tree_run [OF w] by metis
  note ops = tree_results [OF t(1), unfolded t(2)] tree_concat_correct [OF t(1) u(1)] tree_concat_correct [OF u(1) t(1)]
  note trees = ops [THEN updates_new]
  show ?thesis
    using trees i k j u(1,2) t(2)
    by (simp add: bi_mutable_treelist_add_bang_def bi_mutable_treelist_cons_bang_def bi_mutable_treelist_set_bang_def
        bi_mutable_treelist_insert_bang_def bi_mutable_treelist_delete_bang_def bi_mutable_treelist_append_bang_def
        bi_mutable_treelist_prepend_bang_def bi_mutable_treelist_take_bang_def bi_mutable_treelist_drop_bang_def
        bi_mutable_treelist_take_right_bang_def bi_mutable_treelist_drop_right_bang_def
        bi_mutable_treelist_sublist_bang_def bi_mutable_treelist_reverse_bang_def arg t(3) u(3) bounds_run)
qed

subsection \<open>Bounds\<close>

lemma bounds_abort:
  "n < 0 \<or> int sz \<le> n \<Longrightarrow> tl_bounds (VInt n) sz who =
     creme_abort (who @ '': index out of range for treelist of length '' @ dec (int sz))"
  "n < 0 \<or> int sz < n \<Longrightarrow> tl_bounds_incl (VInt n) sz who =
     creme_abort (who @ '': position out of range for treelist of length '' @ dec (int sz))"
  "n < 0 \<or> int sz < n \<Longrightarrow> tl_count (VInt n) sz who =
     creme_abort (who @ '': count out of range for treelist of length '' @ dec (int sz))"
  by (auto simp: tl_bounds_def tl_bounds_incl_def tl_count_def)

text \<open>An index, position or count outside the bounds of the treelist is an abort that names the
  operation and the length, before the tree is touched: the tree engine never sees it.\<close>

theorem treelist_bounds_checked:
  assumes v: "tree_at s v xs" and n: "n < 0 \<or> int (length xs) \<le> n" and m: "m < 0 \<or> int (length xs) < m"
  shows "bi_treelist_ref [v, VInt n] s =
      creme_abort (''treelist-ref: index out of range for treelist of length '' @ dec (int (length xs))) s \<and>
    bi_treelist_set [v, VInt n, x] s =
      creme_abort (''treelist-set: index out of range for treelist of length '' @ dec (int (length xs))) s \<and>
    bi_treelist_delete [v, VInt n] s =
      creme_abort (''treelist-delete: index out of range for treelist of length '' @ dec (int (length xs))) s \<and>
    bi_treelist_insert [v, VInt m, x] s =
      creme_abort (''treelist-insert: position out of range for treelist of length '' @ dec (int (length xs))) s \<and>
    bi_treelist_take [v, VInt m] s =
      creme_abort (''treelist-take: count out of range for treelist of length '' @ dec (int (length xs))) s \<and>
    bi_treelist_drop [v, VInt m] s =
      creme_abort (''treelist-drop: count out of range for treelist of length '' @ dec (int (length xs))) s"
proof -
  obtain t where t: "node_size t = length xs" and arg: "\<And>who. tl_arg v who s = Done t s"
    using tl_arg_run [OF v] by metis
  have abort: "bindM (creme_abort msg) f s = creme_abort msg s" for msg and f :: "'b \<Rightarrow> val M"
    by (simp add: bind_abort)
  show ?thesis
    by (simp add: bi_treelist_ref_def bi_treelist_set_def bi_treelist_delete_def bi_treelist_insert_def
        bi_treelist_take_def bi_treelist_drop_def arg t bounds_abort n m abort)
qed

subsection \<open>Sorting\<close>

text \<open>The inner loop on the reversed prefix, for a comparison without effects.\<close>

primrec sift :: "('a \<Rightarrow> 'a \<Rightarrow> bool) \<Rightarrow> 'a \<Rightarrow> 'a list \<Rightarrow> 'a list" where
  "sift R key [] = [key]"
| "sift R key (x # xs) = (if R key x then x # sift R key xs else key # x # xs)"

definition compares :: "vm \<Rightarrow> (val \<Rightarrow> val list \<Rightarrow> val M) \<Rightarrow> val \<Rightarrow> (val \<Rightarrow> val \<Rightarrow> bool) \<Rightarrow> val list \<Rightarrow> bool" where
  "compares s ap f R xs \<longleftrightarrow> (\<forall>x\<in>set xs. \<forall>y\<in>set xs. \<exists>r. ap f [x, y] s = Done r s \<and> (v_falsy r \<longleftrightarrow> \<not> R x y))"

lemma sift_set: "set (sift R key xs) = insert key (set xs)"
  by (induction xs) auto

lemma sift_mset: "mset (sift R key xs) = add_mset key (mset xs)"
  by (induction xs) auto

lemma tl_sift_run: "compares s ap f R zs \<Longrightarrow> key \<in> set zs \<Longrightarrow> set xs \<subseteq> set zs \<Longrightarrow>
    tl_sift ap f key xs s = Done (sift R key xs) s"
proof (induction xs)
  case (Cons x xs)
  then have "x \<in> set zs" by simp
  with Cons.prems(1,2) obtain r where "ap f [key, x] s = Done r s" "v_falsy r \<longleftrightarrow> \<not> R key x"
    unfolding compares_def by blast
  with Cons show ?case by simp
qed simp

lemma tl_sort_run: "compares s ap f R zs \<Longrightarrow> set acc \<subseteq> set zs \<Longrightarrow> set xs \<subseteq> set zs \<Longrightarrow>
    tl_sort_from ap f acc xs s = Done (rev (fold (sift R) xs acc)) s"
proof (induction xs arbitrary: acc)
  case (Cons x xs)
  then have "tl_sift ap f x acc s = Done (sift R x acc) s" by (simp add: tl_sift_run)
  with Cons show ?case by (simp add: sift_set)
qed simp

text \<open>A strict weak order.\<close>

definition weak_order :: "('a \<Rightarrow> 'a \<Rightarrow> bool) \<Rightarrow> bool" where
  "weak_order R \<longleftrightarrow> (\<forall>x y. R x y \<longrightarrow> \<not> R y x) \<and> (\<forall>x y z. R x z \<longrightarrow> R x y \<or> R y z)"

definition alike :: "('a \<Rightarrow> 'a \<Rightarrow> bool) \<Rightarrow> 'a \<Rightarrow> 'a \<Rightarrow> bool" where
  "alike R x y \<longleftrightarrow> \<not> R x y \<and> \<not> R y x"

lemma sift_sorted:
  assumes "weak_order R" "sorted_wrt (\<lambda>x y. \<not> R x y) xs"
  shows "sorted_wrt (\<lambda>x y. \<not> R x y) (sift R key xs)"
  using assms(2)
proof (induction xs)
  case (Cons x xs)
  have "\<not> R key z" if "\<not> R key x" "\<not> R x z" for z
    using assms(1) that unfolding weak_order_def by blast
  moreover have "\<not> R x key" if "R key x"
    using assms(1) that unfolding weak_order_def by blast
  ultimately show ?case using Cons by (auto simp: sift_set)
qed simp

lemma sift_stable:
  assumes "weak_order R"
  shows "filter (alike R c) (rev (sift R key xs)) = filter (alike R c) (rev xs @ [key])"
proof (induction xs)
  case (Cons x xs)
  have "\<not> (alike R c key \<and> alike R c x)" if "R key x"
    using assms that unfolding alike_def weak_order_def by blast
  with Cons show ?case by (auto split: if_splits)
qed simp

lemma fold_sift:
  assumes "weak_order R" "sorted_wrt (\<lambda>x y. \<not> R x y) acc"
  shows "sorted_wrt (\<lambda>x y. \<not> R x y) (fold (sift R) xs acc) \<and> mset (fold (sift R) xs acc) = mset xs + mset acc \<and>
    filter (alike R c) (rev (fold (sift R) xs acc)) = filter (alike R c) (rev acc @ xs)"
  using assms(2)
proof (induction xs arbitrary: acc)
  case (Cons x xs)
  from Cons.IH [OF sift_sorted [OF assms(1) Cons.prems]] show ?case
    using sift_stable [OF assms(1), of c x acc] by (simp add: sift_mset)
qed simp

text \<open>C17. With a comparison that is a strict weak order and has no effects, \<open>treelist-sort\<close> returns a
  treelist of the same elements in which no element is before a smaller one, and elements that compare
  alike keep their order.\<close>

theorem treelist_sort_stable:
  assumes v: "tree_at s v xs" and cmp: "compares s ap f R xs" and ord: "weak_order R"
  shows "\<exists>ys. yields_tree s (bi_treelist_sort ap [v, f] s) ys \<and> mset ys = mset xs \<and>
    sorted_wrt (\<lambda>x y. \<not> R y x) ys \<and> (\<forall>c. filter (alike R c) ys = filter (alike R c) xs)"
proof -
  obtain t where t: "wf_tree t" "rrb_collect t = xs" and arg: "\<And>who. tl_arg v who s = Done t s"
    using tl_arg_run [OF v] by metis
  let ?ys = "rev (fold (sift R) xs [])"
  have "tl_insertion_sort ap xs f s = Done ?ys s"
    using tl_sort_run [OF cmp, of "[]" xs] by (simp add: tl_insertion_sort_def)
  moreover have "rrb_to_array t = Inr xs" using rrb_to_array_correct [OF t(1)] t(2) by simp
  ultimately have "yields_tree s (bi_treelist_sort ap [v, f] s) ?ys"
    using yields_new [OF tree_from_array, of s ?ys] by (simp add: bi_treelist_sort_def arg)
  moreover have "mset ?ys = mset xs" "sorted_wrt (\<lambda>x y. \<not> R y x) ?ys"
    "filter (alike R c) ?ys = filter (alike R c) xs" for c
    using fold_sift [OF ord, of "[]" xs c] by (simp_all add: sorted_wrt_rev)
  ultimately show ?thesis by blast
qed

lemma tree_state_at:
  "tree_at tree_state (VBox BOX_KIND_TREELIST 0) [VInt 3, VInt 1, VInt 2]"
  "mutable_at tree_state (VBox BOX_KIND_MUTABLE_TREELIST 1) 1 [VInt 5]"
  by (simp_all add: tree_at_def mutable_at_def tree_state_def wf_small_leaf RRB_WIDTH_def)

lemma immutable_treelists_refine_witness:
  "bi_treelist_ref [VBox BOX_KIND_TREELIST 0, VInt 1] tree_state = Done (VInt 1) tree_state \<and>
   yields_tree tree_state (bi_treelist_drop_right [VBox BOX_KIND_TREELIST 0, VInt 2] tree_state) [VInt 3]"
  using immutable_treelists_refine [OF tree_state_at(1) tree_state_at(1), of 1 2 2 VNil] by simp

lemma mutable_treelists_update_witness:
  "updates_tree tree_state 1 (bi_mutable_treelist_append_bang
     [VBox BOX_KIND_MUTABLE_TREELIST 1, VBox BOX_KIND_MUTABLE_TREELIST 1] tree_state) [VInt 5, VInt 5]"
  using mutable_treelists_update [OF tree_state_at(2) disjI2, OF exI, OF tree_state_at(2), of 0 1 1 VNil] by simp

lemma treelist_bounds_checked_witness:
  "bi_treelist_ref [VBox BOX_KIND_TREELIST 0, VInt 3] tree_state =
     creme_abort (''treelist-ref: index out of range for treelist of length '' @ dec 3) tree_state"
  using treelist_bounds_checked [OF tree_state_at(1), of 3 4 VNil] by simp

lemma treelist_sort_stable_witness:
  "\<exists>ys. yields_tree tree_state (bi_treelist_sort (\<lambda>f args. retM (VBool (int_of (args ! 0) < int_of (args ! 1))))
     [VBox BOX_KIND_TREELIST 0, VNil] tree_state) ys \<and> mset ys = {#VInt 1, VInt 2, VInt 3#} \<and>
     sorted_wrt (\<lambda>x y. \<not> int_of y < int_of x) ys"
proof -
  have "compares tree_state (\<lambda>f args. retM (VBool (int_of (args ! 0) < int_of (args ! 1)))) VNil
      (\<lambda>x y. int_of x < int_of y) [VInt 3, VInt 1, VInt 2]"
    by (simp add: compares_def v_falsy_def)
  moreover have "weak_order (\<lambda>x y. int_of x < int_of y)" by (auto simp: weak_order_def)
  ultimately show ?thesis
    using treelist_sort_stable [OF tree_state_at(1)] by (fastforce simp: add_mset_commute)
qed

end
