(* ===== verification/Equal_Props.thy ===== *)
theory Equal_Props
  imports Builtin_Hash Heap_Lists VM_Init
begin

text \<open>
  \<open>equal?\<close> and the hash on finite data.  A value whose pairs and vectors unfold to a finite tree has a
  \<open>datum\<close>, that tree with its leaves read from the heap.  On such values \<open>creme_equal\<close> is equality of
  the data and the hash is a function of the datum, so equal values have equal hashes.
\<close>

datatype datum =
    DAtom val
  | DText int bytes
  | DPair datum datum
  | DVector "datum list"

text \<open>The datum of a value within a depth; \<open>None\<close> for a dangling pointer, a value that does not unfold
  within the depth, a rational that is not in lowest terms, and the two kinds of value that \<open>eqv?\<close>
  does not equate with themselves.\<close>

fun real_leaf :: "val \<Rightarrow> bool" where
  "real_leaf (VInt i) = True"
| "real_leaf (VFloat w) = True"
| "real_leaf (VBigint z) = True"
| "real_leaf (VRational a b) = mpq_canonical (a, b)"
| "real_leaf v = False"

fun data_of :: "(val \<Rightarrow> datum option) \<Rightarrow> val list \<Rightarrow> datum list option" where
  "data_of f [] = Some []"
| "data_of f (v # vs) = (case f v of None \<Rightarrow> None | Some d \<Rightarrow> map_option (Cons d) (data_of f vs))"

primrec datum_of :: "nat \<Rightarrow> vm \<Rightarrow> val \<Rightarrow> datum option" where
  "datum_of 0 s v = None"
| "datum_of (Suc n) s v =
     (case v of
        VPair p \<Rightarrow> if p < length (h_pairs s) then
            (case datum_of n s (fst (h_pairs s ! p)) of None \<Rightarrow> None | Some x \<Rightarrow>
              map_option (DPair x) (datum_of n s (snd (h_pairs s ! p)))) else None
      | VVector p \<Rightarrow> if p < length (h_vecs s) then map_option DVector (data_of (datum_of n s) (h_vecs s ! p)) else None
      | VStr p \<Rightarrow> if p < length (h_strs s) then Some (DText 5 (h_strs s ! p)) else None
      | VBytevector p \<Rightarrow> if p < length (h_bvs s) then Some (DText 9 (h_bvs s ! p)) else None
      | VComplex re im \<Rightarrow> if real_leaf re \<and> real_leaf im then Some (DAtom v) else None
      | VRational a b \<Rightarrow> if mpq_canonical (a, b) then Some (DAtom v) else None
      | VBox k p \<Rightarrow> Some (DAtom (VBox 0 p))
      | VMacro p \<Rightarrow> None
      | VContinuation p \<Rightarrow> None
      | _ \<Rightarrow> Some (DAtom v))"

definition has_datum :: "vm \<Rightarrow> val \<Rightarrow> datum \<Rightarrow> bool" where
  "has_datum s v d \<longleftrightarrow> (\<exists>n. datum_of n s v = Some d)"

fun height :: "datum \<Rightarrow> nat" where
  "height (DPair x y) = Suc (max (height x) (height y))"
| "height (DVector xs) = Suc (Max (insert 0 (height ` set xs)))"
| "height d = 0"

lemma data_of_Some: "data_of f vs = Some ds \<longleftrightarrow> list_all2 (\<lambda>v d. f v = Some d) vs ds"
  by (induction vs arbitrary: ds) (auto simp: list_all2_Cons1 split: option.splits)

lemma data_of_mono: "(\<And>v d. v \<in> set vs \<Longrightarrow> f v = Some d \<Longrightarrow> g v = Some d) \<Longrightarrow> data_of f vs = Some ds \<Longrightarrow> data_of g vs = Some ds"
  unfolding data_of_Some by (erule list.rel_mono_strong) auto

lemma datum_mono: "datum_of n s v = Some d \<Longrightarrow> n \<le> m \<Longrightarrow> datum_of m s v = Some d"
proof (induction n arbitrary: m v d)
  case (Suc n)
  then obtain k where k: "m = Suc k" "n \<le> k" by (cases m) auto
  note IH = Suc.IH [OF _ k(2)]
  show ?case
  proof (cases v)
    case (VVector p)
    with Suc.prems(1) obtain ds where ds: "p < length (h_vecs s)" "data_of (datum_of n s) (h_vecs s ! p) = Some ds" "d = DVector ds"
      by (auto split: if_splits)
    from data_of_mono [OF _ ds(2), of "datum_of k s"] IH ds show ?thesis by (simp add: k VVector)
  qed (use Suc.prems(1) IH in \<open>auto simp: k split: if_splits option.splits\<close>)
qed simp

lemma has_datum_fun: "has_datum s v d \<Longrightarrow> has_datum s v e \<Longrightarrow> d = e"
proof -
  assume "has_datum s v d" "has_datum s v e"
  then obtain n m where "datum_of n s v = Some d" "datum_of m s v = Some e" by (auto simp: has_datum_def)
  then show ?thesis using datum_mono [of n s v d "max n m"] datum_mono [of m s v e "max n m"] by simp
qed

text \<open>Data by rules: the shape of the value decides the shape of its datum.\<close>

lemma has_datum_pair: "has_datum s (VPair p) d \<longleftrightarrow>
    p < length (h_pairs s) \<and> (\<exists>x y. d = DPair x y \<and> has_datum s (fst (h_pairs s ! p)) x \<and> has_datum s (snd (h_pairs s ! p)) y)"
  (is "?l \<longleftrightarrow> ?r")
proof
  assume ?l
  then obtain n where "datum_of n s (VPair p) = Some d" by (auto simp: has_datum_def)
  then show ?r by (cases n) (auto simp: has_datum_def split: if_splits option.splits)
next
  assume ?r
  then obtain x y n m where *: "p < length (h_pairs s)" "d = DPair x y"
      "datum_of n s (fst (h_pairs s ! p)) = Some x" "datum_of m s (snd (h_pairs s ! p)) = Some y"
    by (auto simp: has_datum_def)
  then have "datum_of (Suc (max n m)) s (VPair p) = Some d"
    using datum_mono [of n s _ x "max n m"] datum_mono [of m s _ y "max n m"] by simp
  then show ?l unfolding has_datum_def by blast
qed

lemma data_bound:
  assumes "list_all2 (has_datum s) vs ds"
  shows "\<exists>n. list_all2 (\<lambda>v d. datum_of n s v = Some d) vs ds"
  using assms
proof (induction rule: list_all2_induct)
  case (Cons v vs d ds)
  then obtain n m where nm: "list_all2 (\<lambda>v d. datum_of n s v = Some d) vs ds" "datum_of m s v = Some d"
    by (auto simp: has_datum_def)
  have "list_all2 (\<lambda>v d. datum_of (max n m) s v = Some d) vs ds"
    using nm(1) by (rule list.rel_mono_strong) (auto intro: datum_mono)
  moreover have "datum_of (max n m) s v = Some d" using nm(2) by (auto intro: datum_mono)
  ultimately show ?case by auto
qed simp

lemma has_datum_vector: "has_datum s (VVector p) d \<longleftrightarrow>
    p < length (h_vecs s) \<and> (\<exists>ds. d = DVector ds \<and> list_all2 (has_datum s) (h_vecs s ! p) ds)"
  (is "?l \<longleftrightarrow> ?r")
proof
  assume ?l
  then obtain n where n: "datum_of n s (VVector p) = Some d" by (auto simp: has_datum_def)
  then obtain k where "n = Suc k" by (cases n) auto
  with n obtain ds where ds: "p < length (h_vecs s)" "data_of (datum_of k s) (h_vecs s ! p) = Some ds" "d = DVector ds"
    by (auto split: if_splits)
  have "list_all2 (has_datum s) (h_vecs s ! p) ds"
    using ds(2) unfolding data_of_Some by (rule list.rel_mono_strong) (auto simp: has_datum_def)
  with ds show ?r by blast
next
  assume ?r
  then obtain ds where ds: "p < length (h_vecs s)" "d = DVector ds" "list_all2 (has_datum s) (h_vecs s ! p) ds" by blast
  from data_bound [OF ds(3)] obtain n where "data_of (datum_of n s) (h_vecs s ! p) = Some ds"
    unfolding data_of_Some by blast
  then have "datum_of (Suc n) s (VVector p) = Some d" using ds by simp
  then show ?l unfolding has_datum_def by blast
qed

lemma has_datum_str: "has_datum s (VStr p) d \<longleftrightarrow> p < length (h_strs s) \<and> d = DText 5 (h_strs s ! p)"
  unfolding has_datum_def
  by (rule iffI, (elim exE, rename_tac n, case_tac n; auto split: if_splits), auto intro!: exI [of _ "Suc 0"])

lemma has_datum_bytes: "has_datum s (VBytevector p) d \<longleftrightarrow> p < length (h_bvs s) \<and> d = DText 9 (h_bvs s ! p)"
  unfolding has_datum_def
  by (rule iffI, (elim exE, rename_tac n, case_tac n; auto split: if_splits), auto intro!: exI [of _ "Suc 0"])

fun compound :: "val \<Rightarrow> bool" where
  "compound (VPair p) = True"
| "compound (VVector p) = True"
| "compound (VStr p) = True"
| "compound (VBytevector p) = True"
| "compound v = False"

lemma has_datum_leaf: "\<not> compound v \<Longrightarrow> has_datum s v d \<longleftrightarrow> datum_of (Suc 0) s v = Some d"
proof
  assume v: "\<not> compound v" and "has_datum s v d"
  then obtain n where "datum_of n s v = Some d" by (auto simp: has_datum_def)
  with v show "datum_of (Suc 0) s v = Some d" by (cases n; cases v) (auto split: if_splits)
next
  assume "datum_of (Suc 0) s v = Some d"
  then show "has_datum s v d" unfolding has_datum_def by blast
qed

lemmas has_datum_iff = has_datum_pair has_datum_vector has_datum_str has_datum_bytes

lemma has_datum_inv:
  "has_datum s v (DPair x y) \<Longrightarrow> \<exists>p. v = VPair p"
  "has_datum s v (DVector ds) \<Longrightarrow> \<exists>p. v = VVector p"
  "has_datum s v (DText k bs) \<Longrightarrow> (\<exists>p. v = VStr p \<and> k = 5) \<or> (\<exists>p. v = VBytevector p \<and> k = 9)"
  by (cases v; auto simp: has_datum_iff has_datum_leaf split: if_splits)+

fun datum_tag :: "datum \<Rightarrow> int" where
  "datum_tag (DAtom v) = tag_of v"
| "datum_tag (DText k bs) = k"
| "datum_tag (DPair x y) = tag_of (VPair 0)"
| "datum_tag (DVector ds) = tag_of (VVector 0)"

lemma has_datum_tag: "has_datum s v d \<Longrightarrow> datum_tag d = tag_of v"
  by (cases v) (auto simp: has_datum_iff has_datum_leaf split: if_splits)

subsection \<open>Depth\<close>

text \<open>On the way down the tallest branch every height occurs, each at another pair or vector.\<close>

definition nodes :: "vm \<Rightarrow> val set" where
  "nodes s = VPair ` {..<length (h_pairs s)} \<union> VVector ` {..<length (h_vecs s)}"

lemma height_vector: "h \<le> Max (insert 0 (height ` set ds)) \<Longrightarrow> 0 < h \<Longrightarrow> \<exists>d \<in> set ds. h \<le> height d"
  by (subst (asm) Max_ge_iff) auto

lemma height_member: "d \<in> set ds \<Longrightarrow> height d < height (DVector ds)"
  by (simp add: less_Suc_eq_le)

lemma node_at_height:
  "has_datum s v x \<Longrightarrow> 0 < h \<Longrightarrow> h \<le> height x \<Longrightarrow> \<exists>w \<in> nodes s. \<exists>d. has_datum s w d \<and> height d = h"
proof (induction x arbitrary: v)
  case (DPair x y)
  then obtain p where p: "v = VPair p" using has_datum_inv(1) by blast
  then have *: "p < length (h_pairs s)" "has_datum s (fst (h_pairs s ! p)) x" "has_datum s (snd (h_pairs s ! p)) y"
    using DPair.prems(1) by (auto simp: has_datum_pair)
  consider "h = height (DPair x y)" | "h \<le> height x" | "h \<le> height y"
    using DPair.prems(3) by fastforce
  then show ?case
  proof cases
    case 1
    then show ?thesis using DPair.prems(1) *(1) p by (intro bexI [of _ v] exI [of _ "DPair x y"]) (auto simp: nodes_def)
  qed (use DPair.IH(1) [OF *(2) DPair.prems(2)] DPair.IH(2) [OF *(3) DPair.prems(2)] in blast)+
next
  case (DVector ds)
  then obtain p where p: "v = VVector p" using has_datum_inv(2) by blast
  then have *: "p < length (h_vecs s)" "list_all2 (has_datum s) (h_vecs s ! p) ds"
    using DVector.prems(1) by (auto simp: has_datum_vector)
  show ?case
  proof (cases "h = height (DVector ds)")
    case True
    then show ?thesis using DVector.prems(1) *(1) p by (intro bexI [of _ v] exI [of _ "DVector ds"]) (auto simp: nodes_def)
  next
    case False
    then have "h \<le> Max (insert 0 (height ` set ds))" using DVector.prems(3) by simp
    then obtain d where d: "d \<in> set ds" "h \<le> height d" using height_vector [OF _ DVector.prems(2)] by blast
    then obtain w where "has_datum s w d" using *(2) by (auto simp: list_all2_conv_all_nth in_set_conv_nth)
    then show ?thesis using DVector.IH [OF d(1) _ DVector.prems(2) d(2)] by blast
  qed
qed simp_all

lemma height_bound:
  assumes "has_datum s v x"
  shows "height x \<le> length (h_pairs s) + length (h_vecs s)"
proof -
  define g where "g w = height (SOME d. has_datum s w d)" for w
  have "{1..height x} \<subseteq> g ` nodes s"
  proof
    fix h
    assume "h \<in> {1..height x}"
    then obtain w d where "w \<in> nodes s" and d: "has_datum s w d" "height d = h"
      using node_at_height [OF assms, of h] by auto
    moreover have "(SOME d. has_datum s w d) = d" using d(1) has_datum_fun by blast
    ultimately show "h \<in> g ` nodes s" by (auto simp: g_def)
  qed
  moreover have fin: "finite (nodes s)" by (simp add: nodes_def)
  ultimately have "card {1..height x} \<le> card (nodes s)" by (meson surj_card_le)
  also have "\<dots> \<le> card (VPair ` {..<length (h_pairs s)}) + card (VVector ` {..<length (h_vecs s)})"
    unfolding nodes_def by (rule card_Un_le)
  also have "\<dots> \<le> length (h_pairs s) + length (h_vecs s)"
    by (intro add_mono card_image_le [THEN order_trans]) auto
  finally show ?thesis by simp
qed

lemma height_fuel:
  assumes "has_datum s v x"
  shows "height x < equal_fuel s" and "Suc (height x) < hash_fuel s"
proof -
  let ?p = "length (h_pairs s)" and ?v = "length (h_vecs s)"
  have "?p \<le> ?p\<^sup>2" "?v \<le> ?v\<^sup>2" by (simp_all add: power2_nat_le_imp_le power2_eq_square)
  then have "?p + ?v < (?p\<^sup>2 + 1) * (?v\<^sup>2 + 2)" by (simp add: algebra_simps)
  then show "height x < equal_fuel s" using height_bound [OF assms] by (simp add: equal_fuel_def)
  show "Suc (height x) < hash_fuel s" using height_bound [OF assms] by (simp add: hash_fuel_def algebra_simps)
qed

subsection \<open>Equality\<close>

lemma eq_items_run:
  assumes "list_all2 (has_datum s) xs ds" "list_all2 (has_datum s) ys es" "length xs = length ys"
    and "\<And>x y d e. x \<in> set xs \<Longrightarrow> d \<in> set ds \<Longrightarrow> has_datum s x d \<Longrightarrow> has_datum s y e \<Longrightarrow> f x y s = Done (d = e) s"
  shows "eq_items f xs ys s = Done (ds = es) s"
  using assms
proof (induction f xs ys arbitrary: ds es rule: eq_items.induct)
  case (1 f x xs y ys)
  then obtain d ds' e es' where de: "ds = d # ds'" "es = e # es'" "has_datum s x d" "has_datum s y e"
      "list_all2 (has_datum s) xs ds'" "list_all2 (has_datum s) ys es'"
    by (auto simp: list_all2_Cons1)
  have here: "f x y s = Done (d = e) s" by (rule "1.prems"(4)) (simp_all add: de)
  show ?case
  proof (cases "d = e")
    case True
    have "eq_items f xs ys s = Done (ds' = es') s"
      by (rule "1.IH" [OF _ de(5,6)]) (use True "1.prems"(3,4) de in auto)
    with here True show ?thesis by (simp add: de bindM_def)
  qed (use here in \<open>simp add: de bindM_def\<close>)
qed auto

fun structural :: "val \<Rightarrow> bool" where
  "structural (VPair p) = True"
| "structural (VVector p) = True"
| "structural (VBytevector p) = True"
| "structural v = False"

context gmp_spec
begin

lemma eqv_real: "real_leaf a \<Longrightarrow> real_leaf b \<Longrightarrow> creme_eqv A a b s = Done (a = b) s"
proof (cases a; cases b)
  fix n d n' d'
  assume "real_leaf a" "real_leaf b" "a = VRational n d" "b = VRational n' d'"
  then show "creme_eqv A a b s = Done (a = b) s"
    using equal_law [of "(n, d)" "(n', d')"] mpq_val_inject [of "(n, d)" "(n', d')"] by auto
qed (auto simp: zcmp_law)

lemma eqv_data:
  assumes a: "has_datum s a x" and b: "has_datum s b y" and "\<not> structural a" and tags: "tag_of a = tag_of b"
  shows "creme_eqv A a b s = Done (x = y) s"
proof (cases a)
  case (VStr p)
  then obtain q where "b = VStr q" using tags by (cases b) auto
  then show ?thesis using a b VStr by (auto simp: has_datum_str)
next
  case (VRational n d)
  then obtain n' d' where "b = VRational n' d'" using tags by (cases b) auto
  then show ?thesis using a b VRational equal_law [of "(n, d)" "(n', d')"] mpq_val_inject [of "(n, d)" "(n', d')"]
    by (auto simp: has_datum_leaf split: if_splits)
next
  case (VComplex re im)
  then obtain re' im' where "b = VComplex re' im'" using tags by (cases b) auto
  then show ?thesis using a b VComplex by (auto simp: has_datum_leaf eqv_real bindM_def split: if_splits)
next
  case (VBigint z)
  then obtain z' where "b = VBigint z'" using tags by (cases b) auto
  then show ?thesis using a b VBigint by (auto simp: has_datum_leaf zcmp_law)
next
  case (VBox k p)
  then obtain l q where "b = VBox l q" using tags by (cases b) auto
  then show ?thesis using a b VBox by (auto simp: has_datum_leaf)
qed (use assms in \<open>cases b; auto simp: has_datum_leaf\<close>)+

lemma equal_rec_data:
  assumes "has_datum s a x" "has_datum s b y" "height x < n"
    and "\<forall>(p, q) \<in> set seen. \<exists>d. has_datum s (VPair p) d \<and> height x < height d"
  shows "creme_equal_rec n A a b seen s = Done (x = y) s"
  using assms
proof (induction n arbitrary: a b x y seen)
  case (Suc n)
  have tags: "x = y \<Longrightarrow> tag_of a = tag_of b" using has_datum_tag Suc.prems(1,2) by metis
  consider p where "a = VPair p" | p where "a = VVector p" | p where "a = VBytevector p" | "\<not> structural a"
    by (cases a) auto
  then show ?case
  proof cases
    case 1
    show ?thesis
    proof (cases "\<exists>q. b = VPair q")
      case True
      then obtain q where q: "b = VPair q" by blast
      obtain x1 x2 y1 y2 where x: "p < length (h_pairs s)" "x = DPair x1 x2"
          "has_datum s (fst (h_pairs s ! p)) x1" "has_datum s (snd (h_pairs s ! p)) x2"
        and y: "q < length (h_pairs s)" "y = DPair y1 y2"
          "has_datum s (fst (h_pairs s ! q)) y1" "has_datum s (snd (h_pairs s ! q)) y2"
        using Suc.prems(1,2) by (auto simp: 1 q has_datum_pair)
      have unseen: "(p, q) \<notin> set seen" using Suc.prems(1,4) has_datum_fun 1 by fastforce
      have path: "\<forall>(p', q') \<in> set ((p, q) # seen). \<exists>d. has_datum s (VPair p') d \<and> height z < height d"
        if "height z < height x" for z
        using Suc.prems(1,4) that unfolding 1 by (force dest: less_trans)
      have "creme_equal_rec n A (fst (h_pairs s ! p)) (fst (h_pairs s ! q)) ((p, q) # seen) s = Done (x1 = y1) s"
        by (rule Suc.IH [OF x(3) y(3) _ path]) (use Suc.prems(3) x(2) in auto)
      moreover have "creme_equal_rec n A (snd (h_pairs s ! p)) (snd (h_pairs s ! q)) ((p, q) # seen) s = Done (x2 = y2) s"
        by (rule Suc.IH [OF x(4) y(4) _ path]) (use Suc.prems(3) x(2) in auto)
      ultimately show ?thesis using x(1,2) y(1,2) unseen by (simp add: 1 q bindM_def)
    qed (use tags 1 in \<open>cases b; auto\<close>)
  next
    case 2
    show ?thesis
    proof (cases "\<exists>q. b = VVector q")
      case True
      then obtain q where q: "b = VVector q" by blast
      obtain ds es where x: "p < length (h_vecs s)" "x = DVector ds" "list_all2 (has_datum s) (h_vecs s ! p) ds"
        and y: "q < length (h_vecs s)" "y = DVector es" "list_all2 (has_datum s) (h_vecs s ! q) es"
        using Suc.prems(1,2) by (auto simp: 2 q has_datum_vector)
      have path: "\<forall>(p', q') \<in> set seen. \<exists>d. has_datum s (VPair p') d \<and> height z < height d" if "z \<in> set ds" for z
        using Suc.prems(4) height_member [OF that] unfolding x(2) by (force dest: less_trans)
      have items: "eq_items (\<lambda>x y. creme_equal_rec n A x y seen) (h_vecs s ! p) (h_vecs s ! q) s = Done (ds = es) s"
        if "length (h_vecs s ! p) = length (h_vecs s ! q)"
        by (rule eq_items_run [OF x(3) y(3) that])
          (use Suc.prems(3) height_member x(2) in \<open>force intro!: Suc.IH path\<close>)
      show ?thesis
      proof (cases "length (h_vecs s ! p) = length (h_vecs s ! q)")
        case True
        then show ?thesis using items x(1,2) y(1,2) by (simp add: 2 q)
      next
        case False
        then have "ds \<noteq> es" using list_all2_lengthD [OF x(3)] list_all2_lengthD [OF y(3)] by auto
        with False show ?thesis using x(1,2) y(1,2) by (simp add: 2 q)
      qed
    qed (use tags 2 in \<open>cases b; auto\<close>)
  next
    case 3
    show ?thesis
    proof (cases "\<exists>q. b = VBytevector q")
      case True
      then show ?thesis using Suc.prems(1,2) by (auto simp: 3 has_datum_bytes)
    qed (use tags 3 in \<open>cases b; auto\<close>)
  next
    case 4
    then have "creme_equal_rec (Suc n) A a b seen s = (if tag_of a \<noteq> tag_of b then Done False s else creme_eqv A a b s)"
      by (cases a) simp_all
    then show ?thesis using eqv_data [OF Suc.prems(1,2) 4] tags by auto
  qed
qed simp

lemma equal_data: "has_datum s a x \<Longrightarrow> has_datum s b y \<Longrightarrow> creme_equal A a b s = Done (x = y) s"
  unfolding creme_equal_def by (rule equal_rec_data [OF _ _ height_fuel(1)]) auto

end

subsection \<open>Hashing\<close>

definition leaf_hash :: "arith \<Rightarrow> host \<Rightarrow> val \<Rightarrow> 64 word" where
  "leaf_hash A H v = (case creme_hash_value_rec 2 A H v [] vm0 of Done h _ \<Rightarrow> h | _ \<Rightarrow> 0)"

fun datum_hash :: "arith \<Rightarrow> host \<Rightarrow> datum \<Rightarrow> 64 word" where
  "datum_hash A H (DAtom v) = leaf_hash A H v"
| "datum_hash A H (DText k bs) = (word_of_int k + 1) * 0x2545f4914f6cdd1d XOR fnv1a bs"
| "datum_hash A H (DPair x y) = tag_salt (VPair 0) XOR hash_combine (datum_hash A H x) (datum_hash A H y)"
| "datum_hash A H (DVector ds) =
     tag_salt (VVector 0) XOR fold (\<lambda>d h. hash_combine h (datum_hash A H d)) ds (word_of_nat (length ds))"

lemma hash_real: "real_leaf v \<Longrightarrow> creme_hash_value_rec (Suc n) A H v seen s = Done (leaf_hash A H v) s"
  by (cases v) (simp_all add: leaf_hash_def numeral_2_eq_2)

lemma hash_complex:
  assumes "real_leaf re" "real_leaf im"
  shows "creme_hash_value_rec (Suc (Suc n)) A H (VComplex re im) seen s =
    Done (tag_salt (VComplex re im) XOR hash_combine (leaf_hash A H re) (leaf_hash A H im)) s"
  using assms
  by (simp add: creme_hash_value_rec.simps(2) [of "Suc n" A H "VComplex re im"] hash_real bindM_def Let_def
      del: creme_hash_value_rec.simps)

lemma hash_leaf:
  assumes "\<not> compound v" "has_datum s v d"
  shows "creme_hash_value_rec (Suc (Suc n)) A H v seen s = Done (leaf_hash A H v) s"
proof (cases v)
  case (VComplex re im)
  then have parts: "real_leaf re" "real_leaf im" using assms(2) by (auto simp: has_datum_leaf split: if_splits)
  then have "leaf_hash A H v = tag_salt v XOR hash_combine (leaf_hash A H re) (leaf_hash A H im)"
    using hash_complex [OF parts, of 0 A H "[]" vm0] VComplex by (simp only: leaf_hash_def numeral_2_eq_2 run.case)
  then show ?thesis using hash_complex [OF parts] VComplex by simp
qed (use assms in \<open>auto simp: leaf_hash_def numeral_2_eq_2 Let_def tag_salt_def\<close>)

lemma hash_items_run:
  "list_all2 (\<lambda>v d. f v s = Done (g d) s) vs ds \<Longrightarrow>
     hash_items f h vs s = Done (fold (\<lambda>d h. hash_combine h (g d)) ds h) s"
  by (induction arbitrary: h rule: list_all2_induct) (simp_all add: bindM_def)

locale box_addresses =
  fixes H :: host
  assumes box_address: "obj_address H (VBox k p) = obj_address H (VBox l p)"
begin

lemma leaf_hash_box: "leaf_hash A H (VBox k p) = leaf_hash A H (VBox l p)"
  using box_address [of k p l] by (simp add: leaf_hash_def numeral_2_eq_2 Let_def tag_salt_def)

lemma leaf_hash_data: "\<not> compound v \<Longrightarrow> has_datum s v d \<Longrightarrow> leaf_hash A H v = datum_hash A H d"
proof (cases v)
  case (VBox k p)
  moreover assume "has_datum s v d"
  ultimately have "d = DAtom (VBox 0 p)" by (simp add: has_datum_leaf)
  then show ?thesis using leaf_hash_box [of A k p 0] VBox by simp
qed (auto simp: has_datum_leaf split: if_splits)

lemma hash_rec_data:
  assumes "has_datum s v x" "Suc (height x) < n"
    and "\<forall>p \<in> set seen. \<exists>d. has_datum s (VPair p) d \<and> height x < height d"
  shows "creme_hash_value_rec n A H v seen s = Done (datum_hash A H x) s"
  using assms
proof (induction n arbitrary: v x seen)
  case (Suc n)
  consider p where "v = VPair p" | p where "v = VVector p" | p where "v = VStr p" | p where "v = VBytevector p" | "\<not> compound v"
    by (cases v) auto
  then show ?case
  proof cases
    case 1
    obtain y z where x: "p < length (h_pairs s)" "x = DPair y z"
        "has_datum s (fst (h_pairs s ! p)) y" "has_datum s (snd (h_pairs s ! p)) z"
      using Suc.prems(1) by (auto simp: 1 has_datum_pair)
    have unseen: "p \<notin> set seen" using Suc.prems(1,3) has_datum_fun 1 by fastforce
    have path: "\<forall>p' \<in> set (p # seen). \<exists>d. has_datum s (VPair p') d \<and> height w < height d" if "height w < height x" for w
      using Suc.prems(1,3) that unfolding 1 by (force dest: less_trans)
    have "creme_hash_value_rec n A H (fst (h_pairs s ! p)) (p # seen) s = Done (datum_hash A H y) s"
      by (rule Suc.IH [OF x(3) _ path]) (use Suc.prems(2) x(2) in auto)
    moreover have "creme_hash_value_rec n A H (snd (h_pairs s ! p)) (p # seen) s = Done (datum_hash A H z) s"
      by (rule Suc.IH [OF x(4) _ path]) (use Suc.prems(2) x(2) in auto)
    ultimately show ?thesis using x(1,2) unseen by (simp add: 1 bindM_def Let_def tag_salt_def)
  next
    case 2
    obtain ds where x: "p < length (h_vecs s)" "x = DVector ds" "list_all2 (has_datum s) (h_vecs s ! p) ds"
      using Suc.prems(1) by (auto simp: 2 has_datum_vector)
    have path: "\<forall>p' \<in> set seen. \<exists>d. has_datum s (VPair p') d \<and> height z < height d" if "z \<in> set ds" for z
      using Suc.prems(3) height_member [OF that] unfolding x(2) by (force dest: less_trans)
    have "list_all2 (\<lambda>v d. creme_hash_value_rec n A H v seen s = Done (datum_hash A H d) s) (h_vecs s ! p) ds"
      using x(3)
    proof (rule list.rel_mono_strong)
      fix w z
      assume "z \<in> set ds" "has_datum s w z"
      then show "creme_hash_value_rec n A H w seen s = Done (datum_hash A H z) s"
        using Suc.IH [OF _ _ path] Suc.prems(2) height_member x(2) by fastforce
    qed
    then have "hash_items (\<lambda>v. creme_hash_value_rec n A H v seen) h (h_vecs s ! p) s =
        Done (fold (\<lambda>d h. hash_combine h (datum_hash A H d)) ds h) s" for h
      by (rule hash_items_run)
    then show ?thesis using x(1,2) list_all2_lengthD [OF x(3)] by (simp add: 2 bindM_def Let_def tag_salt_def)
  next
    case 5
    then obtain m where "n = Suc m" using Suc.prems(2) by (cases n) auto
    then show ?thesis using hash_leaf [OF 5 Suc.prems(1)] leaf_hash_data [OF 5 Suc.prems(1)] by simp
  qed (use Suc.prems(1) in \<open>auto simp: has_datum_str has_datum_bytes Let_def tag_salt_def\<close>)
qed simp

lemma hash_data: "has_datum s v x \<Longrightarrow> creme_hash_value A H v s = Done (datum_hash A H x) s"
  unfolding creme_hash_value_def by (rule hash_rec_data [OF _ height_fuel(2)]) auto

lemma heap_hash_data: "has_datum s v x \<Longrightarrow> heap_hash A H s v = datum_hash A H x"
  by (simp add: heap_hash_def hash_data)

end

interpretation ref_boxes: box_addresses reference_host
  by unfold_locales (simp add: reference_host_def)

end
