(* ===== verification/Hash_Props.thy ===== *)
theory Hash_Props
  imports Equal_Props List_Props
begin

text \<open>
  The hash tables against an association list in insertion order.  \<open>host_spec\<close> states the laws of the
  index map: for keys on which the comparison is an equivalence that the hash respects, a lookup after an
  insertion or a removal is that of a map, and only the hashes and comparisons of its keys matter.
  \<open>reference_host\<close> is an instance.
\<close>

definition hashable :: "(val \<Rightarrow> 64 word) \<Rightarrow> (val \<Rightarrow> val \<Rightarrow> bool) \<Rightarrow> val set \<Rightarrow> bool" where
  "hashable h eq K \<longleftrightarrow> (\<forall>a \<in> K. eq a a) \<and> (\<forall>a \<in> K. \<forall>b \<in> K. eq a b \<longrightarrow> eq b a \<and> h a = h b) \<and>
     (\<forall>a \<in> K. \<forall>b \<in> K. \<forall>c \<in> K. eq a b \<longrightarrow> eq b c \<longrightarrow> eq a c)"

lemma hashableD:
  assumes "hashable h eq K"
  shows "a \<in> K \<Longrightarrow> eq a a" and "a \<in> K \<Longrightarrow> b \<in> K \<Longrightarrow> eq a b \<Longrightarrow> eq b a" and "a \<in> K \<Longrightarrow> b \<in> K \<Longrightarrow> eq a b \<Longrightarrow> h a = h b"
    and "a \<in> K \<Longrightarrow> b \<in> K \<Longrightarrow> c \<in> K \<Longrightarrow> eq a b \<Longrightarrow> eq b c \<Longrightarrow> eq a c"
  using assms unfolding hashable_def by blast+

definition agree :: "(val \<Rightarrow> 64 word) \<Rightarrow> (val \<Rightarrow> val \<Rightarrow> bool) \<Rightarrow> (val \<Rightarrow> 64 word) \<Rightarrow> (val \<Rightarrow> val \<Rightarrow> bool) \<Rightarrow> val set \<Rightarrow> bool" where
  "agree h eq h' eq' K \<longleftrightarrow> (\<forall>a \<in> K. h' a = h a \<and> (\<forall>b \<in> K. eq' a b = eq a b))"

locale host_spec = box_addresses H for H :: host +
  fixes ok :: "(val \<Rightarrow> 64 word) \<Rightarrow> (val \<Rightarrow> val \<Rightarrow> bool) \<Rightarrow> val set \<Rightarrow> idx \<Rightarrow> bool"
  assumes ok_empty: "ok h eq K []"
    and ok_insert: "hashable h eq K \<Longrightarrow> ok h eq K m \<Longrightarrow> k \<in> K \<Longrightarrow> ok h eq K (idx_insert H h eq m k v)"
    and ok_erase: "hashable h eq K \<Longrightarrow> ok h eq K m \<Longrightarrow> k \<in> K \<Longrightarrow> ok h eq K (idx_erase H h eq m k)"
    and ok_agree: "ok h eq K m \<Longrightarrow> agree h eq h' eq' K \<Longrightarrow> K \<subseteq> K' \<Longrightarrow> ok h' eq' K' m"
    and get_agree: "ok h eq K m \<Longrightarrow> agree h eq h' eq' K \<Longrightarrow> k \<in> K \<Longrightarrow> idx_get H h' eq' m k = idx_get H h eq m k"
    and get_empty: "idx_get H h eq [] k = None"
    and get_insert: "hashable h eq K \<Longrightarrow> ok h eq K m \<Longrightarrow> k \<in> K \<Longrightarrow> k' \<in> K \<Longrightarrow>
      idx_get H h eq (idx_insert H h eq m k v) k' = (if eq k k' then Some v else idx_get H h eq m k')"
    and get_erase: "hashable h eq K \<Longrightarrow> ok h eq K m \<Longrightarrow> k \<in> K \<Longrightarrow> k' \<in> K \<Longrightarrow>
      idx_get H h eq (idx_erase H h eq m k) k' = (if eq k k' then None else idx_get H h eq m k')"
    and get_equal: "hashable h eq K \<Longrightarrow> ok h eq K m \<Longrightarrow> k \<in> K \<Longrightarrow> k' \<in> K \<Longrightarrow> eq k k' \<Longrightarrow>
      idx_get H h eq m k = idx_get H h eq m k'"
    and get_member: "ok h eq K m \<Longrightarrow> K \<subseteq> K' \<Longrightarrow> hashable h eq K' \<Longrightarrow> k \<in> K' \<Longrightarrow> idx_get H h eq m k = Some v \<Longrightarrow>
      \<exists>k0 \<in> K. eq k0 k"

definition keys_in :: "(val \<Rightarrow> 64 word) \<Rightarrow> (val \<Rightarrow> val \<Rightarrow> bool) \<Rightarrow> val set \<Rightarrow> idx \<Rightarrow> bool" where
  "keys_in h eq K m \<longleftrightarrow> fst ` set m \<subseteq> K"

lemma find_cong_set: "(\<And>x. x \<in> set xs \<Longrightarrow> P x = Q x) \<Longrightarrow> find P xs = find Q xs"
  by (induction xs) auto

lemma find_kept: "(\<And>x. x \<in> set xs \<Longrightarrow> P x \<Longrightarrow> \<not> Q x) \<Longrightarrow> find P (filter (\<lambda>x. \<not> Q x) xs) = find P xs"
  by (induction xs) auto

lemma find_dropped: "(\<And>x. x \<in> set xs \<Longrightarrow> P x \<Longrightarrow> Q x) \<Longrightarrow> find P (filter (\<lambda>x. \<not> Q x) xs) = None"
  by (auto simp: find_None_iff)

interpretation ref_host: host_spec reference_host keys_in
proof unfold_locales
  fix h eq K m k k' v
  assume *: "hashable h eq K" "keys_in h eq K m" "k \<in> K" "k' \<in> K"
  note laws = hashableD [OF *(1)]
  have mem: "fst e \<in> K" if "e \<in> set m" for e using *(2) that by (auto simp: keys_in_def)
  have drop: "map_option snd (find (\<lambda>e. h (fst e) = h k' \<and> eq (fst e) k')
      (filter (\<lambda>e. \<not> (h (fst e) = h k \<and> eq (fst e) k)) m)) =
      (if eq k k' then None else map_option snd (find (\<lambda>e. h (fst e) = h k' \<and> eq (fst e) k') m))"
  proof (cases "eq k k'")
    case True
    have "find (\<lambda>e. h (fst e) = h k' \<and> eq (fst e) k') (filter (\<lambda>e. \<not> (h (fst e) = h k \<and> eq (fst e) k)) m) = None"
    proof (rule find_dropped)
      fix e
      assume e: "e \<in> set m" "h (fst e) = h k' \<and> eq (fst e) k'"
      then show "h (fst e) = h k \<and> eq (fst e) k"
        using laws(2) [OF *(3,4) True] laws(3) [OF *(3,4) True] laws(4) [OF mem [OF e(1)] *(4,3)] by simp
    qed
    with True show ?thesis by simp
  next
    case False
    have "find (\<lambda>e. h (fst e) = h k' \<and> eq (fst e) k') (filter (\<lambda>e. \<not> (h (fst e) = h k \<and> eq (fst e) k)) m) =
        find (\<lambda>e. h (fst e) = h k' \<and> eq (fst e) k') m"
    proof (rule find_kept)
      fix e
      assume e: "e \<in> set m" "h (fst e) = h k' \<and> eq (fst e) k'"
      then show "\<not> (h (fst e) = h k \<and> eq (fst e) k)"
        using False laws(2) [OF mem [OF e(1)] *(3)] laws(4) [OF *(3) mem [OF e(1)] *(4)] by blast
    qed
    with False show ?thesis by simp
  qed
  show "idx_get reference_host h eq (idx_erase reference_host h eq m k) k' =
      (if eq k k' then None else idx_get reference_host h eq m k')"
    using drop by (simp add: reference_host_def)
  have "h k = h k'" if "eq k k'" using laws(3) [OF *(3,4) that] .
  then show "idx_get reference_host h eq (idx_insert reference_host h eq m k v) k' =
      (if eq k k' then Some v else idx_get reference_host h eq m k')"
    using drop by (simp add: reference_host_def)
  assume eq: "eq k k'"
  have "find (\<lambda>e. h (fst e) = h k \<and> eq (fst e) k) m = find (\<lambda>e. h (fst e) = h k' \<and> eq (fst e) k') m"
  proof (rule find_cong_set)
    fix e
    assume e: "e \<in> set m"
    show "(h (fst e) = h k \<and> eq (fst e) k) = (h (fst e) = h k' \<and> eq (fst e) k')"
      using laws(3) [OF *(3,4) eq] laws(2) [OF *(3,4) eq] laws(4) [OF mem [OF e] *(3,4) _ eq] laws(4) [OF mem [OF e] *(4,3)] eq by auto
  qed
  then show "idx_get reference_host h eq m k = idx_get reference_host h eq m k'"
    by (simp add: reference_host_def)
next
  fix h eq h' eq' K m k
  assume "keys_in h eq K m" "agree h eq h' eq' K" "k \<in> K"
  then have "find (\<lambda>e. h' (fst e) = h' k \<and> eq' (fst e) k) m = find (\<lambda>e. h (fst e) = h k \<and> eq (fst e) k) m"
    by (intro find_cong_set) (auto simp: keys_in_def agree_def)
  then show "idx_get reference_host h' eq' m k = idx_get reference_host h eq m k"
    by (simp add: reference_host_def)
next
  fix h eq K K' m k v
  assume *: "keys_in h eq K m" "idx_get reference_host h eq m k = Some v"
  then obtain e where "find (\<lambda>e. h (fst e) = h k \<and> eq (fst e) k) m = Some e" by (auto simp: reference_host_def)
  then have "e \<in> set m" "eq (fst e) k" by (auto simp: find_Some_iff)
  then show "\<exists>k0 \<in> K. eq k0 k" using *(1) by (auto simp: keys_in_def)
qed (auto simp: keys_in_def reference_host_def)

subsection \<open>Slots and entries\<close>

text \<open>The live slots of a table, given the lookup \<open>g\<close> of its map.\<close>

primrec entries_from :: "(val \<Rightarrow> int option) \<Rightarrow> int \<Rightarrow> (val \<times> val) list \<Rightarrow> (val \<times> val) list" where
  "entries_from g i [] = []"
| "entries_from g i (kv # kvs) =
     (if g (fst kv) = Some (i + 1) then kv # entries_from g (i + 1) kvs else entries_from g (i + 1) kvs)"

definition without :: "(val \<Rightarrow> val \<Rightarrow> bool) \<Rightarrow> val \<Rightarrow> (val \<times> val) list \<Rightarrow> (val \<times> val) list" where
  "without eq k es = filter (\<lambda>e. \<not> eq (fst e) k) es"

definition entry :: "(val \<Rightarrow> val \<Rightarrow> bool) \<Rightarrow> val \<Rightarrow> (val \<times> val) list \<Rightarrow> val option" where
  "entry eq k es = map_option snd (find (\<lambda>e. eq (fst e) k) es)"

definition points :: "(val \<Rightarrow> val \<Rightarrow> bool) \<Rightarrow> val set \<Rightarrow> (val \<Rightarrow> int option) \<Rightarrow> (val \<times> val) list \<Rightarrow> bool" where
  "points eq K g slots \<longleftrightarrow> fst ` set slots \<subseteq> K \<and>
     (\<forall>k \<in> K. \<forall>i. g k = Some i \<longrightarrow> 1 \<le> i \<and> i \<le> int (length slots) \<and> eq (fst (slots ! nat (i - 1))) k) \<and>
     (\<forall>k \<in> K. \<forall>k' \<in> K. eq k k' \<longrightarrow> g k = g k')"

lemma entries_append: "entries_from g i (xs @ ys) = entries_from g i xs @ entries_from g (i + int (length xs)) ys"
  by (induction xs arbitrary: i) (simp_all add: algebra_simps)

lemma entries_subset: "set (entries_from g i xs) \<subseteq> set xs"
  by (induction xs arbitrary: i) auto

lemma entries_length: "length (entries_from g i xs) \<le> length xs"
  by (induction xs arbitrary: i) (auto intro: le_SucI)

lemma entries_live: "e \<in> set (entries_from g i xs) \<Longrightarrow> \<exists>j \<ge> i. g (fst e) = Some (j + 1)"
proof (induction xs arbitrary: i)
  case (Cons a xs)
  then show ?case by (cases "e = a \<and> g (fst a) = Some (i + 1)") (force split: if_splits)+
qed simp

lemma entries_cong: "(\<And>kv. kv \<in> set xs \<Longrightarrow> g (fst kv) = g' (fst kv)) \<Longrightarrow> entries_from g i xs = entries_from g' i xs"
  by (induction xs arbitrary: i) auto

text \<open>The entries for a key: the slot its lookup names, if that slot is among these.\<close>

lemma entries_matching:
  assumes "\<And>kv. kv \<in> set xs \<Longrightarrow> eq (fst kv) k \<Longrightarrow> g (fst kv) = g k"
  shows "filter (\<lambda>e. eq (fst e) k) (entries_from g i xs) =
    (case g k of None \<Rightarrow> []
     | Some c \<Rightarrow> if i < c \<and> c \<le> i + int (length xs) \<and> eq (fst (xs ! nat (c - i - 1))) k then [xs ! nat (c - i - 1)] else [])"
  using assms
proof (induction xs arbitrary: i)
  case (Cons a xs)
  have *: "filter (\<lambda>e. eq (fst e) k) (entries_from g (i + 1) xs) =
    (case g k of None \<Rightarrow> []
     | Some c \<Rightarrow> if i + 1 < c \<and> c \<le> i + 1 + int (length xs) \<and> eq (fst (xs ! nat (c - (i + 1) - 1))) k
        then [xs ! nat (c - (i + 1) - 1)] else [])"
    using Cons by simp
  show ?case
  proof (cases "g k")
    case None
    then show ?thesis using * Cons.prems by auto
  next
    case (Some c)
    consider "c = i + 1" | "i + 1 < c" | "c \<le> i" by linarith
    then show ?thesis
    proof cases
      case 2
      then have "nat (c - i - 1) = Suc (nat (c - (i + 1) - 1))" by linarith
      then show ?thesis using * Some 2 Cons.prems by (auto split: if_splits)
    qed (use * Some Cons.prems in auto)
  qed
qed (auto split: option.splits)

lemma entry_matching: "entry eq k es = (case filter (\<lambda>e. eq (fst e) k) es of [] \<Rightarrow> None | e # _ \<Rightarrow> Some (snd e))"
  unfolding entry_def by (induction es) auto

lemma points_matching:
  assumes "points eq K g slots" "k \<in> K"
  shows "filter (\<lambda>e. eq (fst e) k) (entries_from g 0 slots) = (case g k of None \<Rightarrow> [] | Some c \<Rightarrow> [slots ! nat (c - 1)])"
proof -
  have "g (fst kv) = g k" if "kv \<in> set slots" "eq (fst kv) k" for kv
    using assms that unfolding points_def by blast
  then have "filter (\<lambda>e. eq (fst e) k) (entries_from g 0 slots) =
    (case g k of None \<Rightarrow> []
     | Some c \<Rightarrow> if 0 < c \<and> c \<le> 0 + int (length slots) \<and> eq (fst (slots ! nat (c - 0 - 1))) k then [slots ! nat (c - 0 - 1)] else [])"
    by (rule entries_matching)
  then show ?thesis using assms by (auto simp: points_def split: option.splits)
qed

lemma points_entry:
  "points eq K g slots \<Longrightarrow> k \<in> K \<Longrightarrow> entry eq k (entries_from g 0 slots) = map_option (\<lambda>c. snd (slots ! nat (c - 1))) (g k)"
  by (simp add: entry_matching points_matching split: option.splits)

lemma points_count:
  assumes "points eq K g slots" "k \<in> K"
  shows "length (without eq k (entries_from g 0 slots)) + (if g k = None then 0 else 1) = length (entries_from g 0 slots)"
  using sum_length_filter_compl [of "\<lambda>e. eq (fst e) k" "entries_from g 0 slots"] points_matching [OF assms]
  by (auto simp: without_def split: option.splits)

lemma entries_without:
  assumes "\<forall>kv \<in> set xs. g' (fst kv) = (if eq (fst kv) k then c else g (fst kv))"
    and "\<forall>j < length xs. c \<noteq> Some (i + int j + 1)"
  shows "entries_from g' i xs = without eq k (entries_from g i xs)"
  using assms
proof (induction xs arbitrary: i)
  case (Cons a xs)
  have "entries_from g' (i + 1) xs = without eq k (entries_from g (i + 1) xs)"
    by (rule Cons.IH) (use Cons.prems in \<open>force simp: algebra_simps\<close>)+
  moreover have "c \<noteq> Some (i + 1)" using Cons.prems(2) by force
  ultimately show ?case using Cons.prems(1) by (auto simp: without_def)
qed (simp add: without_def)

abbreviation distinct_keys :: "(val \<Rightarrow> val \<Rightarrow> bool) \<Rightarrow> (val \<times> val) list \<Rightarrow> bool" where
  "distinct_keys eq \<equiv> sorted_wrt (\<lambda>a b. \<not> eq (fst a) (fst b))"

lemma entries_distinct:
  assumes "fst ` set xs \<subseteq> K" "\<forall>k \<in> K. \<forall>k' \<in> K. eq k k' \<longrightarrow> g k = g k'"
  shows "distinct_keys eq (entries_from g i xs)"
  using assms(1)
proof (induction xs arbitrary: i)
  case (Cons a xs)
  have IH: "distinct_keys eq (entries_from g (i + 1) xs)" using Cons by simp
  have "\<not> eq (fst a) (fst e)" if live: "g (fst a) = Some (i + 1)" "e \<in> set (entries_from g (i + 1) xs)" for e
  proof -
    have "fst a \<in> K" "fst e \<in> K" using Cons.prems entries_subset live(2) by fastforce+
    moreover obtain j where "g (fst e) = Some (j + 1)" "j \<ge> i + 1" using entries_live live(2) by blast
    ultimately show ?thesis using assms(2) live(1) by force
  qed
  with IH show ?case by simp
qed simp

subsection \<open>The table operations\<close>

text \<open>The keys with a datum, and the state a table has to be in.  A table survives any change of the heap
  that leaves the data alone.\<close>

definition data_keys :: "vm \<Rightarrow> val set" where
  "data_keys s = {v. \<exists>d. has_datum s v d}"

definition more_heap :: "vm \<Rightarrow> vm \<Rightarrow> bool" where
  "more_heap s s' \<longleftrightarrow> (\<exists>ps vs ss bs. h_pairs s' = h_pairs s @ ps \<and> h_vecs s' = h_vecs s @ vs \<and>
     h_strs s' = h_strs s @ ss \<and> h_bvs s' = h_bvs s @ bs)"

lemma datum_more: "more_heap s s' \<Longrightarrow> datum_of n s v = Some d \<Longrightarrow> datum_of n s' v = Some d"
proof (induction n arbitrary: v d)
  case (Suc n)
  note IH = Suc.IH [OF Suc.prems(1)]
  obtain ps vs ss bs where more: "h_pairs s' = h_pairs s @ ps" "h_vecs s' = h_vecs s @ vs"
     "h_strs s' = h_strs s @ ss" "h_bvs s' = h_bvs s @ bs"
    using Suc.prems(1) by (auto simp: more_heap_def)
  show ?case
  proof (cases v)
    case (VVector p)
    with Suc.prems(2) obtain ds where ds: "p < length (h_vecs s)" "data_of (datum_of n s) (h_vecs s ! p) = Some ds" "d = DVector ds"
      by (auto split: if_splits)
    from data_of_mono [OF _ ds(2), of "datum_of n s'"] IH ds show ?thesis by (simp add: VVector more nth_append)
  qed (use Suc.prems(2) IH in \<open>auto simp: more nth_append split: if_splits option.splits\<close>)
qed simp

lemma has_datum_more: "more_heap s s' \<Longrightarrow> has_datum s v d \<Longrightarrow> has_datum s' v d"
  unfolding has_datum_def using datum_more by blast

lemma more_heap_simps [simp]:
  "more_heap s s" "more_heap s (with_pairs s new)" "more_heap s (s\<lparr>h_boxes := bs\<rparr>)"
  "more_heap s (s\<lparr>h_pairs := h_pairs s @ new\<rparr>)"
  by (simp_all add: more_heap_def with_pairs_def)

definition table_get :: "arith \<Rightarrow> host \<Rightarrow> vm \<Rightarrow> idx \<Rightarrow> val \<Rightarrow> int option" where
  "table_get A H s m k = idx_get H (heap_hash A H s) (creme_ht_cmpr A s) m k"

definition table_entries :: "arith \<Rightarrow> host \<Rightarrow> vm \<Rightarrow> hash_table \<Rightarrow> (val \<times> val) list" where
  "table_entries A H s t = entries_from (table_get A H s (ht_map t)) 0 (ht_slots t)"

definition table_ok :: "((val \<Rightarrow> 64 word) \<Rightarrow> (val \<Rightarrow> val \<Rightarrow> bool) \<Rightarrow> val set \<Rightarrow> idx \<Rightarrow> bool) \<Rightarrow> arith \<Rightarrow> host \<Rightarrow> vm \<Rightarrow> hash_table \<Rightarrow> bool" where
  "table_ok ok A H s t \<longleftrightarrow> ok (heap_hash A H s) (creme_ht_cmpr A s) (data_keys s) (ht_map t) \<and>
     points (creme_ht_cmpr A s) (data_keys s) (table_get A H s (ht_map t)) (ht_slots t) \<and>
     ht_n_live t = int (length (table_entries A H s t)) \<and> length (ht_slots t) \<le> ht_cap_values t"

locale hash_model = gmp_spec A + host_spec H ok for A H ok
begin

lemma cmpr_data: "has_datum s a x \<Longrightarrow> has_datum s b y \<Longrightarrow> creme_ht_cmpr A s a b \<longleftrightarrow> x = y"
  by (simp add: creme_ht_cmpr_def equal_data)

lemma data_hashable: "hashable (heap_hash A H s) (creme_ht_cmpr A s) (data_keys s)"
  by (auto simp: hashable_def data_keys_def cmpr_data heap_hash_data)

lemma data_agree:
  assumes same: "\<And>v d. has_datum s v d \<Longrightarrow> has_datum s' v d"
  shows "agree (heap_hash A H s) (creme_ht_cmpr A s) (heap_hash A H s') (creme_ht_cmpr A s') (data_keys s)"
  unfolding agree_def
proof (intro ballI conjI)
  fix a b
  assume "a \<in> data_keys s" "b \<in> data_keys s"
  then obtain x y where *: "has_datum s a x" "has_datum s b y" by (auto simp: data_keys_def)
  show "creme_ht_cmpr A s' a b = creme_ht_cmpr A s a b"
    using cmpr_data [OF *] cmpr_data [OF *[THEN same]] by simp
next
  fix a
  assume "a \<in> data_keys s"
  then obtain x where *: "has_datum s a x" by (auto simp: data_keys_def)
  show "heap_hash A H s' a = heap_hash A H s a"
    using heap_hash_data [OF *] heap_hash_data [OF same [OF *]] by simp
qed

lemma get_respects:
  "ok (heap_hash A H s) (creme_ht_cmpr A s) (data_keys s) m \<Longrightarrow>
     \<forall>k \<in> data_keys s. \<forall>k' \<in> data_keys s. creme_ht_cmpr A s k k' \<longrightarrow> table_get A H s m k = table_get A H s m k'"
  unfolding table_get_def using get_equal [OF data_hashable] by blast

lemma table_survives:
  assumes ht: "table_ok ok A H s t" and same: "\<And>v d. has_datum s v d \<Longrightarrow> has_datum s' v d"
  shows "table_ok ok A H s' t" and "table_entries A H s' t = table_entries A H s t"
proof -
  note agr = data_agree [OF same]
  have sub: "data_keys s \<subseteq> data_keys s'" using same by (auto simp: data_keys_def)
  have okm: "ok (heap_hash A H s) (creme_ht_cmpr A s) (data_keys s) (ht_map t)"
    and pts: "points (creme_ht_cmpr A s) (data_keys s) (table_get A H s (ht_map t)) (ht_slots t)"
    using ht by (simp_all add: table_ok_def)
  note okm' = ok_agree [OF okm agr sub]
  have get: "table_get A H s' (ht_map t) k = table_get A H s (ht_map t) k" if "k \<in> data_keys s" for k
    unfolding table_get_def by (rule get_agree [OF okm agr that])
  have keys: "fst ` set (ht_slots t) \<subseteq> data_keys s" using pts by (simp add: points_def)
  show entries: "table_entries A H s' t = table_entries A H s t"
    unfolding table_entries_def using keys by (intro entries_cong get) auto
  have "1 \<le> i \<and> i \<le> int (length (ht_slots t)) \<and> creme_ht_cmpr A s' (fst (ht_slots t ! nat (i - 1))) k"
    if k: "k \<in> data_keys s'" "table_get A H s' (ht_map t) k = Some i" for k i
  proof -
    obtain k0 where k0: "k0 \<in> data_keys s" "creme_ht_cmpr A s' k0 k"
      using get_member [OF ok_agree [OF okm agr order.refl] sub data_hashable k(1)] k(2) by (auto simp: table_get_def)
    then have "table_get A H s (ht_map t) k0 = Some i"
      using get_respects [OF okm'] sub k get by force
    then have *: "1 \<le> i" "i \<le> int (length (ht_slots t))" "creme_ht_cmpr A s (fst (ht_slots t ! nat (i - 1))) k0"
      using pts k0(1) by (auto simp: points_def)
    let ?key = "fst (ht_slots t ! nat (i - 1))"
    have key: "?key \<in> data_keys s" using keys *(1,2) by (auto intro!: image_subsetI nth_mem subsetD [OF keys])
    then have "creme_ht_cmpr A s' ?key k0" using agr *(3) k0(1) by (simp add: agree_def)
    then show ?thesis
      using * hashableD(4) [OF data_hashable] key k0 k(1) sub by blast
  qed
  then have "points (creme_ht_cmpr A s') (data_keys s') (table_get A H s' (ht_map t)) (ht_slots t)"
    using keys sub get_respects [OF okm'] unfolding points_def by blast
  then show "table_ok ok A H s' t"
    using ht okm' entries by (simp add: table_ok_def)
qed

lemma idx_runs:
  assumes "k \<in> data_keys s"
  shows "creme_ht_idx_get A H m k s = Done (table_get A H s m k) s"
    and "creme_ht_idx_insert A H m k v s = Done (idx_insert H (heap_hash A H s) (creme_ht_cmpr A s) m k v) s"
    and "creme_ht_idx_erase A H m k s = Done (idx_erase H (heap_hash A H s) (creme_ht_cmpr A s) m k) s"
  using assms
  by (auto simp: data_keys_def creme_ht_idx_get_def creme_ht_idx_insert_def creme_ht_idx_erase_def
      bindM_def hash_data getM_def table_get_def)

lemma live_slots_run:
  "fst ` set kvs \<subseteq> data_keys s \<Longrightarrow>
     live_slots A H m i kvs s = Done (entries_from (table_get A H s m) i kvs) s"
  by (induction kvs arbitrary: i) (simp_all add: idx_runs bindM_def)

lemma repoint_run:
  assumes "fst ` set kvs \<subseteq> data_keys s" "distinct_keys (creme_ht_cmpr A s) kvs"
    and "ok (heap_hash A H s) (creme_ht_cmpr A s) (data_keys s) m"
  shows "\<exists>m'. repoint A H m i kvs s = Done m' s \<and> ok (heap_hash A H s) (creme_ht_cmpr A s) (data_keys s) m' \<and>
    (\<forall>j < length kvs. \<forall>k \<in> data_keys s. creme_ht_cmpr A s (fst (kvs ! j)) k \<longrightarrow> table_get A H s m' k = Some (i + int j + 1)) \<and>
    (\<forall>k \<in> data_keys s. (\<forall>e \<in> set kvs. \<not> creme_ht_cmpr A s (fst e) k) \<longrightarrow> table_get A H s m' k = table_get A H s m k)"
  using assms
proof (induction kvs arbitrary: m i)
  case (Cons e kvs)
  let ?m = "idx_insert H (heap_hash A H s) (creme_ht_cmpr A s) m (fst e) (i + 1)"
  note laws = hashableD [OF data_hashable]
  have e: "fst e \<in> data_keys s" using Cons.prems(1) by simp
  have okm: "ok (heap_hash A H s) (creme_ht_cmpr A s) (data_keys s) ?m"
    by (rule ok_insert [OF data_hashable Cons.prems(3) e])
  obtain m' where m': "repoint A H ?m (i + 1) kvs s = Done m' s" "ok (heap_hash A H s) (creme_ht_cmpr A s) (data_keys s) m'"
    and found: "\<And>j k. j < length kvs \<Longrightarrow> k \<in> data_keys s \<Longrightarrow> creme_ht_cmpr A s (fst (kvs ! j)) k \<Longrightarrow>
      table_get A H s m' k = Some (i + 1 + int j + 1)"
    and other: "\<And>k. k \<in> data_keys s \<Longrightarrow> (\<forall>e \<in> set kvs. \<not> creme_ht_cmpr A s (fst e) k) \<Longrightarrow> table_get A H s m' k = table_get A H s ?m k"
    using Cons.IH [OF _ _ okm, of "i + 1"] Cons.prems(1,2) by auto
  have get: "table_get A H s ?m k = (if creme_ht_cmpr A s (fst e) k then Some (i + 1) else table_get A H s m k)"
    if "k \<in> data_keys s" for k
    unfolding table_get_def by (rule get_insert [OF data_hashable Cons.prems(3) e that])
  have "table_get A H s m' k = Some (i + int j + 1)"
    if j: "j < length (e # kvs)" "k \<in> data_keys s" "creme_ht_cmpr A s (fst ((e # kvs) ! j)) k" for j k
  proof (cases j)
    case 0
    have "\<not> creme_ht_cmpr A s (fst e') k" if "e' \<in> set kvs" for e'
    proof
      assume eq: "creme_ht_cmpr A s (fst e') k"
      have e': "fst e' \<in> data_keys s" using Cons.prems(1) that by auto
      have "creme_ht_cmpr A s (fst e) (fst e')"
        using laws(4) [OF e j(2) e'] laws(2) [OF e' j(2) eq] j(3) 0 by simp
      then show False using Cons.prems(2) that by auto
    qed
    then show ?thesis using other get j 0 by simp
  next
    case (Suc j')
    then show ?thesis using found [of j' k] j by simp
  qed
  moreover have "table_get A H s m' k = table_get A H s m k"
    if "k \<in> data_keys s" "\<forall>e' \<in> set (e # kvs). \<not> creme_ht_cmpr A s (fst e') k" for k
    using other get that by simp
  ultimately show ?case using m' by (simp add: idx_runs [OF e] bindM_def)
qed simp

lemma entries_renumbered:
  "(\<And>j. j < length kvs \<Longrightarrow> g (fst (kvs ! j)) = Some (i + int j + 1)) \<Longrightarrow> entries_from g i kvs = kvs"
proof (induction kvs arbitrary: i)
  case (Cons e kvs)
  have "g (fst (kvs ! j)) = Some (i + 1 + int j + 1)" if "j < length kvs" for j
    using Cons.prems [of "Suc j"] that by (simp add: algebra_simps)
  then show ?case using Cons.IH Cons.prems [of 0] by simp
qed simp

lemma table_keys: "table_ok ok A H s t \<Longrightarrow> fst ` set (ht_slots t) \<subseteq> data_keys s"
  by (simp add: table_ok_def points_def)

lemma compact_run:
  assumes "table_ok ok A H s t"
  shows "\<exists>t'. ht_compact A H t s = Done t' s \<and> table_ok ok A H s t' \<and> table_entries A H s t' = table_entries A H s t \<and>
    ht_cap_values t' \<le> ht_cap_values t"
proof -
  let ?es = "table_entries A H s t" and ?eq = "creme_ht_cmpr A s"
  note keys = table_keys [OF assms] and laws = hashableD [OF data_hashable, of _ s]
  have okm: "ok (heap_hash A H s) ?eq (data_keys s) (ht_map t)"
    and pts: "points ?eq (data_keys s) (table_get A H s (ht_map t)) (ht_slots t)"
    and live: "ht_n_live t = int (length ?es)" and cap: "length (ht_slots t) \<le> ht_cap_values t"
    using assms by (simp_all add: table_ok_def)
  have sub: "set ?es \<subseteq> set (ht_slots t)" and len: "length ?es \<le> length (ht_slots t)"
    by (simp_all add: table_entries_def entries_subset entries_length)
  have esk: "fst ` set ?es \<subseteq> data_keys s" using sub keys by auto
  have "distinct_keys ?eq ?es" unfolding table_entries_def
    by (rule entries_distinct [OF keys]) (use pts in \<open>simp add: points_def\<close>)
  then obtain m' where m': "repoint A H (ht_map t) 0 ?es s = Done m' s" "ok (heap_hash A H s) ?eq (data_keys s) m'"
    and found: "\<And>j k. j < length ?es \<Longrightarrow> k \<in> data_keys s \<Longrightarrow> ?eq (fst (?es ! j)) k \<Longrightarrow> table_get A H s m' k = Some (0 + int j + 1)"
    and other: "\<And>k. k \<in> data_keys s \<Longrightarrow> (\<forall>e \<in> set ?es. \<not> ?eq (fst e) k) \<Longrightarrow> table_get A H s m' k = table_get A H s (ht_map t) k"
    using repoint_run [OF esk _ okm, of 0] by blast
  let ?t = "\<lparr> ht_map = m', ht_slots = ?es, ht_cap_values = nat (ht_n_live t), ht_n_live = int (length ?es) \<rparr>"
  have run: "ht_compact A H t s = Done ?t s"
    using live by (simp add: ht_compact_def live_slots_run [OF keys] bindM_def table_entries_def [symmetric] m'(1))
  have "table_get A H s m' (fst (?es ! j)) = Some (0 + int j + 1)" if "j < length ?es" for j
  proof -
    have "fst (?es ! j) \<in> data_keys s" using esk that by (auto dest: nth_mem)
    then show ?thesis using found [OF that] laws(1) by blast
  qed
  then have es: "table_entries A H s ?t = ?es" unfolding table_entries_def [of A H s ?t]
    by (simp add: entries_renumbered)
  have "1 \<le> i \<and> i \<le> int (length ?es) \<and> ?eq (fst (?es ! nat (i - 1))) k"
    if k: "k \<in> data_keys s" "table_get A H s m' k = Some i" for k i
  proof (cases "\<exists>e \<in> set ?es. ?eq (fst e) k")
    case True
    then obtain j where "j < length ?es" "?eq (fst (?es ! j)) k" by (auto simp: in_set_conv_nth)
    moreover from this have "i = int j + 1" using found [OF _ k(1)] k(2) by simp
    ultimately show ?thesis by simp
  next
    case False
    then have "table_get A H s (ht_map t) k = Some i" using other [OF k(1)] k(2) by simp
    then have "entry ?eq k ?es \<noteq> None" using points_entry [OF pts k(1)] by (simp add: table_entries_def)
    then have "find (\<lambda>e. ?eq (fst e) k) ?es \<noteq> None" by (simp add: entry_def)
    with False show ?thesis by (auto simp: find_None_iff)
  qed
  then have "points ?eq (data_keys s) (table_get A H s m') ?es"
    using esk get_respects [OF m'(2)] unfolding points_def by blast
  then have "table_ok ok A H s ?t" using m'(2) es live by (simp add: table_ok_def)
  then show ?thesis using run es live len cap by (intro exI [of _ ?t]) simp
qed

lemma maybe_compact_run:
  assumes "table_ok ok A H s t"
  shows "\<exists>t'. ht_maybe_compact A H t s = Done t' s \<and> table_ok ok A H s t' \<and> table_entries A H s t' = table_entries A H s t \<and>
    ht_cap_values t' \<le> ht_cap_values t"
  using compact_run [OF assms] assms by (auto simp: ht_maybe_compact_def)

text \<open>The table after an insertion, and after a removal.\<close>

lemma table_insert:
  assumes t: "table_ok ok A H s t" and k: "k \<in> data_keys s" and c: "length (ht_slots t) < c"
  shows "table_ok ok A H s \<lparr> ht_map = idx_insert H (heap_hash A H s) (creme_ht_cmpr A s) (ht_map t) k (int (length (ht_slots t)) + 1),
      ht_slots = ht_slots t @ [(k, v)], ht_cap_values = c,
      ht_n_live = (if table_get A H s (ht_map t) k = None then ht_n_live t + 1 else ht_n_live t) \<rparr>" (is "table_ok ok A H s ?t")
    and "table_entries A H s \<lparr> ht_map = idx_insert H (heap_hash A H s) (creme_ht_cmpr A s) (ht_map t) k (int (length (ht_slots t)) + 1),
      ht_slots = ht_slots t @ [(k, v)], ht_cap_values = c,
      ht_n_live = (if table_get A H s (ht_map t) k = None then ht_n_live t + 1 else ht_n_live t) \<rparr> =
      without (creme_ht_cmpr A s) k (table_entries A H s t) @ [(k, v)]"
proof -
  let ?eq = "creme_ht_cmpr A s" and ?g = "table_get A H s (ht_map t)"
  note keys = table_keys [OF t] and laws = hashableD [OF data_hashable, of _ s]
  have okm: "ok (heap_hash A H s) ?eq (data_keys s) (ht_map t)"
    and pts: "points ?eq (data_keys s) ?g (ht_slots t)"
    and live: "ht_n_live t = int (length (table_entries A H s t))"
    using t by (simp_all add: table_ok_def)
  have get: "table_get A H s (ht_map ?t) k' = (if ?eq k k' then Some (int (length (ht_slots t)) + 1) else ?g k')"
    if "k' \<in> data_keys s" for k'
    using get_insert [OF data_hashable okm k that] by (simp add: table_get_def)
  have swap: "?eq k k' \<longleftrightarrow> ?eq k' k" if "k' \<in> data_keys s" for k'
    using laws(2) [OF k that] laws(2) [OF that k] by blast
  have "entries_from (table_get A H s (ht_map ?t)) 0 (ht_slots t) = without ?eq k (entries_from ?g 0 (ht_slots t))"
    by (rule entries_without [where c = "Some (int (length (ht_slots t)) + 1)"])
      (use keys get swap in \<open>auto intro!: ballI\<close>)
  then show es: "table_entries A H s ?t = without ?eq k (table_entries A H s t) @ [(k, v)]"
    using get [OF k] laws(1) [OF k] by (simp add: table_entries_def entries_append)
  have okt: "ok (heap_hash A H s) ?eq (data_keys s) (ht_map ?t)"
    using ok_insert [OF data_hashable okm k] by simp
  have "1 \<le> i \<and> i \<le> int (length (ht_slots ?t)) \<and> ?eq (fst (ht_slots ?t ! nat (i - 1))) k'"
    if k': "k' \<in> data_keys s" "table_get A H s (ht_map ?t) k' = Some i" for k' i
  proof (cases "?eq k k'")
    case False
    then have "?g k' = Some i" using get k' by simp
    then have "1 \<le> i \<and> i \<le> int (length (ht_slots t)) \<and> ?eq (fst (ht_slots t ! nat (i - 1))) k'"
      using pts k'(1) by (simp add: points_def)
    then show ?thesis by (auto simp: nth_append)
  next
    case True
    then have "i = int (length (ht_slots t)) + 1" using get [OF k'(1)] k'(2) by simp
    then show ?thesis using True by simp
  qed
  then have "points ?eq (data_keys s) (table_get A H s (ht_map ?t)) (ht_slots ?t)"
    using keys k get_respects [OF okt] unfolding points_def by auto
  moreover have "ht_n_live ?t = int (length (table_entries A H s ?t))"
    using points_count [OF pts k] live unfolding es by (simp add: table_entries_def split: if_splits)
  ultimately show "table_ok ok A H s ?t" using okt c by (simp add: table_ok_def)
qed

lemma table_erase:
  assumes t: "table_ok ok A H s t" and k: "k \<in> data_keys s" and found: "table_get A H s (ht_map t) k \<noteq> None"
  shows "table_ok ok A H s (t\<lparr>ht_map := idx_erase H (heap_hash A H s) (creme_ht_cmpr A s) (ht_map t) k, ht_n_live := ht_n_live t - 1\<rparr>)"
      (is "table_ok ok A H s ?t")
    and "table_entries A H s (t\<lparr>ht_map := idx_erase H (heap_hash A H s) (creme_ht_cmpr A s) (ht_map t) k, ht_n_live := ht_n_live t - 1\<rparr>) =
      without (creme_ht_cmpr A s) k (table_entries A H s t)"
proof -
  let ?eq = "creme_ht_cmpr A s" and ?g = "table_get A H s (ht_map t)"
  note keys = table_keys [OF t] and laws = hashableD [OF data_hashable, of _ s]
  have okm: "ok (heap_hash A H s) ?eq (data_keys s) (ht_map t)"
    and pts: "points ?eq (data_keys s) ?g (ht_slots t)"
    and live: "ht_n_live t = int (length (table_entries A H s t))" and cap: "length (ht_slots t) \<le> ht_cap_values t"
    using t by (simp_all add: table_ok_def)
  have get: "table_get A H s (ht_map ?t) k' = (if ?eq k k' then None else ?g k')" if "k' \<in> data_keys s" for k'
    using get_erase [OF data_hashable okm k that] by (simp add: table_get_def)
  have swap: "?eq k k' \<longleftrightarrow> ?eq k' k" if "k' \<in> data_keys s" for k'
    using laws(2) [OF k that] laws(2) [OF that k] by blast
  have "entries_from (table_get A H s (ht_map ?t)) 0 (ht_slots t) = without ?eq k (entries_from ?g 0 (ht_slots t))"
    by (rule entries_without [where c = None]) (use keys get swap in \<open>auto intro!: ballI\<close>)
  then show es: "table_entries A H s ?t = without ?eq k (table_entries A H s t)" by (simp add: table_entries_def)
  have okt: "ok (heap_hash A H s) ?eq (data_keys s) (ht_map ?t)"
    using ok_erase [OF data_hashable okm k] by simp
  have "1 \<le> i \<and> i \<le> int (length (ht_slots ?t)) \<and> ?eq (fst (ht_slots ?t ! nat (i - 1))) k'"
    if k': "k' \<in> data_keys s" "table_get A H s (ht_map ?t) k' = Some i" for k' i
  proof -
    have "?g k' = Some i" using get k' by (simp split: if_splits)
    then show ?thesis using pts k'(1) by (simp add: points_def)
  qed
  then have "points ?eq (data_keys s) (table_get A H s (ht_map ?t)) (ht_slots ?t)"
    using keys get_respects [OF okt] unfolding points_def by auto
  moreover have "ht_n_live ?t = int (length (table_entries A H s ?t))"
    using points_count [OF pts k] live found unfolding es by (auto simp: table_entries_def split: if_splits)
  ultimately show "table_ok ok A H s ?t" using okt cap by (simp add: table_ok_def)
qed

lemma table_lookup:
  assumes t: "table_ok ok A H s t" and k: "k \<in> data_keys s"
  shows "hash_table_lookup A H t k s = Done (entry (creme_ht_cmpr A s) k (table_entries A H s t)) s"
proof -
  have pts: "points (creme_ht_cmpr A s) (data_keys s) (table_get A H s (ht_map t)) (ht_slots t)"
    using t by (simp add: table_ok_def)
  have "entry (creme_ht_cmpr A s) k (table_entries A H s t) =
      map_option (\<lambda>c. snd (ht_slots t ! nat (c - 1))) (table_get A H s (ht_map t) k)"
    unfolding table_entries_def by (rule points_entry [OF pts k])
  moreover have "1 \<le> i \<and> i \<le> int (length (ht_slots t))" if "table_get A H s (ht_map t) k = Some i" for i
    using pts k that unfolding points_def by blast
  ultimately show ?thesis
    by (cases "table_get A H s (ht_map t) k") (force simp: hash_table_lookup_def idx_runs [OF k] bindM_def)+
qed

text \<open>Collecting.  The pairs of an alist are allocated between the lookups, which a longer heap does not
  disturb.\<close>

lemma collect_plain:
  assumes "kind \<noteq> COLLECT_ALIST" "fst ` set kvs \<subseteq> data_keys s"
  shows "collect_slots A H kind m i kvs s =
    Done (map (if kind = COLLECT_KEYS then fst else snd) (entries_from (table_get A H s m) i kvs)) s"
  using assms(2)
  by (induction kvs arbitrary: i) (use assms(1) in \<open>cases kind; simp add: idx_runs bindM_def\<close>)+

lemma get_more:
  assumes "ok (heap_hash A H s) (creme_ht_cmpr A s) (data_keys s) m" "more_heap s s'" "k \<in> data_keys s"
  shows "table_get A H s' m k = table_get A H s m k" and "k \<in> data_keys s'"
proof -
  have same: "has_datum s v d \<Longrightarrow> has_datum s' v d" for v d using has_datum_more [OF assms(2)] .
  show "table_get A H s' m k = table_get A H s m k"
    unfolding table_get_def by (rule get_agree [OF assms(1) data_agree [OF same] assms(3)])
  show "k \<in> data_keys s'" using assms(3) same by (auto simp: data_keys_def)
qed

lemma collect_alist:
  assumes "ok (heap_hash A H s) (creme_ht_cmpr A s) (data_keys s) m" "fst ` set kvs \<subseteq> data_keys s" "more_heap s s'"
  shows "\<exists>vs. collect_slots A H COLLECT_ALIST m i kvs s' = Done vs (with_pairs s' (entries_from (table_get A H s m) i kvs)) \<and>
    vs = map VPair [length (h_pairs s') ..< length (h_pairs s') + length (entries_from (table_get A H s m) i kvs)]"
  using assms(2,3)
proof (induction kvs arbitrary: i s')
  case (Cons e kvs)
  have k: "fst e \<in> data_keys s" using Cons.prems(1) by simp
  have look: "creme_ht_idx_get A H m (fst e) s' = Done (table_get A H s m (fst e)) s'"
    using idx_runs(1) [OF get_more(2) [OF assms(1) Cons.prems(2) k]] get_more(1) [OF assms(1) Cons.prems(2) k] by simp
  have more: "more_heap s (s'\<lparr>h_pairs := h_pairs s' @ [e]\<rparr>)"
    using Cons.prems(2) by (auto simp: more_heap_def)
  show ?case
  proof (cases "table_get A H s m (fst e) = Some (i + 1)")
    case True
    obtain vs where vs: "collect_slots A H COLLECT_ALIST m (i + 1) kvs (s'\<lparr>h_pairs := h_pairs s' @ [e]\<rparr>) =
        Done vs (with_pairs (s'\<lparr>h_pairs := h_pairs s' @ [e]\<rparr>) (entries_from (table_get A H s m) (i + 1) kvs))"
      "vs = map VPair [Suc (length (h_pairs s')) ..< Suc (length (h_pairs s')) + length (entries_from (table_get A H s m) (i + 1) kvs)]"
      using Cons.IH [OF _ more, of "i + 1"] Cons.prems(1) by auto
    have "map VPair [a ..< a + Suc b] = VPair a # map VPair [Suc a ..< Suc a + b]" for a b
      by (simp add: upt_conv_Cons del: upt_Suc)
    with look True vs show ?thesis by (simp add: bindM_def with_pairs_def del: upt_Suc)
  next
    case False
    then show ?thesis using look Cons.IH [OF _ Cons.prems(2), of "i + 1"] Cons.prems(1) by (simp add: bindM_def)
  qed
qed (simp add: with_pairs_def)

end

end
