(* ===== verification/Hash_Spec.thy ===== *)
theory Hash_Spec
  imports Hash_Props
begin

text \<open>
  What the hash tables promise.  \<open>table_at ok A H s v p es\<close>: \<open>v\<close> is the table in box \<open>p\<close>, and \<open>es\<close> are its
  entries, oldest first.  Keys are the same when \<open>equal?\<close> says so.
\<close>

definition table_at :: "((val \<Rightarrow> 64 word) \<Rightarrow> (val \<Rightarrow> val \<Rightarrow> bool) \<Rightarrow> val set \<Rightarrow> idx \<Rightarrow> bool) \<Rightarrow> arith \<Rightarrow> host \<Rightarrow> vm \<Rightarrow>
    val \<Rightarrow> nat \<Rightarrow> (val \<times> val) list \<Rightarrow> bool" where
  "table_at ok A H s v p es \<longleftrightarrow> v = VBox BOX_KIND_HASHTABLE p \<and> p < length (h_boxes s) \<and>
     (\<exists>t. h_boxes s ! p = BoxHashTable t \<and> table_ok ok A H s t \<and> table_entries A H s t = es)"

definition table_capacity :: "vm \<Rightarrow> nat \<Rightarrow> int" where
  "table_capacity s p = (case h_boxes s ! p of BoxHashTable t \<Rightarrow> int (ht_cap_values t) | _ \<Rightarrow> 0)"

definition box_changed :: "vm \<Rightarrow> nat \<Rightarrow> vm \<Rightarrow> bool" where
  "box_changed s p s' \<longleftrightarrow> (\<exists>b. s' = s\<lparr>h_boxes := (h_boxes s)[p := b]\<rparr>)"

lemma hash_arg_run:
  "p < length (h_boxes s) \<Longrightarrow> h_boxes s ! p = BoxHashTable t \<Longrightarrow> as_hash_table (VBox BOX_KIND_HASHTABLE p) who s = Done p s"
  "p < length (h_boxes s) \<Longrightarrow> h_boxes s ! p = BoxHashTable t \<Longrightarrow> ht_at p s = Done t s"
  "set_box p b s = Done () (s\<lparr>h_boxes := (h_boxes s)[p := b]\<rparr>)"
  by (simp_all add: as_hash_table_def creme_arg_box_def arg_present_def ht_at_def set_box_def modM_def bindM_def)

context hash_model
begin

lemma table_boxes:
  "table_ok ok A H s t \<Longrightarrow> table_ok ok A H (s\<lparr>h_boxes := bs\<rparr>) t"
  "table_ok ok A H s t \<Longrightarrow> table_entries A H (s\<lparr>h_boxes := bs\<rparr>) t = table_entries A H s t"
  using table_survives [of s t "s\<lparr>h_boxes := bs\<rparr>"] has_datum_more [of s "s\<lparr>h_boxes := bs\<rparr>"] by auto

lemma boxes_same:
  assumes "k \<in> data_keys s"
  shows "k \<in> data_keys (s\<lparr>h_boxes := bs\<rparr>)"
  using assms has_datum_more [of s "s\<lparr>h_boxes := bs\<rparr>"] by (auto simp: data_keys_def)

lemma boxes_cmpr: "a \<in> data_keys s \<Longrightarrow> b \<in> data_keys s \<Longrightarrow> creme_ht_cmpr A (s\<lparr>h_boxes := bs\<rparr>) a b = creme_ht_cmpr A s a b"
  using data_agree [of s "s\<lparr>h_boxes := bs\<rparr>"] has_datum_more [of s "s\<lparr>h_boxes := bs\<rparr>"] by (auto simp: agree_def)

lemma boxes_without:
  assumes "fst ` set es \<subseteq> data_keys s" "k \<in> data_keys s"
  shows "without (creme_ht_cmpr A (s\<lparr>h_boxes := bs\<rparr>)) k es = without (creme_ht_cmpr A s) k es"
  unfolding without_def by (rule filter_cong) (use assms boxes_cmpr in auto)

lemma entries_keys: "table_ok ok A H s t \<Longrightarrow> fst ` set (table_entries A H s t) \<subseteq> data_keys s"
  using table_keys [of s t] entries_subset [of "table_get A H s (ht_map t)" 0 "ht_slots t"]
  by (auto simp: table_entries_def)

lemma contains_run:
  assumes "table_at ok A H s v p es" "k \<in> data_keys s"
  shows "bi_hash_table_contains_p A H [v, k] s = Done (VBool (entry (creme_ht_cmpr A s) k es \<noteq> None)) s"
  using assms by (auto simp: table_at_def bi_hash_table_contains_p_def hash_arg_run bindM_def table_lookup)

lemma ref_run:
  assumes "table_at ok A H s v p es" "k \<in> data_keys s"
  shows "bi_hash_table_ref A H ap (v # k # ds) s =
    (case entry (creme_ht_cmpr A s) k es of
       Some x \<Rightarrow> Done x s
     | None \<Rightarrow> (case ds of
         [] \<Rightarrow> creme_abort ''hash-table-ref: key not found and no default given'' s
       | d # _ \<Rightarrow> if tag_of d \<in> {13, 18} then ap d [] s else Done d s))"
  using assms
  by (cases ds) (auto simp: table_at_def bi_hash_table_ref_def hash_arg_run bindM_def table_lookup split: option.splits)

lemma set_run:
  assumes at: "table_at ok A H s v p es" and k: "k \<in> data_keys s" and room: "table_capacity s p * 2 \<le> INT_MAX"
  shows "\<exists>s'. bi_hash_table_set A H [v, k, x] s = Done VNil s' \<and> box_changed s p s' \<and>
    table_at ok A H s' v p (without (creme_ht_cmpr A s) k es @ [(k, x)])"
proof -
  from at obtain t where v: "v = VBox BOX_KIND_HASHTABLE p" "p < length (h_boxes s)" "h_boxes s ! p = BoxHashTable t"
    and t: "table_ok ok A H s t" "table_entries A H s t = es" by (auto simp: table_at_def)
  obtain t1 where t1: "ht_maybe_compact A H t s = Done t1 s" "table_ok ok A H s t1" "table_entries A H s t1 = es"
      "ht_cap_values t1 \<le> ht_cap_values t"
    using maybe_compact_run [OF t(1)] t(2) by auto
  define s1 where "s1 = s\<lparr>h_boxes := (h_boxes s)[p := BoxHashTable t1]\<rparr>"
  note k1 = boxes_same [OF k, of "(h_boxes s)[p := BoxHashTable t1]", folded s1_def]
  have ok1: "table_ok ok A H s1 t1" "table_entries A H s1 t1 = es"
    using table_boxes [OF t1(2)] t1(3) by (simp_all add: s1_def)
  define c where "c = (if length (ht_slots t1) \<ge> ht_cap_values t1 then if ht_cap_values t1 \<noteq> 0 then ht_cap_values t1 * 2 else 8
    else ht_cap_values t1)"
  have cap: "grown_cap t1 s1 = Done c s1"
    using room t1(4) v(3) by (auto simp: grown_cap_def c_def table_capacity_def INT_MAX_def bindM_def Let_def guardM_def)
  have c: "length (ht_slots t1) < c" using t1(2) by (auto simp: c_def table_ok_def)
  let ?t2 = "\<lparr> ht_map = idx_insert H (heap_hash A H s1) (creme_ht_cmpr A s1) (ht_map t1) k (int (length (ht_slots t1)) + 1),
      ht_slots = ht_slots t1 @ [(k, x)], ht_cap_values = c,
      ht_n_live = (if table_get A H s1 (ht_map t1) k = None then ht_n_live t1 + 1 else ht_n_live t1) \<rparr>"
  note ins = table_insert [OF ok1(1) k1 c, of x]
  let ?s2 = "s1\<lparr>h_boxes := (h_boxes s1)[p := BoxHashTable ?t2]\<rparr>"
  have run: "bi_hash_table_set A H [v, k, x] s = Done VNil ?s2"
    using v by (simp add: bi_hash_table_set_def hash_arg_run bindM_def t1(1) s1_def [symmetric] idx_runs [OF k1] cap Let_def)
      (simp add: add.commute)
  have "without (creme_ht_cmpr A s1) k es = without (creme_ht_cmpr A s) k es"
    unfolding s1_def by (rule boxes_without [OF _ k]) (use entries_keys [OF t1(2)] t1(3) in simp)
  then have "table_entries A H ?s2 ?t2 = without (creme_ht_cmpr A s) k es @ [(k, x)]"
    using table_boxes(2) [OF ins(1)] ins(2) ok1(2) by simp
  moreover have "table_ok ok A H ?s2 ?t2" by (rule table_boxes(1) [OF ins(1)])
  ultimately have "table_at ok A H ?s2 v p (without (creme_ht_cmpr A s) k es @ [(k, x)])"
    using v by (simp add: table_at_def s1_def)
  moreover have "box_changed s p ?s2" by (auto simp: box_changed_def s1_def)
  ultimately show ?thesis using run by blast
qed

lemma delete_run:
  assumes at: "table_at ok A H s v p es" and k: "k \<in> data_keys s"
  shows "\<exists>s'. bi_hash_table_delete A H [v, k] s = Done VNil s' \<and> box_changed s p s' \<and>
    table_at ok A H s' v p (without (creme_ht_cmpr A s) k es)"
proof -
  from at obtain t where v: "v = VBox BOX_KIND_HASHTABLE p" "p < length (h_boxes s)" "h_boxes s ! p = BoxHashTable t"
    and t: "table_ok ok A H s t" "table_entries A H s t = es" by (auto simp: table_at_def)
  show ?thesis
  proof (cases "table_get A H s (ht_map t) k = None")
    case True
    then have "bi_hash_table_delete A H [v, k] s = Done VNil s"
      using v by (simp add: bi_hash_table_delete_def hash_arg_run bindM_def idx_runs [OF k])
    moreover have "box_changed s p s" unfolding box_changed_def
      by (intro exI [of _ "h_boxes s ! p"]) simp
    moreover have "without (creme_ht_cmpr A s) k es = es"
    proof -
      have "entry (creme_ht_cmpr A s) k es = None"
        using points_entry [of "creme_ht_cmpr A s" "data_keys s" "table_get A H s (ht_map t)" "ht_slots t" k] t True k
        by (simp add: table_ok_def table_entries_def)
      then show ?thesis by (auto simp: entry_def without_def find_None_iff filter_id_conv)
    qed
    ultimately show ?thesis using at by auto
  next
    case False
    note er = table_erase [OF t(1) k False]
    let ?t1 = "t\<lparr>ht_map := idx_erase H (heap_hash A H s) (creme_ht_cmpr A s) (ht_map t) k, ht_n_live := ht_n_live t - 1\<rparr>"
    obtain t2 where t2: "ht_maybe_compact A H ?t1 s = Done t2 s" "table_ok ok A H s t2"
        "table_entries A H s t2 = without (creme_ht_cmpr A s) k es"
      using maybe_compact_run [OF er(1)] er(2) t(2) by auto
    let ?s2 = "s\<lparr>h_boxes := (h_boxes s)[p := BoxHashTable t2]\<rparr>"
    have "bi_hash_table_delete A H [v, k] s = Done VNil ?s2"
      using v False by (auto simp: bi_hash_table_delete_def hash_arg_run bindM_def idx_runs [OF k] t2(1))
    moreover have "table_at ok A H ?s2 v p (without (creme_ht_cmpr A s) k es)"
      using v t2(3) table_boxes [OF t2(2)] by (simp add: table_at_def)
    moreover have "box_changed s p ?s2" by (auto simp: box_changed_def)
    ultimately show ?thesis by blast
  qed
qed

lemma plain_listing:
  assumes at: "table_at ok A H s v p es" and kind: "kind \<noteq> COLLECT_ALIST" and f: "f = (if kind = COLLECT_KEYS then fst else snd)"
    and t: "h_boxes s ! p = BoxHashTable t"
  shows "\<exists>l new. collect_live A H t kind s = Done l (with_pairs s new) \<and> chain (h_pairs s @ new) l (map f es) VNil"
proof -
  have *: "table_ok ok A H s t" "table_entries A H s t = es" using at t by (auto simp: table_at_def)
  have "collect_slots A H kind (ht_map t) 0 (ht_slots t) s = Done (map f es) s"
    using collect_plain [OF kind table_keys [OF *(1)], of "ht_map t" 0] *(2) f by (simp add: table_entries_def)
  then show ?thesis using cons_list_run [of "map f es" VNil s] by (auto simp: collect_live_def bindM_def)
qed

lemma alist_listing:
  assumes at: "table_at ok A H s v p es" and t: "h_boxes s ! p = BoxHashTable t"
  shows "\<exists>l new vs. collect_live A H t COLLECT_ALIST s = Done l (with_pairs s new) \<and> chain (h_pairs s @ new) l vs VNil \<and>
    list_all2 (\<lambda>w e. \<exists>q. w = VPair q \<and> q < length (h_pairs s @ new) \<and> (h_pairs s @ new) ! q = e) vs es"
proof -
  have *: "table_ok ok A H s t" "table_entries A H s t = es" using at t by (auto simp: table_at_def)
  then have "ok (heap_hash A H s) (creme_ht_cmpr A s) (data_keys s) (ht_map t)" by (simp add: table_ok_def)
  note coll = collect_alist [OF this table_keys [OF *(1)], of s 0]
  let ?vs = "map VPair [length (h_pairs s) ..< length (h_pairs s) + length es]"
  have slots: "collect_slots A H COLLECT_ALIST (ht_map t) 0 (ht_slots t) s = Done ?vs (with_pairs s es)"
    using coll *(2) by (simp add: table_entries_def)
  obtain l new where l: "cons_list ?vs VNil (with_pairs s es) = Done l (with_pairs (with_pairs s es) new)"
      "chain (h_pairs (with_pairs s es) @ new) l ?vs VNil"
    using cons_list_run [of ?vs VNil "with_pairs s es"] by blast
  have two: "with_pairs (with_pairs s es) new = with_pairs s (es @ new)" by (simp add: with_pairs_def)
  have "list_all2 (\<lambda>w e. \<exists>q. w = VPair q \<and> q < length (h_pairs s @ es @ new) \<and> (h_pairs s @ es @ new) ! q = e) ?vs es"
    by (auto simp: list_all2_conv_all_nth nth_append)
  then show ?thesis using slots l
    by (intro exI [of _ l] exI [of _ "es @ new"] exI [of _ ?vs]) (simp add: collect_live_def bindM_def two with_pairs_def)
qed

end

interpretation ref_hash: hash_model reference_arith reference_host keys_in ..

lemma make_run:
  assumes "host_spec H ok"
  shows "\<exists>s'. bi_make_hash_table args s = Done (VBox BOX_KIND_HASHTABLE (length (h_boxes s))) s' \<and>
    table_at ok A H s' (VBox BOX_KIND_HASHTABLE (length (h_boxes s))) (length (h_boxes s)) []"
  using host_spec.ok_empty [OF assms] host_spec.get_empty [OF assms]
  by (simp add: bi_make_hash_table_def table_at_def table_ok_def points_def table_entries_def table_get_def)

text \<open>C19. \<open>equal?\<close> terminates on finite data and decides equality of the data, and the hash is consistent with
  it: equal values have equal hashes, whatever their addresses.\<close>

theorem equal_hash_consistent:
  assumes "gmp_spec A" and "box_addresses H" and a: "has_datum s a x" and b: "has_datum s b y"
  shows "creme_equal A a b s = Done (x = y) s \<and>
    (\<exists>h h'. creme_hash_value A H a s = Done h s \<and> creme_hash_value A H b s = Done h' s \<and> (x = y \<longrightarrow> h = h'))"
  using gmp_spec.equal_data [OF assms(1) a b] box_addresses.hash_data [OF assms(2) a] box_addresses.hash_data [OF assms(2) b]
  by auto

definition two_lists :: vm where
  "two_lists = vm0\<lparr>h_pairs := [(VInt 1, VStr 0), (VInt 1, VStr 1)], h_strs := [''ab'', ''ab'']\<rparr>"

lemma two_lists_data:
  "has_datum two_lists (VPair 0) (DPair (DAtom (VInt 1)) (DText 5 ''ab''))"
  "has_datum two_lists (VPair 1) (DPair (DAtom (VInt 1)) (DText 5 ''ab''))"
  by (simp_all add: has_datum_pair has_datum_leaf has_datum_str two_lists_def)

lemma equal_hash_consistent_witness:
  "creme_equal reference_arith (VPair 0) (VPair 1) two_lists = Done True two_lists \<and>
   (\<exists>h. creme_hash_value reference_arith reference_host (VPair 0) two_lists = Done h two_lists \<and>
        creme_hash_value reference_arith reference_host (VPair 1) two_lists = Done h two_lists)"
  using equal_hash_consistent [OF ref.gmp_spec_axioms ref_boxes.box_addresses_axioms two_lists_data] by auto

text \<open>C18. The hash table builtins are the operations of an association list in insertion order, with \<open>equal?\<close>
  keys: a lookup finds the value of the key, \<open>hash-table-set!\<close> moves the key to the end with its new value,
  \<open>hash-table-delete!\<close> removes it, and compaction of the slots is invisible.\<close>

theorem hash_tables_refine:
  assumes "gmp_spec A" and "host_spec H ok" and at: "table_at ok A H s v p es" and k: "k \<in> data_keys s"
    and room: "table_capacity s p * 2 \<le> INT_MAX"
  shows "bi_hash_table_contains_p A H [v, k] s = Done (VBool (entry (creme_ht_cmpr A s) k es \<noteq> None)) s \<and>
    bi_hash_table_ref A H ap (v # k # ds) s =
      (case entry (creme_ht_cmpr A s) k es of
         Some x \<Rightarrow> Done x s
       | None \<Rightarrow> (case ds of
           [] \<Rightarrow> creme_abort ''hash-table-ref: key not found and no default given'' s
         | d # _ \<Rightarrow> if tag_of d \<in> {13, 18} then ap d [] s else Done d s)) \<and>
    (\<exists>s'. bi_hash_table_set A H [v, k, x] s = Done VNil s' \<and> box_changed s p s' \<and>
       table_at ok A H s' v p (without (creme_ht_cmpr A s) k es @ [(k, x)])) \<and>
    (\<exists>s'. bi_hash_table_delete A H [v, k] s = Done VNil s' \<and> box_changed s p s' \<and>
       table_at ok A H s' v p (without (creme_ht_cmpr A s) k es))"
proof -
  have model: "hash_model A H ok" using assms(1,2) by (rule hash_model.intro)
  show ?thesis
    using hash_model.contains_run [OF model at k] hash_model.ref_run [OF model at k]
      hash_model.set_run [OF model at k room] hash_model.delete_run [OF model at k] by blast
qed

definition one_table :: vm where
  "one_table = vm0\<lparr>h_boxes := [BoxHashTable
     \<lparr> ht_map = [(VInt 1, 1)], ht_slots = [(VInt 1, VBool True)], ht_cap_values = 8, ht_n_live = 1 \<rparr>]\<rparr>"

lemma int_key: "VInt i \<in> data_keys s"
  by (auto simp: data_keys_def has_datum_leaf)

lemma int_cmpr: "creme_ht_cmpr reference_arith s (VInt i) (VInt j) \<longleftrightarrow> i = j"
  using ref_hash.cmpr_data [of s "VInt i" "DAtom (VInt i)" "VInt j" "DAtom (VInt j)"] by (simp add: has_datum_leaf)

lemma one_table_at: "table_at keys_in reference_arith reference_host one_table (VBox BOX_KIND_HASHTABLE 0) 0 [(VInt 1, VBool True)]"
proof -
  let ?h = "heap_hash reference_arith reference_host one_table" and ?eq = "creme_ht_cmpr reference_arith one_table"
  have ok: "keys_in ?h ?eq (data_keys one_table) [(VInt 1, 1)]" by (simp add: keys_in_def int_key)
  have get: "table_get reference_arith reference_host one_table [(VInt 1, 1)] k = Some i \<Longrightarrow> i = 1 \<and> ?eq (VInt 1) k" for k i
    by (simp add: table_get_def reference_host_def split: if_splits)
  have own: "table_get reference_arith reference_host one_table [(VInt 1, 1)] (VInt 1) = Some 1"
    by (simp add: table_get_def reference_host_def int_cmpr)
  have "points ?eq (data_keys one_table) (table_get reference_arith reference_host one_table [(VInt 1, 1)]) [(VInt 1, VBool True)]"
    using ref_hash.get_respects [OF ok] unfolding points_def by (auto simp: int_key dest!: get)
  then show ?thesis using ok own
    by (simp add: table_at_def one_table_def [THEN arg_cong, of h_boxes] table_ok_def table_entries_def)
qed

lemma hash_tables_refine_witness:
  "bi_hash_table_contains_p reference_arith reference_host [VBox BOX_KIND_HASHTABLE 0, VInt 1] one_table = Done (VBool True) one_table \<and>
   (\<exists>s'. bi_hash_table_set reference_arith reference_host [VBox BOX_KIND_HASHTABLE 0, VInt 1, VNil] one_table = Done VNil s' \<and>
      table_at keys_in reference_arith reference_host s' (VBox BOX_KIND_HASHTABLE 0) 0 [(VInt 1, VNil)]) \<and>
   (\<exists>s'. bi_hash_table_delete reference_arith reference_host [VBox BOX_KIND_HASHTABLE 0, VInt 1] one_table = Done VNil s' \<and>
      table_at keys_in reference_arith reference_host s' (VBox BOX_KIND_HASHTABLE 0) 0 [])"
proof -
  have "table_capacity one_table 0 * 2 \<le> INT_MAX" by (simp add: table_capacity_def one_table_def INT_MAX_def)
  from hash_tables_refine [OF ref.gmp_spec_axioms ref_host.host_spec_axioms one_table_at int_key [of 1] this,
      of "\<lambda>_ _. stuckM" "[]" VNil]
  show ?thesis by (auto simp: without_def entry_def int_cmpr)
qed

text \<open>The listings of a hash table are fresh lists of its keys, its values or its entries, in insertion order.\<close>

theorem hash_table_listings:
  assumes "gmp_spec A" and "host_spec H ok" and at: "table_at ok A H s v p es"
  shows "(\<exists>l new. bi_hash_table_keys A H [v] s = Done l (with_pairs s new) \<and> chain (h_pairs s @ new) l (map fst es) VNil) \<and>
    (\<exists>l new. bi_hash_table_values A H [v] s = Done l (with_pairs s new) \<and> chain (h_pairs s @ new) l (map snd es) VNil) \<and>
    (\<exists>l new vs. bi_hash_table_to_alist A H [v] s = Done l (with_pairs s new) \<and> chain (h_pairs s @ new) l vs VNil \<and>
       list_all2 (\<lambda>w e. \<exists>q. w = VPair q \<and> q < length (h_pairs s @ new) \<and> (h_pairs s @ new) ! q = e) vs es)"
proof -
  have model: "hash_model A H ok" using assms(1,2) by (rule hash_model.intro)
  from at obtain t where t: "v = VBox BOX_KIND_HASHTABLE p" "p < length (h_boxes s)" "h_boxes s ! p = BoxHashTable t"
    by (auto simp: table_at_def)
  then have run: "bi_hash_table_keys A H [v] s = collect_live A H t COLLECT_KEYS s"
      "bi_hash_table_values A H [v] s = collect_live A H t COLLECT_VALUES s"
      "bi_hash_table_to_alist A H [v] s = collect_live A H t COLLECT_ALIST s"
    by (simp_all add: bi_hash_table_keys_def bi_hash_table_values_def bi_hash_table_to_alist_def hash_arg_run bindM_def)
  show ?thesis unfolding run
    using hash_model.plain_listing [OF model at, of COLLECT_KEYS fst t] hash_model.plain_listing [OF model at, of COLLECT_VALUES snd t]
      hash_model.alist_listing [OF model at t(3)] t(3) by simp
qed

lemma hash_table_listings_witness:
  "\<exists>l new. bi_hash_table_keys reference_arith reference_host [VBox BOX_KIND_HASHTABLE 0] one_table = Done l (with_pairs one_table new) \<and>
     chain (h_pairs one_table @ new) l [VInt 1] VNil"
  using hash_table_listings [OF ref.gmp_spec_axioms ref_host.host_spec_axioms one_table_at] by simp

definition two_circles :: vm where
  "two_circles = vm0\<lparr>h_pairs := [(VInt 1, VPair 0), (VInt 1, VPair 0)], h_vecs := []\<rparr>"

abbreviation circle_hash :: "64 word \<Rightarrow> 64 word" where
  "circle_hash x \<equiv> tag_salt (VPair 0) XOR hash_combine (tag_salt (VInt 1) XOR 1) x"

lemma circle_hashes:
  "creme_hash_value_rec (Suc (Suc (Suc n))) A H (VPair 0) [] two_circles = Done (circle_hash (tag_salt (VPair 0))) two_circles"
  "creme_hash_value_rec (Suc (Suc (Suc n))) A H (VPair 1) [] two_circles =
     Done (circle_hash (circle_hash (tag_salt (VPair 0)))) two_circles"
  by (simp_all add: two_circles_def bindM_def Let_def tag_salt_def)

lemma circles_equal: "creme_equal_rec (Suc (Suc (Suc n))) A (VPair 0) (VPair 1) [] two_circles = Done True two_circles"
  by (simp add: two_circles_def bindM_def)

lemma circle_hash_differs: "circle_hash (tag_salt (VPair 0)) \<noteq> circle_hash (circle_hash (tag_salt (VPair 0)))"
  by code_simp

text \<open>The hash of a circular list depends on where the circle is entered: these two lists are \<open>equal?\<close> and
  have different hashes, so a table does not find one under the other.\<close>

theorem circular_hash_inconsistent:
  "creme_equal A (VPair 0) (VPair 1) two_circles = Done True two_circles \<and>
   (\<exists>h h'. creme_hash_value A H (VPair 0) two_circles = Done h two_circles \<and>
      creme_hash_value A H (VPair 1) two_circles = Done h' two_circles \<and> h \<noteq> h')"
proof -
  have "equal_fuel two_circles = Suc (Suc (Suc 7))" "hash_fuel two_circles = Suc (Suc (Suc 5))"
    by (simp_all add: equal_fuel_def hash_fuel_def two_circles_def power2_eq_square)
  then show ?thesis using circle_hash_differs circles_equal [of 7 A] circle_hashes [of 5 A H]
    by (simp add: creme_equal_def creme_hash_value_def del: creme_equal_rec.simps creme_hash_value_rec.simps)
qed

end
