(* ===== verification/Loader_Props.thy ===== *)
theory Loader_Props
  imports Loader Call_Props
begin

text \<open>
  A Hoare logic for the loader.  \<open>safe P m Q\<close>: on any bytes, from a state with \<open>P\<close>, the reader \<open>m\<close> aborts
  or returns a value with \<open>Q\<close>; it never touches memory it should not, and the heap only grows.  The
  predicates are kept by a growing heap, so a fact about a value that has been read stays true.
\<close>

named_theorems safe_rules \<open>readers that abort or return\<close>

definition aborts :: "'a run \<Rightarrow> bool" where
  "aborts res \<longleftrightarrow> (\<exists>msg s. res = creme_abort msg s)"

lemma aborts_abort [simp]: "aborts (creme_abort msg s)"
  unfolding aborts_def by blast

lemma aborts_bind: "aborts (m s) \<Longrightarrow> aborts (bindM m f s)"
proof -
  assume "aborts (m s)"
  then obtain msg t where *: "m s = creme_abort msg t" by (auto simp: aborts_def)
  have "bindM m f s = bindM (creme_abort msg) f t" using * by (simp add: bindM_def)
  then show ?thesis by (simp add: bind_abort)
qed

lemma abort_clean: "creme_abort msg s \<noteq> Stuck" "creme_abort msg s \<noteq> Timeout"
  by (cases "vm_condition_type s"; simp add: creme_abort_def creme_make_condition_def get_condition_type_def
      creme_raise_condition_def Let_def)+

lemma aborts_clean: "aborts res \<Longrightarrow> res \<noteq> Stuck \<and> res \<noteq> Timeout \<and> res \<noteq> Done x s"
  by (auto simp: aborts_def abort_clean abort_not_Done)

text \<open>A value whose string, if it is one, exists.\<close>

definition str_ok :: "nat \<Rightarrow> val \<Rightarrow> bool" where
  "str_ok n v \<longleftrightarrow> (case v of VStr p \<Rightarrow> p < n | _ \<Rightarrow> True)"

lemma str_ok_mono: "str_ok n v \<Longrightarrow> n \<le> m \<Longrightarrow> str_ok m v"
  by (auto simp: str_ok_def split: val.splits)

definition globals_ok :: "vm \<Rightarrow> bool" where
  "globals_ok s \<longleftrightarrow> (\<forall>i < vm_n_globals s. str_ok (length (h_strs s)) (gc_value (vm_globals s i)))"

definition reader_ok :: "reader \<Rightarrow> vm \<Rightarrow> bool" where
  "reader_ok r s \<longleftrightarrow> globals_ok s \<and> (\<forall>lv \<in> set (rd_labels r). str_ok (length (h_strs s)) (snd lv))"

text \<open>What reading does to the VM: new pairs, vectors, strings and bytevectors, and new contents for some.\<close>

definition but_data :: "vm \<Rightarrow> vm" where
  "but_data s = s\<lparr>h_pairs := [], h_vecs := [], h_strs := [], h_bvs := []\<rparr>"

lemma but_data_simps [simp]:
  "but_data (s\<lparr>h_pairs := ps\<rparr>) = but_data s" "but_data (s\<lparr>h_vecs := vs\<rparr>) = but_data s"
  "but_data (s\<lparr>h_strs := ss\<rparr>) = but_data s" "but_data (s\<lparr>h_bvs := bs\<rparr>) = but_data s"
  "but_data (s\<lparr>h_chunks := cs\<rparr>) = (but_data s)\<lparr>h_chunks := cs\<rparr>"
  by (simp_all add: but_data_def)

definition grows :: "vm \<Rightarrow> vm \<Rightarrow> bool" where
  "grows s s' \<longleftrightarrow> but_data s' = but_data s \<and> length (h_pairs s) \<le> length (h_pairs s') \<and>
     length (h_vecs s) \<le> length (h_vecs s') \<and> (\<forall>p < length (h_vecs s). length (h_vecs s' ! p) = length (h_vecs s ! p)) \<and>
     length (h_strs s) \<le> length (h_strs s') \<and> take (length (h_strs s)) (h_strs s') = h_strs s"

lemma grows_refl [simp]: "grows s s"
  by (simp add: grows_def)

lemma grows_trans: "grows s s' \<Longrightarrow> grows s' s'' \<Longrightarrow> grows s s''"
proof -
  assume *: "grows s s'" "grows s' s''"
  then have "take (length (h_strs s)) (take (length (h_strs s')) (h_strs s'')) = h_strs s" by (simp add: grows_def)
  moreover have "length (h_strs s) \<le> length (h_strs s')" using *(1) by (simp add: grows_def)
  ultimately have "take (length (h_strs s)) (h_strs s'') = h_strs s" by (simp add: min_absorb1)
  with * show ?thesis by (auto simp: grows_def)
qed

lemma grows_other:
  assumes "grows s s'" "\<And>t. f (but_data t) = f t"
  shows "f s' = f s"
proof -
  have "f (but_data s') = f (but_data s)" using assms(1) by (simp add: grows_def)
  then show ?thesis by (simp add: assms(2))
qed

lemma grows_alloc [simp]:
  "grows s (s\<lparr>h_pairs := h_pairs s @ ps\<rparr>)" "grows s (s\<lparr>h_vecs := h_vecs s @ vs\<rparr>)"
  "grows s (s\<lparr>h_strs := h_strs s @ ss\<rparr>)" "grows s (s\<lparr>h_bvs := h_bvs s @ bs\<rparr>)"
  "grows s (s\<lparr>h_pairs := (h_pairs s)[p := c]\<rparr>)"
  by (auto simp: grows_def nth_append)

lemma grows_item [simp]:
  assumes "length ws = length (h_vecs s ! p)"
  shows "grows s (s\<lparr>h_vecs := (h_vecs s)[p := ws]\<rparr>)"
proof -
  have "length ((h_vecs s)[p := ws] ! q) = length (h_vecs s ! q)" if "q < length (h_vecs s)" for q
    using assms that by (cases "q = p") simp_all
  then show ?thesis by (simp add: grows_def)
qed

lemma grows_facts:
  assumes "grows s s'"
  shows "length (h_pairs s) \<le> length (h_pairs s')" "length (h_vecs s) \<le> length (h_vecs s')"
    "length (h_strs s) \<le> length (h_strs s')" "p < length (h_vecs s) \<Longrightarrow> length (h_vecs s' ! p) = length (h_vecs s ! p)"
    "h_chunks s' = h_chunks s" "vm_globals s' = vm_globals s" "vm_n_globals s' = vm_n_globals s"
  using assms grows_other [OF assms, of h_chunks] grows_other [OF assms, of vm_globals] grows_other [OF assms, of vm_n_globals]
  by (simp_all add: grows_def but_data_def)

lemma reader_ok_grows: "reader_ok r s \<Longrightarrow> grows s s' \<Longrightarrow> reader_ok r s'"
  by (auto simp: reader_ok_def globals_ok_def grows_facts(6,7) intro: str_ok_mono grows_facts(3))

lemma reader_ok_rest [simp]: "reader_ok (r\<lparr>rd_rest := bs\<rparr>) s = reader_ok r s" "reader_ok (r\<lparr>rd_strings := ss\<rparr>) s = reader_ok r s"
    "reader_ok (r\<lparr>rd_file := f\<rparr>) s = reader_ok r s"
  by (simp_all add: reader_ok_def)

definition kept :: "(vm \<Rightarrow> bool) \<Rightarrow> bool" where
  "kept P \<longleftrightarrow> (\<forall>s s'. P s \<longrightarrow> grows s s' \<longrightarrow> P s')"

lemma kept_rules [safe_rules]:
  "kept (\<lambda>s. True)" "kept (\<lambda>s. str_ok (length (h_strs s)) v)" "kept (\<lambda>s. p < length (h_pairs s))"
  "kept (\<lambda>s. p < length (h_vecs s) \<and> length (h_vecs s ! p) = n)" "kept (\<lambda>s. h_chunks s = cs)" "kept (\<lambda>s. b)"
  "kept (\<lambda>s. \<forall>v \<in> set vs. str_ok (length (h_strs s)) v)"
  by (auto simp: kept_def intro: str_ok_mono grows_facts(3) dest: grows_facts less_le_trans)

lemma kept_conj [safe_rules]: "kept P \<Longrightarrow> kept Q \<Longrightarrow> kept (\<lambda>s. P s \<and> Q s)"
  by (auto simp: kept_def)

definition safe :: "(vm \<Rightarrow> bool) \<Rightarrow> 'a L \<Rightarrow> ('a \<Rightarrow> vm \<Rightarrow> bool) \<Rightarrow> bool" where
  "safe P m Q \<longleftrightarrow> (\<forall>r s. reader_ok r s \<longrightarrow> P s \<longrightarrow>
     aborts (m r s) \<or> (\<exists>x r' s'. m r s = Done (x, r') s' \<and> reader_ok r' s' \<and> rd_path r' = rd_path r \<and> grows s s' \<and> Q x s'))"

abbreviation reads :: "'a L \<Rightarrow> bool" where
  "reads m \<equiv> safe (\<lambda>_. True) m (\<lambda>_ _. True)"

lemma safeI:
  "(\<And>r s. reader_ok r s \<Longrightarrow> P s \<Longrightarrow> aborts (m r s) \<or>
      (\<exists>x r' s'. m r s = Done (x, r') s' \<and> reader_ok r' s' \<and> rd_path r' = rd_path r \<and> grows s s' \<and> Q x s')) \<Longrightarrow> safe P m Q"
  unfolding safe_def by blast

lemma safeE:
  assumes "safe P m Q" "reader_ok r s" "P s"
  obtains "aborts (m r s)"
  | x r' s' where "m r s = Done (x, r') s'" "reader_ok r' s'" "rd_path r' = rd_path r" "grows s s'" "Q x s'"
  using assms unfolding safe_def by blast

lemma safe_pre: "safe P m Q \<Longrightarrow> (\<And>s. P' s \<Longrightarrow> P s) \<Longrightarrow> safe P' m Q"
  unfolding safe_def by blast

lemma safe_post: "safe P m Q \<Longrightarrow> (\<And>x s. Q x s \<Longrightarrow> Q' x s) \<Longrightarrow> safe P m Q'"
  unfolding safe_def by blast

lemma safe_ret: "(\<And>s. P s \<Longrightarrow> Q x s) \<Longrightarrow> safe P (retL x) Q"
  by (rule safeI) (auto simp: retL_def)

lemma safe_abort [safe_rules]: "safe P (abortL msg) Q"
  by (rule safeI) (simp add: abortL_def)

lemma safe_bind:
  assumes m: "safe P m Q" and f: "\<And>x. safe (\<lambda>s. P s \<and> Q x s) (f x) R" and P: "kept P"
  shows "safe P (bindL m f) R"
proof (rule safeI)
  fix r s
  assume *: "reader_ok r s" "P s"
  show "aborts (bindL m f r s) \<or> (\<exists>x r' s'. bindL m f r s = Done (x, r') s' \<and> reader_ok r' s' \<and> rd_path r' = rd_path r \<and> grows s s' \<and> R x s')"
  proof (rule safeE [OF m *])
    assume "aborts (m r s)"
    then show ?thesis by (simp add: bindL_def aborts_bind)
  next
    fix x r' s'
    assume 1: "m r s = Done (x, r') s'" "reader_ok r' s'" "rd_path r' = rd_path r" "grows s s'" "Q x s'"
    have "P s'" using P *(2) 1(4) by (auto simp: kept_def)
    then have "P s' \<and> Q x s'" using 1(5) by simp
    from f 1(2) this show ?thesis
      by (rule safeE) (use 1 grows_trans in \<open>auto simp: bindL_def\<close>)
  qed
qed

lemma reads_bind [safe_rules]: "reads m \<Longrightarrow> (\<And>x. reads (f x)) \<Longrightarrow> reads (bindL m f)"
  by (rule safe_bind [where Q = "\<lambda>_ _. True"]) (auto simp: kept_def)

lemma reads_ret [safe_rules]: "reads (retL x)"
  by (rule safe_ret) simp

lemma safe_if [safe_rules]: "(b \<Longrightarrow> safe P m Q) \<Longrightarrow> (\<not> b \<Longrightarrow> safe P n Q) \<Longrightarrow> safe P (if b then m else n) Q"
  by simp

lemma safe_repeat:
  assumes "safe P m Q" "kept P" "\<And>x. kept (Q x)"
  shows "safe P (repeatL n m) (\<lambda>xs s. \<forall>x \<in> set xs. Q x s)"
proof (induction n)
  case 0
  show ?case by (auto intro: safe_ret)
next
  case (Suc n)
  have "safe (\<lambda>s. P s \<and> Q x s) (bindL (repeatL n m) (\<lambda>xs. retL (x # xs))) (\<lambda>xs s. \<forall>x \<in> set xs. Q x s)" for x
    by (rule safe_bind [OF safe_pre [OF Suc]]) (auto intro!: safe_ret kept_conj assms)
  then show ?case unfolding repeatL.simps by (rule safe_bind [OF assms(1)]) (rule assms(2))
qed

lemma reads_repeat [safe_rules]: "reads m \<Longrightarrow> reads (repeatL n m)"
  by (rule safe_post [OF safe_repeat]) (auto simp: kept_def)

text \<open>Primitive readers.\<close>

lemma reads_must [safe_rules]: "reads (must_read n)"
  by (rule safeI) (simp add: must_read_def)

lemma reads_numbers [safe_rules]:
  "reads read_i32" "reads read_i64" "reads read_f64" "reads read_u8" "reads read_u24" "reads read_u16"
  unfolding read_i32_def read_i64_def read_f64_def read_u8_def read_u24_def read_u16_def
  by (intro safe_rules)+

lemma reads_count [safe_rules]: "reads (read_count what)"
  unfolding read_count_def by (intro safe_rules)

lemma reads_bytes [safe_rules]: "reads (read_bytes len)"
  unfolding read_bytes_def by (intro safe_rules)

lemma reads_pool [safe_rules]: "reads read_string_pool"
  unfolding read_string_pool_def by (intro safe_rules) (rule safeI, simp)

lemma reads_pooled [safe_rules]: "reads read_pooled_string"
  unfolding read_pooled_string_def by (intro safe_rules) (rule safeI, simp add: abortL_def)

lemma reads_int_str [safe_rules]: "reads (read_int_str A)"
proof -
  have "reads (case mpz_set_str A str of None \<Rightarrow> abortL msg | Some z \<Rightarrow> retL z)" for str msg
    by (cases "mpz_set_str A str") (auto intro: safe_rules)
  then show ?thesis unfolding read_int_str_def Let_def by (intro safe_rules)
qed

lemma reads_magic [safe_rules]: "reads check_magic_and_version"
  unfolding check_magic_and_version_def Let_def by (intro safe_rules)

lemma reads_body [safe_rules]: "reads (reader_decompress_body Z)"
  by (rule safeI) (auto simp: reader_decompress_body_def Let_def abortL_def split: content_size.split sum.split)

lemma reads_families [safe_rules]: "reads read_required_families"
  unfolding read_required_families_def by (intro safe_rules)

subsection \<open>Data\<close>

lemma safe_label:
  assumes "kept P" "\<And>s. P s \<Longrightarrow> str_ok (length (h_strs s)) v"
  shows "safe P (label_value def_id v) (\<lambda>w s. w = v \<and> P s)"
  unfolding label_value_def
proof (rule safe_bind [where Q = "\<lambda>_ _. True"])
  show "safe P (if def_id \<ge> 0 then datum_label_add def_id v else retL ()) (\<lambda>_ _. True)"
    by (rule safeI) (use assms(2) in \<open>auto simp: datum_label_add_def retL_def reader_ok_def\<close>)
qed (auto intro: safe_ret assms)

definition good_val :: "val \<Rightarrow> vm \<Rightarrow> bool" where
  "good_val v s \<longleftrightarrow> str_ok (length (h_strs s)) v"

lemma kept_good [safe_rules]: "kept (good_val v)" "kept (\<lambda>s. \<forall>v \<in> set vs. good_val v s)"
  unfolding good_val_def [abs_def] by (rule safe_rules)+

lemma label_good: "(\<And>s. P s \<Longrightarrow> good_val v s) \<Longrightarrow> kept P \<Longrightarrow> safe P (label_value def_id v) good_val"
  by (rule safe_post [OF safe_label]) (auto simp: good_val_def)

lemma label_plain: "(\<And>n. str_ok n v) \<Longrightarrow> safe P (label_value def_id v) good_val"
  by (rule safe_pre [OF label_good, of "\<lambda>_. True"]) (auto simp: good_val_def intro: safe_rules)

lemma safe_lift:
  assumes "\<And>s. P s \<Longrightarrow> \<exists>x s'. m s = Done x s' \<and> grows s s' \<and> Q x s'"
  shows "safe P (liftL m) Q"
proof (rule safeI)
  fix r s
  assume "reader_ok r s" "P s"
  moreover from assms [OF this(2)] obtain x s' where "m s = Done x s'" "grows s s'" "Q x s'" by blast
  ultimately show "aborts (liftL m r s) \<or> (\<exists>x r' s'. liftL m r s = Done (x, r') s' \<and> reader_ok r' s' \<and>
      rd_path r' = rd_path r \<and> grows s s' \<and> Q x s')"
    by (simp add: liftL_def reader_ok_grows)
qed

lemma safe_new_str: "safe P (liftL (new_str bs)) good_val"
  by (rule safe_lift) (simp add: good_val_def str_ok_def)

lemma safe_new_bytes: "safe P (liftL (new_bytevector bs)) good_val"
  by (rule safe_lift) (simp add: good_val_def str_ok_def new_bytevector_def)

lemma safe_builtin: "safe P (liftL (resolve_builtin_const bs)) good_val"
proof (rule safeI)
  fix r s
  assume *: "reader_ok r s"
  have "str_ok (length (h_strs s)) (case find Q [0..<vm_n_globals s] of Some i \<Rightarrow> gc_value (vm_globals s i) | None \<Rightarrow> VNil)" for Q
    using * by (auto simp: reader_ok_def globals_ok_def str_ok_def [of _ VNil] find_Some_iff split: option.split)
  then show "aborts (liftL (resolve_builtin_const bs) r s) \<or>
      (\<exists>x r' s'. liftL (resolve_builtin_const bs) r s = Done (x, r') s' \<and> reader_ok r' s' \<and> rd_path r' = rd_path r \<and>
         grows s s' \<and> good_val x s')"
    using * by (simp add: liftL_def resolve_builtin_const_def good_val_def)
qed

lemma safe_find: "safe P (datum_label_find lid) (\<lambda>v s. \<forall>w. v = Some w \<longrightarrow> good_val w s)"
  by (rule safeI) (auto simp: datum_label_find_def reader_ok_def good_val_def dest!: map_of_SomeD)

text \<open>Sequencing where only the value of the last part matters.\<close>

lemma reads_then: "reads m \<Longrightarrow> (\<And>x. safe (\<lambda>_. True) (f x) R) \<Longrightarrow> safe (\<lambda>_. True) (bindL m f) R"
  by (rule safe_bind [where Q = "\<lambda>_ _. True"]) (auto simp: kept_def)

lemma good_then: "safe (\<lambda>_. True) m good_val \<Longrightarrow> (\<And>x. safe (good_val x) (f x) R) \<Longrightarrow> safe (\<lambda>_. True) (bindL m f) R"
  by (rule safe_bind [where Q = good_val]) (auto simp: kept_def)

lemma safe_items:
  assumes sub: "safe (\<lambda>_. True) sub good_val"
  shows "i + n \<le> k \<Longrightarrow> safe (\<lambda>s. p < length (h_vecs s) \<and> length (h_vecs s ! p) = k) (read_items sub p i n) (\<lambda>_ _. True)"
proof (induction n arbitrary: i)
  case 0
  show ?case by (auto intro: safe_ret)
next
  case (Suc n)
  have step: "safe (\<lambda>s. (p < length (h_vecs s) \<and> length (h_vecs s ! p) = k) \<and> good_val v s)
      (bindL (liftL (set_vec_item p i v)) (\<lambda>_. read_items sub p (Suc i) n)) (\<lambda>_ _. True)" for v
  proof (rule safe_bind [where Q = "\<lambda>_ _. True"])
    show "safe (\<lambda>s. (p < length (h_vecs s) \<and> length (h_vecs s ! p) = k) \<and> good_val v s) (liftL (set_vec_item p i v)) (\<lambda>_ _. True)"
      by (rule safe_lift) (use Suc.prems in \<open>simp add: set_vec_item_def\<close>)
    show "safe (\<lambda>s. ((p < length (h_vecs s) \<and> length (h_vecs s ! p) = k) \<and> good_val v s) \<and> True)
        (read_items sub p (Suc i) n) (\<lambda>_ _. True)" for u
      by (rule safe_pre [OF Suc.IH]) (use Suc.prems in auto)
  qed (intro safe_rules)
  have "kept (\<lambda>s. p < length (h_vecs s) \<and> length (h_vecs s ! p) = k)" by (intro safe_rules)
  from safe_bind [OF safe_pre [OF sub] step this] show ?case by simp
qed

lemma safe_pair:
  assumes sub: "safe (\<lambda>_. True) sub good_val"
  shows "safe (\<lambda>_. True) (read_pair sub def_id) good_val"
  unfolding read_pair_def
proof (rule safe_bind [where Q = "\<lambda>v s. \<exists>p. v = VPair p \<and> p < length (h_pairs s)"])
  show "safe (\<lambda>_. True) (liftL (creme_cons VNil VNil)) (\<lambda>v s. \<exists>p. v = VPair p \<and> p < length (h_pairs s))"
    by (rule safe_lift) simp
  fix v
  show "safe (\<lambda>s. True \<and> (\<exists>p. v = VPair p \<and> p < length (h_pairs s)))
      (bindL (label_value def_id v) (\<lambda>_. case v of
         VPair p \<Rightarrow> bindL sub (\<lambda>a. bindL (liftL (set_pair_car p a)) (\<lambda>_. bindL sub (\<lambda>d. bindL (liftL (set_pair_cdr p d)) (\<lambda>_. retL v))))
       | _ \<Rightarrow> liftL stuckM)) good_val"
  proof (cases "\<exists>p. v = VPair p")
    case True
    then obtain p where v: "v = VPair p" by blast
    let ?P = "\<lambda>s. p < length (h_pairs s)"
    have st: "kept ?P" by (intro safe_rules)
    have car: "safe ?P (liftL (set_pair_car p a)) (\<lambda>_. ?P)" "safe ?P (liftL (set_pair_cdr p a)) (\<lambda>_. ?P)" for a
      by (rule safe_lift; simp add: set_pair_car_def set_pair_cdr_def)+
    have body: "safe ?P (bindL sub (\<lambda>a. bindL (liftL (set_pair_car p a)) (\<lambda>_. bindL sub (\<lambda>d. bindL (liftL (set_pair_cdr p d)) (\<lambda>_. retL v))))) good_val"
    proof (rule safe_bind [OF safe_pre [OF sub] _ st])
      fix a
      show "safe (\<lambda>s. ?P s \<and> good_val a s) (bindL (liftL (set_pair_car p a)) (\<lambda>_. bindL sub (\<lambda>d. bindL (liftL (set_pair_cdr p d)) (\<lambda>_. retL v)))) good_val"
      proof (rule safe_pre [OF safe_bind [OF car(1) _ st]])
        show "safe (\<lambda>s. ?P s \<and> ?P s) (bindL sub (\<lambda>d. bindL (liftL (set_pair_cdr p d)) (\<lambda>_. retL v))) good_val" for u
        proof (rule safe_pre [OF safe_bind [OF safe_pre [OF sub] _ st]])
          show "safe (\<lambda>s. ?P s \<and> good_val d s) (bindL (liftL (set_pair_cdr p d)) (\<lambda>_. retL v)) good_val" for d
            by (rule safe_pre [OF safe_bind [OF car(2) _ st]])
              (auto intro: safe_ret simp: v good_val_def str_ok_def)
        qed auto
      qed auto
    qed auto
    show ?thesis unfolding v val.case
      by (rule safe_pre [OF safe_bind [OF safe_label [of ?P] _ st]])
        (auto intro: safe_pre [OF body [unfolded v]] st simp: v str_ok_def)
  qed (auto simp: safe_def)
qed (intro safe_rules)

lemma safe_vector:
  assumes sub: "safe (\<lambda>_. True) sub good_val"
  shows "safe (\<lambda>_. True) (read_vector sub def_id) good_val"
  unfolding read_vector_def
proof (rule reads_then [OF reads_count])
  fix n
  let ?Q = "\<lambda>p s. p < length (h_vecs s) \<and> length (h_vecs s ! p) = n"
  show "safe (\<lambda>_. True) (bindL (liftL (new_vector (replicate n VNil))) (\<lambda>v. bindL (label_value def_id v) (\<lambda>_.
      case v of VVector p \<Rightarrow> bindL (read_items sub p 0 n) (\<lambda>_. retL v) | _ \<Rightarrow> liftL stuckM))) good_val"
  proof (rule safe_bind [where Q = "\<lambda>v s. \<exists>p. v = VVector p \<and> ?Q p s"])
    show "safe (\<lambda>_. True) (liftL (new_vector (replicate n VNil))) (\<lambda>v s. \<exists>p. v = VVector p \<and> ?Q p s)"
      by (rule safe_lift) simp
    fix v
    show "safe (\<lambda>s. True \<and> (\<exists>p. v = VVector p \<and> ?Q p s)) (bindL (label_value def_id v) (\<lambda>_.
        case v of VVector p \<Rightarrow> bindL (read_items sub p 0 n) (\<lambda>_. retL v) | _ \<Rightarrow> liftL stuckM)) good_val"
    proof (cases "\<exists>p. v = VVector p")
      case True
      then obtain p where v: "v = VVector p" by blast
      have st: "kept (?Q p)" by (intro safe_rules)
      have body: "safe (?Q p) (bindL (read_items sub p 0 n) (\<lambda>_. retL v)) good_val"
        by (rule safe_bind [OF safe_items [OF sub] _ st]) (auto intro: safe_ret simp: v good_val_def str_ok_def)
      show ?thesis unfolding v val.case
        by (rule safe_pre [OF safe_bind [OF safe_label [of "?Q p"] _ st]])
          (auto intro: safe_pre [OF body [unfolded v]] st simp: v str_ok_def)
    qed (auto simp: safe_def)
  qed (intro safe_rules)
qed

lemma good_exact: "good_val (make_bigint_from_mpz A z) s" "good_val (make_rational_from_mpq A q) s"
  by (auto simp: good_val_def str_ok_def make_bigint_from_mpz_def make_rational_from_mpq_def Let_def)

lemma safe_rational: "safe (\<lambda>_. True) (read_rational A) good_val"
  unfolding read_rational_def
  by (intro reads_then reads_int_str safe_if safe_abort safe_ret good_exact)

lemma safe_complex:
  assumes "safe (\<lambda>_. True) sub good_val"
  shows "safe (\<lambda>_. True) (bindL sub (\<lambda>re. bindL sub (\<lambda>im. label_value def_id (make_complex re im)))) good_val"
proof (rule good_then [OF assms], rule safe_bind [OF safe_pre [OF assms]])
  fix re im
  show "safe (\<lambda>s. good_val re s \<and> good_val im s) (label_value def_id (make_complex re im)) good_val"
  proof (rule label_good)
    show "good_val (make_complex re im) s" if "good_val re s \<and> good_val im s" for s
      using that by (auto simp: make_complex_def good_val_def str_ok_def)
  qed (intro safe_rules)
qed (auto intro: safe_rules)

lemma safe_tagged:
  assumes "safe (\<lambda>_. True) sub good_val"
  shows "safe (\<lambda>_. True) (read_tagged A sub def_id tag) good_val"
  unfolding read_tagged_def
  by (intro safe_if reads_then [OF reads_int_str] reads_then [OF reads_numbers(3)] reads_then [OF reads_numbers(4)]
      reads_then [OF reads_numbers(2)] reads_then [OF reads_pooled] reads_then [OF reads_count] reads_then [OF reads_must]
      good_then [OF safe_rational] good_then [OF safe_new_str] good_then [OF safe_new_bytes] good_then [OF safe_builtin]
      safe_complex [OF assms] safe_pair [OF assms] safe_vector [OF assms] safe_abort label_good good_exact kept_good)
    (auto simp: good_val_def str_ok_def intro: safe_rules)

lemma safe_datum_rec: "safe (\<lambda>_. True) (read_datum_rec n A) good_val"
proof (induction n)
  case 0
  show ?case by (simp add: safe_abort)
next
  case (Suc n)
  have ref: "safe (\<lambda>_. True) (bindL (datum_label_find lid) (\<lambda>v. case v of Some w \<Rightarrow> retL w
       | None \<Rightarrow> abortL (\<lambda>path. msg lid path))) good_val" for lid msg
  proof (rule safe_bind [OF safe_find])
    show "safe (\<lambda>s. True \<and> (\<forall>w. v = Some w \<longrightarrow> good_val w s))
        (case v of Some w \<Rightarrow> retL w | None \<Rightarrow> abortL (\<lambda>path. msg lid path)) good_val" for v
      by (cases v) (auto intro: safe_ret safe_abort)
  qed (intro safe_rules)
  show ?case unfolding read_datum_rec.simps read_datum_rec_impl_def
    by (intro reads_then [OF reads_numbers(4)] reads_then [OF reads_numbers(1)] safe_if ref safe_tagged [OF Suc])
qed

lemma safe_datum: "safe (\<lambda>_. True) (read_datum A) good_val"
proof (rule safeI)
  fix r s
  assume "reader_ok r s"
  then have "reader_ok (r\<lparr>rd_labels := []\<rparr>) s" by (simp add: reader_ok_def)
  from safe_datum_rec this TrueI show "aborts (read_datum A r s) \<or> (\<exists>x r' s'. read_datum A r s = Done (x, r') s' \<and>
      reader_ok r' s' \<and> rd_path r' = rd_path r \<and> grows s s' \<and> good_val x s')"
    unfolding read_datum_def by (rule safeE) auto
qed

lemma reads_datum [safe_rules]: "reads (read_datum A)"
  by (rule safe_post [OF safe_datum]) simp

lemma reads_qq [safe_rules]: "reads (read_qq_template n A)"
  by (induction n) (simp_all add: safe_abort, intro safe_rules)

lemma reads_case_table [safe_rules]: "reads read_case_dispatch_table"
  unfolding read_case_dispatch_table_def read_case_key_def by (intro safe_rules)

lemma reads_position [safe_rules]: "reads read_position"
  unfolding read_position_def by (intro safe_rules)

lemma reads_instruction [safe_rules]: "reads read_instruction"
  unfolding read_instruction_def by (intro safe_rules)

lemma reads_upvalue [safe_rules]: "reads read_upvalue"
  unfolding read_upvalue_def by (intro safe_rules)

subsection \<open>Trees of chunks\<close>

text \<open>The chunks a tree has read lie at consecutive addresses, each chunk right after its protos; so no
  chunk has two parents.\<close>

primrec in_order :: "(nat \<Rightarrow> nat \<Rightarrow> bool) \<Rightarrow> nat \<Rightarrow> nat list \<Rightarrow> nat \<Rightarrow> bool" where
  "in_order t lo [] hi \<longleftrightarrow> lo = hi"
| "in_order t lo (p # ps) hi \<longleftrightarrow> t lo p \<and> in_order t (Suc p) ps hi"

primrec chunk_tree :: "nat \<Rightarrow> chunk list \<Rightarrow> nat \<Rightarrow> nat \<Rightarrow> bool" where
  "chunk_tree 0 cs lo a \<longleftrightarrow> False"
| "chunk_tree (Suc n) cs lo a \<longleftrightarrow> a < length cs \<and> in_order (chunk_tree n cs) lo (ch_protos (cs ! a)) a"

definition consts_ok :: "vm \<Rightarrow> chunk \<Rightarrow> bool" where
  "consts_ok s c \<longleftrightarrow> (\<forall>v \<in> set (ch_consts c). good_val v s)"

lemma in_order_le: "in_order t lo ps hi \<Longrightarrow> (\<And>l p. t l p \<Longrightarrow> l \<le> p) \<Longrightarrow> lo \<le> hi"
proof (induction ps arbitrary: lo)
  case (Cons p ps)
  then have "lo \<le> p" "Suc p \<le> hi" by auto
  then show ?case by simp
qed simp

lemma chunk_tree_le: "chunk_tree n cs lo a \<Longrightarrow> lo \<le> a \<and> a < length cs"
proof (induction n arbitrary: lo a)
  case (Suc n)
  then show ?case using in_order_le [of "chunk_tree n cs" lo "ch_protos (cs ! a)" a] by auto
qed simp

lemma in_order_mono: "in_order t lo ps hi \<Longrightarrow> (\<And>l p. p < hi \<or> p \<in> set ps \<Longrightarrow> t l p \<Longrightarrow> t' l p) \<Longrightarrow> in_order t' lo ps hi"
  by (induction ps arbitrary: lo) auto

lemma in_order_append: "in_order t lo (ps @ qs) hi \<longleftrightarrow> (\<exists>mid. in_order t lo ps mid \<and> in_order t mid qs hi)"
  by (induction ps arbitrary: lo) auto

lemma chunk_tree_cong:
  "chunk_tree n cs lo a \<Longrightarrow> length cs \<le> length cs' \<Longrightarrow> (\<And>i. lo \<le> i \<Longrightarrow> i \<le> a \<Longrightarrow> ch_protos (cs' ! i) = ch_protos (cs ! i)) \<Longrightarrow>
     chunk_tree n cs' lo a"
proof (induction n arbitrary: lo a)
  case (Suc n)
  have "in_order (chunk_tree n cs) l ps a \<Longrightarrow> lo \<le> l \<Longrightarrow> in_order (chunk_tree n cs') l ps a" for ps l
  proof (induction ps arbitrary: l)
    case (Cons p ps)
    have le: "l \<le> p" "Suc p \<le> a"
      using Cons.prems(1) chunk_tree_le [of n cs l p] in_order_le [of "chunk_tree n cs" "Suc p" ps a] chunk_tree_le by auto
    have "chunk_tree n cs' l p"
      by (rule Suc.IH) (use Cons.prems Suc.prems(2,3) le in auto)
    moreover have "in_order (chunk_tree n cs') (Suc p) ps a"
      using Cons.IH [of "Suc p"] Cons.prems le by simp
    ultimately show ?case by simp
  qed simp
  moreover have "lo \<le> a" using chunk_tree_le [OF Suc.prems(1)] by simp
  ultimately show ?case using Suc.prems by simp
qed simp

lemma chunk_tree_append: "chunk_tree n cs lo a \<Longrightarrow> chunk_tree n (cs @ ds) lo a"
  using chunk_tree_le [of n cs lo a] by (auto intro!: chunk_tree_cong [of n cs] simp: nth_append)

subsection \<open>Reading a tree\<close>

text \<open>What reading chunks does: the heap grows and new chunks appear at the end, with good constants.\<close>

definition loads :: "vm \<Rightarrow> vm \<Rightarrow> bool" where
  "loads s s' \<longleftrightarrow> grows s (s'\<lparr>h_chunks := h_chunks s\<rparr>) \<and>
     (\<exists>new. h_chunks s' = h_chunks s @ new \<and> (\<forall>c \<in> set new. consts_ok s' c))"

lemma good_val_mono: "good_val v s \<Longrightarrow> length (h_strs s) \<le> length (h_strs s') \<Longrightarrow> good_val v s'"
  by (auto simp: good_val_def intro: str_ok_mono)

lemma grows_chunks: "grows s s' \<Longrightarrow> grows (s\<lparr>h_chunks := cs\<rparr>) (s'\<lparr>h_chunks := cs\<rparr>)"
  by (simp add: grows_def)

lemma loads_facts:
  assumes "loads s s'"
  shows "length (h_strs s) \<le> length (h_strs s')" "vm_globals s' = vm_globals s" "vm_n_globals s' = vm_n_globals s"
  using assms grows_facts(3,6,7) [of s "s'\<lparr>h_chunks := h_chunks s\<rparr>"] by (auto simp: loads_def)

lemma grows_loads: "grows s s' \<Longrightarrow> loads s s'"
proof -
  assume *: "grows s s'"
  have eq: "s'\<lparr>h_chunks := h_chunks s\<rparr> = s'" by (simp add: grows_facts(5) [OF *, symmetric])
  show ?thesis unfolding loads_def eq using * grows_facts(5) [OF *] by simp
qed

lemma loads_trans:
  assumes "loads s s'" "loads s' s''"
  shows "loads s s''"
proof -
  obtain new new' where new: "h_chunks s' = h_chunks s @ new" "\<forall>c \<in> set new. consts_ok s' c"
      "h_chunks s'' = h_chunks s' @ new'" "\<forall>c \<in> set new'. consts_ok s'' c"
    using assms by (auto simp: loads_def)
  have "\<forall>c \<in> set new. consts_ok s'' c"
    using new(2) loads_facts(1) [OF assms(2)] by (auto simp: consts_ok_def intro: good_val_mono)
  moreover have "grows s (s''\<lparr>h_chunks := h_chunks s\<rparr>)"
    using assms grows_chunks [of s' "s''\<lparr>h_chunks := h_chunks s'\<rparr>" "h_chunks s"] by (auto simp: loads_def intro: grows_trans)
  ultimately show ?thesis using new by (auto simp: loads_def)
qed

lemma reader_ok_loads: "reader_ok r s \<Longrightarrow> loads s s' \<Longrightarrow> reader_ok r s'"
  using loads_facts [of s s'] by (auto simp: reader_ok_def globals_ok_def intro: str_ok_mono)

definition chunked :: "(vm \<Rightarrow> bool) \<Rightarrow> 'a L \<Rightarrow> ('a \<Rightarrow> vm \<Rightarrow> bool) \<Rightarrow> bool" where
  "chunked P m Q \<longleftrightarrow> (\<forall>r s. reader_ok r s \<longrightarrow> P s \<longrightarrow>
     aborts (m r s) \<or> (\<exists>x r' s'. m r s = Done (x, r') s' \<and> reader_ok r' s' \<and> rd_path r' = rd_path r \<and> loads s s' \<and> Q x s'))"

lemma chunkedI:
  "(\<And>r s. reader_ok r s \<Longrightarrow> P s \<Longrightarrow> aborts (m r s) \<or>
      (\<exists>x r' s'. m r s = Done (x, r') s' \<and> reader_ok r' s' \<and> rd_path r' = rd_path r \<and> loads s s' \<and> Q x s')) \<Longrightarrow> chunked P m Q"
  unfolding chunked_def by blast

lemma chunkedE:
  assumes "chunked P m Q" "reader_ok r s" "P s"
  obtains "aborts (m r s)"
  | x r' s' where "m r s = Done (x, r') s'" "reader_ok r' s'" "rd_path r' = rd_path r" "loads s s'" "Q x s'"
  using assms unfolding chunked_def by blast

lemma chunked_safe:
  assumes "safe (\<lambda>_. True) m Q" "kept P"
  shows "chunked P m (\<lambda>x s. P s \<and> Q x s)"
proof (rule chunkedI)
  fix r s
  assume *: "reader_ok r s" "P s"
  from assms(1) *(1) TrueI show "aborts (m r s) \<or>
      (\<exists>x r' s'. m r s = Done (x, r') s' \<and> reader_ok r' s' \<and> rd_path r' = rd_path r \<and> loads s s' \<and> P s' \<and> Q x s')"
    by (rule safeE) (use assms(2) *(2) in \<open>auto simp: kept_def intro: grows_loads\<close>)
qed

lemma chunked_reads: "reads m \<Longrightarrow> kept P \<Longrightarrow> chunked P m (\<lambda>x. P)"
  using chunked_safe [of m "\<lambda>_ _. True" P] by simp

lemma chunked_bind:
  assumes m: "chunked P m Q" and f: "\<And>x. chunked (Q x) (f x) R"
  shows "chunked P (bindL m f) R"
proof (rule chunkedI)
  fix r s
  assume *: "reader_ok r s" "P s"
  show "aborts (bindL m f r s) \<or>
      (\<exists>x r' s'. bindL m f r s = Done (x, r') s' \<and> reader_ok r' s' \<and> rd_path r' = rd_path r \<and> loads s s' \<and> R x s')"
  proof (rule chunkedE [OF m *])
    assume "aborts (m r s)"
    then show ?thesis by (simp add: bindL_def aborts_bind)
  next
    fix x r' s'
    assume 1: "m r s = Done (x, r') s'" "reader_ok r' s'" "rd_path r' = rd_path r" "loads s s'" "Q x s'"
    from f 1(2,5) show ?thesis
      by (rule chunkedE) (use 1 loads_trans in \<open>auto simp: bindL_def\<close>)
  qed
qed

lemma chunked_next: "reads m \<Longrightarrow> kept P \<Longrightarrow> (\<And>x. chunked P (f x) R) \<Longrightarrow> chunked P (bindL m f) R"
  by (rule chunked_bind [OF chunked_reads])

lemma chunked_pre: "chunked P m Q \<Longrightarrow> (\<And>s. P' s \<Longrightarrow> P s) \<Longrightarrow> chunked P' m Q"
  unfolding chunked_def by blast

lemma chunked_ret: "(\<And>s. P s \<Longrightarrow> Q x s) \<Longrightarrow> chunked P (retL x) Q"
  by (rule chunkedI) (auto simp: retL_def intro: grows_loads)

text \<open>A fact about the heap before stays true of the part of the heap that was there.\<close>

lemma chunked_frame:
  assumes "chunked P m Q" "\<And>s s'. G s \<Longrightarrow> loads s s' \<Longrightarrow> G s'"
  shows "chunked (\<lambda>s. P s \<and> G s \<and> h_chunks s = cs) m (\<lambda>x s. Q x s \<and> G s \<and> (\<exists>new. h_chunks s = cs @ new))"
proof (rule chunkedI)
  fix r s
  assume *: "reader_ok r s" "P s \<and> G s \<and> h_chunks s = cs"
  from assms(1) *(1) conjunct1 [OF *(2)] show "aborts (m r s) \<or>
      (\<exists>x r' s'. m r s = Done (x, r') s' \<and> reader_ok r' s' \<and> rd_path r' = rd_path r \<and> loads s s' \<and>
         Q x s' \<and> G s' \<and> (\<exists>new. h_chunks s' = cs @ new))"
    by (rule chunkedE) (use assms(2) *(2) in \<open>auto simp: loads_def\<close>)
qed

definition tree_of :: "nat \<Rightarrow> chunk list \<Rightarrow> nat \<Rightarrow> vm \<Rightarrow> bool" where
  "tree_of n cs a s \<longleftrightarrow> chunk_tree n (h_chunks s) (length cs) a \<and> length (h_chunks s) = Suc a"

definition forest_of :: "nat \<Rightarrow> chunk list \<Rightarrow> nat list \<Rightarrow> vm \<Rightarrow> bool" where
  "forest_of n cs ps s \<longleftrightarrow> in_order (chunk_tree n (h_chunks s)) (length cs) ps (length (h_chunks s))"

lemma forest_reads:
  assumes "\<And>cs. chunked (\<lambda>s. h_chunks s = cs) (read_chunk n A) (tree_of n cs)"
  shows "chunked (\<lambda>s. h_chunks s = cs) (repeatL k (read_chunk n A)) (forest_of n cs)"
proof (induction k arbitrary: cs)
  case 0
  show ?case unfolding repeatL.simps by (rule chunked_ret) (simp add: forest_of_def)
next
  case (Suc k)
  have "chunked (tree_of n cs a) (bindL (repeatL k (read_chunk n A)) (\<lambda>ps. retL (a # ps))) (forest_of n cs)" for a
  proof (rule chunkedI)
    fix r s
    assume *: "reader_ok r s" "tree_of n cs a s"
    note frame = chunked_frame [OF Suc [of "h_chunks s"], where G = "\<lambda>_. True" and cs = "h_chunks s"]
    have fin: "chunked (\<lambda>s'. forest_of n (h_chunks s) ps s' \<and> True \<and> (\<exists>new. h_chunks s' = h_chunks s @ new)) (retL (a # ps)) (forest_of n cs)" for ps
    proof (rule chunked_ret)
      fix s'
      assume 1: "forest_of n (h_chunks s) ps s' \<and> True \<and> (\<exists>new. h_chunks s' = h_chunks s @ new)"
      have "chunk_tree n (h_chunks s') (length cs) a"
        by (rule chunk_tree_cong [of n "h_chunks s"]) (use * 1 in \<open>auto simp: tree_of_def nth_append\<close>)
      then show "forest_of n cs (a # ps) s'" using * 1 by (simp add: forest_of_def tree_of_def)
    qed
    from chunked_bind [OF frame fin] *(1)
    show "aborts (bindL (repeatL k (read_chunk n A)) (\<lambda>ps. retL (a # ps)) r s) \<or>
        (\<exists>x r' s'. bindL (repeatL k (read_chunk n A)) (\<lambda>ps. retL (a # ps)) r s = Done (x, r') s' \<and> reader_ok r' s' \<and>
           rd_path r' = rd_path r \<and> loads s s' \<and> forest_of n cs x s')"
      by (rule chunkedE) auto
  qed
  then show ?case unfolding repeatL.simps by (rule chunked_bind [OF assms])
qed

lemma chunk_tree_reads: "chunked (\<lambda>s. h_chunks s = cs) (read_chunk n A) (tree_of n cs)"
proof (induction n arbitrary: cs)
  case 0
  show ?case by (rule chunkedI) (simp add: abortL_def)
next
  case (Suc n)
  have alloc: "chunked (\<lambda>s. forest_of n cs ps s \<and> (\<forall>v \<in> set vs. good_val v s) \<and> (\<exists>new. h_chunks s = cs @ new))
      (liftL (new_chunk c)) (tree_of (Suc n) cs)" if c: "ch_protos c = ps" "ch_consts c = vs" for c ps vs
  proof (rule chunkedI)
    fix r s
    assume *: "reader_ok r s" "forest_of n cs ps s \<and> (\<forall>v \<in> set vs. good_val v s) \<and> (\<exists>new. h_chunks s = cs @ new)"
    let ?s = "s\<lparr>h_chunks := h_chunks s @ [c]\<rparr>"
    have "in_order (chunk_tree n (h_chunks ?s)) (length cs) ps (length (h_chunks s))"
      by (rule in_order_mono [of "chunk_tree n (h_chunks s)"])
        (use * in \<open>auto simp: forest_of_def intro: chunk_tree_append\<close>)
    then have "tree_of (Suc n) cs (length (h_chunks s)) ?s" by (simp add: tree_of_def c)
    moreover have "loads s ?s" using * c by (auto simp: loads_def consts_ok_def good_val_def)
    ultimately show "aborts (liftL (new_chunk c) r s) \<or> (\<exists>x r' s'. liftL (new_chunk c) r s = Done (x, r') s' \<and> reader_ok r' s' \<and>
        rd_path r' = rd_path r \<and> loads s s' \<and> tree_of (Suc n) cs x s')"
      using *(1) reader_ok_loads [of r s ?s] by (auto simp: liftL_def new_chunk_def)
  qed
  have lits: "chunked (\<lambda>s. h_chunks s = cs) (repeatL k (read_datum A)) (\<lambda>vs s. h_chunks s = cs \<and> (\<forall>v \<in> set vs. good_val v s))" for k
    by (rule chunked_safe [OF safe_repeat [OF safe_datum]]) (intro safe_rules)+
  have protos: "chunked (\<lambda>s. h_chunks s = cs \<and> (\<forall>v \<in> set vs. good_val v s)) (repeatL k (read_chunk n A))
      (\<lambda>ps s. forest_of n cs ps s \<and> (\<forall>v \<in> set vs. good_val v s) \<and> (\<exists>new. h_chunks s = cs @ new))" for k vs
    by (rule chunked_pre [OF chunked_frame [OF forest_reads [OF Suc]]]) (auto intro: good_val_mono loads_facts(1))
  have kept_all: "kept (\<lambda>s. forest_of n cs ps s \<and> (\<forall>v \<in> set vs. good_val v s) \<and> (\<exists>new. h_chunks s = cs @ new))" for ps vs
    by (auto simp: kept_def forest_of_def grows_facts(5) intro: good_val_mono grows_facts(3))
  have k1: "kept (\<lambda>s. h_chunks s = cs)" and k2: "kept (\<lambda>s. h_chunks s = cs \<and> (\<forall>v \<in> set vs. good_val v s))" for vs
    by (intro safe_rules)+
  note after = chunked_next [OF _ kept_all]
  show ?case unfolding read_chunk.simps
    by (intro chunked_next [OF reads_count k1] chunked_next [OF reads_repeat [OF reads_instruction] k1] chunked_bind [OF lits]
        chunked_next [OF reads_count k2] chunked_bind [OF protos] after [OF reads_count] after [OF reads_repeat [OF reads_upvalue]]
        after [OF reads_numbers(1)] after [OF reads_numbers(4)] after [OF reads_pooled] after [OF reads_repeat [OF reads_qq]]
        after [OF reads_repeat [OF reads_case_table]] alloc) simp_all
qed

end
