(* ===== verification/Loader_Spec.thy ===== *)
theory Loader_Spec
  imports Loader_Props VM_Init
begin

text \<open>
  What the loader promises of any bytes: it aborts, or it returns a chunk that is safe to dispatch as far
  as the loader checks.
\<close>

definition global_operand :: "instruction \<Rightarrow> int option" where
  "global_operand ins =
     (if ins_op ins = OP_GETGLOBAL then Some (ins_b ins)
      else if ins_op ins \<in> {OP_DEFGLOBAL, OP_SETGLOBAL, OP_RETURNGLOBAL, OP_TESTGLOBALIDENTITY} then Some (ins_a ins)
      else if ins_op ins \<in> {OP_CALLGLOBAL, OP_TAILCALLGLOBAL, OP_FORLOOPGUARDEDINC, OP_FORLOOPGUARDEDDEC} then Some (ins_d ins)
      else None)"

definition instr_ok :: "chunk \<Rightarrow> instruction \<Rightarrow> bool" where
  "instr_ok c ins \<longleftrightarrow> 0 \<le> ins_op ins \<and> ins_op ins < OP_COUNT \<and>
     (\<forall>x n w. pool_operand c ins = Some (x, n, w) \<longrightarrow> 0 \<le> x \<and> x < n)"

definition chunk_checked :: "chunk \<Rightarrow> bool" where
  "chunk_checked c \<longleftrightarrow> (\<forall>ins \<in> set (ch_instrs c). instr_ok c ins)"

definition globals_resolved :: "nat \<Rightarrow> chunk \<Rightarrow> bool" where
  "globals_resolved n c \<longleftrightarrow> (\<forall>ins \<in> set (ch_instrs c). \<forall>g. global_operand ins = Some g \<longrightarrow> 0 \<le> g \<and> g < int n)"

subsection \<open>Validation\<close>

lemma guard_cases: "aborts (guardM b msg s) \<and> b \<or> guardM b msg s = Done () s \<and> \<not> b"
  by (cases b) simp_all

lemma validate_instrs_run:
  "aborts (validate_instrs c path i is s) \<or> validate_instrs c path i is s = Done () s \<and> (\<forall>ins \<in> set is. instr_ok c ins)"
proof (induction "is" arbitrary: i)
  case (Cons ins "is")
  show ?case
  proof (cases "ins_op ins < 0 \<or> ins_op ins \<ge> OP_COUNT")
    case True
    then show ?thesis by (simp add: aborts_bind)
  next
    case op: False
    show ?thesis
    proof (cases "pool_operand c ins")
      case None
      then show ?thesis using Cons [of "i + 1"] op by (auto simp: instr_ok_def)
    next
      case (Some y)
      then obtain x n w where y: "pool_operand c ins = Some (x, n, w)" by (cases y) auto
      show ?thesis
      proof (cases "x < 0 \<or> n \<le> x")
        case True
        then show ?thesis using op y by (simp add: check_pool_index_def aborts_bind)
      next
        case False
        then show ?thesis using Cons [of "i + 1"] op y by (auto simp: check_pool_index_def instr_ok_def)
      qed
    qed
  qed
qed simp

lemma validate_tree:
  "chunk_tree n (h_chunks s) lo a \<Longrightarrow> aborts (validate_chunk n path a s) \<or>
     validate_chunk n path a s = Done () s \<and> (\<forall>i. lo \<le> i \<and> i \<le> a \<longrightarrow> chunk_checked (h_chunks s ! i))"
proof (induction n arbitrary: lo a)
  case (Suc n)
  let ?c = "h_chunks s ! a"
  have a: "a < length (h_chunks s)" and ps: "in_order (chunk_tree n (h_chunks s)) lo (ch_protos ?c) a"
    using Suc.prems by simp_all
  have protos: "in_order (chunk_tree n (h_chunks s)) l ps h \<Longrightarrow> aborts (forM ps (validate_chunk n path) s) \<or>
      forM ps (validate_chunk n path) s = Done () s \<and> (\<forall>i. l \<le> i \<and> i < h \<longrightarrow> chunk_checked (h_chunks s ! i))" for ps l h
  proof (induction ps arbitrary: l)
    case (Cons p ps)
    then have p: "chunk_tree n (h_chunks s) l p" and rest: "in_order (chunk_tree n (h_chunks s)) (Suc p) ps h" by simp_all
    from Suc.IH [OF p] show ?case
    proof
      assume "aborts (validate_chunk n path p s)"
      then show ?thesis by (simp add: aborts_bind)
    next
      assume here: "validate_chunk n path p s = Done () s \<and> (\<forall>i. l \<le> i \<and> i \<le> p \<longrightarrow> chunk_checked (h_chunks s ! i))"
      have "chunk_checked (h_chunks s ! i)" if "\<forall>i. Suc p \<le> i \<and> i < h \<longrightarrow> chunk_checked (h_chunks s ! i)" "l \<le> i" "i < h" for i
        using that here by (cases "i \<le> p") auto
      with Cons.IH [OF rest] here show ?thesis by auto
    qed
  qed auto
  from validate_instrs_run [of ?c path 0 "ch_instrs ?c" s] show ?case
  proof
    assume "aborts (validate_instrs ?c path 0 (ch_instrs ?c) s)"
    then show ?thesis using a by (simp add: aborts_bind)
  next
    assume here: "validate_instrs ?c path 0 (ch_instrs ?c) s = Done () s \<and> (\<forall>ins \<in> set (ch_instrs ?c). instr_ok ?c ins)"
    have "chunk_checked (h_chunks s ! i)" if "\<forall>i. lo \<le> i \<and> i < a \<longrightarrow> chunk_checked (h_chunks s ! i)" "lo \<le> i" "i \<le> a" for i
      using that here by (cases "i = a") (auto simp: chunk_checked_def)
    with protos [OF ps] here a show ?thesis by auto
  qed
qed simp

subsection \<open>Resolution\<close>

definition but_code :: "vm \<Rightarrow> vm" where
  "but_code s = s\<lparr>vm_globals := \<lambda>_. \<lparr> gc_name = [], gc_value = VNil, gc_bound = False \<rparr>, vm_n_globals := 0, h_chunks := []\<rparr>"

definition resolves :: "nat set \<Rightarrow> vm \<Rightarrow> vm \<Rightarrow> bool" where
  "resolves I s s' \<longleftrightarrow> but_code s' = but_code s \<and> vm_n_globals s \<le> vm_n_globals s' \<and>
     length (h_chunks s') = length (h_chunks s) \<and>
     (\<forall>i. ch_protos (h_chunks s' ! i) = ch_protos (h_chunks s ! i) \<and> ch_consts (h_chunks s' ! i) = ch_consts (h_chunks s ! i)) \<and>
     (\<forall>i. i \<notin> I \<longrightarrow> h_chunks s' ! i = h_chunks s ! i) \<and>
     (\<forall>i \<in> I. chunk_checked (h_chunks s' ! i) \<and> globals_resolved (vm_n_globals s') (h_chunks s' ! i))"

lemma resolves_refl [simp]: "resolves {} s s"
  by (simp add: resolves_def)

lemma resolved_mono: "globals_resolved n c \<Longrightarrow> n \<le> m \<Longrightarrow> globals_resolved m c"
  unfolding globals_resolved_def by force

lemma resolves_trans: "resolves I s s' \<Longrightarrow> resolves J s' s'' \<Longrightarrow> resolves (I \<union> J) s s''"
  unfolding resolves_def by (auto intro: resolved_mono) (metis resolved_mono)+

lemma resolves_strs: "resolves I s s' \<Longrightarrow> h_strs s' = h_strs s"
proof -
  assume "resolves I s s'"
  then have "h_strs (but_code s') = h_strs (but_code s)" by (simp add: resolves_def)
  then show ?thesis by (simp add: but_code_def)
qed

lemma intern_run:
  "aborts (creme_global_intern name s) \<or>
   (\<exists>g s'. creme_global_intern name s = Done g s' \<and> resolves {} s s' \<and> h_chunks s' = h_chunks s \<and> 0 \<le> g \<and> g < int (vm_n_globals s'))"
proof (cases "find (\<lambda>i. cstrlen (gc_name (vm_globals s i)) = length name \<and>
    take (length name) (gc_name (vm_globals s i)) = name) [0..<vm_n_globals s]")
  case None
  then show ?thesis by (simp add: creme_global_intern_def Let_def resolves_def but_code_def)
next
  case (Some i)
  then have "i < vm_n_globals s" by (auto simp: find_Some_iff)
  with Some show ?thesis by (simp add: creme_global_intern_def)
qed

lemma name_const_run:
  assumes "consts_ok s c"
  shows "aborts (global_name_const c idx path s) \<or> (\<exists>name. global_name_const c idx path s = Done name s)"
proof (cases "idx < 0 \<or> idx \<ge> int (length (ch_consts c))")
  case True
  then show ?thesis by (simp add: global_name_const_def aborts_bind)
next
  case False
  then have "good_val (ch_consts c ! nat idx) s" using assms by (auto simp: consts_ok_def)
  then show ?thesis using False
    by (auto simp: global_name_const_def good_val_def str_ok_def split: val.split)
qed

lemma slot_run:
  assumes "consts_ok s c"
  shows "aborts (bindM (global_name_const c idx path) (\<lambda>name. bindM (creme_global_intern name) (\<lambda>g. retM (k g))) s) \<or>
    (\<exists>g s'. bindM (global_name_const c idx path) (\<lambda>name. bindM (creme_global_intern name) (\<lambda>g. retM (k g))) s = Done (k g) s' \<and>
       resolves {} s s' \<and> h_chunks s' = h_chunks s \<and> 0 \<le> g \<and> g < int (vm_n_globals s'))"
  using name_const_run [OF assms, of idx path]
proof
  assume "\<exists>name. global_name_const c idx path s = Done name s"
  then obtain name where name: "global_name_const c idx path s = Done name s" by blast
  from intern_run [of name s] show ?thesis
    by (elim disjE exE conjE) (auto simp: name aborts_bind)
qed (simp add: aborts_bind)

lemma resolve_instruction_run:
  assumes "consts_ok s c" "instr_ok c ins"
  shows "aborts (resolve_instruction path c ins s) \<or>
    (\<exists>ins' s'. resolve_instruction path c ins s = Done ins' s' \<and> resolves {} s s' \<and> h_chunks s' = h_chunks s \<and>
       instr_ok c ins' \<and> (\<forall>g. global_operand ins' = Some g \<longrightarrow> 0 \<le> g \<and> g < int (vm_n_globals s')))"
proof -
  consider "ins_op ins = OP_GETGLOBAL" | "ins_op ins \<in> {OP_DEFGLOBAL, OP_SETGLOBAL, OP_RETURNGLOBAL, OP_TESTGLOBALIDENTITY}"
    | "ins_op ins \<in> {OP_CALLGLOBAL, OP_TAILCALLGLOBAL, OP_FORLOOPGUARDEDINC, OP_FORLOOPGUARDEDDEC}" | "global_operand ins = None"
    by (cases "global_operand ins") (auto simp: global_operand_def split: if_splits)
  then show ?thesis
  proof cases
    case 1
    then have ok: "instr_ok c (ins\<lparr>ins_b := g\<rparr>)" for g by (simp add: instr_ok_def pool_operand_def Let_def)
    have op: "global_operand (ins\<lparr>ins_b := g\<rparr>) = Some g" for g using 1 by (simp add: global_operand_def)
    show ?thesis using slot_run [OF assms(1), of "ins_b ins" path "\<lambda>g. ins\<lparr>ins_b := g\<rparr>"] 1 ok op
      by (auto simp: resolve_instruction_def Let_def)
  next
    case 2
    then have ok: "instr_ok c (ins\<lparr>ins_a := g\<rparr>)" for g by (auto simp: instr_ok_def pool_operand_def Let_def)
    have op: "global_operand (ins\<lparr>ins_a := g\<rparr>) = Some g" for g using 2 by (auto simp: global_operand_def)
    have run: "resolve_instruction path c ins = bindM (global_name_const c (ins_a ins) path)
        (\<lambda>name. bindM (creme_global_intern name) (\<lambda>g. retM (ins\<lparr>ins_a := g\<rparr>)))"
      using 2 by (auto simp: resolve_instruction_def Let_def)
    show ?thesis using slot_run [OF assms(1), of "ins_a ins" path "\<lambda>g. ins\<lparr>ins_a := g\<rparr>"] ok op unfolding run by auto
  next
    case 3
    then have ok: "instr_ok c (ins\<lparr>ins_d := g\<rparr>)" for g by (auto simp: instr_ok_def pool_operand_def Let_def)
    have op: "global_operand (ins\<lparr>ins_d := g\<rparr>) = Some g" for g using 3 by (auto simp: global_operand_def)
    have run: "resolve_instruction path c ins = bindM (global_name_const c (ins_d ins) path)
        (\<lambda>name. bindM (creme_global_intern name) (\<lambda>g. retM (ins\<lparr>ins_d := g\<rparr>)))"
      using 3 by (auto simp: resolve_instruction_def Let_def)
    show ?thesis using slot_run [OF assms(1), of "ins_d ins" path "\<lambda>g. ins\<lparr>ins_d := g\<rparr>"] ok op unfolding run by auto
  next
    case 4
    then have "resolve_instruction path c ins = retM ins"
      by (auto simp: resolve_instruction_def global_operand_def Let_def split: if_splits)
    then show ?thesis using assms(2) 4 by auto
  qed
qed

lemma resolves_empty_consts: "resolves {} s s' \<Longrightarrow> consts_ok s c \<Longrightarrow> consts_ok s' c"
  using resolves_strs [of "{}" s s'] by (simp add: consts_ok_def good_val_def)

lemma resolve_instrs_run:
  assumes "consts_ok s c" "\<forall>ins \<in> set is. instr_ok c ins"
  shows "aborts (mapM (resolve_instruction path c) is s) \<or>
    (\<exists>is' s'. mapM (resolve_instruction path c) is s = Done is' s' \<and> resolves {} s s' \<and> h_chunks s' = h_chunks s \<and>
       (\<forall>ins \<in> set is'. instr_ok c ins \<and> (\<forall>g. global_operand ins = Some g \<longrightarrow> 0 \<le> g \<and> g < int (vm_n_globals s'))))"
  using assms
proof (induction "is" arbitrary: s)
  case (Cons ins "is")
  then have "instr_ok c ins" by simp
  from resolve_instruction_run [OF Cons.prems(1) this, of path] show ?case
  proof
    assume "aborts (resolve_instruction path c ins s)"
    then show ?thesis by (simp add: aborts_bind)
  next
    assume "\<exists>ins' s'. resolve_instruction path c ins s = Done ins' s' \<and> resolves {} s s' \<and> h_chunks s' = h_chunks s \<and>
       instr_ok c ins' \<and> (\<forall>g. global_operand ins' = Some g \<longrightarrow> 0 \<le> g \<and> g < int (vm_n_globals s'))"
    then obtain ins' s1 where 1: "resolve_instruction path c ins s = Done ins' s1" "resolves {} s s1" "h_chunks s1 = h_chunks s"
        "instr_ok c ins'" "\<forall>g. global_operand ins' = Some g \<longrightarrow> 0 \<le> g \<and> g < int (vm_n_globals s1)"
      by blast
    have "consts_ok s1 c" using resolves_empty_consts [OF 1(2) Cons.prems(1)] .
    from Cons.IH [OF this] Cons.prems(2) show ?thesis
    proof (elim disjE exE conjE meta_impE)
      assume "aborts (mapM (resolve_instruction path c) is s1)"
      then show ?thesis using 1(1) by (simp add: aborts_bind)
    next
      fix is' s2
      assume 2: "mapM (resolve_instruction path c) is s1 = Done is' s2" "resolves {} s1 s2" "h_chunks s2 = h_chunks s1"
        "\<forall>ins \<in> set is'. instr_ok c ins \<and> (\<forall>g. global_operand ins = Some g \<longrightarrow> 0 \<le> g \<and> g < int (vm_n_globals s2))"
      have "vm_n_globals s1 \<le> vm_n_globals s2" using 2(2) by (simp add: resolves_def)
      then have "\<forall>g. global_operand ins' = Some g \<longrightarrow> 0 \<le> g \<and> g < int (vm_n_globals s2)" using 1(5) by force
      then have "\<forall>i \<in> set (ins' # is'). instr_ok c i \<and> (\<forall>g. global_operand i = Some g \<longrightarrow> 0 \<le> g \<and> g < int (vm_n_globals s2))"
        using 1(4) 2(4) by simp
      moreover have "resolves {} s s2" using resolves_trans [OF 1(2) 2(2)] by simp
      moreover have "mapM (resolve_instruction path c) (ins # is) s = Done (ins' # is') s2" using 1(1) 2(1) by simp
      moreover have "h_chunks s2 = h_chunks s" using 1(3) 2(3) by simp
      ultimately show ?thesis by blast
    qed auto
  qed
qed simp

text \<open>A tree of checked chunks with good constants: every chunk of it gets its globals resolved, once.\<close>

definition ready :: "vm \<Rightarrow> nat \<Rightarrow> nat \<Rightarrow> bool" where
  "ready s lo a \<longleftrightarrow> (\<forall>i. lo \<le> i \<and> i \<le> a \<longrightarrow> consts_ok s (h_chunks s ! i) \<and> chunk_checked (h_chunks s ! i))"

lemma ready_resolves: "ready s lo a \<Longrightarrow> resolves I s s' \<Longrightarrow> (\<And>i. lo \<le> i \<Longrightarrow> i \<le> a \<Longrightarrow> i \<notin> I) \<Longrightarrow> ready s' lo a"
  using resolves_strs [of I s s'] by (simp add: ready_def consts_ok_def good_val_def resolves_def)

lemma tree_resolves: "chunk_tree n (h_chunks s) lo a \<Longrightarrow> resolves I s s' \<Longrightarrow> chunk_tree n (h_chunks s') lo a"
  by (erule chunk_tree_cong) (simp_all add: resolves_def)

lemma order_resolves: "in_order (chunk_tree n (h_chunks s)) lo ps a \<Longrightarrow> resolves I s s' \<Longrightarrow> in_order (chunk_tree n (h_chunks s')) lo ps a"
  by (induction ps arbitrary: lo) (auto intro: tree_resolves)

lemma resolve_tree:
  "chunk_tree n (h_chunks s) lo a \<Longrightarrow> ready s lo a \<Longrightarrow>
     aborts (resolve_globals n path a s) \<or> (\<exists>s'. resolve_globals n path a s = Done () s' \<and> resolves {lo..a} s s')"
proof (induction n arbitrary: lo a s)
  case (Suc n)
  let ?c = "h_chunks s ! a"
  have a: "a < length (h_chunks s)" and ps: "in_order (chunk_tree n (h_chunks s)) lo (ch_protos ?c) a" and le: "lo \<le> a"
    using Suc.prems(1) chunk_tree_le [OF Suc.prems(1)] by simp_all
  have protos: "in_order (chunk_tree n (h_chunks s)) l ps a \<Longrightarrow> \<forall>i. l \<le> i \<and> i < a \<longrightarrow> ready s i i \<Longrightarrow>
      aborts (forM ps (resolve_globals n path) s) \<or> (\<exists>s'. forM ps (resolve_globals n path) s = Done () s' \<and> resolves {l..<a} s s')"
    for ps l s
  proof (induction ps arbitrary: l s)
    case (Cons p ps)
    then have p: "chunk_tree n (h_chunks s) l p" and rest: "in_order (chunk_tree n (h_chunks s)) (Suc p) ps a" by simp_all
    have le: "l \<le> p" "Suc p \<le> a"
      using chunk_tree_le [OF p] in_order_le [OF rest] chunk_tree_le by auto
    have "ready s l p" using Cons.prems(2) le by (force simp: ready_def)
    from Suc.IH [OF p this] show ?case
    proof (elim disjE exE conjE)
      assume "aborts (resolve_globals n path p s)"
      then show ?thesis by (simp add: aborts_bind)
    next
      fix s1
      assume 1: "resolve_globals n path p s = Done () s1" "resolves {l..p} s s1"
      have "\<forall>i. Suc p \<le> i \<and> i < a \<longrightarrow> ready s1 i i"
        using ready_resolves [OF _ 1(2)] Cons.prems(2) le by auto
      from Cons.IH [OF order_resolves [OF rest 1(2)] this] show ?thesis
      proof (elim disjE exE conjE)
        assume "aborts (forM ps (resolve_globals n path) s1)"
        then show ?thesis using 1(1) by (simp add: aborts_bind)
      next
        fix s2
        assume 2: "forM ps (resolve_globals n path) s1 = Done () s2" "resolves {Suc p..<a} s1 s2"
        have "{l..p} \<union> {Suc p..<a} = {l..<a}" using le by auto
        then have "resolves {l..<a} s s2" using resolves_trans [OF 1(2) 2(2)] by simp
        with 1(1) 2(1) show ?thesis by auto
      qed
    qed
  qed auto
  have good: "consts_ok s ?c" "\<forall>ins \<in> set (ch_instrs ?c). instr_ok ?c ins"
    using Suc.prems(2) le by (auto simp: ready_def chunk_checked_def)
  from resolve_instrs_run [OF good, of path] show ?case
  proof (elim disjE exE conjE)
    assume "aborts (mapM (resolve_instruction path ?c) (ch_instrs ?c) s)"
    then show ?thesis using a by (simp add: aborts_bind)
  next
    fix is' s1
    assume 1: "mapM (resolve_instruction path ?c) (ch_instrs ?c) s = Done is' s1" "resolves {} s s1" "h_chunks s1 = h_chunks s"
      "\<forall>ins \<in> set is'. instr_ok ?c ins \<and> (\<forall>g. global_operand ins = Some g \<longrightarrow> 0 \<le> g \<and> g < int (vm_n_globals s1))"
    let ?c' = "?c\<lparr>ch_instrs := is'\<rparr>"
    let ?s2 = "s1\<lparr>h_chunks := (h_chunks s1)[a := ?c']\<rparr>"
    have same: "ch_protos ((h_chunks s1)[a := ?c'] ! i) = ch_protos (h_chunks s1 ! i)"
        "ch_consts ((h_chunks s1)[a := ?c'] ! i) = ch_consts (h_chunks s1 ! i)" for i
      using a 1(3) by (cases "i = a"; simp)+
    have "instr_ok ?c' ins = instr_ok ?c ins" for ins by (simp add: instr_ok_def pool_operand_def)
    then have own: "chunk_checked ?c'" "globals_resolved (vm_n_globals s1) ?c'"
      using 1(4) by (auto simp: chunk_checked_def globals_resolved_def)
    have "resolves {a} s1 ?s2" using a 1(3) own same by (simp add: resolves_def but_code_def)
    then have two: "resolves {a} s ?s2" using resolves_trans [OF 1(2)] by fastforce
    have "\<forall>i. lo \<le> i \<and> i < a \<longrightarrow> ready ?s2 i i"
    proof (intro allI impI)
      fix i
      assume i: "lo \<le> i \<and> i < a"
      then have "ready s i i" using Suc.prems(2) by (auto simp: ready_def)
      then show "ready ?s2 i i" by (rule ready_resolves [OF _ two]) (use i in auto)
    qed
    from protos [OF order_resolves [OF ps two] this] show ?thesis
    proof (elim disjE exE conjE)
      assume "aborts (forM (ch_protos ?c) (resolve_globals n path) ?s2)"
      then show ?thesis using a 1 by (simp add: aborts_bind)
    next
      fix s3
      assume 3: "forM (ch_protos ?c) (resolve_globals n path) ?s2 = Done () s3" "resolves {lo..<a} ?s2 s3"
      have "{a} \<union> {lo..<a} = {lo..a}" using le by auto
      then have "resolves {lo..a} s s3" using resolves_trans [OF two 3(2)] by simp
      with 1 3(1) a show ?thesis by auto
    qed
  qed
qed simp

subsection \<open>Loading\<close>

lemma reader_opens: "globals_ok s \<Longrightarrow> reader_ok (open_reader f path bs) s"
  by (simp add: reader_ok_def open_reader_def)

definition loaded :: "vm \<Rightarrow> nat \<Rightarrow> vm \<Rightarrow> bool" where
  "loaded s p s' \<longleftrightarrow> Suc p = length (h_chunks s') \<and> length (h_chunks s) \<le> p \<and>
     take (length (h_chunks s)) (h_chunks s') = h_chunks s \<and>
     (\<forall>c \<in> set (drop (length (h_chunks s)) (h_chunks s')).
        chunk_checked c \<and> globals_resolved (vm_n_globals s') c)"

lemma chunked_body:
  "chunked (\<lambda>s. h_chunks s = cs) (read_body A) (\<lambda>x. tree_of CREME_LOADER_MAX_CHUNK_DEPTH cs (fst x))"
  unfolding read_body_def
  by (intro chunked_next [OF reads_pool] chunked_next [OF reads_families] chunked_bind [OF chunk_tree_reads]
      chunked_ret safe_rules) simp

lemma load_with_run:
  assumes "globals_ok s"
  shows "aborts (load_with Z A (open_reader f path bs) s) \<or>
    (\<exists>p families s'. load_with Z A (open_reader f path bs) s = Done (p, families) s' \<and> loaded s p s')"
proof -
  let ?r = "open_reader f path bs"
  let ?read = "bindL check_magic_and_version (\<lambda>_. bindL (reader_decompress_body Z) (\<lambda>_. read_body A))"
  have "chunked (\<lambda>s'. h_chunks s' = h_chunks s) ?read (\<lambda>x. tree_of CREME_LOADER_MAX_CHUNK_DEPTH (h_chunks s) (fst x))"
    by (intro chunked_next [OF reads_magic] chunked_next [OF reads_body] chunked_body safe_rules)
  then show ?thesis
  proof (rule chunkedE [OF _ reader_opens [OF assms, of f path bs] refl])
    assume "aborts (?read ?r s)"
    then show ?thesis unfolding load_with_def by (intro disjI1 aborts_bind)
  next
    fix x r1 s1
    assume read: "?read ?r s = Done (x, r1) s1" "loads s s1" "tree_of CREME_LOADER_MAX_CHUNK_DEPTH (h_chunks s) (fst x) s1"
    obtain p families where x: "x = (p, families)" by (cases x)
    let ?lo = "length (h_chunks s)"
    have tree: "chunk_tree CREME_LOADER_MAX_CHUNK_DEPTH (h_chunks s1) ?lo p" "length (h_chunks s1) = Suc p"
      using read(3) by (simp_all add: tree_of_def x)
    obtain new where new: "h_chunks s1 = h_chunks s @ new" "\<forall>c \<in> set new. consts_ok s1 c"
      using read(2) by (auto simp: loads_def)
    have load: "load_with Z A ?r s = bindM (validate_chunk CREME_LOADER_MAX_CHUNK_DEPTH (rd_path r1) p)
        (\<lambda>_. bindM (resolve_globals CREME_LOADER_MAX_CHUNK_DEPTH (rd_path r1) p) (\<lambda>_. retM (p, families))) s1"
      by (simp add: load_with_def read(1) x)
    from validate_tree [OF tree(1), of "rd_path r1"] show ?thesis
    proof (elim disjE conjE)
      assume "aborts (validate_chunk CREME_LOADER_MAX_CHUNK_DEPTH (rd_path r1) p s1)"
      then show ?thesis unfolding load by (intro disjI1 aborts_bind)
    next
      assume valid: "validate_chunk CREME_LOADER_MAX_CHUNK_DEPTH (rd_path r1) p s1 = Done () s1"
        "\<forall>i. ?lo \<le> i \<and> i \<le> p \<longrightarrow> chunk_checked (h_chunks s1 ! i)"
      have "ready s1 ?lo p"
        using valid(2) new tree(2) by (auto simp: ready_def nth_append)
      from resolve_tree [OF tree(1) this, of "rd_path r1"] show ?thesis
      proof (elim disjE exE conjE)
        assume "aborts (resolve_globals CREME_LOADER_MAX_CHUNK_DEPTH (rd_path r1) p s1)"
        then show ?thesis unfolding load using valid(1) by (intro disjI1) (simp add: aborts_bind)
      next
        fix s2
        assume res: "resolve_globals CREME_LOADER_MAX_CHUNK_DEPTH (rd_path r1) p s1 = Done () s2" "resolves {?lo..p} s1 s2"
        have len: "length (h_chunks s2) = Suc p" "?lo \<le> p" using res(2) tree chunk_tree_le [OF tree(1)] by (simp_all add: resolves_def)
        have old: "take ?lo (h_chunks s2) = h_chunks s"
          by (rule nth_equalityI) (use res(2) new(1) len in \<open>auto simp: resolves_def nth_append\<close>)
        have "chunk_checked c \<and> globals_resolved (vm_n_globals s2) c" if "c \<in> set (drop ?lo (h_chunks s2))" for c
        proof -
          from that obtain j where j: "j < Suc p - ?lo" "c = h_chunks s2 ! (?lo + j)" using len by (auto simp: in_set_conv_nth)
          then have "?lo + j \<in> {?lo..p}" by auto
          then show ?thesis using res(2) j(2) by (simp add: resolves_def)
        qed
        then have "loaded s p s2" using len old by (simp add: loaded_def)
        then show ?thesis unfolding load using valid(1) res(1) by auto
      qed
    qed
  qed
qed

text \<open>C21. On any bytes the loader aborts with a message or returns a chunk; it never reads outside its input, a pool
  or the heap.  Every opcode of the chunk and of its protos is one of the table, the pool operands are in
  range, and the names of the global operands have been replaced, once, by slots of the global table.\<close>

theorem loader_checks_bytecode:
  assumes "globals_ok s"
  shows "aborts (creme_load_from_bytes Z A bs s) \<or>
    (\<exists>p families s'. creme_load_from_bytes Z A bs s = Done (p, families) s' \<and> loaded s p s')"
  unfolding creme_load_from_bytes_def by (rule load_with_run [OF assms])

definition stored_zstd :: zstd where
  "stored_zstd = \<lparr> ZSTD_getFrameContentSize = (\<lambda>bs. ContentSize (length bs)), ZSTD_decompress = (\<lambda>n bs. Inr bs) \<rparr>"

lemma loader_checks_bytecode_witness:
  "aborts (creme_load_from_bytes stored_zstd reference_arith ''ICE'' vm0) \<or>
    (\<exists>p families s'. creme_load_from_bytes stored_zstd reference_arith ''ICE'' vm0 = Done (p, families) s' \<and> loaded vm0 p s')"
  using loader_checks_bytecode [of vm0 stored_zstd reference_arith "''ICE''"] by (simp add: globals_ok_def)

end
