(* ===== verification/Loader_Prefix.thy ===== *)
theory Loader_Prefix
  imports Loader_Spec
begin

text \<open>
  The loader needs every byte of its input.  \<open>streams m\<close>: what the reader \<open>m\<close> makes of the bytes it consumes
  does not depend on the bytes that follow.  With the totality of \<open>Loader_Props\<close> no proper prefix of a body
  that is read to its end is accepted.
\<close>

named_theorems stream_rules \<open>readers that do not look ahead\<close>

definition more :: "bytes \<Rightarrow> reader \<Rightarrow> reader" where
  "more bs r = r\<lparr>rd_rest := rd_rest r @ bs\<rparr>"

lemma more_simps [simp]:
  "rd_rest (more bs r) = rd_rest r @ bs" "rd_file (more bs r) = rd_file r" "rd_path (more bs r) = rd_path r"
  "rd_strings (more bs r) = rd_strings r" "rd_labels (more bs r) = rd_labels r"
  "(more bs r)\<lparr>rd_labels := ls\<rparr> = more bs (r\<lparr>rd_labels := ls\<rparr>)"
  "(more bs r)\<lparr>rd_strings := ss\<rparr> = more bs (r\<lparr>rd_strings := ss\<rparr>)"
  by (simp_all add: more_def)

definition streams :: "'a L \<Rightarrow> bool" where
  "streams m \<longleftrightarrow> (\<forall>bs r s x r' s'. m r s = Done (x, r') s' \<longrightarrow> m (more bs r) s = Done (x, more bs r') s')"

lemma streamsI: "(\<And>bs r s x r' s'. m r s = Done (x, r') s' \<Longrightarrow> m (more bs r) s = Done (x, more bs r') s') \<Longrightarrow> streams m"
  unfolding streams_def by blast

lemma streams_basic [stream_rules]: "streams (retL x)" "streams (abortL msg)" "streams (liftL c)"
  by (auto intro!: streamsI simp: retL_def abortL_def liftL_def abort_not_Done bindM_Done_iff)

lemma streams_bind [stream_rules]: "streams m \<Longrightarrow> (\<And>x. streams (f x)) \<Longrightarrow> streams (bindL m f)"
  unfolding streams_def bindL_def by (fastforce simp: bindM_Done_iff)

lemma streams_if [stream_rules]: "streams m \<Longrightarrow> streams m' \<Longrightarrow> streams (if b then m else m')"
  by simp

lemma streams_option [stream_rules]: "streams m \<Longrightarrow> (\<And>x. streams (f x)) \<Longrightarrow> streams (case z of None \<Rightarrow> m | Some x \<Rightarrow> f x)"
  by (cases z) simp_all

lemma streams_repeat [stream_rules]: "streams m \<Longrightarrow> streams (repeatL n m)"
  by (induction n) (auto intro: stream_rules)

lemma streams_must [stream_rules]: "streams (must_read n)"
  by (rule streamsI) (auto simp: must_read_def abort_not_Done more_def split: if_splits)

lemma streams_numbers [stream_rules]:
  "streams read_i32" "streams read_i64" "streams read_f64" "streams read_u8" "streams read_u24" "streams read_u16"
  unfolding read_i32_def read_i64_def read_f64_def read_u8_def read_u24_def read_u16_def by (intro stream_rules)+

lemma streams_count [stream_rules]: "streams (read_count what)" "streams (read_bytes n)"
  unfolding read_count_def read_bytes_def by (intro stream_rules)+

lemma streams_reader [stream_rules]: "streams (\<lambda>r. retM ((), r\<lparr>rd_strings := ss\<rparr>))" "streams (datum_label_find lid)"
    "streams (datum_label_add lid v)"
  by (auto intro!: streamsI simp: datum_label_find_def datum_label_add_def abort_not_Done split: if_splits)

lemma streams_pool [stream_rules]: "streams read_string_pool" "streams read_pooled_string"
proof -
  show "streams read_string_pool" unfolding read_string_pool_def by (intro stream_rules)
  have "streams (\<lambda>r. if idx < 0 \<or> idx \<ge> int (length (rd_strings r))
      then abortL (corrupt (''string-pool index '' @ dec idx @ '' out of range (n_strings='' @
        dec (int (length (rd_strings r))) @ '')'')) r
      else retM (rd_strings r ! nat idx, r))" for idx
    by (rule streamsI) (auto simp: abortL_def abort_not_Done split: if_splits)
  then show "streams read_pooled_string" unfolding read_pooled_string_def by (intro stream_rules)
qed

lemma streams_int_str [stream_rules]: "streams (read_int_str A)" "streams (label_value d v)"
  unfolding read_int_str_def label_value_def Let_def by (intro stream_rules)+

lemma streams_items [stream_rules]: "streams m \<Longrightarrow> streams (read_items m p i n)"
  by (induction n arbitrary: i) (auto intro: stream_rules)

lemma streams_val_cases [stream_rules]:
  "(\<And>p. streams (f p)) \<Longrightarrow> streams (case v of VPair p \<Rightarrow> f p | _ \<Rightarrow> liftL stuckM)"
  "(\<And>p. streams (f p)) \<Longrightarrow> streams (case v of VVector p \<Rightarrow> f p | _ \<Rightarrow> liftL stuckM)"
  by (cases v; simp add: streams_basic)+

lemma streams_tagged:
  assumes "streams sub"
  shows "streams (read_tagged A sub d tag)"
proof -
  note assms [stream_rules]
  show ?thesis
    unfolding read_tagged_def read_pair_def read_vector_def read_rational_def by (intro stream_rules)
qed

lemma streams_datum [stream_rules]: "streams (read_datum A)"
proof -
  have "streams (read_datum_rec n A)" for n
  proof (induction n)
    case 0
    show ?case by (simp add: streams_basic)
  next
    case (Suc n)
    note streams_tagged [OF Suc, stream_rules]
    show ?case unfolding read_datum_rec.simps read_datum_rec_impl_def by (intro stream_rules)
  qed
  then show ?thesis unfolding read_datum_def streams_def by simp
qed

lemma streams_qq [stream_rules]: "streams (read_qq_template n A)"
proof (induction n)
  case (Suc n)
  note Suc [stream_rules]
  show ?case unfolding read_qq_template.simps by (intro stream_rules)
qed (simp add: streams_basic)

lemma streams_tables [stream_rules]: "streams read_case_dispatch_table" "streams read_instruction" "streams read_upvalue"
    "streams read_required_families"
  unfolding read_case_dispatch_table_def read_case_key_def read_instruction_def read_position_def read_upvalue_def
    read_required_families_def
  by (intro stream_rules)+

lemma streams_chunk [stream_rules]: "streams (read_chunk n A)"
proof (induction n)
  case (Suc n)
  note Suc [stream_rules]
  show ?case unfolding read_chunk.simps by (intro stream_rules)
qed (simp add: streams_basic)

lemma streams_body: "streams (read_body A)"
  unfolding read_body_def by (intro stream_rules)

lemma body_total:
  assumes "globals_ok s"
  shows "aborts (read_body A (open_reader f path bs) s) \<or> (\<exists>x r' s'. read_body A (open_reader f path bs) s = Done (x, r') s')"
proof -
  from chunked_body reader_opens [OF assms, of f path bs] refl show ?thesis by (rule chunkedE) auto
qed

text \<open>C22. A body that reads to its end is the only prefix of itself that is accepted: cut anywhere, it aborts.\<close>

theorem truncated_body_aborts:
  assumes "globals_ok s"
    and "read_body A (open_reader f path bs) s = Done (x, r') s'" "rd_rest r' = []"
    and "k < length bs"
  shows "aborts (read_body A (open_reader f path (take k bs)) s)"
proof (rule ccontr)
  assume "\<not> aborts (read_body A (open_reader f path (take k bs)) s)"
  then obtain y r1 s1 where cut: "read_body A (open_reader f path (take k bs)) s = Done (y, r1) s1"
    using body_total [OF assms(1)] by blast
  have "more (drop k bs) (open_reader f path (take k bs)) = open_reader f path bs"
    by (simp add: more_def open_reader_def)
  with streams_body cut have "read_body A (open_reader f path bs) s = Done (y, more (drop k bs) r1) s1"
    unfolding streams_def by metis
  with assms(2,3) have "drop k bs = []" by auto
  with assms(4) show False by simp
qed

definition empty_body :: bytes where
  "empty_body = CHR 0x01 # replicate 47 (CHR 0x00)"

lemma empty_chunk: "read_chunk CREME_LOADER_MAX_CHUNK_DEPTH A = read_chunk (Suc 9999) A"
  by (simp add: CREME_LOADER_MAX_CHUNK_DEPTH_def)

lemma le_nat_zeros [simp]: "le_nat (replicate n (CHR 0x00)) = 0"
  by (induction n) simp_all

lemma run_reader:
  "n \<le> length (rd_rest r) \<Longrightarrow> must_read n r s = Done (take n (rd_rest r), r\<lparr>rd_rest := drop n (rd_rest r)\<rparr>) s"
  "bindL m f r s = bindM (m r) (\<lambda>(x, r'). f x r') s" "retL x r s = Done (x, r) s"
  "liftL c r s = bindM c (\<lambda>x. retM (x, r)) s"
  by (simp_all add: must_read_def bindL_def retL_def liftL_def)

lemma read_empty_body:
  "\<exists>x r' s'. read_body A (open_reader False path empty_body) vm0 = Done (x, r') s' \<and> rd_rest r' = []"
  unfolding read_body_def empty_chunk read_chunk.simps
  by (simp add: run_reader read_string_pool_def read_required_families_def read_count_def read_i32_def
      read_u8_def read_u24_def read_bytes_def read_pooled_string_def open_reader_def empty_body_def
      CREME_LOADER_MAX_COUNT_def new_chunk_def)

lemma truncated_body_aborts_witness:
  "aborts (read_body reference_arith (open_reader False ''a.ice'' (take 47 empty_body)) vm0)"
proof -
  obtain x r' s' where "read_body reference_arith (open_reader False ''a.ice'' empty_body) vm0 = Done (x, r') s'" "rd_rest r' = []"
    using read_empty_body by blast
  then show ?thesis
    by (rule truncated_body_aborts [rotated]) (simp_all add: globals_ok_def empty_body_def)
qed

end
