(* ===== verification/Decimal_Spec.thy ===== *)
theory Decimal_Spec
  imports Big_Decimal Int_Props Call_Props VM_Init
begin

text \<open>
  The exact decimals compute on the rationals they stand for (\<open>bd_val\<close>): exactly, but for the quotient, which is
  rounded at a known place; and what they print reads back.
\<close>

definition bd_val :: "big_decimal \<Rightarrow> rat" where
  "bd_val bd = of_int (fst bd) / 10 ^ snd bd"

definition decimal_at :: "vm \<Rightarrow> val \<Rightarrow> big_decimal \<Rightarrow> bool" where
  "decimal_at s v bd \<longleftrightarrow> (\<exists>p. v = VBox BOX_KIND_BIGDECIMAL p \<and> p < length (h_boxes s) \<and>
     h_boxes s ! p = BoxBigDecimal (fst bd) (snd bd))"

text \<open>The computation returns a fresh decimal and changes nothing else.\<close>

definition yields_decimal :: "vm \<Rightarrow> val M \<Rightarrow> (big_decimal \<Rightarrow> bool) \<Rightarrow> bool" where
  "yields_decimal s m P \<longleftrightarrow> (\<exists>r. m s = Done (VBox BOX_KIND_BIGDECIMAL (length (h_boxes s)))
     (s\<lparr>h_boxes := h_boxes s @ [BoxBigDecimal (fst r) (snd r)]\<rparr>) \<and> P r)"

lemma bigdecimal_arg_run: "decimal_at s v bd \<Longrightarrow> bigdecimal_arg v who s = Done bd s"
  by (auto simp: decimal_at_def bigdecimal_arg_def)

lemma two_bigdecimals_run:
  "decimal_at s x a \<Longrightarrow> decimal_at s y b \<Longrightarrow> two_bigdecimals [x, y] who k s = k a b s"
  by (simp add: two_bigdecimals_def bigdecimal_arg_run bindM_def)

lemma yields_run: "m s = v_bigdecimal bd s \<Longrightarrow> P bd \<Longrightarrow> yields_decimal s m P"
  unfolding yields_decimal_def v_bigdecimal_def by (intro exI [of _ bd]) simp

lemma yields_mono: "yields_decimal s m P \<Longrightarrow> (\<And>r. P r \<Longrightarrow> Q r) \<Longrightarrow> yields_decimal s m Q"
  unfolding yields_decimal_def by blast

lemma decimal_yields_new: "P bd \<Longrightarrow> yields_decimal s (v_bigdecimal bd) P"
  unfolding yields_decimal_def v_bigdecimal_def by (intro exI [of _ bd]) simp

text \<open>The text fits the C \<open>int\<close>s that count its characters.\<close>

definition text_fits :: "big_decimal \<Rightarrow> bool" where
  "text_fits bd \<longleftrightarrow> int (length (dec (fst bd))) + 2 \<le> INT_MAX \<and> int (snd bd) + 3 \<le> INT_MAX"

context gmp_spec begin

lemma align_props:
  assumes "bd_align A a b = (na, nb, sc)"
  shows "bd_val (na, sc) = bd_val a" "bd_val (nb, sc) = bd_val b"
proof -
  have scaled: "(of_int m * 10 ^ (k - j)) / 10 ^ k = (of_int m / 10 ^ j :: rat)" if "j \<le> k" for m :: int and j k
  proof -
    have "(10 :: rat) ^ k = 10 ^ (k - j) * 10 ^ j" using that by (simp flip: power_add)
    then show ?thesis by simp
  qed
  show "bd_val (na, sc) = bd_val a" "bd_val (nb, sc) = bd_val b"
    using assms scaled [of "snd a" "snd b" "fst a"] scaled [of "snd b" "snd a" "fst b"]
    by (auto simp: bd_align_def bd_val_def Let_def zmul_law pow_law split: if_splits)
qed

lemma compare_props:
  "(bd_compare A a b < 0 \<longleftrightarrow> bd_val a < bd_val b) \<and> (bd_compare A a b = 0 \<longleftrightarrow> bd_val a = bd_val b) \<and> bd_compare A a b \<in> {-1, 0, 1}"
proof -
  obtain na nb sc where al: "bd_align A a b = (na, nb, sc)" by (metis prod_cases3)
  have "bd_val a < bd_val b \<longleftrightarrow> na < nb" "bd_val a = bd_val b \<longleftrightarrow> na = nb"
    unfolding align_props [OF al, symmetric] by (simp_all add: bd_val_def divide_less_cancel)
  with zcmp_law [of na nb] show ?thesis by (auto simp: bd_compare_def al Let_def)
qed

lemma sums:
  assumes "bd_align A a b = (na, nb, sc)"
  shows "bd_val (mpz_add A na nb, sc) = bd_val a + bd_val b" "bd_val (mpz_sub A na nb, sc) = bd_val a - bd_val b"
  unfolding align_props [OF assms, symmetric] by (simp_all add: bd_val_def zadd_law zsub_law add_divide_distrib diff_divide_distrib)

lemma round_props:
  assumes "b \<noteq> 0"
  shows "2 * \<bar>bd_round A n b * b - n\<bar> \<le> \<bar>b\<bar>"
proof -
  define q r where "q = n sdiv b" and "r = n smod b"
  have n: "n = q * b + r" using mult_sdiv_smod_eq [of b n] by (simp add: q_def r_def mult.commute)
  note r = smod_bounds [OF assms, of n, folded r_def]
  have res: "bd_round A n b = (if 2 * \<bar>r\<bar> \<ge> \<bar>b\<bar> then (if sgn n * sgn b \<ge> 0 then q + 1 else q - 1) else q)"
    using assms zcmp_law [of "\<bar>r\<bar> * 2" "\<bar>b\<bar>"]
    by (simp add: bd_round_def Let_def tdiv_law zmul_law zabs_law zsgn_law zadd_law zsub_law q_def r_def mult.commute not_less [symmetric])
  show ?thesis
  proof (cases "2 * \<bar>r\<bar> \<ge> \<bar>b\<bar>")
    case True
    with assms have "r \<noteq> 0" by auto
    with r(2,3) have sg: "sgn r = sgn n" by (cases r "0 :: int" rule: linorder_cases) auto
    show ?thesis
    proof (cases "sgn n * sgn b \<ge> 0")
      case same: True
      with True \<open>r \<noteq> 0\<close> assms sg have "sgn r = sgn b" by (auto simp: sgn_if split: if_splits)
      then have "\<bar>b - r\<bar> = \<bar>b\<bar> - \<bar>r\<bar>" using r(1) by (auto simp: sgn_if split: if_splits)
      with True show ?thesis using res same n by (simp add: algebra_simps)
    next
      case diff: False
      with \<open>r \<noteq> 0\<close> assms sg have "sgn r = - sgn b" by (auto simp: sgn_if split: if_splits)
      then have "\<bar>b + r\<bar> = \<bar>b\<bar> - \<bar>r\<bar>" using r(1) by (auto simp: sgn_if split: if_splits)
      moreover have "bd_round A n b * b - n = - (b + r)" proof -
        have "bd_round A n b = q - 1" using True res diff by simp
        then have "bd_round A n b * b - n = (q - 1) * b - (q * b + r)" using n by simp
        then show ?thesis by (simp add: left_diff_distrib)
      qed
      moreover have "2 * (x - y) \<le> x" if "x \<le> 2 * y" for x y :: int using that by simp
      ultimately show ?thesis using True by (simp only: abs_minus_cancel)
    qed
  next
    case False
    then show ?thesis using res n by (simp add: algebra_simps)
  qed
qed

lemma trim_props:
  "bd_val (bd_trim A q sc) = bd_val (q, sc) \<and> snd (bd_trim A q sc) \<le> sc \<and>
     (snd (bd_trim A q sc) = 0 \<or> \<not> 10 dvd fst (bd_trim A q sc))"
proof (induction sc arbitrary: q)
  case 0
  show ?case by simp
next
  case (Suc sc)
  show ?case
  proof (cases "q smod 10 = 0")
    case True
    have "q = 10 * (q sdiv 10)" using mult_sdiv_smod_eq [of 10 q] True by simp
    then have "bd_val (q sdiv 10, sc) = bd_val (q, Suc sc)"
      by (metis (no_types, lifting) bd_val_def fst_conv snd_conv of_int_mult of_int_numeral power_Suc
          mult_divide_mult_cancel_left zero_neq_numeral)
    with Suc.IH [of "q sdiv 10"] True show ?thesis by (auto simp: tdiv_law zsgn_law)
  next
    case False
    then have "\<not> 10 dvd q" by (auto simp: signed_modulo_int_def)
    with False show ?thesis by (simp add: tdiv_law zsgn_law sgn_0_0)
  qed
qed

text \<open>The quotient is the exact one rounded to \<open>S\<close> places, \<open>S\<close> twenty more than the operands have.\<close>

lemma div_props:
  fixes a b :: big_decimal
  defines "S \<equiv> max (snd a) (snd b) + 20"
  assumes "fst b \<noteq> 0"
  shows "\<bar>bd_val (bd_round A (fst a * 10 ^ (snd b + S - snd a)) (fst b), S) - bd_val a / bd_val b\<bar> \<le> 1 / (2 * 10 ^ S)"
proof -
  define n where "n = fst a * 10 ^ (snd b + S - snd a)"
  have "snd a \<le> snd b + S" by (simp add: S_def)
  then have "(10 :: rat) ^ (snd b + S) = 10 ^ (snd b + S - snd a) * 10 ^ snd a" by (simp flip: power_add)
  then have "bd_val a / bd_val b = of_int n / of_int (fst b) / 10 ^ S"
    using assms(2) by (simp add: bd_val_def n_def power_add field_simps)
  then have diff: "bd_val (bd_round A n (fst b), S) - bd_val a / bd_val b = of_int (bd_round A n (fst b) * fst b - n) / of_int (fst b) / 10 ^ S"
    using assms(2) by (simp add: bd_val_def field_simps)
  have "\<bar>of_int (bd_round A n (fst b) * fst b - n) / of_int (fst b)\<bar> \<le> (1 / 2 :: rat)"
  proof -
    have "of_int (2 * \<bar>bd_round A n (fst b) * fst b - n\<bar>) \<le> (of_int \<bar>fst b\<bar> :: rat)"
      by (subst of_int_le_iff) (rule round_props [OF assms(2)])
    then show ?thesis using assms(2) by (simp add: abs_divide divide_le_eq)
  qed
  then have "\<bar>of_int (bd_round A n (fst b) * fst b - n) / of_int (fst b)\<bar> / 10 ^ S \<le> (1 / 2 / 10 ^ S :: rat)"
    by (rule divide_right_mono) simp
  then show ?thesis unfolding n_def [symmetric] diff by (simp add: abs_divide abs_mult)
qed

lemma digits_zeros: "digits_val 0 (replicate n (CHR ''0'') @ ds) = digits_val 0 ds"
  by (induction n) simp_all

lemma print_run:
  assumes "mpz_get_str A m = (if neg then ''-'' else []) @ ds" "ds \<noteq> []" "hd ds \<noteq> CHR ''-''"
    and "int (length ds) + (if neg then 3 else 2) \<le> INT_MAX" "int sc + 3 \<le> INT_MAX"
    and "padded = replicate (sc + 1 - length ds) (CHR ''0'') @ ds" and "k = length padded - sc"
  shows "bd_to_string A (m, sc) = Some ((if neg then ''-'' else []) @ take k padded @ ''.'' @ (if sc > 0 then drop k padded else ''0''))"
proof -
  have nd: "c_int (int (length ds)) = int (length ds)" using assms(4) by (simp add: c_int_def INT_MAX_def split: if_splits)
  have str: "(mpz_get_str A m \<noteq> [] \<and> hd (mpz_get_str A m) = CHR ''-'') = neg"
    "(if neg then tl (mpz_get_str A m) else mpz_get_str A m) = ds"
    using assms(1-3) by (cases neg; cases ds; simp)+
  define pad where "pad = (if int sc + 1 > int (length ds) then int sc + 1 - int (length ds) else 0)"
  have pad: "nat pad = sc + 1 - length ds" "int (length ds) + pad = int (length padded)" "int sc < int (length padded)"
    by (auto simp: pad_def assms(6))
  have k: "nat (int (length ds) + pad - int sc) = k" "int (length ds) + pad - int sc = int k"
    using pad by (simp_all add: assms(7))
  have total: "\<not> (if neg then 1 else 0) + int k + 1 + (if int sc > 0 then int sc else 1) > INT_MAX"
    using assms(2,4,5) pad(2,3) by (cases ds) (auto simp: assms(7) pad_def INT_MAX_def split: if_splits)
  show ?thesis
    unfolding bd_to_string_def fst_conv snd_conv Let_def str nd pad_def [symmetric] k pad(1) assms(6) [symmetric]
    using total assms(5) by (simp add: assms(6))
qed

lemma print_parts:
  assumes "ds = dec_nat (nat \<bar>fst bd\<bar>)"
    and "padded = replicate (snd bd + 1 - length ds) (CHR ''0'') @ ds" and "k = length padded - snd bd"
  shows "text_fits bd \<Longrightarrow> bd_to_string A bd = Some ((if fst bd < 0 then ''-'' else []) @ take k padded @ ''.'' @
      (if snd bd > 0 then drop k padded else ''0''))"
    and "list_all is_digit padded" "0 < k" "k \<le> length padded" "length padded - k = snd bd"
    and "int (digits_val 0 padded) = \<bar>fst bd\<bar>"
proof -
  note d = dec_nat_digits [of "nat \<bar>fst bd\<bar>", folded assms(1)]
  have hd: "hd ds \<noteq> CHR ''-''" using d by (cases ds) (auto simp: is_digit_def)
  have str: "mpz_get_str A (fst bd) = (if fst bd < 0 then ''-'' else []) @ ds" by (simp add: get_str_law dec_def assms(1))
  show "bd_to_string A bd = Some ((if fst bd < 0 then ''-'' else []) @ take k padded @ ''.'' @
      (if snd bd > 0 then drop k padded else ''0''))" if "text_fits bd"
    using print_run [OF str _ hd _ _ assms(2,3)] that d by (simp add: text_fits_def dec_def assms(1) split: if_splits)
  show "list_all is_digit padded" using d by (auto simp: assms(2) list_all_iff is_digit_def)
  have "snd bd < length padded" using d by (simp add: assms(2))
  then show "0 < k" "k \<le> length padded" "length padded - k = snd bd" by (simp_all add: assms(3))
  show "int (digits_val 0 padded) = \<bar>fst bd\<bar>" using d by (simp add: assms(2) digits_zeros)
qed

lemma parse_digits:
  assumes "list_all is_digit ip" "ip \<noteq> []" "list_all is_digit fp"
  shows "bd_parse A ((if neg then ''-'' else []) @ ip @ ''.'' @ fp) =
    Some ((if neg then - 1 else 1) * int (digits_val 0 (ip @ fp)), length fp)"
proof -
  obtain c ip' where ip: "ip = c # ip'" using assms(2) by (cases ip) auto
  have c: "c \<noteq> CHR ''-''" "c \<noteq> CHR ''+''" using assms(1) ip by (auto simp: is_digit_def)
  have dot: "\<not> is_digit (CHR ''.'')" by (simp add: is_digit_def)
  have scan: "takeWhile is_digit (ip @ CHR ''.'' # fp) = ip" "dropWhile is_digit (ip @ CHR ''.'' # fp) = CHR ''.'' # fp"
      "takeWhile is_digit fp = fp" "dropWhile is_digit fp = []"
    using assms(1,3) dot
    by (simp_all add: list_all_iff takeWhile_eq_all_conv dropWhile_eq_Nil_conv takeWhile_append2 dropWhile_append2)
  have law: "mpz_set_str A (ip @ fp) = Some (int (digits_val 0 (ip @ fp)))"
      "mpz_set_str A (CHR ''-'' # ip @ fp) = Some (- int (digits_val 0 (ip @ fp)))"
    using set_str_law [of "ip @ fp"] assms by simp_all
  show ?thesis
  proof (cases neg)
    case True
    then show ?thesis using assms(2) by (simp add: bd_parse_def Let_def scan law dot)
  next
    case False
    have "(ip @ CHR ''.'' # fp) \<noteq> [] \<and> hd (ip @ CHR ''.'' # fp) \<notin> {CHR ''+'', CHR ''-''}" using c ip by simp
    then show ?thesis using False assms(2) by (simp add: bd_parse_def Let_def scan law dot)
  qed
qed

lemma parse_print:
  assumes "text_fits bd"
  shows "\<exists>out bd'. bd_to_string A bd = Some out \<and> bd_parse A out = Some bd' \<and> bd_val bd' = bd_val bd \<and> snd bd' = max 1 (snd bd)"
proof -
  define ds where "ds = dec_nat (nat \<bar>fst bd\<bar>)"
  define padded where "padded = replicate (snd bd + 1 - length ds) (CHR ''0'') @ ds"
  define k where "k = length padded - snd bd"
  note p = print_parts [OF ds_def padded_def k_def]
  define fp where "fp = (if snd bd > 0 then drop k padded else ''0'')"
  have digs: "list_all is_digit (take k padded)" "take k padded \<noteq> []" "list_all is_digit fp"
    using p(2-4) by (auto simp: fp_def list_all_iff is_digit_def dest: in_set_takeD in_set_dropD)
  have len: "length fp = max 1 (snd bd)" using p(5) by (simp add: fp_def)
  have num: "int (digits_val 0 (take k padded @ fp)) = \<bar>fst bd\<bar> * (if snd bd = 0 then 10 else 1)"
    using p(4-6) by (simp add: fp_def) (simp add: digits_val_append)
  note printed = p(1) [OF assms, folded fp_def]
  have "bd_parse A ((if fst bd < 0 then ''-'' else []) @ take k padded @ ''.'' @ fp) =
      Some ((if fst bd < 0 then - 1 else 1) * int (digits_val 0 (take k padded @ fp)), length fp)"
    using parse_digits [OF digs, of "fst bd < 0"] by simp
  moreover have "bd_val ((if fst bd < 0 then - 1 else 1) * int (digits_val 0 (take k padded @ fp)), length fp) = bd_val bd"
    unfolding num len by (cases "snd bd = 0") (auto simp: bd_val_def max_def)
  ultimately show ?thesis using len printed by auto
qed

lemma print_overflows: "int (snd bd) \<ge> INT_MAX \<Longrightarrow> bd_to_string A bd = None"
  by (simp add: bd_to_string_def Let_def)

text \<open>An integer multiple of the last place within half a last place is exact.\<close>

lemma nearest_exact:
  fixes x :: rat
  assumes "snd r \<le> S" "\<bar>bd_val r - x\<bar> \<le> 1 / (2 * 10 ^ S)" "x = of_int m / 10 ^ S"
  shows "bd_val r = x"
proof -
  have "(10 :: rat) ^ S = 10 ^ (S - snd r) * 10 ^ snd r" using assms(1) by (simp flip: power_add)
  then have r: "bd_val r = of_int (fst r * 10 ^ (S - snd r)) / 10 ^ S" by (simp add: bd_val_def)
  let ?k = "fst r * 10 ^ (S - snd r) - m"
  have diff: "bd_val r - x = of_int ?k / 10 ^ S" unfolding r assms(3) by (simp add: diff_divide_distrib)
  have "of_int \<bar>?k\<bar> / 10 ^ S = \<bar>bd_val r - x\<bar>" unfolding diff by (simp add: abs_divide)
  also have "\<dots> \<le> (1 / 2) / 10 ^ S" using assms(2) by simp
  finally have "(of_int \<bar>?k\<bar> :: rat) \<le> 1 / 2" unfolding divide_le_cancel by simp
  then have "of_int (2 * \<bar>?k\<bar>) \<le> (of_int 1 :: rat)" by simp
  then have "2 * \<bar>?k\<bar> \<le> 1" by (subst (asm) of_int_le_iff)
  moreover have "z = 0" if "2 * \<bar>z\<bar> \<le> 1" for z :: int using that by linarith
  ultimately have "?k = 0" by blast
  then show ?thesis using r assms(3) by simp
qed

end


text \<open>C24. With \<open>S\<close> twenty places more than the operands have, a quotient is the exact one rounded to \<open>S\<close> places (it is off by
  at most half a unit of the last place), it is exact when the exact one has no more than \<open>S\<close> places, and it has at most \<open>S\<close>
  places and no superfluous zeros; a zero divisor aborts.  The scales must keep the exponent within a C \<open>int\<close>.\<close>

theorem bigdecimal_division:
  fixes a b :: big_decimal
  defines "S \<equiv> max (snd a) (snd b) + 20"
  assumes "gmp_spec A" "decimal_at s x a" "decimal_at s y b"
    and "int (snd a + 2 * snd b + 20) \<le> INT_MAX"
  shows "(fst b \<noteq> 0 \<longrightarrow> yields_decimal s (bi_bigdecimal_div A [x, y]) (\<lambda>r.
      \<bar>bd_val r - bd_val a / bd_val b\<bar> \<le> 1 / (2 * 10 ^ S) \<and>
      (\<forall>m. bd_val a / bd_val b = of_int m / 10 ^ S \<longrightarrow> bd_val r = bd_val a / bd_val b) \<and>
      snd r \<le> S \<and> (snd r = 0 \<or> \<not> 10 dvd fst r))) \<and>
    (fst b = 0 \<longrightarrow> bi_bigdecimal_div A [x, y] s = creme_abort ''bigdecimal-div: division by zero'' s)"
proof (rule conjI)
  let ?q = "bd_round A (fst a * 10 ^ (snd b + S - snd a)) (fst b)"
  note spec = gmp_spec.zsgn_law [OF assms(2)] gmp_spec.zmul_law [OF assms(2)] gmp_spec.pow_law [OF assms(2)]
  note run = two_bigdecimals_run [OF assms(3,4)]
  have S: "(if snd a > snd b then snd a else snd b) + BD_DIV_EXTRA_DIGITS = S" by (simp add: S_def BD_DIV_EXTRA_DIGITS_def max_def)
  have small: "\<not> int S > INT_MAX" "\<not> int (snd b + S - snd a) > INT_MAX" using assms(5) by (simp_all add: S_def)
  show "fst b \<noteq> 0 \<longrightarrow> yields_decimal s (bi_bigdecimal_div A [x, y]) (\<lambda>r.
      \<bar>bd_val r - bd_val a / bd_val b\<bar> \<le> 1 / (2 * 10 ^ S) \<and>
      (\<forall>m. bd_val a / bd_val b = of_int m / 10 ^ S \<longrightarrow> bd_val r = bd_val a / bd_val b) \<and>
      snd r \<le> S \<and> (snd r = 0 \<or> \<not> 10 dvd fst r))"
  proof
    assume nz: "fst b \<noteq> 0"
    then have div: "bi_bigdecimal_div A [x, y] s = v_bigdecimal (bd_trim A ?q S) s"
      using small by (simp add: bi_bigdecimal_div_def run spec Let_def S sgn_0_0 del: of_nat_add of_nat_diff of_nat_diff_if)
    have trim: "bd_val (bd_trim A ?q S) = bd_val (?q, S)" "snd (bd_trim A ?q S) \<le> S"
      "snd (bd_trim A ?q S) = 0 \<or> \<not> 10 dvd fst (bd_trim A ?q S)" using gmp_spec.trim_props [OF assms(2), of ?q S] by simp_all
    have near: "\<bar>bd_val (bd_trim A ?q S) - bd_val a / bd_val b\<bar> \<le> 1 / (2 * 10 ^ S)"
      using gmp_spec.div_props [OF assms(2) nz, of a] trim(1) by (simp add: S_def)
    have "bd_val (bd_trim A ?q S) = bd_val a / bd_val b" if "bd_val a / bd_val b = of_int m / 10 ^ S" for m
      by (rule gmp_spec.nearest_exact [OF assms(2) trim(2) near that])
    with div near trim(2,3) show "yields_decimal s (bi_bigdecimal_div A [x, y]) (\<lambda>r.
      \<bar>bd_val r - bd_val a / bd_val b\<bar> \<le> 1 / (2 * 10 ^ S) \<and>
      (\<forall>m. bd_val a / bd_val b = of_int m / 10 ^ S \<longrightarrow> bd_val r = bd_val a / bd_val b) \<and>
      snd r \<le> S \<and> (snd r = 0 \<or> \<not> 10 dvd fst r))"
      by (intro yields_run [of _ _ "bd_trim A ?q S"]) auto
  qed
  show "fst b = 0 \<longrightarrow> bi_bigdecimal_div A [x, y] s = creme_abort ''bigdecimal-div: division by zero'' s"
    by (simp add: bi_bigdecimal_div_def run spec guardM_def bind_abort)
qed

text \<open>C25. What \<open>bigdecimal->string\<close> prints, \<open>string->bigdecimal\<close> reads back as the same number, with at least one place, for every
  decimal whose number of digits and scale leave room in a C \<open>int\<close>; at the largest scale the computation of the length overflows.\<close>

theorem bigdecimal_text_roundtrip:
  assumes "gmp_spec A" "decimal_at s x a"
  shows "(int (length (dec (fst a))) + 2 \<le> INT_MAX \<and> int (snd a) + 3 \<le> INT_MAX \<longrightarrow>
      (\<exists>s' p. bi_bigdecimal_to_string A [x] s = Done (VStr p) s' \<and>
        yields_decimal s' (bi_string_to_bigdecimal A [VStr p]) (\<lambda>r. bd_val r = bd_val a \<and> snd r = max 1 (snd a)))) \<and>
    (int (snd a) = INT_MAX \<longrightarrow> bi_bigdecimal_to_string A [x] s = Stuck)"
proof (intro conjI impI)
  assume "int (length (dec (fst a))) + 2 \<le> INT_MAX \<and> int (snd a) + 3 \<le> INT_MAX"
  then have "text_fits a" by (simp add: text_fits_def)
  from gmp_spec.parse_print [OF assms(1) this] obtain out r where
    r: "bd_to_string A a = Some out" "bd_parse A out = Some r" "bd_val r = bd_val a" "snd r = max 1 (snd a)" by blast
  let ?t = "s\<lparr>h_strs := h_strs s @ [out]\<rparr>"
  have "bi_bigdecimal_to_string A [x] s = Done (VStr (length (h_strs s))) ?t"
    by (simp add: bi_bigdecimal_to_string_def bigdecimal_arg_run [OF assms(2)] r(1))
  moreover have "yields_decimal ?t (bi_string_to_bigdecimal A [VStr (length (h_strs s))])
      (\<lambda>r. bd_val r = bd_val a \<and> snd r = max 1 (snd a))"
    by (rule yields_run [of _ _ r]) (simp_all add: bi_string_to_bigdecimal_def r)
  ultimately show "\<exists>s' p. bi_bigdecimal_to_string A [x] s = Done (VStr p) s' \<and>
      yields_decimal s' (bi_string_to_bigdecimal A [VStr p]) (\<lambda>r. bd_val r = bd_val a \<and> snd r = max 1 (snd a))" by blast
next
  assume "int (snd a) = INT_MAX"
  then have "bd_to_string A a = None" by (intro gmp_spec.print_overflows [OF assms(1)]) simp
  then show "bi_bigdecimal_to_string A [x] s = Stuck"
    by (simp add: bi_bigdecimal_to_string_def bigdecimal_arg_run [OF assms(2)])
qed

text \<open>A product whose scale does not fit an \<open>int\<close> overflows it: from 0.1, repeated squaring gets there in 31 steps.\<close>

theorem bigdecimal_scale_overflows:
  assumes "decimal_at s x (m, 2 ^ 30)"
  shows "bi_bigdecimal_mul A [x, x] s = Stuck"
  by (simp add: bi_bigdecimal_mul_def two_bigdecimals_run [OF assms assms] INT_MAX_def)

subsection \<open>A concrete state\<close>

definition decimal_state :: vm where
  "decimal_state = vm0\<lparr>h_boxes := [BoxBigDecimal 5 1, BoxBigDecimal (-25) 2, BoxBigDecimal 1 (2 ^ 30)]\<rparr>"

lemma decimal_state_at:
  "decimal_at decimal_state (VBox BOX_KIND_BIGDECIMAL 0) (5, 1)"
  "decimal_at decimal_state (VBox BOX_KIND_BIGDECIMAL 1) (-25, 2)"
  "decimal_at decimal_state (VBox BOX_KIND_BIGDECIMAL 2) (1, 2 ^ 30)"
  by (simp_all add: decimal_at_def decimal_state_def)


lemma bigdecimal_division_witness:
  "yields_decimal decimal_state (bi_bigdecimal_div reference_arith [VBox BOX_KIND_BIGDECIMAL 0, VBox BOX_KIND_BIGDECIMAL 1])
     (\<lambda>r. bd_val r = - 2)"
proof (rule yields_mono)
  have q: "bd_val (5, 1) / bd_val (- 25, 2) = (- 2 :: rat)" by (simp add: bd_val_def)
  have "int (snd (5 :: int, 1 :: nat) + 2 * snd (- 25 :: int, 2 :: nat) + 20) \<le> INT_MAX" by (simp add: INT_MAX_def)
  from bigdecimal_division [OF ref.gmp_spec_axioms decimal_state_at(1,2) this]
  show "yields_decimal decimal_state (bi_bigdecimal_div reference_arith [VBox BOX_KIND_BIGDECIMAL 0, VBox BOX_KIND_BIGDECIMAL 1])
     (\<lambda>r. \<bar>bd_val r - bd_val (5, 1) / bd_val (- 25, 2)\<bar> \<le> 1 / (2 * 10 ^ (max (snd (5 :: int, 1 :: nat)) (snd (- 25 :: int, 2 :: nat)) + 20)) \<and>
      (\<forall>m. bd_val (5, 1) / bd_val (- 25, 2) = of_int m / 10 ^ (max (snd (5 :: int, 1 :: nat)) (snd (- 25 :: int, 2 :: nat)) + 20) \<longrightarrow>
        bd_val r = bd_val (5, 1) / bd_val (- 25, 2)) \<and>
      snd r \<le> max (snd (5 :: int, 1 :: nat)) (snd (- 25 :: int, 2 :: nat)) + 20 \<and> (snd r = 0 \<or> \<not> 10 dvd fst r))"
    by simp
  fix r :: big_decimal
  assume "\<bar>bd_val r - bd_val (5, 1) / bd_val (- 25, 2)\<bar> \<le> 1 / (2 * 10 ^ (max (snd (5 :: int, 1 :: nat)) (snd (- 25 :: int, 2 :: nat)) + 20)) \<and>
      (\<forall>m. bd_val (5, 1) / bd_val (- 25, 2) = of_int m / 10 ^ (max (snd (5 :: int, 1 :: nat)) (snd (- 25 :: int, 2 :: nat)) + 20) \<longrightarrow>
        bd_val r = bd_val (5, 1) / bd_val (- 25, 2)) \<and>
      snd r \<le> max (snd (5 :: int, 1 :: nat)) (snd (- 25 :: int, 2 :: nat)) + 20 \<and> (snd r = 0 \<or> \<not> 10 dvd fst r)"
  then have "bd_val (5, 1) / bd_val (- 25, 2) = of_int (- 2 * 10 ^ 22) / 10 ^ (max (snd (5 :: int, 1 :: nat)) (snd (- 25 :: int, 2 :: nat)) + 20) \<longrightarrow>
      bd_val r = bd_val (5, 1) / bd_val (- 25, 2)" by blast
  then show "bd_val r = - 2" unfolding q by simp
qed

lemma bigdecimal_text_roundtrip_witness:
  "\<exists>s' p. bi_bigdecimal_to_string reference_arith [VBox BOX_KIND_BIGDECIMAL 0] decimal_state = Done (VStr p) s' \<and>
    yields_decimal s' (bi_string_to_bigdecimal reference_arith [VStr p]) (\<lambda>r. bd_val r = bd_val (5, 1) \<and> snd r = max 1 (snd (5 :: int, 1 :: nat)))"
proof -
  have "int64 5" by (simp add: int64_def INT64_MIN_def INT64_MAX_def)
  then have "length (dec 5) = 1" by (simp add: dec_def dec_nat.simps)
  then show ?thesis
    using bigdecimal_text_roundtrip [OF ref.gmp_spec_axioms decimal_state_at(1)] by (simp add: INT_MAX_def)
qed

lemma bigdecimal_scale_overflows_witness:
  "bi_bigdecimal_mul reference_arith [VBox BOX_KIND_BIGDECIMAL 2, VBox BOX_KIND_BIGDECIMAL 2] decimal_state = Stuck"
  by (rule bigdecimal_scale_overflows [OF decimal_state_at(3)])

end
