(* ===== verification/Text_Props.thy ===== *)
theory Text_Props
  imports Reader Writer Hash_Props
begin

text \<open>
  Writing and reading data as text.  \<open>datum_text d\<close> is the text of a datum, which \<open>write\<close> produces for every value that
  has the datum; \<open>readable\<close> says which data \<open>read\<close> gets back from their text.
\<close>

subsection \<open>Moving a port\<close>

definition port_at :: "vm \<Rightarrow> nat \<Rightarrow> bytes \<Rightarrow> bool" where
  "port_at s p bs \<longleftrightarrow> p < length (h_ports s) \<and> po_kind (h_ports s ! p) \<noteq> PORT_KIND_FILTER \<and>
     port_rest (h_ports s ! p) = bs"

definition moved :: "nat \<Rightarrow> bytes \<Rightarrow> vm \<Rightarrow> vm" where
  "moved p bs s = s\<lparr>h_ports := (h_ports s)[p := (h_ports s ! p)
     \<lparr>po_pos := length (po_buf (h_ports s ! p)) - length bs\<rparr>]\<rparr>"

lemma rest_of_run: "port_at s p bs \<Longrightarrow> rest_of p s = Done bs s"
  by (simp add: port_at_def rest_of_def)

lemma read_on_run: "port_at s p bs \<Longrightarrow> read_on p left s = Done () (moved p left s)"
  by (simp add: port_at_def read_on_def moved_def set_port_def)

lemma port_at_moved: "port_at s p (w @ bs) \<Longrightarrow> port_at (moved p bs s) p bs"
proof -
  assume at: "port_at s p (w @ bs)"
  let ?po = "h_ports s ! p"
  have rest: "drop (po_pos ?po) (po_buf ?po) = w @ bs" using at by (simp add: port_at_def port_rest_def)
  then have "length (po_buf ?po) - po_pos ?po = length w + length bs" by (metis length_append length_drop)
  then have "drop (length (po_buf ?po) - length bs) (po_buf ?po) = bs"
  proof (cases "w @ bs = []")
    case False
    then have "length (po_buf ?po) - length bs = length w + po_pos ?po"
      using \<open>length (po_buf ?po) - po_pos ?po = length w + length bs\<close> by (cases bs) (auto, cases w, auto)
    then show ?thesis using rest by (metis append_eq_conv_conj drop_drop)
  qed simp
  then show ?thesis using at by (simp add: port_at_def moved_def port_rest_def)
qed

lemma moved_simps [simp]:
  "h_pairs (moved p bs s) = h_pairs s" "h_vecs (moved p bs s) = h_vecs s" "h_strs (moved p bs s) = h_strs s"
  "h_bvs (moved p bs s) = h_bvs s"
  by (simp_all add: moved_def)

lemma port_at_other [simp]:
  "port_at (s\<lparr>h_pairs := ps\<rparr>) p bs = port_at s p bs" "port_at (s\<lparr>h_vecs := vs\<rparr>) p bs = port_at s p bs"
  "port_at (s\<lparr>h_strs := ss\<rparr>) p bs = port_at s p bs" "port_at (s\<lparr>h_bvs := bbs\<rparr>) p bs = port_at s p bs"
  by (simp_all add: port_at_def)

text \<open>A reader that takes a text off the port: whatever follows, it returns a value with the wanted property, and what was
  in the heap stays.\<close>

definition takes :: "nat \<Rightarrow> 'a M \<Rightarrow> bytes \<Rightarrow> bytes \<Rightarrow> ('a \<Rightarrow> vm \<Rightarrow> bool) \<Rightarrow> bool" where
  "takes p m w rest Q \<longleftrightarrow> (\<forall>s. port_at s p (w @ rest) \<longrightarrow>
     (\<exists>v s'. m s = Done v s' \<and> port_at s' p rest \<and> more_heap s s' \<and> Q v s'))"

lemma takesD:
  assumes "takes p m w rest Q" "port_at s p (w @ rest)"
  obtains v s' where "m s = Done v s'" "port_at s' p rest" "more_heap s s'" "Q v s'"
  using assms unfolding takes_def by blast

lemma takesI:
  assumes "\<And>s. port_at s p (w @ rest) \<Longrightarrow> \<exists>v s'. m s = Done v s' \<and> port_at s' p rest \<and> more_heap s s' \<and> Q v s'"
  shows "takes p m w rest Q"
  using assms unfolding takes_def by blast

lemma more_heap_trans: "more_heap s s' \<Longrightarrow> more_heap s' s'' \<Longrightarrow> more_heap s s''"
  by (auto simp: more_heap_def)

lemma more_heap_moved [simp]: "more_heap s (moved p bs s)"
  by (simp add: more_heap_def)

lemma takes_ret: "(\<And>s. Q v s) \<Longrightarrow> takes p (retM v) [] rest Q"
  by (rule takesI) auto

lemma takes_rest: "(\<And>bs. bs = w @ rest \<Longrightarrow> takes p (f bs) w rest Q) \<Longrightarrow> takes p (bindM (rest_of p) f) w rest Q"
proof (rule takesI)
  fix s
  assume *: "\<And>bs. bs = w @ rest \<Longrightarrow> takes p (f bs) w rest Q" and at: "port_at s p (w @ rest)"
  from takesD [OF *[OF refl] at] obtain v s' where "f (w @ rest) s = Done v s'" "port_at s' p rest" "more_heap s s'" "Q v s'" .
  then show "\<exists>v s'. bindM (rest_of p) f s = Done v s' \<and> port_at s' p rest \<and> more_heap s s' \<and> Q v s'"
    using rest_of_run [OF at] by auto
qed

lemma takes_on: "takes p m w' rest Q \<Longrightarrow> takes p (bindM (read_on p (w' @ rest)) (\<lambda>_. m)) (w @ w') rest Q"
proof (rule takesI)
  fix s
  assume m: "takes p m w' rest Q" and at: "port_at s p ((w @ w') @ rest)"
  then have "port_at (moved p (w' @ rest) s) p (w' @ rest)" by (auto intro: port_at_moved [of s p w])
  from takesD [OF m this] obtain v s' where "m (moved p (w' @ rest) s) = Done v s'" "port_at s' p rest"
    "more_heap (moved p (w' @ rest) s) s'" "Q v s'" .
  then show "\<exists>v s'. bindM (read_on p (w' @ rest)) (\<lambda>_. m) s = Done v s' \<and> port_at s' p rest \<and> more_heap s s' \<and> Q v s'"
    using read_on_run [OF at] more_heap_trans [OF more_heap_moved] by auto
qed

lemma takes_bind:
  assumes "takes p m w (w' @ rest) P"
    and "\<And>v s. port_at s p (w' @ rest) \<Longrightarrow> P v s \<Longrightarrow> \<exists>x s'. f v s = Done x s' \<and> port_at s' p rest \<and> more_heap s s' \<and> Q x s'"
  shows "takes p (bindM m f) (w @ w') rest Q"
proof (rule takesI)
  fix s
  assume "port_at s p ((w @ w') @ rest)"
  then have at: "port_at s p (w @ w' @ rest)" by simp
  from takesD [OF assms(1) at] obtain v s' where 1: "m s = Done v s'" "port_at s' p (w' @ rest)" "more_heap s s'" "P v s'" .
  from assms(2) [OF 1(2,4)] obtain x s'' where "f v s' = Done x s''" "port_at s'' p rest" "more_heap s' s''" "Q x s''" by blast
  with 1 more_heap_trans [OF 1(3)] show "\<exists>v s'. bindM m f s = Done v s' \<and> port_at s' p rest \<and> more_heap s s' \<and> Q v s'" by auto
qed

subsection \<open>The text of a datum\<close>

fun spine :: "datum \<Rightarrow> datum list \<times> datum" where
  "spine (DPair x y) = (let (ds, t) = spine y in (x # ds, t))"
| "spine d = ([], d)"

definition list_datum :: "datum list \<Rightarrow> datum \<Rightarrow> datum" where
  "list_datum ds t = foldr DPair ds t"

lemma spine_list: "spine d = (ds, t) \<Longrightarrow> d = list_datum ds t \<and> (\<forall>x y. t \<noteq> DPair x y)"
proof (induction d arbitrary: ds t)
  case (DPair x y)
  then show ?case by (auto simp: list_datum_def split: prod.splits)
qed (auto simp: list_datum_def)

lemma has_data_more: "list_all2 (has_datum s) vs ds \<Longrightarrow> more_heap s s' \<Longrightarrow> list_all2 (has_datum s') vs ds"
  by (erule list.rel_mono_strong) (rule has_datum_more)

lemma chain_list_datum:
  "chain (h_pairs s) v vs VNil \<Longrightarrow> list_all2 (has_datum s) vs ds \<Longrightarrow> has_datum s v (list_datum ds (DAtom VNil))"
proof (induction vs arbitrary: v ds)
  case Nil
  then show ?case by (simp add: list_datum_def has_datum_leaf)
next
  case (Cons x vs)
  then obtain d ds' where ds: "ds = d # ds'" "has_datum s x d" "list_all2 (has_datum s) vs ds'" by (auto simp: list_all2_Cons1)
  then show ?case using Cons.IH [of _ ds'] Cons.prems(1) by (cases v) (auto simp: list_datum_def has_datum_pair)
qed

lemma cons_list_datum:
  assumes "list_all2 (has_datum s) vs ds"
  shows "\<exists>v s'. cons_list vs VNil s = Done v s' \<and> more_heap s s' \<and> has_datum s' v (list_datum ds (DAtom VNil))"
proof -
  obtain v new where v: "cons_list vs VNil s = Done v (with_pairs s new)" "chain (h_pairs s @ new) v vs VNil"
    using cons_list_run by blast
  have "list_all2 (has_datum (with_pairs s new)) vs ds" using has_data_more [OF assms] by simp
  with v show ?thesis using chain_list_datum [of "with_pairs s new" v vs ds] by (auto simp: with_pairs_def)
qed

lemma spine_size: "(\<forall>x \<in> set (fst (spine d)). size x < size d) \<and> size (snd (spine d)) \<le> size d"
proof (induction d)
  case (DPair x y)
  then show ?case by (fastforce simp: Let_def split: prod.splits)
qed auto

fun atom_text :: "val \<Rightarrow> bytes" where
  "atom_text (VBool b) = (if b then ''#t'' else ''#f'')"
| "atom_text (VInt i) = dec i"
| "atom_text (VRational n d) = dec n @ ''/'' @ dec d"
| "atom_text (VSym cs) = write_symbol_literal cs"
| "atom_text (VChar c) = write_char_literal c"
| "atom_text v = ''()''"

function datum_text :: "datum \<Rightarrow> bytes" where
  "datum_text (DAtom v) = atom_text v"
| "datum_text (DText k bs) = (if k = 5 then write_string_literal bs
     else ''#u8('' @ separate '' '' (map (\<lambda>b. dec (of_char b)) bs) @ '')'')"
| "datum_text (DVector ds) = ''#('' @ separate '' '' (map datum_text ds) @ '')''"
| "datum_text (DPair x y) = (let ds = fst (spine y); t = snd (spine y) in
     ''('' @ separate '' '' (map datum_text (x # ds)) @ (if t = DAtom VNil then '')'' else '' . '' @ datum_text t @ '')''))"
  by pat_completeness auto
termination
proof (relation "measure size", goal_cases)
  case (3 x y ds t z)
  then show ?case using spine_size [of y] by (auto intro: less_trans simp: less_Suc_eq)
next
  case (4 x y ds t)
  then show ?case using spine_size [of y] by (simp add: le_imp_less_Suc)
qed (auto simp: less_Suc_eq_le size_list_estimation')

definition tail_text :: "datum list \<Rightarrow> datum \<Rightarrow> bytes" where
  "tail_text ds t = concat (map (\<lambda>d. '' '' @ datum_text d) ds) @
     (if t = DAtom VNil then '')'' else '' . '' @ datum_text t @ '')'')"

lemma text_separate_Cons: "separate sep (b # bs) = b @ concat (map (\<lambda>c. sep @ c) bs)"
  by (induction bs arbitrary: b) simp_all

lemma text_pair: "datum_text (DPair x y) = ''('' @ datum_text x @ tail_text (fst (spine y)) (snd (spine y))"
  by (simp add: text_separate_Cons tail_text_def Let_def comp_def)

declare datum_text.simps(4) [simp del]

text \<open>A symbol that is written as it is and read as a symbol; the reader does not know the bars of \<open>write\<close>.\<close>

definition plain_symbol :: "arith \<Rightarrow> bytes \<Rightarrow> bool" where
  "plain_symbol A cs \<longleftrightarrow> \<not> symbol_needs_pipe_escape cs \<and> length cs \<le> 255 \<and> hd cs \<noteq> CHR ''#'' \<and> cs \<noteq> ''.'' \<and>
     token_value A cs = TokVal (VSym cs)"

fun readable_atom :: "arith \<Rightarrow> val \<Rightarrow> bool" where
  "readable_atom A VNil = True"
| "readable_atom A (VBool b) = True"
| "readable_atom A (VInt i) = int64 i"
| "readable_atom A (VRational n d) = (int64 n \<and> int64 d \<and> 1 < d \<and> mpq_canonical (n, d))"
| "readable_atom A (VSym cs) = plain_symbol A cs"
| "readable_atom A (VChar c) = (0 \<le> c \<and> c \<le> 255)"
| "readable_atom A v = False"

fun readable :: "arith \<Rightarrow> datum \<Rightarrow> bool" where
  "readable A (DAtom v) = readable_atom A v"
| "readable A (DText k bs) = (k = 5 \<or> k = 9)"
| "readable A (DVector ds) = (\<forall>d \<in> set ds. readable A d)"
| "readable A (DPair x y) = (readable A x \<and> readable A y)"

lemma has_datum_atom: "readable_atom A v' \<Longrightarrow> has_datum s v (DAtom v') \<longleftrightarrow> v = v'"
proof
  assume "has_datum s v (DAtom v')" "readable_atom A v'"
  then show "v = v'" by (cases v; cases v') (auto simp: has_datum_iff has_datum_leaf split: if_splits)
next
  assume "readable_atom A v'" "v = v'"
  then show "has_datum s v (DAtom v')" by (cases v') (auto simp: has_datum_leaf)
qed

lemma spine_chain:
  "has_datum s v d \<Longrightarrow> \<exists>vs u. chain (h_pairs s) v vs u \<and> list_all2 (has_datum s) vs (fst (spine d)) \<and>
     has_datum s u (snd (spine d)) \<and> \<not> pair_val u"
proof (induction d arbitrary: v)
  case (DPair x y)
  then obtain p where p: "v = VPair p" using has_datum_inv(1) by blast
  then have *: "p < length (h_pairs s)" "has_datum s (fst (h_pairs s ! p)) x" "has_datum s (snd (h_pairs s ! p)) y"
    using DPair.prems by (auto simp: has_datum_pair)
  from DPair.IH(2) [OF *(3)] obtain vs u where "chain (h_pairs s) (snd (h_pairs s ! p)) vs u"
    "list_all2 (has_datum s) vs (fst (spine y))" "has_datum s u (snd (spine y))" "\<not> pair_val u" by blast
  with * p show ?case by (intro exI [of _ "fst (h_pairs s ! p) # vs"] exI [of _ u]) (auto simp: Let_def split: prod.splits)
next
  case (DAtom w)
  then have "\<not> pair_val v" by (cases v) (auto simp: has_datum_pair)
  with DAtom show ?case by (intro exI [of _ "[]"]) auto
next
  case (DText k bs)
  then have "\<not> pair_val v" by (cases v) (auto simp: has_datum_pair)
  with DText show ?case by (intro exI [of _ "[]"]) auto
next
  case (DVector ds)
  then have "\<not> pair_val v" by (cases v) (auto simp: has_datum_pair)
  with DVector.prems show ?case by (intro exI [of _ "[]"]) auto
qed

lemma spine_height: "(\<forall>x \<in> set (fst (spine d)). height x < height d) \<and> height (snd (spine d)) \<le> height d"
proof (induction d)
  case (DPair x y)
  then show ?case by (fastforce simp: Let_def split: prod.splits)
qed auto

lemma spine_readable: "readable A d \<Longrightarrow> (\<forall>x \<in> set (fst (spine d)). readable A x) \<and> readable A (snd (spine d))"
proof (induction d)
  case (DPair x y)
  obtain ds t where "spine y = (ds, t)" by fastforce
  moreover have "readable A x" "readable A y" using DPair.prems by simp_all
  ultimately show ?case using DPair.IH(2) by simp
qed auto

lemma mapM_texts:
  assumes "list_all2 (has_datum s) vs ds" "\<And>v d. d \<in> set ds \<Longrightarrow> has_datum s v d \<Longrightarrow> f v s = Done (datum_text d) s"
  shows "mapM f vs s = Done (map datum_text ds) s"
  using assms
proof (induction rule: list_all2_induct)
  case (Cons v vs d ds)
  then have "f v s = Done (datum_text d) s" "mapM f vs s = Done (map datum_text ds) s" by auto
  then show ?case by simp
qed simp

lemma display_turn: "display_text A v s = print_value (Suc (length (h_pairs s) + length (h_vecs s) + length (h_records s) + 2)) A v s"
  by (simp add: display_text_def numeral_3_eq_3)

lemma write_value_run:
  "has_datum s v d \<Longrightarrow> readable A d \<Longrightarrow> height d < n \<Longrightarrow> write_value n A v s = Done (datum_text d) s"
proof (induction n arbitrary: v d)
  case (Suc n)
  show ?case
  proof (cases d)
    case (DAtom w)
    then have "v = w" "readable_atom A w" using Suc.prems has_datum_atom by auto
    then show ?thesis using DAtom by (cases w) (simp_all add: display_turn)
  next
    case (DText k bs)
    then show ?thesis using has_datum_inv(3) [of s v k bs] Suc.prems(1) by (auto simp: has_datum_iff bindM_def)
  next
    case (DVector ds)
    then obtain p where p: "v = VVector p" using has_datum_inv(2) Suc.prems(1) by blast
    then have *: "p < length (h_vecs s)" "list_all2 (has_datum s) (h_vecs s ! p) ds"
      using DVector Suc.prems(1) by (auto simp: has_datum_vector)
    have "height d' < n" if "d' \<in> set ds" for d' using that Suc.prems(3) DVector by auto
    then have "mapM (write_value n A) (h_vecs s ! p) s = Done (map datum_text ds) s"
      using DVector Suc.prems(2) by (intro mapM_texts [OF *(2)] Suc.IH) auto
    then show ?thesis using p * DVector by (simp add: bindM_def)
  next
    case (DPair x y)
    then obtain p where p: "v = VPair p" using has_datum_inv(1) Suc.prems(1) by blast
    obtain vs u where c: "chain (h_pairs s) v vs u" "list_all2 (has_datum s) vs (fst (spine d))"
      "has_datum s u (snd (spine d))" "\<not> pair_val u" using spine_chain [OF Suc.prems(1)] by blast
    note h = spine_height [of d] and hy = spine_height [of y] and r = spine_readable [OF Suc.prems(2)]
    have items: "mapM (write_value n A) vs s = Done (map datum_text (fst (spine d))) s"
      by (rule mapM_texts [OF c(2)], rule Suc.IH) (use h r Suc.prems(3) in auto)
    have "snd (spine d) = snd (spine y)" using DPair by (simp add: Let_def split: prod.splits)
    then have "height (snd (spine d)) < n" using hy Suc.prems(3) DPair by simp
    then have tail: "write_value n A u s = Done (datum_text (snd (spine d))) s" using Suc.IH [OF c(3)] r by blast
    have "u = VNil \<longleftrightarrow> snd (spine d) = DAtom VNil"
    proof
      assume "u = VNil"
      then show "snd (spine d) = DAtom VNil" using c(3) by (simp add: has_datum_leaf)
    next
      assume "snd (spine d) = DAtom VNil"
      then show "u = VNil" using c(3) has_datum_atom [of A VNil s u] by simp
    qed
    then show ?thesis using items tail list_items_chain [OF c(1,4)] p DPair
      by (auto simp: bindM_def datum_text.simps(4) Let_def split: prod.splits)
  qed
qed simp

end
