(* ===== verification/Text_Read.thy ===== *)
theory Text_Read
  imports Text_Props Numeric_Props
begin

text \<open>
  The reader on the text of a datum: atoms, then lists, vectors and bytevectors by induction on the datum.  The
  fuel is bounded by the length of the text.
\<close>

definition delim_rest :: "bytes \<Rightarrow> bool" where
  "delim_rest rest \<longleftrightarrow> rest = [] \<or> is_delim (hd rest)"

lemma delim_rest_simps [simp]: "delim_rest []" "delim_rest (c # cs) \<longleftrightarrow> is_delim c"
  by (simp_all add: delim_rest_def)

lemma takes_weaken: "takes p m w rest P \<Longrightarrow> (\<And>v s. P v s \<Longrightarrow> Q v s) \<Longrightarrow> takes p m w rest Q"
  unfolding takes_def by blast

subsection \<open>Words and tokens\<close>

lemma takes_word:
  assumes "\<forall>c \<in> set w. \<not> is_delim c" "length w \<le> cap" "delim_rest rest"
  shows "takes p (read_word cap p) w rest (\<lambda>v s. v = w)"
proof -
  have "takeWhile (\<lambda>c. \<not> is_delim c) rest = []" using assms(3) by (cases rest) auto
  then have "takeWhile (\<lambda>c. \<not> is_delim c) (w @ rest) = w" using assms(1) by (simp add: takeWhile_append2)
  then have w: "take cap (takeWhile (\<lambda>c. \<not> is_delim c) (w @ rest)) = w" using assms(2) by simp
  have "takes p (bindM (read_on p ([] @ rest)) (\<lambda>_. retM w)) (w @ []) rest (\<lambda>v s. v = w)"
    by (rule takes_on, rule takes_ret) simp
  then show ?thesis unfolding read_word_def by (intro takes_rest) (simp add: w Let_def)
qed

lemma takes_token:
  assumes "\<forall>c \<in> set w. \<not> is_delim c" "length w \<le> 255" "delim_rest rest" "token_value A w = TokVal v"
  shows "takes p (read_token A p) w rest (\<lambda>x s. x = v)"
proof -
  have "takes p (read_token A p) (w @ []) rest (\<lambda>x s. x = v)"
    unfolding read_token_def
    by (rule takes_bind [where P = "\<lambda>x s. x = w"]) (use takes_word [OF assms(1-3)] assms(4) in auto)
  then show ?thesis by simp
qed

lemma no_nul: "CHR 0x00 \<notin> set w \<Longrightarrow> take (cstrlen w) w = w"
proof -
  assume "CHR 0x00 \<notin> set w"
  then have "takeWhile (\<lambda>c. c \<noteq> CHR 0x00) w = w" by (auto simp: takeWhile_eq_all_conv)
  then show ?thesis unfolding cstrlen_def by (simp only: take_all_iff order_refl)
qed

lemma dec_nat_digit: "c \<in> set (dec_nat n) \<Longrightarrow> is_digit c"
  using dec_nat_digits [of n] by (auto simp: list_all_iff)

lemma number_chars: "c \<in> set (dec i) \<Longrightarrow> is_digit c \<or> c = CHR ''-''"
  by (auto simp: dec_def dest: dec_nat_digit split: if_splits)

lemma number_char_plain: "is_digit c \<or> c = CHR ''-'' \<Longrightarrow> \<not> is_delim c \<and> c \<noteq> CHR 0x00 \<and> c \<noteq> CHR ''/'' \<and> \<not> is_blank c \<and>
    c \<noteq> CHR ''#'' \<and> c \<noteq> CHR ''.'' \<and> c \<noteq> CHR '';''"
  by (auto simp: is_digit_def is_delim_def is_blank_def)

lemma length_dec_nat: "n < 10 ^ Suc k \<Longrightarrow> length (dec_nat n) \<le> Suc k"
proof (induction k arbitrary: n)
  case 0
  then show ?case by (subst dec_nat.simps) simp
next
  case (Suc k)
  show ?case
  proof (cases "n < 10")
    case False
    have "n div 10 < 10 ^ Suc k" using Suc.prems by (simp add: less_mult_imp_div_less)
    from Suc.IH [OF this] False show ?thesis by (subst dec_nat.simps) simp
  qed (subst dec_nat.simps, simp)
qed

lemma length_dec: "int64 i \<Longrightarrow> length (dec i) \<le> 20"
proof -
  assume "int64 i"
  then have "nat i < 10 ^ Suc 18" "nat (- i) < 10 ^ Suc 18" by (auto simp: int64_def INT64_MIN_def INT64_MAX_def)
  from this [THEN length_dec_nat] show ?thesis by (auto simp: dec_def)
qed

lemma clamp_int64: "int64 i \<Longrightarrow> clamp64 i = i"
  by (simp add: int64_def INT64_MIN_def INT64_MAX_def clamp64_def)

lemma token_integer: "int64 i \<Longrightarrow> token_value A (dec i) = TokVal (VInt i)"
proof -
  assume i: "int64 i"
  have "CHR 0x00 \<notin> set (dec i)" using number_chars number_char_plain by blast
  with i show ?thesis using scan_dec [of "[]" i] by (simp add: token_value_def no_nul clamp_int64)
qed

lemma token_rational:
  assumes "gmp_spec A" "int64 n" "int64 d" "1 < d" "mpq_canonical (n, d)"
  shows "token_value A (dec n @ ''/'' @ dec d) = TokVal (VRational n d)"
proof -
  let ?w = "dec n @ ''/'' @ dec d"
  have nul: "CHR 0x00 \<notin> set ?w" using number_chars number_char_plain by auto
  have slash: "takeWhile (\<lambda>c. c \<noteq> CHR ''/'') ?w = dec n"
    using number_chars [of _ n] number_char_plain by (auto simp: takeWhile_append2)
  have no_digit: "\<not> is_digit (CHR ''/'')" by (simp add: is_digit_def)
  have scan: "scan_integer 10 ?w = Some (n, ''/'' @ dec d)" "scan_integer 10 (dec d) = Some (d, [])"
    using scan_dec [of "''/'' @ dec d" n] scan_dec [of "[]" d] no_digit by simp_all
  have canon: "mpq_canonicalize A (n, d) = (n, d)"
    using gmp_spec.canonicalize_law [OF assms(1), of "(n, d)"] assms(4,5) mpq_val_inject by auto
  have "make_rational_from_mpq A (n, d) = VRational n d"
    using canon assms(4) gmp_spec.zcmp_law [OF assms(1), of d 1] by (simp add: make_rational_from_mpq_def)
  then have "rational_token A ?w = Some (TokVal (VRational n d))"
    using slash scan canon assms(2-4)
    by (simp add: rational_token_def Let_def strtoll_def clamp_int64 INT64_MIN_def)
  then show ?thesis using scan(1) no_nul [OF nul] by (simp add: token_value_def)
qed

subsection \<open>Strings and characters\<close>

lemma string_chars: "string_body (concat (map string_char cs) @ CHR 0x22 # rest) = Literal cs rest"
proof (induction cs)
  case (Cons c cs)
  show ?case
  proof (cases "c \<in> {CHR 0x22, CHR 0x5C, CHR 0x0A, CHR 0x09, CHR 0x0D}")
    case True
    then show ?thesis using Cons by (auto simp: escape_char_def)
  next
    case False
    then show ?thesis using Cons by simp
  qed
qed simp

lemma takes_string:
  "takes p (read_string_literal p) (write_string_literal cs) rest (\<lambda>v s. has_datum s v (DText 5 cs))"
proof (rule takesI)
  fix s
  assume at: "port_at s p (write_string_literal cs @ rest)"
  let ?t = "moved p rest s"
  have "read_string_literal p s = Done (VStr (length (h_strs s))) (?t\<lparr>h_strs := h_strs s @ [cs]\<rparr>)"
    using rest_of_run [OF at] read_on_run [OF at, of rest]
    by (simp add: read_string_literal_def write_string_literal_def string_chars)
  moreover have "port_at (?t\<lparr>h_strs := h_strs s @ [cs]\<rparr>) p rest" using port_at_moved [OF at] by simp
  moreover have "more_heap s (?t\<lparr>h_strs := h_strs s @ [cs]\<rparr>)" by (simp add: more_heap_def)
  ultimately show "\<exists>v s'. read_string_literal p s = Done v s' \<and> port_at s' p rest \<and> more_heap s s' \<and> has_datum s' v (DText 5 cs)"
    by (auto simp: has_datum_str)
qed

lemma takes_skip: "takes p (skip p (length w)) w rest (\<lambda>v s. True)"
proof -
  have "takes p (bindM (rest_of p) (\<lambda>bs. read_on p (drop (length w) bs))) w rest (\<lambda>v s. True)"
    by (rule takes_rest) (use takes_on [of p "retM ()" "[]" rest "\<lambda>v s. True" w] takes_ret in \<open>auto simp: takes_def\<close>)
  then show ?thesis by (simp add: skip_def)
qed

lemma takes_next: "takes p (read_next p) [c] rest (\<lambda>v s. v = Some c)"
proof -
  have "takes p (bindM (read_on p ([] @ rest)) (\<lambda>_. retM (Some c))) ([c] @ []) rest (\<lambda>v s. v = Some c)"
    by (rule takes_on, rule takes_ret) simp
  then show ?thesis unfolding read_next_def by (intro takes_rest) simp
qed

lemma takes_seq:
  assumes "takes p m w (w' @ rest) P" "\<And>v. takes p (f v) w' rest Q"
  shows "takes p (bindM m f) (w @ w') rest Q"
proof (rule takes_bind [OF assms(1)])
  fix v s
  assume "port_at s p (w' @ rest)"
  then show "\<exists>x s'. f v s = Done x s' \<and> port_at s' p rest \<and> more_heap s s' \<and> Q x s'"
    using takesD [OF assms(2)] by metis
qed

lemma takes_bool: "delim_rest rest \<Longrightarrow>
    takes p (bindM (read_on p (dropWhile (\<lambda>d. \<not> is_delim d) (w @ rest))) (\<lambda>_. retM (VBool b))) (c # w) rest (\<lambda>v s. v = VBool b)"
  if "\<forall>d \<in> set w. \<not> is_delim d" for w
proof -
  assume rest: "delim_rest rest"
  have "dropWhile (\<lambda>d. \<not> is_delim d) rest = rest" using rest by (cases rest) auto
  then have "dropWhile (\<lambda>d. \<not> is_delim d) (w @ rest) = [] @ rest" using that by (simp add: dropWhile_append2)
  then show ?thesis using takes_on [OF takes_ret [of "\<lambda>v s. v = VBool b" "VBool b" p rest], where w = "c # w"] by simp
qed

lemma char_literal_text:
  assumes "0 \<le> n" "n \<le> 255"
  obtains c w where "write_char_literal n = CHR ''#'' # CHR 0x5C # c # w" "list_all (\<lambda>d. \<not> is_delim d) w" "length w \<le> 30"
    "char_literal c w = retM (VChar n)"
proof (cases "n \<in> {32, 10, 9, 13, 0}")
  case True
  note defs = write_char_literal_def char_literal_def is_delim_def cstrlen_def char_names_def strcaseeq_def c_tolower_def c_isupper_def
  from True consider "n = 32" | "n = 10" | "n = 9" | "n = 13" | "n = 0" by blast
  then show ?thesis
  proof cases
    case 1 then show ?thesis by (intro that [of "CHR ''s''" "''pace''"]) (simp_all add: defs)
  next
    case 2 then show ?thesis by (intro that [of "CHR ''n''" "''ewline''"]) (simp_all add: defs)
  next
    case 3 then show ?thesis by (intro that [of "CHR ''t''" "''ab''"]) (simp_all add: defs)
  next
    case 4 then show ?thesis by (intro that [of "CHR ''r''" "''eturn''"]) (simp_all add: defs)
  next
    case 5 then show ?thesis by (intro that [of "CHR ''n''" "''ull''"]) (simp_all add: defs)
  qed
next
  case False
  have "(of_char (char_of n :: char) :: int) = n" using assms by (simp add: of_char_of)
  with False show ?thesis by (intro that [of "char_of n" "[]"]) (auto simp: write_char_literal_def char_literal_def)
qed

lemma takes_char:
  assumes "0 \<le> n" "n \<le> 255" "delim_rest rest"
  shows "takes p (read_char_literal p) (write_char_literal n) rest (\<lambda>v s. v = VChar n)"
proof -
  from char_literal_text [OF assms(1,2)] obtain c w where
    w: "write_char_literal n = [CHR ''#'', CHR 0x5C] @ [c] @ w @ []" "list_all (\<lambda>d. \<not> is_delim d) w" "length w \<le> 30"
      "char_literal c w = retM (VChar n)" by auto
  have skip: "takes p (skip p 2) [CHR ''#'', CHR 0x5C] (([c] @ w @ []) @ rest) (\<lambda>v s. True)"
    using takes_skip [of p "[CHR ''#'', CHR 0x5C]"] by (simp add: numeral_2_eq_2)
  have word: "takes p (bindM (read_word 30 p) (char_literal c)) (w @ []) rest (\<lambda>v s. v = VChar n)"
    by (rule takes_bind [where P = "\<lambda>v s. v = w"]) (use takes_word [OF _ w(3)] w(2,4) assms(3) in \<open>auto simp: list_all_iff\<close>)
  show ?thesis unfolding read_char_literal_def w(1)
  proof (rule takes_seq [OF skip])
    show "takes p (bindM (read_next p) (\<lambda>first. case first of None \<Rightarrow> creme_abort ''read: unterminated char literal''
        | Some c \<Rightarrow> bindM (read_word 30 p) (char_literal c))) ([c] @ w @ []) rest (\<lambda>v s. v = VChar n)"
      by (rule takes_bind [where P = "\<lambda>v s. v = Some c"]) (use takes_next word in \<open>auto simp: takes_def\<close>)
  qed
qed

subsection \<open>White space\<close>

definition ws_stop :: "bytes \<Rightarrow> bool" where
  "ws_stop bs \<longleftrightarrow> (case bs of [] \<Rightarrow> True | c # cs \<Rightarrow> \<not> is_blank c \<and> c \<noteq> CHR '';'' \<and>
     (c = CHR ''#'' \<longrightarrow> cs \<noteq> [] \<and> hd cs \<noteq> CHR ''|'' \<and> hd cs \<noteq> CHR '';''))"

lemma skip_ws_stop: "ws_stop bs \<Longrightarrow> 0 < n \<Longrightarrow> takes p (read_skip_ws n A p) [] bs (\<lambda>v s. True)"
proof -
  assume stop: "ws_stop bs" and "0 < n"
  then obtain m where n: "n = Suc m" by (cases n) auto
  have "takes p (retM ()) [] bs (\<lambda>v s. True)" by (rule takes_ret) simp
  then show ?thesis unfolding n read_skip_ws.simps read_skip_ws_body_def
    by (intro takes_rest, cases bs) (use stop in \<open>auto simp: ws_stop_def\<close>)
qed

lemma skip_ws:
  assumes "ws_stop bs" "pre = [] \<or> pre = '' ''" "length pre < n"
  shows "takes p (read_skip_ws n A p) pre bs (\<lambda>v s. True)"
proof (cases "pre = []")
  case False
  then have pre: "pre = '' '' @ []" "1 < n" using assms(2,3) by auto
  then obtain m where m: "n = Suc m" "0 < m" by (cases n) auto
  have "takes p (bindM (read_on p ([] @ bs)) (\<lambda>_. read_skip_ws m A p)) ('' '' @ []) bs (\<lambda>v s. True)"
    by (rule takes_on, rule skip_ws_stop [OF assms(1) m(2)])
  then show ?thesis unfolding pre(1) m(1) read_skip_ws.simps read_skip_ws_body_def
    by (intro takes_rest) (simp add: is_blank_def)
qed (use skip_ws_stop assms in auto)

text \<open>Whatever a datum starts with, a blank before it is skipped first.\<close>

lemma datum_entry:
  assumes "ws_stop (w @ rest)" "pre = [] \<or> pre = '' ''" "length pre < n"
    and "takes p (read_datum_at A (read_list n A) (read_datum_text n A) p (w @ rest)) w rest Q"
  shows "takes p (read_datum_text (Suc n) A p) (pre @ w) rest Q"
  unfolding read_datum_text.simps read_datum_body_def
  by (rule takes_seq [OF skip_ws [OF assms(1-3)]], rule takes_rest) (use assms(4) in simp)

lemma list_entry:
  assumes "ws_stop (w @ rest)" "pre = [] \<or> pre = '' ''" "length pre < n"
    and "takes p (read_list_at (read_skip_ws n A) (read_list n A) (read_datum_text n A) p close (w @ rest)) w rest Q"
  shows "takes p (read_list (Suc n) A p close) (pre @ w) rest Q"
  unfolding read_list.simps read_list_body_def
  by (rule takes_seq [OF skip_ws [OF assms(1-3)]], rule takes_rest) (use assms(4) in simp)

subsection \<open>Data\<close>

definition reads :: "arith \<Rightarrow> datum \<Rightarrow> bool" where
  "reads A d \<longleftrightarrow> (\<forall>p n pre rest. (pre = [] \<or> pre = '' '') \<longrightarrow> delim_rest rest \<longrightarrow> 2 * length (datum_text d) < n \<longrightarrow>
     takes p (read_datum_text n A p) (pre @ datum_text d) rest (\<lambda>v s. has_datum s v d))"

text \<open>How the text of a datum starts.\<close>

definition starts_datum :: "bytes \<Rightarrow> bool" where
  "starts_datum w \<longleftrightarrow> w \<noteq> [] \<and> \<not> is_blank (hd w) \<and> hd w \<noteq> CHR '';'' \<and> hd w \<noteq> CHR '')'' \<and> hd w \<noteq> CHR '']'' \<and>
     (hd w = CHR ''#'' \<longrightarrow> tl w \<noteq> [] \<and> hd (tl w) \<noteq> CHR ''|'' \<and> hd (tl w) \<noteq> CHR '';'') \<and>
     (hd w = CHR ''.'' \<longrightarrow> tl w \<noteq> [] \<and> \<not> is_delim (hd (tl w)))"

lemma starts_ws: "starts_datum w \<Longrightarrow> ws_stop (w @ rest)"
  by (cases w) (auto simp: starts_datum_def ws_stop_def hd_append)

lemma pipe_char_delim: "is_delim c \<Longrightarrow> pipe_char c"
  by (auto simp: is_delim_def pipe_char_def)

lemma plain_symbolD:
  assumes "plain_symbol A cs"
  shows "cs \<noteq> []" "\<forall>c \<in> set cs. \<not> is_delim c \<and> \<not> is_blank c" "write_symbol_literal cs = cs"
proof -
  have no: "\<not> symbol_needs_pipe_escape cs" using assms by (simp add: plain_symbol_def)
  then show "cs \<noteq> []" "write_symbol_literal cs = cs" by (auto simp: symbol_needs_pipe_escape_def write_symbol_literal_def)
  from no have "\<forall>c \<in> set cs. \<not> pipe_char c" by (auto simp: symbol_needs_pipe_escape_def list_ex_iff)
  then show "\<forall>c \<in> set cs. \<not> is_delim c \<and> \<not> is_blank c"
    using pipe_char_delim by (auto simp: is_blank_def is_delim_def)
qed

lemma dec_starts: "\<exists>c cs. dec i = c # cs \<and> (is_digit c \<or> c = CHR ''-'')"
  using number_chars [of "hd (dec i)" i] by (cases "dec i") auto

lemma atom_starts: "readable_atom A v \<Longrightarrow> starts_datum (atom_text v)"
proof (cases v)
  case (VInt i)
  then show ?thesis using dec_starts [of i] number_char_plain by (force simp: starts_datum_def is_delim_def)
next
  case (VRational n d)
  then show ?thesis using dec_starts [of n] number_char_plain by (force simp: starts_datum_def is_delim_def)
next
  case (VSym cs)
  assume "readable_atom A v"
  then have "plain_symbol A cs" using VSym by simp
  note s = plain_symbolD [OF this] and this
  then show ?thesis using VSym by (cases cs; cases "tl cs") (auto simp: starts_datum_def plain_symbol_def is_delim_def)
qed (auto simp: starts_datum_def is_blank_def write_char_literal_def)

lemma text_starts: "readable A d \<Longrightarrow> starts_datum (datum_text d)"
  by (cases d) (auto simp: text_pair write_string_literal_def atom_starts, auto simp: starts_datum_def is_blank_def)

lemma takes_datum_seq:
  assumes "takes p m w (w' @ rest) (\<lambda>v s. has_datum s v d)" "\<And>v. takes p (f v) w' rest (R v)"
    and "\<And>v x s. has_datum s v d \<Longrightarrow> R v x s \<Longrightarrow> Q x s"
  shows "takes p (bindM m f) (w @ w') rest Q"
proof (rule takes_bind [OF assms(1)])
  fix v s
  assume at: "port_at s p (w' @ rest)" and v: "has_datum s v d"
  from takesD [OF assms(2) at] obtain x s' where "f v s = Done x s'" "port_at s' p rest" "more_heap s s'" "R v x s'" .
  with has_datum_more [OF _ v] assms(3) show "\<exists>x s'. f v s = Done x s' \<and> port_at s' p rest \<and> more_heap s s' \<and> Q x s'"
    by blast
qed

lemma takes_cons:
  assumes "takes p m w rest (\<lambda>v s. has_datum s v y)"
  shows "takes p (bindM m (\<lambda>r. creme_cons v r)) w rest (\<lambda>r s. \<forall>x. has_datum s v x \<longrightarrow> has_datum s r (DPair x y))"
proof (rule takesI)
  fix s
  assume "port_at s p (w @ rest)"
  from takesD [OF assms this] obtain r s' where r: "m s = Done r s'" "port_at s' p rest" "more_heap s s'" "has_datum s' r y" .
  let ?t = "s'\<lparr>h_pairs := h_pairs s' @ [(v, r)]\<rparr>"
  have more: "more_heap s' ?t" by simp
  have "has_datum ?t (VPair (length (h_pairs s'))) (DPair x y)" if "has_datum ?t v x" for x
    using that has_datum_more [OF more r(4)] by (simp add: has_datum_pair)
  then show "\<exists>r s'. bindM m (\<lambda>r. creme_cons v r) s = Done r s' \<and> port_at s' p rest \<and> more_heap s s' \<and>
      (\<forall>x. has_datum s' v x \<longrightarrow> has_datum s' r (DPair x y))"
    using r more more_heap_trans [OF r(3) more] by (auto simp: bindM_def)
qed

lemma list_item:
  assumes "starts_datum w"
  shows "read_list_at ws lst datum p (CHR '')'') (w @ bs) = bindM (datum p) (\<lambda>head. bindM (lst p (CHR '')'')) (\<lambda>rest. creme_cons head rest))"
  using assms by (cases w) (auto simp: read_list_at_def starts_datum_def hd_append)

lemma takes_item:
  assumes "starts_datum w" "takes p (datum p) w (w' @ rest) (\<lambda>v s. has_datum s v x)"
    "takes p (lst p (CHR '')'')) w' rest (\<lambda>v s. has_datum s v y)"
  shows "takes p (read_list_at ws lst datum p (CHR '')'') ((w @ w') @ rest)) (w @ w') rest (\<lambda>v s. has_datum s v (DPair x y))"
proof -
  have "takes p (bindM (datum p) (\<lambda>head. bindM (lst p (CHR '')'')) (\<lambda>rest. creme_cons head rest))) (w @ w') rest
      (\<lambda>v s. has_datum s v (DPair x y))"
    by (rule takes_datum_seq [OF assms(2) takes_cons [OF assms(3)]]) blast
  then show ?thesis using list_item [OF assms(1), of ws lst datum p "w' @ rest"] by simp
qed

lemma tail_delim: "delim_rest (tail_text ds t @ rest)"
  by (cases ds) (auto simp: tail_text_def is_delim_def)

lemma tail_length: "0 < length (tail_text ds t)"
  by (cases ds) (auto simp: tail_text_def)

lemma takes_list_item:
  assumes "reads A x" "readable A x" "\<And>m. 2 * length u \<le> m \<Longrightarrow> takes p (read_list m A p (CHR '')'')) u rest (\<lambda>v s. has_datum s v y)"
    "u = tail_text ds t" "pre = [] \<or> pre = '' ''" "2 * length (pre @ datum_text x @ u) \<le> n"
  shows "takes p (read_list n A p (CHR '')'')) (pre @ datum_text x @ u) rest (\<lambda>v s. has_datum s v (DPair x y))"
proof -
  have start: "starts_datum (datum_text x)" using text_starts [OF assms(2)] .
  then have len: "0 < length u" "0 < length (datum_text x)" using tail_length [of ds t] assms(4) by (auto simp: starts_datum_def)
  then obtain m where m: "n = Suc m" using assms(6) by (cases n) auto
  have bound: "2 * length pre + 2 * length (datum_text x) + 2 * length u \<le> Suc m" "length pre \<le> 1"
    using m assms(5,6) by auto
  have fuel: "2 * length (datum_text x) < m" using len bound by linarith
  have fuel': "2 * length u \<le> m" using len bound by linarith
  have fuel'': "length pre < m" using len bound by linarith
  have "takes p (read_datum_text m A p) ([] @ datum_text x) (u @ rest) (\<lambda>v s. has_datum s v x)"
    using assms(1) fuel tail_delim [of ds t rest] assms(4) unfolding reads_def by blast
  then have item: "takes p (read_datum_text m A p) (datum_text x) (u @ rest) (\<lambda>v s. has_datum s v x)" by simp
  show ?thesis
    unfolding m(1)
    by (rule list_entry [OF _ assms(5) fuel'' takes_item [where datum = "read_datum_text m A" and lst = "read_list m A",
       OF start item assms(3) [OF fuel']]])
      (use starts_ws [OF start] in simp)
qed

lemma takes_tail:
  assumes "\<forall>d \<in> set ds. reads A d \<and> readable A d" "t \<noteq> DAtom VNil \<Longrightarrow> reads A t" "2 * length (tail_text ds t) \<le> n"
  shows "takes p (read_list n A p (CHR '')'')) (tail_text ds t) rest (\<lambda>v s. has_datum s v (list_datum ds t))"
  using assms(1,3)
proof (induction ds arbitrary: n)
  case Nil
  then have "2 \<le> n" using tail_length [of "[]" t] by linarith
  then obtain m where m: "n = Suc m" "0 < m" by (cases n) auto
  have stop: "ws_stop (CHR '')'' # bs)" for bs by (simp add: ws_stop_def is_blank_def)
  show ?case
  proof (cases "t = DAtom VNil")
    case True
    have "takes p (bindM (read_on p ([] @ rest)) (\<lambda>_. retM VNil)) ('')'' @ []) rest (\<lambda>v s. has_datum s v (DAtom VNil))"
      by (rule takes_on, rule takes_ret) (simp add: has_datum_leaf)
    then have "takes p (read_list n A p (CHR '')'')) ([] @ '')'') rest (\<lambda>v s. has_datum s v (DAtom VNil))"
      unfolding m(1) by (intro list_entry) (use stop m in \<open>simp_all add: read_list_at_def\<close>)
    then show ?thesis using True by (simp add: tail_text_def list_datum_def)
  next
    case False
    let ?w = "('' '' @ datum_text t) @ [] @ '')''"
    have "2 * (length (datum_text t) + 4) \<le> Suc m" using Nil False m by (simp add: tail_text_def)
    then have fuel: "2 * length (datum_text t) < m" "1 < m" by auto
    have datum: "takes p (read_datum_text m A p) ('' '' @ datum_text t) (([] @ '')'') @ rest) (\<lambda>v s. has_datum s v t)"
      using assms(2) [OF False] fuel(1) unfolding reads_def by (simp add: is_delim_def)
    have close: "takes p (bindM (read_skip_ws m A p) (\<lambda>_. bindM (read_peek p) (\<lambda>c'.
        if c' = Some (CHR '')'') then bindM (read_next p) (\<lambda>_. retM tail)
        else creme_abort ''read: malformed dotted list''))) ([] @ '')'') rest (\<lambda>v s. v = tail)" for tail
    proof (rule takes_seq)
      show "takes p (read_skip_ws m A p) [] ('')'' @ rest) (\<lambda>v s. True)" using skip_ws_stop [of "'')'' @ rest"] stop m by simp
      have "takes p (bindM (read_next p) (\<lambda>_. retM tail)) ('')'' @ []) rest (\<lambda>v s. v = tail)"
        by (rule takes_seq [OF takes_next [of p "CHR '')''" "[] @ rest"]], rule takes_ret) simp
      then show "takes p (bindM (read_peek p) (\<lambda>c'. if c' = Some (CHR '')'') then bindM (read_next p) (\<lambda>_. retM tail)
          else creme_abort ''read: malformed dotted list'')) '')'' rest (\<lambda>v s. v = tail)"
        using rest_of_run by (fastforce simp: takes_def read_peek_def bindM_assoc)
    qed
    have "takes p (bindM (read_on p (?w @ rest)) (\<lambda>_. bindM (read_datum_text m A p) (\<lambda>tail.
        bindM (read_skip_ws m A p) (\<lambda>_. bindM (read_peek p) (\<lambda>c'.
        if c' = Some (CHR '')'') then bindM (read_next p) (\<lambda>_. retM tail)
        else creme_abort ''read: malformed dotted list''))))) (''.'' @ ?w) rest (\<lambda>v s. has_datum s v t)"
      by (rule takes_on, rule takes_datum_seq [OF datum close]) simp
    then have "takes p (read_list n A p (CHR '')'')) ('' '' @ ''.'' @ ?w) rest (\<lambda>v s. has_datum s v t)"
      unfolding m(1) by (intro list_entry) (use m fuel in \<open>auto simp: read_list_at_def ws_stop_def is_blank_def is_delim_def tail_text_def\<close>)
    then show ?thesis using False by (simp add: tail_text_def list_datum_def)
  qed
next
  case (Cons d ds)
  have tail: "tail_text (d # ds) t = '' '' @ datum_text d @ tail_text ds t" by (simp add: tail_text_def)
  have IH: "takes p (read_list m A p (CHR '')'')) (tail_text ds t) rest (\<lambda>v s. has_datum s v (list_datum ds t))"
    if "2 * length (tail_text ds t) \<le> m" for m using Cons.IH that Cons.prems(1) by simp
  have "takes p (read_list n A p (CHR '')'')) ('' '' @ datum_text d @ tail_text ds t) rest (\<lambda>v s. has_datum s v (DPair d (list_datum ds t)))"
    by (rule takes_list_item [OF _ _ IH refl]) (use Cons.prems tail in auto)
  then show ?case unfolding tail by (simp add: list_datum_def)
qed

lemma datum_token:
  assumes "w \<noteq> []" "\<not> is_delim (hd w)" "hd w \<noteq> CHR ''#''"
  shows "read_datum_at A l d p (w @ rest) = read_token A p"
  using assms by (cases w) (auto simp: read_datum_at_def is_delim_def)

lemma reads_token:
  assumes "\<forall>c \<in> set w. \<not> is_delim c" "length w \<le> 255" "token_value A w = TokVal v" "hd w \<noteq> CHR ''#''"
    "atom_text v = w" "readable_atom A v" 
  shows "reads A (DAtom v)"
  unfolding reads_def
proof (intro allI impI)
  fix p n pre rest
  assume *: "pre = [] \<or> pre = '' ''" "delim_rest rest" "2 * length (datum_text (DAtom v)) < n"
  have w: "starts_datum w" using atom_starts assms(5,6) by blast
  then have w0: "w \<noteq> []" "0 < length w" by (auto simp: starts_datum_def)
  obtain m where n: "n = Suc m" using *(3) by (cases n) auto
  have "length pre < m" using w0(2) *(1,3) n assms(5) by (elim disjE; simp; linarith)
  note m = n this
  have "takes p (read_token A p) w rest (\<lambda>x s. has_datum s x (DAtom v))"
    by (rule takes_weaken [OF takes_token [OF assms(1,2) *(2) assms(3)]]) (simp add: has_datum_atom [OF assms(6)])
  then show "takes p (read_datum_text n A p) (pre @ datum_text (DAtom v)) rest (\<lambda>x s. has_datum s x (DAtom v))"
    unfolding m(1) datum_text.simps assms(5)
    by (intro datum_entry starts_ws [OF w] *(1) m(2)) (use assms(1,4) w0 in \<open>simp add: datum_token\<close>)
qed

lemma reads_hash:
  assumes "datum_text d = CHR ''#'' # c # w" "readable A d"
    and "\<And>p n rest. delim_rest rest \<Longrightarrow> 2 * Suc (Suc (length w)) \<le> n \<Longrightarrow>
      takes p (read_hash_body (read_list n A) p) (CHR ''#'' # c # w) rest (\<lambda>v s. has_datum s v d)"
  shows "reads A d"
  unfolding reads_def
proof (intro allI impI)
  fix p n pre rest
  assume *: "pre = [] \<or> pre = '' ''" "delim_rest rest" "2 * length (datum_text d) < n"
  have w: "starts_datum (datum_text d)" using text_starts [OF assms(2)] .
  obtain m where m: "n = Suc m" "length pre < m" "2 * Suc (Suc (length w)) \<le> m" using *(1,3) assms(1) by (cases n) auto
  show "takes p (read_datum_text n A p) (pre @ datum_text d) rest (\<lambda>v s. has_datum s v d)"
    unfolding m(1)
    by (intro datum_entry starts_ws [OF w] *(1) m(2)) (use assms(1) assms(3) [OF *(2) m(3)] in \<open>simp add: read_datum_at_def\<close>)
qed

lemma reads_start:
  assumes "readable A d" "datum_text d \<noteq> []"
    and "\<And>p n rest. delim_rest rest \<Longrightarrow> 2 * length (datum_text d) \<le> n \<Longrightarrow>
      takes p (read_datum_at A (read_list n A) (read_datum_text n A) p (datum_text d @ rest)) (datum_text d) rest
        (\<lambda>v s. has_datum s v d)"
  shows "reads A d"
  unfolding reads_def
proof (intro allI impI)
  fix p n pre rest
  assume *: "pre = [] \<or> pre = '' ''" "delim_rest rest" "2 * length (datum_text d) < n"
  obtain m where n: "n = Suc m" using *(3) by (cases n) auto
  have len: "0 < length (datum_text d)" "length pre \<le> 1" "2 * length (datum_text d) \<le> m" using *(1,3) n assms(2) by auto
  then have "length pre < m" by linarith
  then show "takes p (read_datum_text n A p) (pre @ datum_text d) rest (\<lambda>v s. has_datum s v d)"
    unfolding n by (intro datum_entry starts_ws [OF text_starts [OF assms(1)]] *(1) assms(3) [OF *(2) len(3)])
qed

lemma reads_paren:
  assumes "datum_text d = CHR ''('' # body" "readable A d"
    and "\<And>p n rest. 2 * length body \<le> n \<Longrightarrow> takes p (read_list n A p (CHR '')'')) body rest (\<lambda>v s. has_datum s v d)"
  shows "reads A d"
proof (rule reads_start [OF assms(2)])
  fix p n rest
  assume "2 * length (datum_text d) \<le> n"
  then have "takes p (read_list n A p (CHR '')'')) body rest (\<lambda>v s. has_datum s v d)" using assms(1) by (intro assms(3)) simp
  then have "takes p (bindM (read_on p (body @ rest)) (\<lambda>_. read_list n A p (CHR '')''))) (''('' @ body) rest (\<lambda>v s. has_datum s v d)"
    by (rule takes_on)
  then show "takes p (read_datum_at A (read_list n A) (read_datum_text n A) p (datum_text d @ rest)) (datum_text d) rest
      (\<lambda>v s. has_datum s v d)" using assms(1) by (simp add: read_datum_at_def)
qed (use assms(1) in simp)

lemma list_datum_items:
  assumes "has_datum s l (list_datum ds (DAtom VNil))"
  shows "\<exists>vs. list_items l s = Done (vs, VNil) s \<and> list_all2 (has_datum s) vs ds"
proof -
  have "spine (list_datum ds (DAtom VNil)) = (ds, DAtom VNil)" by (induction ds) (simp_all add: list_datum_def)
  with spine_chain [OF assms] obtain vs u where c: "chain (h_pairs s) l vs u" "list_all2 (has_datum s) vs ds"
    "has_datum s u (DAtom VNil)" "\<not> pair_val u" by auto
  have "u = VNil" using c(3) has_datum_atom [of reference_arith VNil s u] by simp
  with list_items_chain [OF c(1,4)] c(2) show ?thesis by blast
qed

text \<open>The list inside a vector or a bytevector.\<close>

definition items_text :: "datum list \<Rightarrow> bytes" where
  "items_text ds = separate '' '' (map datum_text ds) @ '')''"

lemma takes_items:
  assumes "\<forall>d \<in> set ds. reads A d \<and> readable A d" "2 * length (items_text ds) \<le> n"
  shows "takes p (read_list n A p (CHR '')'')) (items_text ds) rest (\<lambda>v s. has_datum s v (list_datum ds (DAtom VNil)))"
proof (cases ds)
  case Nil
  then have "items_text ds = tail_text ds (DAtom VNil)" by (simp add: items_text_def tail_text_def)
  then show ?thesis using takes_tail [OF assms(1), of "DAtom VNil" n p rest] assms(2) by simp
next
  case (Cons x xs)
  have split: "items_text ds = [] @ datum_text x @ tail_text xs (DAtom VNil)"
    using Cons by (simp add: items_text_def tail_text_def text_separate_Cons comp_def)
  have x: "reads A x" "readable A x" and xs: "\<forall>d \<in> set xs. reads A d \<and> readable A d" using assms(1) Cons by auto
  have "takes p (read_list n A p (CHR '')'')) ([] @ datum_text x @ tail_text xs (DAtom VNil)) rest
      (\<lambda>v s. has_datum s v (DPair x (list_datum xs (DAtom VNil))))"
    by (rule takes_list_item [OF x takes_tail [OF xs] refl]) (use assms(2) split in auto)
  then show ?thesis unfolding split using Cons by (simp add: list_datum_def)
qed

lemma takes_after_items:
  assumes "\<forall>d \<in> set ds. reads A d \<and> readable A d" "2 * length (items_text ds) \<le> n" "length w = k"
    and "\<And>l s vs. list_items l s = Done (vs, VNil) s \<Longrightarrow> list_all2 (has_datum s) vs ds \<Longrightarrow>
      \<exists>v s'. f l s = Done v s' \<and> h_ports s' = h_ports s \<and> more_heap s s' \<and> has_datum s' v d"
  shows "takes p (bindM (skip p k) (\<lambda>_. bindM (read_list n A p (CHR '')'')) f)) (w @ items_text ds) rest (\<lambda>v s. has_datum s v d)"
proof (rule takes_seq)
  show "takes p (skip p k) w (items_text ds @ rest) (\<lambda>v s. True)" using takes_skip [of p w] assms(3) by simp
  have "takes p (bindM (read_list n A p (CHR '')'')) f) (items_text ds @ []) rest (\<lambda>v s. has_datum s v d)"
  proof (rule takes_bind)
    show "takes p (read_list n A p (CHR '')'')) (items_text ds) ([] @ rest)
        (\<lambda>v s. has_datum s v (list_datum ds (DAtom VNil)))" using takes_items [OF assms(1,2)] by simp
    fix l s
    assume at: "port_at s p ([] @ rest)" and l: "has_datum s l (list_datum ds (DAtom VNil))"
    from list_datum_items [OF l] obtain vs where "list_items l s = Done (vs, VNil) s" "list_all2 (has_datum s) vs ds" by blast
    from assms(4) [OF this] at show "\<exists>v s'. f l s = Done v s' \<and> port_at s' p rest \<and> more_heap s s' \<and> has_datum s' v d"
      by (auto simp: port_at_def)
  qed
  then show "takes p (bindM (read_list n A p (CHR '')'')) f) (items_text ds) rest (\<lambda>v s. has_datum s v d)" by simp
qed

lemma reads_vector:
  assumes "\<forall>d \<in> set ds. reads A d \<and> readable A d"
  shows "reads A (DVector ds)"
proof (rule reads_hash [of _ "CHR ''(''" "items_text ds"])
  show "datum_text (DVector ds) = CHR ''#'' # CHR ''('' # items_text ds" by (simp add: items_text_def)
  show "readable A (DVector ds)" using assms by simp
  fix p n rest
  assume "2 * Suc (Suc (length (items_text ds))) \<le> n"
  then have fuel: "2 * length (items_text ds) \<le> n" by simp
  have "takes p (bindM (skip p 2) (\<lambda>_. bindM (read_list n A p (CHR '')'')) (\<lambda>l.
       bindM (creme_list_length l) (\<lambda>n. bindM (creme_list_to_values l n ''read'') new_vector)))) (''#('' @ items_text ds) rest
     (\<lambda>v s. has_datum s v (DVector ds))"
  proof (rule takes_after_items [OF assms fuel])
    fix l s vs
    assume l: "list_items l s = Done (vs, VNil) s" "list_all2 (has_datum s) vs ds"
    let ?t = "s\<lparr>h_vecs := h_vecs s @ [vs]\<rparr>"
    have more: "more_heap s ?t" by (simp add: more_heap_def)
    have "list_all2 (has_datum ?t) vs ds" using l(2) by (rule list.rel_mono_strong) (rule has_datum_more [OF more])
    then have "has_datum ?t (VVector (length (h_vecs s))) (DVector ds)" by (simp add: has_datum_vector)
    then show "\<exists>v s'. bindM (creme_list_length l) (\<lambda>n. bindM (creme_list_to_values l n ''read'') new_vector) s = Done v s' \<and>
        h_ports s' = h_ports s \<and> more_heap s s' \<and> has_datum s' v (DVector ds)"
      using l(1) more by (simp add: creme_list_length_def creme_list_to_values_def bindM_def)
  qed simp
  then show "takes p (read_hash_body (read_list n A) p) (CHR ''#'' # CHR ''('' # items_text ds) rest (\<lambda>v s. has_datum s v (DVector ds))"
    unfolding read_hash_body_def by (intro takes_rest) simp
qed

definition byte_datum :: "char \<Rightarrow> datum" where
  "byte_datum b = DAtom (VInt (of_char b))"

lemma byte_bounds: "0 \<le> (of_char b :: int)" "(of_char b :: int) \<le> 255"
proof -
  have "(of_char b :: int) = int (of_char b)" by (metis of_nat_of_char)
  moreover have "(of_char b :: nat) < 256" by simp
  ultimately show "0 \<le> (of_char b :: int)" "(of_char b :: int) \<le> 255" by linarith+
qed

lemma byte_elements_run:
  assumes "list_all2 (has_datum s) vs (map byte_datum bs)"
  shows "byte_elements vs s' = Done bs s'"
  using assms
proof (induction bs arbitrary: vs)
  case (Cons b bs)
  then obtain v vs' where v: "vs = v # vs'" "has_datum s v (byte_datum b)" "list_all2 (has_datum s) vs' (map byte_datum bs)"
    by (auto simp: list_all2_Cons2)
  have "readable_atom reference_arith (VInt (of_char b))" using byte_bounds [of b] by (simp add: int64_def INT64_MIN_def INT64_MAX_def)
  from has_datum_atom [OF this, of s v] have "v = VInt (of_char b)" using v(2) by (simp add: byte_datum_def)
  with Cons.IH [OF v(3)] v(1) byte_bounds [of b] show ?case by (simp add: bindM_def)
qed simp

lemma dec_plain: "\<forall>c \<in> set (dec i). \<not> is_delim c" "hd (dec i) \<noteq> CHR ''#''" "hd (dec i @ w) \<noteq> CHR ''#''"
proof -
  show "\<forall>c \<in> set (dec i). \<not> is_delim c" using number_chars number_char_plain by blast
  have "hd (dec i) \<in> set (dec i)" by (rule hd_in_set) simp
  from number_char_plain [OF number_chars [OF this]] show "hd (dec i) \<noteq> CHR ''#''" by blast
  then show "hd (dec i @ w) \<noteq> CHR ''#''" by (subst hd_append2) simp_all
qed

lemma reads_integer: "int64 i \<Longrightarrow> reads A (DAtom (VInt i))"
proof -
  assume i: "int64 i"
  show ?thesis
    by (rule reads_token [of "dec i"]) (use i dec_plain [of i] length_dec [OF i] in \<open>simp_all add: token_integer\<close>)
qed

lemma reads_bytevector: "reads A (DText 9 bs)"
proof (rule reads_hash [of _ "CHR ''u''" "''8('' @ items_text (map byte_datum bs)"])
  have byte: "int64 (of_char b)" for b :: char using byte_bounds [of b] by (simp add: int64_def INT64_MIN_def INT64_MAX_def)
  show "datum_text (DText 9 bs) = CHR ''#'' # CHR ''u'' # ''8('' @ items_text (map byte_datum bs)"
    by (simp add: items_text_def byte_datum_def comp_def)
  show "readable A (DText 9 bs)" by simp
  have items: "\<forall>d \<in> set (map byte_datum bs). reads A d \<and> readable A d"
    using byte by (auto simp: byte_datum_def reads_integer)
  fix p n rest
  assume "2 * Suc (Suc (length (''8('' @ items_text (map byte_datum bs)))) \<le> n"
  then have fuel: "2 * length (items_text (map byte_datum bs)) \<le> n" by simp
  have "takes p (bindM (skip p 4) (\<lambda>_. bindM (read_list n A p (CHR '')'')) (\<lambda>l.
       bindM (list_items l) (\<lambda>(vs, tail). bindM (byte_elements vs) creme_bytevector_value))))
       (''#u8('' @ items_text (map byte_datum bs)) rest (\<lambda>v s. has_datum s v (DText 9 bs))"
  proof (rule takes_after_items [OF items fuel])
    fix l s vs
    assume l: "list_items l s = Done (vs, VNil) s" "list_all2 (has_datum s) vs (map byte_datum bs)"
    show "\<exists>v s'. bindM (list_items l) (\<lambda>(vs, tail). bindM (byte_elements vs) creme_bytevector_value) s = Done v s' \<and>
        h_ports s' = h_ports s \<and> more_heap s s' \<and> has_datum s' v (DText 9 bs)"
      using l(1) byte_elements_run [OF l(2), of s]
      by (simp add: bindM_def creme_bytevector_value_def has_datum_bytes more_heap_def)
  qed simp
  then show "takes p (read_hash_body (read_list n A) p) (CHR ''#'' # CHR ''u'' # ''8('' @ items_text (map byte_datum bs)) rest
      (\<lambda>v s. has_datum s v (DText 9 bs))"
    unfolding read_hash_body_def by (intro takes_rest) (simp add: starts_def)
qed

lemma reads_string: "reads A (DText 5 cs)"
  by (rule reads_start) (use takes_string in \<open>auto simp: read_datum_at_def write_string_literal_def\<close>)

lemma reads_nil: "reads A (DAtom VNil)"
proof (rule reads_paren [of _ "'')''"])
  fix p n rest
  assume "2 * length '')'' \<le> n"
  then show "takes p (read_list n A p (CHR '')'')) '')'' rest (\<lambda>v s. has_datum s v (DAtom VNil))"
    using takes_tail [of "[]" A "DAtom VNil" n p rest] by (simp add: tail_text_def list_datum_def)
qed simp_all

lemma reads_char: "0 \<le> c \<Longrightarrow> c \<le> 255 \<Longrightarrow> reads A (DAtom (VChar c))"
proof -
  assume c: "0 \<le> c" "c \<le> 255"
  from char_literal_text [OF c] obtain e w where w: "write_char_literal c = CHR ''#'' # CHR 0x5C # e # w" by metis
  show ?thesis
  proof (rule reads_hash [of _ "CHR 0x5C" "e # w"])
    fix p n rest
    assume "delim_rest rest"
    then have "takes p (read_char_literal p) (CHR ''#'' # CHR 0x5C # e # w) rest (\<lambda>v s. has_datum s v (DAtom (VChar c)))"
      using takes_weaken [OF takes_char [OF c, of rest p]] w by (simp add: has_datum_leaf)
    then show "takes p (read_hash_body (read_list n A) p) (CHR ''#'' # CHR 0x5C # e # w) rest (\<lambda>v s. has_datum s v (DAtom (VChar c)))"
      unfolding read_hash_body_def by (intro takes_rest) simp
  qed (use w c in simp_all)
qed

lemma reads_bool: "reads A (DAtom (VBool b))"
proof -
  let ?c = "if b then CHR ''t'' else CHR ''f''"
  have "\<not> is_delim ?c" by (simp add: is_delim_def)
  show ?thesis
  proof (rule reads_hash [of _ ?c "[]"])
    fix p n rest
    assume "delim_rest rest"
    then have "takes p (bindM (read_on p (dropWhile (\<lambda>d. \<not> is_delim d) ([?c] @ rest))) (\<lambda>_. retM (VBool b))) [CHR ''#'', ?c] rest (\<lambda>v s. v = VBool b)"
      using \<open>\<not> is_delim ?c\<close> by (intro takes_bool) auto
    then have "takes p (bindM (read_on p (dropWhile (\<lambda>d. \<not> is_delim d) ([?c] @ rest))) (\<lambda>_. retM (VBool b))) [CHR ''#'', ?c] rest
        (\<lambda>v s. has_datum s v (DAtom (VBool b)))" by (rule takes_weaken) (simp add: has_datum_leaf)
    then show "takes p (read_hash_body (read_list n A) p) [CHR ''#'', ?c] rest (\<lambda>v s. has_datum s v (DAtom (VBool b)))"
      unfolding read_hash_body_def by (intro takes_rest) (cases b; simp add: Let_def)
  qed simp_all
qed

lemma reads_rational:
  assumes "gmp_spec A" "int64 n" "int64 d" "1 < d" "mpq_canonical (n, d)"
  shows "reads A (DAtom (VRational n d))"
proof (rule reads_token)
  show "\<forall>c \<in> set (dec n @ ''/'' @ dec d). \<not> is_delim c"
    using dec_plain(1) [of n] dec_plain(1) [of d] by (auto simp: is_delim_def)
  show "length (dec n @ ''/'' @ dec d) \<le> 255" using length_dec [OF assms(2)] length_dec [OF assms(3)] by simp
  show "hd (dec n @ ''/'' @ dec d) \<noteq> CHR ''#''" by (rule dec_plain(3))
qed (use assms token_rational [OF assms] in simp_all)

lemma reads_symbol: "plain_symbol A cs \<Longrightarrow> reads A (DAtom (VSym cs))"
  by (rule reads_token [of cs]) (use plain_symbolD [of A cs] in \<open>auto simp: plain_symbol_def\<close>)

theorem readable_reads:
  assumes "gmp_spec A"
  shows "readable A d \<Longrightarrow> reads A d"
proof (induction d rule: measure_induct_rule [of size])
  case (less d)
  show ?case
  proof (cases d)
    case (DAtom v)
    with less.prems assms show ?thesis
      by (cases v) (auto simp: reads_nil reads_bool reads_integer reads_rational reads_symbol reads_char)
  next
    case (DText k bs)
    with less.prems show ?thesis by (auto simp: reads_string reads_bytevector)
  next
    case (DVector ds)
    have "size d' < size d" if "d' \<in> set ds" for d' using that DVector by (simp add: size_list_estimation' less_Suc_eq_le)
    then show ?thesis unfolding DVector using less DVector by (intro reads_vector) auto
  next
    case (DPair x y)
    define ds t where "ds = fst (spine y)" and "t = snd (spine y)"
    have y: "y = list_datum ds t" using spine_list [of y ds t] by (simp add: ds_def t_def)
    have size: "size x < size d" "\<forall>e \<in> set ds. size e < size d" "size t < size d"
      using spine_size [of y] DPair by (auto simp: ds_def t_def)
    have read: "readable A x" "\<forall>e \<in> set ds. readable A e" "readable A t"
      using less.prems DPair spine_readable [of A y] by (auto simp: ds_def t_def)
    have IH: "reads A x" "\<forall>e \<in> set ds. reads A e \<and> readable A e" "reads A t" using less.IH size read by auto
    show ?thesis
    proof (rule reads_paren [of _ "datum_text x @ tail_text ds t"])
      show "datum_text d = CHR ''('' # datum_text x @ tail_text ds t" unfolding DPair text_pair by (simp add: ds_def t_def)
      fix p n rest
      assume "2 * length (datum_text x @ tail_text ds t) \<le> n"
      then show "takes p (read_list n A p (CHR '')'')) (datum_text x @ tail_text ds t) rest (\<lambda>v s. has_datum s v d)"
        using takes_list_item [OF IH(1) read(1) takes_tail [OF IH(2,3)] refl, where pre = "[]" and n = n and p = p and rest = rest]
          DPair y by simp
    qed (rule less.prems)
  qed
qed

end
