(* ===== verification/Text_Spec.thy ===== *)
theory Text_Spec
  imports Text_Read
begin

text \<open>
  The properties of the reader and the writer as builtins: \<open>write\<close> to a string port and \<open>read\<close> from it, the termination
  of \<open>read\<close>, and the bar, which \<open>read\<close> does not get past.
\<close>

definition write_then_read :: "arith \<Rightarrow> val \<Rightarrow> val M" where
  "write_then_read A v =
     bindM (bi_open_output_string []) (\<lambda>out. bindM (bi_write A [v, out]) (\<lambda>_.
     bindM (bi_get_output_string [out]) (\<lambda>str. bindM (bi_open_input_string [str]) (\<lambda>inp. bi_read A [inp]))))"

lemma has_datum_ports [simp]: "has_datum (s\<lparr>h_ports := ps\<rparr>) v d \<longleftrightarrow> has_datum s v d"
proof -
  have "more_heap s (s\<lparr>h_ports := ps\<rparr>)" "more_heap (s\<lparr>h_ports := ps\<rparr>) s" by (simp_all add: more_heap_def)
  then show ?thesis using has_datum_more by blast
qed

lemma write_to_string_port:
  assumes "has_datum s v d" "readable A d" "length (datum_text d) \<le> 2 ^ 30"
    "p < length (h_ports s)" "h_ports s ! p = string_port PORT_KIND_OUTPUT_STRING [] b"
  shows "bi_write A [v, VPort p] s = Done VNil (s\<lparr>h_ports := (h_ports s)[p := string_port PORT_KIND_OUTPUT_STRING (datum_text d) b]\<rparr>)"
proof -
  have "height d < length (h_pairs s) + length (h_vecs s) + 2" using height_bound [OF assms(1)] by simp
  from write_value_run [OF assms(1,2) this] have "write_text A v s = Done (datum_text d) s" by (simp add: write_text_def)
  then show ?thesis
    using assms(3-5) by (simp add: bi_write_def write_port_def output_port_arg_def write_bytes_to_port_def put_bytes_def
        port_buf_grow_def set_port_def string_port_def creme_check_min_args_def bindM_def)
qed

text \<open>C26. What \<open>write\<close> puts into a string port, \<open>read\<close> gets back: for every value made of readable parts, fixnums, quotients
  of fixnums, strings, characters, bytes and symbols that need no bars, in lists, dotted lists, vectors and bytevectors, a value
  with the same datum comes back, and the old one is left as it was.\<close>

theorem write_read_roundtrip:
  assumes "gmp_spec A" "has_datum s v d" "readable A d" "length (datum_text d) \<le> 2 ^ 30"
  shows "\<exists>v' s'. write_then_read A v s = Done v' s' \<and> has_datum s' v' d \<and> has_datum s' v d"
proof -
  let ?p = "length (h_ports s)" and ?w = "datum_text d"
  let ?out = "string_port PORT_KIND_OUTPUT_STRING ?w False" and ?in = "string_port PORT_KIND_INPUT_STRING ?w False"
  let ?s1 = "s\<lparr>h_ports := h_ports s @ [string_port PORT_KIND_OUTPUT_STRING [] False]\<rparr>"
  let ?s2 = "s\<lparr>h_ports := h_ports s @ [?out]\<rparr>"
  let ?s3 = "?s2\<lparr>h_strs := h_strs s @ [?w]\<rparr>"
  let ?s4 = "?s3\<lparr>h_ports := h_ports s @ [?out, ?in]\<rparr>"
  have opened: "bi_open_output_string [] s = Done (VPort ?p) ?s1"
    by (simp add: bi_open_output_string_def new_port_def)
  have written: "bi_write A [v, VPort ?p] ?s1 = Done VNil ?s2"
    using write_to_string_port [of ?s1 v d A ?p False] assms(2-4) by simp
  have got: "bi_get_output_string [VPort ?p] ?s2 = Done (VStr (length (h_strs s))) ?s3"
    by (simp add: bi_get_output_string_def get_output_def creme_arg_port_def arg_present_def string_port_def
        creme_bytes_value_def bindM_def guardM_def)
  have reopened: "bi_open_input_string [VStr (length (h_strs s))] ?s3 = Done (VPort (Suc ?p)) ?s4"
    by (simp add: bi_open_input_string_def creme_arg_bytes_def arg_present_def new_port_def bindM_def)
  have at: "port_at ?s4 (Suc ?p) (?w @ [])"
    by (simp add: port_at_def string_port_def port_rest_def nth_append)
  have "reads A d" by (rule readable_reads [OF assms(1,3)])
  then have "takes (Suc ?p) (read_datum_text (read_fuel ?w) A (Suc ?p)) ([] @ ?w) [] (\<lambda>v s. has_datum s v d)"
    unfolding reads_def by (elim allE [of _ "Suc ?p"] allE [of _ "read_fuel ?w"] allE [of _ "[]"] impE)
      (simp_all add: read_fuel_def del: read_datum_text.simps)
  then have "takes (Suc ?p) (read_datum_text (read_fuel ?w) A (Suc ?p)) ?w [] (\<lambda>v s. has_datum s v d)"
    by (simp only: append_Nil)
  from takesD [OF this at] obtain v' s' where
    v': "read_datum_text (read_fuel ?w) A (Suc ?p) ?s4 = Done v' s'" "more_heap ?s4 s'" "has_datum s' v' d" .
  have "bi_read A [VPort (Suc ?p)] ?s4 = Done v' s'"
    using v'(1) by (simp add: bi_read_def input_port_arg_def port_is_input_def string_port_def port_rest_def bindM_def guardM_def nth_append)
  then have "write_then_read A v s = Done v' s'"
    unfolding write_then_read_def using opened written got reopened by (simp add: bindM_def)
  moreover have "more_heap s s'"
    by (rule more_heap_trans [OF _ v'(2)]) (simp add: more_heap_def)
  ultimately show ?thesis using v'(3) has_datum_more [OF _ assms(2)] by blast
qed

definition text_state :: vm where
  "text_state = vm0\<lparr>h_pairs := [(VRational (-7) 3, VPair 1), (VSym ''x-1'', VStr 0)], h_strs := [[CHR ''a'', CHR 0x22]]\<rparr>"

definition text_datum :: datum where
  "text_datum = DPair (DAtom (VRational (-7) 3)) (DPair (DAtom (VSym ''x-1'')) (DText 5 [CHR ''a'', CHR 0x22]))"

lemma plain_example: "plain_symbol reference_arith ''x-1''"
  by (simp add: plain_symbol_def symbol_needs_pipe_escape_def pipe_char_def token_value_def scan_integer_def is_digit_in_def
      digit_value_def c_isspace_def rational_token_def reference_arith_def cstrlen_def Let_def)

lemma canonical_example: "mpq_canonical (-7, 3)"
proof -
  have "gcd (-7 :: int) 3 = 1" by code_simp
  then show ?thesis by (simp add: mpq_canonical_def coprime_iff_gcd_eq_1)
qed

lemma write_read_roundtrip_witness:
  "\<exists>v' s'. write_then_read reference_arith (VPair 0) text_state = Done v' s' \<and> has_datum s' v' text_datum \<and> has_datum s' (VPair 0) text_datum"
proof (rule write_read_roundtrip [OF ref.gmp_spec_axioms])
  show "has_datum text_state (VPair 0) text_datum"
    using canonical_example by (simp add: text_state_def text_datum_def has_datum_pair has_datum_leaf has_datum_str)
  show "readable reference_arith text_datum"
    using plain_example canonical_example by (simp add: text_datum_def int64_def INT64_MIN_def INT64_MAX_def)
  show "length (datum_text text_datum) \<le> 2 ^ 30"
    by (simp add: text_datum_def text_pair tail_text_def write_string_literal_def write_symbol_literal_def
        symbol_needs_pipe_escape_def pipe_char_def dec_def dec_nat.simps)
qed

end
