(* ===== verification/Read_Halts.thy ===== *)
theory Read_Halts
  imports Text_Props Loader_Props "HOL-Library.Sublist"
begin

text \<open>
  The termination of \<open>read\<close>: on a text without bars every datum takes at least one character, so the fuel of \<open>read\<close> is enough
  whatever the text is.  On a bar the reader takes nothing and goes on for ever.
\<close>

definition ends :: "('a \<Rightarrow> vm \<Rightarrow> bool) \<Rightarrow> 'a run \<Rightarrow> bool" where
  "ends P r \<longleftrightarrow> (case r of Done v s \<Rightarrow> P v s | Timeout \<Rightarrow> False | _ \<Rightarrow> True)"

lemma ends_simps [simp]: "ends P (Done v s) = P v s" "ends P Stuck" "\<not> ends P Timeout" "ends P (Longjmp b s)" "ends P (Exit msg s)" "ends P (ActorExit msg s)"
  by (simp_all add: ends_def)

lemma ends_abort [simp]: "ends P (creme_abort msg s)"
  by (simp add: ends_def abort_not_Done abort_clean split: run.split)

lemma ends_bind: "ends (\<lambda>v s'. ends P (f v s')) (m s) \<Longrightarrow> ends P (bindM m f s)"
  by (cases "m s") (simp_all add: bindM_def)

lemma ends_weaken: "ends P r \<Longrightarrow> (\<And>v s. P v s \<Longrightarrow> Q v s) \<Longrightarrow> ends Q r"
  by (cases r) auto

text \<open>A port that has moved on within a text without bars.\<close>

definition bar_free :: "bytes \<Rightarrow> bool" where
  "bar_free bs \<longleftrightarrow> CHR ''|'' \<notin> set bs"

definition moves :: "nat \<Rightarrow> bytes \<Rightarrow> vm \<Rightarrow> vm \<Rightarrow> bytes \<Rightarrow> bool" where
  "moves p bs s s' bs' \<longleftrightarrow> port_at s' p bs' \<and> suffix bs' bs \<and> (\<exists>new. h_pairs s' = h_pairs s @ new)"

lemma moves_trans: "moves p bs s s' bs' \<Longrightarrow> moves p bs' s' s'' bs'' \<Longrightarrow> moves p bs s s'' bs''"
  by (auto simp: moves_def)

lemma moves_refl: "port_at s p bs \<Longrightarrow> moves p bs s s bs"
  by (auto simp: moves_def)

lemma moves_moved: "port_at s p bs \<Longrightarrow> suffix left bs \<Longrightarrow> moves p bs s (moved p left s) left"
  using port_at_moved by (auto simp: moves_def suffix_def)

lemma suffix_bar_free: "suffix bs' bs \<Longrightarrow> bar_free bs \<Longrightarrow> bar_free bs'"
  by (auto simp: bar_free_def suffix_def)

lemma ends_rest: "port_at s p bs \<Longrightarrow> ends P (f bs s) \<Longrightarrow> ends P (bindM (rest_of p) f s)"
  by (rule ends_bind) (simp add: rest_of_run)

lemma ends_on:
  assumes "port_at s p bs" "suffix left bs" "\<And>s'. moves p bs s s' left \<Longrightarrow> ends P (m s')"
  shows "ends P (bindM (read_on p left) (\<lambda>_. m) s)"
  using assms by (intro ends_bind) (simp add: read_on_run moves_moved)

definition finite_list :: "vm \<Rightarrow> val \<Rightarrow> bool" where
  "finite_list s v \<longleftrightarrow> (\<exists>vs t. chain (h_pairs s) v vs t \<and> \<not> pair_val t)"

lemma finite_list_leaf: "\<not> pair_val v \<Longrightarrow> finite_list s v"
  unfolding finite_list_def by (intro exI [of _ "[]"]) simp

lemma finite_list_more: "finite_list s v \<Longrightarrow> h_pairs s' = h_pairs s @ new \<Longrightarrow> finite_list s' v"
  by (auto simp: finite_list_def intro: chain_more)

lemma finite_list_moves: "finite_list s v \<Longrightarrow> moves p bs s s' bs' \<Longrightarrow> finite_list s' v"
  by (auto simp: moves_def intro: finite_list_more)

text \<open>A value that has been read: it is a finite list, and it took at least one character unless there was none.\<close>

definition took :: "nat \<Rightarrow> bytes \<Rightarrow> vm \<Rightarrow> val \<Rightarrow> vm \<Rightarrow> bool" where
  "took p bs s v s' \<longleftrightarrow> (\<exists>bs'. moves p bs s s' bs' \<and> (bs = [] \<or> length bs' < length bs)) \<and> finite_list s' v"

lemma moves_length: "moves p bs s s' bs' \<Longrightarrow> length bs' \<le> length bs"
  by (auto simp: moves_def dest: suffix_length_le)

lemma took_after: "moves p bs s s' bs' \<Longrightarrow> took p bs' s' v s'' \<Longrightarrow> took p bs s v s''"
proof -
  assume m: "moves p bs s s' bs'" and "took p bs' s' v s''"
  then obtain bs'' where b: "moves p bs' s' s'' bs''" "bs' = [] \<or> length bs'' < length bs'" "finite_list s'' v" by (auto simp: took_def)
  have "length bs'' \<le> length bs'" "length bs' \<le> length bs" using moves_length m b(1) by blast+
  then have "bs = [] \<or> length bs'' < length bs" using b(2) by (cases bs) auto
  then show ?thesis using moves_trans [OF m b(1)] b(3) unfolding took_def by blast
qed

lemma took_now: "moves p bs s s' bs' \<Longrightarrow> length bs' < length bs \<Longrightarrow> finite_list s' v \<Longrightarrow> took p bs s v s'"
  by (auto simp: took_def)

lemma took_more: "moves p bs s s' bs' \<Longrightarrow> length bs' < length bs \<Longrightarrow> took p bs' s' v s'' \<Longrightarrow> took p bs s v s''"
  by (rule took_after)

subsection \<open>Atoms\<close>

definition rest_shorter :: "bytes \<Rightarrow> literal \<Rightarrow> bool" where
  "rest_shorter bs l \<longleftrightarrow> (\<forall>cs left. l = Literal cs left \<longrightarrow> suffix left bs \<and> length left < length bs)"

lemma rest_shorter_add: "rest_shorter bs l \<Longrightarrow> rest_shorter bs (add_char c l)"
  by (cases l) (auto simp: rest_shorter_def)

lemma rest_shorter_suffix: "rest_shorter bs' l \<Longrightarrow> suffix bs' bs \<Longrightarrow> rest_shorter bs l"
  by (cases l) (auto simp: rest_shorter_def suffix_def)

lemma rest_shorter_error: "rest_shorter bs Unterminated" "rest_shorter bs Overflow"
  by (simp_all add: rest_shorter_def)

lemma string_body_shorter: "rest_shorter bs (string_body bs)"
proof (induction bs rule: measure_induct_rule [of length])
  case (less bs)
  have tails: "rest_shorter bs (string_body bs')" if "suffix bs' bs" "length bs' < length bs" for bs'
    using less [OF that(2)] rest_shorter_suffix that(1) by blast
  show ?case
  proof (cases bs)
    case (Cons c cs)
    have drop: "suffix (drop n left) bs" "suffix (dropWhile P left) bs" if "cs = e # left" for n P e left
      using that Cons suffix_drop suffix_dropWhile by (meson suffix_ConsI)+
    have lens: "length (drop n left) < length bs" "length (dropWhile P left) < length bs" if "cs = e # left" for n P e left
      using that Cons length_dropWhile_le [of P left] by auto
    show ?thesis
    proof (cases "c \<noteq> CHR 0x5C \<or> cs = []")
      case True
      then show ?thesis using tails [of cs] Cons
        by (auto simp: rest_shorter_def [of _ "Literal _ _"] suffix_ConsI rest_shorter_error intro: rest_shorter_add)
    next
      case False
      then obtain e left where cs: "cs = e # left" by (cases cs) auto
      note sub = tails [OF drop(1) [OF cs] lens(1) [OF cs]] tails [OF drop(2) [OF cs] lens(2) [OF cs]]
      from sub(1) [of 0] have "rest_shorter bs (string_body left)" by simp
      then show ?thesis using False sub unfolding Cons cs
        by (auto simp: Let_def rest_shorter_error intro: rest_shorter_add split: option.split)
    qed
  qed (simp add: rest_shorter_def)
qed

lemma ends_string:
  assumes "port_at s p (c # bs)"
  shows "ends (took p (c # bs) s) (read_string_literal p s)"
proof -
  have "ends (took p (c # bs) s) ((case string_body bs of
       Literal cs left \<Rightarrow> bindM (read_on p left) (\<lambda>_. new_str cs)
     | Unterminated \<Rightarrow> bindM (read_on p []) (\<lambda>_. creme_abort ''read: unterminated string literal'')
     | Overflow \<Rightarrow> stuckM) s)"
  proof (cases "string_body bs")
    case (Literal cs left)
    then have left: "suffix left (c # bs)" "length left < length (c # bs)"
      using string_body_shorter [of bs] by (auto simp: rest_shorter_def suffix_ConsI)
    then show ?thesis using Literal assms
      by (simp, intro ends_on [OF assms]) (auto simp: took_def moves_def finite_list_leaf intro!: exI [of _ left])
  next
    case Unterminated
    then show ?thesis by (simp, intro ends_on [OF assms]) simp_all
  qed simp
  then show ?thesis unfolding read_string_literal_def by (intro ends_rest [OF assms]) simp
qed

lemma ends_skip:
  assumes "port_at s p bs" "\<And>s'. moves p bs s s' (drop n bs) \<Longrightarrow> ends P (m s')"
  shows "ends P (bindM (skip p n) (\<lambda>_. m) s)"
  unfolding skip_def by (rule ends_bind) (use assms moves_moved [OF assms(1) suffix_drop] in \<open>simp add: rest_of_run read_on_run\<close>)

lemma ends_next:
  assumes "port_at s p bs" "bs = [] \<Longrightarrow> ends P (f None s)"
    "\<And>c left s'. bs = c # left \<Longrightarrow> moves p bs s s' left \<Longrightarrow> ends P (f (Some c) s')"
  shows "ends P (bindM (read_next p) f s)"
  unfolding read_next_def
  by (rule ends_bind, cases bs)
     (use assms moves_moved [OF assms(1)] in \<open>simp_all add: rest_of_run read_on_run suffix_ConsI bindM_def\<close>)

lemma ends_word:
  assumes "port_at s p bs"
    "\<And>w s'. w = take cap (takeWhile (\<lambda>c. \<not> is_delim c) bs) \<Longrightarrow> moves p bs s s' (drop (length w) bs) \<Longrightarrow> ends P (f w s')"
  shows "ends P (bindM (read_word cap p) f s)"
  unfolding read_word_def
  by (rule ends_bind) (use assms(2) [OF refl moves_moved [OF assms(1) suffix_drop]] assms(1) in
      \<open>simp add: rest_of_run read_on_run Let_def bindM_def\<close>)

lemma make_rational_not_pair [simp]: "\<not> pair_val (make_rational_from_mpq A q)"
  by (simp add: make_rational_from_mpq_def make_bigint_from_mpz_def Let_def)

lemma rational_not_pair: "rational_token A w = Some (TokVal v) \<Longrightarrow> \<not> pair_val v"
  by (cases "strtoll 10 w"; cases "strtoll 10 (drop (Suc (length (takeWhile (\<lambda>c. c \<noteq> CHR ''/'') w))) w)")
    (auto simp: rational_token_def Let_def split: if_splits)

lemma token_not_pair: "token_value A w = TokVal v \<Longrightarrow> \<not> pair_val v"
proof -
  assume v: "token_value A w = TokVal v"
  define buf where "buf = take (cstrlen w) w"
  have "\<not> pair_val v" if "(case rational_token A buf of Some t \<Rightarrow> t | None \<Rightarrow>
      (case strtod A buf of (d, []) \<Rightarrow> if buf \<noteq> [] then TokVal (VFloat d) else TokVal (VSym w) | _ \<Rightarrow> TokVal (VSym w))) = TokVal v"
  proof (cases "rational_token A buf")
    case None
    then show ?thesis using that by (cases "strtod A buf"; cases "snd (strtod A buf)") (auto split: if_splits)
  next
    case (Some t)
    then show ?thesis using that rational_not_pair by simp
  qed
  then show ?thesis using v unfolding token_value_def buf_def [symmetric] Let_def
    by (cases "scan_integer 10 buf"; cases "snd (the (scan_integer 10 buf))") (auto split: prod.splits list.splits)
qed

lemma ends_token:
  assumes "port_at s p bs" "bs = [] \<or> \<not> is_delim (hd bs)"
  shows "ends (took p bs s) (read_token A p s)"
  unfolding read_token_def
proof (rule ends_word [OF assms(1)])
  fix w s'
  assume w: "w = take 255 (takeWhile (\<lambda>c. \<not> is_delim c) bs)" "moves p bs s s' (drop (length w) bs)"
  then have "bs = [] \<or> length (drop (length w) bs) < length bs" using assms(2) by (cases bs) auto
  then have "took p bs s v s'" if "\<not> pair_val v" for v
    using w(2) finite_list_leaf [OF that] by (auto simp: took_def)
  then show "ends (took p bs s) ((case token_value A w of TokVal v \<Rightarrow> retM v | TokStuck \<Rightarrow> stuckM) s')"
    using token_not_pair by (cases "token_value A w") auto
qed

lemma ends_char:
  assumes "port_at s p (c # bs)"
  shows "ends (took p (c # bs) s) (read_char_literal p s)"
  unfolding read_char_literal_def
proof (rule ends_skip [OF assms])
  fix s1
  assume 1: "moves p (c # bs) s s1 (drop 2 (c # bs))"
  then have at: "port_at s1 p (drop 2 (c # bs))" by (simp add: moves_def)
  show "ends (took p (c # bs) s) (bindM (read_next p) (\<lambda>first. case first of
      None \<Rightarrow> creme_abort ''read: unterminated char literal'' | Some c \<Rightarrow> bindM (read_word 30 p) (char_literal c)) s1)"
  proof (rule ends_next [OF at], simp)
    fix d left s2
    assume 2: "moves p (drop 2 (c # bs)) s1 s2 left"
    then have at2: "port_at s2 p left" by (simp add: moves_def)
    have "ends (took p (c # bs) s) (char_literal d w s3)" if 3: "moves p left s2 s3 (drop (length w) left)" for w s3
    proof -
      note m = moves_trans [OF moves_trans [OF 1 2] 3]
      have "length (drop (length w) left) < length (c # bs)" using moves_length [OF 2] by (simp add: numeral_2_eq_2)
      then have "took p (c # bs) s (VChar n) s3" for n by (rule took_now [OF m]) (simp add: finite_list_leaf)
      then show ?thesis by (auto simp: char_literal_def Let_def split: option.split)
    qed
    then show "ends (took p (c # bs) s) ((case Some d of None \<Rightarrow> creme_abort ''read: unterminated char literal''
        | Some c \<Rightarrow> bindM (read_word 30 p) (char_literal c)) s2)"
      by (simp, intro ends_word [OF at2])
  qed
qed

lemma ends_radix:
  assumes "port_at s p bs"
  shows "ends (\<lambda>v s'. \<exists>bs'. moves p bs s s' bs' \<and> finite_list s' v) (read_radix_number p radix s)"
  unfolding read_radix_number_def
  by (rule ends_word [OF assms]) (auto simp: Let_def finite_list_leaf split: option.split prod.split list.split)

subsection \<open>The three functions\<close>

definition ws_done :: "nat \<Rightarrow> bytes \<Rightarrow> vm \<Rightarrow> unit \<Rightarrow> vm \<Rightarrow> bool" where
  "ws_done p bs s u s' \<longleftrightarrow> (\<exists>bs'. moves p bs s s' bs' \<and> (bs' = [] \<or> \<not> is_blank (hd bs') \<and> hd bs' \<noteq> CHR '';''))"

definition ws_ok :: "arith \<Rightarrow> nat \<Rightarrow> bool" where
  "ws_ok A n \<longleftrightarrow> (\<forall>p s bs. port_at s p bs \<longrightarrow> bar_free bs \<longrightarrow> 3 * length bs + 1 \<le> n \<longrightarrow>
     ends (ws_done p bs s) (read_skip_ws n A p s))"

definition datum_ok :: "arith \<Rightarrow> nat \<Rightarrow> bool" where
  "datum_ok A n \<longleftrightarrow> (\<forall>p s bs. port_at s p bs \<longrightarrow> bar_free bs \<longrightarrow> 3 * length bs + 2 \<le> n \<longrightarrow>
     ends (took p bs s) (read_datum_text n A p s))"

definition list_ok :: "arith \<Rightarrow> nat \<Rightarrow> bool" where
  "list_ok A n \<longleftrightarrow> (\<forall>p s bs close. port_at s p bs \<longrightarrow> bar_free bs \<longrightarrow> 3 * length bs + 3 \<le> n \<longrightarrow>
     ends (took p bs s) (read_list n A p close s))"

lemma ends_then: "ends P (m s) \<Longrightarrow> (\<And>v s'. P v s' \<Longrightarrow> ends Q (f v s')) \<Longrightarrow> ends Q (bindM m f s)"
  by (rule ends_bind, rule ends_weaken)

text \<open>Going on from where the port has moved to.\<close>

lemma movesD: "moves p bs s s' bs' \<Longrightarrow> bar_free bs \<Longrightarrow> port_at s' p bs' \<and> bar_free bs' \<and> length bs' \<le> length bs"
  using suffix_length_le suffix_bar_free by (auto simp: moves_def)

lemma ws_from:
  assumes "ws_ok A n" "moves p bs s s1 bs1" "bar_free bs" "3 * length bs1 + 1 \<le> n"
  shows "ends (ws_done p bs s) (read_skip_ws n A p s1)"
proof -
  have "ends (ws_done p bs1 s1) (read_skip_ws n A p s1)"
    using assms movesD unfolding ws_ok_def by blast
  then show ?thesis by (rule ends_weaken) (auto simp: ws_done_def dest: moves_trans [OF assms(2)])
qed

lemma datum_from:
  assumes "datum_ok A n" "moves p bs s s1 bs1" "bar_free bs" "3 * length bs1 + 2 \<le> n"
  shows "ends (took p bs1 s1) (read_datum_text n A p s1)"
  using assms movesD unfolding datum_ok_def by blast

lemma list_from:
  assumes "list_ok A n" "moves p bs s s1 bs1" "bar_free bs" "3 * length bs1 + 3 \<le> n"
  shows "ends (took p bs1 s1) (read_list n A p close s1)"
  using assms movesD unfolding list_ok_def by blast

lemma ws_step:
  assumes "ws_ok A n" "datum_ok A n"
  shows "ws_ok A (Suc n)"
  unfolding ws_ok_def
proof (intro allI impI)
  fix p s bs
  assume at: "port_at s p bs" and bar: "bar_free bs" and fuel: "3 * length bs + 1 \<le> Suc n"
  show "ends (ws_done p bs s) (read_skip_ws (Suc n) A p s)"
    unfolding read_skip_ws.simps read_skip_ws_body_def
  proof (rule ends_rest [OF at], goal_cases)
    case 1
    show ?case
  proof (cases bs)
    case Nil
    then show ?thesis using at by (auto simp: ws_done_def dest: moves_refl)
  next
    case (Cons c left)
    have go: "ends (ws_done p bs s) (bindM (read_on p left') (\<lambda>_. read_skip_ws n A p) s)" if "suffix left' left" for left'
    proof (intro ends_on [OF at] ws_from [OF assms(1) _ bar])
      have "3 * length left + 3 \<le> n" using fuel Cons by simp
      then show "3 * length left' + 1 \<le> n" using suffix_length_le [OF that] by linarith
    qed (use that Cons in \<open>simp_all add: suffix_ConsI\<close>)
    have block: "\<not> (c = CHR ''#'' \<and> left \<noteq> [] \<and> hd left = CHR ''|'')" using bar Cons by (cases left) (auto simp: bar_free_def)
    have stop: "ws_done p bs s () s" if "\<not> is_blank c" "c \<noteq> CHR '';''"
      unfolding ws_done_def using that Cons moves_refl [OF at] by (intro exI [of _ bs]) simp
    have line: "suffix (drop 1 (dropWhile (\<lambda>d. d \<noteq> CHR 0x0A) left)) left"
      using suffix_drop suffix_dropWhile suffix_order.order_trans by blast
    have datum: "ends (ws_done p bs s) (bindM (read_on p (tl left)) (\<lambda>_. bindM (read_skip_ws n A p)
        (\<lambda>_. bindM (read_datum_text n A p) (\<lambda>_. read_skip_ws n A p))) s)" if "left \<noteq> []"
    proof (rule ends_on [OF at])
      show "suffix (tl left) bs" using Cons by (simp add: suffix_ConsI suffix_tl)
      fix s1
      assume 1: "moves p bs s s1 (tl left)"
      have len: "Suc (Suc (length (tl left))) = length bs" using Cons that by (cases left) auto
      show "ends (ws_done p bs s) (bindM (read_skip_ws n A p) (\<lambda>_. bindM (read_datum_text n A p) (\<lambda>_. read_skip_ws n A p)) s1)"
      proof (rule ends_then, rule ws_from [OF assms(1) moves_refl])
        show "port_at s1 p (tl left)" "bar_free (tl left)" using movesD [OF 1 bar] by simp_all
        show "3 * length (tl left) + 1 \<le> n" using len fuel by simp
        fix u s2
        assume "ws_done p (tl left) s1 u s2"
        then obtain bs2 where 2: "moves p (tl left) s1 s2 bs2" by (auto simp: ws_done_def)
        note m2 = moves_trans [OF 1 2]
        show "ends (ws_done p bs s) (bindM (read_datum_text n A p) (\<lambda>_. read_skip_ws n A p) s2)"
        proof (rule ends_then, rule datum_from [OF assms(2) m2 bar])
          show "3 * length bs2 + 2 \<le> n" using moves_length [OF 2] len fuel by simp
          fix v s3
          assume "took p bs2 s2 v s3"
          then obtain bs3 where 3: "moves p bs2 s2 s3 bs3" by (auto simp: took_def)
          show "ends (ws_done p bs s) (read_skip_ws n A p s3)"
            by (rule ws_from [OF assms(1) moves_trans [OF m2 3] bar])
               (use moves_length [OF 2] moves_length [OF 3] len fuel in simp)
        qed
      qed
    qed
    show ?thesis
      using go [of left] go [OF line] block datum stop Cons by auto
  qed
  qed
qed

lemma took_leaf: "moves p bs s s' bs' \<Longrightarrow> bs = [] \<or> length bs' < length bs \<Longrightarrow> \<not> pair_val v \<Longrightarrow> took p bs s v s'"
  by (auto simp: took_def finite_list_leaf)

text \<open>Allocating after a value has been read.\<close>

lemma took_cons:
  assumes "moves p bs s s' bs'" "bs = [] \<or> length bs' < length bs" "finite_list s' r"
  shows "ends (took p bs s) (creme_cons v r s')"
proof -
  let ?t = "s'\<lparr>h_pairs := h_pairs s' @ [(v, r)]\<rparr>"
  from assms(3) obtain vs t where c: "chain (h_pairs s') r vs t" "\<not> pair_val t" by (auto simp: finite_list_def)
  have "chain (h_pairs s' @ [(v, r)]) (VPair (length (h_pairs s'))) (v # vs) t" using chain_more [OF c(1)] by simp
  then have "finite_list ?t (VPair (length (h_pairs s')))" unfolding finite_list_def
    by (intro exI [of _ "v # vs"] exI [of _ t]) (use c(2) in simp)
  moreover have "moves p bs s ?t bs'" using assms(1) by (auto simp: moves_def)
  ultimately show ?thesis using assms(2) by (auto simp: took_def)
qed

lemma ends_quote:
  assumes "ends (took p bs s) (m s)"
  shows "ends (took p bs s) (quote_form name m s)"
  unfolding quote_form_def
proof (rule ends_then, rule assms)
  fix v s'
  assume "took p bs s v s'"
  then obtain bs' where m: "moves p bs s s' bs'" "bs = [] \<or> length bs' < length bs" by (auto simp: took_def)
  have "bindM (creme_cons v VNil) (\<lambda>r. creme_cons (VSym name) r) s' = cons_list [VSym name, v] VNil s'" by (simp add: bindM_def)
  moreover have "ends (took p bs s) (bindM (creme_cons v VNil) (\<lambda>r. creme_cons (VSym name) r) s')"
  proof (rule ends_then, rule took_cons [OF m])
    show "finite_list s' VNil" by (simp add: finite_list_leaf)
    fix r s''
    assume "took p bs s r s''"
    then obtain bs'' where "moves p bs s s'' bs''" "bs = [] \<or> length bs'' < length bs" "finite_list s'' r"
      by (auto simp: took_def)
    then show "ends (took p bs s) (creme_cons (VSym name) r s'')" by (rule took_cons)
  qed
  ultimately show "ends (took p bs s) (cons_list [VSym name, v] VNil s')" by simp
qed

lemma ends_bytes: "ends (\<lambda>bs s'. s' = s) (byte_elements vs s)"
proof (induction vs)
  case (Cons v vs)
  have "ends (\<lambda>bs s'. s' = s) (bindM (byte_elements vs) (\<lambda>bs. retM (b # bs)) s)" for b
    by (rule ends_then, rule Cons) simp
  then show ?case by (cases v) simp_all
qed simp

lemma list_step:
  assumes "ws_ok A n" "datum_ok A n" "list_ok A n"
  shows "list_ok A (Suc n)"
  unfolding list_ok_def
proof (intro allI impI)
  fix p s bs close
  assume at: "port_at s p bs" and bar: "bar_free bs" and fuel: "3 * length bs + 3 \<le> Suc n"
  show "ends (took p bs s) (read_list (Suc n) A p close s)"
    unfolding read_list.simps read_list_body_def
  proof (rule ends_then, rule ws_from [OF assms(1) moves_refl [OF at] bar])
    fix u s1
    assume "ws_done p bs s u s1"
    then obtain bs1 where m1: "moves p bs s s1 bs1" by (auto simp: ws_done_def)
    note at1 = movesD [OF m1 bar]
    have fuel1: "3 * length bs1 + 2 \<le> n" using at1 fuel by simp
    show "ends (took p bs s) (bindM (rest_of p) (read_list_at (read_skip_ws n A) (read_list n A) (read_datum_text n A) p close) s1)"
    proof (rule ends_rest [OF conjunct1 [OF at1]], goal_cases)
      case 1
      have shut: "ends (took p bs s) (bindM (read_on p left) (\<lambda>_. retM VNil) s1)" if "bs1 = c # left" for c left
      proof (rule ends_on [OF conjunct1 [OF at1]])
        show "suffix left bs1" using that by (simp add: suffix_ConsI)
        fix s2
        assume "moves p bs1 s1 s2 left"
        from moves_trans [OF m1 this] show "ends (took p bs s) (retM VNil s2)"
          using at1 that by (simp, intro took_leaf) auto
      qed
      have item: "ends (took p bs s) (bindM (read_datum_text n A p) (\<lambda>head. bindM (read_list n A p close) (\<lambda>rest. creme_cons head rest)) s1)"
        if ne: "bs1 \<noteq> []"
      proof (rule ends_then, rule datum_from [OF assms(2) m1 bar fuel1])
        fix head s2
        assume "took p bs1 s1 head s2"
        then obtain bs2 where 2: "moves p bs1 s1 s2 bs2" "length bs2 < length bs1" using ne by (auto simp: took_def)
        note m2 = moves_trans [OF m1 2(1)]
        show "ends (took p bs s) (bindM (read_list n A p close) (\<lambda>rest. creme_cons head rest) s2)"
        proof (rule ends_then, rule list_from [OF assms(3) m2 bar])
          show "3 * length bs2 + 3 \<le> n" using 2(2) fuel1 by simp
          fix r s3
          assume "took p bs2 s2 r s3"
          then obtain bs3 where 3: "moves p bs2 s2 s3 bs3" "finite_list s3 r" by (auto simp: took_def)
          have "length bs3 < length bs" using moves_length [OF 3(1)] 2(2) at1 by simp
          then show "ends (took p bs s) (creme_cons head r s3)"
            by (intro took_cons [OF moves_trans [OF m2 3(1)] _ 3(2)]) simp
        qed
      qed
      have dotted: "ends (took p bs s) (bindM (read_on p left) (\<lambda>_. bindM (read_datum_text n A p) (\<lambda>tail.
           bindM (read_skip_ws n A p) (\<lambda>_. bindM (read_peek p) (\<lambda>c'.
           if c' = Some close then bindM (read_next p) (\<lambda>_. retM tail)
           else creme_abort ''read: malformed dotted list'')))) s1)" if bs1: "bs1 = c # left" for c left
      proof (rule ends_on [OF conjunct1 [OF at1]])
        show "suffix left bs1" using bs1 by (simp add: suffix_ConsI)
        fix s2
        assume "moves p bs1 s1 s2 left"
        note m2 = moves_trans [OF m1 this]
        show "ends (took p bs s) (bindM (read_datum_text n A p) (\<lambda>tail.
           bindM (read_skip_ws n A p) (\<lambda>_. bindM (read_peek p) (\<lambda>c'.
           if c' = Some close then bindM (read_next p) (\<lambda>_. retM tail)
           else creme_abort ''read: malformed dotted list''))) s2)"
        proof (rule ends_then, rule datum_from [OF assms(2) m2 bar])
          show "3 * length left + 2 \<le> n" using bs1 fuel1 by simp
          fix v s3
          assume "took p left s2 v s3"
          then obtain bs3 where 3: "moves p left s2 s3 bs3" "finite_list s3 v" by (auto simp: took_def)
          note m3 = moves_trans [OF m2 3(1)]
          show "ends (took p bs s) (bindM (read_skip_ws n A p) (\<lambda>_. bindM (read_peek p) (\<lambda>c'.
             if c' = Some close then bindM (read_next p) (\<lambda>_. retM v)
             else creme_abort ''read: malformed dotted list'')) s3)"
          proof (rule ends_then, rule ws_from [OF assms(1) moves_refl])
            show "port_at s3 p bs3" "bar_free bs3" using movesD [OF m3 bar] by simp_all
            show "3 * length bs3 + 1 \<le> n" using moves_length [OF 3(1)] bs1 fuel1 by simp
            fix u s4
            assume "ws_done p bs3 s3 u s4"
            then obtain bs4 where 4: "moves p bs3 s3 s4 bs4" by (auto simp: ws_done_def)
            have at4: "port_at s4 p bs4" using 4 by (simp add: moves_def)
            have short: "length bs4 < length bs" using moves_length [OF 4] moves_length [OF 3(1)] bs1 at1 by simp
            note m4 = moves_trans [OF m3 4]
            have "ends (took p bs s) (bindM (read_next p) (\<lambda>_. retM v) s4)"
            proof (rule ends_next [OF at4])
              show "ends (took p bs s) (retM v s4)" using m4 short finite_list_moves [OF 3(2) 4] by (auto simp: took_def)
              fix d left' s5
              assume d: "bs4 = d # left'" "moves p bs4 s4 s5 left'"
              have "finite_list s5 v" using finite_list_moves [OF finite_list_moves [OF 3(2) 4] d(2)] .
              then show "ends (took p bs s) (retM v s5)"
                using moves_trans [OF m4 d(2)] d(1) short by (simp, intro took_now) auto
            qed
            then show "ends (took p bs s) (bindM (read_peek p) (\<lambda>c'. if c' = Some close then bindM (read_next p) (\<lambda>_. retM v)
                else creme_abort ''read: malformed dotted list'') s4)"
              using rest_of_run [OF at4] by (auto simp: read_peek_def bindM_def)
          qed
        qed
      qed
      show ?case using shut item dotted by (cases bs1) (auto simp: read_list_at_def)
    qed
  qed (use fuel in simp)
qed

lemma finite_list_items: "finite_list s l \<Longrightarrow> \<exists>vs t. list_items l s = Done (vs, t) s"
  using list_items_chain by (auto simp: finite_list_def)

text \<open>A list inside a \<open>#\<close> form, and what is made of it.\<close>

lemma ends_hash_list:
  assumes "list_ok A n" "port_at s p bs" "bar_free bs" "3 * length bs \<le> n" "bs \<noteq> []" "0 < k"
    and "\<And>l s' vs t. list_items l s' = Done (vs, t) s' \<Longrightarrow>
      ends (\<lambda>v s''. \<not> pair_val v \<and> h_pairs s'' = h_pairs s' \<and> h_ports s'' = h_ports s') (f l s')"
  shows "ends (took p bs s) (bindM (skip p k) (\<lambda>_. bindM (read_list n A p close) f) s)"
proof (rule ends_skip [OF assms(2)])
  fix s1
  assume 1: "moves p bs s s1 (drop k bs)"
  have len: "length (drop k bs) < length bs" using assms(5,6) by simp
  show "ends (took p bs s) (bindM (read_list n A p close) f s1)"
  proof (rule ends_then, rule list_from [OF assms(1) 1 assms(3)])
    show "3 * length (drop k bs) + 3 \<le> n" using len assms(4) by simp
    fix l s2
    assume "took p (drop k bs) s1 l s2"
    then obtain bs2 where 2: "moves p (drop k bs) s1 s2 bs2" "finite_list s2 l" by (auto simp: took_def)
    from finite_list_items [OF 2(2)] obtain vs t where "list_items l s2 = Done (vs, t) s2" by blast
    from assms(7) [OF this] show "ends (took p bs s) (f l s2)"
    proof (rule ends_weaken)
      fix v and s3 :: vm
      assume v: "\<not> pair_val v \<and> h_pairs s3 = h_pairs s2 \<and> h_ports s3 = h_ports s2"
      have m: "moves p (drop k bs) s1 s3 bs2" using 2(1) v by (auto simp: moves_def port_at_def)
      show "took p bs s v s3"
        by (rule took_leaf [OF moves_trans [OF 1 m]]) (use moves_length [OF m] len v in auto)
    qed
  qed
qed

lemma ends_hash:
  assumes "list_ok A n" "port_at s p (CHR ''#'' # bs)" "bar_free (CHR ''#'' # bs)" "3 * length (CHR ''#'' # bs) \<le> n"
  shows "ends (took p (CHR ''#'' # bs) s) (read_hash_body (read_list n A) p s)"
  unfolding read_hash_body_def
proof (rule ends_rest [OF assms(2)], goal_cases)
  case 1
  let ?bs = "CHR ''#'' # bs"
  have fails: "ends (took p ?bs s) (bindM (skip p 1) (\<lambda>_. creme_abort msg) s)" for msg
    by (rule ends_skip [OF assms(2)]) simp
  have bool: "ends (took p ?bs s) (bindM (read_on p (dropWhile (\<lambda>d. \<not> is_delim d) bs)) (\<lambda>_. retM (VBool b)) s)" for b
  proof (rule ends_on [OF assms(2)])
    show "suffix (dropWhile (\<lambda>d. \<not> is_delim d) bs) ?bs" by (simp add: suffix_ConsI suffix_dropWhile)
    fix s1
    assume m: "moves p ?bs s s1 (dropWhile (\<lambda>d. \<not> is_delim d) bs)"
    show "ends (took p ?bs s) (retM (VBool b) s1)"
      using took_leaf [OF m] length_dropWhile_le [of _ bs] by (simp add: le_imp_less_Suc)
  qed
  have number: "ends (took p ?bs s) (bindM (skip p 2) (\<lambda>_. read_radix_number p radix) s)" for radix
  proof (rule ends_skip [OF assms(2)])
    fix s1
    assume m: "moves p ?bs s s1 (drop 2 ?bs)"
    have len: "length (drop 2 ?bs) < length ?bs" by (simp add: numeral_2_eq_2)
    have "port_at s1 p (drop 2 ?bs)" using m by (simp add: moves_def)
    from ends_radix [OF this] show "ends (took p ?bs s) (read_radix_number p radix s1)"
    proof (rule ends_weaken)
      fix v s2
      assume "\<exists>bs'. moves p (drop 2 ?bs) s1 s2 bs' \<and> finite_list s2 v"
      then obtain bs' where b: "moves p (drop 2 ?bs) s1 s2 bs'" "finite_list s2 v" by blast
      show "took p ?bs s v s2"
        by (rule took_now [OF moves_trans [OF m b(1)] _ b(2)]) (use moves_length [OF b(1)] len in linarith)
    qed
  qed
  have vector: "ends (took p ?bs s) (bindM (skip p 2) (\<lambda>_. bindM (read_list n A p (CHR '')'')) (\<lambda>l.
       bindM (creme_list_length l) (\<lambda>n. bindM (creme_list_to_values l n ''read'') new_vector))) s)"
  proof (rule ends_hash_list [OF assms])
    fix l s' vs t
    assume l: "list_items l s' = Done (vs, t) s'"
    have "ends (\<lambda>ws s''. s'' = s') (creme_list_to_values l (length vs) ''read'' s')"
      using l by (cases "t = VNil") (simp_all add: creme_list_to_values_def bind_abort guardM_def)
    then have "ends (\<lambda>v s''. \<not> pair_val v \<and> h_pairs s'' = h_pairs s' \<and> h_ports s'' = h_ports s')
        (bindM (creme_list_to_values l (length vs) ''read'') new_vector s')"
      by (rule ends_then) simp
    then show "ends (\<lambda>v s''. \<not> pair_val v \<and> h_pairs s'' = h_pairs s' \<and> h_ports s'' = h_ports s')
        (bindM (creme_list_length l) (\<lambda>n. bindM (creme_list_to_values l n ''read'') new_vector) s')"
      using l by (simp add: creme_list_length_def)
  qed simp_all
  have bytes: "ends (took p ?bs s) (bindM (skip p 4) (\<lambda>_. bindM (read_list n A p (CHR '')'')) (\<lambda>l.
       bindM (list_items l) (\<lambda>(vs, tail). bindM (byte_elements vs) creme_bytevector_value))) s)"
  proof (rule ends_hash_list [OF assms])
    fix l s' vs t
    assume l: "list_items l s' = Done (vs, t) s'"
    have "ends (\<lambda>v s''. \<not> pair_val v \<and> h_pairs s'' = h_pairs s' \<and> h_ports s'' = h_ports s')
        (bindM (byte_elements vs) creme_bytevector_value s')"
      by (rule ends_then, rule ends_bytes) (simp add: creme_bytevector_value_def)
    then show "ends (\<lambda>v s''. \<not> pair_val v \<and> h_pairs s'' = h_pairs s' \<and> h_ports s'' = h_ports s')
        (bindM (list_items l) (\<lambda>(vs, tail). bindM (byte_elements vs) creme_bytevector_value) s')" using l by simp
  qed simp_all
  show ?case using fails bool number vector bytes ends_char [OF assms(2)]
    by (cases "bs = []") (simp_all add: Let_def)
qed

lemma datum_step:
  assumes "ws_ok A n" "datum_ok A n" "list_ok A n"
  shows "datum_ok A (Suc n)"
  unfolding datum_ok_def
proof (intro allI impI)
  fix p s bs
  assume at: "port_at s p bs" and bar: "bar_free bs" and fuel: "3 * length bs + 2 \<le> Suc n"
  show "ends (took p bs s) (read_datum_text (Suc n) A p s)"
    unfolding read_datum_text.simps read_datum_body_def
  proof (rule ends_then, rule ws_from [OF assms(1) moves_refl [OF at] bar])
    fix u s1
    assume "ws_done p bs s u s1"
    then obtain bs1 where m1: "moves p bs s s1 bs1" and stop: "bs1 = [] \<or> \<not> is_blank (hd bs1) \<and> hd bs1 \<noteq> CHR '';''"
      by (auto simp: ws_done_def)
    note at1 = movesD [OF m1 bar]
    have fuel1: "3 * length bs1 + 1 \<le> n" using at1 fuel by simp
    have "ends (took p bs1 s1) (read_datum_at A (read_list n A) (read_datum_text n A) p bs1 s1)"
    proof (cases bs1)
      case Nil
      then show ?thesis using moves_refl [OF conjunct1 [OF at1]]
        by (auto simp: read_datum_at_def eof_object_def intro!: took_leaf)
    next
      case (Cons c left)
      have port: "port_at s1 p (c # left)" using at1 Cons by simp
      have sub: "ends (took p (c # left) s1) (bindM (read_on p left') (\<lambda>_. m) s1)"
        if "suffix left' left" "\<And>s2. moves p (c # left) s1 s2 left' \<Longrightarrow> ends (took p left' s2) (m s2)" for left' and m :: "val M"
      proof (rule ends_on [OF port])
        show "suffix left' (c # left)" using that(1) by (simp add: suffix_ConsI)
        fix s2
        assume m2: "moves p (c # left) s1 s2 left'"
        show "ends (took p (c # left) s1) (m s2)"
          by (rule ends_weaken [OF that(2) [OF m2] took_after [OF m2]])
      qed
      have lists: "ends (took p left s2) (read_list n A p close s2)" if "moves p (c # left) s1 s2 left" for s2 close
        using list_from [OF assms(3) that] at1 Cons fuel1 by simp
      have data: "ends (took p left' s2) (quote_form name (read_datum_text n A p) s2)"
        if "moves p (c # left) s1 s2 left'" "suffix left' left" for s2 left' name
        using datum_from [OF assms(2) that(1)] at1 Cons fuel1 suffix_length_le [OF that(2)] by (intro ends_quote) simp
      have tails: "suffix left left" "suffix (tl left) left" by (simp_all add: suffix_tl)
      have hash: "ends (took p (c # left) s1) (read_hash_body (read_list n A) p s1)" if "c = CHR ''#''"
        using ends_hash [OF assms(3), of s1 p left] port at1 Cons fuel1 that by simp
      have token: "ends (took p (c # left) s1) (read_token A p s1)" if "\<not> is_delim c"
        using ends_token [OF port] that by simp
      have "c \<noteq> CHR ''|''" using at1 Cons by (auto simp: bar_free_def)
      then have delim: "\<not> is_delim c" if "c \<notin> {CHR ''('', CHR ''['', CHR '')'', CHR '']'', CHR 0x22, CHR 0x27, CHR 0x60, CHR '',''}"
        using that stop Cons by (auto simp: is_delim_def is_blank_def)
      have open_list: "ends (took p (c # left) s1) (bindM (read_on p left) (\<lambda>_. read_list n A p close) s1)" for close
        by (rule sub [OF tails(1) lists])
      have quoted: "ends (took p (c # left) s1) (bindM (read_on p left) (\<lambda>_. quote_form name (read_datum_text n A p)) s1)"
        "ends (took p (c # left) s1) (bindM (read_on p (tl left)) (\<lambda>_. quote_form name (read_datum_text n A p)) s1)" for name
        by (rule sub [OF tails(1) data [OF _ tails(1)]], assumption) (rule sub [OF tails(2) data [OF _ tails(2)]], assumption)
      have branch: "ends P ((if b then m else m') s1)" if "b \<Longrightarrow> ends P (m s1)" "\<not> b \<Longrightarrow> ends P (m' s1)" for P b and m m' :: "val M"
        using that by simp
      show ?thesis unfolding Cons read_datum_at_def list.case
        by (intro branch; (rule open_list | rule quoted | rule ends_string [OF port] | rule ends_abort | (rule hash, assumption)
            | (rule token, rule delim, simp)))
    qed
    then show "ends (took p bs s) (bindM (rest_of p) (read_datum_at A (read_list n A) (read_datum_text n A) p) s1)"
      by (intro ends_rest [OF conjunct1 [OF at1]]) (rule ends_weaken, assumption, rule took_after [OF m1])
  qed (use fuel in simp)
qed

lemma reader_halts: "ws_ok A n \<and> datum_ok A n \<and> list_ok A n"
proof (induction n)
  case 0
  show ?case by (simp add: ws_ok_def datum_ok_def list_ok_def)
next
  case (Suc n)
  then show ?case using ws_step datum_step list_step by blast
qed

subsection \<open>The properties\<close>

text \<open>C27. On a string port whose text has no bar \<open>read\<close> always comes back, with a value, an error or a step the language
  leaves undefined: its recursion is never deeper than three times the length of the text.\<close>

theorem read_terminates:
  assumes "p < length (h_ports s)" "po_kind (h_ports s ! p) = PORT_KIND_INPUT_STRING"
    "CHR ''|'' \<notin> set (port_rest (h_ports s ! p))"
  shows "bi_read A [VPort p] s \<noteq> Timeout"
proof -
  let ?bs = "port_rest (h_ports s ! p)"
  have at: "port_at s p ?bs" using assms(1,2) by (simp add: port_at_def)
  then have "ends (took p ?bs s) (read_datum_text (read_fuel ?bs) A p s)"
    using reader_halts [of A "read_fuel ?bs"] assms(3) unfolding datum_ok_def read_fuel_def bar_free_def by simp
  then have halt: "read_datum_text (read_fuel ?bs) A p s \<noteq> Timeout" by auto
  show ?thesis
  proof (cases "po_closed (h_ports s ! p)")
    case True
    then have "input_port_arg [VPort p] 0 ''read'' s = creme_abort ''read: port is closed'' s"
      using assms(1,2) by (simp add: input_port_arg_def port_is_input_def guardM_def bind_abort)
    then have "ends (\<lambda>_ _. True) (bi_read A [VPort p] s)"
      unfolding bi_read_def by (intro ends_then [where P = "\<lambda>_ _. False"]) simp_all
    then show ?thesis by auto
  next
    case False
    then show ?thesis using assms(1,2) halt
      by (simp add: bi_read_def input_port_arg_def port_is_input_def guardM_def)
  qed
qed

lemma word_at_bar: "port_at s p (CHR ''|'' # bs) \<Longrightarrow> read_token A p s = Done (VSym []) (moved p (CHR ''|'' # bs) s)"
proof -
  assume at: "port_at s p (CHR ''|'' # bs)"
  have "token_value A [] = TokVal (VSym [])"
    by (simp add: token_value_def scan_integer_def rational_token_def Let_def split: prod.split list.split)
  then show ?thesis using rest_of_run [OF at] read_on_run [OF at]
    by (simp add: read_token_def read_word_def is_delim_def Let_def bindM_def)
qed

lemma skip_at_bar:
  assumes "port_at s p (CHR ''|'' # bs)"
  shows "read_skip_ws n A p s = (if n = 0 then Timeout else Done () s)"
  using rest_of_run [OF assms] by (cases n) (simp_all add: read_skip_ws_body_def is_blank_def)

lemma datum_at_bar:
  assumes "port_at s p (CHR ''|'' # bs)"
  shows "read_datum_text n A p s = (if n < 2 then Timeout else Done (VSym []) (moved p (CHR ''|'' # bs) s))"
proof (cases n)
  case (Suc m)
  then show ?thesis
    using rest_of_run [OF assms] skip_at_bar [OF assms, of m A] word_at_bar [OF assms]
    by (cases m) (simp_all add: read_datum_body_def read_datum_at_def bindM_def)
qed simp

lemma list_at_bar: "port_at s p (CHR ''|'' # bs) \<Longrightarrow> close \<noteq> CHR ''|'' \<Longrightarrow> read_list n A p close s = Timeout"
proof (induction n arbitrary: s)
  case (Suc n)
  let ?t = "moved p (CHR ''|'' # bs) s"
  have "port_at ?t p (CHR ''|'' # bs)" using port_at_moved [of s p "[]"] Suc.prems(1) by simp
  from Suc.IH [OF this Suc.prems(2)] show ?case
    using Suc.prems rest_of_run [OF Suc.prems(1)] skip_at_bar [OF Suc.prems(1), of n A] datum_at_bar [OF Suc.prems(1), of n A]
    by (cases "n < 2"; cases n) (auto simp: read_list_body_def read_list_at_def bindM_def)
qed simp

lemma bar_text:
  assumes "port_at s p (CHR ''('' # CHR ''|'' # bs)"
  shows "read_datum_text n A p s = Timeout"
proof (cases n)
  case (Suc m)
  let ?bs = "CHR ''|'' # bs"
  have at: "port_at (moved p ?bs s) p ?bs" using port_at_moved [of s p "[CHR ''('']" ?bs] assms by simp
  have "read_skip_ws m A p s = (if m = 0 then Timeout else Done () s)"
    using rest_of_run [OF assms] by (cases m) (simp_all add: read_skip_ws_body_def is_blank_def)
  then show ?thesis using Suc rest_of_run [OF assms] read_on_run [OF assms, of ?bs] list_at_bar [OF at, of "CHR '')''" m A]
    by (cases m) (simp_all add: read_datum_body_def read_datum_at_def bindM_def)
qed simp

text \<open>C28. Where an element of a list should start and a bar stands instead, the reader takes the empty symbol for the element and stays
  where it is, so \<open>read_list\<close> gets past the bar with no depth of recursion; in particular \<open>read\<close> does not come back from a text that
  starts with an opening parenthesis and a bar.  \<open>write\<close> puts bars around the symbols that need them, so \<open>read\<close> does not come back from
  the text of a list that starts with such a symbol.\<close>

theorem read_bar_diverges:
  "(port_at s p (CHR ''|'' # bs) \<longrightarrow>
      (\<forall>n\<ge>2. read_datum_text n A p s = Done (VSym []) (moved p (CHR ''|'' # bs) s)) \<and>
      (\<forall>n. read_list n A p (CHR '')'') s = Timeout)) \<and>
   (port_at s p (CHR ''('' # CHR ''|'' # bs) \<longrightarrow> (\<forall>n. read_datum_text n A p s = Timeout))"
proof (intro conjI impI allI)
  show "read_datum_text n A p s = Done (VSym []) (moved p (CHR ''|'' # bs) s)" if "port_at s p (CHR ''|'' # bs)" "2 \<le> n" for n
    using datum_at_bar [OF that(1), of n A] that(2) by simp
  show "read_list n A p (CHR '')'') s = Timeout" if "port_at s p (CHR ''|'' # bs)" for n
    by (rule list_at_bar [OF that]) simp
  show "read_datum_text n A p s = Timeout" if "port_at s p (CHR ''('' # CHR ''|'' # bs)" for n by (rule bar_text [OF that])
qed

definition bar_state :: "bytes \<Rightarrow> vm" where
  "bar_state bs = vm0\<lparr>h_ports := [string_port PORT_KIND_INPUT_STRING bs False]\<rparr>"

lemma read_terminates_witness: "bi_read reference_arith [VPort 0] (bar_state ''(a #;(b) . #(1 2'') \<noteq> Timeout"
  by (rule read_terminates) (simp_all add: bar_state_def string_port_def port_rest_def)

lemma read_bar_diverges_witness: "read_datum_text 1000 reference_arith 0 (bar_state ''(|a b|)'') = Timeout"
  using read_bar_diverges [of "bar_state ''(|a b|)''" 0 "''a b|)''" reference_arith]
  by (simp add: bar_state_def string_port_def port_rest_def port_at_def)

end
