(* ===== verification/Csv_Spec.thy ===== *)
theory Csv_Spec
  imports Csv Text_Props
begin

text \<open>
  Properties of the CSV library: what the writer writes under quoting, the parser reads back cell for cell, and what a
  carriage return in a cell does to that.
\<close>

subsection \<open>The text of a table\<close>

fun cells_text :: "char \<Rightarrow> int \<Rightarrow> bool \<Rightarrow> bytes list \<Rightarrow> bytes" where
  "cells_text sep mode first [] = []"
| "cells_text sep mode first (w # ws) =
     (if first then [] else [sep]) @ csv_cell_text sep (CHR 0x22) mode True w @ cells_text sep mode False ws"

definition csv_text :: "char \<Rightarrow> int \<Rightarrow> bytes list list \<Rightarrow> bytes" where
  "csv_text sep mode rows = concat (map (\<lambda>ws. cells_text sep mode True ws @ [CHR 0x0A]) rows)"

text \<open>A cell that keeps its text: quoted, or without a carriage return; and a row that is not taken for a blank line.\<close>

definition safe_cell :: "char \<Rightarrow> int \<Rightarrow> bytes \<Rightarrow> bool" where
  "safe_cell sep mode w \<longleftrightarrow> mode = 2 \<or> mode = 1 \<and> (CHR 0x0D \<in> set w \<longrightarrow> csv_bytes_need_rfc_quote w sep (CHR 0x22))"

definition safe_row :: "char \<Rightarrow> int \<Rightarrow> bytes list \<Rightarrow> bool" where
  "safe_row sep mode ws \<longleftrightarrow> list_all (safe_cell sep mode) ws \<and> (ws = [[]] \<longrightarrow> mode = 2)"

definition plain_sep :: "char \<Rightarrow> bool" where
  "plain_sep sep \<longleftrightarrow> sep \<noteq> CHR 0x22 \<and> \<not> eol sep"

lemma quoted_cell_back:
  "rest = [] \<or> hd rest \<noteq> q \<Longrightarrow> quoted_cell q (concat (map (\<lambda>c. if c = q then [q, c] else [c]) w) @ q # rest) = (w, rest)"
proof (induction w)
  case Nil
  then show ?case by (cases rest) auto
next
  case (Cons c w)
  obtain d ds where d: "concat (map (\<lambda>c. if c = q then [q, c] else [c]) w) @ q # rest = d # ds"
    by (cases "concat (map (\<lambda>c. if c = q then [q, c] else [c]) w)") auto
  have IH: "quoted_cell q (d # ds) = (w, rest)" using Cons d by simp
  show ?case using IH d by (cases "c = q") simp_all
qed

lemma cell_back:
  assumes "plain_sep sep" "safe_cell sep mode w" "rest \<noteq> []" "hd rest = sep \<or> hd rest = CHR 0x0A"
  shows "csv_cell sep (CHR 0x22) (csv_cell_text sep (CHR 0x22) mode True w @ rest) = (w, rest)"
proof (cases "mode = 2 \<or> mode = 1 \<and> csv_bytes_need_rfc_quote w sep (CHR 0x22)")
  case True
  have "hd rest \<noteq> CHR 0x22" using assms(1,4) by (auto simp: plain_sep_def)
  with True show ?thesis using quoted_cell_back [of rest "CHR 0x22" w] by (simp add: csv_cell_text_def csv_cell_def)
next
  case False
  then have w: "\<forall>c \<in> set w. c \<noteq> sep \<and> c \<noteq> CHR 0x22 \<and> \<not> eol c"
    using assms(2) by (auto simp: safe_cell_def csv_bytes_need_rfc_quote_def list_ex_iff eol_def)
  have stop: "takeWhile (\<lambda>c. c \<noteq> sep \<and> \<not> eol c) rest = []" using assms(3,4) by (cases rest) (auto simp: eol_def)
  have "takeWhile (\<lambda>c. c \<noteq> sep \<and> \<not> eol c) (w @ rest) = w" using w stop by (simp add: takeWhile_append2)
  moreover have "hd (w @ rest) \<noteq> CHR 0x22" using w assms(1,4) by (cases w) (auto simp: plain_sep_def)
  moreover have "csv_cell_text sep (CHR 0x22) mode True w = w" using False by (auto simp: csv_cell_text_def)
  ultimately show ?thesis by (simp add: csv_cell_def plain_cell_def Let_def)
qed

lemma safe_cell_first:
  assumes "safe_cell sep mode w" "csv_cell_text sep (CHR 0x22) mode True w \<noteq> []"
  shows "\<not> eol (hd (csv_cell_text sep (CHR 0x22) mode True w))"
  using assms by (cases w) (auto simp: csv_cell_text_def safe_cell_def csv_bytes_need_rfc_quote_def eol_def split: if_splits)

lemma cells_back:
  assumes "plain_sep sep" "list_all (safe_cell sep mode) ws" "ws \<noteq> []"
  shows "csv_cells sep (CHR 0x22) (cells_text sep mode True ws @ CHR 0x0A # rest) = (ws, rest)"
  using assms(2,3)
proof (induction ws)
  case (Cons w ws)
  let ?t = "csv_cell_text sep (CHR 0x22) mode True"
  show ?case
  proof (cases ws)
    case Nil
    have "csv_cell sep (CHR 0x22) (?t w @ CHR 0x0A # rest) = (w, CHR 0x0A # rest)"
      using Cons.prems by (intro cell_back [OF assms(1)]) simp_all
    then show ?thesis using Nil assms(1) by (subst csv_cells.simps) (auto simp: eol_def take_eol_def plain_sep_def)
  next
    case (Cons w' ws')
    let ?left = "cells_text sep mode True ws @ CHR 0x0A # rest"
    have split: "cells_text sep mode True (w # ws) @ CHR 0x0A # rest = ?t w @ sep # ?left" using Cons by simp
    have cell: "csv_cell sep (CHR 0x22) (?t w @ sep # ?left) = (w, sep # ?left)"
      using Cons.prems by (intro cell_back [OF assms(1)]) simp_all
    have IH: "csv_cells sep (CHR 0x22) ?left = (ws, rest)" using Cons.IH Cons.prems Cons by simp
    have safe: "safe_cell sep mode w'" using Cons.prems Cons by simp
    show ?thesis
    proof (cases "eol (hd ?left)")
      case True
      have empty: "?t w' = []" using safe_cell_first [OF safe] True Cons by (cases "?t w'") auto
      then have "ws' = []" using True Cons assms(1) by (cases ws') (auto simp: plain_sep_def)
      moreover have "w' = []" using empty by (auto simp: csv_cell_text_def split: if_splits)
      ultimately show ?thesis unfolding split using cell Cons empty
        by (subst csv_cells.simps) (simp add: eol_def take_eol_def)
    next
      case False
      then show ?thesis unfolding split using cell IH by (subst csv_cells.simps) simp
    qed
  qed
qed simp

lemma row_back:
  assumes "plain_sep sep" "safe_row sep mode ws"
  shows "csv_parse_row sep (CHR 0x22) (cells_text sep mode True ws @ CHR 0x0A # rest) = Some (ws, rest)"
proof (cases ws)
  case Nil
  then show ?thesis by (simp add: csv_parse_row_def eol_def take_eol_def)
next
  case (Cons w ws')
  let ?bs = "cells_text sep mode True ws @ CHR 0x0A # rest"
  have "\<not> eol (hd ?bs)"
  proof (cases "csv_cell_text sep (CHR 0x22) mode True w")
    case Nil
    then have "w = []" "mode \<noteq> 2" by (auto simp: csv_cell_text_def split: if_splits)
    then have "ws' \<noteq> []" using assms(2) Cons by (auto simp: safe_row_def)
    then show ?thesis using Cons Nil assms(1) by (cases ws') (auto simp: plain_sep_def)
  next
    case (Cons c cs)
    then show ?thesis using safe_cell_first [of sep mode w] assms(2) \<open>ws = w # ws'\<close> by (auto simp: safe_row_def)
  qed
  moreover have "csv_cells sep (CHR 0x22) ?bs = (ws, rest)"
    using cells_back [OF assms(1), of mode ws rest] assms(2) Cons by (simp add: safe_row_def del: cells_text.simps)
  ultimately show ?thesis by (cases ?bs) (simp_all add: csv_parse_row_def)
qed

lemma rows_back:
  assumes "plain_sep sep" "\<forall>ws \<in> set rows. safe_row sep mode ws"
  shows "csv_rows sep (CHR 0x22) (csv_text sep mode rows) = rows"
  using assms(2)
proof (induction rows)
  case Nil
  then show ?case by (simp add: csv_text_def csv_rows.simps csv_parse_row_def)
next
  case (Cons ws rows)
  then show ?case using row_back [OF assms(1), of mode ws "csv_text sep mode rows"]
    by (subst csv_rows.simps) (simp add: csv_text_def)
qed

subsection \<open>Tables in the heap\<close>

definition csv_table :: "bytes list list \<Rightarrow> datum" where
  "csv_table rows = DVector (map (\<lambda>ws. DVector (map (DText 5) ws)) rows)"

definition allocates :: "('a \<Rightarrow> val M) \<Rightarrow> ('a \<Rightarrow> datum) \<Rightarrow> bool" where
  "allocates f g \<longleftrightarrow> (\<forall>x s. \<exists>v s'. f x s = Done v s' \<and> more_heap s s' \<and> has_datum s' v (g x))"

lemma allocates_str: "allocates new_str (DText 5)"
  by (simp add: allocates_def has_datum_str more_heap_def)

lemma allocates_mapM:
  assumes "allocates f g"
  shows "\<exists>vs s'. mapM f xs s = Done vs s' \<and> more_heap s s' \<and> list_all2 (has_datum s') vs (map g xs)"
proof (induction xs arbitrary: s)
  case (Cons x xs)
  from assms obtain v s1 where 1: "f x s = Done v s1" "more_heap s s1" "has_datum s1 v (g x)" unfolding allocates_def by blast
  from Cons.IH [of s1] obtain vs s2 where 2: "mapM f xs s1 = Done vs s2" "more_heap s1 s2" "list_all2 (has_datum s2) vs (map g xs)"
    by blast
  show ?case using 1 2 more_heap_trans [OF 1(2) 2(2)] has_datum_more [OF 2(2) 1(3)] by (simp add: bindM_def)
qed simp

lemma allocates_vector:
  assumes "allocates f g"
  shows "allocates (\<lambda>xs. bindM (mapM f xs) new_vector) (\<lambda>xs. DVector (map g xs))"
  unfolding allocates_def
proof (intro allI)
  fix xs s
  from allocates_mapM [OF assms] obtain vs s' where
    r: "mapM f xs s = Done vs s'" "more_heap s s'" "list_all2 (has_datum s') vs (map g xs)" by blast
  let ?t = "s'\<lparr>h_vecs := h_vecs s' @ [vs]\<rparr>"
  have more: "more_heap s' ?t" by (simp add: more_heap_def)
  then show "\<exists>v s'. bindM (mapM f xs) new_vector s = Done v s' \<and> more_heap s s' \<and> has_datum s' v (DVector (map g xs))"
    using r more_heap_trans [OF r(2) more] has_data_more [OF r(3) more] by (simp add: bindM_def has_datum_vector)
qed

lemma allocates_rows: "allocates row_vector (\<lambda>ws. DVector (map (DText 5) ws))"
  unfolding row_vector_def by (rule allocates_vector [OF allocates_str])

text \<open>The writer on the values of a table.\<close>

lemma append_run: "int (length out + length bs) \<le> 2 ^ 30 \<Longrightarrow> dynbuf_append out bs s = Done (out @ bs) s"
  by (simp add: dynbuf_append_def guardM_def)

lemma string_value: "has_datum s v (DText 5 w) \<Longrightarrow> \<exists>p. v = VStr p \<and> p < length (h_strs s) \<and> h_strs s ! p = w"
  using has_datum_inv(3) [of s v 5 w] by (auto simp: has_datum_iff)

lemma write_cells_run:
  assumes "list_all2 (has_datum s) vs (map (DText 5) ws)" "int (length out + length (cells_text sep mode first ws)) \<le> 2 ^ 30"
  shows "csv_write_cells A sep (CHR 0x22) mode first out vs s = Done (out @ cells_text sep mode first ws) s"
  using assms
proof (induction ws arbitrary: vs out first)
  case (Cons w ws)
  then obtain v vs' where v: "vs = v # vs'" "has_datum s v (DText 5 w)" "list_all2 (has_datum s) vs' (map (DText 5) ws)"
    by (auto simp: list_all2_Cons2)
  let ?pre = "if first then [] else [sep]" and ?t = "csv_cell_text sep (CHR 0x22) mode True w"
  obtain p where p: "v = VStr p" "p < length (h_strs s)" "h_strs s ! p = w" using string_value [OF v(2)] by blast
  have len: "int (length (out @ ?pre @ ?t) + length (cells_text sep mode False ws)) \<le> 2 ^ 30" using Cons.prems(2) by simp
  have "(if first then retM out else dynbuf_append out [sep]) s = Done (out @ ?pre) s"
    using len by (cases first) (simp_all add: append_run)
  moreover have "csv_cell_bytes A v s = Done w s" using p by (simp add: csv_cell_bytes_def)
  moreover have "dynbuf_append (out @ ?pre) ?t s = Done ((out @ ?pre) @ ?t) s" using len by (intro append_run) simp
  ultimately show ?case using Cons.IH [OF v(3) len] p(1) v(1) by (simp add: bindM_def)
qed simp

lemma write_rows_run:
  assumes "list_all2 (has_datum s) vs (map (\<lambda>ws. DVector (map (DText 5) ws)) rows)"
    "int (length out + length (csv_text sep mode rows)) \<le> 2 ^ 30"
  shows "csv_write_rows A sep mode out vs s = Done (out @ csv_text sep mode rows) s"
  using assms
proof (induction rows arbitrary: vs out)
  case (Cons ws rows)
  then obtain v vs' where v: "vs = v # vs'" "has_datum s v (DVector (map (DText 5) ws))"
    "list_all2 (has_datum s) vs' (map (\<lambda>ws. DVector (map (DText 5) ws)) rows)" by (auto simp: list_all2_Cons2)
  obtain p where p: "v = VVector p" using has_datum_inv(2) v(2) by blast
  then have cells: "p < length (h_vecs s)" "list_all2 (has_datum s) (h_vecs s ! p) (map (DText 5) ws)"
    using v(2) by (auto simp: has_datum_vector)
  let ?row = "cells_text sep mode True ws"
  have len: "int (length out + length ?row) \<le> 2 ^ 30" "int (length (out @ ?row) + 1) \<le> 2 ^ 30"
    "int (length (out @ ?row @ [CHR 0x0A]) + length (csv_text sep mode rows)) \<le> 2 ^ 30"
    using Cons.prems(2) by (simp_all add: csv_text_def)
  have "csv_write_row A sep (CHR 0x22) mode out (h_vecs s ! p) s = Done (out @ ?row @ [CHR 0x0A]) s"
    using write_cells_run [OF cells(2) len(1)] len(2) by (simp add: csv_write_row_def append_run)
  then show ?case using Cons.IH [OF v(3) len(3)] p cells(1) v(1) by (simp add: csv_seq_to_array_def csv_text_def)
qed (simp add: csv_text_def)

text \<open>What comes back from the text of a table is what the parser makes of that text.\<close>

lemma write_read_table:
  assumes "has_datum s v (csv_table rows)" "m = ''rfc'' \<and> mode = 1 \<or> m = ''all'' \<and> mode = 2"
    "int (length (csv_text sep mode rows)) \<le> 2 ^ 30"
  shows "\<exists>p s1 w s2. bi_csv_write A [v, VChar (of_char sep), VSym m] s = Done (VStr p) s1 \<and>
    bi_csv_read [VStr p, VChar (of_char sep)] s1 = Done w s2 \<and>
    has_datum s2 w (csv_table (csv_rows sep (CHR 0x22) (csv_text sep mode rows))) \<and> has_datum s2 v (csv_table rows)"
proof -
  let ?text = "csv_text sep mode rows" and ?p = "length (h_strs s)"
  let ?s1 = "s\<lparr>h_strs := h_strs s @ [?text]\<rparr>"
  obtain a where a: "v = VVector a" using has_datum_inv(2) assms(1) unfolding csv_table_def by blast
  then have cells: "a < length (h_vecs s)" "list_all2 (has_datum s) (h_vecs s ! a) (map (\<lambda>ws. DVector (map (DText 5) ws)) rows)"
    using assms(1) by (auto simp: has_datum_vector csv_table_def)
  have "csv_quoting_arg [v, VChar (of_char sep), VSym m] 2 s = Done mode s" using assms(2) by (auto simp: csv_quoting_arg_def)
  moreover have "csv_write_rows A sep mode [] (h_vecs s ! a) s = Done ?text s" using write_rows_run [OF cells(2), of "[]"] assms(3) by simp
  ultimately have written: "bi_csv_write A [v, VChar (of_char sep), VSym m] s = Done (VStr ?p) ?s1"
    using a cells(1) by (simp add: bi_csv_write_def csv_char_arg_def csv_seq_to_array_def creme_check_min_args_def guardM_def)
  from allocates_vector [OF allocates_rows] obtain w s2 where
    w: "bindM (mapM row_vector (csv_rows sep (CHR 0x22) ?text)) new_vector ?s1 = Done w s2" "more_heap ?s1 s2"
      "has_datum s2 w (csv_table (csv_rows sep (CHR 0x22) ?text))"
    unfolding allocates_def csv_table_def by blast
  have "bi_csv_read [VStr ?p, VChar (of_char sep)] ?s1 = Done w s2"
    using w(1) by (simp add: bi_csv_read_def csv_char_arg_def)
  moreover have "has_datum s2 v (csv_table rows)"
    using has_datum_more [OF more_heap_trans [OF _ w(2)] assms(1)] by (simp add: more_heap_def)
  ultimately show ?thesis using written w(3) by blast
qed

text \<open>C31. A table of strings that \<open>csv-write\<close> writes with its quoting, \<open>csv-read\<close> reads back row for row and cell for cell, for
  every separator that is neither the quote nor an end of line; with the quoting \<open>rfc\<close> a cell with a carriage return must
  have another reason to be quoted, and a row must not be one empty cell.\<close>

theorem csv_roundtrip:
  assumes "has_datum s v (csv_table rows)" "plain_sep sep" "m = ''rfc'' \<and> mode = 1 \<or> m = ''all'' \<and> mode = 2"
    "\<forall>ws \<in> set rows. safe_row sep mode ws" "int (length (csv_text sep mode rows)) \<le> 2 ^ 30"
  shows "\<exists>p s1 w s2. bi_csv_write A [v, VChar (of_char sep), VSym m] s = Done (VStr p) s1 \<and>
    bi_csv_read [VStr p, VChar (of_char sep)] s1 = Done w s2 \<and> has_datum s2 w (csv_table rows) \<and> has_datum s2 v (csv_table rows)"
  using write_read_table [OF assms(1,3,5)] rows_back [OF assms(2,4)] by simp

text \<open>A carriage return alone does not make \<open>rfc\<close> quote a cell, and \<open>csv-read\<close> takes it for the end of a row: one cell
  comes back as two rows.\<close>

theorem csv_carriage_return_splits:
  assumes "has_datum s v (csv_table [[a @ CHR 0x0D # b]])" "plain_sep sep" "a \<noteq> []" "b \<noteq> []"
    "\<forall>c \<in> set a \<union> set b. c \<noteq> sep \<and> c \<noteq> CHR 0x22 \<and> \<not> eol c" "int (length a + length b) + 2 \<le> 2 ^ 30"
  shows "\<exists>p s1 w s2. bi_csv_write A [v, VChar (of_char sep), VSym ''rfc''] s = Done (VStr p) s1 \<and>
    bi_csv_read [VStr p, VChar (of_char sep)] s1 = Done w s2 \<and> has_datum s2 w (csv_table [[a], [b]])"
proof -
  have plain: "\<not> csv_bytes_need_rfc_quote (a @ CHR 0x0D # b) sep (CHR 0x22)"
    using assms(2,5) by (auto simp: csv_bytes_need_rfc_quote_def list_ex_iff eol_def plain_sep_def)
  then have txt_eq: "csv_text sep 1 [[a @ CHR 0x0D # b]] = a @ CHR 0x0D # b @ [CHR 0x0A]"
    by (simp add: csv_text_def csv_cell_text_def)
  have cell: "csv_cell sep (CHR 0x22) (w @ c # rest) = (w, c # rest)" if "w \<noteq> []" "\<forall>c \<in> set w. c \<noteq> sep \<and> c \<noteq> CHR 0x22 \<and> \<not> eol c" "eol c"
    for w c rest
    using that by (cases w) (auto simp: csv_cell_def plain_cell_def Let_def takeWhile_append2)
  have row: "csv_parse_row sep (CHR 0x22) (w @ c # rest) = Some ([w], take_eol (c # rest))"
    if "w \<noteq> []" "\<forall>c \<in> set w. c \<noteq> sep \<and> c \<noteq> CHR 0x22 \<and> \<not> eol c" "eol c" for w c rest
  proof -
    have "csv_cells sep (CHR 0x22) (w @ c # rest) = ([w], take_eol (c # rest))"
      using cell [OF that, of rest] that(3) assms(2) by (subst csv_cells.simps) (auto simp: plain_sep_def)
    then show ?thesis using that(1,2) by (cases w) (simp_all add: csv_parse_row_def)
  qed
  have eols: "eol (CHR 0x0D)" "eol (CHR 0x0A)" by (simp_all add: eol_def)
  have a: "csv_parse_row sep (CHR 0x22) (a @ CHR 0x0D # b @ [CHR 0x0A]) = Some ([a], b @ [CHR 0x0A])"
    using row [OF assms(3) _ eols(1), of "b @ [CHR 0x0A]"] assms(4,5) by (cases b) (auto simp: take_eol_def eol_def)
  have b: "csv_parse_row sep (CHR 0x22) (b @ [CHR 0x0A]) = Some ([b], [])"
    using row [OF assms(4) _ eols(2), of "[]"] assms(5) by (simp add: take_eol_def)
  have "csv_rows sep (CHR 0x22) (a @ CHR 0x0D # b @ [CHR 0x0A]) = [[a], [b]]"
    using a b by (subst csv_rows.simps, simp, subst csv_rows.simps, simp, subst csv_rows.simps, simp add: csv_parse_row_def)
  with write_read_table [OF assms(1), of "''rfc''" 1 sep A] txt_eq assms(6) show ?thesis by (simp, blast)
qed

definition csv_state :: vm where
  "csv_state = vm0\<lparr>h_strs := [''a;b'', [CHR 0x22, CHR 0x0A], ''x'' @ CHR 0x0D # ''y''],
     h_vecs := [[VStr 0, VStr 1], [VVector 0, VVector 2], [], [VStr 2], [VVector 3]]\<rparr>"

lemma csv_roundtrip_witness:
  "\<exists>p s1 w s2. bi_csv_write reference_arith [VVector 1, VChar (of_char (CHR '';'')), VSym ''rfc''] csv_state = Done (VStr p) s1 \<and>
    bi_csv_read [VStr p, VChar (of_char (CHR '';''))] s1 = Done w s2 \<and>
    has_datum s2 w (csv_table [[''a;b'', [CHR 0x22, CHR 0x0A]], []]) \<and>
    has_datum s2 (VVector 1) (csv_table [[''a;b'', [CHR 0x22, CHR 0x0A]], []])"
  by (rule csv_roundtrip [of _ _ _ _ _ 1])
    (simp_all add: csv_state_def csv_table_def has_datum_vector has_datum_str plain_sep_def eol_def safe_row_def safe_cell_def
      csv_text_def csv_cell_text_def csv_bytes_need_rfc_quote_def)

lemma csv_carriage_return_splits_witness:
  "\<exists>p s1 w s2. bi_csv_write reference_arith [VVector 4, VChar (of_char (CHR '';'')), VSym ''rfc''] csv_state = Done (VStr p) s1 \<and>
    bi_csv_read [VStr p, VChar (of_char (CHR '';''))] s1 = Done w s2 \<and> has_datum s2 w (csv_table [[''x''], [''y'']])"
  by (rule csv_carriage_return_splits)
    (simp_all add: csv_state_def csv_table_def has_datum_vector has_datum_str plain_sep_def eol_def)

end
