(* ===== verification/Json_Spec.thy ===== *)
theory Json_Spec
  imports Json_Props Loader_Props
begin

text \<open>
  Properties of the JSON library: \<open>json-read\<close> reads back what \<open>json-write\<close> writes, and whatever the bytes, it comes back
  with a value of a JSON document or with an error.
\<close>

subsection \<open>Strings and numbers\<close>

lemma hex_digits:
  assumes "n < 32"
  shows "list_all (is_digit_in 16) [CHR ''0'', CHR ''0'', if n < 16 then CHR ''0'' else CHR ''1'',
      if n mod 16 < 10 then char_of (48 + n mod 16) else char_of (87 + n mod 16)] \<and>
    radix_val 16 0 [CHR ''0'', CHR ''0'', if n < 16 then CHR ''0'' else CHR ''1'',
      if n mod 16 < 10 then char_of (48 + n mod 16) else char_of (87 + n mod 16)] = n"
proof -
  have "\<forall>n \<in> set [0..<32]. list_all (is_digit_in 16) [CHR ''0'', CHR ''0'', if n < 16 then CHR ''0'' else CHR ''1'',
      if n mod 16 < 10 then char_of (48 + n mod 16) else char_of (87 + n mod 16)] \<and>
    radix_val 16 0 [CHR ''0'', CHR ''0'', if n < 16 then CHR ''0'' else CHR ''1'',
      if n mod 16 < 10 then char_of (48 + n mod 16) else char_of (87 + n mod 16)] = n" by code_simp
  with assms show ?thesis by auto
qed

lemma read_json_char:
  assumes "length b < 2 ^ 30"
  shows "json_string_chars b (json_char c @ rest) = json_string_chars (b @ [c]) rest"
proof (cases "c \<in> {CHR 0x22, CHR 0x5C, CHR 0x0A, CHR 0x0D, CHR 0x09}")
  case True
  then show ?thesis using assms by (auto simp: json_char_def json_unescape_def gbuf_puts_def rbind_def)
next
  case False
  show ?thesis
  proof (cases "(of_char c :: nat) < 32")
    case True
    have "utf8 (of_char c) = [c]" using True by (simp add: utf8_def)
    then show ?thesis using False True assms hex_digits [OF True]
      by (simp add: json_char_def gbuf_puts_def rbind_def Let_def)
  next
    case f: False
    then show ?thesis using False assms by (simp add: json_char_def gbuf_puts_def rbind_def)
  qed
qed

lemma read_json_chars:
  "length b + length cs \<le> 2 ^ 30 \<Longrightarrow> json_string_chars b (concat (map json_char cs) @ CHR 0x22 # rest) = Inr (b @ cs, rest)"
proof (induction cs arbitrary: b)
  case (Cons c cs)
  then show ?case using read_json_char [of b c "concat (map json_char cs) @ CHR 0x22 # rest"] by simp
qed simp

text \<open>What follows a value: the end, a comma, or a closing bracket.\<close>

definition stops :: "bytes \<Rightarrow> bool" where
  "stops rest \<longleftrightarrow> rest = [] \<or> hd rest \<in> {CHR '','', CHR '']'', CHR ''}''}"

lemma dec_nat_shape: "dec_nat n \<noteq> []" "hd (dec_nat n @ rest) \<noteq> CHR ''-''" "dec_nat n \<noteq> ''-''"
proof -
  have d: "list_all is_digit (dec_nat n)" "dec_nat n \<noteq> []" using dec_nat_digits by blast+
  then show "dec_nat n \<noteq> []" "hd (dec_nat n @ rest) \<noteq> CHR ''-''" "dec_nat n \<noteq> ''-''"
    by (cases "dec_nat n"; auto dest: digit_not_sign)+
qed

lemma stops_simps:
  assumes "stops rest"
  shows "takeWhile is_digit rest = []" "rest \<noteq> [] \<Longrightarrow> hd rest \<noteq> CHR ''.'' \<and> hd rest \<noteq> CHR ''e'' \<and> hd rest \<noteq> CHR ''E''"
  using assms by (cases rest; auto simp: stops_def is_digit_def)+

lemma number_token_dec:
  assumes "stops rest"
  shows "number_token (dec i @ rest) = (dec i, False)"
proof -
  have take: "takeWhile is_digit (dec_nat n @ rest) = dec_nat n" for n
    using stops_simps(1) [OF assms] dec_nat_digits [of n] by (simp add: list_all_iff takeWhile_append2)
  have no_exp: "\<not> (rest \<noteq> [] \<and> hd rest = CHR ''.'')" "\<not> (rest \<noteq> [] \<and> (hd rest = CHR ''e'' \<or> hd rest = CHR ''E''))"
    using stops_simps(2) [OF assms] by blast+
  have "number_token (dec_nat n @ rest) = (dec_nat n, False)" "number_token (CHR ''-'' # dec_nat n @ rest) = (CHR ''-'' # dec_nat n, False)"
    for n
    unfolding number_token_def using take [of n] dec_nat_shape(1,2) [of n] no_exp by (simp_all add: Let_def)
  then show ?thesis by (simp add: dec_def)
qed

lemma read_json_int:
  assumes "int64 i" "stops rest"
  shows "json_parse_number A (dec i @ rest) s = Done (VInt i, rest) s"
proof -
  have "dec i \<noteq> ''-''" using dec_nat_shape by (simp add: dec_def)
  moreover have "scan_integer 10 (dec i) = Some (i, [])" using scan_dec [of "[]" i] by simp
  ultimately show ?thesis using number_token_dec [OF assms(2), of i] assms(1) by (simp add: json_parse_number_def)
qed

subsection \<open>Reading what was written\<close>

definition json_reads :: "json_reader \<Rightarrow> bytes \<Rightarrow> datum \<Rightarrow> bool" where
  "json_reads pv w d \<longleftrightarrow> (\<forall>rest s. stops rest \<longrightarrow>
     (\<exists>v s'. pv (w @ rest) s = Done (v, rest) s' \<and> more_heap s s' \<and> has_datum s' v d))"

lemma json_readsD:
  assumes "json_reads pv w d" "stops rest"
  obtains v s' where "pv (w @ rest) s = Done (v, rest) s'" "more_heap s s'" "has_datum s' v d"
  using assms unfolding json_reads_def by blast

text \<open>The first character of the text of a value.\<close>

definition opens :: "bytes \<Rightarrow> bool" where
  "opens w \<longleftrightarrow> w \<noteq> [] \<and> \<not> json_blank (hd w) \<and> hd w \<notin> {CHR '']'', CHR ''}''}"

lemma opens_skip: "opens w \<Longrightarrow> jr_skip_ws (w @ rest) = w @ rest"
  by (cases w) (auto simp: opens_def jr_skip_ws_def)

lemma stops_skip: "stops rest \<Longrightarrow> jr_skip_ws rest = rest"
  by (cases rest) (auto simp: stops_def jr_skip_ws_def json_blank_def)

lemma text_opens: "exact_json j \<Longrightarrow> opens (to_text A j)"
proof (cases j)
  case (JInt i)
  then show ?thesis using dec_nat_digits [of "nat \<bar>i\<bar>"]
    by (cases "dec_nat (nat \<bar>i\<bar>)") (auto simp: opens_def dec_def json_blank_def is_digit_def)
qed (auto simp: opens_def json_blank_def str_text_def)

lemma read_json_string:
  assumes "length cs \<le> 2 ^ 30"
  shows "\<exists>v s'. json_parse_string (concat (map json_char cs) @ CHR 0x22 # rest) s = Done (v, rest) s' \<and> more_heap s s' \<and>
    has_datum s' v (DText 5 cs)"
  using read_json_chars [of "[]" cs rest] assms by (simp add: json_parse_string_def has_datum_str more_heap_def)

lemma seq_text_Cons: "seq_text False (t # ts) = CHR '','' # seq_text True (t # ts)"
  by (simp add: comma_def)

declare seq_text.simps [simp del]

lemma seq_text_nil [simp]: "seq_text first [] = []"
  by (simp add: seq_text.simps)

lemma seq_text_first: "seq_text True (t # ts) = t @ (if ts = [] then [] else CHR '','' # seq_text True ts)"
  by (cases ts) (simp_all add: seq_text.simps comma_def)

lemma seq_text_length: "t \<in> set ts \<Longrightarrow> length t \<le> length (seq_text first ts)"
  by (induction ts arbitrary: first) (auto simp: seq_text.simps trans_le_add2)

text \<open>The elements of an array and the entries of an object.\<close>

lemma stops_simps2 [simp]: "stops (CHR '','' # bs)" "stops (CHR '']'' # bs)" "stops (CHR ''}'' # bs)"
  by (simp_all add: stops_def)

lemma skip_simps [simp]: "jr_skip_ws (CHR '','' # bs) = CHR '','' # bs" "jr_skip_ws (CHR '']'' # bs) = CHR '']'' # bs"
  "jr_skip_ws (CHR ''}'' # bs) = CHR ''}'' # bs" "jr_skip_ws (CHR '':'' # bs) = CHR '':'' # bs" "jr_skip_ws (CHR 0x22 # bs) = CHR 0x22 # bs"
  by (simp_all add: jr_skip_ws_def json_blank_def)

lemma read_items:
  assumes "list_all2 (json_reads item) ts ds" "\<forall>t \<in> set ts. opens t" "ts \<noteq> []" "length ts \<le> n" "close \<in> {CHR '']'', CHR ''}''}"
  shows "\<exists>vs s'. json_items n item close what (seq_text True ts @ close # rest) s = Done (vs, rest) s' \<and> more_heap s s' \<and>
    list_all2 (has_datum s') vs ds"
  using assms
proof (induction arbitrary: n s rule: list_all2_induct)
  case (Cons t ts d ds)
  obtain m where n: "n = Suc m" "length ts \<le> m" using Cons.prems by (cases n) auto
  let ?left = "if ts = [] then close # rest else CHR '','' # seq_text True ts @ close # rest"
  have full: "seq_text True (t # ts) @ close # rest = t @ ?left" by (simp add: seq_text_first)
  have stop: "stops ?left" using Cons.prems(4) by auto
  from json_readsD [OF Cons.hyps(1) stop] obtain v s1 where
    v: "item (t @ ?left) s = Done (v, ?left) s1" "more_heap s s1" "has_datum s1 v d" .
  have skip: "jr_skip_ws (t @ ?left) = t @ ?left" "jr_skip_ws ?left = ?left"
    using Cons.prems(1) opens_skip stops_skip [OF stop] by auto
  have "close \<noteq> CHR '',''" using Cons.prems(4) by auto
  note run = v(1) skip n this
  show ?case
  proof (cases "ts = []")
    case True
    then show ?thesis using run v(2,3) Cons.hyps(2) unfolding full by simp
  next
    case False
    with Cons.IH [of m s1] Cons.prems n(2) obtain vs s2 where
      vs: "json_items m item close what (seq_text True ts @ close # rest) s1 = Done (vs, rest) s2" "more_heap s1 s2"
        "list_all2 (has_datum s2) vs ds" by auto
    then show ?thesis using run False more_heap_trans [OF v(2) vs(2)] has_datum_more [OF vs(2) v(3)] unfolding full by simp
  qed
qed simp

lemma items_length: "\<forall>t \<in> set ts. opens t \<Longrightarrow> length ts \<le> length (seq_text True ts)"
proof (induction ts)
  case (Cons a ts)
  then have "a \<noteq> []" "length ts \<le> length (seq_text True ts)" by (auto simp: opens_def)
  then show ?case by (cases a) (auto simp: seq_text_first)
qed simp

lemma items_skip: "\<forall>t \<in> set ts. opens t \<Longrightarrow> ts \<noteq> [] \<Longrightarrow> opens (seq_text True ts)"
  by (cases ts) (auto simp: seq_text_first opens_def)

lemma read_entry:
  assumes "json_reads pv w d" "opens w" "length k \<le> 2 ^ 30"
  shows "json_reads (json_entry pv) (str_text k @ '':'' @ w) (DPair (DText 5 k) d)"
  unfolding json_reads_def
proof (intro allI impI)
  fix rest s
  assume stop: "stops rest"
  from read_json_string [OF assms(3)] obtain q s1 where
    q: "json_parse_string (concat (map json_char k) @ CHR 0x22 # CHR '':'' # w @ rest) s = Done (q, CHR '':'' # w @ rest) s1"
      "more_heap s s1" "has_datum s1 q (DText 5 k)" by blast
  from json_readsD [OF assms(1) stop] obtain v s2 where
    v: "pv (w @ rest) s1 = Done (v, rest) s2" "more_heap s1 s2" "has_datum s2 v d" .
  let ?s3 = "s2\<lparr>h_pairs := h_pairs s2 @ [(q, v)]\<rparr>"
  have more: "more_heap s2 ?s3" by simp
  have "json_entry pv ((str_text k @ '':'' @ w) @ rest) s = Done (VPair (length (h_pairs s2)), rest) ?s3"
    using q(1) v(1) opens_skip [OF assms(2)] by (simp add: json_entry_def str_text_def)
  moreover have "has_datum ?s3 (VPair (length (h_pairs s2))) (DPair (DText 5 k) d)"
    using has_datum_more [OF more_heap_trans [OF v(2) more] q(3)] has_datum_more [OF more v(3)] by (simp add: has_datum_pair)
  ultimately show "\<exists>v s'. json_entry pv ((str_text k @ '':'' @ w) @ rest) s = Done (v, rest) s' \<and> more_heap s s' \<and>
      has_datum s' v (DPair (DText 5 k) d)"
    using more_heap_trans [OF q(2) more_heap_trans [OF v(2) more]] by blast
qed

lemma read_array:
  assumes "list_all2 (json_reads pv) ts ds" "\<forall>t \<in> set ts. opens t"
  shows "\<exists>v s'. json_parse_array pv (seq_text True ts @ CHR '']'' # rest) s = Done (v, rest) s' \<and> more_heap s s' \<and> has_datum s' v (DVector ds)"
proof (cases "ts = []")
  case True
  then show ?thesis using assms(1) by (simp add: json_parse_array_def new_vector_def has_datum_vector more_heap_def)
next
  case False
  let ?bs = "seq_text True ts @ CHR '']'' # rest"
  have o: "opens (seq_text True ts)" by (rule items_skip [OF assms(2) False])
  then have skip: "jr_skip_ws ?bs = ?bs" "hd ?bs \<noteq> CHR '']''" using opens_skip by (auto simp: opens_def)
  have "length ts \<le> Suc (length ?bs)" using items_length [OF assms(2)] by simp
  from read_items [OF assms False this] obtain vs s' where
    vs: "json_items (Suc (length ?bs)) pv (CHR '']'') ''array'' ?bs s = Done (vs, rest) s'" "more_heap s s'" "list_all2 (has_datum s') vs ds"
    by blast
  have more: "more_heap s' (s'\<lparr>h_vecs := h_vecs s' @ [vs]\<rparr>)" by (simp add: more_heap_def)
  show ?thesis using vs(1) skip more_heap_trans [OF vs(2) more] has_data_more [OF vs(3) more]
    by (simp add: json_parse_array_def has_datum_vector Let_def del: json_items.simps)
qed

lemma read_object:
  assumes "list_all2 (json_reads (json_entry pv)) ts es" "\<forall>t \<in> set ts. opens t" "ts \<noteq> []"
  shows "\<exists>v s'. json_parse_object pv (seq_text True ts @ CHR ''}'' # rest) s = Done (v, rest) s' \<and> more_heap s s' \<and>
    has_datum s' v (list_datum es (DAtom VNil))"
proof -
  let ?bs = "seq_text True ts @ CHR ''}'' # rest"
  have o: "opens (seq_text True ts)" by (rule items_skip [OF assms(2,3)])
  then have skip: "jr_skip_ws ?bs = ?bs" "hd ?bs \<noteq> CHR ''}''" using opens_skip by (auto simp: opens_def)
  have "length ts \<le> Suc (length ?bs)" using items_length [OF assms(2)] by simp
  from read_items [OF assms this] obtain vs s1 where
    vs: "json_items (Suc (length ?bs)) (json_entry pv) (CHR ''}'') ''object'' ?bs s = Done (vs, rest) s1" "more_heap s s1"
      "list_all2 (has_datum s1) vs es" by blast
  from cons_list_datum [OF vs(3)] obtain v s2 where
    v: "cons_list vs VNil s1 = Done v s2" "more_heap s1 s2" "has_datum s2 v (list_datum es (DAtom VNil))" by blast
  show ?thesis using vs(1) v skip more_heap_trans [OF vs(2) v(2)]
    by (simp add: json_parse_object_def Let_def del: json_items.simps)
qed

lemma str_text_length: "length cs \<le> length (str_text cs)"
proof (induction cs)
  case (Cons c cs)
  have "json_char c \<noteq> []" by (simp add: json_char_def)
  then show ?case using Cons.IH by (cases "json_char c") (simp_all add: str_text_def)
qed simp

lemma dec_first: "\<exists>c cs. dec i = c # cs \<and> (is_digit c \<or> c = CHR ''-'')"
proof (cases "i < 0")
  case False
  then show ?thesis using dec_nat_digits [of "nat i"] by (cases "dec_nat (nat i)") (auto simp: dec_def)
qed (simp add: dec_def)

lemma json_reads_text:
  "exact_json j \<Longrightarrow> json_depth j \<le> n \<Longrightarrow> length (to_text A j) \<le> 2 ^ 30 \<Longrightarrow> json_reads (json_parse_value A n) (to_text A j) (to_datum j)"
proof (induction n arbitrary: j)
  case 0
  then show ?case by (cases j) simp_all
next
  case (Suc n)
  have skip: "jr_skip_ws (to_text A j @ rest) = to_text A j @ rest" for rest by (rule opens_skip [OF text_opens [OF Suc.prems(1)]])
  show ?case unfolding json_reads_def
  proof (intro allI impI)
    fix rest s
    assume stop: "stops rest"
    show "\<exists>v s'. json_parse_value A (Suc n) (to_text A j @ rest) s = Done (v, rest) s' \<and> more_heap s s' \<and> has_datum s' v (to_datum j)"
    proof (cases j)
      case (JInt i)
      then have "int64 i" using Suc.prems(1) by simp
      from read_json_int [OF this stop, of A s] have num: "json_parse_number A (dec i @ rest) s = Done (VInt i, rest) s" .
      obtain c cs where c: "dec i = c # cs" "is_digit c \<or> c = CHR ''-''" using dec_first by blast
      then have "c \<notin> {CHR ''{'', CHR ''['', CHR 0x22, CHR ''t'', CHR ''f'', CHR ''n''}" by (auto simp: is_digit_def)
      then show ?thesis using skip [of rest] num c JInt
        by (auto simp: json_parse_value_impl_def Let_def has_datum_leaf)
    next
      case (JStr cs)
      then have "length cs \<le> 2 ^ 30" using Suc.prems(3) str_text_length [of cs] by simp
      from read_json_string [OF this] show ?thesis using skip [of rest] JStr
        by (simp add: json_parse_value_impl_def Let_def str_text_def)
    next
      case (JArr js)
      have "json_reads (json_parse_value A n) (to_text A x) (to_datum x)" if "x \<in> set js" for x
        using Suc.IH [of x] Suc.prems JArr depth_member(1) [OF that] seq_text_length [of "to_text A x" "map (to_text A) js" True] that by simp
      then have "list_all2 (json_reads (json_parse_value A n)) (map (to_text A) js) (map to_datum js)"
        by (simp add: list_all2_map1 list_all2_map2 list_all2_same)
      moreover have "\<forall>t \<in> set (map (to_text A) js). opens t" using Suc.prems(1) JArr text_opens by auto
      ultimately show ?thesis using read_array [of "json_parse_value A n" "map (to_text A) js" "map to_datum js" rest s] skip [of rest] JArr
        by (simp add: json_parse_value_impl_def Let_def)
    next
      case (JObj kvs)
      let ?w = "\<lambda>(k, j). str_text k @ '':'' @ to_text A j" and ?e = "\<lambda>(k, j). DPair (DText 5 k) (to_datum j)"
      have entry: "json_reads (json_entry (json_parse_value A n)) (?w kv) (?e kv)" if "kv \<in> set kvs" for kv
      proof -
        obtain k x where kv: "kv = (k, x)" by fastforce
        then have m: "(k, x) \<in> set kvs" using that by simp
        have len: "length (?w kv) \<le> 2 ^ 30"
          using seq_text_length [of "?w kv" "map ?w kvs" True] that Suc.prems(3) JObj by auto
        have e: "exact_json x" using Suc.prems(1) JObj m by auto
        have "json_depth x \<le> n" using Suc.prems(2) depth_member(2) [OF m] unfolding JObj by linarith
        then have "json_reads (json_parse_value A n) (to_text A x) (to_datum x)" using Suc.IH [of x] len kv e by auto
        from read_entry [OF this text_opens [OF e]] show ?thesis using kv len str_text_length [of k] by auto
      qed
      then have "list_all2 (json_reads (json_entry (json_parse_value A n))) (map ?w kvs) (map ?e kvs)"
        by (simp add: list_all2_map1 list_all2_map2 list_all2_same)
      moreover have "map ?w kvs \<noteq> []" "\<forall>t \<in> set (map ?w kvs). opens t"
        using Suc.prems(1) JObj by (auto simp: opens_def str_text_def json_blank_def)
      ultimately show ?thesis using read_object [of "json_parse_value A n" "map ?w kvs" "map ?e kvs" rest s] skip [of rest] JObj
        by (simp add: json_parse_value_impl_def Let_def)
    qed (use skip [of rest] Suc.prems(1) in \<open>auto simp: json_parse_value_impl_def json_literal_def Let_def has_datum_leaf\<close>)
  qed
qed

text \<open>C29. What \<open>json-write\<close> writes, \<open>json-read\<close> reads back: for every value that is a JSON document of null, booleans, fixnums,
  strings of any bytes, vectors and non-empty association lists with string keys, at most 1000 levels deep, a value with the same
  datum comes back, keys and elements in order, and the old value is left as it was.\<close>

theorem json_roundtrip:
  assumes "has_datum s v (to_datum j)" "exact_json j" "json_depth j \<le> 1000" "length (to_text A j) \<le> 2 ^ 30"
  shows "\<exists>p s1 w s2. bi_json_write A [v] s = Done (VStr p) s1 \<and> bi_json_read A [VStr p] s1 = Done w s2 \<and>
    has_datum s2 w (to_datum j) \<and> has_datum s2 v (to_datum j)"
proof -
  let ?w = "to_text A j" and ?p = "length (h_strs s)"
  let ?s1 = "s\<lparr>h_strs := h_strs s @ [?w]\<rparr>"
  have "height (to_datum j) < length (h_pairs s) + length (h_vecs s) + 2" using height_bound [OF assms(1)] by simp
  from write_json_run [OF assms(1,2) this] assms(4)
  have "json_write_value (length (h_pairs s) + length (h_vecs s) + 2) A [] v s = Done ?w s" by (simp add: writes_def)
  then have written: "bi_json_write A [v] s = Done (VStr ?p) ?s1"
    by (simp add: bi_json_write_def creme_check_min_args_def guardM_def)
  from json_reads_text [OF assms(2) _ assms(4), of JSON_MAX_DEPTH] assms(3)
  have "json_reads (json_parse_value A JSON_MAX_DEPTH) ?w (to_datum j)" by (simp add: JSON_MAX_DEPTH_def)
  from json_readsD [OF this, of "[]"] obtain w s2 where
    w: "json_parse_value A JSON_MAX_DEPTH ?w ?s1 = Done (w, []) s2" "more_heap ?s1 s2" "has_datum s2 w (to_datum j)"
    by (auto simp: stops_def)
  have "bi_json_read A [VStr ?p] ?s1 = Done w s2"
    using w(1) by (simp add: bi_json_read_def guardM_def jr_skip_ws_def)
  moreover have "has_datum s2 v (to_datum j)"
    using has_datum_more [OF more_heap_trans [OF _ w(2)] assms(1)] by (simp add: more_heap_def)
  ultimately show ?thesis using written w(3) by blast
qed

definition json_doc :: json where
  "json_doc = JObj [(''a'', JArr [JInt (-7), JNull, JBool True]), ([CHR 0x22, CHR 0x01], JStr [CHR 0x0A, CHR ''x''])]"

definition json_state :: vm where
  "json_state = vm0\<lparr>h_strs := [''a'', [CHR 0x22, CHR 0x01], [CHR 0x0A, CHR ''x'']], h_vecs := [[VInt (-7), VNil, VBool True]],
     h_pairs := [(VStr 0, VVector 0), (VStr 1, VStr 2), (VPair 0, VPair 3), (VPair 1, VNil)]\<rparr>"

lemma json_roundtrip_witness:
  "\<exists>p s1 w s2. bi_json_write reference_arith [VPair 2] json_state = Done (VStr p) s1 \<and>
    bi_json_read reference_arith [VStr p] s1 = Done w s2 \<and> has_datum s2 w (to_datum json_doc) \<and> has_datum s2 (VPair 2) (to_datum json_doc)"
  by (rule json_roundtrip)
    (simp_all add: json_doc_def json_state_def list_datum_def has_datum_pair has_datum_vector has_datum_str has_datum_leaf int64_def
      INT64_MIN_def INT64_MAX_def str_text_def json_char_def seq_text_first dec_def dec_nat.simps)

subsection \<open>Reading anything\<close>

text \<open>A run that neither gets stuck nor runs out of fuel, and whose result, if it returns, is as wanted.\<close>

definition clean :: "('a \<Rightarrow> vm \<Rightarrow> bool) \<Rightarrow> 'a run \<Rightarrow> bool" where
  "clean P r \<longleftrightarrow> (case r of Done v s \<Rightarrow> P v s | Stuck \<Rightarrow> False | Timeout \<Rightarrow> False | _ \<Rightarrow> True)"

lemma clean_simps [simp]: "clean P (Done v s) = P v s" "\<not> clean P Stuck" "\<not> clean P Timeout"
  by (simp_all add: clean_def)

lemma clean_abort [simp]: "clean P (creme_abort msg s)"
  by (simp add: clean_def abort_not_Done abort_clean split: run.split)

lemma clean_bind:
  assumes "clean Q (m s)" "\<And>v s'. Q v s' \<Longrightarrow> clean P (f v s')"
  shows "clean P (bindM m f s)"
  using assms by (cases "m s") (auto simp: clean_def)

lemma clean_if: "(b \<Longrightarrow> clean P (m s)) \<Longrightarrow> (\<not> b \<Longrightarrow> clean P (m' s)) \<Longrightarrow> clean P ((if b then m else m') s)"
  by simp

text \<open>An item read off a text: \<open>as\<close> is what the reader makes of it, and some of the text is used up.\<close>

definition got :: "('a \<Rightarrow> datum) \<Rightarrow> nat \<Rightarrow> vm \<Rightarrow> val \<times> bytes \<Rightarrow> vm \<Rightarrow> bool" where
  "got as n s r s' \<longleftrightarrow> more_heap s s' \<and> (\<exists>j. has_datum s' (fst r) (as j)) \<and> length (snd r) < n"

definition sound_item :: "('a \<Rightarrow> datum) \<Rightarrow> json_reader \<Rightarrow> bool" where
  "sound_item as item \<longleftrightarrow> (\<forall>bs s. clean (got as (length bs) s) (item bs s))"

lemma sound_itemD: "sound_item as item \<Longrightarrow> clean (got as (length bs) s) (item bs s)"
  by (simp add: sound_item_def)

lemma gotI: "more_heap s s' \<Longrightarrow> has_datum s' v (as j) \<Longrightarrow> length left < n \<Longrightarrow> got as n s (v, left) s'"
  by (auto simp: got_def)

lemma skip_length: "length (jr_skip_ws bs) \<le> length bs"
  by (simp add: jr_skip_ws_def length_dropWhile_le)

lemma string_chars_sound:
  "case json_string_chars b bs of Inl e \<Rightarrow> \<exists>msg. e = Abort msg | Inr (cs, left) \<Rightarrow> length left < length bs"
proof (induction b bs rule: json_string_chars.induct)
  case (2 b c cs)
  have later: "case rbind (gbuf_puts b w) (\<lambda>b. json_string_chars b left) of Inl e \<Rightarrow> \<exists>msg. e = Abort msg | Inr (cs', left') \<Rightarrow> length left' < length (c # cs)"
    if "\<And>b'. gbuf_puts b w = Inr b' \<Longrightarrow>
        case json_string_chars b' left of Inl e \<Rightarrow> \<exists>msg. e = Abort msg | Inr (cs', left') \<Rightarrow> length left' < length left"
      "length left \<le> length cs" for w left
    using that by (fastforce simp: gbuf_puts_def split: sum.splits)
  show ?case
  proof (cases "c = CHR 0x22 \<or> c \<noteq> CHR 0x5C")
    case True
    then show ?thesis using later [of "[c]" cs] 2(3) by (cases "c = CHR 0x22") simp_all
  next
    case False
    then have c: "c = CHR 0x5C" by simp
    show ?thesis
    proof (cases cs)
      case (Cons e left)
      show ?thesis
      proof (cases "e = CHR ''u''")
        case True
        have "case rbind (gbuf_puts b (utf8 (radix_val 16 0 (take 4 left)))) (\<lambda>b. json_string_chars b (drop 4 left)) of
          Inl e \<Rightarrow> \<exists>msg. e = Abort msg | Inr (cs', left') \<Rightarrow> length left' < length (c # cs)"
          if "\<not> length left < 4" "list_all (is_digit_in 16) (take 4 left)"
          by (rule later) (use 2(1) c Cons True that in auto)
        then show ?thesis using c Cons True by simp
      next
        case False
        have "case rbind (gbuf_puts b [d]) (\<lambda>b. json_string_chars b left) of
          Inl e \<Rightarrow> \<exists>msg. e = Abort msg | Inr (cs', left') \<Rightarrow> length left' < length (c # cs)" if "json_unescape e = Some d" for d
          by (rule later) (use 2(2) c Cons False that in auto)
        then show ?thesis using c Cons False by (simp split: option.split)
      qed
    qed (use c in simp)
  qed
qed simp

lemma sound_string: "sound_item (DText 5) json_parse_string"
  unfolding sound_item_def
proof (intro allI)
  fix bs s
  show "clean (got (DText 5) (length bs) s) (json_parse_string bs s)"
  proof (cases "json_string_chars [] bs")
    case (Inl e)
    with string_chars_sound [where b = "[]" and bs = bs] have "\<exists>msg. e = Abort msg" by simp
    then obtain msg where "e = Abort msg" by blast
    then show ?thesis using Inl by (simp add: json_parse_string_def bind_abort)
  next
    case (Inr r)
    then show ?thesis using string_chars_sound [where b = "[]" and bs = bs]
      by (cases r) (auto simp: json_parse_string_def got_def more_heap_def has_datum_str)
  qed
qed

lemma got_leaf: "length left < n \<Longrightarrow> to_datum j = DAtom v \<Longrightarrow> has_datum s v (DAtom v) \<Longrightarrow> got to_datum n s (v, left) s"
  by (rule gotI [where j = j]) simp_all

lemma sound_number: "clean (got to_datum (length bs) s) (json_parse_number A bs s)"
proof -
  obtain tok float where t: "number_token bs = (tok, float)" by fastforce
  show ?thesis
  proof (cases "tok = [] \<or> tok = ''-''")
    case False
    then have "bs \<noteq> []" using t by (auto simp: number_token_def)
    then have "length (drop (length tok) bs) < length bs" using False by simp
    then have "got to_datum (length bs) s (VInt i, drop (length tok) bs) s" "got to_datum (length bs) s (VFloat f, drop (length tok) bs) s" for i f
      using got_leaf [of _ _ "JInt i" "VInt i"] got_leaf [of _ _ "JFloat f" "VFloat f"] by (simp_all add: has_datum_leaf)
    then show ?thesis using t False by (auto simp: json_parse_number_def Let_def split: option.splits)
  qed (use t in \<open>auto simp: json_parse_number_def\<close>)
qed

text \<open>Many of them; \<open>as\<close> is what the reader makes of one item.\<close>

definition got_items :: "('a \<Rightarrow> datum) \<Rightarrow> nat \<Rightarrow> vm \<Rightarrow> val list \<times> bytes \<Rightarrow> vm \<Rightarrow> bool" where
  "got_items as n s r s' \<longleftrightarrow> more_heap s s' \<and> (\<exists>js. list_all2 (has_datum s') (fst r) (map as js)) \<and> length (snd r) < n"

lemma got_one: "more_heap s s' \<Longrightarrow> has_datum s' v (as j) \<Longrightarrow> length left < n \<Longrightarrow> got_items as n s ([v], left) s'"
  unfolding got_items_def by (auto intro!: exI [of _ "[j]"])

lemma got_next:
  assumes "more_heap s s1" "has_datum s1 v (as j)" "got_items as n s1 r s2" "n \<le> m"
  shows "clean (got_items as m s) ((case r of (vs, left) \<Rightarrow> retM (v # vs, left)) s2)"
proof -
  obtain vs left where r: "r = (vs, left)" by fastforce
  from assms(3) obtain js where js: "more_heap s1 s2" "list_all2 (has_datum s2) vs (map as js)" "length left < n"
    by (auto simp: got_items_def r)
  have "list_all2 (has_datum s2) (v # vs) (map as (j # js))" using js has_datum_more [OF js(1) assms(2)] by simp
  then have "\<exists>js. list_all2 (has_datum s2) (v # vs) (map as js)" by blast
  then show ?thesis using r js(3) assms(4) more_heap_trans [OF assms(1) js(1)] by (simp add: got_items_def)
qed

lemma sound_items:
  "sound_item as item \<Longrightarrow> length bs < n \<Longrightarrow> clean (got_items as (length bs) s) (json_items n item close what bs s)"
proof (induction n arbitrary: bs s)
  case (Suc n)
  show ?case unfolding json_items.simps(2)
  proof (rule clean_bind)
    show "clean (got as (length (jr_skip_ws bs)) s) (item (jr_skip_ws bs) s)" by (rule sound_itemD [OF Suc.prems(1)])
    fix r :: "val \<times> bytes" and s1
    assume r: "got as (length (jr_skip_ws bs)) s r s1"
    obtain v bs1 where vb: "r = (v, bs1)" by fastforce
    from r obtain j where j: "more_heap s s1" "has_datum s1 v (as j)" "length bs1 < length (jr_skip_ws bs)" by (auto simp: vb got_def)
    let ?bs2 = "jr_skip_ws bs1"
    have short: "length (tl ?bs2) < length bs" "?bs2 \<noteq> [] \<Longrightarrow> length (tl ?bs2) < n"
    proof -
      have "length ?bs2 \<le> length bs1" "length (jr_skip_ws bs) \<le> length bs" "length bs < Suc n"
        using skip_length Suc.prems(2) by blast+
      then show "length (tl ?bs2) < length bs" "?bs2 \<noteq> [] \<Longrightarrow> length (tl ?bs2) < n"
        using j(3) length_tl [of ?bs2] length_greater_0_conv [of ?bs2] by linarith+
    qed
    have next_item: "clean (got_items as (length bs) s) ((case r of (vs, left) \<Rightarrow> retM (v # vs, left)) s2)"
      if "got_items as (length (tl ?bs2)) s1 r s2" for r s2
      by (rule got_next [OF j(1,2) that less_imp_le [OF short(1)]])
    have last_item: "got_items as (length bs) s ([v], tl ?bs2) s1"
      by (rule got_one [where as = as, OF j(1,2) short(1)])
    show "clean (got_items as (length bs) s) ((case r of (v, bs1) \<Rightarrow> let bs2 = jr_skip_ws bs1 in
     if bs2 \<noteq> [] \<and> hd bs2 = CHR '','' then bindM (json_items n item close what (tl bs2)) (\<lambda>(vs, left). retM (v # vs, left))
     else if bs2 \<noteq> [] \<and> hd bs2 = close then retM ([v], tl bs2)
     else creme_abort (invalid (''expected '' @ [CHR 0x27, CHR '','', CHR 0x27] @ '' or '' @
       [CHR 0x27, close, CHR 0x27] @ '' in '' @ what))) s1)"
      unfolding vb prod.case Let_def
    proof (intro clean_if)
      assume "?bs2 \<noteq> [] \<and> hd ?bs2 = CHR '',''"
      then show "clean (got_items as (length bs) s) (bindM (json_items n item close what (tl ?bs2)) (\<lambda>(vs, left). retM (v # vs, left)) s1)"
        using short(2) by (intro clean_bind [OF Suc.IH [OF Suc.prems(1)]] next_item) auto
    qed (simp_all add: last_item)
  qed
qed simp

definition entry_datum :: "bytes \<times> json \<Rightarrow> datum" where
  "entry_datum = (\<lambda>(k, j). DPair (DText 5 k) (to_datum j))"

lemma sound_entry:
  assumes "sound_item to_datum pv"
  shows "sound_item entry_datum (json_entry pv)"
  unfolding sound_item_def json_entry_def
proof (intro allI clean_if clean_abort)
  fix bs s
  assume "\<not> (bs = [] \<or> hd bs \<noteq> CHR 0x22)"
  then have start: "length (tl bs) < length bs" by (cases bs) auto
  show "clean (got entry_datum (length bs) s) (bindM (json_parse_string (tl bs)) (\<lambda>(key, bs1).
        let bs2 = jr_skip_ws bs1 in
        if bs2 = [] \<or> hd bs2 \<noteq> CHR '':''
        then creme_abort (invalid (''expected '' @ [CHR 0x27, CHR '':'', CHR 0x27] @ '' after object key''))
        else bindM (pv (jr_skip_ws (tl bs2))) (\<lambda>(v, bs3). bindM (creme_cons key v) (\<lambda>entry. retM (entry, bs3)))) s)"
  proof (rule clean_bind, rule sound_itemD [OF sound_string])
    fix r s1
    assume r: "got (DText 5) (length (tl bs)) s r s1"
    obtain key bs1 where kb: "r = (key, bs1)" by fastforce
    from r obtain k where k: "more_heap s s1" "has_datum s1 key (DText 5 k)" "length bs1 < length (tl bs)" by (auto simp: kb got_def)
    let ?bs2 = "jr_skip_ws (tl (jr_skip_ws bs1))"
    show "clean (got entry_datum (length bs) s) ((case r of (key, bs1) \<Rightarrow>
        let bs2 = jr_skip_ws bs1 in
        if bs2 = [] \<or> hd bs2 \<noteq> CHR '':''
        then creme_abort (invalid (''expected '' @ [CHR 0x27, CHR '':'', CHR 0x27] @ '' after object key''))
        else bindM (pv (jr_skip_ws (tl bs2))) (\<lambda>(v, bs3). bindM (creme_cons key v) (\<lambda>entry. retM (entry, bs3)))) s1)"
      unfolding kb prod.case Let_def
    proof (intro clean_if clean_abort, rule clean_bind, rule sound_itemD [OF assms])
      fix q s2
      assume q: "got to_datum (length ?bs2) s1 q s2"
      obtain v bs3 where vb: "q = (v, bs3)" by fastforce
      from q obtain j where j: "more_heap s1 s2" "has_datum s2 v (to_datum j)" "length bs3 < length ?bs2" by (auto simp: got_def vb)
      let ?s3 = "s2\<lparr>h_pairs := h_pairs s2 @ [(key, v)]\<rparr>"
      have more: "more_heap s2 ?s3" by simp
      have "has_datum ?s3 (VPair (length (h_pairs s2))) (entry_datum (k, j))"
        using has_datum_more [OF more_heap_trans [OF j(1) more] k(2)] has_datum_more [OF more j(2)]
        by (simp add: entry_datum_def has_datum_pair)
      moreover have "length bs3 < length bs"
        using j(3) k(3) start skip_length [of "tl (jr_skip_ws bs1)"] skip_length [of bs1] length_tl [of "jr_skip_ws bs1"] by linarith
      ultimately have "got entry_datum (length bs) s (VPair (length (h_pairs s2)), bs3) ?s3"
        using gotI [OF more_heap_trans [OF k(1) more_heap_trans [OF j(1) more]], of _ entry_datum "(k, j)"] by simp
      then show "clean (got entry_datum (length bs) s) ((case q of (v, bs3) \<Rightarrow> bindM (creme_cons key v) (\<lambda>entry. retM (entry, bs3))) s2)"
        by (simp add: vb)
    qed
  qed
qed

lemma got_items_less: "got_items as n s r s' \<Longrightarrow> n \<le> m \<Longrightarrow> got_items as m s r s'"
  by (auto simp: got_items_def)

lemma clean_weaken: "clean P r \<Longrightarrow> (\<And>v s. P v s \<Longrightarrow> Q v s) \<Longrightarrow> clean Q r"
  by (cases r) (auto simp: clean_def)

lemma items_run: "sound_item as item \<Longrightarrow> clean (got_items as (length bs0) s) (json_items (Suc (length (jr_skip_ws bs0))) item close what (jr_skip_ws bs0) s)"
  by (rule clean_weaken, erule sound_items, simp, erule got_items_less, rule skip_length)

lemma sound_array:
  assumes "sound_item to_datum pv"
  shows "sound_item to_datum (json_parse_array pv)"
  unfolding sound_item_def json_parse_array_def Let_def
proof (intro allI)
  fix bs0 s
  let ?bs = "jr_skip_ws bs0"
  show "clean (got to_datum (length bs0) s) (bindM (if ?bs \<noteq> [] \<and> hd ?bs = CHR '']'' then retM ([], tl ?bs)
      else json_items (Suc (length ?bs)) pv (CHR '']'') ''array'' ?bs) (\<lambda>(vs, left). bindM (new_vector vs) (\<lambda>v. retM (v, left))) s)"
  proof (rule clean_bind, rule clean_if)
    assume "?bs \<noteq> [] \<and> hd ?bs = CHR '']''"
    then have "length (tl ?bs) < length bs0" using skip_length [of bs0] by (cases ?bs) auto
    then show "clean (got_items to_datum (length bs0) s) (retM ([], tl ?bs) s)"
      by (auto simp: got_items_def)
  next
    show "clean (got_items to_datum (length bs0) s) (json_items (Suc (length ?bs)) pv (CHR '']'') ''array'' ?bs s)"
      by (rule items_run [OF assms])
  next
    fix r s1
    assume r: "got_items to_datum (length bs0) s r s1"
    obtain vs left where vs: "r = (vs, left)" by fastforce
    from r obtain js where js: "more_heap s s1" "list_all2 (has_datum s1) vs (map to_datum js)" "length left < length bs0"
      by (auto simp: got_items_def vs)
    let ?s2 = "s1\<lparr>h_vecs := h_vecs s1 @ [vs]\<rparr>"
    have more: "more_heap s1 ?s2" by (simp add: more_heap_def)
    have "has_datum ?s2 (VVector (length (h_vecs s1))) (to_datum (JArr js))"
      using has_data_more [OF js(2) more] by (simp add: has_datum_vector)
    from gotI [where as = to_datum, OF more_heap_trans [OF js(1) more] this js(3)]
    show "clean (got to_datum (length bs0) s) ((case r of (vs, left) \<Rightarrow> bindM (new_vector vs) (\<lambda>v. retM (v, left))) s1)"
      by (simp add: vs)
  qed
qed

lemma sound_object:
  assumes "sound_item to_datum pv"
  shows "sound_item to_datum (json_parse_object pv)"
  unfolding sound_item_def json_parse_object_def Let_def
proof (intro allI clean_if)
  fix bs0 s
  let ?bs = "jr_skip_ws bs0"
  assume "?bs \<noteq> [] \<and> hd ?bs = CHR ''}''"
  then have "length (tl ?bs) < length bs0" using skip_length [of bs0] by (cases ?bs) auto
  then show "clean (got to_datum (length bs0) s) (retM (VNil, tl ?bs) s)"
    using got_leaf [of _ _ JNull] by (simp add: has_datum_leaf)
next
  fix bs0 s
  let ?bs = "jr_skip_ws bs0"
  show "clean (got to_datum (length bs0) s) (bindM (json_items (Suc (length ?bs)) (json_entry pv) (CHR ''}'') ''object'' ?bs)
      (\<lambda>(es, left). bindM (cons_list es VNil) (\<lambda>v. retM (v, left))) s)"
  proof (rule clean_bind, rule items_run [OF sound_entry [OF assms]])
    fix r s1
    assume r: "got_items entry_datum (length bs0) s r s1"
    obtain es left where es: "r = (es, left)" by fastforce
    from r obtain kvs where js: "more_heap s s1" "list_all2 (has_datum s1) es (map entry_datum kvs)" "length left < length bs0"
      by (auto simp: got_items_def es)
    from cons_list_datum [OF js(2)] obtain v s2 where
      v: "cons_list es VNil s1 = Done v s2" "more_heap s1 s2" "has_datum s2 v (list_datum (map entry_datum kvs) (DAtom VNil))" by blast
    then have "has_datum s2 v (to_datum (JObj kvs))" by (simp add: entry_datum_def)
    from gotI [where as = to_datum, OF more_heap_trans [OF js(1) v(2)] this js(3)] v(1)
    show "clean (got to_datum (length bs0) s) ((case r of (es, left) \<Rightarrow> bindM (cons_list es VNil) (\<lambda>v. retM (v, left))) s1)"
      by (simp add: es)
  qed
qed

lemma sound_literal: "w \<noteq> [] \<Longrightarrow> to_datum j = DAtom v \<Longrightarrow> v \<in> {VNil, VBool True, VBool False} \<Longrightarrow> sound_item to_datum (json_literal w v)"
  unfolding sound_item_def json_literal_def
proof (intro allI clean_if clean_abort)
  fix bs s
  assume a: "w \<noteq> []" "to_datum j = DAtom v" "v \<in> {VNil, VBool True, VBool False}" "\<not> take (length w) bs \<noteq> w"
  then have "length (drop (length w) bs) < length bs" by (cases w; cases bs) auto
  then show "clean (got to_datum (length bs) s) (retM (v, drop (length w) bs) s)"
    using a(3) by (auto intro!: got_leaf [OF _ a(2)] simp: has_datum_leaf)
qed

lemma sound_tail: "sound_item as item \<Longrightarrow> clean (got as (length bs) s) (item (tl bs) s)"
  by (rule clean_weaken, erule sound_itemD) (auto simp: got_def)

lemma sound_value: "sound_item to_datum (json_parse_value A n)"
proof (induction n)
  case 0
  show ?case by (simp add: sound_item_def)
next
  case (Suc n)
  let ?pv = "json_parse_value A n"
  have str: "sound_item to_datum json_parse_string"
    unfolding sound_item_def
  proof (intro allI)
    fix bs s
    show "clean (got to_datum (length bs) s) (json_parse_string bs s)"
      by (rule clean_weaken [OF sound_itemD [OF sound_string]]) (metis got_def to_datum.simps(5))
  qed
  show ?case unfolding sound_item_def json_parse_value.simps(2) json_parse_value_impl_def Let_def
  proof (intro allI)
    fix bs0 s
    let ?bs = "jr_skip_ws bs0"
    have *: "clean (got to_datum (length bs0) s) r" if "clean (got to_datum (length ?bs) s) r" for r
      by (rule clean_weaken [OF that]) (use skip_length [of bs0] in \<open>auto simp: got_def\<close>)
    show "clean (got to_datum (length bs0) s) ((if ?bs = [] then creme_abort (invalid ''unexpected end of input'')
        else if hd ?bs = CHR ''{'' then json_parse_object ?pv (tl ?bs)
        else if hd ?bs = CHR ''['' then json_parse_array ?pv (tl ?bs)
        else if hd ?bs = CHR 0x22 then json_parse_string (tl ?bs)
        else if hd ?bs = CHR ''t'' then json_literal ''true'' (VBool True) ?bs
        else if hd ?bs = CHR ''f'' then json_literal ''false'' (VBool False) ?bs
        else if hd ?bs = CHR ''n'' then json_literal ''null'' VNil ?bs
        else if hd ?bs = CHR ''-'' \<or> is_digit (hd ?bs) then json_parse_number A ?bs
        else creme_abort (invalid (''unexpected character '' @ [CHR 0x27, hd ?bs, CHR 0x27]))) s)"
      by (intro clean_if clean_abort; rule *; (rule sound_tail [OF sound_object [OF Suc.IH]] | rule sound_tail [OF sound_array [OF Suc.IH]]
          | rule sound_tail [OF str] | rule sound_number | rule sound_itemD, rule sound_literal [of _ JNull] sound_literal [of _ "JBool _"], simp_all))
  qed
qed

text \<open>C30. Whatever the bytes of a string, \<open>json-read\<close> comes back: with an error, or with a value that is a JSON document, and the
  values there were are left as they were.  It never runs into undefined behaviour and its recursion is bounded.\<close>

theorem json_read_typed:
  assumes "p < length (h_strs s)"
  shows "clean (\<lambda>v s'. (\<exists>j. has_datum s' v (to_datum j)) \<and> more_heap s s') (bi_json_read A [VStr p] s)"
proof -
  let ?bs = "h_strs s ! p"
  have "clean (\<lambda>v s'. (\<exists>j. has_datum s' v (to_datum j)) \<and> more_heap s s') (bindM (json_parse_value A JSON_MAX_DEPTH ?bs) (\<lambda>(v, left).
     bindM (guardM (jr_skip_ws left \<noteq> []) (invalid ''unexpected trailing content'')) (\<lambda>_. retM v)) s)"
    by (rule clean_bind, rule sound_itemD [OF sound_value]) (auto simp: got_def guardM_def bind_abort)
  then show ?thesis using assms by (simp add: bi_json_read_def)
qed

lemma json_read_typed_witness:
  "clean (\<lambda>v s'. (\<exists>j. has_datum s' v (to_datum j)) \<and> more_heap (vm0\<lparr>h_strs := [''[1, {}]'']\<rparr>) s')
     (bi_json_read reference_arith [VStr 0] (vm0\<lparr>h_strs := [''[1, {}]'']\<rparr>))"
  by (rule json_read_typed) simp

end
