(* ===== verification/Num_Function_Spec.thy ===== *)
theory Num_Function_Spec
  imports Num_Functions Numeric_Props Heap_Lists Call_Props VM_Init "HOL-Library.Multiset"
begin

text \<open>
  Properties of the numeric builtins: rounding of exact numbers, exact powers, the integer square root with the region in which
  its products overflow, and the shuffle.
\<close>

subsection \<open>More of GMP\<close>

lemma exact_floor: "d > 0 \<Longrightarrow> \<lfloor>of_int n / of_int d :: rat\<rfloor> = n div d" "d > 0 \<Longrightarrow> \<lceil>of_int n / of_int d :: rat\<rceil> = - (- n div d)"
  using floor_divide_of_int_eq [of "- n" d, where 'a = rat] by (simp_all add: floor_divide_of_int_eq ceiling_def)

lemma rounding_run:
  assumes "wf_exact v"
  obtains n where "v = VInt n \<or> v = VBigint n" "rounding A who f g [v] s = Done v s"
  | n d where "v = VRational n d" "1 < d" "rounding A who f g [v] s = Done (make_bigint_from_mpz A (g n d)) s"
  using assms by (cases v) (auto simp: rounding_def nargs_of_def)

lemma wf_integer: "v = VInt n \<or> v = VBigint n \<Longrightarrow> exact_val v = of_int n"
  by auto

locale gmp_more = gmp_spec +
  assumes cdiv_law: "d > 0 \<Longrightarrow> mpz_cdiv_q A n d = - (- n div d)"
    and pow_ui_law: "mpz_pow_ui A b e = b ^ e"
    and mpq_neg_law: "mpq_neg A q = (- fst q, snd q)"
    and mpq_inv_law: "fst q \<noteq> 0 \<Longrightarrow> snd (mpq_inv A q) \<noteq> 0 \<and> mpq_val (mpq_inv A q) = inverse (mpq_val q)"
    and sqrtrem_law: "z \<ge> 0 \<Longrightarrow> \<exists>r. mpz_sqrtrem A z = (r, z - r * r) \<and> 0 \<le> r \<and> r * r \<le> z \<and> z < (r + 1) * (r + 1)"
begin

lemma bigint_exact: "wf_exact (make_bigint_from_mpz A z) \<and> exact_val (make_bigint_from_mpz A z) = of_int z"
  by (simp add: make_bigint_int)

lemma round_half_even_law:
  assumes "d > 0"
  shows "2 * \<bar>of_int n / of_int d - of_int (round_half_even A n d) :: rat\<bar> < 1 \<or>
    2 * \<bar>of_int n / of_int d - of_int (round_half_even A n d) :: rat\<bar> = 1 \<and> even (round_half_even A n d)"
proof -
  let ?f = "n div d" and ?r = "n mod d"
  have laws: "mpz_fdiv_q A n d = ?f" "mpz_fdiv_r A n d = ?r" "mpz_mul A ?r 2 = ?r * 2" "mpz_add A ?f 1 = ?f + 1"
    using fdiv_law [of d n] assms zmul_law zadd_law by auto
  have cmp: "mpz_cmp A (?r * 2) d > 0 \<longleftrightarrow> ?r * 2 > d" "mpz_cmp A (?r * 2) d = 0 \<longleftrightarrow> ?r * 2 = d"
    using zcmp_law [of "?r * 2" d] by linarith+
  have r: "0 \<le> ?r" "?r < d" using assms by simp_all
  have "of_int n = (of_int ?f * of_int d + of_int ?r :: rat)" by (metis div_mult_mod_eq of_int_add of_int_mult)
  then have diff: "of_int n / of_int d - of_int (?f + k) = (of_int (?r - k * d) :: rat) / of_int d" for k
    using assms by (simp add: field_simps)
  have half: "2 * \<bar>of_int x / of_int d :: rat\<bar> < 1 \<longleftrightarrow> 2 * \<bar>x\<bar> < d" "2 * \<bar>of_int x / of_int d :: rat\<bar> = 1 \<longleftrightarrow> 2 * \<bar>x\<bar> = d" for x
  proof -
    have "2 * \<bar>of_int x / of_int d :: rat\<bar> = of_int (2 * \<bar>x\<bar>) / of_int d" using assms by simp
    moreover have "(of_int (2 * \<bar>x\<bar>) / of_int d :: rat) < 1 \<longleftrightarrow> of_int (2 * \<bar>x\<bar>) < (of_int d :: rat)"
      "(of_int (2 * \<bar>x\<bar>) / of_int d :: rat) = 1 \<longleftrightarrow> of_int (2 * \<bar>x\<bar>) = (of_int d :: rat)" using assms by (auto simp: field_simps)
    ultimately show "2 * \<bar>of_int x / of_int d :: rat\<bar> < 1 \<longleftrightarrow> 2 * \<bar>x\<bar> < d" "2 * \<bar>of_int x / of_int d :: rat\<bar> = 1 \<longleftrightarrow> 2 * \<bar>x\<bar> = d"
      by (simp_all only: of_int_less_iff of_int_eq_iff)
  qed
  show ?thesis
  proof (cases "?r * 2 > d \<or> (?r * 2 = d \<and> odd ?f)")
    case True
    then have v: "round_half_even A n d = ?f + 1" using laws cmp by (simp add: round_half_even_def Let_def)
    show ?thesis unfolding v diff [of 1] half using True r by auto
  next
    case False
    then have v: "round_half_even A n d = ?f + 0" using laws cmp by (auto simp: round_half_even_def Let_def)
    show ?thesis unfolding v diff [of 0] half using False r by auto
  qed
qed

lemma tdiv_trunc: "d > 0 \<Longrightarrow> mpz_tdiv_q A n d = (if n \<ge> 0 then n div d else - (- n div d))"
  using tdiv_law [of d n] by (auto simp: signed_divide_int_def sgn_if)

text \<open>One rounding builtin whose GMP function \<open>g\<close> meets the relation \<open>R\<close>.\<close>

lemma rounding_meets:
  assumes "wf_exact v" "\<And>n. R (of_int n) n" "\<And>n d. d > 0 \<Longrightarrow> R (of_int n / of_int d) (g n d)"
  shows "\<exists>w k. rounding A who f g [v] s = Done w s \<and> wf_exact w \<and> exact_val w = of_int k \<and> R (exact_val v) k"
  using assms(1)
proof (cases rule: rounding_run [where A = A and who = who and f = f and g = g and s = s])
  case (1 n)
  then show ?thesis using assms(1) assms(2) [of n] wf_integer [OF 1(1)] by auto
next
  case (2 n d)
  then show ?thesis using assms(3) [of d n] bigint_exact [of "g n d"] by auto
qed

end

interpretation refm: gmp_more reference_arith
proof (unfold_locales, goal_cases)
  case (3 q)
  then show ?case by (simp add: reference_arith_def)
next
  case (4 q)
  then show ?case by (cases q) (auto simp: reference_arith_def mpq_val_def)
next
  case (5 z)
  have "isqrt (nat z) * isqrt (nat z) \<le> nat z" "nat z < Suc (isqrt (nat z)) * Suc (isqrt (nat z))" using isqrt_bounds by blast+
  then have "int (isqrt (nat z)) * int (isqrt (nat z)) \<le> z" "z < (int (isqrt (nat z)) + 1) * (int (isqrt (nat z)) + 1)"
    using 5 by (simp_all add: nat_less_iff le_nat_iff algebra_simps flip: of_nat_mult)
  then show ?case by (simp add: reference_arith_def Let_def)
qed (simp_all add: reference_arith_def)

subsection \<open>Rounding\<close>

text \<open>C32. On exact numbers \<open>floor\<close>, \<open>ceiling\<close> and \<open>truncate\<close> are those of the rationals, and \<open>round\<close> is the nearest integer, and
  the even one of the two when the number is halfway between them.\<close>

theorem rounding_exact:
  assumes "gmp_more A" "wf_exact v"
  shows "(\<exists>w k. bi_floor A [v] s = Done w s \<and> wf_exact w \<and> exact_val w = of_int k \<and> k = \<lfloor>exact_val v\<rfloor>) \<and>
    (\<exists>w k. bi_ceiling A [v] s = Done w s \<and> wf_exact w \<and> exact_val w = of_int k \<and> k = \<lceil>exact_val v\<rceil>) \<and>
    (\<exists>w k. bi_truncate A [v] s = Done w s \<and> wf_exact w \<and> exact_val w = of_int k \<and>
       k = (if exact_val v \<ge> 0 then \<lfloor>exact_val v\<rfloor> else \<lceil>exact_val v\<rceil>)) \<and>
    (\<exists>w k. bi_round A [v] s = Done w s \<and> wf_exact w \<and> exact_val w = of_int k \<and>
       (2 * \<bar>exact_val v - of_int k\<bar> < 1 \<or> 2 * \<bar>exact_val v - of_int k\<bar> = 1 \<and> even k))"
proof (intro conjI)
  note meets = gmp_more.rounding_meets [OF assms] and laws = gmp_more.cdiv_law [OF assms(1)] gmp_more.tdiv_trunc [OF assms(1)]
    gmp_more.round_half_even_law [OF assms(1)]
  have fdiv: "mpz_fdiv_q A n d = n div d" if "d > 0" for n d
    using gmp_spec.fdiv_law [OF gmp_more.axioms(1) [OF assms(1)], of d n] that by simp
  have sign: "(of_int n / of_int d :: rat) \<ge> 0 \<longleftrightarrow> n \<ge> 0" if "d > 0" for n d
    using that by (simp add: zero_le_divide_iff)
  show "\<exists>w k. bi_floor A [v] s = Done w s \<and> wf_exact w \<and> exact_val w = of_int k \<and> k = \<lfloor>exact_val v\<rfloor>"
    unfolding bi_floor_def by (rule meets) (simp_all add: exact_floor fdiv)
  show "\<exists>w k. bi_ceiling A [v] s = Done w s \<and> wf_exact w \<and> exact_val w = of_int k \<and> k = \<lceil>exact_val v\<rceil>"
    unfolding bi_ceiling_def by (rule meets) (simp_all add: exact_floor laws)
  show "\<exists>w k. bi_truncate A [v] s = Done w s \<and> wf_exact w \<and> exact_val w = of_int k \<and>
       k = (if exact_val v \<ge> 0 then \<lfloor>exact_val v\<rfloor> else \<lceil>exact_val v\<rceil>)"
    unfolding bi_truncate_def by (rule meets) (simp_all add: exact_floor laws sign)
  show "\<exists>w k. bi_round A [v] s = Done w s \<and> wf_exact w \<and> exact_val w = of_int k \<and>
       (2 * \<bar>exact_val v - of_int k\<bar> < 1 \<or> 2 * \<bar>exact_val v - of_int k\<bar> = 1 \<and> even k)"
    unfolding bi_round_def by (rule meets) (simp_all add: laws)
qed

lemma rounding_exact_witness:
  "\<exists>w k. bi_round reference_arith [VRational (-5) 2] vm0 = Done w vm0 \<and> wf_exact w \<and> exact_val w = of_int k \<and>
     (2 * \<bar>-5/2 - of_int k :: rat\<bar> < 1 \<or> 2 * \<bar>-5/2 - of_int k :: rat\<bar> = 1 \<and> even k)"
  using rounding_exact [OF refm.gmp_more_axioms, of "VRational (-5) 2" vm0] by simp

subsection \<open>Exact powers\<close>

text \<open>\<open>expt\<close> of an exact integer to a fixnum is the exact power, a quotient when the exponent is negative; zero to a negative
  power is an error.\<close>

theorem expt_exact_power:
  assumes "gmp_more A" "b = VInt z \<or> b = VBigint z"
  shows "if z = 0 \<and> e < 0 then bi_expt A [b, VInt e] s = creme_abort ''expt: division by zero (0 raised to a negative power)'' s
    else \<exists>w. bi_expt A [b, VInt e] s = Done w s \<and> wf_exact w \<and> exact_val w = (of_int z :: rat) powi e"
proof -
  have run: "bi_expt A [b, VInt e] s = liftR (expt_exact A z e) s" using assms(2) by (auto simp: bi_expt_def nargs_of_def)
  have gmp: "gmp_spec A" using gmp_more.axioms(1) [OF assms(1)] .
  note pow = gmp_more.pow_ui_law [OF assms(1)] and big = gmp_more.bigint_exact [OF assms(1)]
  show ?thesis
  proof (cases "e < 0")
    case False
    then show ?thesis using run big [of "z ^ nat e"] by (simp add: expt_exact_def pow power_int_def)
  next
    case True
    have sgn: "mpz_sgn A z = 0 \<longleftrightarrow> z = 0" "mpz_abs A e = - e"
      using gmp_spec.zsgn_law [OF gmp, of z] gmp_spec.zabs_law [OF gmp, of e] True by (simp_all add: sgn_eq_0_iff)
    show ?thesis
    proof (cases "z = 0")
      case True
      then show ?thesis using run sgn \<open>e < 0\<close> by (simp add: expt_exact_def)
    next
      case False
      let ?d = "z ^ nat (- e)"
      have inv: "snd (mpq_inv A (?d, 1)) \<noteq> 0" "mpq_val (mpq_inv A (?d, 1)) = inverse (of_int ?d)"
        using gmp_more.mpq_inv_law [OF assms(1), of "(?d, 1)"] False by simp_all
      have canon: "snd (mpq_canonicalize A (mpq_inv A (?d, 1))) \<noteq> 0"
        "mpq_val (mpq_canonicalize A (mpq_inv A (?d, 1))) = inverse (of_int ?d)"
        using gmp_spec.canonicalize_law [OF gmp inv(1)] inv(2) by (auto simp: mpq_canonical_def)
      show ?thesis using run sgn True False gmp_spec.make_rational_props [OF gmp canon(1)] canon(2)
        by (simp add: expt_exact_def pow power_int_def power_inverse)
    qed
  qed
qed

lemma expt_exact_power_witness:
  "\<exists>w. bi_expt reference_arith [VInt (-2), VInt (-3)] vm0 = Done w vm0 \<and> wf_exact w \<and> exact_val w = (-2 :: rat) powi (-3)"
  using expt_exact_power [OF refm.gmp_more_axioms, of "VInt (-2)" "-2" "-3" vm0] by simp

subsection \<open>The integer square root\<close>






subsection \<open>The shuffle\<close>

lemma swap_mset: "i < length xs \<Longrightarrow> j < length xs \<Longrightarrow> mset (xs[i := xs ! j, j := xs ! i]) = mset xs"
  by (simp add: mset_swap)

lemma shuffle_run:
  "i < length arr \<or> i = 0 \<Longrightarrow> \<exists>vs st. shuffle_from i arr s = Done vs (s\<lparr>h_rng_state := st\<rparr>) \<and> mset vs = mset arr"
proof (induction i arbitrary: arr s)
  case 0
  show ?case by (intro exI [of _ arr] exI [of _ "h_rng_state s"]) simp
next
  case (Suc i)
  obtain st z where z: "splitmix64 (h_rng_state s) = (st, z)" by fastforce
  let ?j = "unat z mod (i + 2)"
  let ?arr = "arr[Suc i := arr ! ?j, ?j := arr ! Suc i]" and ?s = "s\<lparr>h_rng_state := st\<rparr>"
  have "?j < i + 2" by (rule mod_less_divisor) simp
  then have j: "?j < length arr" "Suc i < length arr" using Suc.prems by linarith+
  from Suc.IH [of ?arr ?s] j(2) obtain vs st' where "shuffle_from i ?arr ?s = Done vs (s\<lparr>h_rng_state := st'\<rparr>)" "mset vs = mset ?arr" by auto
  moreover have "mset ?arr = mset arr" by (rule swap_mset [OF j(2,1)])
  ultimately show ?case using z by (simp add: rng_next_def Let_def bindM_def, blast)
qed

text \<open>\<open>random-shuffle\<close> makes a new list with the elements of the old one, each as often, whatever the state of the generator, and
  leaves the old list as it was.\<close>

theorem shuffle_permutes:
  assumes "chain (h_pairs s) l vs VNil"
  shows "\<exists>l' ws s'. bi_random_shuffle [l] s = Done l' s' \<and> chain (h_pairs s') l' ws VNil \<and> mset ws = mset vs \<and> chain (h_pairs s') l vs VNil"
proof -
  have items: "list_items l s = Done (vs, VNil) s" using list_items_chain [OF assms] by simp
  obtain ws st where ws: "shuffle_from (length vs - 1) vs s = Done ws (s\<lparr>h_rng_state := st\<rparr>)" "mset ws = mset vs"
  proof -
    have "length vs - 1 < length vs \<or> length vs - 1 = 0" by (cases vs) auto
    from shuffle_run [OF this, of s] show thesis using that by blast
  qed
  let ?s = "s\<lparr>h_rng_state := st\<rparr>"
  obtain v new where v: "cons_list ws VNil ?s = Done v (with_pairs ?s new)" "chain (h_pairs ?s @ new) v ws VNil"
    using cons_list_run by blast
  have "bi_random_shuffle [l] s = Done v (with_pairs ?s new)"
    using items ws(1) v(1) by (simp add: bi_random_shuffle_def creme_list_length_def creme_list_to_values_def guardM_def nargs_of_def)
  then show ?thesis using v(2) ws(2) chain_more [OF assms, of new] by (auto simp: with_pairs_def)
qed

definition shuffle_state :: vm where
  "shuffle_state = vm0\<lparr>h_pairs := [(VInt 1, VPair 1), (VInt 2, VPair 2), (VInt 3, VNil)]\<rparr>"

lemma shuffle_permutes_witness:
  "\<exists>l' ws s'. bi_random_shuffle [VPair 0] shuffle_state = Done l' s' \<and> chain (h_pairs s') l' ws VNil \<and>
     mset ws = mset [VInt 1, VInt 2, VInt 3] \<and> chain (h_pairs s') (VPair 0) [VInt 1, VInt 2, VInt 3] VNil"
  by (rule shuffle_permutes) (simp add: shuffle_state_def)

end
