(* ===== verification/String_Spec.thy ===== *)
theory String_Spec
  imports String_Lib Builtin_Vectors Num_Function_Spec Int_Props
begin

text \<open>
  Properties of the string and vector builtins: splitting and joining, replacement as a split and a join, the search, numbers
  printed and read in any radix, the order of strings, and the copy of overlapping parts of a vector.
\<close>

subsection \<open>Splitting\<close>

lemma joined_Cons: "joined sep (p # ps) = p @ (if ps = [] then [] else sep @ joined sep ps)"
  by (cases ps) (simp_all add: joined_def)

lemma split_loop_nonempty: "split_loop sep part s \<noteq> []"
proof (induction sep part s rule: split_loop.induct)
  case (1 sep part s)
  then show ?case by (subst split_loop.simps) simp
qed

lemma joined_split: "joined sep (split_loop sep part s) = part @ s"
proof (induction sep part s rule: split_loop.induct)
  case (1 sep part s)
  consider "sep = [] \<or> length s < length sep" | "sep \<noteq> []" "length sep \<le> length s" "take (length sep) s = sep"
    | "sep \<noteq> []" "length sep \<le> length s" "take (length sep) s \<noteq> sep" by linarith
  then show ?case
  proof cases
    case 2
    then have "joined sep (split_loop sep [] (drop (length sep) s)) = drop (length sep) s" using 1(1) by simp
    moreover have "sep @ drop (length sep) s = s" using 2(3) append_take_drop_id [of "length sep" s] by simp
    ultimately show ?thesis using 2 by (subst split_loop.simps) (simp add: joined_Cons split_loop_nonempty)
  next
    case 3
    then have "s \<noteq> []" by auto
    moreover have "joined sep (split_loop sep (part @ [hd s]) (tl s)) = part @ [hd s] @ tl s" using 1(2) 3 by simp
    ultimately show ?thesis using 3 by (subst split_loop.simps) simp
  qed (subst split_loop.simps, simp add: joined_def)
qed

lemma replace_joined: "joined to (split_loop from part s) = part @ replace_loop from to s"
proof (induction "from" part s rule: split_loop.induct)
  case (1 "from" part s)
  consider "from = [] \<or> s = []" | "from \<noteq> []" "s \<noteq> []" "length s < length from"
    | "from \<noteq> []" "length from \<le> length s" "take (length from) s = from"
    | "from \<noteq> []" "length from \<le> length s" "take (length from) s \<noteq> from" by linarith
  then show ?case
  proof cases
    case 1
    then show ?thesis by (subst split_loop.simps, subst replace_loop.simps) (auto simp: joined_def)
  next
    case 2
    have "replace_loop from to s = s"
      using 2(3)
    proof (induction s)
      case (Cons c s)
      then have "length (take (length from) (c # s)) < length from" by simp
      then have "take (length from) (c # s) \<noteq> from" by auto
      moreover have "replace_loop from to s = s" using Cons by simp
      ultimately show ?case using 2(1) by (subst replace_loop.simps) simp
    qed (simp add: replace_loop.simps)
    then show ?thesis using 2 by (subst split_loop.simps) (simp add: joined_def)
  next
    case 3
    then have "s \<noteq> []" by auto
    moreover have "joined to (split_loop from [] (drop (length from) s)) = replace_loop from to (drop (length from) s)"
      using 1(1) 3 by simp
    ultimately show ?thesis using 3
      by (subst split_loop.simps, subst replace_loop.simps) (simp add: joined_Cons split_loop_nonempty)
  next
    case 4
    then have "s \<noteq> []" by auto
    moreover have "joined to (split_loop from (part @ [hd s]) (tl s)) = part @ [hd s] @ replace_loop from to (tl s)"
      using 1(2) 4 by simp
    ultimately show ?thesis using 4 by (subst split_loop.simps, subst replace_loop.simps) simp
  qed
qed

text \<open>No part holds the separator.\<close>

definition occurs_at :: "bytes \<Rightarrow> nat \<Rightarrow> bytes \<Rightarrow> bool" where
  "occurs_at needle i hay \<longleftrightarrow> i + length needle \<le> length hay \<and> take (length needle) (drop i hay) = needle"

lemma occurs_Suc: "occurs_at needle (Suc i) hay \<longleftrightarrow> hay \<noteq> [] \<and> occurs_at needle i (tl hay)"
  by (cases hay) (auto simp: occurs_at_def)

lemma occurs_prefix: "occurs_at needle i xs \<Longrightarrow> occurs_at needle i (xs @ ys)"
  by (auto simp: occurs_at_def)

lemma find_substring_correct:
  "if \<exists>i. occurs_at needle i hay then find_substring hay needle = int (LEAST i. occurs_at needle i hay)
   else find_substring hay needle = -1"
proof (induction hay needle rule: find_substring.induct)
  case (1 hay needle)
  consider "needle = []" | "needle \<noteq> []" "length hay < length needle" | "needle \<noteq> []" "occurs_at needle 0 hay"
    | "needle \<noteq> []" "length needle \<le> length hay" "\<not> occurs_at needle 0 hay" by linarith
  then show ?case
  proof cases
    case 1
    then have "occurs_at needle 0 hay" by (simp add: occurs_at_def)
    then show ?thesis using 1 by (subst find_substring.simps) (auto simp: Least_eq_0)
  next
    case 2
    then have "\<not> occurs_at needle i hay" for i by (simp add: occurs_at_def)
    then show ?thesis using 2 by (simp add: find_substring.simps)
  next
    case 3
    then have "find_substring hay needle = 0" by (subst find_substring.simps) (auto simp: occurs_at_def)
    then show ?thesis using 3 by (auto simp: Least_eq_0)
  next
    case 4
    then have ne: "hay \<noteq> []" and no: "take (length needle) hay \<noteq> needle" by (auto simp: occurs_at_def)
    have IH: "if \<exists>i. occurs_at needle i (tl hay) then find_substring (tl hay) needle = int (LEAST i. occurs_at needle i (tl hay))
      else find_substring (tl hay) needle = -1" using 1 4 no by simp
    have step: "find_substring hay needle = (let i = find_substring (tl hay) needle in if i < 0 then -1 else i + 1)"
      using 4 no by (subst find_substring.simps) simp
    show ?thesis
    proof (cases "\<exists>i. occurs_at needle i (tl hay)")
      case True
      then obtain i where i: "occurs_at needle (Suc i) hay" using ne by (auto simp: occurs_Suc)
      have "(LEAST i. occurs_at needle i hay) = Suc (LEAST i. occurs_at needle i (tl hay))"
        using Least_Suc [where P = "\<lambda>i. occurs_at needle i hay", OF i 4(3)] ne by (simp add: occurs_Suc)
      then show ?thesis using IH True i step by auto
    next
      case False
      then have "\<not> occurs_at needle i hay" for i using 4(3) by (cases i) (auto simp: occurs_Suc)
      then show ?thesis using IH False step by simp
    qed
  qed
qed

lemma find_substring_none: "find_substring hay needle < 0 \<longleftrightarrow> (\<forall>i. \<not> occurs_at needle i hay)"
  using find_substring_correct [of needle hay] by (auto split: if_splits)

lemma split_parts:
  assumes "sep \<noteq> []" "\<And>i. i < length part \<Longrightarrow> \<not> occurs_at sep i (part @ s)" "p \<in> set (split_loop sep part s)"
  shows "\<not> occurs_at sep i p"
  using assms
proof (induction sep part s arbitrary: p i rule: split_loop.induct)
  case (1 sep part s)
  have before: "\<not> occurs_at sep i part" for i
    using "1.prems"(1) "1.prems"(2) [of i] occurs_prefix [of sep i part s] by (cases "i < length part") (auto simp: occurs_at_def)
  consider "length s < length sep" | "length sep \<le> length s" "take (length sep) s = sep"
    | "length sep \<le> length s" "take (length sep) s \<noteq> sep" by linarith
  then show ?case
  proof cases
    case 1
    then have "p = part @ s" using "1.prems"(3) by (simp add: split_loop.simps)
    moreover have "\<not> occurs_at sep i (part @ s)" if "\<not> i < length part" using that 1 by (simp add: occurs_at_def)
    ultimately show ?thesis using "1.prems"(2) by blast
  next
    case 2
    then have "p = part \<or> p \<in> set (split_loop sep [] (drop (length sep) s))"
      using "1.prems"(1,3) by (subst (asm) split_loop.simps) simp
    then show ?thesis using before "1.IH"(1) [of p i] "1.prems"(1) 2 by auto
  next
    case 3
    then have "p \<in> set (split_loop sep (part @ [hd s]) (tl s))"
      using "1.prems"(1,3) by (subst (asm) split_loop.simps) simp
    moreover have "s \<noteq> []" using "1.prems"(1) 3 by auto
    moreover have "\<not> occurs_at sep j (part @ s)" if "j < Suc (length part)" for j
      using that "1.prems"(2) [of j] 3 by (cases "j = length part") (auto simp: occurs_at_def)
    ultimately show ?thesis using "1.IH"(2) [of p i] "1.prems"(1) 3 by simp
  qed
qed

subsection \<open>The builtins that split, join and replace\<close>

definition with_strs :: "vm \<Rightarrow> bytes list \<Rightarrow> vm" where
  "with_strs s bss = s\<lparr>h_strs := h_strs s @ bss\<rparr>"

lemma with_strs_simps [simp]:
  "h_strs (with_strs s bss) = h_strs s @ bss" "h_pairs (with_strs s bss) = h_pairs s"
  "with_strs (with_strs s bss) css = with_strs s (bss @ css)"
  "h_strs (with_pairs s ps) = h_strs s"
  by (simp_all add: with_strs_def with_pairs_def)

lemma bytes_value_run: "creme_bytes_value bs s = Done (VStr (length (h_strs s))) (with_strs s [bs])"
  by (simp add: creme_bytes_value_def new_str_def with_strs_def)

lemma bytes_values_run:
  "mapM creme_bytes_value bss s =
     Done (map VStr [length (h_strs s)..<length (h_strs s) + length bss]) (with_strs s bss)"
proof (induction bss arbitrary: s)
  case (Cons bs bss)
  have "[length (h_strs s)..<length (h_strs s) + length (bs # bss)] =
      length (h_strs s) # [Suc (length (h_strs s))..<Suc (length (h_strs s)) + length bss]" by (simp add: upt_rec)
  then show ?case using Cons by (simp add: bindM_def bytes_value_run)
qed (simp add: with_strs_def)

lemma strings_of_run:
  "\<forall>p \<in> set ps. p < length (h_strs s) \<Longrightarrow> strings_of msg (map VStr ps) s = Done (map (\<lambda>p. h_strs s ! p) ps) s"
proof (induction ps)
  case (Cons p ps)
  then show ?case by (simp add: strings_of_def bindM_def)
qed (simp add: strings_of_def)

lemma join_run:
  assumes "q < length (h_strs s)" "list_items l s = Done (map VStr ps, t) s" "\<forall>p \<in> set ps. p < length (h_strs s)"
  shows "bi_string_join [l, VStr q] s =
    Done (VStr (length (h_strs s))) (with_strs s [joined (h_strs s ! q) (map (\<lambda>p. h_strs s ! p) ps)])"
  using assms strings_of_run [OF assms(3)] by (simp add: bi_string_join_def bindM_def bytes_value_run)

lemma split_run:
  assumes "p < length (h_strs s)" "q < length (h_strs s)"
  obtains l new where
    "bi_string_split [VStr p, VStr q] s = Done l (with_pairs (with_strs s (split_loop (h_strs s ! q) [] (h_strs s ! p))) new)"
    "list_items l (with_pairs (with_strs s (split_loop (h_strs s ! q) [] (h_strs s ! p))) new) =
       Done (map VStr [length (h_strs s)..<length (h_strs s) + length (split_loop (h_strs s ! q) [] (h_strs s ! p))], VNil)
         (with_pairs (with_strs s (split_loop (h_strs s ! q) [] (h_strs s ! p))) new)"
proof -
  let ?parts = "split_loop (h_strs s ! q) [] (h_strs s ! p)"
  let ?vs = "map VStr [length (h_strs s)..<length (h_strs s) + length ?parts]"
  obtain l new where "cons_list ?vs VNil (with_strs s ?parts) = Done l (with_pairs (with_strs s ?parts) new)"
    "list_items l (with_pairs (with_strs s ?parts) new) = Done (?vs, VNil) (with_pairs (with_strs s ?parts) new)"
    by (rule cons_list_exact [of VNil ?vs "with_strs s ?parts"]) (simp, blast intro: that)
  moreover have "bi_string_split [VStr p, VStr q] s = cons_list ?vs VNil (with_strs s ?parts)"
    using assms bytes_values_run [of ?parts s] by (simp add: bi_string_split_def bindM_def)
  ultimately show thesis by (intro that) auto
qed

lemma nth_strs: "map (\<lambda>p. (xs @ ys) ! p) [length xs..<length xs + length ys] = ys"
  by (rule nth_equalityI) (simp_all add: nth_append)

text \<open>C34. Splitting a string at a separator and joining the parts with it gives the string back, in a new buffer; the parts
  are in the list in order, and none holds the separator, unless the separator is empty.\<close>

theorem split_join_roundtrip:
  assumes "p < length (h_strs s)" "q < length (h_strs s)"
  shows "\<exists>l s' ps t r. bi_string_split [VStr p, VStr q] s = Done l s' \<and> list_items l s' = Done (map VStr ps, VNil) s' \<and>
    (h_strs s ! q = [] \<or> list_all (\<lambda>i. find_substring (h_strs s' ! i) (h_strs s ! q) < 0) ps) \<and>
    bi_string_join [l, VStr q] s' = Done (VStr r) t \<and> length (h_strs s) \<le> r \<and> r < length (h_strs t) \<and> h_strs t ! r = h_strs s ! p"
proof -
  let ?sep = "h_strs s ! q" and ?n = "length (h_strs s)"
  let ?parts = "split_loop ?sep [] (h_strs s ! p)"
  obtain l new where l: "bi_string_split [VStr p, VStr q] s = Done l (with_pairs (with_strs s ?parts) new)"
    "list_items l (with_pairs (with_strs s ?parts) new) =
       Done (map VStr [?n..<?n + length ?parts], VNil) (with_pairs (with_strs s ?parts) new)" using split_run [OF assms] .
  let ?s' = "with_pairs (with_strs s ?parts) new"
  have "?sep = [] \<or> list_all (\<lambda>i. find_substring (h_strs ?s' ! i) ?sep < 0) [?n..<?n + length ?parts]"
    using split_parts [of ?sep "[]" "h_strs s ! p"] by (auto simp: nth_append find_substring_none list_all_iff)
  moreover have j: "bi_string_join [l, VStr q] ?s' =
      Done (VStr (?n + length ?parts)) (with_strs ?s' [h_strs s ! p])"
    using join_run [where s = ?s' and q = q, OF _ l(2)] assms joined_split [of ?sep "[]" "h_strs s ! p"]
      nth_append_left [of q "h_strs s" ?parts]
    by (simp add: nth_strs)
  ultimately show ?thesis using l by - (intro exI conjI, assumption+, simp_all add: nth_append)
qed

text \<open>Replacing every occurrence of one string by another is splitting at the first and joining with the second; with
  an empty pattern both give a copy.\<close>

theorem replace_is_split_join:
  assumes "p < length (h_strs s)" "q < length (h_strs s)" "w < length (h_strs s)"
  shows "\<exists>r s' l s'' r' t. bi_string_replace [VStr p, VStr q, VStr w] s = Done (VStr r) s' \<and>
    bi_string_split [VStr p, VStr q] s = Done l s'' \<and> bi_string_join [l, VStr w] s'' = Done (VStr r') t \<and>
    h_strs s' ! r = h_strs t ! r'"
proof -
  let ?sep = "h_strs s ! q" and ?n = "length (h_strs s)"
  let ?parts = "split_loop ?sep [] (h_strs s ! p)"
  obtain l new where l: "bi_string_split [VStr p, VStr q] s = Done l (with_pairs (with_strs s ?parts) new)"
    "list_items l (with_pairs (with_strs s ?parts) new) =
       Done (map VStr [?n..<?n + length ?parts], VNil) (with_pairs (with_strs s ?parts) new)" using split_run [OF assms(1,2)] .
  let ?s' = "with_pairs (with_strs s ?parts) new"
  have "bi_string_join [l, VStr w] ?s' =
      Done (VStr (?n + length ?parts)) (with_strs ?s' [replace_loop ?sep (h_strs s ! w) (h_strs s ! p)])"
    using join_run [where s = ?s' and q = w, OF _ l(2)] assms replace_joined [of "h_strs s ! w" ?sep "[]" "h_strs s ! p"]
      nth_append_left [of w "h_strs s" ?parts]
    by (simp add: nth_strs)
  moreover have "bi_string_replace [VStr p, VStr q, VStr w] s =
      Done (VStr ?n) (with_strs s [replace_loop ?sep (h_strs s ! w) (h_strs s ! p)])"
    using assms by (simp add: bi_string_replace_def bindM_def bytes_value_run)
  ultimately show ?thesis using l by - (intro exI conjI, assumption+, simp add: nth_append)
qed

text \<open>A state with three strings.\<close>

definition strings_state :: vm where
  "strings_state = vm0\<lparr>h_strs := [''a, b, c'', '', '', ''--'']\<rparr>"

lemma split_join_roundtrip_witness:
  "\<exists>l s' ps t r. bi_string_split [VStr 0, VStr 1] strings_state = Done l s' \<and>
    list_items l s' = Done (map VStr ps, VNil) s' \<and>
    (h_strs strings_state ! 1 = [] \<or> list_all (\<lambda>i. find_substring (h_strs s' ! i) (h_strs strings_state ! 1) < 0) ps) \<and>
    bi_string_join [l, VStr 1] s' = Done (VStr r) t \<and> length (h_strs strings_state) \<le> r \<and> r < length (h_strs t) \<and>
    h_strs t ! r = h_strs strings_state ! 0"
  by (rule split_join_roundtrip) (simp_all add: strings_state_def)

lemma replace_is_split_join_witness:
  "\<exists>r s' l s'' r' t. bi_string_replace [VStr 0, VStr 1, VStr 2] strings_state = Done (VStr r) s' \<and>
    bi_string_split [VStr 0, VStr 1] strings_state = Done l s'' \<and> bi_string_join [l, VStr 2] s'' = Done (VStr r') t \<and>
    h_strs s' ! r = h_strs t ! r'"
  by (rule replace_is_split_join) (simp_all add: strings_state_def)

subsection \<open>Numbers in any radix\<close>

lemma base_digit_value: "d < 36 \<Longrightarrow> digit_value (base_digit d) = Some d"
proof -
  assume d: "d < 36"
  have "(of_char (char_of (48 + d) :: char) :: nat) = 48 + d" if "d < 10" using that by (simp add: of_char_of)
  moreover have "(of_char (char_of (87 + d) :: char) :: nat) = 87 + d" using d by (simp add: of_char_of)
  ultimately show ?thesis using d by (auto simp: digit_value_def base_digit_def Let_def)
qed

lemma radix_val_append: "radix_val b acc (xs @ ys) = radix_val b (radix_val b acc xs) ys"
  by (induction xs arbitrary: acc) simp_all

lemma base_digits_value:
  assumes "2 \<le> b" "b \<le> 36"
  shows "base_digits b n \<noteq> [] \<and> list_all (is_digit_in b) (base_digits b n) \<and> radix_val b 0 (base_digits b n) = n"
proof (induction n rule: less_induct)
  case (less n)
  show ?case
  proof (cases "n < b")
    case True
    then show ?thesis using assms by (subst (1 2 3) base_digits.simps) (simp add: is_digit_in_def base_digit_value)
  next
    case False
    then have "base_digits b n = base_digits b (n div b) @ [base_digit (n mod b)]" using assms by (subst base_digits.simps) simp
    moreover have "n mod b < b" using assms by simp
    moreover from this have "digit_value (base_digit (n mod b)) = Some (n mod b)" using assms(2) base_digit_value [of "n mod b"] by linarith
    moreover have "n div b < n" using assms False by simp
    ultimately show ?thesis using less [of "n div b"] assms
      by (simp add: radix_val_append is_digit_in_def)
  qed
qed

lemma no_digit_36: "c_isspace c \<or> c \<in> set ''+-'' \<Longrightarrow> digit_value c = None"
  by (auto simp: c_isspace_def digit_value_def Let_def)

lemma digit_not_x: "is_digit_in b c \<Longrightarrow> b \<le> 16 \<Longrightarrow> c \<noteq> CHR ''x'' \<and> c \<noteq> CHR ''X''"
  by (auto simp: is_digit_in_def digit_value_def Let_def)

lemma is_digit_inD: "is_digit_in b c \<Longrightarrow> \<not> c_isspace c \<and> c \<noteq> CHR ''+'' \<and> c \<noteq> CHR ''-''"
  using no_digit_36 [of c] by (auto simp: is_digit_in_def)

text \<open>What a printer writes in a radix, \<open>strtoll\<close> reads.\<close>

lemma scan_radix:
  assumes "ds \<noteq> []" "list_all (is_digit_in b) ds"
  shows "scan_integer b ds = Some (int (radix_val b 0 ds), [])"
    and "scan_integer b (CHR ''-'' # ds) = Some (- int (radix_val b 0 ds), [])"
proof -
  obtain c cs where ds: "ds = c # cs" using assms by (cases ds) auto
  have c: "\<not> c_isspace c" "c \<noteq> CHR ''+''" "c \<noteq> CHR ''-''" using assms ds is_digit_inD [of b c] by auto
  have nox: "ds ! Suc 0 \<noteq> CHR ''x'' \<and> ds ! Suc 0 \<noteq> CHR ''X''" if "b = 16" "3 \<le> length ds"
    using assms(2) digit_not_x [of 16 "ds ! Suc 0"] that by (simp add: list_all_length)
  have all: "takeWhile (is_digit_in b) ds = ds" using assms(2) by (simp add: list_all_iff)
  have minus: "\<not> c_isspace (CHR ''-'')" by (simp add: c_isspace_def)
  have ws: "dropWhile c_isspace ds = ds" "hd ds \<notin> {CHR ''+'', CHR ''-''}" using c ds by simp_all
  have hex: "\<not> (b = 16 \<and> 3 \<le> length ds \<and> ds ! 0 = CHR ''0'' \<and> (ds ! Suc 0 = CHR ''x'' \<or> ds ! Suc 0 = CHR ''X'') \<and> is_digit_in 16 (ds ! 2))"
    using nox by blast
  show "scan_integer b ds = Some (int (radix_val b 0 ds), [])"
    using ws hex assms(1) by (auto simp: scan_integer_def Let_def all)
  show "scan_integer b (CHR ''-'' # ds) = Some (- int (radix_val b 0 ds), [])"
    using hex assms(1) minus by (auto simp: scan_integer_def Let_def all)
qed

definition signed_digits :: "nat \<Rightarrow> int \<Rightarrow> bytes" where
  "signed_digits b z = (if z < 0 then ''-'' else []) @ base_digits b (nat \<bar>z\<bar>)"

lemma scan_signed: "2 \<le> b \<Longrightarrow> b \<le> 36 \<Longrightarrow> scan_integer b (signed_digits b z) = Some (z, [])"
  using base_digits_value [of b "nat \<bar>z\<bar>"] scan_radix [of "base_digits b (nat \<bar>z\<bar>)" b] by (auto simp: signed_digits_def)

lemma signed_no_nul:
  assumes "2 \<le> b" "b \<le> 36"
  shows "cstrlen (signed_digits b z) = length (signed_digits b z)"
proof -
  have "c \<noteq> CHR 0x00" if "c \<in> set (signed_digits b z)" for c
    using that base_digits_value [OF assms, of "nat \<bar>z\<bar>"]
    by (auto simp: signed_digits_def list_all_iff is_digit_in_def digit_value_def split: if_splits)
  then have "takeWhile (\<lambda>c. c \<noteq> CHR 0x00) (signed_digits b z) = signed_digits b z" by (simp add: takeWhile_eq_all_conv)
  then show ?thesis by (simp only: cstrlen_def)
qed

lemma dec_signed: "dec z = signed_digits 10 z"
proof -
  have "dec_nat n = base_digits 10 n" for n
  proof (induction n rule: dec_nat.induct)
    case (1 n)
    have "base_digit d = char_of (48 + d)" if "d < 10" for d using that by (simp add: base_digit_def)
    moreover have "n mod 10 < 10" by simp
    ultimately show ?case using 1 by (subst dec_nat.simps, subst base_digits.simps) (auto simp: add.commute)
  qed
  then show ?thesis by (simp add: dec_def signed_digits_def)
qed

locale gmp_text = gmp_more +
  assumes get_str_base_law: "2 \<le> b \<Longrightarrow> b \<le> 36 \<Longrightarrow> mpz_get_str_base A b z = signed_digits b z"
    and set_str_base_law: "2 \<le> b \<Longrightarrow> b \<le> 36 \<Longrightarrow> mpz_set_str_base A b (signed_digits b z) = Some z"
begin

lemma printed_number:
  assumes "2 \<le> b" "b \<le> 36" "wf_integer v"
  shows "bi_number_to_string A [v, VInt b] s = Done (VStr (length (h_strs s))) (with_strs s [signed_digits (nat b) (ival v)])"
proof -
  have b: "c_int b = b" "\<not> (b < 2 \<or> b > 36)" "2 \<le> nat b" "nat b \<le> 36" using assms by (simp_all add: c_int_def)
  show ?thesis using assms(3)
  proof (cases rule: wf_integer_cases)
    case (small i)
    then show ?thesis using b dec_signed [of i]
      by (auto simp: bi_number_to_string_def nargs_of_def bindM_def bytes_value_run get_str_base_law Let_def)
  next
    case (big z)
    then show ?thesis using b dec_signed [of z] get_str_law [of z]
      by (auto simp: bi_number_to_string_def nargs_of_def bindM_def bytes_value_run get_str_base_law Let_def)
  qed
qed

lemma parsed_number:
  assumes "2 \<le> b" "b \<le> 36"
  shows "parse_number A b (signed_digits b z) = int_value z"
  using scan_signed [OF assms, of z] set_str_base_law [OF assms, of z] make_bigint_int [of z]
  by (simp add: parse_number_def Let_def int_value_def)

end

interpretation reft: gmp_text reference_arith
proof
  fix b :: nat and z :: int
  assume b: "2 \<le> b" "b \<le> 36"
  show "mpz_get_str_base reference_arith b z = signed_digits b z"
    by (simp add: reference_arith_def signed_digits_def)
  have d: "base_digits b (nat \<bar>z\<bar>) \<noteq> []" "list_all (is_digit_in b) (base_digits b (nat \<bar>z\<bar>))"
    "radix_val b 0 (base_digits b (nat \<bar>z\<bar>)) = nat \<bar>z\<bar>" using base_digits_value [OF b] by auto
  then have "hd (base_digits b (nat \<bar>z\<bar>)) \<noteq> CHR ''-''"
    using is_digit_inD [of b "hd (base_digits b (nat \<bar>z\<bar>))"] by (cases "base_digits b (nat \<bar>z\<bar>)") auto
  then show "mpz_set_str_base reference_arith b (signed_digits b z) = Some z"
    using d by (auto simp: reference_arith_def signed_digits_def Let_def)
qed

text \<open>An exact integer of any size, printed in a radix between 2 and 36, is read back in the same radix as the
  number it was: a fixnum where it fits 64 bits, a bignum where it does not.\<close>

theorem number_string_roundtrip:
  assumes "gmp_text A" "2 \<le> b" "b \<le> 36" "wf_integer v"
  shows "\<exists>p s'. bi_number_to_string A [v, VInt b] s = Done (VStr p) s' \<and> bi_string_to_number A [VStr p, VInt b] s' = Done v s'"
proof -
  let ?t = "signed_digits (nat b) (ival v)"
  have b: "c_int b = b" "\<not> (b < 2 \<or> b > 36)" "2 \<le> nat b" "nat b \<le> 36" using assms by (simp_all add: c_int_def)
  have "v = int_value (ival v)" using assms(4) by (simp add: wf_integer_def)
  then have "bi_string_to_number A [VStr (length (h_strs s)), VInt b] (with_strs s [?t]) = Done v (with_strs s [?t])"
    using b gmp_text.parsed_number [OF assms(1) b(3,4), of "ival v"] signed_no_nul [OF b(3,4), of "ival v"]
    by (simp add: bi_string_to_number_def bindM_def creme_arg_int_def)
  then show ?thesis using gmp_text.printed_number [OF assms] by blast
qed

lemma number_string_roundtrip_witness:
  "\<exists>p s'. bi_number_to_string reference_arith [VBigint (- (2 ^ 70)), VInt 16] vm0 = Done (VStr p) s' \<and>
    bi_string_to_number reference_arith [VStr p, VInt 16] s' = Done (VBigint (- (2 ^ 70))) s'"
  by (rule number_string_roundtrip [OF reft.gmp_text_axioms]) (simp_all add: wf_integer_def int_value_def int64_def INT64_MIN_def)

subsection \<open>Moving the items of a vector\<close>

lemma nth_overwrite:
  "pos + length w \<le> length xs \<Longrightarrow> j < length xs \<Longrightarrow>
     overwrite pos w xs ! j = (if pos \<le> j \<and> j < pos + length w then w ! (j - pos) else xs ! j)"
  by (auto simp: overwrite_def nth_append)

lemma length_overwrite: "pos + length w \<le> length xs \<Longrightarrow> length (overwrite pos w xs) = length xs"
  by (simp add: overwrite_def)

lemma overwrite_snoc:
  "pos + length w < length xs \<Longrightarrow> (overwrite pos w xs)[pos + length w := x] = overwrite pos (w @ [x]) xs"
  by (rule nth_equalityI) (auto simp: length_overwrite nth_overwrite nth_list_update nth_append)

lemma overwrite_Cons:
  "Suc pos + length w \<le> length xs \<Longrightarrow> (overwrite (Suc pos) w xs)[pos := x] = overwrite pos (x # w) xs"
  by (rule nth_equalityI) (auto simp: length_overwrite nth_overwrite nth_list_update nth_Cons')

lemma forM_snoc: "forM (xs @ [x]) f = bindM (forM xs f) (\<lambda>_. f x)"
  by (induction xs) (simp_all add: bindM_assoc)

lemma copy_item_run:
  assumes "to < length (h_vecs s)" "from < length (h_vecs s)" "first + i < length (h_vecs s ! from)" "pos + i < length (h_vecs s ! to)"
  shows "copy_item to pos from first i s =
    Done () (s\<lparr>h_vecs := (h_vecs s)[to := (h_vecs s ! to)[pos + i := h_vecs s ! from ! (first + i)]]\<rparr>)"
  using assms by (simp add: copy_item_def bindM_def set_vec_item_def nat_int_add)

text \<open>The state when the items \<open>w\<close> have been put at \<open>pos\<close>.\<close>

definition moved_items :: "nat \<Rightarrow> nat \<Rightarrow> val list \<Rightarrow> vm \<Rightarrow> vm" where
  "moved_items to pos w s = s\<lparr>h_vecs := (h_vecs s)[to := overwrite pos w (h_vecs s ! to)]\<rparr>"

lemma nth_part: "i < hi - lo \<Longrightarrow> hi \<le> length xs \<Longrightarrow> part_of lo hi xs ! i = xs ! (lo + i)"
  by (simp add: part_of_def)

lemma length_part: "hi \<le> length xs \<Longrightarrow> length (part_of lo hi xs) = hi - lo"
  by (simp add: part_of_def)

definition copyable :: "vm \<Rightarrow> nat \<Rightarrow> nat \<Rightarrow> nat \<Rightarrow> nat \<Rightarrow> nat \<Rightarrow> bool" where
  "copyable s to from first stop pos \<longleftrightarrow> to < length (h_vecs s) \<and> from < length (h_vecs s) \<and> first \<le> stop \<and>
     stop \<le> length (h_vecs s ! from) \<and> pos + (stop - first) \<le> length (h_vecs s ! to)"

lemma moved_items_none: "to < length (h_vecs s) \<Longrightarrow> moved_items to pos [] s = s"
  by (simp add: moved_items_def overwrite_def)

lemma copy_forward:
  assumes "copyable s to from first stop pos" "to \<noteq> from \<or> pos \<le> first" "k \<le> stop - first"
  shows "forM [0..<k] (copy_item to pos from first) s =
    Done () (moved_items to pos (take k (part_of first stop (h_vecs s ! from))) s)"
  using assms(3)
proof (induction k)
  case 0
  then show ?case using assms by (simp add: moved_items_none copyable_def)
next
  case (Suc k)
  let ?w = "part_of first stop (h_vecs s ! from)"
  let ?t = "moved_items to pos (take k ?w) s"
  note valid = assms(1) [unfolded copyable_def]
  have len: "length ?w = stop - first" "length (take k ?w) = k" using valid Suc.prems by (simp_all add: length_part)
  have "h_vecs ?t ! from ! (first + k) = h_vecs s ! from ! (first + k)"
    using valid assms(2) Suc.prems len by (auto simp: moved_items_def nth_list_update nth_overwrite)
  then have item: "h_vecs ?t ! from ! (first + k) = ?w ! k" using valid Suc.prems by (simp add: nth_part)
  have "copy_item to pos from first k ?t =
      Done () (?t\<lparr>h_vecs := (h_vecs ?t)[to := (h_vecs ?t ! to)[pos + k := ?w ! k]]\<rparr>)"
    unfolding item [symmetric]
    by (rule copy_item_run) (use valid Suc.prems len in \<open>auto simp: moved_items_def nth_list_update length_overwrite\<close>)
  moreover have "(overwrite pos (take k ?w) (h_vecs s ! to))[pos + k := ?w ! k] = overwrite pos (take (Suc k) ?w) (h_vecs s ! to)"
    using overwrite_snoc [of pos "take k ?w" "h_vecs s ! to" "?w ! k"] valid Suc.prems len by (simp add: take_Suc_conv_app_nth)
  ultimately have "copy_item to pos from first k ?t = Done () (moved_items to pos (take (Suc k) ?w) s)"
    using valid by (simp add: moved_items_def)
  then show ?case using Suc by (simp add: forM_snoc bindM_def)
qed

lemma copy_backward:
  assumes "copyable s v v first stop pos" "first < pos" "k \<le> stop - first"
  shows "forM (rev [k..<stop - first]) (copy_item v pos v first) s =
    Done () (moved_items v (pos + k) (drop k (part_of first stop (h_vecs s ! v))) s)"
  using assms(3)
proof (induction k rule: inc_induct)
  case base
  then show ?case using assms by (simp add: moved_items_none copyable_def length_part)
next
  case (step k)
  let ?w = "part_of first stop (h_vecs s ! v)"
  let ?t = "moved_items v (pos + Suc k) (drop (Suc k) ?w) s"
  note valid = assms(1) [unfolded copyable_def]
  have len: "length ?w = stop - first" "length (drop (Suc k) ?w) = stop - first - Suc k" using valid by (simp_all add: length_part)
  have fits: "Suc (pos + k) + length (drop (Suc k) ?w) \<le> length (h_vecs s ! v)"
    unfolding len using valid step.hyps by linarith
  have "h_vecs ?t ! v ! (first + k) = h_vecs s ! v ! (first + k)"
    using valid assms(2) step.hyps len by (auto simp: moved_items_def nth_overwrite)
  then have item: "h_vecs ?t ! v ! (first + k) = ?w ! k" using valid step.hyps by (simp add: nth_part)
  have "copy_item v pos v first k ?t =
      Done () (?t\<lparr>h_vecs := (h_vecs ?t)[v := (h_vecs ?t ! v)[pos + k := ?w ! k]]\<rparr>)"
    unfolding item [symmetric]
    by (rule copy_item_run) (use valid step.hyps len in \<open>auto simp: moved_items_def length_overwrite\<close>)
  moreover have "(overwrite (pos + Suc k) (drop (Suc k) ?w) (h_vecs s ! v))[pos + k := ?w ! k] =
      overwrite (pos + k) (drop k ?w) (h_vecs s ! v)"
    using overwrite_Cons [OF fits, of "?w ! k"] step.hyps len by (simp add: Cons_nth_drop_Suc)
  ultimately have "copy_item v pos v first k ?t = Done () (moved_items v (pos + k) (drop k ?w) s)"
    using valid by (simp add: moved_items_def)
  moreover have "rev [k..<stop - first] = rev [Suc k..<stop - first] @ [k]" using step.hyps by (simp add: upt_conv_Cons)
  ultimately show ?case using step.IH by (simp add: forM_snoc bindM_def)
qed

lemma vector_copy_run:
  assumes "copyable s to from first stop pos" "length (h_vecs s ! from) < 2 ^ 31" "length (h_vecs s ! to) < 2 ^ 31"
  shows "bi_vector_copy_bang [VVector to, VInt (int pos), VVector from, VInt (int first), VInt (int stop)] s =
    Done VNil (s\<lparr>h_vecs := (h_vecs s)[to := overwrite pos (part_of first stop (h_vecs s ! from)) (h_vecs s ! to)]\<rparr>)"
proof -
  note valid = assms(1) [unfolded copyable_def]
  have small: "c_int (int first) = int first" "c_int (int stop) = int stop" using valid assms(2) by (simp_all add: c_int_def)
  have "forM (if to = from \<and> pos > first then rev [0..<stop - first] else [0..<stop - first]) (copy_item to pos from first) s =
      Done () (moved_items to pos (part_of first stop (h_vecs s ! from)) s)"
  proof (cases "to = from \<and> pos > first")
    case True
    then show ?thesis using copy_backward [of s to first stop pos 0] assms(1) by simp
  next
    case False
    then have "to \<noteq> from \<or> pos \<le> first" by auto
    then show ?thesis unfolding if_not_P [OF False]
      using copy_forward [OF assms(1), of "stop - first"] length_part [of stop "h_vecs s ! from" first] valid by simp
  qed
  moreover have "dest_check (int pos) (stop - first) (length (h_vecs s ! to)) msg = retM ()" for msg
  proof -
    have sum: "int pos + int (stop - first) \<le> int (length (h_vecs s ! to))" using valid by linarith
    then have "int64 (int pos + int (stop - first))"
      using assms(3) by (simp add: int64_def INT64_MIN_def INT64_MAX_def)
    then show ?thesis using sum by (simp add: dest_check_def)
  qed
  ultimately show ?thesis using valid small
    by (simp add: bi_vector_copy_bang_def vector_range_args_def optional_int_def bindM_def moved_items_def Let_def split del: if_split)
qed

text \<open>C35. \<open>vector-copy!\<close> of a part of a vector to any position: where the part fits, the target holds what a copy of the part taken
  beforehand would leave, also when the two vectors are one and the parts overlap, and nothing else changes; where it does not, the
  call aborts and changes nothing, except that a position so large that its sum with the length of the part overflows an \<open>int64_t\<close>
  is undefined behaviour.\<close>

theorem vector_copy_simultaneous:
  assumes "to < length (h_vecs s)" "from < length (h_vecs s)" "first \<le> stop" "stop \<le> length (h_vecs s ! from)"
    and "length (h_vecs s ! from) < 2 ^ 31" "length (h_vecs s ! to) < 2 ^ 31" "int64 pos"
  shows "bi_vector_copy_bang [VVector to, VInt pos, VVector from, VInt (int first), VInt (int stop)] s =
    (if 0 \<le> pos \<and> pos + int (stop - first) \<le> int (length (h_vecs s ! to))
     then Done VNil (s\<lparr>h_vecs := (h_vecs s)[to := overwrite (nat pos) (part_of first stop (h_vecs s ! from)) (h_vecs s ! to)]\<rparr>)
     else if pos < 0 \<or> pos + int (stop - first) \<le> INT64_MAX
     then creme_abort ''vector-copy!: destination range out of bounds'' s
     else Stuck)"
proof (cases "0 \<le> pos \<and> pos + int (stop - first) \<le> int (length (h_vecs s ! to))")
  case True
  then obtain k where k: "pos = int k" by (metis nonneg_int_cases)
  have "copyable s to from first stop k" using True assms(1-4) by (simp add: copyable_def k)
  from vector_copy_run [OF this assms(5,6)] True show ?thesis by (simp add: k)
next
  case False
  have small: "c_int (int first) = int first" "c_int (int stop) = int stop" using assms(3-5) by (simp_all add: c_int_def)
  have "dest_check pos (stop - first) (length (h_vecs s ! to)) msg =
      (if pos < 0 \<or> pos + int (stop - first) \<le> INT64_MAX then creme_abort msg else stuckM)" for msg
    using False assms(7) by (auto simp: dest_check_def int64_def)
  moreover have "bindM stuckM (f :: unit \<Rightarrow> val M) = stuckM" for f by (simp add: fun_eq_iff bindM_def stuckM_def)
  moreover have "vector_range_args (length (h_vecs s ! from)) [VVector to, VInt pos, VVector from, VInt (int first), VInt (int stop)] 3 =
      retM (first, stop)" using assms(3,4) small by (simp add: vector_range_args_def optional_int_def)
  ultimately show ?thesis unfolding if_not_P [OF False] using assms(1,2)
    by (cases "pos < 0 \<or> pos + int (stop - first) \<le> INT64_MAX") (simp_all add: bi_vector_copy_bang_def bind_abort Let_def stuckM_def)
qed

lemma vector_copy_simultaneous_witness:
  "bi_vector_copy_bang [VVector 0, VInt 1, VVector 0, VInt (int 0), VInt (int 2)] (vm0\<lparr>h_vecs := [[VInt 1, VInt 2, VInt 3]]\<rparr>) =
     Done VNil (vm0\<lparr>h_vecs := [[VInt 1, VInt 1, VInt 2]]\<rparr>) \<and>
   bi_vector_copy_bang [VVector 0, VInt 9223372036854775807, VVector 0, VInt (int 0), VInt (int 2)] (vm0\<lparr>h_vecs := [[VInt 1, VInt 2, VInt 3]]\<rparr>) =
     Stuck"
  using vector_copy_simultaneous [of 0 "vm0\<lparr>h_vecs := [[VInt 1, VInt 2, VInt 3]]\<rparr>" 0 0 2 1]
    vector_copy_simultaneous [of 0 "vm0\<lparr>h_vecs := [[VInt 1, VInt 2, VInt 3]]\<rparr>" 0 0 2 9223372036854775807]
  by (simp add: overwrite_def part_of_def int64_def INT64_MIN_def INT64_MAX_def)

subsection \<open>The order of strings\<close>

definition byte_less :: "(char \<times> char) set" where
  "byte_less = {(a, b). (of_char a :: int) < of_char b}"

definition string_less :: "bytes \<Rightarrow> bytes \<Rightarrow> bool" where
  "string_less a b \<longleftrightarrow> (a, b) \<in> lexord byte_less"

lemma pair_cmp:
  "(string_pair_cmp a b < 0 \<longleftrightarrow> string_less a b) \<and> (string_pair_cmp a b = 0 \<longleftrightarrow> a = b) \<and> (string_pair_cmp a b > 0 \<longleftrightarrow> string_less b a)"
  unfolding string_pair_cmp_def string_less_def
proof (induction a arbitrary: b)
  case Nil
  then show ?case by (cases b) auto
next
  case (Cons x xs)
  then show ?case
  proof (cases b)
    case (Cons y ys)
    consider "(of_char x :: int) < of_char y" | "(of_char y :: int) < of_char x" | "x = y"
      by (metis linorder_cases of_char_eq_iff)
    then show ?thesis using Cons.IH [of ys] Cons by cases (auto simp: byte_less_def)
  qed auto
qed

lemma string_less_trans: "string_less a b \<Longrightarrow> string_less b c \<Longrightarrow> string_less a c"
  unfolding string_less_def by (rule lexord_trans) (auto simp: byte_less_def trans_def)

lemma chain_run:
  assumes "\<forall>p \<in> set ps. p < length (h_strs s)"
  shows "compare_chain msg string_of ok (map VStr ps) s = Done (VBool (successively ok (map (\<lambda>p. h_strs s ! p) ps))) s"
  using assms
proof (induction ps rule: induct_list012)
  case (3 p q ps)
  then show ?case by (simp add: string_of_def bindM_def)
qed simp_all

lemma string_chain_run:
  assumes "2 \<le> length ps" "\<forall>p \<in> set ps. p < length (h_strs s)" "transp (\<lambda>a b. ok (cmp a b))"
  shows "string_chain who cmp ok (map VStr ps) s = Done (VBool (sorted_wrt (\<lambda>a b. ok (cmp a b)) (map (\<lambda>p. h_strs s ! p) ps))) s"
  using assms chain_run [OF assms(2)] by (simp add: string_chain_def bindM_def successively_conv_sorted_wrt)

text \<open>\<open>string<?\<close> and its companions hold of any number of strings when every earlier one is before every later one, in the
  order that compares the bytes as unsigned numbers and puts a prefix first; for \<open>string<=?\<close> and \<open>string>=?\<close> two may be equal.\<close>

theorem string_order:
  assumes "2 \<le> length ps" "\<forall>p \<in> set ps. p < length (h_strs s)"
  shows "bi_string_lt (map VStr ps) s = Done (VBool (sorted_wrt string_less (map (\<lambda>p. h_strs s ! p) ps))) s \<and>
    bi_string_gt (map VStr ps) s = Done (VBool (sorted_wrt (\<lambda>a b. string_less b a) (map (\<lambda>p. h_strs s ! p) ps))) s \<and>
    bi_string_le (map VStr ps) s = Done (VBool (sorted_wrt (\<lambda>a b. a = b \<or> string_less a b) (map (\<lambda>p. h_strs s ! p) ps))) s \<and>
    bi_string_ge (map VStr ps) s = Done (VBool (sorted_wrt (\<lambda>a b. a = b \<or> string_less b a) (map (\<lambda>p. h_strs s ! p) ps))) s"
proof -
  have cmp: "string_pair_cmp a b < 0 \<longleftrightarrow> string_less a b" "string_pair_cmp a b > 0 \<longleftrightarrow> string_less b a"
    "string_pair_cmp a b \<le> 0 \<longleftrightarrow> a = b \<or> string_less a b" "string_pair_cmp a b \<ge> 0 \<longleftrightarrow> a = b \<or> string_less b a" for a b
    using pair_cmp [of a b] by (auto simp: le_less)
  have trans: "transp string_less" "transp (\<lambda>a b. string_less b a)" "transp (\<lambda>a b. a = b \<or> string_less a b)"
    "transp (\<lambda>a b. a = b \<or> string_less b a)" unfolding transp_def using string_less_trans by blast+
  note run = string_chain_run [OF assms, where cmp = string_pair_cmp]
  show ?thesis
    using run [where ok = "\<lambda>c. c < 0"] run [where ok = "\<lambda>c. c > 0"] run [where ok = "\<lambda>c. c \<le> 0"] run [where ok = "\<lambda>c. c \<ge> 0"]
    by (simp add: bi_string_lt_def bi_string_gt_def bi_string_le_def bi_string_ge_def cmp trans)
qed

lemma string_order_witness:
  "bi_string_lt (map VStr [2, 0]) strings_state = Done (VBool (sorted_wrt string_less (map (\<lambda>p. h_strs strings_state ! p) [2, 0]))) strings_state \<and>
    bi_string_gt (map VStr [2, 0]) strings_state =
      Done (VBool (sorted_wrt (\<lambda>a b. string_less b a) (map (\<lambda>p. h_strs strings_state ! p) [2, 0]))) strings_state \<and>
    bi_string_le (map VStr [2, 0]) strings_state =
      Done (VBool (sorted_wrt (\<lambda>a b. a = b \<or> string_less a b) (map (\<lambda>p. h_strs strings_state ! p) [2, 0]))) strings_state \<and>
    bi_string_ge (map VStr [2, 0]) strings_state =
      Done (VBool (sorted_wrt (\<lambda>a b. a = b \<or> string_less b a) (map (\<lambda>p. h_strs strings_state ! p) [2, 0]))) strings_state"
  by (rule string_order) (simp_all add: strings_state_def)

end
