(* ===== verification/Actor_Spec.thy ===== *)
theory Actor_Spec
  imports Actor_Net
begin

text \<open>
  Properties of the actors of a process.  A mailbox is a bounded first-in first-out queue (\<open>bounded_queue\<close> is the interface, the ring
  buffer of actor.c its interpretation).  \<open>actor_step\<close> is one section of actor.c that a mutex protects, run by any thread, or anything
  else that leaves the contexts and the systems alone (a thread that goes on with other work, or another thread taking its turn): every
  sequence of steps keeps the registries well formed, so the ids of the actors of a system are unique however the threads interleave.
\<close>

subsection \<open>Bounded queues\<close>

datatype 'a queue_op = Put 'a | Take

fun puts :: "'a queue_op list \<Rightarrow> 'a list" where
  "puts [] = []"
| "puts (Put x # ops) = x # puts ops"
| "puts (Take # ops) = puts ops"

locale bounded_queue =
  fixes ok :: "'q \<Rightarrow> bool"
    and items :: "'q \<Rightarrow> 'a list"
    and size_of :: "'q \<Rightarrow> nat"
    and cap :: nat
    and put :: "'q \<Rightarrow> 'a \<Rightarrow> 'q"
    and front :: "'q \<Rightarrow> 'a"
    and drop_front :: "'q \<Rightarrow> 'q"
  assumes size_items: "ok q \<Longrightarrow> size_of q = length (items q)"
    and put_law: "ok q \<Longrightarrow> size_of q < cap \<Longrightarrow> ok (put q x) \<and> items (put q x) = items q @ [x]"
    and front_law: "ok q \<Longrightarrow> size_of q > 0 \<Longrightarrow> front q = hd (items q)"
    and drop_law: "ok q \<Longrightarrow> size_of q > 0 \<Longrightarrow> ok (drop_front q) \<and> items (drop_front q) = tl (items q)"
begin

text \<open>A sequence of operations, none of which has to wait, and what it takes out.\<close>

fun history :: "'q \<Rightarrow> 'a queue_op list \<Rightarrow> ('q \<times> 'a list) option" where
  "history q [] = Some (q, [])"
| "history q (Put x # ops) = (if size_of q < cap then history (put q x) ops else None)"
| "history q (Take # ops) =
     (if size_of q = 0 then None else map_option (\<lambda>(q', xs). (q', front q # xs)) (history (drop_front q) ops))"

lemma first_in_first_out:
  "ok q \<Longrightarrow> history q ops = Some (q', out) \<Longrightarrow> ok q' \<and> items q @ puts ops = out @ items q'"
proof (induction q ops arbitrary: out rule: history.induct)
  case (2 q x ops)
  then show ?case using put_law [of q x] by (simp split: if_splits)
next
  case (3 q ops)
  have full: "size_of q \<noteq> 0" using "3.prems"(2) by (auto split: if_splits)
  with "3.prems" obtain xs where xs: "history (drop_front q) ops = Some (q', xs)" "out = front q # xs" by auto
  have "items q = front q # items (drop_front q)"
    using full size_items [OF "3.prems"(1)] front_law [OF "3.prems"(1)] drop_law [OF "3.prems"(1)] by (cases "items q") auto
  moreover have "ok q' \<and> items (drop_front q) @ puts ops = xs @ items q'"
    using "3.IH" [OF full _ xs(1)] drop_law [OF "3.prems"(1)] full by simp
  ultimately show ?case using xs(2) by (metis append_Cons puts.simps(3))
qed simp

end

subsection \<open>The ring buffer\<close>

definition mailbox_ok :: "mailbox \<Rightarrow> bool" where
  "mailbox_ok mb \<longleftrightarrow> length (mb_buf mb) = MAILBOX_CAP \<and> mb_head mb < MAILBOX_CAP \<and> mb_count mb \<le> MAILBOX_CAP \<and>
     mb_tail mb = (mb_head mb + mb_count mb) mod MAILBOX_CAP"

definition mailbox_items :: "mailbox \<Rightarrow> val list" where
  "mailbox_items mb = map (\<lambda>i. mb_buf mb ! ((mb_head mb + i) mod MAILBOX_CAP)) [0..<mb_count mb]"

definition mailbox_front :: "mailbox \<Rightarrow> val" where
  "mailbox_front mb = mb_buf mb ! mb_head mb"

lemma mailbox_init_ok: "mailbox_ok mailbox_init" "mailbox_items mailbox_init = []"
  by (simp_all add: mailbox_ok_def mailbox_init_def mailbox_items_def MAILBOX_CAP_def)

lemma length_mailbox_items [simp]: "length (mailbox_items mb) = mb_count mb"
  by (simp add: mailbox_items_def)

text \<open>Two different positions within the capacity are different slots.\<close>

lemma ring_distinct: "(h + i) mod n = (h + j) mod (n::nat) \<Longrightarrow> i < n \<Longrightarrow> j < n \<Longrightarrow> i = j"
proof -
  assume eq: "(h + i) mod n = (h + j) mod n" and bounds: "i < n" "j < n"
  have "(int h + int i) mod int n = (int h + int j) mod int n" using eq by (metis of_nat_add of_nat_mod)
  then have "int n dvd int i - int j" by (simp add: mod_eq_dvd_iff)
  moreover have "\<bar>int i - int j\<bar> < int n" using bounds by linarith
  ultimately show "i = j" using dvd_imp_le_int [of "int i - int j" "int n"] by fastforce
qed

lemma mailbox_put_correct:
  assumes "mailbox_ok mb" "mb_count mb < MAILBOX_CAP"
  shows "mailbox_ok (mailbox_put mb v) \<and> mailbox_items (mailbox_put mb v) = mailbox_items mb @ [v]"
proof -
  have tail: "mb_tail mb = (mb_head mb + mb_count mb) mod MAILBOX_CAP" "length (mb_buf mb) = MAILBOX_CAP"
    using assms(1) by (simp_all add: mailbox_ok_def)
  have "mailbox_ok (mailbox_put mb v)"
    using assms by (simp add: mailbox_ok_def mailbox_put_def mod_Suc_eq)
  moreover have "mb_buf (mailbox_put mb v) ! ((mb_head mb + i) mod MAILBOX_CAP) =
      (if i = mb_count mb then v else mb_buf mb ! ((mb_head mb + i) mod MAILBOX_CAP))" if "i \<le> mb_count mb" for i
    using that assms(2) tail ring_distinct [of "mb_head mb" i MAILBOX_CAP "mb_count mb"]
    by (auto simp: mailbox_put_def nth_list_update MAILBOX_CAP_def)
  then have "mailbox_items (mailbox_put mb v) = mailbox_items mb @ [v]"
    by (simp add: mailbox_items_def) (simp add: mailbox_put_def)
  ultimately show ?thesis by blast
qed

lemma mailbox_take_correct:
  assumes "mailbox_ok mb" "mb_count mb > 0"
  shows "mailbox_ok (mailbox_take mb) \<and> mailbox_items mb = mailbox_front mb # mailbox_items (mailbox_take mb)"
proof -
  obtain n where n: "mb_count mb = Suc n" using assms(2) by (cases "mb_count mb") auto
  have head: "mb_head mb < MAILBOX_CAP" using assms(1) by (simp add: mailbox_ok_def)
  have "mailbox_ok (mailbox_take mb)"
    using assms n by (simp add: mailbox_ok_def mailbox_take_def MAILBOX_CAP_def mod_Suc_eq mod_simps)
  moreover have "mailbox_items mb = mb_buf mb ! (mb_head mb mod MAILBOX_CAP) #
      map (\<lambda>i. mb_buf mb ! ((mb_head mb + Suc i) mod MAILBOX_CAP)) [0..<n]"
    unfolding mailbox_items_def n by (simp add: upt_conv_Cons map_Suc_upt [symmetric] comp_def del: upt_Suc map_Suc_upt)
  ultimately show ?thesis
    using n head by (simp add: mailbox_items_def mailbox_take_def mailbox_front_def mod_simps)
qed

interpretation ring: bounded_queue mailbox_ok mailbox_items mb_count MAILBOX_CAP mailbox_put mailbox_front mailbox_take
proof unfold_locales
  fix q :: mailbox and x
  show "mb_count q = length (mailbox_items q)" by simp
  assume q: "mailbox_ok q"
  show "mb_count q < MAILBOX_CAP \<Longrightarrow> mailbox_ok (mailbox_put q x) \<and> mailbox_items (mailbox_put q x) = mailbox_items q @ [x]"
    by (rule mailbox_put_correct [OF q])
  show "0 < mb_count q \<Longrightarrow> mailbox_front q = hd (mailbox_items q)"
    "0 < mb_count q \<Longrightarrow> mailbox_ok (mailbox_take q) \<and> mailbox_items (mailbox_take q) = tl (mailbox_items q)"
    using mailbox_take_correct [OF q] by simp_all
qed

subsection \<open>Sending and receiving\<close>

definition inbox :: "vm \<Rightarrow> nat \<Rightarrow> mailbox" where
  "inbox s c = ac_mailbox (h_actors s ! c)"

definition with_inbox :: "vm \<Rightarrow> nat \<Rightarrow> mailbox \<Rightarrow> vm" where
  "with_inbox s c mb = s\<lparr>h_actors := (h_actors s)[c := (h_actors s ! c)\<lparr>ac_mailbox := mb\<rparr>]\<rparr>"

definition mailbox_op :: "nat \<Rightarrow> val queue_op \<Rightarrow> val option M" where
  "mailbox_op c p = (case p of
     Put v \<Rightarrow> bindM (mailbox_send c v) (\<lambda>_. retM None)
   | Take \<Rightarrow> bindM (mailbox_receive c) (\<lambda>v. retM (Some v)))"

lemma mailbox_op_simps:
  "mailbox_op c (Put v) = bindM (mailbox_send c v) (\<lambda>_. retM None)"
  "mailbox_op c Take = bindM (mailbox_receive c) (\<lambda>v. retM (Some v))"
  by (simp_all add: mailbox_op_def)

lemma mailbox_send_run:
  "c < length (h_actors s) \<Longrightarrow> mailbox_send c v s =
     (if mb_count (inbox s c) \<ge> MAILBOX_CAP then Timeout else Done () (with_inbox s c (mailbox_put (inbox s c) v)))"
  by (simp add: mailbox_send_def set_actor_def waits_def inbox_def with_inbox_def Let_def)

lemma mailbox_receive_run:
  "c < length (h_actors s) \<Longrightarrow> mailbox_ok (inbox s c) \<Longrightarrow> mailbox_receive c s =
     (if mb_count (inbox s c) = 0 then Timeout
      else Done (mailbox_front (inbox s c)) (with_inbox s c (mailbox_take (inbox s c))))"
  by (simp add: mailbox_receive_def set_actor_def waits_def inbox_def with_inbox_def Let_def mailbox_ok_def mailbox_front_def)

lemma with_inbox_simps [simp]:
  "c < length (h_actors s) \<Longrightarrow> inbox (with_inbox s c mb) c = mb"
  "c < length (h_actors s) \<Longrightarrow> with_inbox (with_inbox s c mb) c mb' = with_inbox s c mb'"
  "with_inbox s c (inbox s c) = s" "length (h_actors (with_inbox s c mb)) = length (h_actors s)"
  by (simp_all add: inbox_def with_inbox_def)

lemma mailbox_history:
  "c < length (h_actors s) \<Longrightarrow> mailbox_ok (inbox s c) \<Longrightarrow> mapM (mailbox_op c) ops s = Done outs s' \<Longrightarrow>
     \<exists>mb. ring.history (inbox s c) ops = Some (mb, List.map_filter (\<lambda>x. x) outs) \<and> s' = with_inbox s c mb"
proof (induction ops arbitrary: s outs)
  case Nil
  then show ?case by (auto simp: map_filter_simps intro: exI [of _ "inbox s c"])
next
  case (Cons p ops)
  show ?case
  proof (cases p)
    case (Put v)
    let ?s = "with_inbox s c (mailbox_put (inbox s c) v)"
    from Cons.prems Put obtain zs where room: "mb_count (inbox s c) < MAILBOX_CAP" and outs: "outs = None # zs"
      and run: "mapM (mailbox_op c) ops ?s = Done zs s'"
      by (auto simp: mailbox_op_simps bindM_Done_iff mailbox_send_run split: if_splits)
    have "mailbox_ok (inbox ?s c)" "c < length (h_actors ?s)" using mailbox_put_correct [OF Cons.prems(2) room] Cons.prems(1) by simp_all
    from Cons.IH [OF this(2,1) run] show ?thesis using room outs Put Cons.prems(1) by (auto simp: map_filter_simps)
  next
    case Take
    let ?s = "with_inbox s c (mailbox_take (inbox s c))"
    from Cons.prems Take obtain zs where some: "mb_count (inbox s c) > 0" and outs: "outs = Some (mailbox_front (inbox s c)) # zs"
      and run: "mapM (mailbox_op c) ops ?s = Done zs s'"
      by (auto simp: mailbox_op_simps bindM_Done_iff mailbox_receive_run split: if_splits)
    have "mailbox_ok (inbox ?s c)" "c < length (h_actors ?s)" using mailbox_take_correct [OF Cons.prems(2) some] Cons.prems(1) by simp_all
    from Cons.IH [OF this(2,1) run] show ?thesis using some outs Take Cons.prems(1) by (auto simp: map_filter_simps)
  qed
qed

text \<open>C36. A mailbox is a first-in first-out queue of at most 64 messages: in any sequence of sends and receives that does not wait,
  whichever threads they come from, what is received, followed by what still waits, is what waited before, followed by
  what was sent; a send waits exactly when 64 messages wait, a receive exactly when none does.  No other actor changes.\<close>

theorem mailbox_first_in_first_out:
  assumes "c < length (h_actors s)" "mailbox_ok (inbox s c)" "mapM (mailbox_op c) ops s = Done outs s'"
  shows "mailbox_ok (inbox s' c) \<and>
    mailbox_items (inbox s c) @ puts ops = List.map_filter (\<lambda>x. x) outs @ mailbox_items (inbox s' c) \<and>
    (mailbox_send c v s' = Timeout \<longleftrightarrow> length (mailbox_items (inbox s' c)) = 64) \<and>
    (mailbox_receive c s' = Timeout \<longleftrightarrow> mailbox_items (inbox s' c) = []) \<and>
    s' = with_inbox s c (inbox s' c)"
proof -
  from mailbox_history [OF assms] obtain mb where
    mb: "ring.history (inbox s c) ops = Some (mb, List.map_filter (\<lambda>x. x) outs)" "s' = with_inbox s c mb" by blast
  from ring.first_in_first_out [OF assms(2) mb(1)] have
    fifo: "mailbox_ok mb" "mailbox_items (inbox s c) @ puts ops = List.map_filter (\<lambda>x. x) outs @ mailbox_items mb" by auto
  have at: "inbox s' c = mb" "c < length (h_actors s')" using mb(2) assms(1) by simp_all
  have "mb_count mb \<le> 64" using fifo(1) by (simp add: mailbox_ok_def MAILBOX_CAP_def)
  moreover have "mailbox_items mb = [] \<longleftrightarrow> mb_count mb = 0" by (metis length_0_conv length_mailbox_items)
  ultimately show ?thesis
    using fifo mb(2) at mailbox_send_run [OF at(2), of v] mailbox_receive_run [OF at(2)] by (simp add: MAILBOX_CAP_def)
qed

subsection \<open>Steps\<close>

text \<open>The change of a node that \<open>start-node\<close>, \<open>stop-node!\<close> and the connections make.\<close>

definition keeps_actors :: "(actor_system \<Rightarrow> actor_system) \<Rightarrow> bool" where
  "keeps_actors f \<longleftrightarrow> (\<forall>sys. as_actors (f sys) = as_actors sys \<and> as_next_actor_id (f sys) = as_next_actor_id sys)"

inductive actor_step :: "vm \<Rightarrow> vm \<Rightarrow> bool" where
  enters: "new_actor_context y s = Done c s' \<Longrightarrow> actor_step s s'"
| sends: "mailbox_send c v s = Done u s' \<Longrightarrow> actor_step s s'"
| receives: "mailbox_receive c s = Done v s' \<Longrightarrow> actor_step s s'"
| allocates: "alloc_actor_system s = Done y s' \<Longrightarrow> actor_step s s'"
| configures: "keeps_actors f \<Longrightarrow> set_node y f s = Done u s' \<Longrightarrow> actor_step s s'"
| moves: "y < length (h_systems s) \<Longrightarrow> as_actors (h_systems s ! y) = [] \<Longrightarrow>
    move_context_to_system c y s = Done u s' \<Longrightarrow> actor_step s s'"
| monitors: "add_monitor y m s = Done u s' \<Longrightarrow> actor_step s s'"
| names: "add_name y name i s = Done u s' \<Longrightarrow> actor_step s s'"
| leaves: "unregister_actor c s = Done u s' \<Longrightarrow> actor_step s s'"
| other: "h_actors s' = h_actors s \<Longrightarrow> h_systems s' = h_systems s \<Longrightarrow> actor_step s s'"

subsection \<open>Well-formed registries\<close>

lemma dec_inject: "dec k = dec l \<Longrightarrow> k = l"
  using scan_dec [of "[]" k] scan_dec [of "[]" l] by simp

definition registered :: "actor_context list \<Rightarrow> nat \<Rightarrow> actor_system \<Rightarrow> bool" where
  "registered xs y sys \<longleftrightarrow> distinct (as_actors sys) \<and> inj_on (\<lambda>c. ac_id (xs ! c)) (set (as_actors sys)) \<and>
     1 \<le> as_next_actor_id sys \<and> as_next_actor_id sys \<le> INT64_MAX \<and>
     (\<forall>c \<in> set (as_actors sys). c < length xs \<and> ac_system (xs ! c) = y \<and>
        (\<exists>k. 1 \<le> k \<and> k < as_next_actor_id sys \<and> ac_id (xs ! c) = dec k))"

definition context_ok :: "nat \<Rightarrow> actor_context \<Rightarrow> bool" where
  "context_ok n x \<longleftrightarrow> mailbox_ok (ac_mailbox x) \<and> ac_system x < n \<and> (\<exists>k. 1 \<le> k \<and> k < INT64_MAX \<and> ac_id x = dec k)"

definition actors_ok :: "vm \<Rightarrow> bool" where
  "actors_ok s \<longleftrightarrow> (\<forall>y < length (h_systems s). registered (h_actors s) y (h_systems s ! y)) \<and>
     list_all (context_ok (length (h_systems s))) (h_actors s)"

lemma actors_okD:
  "actors_ok s \<Longrightarrow> y < length (h_systems s) \<Longrightarrow> registered (h_actors s) y (h_systems s ! y)"
  "actors_ok s \<Longrightarrow> c < length (h_actors s) \<Longrightarrow> context_ok (length (h_systems s)) (h_actors s ! c)"
  by (auto simp: actors_ok_def list_all_length)

text \<open>A context may change as long as its id and its system stay.\<close>

lemma registered_cong:
  "registered xs y sys \<Longrightarrow> length xs \<le> length xs' \<Longrightarrow>
     (\<And>c. c \<in> set (as_actors sys) \<Longrightarrow> ac_id (xs' ! c) = ac_id (xs ! c) \<and> ac_system (xs' ! c) = ac_system (xs ! c)) \<Longrightarrow>
     as_actors sys' = as_actors sys \<Longrightarrow> as_next_actor_id sys' = as_next_actor_id sys \<Longrightarrow> registered xs' y sys'"
  unfolding registered_def by (auto simp: inj_on_def)

lemma registered_other:
  assumes "registered xs y sys" "c \<notin> set (as_actors sys)"
  shows "registered (xs[c := x]) y sys"
proof (rule registered_cong [OF assms(1)])
  fix d assume "d \<in> set (as_actors sys)"
  with assms(2) have "c \<noteq> d" by auto
  then show "ac_id (xs[c := x] ! d) = ac_id (xs ! d) \<and> ac_system (xs[c := x] ! d) = ac_system (xs ! d)" by simp
qed simp_all

lemma context_ok_mono: "context_ok n x \<Longrightarrow> n \<le> m \<Longrightarrow> context_ok m x"
  by (auto simp: context_ok_def)

text \<open>A mailbox changes.\<close>

lemma mailbox_change_ok:
  assumes "actors_ok s" "c < length (h_actors s)" "mailbox_ok mb"
  shows "actors_ok (s\<lparr>h_actors := (h_actors s)[c := (h_actors s ! c)\<lparr>ac_mailbox := mb\<rparr>]\<rparr>)"
proof -
  let ?xs = "(h_actors s)[c := (h_actors s ! c)\<lparr>ac_mailbox := mb\<rparr>]"
  have same: "ac_id (?xs ! d) = ac_id (h_actors s ! d)" "ac_system (?xs ! d) = ac_system (h_actors s ! d)" for d
    using assms(2) by (simp_all add: nth_list_update)
  have "registered ?xs y (h_systems s ! y)" if "y < length (h_systems s)" for y
    by (rule registered_cong [OF actors_okD(1) [OF assms(1) that]]) (simp_all add: same)
  moreover have "context_ok (length (h_systems s)) (?xs ! d)" if "d < length ?xs" for d
    using actors_okD(2) [OF assms(1), of d] that assms(2,3) by (auto simp: nth_list_update context_ok_def)
  ultimately show ?thesis by (simp add: actors_ok_def list_all_length)
qed

text \<open>A system changes but for its actors.\<close>

lemma system_change_ok:
  assumes "actors_ok s" "as_actors sys = as_actors (h_systems s ! y)" "as_next_actor_id sys = as_next_actor_id (h_systems s ! y)"
  shows "actors_ok (s\<lparr>h_systems := (h_systems s)[y := sys]\<rparr>)"
proof -
  have "registered (h_actors s) z ((h_systems s)[y := sys] ! z)" if "z < length (h_systems s)" for z
    using registered_cong [OF actors_okD(1) [OF assms(1) that], of "h_actors s" "(h_systems s)[y := sys] ! z"] assms(2,3) that
    by (cases "z = y") simp_all
  then show ?thesis using assms(1) by (simp add: actors_ok_def)
qed

lemma new_context_ok:
  assumes "actors_ok s" "new_actor_context y s = Done c s'"
  shows "actors_ok s' \<and> c = length (h_actors s) \<and> c \<in> set (as_actors (h_systems s' ! y))"
proof -
  let ?sys = "h_systems s ! y"
  let ?new = "\<lparr> ac_id = dec (as_next_actor_id ?sys), ac_mailbox = mailbox_init, ac_system = y \<rparr>"
  let ?xs = "h_actors s @ [?new]"
  let ?sys' = "?sys\<lparr>as_next_actor_id := as_next_actor_id ?sys + 1, as_actors := length (h_actors s) # as_actors ?sys\<rparr>"
  from assms(2) have y: "y < length (h_systems s)" and next_ok: "as_next_actor_id ?sys < INT64_MAX"
    and c: "c = length (h_actors s)" and s': "s' = s\<lparr>h_actors := ?xs, h_systems := (h_systems s)[y := ?sys']\<rparr>"
    by (auto simp: new_actor_context_def derefM_def next_id_def set_system_def bindM_def split: if_splits)
  note reg = actors_okD(1) [OF assms(1) y]
  have old: "?xs ! d = h_actors s ! d" if "d < length (h_actors s)" for d using that by (simp add: nth_append)
  have "registered ?xs z ((h_systems s)[y := ?sys'] ! z)" if z: "z < length (h_systems s)" for z
  proof (cases "z = y")
    case False
    then show ?thesis using registered_cong [OF actors_okD(1) [OF assms(1) z], of ?xs] z
      by (auto simp: old actors_okD(1) [OF assms(1) z, unfolded registered_def])
  next
    case True
    have bound: "d < length (h_actors s)" if "d \<in> set (as_actors ?sys)" for d using reg that by (auto simp: registered_def)
    have fresh: "dec (as_next_actor_id ?sys) \<noteq> ac_id (h_actors s ! d)" if "d \<in> set (as_actors ?sys)" for d
    proof
      assume "dec (as_next_actor_id ?sys) = ac_id (h_actors s ! d)"
      with reg that obtain k where "k < as_next_actor_id ?sys" "dec (as_next_actor_id ?sys) = dec k"
        by (auto simp: registered_def)
      then show False using dec_inject by blast
    qed
    let ?S = "set (as_actors ?sys)" and ?n = "length (h_actors s)"
    have ids: "ac_id (?xs ! d) = ac_id (h_actors s ! d)" if "d \<in> ?S" for d using bound [OF that] old by simp
    have "distinct (?n # as_actors ?sys)" using reg bound by (auto simp: registered_def)
    moreover have "inj_on (\<lambda>d. ac_id (?xs ! d)) ?S"
      using reg ids inj_on_cong [of ?S "\<lambda>d. ac_id (?xs ! d)" "\<lambda>d. ac_id (h_actors s ! d)"] by (simp add: registered_def)
    then have "inj_on (\<lambda>d. ac_id (?xs ! d)) (insert ?n ?S)"
      using fresh ids by (auto simp: inj_on_insert)
    moreover have "d < Suc ?n \<and> ac_system (?xs ! d) = y \<and> (\<exists>k\<ge>1. k < as_next_actor_id ?sys + 1 \<and> ac_id (?xs ! d) = dec k)"
      if "d \<in> insert ?n ?S" for d
    proof (cases "d = ?n")
      case False
      then have d: "d \<in> ?S" using that by simp
      with reg obtain k where "1 \<le> k" "k < as_next_actor_id ?sys" "ac_id (h_actors s ! d) = dec k" "ac_system (h_actors s ! d) = y"
        by (auto simp: registered_def)
      then show ?thesis using bound [OF d] old by (intro conjI exI [of _ k]) auto
    qed (use reg in \<open>auto simp: registered_def intro!: exI [of _ "as_next_actor_id ?sys"]\<close>)
    ultimately show ?thesis using reg y True next_ok unfolding registered_def by (simp del: distinct.simps)
  qed
  moreover have "context_ok (length (h_systems s)) (?xs ! d)" if "d < length ?xs" for d
  proof (cases "d < length (h_actors s)")
    case True
    then show ?thesis using actors_okD(2) [OF assms(1) True] old by simp
  next
    case False
    then have "d = length (h_actors s)" using that by simp
    then show ?thesis using y next_ok reg by (auto simp: context_ok_def mailbox_init_ok registered_def)
  qed
  ultimately show ?thesis using s' c y by (simp add: actors_ok_def list_all_length)
qed

lemma strtoll_id: "1 \<le> k \<Longrightarrow> k < INT64_MAX \<Longrightarrow> fst (strtoll 10 (dec k)) = k"
  using scan_dec [of "[]" k] by (simp add: strtoll_def clamp64_def INT64_MAX_def)

text \<open>Leaving a list of actors.\<close>

lemma registered_without:
  "registered xs y sys \<Longrightarrow> as_actors sys' = filter P (as_actors sys) \<Longrightarrow> as_next_actor_id sys' = as_next_actor_id sys \<Longrightarrow>
     registered xs y sys'"
  unfolding registered_def by (auto intro: inj_on_subset)

lemma unregister_ok:
  assumes "actors_ok s" "unregister_actor c s = Done u s'"
  shows "actors_ok s'"
proof -
  let ?x = "h_actors s ! c"
  let ?sys = "h_systems s ! ac_system ?x"
  define sys' where "sys' = ?sys\<lparr>as_actors := filter (\<lambda>d. d \<noteq> c) (as_actors ?sys),
    as_names := filter (\<lambda>n. snd n \<noteq> ac_id ?x) (as_names ?sys),
    as_monitors := filter (\<lambda>m. \<not> (fst m = ac_id ?x \<or> snd m = ac_id ?x)) (as_monitors ?sys)\<rparr>"
  have s': "s' = s\<lparr>h_systems := (h_systems s)[ac_system ?x := sys']\<rparr>"
    using assms(2) by (simp add: unregister_actor_def derefM_def set_system_def bindM_def sys'_def split: if_splits)
  have sys': "as_actors sys' = filter (\<lambda>d. d \<noteq> c) (as_actors ?sys)" "as_next_actor_id sys' = as_next_actor_id ?sys"
    by (simp_all add: sys'_def)
  have "registered (h_actors s) z ((h_systems s)[ac_system (h_actors s ! c) := sys'] ! z)" if "z < length (h_systems s)" for z
    using registered_without [OF actors_okD(1) [OF assms(1) that], of sys'] actors_okD(1) [OF assms(1) that] sys' that
    by (cases "z = ac_system (h_actors s ! c)") simp_all
  then show ?thesis using assms(1) s' by (simp add: actors_ok_def)
qed

lemma alloc_ok:
  assumes "actors_ok s" "alloc_actor_system s = Done y s'"
  shows "actors_ok s'"
  using assms context_ok_mono [of "length (h_systems s)" _ "Suc (length (h_systems s))"]
  by (auto simp: actors_ok_def alloc_actor_system_def nth_append registered_def INT64_MAX_def list_all_length less_Suc_eq)

lemma move_ok:
  assumes "actors_ok s" "y < length (h_systems s)" "as_actors (h_systems s ! y) = []" "move_context_to_system c y s = Done u s'"
  shows "actors_ok s'"
proof (cases "ac_system (h_actors s ! c) = y")
  case True
  then show ?thesis using assms(1,4) by (auto simp: move_context_to_system_def derefM_def bindM_def split: if_splits)
next
  case False
  define x where "x = h_actors s ! c"
  define i where "i = ac_system x"
  from assms(4) False have c: "c < length (h_actors s)"
    by (auto simp: move_context_to_system_def derefM_def bindM_def split: if_splits)
  have iy: "i \<noteq> y" using False by (simp add: i_def x_def)
  have "context_ok (length (h_systems s)) x" using actors_okD(2) [OF assms(1) c] by (simp add: x_def)
  then obtain k where i: "i < length (h_systems s)" and k: "1 \<le> k" "k < INT64_MAX" "ac_id x = dec k" and box: "mailbox_ok (ac_mailbox x)"
    by (auto simp: context_ok_def i_def)
  define m where "m = (if as_next_actor_id (h_systems s ! y) \<le> k then k + 1 else as_next_actor_id (h_systems s ! y))"
  define old where "old = (h_systems s ! i)\<lparr>as_actors := filter (\<lambda>d. d \<noteq> c) (as_actors (h_systems s ! i))\<rparr>"
  define new where "new = (h_systems s ! y)\<lparr>as_actors := [c], as_next_actor_id := m\<rparr>"
  let ?xs = "(h_actors s)[c := x\<lparr>ac_system := y\<rparr>]" and ?ys = "(h_systems s)[i := old, y := new]"
  have n: "fst (strtoll 10 (ac_id x)) = k" using strtoll_id k by simp
  have "next_id k = retM (k + 1)" using k by (simp add: next_id_def)
  then have "move_context_to_system c y s = Done () (s\<lparr>h_actors := ?xs, h_systems := ?ys\<rparr>)"
    using c i iy n assms(2,3) unfolding move_context_to_system_def
    by (simp add: x_def [symmetric] i_def [symmetric] set_system_def set_actor_def old_def [symmetric] new_def m_def)
  then have s': "s' = s\<lparr>h_actors := ?xs, h_systems := ?ys\<rparr>" using assms(4) by simp
  have "registered ?xs z (?ys ! z)" if z: "z < length (h_systems s)" for z
  proof -
    note reg = actors_okD(1) [OF assms(1) z]
    consider "z = y" | "z = i" | "z \<noteq> y" "z \<noteq> i" by blast
    then show ?thesis
    proof cases
      case 1
      have "1 \<le> m \<and> m \<le> INT64_MAX \<and> k < m" using reg k 1 by (auto simp: registered_def m_def)
      then show ?thesis using 1 k c z by (auto simp: registered_def new_def)
    next
      case 2
      have less: "registered (h_actors s) z old" using registered_without [OF reg, of old] 2 by (simp add: old_def)
      have "registered ?xs z old" by (rule registered_other [OF less]) (simp add: old_def)
      then show ?thesis using 2 iy i by simp
    next
      case 3
      then have "?ys ! z = h_systems s ! z" "c \<notin> set (as_actors (h_systems s ! z))"
        using reg by (auto simp: registered_def i_def x_def)
      then show ?thesis using registered_other [OF reg] by simp
    qed
  qed
  moreover have "context_ok (length (h_systems s)) (?xs ! d)" if "d < length (h_actors s)" for d
    using actors_okD(2) [OF assms(1) that] c k box assms(2) by (cases "d = c") (auto simp: context_ok_def)
  ultimately show ?thesis using s' by (simp add: actors_ok_def list_all_length)
qed

lemma send_ok:
  assumes "actors_ok s" "mailbox_send c v s = Done u s'"
  shows "actors_ok s'"
proof -
  from assms(2) have c: "c < length (h_actors s)" and room: "mb_count (ac_mailbox (h_actors s ! c)) < MAILBOX_CAP"
    and s': "s' = s\<lparr>h_actors := (h_actors s)[c := (h_actors s ! c)\<lparr>ac_mailbox := mailbox_put (ac_mailbox (h_actors s ! c)) v\<rparr>]\<rparr>"
    by (auto simp: mailbox_send_def derefM_def set_actor_def waits_def Let_def bindM_def split: if_splits)
  have "mailbox_ok (ac_mailbox (h_actors s ! c))" using actors_okD(2) [OF assms(1) c] by (simp add: context_ok_def)
  then show ?thesis unfolding s' using mailbox_put_correct room by (intro mailbox_change_ok [OF assms(1) c]) blast
qed

lemma receive_ok:
  assumes "actors_ok s" "mailbox_receive c s = Done v s'"
  shows "actors_ok s'"
proof -
  from assms(2) have c: "c < length (h_actors s)" and some: "mb_count (ac_mailbox (h_actors s ! c)) > 0"
    and s': "s' = s\<lparr>h_actors := (h_actors s)[c := (h_actors s ! c)\<lparr>ac_mailbox := mailbox_take (ac_mailbox (h_actors s ! c))\<rparr>]\<rparr>"
    by (auto simp: mailbox_receive_def derefM_def indexM_def set_actor_def waits_def Let_def bindM_def split: if_splits)
  have "mailbox_ok (ac_mailbox (h_actors s ! c))" using actors_okD(2) [OF assms(1) c] by (simp add: context_ok_def)
  then show ?thesis unfolding s' using mailbox_take_correct some by (intro mailbox_change_ok [OF assms(1) c]) blast
qed

lemma step_ok: "actor_step s s' \<Longrightarrow> actors_ok s \<Longrightarrow> actors_ok s'"
proof (induction rule: actor_step.induct)
  case (configures f y s u s')
  then show ?case
    by (auto simp: set_node_def derefM_def set_system_def bindM_def keeps_actors_def split: if_splits intro!: system_change_ok)
next
  case (monitors y m s u s')
  then show ?case by (auto simp: add_monitor_def derefM_def set_system_def bindM_def split: if_splits intro!: system_change_ok)
next
  case (names y name i s u s')
  then show ?case by (auto simp: add_name_def derefM_def set_system_def bindM_def split: if_splits intro!: system_change_ok)
next
  case (other s' s)
  then show ?case by (simp add: actors_ok_def)
qed (auto intro: send_ok receive_ok alloc_ok move_ok unregister_ok dest: new_context_ok)

lemma steps_ok: "actor_step\<^sup>*\<^sup>* s s' \<Longrightarrow> actors_ok s \<Longrightarrow> actors_ok s'"
  by (induction rule: rtranclp_induct) (auto intro: step_ok)

text \<open>A process starts with the default system and no actor.\<close>

definition no_actors :: "vm \<Rightarrow> bool" where
  "no_actors s \<longleftrightarrow> h_actors s = [] \<and> h_systems s = [g_default_system]"

lemma start_ok: "no_actors s \<Longrightarrow> actors_ok s"
  by (simp add: no_actors_def actors_ok_def registered_def g_default_system_def INT64_MAX_def)

lemma vm0_actors [simp]: "h_actors vm0 = []" "h_systems vm0 = [g_default_system]" "h_down_type vm0 = None" "vm_current_actor vm0 = None"
  by (simp_all add: vm0_def creme_new_empty_vm_def creme_setup_frame0_def upd_frame_def initial_heap_def)
     (simp_all add: creme_alloc_vm_def heap.defs vm.defs)

text \<open>C37. However the threads of a process interleave their sections: two actors that are registered in one system at the same time
  have different ids, each id is the numeral of a number the system will not hand out again, an actor is in no system but its own, and
  every mailbox is a well-formed ring of at most 64 messages.\<close>

theorem actor_ids_unique:
  assumes "no_actors s0" "actor_step\<^sup>*\<^sup>* s0 s" "y < length (h_systems s)" "c \<in> set (as_actors (h_systems s ! y))"
  shows "ac_system (h_actors s ! c) = y \<and> mailbox_ok (inbox s c) \<and>
    (\<exists>k. 1 \<le> k \<and> k < as_next_actor_id (h_systems s ! y) \<and> ac_id (h_actors s ! c) = dec k) \<and>
    {d \<in> set (as_actors (h_systems s ! y)). ac_id (h_actors s ! d) = ac_id (h_actors s ! c)} = {c}"
proof -
  have ok: "actors_ok s" by (rule steps_ok [OF assms(2) start_ok [OF assms(1)]])
  from actors_okD(1) [OF this assms(3)] have reg: "registered (h_actors s) y (h_systems s ! y)" .
  then have "c < length (h_actors s)" using assms(4) by (auto simp: registered_def)
  with actors_okD(2) [OF ok this] have "mailbox_ok (inbox s c)" by (simp add: context_ok_def inbox_def)
  with reg assms(4) show ?thesis by (auto simp: registered_def dest: inj_onD)
qed

text \<open>Two actors enter the default system; one of them sends to the other.\<close>

definition two_actors :: vm where
  "two_actors = (case bindM (new_actor_context 0) (\<lambda>c. bindM (new_actor_context 0) (\<lambda>d. mailbox_send c (VInt 7))) vm0 of Done u s \<Rightarrow> s | _ \<Rightarrow> vm0)"

lemma two_actors_run: "bindM (new_actor_context 0) (\<lambda>c. bindM (new_actor_context 0) (\<lambda>d. mailbox_send c (VInt 7))) vm0 = Done () two_actors"
  by (simp add: two_actors_def new_actor_context_def g_default_system_def next_id_def INT64_MAX_def set_system_def mailbox_send_def
      mailbox_init_def set_actor_def MAILBOX_CAP_def)

lemma two_actors_steps: "actor_step\<^sup>*\<^sup>* vm0 two_actors"
proof -
  from two_actors_run obtain c s1 d s2 where "new_actor_context 0 vm0 = Done c s1" "new_actor_context 0 s1 = Done d s2"
    "mailbox_send c (VInt 7) s2 = Done () two_actors" by (auto simp: bindM_Done_iff)
  then have "actor_step vm0 s1" "actor_step s1 s2" "actor_step s2 two_actors" by (auto intro: actor_step.intros)
  then show ?thesis by (blast intro: converse_rtranclp_into_rtranclp)
qed

lemma dec_small: "dec 1 = ''1''" "dec 2 = ''2''"
  by code_simp+

lemma two_actors_simps:
  "h_systems two_actors = [g_default_system\<lparr>as_next_actor_id := 3, as_actors := [1, 0]\<rparr>]"
  "length (h_actors two_actors) = 2" "ac_id (h_actors two_actors ! 0) = ''1''" "ac_id (h_actors two_actors ! Suc 0) = ''2''"
  by (simp_all add: two_actors_def new_actor_context_def g_default_system_def next_id_def INT64_MAX_def set_system_def mailbox_send_def
      mailbox_init_def set_actor_def MAILBOX_CAP_def dec_small)

lemma actor_ids_unique_witness:
  "{d \<in> set (as_actors (h_systems two_actors ! 0)). ac_id (h_actors two_actors ! d) = ''2''} = {1} \<and> mailbox_ok (inbox two_actors 1)"
  using actor_ids_unique [of vm0 two_actors 0 1] two_actors_steps
  by (simp add: no_actors_def two_actors_simps)

lemma mailbox_first_in_first_out_witness:
  "\<exists>outs s'. mapM (mailbox_op 0) [Put (VInt 8), Take, Take] two_actors = Done outs s' \<and>
     mailbox_items (inbox two_actors 0) @ puts [Put (VInt 8), Take, Take] =
       List.map_filter (\<lambda>x. x) outs @ mailbox_items (inbox s' 0) \<and> mailbox_receive 0 s' = Timeout"
proof -
  have at: "0 < length (h_actors two_actors)" by (simp add: two_actors_simps)
  have box: "inbox two_actors 0 = mailbox_put mailbox_init (VInt 7)"
    by (simp add: inbox_def two_actors_def new_actor_context_def g_default_system_def next_id_def INT64_MAX_def set_system_def
        mailbox_send_def mailbox_init_def set_actor_def MAILBOX_CAP_def)
  have ok: "mailbox_ok (inbox two_actors 0)"
    using mailbox_put_correct [OF mailbox_init_ok(1)] box by (simp add: mailbox_init_def MAILBOX_CAP_def)
  obtain outs s' where run: "mapM (mailbox_op 0) [Put (VInt 8), Take, Take] two_actors = Done outs s'"
    and empty: "mb_count (inbox s' 0) = 0"
    using at box by (auto simp: mailbox_op_simps mailbox_send_run mailbox_receive_def waits_def set_actor_def inbox_def [symmetric]
        with_inbox_def [symmetric] Let_def mailbox_put_def mailbox_take_def mailbox_init_def MAILBOX_CAP_def)
  have "mailbox_items (inbox s' 0) = []" using empty by (metis length_0_conv length_mailbox_items)
  with mailbox_first_in_first_out [OF at ok run] show ?thesis using run by blast
qed

subsection \<open>The end of an actor\<close>

text \<open>The actors that are told: the registered watchers, in the order of the monitors, and no more than 64 of them.\<close>

definition watchers :: "vm \<Rightarrow> nat \<Rightarrow> nat list" where
  "watchers s c =
     (let sys = h_systems s ! ac_system (h_actors s ! c) in
      take 64 (List.map_filter (\<lambda>m. if snd m = ac_id (h_actors s ! c) then find (\<lambda>d. ac_id (h_actors s ! d) = fst m) (as_actors sys) else None)
        (as_monitors sys)))"

definition down_message :: "vm \<Rightarrow> bytes \<Rightarrow> nat \<Rightarrow> val \<Rightarrow> val \<Rightarrow> bool" where
  "down_message s aid c reason v \<longleftrightarrow> (\<exists>p q ty. v = VRecord p \<and> p < length (h_records s) \<and> h_down_type s = Some ty \<and>
     h_records s ! p = \<lparr> rec_type = ty, rec_fields = [VBox BOX_KIND_ACTOR_REF q, reason] \<rparr> \<and>
     q < length (h_boxes s) \<and> h_boxes s ! q = BoxActorRef \<lparr> ar_id = aid, ar_local_ctx = Some c, ar_addr = ADDR_NONE \<rparr>)"

text \<open>What sending leaves alone.\<close>

definition sends_only :: "vm \<Rightarrow> vm \<Rightarrow> bool" where
  "sends_only s s' \<longleftrightarrow> h_systems s' = h_systems s \<and> h_boxes s' = h_boxes s \<and> h_down_type s' = h_down_type s \<and>
     length (h_records s) \<le> length (h_records s') \<and> (\<forall>p < length (h_records s). h_records s' ! p = h_records s ! p) \<and>
     length (h_actors s') = length (h_actors s) \<and>
     (\<forall>d < length (h_actors s). ac_id (h_actors s' ! d) = ac_id (h_actors s ! d) \<and> ac_system (h_actors s' ! d) = ac_system (h_actors s ! d))"

lemma sends_only_trans: "sends_only s s' \<Longrightarrow> sends_only s' s'' \<Longrightarrow> sends_only s s''"
  unfolding sends_only_def by force

lemma find_context_finds:
  "list_all (\<lambda>d. d < length (h_actors s)) cs \<Longrightarrow> find_context cs i s = Done (find (\<lambda>d. ac_id (h_actors s ! d) = i) cs) s"
  by (induction cs) simp_all

lemma watchers_of_run:
  "list_all (\<lambda>d. d < length (h_actors s)) (as_actors sys) \<Longrightarrow> watchers_of sys i ms s =
     Done (List.map_filter (\<lambda>m. if snd m = i then find (\<lambda>d. ac_id (h_actors s ! d) = fst m) (as_actors sys) else None) ms) s"
  by (induction ms) (auto simp: find_context_by_id_locked_def find_context_finds map_filter_simps bindM_def split: option.split)

lemma send_downs_run:
  "actors_ok s \<Longrightarrow> list_all (\<lambda>d. d < length (h_actors s)) ws \<Longrightarrow>
   (\<And>d. d < length (h_actors s) \<Longrightarrow> mb_count (inbox s d) + count_list ws d \<le> MAILBOX_CAP) \<Longrightarrow>
   \<exists>s'. forM ws (send_down ty me reason) s = Done () s' \<and> actors_ok s' \<and> sends_only s s' \<and>
     (\<forall>d < length (h_actors s). \<exists>ps. mailbox_items (inbox s' d) = mailbox_items (inbox s d) @ map VRecord ps \<and>
        length ps = count_list ws d \<and>
        (\<forall>p \<in> set ps. p < length (h_records s') \<and> h_records s' ! p = \<lparr> rec_type = ty, rec_fields = [me, reason] \<rparr>))"
proof (induction ws arbitrary: s)
  case Nil
  then show ?case by (auto simp: sends_only_def intro!: exI [of _ "[]"])
next
  case (Cons w ws)
  let ?rec = "\<lparr> rec_type = ty, rec_fields = [me, reason] \<rparr>" and ?p = "length (h_records s)"
  let ?s0 = "s\<lparr>h_records := h_records s @ [?rec]\<rparr>"
  let ?s1 = "with_inbox ?s0 w (mailbox_put (inbox s w) (VRecord ?p))"
  have w: "w < length (h_actors s)" using Cons.prems(2) by simp
  have room: "mb_count (inbox s w) < MAILBOX_CAP" using Cons.prems(3) [OF w] by simp
  have box: "mailbox_ok (inbox s w)" using actors_okD(2) [OF Cons.prems(1) w] by (simp add: context_ok_def inbox_def)
  note put = mailbox_put_correct [OF box room, of "VRecord ?p"]
  have same: "inbox ?s0 w = inbox s w" by (simp add: inbox_def)
  then have run: "send_down ty me reason w s = Done () ?s1"
    using w room by (simp add: send_down_def new_record_def bindM_def mailbox_send_run)
  have "actors_ok ?s0" using Cons.prems(1) by (simp add: actors_ok_def)
  from mailbox_change_ok [OF this, of w] put w have ok: "actors_ok ?s1" by (simp add: with_inbox_def)
  have only: "sends_only s ?s1" using w by (simp add: sends_only_def with_inbox_def nth_append nth_list_update)
  have boxes: "inbox ?s1 d = (if d = w then mailbox_put (inbox s w) (VRecord ?p) else inbox s d)" if "d < length (h_actors s)" for d
    using that w by (simp add: inbox_def with_inbox_def)
  have len: "length (h_actors ?s1) = length (h_actors s)" by (simp add: with_inbox_def)
  have count: "mb_count (inbox ?s1 d) + count_list ws d \<le> MAILBOX_CAP" if "d < length (h_actors ?s1)" for d
    using Cons.prems(3) [of d] boxes [of d] that len by (auto simp: mailbox_put_def)
  from Cons.IH [OF ok _ count] Cons.prems(2) len obtain s2 where s2: "forM ws (send_down ty me reason) ?s1 = Done () s2" "actors_ok s2"
    "sends_only ?s1 s2"
    and all: "\<And>d. d < length (h_actors s) \<Longrightarrow> \<exists>ps. mailbox_items (inbox s2 d) = mailbox_items (inbox ?s1 d) @ map VRecord ps \<and>
        length ps = count_list ws d \<and> (\<forall>p \<in> set ps. p < length (h_records s2) \<and> h_records s2 ! p = ?rec)" by auto
  have p: "?p < length (h_records s2) \<and> h_records s2 ! ?p = ?rec" using s2(3) by (auto simp: sends_only_def with_inbox_def)
  have "\<exists>ps. mailbox_items (inbox s2 d) = mailbox_items (inbox s d) @ map VRecord ps \<and> length ps = count_list (w # ws) d \<and>
      (\<forall>q \<in> set ps. q < length (h_records s2) \<and> h_records s2 ! q = ?rec)" if d: "d < length (h_actors s)" for d
  proof -
    from all [OF d] obtain ps where ps: "mailbox_items (inbox s2 d) = mailbox_items (inbox ?s1 d) @ map VRecord ps"
      "length ps = count_list ws d" "\<forall>q \<in> set ps. q < length (h_records s2) \<and> h_records s2 ! q = ?rec" by blast
    show ?thesis
    proof (cases "d = w")
      case True
      then show ?thesis using ps p put boxes [OF d] by (intro exI [of _ "?p # ps"]) simp
    next
      case False
      then show ?thesis using ps boxes [OF d] by (intro exI [of _ ps]) simp
    qed
  qed
  then show ?case using run s2(1,2) sends_only_trans [OF only s2(3)] by (intro exI [of _ s2]) (simp add: bindM_def)
qed

lemma watchers_registered: "set (watchers s c) \<subseteq> set (as_actors (h_systems s ! ac_system (h_actors s ! c)))"
proof
  fix d assume "d \<in> set (watchers s c)"
  then obtain P where "find P (as_actors (h_systems s ! ac_system (h_actors s ! c))) = Some d"
    unfolding watchers_def Let_def by (auto simp: map_filter_def dest!: in_set_takeD split: if_splits)
  then show "d \<in> set (as_actors (h_systems s ! ac_system (h_actors s ! c)))" by (auto simp: find_Some_iff)
qed

lemma notify_run:
  assumes "actors_ok s" "c < length (h_actors s)"
    and "\<And>d. d < length (h_actors s) \<Longrightarrow> mb_count (inbox s d) + count_list (watchers s c) d \<le> MAILBOX_CAP"
  shows "\<exists>s'. notify_down c reason s = Done () s' \<and> actors_ok s' \<and> h_systems s' = h_systems s \<and>
     length (h_actors s') = length (h_actors s) \<and>
     (\<forall>d < length (h_actors s). ac_id (h_actors s' ! d) = ac_id (h_actors s ! d) \<and> ac_system (h_actors s' ! d) = ac_system (h_actors s ! d)) \<and>
     (\<forall>d < length (h_actors s). \<exists>ms. mailbox_items (inbox s' d) = mailbox_items (inbox s d) @ ms \<and>
        length ms = count_list (watchers s c) d \<and> list_all (down_message s' (ac_id (h_actors s ! c)) c reason) ms)"
proof -
  let ?x = "h_actors s ! c"
  obtain ty s1 where ty: "get_down_type s = Done ty s1" "h_down_type s1 = Some ty" "h_actors s1 = h_actors s"
    "h_systems s1 = h_systems s" "h_boxes s1 = h_boxes s" "h_records s1 = h_records s"
    by (cases "h_down_type s") (simp_all add: get_down_type_def Let_def)
  let ?me = "VBox BOX_KIND_ACTOR_REF (length (h_boxes s))"
  let ?s2 = "s1\<lparr>h_boxes := h_boxes s1 @ [BoxActorRef \<lparr> ar_id = ac_id ?x, ar_local_ctx = Some c, ar_addr = ADDR_NONE \<rparr>]\<rparr>"
  have me: "v_actor_ref (ac_id ?x) c s1 = Done ?me ?s2" by (simp add: v_actor_ref_def v_box_def ty(5))
  have same: "h_actors ?s2 = h_actors s" "h_systems ?s2 = h_systems s" using ty by simp_all
  have ok: "actors_ok ?s2" using assms(1) same by (simp add: actors_ok_def)
  have y: "ac_system ?x < length (h_systems s)" using actors_okD(2) [OF assms(1,2)] by (simp add: context_ok_def)
  let ?sys = "h_systems s ! ac_system ?x"
  have all: "list_all (\<lambda>d. d < length (h_actors ?s2)) (as_actors ?sys)"
    using actors_okD(1) [OF assms(1) y] same by (auto simp: registered_def list_all_iff)
  note targets = watchers_of_run [OF all, of "ac_id ?x" "as_monitors ?sys", unfolded same]
  have inboxes: "inbox ?s2 d = inbox s d" for d using same by (simp add: inbox_def)
  have "list_all (\<lambda>d. d < length (h_actors ?s2)) (watchers s c)"
    using all watchers_registered [of s c] by (auto simp: list_all_iff)
  from send_downs_run [OF ok this, of ty ?me reason] obtain s3 where s3:
    "forM (watchers s c) (send_down ty ?me reason) ?s2 = Done () s3" "actors_ok s3" "sends_only ?s2 s3"
    and mail: "\<And>d. d < length (h_actors s) \<Longrightarrow> \<exists>ps. mailbox_items (inbox s3 d) = mailbox_items (inbox s d) @ map VRecord ps \<and>
        length ps = count_list (watchers s c) d \<and>
        (\<forall>p \<in> set ps. p < length (h_records s3) \<and> h_records s3 ! p = \<lparr> rec_type = ty, rec_fields = [?me, reason] \<rparr>)"
    using assms(3) inboxes same by auto
  have run: "notify_down c reason s = Done () s3"
    using ty me targets s3(1) assms(2) y same by (simp add: notify_down_def bindM_def watchers_def Let_def)
  have "list_all (down_message s3 (ac_id ?x) c reason) (map VRecord ps)"
    if "\<forall>p \<in> set ps. p < length (h_records s3) \<and> h_records s3 ! p = \<lparr> rec_type = ty, rec_fields = [?me, reason] \<rparr>" for ps
    using that s3(3) ty(2,5) by (auto simp: list_all_iff down_message_def sends_only_def nth_append)
  then have "\<exists>ms. mailbox_items (inbox s3 d) = mailbox_items (inbox s d) @ ms \<and> length ms = count_list (watchers s c) d \<and>
      list_all (down_message s3 (ac_id ?x) c reason) ms" if "d < length (h_actors s)" for d
    using mail [OF that] by (metis length_map)
  then show ?thesis using run s3(2,3) same by (intro exI [of _ s3]) (auto simp: sends_only_def)
qed

lemma unregister_run:
  assumes "c < length (h_actors s)" "ac_system (h_actors s ! c) < length (h_systems s)"
  shows "\<exists>s' sys. unregister_actor c s = Done () s' \<and> s' = s\<lparr>h_systems := (h_systems s)[ac_system (h_actors s ! c) := sys]\<rparr> \<and>
    c \<notin> set (as_actors sys) \<and> ac_id (h_actors s ! c) \<notin> snd ` set (as_names sys) \<and>
    ac_id (h_actors s ! c) \<notin> fst ` set (as_monitors sys) \<union> snd ` set (as_monitors sys)"
  using assms by (auto simp: unregister_actor_def set_system_def bindM_def)

text \<open>C40. An actor that ends, with whatever reason: every registered watcher of it, up to 64 of them, finds one \<open><down>\<close> record with the
  reference of the actor and the reason at the end of its mailbox for every monitor it has on it, and no other mailbox changes; afterwards
  the actor is in no list of its system, nor is a name or a monitor.  The thread returns when the mailboxes have room for the messages.\<close>

theorem exit_notifies_watchers:
  assumes "actors_ok s" "c < length (h_actors s)"
    and "\<And>d. d < length (h_actors s) \<Longrightarrow> length (mailbox_items (inbox s d)) + count_list (watchers s c) d \<le> 64"
  shows "\<exists>s' sys. end_thread c reason s = Done () s' \<and> actors_ok s' \<and>
    (\<forall>d < length (h_actors s). \<exists>ms. mailbox_items (inbox s' d) = mailbox_items (inbox s d) @ ms \<and>
       length ms = count_list (watchers s c) d \<and> list_all (down_message s' (ac_id (h_actors s ! c)) c reason) ms) \<and>
    h_systems s' = (h_systems s)[ac_system (h_actors s ! c) := sys] \<and> c \<notin> set (as_actors sys) \<and>
    ac_id (h_actors s ! c) \<notin> snd ` set (as_names sys) \<and>
    ac_id (h_actors s ! c) \<notin> fst ` set (as_monitors sys) \<union> snd ` set (as_monitors sys)"
proof -
  from notify_run [OF assms(1,2), of reason] assms(3) obtain s1 where
    s1: "notify_down c reason s = Done () s1" "actors_ok s1" "h_systems s1 = h_systems s" "length (h_actors s1) = length (h_actors s)"
      "ac_id (h_actors s1 ! c) = ac_id (h_actors s ! c)" "ac_system (h_actors s1 ! c) = ac_system (h_actors s ! c)"
    and mail: "\<And>d. d < length (h_actors s) \<Longrightarrow> \<exists>ms. mailbox_items (inbox s1 d) = mailbox_items (inbox s d) @ ms \<and>
        length ms = count_list (watchers s c) d \<and> list_all (down_message s1 (ac_id (h_actors s ! c)) c reason) ms"
    using assms(2) by (auto simp: MAILBOX_CAP_def)
  have y: "ac_system (h_actors s ! c) < length (h_systems s)" using actors_okD(2) [OF assms(1,2)] by (simp add: context_ok_def)
  from unregister_run [of c s1] s1 assms(2) y obtain s2 sys where
    s2: "unregister_actor c s1 = Done () s2" "s2 = s1\<lparr>h_systems := (h_systems s)[ac_system (h_actors s ! c) := sys]\<rparr>"
    and sys: "c \<notin> set (as_actors sys)" "ac_id (h_actors s ! c) \<notin> snd ` set (as_names sys)"
      "ac_id (h_actors s ! c) \<notin> fst ` set (as_monitors sys) \<union> snd ` set (as_monitors sys)" by auto
  have "down_message s2 i c reason = down_message s1 i c reason" for i by (simp add: fun_eq_iff down_message_def s2(2))
  moreover have "inbox s2 d = inbox s1 d" for d by (simp add: inbox_def s2(2))
  moreover have "actors_ok s2" by (rule unregister_ok [OF s1(2) s2(1)])
  ultimately show ?thesis using s1(1) s2 mail sys by (intro exI [of _ s2] exI [of _ sys]) (simp add: end_thread_def bindM_def)
qed

definition watched :: vm where
  "watched = two_actors\<lparr>h_systems := (h_systems two_actors)[0 := (h_systems two_actors ! 0)\<lparr>as_monitors := [(''1'', ''2''), (''1'', ''2'')]\<rparr>]\<rparr>"

lemma two_actors_inboxes:
  "inbox two_actors 0 = mailbox_put mailbox_init (VInt 7)" "inbox two_actors (Suc 0) = mailbox_init"
  by (simp_all add: inbox_def two_actors_def new_actor_context_def g_default_system_def next_id_def INT64_MAX_def set_system_def
      mailbox_send_def mailbox_init_def set_actor_def MAILBOX_CAP_def)

lemma two_actors_ok: "actors_ok two_actors"
  by (rule steps_ok [OF two_actors_steps start_ok]) (simp add: no_actors_def)

lemma two_actors_system: "ac_system (h_actors two_actors ! d) = 0" if "d < 2"
  using actors_okD(2) [OF two_actors_ok, of d] that by (simp add: two_actors_simps context_ok_def)

lemma exit_notifies_watchers_witness:
  "\<exists>s' ms. end_thread 1 (VSym ''normal'') watched = Done () s' \<and> mailbox_items (inbox s' 0) = VInt 7 # ms \<and> length ms = 2 \<and>
     list_all (down_message s' ''2'' 1 (VSym ''normal'')) ms"
proof -
  have ok: "actors_ok watched" unfolding watched_def by (rule system_change_ok [OF two_actors_ok]) simp_all
  have same: "h_actors watched = h_actors two_actors" "inbox watched = inbox two_actors" by (simp_all add: watched_def inbox_def fun_eq_iff)
  have who: "watchers watched 1 = [0, 0]"
    by (simp add: watchers_def two_actors_system two_actors_simps watched_def map_filter_simps)
  have items: "mailbox_items (inbox watched 0) = [VInt 7]" "mailbox_items (inbox watched (Suc 0)) = []"
    using mailbox_put_correct [OF mailbox_init_ok(1), of "VInt 7"]
    by (simp_all add: same two_actors_inboxes mailbox_init_ok) (simp add: mailbox_init_def MAILBOX_CAP_def)
  have room: "length (mailbox_items (inbox watched d)) + count_list (watchers watched 1) d \<le> 64" if "d < length (h_actors watched)" for d
  proof -
    have "d = 0 \<or> d = Suc 0" using that by (auto simp: same two_actors_simps less_Suc_eq numeral_2_eq_2)
    then show ?thesis using items who by (auto simp del: length_mailbox_items)
  qed
  have c: "1 < length (h_actors watched)" by (simp add: same two_actors_simps)
  from exit_notifies_watchers [OF ok c room, of "VSym ''normal''"] obtain s' where s': "end_thread 1 (VSym ''normal'') watched = Done () s'"
    and mail: "\<forall>d < length (h_actors watched). \<exists>ms. mailbox_items (inbox s' d) = mailbox_items (inbox watched d) @ ms \<and>
       length ms = count_list (watchers watched 1) d \<and> list_all (down_message s' (ac_id (h_actors watched ! 1)) 1 (VSym ''normal'')) ms"
    by blast
  from mail [rule_format, of 0] show ?thesis using s' items who by (auto simp: same two_actors_simps)
qed

end
