(* ===== verification/Wire_Spec.thy ===== *)
theory Wire_Spec
  imports Actor_Spec Text_Read String_Spec
begin

text \<open>
  Messages between machines: which data survive the text of a message, the frames, the handshake, and a message on its way from
  \<open>send!\<close> on one node to the mailbox of an actor on another.
\<close>

subsection \<open>The text of a datum\<close>

fun list_text :: "bool \<Rightarrow> bytes list \<Rightarrow> bytes option \<Rightarrow> bytes" where
  "list_text first [] None = '')''"
| "list_text first [] (Some t) = '' . '' @ t @ '')''"
| "list_text first (w # ws) t = (if first then [] else '' '') @ w @ list_text False ws t"

fun wire_atom :: "val \<Rightarrow> bytes" where
  "wire_atom (VBool b) = (if b then ''#t'' else ''#f'')"
| "wire_atom (VInt i) = dec i"
| "wire_atom (VChar c) = wire_char c"
| "wire_atom (VSym cs) = cs"
| "wire_atom v = ''()''"

function wire_text :: "datum \<Rightarrow> bytes" where
  "wire_text (DAtom v) = wire_atom v"
| "wire_text (DText k bs) = write_string_escaped bs"
| "wire_text (DVector ds) = ''#('' @ list_text True (map wire_text ds) None"
| "wire_text (DPair x y) = ''('' @ list_text True (map wire_text (x # fst (spine y)))
     (if snd (spine y) = DAtom VNil then None else Some (wire_text (snd (spine y))))"
  by pat_completeness auto
termination
proof (relation "measure size", goal_cases)
  case (3 x y z)
  then show ?case using spine_size [of y] by (auto intro: less_trans simp: less_Suc_eq)
next
  case (4 x y)
  then show ?case using spine_size [of y] by (simp add: le_imp_less_Suc)
qed (auto simp: less_Suc_eq_le size_list_estimation')

declare wire_text.simps(4) [simp del]

text \<open>What the reader gives back: \<open>n\<close> is the number of levels of lists.\<close>

definition wire_symbol :: "arith \<Rightarrow> bytes \<Rightarrow> bool" where
  "wire_symbol A cs \<longleftrightarrow> cs \<noteq> [] \<and> list_all (\<lambda>c. \<not> token_end c) cs \<and> hd cs \<noteq> CHR 0x22 \<and> hd cs \<noteq> CHR ''#'' \<and> cs \<noteq> ''.'' \<and>
     (\<forall>rest. rest \<noteq> [] \<and> token_end (hd rest) \<longrightarrow> \<not> open_integer (cs @ rest) \<and> \<not> open_float (cs @ rest) \<and>
        snd (strtoll 10 (cs @ rest)) \<noteq> rest \<and> snd (strtod A (cs @ rest)) \<noteq> rest)"

fun wire_leaf :: "arith \<Rightarrow> datum \<Rightarrow> bool" where
  "wire_leaf A (DAtom (VBool b)) = True"
| "wire_leaf A (DAtom (VInt i)) = int64 i"
| "wire_leaf A (DAtom (VChar c)) = (0 \<le> c \<and> c \<le> INT64_MAX \<and> c \<noteq> 120)"
| "wire_leaf A (DAtom (VSym cs)) = wire_symbol A cs"
| "wire_leaf A (DText k bs) = (k = 5 \<and> take 5 bs \<noteq> ''@ref:'')"
| "wire_leaf A d = False"

definition plain_list :: "datum list \<Rightarrow> bool" where
  "plain_list ds \<longleftrightarrow> length ds \<le> 256 \<and> (length ds \<ge> 2 \<longrightarrow> hd ds \<noteq> DText 5 ''@record'')"

definition wireable_list :: "(datum \<Rightarrow> bool) \<Rightarrow> datum \<Rightarrow> bool" where
  "wireable_list ok d =
     (case d of
        DVector ds \<Rightarrow> plain_list ds \<and> list_all ok ds
      | DPair x y \<Rightarrow>
          (let ds = x # fst (spine y); t = snd (spine y) in
           length ds \<le> 256 \<and> list_all ok ds \<and> (if t = DAtom VNil then plain_list ds else ok t))
      | _ \<Rightarrow> False)"

primrec wireable :: "nat \<Rightarrow> arith \<Rightarrow> datum \<Rightarrow> bool" where
  "wireable 0 A d = wire_leaf A d"
| "wireable (Suc n) A d = (wire_leaf A d \<or> d = DAtom VNil \<or> wireable_list (wireable n A) d)"

subsection \<open>Writing\<close>

lemma separate_list_text: "separate '' '' ws @ '')'' = list_text True ws None"
proof -
  have "concat (map (\<lambda>w. '' '' @ w) ws) @ '')'' = list_text False ws None" for ws by (induction ws) simp_all
  then show ?thesis by (cases ws) (simp_all add: text_separate_Cons)
qed

lemma mapM_wire:
  assumes "list_all2 (has_datum s) vs ds" "\<And>v d. d \<in> set ds \<Longrightarrow> has_datum s v d \<Longrightarrow> f v s = Done (wire_text d) s"
  shows "mapM f vs s = Done (map wire_text ds) s"
  using assms
proof (induction rule: list_all2_induct)
  case (Cons v vs d ds)
  then have "f v s = Done (wire_text d) s" "mapM f vs s = Done (map wire_text ds) s" by auto
  then show ?case by simp
qed simp

lemma write_spine_run:
  assumes "list_all2 (has_datum s) vs ds" "\<And>v d. d \<in> set ds \<Longrightarrow> has_datum s v d \<Longrightarrow> f v s = Done (wire_text d) s"
    and "\<not> pair_val u" "u \<noteq> VNil \<Longrightarrow> f u s = Done t s" "chain (h_pairs s) v vs u" "length vs < n"
  shows "write_spine n f first v s = Done (list_text first (map wire_text ds) (if u = VNil then None else Some t)) s"
  using assms(1,2,5,6)
proof (induction arbitrary: v n first rule: list_all2_induct)
  case Nil
  then obtain k where "n = Suc k" "v = u" by (cases n) auto
  then show ?case using assms(3,4) by (cases u) auto
next
  case (Cons w vs d ds)
  then obtain k p where kp: "n = Suc k" "v = VPair p" by (cases n; cases v) auto
  with Cons.prems have p: "p < length (h_pairs s)" "fst (h_pairs s ! p) = w" "chain (h_pairs s) (snd (h_pairs s ! p)) vs u" "length vs < k"
    by auto
  have "f w s = Done (wire_text d) s" using Cons.prems(1) Cons.hyps(1) by simp
  moreover have "write_spine k f False (snd (h_pairs s ! p)) s =
      Done (list_text False (map wire_text ds) (if u = VNil then None else Some t)) s"
    by (rule Cons.IH [OF _ p(3,4)]) (use Cons.prems(1) in auto)
  ultimately show ?case using kp p by simp
qed

lemma wire_leaf_write:
  assumes "has_datum s v d" "wire_leaf A d"
  shows "write_datum (Suc n) A sys v s = Done (wire_text d) s"
proof (cases d)
  case (DAtom w)
  then have "readable_atom A' w \<or> (\<exists>cs. w = VSym cs) \<or> (\<exists>c. w = VChar c)" for A' using assms(2) by (cases w) auto
  then have "v = w" using assms(1) DAtom by (cases v; cases w) (auto simp: has_datum_iff has_datum_leaf split: if_splits)
  then show ?thesis using DAtom assms(2) by (cases w) auto
next
  case (DText k bs)
  then obtain p where "v = VStr p" using has_datum_inv(3) [of s v k bs] assms by auto
  then show ?thesis using DText assms(1) by (simp add: has_datum_str)
qed (use assms(2) in simp_all)

lemma write_datum_run:
  "has_datum s v d \<Longrightarrow> wireable m A d \<Longrightarrow> height d < n \<Longrightarrow> write_datum n A sys v s = Done (wire_text d) s"
proof (induction n arbitrary: v d m)
  case (Suc n)
  show ?case
  proof (cases "wire_leaf A d")
    case True
    then show ?thesis using wire_leaf_write Suc.prems(1) by blast
  next
    case False
    with Suc.prems(2) obtain k where k: "m = Suc k" "d = DAtom VNil \<or> wireable_list (wireable k A) d" by (cases m) auto
    show ?thesis
    proof (cases d)
      case (DAtom w)
      then have "w = VNil" using k(2) by (auto simp: wireable_list_def)
      then have "v = VNil" using Suc.prems(1) DAtom has_datum_atom [of undefined VNil s v] by simp
      then show ?thesis using DAtom \<open>w = VNil\<close> by simp
    next
      case (DText j bs)
      then show ?thesis using k(2) by (simp add: wireable_list_def)
    next
      case (DVector ds)
      then obtain p where p: "v = VVector p" using has_datum_inv(2) Suc.prems(1) by blast
      then have *: "p < length (h_vecs s)" "list_all2 (has_datum s) (h_vecs s ! p) ds"
        using DVector Suc.prems(1) by (auto simp: has_datum_vector)
      have "height d' < n" if "d' \<in> set ds" for d' using that Suc.prems(3) DVector by auto
      then have "mapM (write_datum n A sys) (h_vecs s ! p) s = Done (map wire_text ds) s"
        using DVector k(2) by (intro mapM_wire [OF *(2)] Suc.IH [of _ _ k]) (auto simp: wireable_list_def list_all_iff)
      then show ?thesis using p * DVector separate_list_text [of "map wire_text ds"] by (simp add: bindM_def)
    next
      case (DPair x y)
      then obtain p where p: "v = VPair p" using has_datum_inv(1) Suc.prems(1) by blast
      obtain vs u where c: "chain (h_pairs s) v vs u" "list_all2 (has_datum s) vs (fst (spine d))"
        "has_datum s u (snd (spine d))" "\<not> pair_val u" using spine_chain [OF Suc.prems(1)] by blast
      let ?ds = "x # fst (spine y)" and ?t = "snd (spine y)"
      have sp: "fst (spine d) = ?ds" "snd (spine d) = ?t" using DPair by (simp_all add: Let_def split: prod.splits)
      have ok: "list_all (wireable k A) ?ds" "?t \<noteq> DAtom VNil \<Longrightarrow> wireable k A ?t"
        using k(2) DPair by (auto simp: wireable_list_def Let_def)
      have h: "height e < n" if "e \<in> set ?ds" for e
        using that spine_height [of d] Suc.prems(3) sp by fastforce
      have ht: "height ?t < n" using spine_height [of y] Suc.prems(3) DPair by simp
      have nil: "u = VNil \<longleftrightarrow> ?t = DAtom VNil"
      proof
        assume "u = VNil"
        then show "?t = DAtom VNil" using c(3) sp(2) by (simp add: has_datum_leaf)
      next
        assume "?t = DAtom VNil"
        then show "u = VNil" using c(3) sp(2) has_datum_atom [of undefined VNil s u] by simp
      qed
      have "write_spine (Suc (length (h_pairs s))) (write_datum n A sys) True v s =
          Done (list_text True (map wire_text ?ds) (if u = VNil then None else Some (wire_text ?t))) s"
      proof (rule write_spine_run [OF c(2) [unfolded sp] _ c(4)])
        show "write_datum n A sys w s = Done (wire_text e) s" if "e \<in> set ?ds" "has_datum s w e" for w e
          using Suc.IH [OF that(2) _ h [OF that(1)], of k] ok(1) that(1) by (auto simp: list_all_iff)
        show "u \<noteq> VNil \<Longrightarrow> write_datum n A sys u s = Done (wire_text ?t) s"
          using Suc.IH [OF c(3) [unfolded sp] _ ht, of k] ok(2) nil by blast
        show "chain (h_pairs s) v vs u" by (rule c(1))
        show "length vs < Suc (length (h_pairs s))" using chain_length [OF c(1,4)] by simp
      qed
      then show ?thesis using p DPair nil by (simp add: wire_text.simps(4) comp_def del: write_spine.simps list_text.simps)
    qed
  qed
qed simp

lemma encode_message_run:
  assumes "has_datum s v d" "wireable m A d"
  shows "encode_message A sys v s = Done (wire_text d) s"
  unfolding encode_message_def
  by (rule write_datum_run [OF assms]) (use height_bound [OF assms(1)] in simp)

subsection \<open>Reading\<close>

text \<open>The reader only adds data to the heap.\<close>

definition data_added :: "vm \<Rightarrow> vm \<Rightarrow> bool" where
  "data_added s s' \<longleftrightarrow> (\<exists>ps vs ss. s' = s\<lparr>h_pairs := h_pairs s @ ps, h_vecs := h_vecs s @ vs, h_strs := h_strs s @ ss\<rparr>)"

lemma data_added_refl [simp]: "data_added s s"
  unfolding data_added_def by (intro exI [of _ "[]"]) simp

lemma data_added_trans: "data_added s s' \<Longrightarrow> data_added s' s'' \<Longrightarrow> data_added s s''"
  unfolding data_added_def by fastforce

lemma data_added_more: "data_added s s' \<Longrightarrow> more_heap s s'"
  by (auto simp: data_added_def more_heap_def)

lemma data_added_new:
  "data_added s (s\<lparr>h_strs := h_strs s @ ss\<rparr>)" "data_added s (s\<lparr>h_vecs := h_vecs s @ vs\<rparr>)" "data_added s (with_pairs s ps)"
  unfolding data_added_def with_pairs_def
  by (intro exI [of _ "[]"] exI [of _ ss], simp) (intro exI [of _ "[]"] exI [of _ vs], simp, intro exI [of _ ps] exI [of _ "[]"], simp)

lemma data_kept: "has_datum s v d \<Longrightarrow> data_added s s' \<Longrightarrow> has_datum s' v d"
  using data_added_more has_datum_more by blast

definition is_token :: "datum \<Rightarrow> bool" where
  "is_token d \<longleftrightarrow> (\<exists>i. d = DAtom (VInt i)) \<or> (\<exists>cs. d = DAtom (VSym cs))"

definition delimited :: "datum \<Rightarrow> bytes \<Rightarrow> bool" where
  "delimited d rest \<longleftrightarrow> (is_token d \<longrightarrow> rest \<noteq> [] \<and> token_end (hd rest))"

definition wire_reads :: "arith \<Rightarrow> val wire \<Rightarrow> datum \<Rightarrow> bool" where
  "wire_reads A reader d \<longleftrightarrow> (\<forall>rest s. delimited d rest \<longrightarrow>
     (\<exists>v s'. reader (wire_text d @ rest) s = Done (Some (v, rest)) s' \<and> data_added s s' \<and> has_datum s' v d))"

lemma wire_readsD:
  assumes "wire_reads A reader d" "delimited d rest"
  obtains v s' where "reader (wire_text d @ rest) s = Done (Some (v, rest)) s'" "data_added s s'" "has_datum s' v d"
  using assms unfolding wire_reads_def by blast

text \<open>How the text of a datum starts, so that no list takes its first character for an end or a dot.\<close>

definition element_text :: "bytes \<Rightarrow> bool" where
  "element_text w \<longleftrightarrow> w \<noteq> [] \<and> \<not> wire_blank (hd w) \<and> hd w \<noteq> CHR '')'' \<and>
     (hd w = CHR ''.'' \<longrightarrow> tl w \<noteq> [] \<and> hd (tl w) \<notin> {CHR '' '', CHR ''(''})"

lemma element_skip: "element_text w \<Longrightarrow> preader_skip_ws (w @ rest) = w @ rest"
  by (cases w) (auto simp: element_text_def preader_skip_ws_def)

lemma digit_token: "is_digit c \<or> c = CHR ''-'' \<Longrightarrow> \<not> token_end c \<and> c \<noteq> CHR ''.'' \<and> c \<noteq> CHR 0x22 \<and> c \<noteq> CHR ''#''"
  by (auto simp: token_end_def wire_blank_def is_digit_def)

lemma dec_token: "list_all (\<lambda>c. is_digit c \<or> c = CHR ''-'') (dec i)"
  using dec_nat_digits [of "nat \<bar>i\<bar>"] by (auto simp: dec_def list_all_iff)

lemma leaf_element:
  assumes "wire_leaf A d"
  shows "element_text (wire_text d)"
proof (cases d)
  case (DAtom v)
  show ?thesis
  proof (cases v)
    case (VInt i)
    obtain c cs where c: "dec i = c # cs" using dec_nonempty [of i] by (cases "dec i") auto
    then have "is_digit c \<or> c = CHR ''-''" using dec_token [of i] by simp
    then show ?thesis using DAtom VInt c digit_token [of c] by (auto simp: element_text_def token_end_def)
  next
    case (VSym cs)
    then have sym: "wire_symbol A cs" using DAtom assms by simp
    then obtain c cs' where c: "cs = c # cs'" "\<not> token_end c" "list_all (\<lambda>c. \<not> token_end c) cs'" "c = CHR ''.'' \<Longrightarrow> cs' \<noteq> []"
      by (cases cs) (auto simp: wire_symbol_def)
    then show ?thesis using DAtom VSym by (cases cs') (auto simp: element_text_def token_end_def wire_blank_def)
  qed (use DAtom assms in \<open>auto simp: element_text_def wire_char_def wire_blank_def\<close>)
qed (use assms in \<open>auto simp: element_text_def write_string_escaped_def wire_blank_def\<close>)

lemma wireable_element: "wireable n A d \<Longrightarrow> element_text (wire_text d)"
proof (cases "wire_leaf A d")
  case False
  moreover assume "wireable n A d"
  ultimately have "d = DAtom VNil \<or> (\<exists>ok. wireable_list ok d)" by (cases n) auto
  then show ?thesis by (cases d) (auto simp: wireable_list_def element_text_def wire_text.simps(4) wire_blank_def)
qed (rule leaf_element)

subsubsection \<open>Leaves\<close>

lemma string_loop_escaped: "string_loop (escaped bs @ CHR 0x22 # rest) = Some (bs, rest)"
  by (induction bs) auto

lemma take_token:
  "list_all (\<lambda>c. \<not> token_end c) w \<Longrightarrow> rest \<noteq> [] \<Longrightarrow> token_end (hd rest) \<Longrightarrow>
     takeWhile (\<lambda>c. \<not> token_end c) (w @ rest) = w \<and> dropWhile (\<lambda>c. \<not> token_end c) (w @ rest) = rest"
  by (cases rest) (auto simp: list_all_iff)

lemma scan_hex:
  assumes "ds \<noteq> []" "list_all (is_digit_in 16) ds"
  shows "scan_integer 16 (ds @ CHR '';'' # rest) = Some (int (radix_val 16 0 ds), CHR '';'' # rest)"
proof -
  let ?s = "ds @ CHR '';'' # rest"
  obtain c cs where ds: "ds = c # cs" using assms by (cases ds) auto
  have c: "\<not> c_isspace c" "c \<noteq> CHR ''+''" "c \<noteq> CHR ''-''" using assms ds is_digit_inD [of 16 c] by auto
  have semi: "\<not> is_digit_in 16 (CHR '';'')" by (simp add: is_digit_in_def digit_value_def)
  have "?s ! 1 \<noteq> CHR ''x'' \<and> ?s ! 1 \<noteq> CHR ''X''"
  proof (cases cs)
    case Nil
    then show ?thesis using ds by simp
  next
    case (Cons d ds')
    then show ?thesis using assms(2) ds digit_not_x [of 16 d] by simp
  qed
  then have hex: "\<not> (16 = (16::nat) \<and> 3 \<le> length ?s \<and> ?s ! 0 = CHR ''0'' \<and> ?s ! 1 \<in> {CHR ''x'', CHR ''X''} \<and> is_digit_in 16 (?s ! 2))"
    by blast
  have "dropWhile c_isspace ?s = ?s" "\<not> (?s \<noteq> [] \<and> hd ?s \<in> {CHR ''+'', CHR ''-''})" using c ds by simp_all
  moreover have "takeWhile (is_digit_in 16) ?s = ds" using assms(2) semi by (simp add: list_all_iff takeWhile_append2)
  ultimately show ?thesis using hex assms(1) unfolding scan_integer_def Let_def by (simp only: if_False) simp
qed

lemma hex_text:
  assumes "0 \<le> c" "c \<le> INT64_MAX"
  shows "strtoll 16 (base_digits 16 (nat (c mod 2 ^ 64)) @ CHR '';'' # rest) = (c, CHR '';'' # rest)"
    and "CHR '';'' \<notin> set (base_digits 16 (nat (c mod 2 ^ 64)))"
proof -
  let ?ds = "base_digits 16 (nat (c mod 2 ^ 64))"
  have ds: "?ds \<noteq> []" "list_all (is_digit_in 16) ?ds" "radix_val 16 0 ?ds = nat (c mod 2 ^ 64)"
    using base_digits_value [of 16 "nat (c mod 2 ^ 64)"] by auto
  have "c mod 2 ^ 64 = c" using assms by (simp add: INT64_MAX_def)
  then show "strtoll 16 (?ds @ CHR '';'' # rest) = (c, CHR '';'' # rest)"
    using scan_hex [OF ds(1,2), of rest] ds(3) assms by (simp add: strtoll_def clamp64_def INT64_MAX_def)
  show "CHR '';'' \<notin> set ?ds" using ds(2) by (auto simp: list_all_iff is_digit_in_def digit_value_def)
qed

lemma wire_char_read:
  assumes "0 \<le> c" "c \<le> INT64_MAX" "c \<noteq> 120"
  shows "wire_read_char (drop 2 (wire_char c) @ rest) s = Done (Some (VChar c, rest)) s"
proof (cases "32 \<le> c \<and> c < 127")
  case True
  then have "nat c < 256" by linarith
  then have same: "(of_char (char_of (nat c) :: char) :: nat) = nat c" by (simp add: of_char_of)
  then have "(of_char (char_of (nat c) :: char) :: int) = c" using True by (metis of_nat_of_char nat_0_le order_trans zero_le_numeral)
  moreover have "char_of (nat c) \<noteq> CHR ''x''"
  proof
    assume "char_of (nat c) = CHR ''x''"
    then have "nat c = 120" using same by simp
    then show False using True assms(3) by linarith
  qed
  ultimately show ?thesis using True by (simp add: wire_char_def wire_read_char_def)
next
  case False
  let ?h = "base_digits 16 (nat (c mod 2 ^ 64))"
  have no: "d \<noteq> CHR '';''" if "d \<in> set ?h" for d using hex_text(2) [OF assms(1,2)] that by blast
  have "takeWhile (\<lambda>d. d \<noteq> CHR '';'') (?h @ CHR '';'' # rest) = ?h"
    "dropWhile (\<lambda>d. d \<noteq> CHR '';'') (?h @ CHR '';'' # rest) = CHR '';'' # rest"
    using no by (subst takeWhile_append2 dropWhile_append2; simp)+
  note halves = this
  have F: "(32 \<le> c \<and> c < 127) = False" using False by blast
  have "drop 2 (wire_char c) @ rest = CHR ''x'' # (?h @ CHR '';'' # rest)"
    unfolding wire_char_def by (simp only: F if_False) simp
  then show ?thesis using halves hex_text(1) [OF assms(1,2), of rest] by (simp add: wire_read_char_def Let_def)
qed

lemma wire_int_read:
  assumes "int64 i" "rest \<noteq> []" "token_end (hd rest)"
  shows "wire_read_token A (dec i @ rest) s = Done (Some (VInt i, rest)) s"
proof -
  have tok: "list_all (\<lambda>c. \<not> token_end c) (dec i)" using dec_token [of i] digit_token by (auto simp: list_all_iff)
  have hd: "\<not> is_digit (hd rest)" using assms(3) digit_token by blast
  then have "scan_integer 10 (dec i @ rest) = Some (i, rest)" using scan_dec by simp
  then have "strtoll 10 (dec i @ rest) = (i, rest)"
    using assms(1) by (simp add: strtoll_def clamp64_def int64_def INT64_MIN_def INT64_MAX_def)
  moreover have "\<not> open_integer (dec i @ rest)"
  proof -
    obtain ds where ds: "list_all is_digit ds" "ds \<noteq> []" "after_sign (dec i @ rest) = ds @ rest"
    proof (cases "i < 0")
      case True
      then show thesis using dec_nat_digits [of "nat (- i)"] that [of "dec_nat (nat (- i))"]
        by (simp add: after_sign_def dec_def c_isspace_def)
    next
      case False
      obtain c cs where c: "dec_nat (nat i) = c # cs" "is_digit c" using dec_nat_digits [of "nat i"] by (cases "dec_nat (nat i)") auto
      then have "after_sign (dec i @ rest) = dec_nat (nat i) @ rest"
        using False digit_not_sign [of c] by (simp add: after_sign_def dec_def)
      then show thesis using that dec_nat_digits [of "nat i"] by blast
    qed
    have "dropWhile is_digit (ds @ rest) = rest" using ds(1) hd assms(2) by (cases rest) (auto simp: list_all_iff dropWhile_append2)
    then show ?thesis using ds(3) assms(2) by (simp add: open_integer_def)
  qed
  ultimately show ?thesis using take_token [OF tok assms(2,3)] by (simp add: wire_read_token_def Let_def)
qed

lemma leaf_reads:
  assumes "wire_leaf A d"
  shows "wire_reads A (read_datum_with A rdl) d"
  unfolding wire_reads_def
proof (intro allI impI)
  fix rest s
  assume del: "delimited d rest"
  have skip: "preader_skip_ws (wire_text d @ rest) = wire_text d @ rest" by (rule element_skip [OF leaf_element [OF assms]])
  show "\<exists>v s'. read_datum_with A rdl (wire_text d @ rest) s = Done (Some (v, rest)) s' \<and> data_added s s' \<and> has_datum s' v d"
  proof (cases d)
    case (DText k bs)
    then show ?thesis using assms skip string_loop_escaped [of bs rest] data_added_new(1) [of s "[bs]"]
      by (auto simp: read_datum_with_def write_string_escaped_def wire_read_string_def has_datum_str Let_def)
  next
    case (DAtom v)
    show ?thesis
    proof (cases v)
      case (VInt i)
      then have r: "rest \<noteq> []" "token_end (hd rest)" using DAtom del by (auto simp: delimited_def is_token_def)
      obtain c cs where c: "dec i = c # cs" using dec_nonempty [of i] by (cases "dec i") auto
      then have "is_digit c \<or> c = CHR ''-''" using dec_token [of i] by simp
      then have first: "c \<noteq> CHR ''(''" "c \<noteq> CHR 0x22" "c \<noteq> CHR ''#''" using digit_token [of c] by (auto simp: token_end_def)
      have "wire_read_token A (dec i @ rest) s = Done (Some (VInt i, rest)) s"
        using wire_int_read [OF _ r] assms DAtom VInt by simp
      then show ?thesis using skip DAtom VInt c first by (simp add: read_datum_with_def Let_def has_datum_leaf)
    next
      case (VSym cs)
      then have r: "rest \<noteq> []" "token_end (hd rest)" using DAtom del by (auto simp: delimited_def is_token_def)
      from VSym have sym: "wire_symbol A cs" using DAtom assms by simp
      then have all: "list_all (\<lambda>c. \<not> token_end c) cs" by (simp add: wire_symbol_def)
      obtain c cs' where c: "cs = c # cs'" "c \<noteq> CHR ''(''" "c \<noteq> CHR 0x22" "c \<noteq> CHR ''#''"
        using sym by (cases cs) (auto simp: wire_symbol_def token_end_def)
      have "wire_read_token A (cs @ rest) s = Done (Some (VSym cs, rest)) s"
        using take_token [OF all r] sym r by (auto simp: wire_read_token_def wire_symbol_def Let_def)
      then show ?thesis using skip DAtom VSym c by (simp add: read_datum_with_def Let_def has_datum_leaf)
    next
      case (VChar cp)
      have "wire_char cp = CHR ''#'' # CHR 0x5C # drop 2 (wire_char cp)" by (simp add: wire_char_def)
      then obtain w where w: "wire_char cp = CHR ''#'' # CHR 0x5C # w" by blast
      then have "read_datum_with A rdl (wire_char cp @ rest) s = wire_read_char (drop 2 (wire_char cp) @ rest) s"
        using skip DAtom VChar by (simp add: read_datum_with_def Let_def)
      then show ?thesis using wire_char_read [of cp rest s] assms DAtom VChar by (simp add: has_datum_leaf)
    qed (use DAtom assms skip in \<open>auto simp: read_datum_with_def Let_def has_datum_leaf\<close>)
  qed (use assms in simp_all)
qed

subsubsection \<open>Lists\<close>

lemma list_loop_turn: "\<exists>e. list_loop k reader = list_turn reader e"
  by (cases k) auto

lemma wire_skip_simps [simp]:
  "preader_skip_ws (CHR '')'' # bs) = CHR '')'' # bs" "preader_skip_ws (CHR ''.'' # bs) = CHR ''.'' # bs"
  "preader_skip_ws (CHR '' '' # bs) = preader_skip_ws bs"
  by (simp_all add: preader_skip_ws_def wire_blank_def)

lemma turn_end: "list_turn reader e (CHR '')'' # rest) s = Done (Some (([], None), rest)) s"
  by (simp add: list_turn_def)

lemma turn_tail:
  assumes "wire_reads A reader t" "element_text (wire_text t)"
  shows "\<exists>v s'. list_turn reader e ('' . '' @ wire_text t @ '')'' @ rest) s = Done (Some (([], Some v), rest)) s' \<and> data_added s s' \<and>
    has_datum s' v t"
proof -
  have "delimited t (CHR '')'' # rest)" by (simp add: delimited_def token_end_def)
  from wire_readsD [OF assms(1) this] obtain v s' where
    v: "reader (wire_text t @ CHR '')'' # rest) s = Done (Some (v, CHR '')'' # rest)) s'" "data_added s s'" "has_datum s' v t" .
  have "preader_skip_ws (wire_text t @ CHR '')'' # rest) = wire_text t @ CHR '')'' # rest" by (rule element_skip [OF assms(2)])
  then show ?thesis using v by (simp add: list_turn_def bindW_def Let_def)
qed

lemma turn_element:
  assumes "element_text w"
  shows "list_turn reader e ((if first then [] else '' '') @ w @ rest) = e (w @ rest)"
  using assms element_skip [OF assms, of rest] by (cases w; cases "tl w") (auto simp: list_turn_def element_text_def Let_def)

lemma list_loop_reads:
  assumes "list_all (\<lambda>d. wire_reads A reader d \<and> element_text (wire_text d)) ds" "length ds \<le> k"
    and "\<And>t. tail = Some t \<Longrightarrow> wire_reads A reader t \<and> element_text (wire_text t)"
  shows "\<exists>vs tv s'. list_loop k reader (list_text first (map wire_text ds) (map_option wire_text tail) @ rest) s =
      Done (Some ((vs, tv), rest)) s' \<and> data_added s s' \<and> list_all2 (has_datum s') vs ds \<and> rel_option (has_datum s') tv tail"
  using assms(1,2)
proof (induction ds arbitrary: k first s)
  case Nil
  obtain e where e: "list_loop k reader = list_turn reader e" using list_loop_turn by blast
  show ?case
  proof (cases tail)
    case None
    then show ?thesis using e turn_end by simp
  next
    case (Some t)
    then show ?thesis using e turn_tail [of A reader t e rest s] assms(3) by auto
  qed
next
  case (Cons d ds)
  obtain j where k: "k = Suc j" "length ds \<le> j" using Cons.prems(2) by (cases k) auto
  let ?more = "list_text False (map wire_text ds) (map_option wire_text tail) @ rest"
  have del: "delimited d ?more" by (cases ds; cases tail) (auto simp: delimited_def token_end_def wire_blank_def)
  have reader: "wire_reads A reader d" using Cons.prems(1) by simp
  obtain v s1 where
    v: "reader (wire_text d @ ?more) s = Done (Some (v, ?more)) s1" "data_added s s1" "has_datum s1 v d" by (rule wire_readsD [OF reader del])
  from Cons.IH [of j False s1] Cons.prems(1) k(2) obtain vs tv s2 where
    vs: "list_loop j reader ?more s1 = Done (Some ((vs, tv), rest)) s2" "data_added s1 s2" "list_all2 (has_datum s2) vs ds"
      "rel_option (has_datum s2) tv tail" by auto
  have "list_loop k reader (list_text first (map wire_text (d # ds)) (map_option wire_text tail) @ rest) s =
      Done (Some ((v # vs, tv), rest)) s2"
    using turn_element [of "wire_text d" reader _ first ?more] Cons.prems(1) k(1) v(1) vs(1) by (simp add: bindW_def)
  then show ?case using vs data_added_trans [OF v(2) vs(2)] data_kept [OF v(3) vs(2)]
    by (intro exI [of _ "v # vs"] exI [of _ tv] exI [of _ s2]) simp
qed

text \<open>The value of the list.\<close>

lemma chain_datum_tail:
  "chain (h_pairs s) v vs u \<Longrightarrow> list_all2 (has_datum s) vs ds \<Longrightarrow> has_datum s u t \<Longrightarrow> has_datum s v (list_datum ds t)"
proof (induction vs arbitrary: v ds)
  case Nil
  then show ?case by (simp add: list_datum_def)
next
  case (Cons x vs)
  then obtain d ds' where ds: "ds = d # ds'" "has_datum s x d" "list_all2 (has_datum s) vs ds'" by (auto simp: list_all2_Cons1)
  then show ?case using Cons.IH [of _ ds'] Cons.prems(1,3) by (cases v) (auto simp: list_datum_def has_datum_pair)
qed

lemma not_record:
  assumes "has_datum s v d" "d \<noteq> DText 5 ''@record''"
  shows "is_string v ''@record'' s = Done False s"
  using assms by (cases v) (auto simp: is_string_def has_datum_str derefM_def bindM_def)

lemma list_value:
  assumes "list_all2 (has_datum s) vs ds" "rel_option (has_datum s) tv tail" "tail = None \<Longrightarrow> plain_list ds"
  shows "\<exists>v new. read_list_value vs tv s = Done (Some v) (with_pairs s new) \<and>
    chain (h_pairs s @ new) v vs (case tv of None \<Rightarrow> VNil | Some t \<Rightarrow> t) \<and>
    has_datum (with_pairs s new) v (list_datum ds (case tail of None \<Rightarrow> DAtom VNil | Some t \<Rightarrow> t))"
proof -
  let ?u = "case tv of None \<Rightarrow> VNil | Some t \<Rightarrow> t" and ?t = "case tail of None \<Rightarrow> DAtom VNil | Some t \<Rightarrow> t"
  obtain v new where v: "cons_list vs ?u s = Done v (with_pairs s new)" "chain (h_pairs s @ new) v vs ?u"
    using cons_list_run by blast
  have "has_datum s ?u ?t" using assms(2) by (cases tv; cases tail) (auto simp: has_datum_leaf)
  then have u: "has_datum (with_pairs s new) ?u ?t" using data_kept data_added_new(3) by blast
  have "list_all2 (has_datum (with_pairs s new)) vs ds"
    using assms(1) by (rule list.rel_mono_strong) (blast intro: data_kept data_added_new(3))
  with v(2) u have d: "has_datum (with_pairs s new) v (list_datum ds ?t)" using chain_datum_tail [of "with_pairs s new" v vs ?u ds ?t] by simp
  have "(if tv = None \<and> length vs \<ge> 2 then is_string (vs ! 0) ''@record'' else retM False) s = Done False s"
  proof (cases "tv = None \<and> length vs \<ge> 2")
    case True
    then have "tail = None" "length ds \<ge> 2" using assms(2) list_all2_lengthD [OF assms(1)] by auto
    then have "hd ds \<noteq> DText 5 ''@record''" "ds \<noteq> []" "vs \<noteq> []" using assms(3) True by (auto simp: plain_list_def)
    moreover from this have "has_datum s (vs ! 0) (hd ds)" using assms(1) by (cases vs; cases ds) auto
    ultimately show ?thesis using True not_record by simp
  next
    case False
    then show ?thesis by (simp only: if_False retM_def)
  qed
  then show ?thesis using v d by (auto simp: read_list_value_def bindM_def split: if_splits)
qed

lemma list_reads:
  assumes "list_all (\<lambda>d. wire_reads A reader d \<and> element_text (wire_text d)) ds" "length ds \<le> 256"
    and "\<And>t. tail = Some t \<Longrightarrow> wire_reads A reader t \<and> element_text (wire_text t)" "tail = None \<Longrightarrow> plain_list ds"
  shows "\<exists>v vs u s'. wire_read_list reader (list_text True (map wire_text ds) (map_option wire_text tail) @ rest) s = Done (Some (v, rest)) s' \<and>
    data_added s s' \<and> has_datum s' v (list_datum ds (case tail of None \<Rightarrow> DAtom VNil | Some t \<Rightarrow> t)) \<and>
    chain (h_pairs s') v vs u \<and> list_all2 (has_datum s') vs ds \<and> (tail = None \<longrightarrow> u = VNil)"
proof -
  from list_loop_reads [where first = True, OF assms(1-3)] obtain vs tv s1 where
    vs: "list_loop 256 reader (list_text True (map wire_text ds) (map_option wire_text tail) @ rest) s = Done (Some ((vs, tv), rest)) s1"
      "data_added s s1" "list_all2 (has_datum s1) vs ds" "rel_option (has_datum s1) tv tail" by blast
  from list_value [OF vs(3,4) assms(4)] obtain v new where
    v: "read_list_value vs tv s1 = Done (Some v) (with_pairs s1 new)" "chain (h_pairs s1 @ new) v vs (case tv of None \<Rightarrow> VNil | Some t \<Rightarrow> t)"
      "has_datum (with_pairs s1 new) v (list_datum ds (case tail of None \<Rightarrow> DAtom VNil | Some t \<Rightarrow> t))" by blast
  have "list_all2 (has_datum (with_pairs s1 new)) vs ds"
    using vs(3) by (rule list.rel_mono_strong) (blast intro: data_kept data_added_new(3))
  moreover have "data_added s (with_pairs s1 new)" using data_added_trans [OF vs(2) data_added_new(3)] .
  moreover have "tail = None \<Longrightarrow> tv = None" using vs(4) by simp
  ultimately show ?thesis using vs(1) v
    by (intro exI [of _ v] exI [of _ vs] exI [of _ "case tv of None \<Rightarrow> VNil | Some t \<Rightarrow> t"] exI [of _ "with_pairs s1 new"])
       (simp add: wire_read_list_def bindW_def del: list_loop.simps)
qed

lemma wireable_reads: "wireable n A d \<Longrightarrow> wire_reads A (wire_read A n) d"
proof (induction n arbitrary: d)
  case 0
  then show ?case using leaf_reads by simp
next
  case (Suc n)
  show ?case
  proof (cases "wire_leaf A d")
    case True
    then show ?thesis using leaf_reads by simp
  next
    case False
    have elem: "list_all (\<lambda>d. wire_reads A (wire_read A n) d \<and> element_text (wire_text d)) ds" if "list_all (wireable n A) ds" for ds
      using that Suc.IH wireable_element by (auto simp: list_all_iff)
    let ?rdl = "wire_read_list (wire_read A n)"
    from False Suc.prems have "d = DAtom VNil \<or> wireable_list (wireable n A) d" by simp
    then consider "d = DAtom VNil" | ds where "d = DVector ds" "plain_list ds" "list_all (wireable n A) ds" |
      x y where "d = DPair x y" "wireable_list (wireable n A) d"
      by (cases d) (auto simp: wireable_list_def)
    then show ?thesis
    proof cases
      case 1
      have "?rdl (CHR '')'' # rest) s = Done (Some (VNil, rest)) s" for rest s
        using list_reads [of A "wire_read A n" "[]" None rest s] list_loop_turn [of 256 "wire_read A n"] turn_end
        by (auto simp: wire_read_list_def bindW_def read_list_value_def)
      then show ?thesis using 1 by (auto simp: wire_reads_def read_datum_with_def preader_skip_ws_def wire_blank_def has_datum_leaf Let_def)
    next
      case (2 ds)
      show ?thesis unfolding wire_reads_def
      proof (intro allI impI)
        fix rest s
        from list_reads [where tail = None, OF elem [OF 2(3)], of rest s] 2(2) obtain v vs s1 where
          v: "?rdl (list_text True (map wire_text ds) None @ rest) s = Done (Some (v, rest)) s1" "data_added s s1"
            "chain (h_pairs s1) v vs VNil" "list_all2 (has_datum s1) vs ds" by (auto simp: plain_list_def)
        have items: "list_items v s1 = Done (vs, VNil) s1" using list_items_chain [OF v(3)] by simp
        let ?s = "s1\<lparr>h_vecs := h_vecs s1 @ [vs]\<rparr>"
        have "list_all2 (has_datum ?s) vs ds"
          using v(4) by (rule list.rel_mono_strong) (blast intro: data_kept data_added_new(2))
        then have "has_datum ?s (VVector (length (h_vecs s1))) d" using 2(1) by (simp add: has_datum_vector)
        moreover have "wire_read A (Suc n) (wire_text d @ rest) s = Done (Some (VVector (length (h_vecs s1)), rest)) ?s"
          using v(1) items 2(1) by (simp add: read_datum_with_def preader_skip_ws_def wire_blank_def wire_read_vector_def bindW_def Let_def
            del: list_text.simps)
        moreover have "data_added s ?s" using data_added_trans [OF v(2) data_added_new(2)] .
        ultimately show "\<exists>v s'. wire_read A (Suc n) (wire_text d @ rest) s = Done (Some (v, rest)) s' \<and> data_added s s' \<and> has_datum s' v d"
          by blast
      qed
    next
      case (3 x y)
      let ?ds = "x # fst (spine y)" and ?t = "snd (spine y)"
      define tail where "tail = (if ?t = DAtom VNil then None else Some ?t)"
      have ok: "length ?ds \<le> 256" "list_all (wireable n A) ?ds" "tail = None \<Longrightarrow> plain_list ?ds" "tail = Some t \<Longrightarrow> wireable n A t" for t
        using 3 by (auto simp: wireable_list_def Let_def tail_def split: if_splits)
      have "(case tail of None \<Rightarrow> DAtom VNil | Some t \<Rightarrow> t) = ?t" by (simp add: tail_def)
      moreover have "list_datum ?ds ?t = d" using spine_list [of y "fst (spine y)" ?t] 3(1) by (simp add: list_datum_def)
      moreover have "wire_text d = CHR ''('' # list_text True (map wire_text ?ds) (map_option wire_text tail)"
        using 3(1) by (simp add: wire_text.simps(4) tail_def del: list_text.simps)
      moreover have "tail = Some t \<Longrightarrow> wire_reads A (wire_read A n) t \<and> element_text (wire_text t)" for t
        using ok(4) Suc.IH wireable_element by blast
      note list_reads [OF elem [OF ok(2)] ok(1) this ok(3)]
      ultimately show ?thesis unfolding wire_reads_def
        by (simp add: read_datum_with_def preader_skip_ws_def wire_blank_def Let_def del: list_text.simps list.map) metis
    qed
  qed
qed

subsection \<open>Frames\<close>

lemma byte_at_value: "(of_char (byte_at k n) :: nat) = n div 256 ^ k mod 256"
  by (simp add: byte_at_def)

lemma next_byte: "n div (k * 256) * 256 + n div k mod 256 = n div (k::nat)"
  by (simp only: div_mult2_eq div_mult_mod_eq)

lemma first_byte: "n < k * 256 \<Longrightarrow> n div k mod 256 = n div (k::nat)"
  by (simp add: less_mult_imp_div_less mult.commute)

lemma two_bytes: "n < 65536 \<Longrightarrow> n div 256 mod 256 * 256 + n mod 256 = (n::nat)"
  using next_byte [of n 1] first_byte [of n 256] by simp

lemma four_bytes:
  assumes "n < 4294967296"
  shows "((n div 16777216 mod 256 * 256 + n div 65536 mod 256) * 256 + n div 256 mod 256) * 256 + n mod 256 = (n::nat)"
  using next_byte [of n 1] next_byte [of n 256] next_byte [of n 65536] first_byte [of n 16777216] assms by simp

lemma read_written_frame:
  assumes "ty < 256" "length body \<le> max_len" "max_len < 2 ^ 32"
  shows "read_frame_fd max_len (write_frame_fd ty body @ later) = Some (ty, body, later)"
proof -
  have "length body < 4294967296" using assms(2,3) by simp
  note four_bytes [OF this]
  then show ?thesis using assms by (simp add: read_frame_fd_def write_frame_fd_def byte_at_value Let_def)
qed

lemma parse_built_body:
  assumes "length to < 2 ^ 16"
  shows "parse_deliver_body (build_deliver_body to payload) = Some (to, payload)"
proof -
  have "length to < 65536" using assms by simp
  note two_bytes [OF this]
  then show ?thesis by (simp add: parse_deliver_body_def build_deliver_body_def byte_at_value Let_def)
qed

subsection \<open>A message on its way\<close>

lemma decode_message_run:
  assumes "wireable CREME_ACTOR_MAX_WIRE_DEPTH A d" "\<not> is_token d"
  shows "\<exists>v s'. decode_message A (wire_text d) s = Done (Some v) s' \<and> data_added s s' \<and> has_datum s' v d"
proof -
  have "delimited d []" using assms(2) by (simp add: delimited_def)
  from wire_readsD [OF wireable_reads [OF assms(1)] this, of s] obtain v s' where
    "wire_read A CREME_ACTOR_MAX_WIRE_DEPTH (wire_text d) s = Done (Some (v, [])) s'" "data_added s s'" "has_datum s' v d" by auto
  then show ?thesis by (simp add: decode_message_def bindW_def)
qed

text \<open>An actor is found by its id, which no other actor of the system has.\<close>

lemma find_context_run:
  "list_all (\<lambda>d. d < length (h_actors s)) cs \<Longrightarrow> inj_on (\<lambda>d. ac_id (h_actors s ! d)) (set cs) \<Longrightarrow> c \<in> set cs \<Longrightarrow>
     find_context cs (ac_id (h_actors s ! c)) s = Done (Some c) s"
proof (induction cs)
  case (Cons d cs)
  show ?case
  proof (cases "d = c")
    case False
    then have "c \<in> set cs" using Cons.prems(3) by simp
    moreover from this have "ac_id (h_actors s ! d) \<noteq> ac_id (h_actors s ! c)"
      using False inj_onD [OF Cons.prems(2), of d c] by auto
    ultimately show ?thesis using Cons by (simp add: inj_on_insert)
  qed (use Cons.prems in simp)
qed simp

lemma dec_short: "1 \<le> k \<Longrightarrow> k < INT64_MAX \<Longrightarrow> length (dec k) < 2 ^ 16"
  using length_dec [of k] by (simp add: int64_def INT64_MIN_def INT64_MAX_def)

lemma dec_no_nul: "c_str (dec k) = dec k"
  unfolding c_str_def by (rule no_nul) (use dec_token [of k] in \<open>auto simp: list_all_iff is_digit_def\<close>)

lemma find_receiver_run:
  assumes "actors_ok s" "y < length (h_systems s)" "c \<in> set (as_actors (h_systems s ! y))"
  shows "find_receiver (h_systems s ! y) (ac_id (h_actors s ! c)) s = Done (Some c) s"
    and "c < length (h_actors s)" and "mailbox_ok (inbox s c)" and "length (ac_id (h_actors s ! c)) < 2 ^ 16"
proof -
  note reg = actors_okD(1) [OF assms(1,2)]
  then show c: "c < length (h_actors s)" using assms(3) by (auto simp: registered_def)
  have ok: "context_ok (length (h_systems s)) (h_actors s ! c)" by (rule actors_okD(2) [OF assms(1) c])
  then show "mailbox_ok (inbox s c)" by (simp add: context_ok_def inbox_def)
  obtain k where k: "1 \<le> k" "k < INT64_MAX" "ac_id (h_actors s ! c) = dec k" using ok by (auto simp: context_ok_def)
  then show "length (ac_id (h_actors s ! c)) < 2 ^ 16" using dec_short by simp
  have "find_context (as_actors (h_systems s ! y)) (ac_id (h_actors s ! c)) s = Done (Some c) s"
    using reg assms(3) by (intro find_context_run) (auto simp: registered_def list_all_iff)
  then show "find_receiver (h_systems s ! y) (ac_id (h_actors s ! c)) s = Done (Some c) s"
    using k(3) dec_no_nul by (simp add: find_receiver_def find_context_by_id_locked_def)
qed

lemma data_added_actors:
  "data_added s s' \<Longrightarrow> h_actors s' = h_actors s \<and> h_systems s' = h_systems s"
  by (auto simp: data_added_def)

lemma deliver_frame_run:
  assumes "wireable CREME_ACTOR_MAX_WIRE_DEPTH A d" "\<not> is_token d"
    and "actors_ok t" "y < length (h_systems t)" "c \<in> set (as_actors (h_systems t ! y))" "length (mailbox_items (inbox t c)) < 64"
  shows "\<exists>w t'. deliver_frame A y FRAME_DELIVER (build_deliver_body (ac_id (h_actors t ! c)) (wire_text d)) t = Done () t' \<and>
    has_datum t' w d \<and> mailbox_items (inbox t' c) = mailbox_items (inbox t c) @ [w] \<and>
    (\<forall>c'. c' \<noteq> c \<longrightarrow> inbox t' c' = inbox t c') \<and> actors_ok t'"
proof -
  from decode_message_run [OF assms(1,2), of t] obtain w t1 where
    w: "decode_message A (wire_text d) t = Done (Some w) t1" "data_added t t1" "has_datum t1 w d" by blast
  have same: "h_actors t1 = h_actors t" "h_systems t1 = h_systems t" using data_added_actors [OF w(2)] by simp_all
  have ok: "actors_ok t1" using assms(3) same by (simp add: actors_ok_def)
  note at = find_receiver_run [OF assms(3-5)]
  note found = find_receiver_run(1) [OF ok, of y c, unfolded same, OF assms(4,5)]
  let ?t = "with_inbox t1 c (mailbox_put (inbox t1 c) w)"
  have box: "inbox t1 c = inbox t c" using same by (simp add: inbox_def)
  have room: "mb_count (inbox t c) < MAILBOX_CAP" using assms(6) by (simp add: MAILBOX_CAP_def)
  have run: "deliver_frame A y FRAME_DELIVER (build_deliver_body (ac_id (h_actors t ! c)) (wire_text d)) t = Done () ?t"
    using w(1) found assms(4) at(2) room box same
    by (simp add: deliver_frame_def parse_built_body [OF at(4)] mailbox_send_run bindM_def)
  have put: "mailbox_ok (mailbox_put (inbox t c) w)" "mailbox_items (mailbox_put (inbox t c) w) = mailbox_items (inbox t c) @ [w]"
    using mailbox_put_correct [OF at(3) room] by simp_all
  have c: "c < length (h_actors t1)" using at(2) same by simp
  have "actors_ok ?t" using mailbox_change_ok [OF ok c] put(1) box by (simp add: with_inbox_def)
  moreover have "has_datum ?t w d" using w(3) by (rule has_datum_more [rotated]) (simp add: more_heap_def with_inbox_def)
  moreover have "inbox ?t c' = inbox t c'" if "c' \<noteq> c" for c' using that same by (simp add: inbox_def with_inbox_def)
  ultimately show ?thesis using run put(2) box c by (intro exI [of _ w] exI [of _ ?t]) simp
qed

text \<open>C38. A message on its way to another node: \<open>send!\<close> writes one frame to the connection to the actor's address, which is open already, and the loop
  that reads the frames at the other end puts a value with the same content, and nothing else, at the end of the mailbox of the one actor
  with that id, which must have room, and goes on with what follows the frame.  The content may be any tree of lists, vectors, strings, booleans, integers,
  characters and symbols that the text of a message tells apart: no more than 256 levels and 256 elements, no character x, no string
  that starts with @ref:, no list that starts with the string @record, no symbol that reads as a number, no float, record or actor
  reference, and no bare integer or symbol at the end of the frame, which has at most 16 MB.\<close>

theorem message_crosses_the_wire:
  assumes "has_datum s v d" "wireable CREME_ACTOR_MAX_WIRE_DEPTH A d" "\<not> is_token d"
    and "x < length (h_systems s)" "find_connection_locked x (connection_key (ar_addr r)) s = Done (Some k) s"
    and "k < length (h_connections s)" "cn_open (h_connections s ! k)" "os_write OS (h_os_calls s)"
    and "actors_ok t" "y < length (h_systems t)" "c \<in> set (as_actors (h_systems t ! y))" "ar_id r = ac_id (h_actors t ! c)"
    and "length (mailbox_items (inbox t c)) < 64" "2 + length (ar_id r) + length (wire_text d) \<le> CREME_ACTOR_MAX_FRAME"
  shows "\<exists>s' bs t' w. send_remote OS A x r v s = Done () s' \<and>
    cn_sent (h_connections s' ! k) = cn_sent (h_connections s ! k) @ bs \<and>
    (\<forall>n later. inbound_loop (Suc n) A y (bs @ later) t = inbound_loop n A y later t') \<and>
    has_datum t' w d \<and> mailbox_items (inbox t' c) = mailbox_items (inbox t c) @ [w] \<and>
    (\<forall>c'. c' \<noteq> c \<longrightarrow> inbox t' c' = inbox t c') \<and> actors_ok t'"
proof -
  let ?body = "build_deliver_body (ar_id r) (wire_text d)"
  let ?bs = "write_frame_fd FRAME_DELIVER ?body"
  let ?s = "s\<lparr>h_os_calls := Suc (h_os_calls s),
    h_connections := (h_connections s)[k := (h_connections s ! k)\<lparr>cn_sent := cn_sent (h_connections s ! k) @ ?bs\<rparr>]\<rparr>"
  have "send_remote OS A x r v s = Done () ?s"
    using assms(4-8) encode_message_run [OF assms(1,2)]
    by (simp add: send_remote_def bindM_def Let_def connection_for_def write_connection_def set_connection_def)
  moreover from deliver_frame_run [OF assms(2,3,9-11,13)] obtain w t' where
    w: "deliver_frame A y FRAME_DELIVER ?body t = Done () t'" "has_datum t' w d"
      "mailbox_items (inbox t' c) = mailbox_items (inbox t c) @ [w]" "\<forall>c'. c' \<noteq> c \<longrightarrow> inbox t' c' = inbox t c'" "actors_ok t'"
    using assms(12) by auto
  have "read_frame_fd CREME_ACTOR_MAX_FRAME (?bs @ later) = Some (FRAME_DELIVER, ?body, later)" for later
    using assms(14) by (intro read_written_frame) (simp_all add: FRAME_DELIVER_def CREME_ACTOR_MAX_FRAME_def build_deliver_body_def)
  then have "inbound_loop (Suc n) A y (?bs @ later) t = inbound_loop n A y later t'" for n later
    using w(1) by (simp add: bindM_def)
  ultimately show ?thesis using w(2-5) assms(6) by (intro exI [of _ ?s] exI [of _ ?bs] exI [of _ t'] exI [of _ w]) simp
qed

subsection \<open>The handshake\<close>

lemma byte_at_of: "b div 256 ^ k mod 256 = of_char c \<Longrightarrow> byte_at k b = c"
  unfolding byte_at_def by (metis char_of_mod_256 char_of_char)

lemma byte_less: "of_char (c::char) < (256::nat)"
  by simp

lemma four_bytes_back:
  assumes "b3 < 256" "b2 < 256" "b1 < 256" "b0 < (256::nat)" "n = ((b3 * 256 + b2) * 256 + b1) * 256 + b0"
  shows "n mod 256 = b0" "n div 256 mod 256 = b1" "n div 65536 mod 256 = b2" "n div 16777216 mod 256 = b3"
proof -
  have step: "(a * 256 + b) div 256 = a" "(a * 256 + b) mod 256 = b" if "b < 256" for a b :: nat using that by simp_all
  have d: "n div 65536 = n div 256 div 256" "n div 16777216 = n div 256 div 256 div 256" by (simp_all add: div_mult2_eq [symmetric])
  have n: "n div 256 = (b3 * 256 + b2) * 256 + b1" "n mod 256 = b0" by (simp_all only: assms(5) step [OF assms(4)])
  show "n mod 256 = b0" "n div 256 mod 256 = b1" "n div 65536 mod 256 = b2" "n div 16777216 mod 256 = b3"
    unfolding d n(1) by (simp_all only: n step [OF assms(3)] step [OF assms(2)] mod_less [OF assms(1)])
qed

lemma read_frame_written:
  assumes "read_frame_fd max_len inc = Some (ty, body, later)"
  shows "inc = write_frame_fd ty body @ later"
proof -
  from assms have "\<not> length inc < 5" by (simp add: read_frame_fd_def split: if_splits)
  then obtain c0 c1 c2 c3 c4 rest where inc: "inc = c0 # c1 # c2 # c3 # c4 # rest"
    by (auto simp: not_less numeral_eq_Suc Suc_le_length_iff)
  let ?n = "((of_char c1 * 256 + of_char c2) * 256 + of_char c3) * 256 + of_char c4 :: nat"
  have r: "?n \<le> length rest" "ty = of_char c0" "body = take ?n rest" "later = drop ?n rest"
    using assms by (auto simp: inc read_frame_fd_def Let_def split: if_splits)
  have n: "length body = ?n" using r(1,3) by simp
  note b = four_bytes_back [OF byte_less byte_less byte_less byte_less n]
  have "byte_at 3 (length body) = c1" "byte_at 2 (length body) = c2" "byte_at 1 (length body) = c3" "byte_at 0 (length body) = c4"
    by (rule byte_at_of, use b in simp)+
  then show ?thesis using inc r by (simp add: write_frame_fd_def)
qed

text \<open>A frame of the handshake: two halves of 32 bytes.\<close>

definition handshake_frame :: "bytes \<Rightarrow> bytes \<Rightarrow> bytes" where
  "handshake_frame nonce mac = write_frame_fd FRAME_HANDSHAKE (nonce @ mac)"

lemma handshake_frame_read:
  "read_frame_fd (NONCE_SIZE * 2) inc = Some (FRAME_HANDSHAKE, body, later) \<and> length body = NONCE_SIZE * 2 \<longleftrightarrow>
     length body = 64 \<and> inc = handshake_frame (take 32 body) (drop 32 body) @ later"
  using read_frame_written [of "NONCE_SIZE * 2" inc FRAME_HANDSHAKE body later]
    read_written_frame [of FRAME_HANDSHAKE body "NONCE_SIZE * 2" later]
  by (auto simp: handshake_frame_def NONCE_SIZE_def FRAME_HANDSHAKE_def)

lemma half_frames: "length a = 32 \<Longrightarrow> length b = 32 \<Longrightarrow>
    read_frame_fd (NONCE_SIZE * 2) (handshake_frame a b @ later) = Some (FRAME_HANDSHAKE, a @ b, later)"
  unfolding handshake_frame_def by (rule read_written_frame) (simp_all add: FRAME_HANDSHAKE_def NONCE_SIZE_def)

context os_spec
begin

lemma respond_run:
  assumes "os_random OS (h_os_calls s) = Some nonce" "os_write OS (Suc (h_os_calls s))"
  shows "(\<exists>s'. handshake_respond OS cookie inc s = Done (out, Some later) s') \<longleftrightarrow>
    (\<exists>n1. length n1 = 32 \<and> inc = handshake_frame n1 (os_hmac OS cookie n1) @ later \<and>
       out = handshake_frame nonce (os_hmac OS cookie (n1 @ nonce)))"
proof
  assume "\<exists>s'. handshake_respond OS cookie inc s = Done (out, Some later) s'"
  then obtain body where body: "read_frame_fd (NONCE_SIZE * 2) inc = Some (FRAME_HANDSHAKE, body, later)" "length body = NONCE_SIZE * 2"
      "drop NONCE_SIZE body = os_hmac OS cookie (take NONCE_SIZE body)"
      "out = handshake_frame nonce (os_hmac OS cookie (take NONCE_SIZE body @ nonce))"
    using assms by (auto simp: handshake_respond_def handshake_frame_def bindM_def split: option.splits if_splits prod.splits)
  then show "\<exists>n1. length n1 = 32 \<and> inc = handshake_frame n1 (os_hmac OS cookie n1) @ later \<and>
       out = handshake_frame nonce (os_hmac OS cookie (n1 @ nonce))"
    using handshake_frame_read [of inc body later] by (intro exI [of _ "take 32 body"]) (auto simp: NONCE_SIZE_def)
next
  assume "\<exists>n1. length n1 = 32 \<and> inc = handshake_frame n1 (os_hmac OS cookie n1) @ later \<and>
       out = handshake_frame nonce (os_hmac OS cookie (n1 @ nonce))"
  then obtain n1 where n1: "length n1 = NONCE_SIZE" "inc = handshake_frame n1 (os_hmac OS cookie n1) @ later"
      "out = handshake_frame nonce (os_hmac OS cookie (n1 @ nonce))" by (auto simp: NONCE_SIZE_def)
  have "read_frame_fd (NONCE_SIZE * 2) inc = Some (FRAME_HANDSHAKE, n1 @ os_hmac OS cookie n1, later)"
    unfolding n1(2) by (rule half_frames) (use n1(1) in \<open>simp_all add: NONCE_SIZE_def hmac_length\<close>)
  moreover have "length (os_hmac OS cookie n1) = NONCE_SIZE" by (simp add: hmac_length NONCE_SIZE_def)
  ultimately show "\<exists>s'. handshake_respond OS cookie inc s = Done (out, Some later) s'"
    using assms n1(1,3) by (simp add: handshake_respond_def handshake_frame_def bindM_def Let_def)
qed

lemma initiate_run:
  assumes "os_random OS (h_os_calls s) = Some nonce" "os_write OS (Suc (h_os_calls s))"
  shows "(\<exists>s'. handshake_initiate OS cookie inc s = Done (out, Some later) s') \<longleftrightarrow>
    (\<exists>n2. length n2 = 32 \<and> inc = handshake_frame n2 (os_hmac OS cookie (nonce @ n2)) @ later \<and>
       out = handshake_frame nonce (os_hmac OS cookie nonce))"
proof
  assume "\<exists>s'. handshake_initiate OS cookie inc s = Done (out, Some later) s'"
  then obtain body where body: "read_frame_fd (NONCE_SIZE * 2) inc = Some (FRAME_HANDSHAKE, body, later)" "length body = NONCE_SIZE * 2"
      "drop NONCE_SIZE body = os_hmac OS cookie (nonce @ take NONCE_SIZE body)" "out = handshake_frame nonce (os_hmac OS cookie nonce)"
    using assms by (auto simp: handshake_initiate_def handshake_frame_def bindM_def Let_def split: option.splits if_splits prod.splits)
  then show "\<exists>n2. length n2 = 32 \<and> inc = handshake_frame n2 (os_hmac OS cookie (nonce @ n2)) @ later \<and>
       out = handshake_frame nonce (os_hmac OS cookie nonce)"
    using handshake_frame_read [of inc body later] by (intro exI [of _ "take 32 body"]) (auto simp: NONCE_SIZE_def)
next
  assume "\<exists>n2. length n2 = 32 \<and> inc = handshake_frame n2 (os_hmac OS cookie (nonce @ n2)) @ later \<and>
       out = handshake_frame nonce (os_hmac OS cookie nonce)"
  then obtain n2 where n2: "length n2 = NONCE_SIZE" "inc = handshake_frame n2 (os_hmac OS cookie (nonce @ n2)) @ later"
      "out = handshake_frame nonce (os_hmac OS cookie nonce)" by (auto simp: NONCE_SIZE_def)
  have "read_frame_fd (NONCE_SIZE * 2) inc = Some (FRAME_HANDSHAKE, n2 @ os_hmac OS cookie (nonce @ n2), later)"
    unfolding n2(2) by (rule half_frames) (use n2(1) in \<open>simp_all add: NONCE_SIZE_def hmac_length\<close>)
  moreover have "length (os_hmac OS cookie (nonce @ n2)) = NONCE_SIZE" by (simp add: hmac_length NONCE_SIZE_def)
  ultimately show "\<exists>s'. handshake_initiate OS cookie inc s = Done (out, Some later) s'"
    using assms n2(1,3) by (simp add: handshake_initiate_def handshake_frame_def bindM_def Let_def)
qed

end

text \<open>C39. The handshake authenticates: the responder accepts exactly the peers whose first frame is a nonce with its digest under the same
  cookie, and answers with its own nonce and the digest of both; the initiator accepts exactly the peers whose answer has the digest
  of its own nonce and theirs.  What the responder accepts does not depend on its own nonce, so a recorded first frame is accepted again.\<close>

theorem handshake_authenticates:
  assumes "os_spec OS" "os_random OS (h_os_calls s) = Some nonce" "os_write OS (Suc (h_os_calls s))"
  shows "((\<exists>s'. handshake_respond OS cookie inc s = Done (out, Some later) s') \<longleftrightarrow>
      (\<exists>n1. length n1 = 32 \<and> inc = handshake_frame n1 (os_hmac OS cookie n1) @ later \<and>
         out = handshake_frame nonce (os_hmac OS cookie (n1 @ nonce)))) \<and>
    ((\<exists>s'. handshake_initiate OS cookie inc s = Done (out, Some later) s') \<longleftrightarrow>
      (\<exists>n2. length n2 = 32 \<and> inc = handshake_frame n2 (os_hmac OS cookie (nonce @ n2)) @ later \<and>
         out = handshake_frame nonce (os_hmac OS cookie nonce)))"
  using os_spec.respond_run [OF assms] os_spec.initiate_run [OF assms] by blast

subsection \<open>Examples\<close>

definition wire_sender :: vm where
  "wire_sender = vm0\<lparr>h_strs := [''hi''], h_pairs := [(VInt 7, VPair 1), (VStr 0, VNil)],
     h_systems := [g_default_system\<lparr>as_connections := [0]\<rparr>],
     h_connections := [\<lparr> cn_key = ''unix:/s'', cn_open = True, cn_sent = [] \<rparr>]\<rparr>"

definition far_actor :: actor_ref where
  "far_actor = \<lparr> ar_id = ''2'', ar_local_ctx = None, ar_addr = ADDR_UNIX ''/s'' \<rparr>"

lemma wireable_leaf: "wire_leaf A d \<Longrightarrow> wireable n A d"
  by (cases n) simp_all

lemma message_crosses_the_wire_witness:
  "\<exists>s' bs t' w. send_remote reference_os reference_arith 0 far_actor (VPair 0) wire_sender = Done () s' \<and>
    cn_sent (h_connections s' ! 0) = bs \<and> inbound_loop 2 reference_arith 0 bs two_actors = Done () t' \<and>
    has_datum t' w (DPair (DAtom (VInt 7)) (DPair (DText 5 ''hi'') (DAtom VNil))) \<and> mailbox_items (inbox t' 1) = [w]"
proof -
  let ?d = "DPair (DAtom (VInt 7)) (DPair (DText 5 ''hi'') (DAtom VNil))"
  have d: "has_datum wire_sender (VPair 0) ?d"
    by (simp add: has_datum_pair has_datum_str has_datum_leaf wire_sender_def)
  have depth: "CREME_ACTOR_MAX_WIRE_DEPTH = Suc 255" by (simp add: CREME_ACTOR_MAX_WIRE_DEPTH_def)
  have "wireable (Suc n) reference_arith ?d" for n
    by (simp add: wireable_list_def wireable_leaf plain_list_def int64_def INT64_MIN_def INT64_MAX_def)
  then have w: "wireable CREME_ACTOR_MAX_WIRE_DEPTH reference_arith ?d" unfolding depth .
  note ok = two_actors_ok
  have box: "mailbox_items (inbox two_actors 1) = []" by (simp add: two_actors_inboxes mailbox_init_ok)
  have count: "mb_count (inbox two_actors (Suc 0)) = 0" by (metis box length_mailbox_items list.size(3) One_nat_def)
  have digits: "length (dec_nat 7) \<le> Suc 0" by (rule length_dec_nat) simp
  have "\<exists>s' bs t' w. send_remote reference_os reference_arith 0 far_actor (VPair 0) wire_sender = Done () s' \<and>
    cn_sent (h_connections s' ! 0) = cn_sent (h_connections wire_sender ! 0) @ bs \<and>
    (\<forall>n later. inbound_loop (Suc n) reference_arith 0 (bs @ later) two_actors = inbound_loop n reference_arith 0 later t') \<and>
    has_datum t' w ?d \<and> mailbox_items (inbox t' 1) = mailbox_items (inbox two_actors 1) @ [w] \<and>
    (\<forall>c'. c' \<noteq> 1 \<longrightarrow> inbox t' c' = inbox two_actors c') \<and> actors_ok t'"
    by (rule message_crosses_the_wire [OF d w])
       (simp_all add: is_token_def wire_sender_def far_actor_def find_connection_locked_def connection_key_def reference_os_def
         two_actors_simps ok box wire_text.simps(4) CREME_ACTOR_MAX_FRAME_def write_string_escaped_def
         dec_def count order_trans [OF digits])
  moreover have sent: "cn_sent (h_connections wire_sender ! 0) = []" by (simp add: wire_sender_def)
  ultimately obtain s' bs t' w where r: "send_remote reference_os reference_arith 0 far_actor (VPair 0) wire_sender = Done () s'"
    "cn_sent (h_connections s' ! 0) = bs" "\<And>n later. inbound_loop (Suc n) reference_arith 0 (bs @ later) two_actors = inbound_loop n reference_arith 0 later t'"
    "has_datum t' w ?d" "mailbox_items (inbox t' 1) = [w]" unfolding box sent append_Nil by blast
  have "inbound_loop 2 reference_arith 0 bs two_actors = Done () t'"
    using r(3) [of 1 "[]"] by (simp add: numeral_2_eq_2 read_frame_fd_def)
  then show ?thesis using r by blast
qed

lemma handshake_authenticates_witness:
  "let a = replicate 32 (char_of (7::nat)); mac = reference_hmac ''secret'' in
   (\<exists>s'. handshake_respond reference_os ''secret'' (handshake_frame a (mac a) @ ''x'') vm0 =
      Done (handshake_frame a (mac (a @ a)), Some ''x'') s') \<and>
   (\<exists>s'. handshake_initiate reference_os ''secret'' (handshake_frame a (mac (a @ a)) @ ''y'') vm0 =
      Done (handshake_frame a (mac a), Some ''y'') s')"
proof -
  let ?a = "replicate 32 (char_of (7::nat) :: char)"
  have calls: "h_os_calls vm0 = 0"
    by (simp add: vm0_def creme_new_empty_vm_def creme_setup_frame0_def upd_frame_def initial_heap_def)
       (simp add: creme_alloc_vm_def heap.defs vm.defs)
  have os: "os_random reference_os (h_os_calls vm0) = Some ?a" "os_write reference_os (Suc (h_os_calls vm0))"
    "os_hmac reference_os = reference_hmac" by (simp_all add: reference_os_def calls)
  note accepts = handshake_authenticates [OF ref_os.os_spec_axioms os(1,2), of "''secret''", unfolded os(3)]
  note run = accepts [THEN conjunct1] accepts [THEN conjunct2]
  have "\<exists>s'. handshake_respond reference_os ''secret'' (handshake_frame ?a (reference_hmac ''secret'' ?a) @ ''x'') vm0 =
      Done (handshake_frame ?a (reference_hmac ''secret'' (?a @ ?a)), Some ''x'') s'"
    unfolding run(1) by (intro exI [of _ ?a]) simp
  moreover have "\<exists>s'. handshake_initiate reference_os ''secret'' (handshake_frame ?a (reference_hmac ''secret'' (?a @ ?a)) @ ''y'') vm0 =
      Done (handshake_frame ?a (reference_hmac ''secret'' ?a), Some ''y'') s'"
    unfolding run(2) by (intro exI [of _ ?a]) simp
  ultimately show ?thesis by (simp only: Let_def)
qed

end
