(* ===== verification/Spec2Isabelle.thy ===== *)
theory Spec2Isabelle
  imports Treelist_Spec Num_Spec Call_Spec Unwind_Spec Quicken_Spec List_Spec Fuel_Spec Radix_Spec
    Treelist_Builtin_Spec Hash_Spec Loader_Prefix Decimal_Spec Text_Spec Read_Halts Csv_Spec Json_Spec Num_Function_Spec String_Spec Wire_Spec
begin

text \<open>
  A model of icecreme, the C virtual machine of the creme Scheme implementation (directory icecreme/ of
  the sources), with the properties that make its parts correct.

  \<^bold>\<open>The program.\<close>  A creme program is compiled to an ICE file.  loader.c reads the file, checks it and
  interns its global names; vm.c runs the chunks: a register machine with one array of values as stack,
  an array of frames, heap-allocated closures and upvalues, a table of global cells that starts with the
  builtins, and three side stacks (guard handlers, unwind actions, exception handlers).  builtins.c and one file per
  library (treelist.c, radix.c, hashtable.c, strings.c, bigdecimal.c, csv.c, json.c, actor.c) supply the builtins; a builtin is a
  C function of the VM and an array of arguments, and may call back into Scheme through \<open>creme_apply\<close>.  Errors are
  conditions: \<open>creme_abort\<close> raises one, and it is delivered with longjmp to the nearest dispatch loop with a guard.

  \<^bold>\<open>How it is modelled.\<close>
  \<^item> Value_Model has the tagged values (\<open>val\<close>), the heap objects, chunks, frames and the state (\<open>vm\<close>) as
    records with the fields of value.h and vm.h; a pointer is an address in the list that holds the objects of its
    type.  VM_Monad has the way a C function runs: a function from the state to \<open>Done\<close>
    (a result and the new state), \<open>Longjmp\<close> (a condition on its way to the dispatch loop with the guard), \<open>Exit\<close> and
    \<open>ActorExit\<close> (no guard is left: the process or the actor's thread ends with the message), \<open>Stuck\<close> (behaviour the C standard leaves undefined) or \<open>Timeout\<close> (out of
    fuel).  VM_Init is the initial state.
  \<^item> Creme_Prelude: bytes, C integers, text helpers, and \<open>'a res\<close>, the result of a function without a state
    (\<open>Inl\<close> an error, \<open>Inr\<close> a value), with \<open>rbind\<close>.
  \<^item> Externals: what is not in the repository.  \<open>arith\<close> is the record of the GMP functions, the double
    arithmetic, the libm functions by name, and the conversions between doubles and text.  The locale \<open>gmp_spec\<close> states
    that the rational and integer functions of GMP are exact; \<open>gmp_more\<close> (Num_Function_Spec) extends it by the division that
    rounds up, powers and the root with remainder, \<open>gmp_text\<close> (String_Spec) by the conversions in a base.  Nothing
    is assumed of the double arithmetic.  \<open>host\<close> is the index map of the hash tables (the Verstable library), the addresses of
    objects as the hash uses them, and the system calls, with the laws \<open>host_spec\<close> of a map (Hash_Props).  OS_Calls has the
    system calls of the actors, a record \<open>os\<close> (threads, random bytes, sockets, the digest), with the law \<open>os_spec\<close> that nonces and digests have
    32 bytes.  \<open>reference_arith\<close>, \<open>reference_host\<close> and \<open>reference_os\<close>
    are concrete instances on which the locales are interpreted; the witnesses compute with them.

  \<^bold>\<open>Theories and files.\<close>
  \<^item> Numeric, Num_Builtins, Num_Functions: the numeric tower of vm.c and the arithmetic and numeric builtins of builtins.c.
    Numeric_Props, Int_Props, Num_Spec and Num_Function_Spec: canonical forms are kept, the operations are those of the
    rationals and Gaussian rationals, division, gcd/lcm and the integer square root are those of the integers, rounding is exact,
    and the shuffle permutes.
  \<^item> VM_Core, VM_Calls, Opcodes, VM_Ops, VM_Step: globals, upvalues, closures, unwinding, continuations, records,
    calls, and the dispatch loop with every opcode and inline cache.  Call_Props, Unwind_Props, Quicken_Props and Fuel_Props hold
    the logic of each group (frames that stay, values that are restored, calls that agree, monotonicity in the
    fuel); \<open>param_step\<close> of Unwind_Spec is what may happen to the parameters under a guard or a \<open>call/cc\<close> whose restoration is
    claimed; Call_Spec, Unwind_Spec, Quicken_Spec and Fuel_Spec their properties.
  \<^item> Builtin_Lists, Builtin_Control, Builtin_Errors, Builtin_Strings, Builtin_Vectors, Embed_Args, Builtin_Table: the core builtins, the
    argument checks of embed.h and the table from C function names to models, through which \<open>VM_Step\<close> runs them.
    Heap_Lists relates pairs of the heap to lists (\<open>chain\<close>); List_Props and List_Spec give the list builtins and Floyd's cycle test.
  \<^item> String_Lib: strings.c, from \<open>string-split\<close> to \<open>format\<close>.  String_Spec: splitting and joining are inverse, replacing is
    splitting and joining, numbers survive printing and reading in every base, \<open>string<?\<close> is the lexical order of
    bytes, and the copies between overlapping ranges are simultaneous.
  \<^item> C_Text, Ports, Reader, Writer: the ports, the reader (with datum labels) and the printers (with the marks of shared structure) of
    builtins.c.  Text_Props and Text_Read relate text to data, Text_Spec has the round trip of \<open>write\<close> and \<open>read\<close>,
    Read_Halts that \<open>read\<close> ends on text without a bar, and that it does not on a bar.
  \<^item> Big_Decimal, Decimal_Spec: bigdecimal.c and its arithmetic on the rationals m / 10 ^ s.
  \<^item> Csv, Csv_Spec and Json, Json_Props, Json_Spec: the parsers and writers of csv.c and json.c, the data a document denotes,
    and the round trips; what \<open>json-read\<close> returns has the type of JSON data, whatever the bytes.
  \<^item> Treelist_Core, Builtin_Treelist: the relaxed radix balanced trees of treelist.c and their builtins.  Treelist_Props,
    Treelist_Seq (the interfaces \<open>persistent_seq\<close> and \<open>persistent_deque\<close> and their interpretations) and Treelist_Spec give the engine,
    VM_Invariants, Treelist_Builtin_Props and Treelist_Builtin_Spec the builtins.
  \<^item> Radix_Core, Builtin_Radix: the routing trie of radix.c.  Radix_Props gives the map a trie denotes,
    Radix_Find what a lookup prefers, Kv_Store the interface of a store, Radix_Spec the properties.
  \<^item> Builtin_Hash: hashing and the hash tables.  Equal_Props relates \<open>equal?\<close> and the hash to
    finite data, Hash_Props and Hash_Spec the tables to association lists.
  \<^item> Loader: the reader, the validation and the resolution of globals of loader.c.  Loader_Props is a Hoare logic for readers,
    Loader_Spec what a loaded chunk satisfies, Loader_Prefix that a body cannot be truncated.
  \<^item> Actors, Actor_Net: actor.c.  Actors has the mailboxes, the contexts, the systems with their names and monitors, spawning, the end
    of an actor and the builtins that stay in the process; Actor_Net the text of messages, addresses, frames, the handshake, connections and
    nodes.  A call that would wait in a run of one thread is \<open>Timeout\<close>.  Actor_Spec: a mailbox is a bounded queue (the interface \<open>bounded_queue\<close>,
    interpreted on the ring buffer), \<open>actor_step\<close> is one section that a mutex protects, so sequences of steps are the interleavings of the
    threads, and what the watchers of an actor that ends receive.  Wire_Spec: what the handshake accepts, and a message that crosses
    from one node to another.
  \<^bold>\<open>Fuel.\<close>  The loop of \<open>creme_dispatch\<close> may run forever, so \<open>run_loop\<close> and what calls it take a fuel
  and return \<open>Timeout\<close> at 0; \<open>outcome_independent_of_fuel\<close> shows that more fuel never changes an
  outcome.  Walks over heap lists that may be circular take the number of pairs of the heap (or twice
  that) as fuel and \<open>list_p_decides\<close> and the \<open>chain\<close> lemmas show it is enough.  \<open>read\<close> takes a fuel for its
  tokens; \<open>read_terminates\<close> gives the amount that suffices and \<open>read_bar_diverges\<close> the input for which none does.  The nesting bounds of
  the loader and of the JSON parser are those of the C code.

  \<^bold>\<open>Not modelled.\<close>  Wrappers of libraries that are not in the repository, where the code only passes arguments on: YAML (libyaml),
  SQL (SQLite), zstd, digests, ciphers, keys and certificates (OpenSSL), foreign functions (libffi), regular expressions (PCRE2).
  System calls: opening files, the environment, processes, the terminal, the clock, the HTTP client and
  server; of the actors the sockets themselves and the thread that accepts connections (\<open>handle_inbound_main\<close> runs for one
  that has been accepted, on the bytes its peer will send).  The host-facing calls of embed.c, \<open>eval\<close> in the REPL, the registration tables of the bootstrap, the profiler and the
  build tools.  Of the modelled parts: memory is never exhausted and never freed, an array that grows is a list, strings, vectors and
  bytevectors are never longer than a C \<open>int\<close> can count,
  and the fields of the state only these parts use are left out.
\<close>

end
